(* ===== verification/IPACM_Prelude.thy ===== *)
theory IPACM_Prelude
  imports Main "HOL-Library.Word"
begin

text \<open>
  Shared vocabulary of the development: machine integers at their C widths, the byte-order
  helpers of the C library, the counted search loop
  \<open>for (i = 0; i < n; i++) if (P(i)) break;\<close> as \<open>find_idx\<close>, the counted loop without
  an early exit as a \<open>fold\<close> over \<open>[0..<n]\<close> with its invariant rules, and counting
  lemmas for arrays that are lists updated by index.
\<close>

unbundle bit_operations_syntax

type_synonym u8 = "8 word"
type_synonym u16 = "16 word"
type_synonym u32 = "32 word"
type_synonym u64 = "64 word"

named_theorems loop_simps \<open>equations for counted loops and searches\<close>
named_theorems inv_intros \<open>preservation lemmas of the component invariants\<close>

subsection \<open>Return codes\<close>

text \<open>\<open>IPACM_SUCCESS\<close> and \<open>IPACM_FAILURE\<close> of \<open>IPACM_Defs.h\<close>.\<close>

definition IPACM_SUCCESS :: int where "IPACM_SUCCESS = 0"

definition IPACM_FAILURE :: int where "IPACM_FAILURE = -1"

lemma ret_codes_distinct [simp]:
  "IPACM_FAILURE \<noteq> IPACM_SUCCESS" "IPACM_SUCCESS \<noteq> IPACM_FAILURE"
  by (simp_all add: IPACM_SUCCESS_def IPACM_FAILURE_def)

subsection \<open>Byte order\<close>

text \<open>
  The target (ARM, little endian) makes \<open>htonl\<close>/\<open>ntohl\<close> and \<open>htons\<close>/\<open>ntohs\<close>
  byte swaps.
\<close>

definition htonl :: "u32 \<Rightarrow> u32" where
  "htonl w =
     push_bit 24 (w AND 0xFF) OR push_bit 8 (w AND 0xFF00) OR
     (drop_bit 8 w AND 0xFF00) OR (drop_bit 24 w AND 0xFF)"

definition ntohl :: "u32 \<Rightarrow> u32" where "ntohl = htonl"

definition htons :: "u16 \<Rightarrow> u16" where
  "htons w = push_bit 8 (w AND 0xFF) OR (drop_bit 8 w AND 0xFF)"

definition ntohs :: "u16 \<Rightarrow> u16" where "ntohs = htons"

subsection \<open>Counted searches\<close>

text \<open>
  The index a search loop stops at: the first \<open>i < n\<close> with \<open>P i\<close>, and \<open>n\<close> when
  there is none (the value of the C counter after the loop).
\<close>

definition find_idx :: "(nat \<Rightarrow> bool) \<Rightarrow> nat \<Rightarrow> nat" where
  "find_idx P n = (case find P [0..<n] of None \<Rightarrow> n | Some i \<Rightarrow> i)"

lemma find_idx_None: "find P [0..<n] = None \<longleftrightarrow> (\<forall>i<n. \<not> P i)"
  by (simp add: find_None_iff)

lemma find_idx_Some:
  "find P [0..<n] = Some k \<longleftrightarrow> k < n \<and> P k \<and> (\<forall>i<k. \<not> P i)"
  by (auto simp: find_Some_iff)

lemma find_idx_cases:
  obtains (found) "find_idx P n < n" "P (find_idx P n)" "\<forall>i<find_idx P n. \<not> P i"
  | (absent) "find_idx P n = n" "\<forall>i<n. \<not> P i"
proof (cases "find P [0..<n]")
  case None
  then have "find_idx P n = n" and "\<forall>i<n. \<not> P i"
    by (simp_all add: find_idx_def flip: find_idx_None)
  then show ?thesis by (rule absent)
next
  case (Some k)
  then have "find_idx P n = k" and "k < n \<and> P k \<and> (\<forall>i<k. \<not> P i)"
    by (simp_all add: find_idx_def flip: find_idx_Some)
  then show ?thesis using found by simp
qed

lemma find_idx_le: "find_idx P n \<le> n"
  by (rule find_idx_cases [of P n]) auto

lemma find_idx_less_iff [loop_simps]: "find_idx P n < n \<longleftrightarrow> (\<exists>i<n. P i)"
  by (rule find_idx_cases [of P n]) auto

lemma find_idx_eq_iff [loop_simps]: "find_idx P n = n \<longleftrightarrow> (\<forall>i<n. \<not> P i)"
  by (rule find_idx_cases [of P n]) auto

lemma find_idx_sat: "find_idx P n < n \<Longrightarrow> P (find_idx P n)"
  by (rule find_idx_cases [of P n]) auto

lemma find_idx_least: "i < find_idx P n \<Longrightarrow> \<not> P i"
  by (rule find_idx_cases [of P n]) auto

lemma find_idx_eqI: "k < n \<Longrightarrow> P k \<Longrightarrow> (\<And>i. i < k \<Longrightarrow> \<not> P i) \<Longrightarrow> find_idx P n = k"
  by (metis find_idx_least find_idx_less_iff find_idx_sat linorder_neqE_nat)

lemma find_idx_cong:
  "(\<And>i. i < n \<Longrightarrow> P i = Q i) \<Longrightarrow> find_idx P n = find_idx Q n"
  unfolding find_idx_def by (auto intro!: arg_cong [where f = "\<lambda>r. case r of None \<Rightarrow> n | Some i \<Rightarrow> i"] find_cong)

lemma find_idx_unique:
  "k < n \<Longrightarrow> P k \<Longrightarrow> (\<And>i. i < n \<Longrightarrow> P i \<Longrightarrow> i = k) \<Longrightarrow> find_idx P n = k"
  by (rule find_idx_eqI) (use less_trans in blast)+

subsection \<open>Counted loops\<close>

text \<open>
  \<open>for (i = 0; i < n; i++) body(i)\<close> with \<open>continue\<close> but no \<open>break\<close>: a fold over
  the indices. An invariant that every iteration keeps holds after the loop; the second rule
  lets the invariant speak of the index that is next.
\<close>

abbreviation for_upto :: "nat \<Rightarrow> (nat \<Rightarrow> 's \<Rightarrow> 's) \<Rightarrow> 's \<Rightarrow> 's" where
  "for_upto n body \<equiv> fold body [0..<n]"

lemma for_upto_Suc [loop_simps]: "for_upto (Suc n) body s = body n (for_upto n body s)"
  by simp

lemma for_upto_inv:
  assumes "\<And>i s. i < n \<Longrightarrow> I s \<Longrightarrow> I (body i s)" and "I s"
  shows "I (for_upto n body s)"
  using assms by (induction n) auto

lemma for_upto_inv_idx:
  assumes "\<And>i s. i < n \<Longrightarrow> I i s \<Longrightarrow> I (Suc i) (body i s)" and "I 0 s"
  shows "I n (for_upto n body s)"
  using assms by (induction n) auto

subsection \<open>Arrays as lists\<close>

lemma all_set_update:
  "(\<forall>x\<in>set xs. P x) \<Longrightarrow> P v \<Longrightarrow> \<forall>x\<in>set (xs[i := v]). P x"
  using set_update_subset_insert [of xs i v] by blast

lemma count_update:
  "i < length xs \<Longrightarrow>
     length (filter P (xs[i := v])) + (if P (xs ! i) then 1 else 0) =
     length (filter P xs) + (if P v then 1 else 0)"
proof (induction xs arbitrary: i)
  case Nil
  then show ?case by simp
next
  case (Cons x xs)
  show ?case
  proof (cases i)
    case 0
    then show ?thesis by simp
  next
    case (Suc k)
    with Cons.prems Cons.IH [of k] show ?thesis by auto
  qed
qed

lemma count_le_length: "length (filter P xs) \<le> length xs"
  by (rule length_filter_le)

end
