(* ===== verification/Slot_Array.thy ===== *)
theory Slot_Array
  imports IPACM_Prelude
begin

text \<open>
  Fixed arrays of keyed slots. The configuration manager keeps its tables as C arrays in which
  a cell is either free (zeroed) or holds an entry identified by some of its fields: the NAT
  cache and the temporary NAT entries (a five-tuple). The locale states what such a cell type
  provides, and its lemmas say how clearing, filling and rewriting a cell act on
  \<open>no two occupied cells share a key\<close> and on the number of occupied cells.
\<close>

locale slot_cells =
  fixes key :: "'a \<Rightarrow> 'k"
    and occ :: "'a \<Rightarrow> bool"
    and clear :: 'a
  assumes clear_free: "\<not> occ clear"
    and occ_by_key: "key a = key b \<Longrightarrow> occ a = occ b"
begin

definition uniq :: "'a list \<Rightarrow> bool" where
  "uniq xs \<longleftrightarrow>
     (\<forall>i j. i < length xs \<longrightarrow> j < length xs \<longrightarrow> occ (xs ! i) \<longrightarrow> key (xs ! i) = key (xs ! j) \<longrightarrow> i = j)"

definition used :: "'a list \<Rightarrow> nat" where
  "used xs = length (filter occ xs)"

lemma uniq_replicate_clear: "uniq (replicate n clear)"
  using clear_free by (auto simp: uniq_def)

lemma used_replicate_clear: "used (replicate n clear) = 0"
  using clear_free by (simp add: used_def)

lemma used_le: "used xs \<le> length xs"
  unfolding used_def by (rule length_filter_le)

lemma uniq_rewrite:
  assumes "uniq xs" and "i < length xs" and "key v = key (xs ! i)"
  shows "uniq (xs[i := v])"
proof -
  have "occ v = occ (xs ! i)" using assms(3) by (rule occ_by_key)
  moreover have "key (xs[i := v] ! j) = key (xs ! j)" for j
    using assms(2,3) by (cases "j = i") auto
  moreover have "occ (xs[i := v] ! j) = occ (xs ! j)" for j
    using assms(2) calculation(1) by (cases "j = i") auto
  ultimately show ?thesis using assms(1) by (simp add: uniq_def)
qed

lemma used_rewrite:
  assumes "i < length xs" and "key v = key (xs ! i)"
  shows "used (xs[i := v]) = used xs"
  using count_update [OF assms(1), of occ v] occ_by_key [OF assms(2)] by (simp add: used_def split: if_splits)

lemma uniq_clear:
  assumes "uniq xs"
  shows "uniq (xs[i := clear])"
proof (cases "i < length xs")
  case True
  have "occ x \<Longrightarrow> key x \<noteq> key clear" for x
    using clear_free occ_by_key [of x clear] by auto
  with True assms show ?thesis using clear_free by (auto simp: uniq_def nth_list_update)
next
  case False
  with assms show ?thesis by (simp add: list_update_beyond)
qed

lemma used_clear:
  assumes "i < length xs" and "occ (xs ! i)"
  shows "int (used (xs[i := clear])) = int (used xs) - 1"
  using count_update [OF assms(1), of occ clear] assms(2) clear_free by (simp add: used_def)

lemma uniq_fill:
  assumes "uniq xs" and "\<not> occ (xs ! i)" and "\<And>j. j < length xs \<Longrightarrow> key (xs ! j) \<noteq> key v"
  shows "uniq (xs[i := v])"
proof (cases "i < length xs")
  case True
  show ?thesis
    unfolding uniq_def
  proof (intro allI impI)
    fix a b
    assume "a < length (xs[i := v])" "b < length (xs[i := v])" "occ (xs[i := v] ! a)"
      "key (xs[i := v] ! a) = key (xs[i := v] ! b)"
    then show "a = b"
      using True assms(1) assms(3) [of a] assms(3) [of b]
      by (cases "a = i"; cases "b = i") (auto simp: uniq_def)
  qed
next
  case False
  with assms(1) show ?thesis by (simp add: list_update_beyond)
qed

lemma used_fill:
  assumes "i < length xs" and "\<not> occ (xs ! i)" and "occ v"
  shows "used (xs[i := v]) = Suc (used xs)"
  using count_update [OF assms(1), of occ v] assms(2,3) by (simp add: used_def)

lemma uniq_ConsD: "uniq (x # xs) \<Longrightarrow> uniq xs"
  unfolding uniq_def by (metis Suc_inject Suc_less_eq length_Cons nth_Cons_Suc)

lemma uniq_Cons_new:
  assumes "uniq (x # xs)" and "occ x"
  shows "key x \<notin> key ` set xs"
proof
  assume "key x \<in> key ` set xs"
  then obtain j where "j < length xs" and "key x = key (xs ! j)" by (auto simp: in_set_conv_nth)
  then show False
    using assms(1)[unfolded uniq_def, rule_format, of 0 "Suc j"] assms(2) by simp
qed

lemma uniq_ConsI:
  assumes "uniq xs" and "occ x \<Longrightarrow> key x \<notin> key ` set xs"
  shows "uniq (x # xs)"
  unfolding uniq_def
proof (intro allI impI)
  fix i j
  assume a: "i < length (x # xs)" "j < length (x # xs)" "occ ((x # xs) ! i)"
    "key ((x # xs) ! i) = key ((x # xs) ! j)"
  show "i = j"
    using a assms occ_by_key [OF a(4)]
    by (cases i; cases j) (auto simp: uniq_def image_iff dest: nth_mem dest!: sym [of "key (xs ! _)"])
qed

lemma key_filter_occ: "occ x \<Longrightarrow> key x \<in> key ` set (filter occ xs) \<longleftrightarrow> key x \<in> key ` set xs"
proof
  assume "occ x" and "key x \<in> key ` set xs"
  then obtain y where "y \<in> set xs" and "key x = key y" by blast
  moreover from this \<open>occ x\<close> have "occ y" using occ_by_key by blast
  ultimately show "key x \<in> key ` set (filter occ xs)" by auto
qed auto

lemma distinct_iff_uniq: "distinct (map key (filter occ xs)) \<longleftrightarrow> uniq xs"
proof (induction xs)
  case Nil
  then show ?case by (simp add: uniq_def)
next
  case (Cons x xs)
  show ?case
    using Cons.IH uniq_ConsD [of x xs] uniq_Cons_new [of x xs] uniq_ConsI [of xs x] key_filter_occ [of x xs]
    by auto
qed

text \<open>The keys stored in the array.\<close>

definition keys :: "'a list \<Rightarrow> 'k set" where
  "keys xs = key ` {x \<in> set xs. occ x}"

lemma keys_nth: "k \<in> keys xs \<longleftrightarrow> (\<exists>i<length xs. occ (xs ! i) \<and> key (xs ! i) = k)"
  by (auto simp: keys_def in_set_conv_nth)

lemma keys_member: "occ x \<Longrightarrow> key x \<in> keys xs \<longleftrightarrow> (\<exists>i<length xs. key (xs ! i) = key x)"
  using occ_by_key unfolding keys_nth by metis

lemma keys_clear:
  assumes "uniq xs" and "i < length xs" and "occ (xs ! i)"
  shows "keys (xs[i := clear]) = keys xs - {key (xs ! i)}"
proof (rule set_eqI)
  fix k
  have "j = i" if "j < length xs" "occ (xs ! j)" "key (xs ! j) = key (xs ! i)" for j
    using assms that unfolding uniq_def by blast
  then show "k \<in> keys (xs[i := clear]) \<longleftrightarrow> k \<in> keys xs - {key (xs ! i)}"
    using assms(2) clear_free by (auto simp: keys_nth nth_list_update) metis
qed

lemma keys_fill:
  assumes "i < length xs" and "\<not> occ (xs ! i)" and "occ v"
  shows "keys (xs[i := v]) = insert (key v) (keys xs)"
proof (rule set_eqI)
  fix k
  show "k \<in> keys (xs[i := v]) \<longleftrightarrow> k \<in> insert (key v) (keys xs)"
    using assms by (auto simp: keys_nth nth_list_update intro: exI [of _ i])
qed

lemma keys_rewrite:
  assumes "key v = key (xs ! i)"
  shows "keys (xs[i := v]) = keys xs"
proof (cases "i < length xs")
  case True
  have "occ (xs[i := v] ! j) = occ (xs ! j)" and "key (xs[i := v] ! j) = key (xs ! j)" for j
    using True assms occ_by_key [OF assms] by (cases "j = i"; simp)+
  then show ?thesis by (auto simp: keys_nth)
qed (simp add: list_update_beyond)

lemma keys_eqI:
  assumes "length xs = length ys" and "\<And>j. j < length ys \<Longrightarrow> key (xs ! j) = key (ys ! j)"
  shows "keys xs = keys ys"
proof -
  have "j < length ys \<Longrightarrow> occ (xs ! j) = occ (ys ! j)" for j using assms(2) occ_by_key by blast
  with assms have "k \<in> keys xs \<longleftrightarrow> k \<in> keys ys" for k by (auto simp: keys_nth)
  then show ?thesis by blast
qed

lemma used_eqI:
  assumes "length xs = length ys" and "\<And>j. j < length ys \<Longrightarrow> key (xs ! j) = key (ys ! j)"
  shows "used xs = used ys"
proof -
  have "j < length ys \<Longrightarrow> occ (xs ! j) = occ (ys ! j)" for j
    by (rule occ_by_key) (rule assms(2))
  then have "map occ xs = map occ ys" using assms(1) by (simp add: list_eq_iff_nth_eq)
  then have "length (filter id (map occ xs)) = length (filter id (map occ ys))" by simp
  then show ?thesis by (simp add: used_def filter_map o_def)
qed

lemma card_keys: "uniq xs \<Longrightarrow> card (keys xs) = used xs"
proof -
  assume "uniq xs"
  then have "card (set (map key (filter occ xs))) = length (map key (filter occ xs))"
    using distinct_iff_uniq distinct_card by blast
  then show ?thesis by (simp add: keys_def used_def)
qed

lemma used_full: "used xs = length xs \<Longrightarrow> i < length xs \<Longrightarrow> occ (xs ! i)"
  using length_filter_less [of "xs ! i" xs occ] by (auto simp: used_def)

end

end
