(* ===== verification/NatApp.thy ===== *)
theory NatApp
  imports Slot_Array
begin

text \<open>
  The NAT application (\<open>ipacm/src/IPACM_Conntrack_NATApp.cpp\<close>): the cache of NAT entries,
  the temporary entries, the power-save list, and every public operation of the class
  \<open>NatApp\<close>. The NAT driver (\<open>ipanat\<close>), the conntrack library and the two files under
  \<open>/proc\<close> are reached through the record \<open>nat_env\<close> over a world of type \<open>'w\<close>, so
  every theorem here holds for every driver and every kernel. Debug output is left out.
\<close>

subsection \<open>Data\<close>

text \<open>\<open>nat_table_entry\<close>: one entry of the cache. The driver's rule has the fields the driver
  is given (\<open>ipa_nat_ipv4_rule\<close>).\<close>

record nat_table_entry =
  private_ip :: u32
  private_port :: u16
  target_ip :: u32
  target_port :: u16
  public_ip :: u32
  public_port :: u16
  protocol :: u8
  timestamp :: u32
  dst_nat :: bool
  enabled :: bool
  rule_hdl :: u32

record ipa_nat_ipv4_rule =
  r_target_ip :: u32
  r_private_ip :: u32
  r_target_port :: u16
  r_private_port :: u16
  r_public_port :: u16
  r_protocol :: u8

record ipacm_alg =
  alg_protocol :: u8
  alg_port :: u16

text \<open>The conntrack object of \<open>UpdateCTUdpTs\<close>: the attributes the code sets.\<close>

record nf_conntrack =
  ATTR_L3PROTO :: u8
  ATTR_L4PROTO :: u8
  ATTR_TIMEOUT :: u32
  ATTR_IPV4_SRC :: u32
  ATTR_PORT_SRC :: u16
  ATTR_IPV4_DST :: u32
  ATTR_PORT_DST :: u16

text \<open>Reading a number from a file: it does not open, does not parse, or gives a number.\<close>

datatype proc_read = OpenFailed | ScanFailed | ScanOk u32

text \<open>
  What the class calls outside itself. Out-parameters are passed their old value and return
  the new one; the integer is the C return value.
\<close>

record 'w nat_env =
  ipa_nat_add_ipv4_tbl :: "u32 \<Rightarrow> u16 \<Rightarrow> u32 \<Rightarrow> 'w \<Rightarrow> int \<times> u32 \<times> 'w"
  ipa_nat_del_ipv4_tbl :: "u32 \<Rightarrow> 'w \<Rightarrow> int \<times> 'w"
  ipa_nat_add_ipv4_rule :: "u32 \<Rightarrow> ipa_nat_ipv4_rule \<Rightarrow> u32 \<Rightarrow> 'w \<Rightarrow> int \<times> u32 \<times> 'w"
  ipa_nat_del_ipv4_rule :: "u32 \<Rightarrow> u32 \<Rightarrow> 'w \<Rightarrow> int \<times> 'w"
  ipa_nat_query_timestamp :: "u32 \<Rightarrow> u32 \<Rightarrow> u32 \<Rightarrow> 'w \<Rightarrow> int \<times> u32 \<times> 'w"
  nfct_open :: "'w \<Rightarrow> bool \<times> 'w"
  nfct_new :: "'w \<Rightarrow> nf_conntrack option \<times> 'w"
  nfct_query :: "nf_conntrack \<Rightarrow> 'w \<Rightarrow> int \<times> 'w"
  read_proc :: "string \<Rightarrow> 'w \<Rightarrow> proc_read"

text \<open>The members of the class; \<open>nALGPort\<close> is the length of \<open>pALGPorts\<close>, \<open>ct_hdl\<close>
  says whether the handle is open.\<close>

record 'w natapp =
  cache :: "nat_table_entry list"
  temp :: "nat_table_entry list"
  pub_ip_addr :: u32
  pub_ip_addr_pre :: u32
  nat_table_hdl :: u32
  curCnt :: int
  max_entries :: nat
  pALGPorts :: "ipacm_alg list"
  tcp_timeout :: u32
  udp_timeout :: u32
  PwrSaveIfs :: "u32 list"
  ct :: "nf_conntrack option"
  ct_hdl :: bool
  world :: 'w

definition MAX_TEMP_ENTRIES :: nat where "MAX_TEMP_ENTRIES = 25"

definition IPA_MAX_NUM_WIFI_CLIENTS :: nat where "IPA_MAX_NUM_WIFI_CLIENTS = 32"

definition INVALID_IP_ADDR :: u32 where "INVALID_IP_ADDR = 0"

definition AF_INET :: u8 where "AF_INET = 2"

definition IPPROTO_TCP :: u8 where "IPPROTO_TCP = 6"

definition IPPROTO_UDP :: u8 where "IPPROTO_UDP = 17"

definition IPACM_TCP_FULL_FILE_NAME :: string where
  "IPACM_TCP_FULL_FILE_NAME = ''/proc/sys/net/ipv4/netfilter/ip_conntrack_tcp_timeout_established''"

definition IPACM_UDP_FULL_FILE_NAME :: string where
  "IPACM_UDP_FULL_FILE_NAME = ''/proc/sys/net/ipv4/netfilter/ip_conntrack_udp_timeout_stream''"

text \<open>The zeroed entry that \<open>memset(&e, 0, sizeof(e))\<close> leaves.\<close>

definition zero_entry :: nat_table_entry where
  "zero_entry = \<lparr>private_ip = 0, private_port = 0, target_ip = 0, target_port = 0, public_ip = 0,
     public_port = 0, protocol = 0, timestamp = 0, dst_nat = False, enabled = False, rule_hdl = 0\<rparr>"

text \<open>The five fields that identify a connection, and the comparison the loops make.\<close>

type_synonym five_tuple = "u32 \<times> u32 \<times> u16 \<times> u16 \<times> u8"

definition entry_key :: "nat_table_entry \<Rightarrow> five_tuple" where
  "entry_key e = (private_ip e, target_ip e, private_port e, target_port e, protocol e)"

definition entry_matches :: "nat_table_entry \<Rightarrow> nat_table_entry \<Rightarrow> bool" where
  "entry_matches c rule \<longleftrightarrow>
     private_ip c = private_ip rule \<and> target_ip c = target_ip rule \<and>
     private_port c = private_port rule \<and> target_port c = target_port rule \<and>
     protocol c = protocol rule"

definition entry_is_free :: "nat_table_entry \<Rightarrow> bool" where
  "entry_is_free c \<longleftrightarrow>
     private_ip c = 0 \<and> target_ip c = 0 \<and> private_port c = 0 \<and> target_port c = 0 \<and> protocol c = 0"

text \<open>The guard \<open>Invalid Connection\<close> of \<open>AddEntry\<close> and \<open>CacheEntry\<close>.\<close>

definition entry_is_invalid :: "nat_table_entry \<Rightarrow> bool" where
  "entry_is_invalid rule \<longleftrightarrow>
     private_ip rule = 0 \<or> target_ip rule = 0 \<or> private_port rule = 0 \<or> target_port rule = 0 \<or>
     protocol rule = 0"

definition nat_rule_of :: "nat_table_entry \<Rightarrow> ipa_nat_ipv4_rule" where
  "nat_rule_of e = \<lparr>r_target_ip = target_ip e, r_private_ip = private_ip e,
     r_target_port = target_port e, r_private_port = private_port e,
     r_public_port = public_port e, r_protocol = protocol e\<rparr>"

definition upd_cache :: "nat \<Rightarrow> (nat_table_entry \<Rightarrow> nat_table_entry) \<Rightarrow> 'w natapp \<Rightarrow> 'w natapp" where
  "upd_cache i f s = s\<lparr>cache := (cache s)[i := f (cache s ! i)]\<rparr>"

definition upd_temp :: "nat \<Rightarrow> (nat_table_entry \<Rightarrow> nat_table_entry) \<Rightarrow> 'w natapp \<Rightarrow> 'w natapp" where
  "upd_temp i f s = s\<lparr>temp := (temp s)[i := f (temp s ! i)]\<rparr>"

subsection \<open>Construction\<close>

text \<open>
  The constructor sets every member but \<open>pub_ip_addr_pre\<close>, the two timeouts and
  \<open>PwrSaveIfs\<close>, which keep what the allocated memory held (\<open>junk\<close>).
\<close>

record natapp_junk =
  junk_pub_ip_addr_pre :: u32
  junk_tcp_timeout :: u32
  junk_udp_timeout :: u32
  junk_PwrSaveIfs :: "u32 list"

definition NatApp_ctor :: "natapp_junk \<Rightarrow> 'w \<Rightarrow> 'w natapp" where
  "NatApp_ctor junk w = \<lparr>cache = [], temp = replicate MAX_TEMP_ENTRIES zero_entry, pub_ip_addr = 0,
     pub_ip_addr_pre = junk_pub_ip_addr_pre junk, nat_table_hdl = 0, curCnt = 0, max_entries = 0,
     pALGPorts = [], tcp_timeout = junk_tcp_timeout junk, udp_timeout = junk_udp_timeout junk,
     PwrSaveIfs = junk_PwrSaveIfs junk, ct = None, ct_hdl = False, world = w\<rparr>"

text \<open>
  \<open>Init\<close>: the configuration (\<open>None\<close> when \<open>GetInstance\<close> of the configuration fails)
  gives the number of entries and the ALG ports; the two booleans say whether each \<open>malloc\<close>
  succeeds. \<open>GetAlgPorts\<close> cannot fail here: it is called with a positive count and memory.
\<close>

definition Init ::
  "(nat \<times> ipacm_alg list) option \<Rightarrow> bool \<Rightarrow> bool \<Rightarrow> 'w natapp \<Rightarrow> int \<times> 'w natapp" where
  "Init cfg malloc_cache malloc_alg s =
     (case cfg of
        None \<Rightarrow> (-1, s)
      | Some (n, algs) \<Rightarrow>
          let s = s\<lparr>max_entries := n\<rparr> in
          if \<not> malloc_cache then (-1, s)
          else
            let s = s\<lparr>cache := replicate n zero_entry\<rparr> in
            if algs \<noteq> [] then
              (if \<not> malloc_alg then (-1, s\<lparr>cache := []\<rparr>) else (0, s\<lparr>pALGPorts := algs\<rparr>))
            else (0, s))"

text \<open>The singleton pointer: null, a live object, or a pointer to a deleted object.\<close>

datatype 'w natapp_ptr = Null | Live "'w natapp" | Dangling

text \<open>\<open>GetInstance\<close>: the pointer returned and the new value of \<open>pInstance\<close>.\<close>

definition GetInstance ::
  "(nat \<times> ipacm_alg list) option \<Rightarrow> bool \<Rightarrow> bool \<Rightarrow> natapp_junk \<Rightarrow> 'w \<Rightarrow> 'w natapp_ptr \<Rightarrow>
     'w natapp_ptr \<times> 'w natapp_ptr" where
  "GetInstance cfg malloc_cache malloc_alg junk w pInstance =
     (case pInstance of
        Null \<Rightarrow>
          (case Init cfg malloc_cache malloc_alg (NatApp_ctor junk w) of
             (r, s) \<Rightarrow> if r \<noteq> 0 then (Null, Dangling) else (Live s, Live s))
      | _ \<Rightarrow> (pInstance, pInstance))"

subsection \<open>Lookups\<close>

definition ChkForDup :: "'w natapp \<Rightarrow> nat_table_entry \<Rightarrow> bool" where
  "ChkForDup s rule \<longleftrightarrow>
     find_idx (\<lambda>i. entry_matches (cache s ! i) rule) (max_entries s) < max_entries s"

definition isAlgPort :: "'w natapp \<Rightarrow> u8 \<Rightarrow> u16 \<Rightarrow> bool" where
  "isAlgPort s proto port \<longleftrightarrow>
     find_idx (\<lambda>i. proto = alg_protocol (pALGPorts s ! i) \<and> port = alg_port (pALGPorts s ! i))
       (length (pALGPorts s)) < length (pALGPorts s)"

definition isPwrSaveIf :: "'w natapp \<Rightarrow> u32 \<Rightarrow> bool" where
  "isPwrSaveIf s ip_addr \<longleftrightarrow>
     find_idx (\<lambda>i. 0 \<noteq> PwrSaveIfs s ! i \<and> ip_addr = PwrSaveIfs s ! i) IPA_MAX_NUM_WIFI_CLIENTS
       < IPA_MAX_NUM_WIFI_CLIENTS"

definition GetTableHdl :: "'w natapp \<Rightarrow> u32 \<Rightarrow> u32" where
  "GetTableHdl s in_ip_addr = (if in_ip_addr = pub_ip_addr s then nat_table_hdl s else -1)"

subsection \<open>The driver's table\<close>

text \<open>
  Adding the rule of cache entry \<open>cnt\<close> to the driver's table, on restoring the table and on
  leaving power save: on failure the entry is zeroed and the count goes down.
\<close>

definition restore_entry :: "'w nat_env \<Rightarrow> nat \<Rightarrow> 'w natapp \<Rightarrow> 'w natapp" where
  "restore_entry h cnt s =
     (case ipa_nat_add_ipv4_rule h (nat_table_hdl s) (nat_rule_of (cache s ! cnt))
             (rule_hdl (cache s ! cnt)) (world s) of
        (r, hdl, w) \<Rightarrow>
          let s = upd_cache cnt (\<lambda>e. e\<lparr>rule_hdl := hdl\<rparr>) (s\<lparr>world := w\<rparr>) in
          if r < 0 then (upd_cache cnt (\<lambda>_. zero_entry) s)\<lparr>curCnt := curCnt s - 1\<rparr>
          else upd_cache cnt (\<lambda>e. e\<lparr>enabled := True\<rparr>) s)"

definition AddTable :: "'w nat_env \<Rightarrow> u32 \<Rightarrow> 'w natapp \<Rightarrow> int \<times> 'w natapp" where
  "AddTable h pub_ip s =
     (case ipa_nat_add_ipv4_tbl h pub_ip (of_nat (max_entries s)) (nat_table_hdl s) (world s) of
        (ret, hdl, w) \<Rightarrow>
          let s = s\<lparr>nat_table_hdl := hdl, world := w\<rparr> in
          if ret \<noteq> 0 then (ret, s)
          else
            let s = (if pub_ip = pub_ip_addr_pre s
                     then for_upto (max_entries s)
                            (\<lambda>cnt s. if private_ip (cache s ! cnt) \<noteq> 0 then restore_entry h cnt s else s) s
                     else s)
            in (0, s\<lparr>pub_ip_addr := pub_ip\<rparr>))"

definition Reset :: "'w natapp \<Rightarrow> 'w natapp" where
  "Reset s =
     (let s = s\<lparr>nat_table_hdl := 0, pub_ip_addr := 0\<rparr> in
      for_upto (max_entries s) (\<lambda>cnt. upd_cache cnt (\<lambda>e. e\<lparr>enabled := False\<rparr>)) s)"

definition DeleteTable :: "'w nat_env \<Rightarrow> u32 \<Rightarrow> 'w natapp \<Rightarrow> int \<times> 'w natapp" where
  "DeleteTable h pub_ip s =
     (if nat_table_hdl s = 0 then (-1, s)
      else if pub_ip_addr s \<noteq> pub_ip then (-1, s)
      else
        case ipa_nat_del_ipv4_tbl h (nat_table_hdl s) (world s) of
          (ret, w) \<Rightarrow>
            let s = s\<lparr>world := w\<rparr> in
            if ret \<noteq> 0 then (ret, s)
            else (0, Reset (s\<lparr>pub_ip_addr_pre := pub_ip_addr s\<rparr>)))"

subsection \<open>Entries\<close>

definition DeleteEntry :: "'w nat_env \<Rightarrow> nat_table_entry \<Rightarrow> 'w natapp \<Rightarrow> int \<times> 'w natapp" where
  "DeleteEntry h rule s =
     (let cnt = find_idx (\<lambda>i. entry_matches (cache s ! i) rule) (max_entries s) in
      if cnt < max_entries s then
        let s = (if enabled (cache s ! cnt)
                 then s\<lparr>world := snd (ipa_nat_del_ipv4_rule h (nat_table_hdl s) (rule_hdl (cache s ! cnt)) (world s))\<rparr>
                 else s)
        in (0, (upd_cache cnt (\<lambda>_. zero_entry) s)\<lparr>curCnt := curCnt s - 1\<rparr>)
      else (0, s))"

text \<open>The assignments that fill cell \<open>cnt\<close> at the end of \<open>AddEntry\<close>: \<open>public_ip\<close> is
  not among them.\<close>

definition fill_from_rule :: "nat_table_entry \<Rightarrow> nat_table_entry \<Rightarrow> nat_table_entry" where
  "fill_from_rule rule e = e\<lparr>private_ip := private_ip rule, target_ip := target_ip rule,
     target_port := target_port rule, private_port := private_port rule,
     protocol := protocol rule, timestamp := 0, public_port := public_port rule,
     dst_nat := dst_nat rule\<rparr>"

definition AddEntry :: "'w nat_env \<Rightarrow> nat_table_entry \<Rightarrow> 'w natapp \<Rightarrow> int \<times> 'w natapp" where
  "AddEntry h rule s =
     (if nat_table_hdl s = 0 then (-1, s)
      else if isAlgPort s (protocol rule) (private_port rule) \<or>
              isAlgPort s (protocol rule) (target_port rule) then (-1, s)
      else if entry_is_invalid rule then (0, s)
      else if \<not> ChkForDup s rule then
        let cnt = find_idx (\<lambda>i. entry_is_free (cache s ! i)) (max_entries s) in
        if max_entries s = cnt then (-1, s)
        else if isPwrSaveIf s (private_ip rule) \<or> isPwrSaveIf s (target_ip rule) then
          (let s = upd_cache cnt (\<lambda>e. fill_from_rule rule (e\<lparr>enabled := False, rule_hdl := 0\<rparr>)) s
           in (0, s\<lparr>curCnt := curCnt s + 1\<rparr>))
        else
          (case ipa_nat_add_ipv4_rule h (nat_table_hdl s) (nat_rule_of rule)
                  (rule_hdl (cache s ! cnt)) (world s) of
             (r, hdl, w) \<Rightarrow>
               let s = upd_cache cnt (\<lambda>e. e\<lparr>rule_hdl := hdl\<rparr>) (s\<lparr>world := w\<rparr>) in
               if r < 0 then (-1, s)
               else
                 let s = upd_cache cnt (\<lambda>e. fill_from_rule rule (e\<lparr>enabled := True\<rparr>)) s
                 in (0, s\<lparr>curCnt := curCnt s + 1\<rparr>))
      else (-1, s))"

definition CacheEntry :: "nat_table_entry \<Rightarrow> 'w natapp \<Rightarrow> 'w natapp" where
  "CacheEntry rule s =
     (if entry_is_invalid rule then s
      else if \<not> ChkForDup s rule then
        let cnt = find_idx (\<lambda>i. entry_is_free (cache s ! i)) (max_entries s) in
        if max_entries s = cnt then s
        else
          (let s = upd_cache cnt
                     (\<lambda>e. (fill_from_rule rule (e\<lparr>enabled := False, rule_hdl := 0\<rparr>))
                            \<lparr>public_ip := public_ip rule\<rparr>) s
           in s\<lparr>curCnt := curCnt s + 1\<rparr>)
      else s)"

subsection \<open>Time stamps\<close>

definition Read_TcpUdp_Timeout :: "'w nat_env \<Rightarrow> 'w natapp \<Rightarrow> 'w natapp" where
  "Read_TcpUdp_Timeout h s =
     (case read_proc h IPACM_UDP_FULL_FILE_NAME (world s) of
        OpenFailed \<Rightarrow> s
      | r \<Rightarrow>
          let s = (case r of ScanOk v \<Rightarrow> s\<lparr>udp_timeout := v\<rparr> | _ \<Rightarrow> s) in
          (case read_proc h IPACM_TCP_FULL_FILE_NAME (world s) of
             ScanOk v \<Rightarrow> s\<lparr>tcp_timeout := v\<rparr>
           | _ \<Rightarrow> s))"

text \<open>The attributes \<open>UpdateCTUdpTs\<close> writes into the conntrack object for a rule.\<close>

definition ct_attrs :: "'w natapp \<Rightarrow> nat_table_entry \<Rightarrow> nf_conntrack" where
  "ct_attrs s rule =
     \<lparr>ATTR_L3PROTO = AF_INET,
      ATTR_L4PROTO = protocol rule,
      ATTR_TIMEOUT = (if protocol rule = IPPROTO_UDP then udp_timeout s else tcp_timeout s),
      ATTR_IPV4_SRC = htonl (if dst_nat rule = False then private_ip rule else target_ip rule),
      ATTR_PORT_SRC = htons (if dst_nat rule = False then private_port rule else target_port rule),
      ATTR_IPV4_DST = htonl (if dst_nat rule = False then target_ip rule else pub_ip_addr s),
      ATTR_PORT_DST = htons (if dst_nat rule = False then target_port rule else public_port rule)\<rparr>"

text \<open>Opening the handle and allocating the object on first use: whether both are there.\<close>

definition ct_prepare :: "'w nat_env \<Rightarrow> 'w natapp \<Rightarrow> bool \<times> 'w natapp" where
  "ct_prepare h s =
     (let s = (if ct_hdl s then s
               else case nfct_open h (world s) of (b, w) \<Rightarrow> s\<lparr>ct_hdl := b, world := w\<rparr>) in
      if \<not> ct_hdl s then (False, s)
      else
        let s = (case ct s of
                   Some c \<Rightarrow> s
                 | None \<Rightarrow> (case nfct_new h (world s) of (c, w) \<Rightarrow> s\<lparr>ct := c, world := w\<rparr>))
        in (ct s \<noteq> None, s))"

text \<open>\<open>UpdateCTUdpTs(&cache[cnt], new_ts)\<close>: the rule is a cell of the cache, passed as its index.\<close>

definition UpdateCTUdpTs :: "'w nat_env \<Rightarrow> nat \<Rightarrow> u32 \<Rightarrow> 'w natapp \<Rightarrow> 'w natapp" where
  "UpdateCTUdpTs h cnt new_ts s =
     (case ct_prepare h s of
        (ready, s) \<Rightarrow>
          if \<not> ready then s
          else
            let rule = cache s ! cnt; s = s\<lparr>ct := Some (ct_attrs s rule)\<rparr> in
            (case nfct_query h (ct_attrs s rule) (world s) of
               (ret, w) \<Rightarrow>
                 let s = s\<lparr>world := w\<rparr> in
                 if ret = -1 then snd (DeleteEntry h rule s)
                 else upd_cache cnt (\<lambda>e. e\<lparr>timestamp := new_ts\<rparr>) s))"

text \<open>The loop of \<open>UpdateUDPTimeStamp\<close> carries the local \<open>read_to\<close>.\<close>

definition UpdateUDPTimeStamp_body ::
  "'w nat_env \<Rightarrow> nat \<Rightarrow> bool \<times> 'w natapp \<Rightarrow> bool \<times> 'w natapp" where
  "UpdateUDPTimeStamp_body h cnt st =
     (case st of (read_to, s) \<Rightarrow>
        let e = cache s ! cnt in
        if enabled e \<and> private_ip e \<noteq> public_ip e then
          (case ipa_nat_query_timestamp h (nat_table_hdl s) (rule_hdl e) 0 (world s) of
             (r, ts, w) \<Rightarrow>
               let s = s\<lparr>world := w\<rparr> in
               if r < 0 then (read_to, s)
               else if timestamp e = ts then (read_to, s)
               else
                 let s = (if read_to then s else Read_TcpUdp_Timeout h s)
                 in (True, UpdateCTUdpTs h cnt ts s))
        else (read_to, s))"

definition UpdateUDPTimeStamp :: "'w nat_env \<Rightarrow> 'w natapp \<Rightarrow> 'w natapp" where
  "UpdateUDPTimeStamp h s = snd (for_upto (max_entries s) (UpdateUDPTimeStamp_body h) (False, s))"

subsection \<open>Power save\<close>

definition UpdatePwrSaveIf_body :: "'w nat_env \<Rightarrow> u32 \<Rightarrow> nat \<Rightarrow> 'w natapp \<Rightarrow> 'w natapp" where
  "UpdatePwrSaveIf_body h client_lan_ip cnt s =
     (let e = cache s ! cnt in
      if private_ip e = client_lan_ip \<and> enabled e then
        (case ipa_nat_del_ipv4_rule h (nat_table_hdl s) (rule_hdl e) (world s) of
           (r, w) \<Rightarrow>
             let s = s\<lparr>world := w\<rparr> in
             if r < 0 then s
             else upd_cache cnt (\<lambda>e. e\<lparr>enabled := False, rule_hdl := 0\<rparr>) s)
      else s)"

definition UpdatePwrSaveIf :: "'w nat_env \<Rightarrow> u32 \<Rightarrow> 'w natapp \<Rightarrow> int \<times> 'w natapp" where
  "UpdatePwrSaveIf h client_lan_ip s =
     (if client_lan_ip = INVALID_IP_ADDR then (-1, s)
      else if find_idx (\<lambda>i. PwrSaveIfs s ! i = client_lan_ip) IPA_MAX_NUM_WIFI_CLIENTS
              < IPA_MAX_NUM_WIFI_CLIENTS then (0, s)
      else
        let cnt = find_idx (\<lambda>i. PwrSaveIfs s ! i = 0) IPA_MAX_NUM_WIFI_CLIENTS;
            s = (if cnt < IPA_MAX_NUM_WIFI_CLIENTS
                 then s\<lparr>PwrSaveIfs := (PwrSaveIfs s)[cnt := client_lan_ip]\<rparr> else s)
        in (0, for_upto (max_entries s) (UpdatePwrSaveIf_body h client_lan_ip) s))"

text \<open>Dropping a client from the power-save list: the first loop of \<open>ResetPwrSaveIf\<close> and of
  \<open>DelEntriesOnClntDiscon\<close>.\<close>

definition drop_pwr_save :: "u32 \<Rightarrow> 'w natapp \<Rightarrow> 'w natapp" where
  "drop_pwr_save ip s =
     (let cnt = find_idx (\<lambda>i. PwrSaveIfs s ! i = ip) IPA_MAX_NUM_WIFI_CLIENTS in
      if cnt < IPA_MAX_NUM_WIFI_CLIENTS then s\<lparr>PwrSaveIfs := (PwrSaveIfs s)[cnt := 0]\<rparr> else s)"

definition ResetPwrSaveIf :: "'w nat_env \<Rightarrow> u32 \<Rightarrow> 'w natapp \<Rightarrow> int \<times> 'w natapp" where
  "ResetPwrSaveIf h client_lan_ip s =
     (if client_lan_ip = INVALID_IP_ADDR then (-1, s)
      else
        let s = drop_pwr_save client_lan_ip s in
        (-1, for_upto (max_entries s)
               (\<lambda>cnt s. if private_ip (cache s ! cnt) = client_lan_ip \<and> \<not> enabled (cache s ! cnt)
                        then restore_entry h cnt s else s) s))"

subsection \<open>Temporary entries\<close>

definition AddTempEntry :: "nat_table_entry \<Rightarrow> 'w natapp \<Rightarrow> 'w natapp" where
  "AddTempEntry new_entry s =
     (if isAlgPort s (protocol new_entry) (private_port new_entry) \<or>
         isAlgPort s (protocol new_entry) (target_port new_entry) then s
      else if ChkForDup s new_entry then s
      else if find_idx (\<lambda>i. entry_matches (temp s ! i) new_entry) MAX_TEMP_ENTRIES < MAX_TEMP_ENTRIES then s
      else
        let cnt = find_idx (\<lambda>i. private_ip (temp s ! i) = 0 \<and> target_ip (temp s ! i) = 0) MAX_TEMP_ENTRIES in
        if cnt < MAX_TEMP_ENTRIES then upd_temp cnt (\<lambda>_. new_entry) s else s)"

definition DeleteTempEntry :: "nat_table_entry \<Rightarrow> 'w natapp \<Rightarrow> 'w natapp" where
  "DeleteTempEntry entry s =
     (let cnt = find_idx (\<lambda>i. entry_matches (temp s ! i) entry) MAX_TEMP_ENTRIES in
      if cnt < MAX_TEMP_ENTRIES then upd_temp cnt (\<lambda>_. zero_entry) s else s)"

definition FlushTempEntries_body ::
  "'w nat_env \<Rightarrow> u32 \<Rightarrow> bool \<Rightarrow> bool \<Rightarrow> nat \<Rightarrow> 'w natapp \<Rightarrow> 'w natapp" where
  "FlushTempEntries_body h ip_addr isAdd isDummy cnt s =
     (if private_ip (temp s ! cnt) = ip_addr \<or> target_ip (temp s ! cnt) = ip_addr then
        if isAdd \<and> public_ip (temp s ! cnt) = pub_ip_addr s then
          (let s = (if isDummy
                    then upd_temp cnt (\<lambda>e. e\<lparr>private_ip := public_ip e, private_port := public_port e\<rparr>) s
                    else s) in
           case AddEntry h (temp s ! cnt) s of
             (ret, s) \<Rightarrow> if ret \<noteq> 0 then s else upd_temp cnt (\<lambda>_. zero_entry) s)
        else upd_temp cnt (\<lambda>_. zero_entry) s
      else s)"

definition FlushTempEntries ::
  "'w nat_env \<Rightarrow> u32 \<Rightarrow> bool \<Rightarrow> bool \<Rightarrow> 'w natapp \<Rightarrow> 'w natapp" where
  "FlushTempEntries h ip_addr isAdd isDummy s =
     for_upto MAX_TEMP_ENTRIES (FlushTempEntries_body h ip_addr isAdd isDummy) s"

subsection \<open>Clients that leave\<close>

definition DelEntriesOnClntDiscon_body :: "'w nat_env \<Rightarrow> u32 \<Rightarrow> nat \<Rightarrow> 'w natapp \<Rightarrow> 'w natapp" where
  "DelEntriesOnClntDiscon_body h ip_addr cnt s =
     (let e = cache s ! cnt in
      if private_ip e = ip_addr \<and> enabled e then
        (case ipa_nat_del_ipv4_rule h (nat_table_hdl s) (rule_hdl e) (world s) of
           (r, w) \<Rightarrow>
             let s = s\<lparr>world := w\<rparr> in
             if r < 0 then s else upd_cache cnt (\<lambda>e. e\<lparr>enabled := False\<rparr>) s)
      else s)"

definition DelEntriesOnClntDiscon :: "'w nat_env \<Rightarrow> u32 \<Rightarrow> 'w natapp \<Rightarrow> int \<times> 'w natapp" where
  "DelEntriesOnClntDiscon h ip_addr s =
     (if ip_addr = INVALID_IP_ADDR then (-1, s)
      else
        let s = drop_pwr_save ip_addr s
        in (0, for_upto (max_entries s) (DelEntriesOnClntDiscon_body h ip_addr) s))"

definition DelEntriesOnSTAClntDiscon_body :: "'w nat_env \<Rightarrow> u32 \<Rightarrow> nat \<Rightarrow> 'w natapp \<Rightarrow> 'w natapp" where
  "DelEntriesOnSTAClntDiscon_body h ip_addr cnt s =
     (let e = cache s ! cnt in
      if target_ip e = ip_addr then
        (let (r, s) = (if enabled e
                       then case ipa_nat_del_ipv4_rule h (nat_table_hdl s) (rule_hdl e) (world s) of
                              (r, w) \<Rightarrow> (r, s\<lparr>world := w\<rparr>)
                       else (0, s)) in
         if r < 0 then s
         else (upd_cache cnt (\<lambda>_. zero_entry) s)\<lparr>curCnt := curCnt s - 1\<rparr>)
      else s)"

definition DelEntriesOnSTAClntDiscon :: "'w nat_env \<Rightarrow> u32 \<Rightarrow> 'w natapp \<Rightarrow> int \<times> 'w natapp" where
  "DelEntriesOnSTAClntDiscon h ip_addr s =
     (if ip_addr = INVALID_IP_ADDR then (-1, s)
      else (0, for_upto (max_entries s) (DelEntriesOnSTAClntDiscon_body h ip_addr) s))"

subsection \<open>The cache as an array of keyed slots\<close>

lemma entry_matches_iff: "entry_matches c rule \<longleftrightarrow> entry_key c = entry_key rule"
  by (auto simp: entry_matches_def entry_key_def)

lemma entry_is_free_iff: "entry_is_free c \<longleftrightarrow> entry_key c = (0, 0, 0, 0, 0)"
  by (auto simp: entry_is_free_def entry_key_def)

lemma invalid_if_free: "entry_is_free e \<Longrightarrow> entry_is_invalid e"
  by (auto simp: entry_is_free_def entry_is_invalid_def)

lemma zero_entry_free [simp]: "entry_is_free zero_entry" "\<not> enabled zero_entry"
  by (simp_all add: zero_entry_def entry_is_free_def)

interpretation nat_slots: slot_cells entry_key "\<lambda>e. \<not> entry_is_free e" zero_entry
  by unfold_locales (simp_all add: entry_is_free_iff zero_entry_def entry_key_def)

text \<open>
  The invariant of the class. A cell is free and not enabled, or all five fields that
  identify its connection are set; no two occupied cells hold the same connection; \<open>curCnt\<close>
  counts the occupied cells; the arrays have the lengths they were allocated with.
\<close>

definition cell_ok :: "nat_table_entry \<Rightarrow> bool" where
  "cell_ok e \<longleftrightarrow> (entry_is_free e \<and> \<not> enabled e) \<or> \<not> entry_is_invalid e"

definition natapp_wf :: "'w natapp \<Rightarrow> bool" where
  "natapp_wf s \<longleftrightarrow>
     length (cache s) = max_entries s \<and> length (temp s) = MAX_TEMP_ENTRIES \<and>
     length (PwrSaveIfs s) = IPA_MAX_NUM_WIFI_CLIENTS \<and>
     (\<forall>e\<in>set (cache s). cell_ok e) \<and> nat_slots.uniq (cache s) \<and>
     curCnt s = int (nat_slots.used (cache s))"

end
