(* ===== verification/NatApp_Inv.thy ===== *)
theory NatApp_Inv
  imports NatApp
begin

text \<open>
  Every operation of the NAT application keeps \<open>natapp_wf\<close>, for every driver and every
  behaviour of the kernel. One lemma per operation, over three lemmas for what an operation
  does to a cell: rewrite it under the same key, clear it, fill a free one.
\<close>

subsection \<open>Cells\<close>

lemma cell_ok_zero [simp]: "cell_ok zero_entry"
  by (simp add: cell_ok_def)

lemma natapp_wf_frame [simp]:
  "natapp_wf (s\<lparr>world := w\<rparr>) = natapp_wf s"
  "natapp_wf (s\<lparr>ct := c\<rparr>) = natapp_wf s"
  "natapp_wf (s\<lparr>ct_hdl := b\<rparr>) = natapp_wf s"
  "natapp_wf (s\<lparr>tcp_timeout := t\<rparr>) = natapp_wf s"
  "natapp_wf (s\<lparr>udp_timeout := t\<rparr>) = natapp_wf s"
  "natapp_wf (s\<lparr>nat_table_hdl := hdl\<rparr>) = natapp_wf s"
  "natapp_wf (s\<lparr>pub_ip_addr := ip\<rparr>) = natapp_wf s"
  "natapp_wf (s\<lparr>pub_ip_addr_pre := ip\<rparr>) = natapp_wf s"
  "natapp_wf (s\<lparr>PwrSaveIfs := (PwrSaveIfs s)[i := v]\<rparr>) = natapp_wf s"
  by (simp_all add: natapp_wf_def)

lemma natapp_wf_temp [simp]: "natapp_wf (upd_temp i f s) = natapp_wf s"
  by (simp add: natapp_wf_def upd_temp_def)

lemma upd_cache_sel [simp]:
  "max_entries (upd_cache i f s) = max_entries s" "temp (upd_cache i f s) = temp s"
  "world (upd_cache i f s) = world s" "curCnt (upd_cache i f s) = curCnt s"
  "nat_table_hdl (upd_cache i f s) = nat_table_hdl s" "PwrSaveIfs (upd_cache i f s) = PwrSaveIfs s"
  "pub_ip_addr (upd_cache i f s) = pub_ip_addr s" "pALGPorts (upd_cache i f s) = pALGPorts s"
  "cache (upd_cache i f s) = (cache s)[i := f (cache s ! i)]"
  "pub_ip_addr_pre (upd_cache i f s) = pub_ip_addr_pre s"
  by (simp_all add: upd_cache_def)

lemma upd_temp_sel [simp]:
  "max_entries (upd_temp i f s) = max_entries s" "cache (upd_temp i f s) = cache s"
  "curCnt (upd_temp i f s) = curCnt s" "nat_table_hdl (upd_temp i f s) = nat_table_hdl s"
  "PwrSaveIfs (upd_temp i f s) = PwrSaveIfs s" "pub_ip_addr (upd_temp i f s) = pub_ip_addr s"
  "pALGPorts (upd_temp i f s) = pALGPorts s" "world (upd_temp i f s) = world s"
  "temp (upd_temp i f s) = (temp s)[i := f (temp s ! i)]"
  by (simp_all add: upd_temp_def)

lemma wf_length: "natapp_wf s \<Longrightarrow> length (cache s) = max_entries s"
  by (simp add: natapp_wf_def)

lemma wf_cell: "natapp_wf s \<Longrightarrow> i < max_entries s \<Longrightarrow> cell_ok (cache s ! i)"
  by (simp add: natapp_wf_def)

lemma wf_enabled_occupied:
  "natapp_wf s \<Longrightarrow> i < max_entries s \<Longrightarrow> enabled (cache s ! i) \<Longrightarrow> \<not> entry_is_free (cache s ! i)"
  using wf_cell [of s i] invalid_if_free by (auto simp: cell_ok_def)

lemma wf_rewrite:
  assumes "natapp_wf s" and "i < max_entries s"
    and "entry_key (f (cache s ! i)) = entry_key (cache s ! i)"
    and "enabled (f (cache s ! i)) \<Longrightarrow> \<not> entry_is_free (cache s ! i)"
  shows "natapp_wf (upd_cache i f s)"
proof -
  let ?v = "f (cache s ! i)"
  have "entry_is_free ?v = entry_is_free (cache s ! i)"
    using assms(3) by (simp add: entry_is_free_iff)
  moreover have "entry_is_invalid ?v = entry_is_invalid (cache s ! i)"
    using assms(3) by (auto simp: entry_is_invalid_def entry_key_def)
  ultimately have "cell_ok ?v"
    using wf_cell [OF assms(1,2)] assms(4) by (auto simp: cell_ok_def)
  then have "\<forall>e\<in>set ((cache s)[i := ?v]). cell_ok e"
    using assms(1) by (intro all_set_update) (simp_all add: natapp_wf_def)
  moreover have "i < length (cache s)" using assms(1,2) by (simp add: natapp_wf_def)
  ultimately show ?thesis
    using assms(1) nat_slots.uniq_rewrite [OF _ _ assms(3)] nat_slots.used_rewrite [OF _ assms(3)]
    by (simp add: natapp_wf_def)
qed

lemma wf_clear:
  assumes "natapp_wf s" and "i < max_entries s" and "\<not> entry_is_free (cache s ! i)"
  shows "natapp_wf ((upd_cache i (\<lambda>_. zero_entry) s)\<lparr>curCnt := curCnt s - 1\<rparr>)"
proof -
  have "i < length (cache s)" using assms(1,2) by (simp add: natapp_wf_def)
  moreover have "\<forall>e\<in>set ((cache s)[i := zero_entry]). cell_ok e"
    using assms(1) by (intro all_set_update) (simp_all add: natapp_wf_def)
  ultimately show ?thesis
    using assms nat_slots.uniq_clear [of "cache s" i] nat_slots.used_clear [of i "cache s"]
    by (simp add: natapp_wf_def)
qed

lemma wf_fill:
  assumes "natapp_wf s" and "i < max_entries s" and "entry_is_free (cache s ! i)"
    and "\<not> entry_is_invalid (f (cache s ! i))"
    and "\<And>j. j < max_entries s \<Longrightarrow> entry_key (cache s ! j) \<noteq> entry_key (f (cache s ! i))"
  shows "natapp_wf ((upd_cache i f s)\<lparr>curCnt := curCnt s + 1\<rparr>)"
proof -
  let ?v = "f (cache s ! i)"
  have len: "length (cache s) = max_entries s" using assms(1) by (rule wf_length)
  have "\<not> entry_is_free ?v" using assms(4) invalid_if_free by blast
  with assms(2,3) len have "nat_slots.used ((cache s)[i := ?v]) = Suc (nat_slots.used (cache s))"
    by (intro nat_slots.used_fill) simp_all
  moreover have "nat_slots.uniq ((cache s)[i := ?v])"
    using assms(1,3,5) len by (intro nat_slots.uniq_fill) (simp_all add: natapp_wf_def)
  moreover have "\<forall>e\<in>set ((cache s)[i := ?v]). cell_ok e"
    using assms(1,4) by (intro all_set_update) (simp_all add: natapp_wf_def cell_ok_def)
  ultimately show ?thesis using assms(1) by (simp add: natapp_wf_def)
qed

lemma wf_ctor_init:
  assumes "length (junk_PwrSaveIfs junk) = IPA_MAX_NUM_WIFI_CLIENTS"
    and "Init cfg mc ma (NatApp_ctor junk w) = (0, s)"
  shows "natapp_wf s"
proof -
  obtain n algs where "cfg = Some (n, algs)" using assms(2) by (auto simp: Init_def split: option.splits)
  then show ?thesis
    using assms nat_slots.uniq_replicate_clear [of n] nat_slots.used_replicate_clear [of n]
    by (auto simp: Init_def NatApp_ctor_def natapp_wf_def Let_def split: if_splits)
qed

subsection \<open>Tables\<close>

lemma wf_restore_entry:
  assumes "natapp_wf s" and "cnt < max_entries s" and "\<not> entry_is_free (cache s ! cnt)"
  shows "natapp_wf (restore_entry h cnt s)" and "max_entries (restore_entry h cnt s) = max_entries s"
proof -
  obtain r hdl w where call: "ipa_nat_add_ipv4_rule h (nat_table_hdl s) (nat_rule_of (cache s ! cnt))
      (rule_hdl (cache s ! cnt)) (world s) = (r, hdl, w)" by (metis prod_cases3)
  let ?s1 = "upd_cache cnt (\<lambda>e. e\<lparr>rule_hdl := hdl\<rparr>) (s\<lparr>world := w\<rparr>)"
  have len: "cnt < length (cache s)" using assms(1,2) by (simp add: natapp_wf_def)
  have wf1: "natapp_wf ?s1" using assms by (intro wf_rewrite) (simp_all add: entry_key_def)
  have occ1: "\<not> entry_is_free (cache ?s1 ! cnt)"
    using assms(3) len by (simp add: entry_is_free_def)
  from call show "max_entries (restore_entry h cnt s) = max_entries s"
    by (simp add: restore_entry_def Let_def)
  show "natapp_wf (restore_entry h cnt s)"
  proof (cases "r < 0")
    case True
    with call wf_clear [OF wf1 _ occ1] assms(2) show ?thesis by (simp add: restore_entry_def Let_def)
  next
    case False
    moreover have "natapp_wf (upd_cache cnt (\<lambda>e. e\<lparr>enabled := True\<rparr>) ?s1)"
      by (rule wf_rewrite [OF wf1]) (use occ1 assms(2) in \<open>simp_all add: entry_key_def\<close>)
    ultimately show ?thesis using call by (simp add: restore_entry_def Let_def)
  qed
qed

text \<open>A loop over the cache whose body keeps the invariant and the size of the cache.\<close>

lemma wf_for_upto:
  assumes "natapp_wf s"
    and "\<And>i t. i < max_entries t \<Longrightarrow> natapp_wf t \<Longrightarrow>
           natapp_wf (body i t) \<and> max_entries (body i t) = max_entries t"
  shows "natapp_wf (for_upto (max_entries s) body s) \<and>
         max_entries (for_upto (max_entries s) body s) = max_entries s"
proof -
  let ?n = "max_entries s"
  have "natapp_wf (for_upto ?n body s) \<and> max_entries (for_upto ?n body s) = ?n"
  proof (rule for_upto_inv [where I = "\<lambda>t. natapp_wf t \<and> max_entries t = ?n"])
    show "natapp_wf s \<and> max_entries s = ?n" using assms(1) by simp
  next
    fix i and t :: "'a natapp"
    assume "i < ?n" and "natapp_wf t \<and> max_entries t = ?n"
    then show "natapp_wf (body i t) \<and> max_entries (body i t) = ?n" using assms(2) [of i t] by simp
  qed
  then show ?thesis .
qed

lemma not_free_if_private: "private_ip e \<noteq> 0 \<Longrightarrow> \<not> entry_is_free e"
  by (simp add: entry_is_free_def)

lemma not_free_if_target: "target_ip e \<noteq> 0 \<Longrightarrow> \<not> entry_is_free e"
  by (simp add: entry_is_free_def)

lemma wf_AddTable [inv_intros]:
  assumes "natapp_wf s"
  shows "natapp_wf (snd (AddTable h pub_ip s))"
proof -
  obtain ret hdl w where call: "ipa_nat_add_ipv4_tbl h pub_ip (of_nat (max_entries s)) (nat_table_hdl s) (world s)
      = (ret, hdl, w)" by (metis prod_cases3)
  let ?s1 = "s\<lparr>nat_table_hdl := hdl, world := w\<rparr>"
  let ?body = "\<lambda>cnt s. if private_ip (cache s ! cnt) \<noteq> 0 then restore_entry h cnt s else s"
  have "natapp_wf (for_upto (max_entries ?s1) ?body ?s1)"
    by (rule wf_for_upto [THEN conjunct1]) (use assms in \<open>auto simp: wf_restore_entry not_free_if_private\<close>)
  with call assms show ?thesis by (simp add: AddTable_def Let_def)
qed

lemma wf_Reset: "natapp_wf s \<Longrightarrow> natapp_wf (Reset s)"
  unfolding Reset_def Let_def
  by (rule wf_for_upto [THEN conjunct1]) (auto intro!: wf_rewrite simp: entry_key_def)

lemma wf_DeleteTable [inv_intros]: "natapp_wf s \<Longrightarrow> natapp_wf (snd (DeleteTable h pub_ip s))"
  by (auto simp: DeleteTable_def Let_def split: prod.splits intro!: wf_Reset)

subsection \<open>Entries\<close>

lemma ChkForDup_iff: "ChkForDup s rule \<longleftrightarrow> (\<exists>i<max_entries s. entry_key (cache s ! i) = entry_key rule)"
  by (simp add: ChkForDup_def loop_simps entry_matches_iff)

lemma wf_DeleteEntry [inv_intros]:
  assumes "natapp_wf s" and "\<not> entry_is_free rule"
  shows "natapp_wf (snd (DeleteEntry h rule s))"
proof -
  let ?P = "\<lambda>i. entry_matches (cache s ! i) rule"
  let ?cnt = "find_idx ?P (max_entries s)"
  show ?thesis
  proof (cases "?cnt < max_entries s")
    case True
    then have "entry_matches (cache s ! ?cnt) rule" by (rule find_idx_sat)
    then have "\<not> entry_is_free (cache s ! ?cnt)"
      using assms(2) by (simp add: entry_matches_iff entry_is_free_iff)
    then have "natapp_wf ((upd_cache ?cnt (\<lambda>_. zero_entry) (s\<lparr>world := w\<rparr>))\<lparr>curCnt := curCnt (s\<lparr>world := w\<rparr>) - 1\<rparr>)"
      for w using assms(1) True by (intro wf_clear) simp_all
    from this [of "world s"] this True show ?thesis by (simp add: DeleteEntry_def Let_def)
  next
    case False
    with assms(1) show ?thesis by (simp add: DeleteEntry_def Let_def)
  qed
qed

lemma fill_from_rule_key:
  "entry_key (fill_from_rule rule e) = entry_key rule"
  "entry_is_invalid (fill_from_rule rule e) = entry_is_invalid rule"
  "entry_key ((fill_from_rule rule e)\<lparr>public_ip := ip\<rparr>) = entry_key rule"
  "entry_is_invalid ((fill_from_rule rule e)\<lparr>public_ip := ip\<rparr>) = entry_is_invalid rule"
  "enabled (fill_from_rule rule e) = enabled e"
  by (simp_all add: fill_from_rule_def entry_key_def entry_is_invalid_def)

text \<open>Filling the first free cell with a rule that is valid and not in the cache.\<close>

lemma wf_fill_from_rule:
  assumes "natapp_wf s" and "\<not> entry_is_invalid rule" and "\<not> ChkForDup s rule"
    and "i < max_entries s" and "entry_is_free (cache s ! i)"
    and "entry_key (f (cache s ! i)) = entry_key rule"
  shows "natapp_wf ((upd_cache i f s)\<lparr>curCnt := curCnt s + 1\<rparr>)"
proof (rule wf_fill)
  show "\<not> entry_is_invalid (f (cache s ! i))"
    using assms(2,6) by (auto simp: entry_is_invalid_def entry_key_def)
  show "entry_key (cache s ! j) \<noteq> entry_key (f (cache s ! i))" if "j < max_entries s" for j
    using that assms(3,6) by (simp add: ChkForDup_iff)
qed (use assms in auto)

lemma wf_AddEntry [inv_intros]:
  assumes "natapp_wf s"
  shows "natapp_wf (snd (AddEntry h rule s))"
proof -
  let ?cnt = "find_idx (\<lambda>i. entry_is_free (cache s ! i)) (max_entries s)"
  show ?thesis
  proof (cases "nat_table_hdl s = 0 \<or> isAlgPort s (protocol rule) (private_port rule) \<or>
      isAlgPort s (protocol rule) (target_port rule) \<or> entry_is_invalid rule \<or> ChkForDup s rule \<or>
      max_entries s = ?cnt")
    case True
    with assms show ?thesis by (auto simp: AddEntry_def Let_def)
  next
    case False
    then have valid: "\<not> entry_is_invalid rule" and new: "\<not> ChkForDup s rule" and cnt: "?cnt < max_entries s"
      using find_idx_le [of "\<lambda>i. entry_is_free (cache s ! i)" "max_entries s"] by auto
    from cnt have free: "entry_is_free (cache s ! ?cnt)" by (rule find_idx_sat)
    obtain r hdl w where call: "ipa_nat_add_ipv4_rule h (nat_table_hdl s) (nat_rule_of rule)
      (rule_hdl (cache s ! ?cnt)) (world s) = (r, hdl, w)" by (metis prod_cases3)
    let ?s1 = "upd_cache ?cnt (\<lambda>e. e\<lparr>rule_hdl := hdl\<rparr>) (s\<lparr>world := w\<rparr>)"
    have wf1: "natapp_wf ?s1"
      using assms cnt wf_enabled_occupied [OF assms cnt] by (intro wf_rewrite) (simp_all add: entry_key_def)
    have "\<not> ChkForDup ?s1 rule" and "entry_is_free (cache ?s1 ! ?cnt)"
      using new free cnt wf_length [OF assms]
      by (auto simp: ChkForDup_iff nth_list_update entry_key_def entry_is_free_def split: if_splits)
    then have "natapp_wf ((upd_cache ?cnt (\<lambda>e. fill_from_rule rule (e\<lparr>enabled := True\<rparr>)) ?s1)
        \<lparr>curCnt := curCnt ?s1 + 1\<rparr>)"
      using wf1 valid cnt by (intro wf_fill_from_rule) (simp_all add: fill_from_rule_key)
    moreover have "natapp_wf ((upd_cache ?cnt (\<lambda>e. fill_from_rule rule (e\<lparr>enabled := False, rule_hdl := 0\<rparr>)) s)
        \<lparr>curCnt := curCnt s + 1\<rparr>)"
      using assms valid new cnt free by (intro wf_fill_from_rule) (simp_all add: fill_from_rule_key)
    ultimately show ?thesis using False call wf1 by (simp add: AddEntry_def Let_def)
  qed
qed

lemma wf_CacheEntry [inv_intros]:
  assumes "natapp_wf s"
  shows "natapp_wf (CacheEntry rule s)"
proof -
  let ?cnt = "find_idx (\<lambda>i. entry_is_free (cache s ! i)) (max_entries s)"
  show ?thesis
  proof (cases "entry_is_invalid rule \<or> ChkForDup s rule \<or> max_entries s = ?cnt")
    case True
    with assms show ?thesis by (auto simp: CacheEntry_def Let_def)
  next
    case False
    then have cnt: "?cnt < max_entries s"
      using find_idx_le [of "\<lambda>i. entry_is_free (cache s ! i)" "max_entries s"] by auto
    then have "entry_is_free (cache s ! ?cnt)" by (rule find_idx_sat)
    with False cnt assms show ?thesis
      by (auto simp: CacheEntry_def Let_def fill_from_rule_key intro!: wf_fill_from_rule [where rule = rule])
  qed
qed

subsection \<open>Time stamps\<close>

lemma wf_Read_TcpUdp_Timeout [simp]:
  "natapp_wf (Read_TcpUdp_Timeout h s) = natapp_wf s" "cache (Read_TcpUdp_Timeout h s) = cache s"
  "max_entries (Read_TcpUdp_Timeout h s) = max_entries s"
  by (simp_all add: Read_TcpUdp_Timeout_def Let_def split: proc_read.splits)

lemma DeleteEntry_max_entries [simp]: "max_entries (snd (DeleteEntry h rule s)) = max_entries s"
  by (simp add: DeleteEntry_def Let_def)

lemma ct_prepare_frame:
  assumes "ct_prepare h s = (b, t)"
  shows "natapp_wf t = natapp_wf s" and "cache t = cache s" and "max_entries t = max_entries s"
  using assms by (auto simp: ct_prepare_def Let_def split: prod.splits option.splits if_splits)

lemma wf_UpdateCTUdpTs:
  assumes "natapp_wf s" and "cnt < max_entries s" and "enabled (cache s ! cnt)"
  shows "natapp_wf (UpdateCTUdpTs h cnt ts s) \<and> max_entries (UpdateCTUdpTs h cnt ts s) = max_entries s"
proof -
  obtain b t where prep: "ct_prepare h s = (b, t)" by fastforce
  note frame = ct_prepare_frame [OF prep]
  let ?rule = "cache s ! cnt"
  obtain ret w where query: "nfct_query h (ct_attrs t ?rule) (world t) = (ret, w)" by fastforce
  let ?t = "t\<lparr>ct := Some (ct_attrs t ?rule), world := w\<rparr>"
  have occ: "\<not> entry_is_free ?rule" using assms by (rule wf_enabled_occupied)
  have wf: "natapp_wf ?t" using frame(1) assms(1) by simp
  have "natapp_wf (upd_cache cnt (\<lambda>e. e\<lparr>timestamp := ts\<rparr>) ?t)"
    by (rule wf_rewrite [OF wf]) (use assms occ frame in \<open>simp_all add: entry_key_def\<close>)
  moreover have "natapp_wf (snd (DeleteEntry h ?rule ?t))" using wf occ by (rule wf_DeleteEntry)
  moreover have "ct_attrs (t\<lparr>ct := c\<rparr>) r = ct_attrs t r" for c r by (simp add: ct_attrs_def)
  ultimately show ?thesis
    using prep query frame assms(1) by (simp add: UpdateCTUdpTs_def Let_def)
qed

lemma wf_UpdateUDPTimeStamp_body:
  assumes "natapp_wf s" and "cnt < max_entries s"
  shows "natapp_wf (snd (UpdateUDPTimeStamp_body h cnt (rd, s))) \<and>
         max_entries (snd (UpdateUDPTimeStamp_body h cnt (rd, s))) = max_entries s"
  using assms by (auto simp: UpdateUDPTimeStamp_body_def Let_def wf_UpdateCTUdpTs split: prod.splits)

lemma wf_UpdateUDPTimeStamp [inv_intros]:
  assumes "natapp_wf s"
  shows "natapp_wf (UpdateUDPTimeStamp h s)"
proof -
  let ?n = "max_entries s"
  let ?I = "\<lambda>st. natapp_wf (snd st) \<and> max_entries (snd st) = ?n"
  have "?I (for_upto ?n (UpdateUDPTimeStamp_body h) (False, s))"
  proof (rule for_upto_inv [where I = ?I])
    fix i and st :: "bool \<times> 'a natapp"
    assume "i < ?n" and "?I st"
    then show "?I (UpdateUDPTimeStamp_body h i st)"
      using wf_UpdateUDPTimeStamp_body [of "snd st" i h "fst st"] by simp
  qed (use assms in simp)
  then show ?thesis by (simp add: UpdateUDPTimeStamp_def)
qed

subsection \<open>Power save and clients that leave\<close>

lemma wf_UpdatePwrSaveIf_body:
  assumes "natapp_wf s" and "cnt < max_entries s"
  shows "natapp_wf (UpdatePwrSaveIf_body h ip cnt s) \<and>
         max_entries (UpdatePwrSaveIf_body h ip cnt s) = max_entries s"
  using assms
  by (auto simp: UpdatePwrSaveIf_body_def Let_def entry_key_def split: prod.splits intro!: wf_rewrite)

lemma wf_UpdatePwrSaveIf [inv_intros]: "natapp_wf s \<Longrightarrow> natapp_wf (snd (UpdatePwrSaveIf h ip s))"
  by (auto simp: UpdatePwrSaveIf_def Let_def wf_UpdatePwrSaveIf_body wf_for_upto [THEN conjunct1]
      simp del: fold_simps)

lemma drop_pwr_save_frame [simp]:
  "natapp_wf (drop_pwr_save ip s) = natapp_wf s" "max_entries (drop_pwr_save ip s) = max_entries s"
  "cache (drop_pwr_save ip s) = cache s"
  by (simp_all add: drop_pwr_save_def Let_def)

lemma wf_ResetPwrSaveIf [inv_intros]:
  assumes "natapp_wf s"
  shows "natapp_wf (snd (ResetPwrSaveIf h ip s))"
proof (cases "ip = INVALID_IP_ADDR")
  case True
  with assms show ?thesis by (simp add: ResetPwrSaveIf_def)
next
  case False
  let ?t = "drop_pwr_save ip s"
  let ?body = "\<lambda>cnt s. if private_ip (cache s ! cnt) = ip \<and> \<not> enabled (cache s ! cnt)
                        then restore_entry h cnt s else s"
  have "natapp_wf (for_upto (max_entries ?t) ?body ?t)"
    by (rule wf_for_upto [THEN conjunct1])
      (use assms False in \<open>auto simp: wf_restore_entry not_free_if_private INVALID_IP_ADDR_def\<close>)
  with False show ?thesis by (simp add: ResetPwrSaveIf_def Let_def)
qed

lemma wf_DelEntriesOnClntDiscon_body:
  assumes "natapp_wf s" and "cnt < max_entries s"
  shows "natapp_wf (DelEntriesOnClntDiscon_body h ip cnt s) \<and>
         max_entries (DelEntriesOnClntDiscon_body h ip cnt s) = max_entries s"
  using assms
  by (auto simp: DelEntriesOnClntDiscon_body_def Let_def entry_key_def split: prod.splits intro!: wf_rewrite)

lemma wf_DelEntriesOnClntDiscon [inv_intros]:
  assumes "natapp_wf s"
  shows "natapp_wf (snd (DelEntriesOnClntDiscon h ip s))"
proof -
  have "natapp_wf (for_upto (max_entries (drop_pwr_save ip s)) (DelEntriesOnClntDiscon_body h ip)
          (drop_pwr_save ip s))"
    by (rule wf_for_upto [THEN conjunct1]) (use assms in \<open>auto simp: wf_DelEntriesOnClntDiscon_body\<close>)
  with assms show ?thesis by (simp add: DelEntriesOnClntDiscon_def Let_def)
qed

lemma wf_DelEntriesOnSTAClntDiscon_body:
  assumes "natapp_wf s" and "cnt < max_entries s" and "ip \<noteq> 0"
  shows "natapp_wf (DelEntriesOnSTAClntDiscon_body h ip cnt s) \<and>
         max_entries (DelEntriesOnSTAClntDiscon_body h ip cnt s) = max_entries s"
proof (cases "target_ip (cache s ! cnt) = ip")
  case True
  with assms(3) have "\<not> entry_is_free (cache s ! cnt)" by (simp add: not_free_if_target)
  then have "natapp_wf ((upd_cache cnt (\<lambda>_. zero_entry) (s\<lparr>world := w\<rparr>))\<lparr>curCnt := curCnt (s\<lparr>world := w\<rparr>) - 1\<rparr>)"
    for w using assms(1,2) by (intro wf_clear) simp_all
  from this [of "world s"] this True assms(1) show ?thesis
    by (auto simp: DelEntriesOnSTAClntDiscon_body_def Let_def split: prod.splits)
next
  case False
  with assms(1) show ?thesis by (simp add: DelEntriesOnSTAClntDiscon_body_def Let_def)
qed

lemma wf_DelEntriesOnSTAClntDiscon [inv_intros]:
  assumes "natapp_wf s"
  shows "natapp_wf (snd (DelEntriesOnSTAClntDiscon h ip s))"
proof (cases "ip = INVALID_IP_ADDR")
  case True
  with assms show ?thesis by (simp add: DelEntriesOnSTAClntDiscon_def)
next
  case False
  have "natapp_wf (for_upto (max_entries s) (DelEntriesOnSTAClntDiscon_body h ip) s)"
    by (rule wf_for_upto [THEN conjunct1])
      (use assms False in \<open>auto simp: wf_DelEntriesOnSTAClntDiscon_body INVALID_IP_ADDR_def\<close>)
  with False show ?thesis by (simp add: DelEntriesOnSTAClntDiscon_def)
qed

subsection \<open>Temporary entries\<close>

lemma wf_AddTempEntry [inv_intros, simp]: "natapp_wf (AddTempEntry e s) = natapp_wf s"
  by (simp add: AddTempEntry_def Let_def)

lemma wf_DeleteTempEntry [inv_intros, simp]: "natapp_wf (DeleteTempEntry e s) = natapp_wf s"
  by (simp add: DeleteTempEntry_def Let_def)

lemma wf_FlushTempEntries_body:
  assumes "natapp_wf s"
  shows "natapp_wf (FlushTempEntries_body h ip isAdd isDummy i s)"
proof -
  let ?f = "\<lambda>e. e\<lparr>private_ip := public_ip e, private_port := public_port e\<rparr>"
  let ?t = "if isDummy then upd_temp i ?f s else s"
  obtain ret u where add: "AddEntry h (temp ?t ! i) ?t = (ret, u)" by fastforce
  have "natapp_wf ?t" using assms by simp
  then have "natapp_wf u" using wf_AddEntry [of ?t h "temp ?t ! i"] add by simp
  with add assms show ?thesis by (simp add: FlushTempEntries_body_def Let_def)
qed

lemma wf_FlushTempEntries [inv_intros]:
  "natapp_wf s \<Longrightarrow> natapp_wf (FlushTempEntries h ip isAdd isDummy s)"
  unfolding FlushTempEntries_def by (rule for_upto_inv) (rule wf_FlushTempEntries_body)

subsection \<open>Runs of the public interface\<close>

text \<open>The public operations, as the rest of the program calls them.\<close>

datatype natapp_op =
    OpAddTable u32 | OpDeleteTable u32
  | OpAddEntry nat_table_entry | OpDeleteEntry nat_table_entry | OpCacheEntry nat_table_entry
  | OpUpdateUDPTimeStamp
  | OpUpdatePwrSaveIf u32 | OpResetPwrSaveIf u32
  | OpDelEntriesOnClntDiscon u32 | OpDelEntriesOnSTAClntDiscon u32
  | OpAddTempEntry nat_table_entry | OpDeleteTempEntry nat_table_entry
  | OpFlushTempEntries u32 bool bool

fun exec_op :: "'w nat_env \<Rightarrow> natapp_op \<Rightarrow> 'w natapp \<Rightarrow> 'w natapp" where
  "exec_op h (OpAddTable ip) s = snd (AddTable h ip s)"
| "exec_op h (OpDeleteTable ip) s = snd (DeleteTable h ip s)"
| "exec_op h (OpAddEntry e) s = snd (AddEntry h e s)"
| "exec_op h (OpDeleteEntry e) s = snd (DeleteEntry h e s)"
| "exec_op h (OpCacheEntry e) s = CacheEntry e s"
| "exec_op h OpUpdateUDPTimeStamp s = UpdateUDPTimeStamp h s"
| "exec_op h (OpUpdatePwrSaveIf ip) s = snd (UpdatePwrSaveIf h ip s)"
| "exec_op h (OpResetPwrSaveIf ip) s = snd (ResetPwrSaveIf h ip s)"
| "exec_op h (OpDelEntriesOnClntDiscon ip) s = snd (DelEntriesOnClntDiscon h ip s)"
| "exec_op h (OpDelEntriesOnSTAClntDiscon ip) s = snd (DelEntriesOnSTAClntDiscon h ip s)"
| "exec_op h (OpAddTempEntry e) s = AddTempEntry e s"
| "exec_op h (OpDeleteTempEntry e) s = DeleteTempEntry e s"
| "exec_op h (OpFlushTempEntries ip isAdd isDummy) s = FlushTempEntries h ip isAdd isDummy s"

text \<open>The one obligation of a caller: a deletion names a connection (not the all-zero tuple).\<close>

fun op_ok :: "natapp_op \<Rightarrow> bool" where
  "op_ok (OpDeleteEntry e) = (\<not> entry_is_free e)"
| "op_ok _ = True"

lemma wf_exec_op: "natapp_wf s \<Longrightarrow> op_ok x \<Longrightarrow> natapp_wf (exec_op h x s)"
  by (cases x) (simp_all add: inv_intros)

lemma wf_run: "natapp_wf s \<Longrightarrow> list_all op_ok xs \<Longrightarrow> natapp_wf (fold (exec_op h) xs s)"
  by (induction xs arbitrary: s) (simp_all add: wf_exec_op)

end
