(* ===== verification/NatApp_Props.thy ===== *)
theory NatApp_Props
  imports NatApp_Inv
begin

text \<open>
  What the operations of the NAT application achieve: the cache over any run, adding and
  deleting a connection, taking the table down and up again, power save, clients that leave,
  the temporary entries. The properties hold for every driver; where one speaks of the effect
  of a successful driver call, that success is a hypothesis.
\<close>

subsection \<open>Loops that touch one cell per turn\<close>

lemma for_upto_cells:
  assumes "length (cache s) = n" and "F s"
    and "\<And>i t. i < n \<Longrightarrow> F t \<Longrightarrow>
           \<exists>v. cache (body i t) = (cache t)[i := v] \<and> Q i (cache t ! i) v \<and> F (body i t)"
  shows "F (for_upto n body s) \<and> length (cache (for_upto n body s)) = n \<and>
         (\<forall>j<n. Q j (cache s ! j) (cache (for_upto n body s) ! j))"
proof -
  let ?I = "\<lambda>i t. F t \<and> length (cache t) = n \<and> (\<forall>j<i. Q j (cache s ! j) (cache t ! j)) \<and>
                   (\<forall>j. i \<le> j \<longrightarrow> j < n \<longrightarrow> cache t ! j = cache s ! j)"
  have "?I n (for_upto n body s)"
  proof (rule for_upto_inv_idx [where I = ?I])
    fix i t
    assume i: "i < n" and I: "?I i t"
    then obtain v where v: "cache (body i t) = (cache t)[i := v]" "Q i (cache t ! i) v" "F (body i t)"
      using assms(3) [of i t] by blast
    with I i show "?I (Suc i) (body i t)" by (auto simp: less_Suc_eq nth_list_update)
  qed (use assms in simp)
  then show ?thesis by simp
qed

text \<open>The same for a loop over the cache of a well-formed state.\<close>

lemma for_upto_cells_wf:
  assumes "natapp_wf s"
    and "\<And>i t. i < max_entries t \<Longrightarrow> natapp_wf t \<Longrightarrow>
           natapp_wf (body i t) \<and> max_entries (body i t) = max_entries t"
    and "\<And>i t. i < max_entries t \<Longrightarrow> natapp_wf t \<Longrightarrow>
           \<exists>v. cache (body i t) = (cache t)[i := v] \<and> Q (cache t ! i) v"
  shows "\<forall>j<max_entries s. Q (cache s ! j) (cache (for_upto (max_entries s) body s) ! j)"
proof -
  let ?F = "\<lambda>t. natapp_wf t \<and> max_entries t = max_entries s"
  have "\<forall>j<max_entries s. (\<lambda>_. Q) j (cache s ! j) (cache (for_upto (max_entries s) body s) ! j)"
  proof (rule for_upto_cells [where F = ?F, THEN conjunct2, THEN conjunct2])
    show "length (cache s) = max_entries s" using assms(1) by (rule wf_length)
  next
    fix i and t :: "'a natapp"
    assume "i < max_entries s" and "?F t"
    then show "\<exists>v. cache (body i t) = (cache t)[i := v] \<and> Q (cache t ! i) v \<and> ?F (body i t)"
      using assms(2,3) [of i t] by auto
  qed (use assms(1) in simp)
  then show ?thesis .
qed

subsection \<open>Drivers\<close>

text \<open>The driver reports success for every rule added, and for every rule deleted.\<close>

definition drv_accepts :: "'w nat_env \<Rightarrow> bool" where
  "drv_accepts h \<longleftrightarrow> (\<forall>tbl r old w. 0 \<le> fst (ipa_nat_add_ipv4_rule h tbl r old w))"

definition drv_deletes :: "'w nat_env \<Rightarrow> bool" where
  "drv_deletes h \<longleftrightarrow> (\<forall>tbl hdl w. 0 \<le> fst (ipa_nat_del_ipv4_rule h tbl hdl w))"

text \<open>
  A small driver for the witnesses: the world counts calls, every call succeeds, a new rule
  gets the count as its handle, the time stamp read is 7, both timeouts parse.
\<close>

definition counting_env :: "u32 nat_env" where
  "counting_env =
     \<lparr>ipa_nat_add_ipv4_tbl = (\<lambda>ip n old w. (0, 1, w + 1)),
      ipa_nat_del_ipv4_tbl = (\<lambda>tbl w. (0, w + 1)),
      ipa_nat_add_ipv4_rule = (\<lambda>tbl r old w. (0, w + 1, w + 1)),
      ipa_nat_del_ipv4_rule = (\<lambda>tbl hdl w. (0, w + 1)),
      ipa_nat_query_timestamp = (\<lambda>tbl hdl old w. (0, 7, w)),
      nfct_open = (\<lambda>w. (True, w)),
      nfct_new = (\<lambda>w. (Some \<lparr>ATTR_L3PROTO = 0, ATTR_L4PROTO = 0, ATTR_TIMEOUT = 0,
          ATTR_IPV4_SRC = 0, ATTR_PORT_SRC = 0, ATTR_IPV4_DST = 0, ATTR_PORT_DST = 0\<rparr>, w)),
      nfct_query = (\<lambda>c w. (0, w)),
      read_proc = (\<lambda>f w. ScanOk 60)\<rparr>"

lemma counting_env_ok [simp]: "drv_accepts counting_env" "drv_deletes counting_env"
  by (simp_all add: drv_accepts_def drv_deletes_def counting_env_def)

text \<open>A connection from 192.168.225.10:5000 to 8.8.8.8:53 over UDP, and a two-cell instance.\<close>

definition conn1 :: nat_table_entry where
  "conn1 = zero_entry\<lparr>private_ip := 0xC0A8E10A, private_port := 5000, target_ip := 0x08080808,
     target_port := 53, public_ip := 0x0A000001, public_port := 6000, protocol := 17\<rparr>"

definition junk0 :: natapp_junk where
  "junk0 = \<lparr>junk_pub_ip_addr_pre = 0, junk_tcp_timeout = 0, junk_udp_timeout = 0,
     junk_PwrSaveIfs = replicate IPA_MAX_NUM_WIFI_CLIENTS 0\<rparr>"

definition inst0 :: "u32 natapp" where
  "inst0 = snd (Init (Some (2, [])) True True (NatApp_ctor junk0 0))"

lemma inst0_eq:
  "inst0 = \<lparr>cache = [zero_entry, zero_entry], temp = replicate 25 zero_entry, pub_ip_addr = 0,
     pub_ip_addr_pre = 0, nat_table_hdl = 0, curCnt = 0, max_entries = 2, pALGPorts = [],
     tcp_timeout = 0, udp_timeout = 0, PwrSaveIfs = replicate 32 0, ct = None, ct_hdl = False, world = 0\<rparr>"
  by (simp add: inst0_def Init_def NatApp_ctor_def junk0_def MAX_TEMP_ENTRIES_def
      IPA_MAX_NUM_WIFI_CLIENTS_def numeral_2_eq_2)

lemma inst0_wf [simp]: "natapp_wf inst0"
  by (rule wf_ctor_init [of junk0 "Some (2, [])" True True 0])
    (simp_all add: junk0_def inst0_def Init_def Let_def)

lemma conn1_valid [simp]: "\<not> entry_is_invalid conn1" "\<not> entry_is_free conn1"
  by (simp_all add: conn1_def entry_is_invalid_def entry_is_free_def)

subsection \<open>The cache over any run\<close>

lemma wf_run_from_GetInstance:
  assumes "GetInstance cfg mc ma junk w Null = (Live s, p)"
    and "length (junk_PwrSaveIfs junk) = IPA_MAX_NUM_WIFI_CLIENTS"
    and "list_all op_ok xs"
  shows "natapp_wf (fold (exec_op h) xs s)"
proof (rule wf_run [OF _ assms(3)])
  from assms(1) have "Init cfg mc ma (NatApp_ctor junk w) = (0, s)"
    by (auto simp: GetInstance_def split: prod.splits if_splits)
  with assms(2) show "natapp_wf s" by (rule wf_ctor_init)
qed

text \<open>
  C27. Whatever sequence of public operations runs on a fresh instance, except that no \<open>DeleteEntry\<close> is called
  for the all-zero tuple (\<open>op_ok\<close>; see \<open>delete_zero_tuple_miscounts\<close>), and whatever the driver answers: no
  connection is cached twice, \<open>curCnt\<close> is the number of cached connections and never exceeds
  \<open>max_entries\<close>, and an enabled cell names a complete connection.
\<close>

theorem cache_integrity:
  assumes "GetInstance cfg mc ma junk w Null = (Live s0, p)"
    and "length (junk_PwrSaveIfs junk) = IPA_MAX_NUM_WIFI_CLIENTS"
    and "list_all op_ok xs"
    and "s = fold (exec_op h) xs s0"
  shows "distinct (map entry_key (filter (\<lambda>e. \<not> entry_is_free e) (cache s))) \<and>
         curCnt s = int (length (filter (\<lambda>e. \<not> entry_is_free e) (cache s))) \<and>
         curCnt s \<le> int (max_entries s) \<and>
         (\<forall>e\<in>set (cache s). enabled e \<longrightarrow> \<not> entry_is_invalid e)"
proof -
  have wf: "natapp_wf s" using wf_run_from_GetInstance [OF assms(1-3)] assms(4) by simp
  then have "nat_slots.uniq (cache s)" and cnt: "curCnt s = int (nat_slots.used (cache s))"
    and ok: "\<forall>e\<in>set (cache s). cell_ok e" by (simp_all add: natapp_wf_def)
  moreover have "nat_slots.used (cache s) \<le> max_entries s"
    using nat_slots.used_le [of "cache s"] wf_length [OF wf] by simp
  ultimately show ?thesis by (auto simp: nat_slots.distinct_iff_uniq nat_slots.used_def cell_ok_def)
qed

theorem cache_integrity_witness:
  "let s = fold (exec_op counting_env) [OpAddTable 0x0A000001, OpAddEntry conn1, OpAddEntry conn1] inst0
   in distinct (map entry_key (filter (\<lambda>e. \<not> entry_is_free e) (cache s))) \<and>
      curCnt s = int (length (filter (\<lambda>e. \<not> entry_is_free e) (cache s))) \<and>
      curCnt s \<le> int (max_entries s) \<and>
      (\<forall>e\<in>set (cache s). enabled e \<longrightarrow> \<not> entry_is_invalid e)"
proof -
  have "GetInstance (Some (2, [])) True True junk0 0 Null = (Live inst0, Live inst0)"
    by (simp add: GetInstance_def Init_def inst0_def Let_def)
  then show ?thesis
    unfolding Let_def by (rule cache_integrity [OF _ _ _ refl]) (simp_all add: junk0_def)
qed

subsection \<open>Adding and deleting a connection\<close>

text \<open>The conditions under which \<open>AddEntry\<close> gets to the driver.\<close>

definition addable :: "'w natapp \<Rightarrow> nat_table_entry \<Rightarrow> bool" where
  "addable s rule \<longleftrightarrow>
     nat_table_hdl s \<noteq> 0 \<and> \<not> isAlgPort s (protocol rule) (private_port rule) \<and>
     \<not> isAlgPort s (protocol rule) (target_port rule) \<and> \<not> entry_is_invalid rule \<and>
     \<not> ChkForDup s rule \<and> curCnt s < int (max_entries s)"

lemma not_full_free_cell:
  assumes "natapp_wf s" and "curCnt s < int (max_entries s)"
  shows "find_idx (\<lambda>i. entry_is_free (cache s ! i)) (max_entries s) < max_entries s"
proof -
  have "\<exists>e\<in>set (cache s). entry_is_free e"
  proof (rule ccontr)
    assume "\<not> ?thesis"
    then have "filter (\<lambda>e. \<not> entry_is_free e) (cache s) = cache s" by (simp add: filter_id_conv)
    with assms show False by (simp add: natapp_wf_def nat_slots.used_def)
  qed
  with wf_length [OF assms(1)] show ?thesis by (auto simp: loop_simps in_set_conv_nth)
qed

lemma full_no_free_cell:
  assumes "natapp_wf s" and "\<not> curCnt s < int (max_entries s)"
  shows "find_idx (\<lambda>i. entry_is_free (cache s ! i)) (max_entries s) = max_entries s"
proof -
  have "nat_slots.used (cache s) = length (cache s)"
    using assms nat_slots.used_le [of "cache s"] by (simp add: natapp_wf_def)
  with wf_length [OF assms(1)] nat_slots.used_full [of "cache s"] show ?thesis
    by (auto simp: loop_simps)
qed

text \<open>The state after a successful \<open>AddEntry\<close>: which cell changed, and to what.\<close>

lemma AddEntry_success:
  assumes "natapp_wf s" and "addable s rule"
    and "\<not> isPwrSaveIf s (private_ip rule)" and "\<not> isPwrSaveIf s (target_ip rule)"
    and "i = find_idx (\<lambda>i. entry_is_free (cache s ! i)) (max_entries s)"
    and "ipa_nat_add_ipv4_rule h (nat_table_hdl s) (nat_rule_of rule) (rule_hdl (cache s ! i)) (world s) = (r, hdl, w)"
    and "0 \<le> r"
  shows "AddEntry h rule s =
     (0, s\<lparr>cache := (cache s)[i := fill_from_rule rule ((cache s ! i)\<lparr>rule_hdl := hdl, enabled := True\<rparr>)],
          curCnt := curCnt s + 1, world := w\<rparr>)"
proof -
  have i: "i < max_entries s"
    using assms(2,5) not_full_free_cell [OF assms(1)] by (simp add: addable_def)
  then have len: "i < length (cache s)" using wf_length [OF assms(1)] by simp
  have "AddEntry h rule s =
      (let s = upd_cache i (\<lambda>e. e\<lparr>rule_hdl := hdl\<rparr>) (s\<lparr>world := w\<rparr>);
           s = upd_cache i (\<lambda>e. fill_from_rule rule (e\<lparr>enabled := True\<rparr>)) s
       in (0, s\<lparr>curCnt := curCnt s + 1\<rparr>))"
    using assms(2-4,6,7) i by (simp add: AddEntry_def addable_def Let_def flip: assms(5))
  then show ?thesis using len by (simp add: upd_cache_def Let_def)
qed

lemma AddEntry_dup_or_full:
  assumes "natapp_wf s" and "\<not> entry_is_invalid rule"
    and "ChkForDup s rule \<or> \<not> curCnt s < int (max_entries s)"
  shows "AddEntry h rule s = (-1, s)"
  using assms full_no_free_cell [OF assms(1)] by (auto simp: AddEntry_def Let_def)

lemma AddEntry_power_save:
  assumes "natapp_wf s" and "addable s rule" and "isPwrSaveIf s (private_ip rule) \<or> isPwrSaveIf s (target_ip rule)"
    and "i = find_idx (\<lambda>i. entry_is_free (cache s ! i)) (max_entries s)"
  shows "AddEntry h rule s =
     (0, s\<lparr>cache := (cache s)[i := fill_from_rule rule ((cache s ! i)\<lparr>enabled := False, rule_hdl := 0\<rparr>)],
          curCnt := curCnt s + 1\<rparr>)"
  using assms not_full_free_cell [OF assms(1)]
  by (auto simp: addable_def AddEntry_def Let_def upd_cache_def)

lemma AddEntry_driver_refuses:
  assumes "natapp_wf s" and "addable s rule"
    and "\<not> isPwrSaveIf s (private_ip rule)" and "\<not> isPwrSaveIf s (target_ip rule)"
    and "i = find_idx (\<lambda>i. entry_is_free (cache s ! i)) (max_entries s)"
    and "ipa_nat_add_ipv4_rule h (nat_table_hdl s) (nat_rule_of rule) (rule_hdl (cache s ! i)) (world s) = (r, hdl, w)"
    and "r < 0"
  shows "AddEntry h rule s = (-1, s\<lparr>cache := (cache s)[i := (cache s ! i)\<lparr>rule_hdl := hdl\<rparr>], world := w\<rparr>)"
proof -
  have "i < max_entries s" using assms(2,5) not_full_free_cell [OF assms(1)] by (simp add: addable_def)
  then show ?thesis
    using assms(2-4,6,7) by (simp add: AddEntry_def addable_def Let_def upd_cache_def flip: assms(5))
qed

text \<open>
  C30. \<open>AddEntry\<close> answers every request by one of its branches: a missing table, an ALG port, a
  duplicate or a full cache is refused with \<open>-1\<close> and changes nothing; an incomplete
  connection is ignored with 0; a connection of a client in power save is cached disabled
  without a driver call; otherwise the driver is asked, its refusal leaves every connection and
  the count as they were, and its success caches the connection in the first free cell, enabled
  under the driver's handle.
\<close>

theorem AddEntry_spec:
  assumes "natapp_wf s" and "i = find_idx (\<lambda>i. entry_is_free (cache s ! i)) (max_entries s)"
    and "ipa_nat_add_ipv4_rule h (nat_table_hdl s) (nat_rule_of rule) (rule_hdl (cache s ! i)) (world s) = (r, hdl, w)"
  shows "AddEntry h rule s =
    (if nat_table_hdl s = 0 \<or> isAlgPort s (protocol rule) (private_port rule) \<or>
        isAlgPort s (protocol rule) (target_port rule) then (-1, s)
     else if entry_is_invalid rule then (0, s)
     else if entry_key rule \<in> entry_key ` set (cache s) \<or> curCnt s = int (max_entries s) then (-1, s)
     else if isPwrSaveIf s (private_ip rule) \<or> isPwrSaveIf s (target_ip rule) then
       (0, s\<lparr>cache := (cache s)[i := fill_from_rule rule ((cache s ! i)\<lparr>enabled := False, rule_hdl := 0\<rparr>)],
            curCnt := curCnt s + 1\<rparr>)
     else if r < 0 then (-1, s\<lparr>cache := (cache s)[i := (cache s ! i)\<lparr>rule_hdl := hdl\<rparr>], world := w\<rparr>)
     else (0, s\<lparr>cache := (cache s)[i := fill_from_rule rule ((cache s ! i)\<lparr>rule_hdl := hdl, enabled := True\<rparr>)],
               curCnt := curCnt s + 1, world := w\<rparr>))"
proof -
  have dup: "ChkForDup s rule \<longleftrightarrow> entry_key rule \<in> entry_key ` set (cache s)"
    using wf_length [OF assms(1)] by (auto simp: ChkForDup_iff in_set_conv_nth image_iff) (metis nth_mem)
  have full: "curCnt s = int (max_entries s) \<longleftrightarrow> \<not> curCnt s < int (max_entries s)"
    using assms(1) nat_slots.used_le [of "cache s"] by (auto simp: natapp_wf_def)
  consider (refused) "nat_table_hdl s = 0 \<or> isAlgPort s (protocol rule) (private_port rule) \<or>
      isAlgPort s (protocol rule) (target_port rule)"
    | (ignored) "nat_table_hdl s \<noteq> 0" "\<not> isAlgPort s (protocol rule) (private_port rule)"
      "\<not> isAlgPort s (protocol rule) (target_port rule)" "entry_is_invalid rule"
    | (dup_full) "\<not> entry_is_invalid rule" "ChkForDup s rule \<or> \<not> curCnt s < int (max_entries s)"
    | (save) "addable s rule" "isPwrSaveIf s (private_ip rule) \<or> isPwrSaveIf s (target_ip rule)"
    | (drv) "addable s rule" "\<not> isPwrSaveIf s (private_ip rule)" "\<not> isPwrSaveIf s (target_ip rule)"
    unfolding addable_def by blast
  then show ?thesis
  proof cases
    case refused
    then show ?thesis by (auto simp: AddEntry_def)
  next
    case ignored
    then show ?thesis by (simp add: AddEntry_def)
  next
    case dup_full
    then show ?thesis using AddEntry_dup_or_full [OF assms(1)] by (simp add: full flip: dup)
  next
    case save
    then show ?thesis
      using AddEntry_power_save [OF assms(1) save assms(2)] by (simp add: addable_def full flip: dup)
  next
    case drv
    then show ?thesis
      using AddEntry_success [OF assms(1) drv assms(2,3)] AddEntry_driver_refuses [OF assms(1) drv assms(2,3)]
      by (simp add: addable_def full flip: dup)
  qed
qed

theorem AddEntry_spec_witness:
  "let s = snd (AddTable counting_env 0x0A000001 inst0)
   in AddEntry counting_env conn1 s =
        (0, s\<lparr>cache := [fill_from_rule conn1 (zero_entry\<lparr>rule_hdl := 2, enabled := True\<rparr>), zero_entry],
             curCnt := 1, world := 2\<rparr>)"
proof -
  let ?s = "snd (AddTable counting_env 0x0A000001 inst0)"
  have s: "?s = inst0\<lparr>nat_table_hdl := 1, pub_ip_addr := 0x0A000001, world := 1\<rparr>"
    by (simp add: AddTable_def counting_env_def inst0_eq)
  have wf: "natapp_wf ?s" by (rule wf_AddTable) simp
  have i: "0 = find_idx (\<lambda>i. entry_is_free (cache ?s ! i)) (max_entries ?s)"
    unfolding s by (rule find_idx_eqI [symmetric]) (simp_all add: inst0_eq)
  have free: "entry_key conn1 \<noteq> entry_key zero_entry" by (simp add: conn1_def zero_entry_def entry_key_def)
  have no_ps: "\<not> isPwrSaveIf ?s ip" for ip
    unfolding s by (simp add: isPwrSaveIf_def loop_simps inst0_eq IPA_MAX_NUM_WIFI_CLIENTS_def)
  have no_alg: "\<not> isAlgPort ?s a b" for a b unfolding s by (simp add: isAlgPort_def inst0_eq)
  have call: "ipa_nat_add_ipv4_rule counting_env (nat_table_hdl ?s) (nat_rule_of conn1)
      (rule_hdl (cache ?s ! 0)) (world ?s) = (0, 2, 2)" unfolding s by (simp add: counting_env_def)
  show ?thesis
    unfolding Let_def
    using AddEntry_spec [OF wf i call] no_ps no_alg free conn1_valid(1) unfolding s by (simp add: inst0_eq)
qed

text \<open>The connections in the cache.\<close>

definition conns :: "'w natapp \<Rightarrow> five_tuple set" where
  "conns s = nat_slots.keys (cache s)"

lemma conns_iff: "natapp_wf s \<Longrightarrow> \<not> entry_is_free rule \<Longrightarrow> entry_key rule \<in> conns s \<longleftrightarrow> ChkForDup s rule"
  by (simp add: conns_def ChkForDup_iff nat_slots.keys_member natapp_wf_def)

lemma DeleteEntry_effect:
  assumes "natapp_wf s" and "\<not> entry_is_free rule"
  shows "conns (snd (DeleteEntry h rule s)) = conns s - {entry_key rule} \<and>
         curCnt (snd (DeleteEntry h rule s)) = curCnt s - (if entry_key rule \<in> conns s then 1 else 0)"
proof -
  let ?cnt = "find_idx (\<lambda>i. entry_matches (cache s ! i) rule) (max_entries s)"
  show ?thesis
  proof (cases "ChkForDup s rule")
    case True
    then have lt: "?cnt < max_entries s" by (simp add: ChkForDup_def)
    then have k: "entry_key (cache s ! ?cnt) = entry_key rule"
      using find_idx_sat [OF lt] by (simp add: entry_matches_iff)
    then have occ: "\<not> entry_is_free (cache s ! ?cnt)" using assms(2) by (simp add: entry_is_free_iff)
    have "nat_slots.keys ((cache s)[?cnt := zero_entry]) = conns s - {entry_key rule}"
      using nat_slots.keys_clear [of "cache s" ?cnt] assms(1) lt occ k by (simp add: conns_def natapp_wf_def)
    with lt True show ?thesis
      by (simp add: DeleteEntry_def Let_def conns_iff [OF assms]) (simp add: conns_def)
  next
    case False
    then show ?thesis using conns_iff [OF assms] by (simp add: DeleteEntry_def Let_def ChkForDup_def)
  qed
qed

lemma AddEntry_effect:
  assumes "natapp_wf s" and "AddEntry h rule s = (0, t)" and "\<not> entry_is_invalid rule"
  shows "conns t = insert (entry_key rule) (conns s)" and "entry_key rule \<notin> conns s"
    and "curCnt t = curCnt s + 1"
proof -
  let ?i = "find_idx (\<lambda>i. entry_is_free (cache s ! i)) (max_entries s)"
  obtain r hdl w where call: "ipa_nat_add_ipv4_rule h (nat_table_hdl s) (nat_rule_of rule)
      (rule_hdl (cache s ! ?i)) (world s) = (r, hdl, w)" by (metis prod_cases3)
  have occ: "\<not> entry_is_free rule" using assms(3) invalid_if_free by blast
  have add: "addable s rule"
  proof (rule ccontr)
    assume "\<not> ?thesis"
    then have "fst (AddEntry h rule s) = -1"
      using assms(3) AddEntry_dup_or_full [OF assms(1,3)] by (auto simp: addable_def AddEntry_def)
    with assms(2) show False by simp
  qed
  then have lt: "?i < max_entries s" using not_full_free_cell [OF assms(1)] by (simp add: addable_def)
  have fill: "nat_slots.keys ((cache s)[?i := fill_from_rule rule e]) = insert (entry_key rule) (conns s)" for e
    using nat_slots.keys_fill [of ?i "cache s" "fill_from_rule rule e"] lt find_idx_sat [OF lt] occ
      wf_length [OF assms(1)]
    by (simp add: fill_from_rule_key entry_is_free_iff conns_def)
  show "entry_key rule \<notin> conns s" using add conns_iff [OF assms(1) occ] by (simp add: addable_def)
  show "conns t = insert (entry_key rule) (conns s)" and "curCnt t = curCnt s + 1"
    using assms(2) AddEntry_spec [OF assms(1) refl call] fill assms(3)
    by (auto simp: conns_def split: if_splits)
qed

text \<open>
  C29. The cache is a set of connections: a successful \<open>AddEntry\<close> of a complete connection adds
  exactly that one, which was not there; adding it again is refused; \<open>DeleteEntry\<close> removes exactly
  it, whatever the driver answers, and gives back the set and the count there were before.
\<close>

theorem add_delete_roundtrip:
  assumes "natapp_wf s" and "AddEntry h rule s = (0, t)" and "\<not> entry_is_invalid rule"
  shows "conns t = insert (entry_key rule) (conns s) \<and> fst (AddEntry h rule t) = -1 \<and>
         conns (snd (DeleteEntry h' rule t)) = conns s \<and> curCnt (snd (DeleteEntry h' rule t)) = curCnt s"
proof -
  note eff = AddEntry_effect [OF assms]
  have wft: "natapp_wf t" using wf_AddEntry [OF assms(1), of h rule] assms(2) by simp
  have occ: "\<not> entry_is_free rule" using assms(3) invalid_if_free by blast
  have "ChkForDup t rule" using conns_iff [OF wft occ] eff(1) by simp
  then have "fst (AddEntry h rule t) = -1" using AddEntry_dup_or_full [OF wft assms(3)] by simp
  with eff DeleteEntry_effect [OF wft occ] show ?thesis by auto
qed

theorem add_delete_roundtrip_witness:
  "let s = snd (AddTable counting_env 0x0A000001 inst0); t = snd (AddEntry counting_env conn1 s)
   in conns t = insert (entry_key conn1) (conns s) \<and> fst (AddEntry counting_env conn1 t) = -1 \<and>
      conns (snd (DeleteEntry counting_env conn1 t)) = conns s \<and>
      curCnt (snd (DeleteEntry counting_env conn1 t)) = curCnt s"
proof -
  let ?s = "snd (AddTable counting_env 0x0A000001 inst0)"
  have "fst (AddEntry counting_env conn1 ?s) = 0" by code_simp
  then have "AddEntry counting_env conn1 ?s = (0, snd (AddEntry counting_env conn1 ?s))" by (simp add: prod_eq_iff)
  then show ?thesis
    unfolding Let_def by (intro add_delete_roundtrip) (simp_all add: wf_AddTable)
qed

end
