(* ===== verification/NatApp_Flows.thy ===== *)
theory NatApp_Flows
  imports NatApp_Props
begin

text \<open>
  What the longer flows of the NAT application achieve: the driver's table going down and up,
  clients entering and leaving power save, clients that disconnect, the temporary entries, and
  the time-stamp refresh.
\<close>

subsection \<open>Table down and up\<close>

lemma restore_entry_cells:
  assumes "natapp_wf s" and "cnt < max_entries s" and "drv_accepts h"
  shows "\<exists>hdl w. restore_entry h cnt s =
           s\<lparr>cache := (cache s)[cnt := (cache s ! cnt)\<lparr>rule_hdl := hdl, enabled := True\<rparr>], world := w\<rparr>"
proof -
  obtain r hdl w where call: "ipa_nat_add_ipv4_rule h (nat_table_hdl s) (nat_rule_of (cache s ! cnt))
      (rule_hdl (cache s ! cnt)) (world s) = (r, hdl, w)" by (metis prod_cases3)
  with assms(3) have "0 \<le> r" unfolding drv_accepts_def by (metis fst_conv)
  with call assms(2) wf_length [OF assms(1)]
  have "restore_entry h cnt s =
      s\<lparr>cache := (cache s)[cnt := (cache s ! cnt)\<lparr>rule_hdl := hdl, enabled := True\<rparr>], world := w\<rparr>"
    by (simp add: restore_entry_def upd_cache_def Let_def)
  then show ?thesis by blast
qed

text \<open>A restoring loop over the cells that satisfy \<open>P\<close>, under a driver that accepts.\<close>

lemma restore_loop:
  assumes "natapp_wf s" and "drv_accepts h" and "\<And>e. P e \<Longrightarrow> \<not> entry_is_free e"
  shows "\<forall>j<max_entries s. \<exists>hdl.
           cache (for_upto (max_entries s) (\<lambda>cnt s. if P (cache s ! cnt) then restore_entry h cnt s else s) s) ! j =
           (if P (cache s ! j) then (cache s ! j)\<lparr>rule_hdl := hdl, enabled := True\<rparr> else cache s ! j)"
proof (rule for_upto_cells_wf [OF assms(1),
    where Q = "\<lambda>a b. \<exists>hdl. b = (if P a then a\<lparr>rule_hdl := hdl, enabled := True\<rparr> else a)"])
  fix i and t :: "'a natapp"
  assume t: "i < max_entries t" "natapp_wf t"
  let ?b = "if P (cache t ! i) then restore_entry h i t else t"
  show "natapp_wf ?b \<and> max_entries ?b = max_entries t"
    using t assms(3) by (auto simp: wf_restore_entry)
  from restore_entry_cells [OF t(2,1) assms(2)] obtain hdl w where
    "restore_entry h i t = t\<lparr>cache := (cache t)[i := (cache t ! i)\<lparr>rule_hdl := hdl, enabled := True\<rparr>], world := w\<rparr>"
    by blast
  then show "\<exists>v. cache ?b = (cache t)[i := v] \<and>
      (\<exists>hdl. v = (if P (cache t ! i) then (cache t ! i)\<lparr>rule_hdl := hdl, enabled := True\<rparr> else cache t ! i))"
    by (cases "P (cache t ! i)") (auto intro: exI [of _ "cache t ! i"])
qed

lemma Reset_cells:
  assumes "natapp_wf s"
  shows "\<forall>j<max_entries s. cache (Reset s) ! j = (cache s ! j)\<lparr>enabled := False\<rparr>"
    and "max_entries (Reset s) = max_entries s"
proof -
  let ?s = "s\<lparr>nat_table_hdl := 0, pub_ip_addr := 0\<rparr>"
  have wf: "natapp_wf ?s" using assms by simp
  have "\<forall>j<max_entries ?s. cache (for_upto (max_entries ?s) (\<lambda>cnt. upd_cache cnt (\<lambda>e. e\<lparr>enabled := False\<rparr>)) ?s) ! j =
      (cache ?s ! j)\<lparr>enabled := False\<rparr>"
    by (rule for_upto_cells_wf [OF wf, where Q = "\<lambda>a b. b = a\<lparr>enabled := False\<rparr>"])
      (auto intro!: wf_rewrite simp: entry_key_def)
  then show "\<forall>j<max_entries s. cache (Reset s) ! j = (cache s ! j)\<lparr>enabled := False\<rparr>"
    by (simp add: Reset_def Let_def)
  have "max_entries (for_upto (max_entries ?s) (\<lambda>cnt. upd_cache cnt (\<lambda>e. e\<lparr>enabled := False\<rparr>)) ?s) = max_entries ?s"
    by (rule wf_for_upto [THEN conjunct2, OF wf]) (auto intro!: wf_rewrite simp: entry_key_def)
  then show "max_entries (Reset s) = max_entries s" by (simp add: Reset_def Let_def)
qed

lemma Reset_frame [simp]:
  "pub_ip_addr (Reset s) = 0" "nat_table_hdl (Reset s) = 0" "pub_ip_addr_pre (Reset s) = pub_ip_addr_pre s"
proof -
  have "pub_ip_addr (for_upto n (\<lambda>cnt. upd_cache cnt f) t) = pub_ip_addr t \<and>
        nat_table_hdl (for_upto n (\<lambda>cnt. upd_cache cnt f) t) = nat_table_hdl t \<and>
        pub_ip_addr_pre (for_upto n (\<lambda>cnt. upd_cache cnt f) t) = pub_ip_addr_pre t" for n f and t :: "'a natapp"
    by (induction n) simp_all
  then show "pub_ip_addr (Reset s) = 0" "nat_table_hdl (Reset s) = 0" "pub_ip_addr_pre (Reset s) = pub_ip_addr_pre s"
    by (simp_all add: Reset_def Let_def)
qed

lemma DeleteTable_success:
  assumes "DeleteTable h ip s = (0, t)"
  obtains w where "pub_ip_addr s = ip" and "t = Reset (s\<lparr>world := w, pub_ip_addr_pre := ip\<rparr>)"
proof -
  obtain ret w where "ipa_nat_del_ipv4_tbl h (nat_table_hdl s) (world s) = (ret, w)" by fastforce
  with assms that show thesis by (auto simp: DeleteTable_def Let_def split: if_splits)
qed

text \<open>
  C28. Taking the NAT table down and bringing it up for the same public address loses no
  connection: after a successful \<open>DeleteTable\<close> every cached connection is still there but
  disabled, and after a successful \<open>AddTable\<close> for that address, with a driver that accepts
  the rules, every cached connection is enabled again, with every other field as before.
\<close>

theorem table_down_up:
  assumes "natapp_wf s" and "DeleteTable h ip s = (0, t)" and "AddTable h' ip t = (0, u)" and "drv_accepts h'"
  shows "(\<forall>e\<in>set (cache t). \<not> enabled e) \<and> max_entries u = max_entries s \<and>
         (\<forall>i<max_entries s. \<exists>hdl.
            cache u ! i = (if private_ip (cache s ! i) \<noteq> 0
                           then (cache s ! i)\<lparr>enabled := True, rule_hdl := hdl\<rparr>
                           else (cache s ! i)\<lparr>enabled := False\<rparr>))"
proof -
  obtain w where ip: "pub_ip_addr s = ip" and t: "t = Reset (s\<lparr>world := w, pub_ip_addr_pre := ip\<rparr>)"
    using assms(2) by (rule DeleteTable_success)
  have wf1: "natapp_wf (s\<lparr>world := w, pub_ip_addr_pre := ip\<rparr>)" using assms(1) by simp
  have tc: "\<forall>j<max_entries s. cache t ! j = (cache s ! j)\<lparr>enabled := False\<rparr>" and tm: "max_entries t = max_entries s"
    using Reset_cells [OF wf1] t by simp_all
  have wft: "natapp_wf t" using wf_Reset [OF wf1] t by simp
  have pre: "pub_ip_addr_pre t = ip" using t by simp
  obtain ret hdl w' where call: "ipa_nat_add_ipv4_tbl h' ip (of_nat (max_entries t)) (nat_table_hdl t) (world t)
      = (ret, hdl, w')" by (metis prod_cases3)
  let ?t = "t\<lparr>nat_table_hdl := hdl, world := w'\<rparr>"
  let ?body = "\<lambda>cnt s. if private_ip (cache s ! cnt) \<noteq> 0 then restore_entry h' cnt s else s"
  have u: "u = (for_upto (max_entries t) ?body ?t)\<lparr>pub_ip_addr := ip\<rparr>"
    using assms(3) call pre by (auto simp: AddTable_def Let_def split: if_splits)
  have wft': "natapp_wf ?t" using wft by simp
  have loop: "\<forall>j<max_entries ?t. \<exists>hdl. cache (for_upto (max_entries ?t) ?body ?t) ! j =
      (if private_ip (cache ?t ! j) \<noteq> 0 then (cache ?t ! j)\<lparr>rule_hdl := hdl, enabled := True\<rparr> else cache ?t ! j)"
    by (rule restore_loop [OF wft' assms(4)]) (rule not_free_if_private)
  have "\<exists>hdl. cache u ! i = (if private_ip (cache s ! i) \<noteq> 0
      then (cache s ! i)\<lparr>enabled := True, rule_hdl := hdl\<rparr> else (cache s ! i)\<lparr>enabled := False\<rparr>)"
    if i: "i < max_entries s" for i
  proof -
    have "cache ?t ! i = (cache s ! i)\<lparr>enabled := False\<rparr>" using tc i by simp
    moreover obtain k where "cache u ! i =
        (if private_ip (cache ?t ! i) \<noteq> 0 then (cache ?t ! i)\<lparr>rule_hdl := k, enabled := True\<rparr> else cache ?t ! i)"
      using loop i tm u by auto
    ultimately show ?thesis by (auto intro!: exI [of _ k])
  qed
  moreover have "max_entries u = max_entries s"
    using wf_for_upto [THEN conjunct2, OF wft', of ?body] tm u
    by (simp add: wf_restore_entry not_free_if_private)
  moreover have "\<forall>e\<in>set (cache t). \<not> enabled e"
    using tc tm wf_length [OF wft] by (auto simp: in_set_conv_nth)
  ultimately show ?thesis by blast
qed

text \<open>The instance of the witnesses with its table up and one connection cached.\<close>

definition inst1 :: "u32 natapp" where
  "inst1 = snd (AddEntry counting_env conn1 (snd (AddTable counting_env 0x0A000001 inst0)))"

lemma inst1_wf [simp]: "natapp_wf inst1"
  unfolding inst1_def by (intro wf_AddEntry wf_AddTable inst0_wf)

theorem table_down_up_witness:
  "let t = snd (DeleteTable counting_env 0x0A000001 inst1); u = snd (AddTable counting_env 0x0A000001 t)
   in (\<forall>e\<in>set (cache t). \<not> enabled e) \<and> max_entries u = max_entries inst1 \<and>
      (\<forall>i<max_entries inst1. \<exists>hdl.
         cache u ! i = (if private_ip (cache inst1 ! i) \<noteq> 0
                        then (cache inst1 ! i)\<lparr>enabled := True, rule_hdl := hdl\<rparr>
                        else (cache inst1 ! i)\<lparr>enabled := False\<rparr>))"
proof -
  let ?t = "snd (DeleteTable counting_env 0x0A000001 inst1)"
  have "fst (DeleteTable counting_env 0x0A000001 inst1) = 0"
    and "fst (AddTable counting_env 0x0A000001 ?t) = 0" by code_simp+
  then have "DeleteTable counting_env 0x0A000001 inst1 = (0, ?t)"
    and "AddTable counting_env 0x0A000001 ?t = (0, snd (AddTable counting_env 0x0A000001 ?t))"
    by (simp_all add: prod_eq_iff)
  then show ?thesis unfolding Let_def by (intro table_down_up [OF inst1_wf _ _ counting_env_ok(1)])
qed

subsection \<open>Power save\<close>

lemma UpdatePwrSaveIf_loop:
  assumes "natapp_wf s" and "drv_deletes h"
  shows "\<forall>j<max_entries s.
           cache (for_upto (max_entries s) (UpdatePwrSaveIf_body h ip) s) ! j =
           (if private_ip (cache s ! j) = ip \<and> enabled (cache s ! j)
            then (cache s ! j)\<lparr>enabled := False, rule_hdl := 0\<rparr> else cache s ! j)"
proof (rule for_upto_cells_wf [OF assms(1),
    where Q = "\<lambda>a b. b = (if private_ip a = ip \<and> enabled a then a\<lparr>enabled := False, rule_hdl := 0\<rparr> else a)"])
  fix i and t :: "'a natapp"
  assume t: "i < max_entries t" "natapp_wf t"
  then show "natapp_wf (UpdatePwrSaveIf_body h ip i t) \<and> max_entries (UpdatePwrSaveIf_body h ip i t) = max_entries t"
    by (intro wf_UpdatePwrSaveIf_body)
  obtain r w where call: "ipa_nat_del_ipv4_rule h (nat_table_hdl t) (rule_hdl (cache t ! i)) (world t) = (r, w)"
    by fastforce
  with assms(2) have "0 \<le> r" unfolding drv_deletes_def by (metis fst_conv)
  with call show "\<exists>v. cache (UpdatePwrSaveIf_body h ip i t) = (cache t)[i := v] \<and>
      v = (if private_ip (cache t ! i) = ip \<and> enabled (cache t ! i)
           then (cache t ! i)\<lparr>enabled := False, rule_hdl := 0\<rparr> else cache t ! i)"
    by (simp add: UpdatePwrSaveIf_body_def Let_def)
qed

lemma UpdatePwrSaveIf_body_frame [simp]:
  "PwrSaveIfs (UpdatePwrSaveIf_body h ip i s) = PwrSaveIfs s"
  "max_entries (UpdatePwrSaveIf_body h ip i s) = max_entries s"
  by (simp_all add: UpdatePwrSaveIf_body_def Let_def split: prod.splits)

lemma for_upto_PwrSaveIfs: "PwrSaveIfs (for_upto n (UpdatePwrSaveIf_body h ip) s) = PwrSaveIfs s"
  by (induction n) simp_all

lemma isPwrSaveIf_iff:
  "isPwrSaveIf s ip \<longleftrightarrow> ip \<noteq> 0 \<and> (\<exists>i<IPA_MAX_NUM_WIFI_CLIENTS. PwrSaveIfs s ! i = ip)"
  by (auto simp: isPwrSaveIf_def loop_simps)

text \<open>
  C31. A client that enters power save is recorded, when the list has a free place, and, with a
  driver that deletes the rules, no connection of the client stays enabled, while every
  connection of the other clients is untouched and none is lost. From then on \<open>AddEntry\<close> caches
  its connections without calling the driver.
\<close>

theorem power_save_silences_client:
  assumes "natapp_wf s" and "ip \<noteq> 0" and "0 \<in> set (PwrSaveIfs s)" and "ip \<notin> set (PwrSaveIfs s)"
    and "drv_deletes h" and "UpdatePwrSaveIf h ip s = (r, t)"
  shows "r = 0 \<and> isPwrSaveIf t ip \<and> conns t = conns s \<and>
         (\<forall>e\<in>set (cache t). private_ip e = ip \<longrightarrow> \<not> enabled e) \<and>
         (\<forall>i<max_entries s. private_ip (cache s ! i) \<noteq> ip \<longrightarrow> cache t ! i = cache s ! i) \<and>
         (private_ip rule = ip \<longrightarrow> world (snd (AddEntry h' rule t)) = world t)"
proof -
  let ?n = IPA_MAX_NUM_WIFI_CLIENTS
  have lenP: "length (PwrSaveIfs s) = ?n" using assms(1) by (simp add: natapp_wf_def)
  have notin: "\<forall>i<?n. PwrSaveIfs s ! i \<noteq> ip" using assms(4) lenP by (metis nth_mem)
  let ?c = "find_idx (\<lambda>i. PwrSaveIfs s ! i = 0) ?n"
  have c: "?c < ?n" using assms(3) lenP by (auto simp: loop_simps in_set_conv_nth)
  let ?s = "s\<lparr>PwrSaveIfs := (PwrSaveIfs s)[?c := ip]\<rparr>"
  have "\<not> find_idx (\<lambda>i. PwrSaveIfs s ! i = ip) ?n < ?n" using notin by (simp add: loop_simps)
  then have r: "r = 0" and t: "t = for_upto (max_entries s) (UpdatePwrSaveIf_body h ip) ?s"
    using assms(2,6) c by (simp_all add: UpdatePwrSaveIf_def INVALID_IP_ADDR_def Let_def)
  have wfs: "natapp_wf ?s" using assms(1) by simp
  have cells: "\<forall>j<max_entries s. cache t ! j =
      (if private_ip (cache s ! j) = ip \<and> enabled (cache s ! j)
       then (cache s ! j)\<lparr>enabled := False, rule_hdl := 0\<rparr> else cache s ! j)"
    using UpdatePwrSaveIf_loop [OF wfs assms(5), of ip] t by simp
  have wft: "natapp_wf t" and tm: "max_entries t = max_entries s"
    using wf_for_upto [OF wfs, of "UpdatePwrSaveIf_body h ip"] t by (simp_all add: wf_UpdatePwrSaveIf_body)
  have len: "length (cache t) = max_entries s" "length (cache s) = max_entries s"
    using wf_length [OF wft] wf_length [OF assms(1)] tm by simp_all
  have key: "entry_key (cache t ! j) = entry_key (cache s ! j)" if "j < max_entries s" for j
    using cells that by (simp add: entry_key_def)
  have "isPwrSaveIf t ip"
    using c lenP assms(2) t by (auto simp: isPwrSaveIf_iff for_upto_PwrSaveIfs intro!: exI [of _ ?c])
  moreover have "conns t = conns s"
    unfolding conns_def by (rule nat_slots.keys_eqI) (simp_all add: len key)
  moreover have "\<forall>e\<in>set (cache t). private_ip e = ip \<longrightarrow> \<not> enabled e"
  proof
    fix e assume "e \<in> set (cache t)"
    then obtain j where "j < max_entries s" "e = cache t ! j" using len(1) by (auto simp: in_set_conv_nth)
    then show "private_ip e = ip \<longrightarrow> \<not> enabled e" using cells by auto
  qed
  moreover have "\<forall>i<max_entries s. private_ip (cache s ! i) \<noteq> ip \<longrightarrow> cache t ! i = cache s ! i"
    using cells by simp
  moreover have "world (snd (AddEntry h' rule t)) = world t" if "private_ip rule = ip"
    using that \<open>isPwrSaveIf t ip\<close> by (simp add: AddEntry_def Let_def)
  ultimately show ?thesis using r by blast
qed

theorem power_save_silences_client_witness:
  "let t = snd (UpdatePwrSaveIf counting_env 0xC0A8E10A inst1)
   in isPwrSaveIf t 0xC0A8E10A \<and> conns t = conns inst1 \<and>
      (\<forall>e\<in>set (cache t). private_ip e = 0xC0A8E10A \<longrightarrow> \<not> enabled e) \<and>
      world (snd (AddEntry counting_env (conn1\<lparr>target_port := 54\<rparr>) t)) = world t"
proof -
  have hyp: "0 \<in> set (PwrSaveIfs inst1)" "0xC0A8E10A \<notin> set (PwrSaveIfs inst1)"
    "private_ip (conn1\<lparr>target_port := 54\<rparr>) = 0xC0A8E10A" by code_simp+
  have "UpdatePwrSaveIf counting_env 0xC0A8E10A inst1 =
      (fst (UpdatePwrSaveIf counting_env 0xC0A8E10A inst1), snd (UpdatePwrSaveIf counting_env 0xC0A8E10A inst1))"
    by simp
  from power_save_silences_client [OF inst1_wf _ hyp(1,2) _ this, of "conn1\<lparr>target_port := 54\<rparr>" counting_env] hyp(3)
  show ?thesis unfolding Let_def by simp
qed

lemma ResetPwrSaveIf_effect:
  assumes "natapp_wf s" and "ip \<noteq> 0" and "drv_accepts h" and "ResetPwrSaveIf h ip s = (r, t)"
  shows "r = -1 \<and> conns t = conns s \<and> curCnt t = curCnt s \<and>
         (\<forall>i<max_entries s. if private_ip (cache s ! i) = ip then enabled (cache t ! i)
                            else cache t ! i = cache s ! i)"
proof -
  let ?d = "drop_pwr_save ip s"
  let ?P = "\<lambda>e. private_ip e = ip \<and> \<not> enabled e"
  let ?body = "\<lambda>cnt s. if ?P (cache s ! cnt) then restore_entry h cnt s else s"
  have r: "r = -1" and t: "t = for_upto (max_entries ?d) ?body ?d"
    using assms(2,4) by (simp_all add: ResetPwrSaveIf_def INVALID_IP_ADDR_def Let_def)
  have wfd: "natapp_wf ?d" using assms(1) by simp
  have "\<forall>j<max_entries ?d. \<exists>hdl. cache t ! j =
      (if ?P (cache ?d ! j) then (cache ?d ! j)\<lparr>rule_hdl := hdl, enabled := True\<rparr> else cache ?d ! j)"
    unfolding t by (rule restore_loop [OF wfd assms(3)]) (use assms(2) not_free_if_private in auto)
  then have loop: "\<exists>hdl. cache t ! j =
      (if ?P (cache s ! j) then (cache s ! j)\<lparr>rule_hdl := hdl, enabled := True\<rparr> else cache s ! j)"
    if "j < max_entries s" for j using that unfolding drop_pwr_save_frame by blast
  have wft: "natapp_wf t" and tm: "max_entries t = max_entries s"
    using wf_for_upto [OF wfd, of ?body] assms(2) t by (simp_all add: wf_restore_entry not_free_if_private)
  have len: "length (cache t) = length (cache s)" using wf_length wft assms(1) tm by metis
  have key: "entry_key (cache t ! j) = entry_key (cache s ! j)" if j: "j < length (cache s)" for j
  proof -
    obtain k where "cache t ! j = (if ?P (cache s ! j) then (cache s ! j)\<lparr>rule_hdl := k, enabled := True\<rparr> else cache s ! j)"
      using loop [of j] j wf_length [OF assms(1)] by auto
    then show ?thesis by (simp add: entry_key_def)
  qed
  have cells: "if private_ip (cache s ! j) = ip then enabled (cache t ! j) else cache t ! j = cache s ! j"
    if j: "j < max_entries s" for j
  proof -
    obtain k where "cache t ! j = (if ?P (cache s ! j) then (cache s ! j)\<lparr>rule_hdl := k, enabled := True\<rparr> else cache s ! j)"
      using loop [of j] j by auto
    then show ?thesis by simp
  qed
  have "conns t = conns s" unfolding conns_def by (rule nat_slots.keys_eqI [OF len key])
  moreover have "curCnt t = curCnt s"
    using wft assms(1) nat_slots.used_eqI [OF len key] by (simp add: natapp_wf_def)
  ultimately show ?thesis using r cells by blast
qed

text \<open>
  C32. A client that leaves power save gets its connections back: with a driver that accepts the
  rules, every connection of the client is enabled after \<open>ResetPwrSaveIf\<close>, the connections of
  the other clients are untouched and none is lost. The method returns -1 all the same.
\<close>

theorem reset_power_save_restores_client:
  assumes "natapp_wf s" and "ip \<noteq> 0" and "drv_accepts h" and "ResetPwrSaveIf h ip s = (r, t)"
  shows "r = -1 \<and> conns t = conns s \<and> curCnt t = curCnt s \<and>
         (\<forall>i<max_entries s. if private_ip (cache s ! i) = ip then enabled (cache t ! i)
                            else cache t ! i = cache s ! i)"
  using assms by (rule ResetPwrSaveIf_effect)

theorem reset_power_save_restores_client_witness:
  "let s = snd (UpdatePwrSaveIf counting_env 0xC0A8E10A inst1); t = snd (ResetPwrSaveIf counting_env 0xC0A8E10A s)
   in conns t = conns s \<and> curCnt t = curCnt s \<and>
      (\<forall>i<max_entries s. if private_ip (cache s ! i) = 0xC0A8E10A then enabled (cache t ! i)
                         else cache t ! i = cache s ! i)"
proof -
  let ?s = "snd (UpdatePwrSaveIf counting_env 0xC0A8E10A inst1)"
  let ?t = "ResetPwrSaveIf counting_env 0xC0A8E10A ?s"
  have wf: "natapp_wf ?s" by (intro wf_UpdatePwrSaveIf inst1_wf)
  have ip: "(0xC0A8E10A :: u32) \<noteq> 0" by simp
  have "?t = (fst ?t, snd ?t)" by simp
  from reset_power_save_restores_client [OF wf ip counting_env_ok(1) this]
  show ?thesis unfolding Let_def by blast
qed

subsection \<open>Clients that leave\<close>

lemma DelEntriesOnSTAClntDiscon_loop:
  assumes "natapp_wf s" and "drv_deletes h" and "ip \<noteq> 0"
  shows "\<forall>j<max_entries s.
           cache (for_upto (max_entries s) (DelEntriesOnSTAClntDiscon_body h ip) s) ! j =
           (if target_ip (cache s ! j) = ip then zero_entry else cache s ! j)"
proof (rule for_upto_cells_wf [OF assms(1), where Q = "\<lambda>a b. b = (if target_ip a = ip then zero_entry else a)"])
  fix i and t :: "'a natapp"
  assume t: "i < max_entries t" "natapp_wf t"
  then show "natapp_wf (DelEntriesOnSTAClntDiscon_body h ip i t) \<and>
      max_entries (DelEntriesOnSTAClntDiscon_body h ip i t) = max_entries t"
    using assms(3) by (intro wf_DelEntriesOnSTAClntDiscon_body)
  obtain r w where call: "ipa_nat_del_ipv4_rule h (nat_table_hdl t) (rule_hdl (cache t ! i)) (world t) = (r, w)"
    by fastforce
  with assms(2) have "0 \<le> r" unfolding drv_deletes_def by (metis fst_conv)
  with call show "\<exists>v. cache (DelEntriesOnSTAClntDiscon_body h ip i t) = (cache t)[i := v] \<and>
      v = (if target_ip (cache t ! i) = ip then zero_entry else cache t ! i)"
    by (simp add: DelEntriesOnSTAClntDiscon_body_def Let_def)
qed

text \<open>
  C33. When a station client disconnects, with a driver that deletes the rules, the connections
  to it are gone from the cache, all the others stay as they are, and the count is the number of
  connections left.
\<close>

theorem sta_disconnect_removes_target:
  assumes "natapp_wf s" and "ip \<noteq> 0" and "drv_deletes h"
    and "DelEntriesOnSTAClntDiscon h ip s = (r, t)"
  shows "r = 0 \<and> conns t = {k \<in> conns s. fst (snd k) \<noteq> ip} \<and> curCnt t = int (card (conns t)) \<and>
         (\<forall>i<max_entries s. target_ip (cache s ! i) \<noteq> ip \<longrightarrow> cache t ! i = cache s ! i)"
proof -
  have r: "r = 0" and t: "t = for_upto (max_entries s) (DelEntriesOnSTAClntDiscon_body h ip) s"
    using assms(2,4) by (simp_all add: DelEntriesOnSTAClntDiscon_def INVALID_IP_ADDR_def)
  have cells: "\<forall>j<max_entries s. cache t ! j = (if target_ip (cache s ! j) = ip then zero_entry else cache s ! j)"
    unfolding t by (rule DelEntriesOnSTAClntDiscon_loop [OF assms(1,3,2)])
  have wft: "natapp_wf t" and tm: "max_entries t = max_entries s"
    using wf_for_upto [OF assms(1), of "DelEntriesOnSTAClntDiscon_body h ip"] t assms(2)
    by (simp_all add: wf_DelEntriesOnSTAClntDiscon_body)
  have len: "length (cache t) = max_entries s" "length (cache s) = max_entries s"
    using wf_length [OF wft] wf_length [OF assms(1)] tm by simp_all
  have tgt: "fst (snd (entry_key e)) = target_ip e" for e by (simp add: entry_key_def)
  have "\<not> entry_is_free (cache t ! j) \<and> entry_key (cache t ! j) = k \<longleftrightarrow>
      (\<not> entry_is_free (cache s ! j) \<and> entry_key (cache s ! j) = k) \<and> fst (snd k) \<noteq> ip"
    if "j < max_entries s" for j k
    using cells [rule_format, OF that] tgt by auto
  then have "k \<in> conns t \<longleftrightarrow> k \<in> conns s \<and> fst (snd k) \<noteq> ip" for k
    unfolding conns_def nat_slots.keys_nth len by blast
  then have "conns t = {k \<in> conns s. fst (snd k) \<noteq> ip}" by blast
  moreover have "curCnt t = int (card (conns t))"
    using wft nat_slots.card_keys [of "cache t"] by (simp add: natapp_wf_def conns_def)
  ultimately show ?thesis using r cells by simp
qed

theorem sta_disconnect_removes_target_witness:
  "let t = snd (DelEntriesOnSTAClntDiscon counting_env 0x08080808 inst1)
   in conns t = {k \<in> conns inst1. fst (snd k) \<noteq> 0x08080808} \<and> curCnt t = int (card (conns t)) \<and>
      (\<forall>i<max_entries inst1. target_ip (cache inst1 ! i) \<noteq> 0x08080808 \<longrightarrow> cache t ! i = cache inst1 ! i)"
proof -
  let ?d = "DelEntriesOnSTAClntDiscon counting_env 0x08080808 inst1"
  have "?d = (fst ?d, snd ?d)" by simp
  with sta_disconnect_removes_target [OF inst1_wf _ counting_env_ok(2) this] show ?thesis
    unfolding Let_def by simp
qed

subsection \<open>Temporary entries\<close>

lemma AddEntry_frame [simp]:
  "temp (snd (AddEntry h rule s)) = temp s" "pub_ip_addr (snd (AddEntry h rule s)) = pub_ip_addr s"
  "max_entries (snd (AddEntry h rule s)) = max_entries s"
  by (simp_all add: AddEntry_def Let_def split: prod.splits)

lemma AddEntry_conns_mono:
  assumes "natapp_wf s"
  shows "conns s \<subseteq> conns (snd (AddEntry h rule s))"
proof -
  let ?i = "find_idx (\<lambda>i. entry_is_free (cache s ! i)) (max_entries s)"
  obtain r hdl w where call: "ipa_nat_add_ipv4_rule h (nat_table_hdl s) (nat_rule_of rule)
      (rule_hdl (cache s ! ?i)) (world s) = (r, hdl, w)" by (metis prod_cases3)
  have same: "nat_slots.keys ((cache s)[?i := (cache s ! ?i)\<lparr>rule_hdl := hdl\<rparr>]) = nat_slots.keys (cache s)"
    by (rule nat_slots.keys_rewrite) (simp add: entry_key_def)
  show ?thesis
  proof (cases "fst (AddEntry h rule s) = 0 \<and> \<not> entry_is_invalid rule")
    case True
    then have "AddEntry h rule s = (0, snd (AddEntry h rule s))" by (simp add: prod_eq_iff)
    with True AddEntry_effect(1) [OF assms] show ?thesis by blast
  next
    case False
    then have "nat_slots.keys (cache (snd (AddEntry h rule s))) = nat_slots.keys (cache s)"
      using AddEntry_spec [OF assms refl call] same by (auto split: if_splits)
    then show ?thesis by (simp add: conns_def)
  qed
qed

text \<open>The entry a flush offers to \<open>AddEntry\<close> for a temporary entry.\<close>

definition flushed :: "bool \<Rightarrow> nat_table_entry \<Rightarrow> nat_table_entry" where
  "flushed isDummy e = (if isDummy then e\<lparr>private_ip := public_ip e, private_port := public_port e\<rparr> else e)"

text \<open>What has become of temporary entry \<open>e\<close>: offered and cached, offered and kept, or ignored.\<close>

definition flush_done :: "bool \<Rightarrow> nat_table_entry \<Rightarrow> nat_table_entry \<Rightarrow> 'w natapp \<Rightarrow> bool" where
  "flush_done isDummy e e' t \<longleftrightarrow>
     (e' = zero_entry \<and> (entry_key (flushed isDummy e) \<in> conns t \<or> entry_is_invalid (flushed isDummy e))) \<or>
     e' = flushed isDummy e"

lemma flush_done_mono: "flush_done d e e' t \<Longrightarrow> conns t \<subseteq> conns u \<Longrightarrow> flush_done d e e' u"
  by (auto simp: flush_done_def)

lemma FlushTempEntries_body_add:
  assumes "natapp_wf s" and "i < length (temp s)"
    and "private_ip (temp s ! i) = ip \<or> target_ip (temp s ! i) = ip" and "public_ip (temp s ! i) = pub_ip_addr s"
    and "t = FlushTempEntries_body h ip True d i s"
  shows "flush_done d (temp s ! i) (temp t ! i) t"
    and "temp t = (temp s)[i := temp t ! i]" and "conns s \<subseteq> conns t"
    and "pub_ip_addr t = pub_ip_addr s" and "natapp_wf t"
proof -
  let ?e = "temp s ! i"
  let ?f = "\<lambda>e. e\<lparr>private_ip := public_ip e, private_port := public_port e\<rparr>"
  let ?s = "if d then upd_temp i ?f s else s"
  obtain ret u where add: "AddEntry h (flushed d ?e) ?s = (ret, u)" by fastforce
  have wfs: "natapp_wf ?s" using assms(1) by simp
  have tmp: "temp ?s = (temp s)[i := flushed d ?e]" by (simp add: flushed_def)
  have ui: "temp u = (temp s)[i := flushed d ?e]" "pub_ip_addr u = pub_ip_addr s"
    using AddEntry_frame(1,2) [of h "flushed d ?e" ?s] add tmp by auto
  have t: "t = (if ret \<noteq> 0 then u else upd_temp i (\<lambda>_. zero_entry) u)"
    using assms(2-5) add tmp by (simp add: FlushTempEntries_body_def Let_def)
  have cs: "conns (upd_temp i f x) = conns x" for f and x :: "'a natapp" by (simp add: conns_def)
  have "conns ?s \<subseteq> conns u" using AddEntry_conns_mono [OF wfs, of h "flushed d ?e"] add by simp
  then show "conns s \<subseteq> conns t" using t cs by (auto split: if_splits)
  show "natapp_wf t" using wf_AddEntry [OF wfs, of h "flushed d ?e"] add t by simp
  show "temp t = (temp s)[i := temp t ! i]" and "pub_ip_addr t = pub_ip_addr s"
    using t ui assms(2) by simp_all
  have "entry_key (flushed d ?e) \<in> conns u" if "ret = 0" "\<not> entry_is_invalid (flushed d ?e)"
    using AddEntry_effect(1) [OF wfs _ that(2)] add that(1) by auto
  then show "flush_done d ?e (temp t ! i) t"
    using t ui assms(2) cs by (auto simp: flush_done_def)
qed

lemma FlushTempEntries_body_other:
  assumes "\<not> ((private_ip (temp s ! i) = ip \<or> target_ip (temp s ! i) = ip) \<and> isAdd \<and> public_ip (temp s ! i) = pub_ip_addr s)"
    and "t = FlushTempEntries_body h ip isAdd d i s"
  shows "t = s\<lparr>temp := (temp s)[i := if private_ip (temp s ! i) = ip \<or> target_ip (temp s ! i) = ip
                                     then zero_entry else temp s ! i]\<rparr>"
  using assms by (auto simp: FlushTempEntries_body_def upd_temp_def)

text \<open>
  C34. Flushing the temporary entries of an address into the NAT table loses no connection made
  for the current public address: after \<open>FlushTempEntries(ip, true, isDummy)\<close> each such entry is
  cached (and its temporary cell zeroed), or still waits in its temporary cell because
  \<open>AddEntry\<close> refused it, or was not a complete connection; and no cached connection is lost.
\<close>

theorem flush_add_loses_nothing:
  assumes "natapp_wf s" and "t = FlushTempEntries h ip True isDummy s"
  shows "conns s \<subseteq> conns t \<and>
    (\<forall>i<MAX_TEMP_ENTRIES.
       if private_ip (temp s ! i) = ip \<or> target_ip (temp s ! i) = ip then
         if public_ip (temp s ! i) = pub_ip_addr s then flush_done isDummy (temp s ! i) (temp t ! i) t
         else temp t ! i = zero_entry
       else temp t ! i = temp s ! i)"
proof -
  let ?ok = "\<lambda>i e u. if private_ip (temp s ! i) = ip \<or> target_ip (temp s ! i) = ip then
         if public_ip (temp s ! i) = pub_ip_addr s then flush_done isDummy (temp s ! i) e u
         else e = zero_entry
       else e = temp s ! i"
  let ?I = "\<lambda>i u. natapp_wf u \<and> conns s \<subseteq> conns u \<and> pub_ip_addr u = pub_ip_addr s \<and>
      (\<forall>j<i. ?ok j (temp u ! j) u) \<and> (\<forall>j. i \<le> j \<longrightarrow> temp u ! j = temp s ! j)"
  have "?I MAX_TEMP_ENTRIES (for_upto MAX_TEMP_ENTRIES (FlushTempEntries_body h ip True isDummy) s)"
  proof (rule for_upto_inv_idx [where I = ?I])
    fix i and u :: "'a natapp"
    assume i: "i < MAX_TEMP_ENTRIES" and I: "?I i u"
    let ?v = "FlushTempEntries_body h ip True isDummy i u"
    have len: "i < length (temp u)" using I i by (simp add: natapp_wf_def)
    have ti: "temp u ! i = temp s ! i" using I by simp
    have old: "\<forall>j<i. ?ok j (temp u ! j) v" if "conns u \<subseteq> conns v" for v :: "'a natapp"
      using I flush_done_mono [OF _ that] by (metis (no_types, lifting))
    show "?I (Suc i) ?v"
    proof (cases "(private_ip (temp u ! i) = ip \<or> target_ip (temp u ! i) = ip) \<and> public_ip (temp u ! i) = pub_ip_addr u")
      case True
      note step = FlushTempEntries_body_add [OF _ len conjunct1 [OF True] conjunct2 [OF True] refl, where h = h and d = isDummy]
      have nth: "j \<noteq> i \<Longrightarrow> temp ?v ! j = temp u ! j" for j
        using step(2) I by (metis nth_list_update_neq)
      show ?thesis
        using step I old [OF step(3)] nth ti True by (auto simp: less_Suc_eq)
    next
      case False
      then have v: "?v = u\<lparr>temp := (temp u)[i := if private_ip (temp u ! i) = ip \<or> target_ip (temp u ! i) = ip
                                     then zero_entry else temp u ! i]\<rparr>"
        by (intro FlushTempEntries_body_other) auto
      then have cv: "conns ?v = conns u" and "natapp_wf ?v"
        using I by (simp_all add: conns_def natapp_wf_def)
      moreover have "\<forall>j<i. ?ok j (temp u ! j) ?v" using old cv by blast
      ultimately show ?thesis
        using I v ti False len by (auto simp: less_Suc_eq nth_list_update)
    qed
  qed (use assms(1) in simp)
  then show ?thesis using assms(2) by (simp add: FlushTempEntries_def)
qed

theorem flush_add_loses_nothing_witness:
  "let s = AddTempEntry conn1 (snd (AddTable counting_env 0x0A000001 inst0));
       t = FlushTempEntries counting_env 0xC0A8E10A True False s
   in entry_key conn1 \<in> conns t \<and> temp t ! 0 = zero_entry"
proof -
  let ?s = "AddTempEntry conn1 (snd (AddTable counting_env 0x0A000001 inst0))"
  let ?t = "FlushTempEntries counting_env 0xC0A8E10A True False ?s"
  have wf: "natapp_wf ?s" by (simp add: wf_AddTable)
  have t0: "temp ?t ! 0 = zero_entry" by code_simp
  have "temp ?s ! 0 = conn1" "private_ip conn1 = 0xC0A8E10A" "public_ip conn1 = pub_ip_addr ?s" "conn1 \<noteq> zero_entry"
    "0 < MAX_TEMP_ENTRIES" by code_simp+
  then have "flush_done False conn1 (temp ?t ! 0) ?t"
    using flush_add_loses_nothing [OF wf refl, of counting_env "0xC0A8E10A" False] by fastforce
  with t0 \<open>conn1 \<noteq> zero_entry\<close> have "entry_key conn1 \<in> conns ?t"
    by (auto simp: flush_done_def flushed_def)
  with t0 show ?thesis by (simp add: Let_def)
qed

text \<open>
  Flushing without adding drops exactly the temporary entries of the address: none that
  names it is left, the others and the whole cache are as before.
\<close>

theorem flush_drop_spec:
  assumes "length (temp s) = MAX_TEMP_ENTRIES"
  shows "FlushTempEntries h ip False isDummy s =
           s\<lparr>temp := map (\<lambda>e. if private_ip e = ip \<or> target_ip e = ip then zero_entry else e) (temp s)\<rparr>"
proof -
  let ?f = "\<lambda>e. if private_ip e = ip \<or> target_ip e = ip then zero_entry else e"
  let ?I = "\<lambda>i u. u = s\<lparr>temp := map ?f (take i (temp s)) @ drop i (temp s)\<rparr>"
  have "?I MAX_TEMP_ENTRIES (for_upto MAX_TEMP_ENTRIES (FlushTempEntries_body h ip False isDummy) s)"
  proof (rule for_upto_inv_idx [where I = ?I])
    fix i and u :: "'a natapp"
    assume i: "i < MAX_TEMP_ENTRIES" and I: "?I i u"
    have len: "i < length (temp s)" using i assms(1) by simp
    have ui: "temp u ! i = temp s ! i" using I len by (simp add: nth_append)
    have upd: "(temp u)[i := ?f (temp s ! i)] = map ?f (take (Suc i) (temp s)) @ drop (Suc i) (temp s)"
      using I len by (simp add: list_update_append take_Suc_conv_app_nth Cons_nth_drop_Suc [symmetric])
    have step: "FlushTempEntries_body h ip False isDummy i u = u\<lparr>temp := (temp u)[i := ?f (temp u ! i)]\<rparr>"
      by (rule FlushTempEntries_body_other [OF _ refl]) simp
    have "u\<lparr>temp := x\<rparr> = s\<lparr>temp := x\<rparr>" for x using I by simp
    then show "?I (Suc i) (FlushTempEntries_body h ip False isDummy i u)" unfolding step ui upd .
  qed simp
  then show ?thesis using assms(1) by (simp add: FlushTempEntries_def)
qed

theorem flush_drop_spec_witness:
  "FlushTempEntries counting_env 0xC0A8E10A False False (AddTempEntry conn1 inst0) =
     (AddTempEntry conn1 inst0)\<lparr>temp :=
        map (\<lambda>e. if private_ip e = 0xC0A8E10A \<or> target_ip e = 0xC0A8E10A then zero_entry else e)
          (temp (AddTempEntry conn1 inst0))\<rparr>"
proof (rule flush_drop_spec)
  have "natapp_wf (AddTempEntry conn1 inst0)" by simp
  then show "length (temp (AddTempEntry conn1 inst0)) = MAX_TEMP_ENTRIES" by (simp only: natapp_wf_def)
qed

subsection \<open>Where the code departs from its intent\<close>

text \<open>
  \<open>AddEntry\<close> never stores the public address of a rule. In a zeroed cell the stored address
  is therefore 0, so the test \<open>private_ip != public_ip\<close> by which \<open>UpdateUDPTimeStamp\<close> skips the
  dummy entries of embedded connections (those whose private address is the public one) never
  skips an entry that \<open>AddEntry\<close> stored.
\<close>

theorem dummy_entry_not_skipped:
  assumes "natapp_wf s" and "AddEntry h rule s = (0, t)" and "\<not> entry_is_invalid rule"
    and "private_ip rule = public_ip rule"
    and "i = find_idx (\<lambda>i. entry_is_free (cache s ! i)) (max_entries s)" and "public_ip (cache s ! i) = 0"
  shows "i < max_entries s \<and> entry_key (cache t ! i) = entry_key rule \<and> public_ip (cache t ! i) = 0 \<and>
         private_ip (cache t ! i) \<noteq> public_ip (cache t ! i)"
proof -
  obtain r hdl w where call: "ipa_nat_add_ipv4_rule h (nat_table_hdl s) (nat_rule_of rule)
      (rule_hdl (cache s ! i)) (world s) = (r, hdl, w)" by (metis prod_cases3)
  have "\<not> curCnt s = int (max_entries s)"
    using AddEntry_spec [OF assms(1,5) call] assms(2,3) by (auto split: if_splits)
  then have lt: "i < max_entries s"
    using not_full_free_cell [OF assms(1)] nat_slots.used_le [of "cache s"] assms(1,5)
    by (simp add: natapp_wf_def)
  then have "\<exists>e. cache t = (cache s)[i := fill_from_rule rule e] \<and> public_ip e = 0"
    using AddEntry_spec [OF assms(1,5) call] assms(2,3,6) by (auto split: if_splits)
  with lt wf_length [OF assms(1)] assms(3) show ?thesis
    by (auto simp: fill_from_rule_key) (auto simp: fill_from_rule_def entry_is_invalid_def)
qed

theorem dummy_entry_not_skipped_witness:
  "let rule = conn1\<lparr>private_ip := 0x0A000001\<rparr>;
       t = snd (AddEntry counting_env rule (snd (AddTable counting_env 0x0A000001 inst0)))
   in entry_key (cache t ! 0) = entry_key rule \<and> public_ip (cache t ! 0) = 0 \<and>
      private_ip (cache t ! 0) \<noteq> public_ip (cache t ! 0)"
proof -
  let ?s = "snd (AddTable counting_env 0x0A000001 inst0)"
  let ?r = "conn1\<lparr>private_ip := 0x0A000001\<rparr>"
  have wf: "natapp_wf ?s" by (simp add: wf_AddTable)
  have "fst (AddEntry counting_env ?r ?s) = 0" and valid: "\<not> entry_is_invalid ?r"
    and dummy: "private_ip ?r = public_ip ?r"
    and free: "0 = find_idx (\<lambda>i. entry_is_free (cache ?s ! i)) (max_entries ?s)"
    and pub: "public_ip (cache ?s ! 0) = 0" by code_simp+
  then have "AddEntry counting_env ?r ?s = (0, snd (AddEntry counting_env ?r ?s))" by (simp add: prod_eq_iff)
  from dummy_entry_not_skipped [OF wf this valid dummy free pub] show ?thesis unfolding Let_def by blast
qed

text \<open>
  When \<open>Init\<close> fails, \<open>GetInstance\<close> deletes the object and returns null, but keeps the
  pointer: the next call returns the deleted object, whatever the circumstances of that call.
\<close>

theorem GetInstance_dangles_after_failed_init:
  assumes "fst (Init cfg mc ma (NatApp_ctor junk w)) \<noteq> 0"
    and "GetInstance cfg mc ma junk w Null = (first, pInstance)"
  shows "first = Null \<and> GetInstance cfg' mc' ma' junk' w' pInstance = (Dangling, Dangling)"
  using assms by (auto simp: GetInstance_def split: prod.splits)

theorem GetInstance_dangles_after_failed_init_witness:
  "GetInstance (Some (2, [])) False True junk0 (0::u32) Null = (Null, Dangling) \<and>
   GetInstance (Some (2, [])) True True junk0 (0::u32) Dangling = (Dangling, Dangling)"
proof -
  have fail: "fst (Init (Some (2, [])) False True (NatApp_ctor junk0 (0::u32))) \<noteq> 0" by (simp add: Init_def Let_def)
  have "GetInstance (Some (2, [])) False True junk0 (0::u32) Null = (Null, Dangling)"
    by (simp add: GetInstance_def Init_def Let_def)
  with GetInstance_dangles_after_failed_init [OF fail this, of "Some (2, [])" True True junk0 0] show ?thesis by simp
qed

text \<open>
  The obligation on deletions cannot be dropped: deleting the all-zero tuple from a cache
  with a free cell matches that cell, and \<open>curCnt\<close> falls below the number of cached connections.
\<close>

theorem delete_zero_tuple_miscounts:
  assumes "natapp_wf s" and "curCnt s < int (max_entries s)" and "entry_is_free rule"
  shows "curCnt (snd (DeleteEntry h rule s)) = int (card (conns (snd (DeleteEntry h rule s)))) - 1"
proof -
  let ?c = "find_idx (\<lambda>i. entry_matches (cache s ! i) rule) (max_entries s)"
  have "?c = find_idx (\<lambda>i. entry_is_free (cache s ! i)) (max_entries s)"
    using assms(3) by (simp add: entry_matches_iff entry_is_free_iff)
  with not_full_free_cell [OF assms(1,2)] have c: "?c < max_entries s" by simp
  then have free: "entry_is_free (cache s ! ?c)"
    using find_idx_sat [OF c] assms(3) by (simp add: entry_matches_iff entry_is_free_iff)
  have "entry_key zero_entry = entry_key (cache s ! ?c)"
    using free zero_entry_free(1) unfolding entry_is_free_iff by simp
  then have "conns (snd (DeleteEntry h rule s)) = conns s"
    using c nat_slots.keys_rewrite by (simp add: DeleteEntry_def Let_def conns_def)
  moreover have "curCnt (snd (DeleteEntry h rule s)) = curCnt s - 1" using c by (simp add: DeleteEntry_def Let_def)
  moreover have "curCnt s = int (card (conns s))"
    using assms(1) nat_slots.card_keys by (simp add: natapp_wf_def conns_def)
  ultimately show ?thesis by simp
qed

theorem delete_zero_tuple_miscounts_witness:
  "curCnt (snd (DeleteEntry counting_env zero_entry inst1)) =
     int (card (conns (snd (DeleteEntry counting_env zero_entry inst1)))) - 1"
proof -
  have "curCnt inst1 < int (max_entries inst1)" by code_simp
  then show ?thesis by (rule delete_zero_tuple_miscounts [OF inst1_wf]) simp
qed

end
