(* ===== verification/NatDrv_Util.thy ===== *)
theory NatDrv_Util
  imports IPACM_Prelude
begin

text \<open>
  The utility functions of the NAT table library (\<open>ipanat/src/ipa_nat_drvi.c\<close>, \<open>ipa_nat_drvi.h\<close>): the
  packed words of a table entry, the sizes of the tables, the two hash functions and the checksum
  differences.
\<close>

section \<open>Packed words\<close>

datatype ipa_nat_rule_field_type =
    NEXT_INDEX_FIELD | PUBLIC_PORT_FILED | PRIVATE_PORT_FIELD | TARGET_PORT_FIELD | IP_CHKSUM_FIELD
  | ENABLE_FIELD | TIME_STAMP_FIELD | PROTOCOL_FIELD | TCP_UDP_CHKSUM_FIELD
  | SW_SPEC_PARAM_PREV_INDEX_FIELD | SW_SPEC_PARAM_INDX_TBL_ENTRY_FIELD
  | INDX_TBL_TBL_ENTRY_FIELD | INDX_TBL_NEXT_INDEX_FILED

text \<open>The two halves of a 32-bit word, as the bit fields and the structures of the header lay them out.\<close>

definition lo16 :: "u32 \<Rightarrow> u16" where "lo16 w = ucast w"

definition hi16 :: "u32 \<Rightarrow> u16" where "hi16 w = ucast (drop_bit 16 w)"

definition join16 :: "u16 \<Rightarrow> u16 \<Rightarrow> u32" where "join16 lo hi = ucast lo OR push_bit 16 (ucast hi)"

definition Read8BitFieldValue :: "u32 \<Rightarrow> ipa_nat_rule_field_type \<Rightarrow> u8" where
  "Read8BitFieldValue param fld_type =
     (case fld_type of PROTOCOL_FIELD \<Rightarrow> ucast (drop_bit 24 param) | _ \<Rightarrow> 0)"

definition Read16BitFieldValue :: "u32 \<Rightarrow> ipa_nat_rule_field_type \<Rightarrow> u16" where
  "Read16BitFieldValue param fld_type =
     (case fld_type of
        NEXT_INDEX_FIELD \<Rightarrow> lo16 param
      | PUBLIC_PORT_FILED \<Rightarrow> hi16 param
      | ENABLE_FIELD \<Rightarrow> ucast (drop_bit 31 param)
      | SW_SPEC_PARAM_PREV_INDEX_FIELD \<Rightarrow> lo16 param
      | SW_SPEC_PARAM_INDX_TBL_ENTRY_FIELD \<Rightarrow> hi16 param
      | INDX_TBL_TBL_ENTRY_FIELD \<Rightarrow> lo16 param
      | INDX_TBL_NEXT_INDEX_FILED \<Rightarrow> hi16 param
      | IP_CHKSUM_FIELD \<Rightarrow> lo16 param
      | _ \<Rightarrow> 0)"

definition Read32BitFieldValue :: "u32 \<Rightarrow> ipa_nat_rule_field_type \<Rightarrow> u32" where
  "Read32BitFieldValue param fld_type =
     (case fld_type of TIME_STAMP_FIELD \<Rightarrow> param AND 0xFFFFFF | _ \<Rightarrow> 0)"

text \<open>\<open>UpdateSwSpecParams\<close> on the word \<open>sw_spec_params\<close> of the rule.\<close>

definition IPA_NAT_SW_PARAM_PREV_INDX_BYTE :: u8 where "IPA_NAT_SW_PARAM_PREV_INDX_BYTE = 0"

definition IPA_NAT_SW_PARAM_INDX_TBL_ENTRY_BYTE :: u8 where "IPA_NAT_SW_PARAM_INDX_TBL_ENTRY_BYTE = 1"

definition UpdateSwSpecParams :: "u32 \<Rightarrow> u8 \<Rightarrow> u32 \<Rightarrow> u32" where
  "UpdateSwSpecParams temp param_type val =
     (if param_type = IPA_NAT_SW_PARAM_INDX_TBL_ENTRY_BYTE
      then (temp AND 0x0000FFFF) OR push_bit 16 val
      else (temp AND 0xFFFF0000) OR val)"

lemma halves_join [simp]: "lo16 (join16 a b) = a" "hi16 (join16 a b) = b"
  by (rule bit_word_eqI, use bit_imp_le_length in \<open>fastforce simp: lo16_def hi16_def join16_def bit_simps\<close>)+

lemma join_halves [simp]: "join16 (lo16 w) (hi16 w) = w"
  by (rule bit_word_eqI) (auto simp: lo16_def hi16_def join16_def bit_simps)

lemma halves_0 [simp]: "lo16 0 = 0" "hi16 0 = 0"
  by (simp_all add: lo16_def hi16_def)

lemma low_mask32: "(0x0000FFFF :: u32) = mask 16" "(0xFFFF0000 :: u32) = NOT (mask 16)" "(0xFFFFFF :: u32) = mask 24"
  by (simp_all add: mask_eq_exp_minus_1)

lemma UpdateSwSpecParams_halves:
  "UpdateSwSpecParams w IPA_NAT_SW_PARAM_INDX_TBL_ENTRY_BYTE (ucast v) = join16 (lo16 w) v"
  "UpdateSwSpecParams w IPA_NAT_SW_PARAM_PREV_INDX_BYTE (ucast v) = join16 v (hi16 w)"
  unfolding UpdateSwSpecParams_def IPA_NAT_SW_PARAM_INDX_TBL_ENTRY_BYTE_def IPA_NAT_SW_PARAM_PREV_INDX_BYTE_def low_mask32
  by (simp_all, (rule bit_word_eqI, auto simp: lo16_def hi16_def join16_def bit_simps)+)

lemma enable_hi16: "Read16BitFieldValue w ENABLE_FIELD = drop_bit 15 (hi16 w)"
  by (simp add: Read16BitFieldValue_def, rule bit_word_eqI) (auto simp: hi16_def bit_simps dest: bit_imp_le_length)

lemma protocol_hi16: "Read8BitFieldValue w PROTOCOL_FIELD = ucast (drop_bit 8 (hi16 w))"
  by (simp add: Read8BitFieldValue_def, rule bit_word_eqI) (auto simp: hi16_def bit_simps)

section \<open>Sizes of the tables\<close>

text \<open>
  The loop of \<open>GetNearest2Power\<close>: \<open>num\<close> is halved and \<open>tmp\<close> doubled until \<open>num\<close> is 1. The function
  returns 0 or \<open>-EINVAL\<close> (-22) and the value stored in \<open>*ret\<close>.
\<close>

function nearest_loop :: "u16 \<Rightarrow> u16 \<Rightarrow> u16 \<Rightarrow> u16" where
  "nearest_loop number num tmp =
     (if num = 0 then 0
      else if num = 1 then (if number \<noteq> tmp then tmp * 2 else tmp)
      else nearest_loop number (drop_bit 1 num) (tmp * 2))"
  by auto
termination
proof (relation "measure (\<lambda>(_, num, _). unat num)")
  fix num :: u16 assume "num \<noteq> 0" "num \<noteq> 1"
  then show "((number, drop_bit 1 num, tmp * 2), (number, num, tmp)) \<in> measure (\<lambda>(_, num, _). unat num)" for number tmp :: u16
    by (simp add: drop_bit_Suc unat_div unat_gt_0)
qed simp

declare nearest_loop.simps [simp del]

definition GetNearest2Power :: "u16 \<Rightarrow> int \<times> u16" where
  "GetNearest2Power num =
     (if num = 0 then (-22, 0)
      else if num = 1 then (0, 2)
      else (0, nearest_loop num num 1))"

text \<open>\<open>GetNearestEven\<close>: the loop runs at most once.\<close>

definition GetNearestEven :: "u16 \<Rightarrow> u16" where
  "GetNearestEven num = (if num < 2 then 2 else if num mod 2 \<noteq> 0 then num + 1 else num)"

section \<open>Hash functions\<close>

text \<open>\<open>size\<close> is the number of entries of the base table minus one.\<close>

definition dst_hash :: "u32 \<Rightarrow> u16 \<Rightarrow> u16 \<Rightarrow> u8 \<Rightarrow> u16 \<Rightarrow> u16" where
  "dst_hash trgt_ip trgt_port public_port proto sz =
     (let hash = lo16 trgt_ip XOR hi16 trgt_ip XOR trgt_port XOR public_port XOR ucast proto;
          hash = hash AND sz
      in if hash = 0 then sz else hash)"

definition src_hash :: "u32 \<Rightarrow> u16 \<Rightarrow> u32 \<Rightarrow> u16 \<Rightarrow> u8 \<Rightarrow> u16 \<Rightarrow> u16" where
  "src_hash priv_ip priv_port trgt_ip trgt_port proto sz =
     (let hash = lo16 priv_ip XOR hi16 priv_ip XOR priv_port XOR lo16 trgt_ip XOR hi16 trgt_ip XOR trgt_port XOR ucast proto;
          hash = hash AND sz
      in if hash = 0 then sz else hash)"

section \<open>Checksum differences\<close>

text \<open>One addition with the carry of 16 bits added back in.\<close>

definition add_carry :: "u32 \<Rightarrow> u32 \<Rightarrow> u32" where
  "add_carry cksum x =
     (let cksum = cksum + x in
      if drop_bit 16 cksum \<noteq> 0 then (cksum AND 0x0000FFFF) + 1 else cksum)"

definition ipa_nati_calc_ip_cksum :: "u32 \<Rightarrow> u32 \<Rightarrow> u16" where
  "ipa_nati_calc_ip_cksum pub_ip_addr priv_ip_addr =
     (let cksum = 0 + (pub_ip_addr AND 0xFFFF);
          cksum = add_carry cksum (drop_bit 16 pub_ip_addr);
          priv_ip_addr = NOT priv_ip_addr;
          cksum = add_carry cksum (priv_ip_addr AND 0xFFFF);
          cksum = add_carry cksum (drop_bit 16 priv_ip_addr)
      in ucast cksum)"

definition ipa_nati_calc_tcp_udp_cksum :: "u32 \<Rightarrow> u16 \<Rightarrow> u32 \<Rightarrow> u16 \<Rightarrow> u16" where
  "ipa_nati_calc_tcp_udp_cksum pub_ip_addr pub_port priv_ip_addr priv_port =
     (let cksum = 0 + (pub_ip_addr AND 0xFFFF);
          cksum = add_carry cksum (drop_bit 16 pub_ip_addr);
          cksum = add_carry cksum (ucast pub_port);
          priv_ip_addr = NOT priv_ip_addr;
          cksum = add_carry cksum (priv_ip_addr AND 0xFFFF);
          cksum = add_carry cksum (drop_bit 16 priv_ip_addr);
          priv_port = NOT priv_port;
          cksum = add_carry cksum (ucast priv_port)
      in ucast cksum)"

section \<open>What they compute\<close>

lemma hash_range:
  assumes "sz \<noteq> 0"
  shows "0 < unat (dst_hash ti tp pp pr sz)" "unat (dst_hash ti tp pp pr sz) \<le> unat sz"
    and "0 < unat (src_hash pi pt ti tp pr sz)" "unat (src_hash pi pt ti tp pr sz) \<le> unat sz"
  using assms by (auto simp: dst_hash_def src_hash_def Let_def unat_gt_0 word_le_nat_alt [symmetric] word_and_le1)

lemma unat_bound16: "unat (w :: u16) < 65536"
  using unsigned_less [of w] by simp

lemma unat_bound32: "unat (w :: u32) < 4294967296"
  using unsigned_less [of w] by simp

lemma unat_all_ones: "unat (- 1 :: u32) = 4294967295" "unat (- 1 :: u16) = 65535"
  by (simp_all add: unsigned_minus_1_eq_mask mask_eq_exp_minus_1)

lemma unat_power16: "k < 16 \<Longrightarrow> unat (2 ^ k :: u16) = 2 ^ k"
proof -
  assume "k < 16"
  then have "(2::nat) ^ k < 2 ^ 16" by (rule power_strict_increasing) simp
  have "(2 :: u16) ^ k = push_bit k 1" by (simp add: push_bit_eq_mult)
  moreover have "unat (push_bit k (1 :: u16)) = take_bit 16 (push_bit k 1)"
    by (simp only: unsigned_push_bit_eq) simp
  moreover have "take_bit 16 (push_bit k (1 :: nat)) = 2 ^ k mod 2 ^ 16" by (simp add: take_bit_eq_mod push_bit_eq_mult)
  ultimately show ?thesis using \<open>2 ^ k < 2 ^ 16\<close> by (simp only: mod_less)
qed

lemma nearest_loop_steps:
  fixes number :: u16
  assumes "2 ^ k \<le> unat number" and "unat number < 2 ^ Suc k" and "i \<le> k"
  shows "nearest_loop number (of_nat (unat number div 2 ^ (k - i))) (2 ^ (k - i)) =
     (if unat number = 2 ^ k then 2 ^ k else 2 ^ Suc k)"
  using assms(3)
proof (induction i)
  case 0
  have "unat number < 2 ^ 16" using unat_bound16 [of number] by simp
  with assms(1) have "(2::nat) ^ k < 2 ^ 16" by linarith
  then have "k < 16" by (rule power_less_imp_less_exp [rotated]) simp
  have "unat (2 ^ k :: u16) = 2 ^ k" by (rule unat_power16) fact
  then have eq: "number = 2 ^ k \<longleftrightarrow> unat number = 2 ^ k" by (metis word_unat_eq_iff)
  have "unat number div 2 ^ k = 1" using assms(1,2) by (simp add: div_nat_eqI)
  then show ?case using eq by (simp add: nearest_loop.simps)
next
  case (Suc i)
  let ?a = "unat number div 2 ^ (k - Suc i)"
  have k: "k - i = Suc (k - Suc i)" using Suc.prems by simp
  have half: "?a div 2 = unat number div 2 ^ (k - i)" unfolding k power_Suc2 by (simp only: div_mult2_eq)
  have "2 ^ (k - i) \<le> unat number" using assms(1) by (meson diff_le_self le_trans one_le_numeral power_increasing)
  then have "0 < ?a div 2" unfolding half by (simp add: div_greater_zero_iff)
  then have ge: "2 \<le> ?a" by simp
  have lt: "?a < 65536" using unat_bound16 [of number] by (rule le_less_trans [OF div_le_dividend])
  have u: "unat (of_nat ?a :: u16) = ?a" using lt by (simp add: unat_of_nat)
  have "of_nat ?a \<noteq> (0::u16)" "of_nat ?a \<noteq> (1::u16)" using u ge by (auto simp: word_unat_eq_iff)
  moreover have "drop_bit 1 (of_nat ?a :: u16) = of_nat (unat number div 2 ^ (k - i))"
    unfolding half [symmetric] using u lt by (simp add: word_unat_eq_iff drop_bit_Suc unat_div unat_of_nat)
  ultimately have "nearest_loop number (of_nat ?a) (2 ^ (k - Suc i)) =
      nearest_loop number (of_nat (unat number div 2 ^ (k - i))) (2 ^ (k - i))"
    by (subst nearest_loop.simps) (simp add: k mult.commute)
  then show ?case using Suc by simp
qed

lemma GetNearest2Power_cases:
  assumes "2 \<le> unat num" and "2 ^ k \<le> unat num" and "unat num < 2 ^ Suc k"
  shows "GetNearest2Power num = (0, if unat num = 2 ^ k then 2 ^ k else 2 ^ Suc k)"
  using nearest_loop_steps [OF assms(2,3), of k] assms(1) by (auto simp: GetNearest2Power_def)

text \<open>The smallest power of two that is not below \<open>num\<close>.\<close>

lemma nearest_power_spec:
  assumes "2 \<le> unat num" and "unat num \<le> 32768"
  obtains k where "fst (GetNearest2Power num) = 0" "unat (snd (GetNearest2Power num)) = 2 ^ k" "unat num \<le> 2 ^ k" "2 ^ k < 2 * unat num"
proof -
  obtain k where k: "2 ^ k \<le> unat num" "unat num < 2 ^ (k + 1)" using ex_power_ivl1 [of 2 "unat num"] assms(1) by auto
  have "(2::nat) ^ k \<le> 2 ^ 15" using k(1) assms(2) by simp
  then have k15: "k \<le> 15" by (rule power_le_imp_le_exp [rotated]) simp
  note G = GetNearest2Power_cases [OF assms(1) k(1), unfolded Suc_eq_plus1, OF k(2)]
  show ?thesis
  proof (cases "unat num = 2 ^ k")
    case True
    then show ?thesis using that [of k] G unat_power16 [of k] k15 assms(1) by simp
  next
    case False
    then have "k \<noteq> 15" using k(1) assms(2) by auto
    then show ?thesis using that [of "k + 1"] G unat_power16 [of "k + 1"] k15 k False by simp
  qed
qed

lemma add_carry_nat:
  assumes "unat c \<le> 65535" and "unat x \<le> 65535"
  shows "unat (add_carry c x) = (if unat c + unat x < 65536 then unat c + unat x else unat c + unat x - 65535)"
proof -
  have s: "unat (c + x) = unat c + unat x" using assms by (simp add: unat_word_ariths)
  have d: "drop_bit 16 (c + x) \<noteq> 0 \<longleftrightarrow> 65536 \<le> unat c + unat x"
    using s by (simp add: drop_bit_eq_div word_unat_eq_iff unat_div div_eq_0_iff not_less)
  have a: "unat ((c + x) AND 0x0000FFFF) = (unat c + unat x) mod 65536"
    using s unfolding low_mask32 by (simp add: take_bit_eq_mask [symmetric] unsigned_take_bit_eq take_bit_eq_mod unat_mod)
  show ?thesis
    using assms a d s by (auto simp: add_carry_def Let_def unat_word_ariths mod_if)
qed

text \<open>The sum of the two halves of an address.\<close>

definition sum16 :: "u32 \<Rightarrow> int" where "sum16 w = int (unat w mod 65536) + int (unat w div 65536)"

lemma halves_nat:
  fixes w :: u32
  shows "unat (w AND 0xFFFF) = unat w mod 65536" "unat (drop_bit 16 w) = unat w div 65536" "unat w div 65536 \<le> 65535"
    "unat (NOT w AND 0xFFFF) = 65535 - unat w mod 65536" "unat (drop_bit 16 (NOT w)) = 65535 - unat w div 65536"
proof -
  have lt: "unat w < 4294967296" using unat_bound32 [of w] by simp
  show a: "unat (w AND 0xFFFF) = unat w mod 65536" for w :: u32
    unfolding low_mask32 by (simp add: take_bit_eq_mask [symmetric] unsigned_take_bit_eq take_bit_eq_mod unat_mod)
  show d: "unat (drop_bit 16 w) = unat w div 65536" for w :: u32 by (simp add: drop_bit_eq_div unat_div)
  show "unat w div 65536 \<le> 65535" using lt by simp
  have "NOT w = - 1 - w" by (simp add: not_eq_complement)
  then have n: "unat (NOT w) = 4294967295 - unat w" using unat_sub [of w "- 1"] by (simp add: unat_all_ones)
  define q r where "q = unat w div 65536" and "r = unat w mod 65536"
  have qr: "unat w = 65536 * q + r" "r < 65536" "q < 65536" using lt unfolding q_def r_def by simp_all
  have m: "4294967295 - unat w = 65536 * (65535 - q) + (65535 - r)" using qr by simp
  have "unat (NOT w AND 0xFFFF) = 65535 - r" "unat (drop_bit 16 (NOT w)) = 65535 - q"
    unfolding a d n m by simp_all
  then show "unat (NOT w AND 0xFFFF) = 65535 - unat w mod 65536" "unat (drop_bit 16 (NOT w)) = 65535 - unat w div 65536"
    unfolding q_def r_def .
qed

lemma add_carry_mod:
  assumes "unat c \<le> 65535" and "unat x \<le> 65535"
  shows "unat (add_carry c x) \<le> 65535" and "int (unat (add_carry c x)) mod 65535 = (int (unat c) + int (unat x)) mod 65535"
  using assms by (auto simp: add_carry_nat of_nat_diff)

lemma unat_cast16: "unat c \<le> 65535 \<Longrightarrow> unat (ucast c :: u16) = unat c" for c :: u32
  by (simp add: unsigned_ucast_eq take_bit_eq_mod)

lemma unat_port: "unat (ucast p :: u32) = unat p" "unat p \<le> 65535" for p :: u16
  using unat_bound16 [of p] by (simp_all add: unsigned_ucast_eq take_bit_eq_mod)

lemma unat_not_port: "unat (NOT p) = 65535 - unat p" for p :: u16
proof -
  have "NOT p = - 1 - p" by (simp add: not_eq_complement)
  then show ?thesis using unat_sub [of p "- 1"] by (simp add: unat_all_ones)
qed

lemma halves_le:
  "unat w mod 65536 \<le> 65535" "65535 - unat w mod 65536 \<le> 65535" "65535 - unat w div 65536 \<le> 65535" for w :: u32
  by (simp_all add: less_Suc_eq_le [symmetric])

text \<open>Adding a complement modulo 65535 is a subtraction.\<close>

lemma complement_mod: "v \<le> 65535 \<Longrightarrow> (a mod 65535 + int (65535 - v)) mod 65535 = (a - int v) mod 65535"
  unfolding mod_add_left_eq using mod_add_self2 [of "a - int v" 65535] by (simp add: of_nat_diff algebra_simps)

lemma add_complement:
  assumes "unat c \<le> 65535" and "unat x = 65535 - v" and "v \<le> 65535" and "int (unat c) mod 65535 = a mod 65535"
  shows "unat (add_carry c x) \<le> 65535" and "int (unat (add_carry c x)) mod 65535 = (a - int v) mod 65535"
proof -
  have x: "unat x \<le> 65535" using assms(2) by simp
  show "unat (add_carry c x) \<le> 65535" using assms(1) x by (rule add_carry_mod(1))
  have "int (unat (add_carry c x)) mod 65535 = (int (unat c) mod 65535 + int (65535 - v)) mod 65535"
    using add_carry_mod(2) [OF assms(1) x] assms(2) by (simp add: mod_add_left_eq)
  then show "int (unat (add_carry c x)) mod 65535 = (a - int v) mod 65535"
    using assms(3,4) by (simp only: complement_mod)
qed

lemma subtract_address:
  assumes "unat c \<le> 65535" and "int (unat c) mod 65535 = a mod 65535"
  shows "unat (add_carry (add_carry c (NOT w AND 0xFFFF)) (drop_bit 16 (NOT w))) \<le> 65535"
    and "int (unat (add_carry (add_carry c (NOT w AND 0xFFFF)) (drop_bit 16 (NOT w)))) mod 65535 = (a - sum16 w) mod 65535"
proof -
  note lo = add_complement [OF assms(1) halves_nat(4) halves_le(1) assms(2), of w]
  note hi = add_complement [OF lo(1) halves_nat(5) halves_nat(3) lo(2)]
  show "unat (add_carry (add_carry c (NOT w AND 0xFFFF)) (drop_bit 16 (NOT w))) \<le> 65535" by (rule hi(1))
  show "int (unat (add_carry (add_carry c (NOT w AND 0xFFFF)) (drop_bit 16 (NOT w)))) mod 65535 = (a - sum16 w) mod 65535"
    using hi(2) by (simp add: sum16_def diff_diff_eq)
qed

lemma add_address:
  "unat (add_carry (0 + (w AND 0xFFFF)) (drop_bit 16 w)) \<le> 65535"
  "int (unat (add_carry (0 + (w AND 0xFFFF)) (drop_bit 16 w))) mod 65535 = sum16 w mod 65535"
  using add_carry_mod [of "w AND 0xFFFF" "drop_bit 16 w"] halves_le(1) [of w] halves_nat(3) [of w]
  by (simp_all add: halves_nat sum16_def)

lemma add_port:
  assumes "unat c \<le> 65535" and "int (unat c) mod 65535 = a mod 65535"
  shows "unat (add_carry c (ucast (p :: u16))) \<le> 65535"
    and "int (unat (add_carry c (ucast p))) mod 65535 = (a + int (unat p)) mod 65535"
proof -
  have p: "unat (ucast p :: u32) \<le> 65535" using unat_port by simp
  show "unat (add_carry c (ucast p)) \<le> 65535" using assms(1) p by (rule add_carry_mod(1))
  show "int (unat (add_carry c (ucast p))) mod 65535 = (a + int (unat p)) mod 65535"
    using add_carry_mod(2) [OF assms(1) p] assms(2) unat_port(1) [of p] by (metis mod_add_left_eq)
qed

section \<open>Properties\<close>

text \<open>
  C24. The size of the base table is a power of two, the smallest that holds the entries asked for: at
  least \<open>num\<close> and less than twice \<open>num\<close>, for every \<open>num\<close> from 2 to 32768.
\<close>

theorem base_size_power_of_two:
  assumes "2 \<le> unat num" and "unat num \<le> 32768"
  shows "fst (GetNearest2Power num) = 0 \<and>
     (\<exists>k. unat (snd (GetNearest2Power num)) = 2 ^ k \<and> unat num \<le> 2 ^ k \<and> 2 ^ k < 2 * unat num)"
  using nearest_power_spec [OF assms] by metis

theorem base_size_power_of_two_witness:
  "2 \<le> unat (400 :: u16) \<and> unat (400 :: u16) \<le> 32768 \<and> GetNearest2Power 400 = (0, 512) \<and>
   (\<exists>k. unat (snd (GetNearest2Power 400)) = 2 ^ k \<and> unat (400 :: u16) \<le> 2 ^ k \<and> 2 ^ k < 2 * unat (400 :: u16))"
proof -
  have "2 \<le> unat (400 :: u16)" "unat (400 :: u16) \<le> 32768" by simp_all
  moreover have "GetNearest2Power 400 = (0, 512)" by code_simp
  ultimately show ?thesis using base_size_power_of_two [of 400] by blast
qed

text \<open>A table of more than 40960 entries needs a base table of more than 32768, and the doubling of
  \<open>tmp\<close> leaves the 16 bits: the size is 0.\<close>

theorem base_size_overflows: "GetNearest2Power 32769 = (0, 0)"
  by code_simp

text \<open>
  C22. The differences of the IP and TCP/UDP checksums that are entered with a rule are those of
  one's complement arithmetic: modulo 65535, the sum of the halves of the public address (and the
  public port) minus the sum of the halves of the private address (and the private port), although
  the code folds the carry after every single addition.
\<close>

theorem checksum_differences:
  "int (unat (ipa_nati_calc_ip_cksum pub priv)) mod 65535 = (sum16 pub - sum16 priv) mod 65535 \<and>
   int (unat (ipa_nati_calc_tcp_udp_cksum pub pub_port priv priv_port)) mod 65535 =
     (sum16 pub + int (unat pub_port) - sum16 priv - int (unat priv_port)) mod 65535"
proof
  note ip = subtract_address [OF add_address(1,2), of pub priv]
  show "int (unat (ipa_nati_calc_ip_cksum pub priv)) mod 65535 = (sum16 pub - sum16 priv) mod 65535"
    using ip unfolding ipa_nati_calc_ip_cksum_def Let_def by (simp only: unat_cast16)
  note tcp = subtract_address [OF add_port(1,2) [OF add_address(1,2)], of pub pub_port priv]
  have c: "unat (ucast (NOT priv_port) :: u32) = 65535 - unat priv_port" using unat_port(1) unat_not_port by simp
  note last = add_complement [OF tcp(1) c unat_port(2) tcp(2)]
  show "int (unat (ipa_nati_calc_tcp_udp_cksum pub pub_port priv priv_port)) mod 65535 =
     (sum16 pub + int (unat pub_port) - sum16 priv - int (unat priv_port)) mod 65535"
    using last unfolding ipa_nati_calc_tcp_udp_cksum_def Let_def by (simp only: unat_cast16)
qed

end
