(* ===== verification/NatDrv.thy ===== *)
theory NatDrv
  imports NatApp NatDrv_Util "HOL-Library.Monad_Syntax"
begin

text \<open>
  The NAT table library (\<open>ipanat/src/ipa_nat_drvi.c\<close>, \<open>ipa_nat_drv.c\<close>): the table of NAT rules and the
  index table, each with its expansion part, the array of rule handles, and the operations that add
  and delete tables and rules. The kernel (\<open>ioctl\<close>, \<open>open\<close>, \<open>mmap\<close>), \<open>malloc\<close> and the mutex are
  the record \<open>drv_env\<close> over a world \<open>'w\<close>, and so are the words that can be read behind the mapped tables
  (\<open>mem_behind\<close>), which only the dump of the tables reads. A function returns \<open>None\<close> where the code reads or writes
  outside an array, the mapped tables and these words, or through a null pointer, or does not return.
\<close>

section \<open>Data\<close>

datatype nat_table_type = IPA_NAT_BASE_TBL | IPA_NAT_EXPN_TBL | IPA_NAT_INDX_TBL | IPA_NAT_INDEX_EXPN_TBL

datatype del_type = IPA_NAT_DEL_TYPE_ONLY_ONE | IPA_NAT_DEL_TYPE_HEAD | IPA_NAT_DEL_TYPE_MIDDLE | IPA_NAT_DEL_TYPE_LAST

record ipa_nat_rule =
  n_private_ip :: u32
  n_target_ip :: u32
  nxt_indx_pub_port :: u32
  n_private_port :: u16
  n_target_port :: u16
  ip_cksm_enbl :: u32
  ts_proto :: u32
  sw_spec_params :: u32
  n_rsvd2 :: u16
  n_tcp_udp_chksum :: u16

record ipa_nat_sw_rule =
  s_private_ip :: u32
  s_target_ip :: u32
  s_next_index :: u16
  s_public_port :: u16
  s_private_port :: u16
  s_target_port :: u16
  s_ip_chksum :: u16
  s_rsvd1 :: "14 word"
  s_redirect :: "1 word"
  s_enable :: "1 word"
  s_time_stamp :: "24 word"
  s_protocol :: u8
  s_prev_index :: u16
  s_indx_tbl_entry :: u16
  s_rsvd2 :: u16
  s_tcp_udp_chksum :: u16

record ipa_nat_indx_tbl_sw_rule =
  x_tbl_entry :: u16
  x_next_index :: u16
  x_prev_index :: u16

text \<open>What \<open>memset\<close> leaves of the three structures.\<close>

definition zero_rule :: ipa_nat_rule where
  "zero_rule = \<lparr>n_private_ip = 0, n_target_ip = 0, nxt_indx_pub_port = 0, n_private_port = 0, n_target_port = 0,
     ip_cksm_enbl = 0, ts_proto = 0, sw_spec_params = 0, n_rsvd2 = 0, n_tcp_udp_chksum = 0\<rparr>"

definition zero_sw_rule :: ipa_nat_sw_rule where
  "zero_sw_rule = \<lparr>s_private_ip = 0, s_target_ip = 0, s_next_index = 0, s_public_port = 0, s_private_port = 0,
     s_target_port = 0, s_ip_chksum = 0, s_rsvd1 = 0, s_redirect = 0, s_enable = 0, s_time_stamp = 0, s_protocol = 0,
     s_prev_index = 0, s_indx_tbl_entry = 0, s_rsvd2 = 0, s_tcp_udp_chksum = 0\<rparr>"

definition zero_index_sw_rule :: ipa_nat_indx_tbl_sw_rule where
  "zero_index_sw_rule = \<lparr>x_tbl_entry = 0, x_next_index = 0, x_prev_index = 0\<rparr>"

text \<open>The software rule and the table entry are two layouts of the same 32 bytes: the \<open>memcpy\<close> into
  the table, and the one back in \<open>ipa_nati_print_rule\<close>.\<close>

definition pack_rule :: "ipa_nat_sw_rule \<Rightarrow> ipa_nat_rule" where
  "pack_rule r =
     \<lparr>n_private_ip = s_private_ip r, n_target_ip = s_target_ip r,
      nxt_indx_pub_port = join16 (s_next_index r) (s_public_port r),
      n_private_port = s_private_port r, n_target_port = s_target_port r,
      ip_cksm_enbl = ucast (s_ip_chksum r) OR push_bit 16 (ucast (s_rsvd1 r)) OR
        push_bit 30 (ucast (s_redirect r)) OR push_bit 31 (ucast (s_enable r)),
      ts_proto = ucast (s_time_stamp r) OR push_bit 24 (ucast (s_protocol r)),
      sw_spec_params = join16 (s_prev_index r) (s_indx_tbl_entry r),
      n_rsvd2 = s_rsvd2 r, n_tcp_udp_chksum = s_tcp_udp_chksum r\<rparr>"

definition unpack_rule :: "ipa_nat_rule \<Rightarrow> ipa_nat_sw_rule" where
  "unpack_rule r =
     \<lparr>s_private_ip = n_private_ip r, s_target_ip = n_target_ip r,
      s_next_index = lo16 (nxt_indx_pub_port r), s_public_port = hi16 (nxt_indx_pub_port r),
      s_private_port = n_private_port r, s_target_port = n_target_port r,
      s_ip_chksum = lo16 (ip_cksm_enbl r), s_rsvd1 = ucast (drop_bit 16 (ip_cksm_enbl r)),
      s_redirect = ucast (drop_bit 30 (ip_cksm_enbl r)), s_enable = ucast (drop_bit 31 (ip_cksm_enbl r)),
      s_time_stamp = ucast (ts_proto r), s_protocol = ucast (drop_bit 24 (ts_proto r)),
      s_prev_index = lo16 (sw_spec_params r), s_indx_tbl_entry = hi16 (sw_spec_params r),
      s_rsvd2 = n_rsvd2 r, s_tcp_udp_chksum = n_tcp_udp_chksum r\<rparr>"

text \<open>
  The mapped memory. \<open>ipa_nati_update_cache\<close> puts the expansion table right behind the base table and the
  index expansion table right behind the index table, so each pair is one array: entry \<open>i\<close> of an
  expansion table is entry \<open>table_entries + i\<close> of the array.
\<close>

record nat_mem =
  rules :: "ipa_nat_rule list"
  index_rules :: "u32 list"

text \<open>\<open>ipv4_rules_addr\<close> and the three pointers derived from it: null, pointing to memory that is no longer
  mapped, or pointing to the mapped tables.\<close>

datatype nat_ptr = NullPtr | Unmapped | Mapped nat_mem

primrec deref :: "nat_ptr \<Rightarrow> nat_mem option" where
  "deref NullPtr = None"
| "deref Unmapped = None"
| "deref (Mapped m) = Some m"

record ipa_nat_ip4_table_cache =
  valid :: bool
  public_addr :: u32
  nat_fd :: int
  tbl_size :: nat
  tbl_addr_offset :: u32
  tbl_mem :: nat_ptr
  table_entries :: u16
  expn_table_entries :: u16
  index_expn_table_meta :: "u16 list option"
  rule_id_array :: "u16 list option"
  cur_tbl_cnt :: u16
  cur_expn_tbl_cnt :: u16

definition zero_table :: ipa_nat_ip4_table_cache where
  "zero_table = \<lparr>valid = False, public_addr = 0, nat_fd = 0, tbl_size = 0, tbl_addr_offset = 0, tbl_mem = NullPtr,
     table_entries = 0, expn_table_entries = 0, index_expn_table_meta = None, rule_id_array = None,
     cur_tbl_cnt = 0, cur_expn_tbl_cnt = 0\<rparr>"

record 'w ipa_nat_cache =
  ip4_tbl :: "ipa_nat_ip4_table_cache list"
  ipa_fd :: int
  table_cnt :: u8
  drv_world :: 'w

text \<open>The arguments of the \<open>ioctl\<close> calls.\<close>

record nat_dma_one =
  dma_table_index :: u8
  dma_base_addr :: nat_table_type
  dma_offset :: u32
  dma_data :: u16

record v4_nat_init =
  i_tbl_index :: u8
  i_ipv4_rules_offset :: u32
  i_expn_rules_offset :: u32
  i_index_offset :: u32
  i_index_expn_offset :: u32
  i_table_entries :: u16
  i_expn_table_entries :: u16
  i_ip_addr :: u32

record 'w drv_env =
  open_ipa :: "'w \<Rightarrow> int \<times> 'w"
  ioctl_alloc_mem :: "nat \<Rightarrow> 'w \<Rightarrow> int \<times> u32 \<times> 'w"
  drv_malloc :: "'w \<Rightarrow> bool \<times> 'w"
  open_nat :: "'w \<Rightarrow> int \<times> 'w"
  mmap_nat :: "nat \<Rightarrow> 'w \<Rightarrow> nat_mem option \<times> 'w"
  ioctl_init :: "v4_nat_init \<Rightarrow> 'w \<Rightarrow> int \<times> 'w"
  ioctl_dma :: "nat_dma_one list \<Rightarrow> nat_mem \<Rightarrow> 'w \<Rightarrow> int \<times> nat_mem \<times> 'w"
  close_nat :: "int \<Rightarrow> 'w \<Rightarrow> int \<times> 'w"
  ioctl_del :: "u8 \<Rightarrow> u32 \<Rightarrow> 'w \<Rightarrow> int \<times> 'w"
  mutex_lock :: "'w \<Rightarrow> int \<times> 'w"
  mutex_unlock :: "'w \<Rightarrow> int \<times> 'w"
  mem_behind :: "'w \<Rightarrow> u32 list"

definition EIO :: int where "EIO = 5"

definition ENOMEM :: int where "ENOMEM = 12"

definition EINVAL :: int where "EINVAL = 22"

definition IPA_NAT_MAX_IP4_TBLS :: nat where "IPA_NAT_MAX_IP4_TBLS = 1"

definition IPA_NAT_TABLE_ENTRY_SIZE :: nat where "IPA_NAT_TABLE_ENTRY_SIZE = 32"

definition IPA_NAT_INDEX_TABLE_ENTRY_SIZE :: nat where "IPA_NAT_INDEX_TABLE_ENTRY_SIZE = 4"

definition IPA_NAT_RULE_FLAG_FIELD_OFFSET :: u32 where "IPA_NAT_RULE_FLAG_FIELD_OFFSET = 18"

definition IPA_NAT_RULE_NEXT_FIELD_OFFSET :: u32 where "IPA_NAT_RULE_NEXT_FIELD_OFFSET = 8"

definition IPA_NAT_RULE_PROTO_FIELD_OFFSET :: u32 where "IPA_NAT_RULE_PROTO_FIELD_OFFSET = 22"

definition IPA_NAT_INDEX_RULE_NEXT_FIELD_OFFSET :: u32 where "IPA_NAT_INDEX_RULE_NEXT_FIELD_OFFSET = 2"

definition IPA_NAT_INDEX_RULE_NAT_INDEX_FIELD_OFFSET :: u32 where "IPA_NAT_INDEX_RULE_NAT_INDEX_FIELD_OFFSET = 0"

definition IPA_NAT_FLAG_ENABLE_BIT_MASK :: u16 where "IPA_NAT_FLAG_ENABLE_BIT_MASK = 0x8000"

definition IPA_NAT_FLAG_DISABLE_BIT_MASK :: u16 where "IPA_NAT_FLAG_DISABLE_BIT_MASK = 0"

definition IPA_NAT_INVALID_PROTO_FIELD_VALUE :: u16 where "IPA_NAT_INVALID_PROTO_FIELD_VALUE = 0xFF00"

definition IPA_NAT_INVALID_PROTO_FIELD_CMP :: u8 where "IPA_NAT_INVALID_PROTO_FIELD_CMP = 0xFF"

definition IPA_NAT_INVALID_NAT_ENTRY :: u16 where "IPA_NAT_INVALID_NAT_ENTRY = 0"

section \<open>Arrays\<close>

definition rd :: "'a list \<Rightarrow> nat \<Rightarrow> 'a option" where
  "rd xs i = (if i < length xs then Some (xs ! i) else None)"

definition wr :: "'a list \<Rightarrow> nat \<Rightarrow> 'a \<Rightarrow> 'a list option" where
  "wr xs i v = (if i < length xs then Some (xs[i := v]) else None)"

text \<open>Place of \<open>tbl_ptr[entry]\<close> where \<open>tbl_ptr\<close> is the base table or the expansion table.\<close>

definition addr_of :: "ipa_nat_ip4_table_cache \<Rightarrow> bool \<Rightarrow> u16 \<Rightarrow> nat" where
  "addr_of t expn entry = (if expn then unat (table_entries t) else 0) + unat entry"

text \<open>Place of an entry number in which the expansion table is counted from \<open>table_entries\<close>, reached by
  the code as \<open>base[entry]\<close> or \<open>expn[entry - table_entries]\<close>.\<close>

definition place :: "ipa_nat_ip4_table_cache \<Rightarrow> u16 \<Rightarrow> nat" where
  "place t entry =
     (if entry < table_entries t then addr_of t False entry else addr_of t True (entry - table_entries t))"

abbreviation next_index :: "ipa_nat_rule \<Rightarrow> u16" where
  "next_index r \<equiv> Read16BitFieldValue (nxt_indx_pub_port r) NEXT_INDEX_FIELD"

abbreviation rule_enabled :: "ipa_nat_rule \<Rightarrow> bool" where
  "rule_enabled r \<equiv> Read16BitFieldValue (ip_cksm_enbl r) ENABLE_FIELD \<noteq> 0"

abbreviation prev_index :: "ipa_nat_rule \<Rightarrow> u16" where
  "prev_index r \<equiv> Read16BitFieldValue (sw_spec_params r) SW_SPEC_PARAM_PREV_INDEX_FIELD"

abbreviation indx_tbl_entry :: "ipa_nat_rule \<Rightarrow> u16" where
  "indx_tbl_entry r \<equiv> Read16BitFieldValue (sw_spec_params r) SW_SPEC_PARAM_INDX_TBL_ENTRY_FIELD"

abbreviation rule_protocol :: "ipa_nat_rule \<Rightarrow> u8" where
  "rule_protocol r \<equiv> Read8BitFieldValue (ts_proto r) PROTOCOL_FIELD"

abbreviation index_tbl_entry :: "u32 \<Rightarrow> u16" where
  "index_tbl_entry x \<equiv> Read16BitFieldValue x INDX_TBL_TBL_ENTRY_FIELD"

abbreviation index_next :: "u32 \<Rightarrow> u16" where
  "index_next x \<equiv> Read16BitFieldValue x INDX_TBL_NEXT_INDEX_FILED"

section \<open>Rule handles and offsets\<close>

text \<open>\<open>ipa_nati_make_rule_hdl\<close>: the first free slot of \<open>rule_id_array\<close>.\<close>

primrec first_free_id :: "u16 list \<Rightarrow> nat list \<Rightarrow> nat option option" where
  "first_free_id ids [] = Some None"
| "first_free_id ids (cnt # cnts) =
     do { r \<leftarrow> rd ids cnt;
          if r = IPA_NAT_INVALID_NAT_ENTRY then Some (Some cnt) else first_free_id ids cnts }"

definition make_rule_id :: "ipa_nat_ip4_table_cache \<Rightarrow> u16 \<Rightarrow> u16" where
  "make_rule_id t tbl_entry =
     (if tbl_entry \<ge> table_entries t then push_bit 1 (tbl_entry - table_entries t) OR 1 else push_bit 1 tbl_entry)"

definition ipa_nati_make_rule_hdl :: "u16 \<Rightarrow> ipa_nat_ip4_table_cache \<Rightarrow> (u16 \<times> ipa_nat_ip4_table_cache) option" where
  "ipa_nati_make_rule_hdl tbl_entry t =
     do { let t = (if tbl_entry \<ge> table_entries t then t\<lparr>cur_expn_tbl_cnt := cur_expn_tbl_cnt t + 1\<rparr>
                   else t\<lparr>cur_tbl_cnt := cur_tbl_cnt t + 1\<rparr>);
          ids \<leftarrow> rule_id_array t;
          f \<leftarrow> first_free_id ids [0..<unat (table_entries t) + unat (expn_table_entries t)];
          case f of
            None \<Rightarrow> Some (0, t)
          | Some cnt \<Rightarrow>
              Some (of_nat (cnt + 1), t\<lparr>rule_id_array := Some (ids[cnt := make_rule_id t tbl_entry])\<rparr>) }"

text \<open>\<open>ipa_nati_parse_ipv4_rule_hdl\<close>: \<open>expn_tbl\<close> and \<open>tbl_entry\<close>. Handle 0 reads in front of the array.\<close>

definition ipa_nati_parse_ipv4_rule_hdl :: "ipa_nat_ip4_table_cache \<Rightarrow> u16 \<Rightarrow> (bool \<times> u16) option" where
  "ipa_nati_parse_ipv4_rule_hdl t hdl =
     (if unat hdl \<ge> unat (table_entries t) + unat (expn_table_entries t) then Some (False, IPA_NAT_INVALID_NAT_ENTRY)
      else if hdl = 0 then None
      else do { ids \<leftarrow> rule_id_array t;
                rule_id \<leftarrow> rd ids (unat hdl - 1);
                Some (rule_id AND 1 \<noteq> 0, drop_bit 1 rule_id) })"

definition ipa_nati_get_entry_offset :: "ipa_nat_ip4_table_cache \<Rightarrow> u16 \<Rightarrow> u32" where
  "ipa_nati_get_entry_offset t tbl_entry = of_nat (IPA_NAT_TABLE_ENTRY_SIZE * unat tbl_entry) + tbl_addr_offset t"

definition ipa_nati_get_index_entry_offset :: "ipa_nat_ip4_table_cache \<Rightarrow> u16 \<Rightarrow> u32" where
  "ipa_nati_get_index_entry_offset t tbl_entry =
     of_nat (IPA_NAT_INDEX_TABLE_ENTRY_SIZE * unat tbl_entry) + tbl_addr_offset t"

section \<open>The dump\<close>

text \<open>
  \<open>ipa_nat_dump_ipv4_table\<close>, called after each change (\<open>NAT_DUMP\<close> is defined), as the list of the lines it
  prints. The loops over the expansion tables run to \<open>cnt <= expn_table_entries\<close>: the one over the rules reads the
  first 32 bytes of the index table as a rule, the one over the index rules reads the word behind the tables.
  \<open>behind\<close> are the words that can be read there.
\<close>

datatype dump_line = DumpRule nat ipa_nat_sw_rule | DumpIndex nat u16 u16 u16

definition ipa_nati_print_rule :: "ipa_nat_rule \<Rightarrow> nat \<Rightarrow> dump_line" where
  "ipa_nati_print_rule param rule_id = DumpRule rule_id (unpack_rule param)"

definition ipa_nati_print_index_rule :: "u32 \<Rightarrow> nat \<Rightarrow> u16 \<Rightarrow> dump_line" where
  "ipa_nati_print_index_rule param rule_id prev_indx = DumpIndex rule_id (lo16 param) (hi16 param) prev_indx"

definition rule_of_words :: "u32 list \<Rightarrow> ipa_nat_rule" where
  "rule_of_words ws =
     \<lparr>n_private_ip = ws ! 0, n_target_ip = ws ! 1, nxt_indx_pub_port = ws ! 2, n_private_port = lo16 (ws ! 3),
      n_target_port = hi16 (ws ! 3), ip_cksm_enbl = ws ! 4, ts_proto = ws ! 5, sw_spec_params = ws ! 6,
      n_rsvd2 = lo16 (ws ! 7), n_tcp_udp_chksum = hi16 (ws ! 7)\<rparr>"

definition dump_rule :: "u32 list \<Rightarrow> nat_mem \<Rightarrow> nat \<Rightarrow> dump_line list option" where
  "dump_rule behind m a =
     (if a < length (rules m)
      then Some (if rule_enabled (rules m ! a) then [ipa_nati_print_rule (rules m ! a) a] else [])
      else do {
        let k = 8 * (a - length (rules m));
        let ws = index_rules m @ behind;
        enbl \<leftarrow> rd ws (k + 4);
        if Read16BitFieldValue enbl ENABLE_FIELD = 0 then Some []
        else if k + 8 \<le> length ws then Some [ipa_nati_print_rule (rule_of_words (take 8 (drop k ws))) a] else None })"

definition dump_index :: "u32 list \<Rightarrow> nat_mem \<Rightarrow> nat \<Rightarrow> u16 option \<Rightarrow> dump_line list option" where
  "dump_index behind m a prev =
     do { x \<leftarrow> rd (index_rules m @ behind) a;
          if index_tbl_entry x = 0 then Some []
          else do { p \<leftarrow> prev; Some [ipa_nati_print_index_rule x a p] } }"

primrec dump_loop :: "(nat \<Rightarrow> dump_line list option) \<Rightarrow> nat list \<Rightarrow> dump_line list option" where
  "dump_loop f [] = Some []"
| "dump_loop f (cnt # cnts) = do { l \<leftarrow> f cnt; ls \<leftarrow> dump_loop f cnts; Some (l @ ls) }"

definition ipa_nat_dump_ipv4_table :: "'w drv_env \<Rightarrow> u32 \<Rightarrow> 'w ipa_nat_cache \<Rightarrow> dump_line list option" where
  "ipa_nat_dump_ipv4_table env tbl_hdl s =
     (if tbl_hdl = 0 \<or> unat tbl_hdl > IPA_NAT_MAX_IP4_TBLS then Some []
      else do {
        t \<leftarrow> rd (ip4_tbl s) (unat (tbl_hdl - 1));
        m \<leftarrow> deref (tbl_mem t);
        let behind = mem_behind env (drv_world s);
        let T = unat (table_entries t);
        let X = unat (expn_table_entries t);
        a \<leftarrow> dump_loop (dump_rule behind m) [0..<T];
        b \<leftarrow> dump_loop (\<lambda>cnt. dump_rule behind m (T + cnt)) [0..<X + 1];
        c \<leftarrow> dump_loop (\<lambda>cnt. dump_index behind m cnt (Some 0)) [0..<T];
        d \<leftarrow> dump_loop (\<lambda>cnt. dump_index behind m (T + cnt) (index_expn_table_meta t \<bind> (\<lambda>meta. rd meta cnt))) [0..<X + 1];
        Some (a @ b @ c @ d) })"

section \<open>Adding a rule\<close>

text \<open>
  The loop that finds the last entry of a chain, the same in \<open>ipa_nati_generate_tbl_rule\<close> and in
  \<open>ipa_nati_generate_index_rule\<close>: \<open>rd_next\<close> reads the next index of an entry of the expansion table. The inner
  \<open>None\<close> is the error return on an entry that links to itself.
\<close>

partial_function (option) last_in_chain :: "(u16 \<Rightarrow> u16 option) \<Rightarrow> u16 \<Rightarrow> u16 \<Rightarrow> u16 option option" where
  "last_in_chain rd_next prev nxt_indx =
     (if nxt_indx = IPA_NAT_INVALID_NAT_ENTRY then Some (Some prev)
      else do { n \<leftarrow> rd_next nxt_indx;
                if nxt_indx = n then Some None else last_in_chain rd_next nxt_indx n })"

declare last_in_chain.simps [code]

primrec first_free :: "(nat \<Rightarrow> bool option) \<Rightarrow> nat list \<Rightarrow> u16 option" where
  "first_free used [] = Some 0"
| "first_free used (cnt # cnts) =
     do { u \<leftarrow> used cnt; if \<not> u then Some (of_nat cnt) else first_free used cnts }"

definition ipa_nati_expn_tbl_free_entry :: "ipa_nat_ip4_table_cache \<Rightarrow> nat_mem \<Rightarrow> u16 option" where
  "ipa_nati_expn_tbl_free_entry t m =
     first_free (\<lambda>cnt. map_option rule_enabled (rd (rules m) (unat (table_entries t) + cnt)))
       [1..<unat (expn_table_entries t)]"

definition ipa_nati_index_expn_get_free_entry :: "ipa_nat_ip4_table_cache \<Rightarrow> nat_mem \<Rightarrow> u16 option" where
  "ipa_nati_index_expn_get_free_entry t m =
     first_free (\<lambda>cnt. map_option (\<lambda>x. index_tbl_entry x \<noteq> 0) (rd (index_rules m) (unat (table_entries t) + cnt)))
       [1..<unat (expn_table_entries t)]"

text \<open>The fields that \<open>ipa_nati_generate_tbl_rule\<close> fills in before it looks for a place.\<close>

definition fill_sw_rule :: "u32 \<Rightarrow> ipa_nat_ipv4_rule \<Rightarrow> ipa_nat_sw_rule \<Rightarrow> ipa_nat_sw_rule" where
  "fill_sw_rule pub_addr clnt_rule sw_rule =
     (let sw_rule = sw_rule\<lparr>s_private_ip := r_private_ip clnt_rule, s_private_port := r_private_port clnt_rule,
            s_protocol := r_protocol clnt_rule, s_public_port := r_public_port clnt_rule,
            s_target_ip := r_target_ip clnt_rule, s_target_port := r_target_port clnt_rule,
            s_ip_chksum := ipa_nati_calc_ip_cksum pub_addr (r_private_ip clnt_rule)\<rparr>;
          sw_rule = (if s_protocol sw_rule = IPPROTO_TCP \<or> s_protocol sw_rule = IPPROTO_UDP
            then sw_rule\<lparr>s_tcp_udp_chksum := ipa_nati_calc_tcp_udp_cksum pub_addr (r_public_port clnt_rule)
                   (r_private_ip clnt_rule) (r_private_port clnt_rule)\<rparr>
            else sw_rule)
      in sw_rule\<lparr>s_rsvd1 := 0, s_enable := 0, s_next_index := 0, s_time_stamp := 0, s_rsvd2 := 0, s_prev_index := 0,
           s_indx_tbl_entry := 0\<rparr>)"

definition ipa_nati_generate_tbl_rule ::
  "ipa_nat_ipv4_rule \<Rightarrow> ipa_nat_sw_rule \<Rightarrow> ipa_nat_ip4_table_cache \<Rightarrow> nat_mem \<Rightarrow> (u16 \<times> ipa_nat_sw_rule) option" where
  "ipa_nati_generate_tbl_rule clnt_rule sw_rule t m =
     do { let sw_rule = fill_sw_rule (public_addr t) clnt_rule sw_rule;
          let new_entry = dst_hash (r_target_ip clnt_rule) (r_target_port clnt_rule) (r_public_port clnt_rule)
                (r_protocol clnt_rule) (table_entries t - 1);
          r \<leftarrow> rd (rules m) (addr_of t False new_entry);
          if \<not> rule_enabled r then Some (new_entry, sw_rule\<lparr>s_prev_index := 0\<rparr>)
          else do {
            prev \<leftarrow> (if next_index r = IPA_NAT_INVALID_NAT_ENTRY then Some (Some new_entry)
                     else last_in_chain
                       (\<lambda>e. map_option next_index (rd (rules m) (addr_of t True (e - table_entries t)))) 0 (next_index r));
            case prev of
              None \<Rightarrow> Some (IPA_NAT_INVALID_NAT_ENTRY, sw_rule)
            | Some prev \<Rightarrow>
                do { let sw_rule = sw_rule\<lparr>s_prev_index := prev\<rparr>;
                     new_entry \<leftarrow> ipa_nati_expn_tbl_free_entry t m;
                     if new_entry = IPA_NAT_INVALID_NAT_ENTRY then Some (IPA_NAT_INVALID_NAT_ENTRY, sw_rule)
                     else Some (new_entry + table_entries t, sw_rule) } } }"

definition ipa_nati_generate_index_rule ::
  "ipa_nat_ipv4_rule \<Rightarrow> ipa_nat_indx_tbl_sw_rule \<Rightarrow> ipa_nat_ip4_table_cache \<Rightarrow> nat_mem \<Rightarrow>
     (u16 \<times> ipa_nat_indx_tbl_sw_rule) option" where
  "ipa_nati_generate_index_rule clnt_rule sw_rule t m =
     do { let new_entry = src_hash (r_private_ip clnt_rule) (r_private_port clnt_rule) (r_target_ip clnt_rule)
                (r_target_port clnt_rule) (r_protocol clnt_rule) (table_entries t - 1);
          x \<leftarrow> rd (index_rules m) (addr_of t False new_entry);
          if index_tbl_entry x = 0 then Some (new_entry, sw_rule\<lparr>x_prev_index := 0\<rparr>)
          else do {
            prev \<leftarrow> (if index_next x = IPA_NAT_INVALID_NAT_ENTRY then Some (Some new_entry)
                     else last_in_chain
                       (\<lambda>e. map_option index_next (rd (index_rules m) (addr_of t True (e - table_entries t)))) 0 (index_next x));
            case prev of
              None \<Rightarrow> Some (IPA_NAT_INVALID_NAT_ENTRY, sw_rule)
            | Some prev \<Rightarrow>
                do { let sw_rule = sw_rule\<lparr>x_prev_index := prev\<rparr>;
                     new_entry \<leftarrow> ipa_nati_index_expn_get_free_entry t m;
                     if new_entry = IPA_NAT_INVALID_NAT_ENTRY then Some (IPA_NAT_INVALID_NAT_ENTRY, sw_rule)
                     else if x_prev_index sw_rule = new_entry + table_entries t
                     then Some (IPA_NAT_INVALID_NAT_ENTRY, sw_rule)
                     else Some (new_entry + table_entries t, sw_rule) } } }"

text \<open>\<open>ipa_nati_generate_rule\<close>: \<open>None\<close> inside is \<open>-EINVAL\<close>; the previous index of a new entry of the
  index expansion table is stored in \<open>index_expn_table_meta\<close>.\<close>

definition ipa_nati_generate_rule ::
  "ipa_nat_ipv4_rule \<Rightarrow> ipa_nat_ip4_table_cache \<Rightarrow> nat_mem \<Rightarrow>
     ((ipa_nat_sw_rule \<times> ipa_nat_indx_tbl_sw_rule \<times> u16 \<times> u16 \<times> ipa_nat_ip4_table_cache) option) option" where
  "ipa_nati_generate_rule clnt_rule t m =
     do { (tbl_entry, rule) \<leftarrow> ipa_nati_generate_tbl_rule clnt_rule zero_sw_rule t m;
          if tbl_entry = IPA_NAT_INVALID_NAT_ENTRY then Some None
          else do {
            (indx_entry, index_sw_rule) \<leftarrow>
              ipa_nati_generate_index_rule clnt_rule (zero_index_sw_rule\<lparr>x_tbl_entry := tbl_entry\<rparr>) t m;
            if indx_entry = IPA_NAT_INVALID_NAT_ENTRY then Some None
            else do {
              let rule = rule\<lparr>s_indx_tbl_entry := indx_entry\<rparr>;
              t \<leftarrow> (if indx_entry \<ge> table_entries t
                    then do { meta \<leftarrow> index_expn_table_meta t;
                              meta \<leftarrow> wr meta (unat (indx_entry - table_entries t)) (x_prev_index index_sw_rule);
                              Some (t\<lparr>index_expn_table_meta := Some meta\<rparr>) }
                    else Some t);
              Some (Some (rule, index_sw_rule, tbl_entry, indx_entry, t)) } } }"

text \<open>\<open>ipa_nati_write_next_index\<close>: a failing \<open>malloc\<close> or \<open>ioctl\<close> is only logged.\<close>

definition ipa_nati_write_next_index ::
  "'w drv_env \<Rightarrow> u8 \<Rightarrow> nat_table_type \<Rightarrow> u16 \<Rightarrow> u32 \<Rightarrow> nat_mem \<Rightarrow> 'w \<Rightarrow> nat_mem \<times> 'w" where
  "ipa_nati_write_next_index env tbl_indx tbl_type val offset m w =
     (let (ok, w) = drv_malloc env w in
      if \<not> ok then (m, w)
      else let (_, m, w) = ioctl_dma env [\<lparr>dma_table_index = tbl_indx, dma_base_addr = tbl_type,
                               dma_offset = offset, dma_data = val\<rparr>] m w
           in (m, w))"

definition ipa_nati_copy_ipv4_rule_to_hw ::
  "'w drv_env \<Rightarrow> ipa_nat_ip4_table_cache \<Rightarrow> ipa_nat_sw_rule \<Rightarrow> u16 \<Rightarrow> u8 \<Rightarrow> nat_mem \<Rightarrow> 'w \<Rightarrow> (nat_mem \<times> 'w) option" where
  "ipa_nati_copy_ipv4_rule_to_hw env t rule entry tbl_index m w =
     do { rs \<leftarrow> wr (rules m) (place t entry) (pack_rule rule);
          let m = m\<lparr>rules := rs\<rparr>;
          let prev_entry = s_prev_index rule;
          if prev_entry = IPA_NAT_INVALID_NAT_ENTRY then Some (m, w)
          else
            let tbl_type = (if prev_entry < table_entries t then IPA_NAT_BASE_TBL else IPA_NAT_EXPN_TBL);
                prev_entry = (if prev_entry < table_entries t then prev_entry else prev_entry - table_entries t);
                offset = ipa_nati_get_entry_offset t prev_entry + IPA_NAT_RULE_NEXT_FIELD_OFFSET
            in Some (ipa_nati_write_next_index env tbl_index tbl_type entry offset m w) }"

text \<open>\<open>offset\<close> is a \<open>uint16_t\<close> here.\<close>

definition ipa_nati_copy_ipv4_index_rule_to_hw ::
  "'w drv_env \<Rightarrow> ipa_nat_ip4_table_cache \<Rightarrow> ipa_nat_indx_tbl_sw_rule \<Rightarrow> u16 \<Rightarrow> u8 \<Rightarrow> nat_mem \<Rightarrow> 'w \<Rightarrow>
     (nat_mem \<times> 'w) option" where
  "ipa_nati_copy_ipv4_index_rule_to_hw env t indx_sw_rule entry tbl_index m w =
     do { xs \<leftarrow> wr (index_rules m) (place t entry) (join16 (x_tbl_entry indx_sw_rule) (x_next_index indx_sw_rule));
          let m = m\<lparr>index_rules := xs\<rparr>;
          let prev_entry = x_prev_index indx_sw_rule;
          if prev_entry = IPA_NAT_INVALID_NAT_ENTRY then Some (m, w)
          else
            let tbl_type = (if prev_entry < table_entries t then IPA_NAT_INDX_TBL else IPA_NAT_INDEX_EXPN_TBL);
                prev_entry = (if prev_entry < table_entries t then prev_entry else prev_entry - table_entries t);
                offset = (ucast (ipa_nati_get_index_entry_offset t prev_entry) :: u16);
                offset = offset + ucast IPA_NAT_INDEX_RULE_NEXT_FIELD_OFFSET
            in Some (ipa_nati_write_next_index env tbl_index tbl_type entry (ucast offset) m w) }"

definition ipa_nati_post_ipv4_dma_cmd ::
  "'w drv_env \<Rightarrow> ipa_nat_ip4_table_cache \<Rightarrow> u8 \<Rightarrow> u16 \<Rightarrow> nat_mem \<Rightarrow> 'w \<Rightarrow> int \<times> nat_mem \<times> 'w" where
  "ipa_nati_post_ipv4_dma_cmd env t tbl_indx entry m w =
     (let (ok, w) = drv_malloc env w in
      if \<not> ok then (- ENOMEM, m, w)
      else
        let offset = tbl_addr_offset t;
            cmd = (if entry < table_entries t
              then \<lparr>dma_table_index = tbl_indx, dma_base_addr = IPA_NAT_BASE_TBL,
                    dma_offset = of_nat (IPA_NAT_TABLE_ENTRY_SIZE * unat entry) + IPA_NAT_RULE_FLAG_FIELD_OFFSET,
                    dma_data = IPA_NAT_FLAG_ENABLE_BIT_MASK\<rparr>
              else \<lparr>dma_table_index = tbl_indx, dma_base_addr = IPA_NAT_EXPN_TBL,
                    dma_offset = of_nat (IPA_NAT_TABLE_ENTRY_SIZE * unat (entry - table_entries t)) +
                      IPA_NAT_RULE_FLAG_FIELD_OFFSET + offset,
                    dma_data = IPA_NAT_FLAG_ENABLE_BIT_MASK\<rparr>);
            (ret, m, w) = ioctl_dma env [cmd] m w
        in if ret \<noteq> 0 then (- EIO, m, w) else (0, m, w))"

text \<open>\<open>ipa_nati_add_ipv4_rule\<close>: the return value, \<open>*rule_hdl\<close> and the new state.\<close>

definition ipa_nati_add_ipv4_rule ::
  "'w drv_env \<Rightarrow> u32 \<Rightarrow> ipa_nat_ipv4_rule \<Rightarrow> u32 \<Rightarrow> 'w ipa_nat_cache \<Rightarrow> (int \<times> u32 \<times> 'w ipa_nat_cache) option" where
  "ipa_nati_add_ipv4_rule env tbl_hdl clnt_rule hdl s =
     do { let indx = unat (tbl_hdl - 1);
          t \<leftarrow> rd (ip4_tbl s) indx;
          m \<leftarrow> deref (tbl_mem t);
          g \<leftarrow> ipa_nati_generate_rule clnt_rule t m;
          case g of
            None \<Rightarrow> Some (- EINVAL, hdl, s)
          | Some (sw_rule, index_sw_rule, new_entry, new_index_tbl_entry, t) \<Rightarrow>
              do { (m, w) \<leftarrow> ipa_nati_copy_ipv4_rule_to_hw env t sw_rule new_entry (ucast (tbl_hdl - 1)) m (drv_world s);
                   (m, w) \<leftarrow> ipa_nati_copy_ipv4_index_rule_to_hw env t index_sw_rule new_index_tbl_entry
                               (ucast (tbl_hdl - 1)) m w;
                   let (ret, m, w) = ipa_nati_post_ipv4_dma_cmd env t (ucast (tbl_hdl - 1)) new_entry m w;
                   let t = t\<lparr>tbl_mem := Mapped m\<rparr>;
                   if ret \<noteq> 0 then Some (- EIO, hdl, s\<lparr>ip4_tbl := (ip4_tbl s)[indx := t], drv_world := w\<rparr>)
                   else do {
                     (h, t) \<leftarrow> ipa_nati_make_rule_hdl new_entry t;
                     let s = s\<lparr>ip4_tbl := (ip4_tbl s)[indx := t], drv_world := w\<rparr>;
                     if h = 0 then Some (- EINVAL, ucast h, s)
                     else do { dump \<leftarrow> ipa_nat_dump_ipv4_table env tbl_hdl s; Some (0, ucast h, s) } } } }"

section \<open>Deleting a rule\<close>

definition ipa_nati_find_rule_pos :: "ipa_nat_ip4_table_cache \<Rightarrow> bool \<Rightarrow> u16 \<Rightarrow> nat_mem \<Rightarrow> del_type option" where
  "ipa_nati_find_rule_pos t expn_tbl tbl_entry m =
     do { r \<leftarrow> rd (rules m) (addr_of t expn_tbl tbl_entry);
          Some (if expn_tbl
                then (if next_index r = IPA_NAT_INVALID_NAT_ENTRY then IPA_NAT_DEL_TYPE_LAST else IPA_NAT_DEL_TYPE_MIDDLE)
                else (if next_index r = IPA_NAT_INVALID_NAT_ENTRY then IPA_NAT_DEL_TYPE_ONLY_ONE else IPA_NAT_DEL_TYPE_HEAD)) }"

definition ipa_nati_find_index_rule_pos :: "ipa_nat_ip4_table_cache \<Rightarrow> u16 \<Rightarrow> nat_mem \<Rightarrow> del_type option" where
  "ipa_nati_find_index_rule_pos t tbl_entry m =
     do { x \<leftarrow> rd (index_rules m) (place t tbl_entry);
          Some (if tbl_entry \<ge> table_entries t
                then (if index_next x = IPA_NAT_INVALID_NAT_ENTRY then IPA_NAT_DEL_TYPE_LAST else IPA_NAT_DEL_TYPE_MIDDLE)
                else (if index_next x = IPA_NAT_INVALID_NAT_ENTRY then IPA_NAT_DEL_TYPE_ONLY_ONE else IPA_NAT_DEL_TYPE_HEAD)) }"

text \<open>\<open>ReorderCmds\<close>: the commands of the index table first; nothing happens when \<open>malloc\<close> fails.\<close>

definition is_index_cmd :: "nat_dma_one \<Rightarrow> bool" where
  "is_index_cmd d \<longleftrightarrow> dma_base_addr d = IPA_NAT_INDX_TBL \<or> dma_base_addr d = IPA_NAT_INDEX_EXPN_TBL"

definition ReorderCmds :: "'w drv_env \<Rightarrow> nat_dma_one list \<Rightarrow> 'w \<Rightarrow> nat_dma_one list \<times> 'w" where
  "ReorderCmds env cmd w =
     (let indx_tbl_start = find_idx (\<lambda>cnt. is_index_cmd (cmd ! cnt)) (length cmd);
          indx_tbl_start = (if indx_tbl_start < length cmd then indx_tbl_start else 0)
      in if indx_tbl_start = 0 then (cmd, w)
         else let (ok, w) = drv_malloc env w in
           if \<not> ok then (cmd, w) else (drop indx_tbl_start cmd @ take indx_tbl_start cmd, w))"

text \<open>
  \<open>ipa_nati_post_del_dma_cmd\<close> in its three parts. First the command that takes the rule out of its
  chain: the only rule of a chain is disabled, a head with followers gets an invalid protocol, any
  other rule is unlinked from the entry before it.
\<close>

definition unlink_cmd :: "ipa_nat_ip4_table_cache \<Rightarrow> u8 \<Rightarrow> u16 \<Rightarrow> u16 \<Rightarrow> nat_dma_one" where
  "unlink_cmd t tbl_indx prev_entry val =
     (let base_addr = (if prev_entry \<ge> table_entries t then IPA_NAT_EXPN_TBL else IPA_NAT_BASE_TBL);
          prev_entry = (if prev_entry \<ge> table_entries t then prev_entry - table_entries t else prev_entry)
      in \<lparr>dma_table_index = tbl_indx, dma_base_addr = base_addr,
          dma_offset = ipa_nati_get_entry_offset t prev_entry + IPA_NAT_RULE_NEXT_FIELD_OFFSET, dma_data = val\<rparr>)"

definition del_rule_cmd :: "ipa_nat_ip4_table_cache \<Rightarrow> u8 \<Rightarrow> u16 \<Rightarrow> ipa_nat_rule \<Rightarrow> del_type \<Rightarrow> nat_dma_one" where
  "del_rule_cmd t tbl_indx cur_tbl_entry r rule_pos =
     (case rule_pos of
        IPA_NAT_DEL_TYPE_ONLY_ONE \<Rightarrow>
          \<lparr>dma_table_index = tbl_indx, dma_base_addr = IPA_NAT_BASE_TBL,
           dma_offset = ipa_nati_get_entry_offset t cur_tbl_entry + IPA_NAT_RULE_FLAG_FIELD_OFFSET,
           dma_data = IPA_NAT_FLAG_DISABLE_BIT_MASK\<rparr>
      | IPA_NAT_DEL_TYPE_HEAD \<Rightarrow>
          \<lparr>dma_table_index = tbl_indx, dma_base_addr = IPA_NAT_BASE_TBL,
           dma_offset = ipa_nati_get_entry_offset t cur_tbl_entry + IPA_NAT_RULE_PROTO_FIELD_OFFSET,
           dma_data = IPA_NAT_INVALID_PROTO_FIELD_VALUE\<rparr>
      | IPA_NAT_DEL_TYPE_MIDDLE \<Rightarrow> unlink_cmd t tbl_indx (prev_index r) (next_index r)
      | IPA_NAT_DEL_TYPE_LAST \<Rightarrow> unlink_cmd t tbl_indx (prev_index r) IPA_NAT_INVALID_NAT_ENTRY)"

text \<open>Then the commands for the index table, where a head with followers takes over the values of the second
  entry of its chain.\<close>

definition index_cmd :: "ipa_nat_ip4_table_cache \<Rightarrow> u8 \<Rightarrow> u16 \<Rightarrow> u32 \<Rightarrow> u16 \<Rightarrow> nat_dma_one" where
  "index_cmd t tbl_indx entry field val =
     \<lparr>dma_table_index = tbl_indx, dma_base_addr = IPA_NAT_INDX_TBL,
      dma_offset = ipa_nati_get_index_entry_offset t entry + field, dma_data = val\<rparr>"

definition unlink_index_cmd :: "ipa_nat_ip4_table_cache \<Rightarrow> u8 \<Rightarrow> u16 \<Rightarrow> u16 \<Rightarrow> nat_dma_one" where
  "unlink_index_cmd t tbl_indx prev_entry val =
     (let base_addr = (if prev_entry \<ge> table_entries t then IPA_NAT_INDEX_EXPN_TBL else IPA_NAT_INDX_TBL);
          prev_entry = (if prev_entry \<ge> table_entries t then prev_entry - table_entries t else prev_entry)
      in \<lparr>dma_table_index = tbl_indx, dma_base_addr = base_addr,
          dma_offset = ipa_nati_get_index_entry_offset t prev_entry + IPA_NAT_INDEX_RULE_NEXT_FIELD_OFFSET, dma_data = val\<rparr>)"

definition del_index_cmds ::
  "ipa_nat_ip4_table_cache \<Rightarrow> u8 \<Rightarrow> u16 \<Rightarrow> del_type \<Rightarrow> nat_mem \<Rightarrow> nat_dma_one list option" where
  "del_index_cmds t tbl_indx indx_entry indx_rule_pos m =
     do { x \<leftarrow> rd (index_rules m) (place t indx_entry);
          let own = (if indx_entry \<ge> table_entries t then indx_entry - table_entries t else indx_entry);
          case indx_rule_pos of
            IPA_NAT_DEL_TYPE_ONLY_ONE \<Rightarrow>
              Some [index_cmd t tbl_indx own IPA_NAT_INDEX_RULE_NAT_INDEX_FIELD_OFFSET IPA_NAT_INVALID_NAT_ENTRY]
          | IPA_NAT_DEL_TYPE_HEAD \<Rightarrow>
              do { y \<leftarrow> rd (index_rules m) (addr_of t True (index_next x - table_entries t));
                   Some [index_cmd t tbl_indx own IPA_NAT_INDEX_RULE_NAT_INDEX_FIELD_OFFSET (index_tbl_entry y),
                         index_cmd t tbl_indx own IPA_NAT_INDEX_RULE_NEXT_FIELD_OFFSET (index_next y)] }
          | IPA_NAT_DEL_TYPE_MIDDLE \<Rightarrow>
              do { meta \<leftarrow> index_expn_table_meta t; prev_entry \<leftarrow> rd meta (unat own);
                   Some [unlink_index_cmd t tbl_indx prev_entry (index_next x)] }
          | IPA_NAT_DEL_TYPE_LAST \<Rightarrow>
              do { meta \<leftarrow> index_expn_table_meta t; prev_entry \<leftarrow> rd meta (unat own);
                   Some [unlink_index_cmd t tbl_indx prev_entry IPA_NAT_INVALID_NAT_ENTRY] } }"

text \<open>After the commands: the previous index of the rule behind a deleted one, and the zeroing of the deleted
  rule.\<close>

definition reset_rule :: "ipa_nat_ip4_table_cache \<Rightarrow> u16 \<Rightarrow> bool \<Rightarrow> del_type \<Rightarrow> nat_mem \<Rightarrow> nat_mem option" where
  "reset_rule t cur_tbl_entry expn_tbl rule_pos m =
     do { (m, expn_tbl) \<leftarrow>
            (if rule_pos = IPA_NAT_DEL_TYPE_MIDDLE
             then do { r \<leftarrow> rd (rules m) (addr_of t expn_tbl cur_tbl_entry);
                       let nx = addr_of t True (next_index r - table_entries t);
                       n \<leftarrow> rd (rules m) nx;
                       rs \<leftarrow> wr (rules m) nx (n\<lparr>sw_spec_params :=
                         UpdateSwSpecParams (sw_spec_params n) IPA_NAT_SW_PARAM_PREV_INDX_BYTE (ucast (prev_index r))\<rparr>);
                       Some (m\<lparr>rules := rs\<rparr>, True) }
             else Some (m, expn_tbl));
          if rule_pos \<noteq> IPA_NAT_DEL_TYPE_HEAD
          then do { rs \<leftarrow> wr (rules m) (addr_of t expn_tbl cur_tbl_entry) zero_rule; Some (m\<lparr>rules := rs\<rparr>) }
          else Some m }"

text \<open>The index entry: at a head, the second entry of the chain has moved to the head (\<open>next_entry\<close> was
  read before the commands); otherwise the entry itself is cleared.\<close>

definition reset_index_head ::
  "ipa_nat_ip4_table_cache \<Rightarrow> u16 \<Rightarrow> u16 \<Rightarrow> nat_mem \<Rightarrow> (ipa_nat_ip4_table_cache \<times> nat_mem) option" where
  "reset_index_head t own indx_next_entry m =
     do { y \<leftarrow> rd (index_rules m) (addr_of t True indx_next_entry);
          let nn = index_next y;
          t \<leftarrow> (if nn \<noteq> 0 \<and> nn \<ge> table_entries t
                then do { meta \<leftarrow> index_expn_table_meta t; meta \<leftarrow> wr meta (unat (nn - table_entries t)) own;
                          Some (t\<lparr>index_expn_table_meta := Some meta\<rparr>) }
                else Some t);
          xs \<leftarrow> wr (index_rules m) (addr_of t True indx_next_entry) 0;
          let m = m\<lparr>index_rules := xs\<rparr>;
          x \<leftarrow> rd (index_rules m) (addr_of t False own);
          let p = place t (index_tbl_entry x);
          r \<leftarrow> rd (rules m) p;
          rs \<leftarrow> wr (rules m) p (r\<lparr>sw_spec_params :=
            UpdateSwSpecParams (sw_spec_params r) IPA_NAT_SW_PARAM_INDX_TBL_ENTRY_BYTE (ucast own)\<rparr>);
          Some (t, m\<lparr>rules := rs\<rparr>) }"

definition reset_index_other ::
  "ipa_nat_ip4_table_cache \<Rightarrow> u16 \<Rightarrow> u16 \<Rightarrow> del_type \<Rightarrow> nat_mem \<Rightarrow> (ipa_nat_ip4_table_cache \<times> nat_mem) option" where
  "reset_index_other t indx_entry own indx_rule_pos m =
     do { x \<leftarrow> rd (index_rules m) (place t indx_entry);
          t \<leftarrow> (if indx_rule_pos = IPA_NAT_DEL_TYPE_MIDDLE
                then do { let next_entry = (if index_next x \<ge> table_entries t then index_next x - table_entries t else index_next x);
                          meta \<leftarrow> index_expn_table_meta t; prev_entry \<leftarrow> rd meta (unat own);
                          meta \<leftarrow> wr meta (unat next_entry) prev_entry;
                          meta \<leftarrow> wr meta (unat own) IPA_NAT_INVALID_NAT_ENTRY;
                          Some (t\<lparr>index_expn_table_meta := Some meta\<rparr>) }
                else Some t);
          xs \<leftarrow> wr (index_rules m) (place t indx_entry) 0;
          Some (t, m\<lparr>index_rules := xs\<rparr>) }"

definition ipa_nati_post_del_dma_cmd ::
  "'w drv_env \<Rightarrow> ipa_nat_ip4_table_cache \<Rightarrow> u8 \<Rightarrow> u16 \<Rightarrow> bool \<Rightarrow> del_type \<Rightarrow> nat_mem \<Rightarrow> 'w \<Rightarrow>
     (int \<times> ipa_nat_ip4_table_cache \<times> nat_mem \<times> 'w) option" where
  "ipa_nati_post_del_dma_cmd env t tbl_indx cur_tbl_entry expn_tbl rule_pos m w =
     do { let (ok, w) = drv_malloc env w;
          if \<not> ok then Some (- ENOMEM, t, m, w)
          else do {
            r \<leftarrow> rd (rules m) (addr_of t expn_tbl cur_tbl_entry);
            if \<not> rule_enabled r then Some (- EINVAL, t, m, w)
            else do {
              let indx_entry = indx_tbl_entry r;
              indx_rule_pos \<leftarrow> ipa_nati_find_index_rule_pos t indx_entry m;
              let own = (if indx_entry \<ge> table_entries t then indx_entry - table_entries t else indx_entry);
              x \<leftarrow> rd (index_rules m) (place t indx_entry);
              let indx_next_entry = index_next x - table_entries t;
              icmds \<leftarrow> del_index_cmds t tbl_indx indx_entry indx_rule_pos m;
              let (cmds, w) = ReorderCmds env (del_rule_cmd t tbl_indx cur_tbl_entry r rule_pos # icmds) w;
              let (ret, m, w) = ioctl_dma env cmds m w;
              if ret \<noteq> 0 then Some (- EIO, t, m, w)
              else do {
                m \<leftarrow> reset_rule t cur_tbl_entry expn_tbl rule_pos m;
                (t, m) \<leftarrow> (if indx_rule_pos = IPA_NAT_DEL_TYPE_HEAD then reset_index_head t own indx_next_entry m
                           else reset_index_other t indx_entry own indx_rule_pos m);
                Some (0, t, m, w) } } } }"

definition is_dead_head :: "ipa_nat_rule \<Rightarrow> bool" where
  "is_dead_head r \<longleftrightarrow> rule_protocol r = IPA_NAT_INVALID_PROTO_FIELD_CMP \<and> next_index r = IPA_NAT_INVALID_NAT_ENTRY"

definition ipa_nati_del_dead_ipv4_head_nodes :: "ipa_nat_ip4_table_cache \<Rightarrow> nat_mem \<Rightarrow> nat_mem option" where
  "ipa_nati_del_dead_ipv4_head_nodes t m =
     (if unat (table_entries t) \<le> length (rules m)
      then Some (m\<lparr>rules := for_upto (unat (table_entries t))
             (\<lambda>cnt rs. if is_dead_head (rs ! cnt) then rs[cnt := zero_rule] else rs) (rules m)\<rparr>)
      else None)"

text \<open>\<open>ipa_nati_del_ipv4_rule\<close>. The handle is parsed as a \<open>uint16_t\<close>, but all of it indexes
  \<open>rule_id_array\<close> at the end.\<close>

definition ipa_nati_del_ipv4_rule :: "'w drv_env \<Rightarrow> u32 \<Rightarrow> u32 \<Rightarrow> 'w ipa_nat_cache \<Rightarrow> (int \<times> 'w ipa_nat_cache) option" where
  "ipa_nati_del_ipv4_rule env tbl_hdl hdl s =
     do { let tbl_indx = (ucast (tbl_hdl - 1) :: u8);
          t \<leftarrow> rd (ip4_tbl s) (unat tbl_indx);
          (expn_tbl, tbl_entry) \<leftarrow> ipa_nati_parse_ipv4_rule_hdl t (ucast hdl);
          if tbl_entry = IPA_NAT_INVALID_NAT_ENTRY then Some (- EINVAL, s)
          else do {
            let (locked, w) = mutex_lock env (drv_world s);
            if locked \<noteq> 0 then Some (- 1, s\<lparr>drv_world := w\<rparr>)
            else if \<not> valid t then Some (- EINVAL, s\<lparr>drv_world := snd (mutex_unlock env w)\<rparr>)
            else do {
              m \<leftarrow> deref (tbl_mem t);
              rule_pos \<leftarrow> ipa_nati_find_rule_pos t expn_tbl tbl_entry m;
              (ret, t, m, w) \<leftarrow> ipa_nati_post_del_dma_cmd env t tbl_indx tbl_entry expn_tbl rule_pos m w;
              if ret \<noteq> 0
              then Some (- EINVAL, s\<lparr>ip4_tbl := (ip4_tbl s)[unat tbl_indx := t\<lparr>tbl_mem := Mapped m\<rparr>],
                           drv_world := snd (mutex_unlock env w)\<rparr>)
              else do {
                m \<leftarrow> ipa_nati_del_dead_ipv4_head_nodes t m;
                ids \<leftarrow> rule_id_array t;
                ids \<leftarrow> wr ids (unat (hdl - 1)) IPA_NAT_INVALID_NAT_ENTRY;
                let s = s\<lparr>ip4_tbl := (ip4_tbl s)[unat tbl_indx := t\<lparr>tbl_mem := Mapped m, rule_id_array := Some ids\<rparr>],
                          drv_world := w\<rparr>;
                dump \<leftarrow> ipa_nat_dump_ipv4_table env tbl_hdl s;
                let (unlocked, w) = mutex_unlock env w;
                Some (if unlocked \<noteq> 0 then - 1 else 0, s\<lparr>drv_world := w\<rparr>) } } } }"

section \<open>Reading the tables\<close>

text \<open>\<open>ipa_nati_query_timestamp\<close>: the return value, \<open>*time_stamp\<close> and the world.\<close>

definition ipa_nati_query_timestamp ::
  "'w drv_env \<Rightarrow> u32 \<Rightarrow> u32 \<Rightarrow> u32 \<Rightarrow> 'w ipa_nat_cache \<Rightarrow> (int \<times> u32 \<times> 'w ipa_nat_cache) option" where
  "ipa_nati_query_timestamp env tbl_hdl hdl time_stamp s =
     do { t \<leftarrow> rd (ip4_tbl s) (unat (ucast (tbl_hdl - 1) :: u8));
          if \<not> valid t then Some (- EINVAL, time_stamp, s)
          else do {
            let (locked, w) = mutex_lock env (drv_world s);
            if locked \<noteq> 0 then Some (- 1, time_stamp, s\<lparr>drv_world := w\<rparr>)
            else do {
              (expn_tbl, tbl_entry) \<leftarrow> ipa_nati_parse_ipv4_rule_hdl t (ucast hdl);
              time_stamp \<leftarrow> (case tbl_mem t of
                  NullPtr \<Rightarrow> Some time_stamp
                | Unmapped \<Rightarrow> None
                | Mapped m \<Rightarrow> map_option (\<lambda>r. Read32BitFieldValue (ts_proto r) TIME_STAMP_FIELD)
                              (rd (rules m) (addr_of t expn_tbl tbl_entry)));
              let (unlocked, w) = mutex_unlock env w;
              Some (if unlocked \<noteq> 0 then - 1 else 0, time_stamp, s\<lparr>drv_world := w\<rparr>) } } }"

text \<open>\<open>ipa_nati_query_nat_rules\<close>: the number of rules in use in one of the four tables.\<close>

definition ipa_nati_query_nat_rules :: "u32 \<Rightarrow> nat_table_type \<Rightarrow> 'w ipa_nat_cache \<Rightarrow> nat option" where
  "ipa_nati_query_nat_rules tbl_hdl tbl_type s =
     (if tbl_hdl = 0 \<or> unat tbl_hdl > IPA_NAT_MAX_IP4_TBLS then Some 0
      else do {
        t \<leftarrow> rd (ip4_tbl s) (unat (tbl_hdl - 1));
        m \<leftarrow> deref (tbl_mem t);
        let T = unat (table_entries t);
        let X = unat (expn_table_entries t);
        if T + X \<le> length (rules m) \<and> T + X \<le> length (index_rules m)
        then Some (case tbl_type of
            IPA_NAT_BASE_TBL \<Rightarrow> length (filter (\<lambda>cnt. rule_enabled (rules m ! cnt)) [0..<T])
          | IPA_NAT_EXPN_TBL \<Rightarrow> length (filter (\<lambda>cnt. rule_enabled (rules m ! (T + cnt))) [0..<X])
          | IPA_NAT_INDX_TBL \<Rightarrow> length (filter (\<lambda>cnt. index_tbl_entry (index_rules m ! cnt) \<noteq> 0) [0..<T])
          | IPA_NAT_INDEX_EXPN_TBL \<Rightarrow> length (filter (\<lambda>cnt. index_tbl_entry (index_rules m ! (T + cnt)) \<noteq> 0) [0..<X]))
        else None })"

section \<open>Tables\<close>

text \<open>
  \<open>ipa_nati_alloc_table\<close>: the products with the \<open>double\<close> constants .8 and .2, truncated, are \<open>4 * n div 5\<close>
  and \<open>n div 5\<close> for every \<open>n < 65536\<close>. The result is the return value, \<open>mem->size\<close>, \<open>mem->offset\<close>,
  \<open>*table_entries\<close> and \<open>*expn_table_entries\<close>.
\<close>

definition tbl_sizes :: "u16 \<Rightarrow> int \<times> u16 \<times> u16" where
  "tbl_sizes number_of_entries =
     (let T = (of_nat (4 * unat number_of_entries div 5) :: u16);
          T = (if T = 0 then 1 else T);
          (ret, T) = GetNearest2Power T
      in (ret, T, GetNearestEven (of_nat (unat number_of_entries div 5))))"

definition CreateNatDevice :: "'w drv_env \<Rightarrow> nat \<Rightarrow> 'w \<Rightarrow> int \<times> u32 \<times> 'w" where
  "CreateNatDevice env sz w =
     (let (ret, offset, w) = ioctl_alloc_mem env sz w in (if ret \<noteq> 0 then - EINVAL else 0, offset, w))"

definition ipa_nati_alloc_table ::
  "'w drv_env \<Rightarrow> u16 \<Rightarrow> 'w ipa_nat_cache \<Rightarrow> int \<times> nat \<times> u32 \<times> u16 \<times> u16 \<times> 'w ipa_nat_cache" where
  "ipa_nati_alloc_table env number_of_entries s =
     (let (ret, T, X) = tbl_sizes number_of_entries in
      if ret \<noteq> 0 then (- EINVAL, 0, 0, T, X, s)
      else
        let total_entries = T + X;
            sz = IPA_NAT_TABLE_ENTRY_SIZE * unat total_entries + IPA_NAT_INDEX_TABLE_ENTRY_SIZE * unat total_entries;
            (fd, w) = (if ipa_fd s = 0 then open_ipa env (drv_world s) else (ipa_fd s, drv_world s))
        in if ipa_fd s = 0 \<and> fd < 0 then (- EIO, sz, 0, T, X, s\<lparr>drv_world := w\<rparr>)
           else
             let (ret, offset, w) = CreateNatDevice env sz w
             in (ret, sz, offset, T, X, s\<lparr>ipa_fd := fd, drv_world := w\<rparr>))"

text \<open>\<open>ipa_nati_update_cache\<close>. The two arrays are allocated only when the pointers are null; a failing
  \<open>malloc\<close> returns 0 with the memory not mapped.\<close>

definition alloc_array :: "'w drv_env \<Rightarrow> nat \<Rightarrow> u16 list option \<Rightarrow> 'w \<Rightarrow> u16 list option \<times> 'w" where
  "alloc_array env n arr w =
     (case arr of
        Some a \<Rightarrow> (Some a, w)
      | None \<Rightarrow> (let (ok, w) = drv_malloc env w in (if ok then Some (replicate n 0) else None, w)))"

definition ipa_nati_update_cache ::
  "'w drv_env \<Rightarrow> nat \<Rightarrow> u32 \<Rightarrow> u32 \<Rightarrow> u16 \<Rightarrow> u16 \<Rightarrow> 'w ipa_nat_cache \<Rightarrow> (int \<times> 'w ipa_nat_cache) option" where
  "ipa_nati_update_cache env sz offset pub_ip tbl_ents expn_tbl_ents s =
     do { let indx = unat (table_cnt s);
          t \<leftarrow> rd (ip4_tbl s) indx;
          let t = t\<lparr>valid := True, public_addr := pub_ip, tbl_size := sz, tbl_addr_offset := offset,
                table_entries := tbl_ents, expn_table_entries := expn_tbl_ents\<rparr>;
          let (meta, w) = alloc_array env (unat expn_tbl_ents) (index_expn_table_meta t) (drv_world s);
          let t = t\<lparr>index_expn_table_meta := meta\<rparr>;
          if meta = None then Some (0, s\<lparr>ip4_tbl := (ip4_tbl s)[indx := t], drv_world := w\<rparr>)
          else do {
            let (ids, w) = alloc_array env (unat tbl_ents + unat expn_tbl_ents) (rule_id_array t) w;
            let t = t\<lparr>rule_id_array := ids\<rparr>;
            if ids = None then Some (0, s\<lparr>ip4_tbl := (ip4_tbl s)[indx := t], drv_world := w\<rparr>)
            else do {
              let (fd, w) = open_nat env w;
              if fd < 0 then Some (- EIO, s\<lparr>ip4_tbl := (ip4_tbl s)[indx := t], drv_world := w\<rparr>)
              else do {
                let t = t\<lparr>nat_fd := fd\<rparr>;
                let (mem, w) = mmap_nat env sz w;
                case mem of
                  None \<Rightarrow> Some (- EINVAL, s\<lparr>ip4_tbl := (ip4_tbl s)[indx := t], drv_world := w\<rparr>)
                | Some m \<Rightarrow>
                    Some (0, s\<lparr>ip4_tbl := (ip4_tbl s)[indx := t\<lparr>tbl_mem := Mapped m\<rparr>], drv_world := w\<rparr>) } } } }"

text \<open>\<open>ipa_nati_reset_tbl\<close>: the four \<open>memset\<close> calls.\<close>

definition clear :: "'a \<Rightarrow> nat \<Rightarrow> 'a list \<Rightarrow> 'a list option" where
  "clear z n xs = (if n \<le> length xs then Some (replicate n z @ drop n xs) else None)"

definition ipa_nati_reset_tbl :: "ipa_nat_ip4_table_cache \<Rightarrow> ipa_nat_ip4_table_cache option" where
  "ipa_nati_reset_tbl t =
     do { m \<leftarrow> deref (tbl_mem t);
          let n = unat (table_entries t) + unat (expn_table_entries t);
          rs \<leftarrow> clear zero_rule n (rules m);
          xs \<leftarrow> clear 0 n (index_rules m);
          Some (t\<lparr>tbl_mem := Mapped (m\<lparr>rules := rs, index_rules := xs\<rparr>)\<rparr>) }"

definition ipa_nati_post_ipv4_init_cmd ::
  "'w drv_env \<Rightarrow> u8 \<Rightarrow> ipa_nat_ip4_table_cache \<Rightarrow> 'w \<Rightarrow> int \<times> 'w" where
  "ipa_nati_post_ipv4_init_cmd env tbl_index t w =
     (let rules_offset = tbl_addr_offset t;
          expn_offset = rules_offset + of_nat (unat (table_entries t) * IPA_NAT_TABLE_ENTRY_SIZE);
          index_offset = expn_offset + of_nat (unat (expn_table_entries t) * IPA_NAT_TABLE_ENTRY_SIZE);
          index_expn_offset = index_offset + of_nat (unat (table_entries t) * IPA_NAT_INDEX_TABLE_ENTRY_SIZE);
          cmd = \<lparr>i_tbl_index = tbl_index, i_ipv4_rules_offset = rules_offset, i_expn_rules_offset = expn_offset,
             i_index_offset = index_offset, i_index_expn_offset = index_expn_offset,
             i_table_entries = table_entries t - 1, i_expn_table_entries = expn_table_entries t,
             i_ip_addr = public_addr t\<rparr>;
          (ret, w) = ioctl_init env cmd w
      in (if ret \<noteq> 0 then - EINVAL else 0, w))"

definition ipa_nati_add_ipv4_tbl ::
  "'w drv_env \<Rightarrow> u32 \<Rightarrow> u16 \<Rightarrow> 'w ipa_nat_cache \<Rightarrow> (int \<times> u32 \<times> 'w ipa_nat_cache) option" where
  "ipa_nati_add_ipv4_tbl env pub_ip number_of_entries s =
     do { let tbl_indx = table_cnt s;
          let (ret, sz, offset, T, X, s) = ipa_nati_alloc_table env number_of_entries s;
          if ret \<noteq> 0 then Some (- ENOMEM, 0, s)
          else do {
            (ret, s) \<leftarrow> ipa_nati_update_cache env sz offset pub_ip T X s;
            if ret \<noteq> 0 then Some (- EINVAL, 0, s)
            else do {
              t \<leftarrow> rd (ip4_tbl s) (unat tbl_indx);
              t \<leftarrow> ipa_nati_reset_tbl t;
              let (ret, w) = ipa_nati_post_ipv4_init_cmd env tbl_indx t (drv_world s);
              let s = s\<lparr>ip4_tbl := (ip4_tbl s)[unat tbl_indx := t], drv_world := w\<rparr>;
              if ret \<noteq> 0 then Some (- EINVAL, 0, s)
              else do {
                let s = s\<lparr>table_cnt := table_cnt s + 1\<rparr>;
                dump \<leftarrow> ipa_nat_dump_ipv4_table env (ucast (table_cnt s)) s;
                Some (0, ucast (table_cnt s), s) } } } }"

definition ipa_nati_del_ipv4_table :: "'w drv_env \<Rightarrow> u32 \<Rightarrow> 'w ipa_nat_cache \<Rightarrow> (int \<times> 'w ipa_nat_cache) option" where
  "ipa_nati_del_ipv4_table env tbl_hdl s =
     do { let indx = (ucast (tbl_hdl - 1) :: u8);
          t \<leftarrow> rd (ip4_tbl s) (unat indx);
          if \<not> valid t then Some (- EINVAL, s)
          else
            let (locked, w) = mutex_lock env (drv_world s) in
            if locked \<noteq> 0 then Some (- 1, s\<lparr>drv_world := w\<rparr>)
            else
              let (closed, w) = close_nat env (nat_fd t) w;
                  unmapped = s\<lparr>ip4_tbl := (ip4_tbl s)[unat indx := t\<lparr>tbl_mem := Unmapped\<rparr>]\<rparr>
              in if closed \<noteq> 0 then Some (- EINVAL, unmapped\<lparr>drv_world := snd (mutex_unlock env w)\<rparr>)
                 else
                   let (ret, w) = ioctl_del env indx (public_addr t) w in
                   if ret \<noteq> 0 then Some (- EINVAL, unmapped\<lparr>drv_world := snd (mutex_unlock env w)\<rparr>)
                   else
                     let (unlocked, w) = mutex_unlock env w in
                     Some (if unlocked \<noteq> 0 then - 1 else 0,
                       s\<lparr>ip4_tbl := (ip4_tbl s)[unat indx := zero_table], table_cnt := table_cnt s - 1, drv_world := w\<rparr>) }"

section \<open>The interface of the library\<close>

text \<open>\<open>ipa_nat_drv.c\<close>; the callers never pass a null pointer.\<close>

definition ipa_nat_add_ipv4_tbl_drv ::
  "'w drv_env \<Rightarrow> u32 \<Rightarrow> u16 \<Rightarrow> u32 \<Rightarrow> 'w ipa_nat_cache \<Rightarrow> (int \<times> u32 \<times> 'w ipa_nat_cache) option" where
  "ipa_nat_add_ipv4_tbl_drv env pub_ip number_of_entries tbl_hdl s =
     (if number_of_entries = 0 then Some (- EINVAL, tbl_hdl, s)
      else do { (ret, tbl_hdl, s) \<leftarrow> ipa_nati_add_ipv4_tbl env pub_ip number_of_entries s;
                Some (if ret \<noteq> 0 then - EINVAL else ret, tbl_hdl, s) })"

definition ipa_nat_del_ipv4_tbl_drv :: "'w drv_env \<Rightarrow> u32 \<Rightarrow> 'w ipa_nat_cache \<Rightarrow> (int \<times> 'w ipa_nat_cache) option" where
  "ipa_nat_del_ipv4_tbl_drv env tbl_hdl s =
     (if tbl_hdl = 0 \<or> unat tbl_hdl > IPA_NAT_MAX_IP4_TBLS then Some (- EINVAL, s)
      else ipa_nati_del_ipv4_table env tbl_hdl s)"

definition ipa_nat_add_ipv4_rule_drv ::
  "'w drv_env \<Rightarrow> u32 \<Rightarrow> ipa_nat_ipv4_rule \<Rightarrow> u32 \<Rightarrow> 'w ipa_nat_cache \<Rightarrow> (int \<times> u32 \<times> 'w ipa_nat_cache) option" where
  "ipa_nat_add_ipv4_rule_drv env tbl_hdl clnt_rule hdl s =
     (if tbl_hdl = 0 \<or> unat tbl_hdl > IPA_NAT_MAX_IP4_TBLS then Some (- EINVAL, hdl, s)
      else do { (ret, hdl, s) \<leftarrow> ipa_nati_add_ipv4_rule env tbl_hdl clnt_rule hdl s;
                Some (if ret \<noteq> 0 then - EINVAL else 0, hdl, s) })"

definition ipa_nat_del_ipv4_rule_drv ::
  "'w drv_env \<Rightarrow> u32 \<Rightarrow> u32 \<Rightarrow> 'w ipa_nat_cache \<Rightarrow> (int \<times> 'w ipa_nat_cache) option" where
  "ipa_nat_del_ipv4_rule_drv env tbl_hdl hdl s =
     (if tbl_hdl = 0 \<or> hdl = 0 then Some (- EINVAL, s)
      else ipa_nati_del_ipv4_rule env tbl_hdl hdl s)"

definition ipa_nat_query_timestamp_drv ::
  "'w drv_env \<Rightarrow> u32 \<Rightarrow> u32 \<Rightarrow> u32 \<Rightarrow> 'w ipa_nat_cache \<Rightarrow> (int \<times> u32 \<times> 'w ipa_nat_cache) option" where
  "ipa_nat_query_timestamp_drv env tbl_hdl hdl time_stamp s =
     (if tbl_hdl = 0 \<or> unat tbl_hdl > IPA_NAT_MAX_IP4_TBLS then Some (- EINVAL, time_stamp, s)
      else ipa_nati_query_timestamp env tbl_hdl hdl time_stamp s)"

end
