(* ===== verification/Chained_Table.thy ===== *)
theory Chained_Table
  imports IPACM_Prelude
begin

text \<open>
  Hash tables with chained overflow entries, as the NAT rules and the index rules are stored: \<open>N\<close>
  entries of which the first \<open>T\<close> are buckets. A bucket in use is the head of a chain that continues in the
  overflow entries behind \<open>T\<close>. \<open>nxt\<close> and \<open>prv\<close> are the links, 0 ends a chain, and neither entry 0 nor
  entry \<open>T\<close> is ever used. \<open>ch h\<close> lists the entries of the chain of bucket \<open>h\<close>.
\<close>

section \<open>Doubly linked chains\<close>

fun links :: "(nat \<Rightarrow> nat) \<Rightarrow> (nat \<Rightarrow> nat) \<Rightarrow> nat list \<Rightarrow> bool" where
  "links nxt prv [] = True"
| "links nxt prv [a] = (nxt a = 0)"
| "links nxt prv (a # b # xs) = (nxt a = b \<and> prv b = a \<and> links nxt prv (b # xs))"

lemma in_tl: "i \<in> set (tl xs) \<Longrightarrow> i \<in> set xs"
  by (cases xs) auto

lemma links_cong:
  "links nxt prv xs \<Longrightarrow> (\<And>i. i \<in> set xs \<Longrightarrow> nxt' i = nxt i) \<Longrightarrow> (\<And>i. i \<in> set (tl xs) \<Longrightarrow> prv' i = prv i) \<Longrightarrow>
     links nxt' prv' xs"
  by (induction nxt prv xs rule: links.induct) auto

lemma links_append:
  "links nxt prv (xs @ a # b # ys) \<longleftrightarrow>
     links (nxt(a := 0)) prv (xs @ [a]) \<and> nxt a = b \<and> prv b = a \<and> links nxt prv (b # ys)" if "a \<notin> set xs"
  using that
proof (induction xs)
  case Nil
  show ?case by simp
next
  case (Cons c xs)
  then show ?case by (cases xs) auto
qed

lemma links_nxt: "links nxt prv (xs @ a # ys) \<Longrightarrow> nxt a = (case ys of [] \<Rightarrow> 0 | b # _ \<Rightarrow> b)"
proof (induction xs)
  case Nil
  then show ?case by (cases ys) auto
next
  case (Cons c xs)
  then show ?case by (cases xs) auto
qed

lemma links_prv: "links nxt prv (xs @ a # b # ys) \<Longrightarrow> prv b = a"
proof (induction xs)
  case (Cons c xs)
  then show ?case by (cases xs) auto
qed simp

lemma links_suffix: "links nxt prv (xs @ ys) \<Longrightarrow> links nxt prv ys"
proof (induction xs)
  case (Cons c xs)
  then show ?case by (cases "xs @ ys") auto
qed simp

lemma links_snoc:
  "links nxt prv (xs @ [a]) \<Longrightarrow> distinct (xs @ [a, e]) \<Longrightarrow> links (nxt(e := 0, a := e)) (prv(e := a)) (xs @ [a, e])"
  by (simp add: links_append) (auto intro!: links_cong [of nxt prv] simp: links_nxt dest: in_tl)

lemma links_butlast:
  "links nxt prv (xs @ [a, e]) \<Longrightarrow> distinct (xs @ [a, e]) \<Longrightarrow> links (nxt(a := 0, e := v)) (prv(e := u)) (xs @ [a])"
  by (auto simp: links_append intro!: links_cong [of "nxt(a := 0)" prv] dest!: in_tl)

lemma links_remove:
  assumes "links nxt prv (xs @ a # e # b # ys)" and "distinct (xs @ a # e # b # ys)"
  shows "links (nxt(a := b, e := v)) (prv(b := a, e := u)) (xs @ a # b # ys)"
proof -
  have "links (nxt(a := 0)) prv (xs @ [a])" "links nxt prv (b # ys)"
    using assms by (auto simp: links_append dest: links_suffix [of nxt prv "[e]", simplified])
  moreover from this have "links (nxt(a := 0)) (prv(b := a, e := u)) (xs @ [a])"
    using assms(2) by (auto elim!: links_cong dest!: in_tl)
  moreover have "links (nxt(a := b, e := v)) (prv(b := a, e := u)) (b # ys)"
    using calculation(2) by (rule links_cong) (use assms(2) in auto)
  ultimately show ?thesis
    using assms(2) by (subst links_append) (auto elim!: links_cong dest!: in_tl)
qed

section \<open>Tables of chains\<close>

definition bucket_shape :: "nat \<Rightarrow> nat \<Rightarrow> nat \<Rightarrow> nat list \<Rightarrow> bool" where
  "bucket_shape T N h xs \<longleftrightarrow> (xs = [] \<or> h \<in> {0<..<T} \<and> hd xs = h \<and> set (tl xs) \<subseteq> {T<..<N}) \<and> distinct xs"

definition chained :: "nat \<Rightarrow> nat \<Rightarrow> (nat \<Rightarrow> bool) \<Rightarrow> (nat \<Rightarrow> nat) \<Rightarrow> (nat \<Rightarrow> nat) \<Rightarrow> (nat \<Rightarrow> nat list) \<Rightarrow> bool" where
  "chained T N occ nxt prv ch \<longleftrightarrow>
     (\<forall>h. bucket_shape T N h (ch h) \<and> links nxt prv (ch h)) \<and>
     (\<forall>h g. h \<noteq> g \<longrightarrow> set (ch h) \<inter> set (ch g) = {}) \<and>
     (\<forall>i<N. occ i \<longleftrightarrow> (\<exists>h. i \<in> set (ch h)))"

lemma chainedD:
  assumes "chained T N occ nxt prv ch"
  shows "bucket_shape T N h (ch h)" "links nxt prv (ch h)" "h \<noteq> g \<Longrightarrow> set (ch h) \<inter> set (ch g) = {}"
    "i < N \<Longrightarrow> occ i \<longleftrightarrow> (\<exists>h. i \<in> set (ch h))"
  using assms by (auto simp: chained_def)

lemma chained_occ: "chained T N occ nxt prv ch \<Longrightarrow> i < N \<Longrightarrow> i \<in> set (ch h) \<Longrightarrow> occ i"
  using chainedD(4) by metis

lemma bucket_shape_range: "bucket_shape T N h xs \<Longrightarrow> i \<in> set xs \<Longrightarrow> T \<le> N \<Longrightarrow> 0 < i \<and> i < N \<and> i \<noteq> T"
  by (cases xs) (auto simp: bucket_shape_def)

lemma bucket_shape_head: "bucket_shape T N h xs \<Longrightarrow> i \<in> set xs \<Longrightarrow> i < T \<Longrightarrow> i = h \<and> (\<exists>es. xs = h # es)"
  by (cases xs) (auto simp: bucket_shape_def)

lemma bucket_shape_tail:
  assumes "bucket_shape T N h xs" and "i \<in> set xs" and "T \<le> i"
  obtains us a vs where "xs = us @ a # i # vs"
proof -
  from assms obtain es where es: "xs = h # es" "h < T" "i \<in> set es" by (cases xs) (auto simp: bucket_shape_def)
  then obtain us vs where us: "es = us @ i # vs" by (auto simp: in_set_conv_decomp)
  show ?thesis
  proof (cases us rule: rev_cases)
    case Nil
    with es us that [of "[]" h vs] show ?thesis by simp
  next
    case (snoc ws a)
    with es us that [of "h # ws" a vs] show ?thesis by simp
  qed
qed

text \<open>Replacing the chain of one bucket: the links of all other entries in use stay, and so does their use.\<close>

lemma chained_replace:
  assumes c: "chained T N occ nxt prv ch" and "bucket_shape T N h zs" and "links nxt' prv' zs"
    and fresh: "\<And>i. i \<in> set zs \<Longrightarrow> i \<notin> set (ch h) \<Longrightarrow> i < N \<and> \<not> occ i"
    and frame: "\<And>i. i \<notin> set (ch h) \<Longrightarrow> i \<notin> set zs \<Longrightarrow> nxt' i = nxt i \<and> prv' i = prv i"
    and occ: "\<And>i. i < N \<Longrightarrow> occ' i \<longleftrightarrow> i \<in> set zs \<or> i \<notin> set (ch h) \<and> occ i"
  shows "chained T N occ' nxt' prv' (ch(h := zs))"
proof -
  have other: "i \<notin> set (ch h)" "i \<notin> set zs" if "g \<noteq> h" "i \<in> set (ch g)" for i g
  proof -
    show "i \<notin> set (ch h)" using chainedD(3) [OF c that(1)] that(2) by auto
    then show "i \<notin> set zs" using fresh [of i] chainedD(4) [OF c, of i] that(2) by auto
  qed
  have "links nxt' prv' (ch g)" if "g \<noteq> h" for g
    using chainedD(2) [OF c, of g] by (rule links_cong) (use frame other [OF that] in \<open>auto dest: in_tl\<close>)
  moreover have "set ((ch(h := zs)) f) \<inter> set ((ch(h := zs)) g) = {}" if "f \<noteq> g" for f g
    using that other [of f] other [of g] chainedD(3) [OF c that] by (cases "f = h"; cases "g = h") auto
  moreover have "occ' i \<longleftrightarrow> (\<exists>g. i \<in> set ((ch(h := zs)) g))" if "i < N" for i
    unfolding occ [OF that] chainedD(4) [OF c that]
    by (metis (no_types, lifting) fun_upd_other fun_upd_same other(1,2))
  ultimately show ?thesis using assms(2,3) chainedD(1) [OF c] by (auto simp: chained_def)
qed

lemma chained_range: "chained T N occ nxt prv ch \<Longrightarrow> i \<in> set (ch h) \<Longrightarrow> T \<le> N \<Longrightarrow> 0 < i \<and> i < N \<and> i \<noteq> T"
  using bucket_shape_range chainedD(1) by blast

text \<open>Where an entry in use stands in its chain, read off its number and its next link.\<close>

lemma chained_head:
  assumes "chained T N occ nxt prv ch" and "occ h" and "h < T" and "T \<le> N"
  obtains es where "ch h = h # es" "nxt h = (case es of [] \<Rightarrow> 0 | b # _ \<Rightarrow> b)"
proof -
  from assms obtain g where "h \<in> set (ch g)" using chainedD(4) by (metis less_le_trans)
  with assms(1,3) obtain es where es: "ch h = h # es" using bucket_shape_head chainedD(1) by metis
  with chainedD(2) [OF assms(1), of h] have "nxt h = (case es of [] \<Rightarrow> 0 | b # _ \<Rightarrow> b)"
    using links_nxt [of nxt prv "[]" h es] by simp
  with es show ?thesis by (rule that)
qed

lemma chained_tail:
  assumes "chained T N occ nxt prv ch" and "occ e" and "e < N" and "T \<le> e"
  obtains h us a vs where "ch h = us @ a # e # vs" "prv e = a" "nxt e = (case vs of [] \<Rightarrow> 0 | b # _ \<Rightarrow> b)"
proof -
  from assms obtain h where "e \<in> set (ch h)" using chainedD(4) by metis
  with assms(1,4) obtain us a vs where us: "ch h = us @ a # e # vs" using bucket_shape_tail chainedD(1) by metis
  with chainedD(2) [OF assms(1), of h] have "prv e = a" "nxt e = (case vs of [] \<Rightarrow> 0 | b # _ \<Rightarrow> b)"
    using links_prv [of nxt prv us a e vs] links_nxt [of nxt prv "us @ [a]" e vs] by simp_all
  with us show ?thesis by (rule that)
qed

section \<open>The operations on chains\<close>

lemma chained_new_head:
  assumes "chained T N occ nxt prv ch" and "h \<in> {0<..<T}" and "\<not> occ h" and "T \<le> N"
  shows "chained T N (occ(h := True)) (nxt(h := 0)) (prv(h := u)) (ch(h := [h]))"
proof -
  have "ch h = []"
  proof (rule ccontr)
    assume "ch h \<noteq> []"
    then have "h \<in> set (ch h)" using chainedD(1) [OF assms(1), of h] by (cases "ch h") (auto simp: bucket_shape_def)
    then show False using chainedD(4) [OF assms(1), of h] assms by auto
  qed
  with assms show ?thesis by (intro chained_replace [OF assms(1)]) (auto simp: bucket_shape_def)
qed

lemma chained_append:
  assumes "chained T N occ nxt prv ch" and "ch h = xs @ [a]" and "e \<in> {T<..<N}" and "\<not> occ e"
  shows "chained T N (occ(e := True)) (nxt(e := 0, a := e)) (prv(e := a)) (ch(h := xs @ [a, e]))"
proof -
  have new: "e \<notin> set (ch h)" using chainedD(4) [OF assms(1), of e] assms(3,4) by auto
  have shape: "bucket_shape T N h (xs @ [a])" using chainedD(1) [OF assms(1), of h] assms(2) by simp
  then have "bucket_shape T N h (xs @ [a, e])" using assms(2,3) new by (cases xs) (auto simp: bucket_shape_def)
  moreover have "links (nxt(e := 0, a := e)) (prv(e := a)) (xs @ [a, e])"
    using chainedD(2) [OF assms(1), of h] assms(2) shape new by (intro links_snoc) (auto simp: bucket_shape_def)
  moreover have "(occ(e := True)) i \<longleftrightarrow> i \<in> set (xs @ [a, e]) \<or> i \<notin> set (ch h) \<and> occ i" if "i < N" for i
    using assms(2) chained_occ [OF assms(1) that, of h] by auto
  ultimately show ?thesis
    using assms new by (intro chained_replace [OF assms(1)]) auto
qed

lemma chained_drop_only:
  assumes "chained T N occ nxt prv ch" and "ch h = [h]"
  shows "chained T N (occ(h := False)) (nxt(h := v)) (prv(h := u)) (ch(h := []))"
  using assms(2) by (intro chained_replace [OF assms(1)]) (auto simp: bucket_shape_def)

lemma chained_drop_last:
  assumes "chained T N occ nxt prv ch" and "ch h = xs @ [a, e]"
  shows "chained T N (occ(e := False)) (nxt(a := 0, e := v)) (prv(e := u)) (ch(h := xs @ [a]))"
proof -
  have shape: "bucket_shape T N h (xs @ [a, e])" using chainedD(1) [OF assms(1), of h] assms(2) by simp
  then have "bucket_shape T N h (xs @ [a])" by (cases xs) (auto simp: bucket_shape_def)
  moreover have "links (nxt(a := 0, e := v)) (prv(e := u)) (xs @ [a])"
    using chainedD(2) [OF assms(1), of h] assms(2) shape by (intro links_butlast) (auto simp: bucket_shape_def)
  moreover have "(occ(e := False)) i \<longleftrightarrow> i \<in> set (xs @ [a]) \<or> i \<notin> set (ch h) \<and> occ i" if "i < N" for i
    using assms(2) chained_occ [OF assms(1) that, of h] shape by (auto simp: bucket_shape_def)
  ultimately show ?thesis using assms by (intro chained_replace [OF assms(1)]) auto
qed

lemma chained_drop_middle:
  assumes "chained T N occ nxt prv ch" and "ch h = xs @ a # e # b # ys"
  shows "chained T N (occ(e := False)) (nxt(a := b, e := v)) (prv(b := a, e := u)) (ch(h := xs @ a # b # ys))"
proof -
  have shape: "bucket_shape T N h (xs @ a # e # b # ys)" using chainedD(1) [OF assms(1), of h] assms(2) by simp
  then have "bucket_shape T N h (xs @ a # b # ys)" by (cases xs) (auto simp: bucket_shape_def)
  moreover have "links (nxt(a := b, e := v)) (prv(b := a, e := u)) (xs @ a # b # ys)"
    using chainedD(2) [OF assms(1), of h] assms(2) shape by (intro links_remove) (auto simp: bucket_shape_def)
  moreover have "(occ(e := False)) i \<longleftrightarrow> i \<in> set (xs @ a # b # ys) \<or> i \<notin> set (ch h) \<and> occ i" if "i < N" for i
    using assms(2) chained_occ [OF assms(1) that, of h] shape by (auto simp: bucket_shape_def)
  ultimately show ?thesis using assms by (intro chained_replace [OF assms(1)]) auto
qed

text \<open>Taking out the second entry of a chain, as the index table does when the head is deleted.\<close>

lemma chained_pull_up:
  assumes c: "chained T N occ nxt prv ch" and ch: "ch h = h # e # ys"
  shows "chained T N (occ(e := False)) (nxt(h := nxt e, e := v))
     (if nxt e = 0 then prv(e := u) else prv(nxt e := h, e := u)) (ch(h := h # ys))"
proof (cases ys)
  case Nil
  with chainedD(2) [OF c, of h] ch have "nxt e = 0" by simp
  with chained_drop_last [OF c, of h "[]" h e v u] ch Nil show ?thesis by simp
next
  case (Cons b zs)
  with chainedD(2) [OF c, of h] ch have "nxt e = b" by simp
  moreover have "b \<noteq> 0" using chainedD(1) [OF c, of h] ch Cons by (auto simp: bucket_shape_def)
  ultimately show ?thesis using chained_drop_middle [OF c, of h "[]" h e b zs v u] ch Cons by simp
qed

text \<open>A change of fields that are not links.\<close>

lemma chained_cong:
  assumes "chained T N occ nxt prv ch"
    and "\<And>i. i < N \<Longrightarrow> occ' i = occ i" and "\<And>i. i < N \<Longrightarrow> nxt' i = nxt i" and "\<And>i. T \<le> i \<Longrightarrow> i < N \<Longrightarrow> prv' i = prv i"
    and "T \<le> N"
  shows "chained T N occ' nxt' prv' ch"
proof -
  have "links nxt' prv' (ch h)" for h
    using chainedD(2) [OF assms(1), of h]
  proof (rule links_cong)
    show "nxt' i = nxt i" if "i \<in> set (ch h)" for i using assms(3) chained_range [OF assms(1) that assms(5)] by simp
    show "prv' i = prv i" if "i \<in> set (tl (ch h))" for i
      using that chainedD(1) [OF assms(1), of h] by (intro assms(4)) (auto simp: bucket_shape_def)
  qed
  with assms(1,2) show ?thesis by (simp add: chained_def)
qed

end
