(* ===== verification/NatDrv_Tables.thy ===== *)
theory NatDrv_Tables
  imports NatDrv Chained_Table
begin

text \<open>
  What the kernel does with the commands of the NAT table library, and the two tables as tables of
  chains: the fields of an entry as functions of its number, and the effect of each write of the library
  on them.
\<close>

section \<open>The DMA of the kernel\<close>

text \<open>
  \<open>IPA_IOC_NAT_DMA\<close> writes the 16 bits \<open>data\<close> at the byte offset \<open>offset\<close> of the table named by
  \<open>base_addr\<close>; the tables lie where the last \<open>IPA_IOC_V4_INIT_NAT\<close> said, so the expansion tables start \<open>T\<close>
  entries behind the base tables.
\<close>

definition set_lo :: "u32 \<Rightarrow> u16 \<Rightarrow> u32" where "set_lo w v = join16 v (hi16 w)"

definition set_hi :: "u32 \<Rightarrow> u16 \<Rightarrow> u32" where "set_hi w v = join16 (lo16 w) v"

lemma set_halves [simp]:
  "lo16 (set_lo w v) = v" "hi16 (set_lo w v) = hi16 w" "lo16 (set_hi w v) = lo16 w" "hi16 (set_hi w v) = v"
  by (simp_all add: set_lo_def set_hi_def)

definition write16 :: "nat \<Rightarrow> u16 \<Rightarrow> ipa_nat_rule \<Rightarrow> ipa_nat_rule" where
  "write16 b v r =
     (if b = 0 then r\<lparr>n_private_ip := set_lo (n_private_ip r) v\<rparr>
      else if b = 2 then r\<lparr>n_private_ip := set_hi (n_private_ip r) v\<rparr>
      else if b = 4 then r\<lparr>n_target_ip := set_lo (n_target_ip r) v\<rparr>
      else if b = 6 then r\<lparr>n_target_ip := set_hi (n_target_ip r) v\<rparr>
      else if b = 8 then r\<lparr>nxt_indx_pub_port := set_lo (nxt_indx_pub_port r) v\<rparr>
      else if b = 10 then r\<lparr>nxt_indx_pub_port := set_hi (nxt_indx_pub_port r) v\<rparr>
      else if b = 12 then r\<lparr>n_private_port := v\<rparr>
      else if b = 14 then r\<lparr>n_target_port := v\<rparr>
      else if b = 16 then r\<lparr>ip_cksm_enbl := set_lo (ip_cksm_enbl r) v\<rparr>
      else if b = 18 then r\<lparr>ip_cksm_enbl := set_hi (ip_cksm_enbl r) v\<rparr>
      else if b = 20 then r\<lparr>ts_proto := set_lo (ts_proto r) v\<rparr>
      else if b = 22 then r\<lparr>ts_proto := set_hi (ts_proto r) v\<rparr>
      else if b = 24 then r\<lparr>sw_spec_params := set_lo (sw_spec_params r) v\<rparr>
      else if b = 26 then r\<lparr>sw_spec_params := set_hi (sw_spec_params r) v\<rparr>
      else if b = 28 then r\<lparr>n_rsvd2 := v\<rparr>
      else r\<lparr>n_tcp_udp_chksum := v\<rparr>)"

definition write_index16 :: "nat \<Rightarrow> u16 \<Rightarrow> u32 \<Rightarrow> u32" where
  "write_index16 b v x = (if b = 0 then set_lo x v else set_hi x v)"

definition update_at :: "nat \<Rightarrow> ('a \<Rightarrow> 'a) \<Rightarrow> 'a list \<Rightarrow> 'a list" where
  "update_at i f xs = xs[i := f (xs ! i)]"

definition apply_dma :: "nat \<Rightarrow> nat_dma_one \<Rightarrow> nat_mem \<Rightarrow> nat_mem" where
  "apply_dma T d m =
     (let off = unat (dma_offset d) in
      case dma_base_addr d of
        IPA_NAT_BASE_TBL \<Rightarrow> m\<lparr>rules := update_at (off div 32) (write16 (off mod 32) (dma_data d)) (rules m)\<rparr>
      | IPA_NAT_EXPN_TBL \<Rightarrow> m\<lparr>rules := update_at (T + off div 32) (write16 (off mod 32) (dma_data d)) (rules m)\<rparr>
      | IPA_NAT_INDX_TBL \<Rightarrow>
          m\<lparr>index_rules := update_at (off div 4) (write_index16 (off mod 4) (dma_data d)) (index_rules m)\<rparr>
      | IPA_NAT_INDEX_EXPN_TBL \<Rightarrow>
          m\<lparr>index_rules := update_at (T + off div 4) (write_index16 (off mod 4) (dma_data d)) (index_rules m)\<rparr>)"

text \<open>
  The kernel carries out every DMA command, memory is allocated, and the mutex works. At least the next eight
  words behind the tables can be read (the mapping is rounded up to pages), the first one empty as an index rule.
\<close>

definition behind_ok :: "u32 list \<Rightarrow> bool" where
  "behind_ok ws \<longleftrightarrow> 8 \<le> length ws \<and> index_tbl_entry (ws ! 0) = 0"

definition kernel_ok :: "nat \<Rightarrow> 'w drv_env \<Rightarrow> bool" where
  "kernel_ok T env \<longleftrightarrow>
     (\<forall>cmds m w. \<exists>w'. ioctl_dma env cmds m w = (0, fold (apply_dma T) cmds m, w')) \<and>
     (\<forall>w. fst (drv_malloc env w)) \<and> (\<forall>w. fst (mutex_lock env w) = 0) \<and> (\<forall>w. fst (mutex_unlock env w) = 0) \<and>
     (\<forall>w. behind_ok (mem_behind env w))"

section \<open>Fields of the entries\<close>

lemma read_fields [simp]:
  "Read16BitFieldValue w NEXT_INDEX_FIELD = lo16 w"
  "Read16BitFieldValue w SW_SPEC_PARAM_PREV_INDEX_FIELD = lo16 w"
  "Read16BitFieldValue w SW_SPEC_PARAM_INDX_TBL_ENTRY_FIELD = hi16 w"
  "Read16BitFieldValue w INDX_TBL_TBL_ENTRY_FIELD = lo16 w"
  "Read16BitFieldValue w INDX_TBL_NEXT_INDEX_FILED = hi16 w"
  "Read16BitFieldValue w ENABLE_FIELD = drop_bit 15 (hi16 w)"
  "Read8BitFieldValue w PROTOCOL_FIELD = ucast (drop_bit 8 (hi16 w))"
  by (simp_all add: Read16BitFieldValue_def enable_hi16 [unfolded Read16BitFieldValue_def, simplified] protocol_hi16)

lemma sw_params [simp]:
  "UpdateSwSpecParams w IPA_NAT_SW_PARAM_INDX_TBL_ENTRY_BYTE (ucast v) = set_hi w v"
  "UpdateSwSpecParams w IPA_NAT_SW_PARAM_PREV_INDX_BYTE (ucast v) = set_lo w v"
  by (simp_all add: UpdateSwSpecParams_halves set_lo_def set_hi_def)

definition enabled_at :: "ipa_nat_rule list \<Rightarrow> nat \<Rightarrow> bool" where "enabled_at rs i = rule_enabled (rs ! i)"

definition next_at :: "ipa_nat_rule list \<Rightarrow> nat \<Rightarrow> nat" where "next_at rs i = unat (next_index (rs ! i))"

definition prev_at :: "ipa_nat_rule list \<Rightarrow> nat \<Rightarrow> nat" where "prev_at rs i = unat (prev_index (rs ! i))"

definition indx_at :: "ipa_nat_rule list \<Rightarrow> nat \<Rightarrow> nat" where "indx_at rs i = unat (indx_tbl_entry (rs ! i))"

definition dead_at :: "ipa_nat_rule list \<Rightarrow> nat \<Rightarrow> bool" where
  "dead_at rs i \<longleftrightarrow> rule_protocol (rs ! i) = IPA_NAT_INVALID_PROTO_FIELD_CMP"

text \<open>The rule of the client that an entry holds.\<close>

definition client_of :: "ipa_nat_rule \<Rightarrow> ipa_nat_ipv4_rule" where
  "client_of r = \<lparr>r_target_ip = n_target_ip r, r_private_ip = n_private_ip r, r_target_port = n_target_port r,
     r_private_port = n_private_port r, r_public_port = hi16 (nxt_indx_pub_port r), r_protocol = rule_protocol r\<rparr>"

definition client_at :: "ipa_nat_rule list \<Rightarrow> nat \<Rightarrow> ipa_nat_ipv4_rule" where "client_at rs i = client_of (rs ! i)"

definition ient_at :: "u32 list \<Rightarrow> nat \<Rightarrow> nat" where "ient_at xs i = unat (index_tbl_entry (xs ! i))"

definition inext_at :: "u32 list \<Rightarrow> nat \<Rightarrow> nat" where "inext_at xs i = unat (index_next (xs ! i))"

definition iprev_at :: "nat \<Rightarrow> u16 list \<Rightarrow> nat \<Rightarrow> nat" where "iprev_at T meta i = (if T \<le> i then unat (meta ! (i - T)) else 0)"

lemmas rule_views = enabled_at_def next_at_def prev_at_def indx_at_def dead_at_def client_at_def client_of_def

lemmas index_views = ient_at_def inext_at_def

lemma length_update_at [simp]: "length (update_at i f xs) = length xs"
  by (simp add: update_at_def)

lemma nth_update_at: "i < length xs \<Longrightarrow> update_at i f xs ! j = (if i = j then f (xs ! i) else xs ! j)"
  by (auto simp: update_at_def nth_list_update)

text \<open>The three 16-bit fields of a rule that the library writes by DMA.\<close>

lemma write_next_views:
  assumes "p < length rs"
  shows "enabled_at (update_at p (write16 8 v) rs) = enabled_at rs"
    and "next_at (update_at p (write16 8 v) rs) = (next_at rs)(p := unat v)"
    and "prev_at (update_at p (write16 8 v) rs) = prev_at rs"
    and "indx_at (update_at p (write16 8 v) rs) = indx_at rs"
    and "dead_at (update_at p (write16 8 v) rs) = dead_at rs"
    and "client_at (update_at p (write16 8 v) rs) = client_at rs"
  by (auto simp: fun_eq_iff rule_views nth_update_at [OF assms] write16_def)

lemma drop_bit_flags [simp]: "drop_bit 15 (0x8000 :: u16) \<noteq> 0" "ucast (drop_bit 8 (0xFF00 :: u16)) = (0xFF :: u8)"
  by code_simp+

section \<open>The table of rules\<close>

text \<open>Buckets of a rule in the table of rules and in the index table.\<close>

definition dst_bucket :: "nat \<Rightarrow> ipa_nat_ipv4_rule \<Rightarrow> nat" where
  "dst_bucket T c = unat (dst_hash (r_target_ip c) (r_target_port c) (r_public_port c) (r_protocol c) (of_nat T - 1))"

definition src_bucket :: "nat \<Rightarrow> ipa_nat_ipv4_rule \<Rightarrow> nat" where
  "src_bucket T c =
     unat (src_hash (r_private_ip c) (r_private_port c) (r_target_ip c) (r_target_port c) (r_protocol c) (of_nat T - 1))"

text \<open>A rule in use is live unless its protocol was invalidated: the head of a chain is deleted that way.\<close>

definition live_at :: "ipa_nat_rule list \<Rightarrow> nat \<Rightarrow> bool" where
  "live_at rs i \<longleftrightarrow> enabled_at rs i \<and> \<not> dead_at rs i"

definition rules_wf :: "nat \<Rightarrow> nat \<Rightarrow> ipa_nat_rule list \<Rightarrow> (nat \<Rightarrow> nat list) \<Rightarrow> bool" where
  "rules_wf T N rs ch \<longleftrightarrow>
     length rs = N \<and> chained T N (enabled_at rs) (next_at rs) (prev_at rs) ch \<and>
     (\<forall>i<N. enabled_at rs i \<longrightarrow> dead_at rs i \<longrightarrow> i < T) \<and>
     (\<forall>i<T. \<not> enabled_at rs i \<longrightarrow> rs ! i = zero_rule) \<and>
     (\<forall>i<N. live_at rs i \<longrightarrow> i \<in> set (ch (dst_bucket T (client_at rs i))))"

text \<open>No dead head is the last of its chain.\<close>

definition swept :: "nat \<Rightarrow> ipa_nat_rule list \<Rightarrow> bool" where
  "swept T rs \<longleftrightarrow> (\<forall>i<T. enabled_at rs i \<longrightarrow> dead_at rs i \<longrightarrow> next_at rs i \<noteq> 0)"

lemma rules_wfD:
  assumes "rules_wf T N rs ch"
  shows "length rs = N" "chained T N (enabled_at rs) (next_at rs) (prev_at rs) ch"
    "i < N \<Longrightarrow> enabled_at rs i \<Longrightarrow> dead_at rs i \<Longrightarrow> i < T" "i < T \<Longrightarrow> \<not> enabled_at rs i \<Longrightarrow> rs ! i = zero_rule"
    "i < N \<Longrightarrow> live_at rs i \<Longrightarrow> i \<in> set (ch (dst_bucket T (client_at rs i)))"
  using assms by (auto simp: rules_wf_def)

text \<open>The entry that holds a new rule once it is enabled.\<close>

definition new_rule :: "u32 \<Rightarrow> ipa_nat_ipv4_rule \<Rightarrow> u16 \<Rightarrow> u16 \<Rightarrow> ipa_nat_rule" where
  "new_rule pub c prev x =
     write16 18 IPA_NAT_FLAG_ENABLE_BIT_MASK
       (pack_rule ((fill_sw_rule pub c zero_sw_rule)\<lparr>s_prev_index := prev, s_indx_tbl_entry := x\<rparr>))"

lemma protocol_packed: "ucast (drop_bit 24 (ucast (t :: 24 word) OR push_bit 24 (ucast (p :: u8)) :: u32)) = p"
  by (rule bit_word_eqI) (auto simp: bit_simps dest: bit_imp_le_length)

lemma ucast_drop8_hi16: "ucast (drop_bit 8 (hi16 w)) = (ucast (drop_bit 24 w) :: u8)"
  using protocol_hi16 [of w] by (simp add: Read8BitFieldValue_def)

lemma fill_sw_rule_fields:
  "s_private_ip (fill_sw_rule pub c r) = r_private_ip c" "s_target_ip (fill_sw_rule pub c r) = r_target_ip c"
  "s_private_port (fill_sw_rule pub c r) = r_private_port c" "s_target_port (fill_sw_rule pub c r) = r_target_port c"
  "s_public_port (fill_sw_rule pub c r) = r_public_port c" "s_protocol (fill_sw_rule pub c r) = r_protocol c"
  "s_next_index (fill_sw_rule pub c r) = 0" "s_time_stamp (fill_sw_rule pub c r) = 0"
  by (simp_all add: fill_sw_rule_def Let_def)

lemma new_rule_fields:
  "rule_enabled (new_rule pub c prev x)" "next_index (new_rule pub c prev x) = 0"
  "prev_index (new_rule pub c prev x) = prev" "indx_tbl_entry (new_rule pub c prev x) = x"
  "rule_protocol (new_rule pub c prev x) = r_protocol c" "client_of (new_rule pub c prev x) = c"
  by (simp_all add: new_rule_def write16_def pack_rule_def fill_sw_rule_fields IPA_NAT_FLAG_ENABLE_BIT_MASK_def
      client_of_def ucast_drop8_hi16 protocol_packed [of 0, simplified])

lemma new_rule_views:
  assumes "e < length rs"
  shows "enabled_at (rs[e := new_rule pub c prev x]) = (enabled_at rs)(e := True)"
    and "next_at (rs[e := new_rule pub c prev x]) = (next_at rs)(e := 0)"
    and "prev_at (rs[e := new_rule pub c prev x]) = (prev_at rs)(e := unat prev)"
    and "indx_at (rs[e := new_rule pub c prev x]) = (indx_at rs)(e := unat x)"
    and "dead_at (rs[e := new_rule pub c prev x]) = (dead_at rs)(e := (r_protocol c = 0xFF))"
    and "client_at (rs[e := new_rule pub c prev x]) = (client_at rs)(e := c)"
  using assms new_rule_fields [of pub c prev x]
  by (auto simp: fun_eq_iff enabled_at_def next_at_def prev_at_def indx_at_def dead_at_def client_at_def nth_list_update
      IPA_NAT_INVALID_PROTO_FIELD_CMP_def simp del: read_fields)

text \<open>Entering a rule: as the head of a chain, or behind the last entry of its chain.\<close>

lemma rules_new_head:
  assumes wf: "rules_wf T N rs ch" and "T \<le> N" and h: "h = dst_bucket T c" "h \<in> {0<..<T}" and "\<not> enabled_at rs h"
    and "r_protocol c \<noteq> 0xFF"
  shows "rules_wf T N (rs[h := new_rule pub c 0 x]) (ch(h := [h]))"
proof -
  note D = rules_wfD [OF wf]
  have len: "h < length rs" using D(1) assms(2) h(2) by simp
  note V = new_rule_views [OF len, of pub c 0 x]
  have empty: "ch h = []"
  proof -
    have "h \<notin> set (ch h)" using chained_occ [OF D(2), of h] assms(2,5) h(2) by auto
    then show ?thesis using chainedD(1) [OF D(2), of h] by (cases "ch h") (auto simp: bucket_shape_def)
  qed
  have "chained T N (enabled_at (rs[h := new_rule pub c 0 x])) (next_at (rs[h := new_rule pub c 0 x]))
     (prev_at (rs[h := new_rule pub c 0 x])) (ch(h := [h]))"
    unfolding V using chained_new_head [OF D(2) h(2) assms(5,2)] by simp
  moreover have "i \<in> set ((ch(h := [h])) (dst_bucket T (client_at (rs[h := new_rule pub c 0 x]) i)))"
    if "i < N" "live_at (rs[h := new_rule pub c 0 x]) i" for i
    using that D(5) [of i] empty h(1) unfolding live_at_def V by (auto split: if_splits)
  ultimately show ?thesis
    using D len assms(6) h unfolding rules_wf_def V by (auto simp: nth_list_update)
qed

lemma rules_append:
  assumes wf: "rules_wf T N rs ch" and "T \<le> N" and "ch (dst_bucket T c) = xs @ [a]" and e: "e \<in> {T<..<N}" "\<not> enabled_at rs e"
    and "r_protocol c \<noteq> 0xFF" and "unat prev = a" and "unat v = e"
  shows "rules_wf T N (update_at a (write16 8 v) (rs[e := new_rule pub c prev x])) (ch(dst_bucket T c := xs @ [a, e]))"
proof -
  note D = rules_wfD [OF wf]
  let ?h = "dst_bucket T c" and ?rs = "rs[e := new_rule pub c prev x]" and ?n = "update_at a (write16 8 v) (rs[e := new_rule pub c prev x])"
  have a: "a < N" "e \<noteq> a" "a \<in> set (ch ?h)"
    using chained_range [OF D(2), of a ?h] assms(2,3) chained_occ [OF D(2), of a ?h] e by auto
  have len: "e < length rs" "a < length ?rs" using D(1) e a by simp_all
  note V = new_rule_views [OF len(1), of pub c prev x]
  note W = write_next_views [OF len(2), of v]
  have "chained T N (enabled_at ?n) (next_at ?n) (prev_at ?n) (ch(?h := xs @ [a, e]))"
    unfolding W V using chained_append [OF D(2) assms(3) e] assms(7,8) by simp
  moreover have "i \<in> set ((ch(?h := xs @ [a, e])) (dst_bucket T (client_at ?n i)))" if "i < N" "live_at ?n i" for i
    using that D(5) [of i] assms(3) unfolding live_at_def W V by (auto split: if_splits)
  moreover have "i < T \<Longrightarrow> \<not> enabled_at ?n i \<Longrightarrow> ?n ! i = zero_rule" for i
    using D(4) [of i] e a chained_occ [OF D(2) a(1,3)] unfolding W V nth_update_at [OF len(2)] by (auto simp: nth_list_update)
  ultimately show ?thesis
    using D(1,3) e assms(6) unfolding rules_wf_def W V by (auto split: if_splits)
qed

text \<open>Taking a rule out.\<close>

definition set_prev :: "u16 \<Rightarrow> ipa_nat_rule \<Rightarrow> ipa_nat_rule" where
  "set_prev v r = r\<lparr>sw_spec_params := set_lo (sw_spec_params r) v\<rparr>"

definition set_indx :: "u16 \<Rightarrow> ipa_nat_rule \<Rightarrow> ipa_nat_rule" where
  "set_indx v r = r\<lparr>sw_spec_params := set_hi (sw_spec_params r) v\<rparr>"

lemma set_prev_views:
  assumes "p < length rs"
  shows "enabled_at (update_at p (set_prev v) rs) = enabled_at rs" "next_at (update_at p (set_prev v) rs) = next_at rs"
    and "prev_at (update_at p (set_prev v) rs) = (prev_at rs)(p := unat v)" "indx_at (update_at p (set_prev v) rs) = indx_at rs"
    and "dead_at (update_at p (set_prev v) rs) = dead_at rs" "client_at (update_at p (set_prev v) rs) = client_at rs"
  by (auto simp: fun_eq_iff rule_views nth_update_at [OF assms] set_prev_def)

lemma set_indx_views:
  assumes "p < length rs"
  shows "enabled_at (update_at p (set_indx v) rs) = enabled_at rs" "next_at (update_at p (set_indx v) rs) = next_at rs"
    and "prev_at (update_at p (set_indx v) rs) = prev_at rs" "indx_at (update_at p (set_indx v) rs) = (indx_at rs)(p := unat v)"
    and "dead_at (update_at p (set_indx v) rs) = dead_at rs" "client_at (update_at p (set_indx v) rs) = client_at rs"
  by (auto simp: fun_eq_iff rule_views nth_update_at [OF assms] set_indx_def)

lemma zero_rule_fields: "\<not> rule_enabled zero_rule" "next_index zero_rule = 0" "prev_index zero_rule = 0"
  "indx_tbl_entry zero_rule = 0" "rule_protocol zero_rule = 0"
  by (simp_all add: zero_rule_def lo16_def hi16_def)

lemma zero_views:
  assumes "i < length rs"
  shows "enabled_at (rs[i := zero_rule]) = (enabled_at rs)(i := False)" "next_at (rs[i := zero_rule]) = (next_at rs)(i := 0)"
    and "prev_at (rs[i := zero_rule]) = (prev_at rs)(i := 0)" "indx_at (rs[i := zero_rule]) = (indx_at rs)(i := 0)"
    and "dead_at (rs[i := zero_rule]) = (dead_at rs)(i := False)"
    and "client_at (rs[i := zero_rule]) = (client_at rs)(i := client_of zero_rule)"
  using assms zero_rule_fields
  by (auto simp: fun_eq_iff enabled_at_def next_at_def prev_at_def indx_at_def dead_at_def client_at_def nth_list_update
      IPA_NAT_INVALID_PROTO_FIELD_CMP_def simp del: read_fields)

lemma invalidate_views:
  assumes "i < length rs"
  shows "enabled_at (update_at i (write16 22 0xFF00) rs) = enabled_at rs" "next_at (update_at i (write16 22 0xFF00) rs) = next_at rs"
    and "prev_at (update_at i (write16 22 0xFF00) rs) = prev_at rs" "indx_at (update_at i (write16 22 0xFF00) rs) = indx_at rs"
    and "dead_at (update_at i (write16 22 0xFF00) rs) = (dead_at rs)(i := True)"
    and "j \<noteq> i \<Longrightarrow> client_at (update_at i (write16 22 0xFF00) rs) j = client_at rs j"
  using assms by (auto simp: fun_eq_iff rule_views nth_update_at [OF assms] write16_def IPA_NAT_INVALID_PROTO_FIELD_CMP_def)

text \<open>The other rules are as before.\<close>

definition removed :: "nat \<Rightarrow> ipa_nat_rule list \<Rightarrow> ipa_nat_rule list \<Rightarrow> bool" where
  "removed i rs rs' \<longleftrightarrow> live_at rs' = (live_at rs)(i := False) \<and>
     (\<forall>j. j \<noteq> i \<longrightarrow> indx_at rs' j = indx_at rs j \<and> client_at rs' j = client_at rs j)"

lemma rules_wf_removed:
  assumes wf: "rules_wf T N rs ch" and "length rs' = N"
    and "chained T N (enabled_at rs') (next_at rs') (prev_at rs') (ch(h := zs))" and "set (ch h) \<subseteq> insert i (set zs)"
    and "removed i rs rs'" and "\<And>j. j < N \<Longrightarrow> enabled_at rs' j \<Longrightarrow> dead_at rs' j \<Longrightarrow> j < T"
    and "\<And>j. j < T \<Longrightarrow> \<not> enabled_at rs' j \<Longrightarrow> rs' ! j = zero_rule"
  shows "rules_wf T N rs' (ch(h := zs))"
proof -
  have "j \<in> set ((ch(h := zs)) (dst_bucket T (client_at rs' j)))" if "j < N" "live_at rs' j" for j
    using that assms(4,5) rules_wfD(5) [OF wf, of j] by (auto simp: removed_def split: if_splits)
  with assms show ?thesis by (auto simp: rules_wf_def)
qed

lemma rules_drop_only:
  assumes wf: "rules_wf T N rs ch" and "ch i = [i]" and "i < T" and "T \<le> N"
  shows "rules_wf T N (rs[i := zero_rule]) (ch(i := []))" and "removed i rs (rs[i := zero_rule])"
proof -
  note D = rules_wfD [OF wf]
  have len: "i < length rs" using D(1) assms(3,4) by simp
  note V = zero_views [OF len]
  show r: "removed i rs (rs[i := zero_rule])" by (auto simp: removed_def live_at_def fun_eq_iff V)
  show "rules_wf T N (rs[i := zero_rule]) (ch(i := []))"
    using chained_drop_only [OF D(2) assms(2)] D assms(2) len
    by (intro rules_wf_removed [OF wf _ _ _ r]) (auto simp: V nth_list_update split: if_splits)
qed

lemma rules_drop_last:
  assumes wf: "rules_wf T N rs ch" and ch: "ch h = us @ [a, i]" and "T \<le> i" "i < N" "T \<le> N"
  shows "rules_wf T N ((update_at a (write16 8 0) rs)[i := zero_rule]) (ch(h := us @ [a]))"
    and "removed i rs ((update_at a (write16 8 0) rs)[i := zero_rule])"
proof -
  note D = rules_wfD [OF wf]
  have a: "a < N" "enabled_at rs a" using chained_range [OF D(2), of a h] chained_occ [OF D(2), of a h] ch assms(5) by auto
  have len: "a < length rs" "i < length (update_at a (write16 8 0) rs)" using D(1) assms(4) a by simp_all
  note V = zero_views [OF len(2)] write_next_views [OF len(1), of 0]
  show r: "removed i rs ((update_at a (write16 8 0) rs)[i := zero_rule])" by (auto simp: removed_def live_at_def fun_eq_iff V)
  show "rules_wf T N ((update_at a (write16 8 0) rs)[i := zero_rule]) (ch(h := us @ [a]))"
    using chained_drop_last [OF D(2) ch, of 0 0] D ch len a assms(3)
    by (intro rules_wf_removed [OF wf _ _ _ r]) (auto simp: V nth_list_update nth_update_at split: if_splits)
qed

lemma rules_drop_middle:
  assumes wf: "rules_wf T N rs ch" and ch: "ch h = us @ a # i # b # vs" and "T \<le> i" "i < N" "T \<le> N"
    and v: "unat v = b" "unat w = a"
  shows "rules_wf T N ((update_at b (set_prev w) (update_at a (write16 8 v) rs))[i := zero_rule]) (ch(h := us @ a # b # vs))"
    and "removed i rs ((update_at b (set_prev w) (update_at a (write16 8 v) rs))[i := zero_rule])"
proof -
  note D = rules_wfD [OF wf]
  have b: "b \<in> set (tl (ch h))" using ch by (cases us) auto
  have a: "a < N" "enabled_at rs a" "b < N" "T < b" "enabled_at rs b"
    using chained_range [OF D(2), of a h] chained_range [OF D(2), of b h] chained_occ [OF D(2), of a h]
      chained_occ [OF D(2), of b h] ch assms(5) chainedD(1) [OF D(2), of h] b by (auto simp: bucket_shape_def)
  have len: "a < length rs" "b < length (update_at a (write16 8 v) rs)"
    "i < length (update_at b (set_prev w) (update_at a (write16 8 v) rs))" using D(1) assms(4) a by simp_all
  note V = zero_views [OF len(3)] set_prev_views [OF len(2), of w] write_next_views [OF len(1), of v]
  let ?n = "(update_at b (set_prev w) (update_at a (write16 8 v) rs))[i := zero_rule]"
  show r: "removed i rs ?n" by (auto simp: removed_def live_at_def fun_eq_iff V)
  show "rules_wf T N ?n (ch(h := us @ a # b # vs))"
    using chained_drop_middle [OF D(2) ch, of 0 0] D ch len a assms(3) v
    by (intro rules_wf_removed [OF wf _ _ _ r]) (auto simp: V nth_list_update nth_update_at split: if_splits)
qed

lemma rules_drop_head:
  assumes wf: "rules_wf T N rs ch" and "enabled_at rs i" and "i < T" "T \<le> N"
  shows "rules_wf T N (update_at i (write16 22 0xFF00) rs) ch" and "removed i rs (update_at i (write16 22 0xFF00) rs)"
proof -
  note D = rules_wfD [OF wf]
  have len: "i < length rs" using D(1) assms(3,4) by simp
  note V = invalidate_views [OF len]
  show r: "removed i rs (update_at i (write16 22 0xFF00) rs)" using V(6) by (auto simp: removed_def live_at_def fun_eq_iff V(1-5))
  have "rules_wf T N (update_at i (write16 22 0xFF00) rs) (ch(i := ch i))"
    using D assms(2,3) len
    by (intro rules_wf_removed [OF wf _ _ _ r]) (auto simp: V(1-5) nth_update_at split: if_splits)
  then show "rules_wf T N (update_at i (write16 22 0xFF00) rs) ch" by simp
qed

text \<open>The sweep over the dead heads: afterwards none is alone in its chain, and the live rules are untouched.\<close>

abbreviation sweep_step :: "nat \<Rightarrow> ipa_nat_rule list \<Rightarrow> ipa_nat_rule list" where
  "sweep_step \<equiv> \<lambda>cnt rs. if is_dead_head (rs ! cnt) then rs[cnt := zero_rule] else rs"

definition same_live :: "ipa_nat_rule list \<Rightarrow> ipa_nat_rule list \<Rightarrow> bool" where
  "same_live rs rs' \<longleftrightarrow> live_at rs' = live_at rs \<and>
     (\<forall>j. live_at rs j \<longrightarrow> indx_at rs' j = indx_at rs j \<and> client_at rs' j = client_at rs j)"

lemma same_live_trans: "same_live a b \<Longrightarrow> same_live b c \<Longrightarrow> same_live a c"
  by (auto simp: same_live_def)

lemma is_dead_head_at: "is_dead_head (rs ! i) \<longleftrightarrow> dead_at rs i \<and> next_at rs i = 0"
  by (simp add: is_dead_head_def dead_at_def next_at_def IPA_NAT_INVALID_NAT_ENTRY_def unat_eq_0)

lemma zero_not_dead: "\<not> is_dead_head zero_rule"
  using zero_rule_fields(5) by (auto simp: is_dead_head_def IPA_NAT_INVALID_PROTO_FIELD_CMP_def simp del: read_fields)

lemma sweep_step_ok:
  assumes wf: "rules_wf T N rs ch" and "cnt < T" "T \<le> N"
  shows "\<exists>ch'. rules_wf T N (sweep_step cnt rs) ch'" and "same_live rs (sweep_step cnt rs)"
proof -
  note D = rules_wfD [OF wf]
  have len: "cnt < length rs" using D(1) assms(2,3) by simp
  have single: "ch cnt = [cnt]" if "is_dead_head (rs ! cnt)"
  proof -
    have "enabled_at rs cnt"
    proof (rule ccontr)
      assume "\<not> enabled_at rs cnt"
      from D(4) [OF assms(2) this] that show False by (simp add: zero_not_dead)
    qed
    from chained_head [OF D(2) this assms(2,3)] obtain es where es: "ch cnt = cnt # es"
      and n: "next_at rs cnt = (case es of [] \<Rightarrow> 0 | b # _ \<Rightarrow> b)" .
    have "0 \<notin> set es" using chained_range [OF D(2), of 0 cnt] es assms(3) by auto
    with n that show ?thesis using es by (auto simp: is_dead_head_at split: list.splits)
  qed
  show "\<exists>ch'. rules_wf T N (sweep_step cnt rs) ch'"
    using rules_drop_only(1) [OF wf single assms(2,3)] wf by auto
  show "same_live rs (sweep_step cnt rs)"
    by (auto simp: same_live_def live_at_def fun_eq_iff is_dead_head_at zero_views [OF len])
qed

lemma sweep_ok:
  assumes "rules_wf T N rs ch" and "T \<le> N"
  defines "rs' \<equiv> for_upto T sweep_step rs"
  shows "(\<exists>ch'. rules_wf T N rs' ch') \<and> same_live rs rs' \<and> swept T rs'"
proof -
  let ?I = "\<lambda>k q. (\<exists>ch'. rules_wf T N q ch') \<and> same_live rs q \<and> (\<forall>i<k. \<not> is_dead_head (q ! i))"
  have "?I T (for_upto T sweep_step rs)"
  proof (rule for_upto_inv_idx [where I = ?I])
    show "?I 0 rs" using assms(1) by (auto simp: same_live_def)
    fix i q assume i: "i < T" and I: "?I i q"
    then obtain ch' where ch': "rules_wf T N q ch'" by blast
    have "i < length q" using rules_wfD(1) [OF ch'] i assms(2) by simp
    then have "\<forall>j<Suc i. \<not> is_dead_head (sweep_step i q ! j)"
      using I by (auto simp: nth_list_update less_Suc_eq zero_not_dead)
    with sweep_step_ok [OF ch' i assms(2)] I show "?I (Suc i) (sweep_step i q)" by (blast intro: same_live_trans)
  qed
  then show ?thesis by (auto simp: swept_def rs'_def is_dead_head_at)
qed

end
