(* ===== verification/NatDrv_Index.thy ===== *)
theory NatDrv_Index
  imports NatDrv_Tables
begin

text \<open>
  The index table of the NAT table library as a table of chains, the links between the two tables,
  and the array of rule handles.
\<close>

section \<open>The index table\<close>

definition index_wf :: "nat \<Rightarrow> nat \<Rightarrow> u32 list \<Rightarrow> u16 list \<Rightarrow> (nat \<Rightarrow> nat list) \<Rightarrow> bool" where
  "index_wf T N xs meta ch \<longleftrightarrow>
     length xs = N \<and> length meta = N - T \<and> chained T N (\<lambda>i. ient_at xs i \<noteq> 0) (inext_at xs) (iprev_at T meta) ch"

lemma index_wfD:
  assumes "index_wf T N xs meta ch"
  shows "length xs = N" "length meta = N - T" "chained T N (\<lambda>i. ient_at xs i \<noteq> 0) (inext_at xs) (iprev_at T meta) ch"
  using assms by (auto simp: index_wf_def)

lemma new_index_views:
  assumes "x < length xs"
  shows "ient_at (xs[x := join16 e 0]) = (ient_at xs)(x := unat e)" "inext_at (xs[x := join16 e 0]) = (inext_at xs)(x := 0)"
  using assms by (auto simp: fun_eq_iff index_views nth_list_update)

lemma zero_index_views:
  assumes "x < length xs"
  shows "ient_at (xs[x := 0]) = (ient_at xs)(x := 0)" "inext_at (xs[x := 0]) = (inext_at xs)(x := 0)"
  using assms by (auto simp: fun_eq_iff index_views nth_list_update)

lemma write_index_views:
  assumes "p < length xs"
  shows "ient_at (update_at p (write_index16 2 v) xs) = ient_at xs"
    and "inext_at (update_at p (write_index16 2 v) xs) = (inext_at xs)(p := unat v)"
    and "ient_at (update_at p (write_index16 0 v) xs) = (ient_at xs)(p := unat v)"
    and "inext_at (update_at p (write_index16 0 v) xs) = inext_at xs"
  by (auto simp: fun_eq_iff index_views nth_update_at [OF assms] write_index16_def)

lemma meta_views: "k < length meta \<Longrightarrow> iprev_at T (meta[k := v]) = (iprev_at T meta)(T + k := unat v)"
  by (auto simp: fun_eq_iff iprev_at_def nth_list_update)

lemma index_new_head:
  assumes wf: "index_wf T N xs meta ch" and "T \<le> N" and "h \<in> {0<..<T}" and "ient_at xs h = 0" and "e \<noteq> 0"
  shows "index_wf T N (xs[h := join16 e 0]) meta (ch(h := [h]))"
proof -
  note D = index_wfD [OF wf]
  have V: "ient_at (xs[h := join16 e 0]) = (ient_at xs)(h := unat e)" "inext_at (xs[h := join16 e 0]) = (inext_at xs)(h := 0)"
    using new_index_views D(1) assms(2,3) by auto
  have "chained T N ((\<lambda>i. ient_at xs i \<noteq> 0)(h := True)) ((inext_at xs)(h := 0)) ((iprev_at T meta)(h := 0)) (ch(h := [h]))"
    using assms by (intro chained_new_head [OF D(3)]) auto
  moreover have "(\<lambda>i. ((ient_at xs)(h := unat e)) i \<noteq> 0) = (\<lambda>i. ient_at xs i \<noteq> 0)(h := True)"
    using assms(5) by (auto simp: fun_eq_iff unat_gt_0)
  moreover have "(iprev_at T meta)(h := 0) = iprev_at T meta" using assms(3) by (auto simp: iprev_at_def)
  ultimately show ?thesis using D(1,2) by (simp add: index_wf_def V)
qed

lemma index_append:
  assumes wf: "index_wf T N xs meta ch" and "T \<le> N" and ch: "ch h = us @ [a]" and x: "x \<in> {T<..<N}" "ient_at xs x = 0"
    and "e \<noteq> 0" and "unat prev = a" and "unat v = x"
  shows "index_wf T N (update_at a (write_index16 2 v) (xs[x := join16 e 0])) (meta[x - T := prev]) (ch(h := us @ [a, x]))"
proof -
  note D = index_wfD [OF wf]
  have len: "x < length xs" "a < length (xs[x := join16 e 0])" "x - T < length meta"
    using D x chained_range [OF D(3), of a h] ch assms(2) by auto
  note V = write_index_views [OF len(2), of v] new_index_views [OF len(1), of e] meta_views [OF len(3)]
  have "chained T N ((\<lambda>i. ient_at xs i \<noteq> 0)(x := True)) ((inext_at xs)(x := 0, a := x)) ((iprev_at T meta)(x := a)) (ch(h := us @ [a, x]))"
    using x by (intro chained_append [OF D(3) ch]) auto
  moreover have "(\<lambda>i. ((ient_at xs)(x := unat e)) i \<noteq> 0) = (\<lambda>i. ient_at xs i \<noteq> 0)(x := True)"
    using assms(6) by (auto simp: fun_eq_iff unat_gt_0)
  ultimately show ?thesis using D(1,2) assms(7,8) x by (simp add: index_wf_def V)
qed

lemma index_drop_only:
  assumes wf: "index_wf T N xs meta ch" and "ch x = [x]" and "x < T" "T \<le> N"
  shows "index_wf T N (xs[x := 0]) meta (ch(x := []))"
proof -
  note D = index_wfD [OF wf]
  have len: "x < length xs" using D(1) assms(3,4) by simp
  have "chained T N ((\<lambda>i. ient_at xs i \<noteq> 0)(x := False)) ((inext_at xs)(x := 0)) ((iprev_at T meta)(x := 0)) (ch(x := []))"
    by (rule chained_drop_only [OF D(3) assms(2)])
  moreover have "(\<lambda>i. ((ient_at xs)(x := 0)) i \<noteq> 0) = (\<lambda>i. ient_at xs i \<noteq> 0)(x := False)" by auto
  moreover have "(iprev_at T meta)(x := 0) = iprev_at T meta" using assms(3) by (auto simp: iprev_at_def)
  ultimately show ?thesis using D(1,2) by (simp add: index_wf_def zero_index_views [OF len])
qed

lemma index_drop_last:
  assumes wf: "index_wf T N xs meta ch" and ch: "ch h = us @ [a, x]" and "x < N" "T \<le> N"
  shows "index_wf T N ((update_at a (write_index16 2 0) xs)[x := 0]) meta (ch(h := us @ [a]))"
proof -
  note D = index_wfD [OF wf]
  have len: "a < length xs" "x < length (update_at a (write_index16 2 0) xs)"
    using D(1) assms(3) chained_range [OF D(3), of a h] ch assms(4) by auto
  note V = zero_index_views [OF len(2)] write_index_views [OF len(1), of 0]
  have "chained T N ((\<lambda>i. ient_at xs i \<noteq> 0)(x := False)) ((inext_at xs)(a := 0, x := 0))
      ((iprev_at T meta)(x := iprev_at T meta x)) (ch(h := us @ [a]))"
    by (rule chained_drop_last [OF D(3) ch])
  moreover have "(\<lambda>i. ((ient_at xs)(x := 0)) i \<noteq> 0) = (\<lambda>i. ient_at xs i \<noteq> 0)(x := False)" by auto
  ultimately show ?thesis using D(1,2) by (simp add: index_wf_def V)
qed

lemma index_drop_middle:
  assumes wf: "index_wf T N xs meta ch" and ch: "ch h = us @ a # x # b # vs" and "T \<le> x" "x < N" "T \<le> N"
    and v: "unat v = b" "unat w = a"
  shows "index_wf T N ((update_at a (write_index16 2 v) xs)[x := 0]) (meta[b - T := w, x - T := 0]) (ch(h := us @ a # b # vs))"
proof -
  note D = index_wfD [OF wf]
  have b: "T < b" "b < N" "b \<noteq> x"
    using chainedD(1) [OF D(3), of h] ch by (cases us; force simp: bucket_shape_def)+
  have len: "a < length xs" "x < length (update_at a (write_index16 2 v) xs)" "b - T < length meta" "x - T < length (meta[b - T := w])"
    using D(1,2) assms(3,4) b chained_range [OF D(3), of a h] ch assms(5) by auto
  note V = zero_index_views [OF len(2)] write_index_views [OF len(1), of v] meta_views [OF len(3)] meta_views [OF len(4)]
  have "chained T N ((\<lambda>i. ient_at xs i \<noteq> 0)(x := False)) ((inext_at xs)(a := b, x := 0))
      ((iprev_at T meta)(b := a, x := 0)) (ch(h := us @ a # b # vs))"
    by (rule chained_drop_middle [OF D(3) ch])
  moreover have "(\<lambda>i. ((ient_at xs)(x := 0)) i \<noteq> 0) = (\<lambda>i. ient_at xs i \<noteq> 0)(x := False)" by auto
  ultimately show ?thesis using D(1,2) b v assms(3) by (simp add: index_wf_def V)
qed

text \<open>The head \<open>h\<close> takes over the values of the second entry \<open>y\<close>.\<close>

lemma pull_up_views:
  assumes "h < length xs" and "y < length xs" and "h \<noteq> y"
  defines "q \<equiv> (update_at h (write_index16 2 (index_next (xs ! y))) (update_at h (write_index16 0 (index_tbl_entry (xs ! y))) xs))[y := 0]"
  shows "ient_at q = (ient_at xs)(h := ient_at xs y, y := 0)" "inext_at q = (inext_at xs)(h := inext_at xs y, y := 0)"
  using assms by (auto simp: fun_eq_iff index_views nth_list_update nth_update_at write_index16_def)

lemma index_pull_up:
  assumes wf: "index_wf T N xs meta ch" and ch: "ch h = h # y # ys" and "T \<le> N" and w: "unat w = h"
  defines "q \<equiv> (update_at h (write_index16 2 (index_next (xs ! y))) (update_at h (write_index16 0 (index_tbl_entry (xs ! y))) xs))[y := 0]"
  shows "index_wf T N q (if inext_at xs y = 0 then meta else meta[inext_at xs y - T := w]) (ch(h := h # ys))"
proof -
  note D = index_wfD [OF wf]
  have y: "h < T" "0 < h" "T < y" "y < N" using chainedD(1) [OF D(3), of h] ch by (auto simp: bucket_shape_def)
  have hy: "h < length xs" "y < length xs" "h \<noteq> y" using D(1) y assms(3) by auto
  note V = pull_up_views [OF hy, folded q_def]
  have n: "inext_at xs y = 0 \<or> inext_at xs y \<in> set ys"
    using links_nxt [of "inext_at xs" "iprev_at T meta" "[h]" y ys] chainedD(2) [OF D(3), of h] ch by (cases ys) auto
  then have nn: "inext_at xs y \<noteq> 0 \<Longrightarrow> T < inext_at xs y \<and> inext_at xs y < N \<and> inext_at xs y \<noteq> y"
    using chainedD(1) [OF D(3), of h] ch by (auto simp: bucket_shape_def)
  have pv: "iprev_at T (if inext_at xs y = 0 then meta else meta[inext_at xs y - T := w]) =
      (if inext_at xs y = 0 then (iprev_at T meta)(y := iprev_at T meta y)
       else (iprev_at T meta)(inext_at xs y := h, y := iprev_at T meta y))"
    using nn D(2) w by (auto simp: meta_views fun_eq_iff)
  have "chained T N ((\<lambda>i. ient_at xs i \<noteq> 0)(y := False)) ((inext_at xs)(h := inext_at xs y, y := 0))
     (iprev_at T (if inext_at xs y = 0 then meta else meta[inext_at xs y - T := w])) (ch(h := h # ys))"
    unfolding pv by (rule chained_pull_up [OF D(3) ch])
  moreover have "(\<lambda>i. ((ient_at xs)(h := ient_at xs y, y := 0)) i \<noteq> 0) = (\<lambda>i. ient_at xs i \<noteq> 0)(y := False)"
    using chained_occ [OF D(3), of h h] chained_occ [OF D(3), of y h] ch y assms(3) hy(3) by (auto simp: fun_eq_iff)
  ultimately show ?thesis using D(1,2) by (simp add: index_wf_def V) (simp add: q_def)
qed

section \<open>The links between the tables\<close>

text \<open>
  Each live rule \<open>i\<close> names the entry \<open>ix i\<close> of the index table that holds it, each entry \<open>x\<close> of the
  index table in use holds a live rule \<open>te x\<close> that names it, and stands in the chain of the bucket \<open>hs (te x)\<close> of
  that rule.
\<close>

definition cross :: "nat \<Rightarrow> (nat \<Rightarrow> bool) \<Rightarrow> (nat \<Rightarrow> nat) \<Rightarrow> (nat \<Rightarrow> nat) \<Rightarrow> (nat \<Rightarrow> nat) \<Rightarrow> (nat \<Rightarrow> nat list) \<Rightarrow> bool" where
  "cross N L ix te hs ch \<longleftrightarrow>
     (\<forall>i<N. L i \<longrightarrow> i \<noteq> 0 \<and> ix i < N \<and> te (ix i) = i) \<and>
     (\<forall>x<N. te x \<noteq> 0 \<longrightarrow> te x < N \<and> L (te x) \<and> ix (te x) = x \<and> x \<in> set (ch (hs (te x))))"

lemma crossD:
  assumes "cross N L ix te hs ch"
  shows "i < N \<Longrightarrow> L i \<Longrightarrow> ix i < N" "i < N \<Longrightarrow> L i \<Longrightarrow> te (ix i) = i" "x < N \<Longrightarrow> te x \<noteq> 0 \<Longrightarrow> te x < N"
    "x < N \<Longrightarrow> te x \<noteq> 0 \<Longrightarrow> L (te x)" "x < N \<Longrightarrow> te x \<noteq> 0 \<Longrightarrow> ix (te x) = x"
    "x < N \<Longrightarrow> te x \<noteq> 0 \<Longrightarrow> x \<in> set (ch (hs (te x)))" "i < N \<Longrightarrow> L i \<Longrightarrow> i \<noteq> 0"
  using assms by (simp_all add: cross_def)

lemma cross_cong:
  assumes "cross N L ix te hs ch" and "\<And>i. i < N \<Longrightarrow> L' i = L i" and "\<And>i. i < N \<Longrightarrow> L i \<Longrightarrow> ix' i = ix i \<and> hs' i = hs i"
    and "\<And>x. x < N \<Longrightarrow> te' x = te x"
  shows "cross N L' ix' te' hs' ch"
  using assms by (auto simp: cross_def)

lemma cross_add:
  assumes c: "cross N L ix te hs ch" and "e < N" "e \<noteq> 0" "\<not> L e" and "x < N" "te x = 0"
    and "x \<in> set zs" and "set (ch h) \<subseteq> set zs"
  shows "cross N (L(e := True)) (ix(e := x)) (te(x := e)) (hs(e := h)) (ch(h := zs))"
proof -
  note D = crossD [OF c]
  have "ix i \<noteq> x" if "i < N" "L i" for i using D(2,7) [OF that] assms(6) by auto
  moreover have "te y \<noteq> e" if "y < N" for y using D(4) [OF that] assms(3,4) by auto
  ultimately show ?thesis using D assms(2-) unfolding cross_def by (auto simp: fun_upd_def)
qed

text \<open>Deleting rule \<open>i\<close> frees its entry \<open>x\<close>; when the index table instead moves the rule of \<open>y\<close> into \<open>x\<close>,
  that rule is told.\<close>

lemma cross_del:
  assumes c: "cross N L ix te hs ch" and i: "i < N" "L i" and x: "x = ix i" and "set (ch h) \<subseteq> insert x (set zs)"
  shows "cross N (L(i := False)) ix (te(x := 0)) hs (ch(h := zs))"
proof -
  note D = crossD [OF c]
  have "te y \<noteq> i" if "y < N" "y \<noteq> x" for y using D(5) [OF that(1)] D(7) [OF i] that(2) x by metis
  moreover have "ix j \<noteq> x" if "j < N" "L j" "j \<noteq> i" for j using D(2) [OF that(1,2)] D(2) [OF i] x that(3) by auto
  moreover have "y \<in> set ((ch(h := zs)) (hs (te y)))" if "y < N" "te y \<noteq> 0" "y \<noteq> x" for y
    using D(6) [OF that(1,2)] that(3) assms(5) by auto
  ultimately show ?thesis using D unfolding cross_def by auto
qed

lemma cross_move:
  assumes c: "cross N L ix te hs ch" and i: "i < N" "L i" and x: "x = ix i" and y: "y < N" "te y \<noteq> 0" "y \<noteq> x"
    and "set (ch h) \<subseteq> insert y (set zs)" and "hs (te y) = h" and "x \<in> set zs"
  shows "cross N (L(i := False)) (ix(te y := x)) (te(x := te y, y := 0)) hs (ch(h := zs))"
proof -
  note D = crossD [OF c]
  have j: "te y < N" "L (te y)" "ix (te y) = y" "te y \<noteq> i" using D(3-5) [OF y(1,2)] x y(3) by auto
  have xN: "x < N" "te x = i" using D(1,2) [OF i] x by simp_all
  let ?L = "L(i := False)" and ?ix = "ix(te y := x)" and ?te = "te(x := te y, y := 0)" and ?ch = "ch(h := zs)"
  have "k \<noteq> 0 \<and> ?ix k < N \<and> ?te (?ix k) = k" if "k < N" "?L k" for k
  proof (cases "k = te y")
    case True
    then show ?thesis using xN(1) y j by simp
  next
    case False
    with that have k: "L k" "k \<noteq> i" "?ix k = ix k" by (auto split: if_splits)
    then show ?thesis using D(1,2,7) [OF that(1) k(1)] xN(2) False by auto
  qed
  moreover have "?te z < N \<and> ?L (?te z) \<and> ?ix (?te z) = z \<and> z \<in> set (?ch (hs (?te z)))" if "z < N" "?te z \<noteq> 0" for z
  proof (cases "z = x")
    case True
    then show ?thesis using y j assms(9,10) by simp
  next
    case False
    with that have z: "z \<noteq> y" "te z \<noteq> 0" "?te z = te z" by (auto split: if_splits)
    then have "te z \<noteq> te y" "te z \<noteq> i" using D(5) [OF that(1) z(2)] j(3) x False by auto
    then show ?thesis using D(3-6) [OF that(1) z(2)] z assms(8) by auto
  qed
  ultimately show ?thesis unfolding cross_def by blast
qed

section \<open>Rule handles\<close>

definition rule_id :: "nat \<Rightarrow> nat \<Rightarrow> u16" where
  "rule_id T i = (if T \<le> i then push_bit 1 (of_nat (i - T)) OR 1 else push_bit 1 (of_nat i))"

definition entry_of :: "nat \<Rightarrow> u16 \<Rightarrow> nat" where
  "entry_of T r = (if r AND 1 \<noteq> 0 then T else 0) + unat (drop_bit 1 r)"

lemma drop_push_id:
  fixes w :: u16
  assumes "unat w < 32768"
  shows "drop_bit 1 (push_bit 1 w) = w" and "drop_bit 1 (push_bit 1 w OR 1) = w"
proof -
  have u: "unat (w * 2) = unat w * 2" "unat (w * 2 + 1) = unat w * 2 + 1"
    using assms by (simp_all add: unat_word_ariths mod_less)
  have "push_bit 1 w OR 1 = w * 2 + 1" by (simp add: or_one_eq push_bit_Suc)
  then show "drop_bit 1 (push_bit 1 w OR 1) = w" using u by (simp add: word_unat_eq_iff drop_bit_Suc unat_div)
  show "drop_bit 1 (push_bit 1 w) = w" using u by (simp add: word_unat_eq_iff drop_bit_Suc push_bit_Suc unat_div)
qed

lemma and_one_push: "push_bit 1 w AND 1 = (0 :: u16)" "(push_bit 1 w OR 1) AND 1 = (1 :: u16)"
  by (simp_all add: and_one_eq or_one_eq push_bit_Suc mod_2_eq_odd)

lemma unat_of_nat16: "n < 65536 \<Longrightarrow> unat (of_nat n :: u16) = n"
  by (simp add: unat_of_nat)

lemma rule_id_entry:
  assumes "i < N" and "T \<le> 32768" and "N - T \<le> 32768"
  shows "entry_of T (rule_id T i) = i" and "rule_id T i AND 1 \<noteq> 0 \<longleftrightarrow> T \<le> i"
    and "drop_bit 1 (rule_id T i) = of_nat (if T \<le> i then i - T else i)"
proof -
  have u: "unat (of_nat (i - T) :: u16) = i - T" if "T \<le> i" using assms that by (intro unat_of_nat16) simp
  have v: "unat (of_nat i :: u16) = i" if "i < T" using assms that by (intro unat_of_nat16) simp
  show b: "rule_id T i AND 1 \<noteq> 0 \<longleftrightarrow> T \<le> i" using and_one_push by (auto simp: rule_id_def)
  show d: "drop_bit 1 (rule_id T i) = of_nat (if T \<le> i then i - T else i)"
    using assms u v drop_push_id [of "of_nat (i - T)"] drop_push_id [of "of_nat i"] by (auto simp: rule_id_def)
  show "entry_of T (rule_id T i) = i" using u v unfolding entry_of_def b d by auto
qed

definition ids_wf :: "nat \<Rightarrow> nat \<Rightarrow> (nat \<Rightarrow> bool) \<Rightarrow> u16 list \<Rightarrow> bool" where
  "ids_wf T N L ids \<longleftrightarrow>
     length ids = N \<and> (\<forall>k<N. ids ! k \<noteq> 0 \<longrightarrow> (\<exists>i<N. L i \<and> ids ! k = rule_id T i)) \<and>
     (\<forall>k<N. ids ! k \<noteq> 0 \<longrightarrow> k + 1 < N) \<and>
     (\<forall>k<N. \<forall>l<N. ids ! k \<noteq> 0 \<longrightarrow> ids ! k = ids ! l \<longrightarrow> k = l) \<and>
     (\<forall>i<N. L i \<longrightarrow> (\<exists>k<N. ids ! k = rule_id T i))"

lemma ids_wfD:
  assumes "ids_wf T N L ids"
  shows "length ids = N" "k < N \<Longrightarrow> ids ! k \<noteq> 0 \<Longrightarrow> \<exists>i<N. L i \<and> ids ! k = rule_id T i"
    "k < N \<Longrightarrow> l < N \<Longrightarrow> ids ! k \<noteq> 0 \<Longrightarrow> ids ! k = ids ! l \<Longrightarrow> k = l" "i < N \<Longrightarrow> L i \<Longrightarrow> \<exists>k<N. ids ! k = rule_id T i"
    "k < N \<Longrightarrow> ids ! k \<noteq> 0 \<Longrightarrow> k + 1 < N"
  using assms by (auto simp: ids_wf_def)

lemma ids_wfI:
  assumes "length ids = N" and "\<And>k. k < N \<Longrightarrow> ids ! k \<noteq> 0 \<Longrightarrow> \<exists>i<N. L i \<and> ids ! k = rule_id T i"
    and "\<And>k l. k < N \<Longrightarrow> l < N \<Longrightarrow> ids ! k \<noteq> 0 \<Longrightarrow> ids ! k = ids ! l \<Longrightarrow> k = l"
    and "\<And>i. i < N \<Longrightarrow> L i \<Longrightarrow> \<exists>k<N. ids ! k = rule_id T i"
    and "\<And>k. k < N \<Longrightarrow> ids ! k \<noteq> 0 \<Longrightarrow> k + 1 < N"
  shows "ids_wf T N L ids"
  unfolding ids_wf_def using assms by blast

lemma rule_id_nonzero: "i < N \<Longrightarrow> T \<le> 32768 \<Longrightarrow> N - T \<le> 32768 \<Longrightarrow> i \<noteq> 0 \<Longrightarrow> rule_id T i \<noteq> 0"
  using rule_id_entry(1) [of i N T] by (auto simp: entry_of_def)

text \<open>The first free slot is found, and its handle is in the range the library accepts: two entries are
  never live besides the new one.\<close>

lemma first_free_id_find:
  "\<forall>k\<in>set ks. k < length ids \<Longrightarrow>
     first_free_id ids ks = Some (find (\<lambda>k. ids ! k = 0) ks)"
  by (induction ks) (auto simp: rd_def IPA_NAT_INVALID_NAT_ENTRY_def)

lemma ids_free_slot:
  assumes ids: "ids_wf T N L ids" and "T \<le> 32768" "N - T \<le> 32768" and "0 < T" "T < N" and "\<not> L 0" "\<not> L T" "\<not> L e" "e < N" "e \<noteq> 0" "e \<noteq> T"
  obtains k where "first_free_id ids [0..<N] = Some (Some k)" "k + 2 < N" "ids ! k = 0"
proof -
  note D = ids_wfD [OF ids]
  define k where "k = find_idx (\<lambda>k. ids ! k = 0) N"
  let ?f = "\<lambda>j. entry_of T (ids ! j)"
  have used: "ids ! j \<noteq> 0" if "j < k" for j using find_idx_least that unfolding k_def by metis
  have kN: "k \<le> N" unfolding k_def by (rule find_idx_le)
  have live: "?f j < N \<and> L (?f j) \<and> ids ! j = rule_id T (?f j)" if j: "j < k" for j
  proof -
    obtain i where i: "i < N" "L i" "ids ! j = rule_id T i" using D(2) [of j] used [OF j] j kN by auto
    then show ?thesis using rule_id_entry(1) [OF i(1) assms(2,3)] by simp
  qed
  have "inj_on ?f {..<k}"
  proof (rule inj_onI)
    fix a b assume "a \<in> {..<k}" "b \<in> {..<k}" "?f a = ?f b"
    then show "a = b" using live [of a] live [of b] D(3) [of a b] used [of a] kN by auto
  qed
  moreover have "?f ` {..<k} \<subseteq> {..<N} - {0, T, e}"
  proof (rule image_subsetI)
    fix j assume "j \<in> {..<k}"
    then have "?f j < N" "L (?f j)" using live [of j] by simp_all
    then show "?f j \<in> {..<N} - {0, T, e}" using assms(6-8) by (metis DiffI insertE lessThan_iff singletonD)
  qed
  ultimately have "k \<le> card ({..<N} - {0, T, e})" using card_inj_on_le [of ?f "{..<k}" "{..<N} - {0, T, e}"] by simp
  moreover have "card ({..<N} - {0, T, e}) = N - 3" using assms(4,5,9-11) by (simp add: card_Diff_subset)
  moreover have "3 \<le> N" using assms(4,5,9-11) by simp
  ultimately have k: "k + 2 < N" by simp
  then have "k < N" by simp
  then have "ids ! k = 0" using find_idx_sat [of "\<lambda>k. ids ! k = 0" N] by (simp add: k_def)
  moreover have "first_free_id ids [0..<N] = Some (Some k)"
    using first_free_id_find [of "[0..<N]" ids] D(1) \<open>k < N\<close>
    by (simp add: k_def find_idx_def split: option.splits)
  ultimately show ?thesis using that k by blast
qed

lemma ids_add:
  assumes ids: "ids_wf T N L ids" and bd: "T \<le> 32768" "N - T \<le> 32768" and "\<not> L 0" "\<not> L e" "e < N" and k: "k < N" "ids ! k = 0" "k + 1 < N"
  shows "ids_wf T N (L(e := True)) (ids[k := rule_id T e])"
proof -
  note D = ids_wfD [OF ids]
  let ?n = "ids[k := rule_id T e]"
  have nth: "?n ! l = (if l = k then rule_id T e else ids ! l)" if "l < N" for l using D(1) k(1) that by (auto simp: nth_list_update)
  have ne: "ids ! l \<noteq> rule_id T e" if "l < N" "ids ! l \<noteq> 0" for l
    using D(2) [OF that] rule_id_entry(1) [OF assms(6) bd] rule_id_entry(1) [OF _ bd] assms(5) by metis
  have "\<exists>i<N. (L(e := True)) i \<and> ?n ! l = rule_id T i" if "l < N" "?n ! l \<noteq> 0" for l
    using that D(2) [of l] assms(6) unfolding nth [OF that(1)] by (cases "l = k") auto
  moreover have "l = j" if "l < N" "j < N" "?n ! l \<noteq> 0" "?n ! l = ?n ! j" for l j
  proof (cases "l = k \<or> j = k")
    case True
    then show ?thesis using ne [of l] ne [of j] that by (auto simp: nth split: if_splits)
  next
    case False
    then show ?thesis using D(3) [of l j] that by (simp add: nth)
  qed
  moreover have "\<exists>l<N. ?n ! l = rule_id T i" if i: "i < N" "(L(e := True)) i" for i
  proof (cases "i = e")
    case True
    then show ?thesis using k(1) nth by (intro exI [of _ k]) simp
  next
    case False
    then obtain l where l: "l < N" "ids ! l = rule_id T i" using D(4) [of i] i by auto
    moreover have "i \<noteq> 0" using i False assms(4) by (metis fun_upd_other)
    ultimately have "l \<noteq> k" using rule_id_nonzero [OF i(1) bd] k(2) by auto
    with l nth show ?thesis by (intro exI [of _ l]) simp
  qed
  moreover have "l + 1 < N" if "l < N" "?n ! l \<noteq> 0" for l
    using that D(5) [of l] k nth [OF that(1)] by (auto split: if_splits)
  moreover have "length ?n = N" using D(1) by simp
  ultimately show ?thesis by (rule ids_wfI [rotated])
qed

lemma ids_del:
  assumes ids: "ids_wf T N L ids" and bd: "T \<le> 32768" "N - T \<le> 32768" and "\<not> L 0" and i: "i < N" "L i"
    and k: "k < N" "ids ! k = rule_id T i"
  shows "ids_wf T N (L(i := False)) (ids[k := 0])"
proof -
  note D = ids_wfD [OF ids]
  let ?n = "ids[k := 0]"
  have nth: "?n ! l = (if l = k then 0 else ids ! l)" if "l < N" for l using D(1) k(1) that by (auto simp: nth_list_update)
  have k0: "ids ! k \<noteq> 0" using rule_id_nonzero [OF i(1) bd] k(2) i(2) assms(4) by metis
  have "\<exists>j<N. (L(i := False)) j \<and> ?n ! l = rule_id T j" if l: "l < N" "?n ! l \<noteq> 0" for l
  proof -
    have lk: "l \<noteq> k" "ids ! l \<noteq> 0" using l(2) unfolding nth [OF l(1)] by (auto split: if_splits)
    then obtain j where j: "j < N" "L j" "ids ! l = rule_id T j" using D(2) [OF l(1)] by auto
    moreover have "j \<noteq> i" using D(3) [OF l(1) k(1) lk(2)] j(3) k(2) lk(1) by auto
    ultimately show ?thesis using nth [OF l(1)] lk by (intro exI [of _ j]) simp
  qed
  moreover have "l = j" if "l < N" "j < N" "?n ! l \<noteq> 0" "?n ! l = ?n ! j" for l j
    using D(3) [of l j] that by (auto simp: nth split: if_splits)
  moreover have "\<exists>l<N. ?n ! l = rule_id T j" if j: "j < N" "(L(i := False)) j" for j
  proof -
    from j have ji: "j \<noteq> i" "L j" by (auto split: if_splits)
    then obtain l where l: "l < N" "ids ! l = rule_id T j" using D(4) [OF j(1)] by auto
    have "l \<noteq> k"
    proof
      assume "l = k"
      then have "rule_id T i = rule_id T j" using l k by simp
      then have "i = j" using rule_id_entry(1) [OF i(1) bd] rule_id_entry(1) [OF j(1) bd] by metis
      then show False using ji by simp
    qed
    with l nth show ?thesis by (intro exI [of _ l]) simp
  qed
  moreover have "l + 1 < N" if "l < N" "?n ! l \<noteq> 0" for l
    using that D(5) [of l] k nth [OF that(1)] by (auto split: if_splits)
  moreover have "length ?n = N" using D(1) by simp
  ultimately show ?thesis by (rule ids_wfI [rotated])
qed

end
