(* ===== verification/NatDrv_Inv.thy ===== *)
theory NatDrv_Inv
  imports NatDrv_Index
begin

text \<open>
  The invariant of the NAT tables and the rules they hold, and the code of adding and deleting a rule
  step by step against the operations on chains.
\<close>

section \<open>Invariant and abstraction\<close>

definition mem_ok :: "nat \<Rightarrow> nat \<Rightarrow> nat_mem \<Rightarrow> u16 list \<Rightarrow> u16 list \<Rightarrow> (nat \<Rightarrow> nat list) \<Rightarrow> (nat \<Rightarrow> nat list) \<Rightarrow> bool" where
  "mem_ok T N m meta ids chR chI \<longleftrightarrow>
     rules_wf T N (rules m) chR \<and> swept T (rules m) \<and> index_wf T N (index_rules m) meta chI \<and>
     cross N (live_at (rules m)) (indx_at (rules m)) (ient_at (index_rules m))
       (\<lambda>i. src_bucket T (client_at (rules m) i)) chI \<and>
     ids_wf T N (live_at (rules m)) ids"

definition sizes_ok :: "nat \<Rightarrow> nat \<Rightarrow> bool" where
  "sizes_ok T N \<longleftrightarrow> 2 \<le> T \<and> T \<le> 16384 \<and> T + 2 \<le> N \<and> N \<le> T + 16384"

abbreviation base_size :: "ipa_nat_ip4_table_cache \<Rightarrow> nat" where "base_size t \<equiv> unat (table_entries t)"

abbreviation total_size :: "ipa_nat_ip4_table_cache \<Rightarrow> nat" where
  "total_size t \<equiv> unat (table_entries t) + unat (expn_table_entries t)"

definition table_ok :: "ipa_nat_ip4_table_cache \<Rightarrow> bool" where
  "table_ok t \<longleftrightarrow>
     (\<exists>m meta ids chR chI. valid t \<and> tbl_mem t = Mapped m \<and> index_expn_table_meta t = Some meta \<and>
        rule_id_array t = Some ids \<and> tbl_addr_offset t = 0 \<and> sizes_ok (base_size t) (total_size t) \<and>
        mem_ok (base_size t) (total_size t) m meta ids chR chI)"

text \<open>The rules of the clients, by their handles.\<close>

definition drv_rules :: "ipa_nat_ip4_table_cache \<Rightarrow> u32 \<Rightarrow> ipa_nat_ipv4_rule option" where
  "drv_rules t h =
     (case (tbl_mem t, rule_id_array t) of
        (Mapped m, Some ids) \<Rightarrow>
          (if 0 < unat h \<and> unat h \<le> length ids \<and> ids ! (unat h - 1) \<noteq> 0
           then Some (client_at (rules m) (entry_of (base_size t) (ids ! (unat h - 1)))) else None)
      | _ \<Rightarrow> None)"

section \<open>Places\<close>

lemma unat_minus16: "b \<le> a \<Longrightarrow> unat (a - b) = unat a - unat (b :: u16)"
  by (rule unat_sub)

lemma unat_plus16: "unat a + unat b < 65536 \<Longrightarrow> unat (a + b) = unat a + unat (b :: u16)"
  by (simp add: unat_word_ariths)

lemma place_unat [simp]: "place t e = unat e"
  by (auto simp: place_def addr_of_def not_less unat_minus16 word_le_nat_alt)

lemma addr_of_base [simp]: "addr_of t False e = unat e"
  by (simp add: addr_of_def)

lemma addr_of_expn: "base_size t \<le> unat e \<Longrightarrow> addr_of t True (e - table_entries t) = unat e"
  by (simp add: addr_of_def unat_minus16 word_le_nat_alt)

lemma rd_in [simp]: "i < length xs \<Longrightarrow> rd xs i = Some (xs ! i)"
  by (simp add: rd_def)

lemma wr_in [simp]: "i < length xs \<Longrightarrow> wr xs i v = Some (xs[i := v])"
  by (simp add: wr_def)

lemma invalid_entry [simp]: "IPA_NAT_INVALID_NAT_ENTRY = 0"
  by (simp add: IPA_NAT_INVALID_NAT_ENTRY_def)

lemma buckets_in_range:
  assumes "2 \<le> T" "T \<le> 16384"
  shows "dst_bucket T c \<in> {0<..<T}" "src_bucket T c \<in> {0<..<T}"
proof -
  have u: "unat (of_nat T :: u16) = T" using assms by (intro unat_of_nat16) simp
  have one: "1 \<le> (of_nat T :: u16)" using assms u by (simp add: word_le_nat_alt)
  have m: "unat (of_nat T - 1 :: u16) = T - 1" using unat_sub [OF one] u by simp
  then have "of_nat T - 1 \<noteq> (0 :: u16)" using assms by (auto simp: word_unat_eq_iff)
  from hash_range [OF this] m assms show "dst_bucket T c \<in> {0<..<T}" "src_bucket T c \<in> {0<..<T}"
    unfolding dst_bucket_def src_bucket_def
    by (metis (no_types, lifting) Suc_pred' greaterThanLessThan_iff le_imp_less_Suc less_le_trans zero_less_numeral)+
qed

section \<open>Finding a place for a rule\<close>

text \<open>The place \<open>e\<close> for a new entry of bucket \<open>h\<close> and the entry \<open>p\<close> it is linked to, 0 for none.\<close>

definition slot_for :: "nat \<Rightarrow> nat \<Rightarrow> (nat \<Rightarrow> bool) \<Rightarrow> (nat \<Rightarrow> nat list) \<Rightarrow> nat \<Rightarrow> nat \<Rightarrow> nat \<Rightarrow> bool" where
  "slot_for T N occ ch h p e \<longleftrightarrow>
     \<not> occ h \<and> e = h \<and> p = 0 \<or> (\<exists>us. ch h = us @ [p]) \<and> e \<in> {T<..<N} \<and> \<not> occ e"

lemma last_in_chain_links:
  assumes "links nx pv (b # vs)" and "distinct (b # vs)" and "0 \<notin> set (b # vs)" and "unat nxt = b"
    and "\<And>e. unat e \<in> set (b # vs) \<Longrightarrow> \<exists>n. rd_next e = Some n \<and> unat n = nx (unat e)"
  shows "\<exists>l. last_in_chain rd_next prev nxt = Some (Some l) \<and> unat l = last (b # vs)"
  using assms
proof (induction vs arbitrary: b prev nxt)
  case Nil
  then obtain n where "rd_next nxt = Some n" "unat n = 0" by (metis links.simps(2) list.set_intros(1))
  then have "rd_next nxt = Some 0" by (simp add: unat_eq_0)
  moreover have "nxt \<noteq> 0" using Nil by auto
  ultimately show ?case using Nil.prems(4) by (simp add: last_in_chain.simps)
next
  case (Cons c vs)
  then obtain n where n: "rd_next nxt = Some n" "unat n = c" by (metis links.simps(3) list.set_intros(1))
  have "nxt \<noteq> 0" "nxt \<noteq> n" using Cons.prems(2,3,4) n(2) by auto
  then have "last_in_chain rd_next prev nxt = last_in_chain rd_next nxt n" using n(1) by (subst last_in_chain.simps) simp
  moreover have "\<exists>l. last_in_chain rd_next nxt n = Some (Some l) \<and> unat l = last (c # vs)"
    using Cons.prems n(2) by (intro Cons.IH) auto
  ultimately show ?case by simp
qed

lemma first_free_find:
  assumes "\<And>c. c \<in> set ks \<Longrightarrow> used c = Some (occ c)"
  shows "first_free used ks = Some (case find (\<lambda>c. \<not> occ c) ks of None \<Rightarrow> 0 | Some c \<Rightarrow> of_nat c)"
  using assms by (induction ks) auto

text \<open>The result of searching an expansion table: the offset of an unused entry, or 0 when there is none.\<close>

lemma first_free_expn:
  assumes "\<And>c. c \<in> {1..<X} \<Longrightarrow> used c = Some (occ (T + c))" and "X \<le> 16384"
  obtains (found) e where "first_free used [1..<X] = Some e" "e \<noteq> 0" "unat e < X" "\<not> occ (T + unat e)"
  | (full) "first_free used [1..<X] = Some 0" "\<forall>i\<in>{T<..<T + X}. occ i"
proof (cases "find (\<lambda>c. \<not> occ (T + c)) [1..<X]")
  case None
  then have "occ (T + c)" if "c \<in> {1..<X}" for c using that by (auto simp: find_None_iff)
  then have "\<forall>i\<in>{T<..<T + X}. occ i"
    by (metis One_nat_def add_diff_inverse_nat atLeastLessThan_iff greaterThanLessThan_iff less_diff_conv2 less_imp_le_nat not_less_iff_gr_or_eq
        order_less_imp_not_less zero_less_diff Suc_leI add.commute)
  then show ?thesis using full first_free_find [of "[1..<X]" used "\<lambda>c. occ (T + c)"] assms(1) None by simp
next
  case (Some c)
  then have c: "c \<in> {1..<X}" "\<not> occ (T + c)" by (auto simp: find_Some_iff)
  then have u: "unat (of_nat c :: u16) = c" using assms(2) by (intro unat_of_nat16) simp
  moreover have "first_free used [1..<X] = Some (of_nat c)"
    using first_free_find [of "[1..<X]" used "\<lambda>c. occ (T + c)"] assms(1) Some by simp
  ultimately show ?thesis using c found [of "of_nat c"] by (auto simp: word_unat_eq_iff)
qed

text \<open>The search of the two generating functions, over the fields \<open>nx\<close> and \<open>occ\<close> of the table at hand.\<close>

lemma chain_end:
  assumes c: "chained T N occ nx pv ch" and "occ h" and "h \<in> {0<..<T}" and "T \<le> N" and "unat n = nx h"
    and r: "\<And>e. base_size t \<le> unat e \<Longrightarrow> unat e < N \<Longrightarrow> \<exists>n. rd_next e = Some n \<and> unat n = nx (unat e)" and T: "T = base_size t"
    and "unat hw = h"
  obtains us p where "ch h = us @ [unat p]"
    "(if n = IPA_NAT_INVALID_NAT_ENTRY then Some (Some hw) else last_in_chain rd_next 0 n) = Some (Some p)"
proof -
  obtain es where es: "ch h = h # es" "nx h = (case es of [] \<Rightarrow> 0 | b # _ \<Rightarrow> b)"
    using chained_head [OF c assms(2) _ assms(4)] assms(3) by auto
  show ?thesis
  proof (cases es)
    case Nil
    then show ?thesis using that [of "[]" hw] es assms(5,8) by (auto simp: unat_eq_0)
  next
    case (Cons b vs)
    note S = chainedD(1) [OF c, of h]
    have b: "unat n = b" "0 \<notin> set es" "set es \<subseteq> {T<..<N}" using es Cons S assms(3,5) by (auto simp: bucket_shape_def)
    have l: "links nx pv (b # vs)" "distinct (b # vs)" using chainedD(2) [OF c, of h] S es Cons by (auto simp: bucket_shape_def)
    have "\<exists>n. rd_next e = Some n \<and> unat n = nx (unat e)" if "unat e \<in> set (b # vs)" for e
      using that b(3) Cons T by (intro r) auto
    then obtain p where p: "last_in_chain rd_next 0 n = Some (Some p)" "unat p = last es"
      using last_in_chain_links [OF l _ b(1), of rd_next 0] b(2) Cons by auto
    have "n \<noteq> 0" using b Cons by auto
    moreover have "ch h = (h # butlast es) @ [unat p]" using es(1) p(2) Cons by simp
    ultimately show ?thesis using that [of "h # butlast es" p] p(1) by simp
  qed
qed

lemma generate_tbl_rule_slot:
  assumes wf: "rules_wf (base_size t) (total_size t) (rules m) ch" and sz: "sizes_ok (base_size t) (total_size t)"
  obtains (slot) e p where "ipa_nati_generate_tbl_rule c sw t m = Some (e, (fill_sw_rule (public_addr t) c sw)\<lparr>s_prev_index := p\<rparr>)"
      "e \<noteq> 0" "unat e < total_size t"
      "slot_for (base_size t) (total_size t) (enabled_at (rules m)) ch (dst_bucket (base_size t) c) (unat p) (unat e)"
  | (full) sw' where "ipa_nati_generate_tbl_rule c sw t m = Some (0, sw')" "\<forall>i\<in>{base_size t<..<total_size t}. enabled_at (rules m) i"
proof -
  note D = rules_wfD [OF wf]
  let ?hw = "dst_hash (r_target_ip c) (r_target_port c) (r_public_port c) (r_protocol c) (table_entries t - 1)"
  let ?T = "base_size t" and ?N = "total_size t" and ?h = "dst_bucket (base_size t) c"
  have h: "unat ?hw = ?h" "?h \<in> {0<..<?T}"
    using buckets_in_range(1) [of ?T c] sz by (simp_all add: dst_bucket_def sizes_ok_def)
  have len: "unat ?hw < length (rules m)" using h D(1) by simp
  let ?rd = "\<lambda>e. map_option next_index (rd (rules m) (addr_of t True (e - table_entries t)))"
  show ?thesis
  proof (cases "enabled_at (rules m) ?h")
    case False
    then have "ipa_nati_generate_tbl_rule c sw t m = Some (?hw, (fill_sw_rule (public_addr t) c sw)\<lparr>s_prev_index := 0\<rparr>)"
      using len h(1) by (simp add: ipa_nati_generate_tbl_rule_def Let_def enabled_at_def)
    moreover have "?hw \<noteq> 0" using h by auto
    ultimately show ?thesis using False h by (intro slot [of ?hw 0]) (auto simp: slot_for_def)
  next
    case True
    have r: "\<exists>n. ?rd e = Some n \<and> unat n = next_at (rules m) (unat e)" if "?T \<le> unat e" "unat e < ?N" for e
      using that D(1) by (simp add: addr_of_expn next_at_def)
    obtain us p where p: "ch ?h = us @ [unat p]"
      "(if next_index (rules m ! ?h) = IPA_NAT_INVALID_NAT_ENTRY then Some (Some ?hw)
        else last_in_chain ?rd 0 (next_index (rules m ! ?h))) = Some (Some p)"
      using chain_end [OF D(2) True h(2) _ _ r refl h(1), of "next_index (rules m ! ?h)"] by (auto simp: next_at_def)
    have used: "map_option rule_enabled (rd (rules m) (?T + c)) = Some (enabled_at (rules m) (?T + c))"
      if "c \<in> {1..<unat (expn_table_entries t)}" for c using that D(1) by (simp add: enabled_at_def)
    have X: "unat (expn_table_entries t) \<le> 16384" using sz by (simp add: sizes_ok_def)
    from True have gen: "ipa_nati_generate_tbl_rule c sw t m =
        do { e \<leftarrow> ipa_nati_expn_tbl_free_entry t m;
             if e = 0 then Some (IPA_NAT_INVALID_NAT_ENTRY, (fill_sw_rule (public_addr t) c sw)\<lparr>s_prev_index := p\<rparr>)
             else Some (e + table_entries t, (fill_sw_rule (public_addr t) c sw)\<lparr>s_prev_index := p\<rparr>) }"
      using p(2) len h(1) by (simp add: ipa_nati_generate_tbl_rule_def Let_def enabled_at_def)
    show ?thesis
    proof (rule first_free_expn [where occ = "enabled_at (rules m)" and T = ?T, OF used X])
      fix e assume found: "first_free (\<lambda>cnt. map_option rule_enabled (rd (rules m) (?T + cnt))) [1..<unat (expn_table_entries t)] = Some e" "e \<noteq> 0"
        "unat e < unat (expn_table_entries t)" "\<not> enabled_at (rules m) (?T + unat e)"
      have "?T + unat e < 65536" using found(3) X sz by (simp add: sizes_ok_def)
      then have u: "unat (e + table_entries t) = ?T + unat e" using unat_plus16 [of e "table_entries t"] by linarith
      have "e + table_entries t \<noteq> 0" using u found(2) by (metis add_is_0 unat_0 unat_eq_0)
      then show ?thesis using found gen u p(1) unat_gt_0 [of e]
        by (intro slot [of "e + table_entries t" p]) (auto simp: ipa_nati_expn_tbl_free_entry_def slot_for_def)
    next
      assume "first_free (\<lambda>cnt. map_option rule_enabled (rd (rules m) (?T + cnt))) [1..<unat (expn_table_entries t)] = Some 0"
        "\<forall>i\<in>{?T<..<?N}. enabled_at (rules m) i"
      then show ?thesis using gen full by (simp add: ipa_nati_expn_tbl_free_entry_def)
    qed
  qed
qed

lemma generate_index_rule_slot:
  assumes wf: "index_wf (base_size t) (total_size t) (index_rules m) meta ch" and sz: "sizes_ok (base_size t) (total_size t)"
  obtains (slot) e p where "ipa_nati_generate_index_rule c sw t m = Some (e, sw\<lparr>x_prev_index := p\<rparr>)"
      "e \<noteq> 0" "unat e < total_size t"
      "slot_for (base_size t) (total_size t) (\<lambda>i. ient_at (index_rules m) i \<noteq> 0) ch (src_bucket (base_size t) c) (unat p) (unat e)"
  | (full) sw' where "ipa_nati_generate_index_rule c sw t m = Some (0, sw')" "\<forall>i\<in>{base_size t<..<total_size t}. ient_at (index_rules m) i \<noteq> 0"
proof -
  note D = index_wfD [OF wf]
  let ?hw = "src_hash (r_private_ip c) (r_private_port c) (r_target_ip c) (r_target_port c) (r_protocol c) (table_entries t - 1)"
  let ?T = "base_size t" and ?N = "total_size t" and ?h = "src_bucket (base_size t) c"
  have h: "unat ?hw = ?h" "?h \<in> {0<..<?T}"
    using buckets_in_range(2) [of ?T c] sz by (simp_all add: src_bucket_def sizes_ok_def)
  have len: "unat ?hw < length (index_rules m)" using h D(1) by simp
  let ?rd = "\<lambda>e. map_option index_next (rd (index_rules m) (addr_of t True (e - table_entries t)))"
  show ?thesis
  proof (cases "ient_at (index_rules m) ?h \<noteq> 0")
    case False
    then have "ipa_nati_generate_index_rule c sw t m = Some (?hw, sw\<lparr>x_prev_index := 0\<rparr>)"
      using len h(1) by (simp add: ipa_nati_generate_index_rule_def Let_def ient_at_def unat_eq_0)
    moreover have "?hw \<noteq> 0" using h by auto
    ultimately show ?thesis using False h by (intro slot [of ?hw 0]) (auto simp: slot_for_def)
  next
    case True
    have r: "\<exists>n. ?rd e = Some n \<and> unat n = inext_at (index_rules m) (unat e)" if "?T \<le> unat e" "unat e < ?N" for e
      using that D(1) by (simp add: addr_of_expn inext_at_def)
    obtain us p where p: "ch ?h = us @ [unat p]"
      "(if index_next (index_rules m ! ?h) = IPA_NAT_INVALID_NAT_ENTRY then Some (Some ?hw)
        else last_in_chain ?rd 0 (index_next (index_rules m ! ?h))) = Some (Some p)"
      using chain_end [OF D(3) True h(2) _ _ r refl h(1), of "index_next (index_rules m ! ?h)"] by (auto simp: inext_at_def)
    have used: "map_option (\<lambda>x. index_tbl_entry x \<noteq> 0) (rd (index_rules m) (?T + c)) = Some (ient_at (index_rules m) (?T + c) \<noteq> 0)"
      if "c \<in> {1..<unat (expn_table_entries t)}" for c using that D(1) by (simp add: ient_at_def unat_gt_0)
    have X: "unat (expn_table_entries t) \<le> 16384" using sz by (simp add: sizes_ok_def)
    from True have gen: "ipa_nati_generate_index_rule c sw t m =
        do { e \<leftarrow> ipa_nati_index_expn_get_free_entry t m;
             if e = 0 then Some (IPA_NAT_INVALID_NAT_ENTRY, sw\<lparr>x_prev_index := p\<rparr>)
             else if x_prev_index (sw\<lparr>x_prev_index := p\<rparr>) = e + table_entries t then Some (IPA_NAT_INVALID_NAT_ENTRY, sw\<lparr>x_prev_index := p\<rparr>)
             else Some (e + table_entries t, sw\<lparr>x_prev_index := p\<rparr>) }"
      using p(2) len h(1) by (simp add: ipa_nati_generate_index_rule_def Let_def ient_at_def unat_eq_0)
    show ?thesis
    proof (rule first_free_expn [where occ = "\<lambda>i. ient_at (index_rules m) i \<noteq> 0" and T = ?T, OF used X])
      fix e assume found: "first_free (\<lambda>cnt. map_option (\<lambda>x. index_tbl_entry x \<noteq> 0) (rd (index_rules m) (?T + cnt))) [1..<unat (expn_table_entries t)] = Some e" "e \<noteq> 0"
        "unat e < unat (expn_table_entries t)" "\<not> ient_at (index_rules m) (?T + unat e) \<noteq> 0"
      have "?T + unat e < 65536" using found(3) X sz by (simp add: sizes_ok_def)
      then have u: "unat (e + table_entries t) = ?T + unat e" using unat_plus16 [of e "table_entries t"] by linarith
      have "e + table_entries t \<noteq> 0" using u found(2) by (metis add_is_0 unat_0 unat_eq_0)
      moreover have "p \<noteq> e + table_entries t"
      proof
        assume "p = e + table_entries t"
        then have "?T + unat e \<in> set (ch ?h)" using p(1) u by simp
        then show False using chained_occ [OF D(3), of "?T + unat e" ?h] found(3,4) by simp
      qed
      ultimately show ?thesis using found gen u p(1) unat_gt_0 [of e]
        by (intro slot [of "e + table_entries t" p]) (auto simp: ipa_nati_index_expn_get_free_entry_def slot_for_def)
    next
      assume "first_free (\<lambda>cnt. map_option (\<lambda>x. index_tbl_entry x \<noteq> 0) (rd (index_rules m) (?T + cnt))) [1..<unat (expn_table_entries t)] = Some 0"
        "\<forall>i\<in>{?T<..<?N}. ient_at (index_rules m) i \<noteq> 0"
      then show ?thesis using gen full by (simp add: ipa_nati_index_expn_get_free_entry_def)
    qed
  qed
qed


section \<open>The DMA commands\<close>

lemma unat_offset:
  assumes "k \<le> 32" and "unat (fld :: u32) < 32"
  shows "unat (of_nat (k * unat (e :: u16)) + fld) = k * unat e + unat fld"
proof -
  have "unat e < 65536" by (rule unat_bound16)
  then have "k * unat e \<le> 32 * 65535" using assms(1) by (intro mult_le_mono) auto
  then have le: "k * unat e \<le> 2097120" by simp
  then have "unat (of_nat (k * unat e) :: u32) = k * unat e"
    by (simp only: unat_of_nat take_bit_eq_mod len_of_numeral_defs) (simp add: mod_less)
  then show ?thesis using le assms(2) by (simp add: unat_word_ariths)
qed

lemma rule_cmd_effect:
  assumes "tbl_addr_offset t = 0" and "unat fld < 32"
  shows "apply_dma (base_size t) \<lparr>dma_table_index = i,
       dma_base_addr = (if p < table_entries t then IPA_NAT_BASE_TBL else IPA_NAT_EXPN_TBL),
       dma_offset = ipa_nati_get_entry_offset t (if p < table_entries t then p else p - table_entries t) + fld, dma_data = v\<rparr> m =
     m\<lparr>rules := update_at (unat p) (write16 (unat fld) v) (rules m)\<rparr>"
proof -
  have off: "unat (ipa_nati_get_entry_offset t e + fld) = 32 * unat e + unat fld" for e
    using unat_offset [of 32 fld e] assms by (simp add: ipa_nati_get_entry_offset_def IPA_NAT_TABLE_ENTRY_SIZE_def)
  have "base_size t + unat (p - table_entries t) = unat p" if "\<not> p < table_entries t"
    using that by (simp add: not_less unat_minus16 word_le_nat_alt)
  then show ?thesis using assms(2) by (simp add: apply_dma_def Let_def off)
qed

lemma index_cmd_effect:
  assumes "tbl_addr_offset t = 0" and "unat fld < 4"
  shows "apply_dma (base_size t) \<lparr>dma_table_index = i,
       dma_base_addr = (if p < table_entries t then IPA_NAT_INDX_TBL else IPA_NAT_INDEX_EXPN_TBL),
       dma_offset = ipa_nati_get_index_entry_offset t (if p < table_entries t then p else p - table_entries t) + fld, dma_data = v\<rparr> m =
     m\<lparr>index_rules := update_at (unat p) (write_index16 (unat fld) v) (index_rules m)\<rparr>"
proof -
  have off: "unat (ipa_nati_get_index_entry_offset t e + fld) = 4 * unat e + unat fld" for e
    using unat_offset [of 4 fld e] assms by (simp add: ipa_nati_get_index_entry_offset_def IPA_NAT_INDEX_TABLE_ENTRY_SIZE_def)
  have "base_size t + unat (p - table_entries t) = unat p" if "\<not> p < table_entries t"
    using that by (simp add: not_less unat_minus16 word_le_nat_alt)
  then show ?thesis using assms(2) by (simp add: apply_dma_def Let_def off)
qed

text \<open>The offset that \<open>ipa_nati_copy_ipv4_index_rule_to_hw\<close> keeps in 16 bits is exact up to 16384 entries.\<close>

lemma short_offset:
  assumes "tbl_addr_offset t = 0" and "unat e < 16384"
  shows "ucast (ucast (ipa_nati_get_index_entry_offset t e) + ucast IPA_NAT_INDEX_RULE_NEXT_FIELD_OFFSET :: u16) =
     ipa_nati_get_index_entry_offset t e + IPA_NAT_INDEX_RULE_NEXT_FIELD_OFFSET"
proof -
  have o: "unat (ipa_nati_get_index_entry_offset t e) = 4 * unat e"
    using unat_offset [of 4 0 e] assms(1) by (simp add: ipa_nati_get_index_entry_offset_def IPA_NAT_INDEX_TABLE_ENTRY_SIZE_def)
  then have u: "unat (ucast (ipa_nati_get_index_entry_offset t e) :: u16) = 4 * unat e"
    using assms(2) by (intro trans [OF unat_cast16]) simp_all
  have "unat (ucast (ipa_nati_get_index_entry_offset t e) + ucast IPA_NAT_INDEX_RULE_NEXT_FIELD_OFFSET :: u16) = 4 * unat e + 2"
    using u assms(2) by (subst unat_plus16) (simp_all add: IPA_NAT_INDEX_RULE_NEXT_FIELD_OFFSET_def)
  moreover have "unat (ipa_nati_get_index_entry_offset t e + IPA_NAT_INDEX_RULE_NEXT_FIELD_OFFSET) = 4 * unat e + 2"
    using o assms(2) by (simp add: unat_word_ariths IPA_NAT_INDEX_RULE_NEXT_FIELD_OFFSET_def)
  ultimately show ?thesis using unat_port(1) by (simp add: word_unat_eq_iff)
qed

section \<open>Adding a rule\<close>

definition put_rule :: "u32 \<Rightarrow> ipa_nat_ipv4_rule \<Rightarrow> u16 \<Rightarrow> u16 \<Rightarrow> u16 \<Rightarrow> ipa_nat_rule list \<Rightarrow> ipa_nat_rule list" where
  "put_rule pub c p e x rs =
     (if p = 0 then rs[unat e := new_rule pub c 0 x]
      else update_at (unat p) (write16 8 e) (rs[unat e := new_rule pub c p x]))"

definition put_index :: "u16 \<Rightarrow> u16 \<Rightarrow> u16 \<Rightarrow> u32 list \<Rightarrow> u32 list" where
  "put_index q x e xs =
     (if q = 0 then xs[unat x := join16 e 0] else update_at (unat q) (write_index16 2 x) (xs[unat x := join16 e 0]))"

lemma slot_cases:
  assumes c: "chained T N occ nx pv ch" and "slot_for T N occ ch h (unat p) (unat (e :: u16))" and "h \<in> {0<..<T}" "T \<le> N"
  obtains (head) "p = 0" "unat e = h" "\<not> occ h"
  | (chain) us where "p \<noteq> 0" "ch h = us @ [unat p]" "unat e \<in> {T<..<N}" "\<not> occ (unat e)" "unat p \<noteq> unat e" "unat p < N"
proof -
  from assms(2) consider "\<not> occ h" "unat e = h" "unat p = 0" | us where "ch h = us @ [unat p]" "unat e \<in> {T<..<N}" "\<not> occ (unat e)"
    by (auto simp: slot_for_def)
  then show ?thesis
  proof cases
    case 1
    then show ?thesis using head by (simp add: unat_eq_0)
  next
    case 2
    have "unat p \<in> set (ch h)" using 2(1) by simp
    then have "0 < unat p" "unat p < N" "occ (unat p)"
      using chained_range [OF c _ assms(4)] chained_occ [OF c] by blast+
    then show ?thesis using 2 chain [of us] by fastforce
  qed
qed

lemma rules_insert:
  assumes wf: "rules_wf T N rs ch" and "swept T rs" and "T \<le> N" and h: "dst_bucket T c \<in> {0<..<T}"
    and slot: "slot_for T N (enabled_at rs) ch (dst_bucket T c) (unat p) (unat e)" and "r_protocol c \<noteq> 0xFF"
  shows "\<exists>ch'. rules_wf T N (put_rule pub c p e x rs) ch'" "swept T (put_rule pub c p e x rs)"
    and "live_at (put_rule pub c p e x rs) = (live_at rs)(unat e := True)"
    and "indx_at (put_rule pub c p e x rs) = (indx_at rs)(unat e := unat x)"
    and "client_at (put_rule pub c p e x rs) = (client_at rs)(unat e := c)"
    and "\<not> enabled_at rs (unat e)" "unat e < N"
proof -
  note D = rules_wfD [OF wf]
  let ?n = "put_rule pub c p e x rs"
  have "(\<exists>ch'. rules_wf T N ?n ch') \<and> swept T ?n \<and> live_at ?n = (live_at rs)(unat e := True) \<and>
      indx_at ?n = (indx_at rs)(unat e := unat x) \<and> client_at ?n = (client_at rs)(unat e := c) \<and>
      \<not> enabled_at rs (unat e) \<and> unat e < N"
    using D(2) slot h assms(3)
  proof (rule slot_cases)
    assume head: "p = 0" "unat e = dst_bucket T c" "\<not> enabled_at rs (dst_bucket T c)"
    have len: "unat e < length rs" using head h assms(3) D(1) by simp
    note V = new_rule_views [OF len, of pub c 0 x, unfolded head(2)]
    have n: "?n = rs[unat e := new_rule pub c 0 x]" using head by (simp add: put_rule_def)
    have "\<exists>ch'. rules_wf T N ?n ch'" using rules_new_head [OF wf assms(3) head(2) _ _ assms(6)] head h n by auto
    then show ?thesis using assms(2,6) head len D(1) unfolding n by (auto simp: swept_def live_at_def fun_eq_iff V)
  next
    fix us assume chain: "p \<noteq> 0" "ch (dst_bucket T c) = us @ [unat p]" "unat e \<in> {T<..<N}" "\<not> enabled_at rs (unat e)"
      "unat p \<noteq> unat e" "unat p < N"
    have len: "unat e < length rs" "unat p < length (rs[unat e := new_rule pub c p x])" using chain D(1) by simp_all
    note V = new_rule_views [OF len(1), of pub c p x] write_next_views [OF len(2), of e]
    have n: "?n = update_at (unat p) (write16 8 e) (rs[unat e := new_rule pub c p x])" using chain by (simp add: put_rule_def)
    have "\<exists>ch'. rules_wf T N ?n ch'"
      using rules_append [OF wf assms(3) chain(2-4) assms(6) refl refl] n by auto
    then show ?thesis using assms(2,6) chain len D(1) unfolding n by (auto simp: swept_def live_at_def fun_eq_iff V)
  qed
  then show "\<exists>ch'. rules_wf T N ?n ch'" "swept T ?n" "live_at ?n = (live_at rs)(unat e := True)"
    "indx_at ?n = (indx_at rs)(unat e := unat x)" "client_at ?n = (client_at rs)(unat e := c)"
    "\<not> enabled_at rs (unat e)" "unat e < N" by blast+
qed

lemma index_insert:
  assumes wf: "index_wf T N xs meta ch" and "T \<le> N" and h: "h \<in> {0<..<T}"
    and slot: "slot_for T N (\<lambda>i. ient_at xs i \<noteq> 0) ch h (unat q) (unat x)" and "e \<noteq> 0"
  shows "\<exists>zs. index_wf T N (put_index q x e xs) (if unat x < T then meta else meta[unat x - T := q]) (ch(h := zs)) \<and>
       unat x \<in> set zs \<and> set (ch h) \<subseteq> set zs"
    and "ient_at (put_index q x e xs) = (ient_at xs)(unat x := unat e)" and "ient_at xs (unat x) = 0" and "unat x < N"
proof -
  note D = index_wfD [OF wf]
  let ?n = "put_index q x e xs"
  have "(\<exists>zs. index_wf T N ?n (if unat x < T then meta else meta[unat x - T := q]) (ch(h := zs)) \<and>
       unat x \<in> set zs \<and> set (ch h) \<subseteq> set zs) \<and> ient_at ?n = (ient_at xs)(unat x := unat e) \<and> ient_at xs (unat x) = 0 \<and> unat x < N"
    using D(3) slot h assms(2)
  proof (rule slot_cases)
    assume head: "q = 0" "unat x = h" "\<not> ient_at xs h \<noteq> 0"
    have n: "?n = xs[h := join16 e 0]" using head by (simp add: put_index_def)
    have "ch h = []"
    proof -
      have "h \<notin> set (ch h)" using chained_occ [OF D(3), of h] assms(2) h head by auto
      then show ?thesis using chainedD(1) [OF D(3), of h] by (cases "ch h") (auto simp: bucket_shape_def)
    qed
    then show ?thesis
      using index_new_head [OF wf assms(2) h _ assms(5)] head h assms(2) D(1) n new_index_views [of h xs e] by auto
  next
    fix us assume chain: "q \<noteq> 0" "ch h = us @ [unat q]" "unat x \<in> {T<..<N}" "\<not> ient_at xs (unat x) \<noteq> 0" "unat q \<noteq> unat x" "unat q < N"
    have n: "?n = update_at (unat q) (write_index16 2 x) (xs[unat x := join16 e 0])" using chain by (simp add: put_index_def)
    have len: "unat x < length xs" "unat q < length (xs[unat x := join16 e 0])" using chain D(1) by simp_all
    note V = new_index_views [OF len(1), of e] write_index_views [OF len(2), of x]
    have "index_wf T N ?n (meta[unat x - T := q]) (ch(h := us @ [unat q, unat x]))"
      unfolding n using chain assms(5) by (intro index_append [OF wf assms(2)]) auto
    then show ?thesis using chain n by (intro conjI exI [of _ "us @ [unat q, unat x]"]) (auto simp: V)
  qed
  then show "\<exists>zs. index_wf T N ?n (if unat x < T then meta else meta[unat x - T := q]) (ch(h := zs)) \<and>
       unat x \<in> set zs \<and> set (ch h) \<subseteq> set zs"
    "ient_at ?n = (ient_at xs)(unat x := unat e)" "ient_at xs (unat x) = 0" "unat x < N" by blast+
qed

lemma mem_okD:
  assumes "mem_ok T N m meta ids chR chI"
  shows "rules_wf T N (rules m) chR" "swept T (rules m)" "index_wf T N (index_rules m) meta chI"
    "cross N (live_at (rules m)) (indx_at (rules m)) (ient_at (index_rules m)) (\<lambda>i. src_bucket T (client_at (rules m) i)) chI"
    "ids_wf T N (live_at (rules m)) ids"
  using assms by (simp_all add: mem_ok_def)

lemma unused_never_live:
  assumes "rules_wf T N rs ch" and "T < N"
  shows "\<not> live_at rs 0" "\<not> live_at rs T"
  using chained_range [OF rules_wfD(2) [OF assms(1)]] rules_wfD(5) [OF assms(1)] assms(2) by (metis less_trans not_gr_zero order.strict_implies_order not_less_zero)+

lemma mem_insert:
  assumes ok: "mem_ok T N m meta ids chR chI" and sz: "sizes_ok T N" and "r_protocol c \<noteq> 0xFF" and "e \<noteq> 0"
    and rslot: "slot_for T N (enabled_at (rules m)) chR (dst_bucket T c) (unat p) (unat e)"
    and islot: "slot_for T N (\<lambda>i. ient_at (index_rules m) i \<noteq> 0) chI (src_bucket T c) (unat q) (unat x)"
    and k: "k < N" "ids ! k = 0" "k + 1 < N"
  shows "\<exists>chR' chI'. mem_ok T N \<lparr>rules = put_rule pub c p e x (rules m), index_rules = put_index q x e (index_rules m)\<rparr>
     (if unat x < T then meta else meta[unat x - T := q]) (ids[k := rule_id T (unat e)]) chR' chI'"
proof -
  note D = mem_okD [OF ok]
  have TN: "T \<le> N" "T < N" and bd: "T \<le> 32768" "N - T \<le> 32768" and rng: "2 \<le> T" "T \<le> 16384" using sz by (auto simp: sizes_ok_def)
  note B = buckets_in_range [OF rng, of c]
  note R = rules_insert [OF D(1,2) TN(1) B(1) rslot assms(3)]
  note I = index_insert [OF D(3) TN(1) B(2) islot assms(4)]
  obtain zs where zs: "index_wf T N (put_index q x e (index_rules m)) (if unat x < T then meta else meta[unat x - T := q])
      (chI(src_bucket T c := zs))" "unat x \<in> set zs" "set (chI (src_bucket T c)) \<subseteq> set zs" using I(1) by blast
  have dead: "\<not> live_at (rules m) (unat e)" using R(6) by (simp add: live_at_def)
  have "cross N ((live_at (rules m))(unat e := True)) ((indx_at (rules m))(unat e := unat x))
      ((ient_at (index_rules m))(unat x := unat e)) ((\<lambda>i. src_bucket T (client_at (rules m) i))(unat e := src_bucket T c))
      (chI(src_bucket T c := zs))"
    using R(7) I(3,4) assms(4) dead zs(2,3) by (intro cross_add [OF D(4)]) (auto simp: unat_eq_0)
  then have "cross N (live_at (put_rule pub c p e x (rules m))) (indx_at (put_rule pub c p e x (rules m)))
      (ient_at (put_index q x e (index_rules m))) (\<lambda>i. src_bucket T (client_at (put_rule pub c p e x (rules m)) i)) (chI(src_bucket T c := zs))"
    unfolding R(3-5) I(2) by (rule cross_cong) auto
  moreover have "ids_wf T N (live_at (put_rule pub c p e x (rules m))) (ids[k := rule_id T (unat e)])"
    unfolding R(3) using D(5) bd unused_never_live(1) [OF D(1) TN(2)] dead R(7) k by (rule ids_add)
  ultimately show ?thesis using R(1,2) zs(1) by (auto simp: mem_ok_def)
qed

text \<open>\<open>ipa_nati_generate_rule\<close> finds a place in both tables, or one of the two expansion tables is full.\<close>

lemma generate_rule_cases:
  assumes ok: "mem_ok (base_size t) (total_size t) m meta ids chR chI" and sz: "sizes_ok (base_size t) (total_size t)"
    and meta: "index_expn_table_meta t = Some meta"
  obtains (slots) e p x q where
    "ipa_nati_generate_rule c t m = Some (Some ((fill_sw_rule (public_addr t) c zero_sw_rule)\<lparr>s_prev_index := p, s_indx_tbl_entry := x\<rparr>,
       \<lparr>x_tbl_entry = e, x_next_index = 0, x_prev_index = q\<rparr>, e, x,
       t\<lparr>index_expn_table_meta := Some (if unat x < base_size t then meta else meta[unat x - base_size t := q])\<rparr>))"
    "e \<noteq> 0" "unat e < total_size t" "unat x < total_size t"
    "slot_for (base_size t) (total_size t) (enabled_at (rules m)) chR (dst_bucket (base_size t) c) (unat p) (unat e)"
    "slot_for (base_size t) (total_size t) (\<lambda>i. ient_at (index_rules m) i \<noteq> 0) chI (src_bucket (base_size t) c) (unat q) (unat x)"
  | (full) "ipa_nati_generate_rule c t m = Some None"
     "(\<forall>i\<in>{base_size t<..<total_size t}. enabled_at (rules m) i) \<or> (\<forall>i\<in>{base_size t<..<total_size t}. ient_at (index_rules m) i \<noteq> 0)"
proof -
  note D = mem_okD [OF ok]
  show ?thesis
  proof (rule generate_tbl_rule_slot [OF D(1) sz, of c zero_sw_rule])
    fix sw' assume "ipa_nati_generate_tbl_rule c zero_sw_rule t m = Some (0, sw')" "\<forall>i\<in>{base_size t<..<total_size t}. enabled_at (rules m) i"
    then show ?thesis using full by (simp add: ipa_nati_generate_rule_def)
  next
    fix e p assume e: "ipa_nati_generate_tbl_rule c zero_sw_rule t m = Some (e, (fill_sw_rule (public_addr t) c zero_sw_rule)\<lparr>s_prev_index := p\<rparr>)"
      "e \<noteq> 0" "unat e < total_size t"
      "slot_for (base_size t) (total_size t) (enabled_at (rules m)) chR (dst_bucket (base_size t) c) (unat p) (unat e)"
    show ?thesis
    proof (rule generate_index_rule_slot [OF D(3) sz, of c "zero_index_sw_rule\<lparr>x_tbl_entry := e\<rparr>"])
      fix sw' assume "ipa_nati_generate_index_rule c (zero_index_sw_rule\<lparr>x_tbl_entry := e\<rparr>) t m = Some (0, sw')"
        "\<forall>i\<in>{base_size t<..<total_size t}. ient_at (index_rules m) i \<noteq> 0"
      then show ?thesis using full e(1,2) by (simp add: ipa_nati_generate_rule_def)
    next
      fix x q assume x: "ipa_nati_generate_index_rule c (zero_index_sw_rule\<lparr>x_tbl_entry := e\<rparr>) t m =
          Some (x, zero_index_sw_rule\<lparr>x_tbl_entry := e\<rparr>\<lparr>x_prev_index := q\<rparr>)" "x \<noteq> 0" "unat x < total_size t"
        "slot_for (base_size t) (total_size t) (\<lambda>i. ient_at (index_rules m) i \<noteq> 0) chI (src_bucket (base_size t) c) (unat q) (unat x)"
      have len: "unat (x - table_entries t) < length meta" "unat (x - table_entries t) = unat x - base_size t" if "\<not> unat x < base_size t"
        using that x(3) index_wfD(2) [OF D(3)] by (simp_all add: unat_minus16 word_le_nat_alt less_diff_conv2)
      have "ipa_nati_generate_rule c t m = Some (Some ((fill_sw_rule (public_addr t) c zero_sw_rule)\<lparr>s_prev_index := p, s_indx_tbl_entry := x\<rparr>,
         \<lparr>x_tbl_entry = e, x_next_index = 0, x_prev_index = q\<rparr>, e, x,
         t\<lparr>index_expn_table_meta := Some (if unat x < base_size t then meta else meta[unat x - base_size t := q])\<rparr>))"
      proof (cases "unat x < base_size t")
        case True
        then have "\<not> table_entries t \<le> x" by (simp add: word_le_nat_alt)
        then show ?thesis using True e(1,2) x(1,2) meta by (simp add: ipa_nati_generate_rule_def zero_index_sw_rule_def)
      next
        case False
        then have "table_entries t \<le> x" by (simp add: word_le_nat_alt)
        then show ?thesis using False e(1,2) x(1,2) meta len [OF False] by (simp add: ipa_nati_generate_rule_def zero_index_sw_rule_def)
      qed
      then show ?thesis using e x by (intro slots)
    qed
  qed
qed

end
