(* ===== verification/NatDrv_Add.thy ===== *)
theory NatDrv_Add
  imports NatDrv_Inv
begin

text \<open>
  \<open>ipa_nat_add_ipv4_rule\<close> on tables that satisfy the invariant: what each of its parts does to the tables, and the
  effect of the whole on the rules by their handles.
\<close>

section \<open>Kernel calls\<close>

lemma kernel_okD:
  assumes "kernel_ok T env"
  shows "\<exists>w'. ioctl_dma env cmds m w = (0, fold (apply_dma T) cmds m, w')" "\<exists>w'. drv_malloc env w = (True, w')"
    "\<exists>w'. mutex_lock env w = (0, w')" "\<exists>w'. mutex_unlock env w = (0, w')"
  using assms unfolding kernel_ok_def by (blast, (metis prod.collapse)+)

lemma kernel_ok_behind: "kernel_ok T env \<Longrightarrow> behind_ok (mem_behind env w)"
  by (simp add: kernel_ok_def)

text \<open>The dump of a table whose arrays have the right lengths returns.\<close>

lemma dump_loop_Some: "(\<And>c. c \<in> set cs \<Longrightarrow> \<exists>l. f c = Some l) \<Longrightarrow> \<exists>ls. dump_loop f cs = Some ls"
proof (induction cs)
  case (Cons c cs)
  obtain l where "f c = Some l" using Cons.prems [of c] by auto
  moreover obtain ls where "dump_loop f cs = Some ls" using Cons.IH Cons.prems by auto
  ultimately show ?case by simp
qed simp

lemma dump_rule_Some:
  assumes "a \<le> length (rules m)" and "behind_ok ws"
  shows "\<exists>l. dump_rule ws m a = Some l"
proof (cases "a < length (rules m)")
  case False
  then have "a = length (rules m)" using assms(1) by simp
  then show ?thesis using assms(2) by (auto simp: dump_rule_def rd_def Let_def behind_ok_def)
qed (simp add: dump_rule_def)

lemma dump_index_Some: "a < length (index_rules m) \<Longrightarrow> p = Some v \<Longrightarrow> \<exists>l. dump_index ws m a p = Some l"
  by (simp add: dump_index_def rd_def)

lemma dump_index_behind: "a = length (index_rules m) \<Longrightarrow> behind_ok ws \<Longrightarrow> dump_index ws m a p = Some []"
  by (auto simp: dump_index_def rd_def behind_ok_def nth_append)

lemma dump_ok:
  assumes s: "ip4_tbl s = [t]" "behind_ok (mem_behind env (drv_world s))" and m: "tbl_mem t = Mapped m"
    and len: "length (rules m) = total_size t" "length (index_rules m) = total_size t"
    and meta: "index_expn_table_meta t = Some meta" "length meta = unat (expn_table_entries t)"
  shows "\<exists>ls. ipa_nat_dump_ipv4_table env 1 s = Some ls"
proof -
  let ?b = "mem_behind env (drv_world s)" and ?T = "unat (table_entries t)" and ?X = "unat (expn_table_entries t)"
  have a: "\<exists>ls. dump_loop (dump_rule ?b m) [0..<?T] = Some ls"
    by (rule dump_loop_Some, rule dump_rule_Some [OF _ s(2)]) (use len in auto)
  have b: "\<exists>ls. dump_loop (\<lambda>cnt. dump_rule ?b m (?T + cnt)) [0..<?X + 1] = Some ls"
    by (rule dump_loop_Some, rule dump_rule_Some [OF _ s(2)]) (use len in auto)
  have c: "\<exists>ls. dump_loop (\<lambda>cnt. dump_index ?b m cnt (Some 0)) [0..<?T] = Some ls"
    by (rule dump_loop_Some, rule dump_index_Some [OF _ refl]) (use len in auto)
  have d: "\<exists>ls. dump_loop (\<lambda>cnt. dump_index ?b m (?T + cnt) (index_expn_table_meta t \<bind> (\<lambda>meta. rd meta cnt))) [0..<?X + 1] = Some ls"
  proof (rule dump_loop_Some)
    fix cnt assume "cnt \<in> set [0..<?X + 1]"
    then consider "cnt < ?X" | "cnt = ?X" by fastforce
    then show "\<exists>l. dump_index ?b m (?T + cnt) (index_expn_table_meta t \<bind> (\<lambda>meta. rd meta cnt)) = Some l"
    proof cases
      case 1
      then show ?thesis using len meta by (intro dump_index_Some [where v = "meta ! cnt"]) (simp_all add: rd_def)
    next
      case 2
      then show ?thesis using dump_index_behind [OF _ s(2), of _ m] len by simp
    qed
  qed
  from a b c d show ?thesis
    using s(1) m unfolding ipa_nat_dump_ipv4_table_def IPA_NAT_MAX_IP4_TBLS_def Let_def
    by (auto simp: rd_def simp del: upt_Suc)
qed

lemma write_next_index_effect:
  assumes "kernel_ok T env"
  shows "\<exists>w'. ipa_nati_write_next_index env i ty v off m w =
     (apply_dma T \<lparr>dma_table_index = i, dma_base_addr = ty, dma_offset = off, dma_data = v\<rparr> m, w')"
proof -
  obtain w1 where w1: "drv_malloc env w = (True, w1)" using kernel_okD(2) [OF assms] by blast
  obtain w2 where "ioctl_dma env [\<lparr>dma_table_index = i, dma_base_addr = ty, dma_offset = off, dma_data = v\<rparr>] m w1 =
      (0, fold (apply_dma T) [\<lparr>dma_table_index = i, dma_base_addr = ty, dma_offset = off, dma_data = v\<rparr>] m, w2)"
    using kernel_okD(1) [OF assms] by blast
  then show ?thesis using w1 by (simp add: ipa_nati_write_next_index_def)
qed

section \<open>The parts of the operation\<close>

lemma copy_rule_effect:
  assumes k: "kernel_ok (base_size t) env" and "tbl_addr_offset t = 0" and "unat e < length (rules m)"
  shows "\<exists>w'. ipa_nati_copy_ipv4_rule_to_hw env t sw e i m w =
     Some (m\<lparr>rules := (if s_prev_index sw = 0 then (rules m)[unat e := pack_rule sw]
        else update_at (unat (s_prev_index sw)) (write16 8 e) ((rules m)[unat e := pack_rule sw]))\<rparr>, w')"
proof (cases "s_prev_index sw = 0")
  case True
  then show ?thesis using assms(3) by (simp add: ipa_nati_copy_ipv4_rule_to_hw_def Let_def)
next
  case False
  let ?p = "s_prev_index sw" and ?m = "m\<lparr>rules := (rules m)[unat e := pack_rule sw]\<rparr>"
  have fld: "unat IPA_NAT_RULE_NEXT_FIELD_OFFSET = 8" by (simp add: IPA_NAT_RULE_NEXT_FIELD_OFFSET_def)
  obtain w' where "ipa_nati_write_next_index env i (if ?p < table_entries t then IPA_NAT_BASE_TBL else IPA_NAT_EXPN_TBL) e
      (ipa_nati_get_entry_offset t (if ?p < table_entries t then ?p else ?p - table_entries t) + IPA_NAT_RULE_NEXT_FIELD_OFFSET) ?m w =
      (?m\<lparr>rules := update_at (unat ?p) (write16 8 e) (rules ?m)\<rparr>, w')"
    using write_next_index_effect [OF k] rule_cmd_effect [OF assms(2), of IPA_NAT_RULE_NEXT_FIELD_OFFSET] fld by (metis numeral_less_iff semiring_norm(76,77,78,80))
  then show ?thesis using False assms(3) by (simp add: ipa_nati_copy_ipv4_rule_to_hw_def Let_def)
qed

lemma copy_index_effect:
  assumes k: "kernel_ok (base_size t) env" and "tbl_addr_offset t = 0" and "unat x < length (index_rules m)"
    and q: "unat (if x_prev_index isw < table_entries t then x_prev_index isw else x_prev_index isw - table_entries t) < 16384"
    and "x_next_index isw = 0"
  shows "\<exists>w'. ipa_nati_copy_ipv4_index_rule_to_hw env t isw x i m w =
     Some (m\<lparr>index_rules := put_index (x_prev_index isw) x (x_tbl_entry isw) (index_rules m)\<rparr>, w')"
proof (cases "x_prev_index isw = 0")
  case True
  then show ?thesis using assms(3,5) by (simp add: ipa_nati_copy_ipv4_index_rule_to_hw_def Let_def put_index_def)
next
  case False
  let ?q = "x_prev_index isw" and ?m = "m\<lparr>index_rules := (index_rules m)[unat x := join16 (x_tbl_entry isw) 0]\<rparr>"
  have fld: "unat IPA_NAT_INDEX_RULE_NEXT_FIELD_OFFSET = 2" by (simp add: IPA_NAT_INDEX_RULE_NEXT_FIELD_OFFSET_def)
  obtain w' where "ipa_nati_write_next_index env i (if ?q < table_entries t then IPA_NAT_INDX_TBL else IPA_NAT_INDEX_EXPN_TBL) x
      (ipa_nati_get_index_entry_offset t (if ?q < table_entries t then ?q else ?q - table_entries t) + IPA_NAT_INDEX_RULE_NEXT_FIELD_OFFSET) ?m w =
      (?m\<lparr>index_rules := update_at (unat ?q) (write_index16 2 x) (index_rules ?m)\<rparr>, w')"
    using write_next_index_effect [OF k] index_cmd_effect [OF assms(2), of IPA_NAT_INDEX_RULE_NEXT_FIELD_OFFSET] fld by (metis numeral_less_iff semiring_norm(76,77,78,80))
  then show ?thesis using False assms(3,5) short_offset [OF assms(2) q]
    by (simp add: ipa_nati_copy_ipv4_index_rule_to_hw_def Let_def put_index_def)
qed

lemma enable_effect:
  assumes k: "kernel_ok (base_size t) env" and "tbl_addr_offset t = 0"
  shows "\<exists>w'. ipa_nati_post_ipv4_dma_cmd env t i e m w =
     (0, m\<lparr>rules := update_at (unat e) (write16 18 IPA_NAT_FLAG_ENABLE_BIT_MASK) (rules m)\<rparr>, w')"
proof -
  let ?cmd = "\<lparr>dma_table_index = i, dma_base_addr = (if e < table_entries t then IPA_NAT_BASE_TBL else IPA_NAT_EXPN_TBL),
     dma_offset = ipa_nati_get_entry_offset t (if e < table_entries t then e else e - table_entries t) + IPA_NAT_RULE_FLAG_FIELD_OFFSET,
     dma_data = IPA_NAT_FLAG_ENABLE_BIT_MASK\<rparr>"
  obtain w1 where w1: "drv_malloc env w = (True, w1)" using kernel_okD(2) [OF k] by blast
  obtain w2 where w2: "ioctl_dma env [?cmd] m w1 = (0, apply_dma (base_size t) ?cmd m, w2)"
    using kernel_okD(1) [OF k, of "[?cmd]" m w1] by auto
  have "apply_dma (base_size t) ?cmd m = m\<lparr>rules := update_at (unat e) (write16 18 IPA_NAT_FLAG_ENABLE_BIT_MASK) (rules m)\<rparr>"
    using rule_cmd_effect [OF assms(2), of IPA_NAT_RULE_FLAG_FIELD_OFFSET] by (simp add: IPA_NAT_RULE_FLAG_FIELD_OFFSET_def)
  with w1 w2 assms(2) show ?thesis
    by (auto simp: ipa_nati_post_ipv4_dma_cmd_def Let_def ipa_nati_get_entry_offset_def split: if_splits)
qed

lemma make_rule_hdl_effect:
  assumes "rule_id_array t = Some ids" and "first_free_id ids [0..<total_size t] = Some (Some k)"
  shows "\<exists>a b. ipa_nati_make_rule_hdl e t = Some (of_nat (k + 1),
     t\<lparr>cur_tbl_cnt := a, cur_expn_tbl_cnt := b, rule_id_array := Some (ids[k := rule_id (base_size t) (unat e)])\<rparr>)"
proof -
  have "make_rule_id t' e = rule_id (base_size t) (unat e)" if "table_entries t' = table_entries t" for t'
    using that unat_minus16 [of "table_entries t" e] by (auto simp: make_rule_id_def rule_id_def word_le_nat_alt)
  then show ?thesis using assms
    by (intro exI [of _ "if table_entries t \<le> e then cur_tbl_cnt t else cur_tbl_cnt t + 1"]
        exI [of _ "if table_entries t \<le> e then cur_expn_tbl_cnt t + 1 else cur_expn_tbl_cnt t"])
      (simp add: ipa_nati_make_rule_hdl_def Let_def)
qed

section \<open>The whole operation\<close>

lemma put_rule_steps:
  assumes "unat e < length rs" and "p \<noteq> 0 \<Longrightarrow> unat p < length rs \<and> unat p \<noteq> unat e"
    and sw: "sw = (fill_sw_rule pub c zero_sw_rule)\<lparr>s_prev_index := p, s_indx_tbl_entry := x\<rparr>"
  shows "update_at (unat e) (write16 18 IPA_NAT_FLAG_ENABLE_BIT_MASK)
     (if s_prev_index sw = 0 then rs[unat e := pack_rule sw]
      else update_at (unat (s_prev_index sw)) (write16 8 e) (rs[unat e := pack_rule sw])) = put_rule pub c p e x rs"
proof -
  have p: "s_prev_index sw = p" by (simp add: sw)
  have n: "write16 18 IPA_NAT_FLAG_ENABLE_BIT_MASK (pack_rule sw) = new_rule pub c p x" by (simp add: new_rule_def sw)
  show ?thesis
  proof (cases "p = 0")
    case True
    then show ?thesis using n p assms(1) by (simp add: put_rule_def update_at_def)
  next
    case False
    then show ?thesis using n p assms(1,2)
      by (simp add: put_rule_def update_at_def list_update_swap [of "unat p"])
  qed
qed

lemma table_okD:
  assumes "table_ok t"
  obtains m meta ids chR chI where "valid t" "tbl_mem t = Mapped m" "index_expn_table_meta t = Some meta"
    "rule_id_array t = Some ids" "tbl_addr_offset t = 0" "sizes_ok (base_size t) (total_size t)"
    "mem_ok (base_size t) (total_size t) m meta ids chR chI"
  using assms unfolding table_ok_def by blast

text \<open>The handle of a live rule, and no other slot, leads to it.\<close>

lemma drv_rules_mem:
  assumes "tbl_mem t = Mapped m" "rule_id_array t = Some ids"
  shows "drv_rules t h = (if 0 < unat h \<and> unat h \<le> length ids \<and> ids ! (unat h - 1) \<noteq> 0
     then Some (client_at (rules m) (entry_of (base_size t) (ids ! (unat h - 1)))) else None)"
  using assms by (simp add: drv_rules_def)

lemma drv_rules_add:
  assumes t: "tbl_mem t = Mapped m" "rule_id_array t = Some ids"
    and t': "tbl_mem t' = Mapped m'" "rule_id_array t' = Some (ids[k := rule_id (base_size t) e])" "table_entries t' = table_entries t"
    and c: "client_at (rules m') = (client_at (rules m))(e := c)"
    and ids: "ids_wf (base_size t) N L ids" and bd: "base_size t \<le> 32768" "N - base_size t \<le> 32768"
    and e: "\<not> L e" "e < N" "e \<noteq> 0" and k: "k < N" "ids ! k = 0" and h: "unat h = k + 1"
  shows "drv_rules t h = None" and "drv_rules t' = (drv_rules t)(h \<mapsto> c)"
proof -
  note D = ids_wfD [OF ids]
  show "drv_rules t h = None" using h k(2) by (simp add: drv_rules_mem [OF t])
  show "drv_rules t' = (drv_rules t)(h \<mapsto> c)"
  proof
    fix g
    show "drv_rules t' g = ((drv_rules t)(h \<mapsto> c)) g"
    proof (cases "g = h")
      case True
      then show ?thesis using h k D(1) c rule_id_nonzero [OF e(2) bd e(3)] rule_id_entry(1) [OF e(2) bd] t'(3)
        by (simp add: drv_rules_mem [OF t'(1,2)])
    next
      case False
      then have gk: "unat g \<noteq> k + 1" using h by (simp add: word_unat_eq_iff)
      then have same: "0 < unat g \<Longrightarrow> ids[k := rule_id (base_size t) e] ! (unat g - 1) = ids ! (unat g - 1)"
        by (intro nth_list_update_neq) linarith
      show ?thesis
      proof (cases "0 < unat g \<and> unat g \<le> length ids \<and> ids ! (unat g - 1) \<noteq> 0")
        case True
        then have "unat g - 1 < N" using D(1) by linarith
        from D(2) [OF this] True obtain i where i: "i < N" "L i" "ids ! (unat g - 1) = rule_id (base_size t) i" by blast
        then have ie: "i \<noteq> e" using e(1) by auto
        have "ids[k := rule_id (base_size t) e] ! (unat g - 1) = rule_id (base_size t) i" using same i(3) True by simp
        then show ?thesis using True False ie rule_id_entry(1) [OF i(1) bd] i(3) t'(3) c
          unfolding drv_rules_mem [OF t'(1,2)] drv_rules_mem [OF t] by simp
      next
        case False': False
        then have "\<not> (0 < unat g \<and> unat g \<le> length ids \<and> ids[k := rule_id (base_size t) e] ! (unat g - 1) \<noteq> 0)"
          using same by (metis (no_types))
        then show ?thesis using False False' unfolding drv_rules_mem [OF t'(1,2)] drv_rules_mem [OF t] by auto
      qed
    qed
  qed
qed

lemma slot_link:
  assumes "chained T N occ nx pv ch" and "slot_for T N occ ch h (unat p) (unat (e :: u16))" and "h \<in> {0<..<T}" "T \<le> N" and "p \<noteq> 0"
  shows "unat p < N \<and> unat p \<noteq> unat e"
  by (rule slot_cases [OF assms(1-4)]) (use assms(5) in auto)

text \<open>The dump of an intact table.\<close>

lemma dump_table_ok:
  assumes "table_ok t" and "kernel_ok T env" and "ip4_tbl s = [t]"
  shows "\<exists>ls. ipa_nat_dump_ipv4_table env 1 s = Some ls"
proof -
  obtain m meta ids chR chI where t: "tbl_mem t = Mapped m" "index_expn_table_meta t = Some meta"
    "mem_ok (base_size t) (total_size t) m meta ids chR chI" using assms(1) by (rule table_okD)
  note D = mem_okD [OF t(3)]
  from dump_ok [OF assms(3) kernel_ok_behind [OF assms(2)] t(1) rules_wfD(1) [OF D(1)] index_wfD(1) [OF D(3)] t(2)]
  show ?thesis using index_wfD(2) [OF D(3)] by simp
qed

lemma length_put [simp]: "length (put_rule pub c p e x rs) = length rs" "length (put_index q x e xs) = length xs"
  by (simp_all add: put_rule_def put_index_def update_at_def)

lemma add_rule_code:
  assumes k: "kernel_ok (base_size t) env" and s: "ip4_tbl s = [t]" and t: "tbl_mem t = Mapped m" "rule_id_array t = Some ids" "tbl_addr_offset t = 0"
    and sz: "sizes_ok (base_size t) (total_size t)" and len: "length (rules m) = total_size t" "length (index_rules m) = total_size t"
    and gen: "ipa_nati_generate_rule c t m = Some (Some ((fill_sw_rule (public_addr t) c zero_sw_rule)\<lparr>s_prev_index := p, s_indx_tbl_entry := x\<rparr>,
       \<lparr>x_tbl_entry = e, x_next_index = 0, x_prev_index = q\<rparr>, e, x, t\<lparr>index_expn_table_meta := meta\<rparr>))"
    and e: "unat e < total_size t" "unat x < total_size t"
    and p: "p \<noteq> 0 \<Longrightarrow> unat p < total_size t \<and> unat p \<noteq> unat e" and q: "q \<noteq> 0 \<Longrightarrow> unat q < total_size t \<and> unat q \<noteq> unat x"
    and free: "first_free_id ids [0..<total_size t] = Some (Some n)" "n + 2 < total_size t"
    and mt: "meta = Some mt" "length mt = unat (expn_table_entries t)"
  shows "\<exists>a b w'. ipa_nati_add_ipv4_rule env 1 c hdl s = Some (0, ucast (of_nat (n + 1) :: u16), s\<lparr>ip4_tbl := [t\<lparr>index_expn_table_meta := meta,
     tbl_mem := Mapped \<lparr>rules = put_rule (public_addr t) c p e x (rules m), index_rules = put_index q x e (index_rules m)\<rparr>,
     cur_tbl_cnt := a, cur_expn_tbl_cnt := b, rule_id_array := Some (ids[n := rule_id (base_size t) (unat e)])\<rparr>], drv_world := w'\<rparr>)"
proof -
  let ?t = "t\<lparr>index_expn_table_meta := meta\<rparr>"
  let ?sw = "(fill_sw_rule (public_addr t) c zero_sw_rule)\<lparr>s_prev_index := p, s_indx_tbl_entry := x\<rparr>"
  define rs where "rs = (if s_prev_index ?sw = 0 then (rules m)[unat e := pack_rule ?sw]
     else update_at (unat (s_prev_index ?sw)) (write16 8 e) ((rules m)[unat e := pack_rule ?sw]))"
  let ?isw = "\<lparr>x_tbl_entry = e, x_next_index = 0, x_prev_index = q\<rparr>"
  have k': "kernel_ok (base_size ?t) env" and o': "tbl_addr_offset ?t = 0" using k t(3) by simp_all
  obtain w1 where w1: "ipa_nati_copy_ipv4_rule_to_hw env ?t ?sw e (ucast (0 :: u32)) m (drv_world s) = Some (m\<lparr>rules := rs\<rparr>, w1)"
    using copy_rule_effect [OF k' o', of e m ?sw "ucast (0 :: u32)" "drv_world s"] e(1) len(1) unfolding rs_def by auto
  have "unat (if q < table_entries t then q else q - table_entries t) < 16384"
    using q sz by (cases "q = 0") (auto simp: sizes_ok_def word_less_nat_alt not_less unat_minus16 word_le_nat_alt)
  then have q': "unat (if x_prev_index ?isw < table_entries ?t then x_prev_index ?isw else x_prev_index ?isw - table_entries ?t) < 16384"
    by (simp split: if_splits)
  obtain w2 where w2: "ipa_nati_copy_ipv4_index_rule_to_hw env ?t ?isw x (ucast (0 :: u32)) (m\<lparr>rules := rs\<rparr>) w1 =
      Some (m\<lparr>rules := rs, index_rules := put_index q x e (index_rules m)\<rparr>, w2)"
    using copy_index_effect [OF k' o' _ q', of x "m\<lparr>rules := rs\<rparr>" "ucast (0 :: u32)" w1] e(2) len(2) by auto
  obtain w3 where w3: "ipa_nati_post_ipv4_dma_cmd env ?t (ucast (0 :: u32)) e (m\<lparr>rules := rs, index_rules := put_index q x e (index_rules m)\<rparr>) w2 =
      (0, m\<lparr>rules := update_at (unat e) (write16 18 IPA_NAT_FLAG_ENABLE_BIT_MASK) rs, index_rules := put_index q x e (index_rules m)\<rparr>, w3)"
    using enable_effect [OF k' o', of "ucast (0 :: u32)" e "m\<lparr>rules := rs, index_rules := put_index q x e (index_rules m)\<rparr>" w2] by auto
  have rs: "update_at (unat e) (write16 18 IPA_NAT_FLAG_ENABLE_BIT_MASK) rs = put_rule (public_addr t) c p e x (rules m)"
    unfolding rs_def using e(1) len(1) p by (intro put_rule_steps [OF _ _ refl]) simp_all
  let ?m = "m\<lparr>rules := put_rule (public_addr t) c p e x (rules m), index_rules := put_index q x e (index_rules m)\<rparr>"
  obtain a b where hdl: "ipa_nati_make_rule_hdl e (?t\<lparr>tbl_mem := Mapped ?m\<rparr>) = Some (of_nat (n + 1),
     t\<lparr>index_expn_table_meta := meta, tbl_mem := Mapped ?m, cur_tbl_cnt := a, cur_expn_tbl_cnt := b,
       rule_id_array := Some (ids[n := rule_id (base_size t) (unat e)])\<rparr>)"
    using make_rule_hdl_effect [of "?t\<lparr>tbl_mem := Mapped ?m\<rparr>" ids n e] t(2) free(1) by auto
  have "n + 1 < 65536" using free(2) sz by (simp add: sizes_ok_def)
  then have "unat (of_nat (n + 1) :: u16) = n + 1" by (rule unat_of_nat16)
  then have nz: "of_nat (n + 1) \<noteq> (0 :: u16)" by (metis Suc_eq_plus1 nat.distinct(1) unat_0)
  have mm: "?m = \<lparr>rules = put_rule (public_addr t) c p e x (rules m), index_rules = put_index q x e (index_rules m)\<rparr>" by simp
  let ?u = "t\<lparr>index_expn_table_meta := meta, tbl_mem := Mapped ?m, cur_tbl_cnt := a, cur_expn_tbl_cnt := b,
     rule_id_array := Some (ids[n := rule_id (base_size t) (unat e)])\<rparr>"
  have "\<exists>ls. ipa_nat_dump_ipv4_table env 1 (s\<lparr>ip4_tbl := [?u], drv_world := w3\<rparr>) = Some ls"
    by (rule dump_ok [where t = ?u and m = ?m and meta = mt]) (use kernel_ok_behind [OF k] len mt in simp_all)
  then obtain ls where dump: "ipa_nat_dump_ipv4_table env 1 (s\<lparr>ip4_tbl := [?u], drv_world := w3\<rparr>) = Some ls" by blast
  have "ipa_nati_add_ipv4_rule env 1 c hdl s = Some (0, ucast (of_nat (n + 1) :: u16), s\<lparr>ip4_tbl := [t\<lparr>index_expn_table_meta := meta,
     tbl_mem := Mapped ?m, cur_tbl_cnt := a, cur_expn_tbl_cnt := b, rule_id_array := Some (ids[n := rule_id (base_size t) (unat e)])\<rparr>], drv_world := w3\<rparr>)"
    using s t(1) gen w1 w2 w3 rs hdl nz dump by (simp add: ipa_nati_add_ipv4_rule_def Let_def)
  then show ?thesis unfolding mm by blast
qed

lemma add_rule_effect:
  assumes tok: "table_ok t" and k: "kernel_ok (base_size t) env" and s: "ip4_tbl s = [t]" and "r_protocol c \<noteq> 0xFF"
  shows "\<exists>ret h t' w'. ipa_nati_add_ipv4_rule env 1 c hdl s = Some (ret, h, s\<lparr>ip4_tbl := [t'], drv_world := w'\<rparr>) \<and>
     table_ok t' \<and> table_entries t' = table_entries t \<and> expn_table_entries t' = expn_table_entries t \<and>
     (ret = 0 \<and> h \<noteq> 0 \<and> unat h < total_size t \<and> drv_rules t h = None \<and> drv_rules t' = (drv_rules t)(h \<mapsto> c) \<or>
      ret = - EINVAL \<and> h = hdl \<and> t' = t \<and>
        (\<exists>m. tbl_mem t = Mapped m \<and> ((\<forall>i\<in>{base_size t<..<total_size t}. enabled_at (rules m) i) \<or>
           (\<forall>i\<in>{base_size t<..<total_size t}. ient_at (index_rules m) i \<noteq> 0))))"
proof -
  obtain m meta ids chR chI where t: "valid t" "tbl_mem t = Mapped m" "index_expn_table_meta t = Some meta"
    "rule_id_array t = Some ids" "tbl_addr_offset t = 0" "sizes_ok (base_size t) (total_size t)"
    "mem_ok (base_size t) (total_size t) m meta ids chR chI" using tok by (rule table_okD)
  let ?T = "base_size t" and ?N = "total_size t"
  note D = mem_okD [OF t(7)]
  have sz: "?T \<le> ?N" "?T < ?N" "?T \<le> 32768" "?N - ?T \<le> 32768" "2 \<le> ?T" "?T \<le> 16384" "0 < ?T" using t(6) by (auto simp: sizes_ok_def)
  note B = buckets_in_range [OF sz(5,6), of c]
  show ?thesis
  proof (rule generate_rule_cases [OF t(7,6,3), of c])
    assume "ipa_nati_generate_rule c t m = Some None" "(\<forall>i\<in>{?T<..<?N}. enabled_at (rules m) i) \<or> (\<forall>i\<in>{?T<..<?N}. ient_at (index_rules m) i \<noteq> 0)"
    then show ?thesis using t(2) s tok
      by (intro exI [of _ "- EINVAL"] exI [of _ hdl] exI [of _ t] exI [of _ "drv_world s"]) (simp add: ipa_nati_add_ipv4_rule_def)
  next
    fix e p x q
    let ?sw = "(fill_sw_rule (public_addr t) c zero_sw_rule)\<lparr>s_prev_index := p, s_indx_tbl_entry := x\<rparr>"
    let ?isw = "\<lparr>x_tbl_entry = e, x_next_index = 0, x_prev_index = q\<rparr>"
    let ?meta = "if unat x < ?T then meta else meta[unat x - ?T := q]"
    let ?t = "t\<lparr>index_expn_table_meta := Some ?meta\<rparr>"
    assume gen: "ipa_nati_generate_rule c t m = Some (Some (?sw, ?isw, e, x, ?t))" and e: "e \<noteq> 0" "unat e < ?N" "unat x < ?N"
      and rslot: "slot_for ?T ?N (enabled_at (rules m)) chR (dst_bucket ?T c) (unat p) (unat e)"
      and islot: "slot_for ?T ?N (\<lambda>i. ient_at (index_rules m) i \<noteq> 0) chI (src_bucket ?T c) (unat q) (unat x)"
    note R = rules_insert [OF D(1,2) sz(1) B(1) rslot assms(4)]
    let ?m = "\<lparr>rules = put_rule (public_addr t) c p e x (rules m), index_rules = put_index q x e (index_rules m)\<rparr>"
    have en: "\<not> live_at (rules m) (unat e)" "unat e \<noteq> 0" "unat e \<noteq> ?T"
      using R(6) e(1) rslot B(1) by (auto simp: live_at_def slot_for_def unat_eq_0)
    obtain n where n: "first_free_id ids [0..<?N] = Some (Some n)" "n + 2 < ?N" "ids ! n = 0"
      using ids_free_slot [OF D(5) sz(3,4,7,2) unused_never_live [OF D(1) sz(2)] en(1) e(2) en(2,3)] .
    have nN: "n < ?N" "n + 1 < ?N" using n(2) by simp_all
    have lm: "length ?meta = unat (expn_table_entries t)" using index_wfD(2) [OF D(3)] by simp
    obtain a b w' where code: "ipa_nati_add_ipv4_rule env 1 c hdl s = Some (0, ucast (of_nat (n + 1) :: u16), s\<lparr>ip4_tbl := [?t\<lparr>
        tbl_mem := Mapped ?m, cur_tbl_cnt := a, cur_expn_tbl_cnt := b, rule_id_array := Some (ids[n := rule_id ?T (unat e)])\<rparr>], drv_world := w'\<rparr>)"
      using add_rule_code [OF k s t(2,4,5,6) rules_wfD(1) [OF D(1)] index_wfD(1) [OF D(3)] gen e(2,3)
          slot_link [OF rules_wfD(2) [OF D(1)] rslot B(1) sz(1)] slot_link [OF index_wfD(3) [OF D(3)] islot B(2) sz(1)] n(1,2) refl lm, of hdl] by blast
    let ?t' = "?t\<lparr>tbl_mem := Mapped ?m, cur_tbl_cnt := a, cur_expn_tbl_cnt := b, rule_id_array := Some (ids[n := rule_id ?T (unat e)])\<rparr>"
    have h: "unat (ucast (of_nat (n + 1) :: u16) :: u32) = n + 1"
      using n(2) t(6) by (subst unat_port(1), intro unat_of_nat16) (simp add: sizes_ok_def)
    have "table_ok ?t'"
      using mem_insert [OF t(7,6) assms(4) e(1) rslot islot nN(1) n(3) nN(2), of "public_addr t"] t(1,5,6) by (auto simp: table_ok_def)
    moreover have "drv_rules t (ucast (of_nat (n + 1) :: u16)) = None" "drv_rules ?t' = (drv_rules t)(ucast (of_nat (n + 1) :: u16) \<mapsto> c)"
      using drv_rules_add [OF t(2,4), of ?t' ?m n "unat e" c ?N "live_at (rules m)" "ucast (of_nat (n + 1) :: u16)"]
        R(5) D(5) sz(3,4) en e(2) nN(1) n(3) h by simp_all
    moreover have "ucast (of_nat (n + 1) :: u16) \<noteq> (0 :: u32)" using h by (metis add_is_0 one_neq_zero unat_0)
    ultimately show ?thesis using code h n(2)
      by (intro exI [of _ 0] exI [of _ "ucast (of_nat (n + 1) :: u16)"] exI [of _ ?t'] exI [of _ w']) simp
  qed
qed

end
