(* ===== verification/NatDrv_Del.thy ===== *)
theory NatDrv_Del
  imports NatDrv_Add
begin

text \<open>
  \<open>ipa_nat_del_ipv4_rule\<close> on tables that satisfy the invariant: the effect of its commands and of the writes that
  follow them, for each position of the rule in its chain and of its index entry in the other.
\<close>

lemma addr_of_meta [simp]: "addr_of (t\<lparr>index_expn_table_meta := v\<rparr>) expn e = addr_of t expn e"
  by (simp add: addr_of_def)

section \<open>The rule\<close>

lemma unlink_cmd_effect:
  assumes "tbl_addr_offset t = 0"
  shows "apply_dma (base_size t) (unlink_cmd t i p v) m = m\<lparr>rules := update_at (unat p) (write16 8 v) (rules m)\<rparr>"
  using rule_cmd_effect [OF assms, of IPA_NAT_RULE_NEXT_FIELD_OFFSET i p v m]
  by (auto simp: unlink_cmd_def Let_def IPA_NAT_RULE_NEXT_FIELD_OFFSET_def not_less [symmetric] split: if_splits)

lemma base_cmd_effect:
  assumes "tbl_addr_offset t = 0" and "unat e < base_size t" and "unat fld < 32"
  shows "apply_dma (base_size t) \<lparr>dma_table_index = i, dma_base_addr = IPA_NAT_BASE_TBL,
     dma_offset = ipa_nati_get_entry_offset t e + fld, dma_data = v\<rparr> m =
     m\<lparr>rules := update_at (unat e) (write16 (unat fld) v) (rules m)\<rparr>"
  using rule_cmd_effect [OF assms(1,3), of i e v m] assms(2) by (simp add: word_less_nat_alt)

lemma nonzero_next: "chained T N occ nx pv ch \<Longrightarrow> ch h = us @ a # i # b # vs \<Longrightarrow> T \<le> N \<Longrightarrow> 0 < b"
  using chained_range [of T N occ nx pv ch b h] by auto

text \<open>
  What the command of \<open>del_rule_cmd\<close> and then \<open>reset_rule\<close> make of the table of rules: the rule is gone and the
  others are as before.
\<close>

definition rule_part :: "ipa_nat_ip4_table_cache \<Rightarrow> u16 \<Rightarrow> bool \<Rightarrow> del_type \<Rightarrow> nat_mem \<Rightarrow> ipa_nat_rule list \<Rightarrow> ipa_nat_rule list \<Rightarrow> bool" where
  "rule_part t en expn pos m rs1 rs2 \<longleftrightarrow>
     (\<forall>i m'. rules m' = rules m \<longrightarrow>
        apply_dma (base_size t) (del_rule_cmd t i en (rules m ! addr_of t expn en) pos) m' = m'\<lparr>rules := rs1\<rparr>) \<and>
     (\<forall>m'. rules m' = rs1 \<longrightarrow> reset_rule t en expn pos m' = Some (m'\<lparr>rules := rs2\<rparr>))"

lemma del_only:
  assumes wf: "rules_wf (base_size t) (total_size t) (rules m) ch" and "tbl_addr_offset t = 0" and e: "unat en < base_size t"
    and ch: "ch (unat en) = [unat en]"
  shows "rule_part t en False IPA_NAT_DEL_TYPE_ONLY_ONE m (update_at (unat en) (write16 18 0) (rules m)) ((rules m)[unat en := zero_rule])"
    and "\<exists>ch'. rules_wf (base_size t) (total_size t) ((rules m)[unat en := zero_rule]) ch'"
    and "removed (unat en) (rules m) ((rules m)[unat en := zero_rule])"
proof -
  have len: "unat en < length (rules m)" using rules_wfD(1) [OF wf] e by simp
  show "rule_part t en False IPA_NAT_DEL_TYPE_ONLY_ONE m (update_at (unat en) (write16 18 0) (rules m)) ((rules m)[unat en := zero_rule])"
    using base_cmd_effect [OF assms(2) e, of IPA_NAT_RULE_FLAG_FIELD_OFFSET] len
    by (auto simp: rule_part_def del_rule_cmd_def reset_rule_def IPA_NAT_RULE_FLAG_FIELD_OFFSET_def IPA_NAT_FLAG_DISABLE_BIT_MASK_def update_at_def)
  show "\<exists>ch'. rules_wf (base_size t) (total_size t) ((rules m)[unat en := zero_rule]) ch'"
    "removed (unat en) (rules m) ((rules m)[unat en := zero_rule])"
    using rules_drop_only [OF wf ch e] by auto
qed

lemma del_head:
  assumes wf: "rules_wf (base_size t) (total_size t) (rules m) ch" and "tbl_addr_offset t = 0" and e: "unat en < base_size t"
    and en: "enabled_at (rules m) (unat en)"
  defines "rs \<equiv> update_at (unat en) (write16 22 0xFF00) (rules m)"
  shows "rule_part t en False IPA_NAT_DEL_TYPE_HEAD m rs rs" and "rules_wf (base_size t) (total_size t) rs ch" and "removed (unat en) (rules m) rs"
proof -
  show "rule_part t en False IPA_NAT_DEL_TYPE_HEAD m rs rs"
    using base_cmd_effect [OF assms(2) e, of IPA_NAT_RULE_PROTO_FIELD_OFFSET]
    by (auto simp: rule_part_def del_rule_cmd_def reset_rule_def IPA_NAT_RULE_PROTO_FIELD_OFFSET_def IPA_NAT_INVALID_PROTO_FIELD_VALUE_def rs_def)
  show "rules_wf (base_size t) (total_size t) rs ch" "removed (unat en) (rules m) rs"
    using rules_drop_head [OF wf en e] by (simp_all add: rs_def)
qed

lemma del_last:
  assumes wf: "rules_wf (base_size t) (total_size t) (rules m) ch" and "tbl_addr_offset t = 0"
    and i: "i = addr_of t True en" "i < total_size t" and ch: "ch h = us @ [prev_at (rules m) i, i]"
  defines "rs1 \<equiv> update_at (prev_at (rules m) i) (write16 8 0) (rules m)"
  shows "rule_part t en True IPA_NAT_DEL_TYPE_LAST m rs1 (rs1[i := zero_rule])"
    and "\<exists>ch'. rules_wf (base_size t) (total_size t) (rs1[i := zero_rule]) ch'" and "removed i (rules m) (rs1[i := zero_rule])"
proof -
  have len: "i < length (rules m)" using rules_wfD(1) [OF wf] i by simp
  show "rule_part t en True IPA_NAT_DEL_TYPE_LAST m rs1 (rs1[i := zero_rule])"
    using unlink_cmd_effect [OF assms(2)] len i
    by (auto simp: rule_part_def del_rule_cmd_def reset_rule_def rs1_def prev_at_def)
  have "base_size t \<le> i" using i(1) by (simp add: addr_of_def)
  then show "\<exists>ch'. rules_wf (base_size t) (total_size t) (rs1[i := zero_rule]) ch'" "removed i (rules m) (rs1[i := zero_rule])"
    using rules_drop_last [OF wf ch] i(2) by (auto simp: rs1_def)
qed

lemma del_middle:
  assumes wf: "rules_wf (base_size t) (total_size t) (rules m) ch" and "tbl_addr_offset t = 0"
    and i: "i = addr_of t True en" "i < total_size t" and ch: "ch h = us @ prev_at (rules m) i # i # next_at (rules m) i # vs"
  defines "rs1 \<equiv> update_at (prev_at (rules m) i) (write16 8 (next_index (rules m ! i))) (rules m)"
    and "rs2 \<equiv> (update_at (next_at (rules m) i) (set_prev (prev_index (rules m ! i)))
        (update_at (prev_at (rules m) i) (write16 8 (next_index (rules m ! i))) (rules m)))[i := zero_rule]"
  shows "rule_part t en True IPA_NAT_DEL_TYPE_MIDDLE m rs1 rs2"
    and "\<exists>ch'. rules_wf (base_size t) (total_size t) rs2 ch'" and "removed i (rules m) rs2"
proof -
  note D = rules_wfD [OF wf]
  have len: "i < length (rules m)" using D(1) i by simp
  have "base_size t \<le> i" using i(1) by (simp add: addr_of_def)
  then show "\<exists>ch'. rules_wf (base_size t) (total_size t) rs2 ch'" "removed i (rules m) rs2"
    using rules_drop_middle [OF wf ch, of "next_index (rules m ! i)" "prev_index (rules m ! i)"] i(2)
    by (auto simp: rs2_def next_at_def prev_at_def)
  have b: "base_size t < next_at (rules m) i" "next_at (rules m) i < total_size t" "prev_at (rules m) i \<noteq> i" "prev_at (rules m) i < total_size t"
    using chainedD(1) [OF D(2), of h] ch chained_range [OF D(2), of "prev_at (rules m) i" h]
    by (cases us; force simp: bucket_shape_def)+
  have r1: "rs1 ! i = rules m ! i" "length rs1 = total_size t" using b D(1) by (simp_all add: rs1_def nth_update_at)
  have r2: "rs2 = (update_at (next_at (rules m) i) (set_prev (prev_index (rules m ! i))) rs1)[i := zero_rule]"
    by (simp add: rs1_def rs2_def)
  have nx: "addr_of t True (next_index (rules m ! i) - table_entries t) = next_at (rules m) i"
    using b(1) by (simp add: addr_of_expn next_at_def)
  have "reset_rule t en True IPA_NAT_DEL_TYPE_MIDDLE m' = Some (m'\<lparr>rules := rs2\<rparr>)" if "rules m' = rs1" for m'
    using that r1 nx i(1) [symmetric] len b(2) D(1) by (simp add: reset_rule_def Let_def r2 update_at_def set_prev_def)
  then show "rule_part t en True IPA_NAT_DEL_TYPE_MIDDLE m rs1 rs2"
    using unlink_cmd_effect [OF assms(2)] i by (auto simp: rule_part_def del_rule_cmd_def rs1_def prev_at_def)
qed

lemma del_rule_part:
  assumes wf: "rules_wf (base_size t) (total_size t) (rules m) ch" and off: "tbl_addr_offset t = 0"
    and i: "i = addr_of t expn en" "i < total_size t" "expn \<longleftrightarrow> base_size t \<le> i" and en: "enabled_at (rules m) i"
  shows "\<exists>pos rs1 rs2. ipa_nati_find_rule_pos t expn en m = Some pos \<and> rule_part t en expn pos m rs1 rs2 \<and>
     (\<exists>ch'. rules_wf (base_size t) (total_size t) rs2 ch') \<and> removed i (rules m) rs2"
proof -
  note D = rules_wfD [OF wf]
  have len: "i < length (rules m)" using D(1) i(2) by simp
  have z: "next_index (rules m ! i) = 0 \<longleftrightarrow> next_at (rules m) i = 0" by (simp add: next_at_def unat_eq_0)
  show ?thesis
  proof (cases expn)
    case False
    have e: "unat en = i" using i(1) False by simp
    moreover have "i < base_size t" using i(3) False by simp
    ultimately have e: "unat en = i" "i < base_size t" by simp_all
    obtain es where es: "ch i = i # es" "next_at (rules m) i = (case es of [] \<Rightarrow> 0 | b # _ \<Rightarrow> b)"
      using chained_head [OF D(2) en e(2)] by auto
    show ?thesis
    proof (cases "next_at (rules m) i = 0")
      case True
      have "0 \<notin> set es" using chained_range [OF D(2), of 0 i] es(1) by auto
      then have "ch (unat en) = [unat en]" using es True e by (auto split: list.splits)
      moreover have "ipa_nati_find_rule_pos t expn en m = Some IPA_NAT_DEL_TYPE_ONLY_ONE"
        using True len e False z by (simp add: ipa_nati_find_rule_pos_def)
      ultimately show ?thesis using del_only [OF wf off] e False by metis
    next
      case n: False
      then have "ipa_nati_find_rule_pos t expn en m = Some IPA_NAT_DEL_TYPE_HEAD"
        using len e False z by (simp add: ipa_nati_find_rule_pos_def)
      then show ?thesis using del_head [OF wf off] e False en by metis
    qed
  next
    case True
    then have x: "expn = True" by simp
    have "i = addr_of t True en" using i(1) True by simp
    moreover have "base_size t \<le> i" using i(3) True by simp
    ultimately have e: "i = addr_of t True en" "base_size t \<le> i" by simp_all
    obtain h us a vs where v: "ch h = us @ a # i # vs" "prev_at (rules m) i = a" "next_at (rules m) i = (case vs of [] \<Rightarrow> 0 | b # _ \<Rightarrow> b)"
      using chained_tail [OF D(2) en i(2) e(2)] .
    show ?thesis
    proof (cases vs)
      case Nil
      then have "ipa_nati_find_rule_pos t True en m = Some IPA_NAT_DEL_TYPE_LAST"
        using len e True z v(3) by (simp add: ipa_nati_find_rule_pos_def)
      moreover have "ch h = us @ [prev_at (rules m) i, i]" using v Nil by simp
      ultimately show ?thesis unfolding x using del_last [OF wf off e(1) i(2)] by blast
    next
      case (Cons b bs)
      then have "0 < b" using nonzero_next [OF D(2)] v(1) by simp
      then have "ipa_nati_find_rule_pos t True en m = Some IPA_NAT_DEL_TYPE_MIDDLE"
        using len e True z v(3) Cons by (simp add: ipa_nati_find_rule_pos_def)
      moreover have "ch h = us @ prev_at (rules m) i # i # next_at (rules m) i # bs" using v Cons by simp
      ultimately show ?thesis unfolding x using del_middle [OF wf off e(1) i(2)] by blast
    qed
  qed
qed

section \<open>The index entry\<close>

lemma unlink_index_cmd_effect:
  assumes "tbl_addr_offset t = 0"
  shows "apply_dma (base_size t) (unlink_index_cmd t i p v) m = m\<lparr>index_rules := update_at (unat p) (write_index16 2 v) (index_rules m)\<rparr>"
  using index_cmd_effect [OF assms, of IPA_NAT_INDEX_RULE_NEXT_FIELD_OFFSET i p v m]
  by (auto simp: unlink_index_cmd_def Let_def IPA_NAT_INDEX_RULE_NEXT_FIELD_OFFSET_def not_less [symmetric] split: if_splits)

lemma base_index_cmd_effect:
  assumes "tbl_addr_offset t = 0" and "unat e < base_size t" and "unat fld < 4"
  shows "apply_dma (base_size t) (index_cmd t i e fld v) m =
     m\<lparr>index_rules := update_at (unat e) (write_index16 (unat fld) v) (index_rules m)\<rparr>"
  using index_cmd_effect [OF assms(1,3), of i e v m] assms(2) by (simp add: index_cmd_def word_less_nat_alt)

lemma is_index_cmds [simp]: "is_index_cmd (index_cmd t i e fld v)" "is_index_cmd (unlink_index_cmd t i p v)"
  by (simp_all add: is_index_cmd_def index_cmd_def unlink_index_cmd_def Let_def)

text \<open>The offset of an entry within its table.\<close>

abbreviation own_of :: "ipa_nat_ip4_table_cache \<Rightarrow> u16 \<Rightarrow> u16" where
  "own_of t x \<equiv> (if x \<ge> table_entries t then x - table_entries t else x)"

definition index_part ::
  "ipa_nat_ip4_table_cache \<Rightarrow> u16 \<Rightarrow> del_type \<Rightarrow> nat_mem \<Rightarrow> u32 list \<Rightarrow> u32 list \<Rightarrow> u16 list \<Rightarrow> bool" where
  "index_part t x pos m xs1 xs2 meta \<longleftrightarrow> pos \<noteq> IPA_NAT_DEL_TYPE_HEAD \<and>
     (\<forall>i. \<exists>cmd. del_index_cmds t i x pos m = Some [cmd] \<and> is_index_cmd cmd \<and>
        (\<forall>m'. index_rules m' = index_rules m \<longrightarrow> apply_dma (base_size t) cmd m' = m'\<lparr>index_rules := xs1\<rparr>)) \<and>
     (\<forall>m'. index_rules m' = xs1 \<longrightarrow>
        reset_index_other t x (own_of t x) pos m' = Some (t\<lparr>index_expn_table_meta := Some meta\<rparr>, m'\<lparr>index_rules := xs2\<rparr>))"

lemma update_at_twice: "(update_at x f xs)[x := v] = xs[x := v]"
  by (simp add: update_at_def)

lemma index_del_only:
  assumes wf: "index_wf (base_size t) (total_size t) (index_rules m) meta ch" and off: "tbl_addr_offset t = 0"
    and meta: "index_expn_table_meta t = Some meta" and x: "unat x < base_size t" and ch: "ch (unat x) = [unat x]"
  shows "index_part t x IPA_NAT_DEL_TYPE_ONLY_ONE m (update_at (unat x) (write_index16 0 0) (index_rules m)) ((index_rules m)[unat x := 0]) meta"
    and "index_wf (base_size t) (total_size t) ((index_rules m)[unat x := 0]) meta (ch(unat x := []))"
proof -
  have len: "unat x < length (index_rules m)" using index_wfD(1) [OF wf] x by simp
  have nx: "\<not> table_entries t \<le> x" using x by (simp add: word_le_nat_alt)
  show "index_part t x IPA_NAT_DEL_TYPE_ONLY_ONE m (update_at (unat x) (write_index16 0 0) (index_rules m)) ((index_rules m)[unat x := 0]) meta"
    unfolding index_part_def
    using base_index_cmd_effect [OF off x, of IPA_NAT_INDEX_RULE_NAT_INDEX_FIELD_OFFSET] len nx meta
    by (auto simp: del_index_cmds_def reset_index_other_def IPA_NAT_INDEX_RULE_NAT_INDEX_FIELD_OFFSET_def update_at_twice)
  show "index_wf (base_size t) (total_size t) ((index_rules m)[unat x := 0]) meta (ch(unat x := []))"
    using index_drop_only [OF wf ch x] by simp
qed

lemma own_expn:
  assumes "base_size t \<le> unat x"
  shows "own_of t x = x - table_entries t" "unat (x - table_entries t) = unat x - base_size t" "table_entries t \<le> x"
  using assms by (simp_all add: word_le_nat_alt unat_minus16)

lemma index_del_last:
  assumes wf: "index_wf (base_size t) (total_size t) (index_rules m) meta ch" and off: "tbl_addr_offset t = 0"
    and meta: "index_expn_table_meta t = Some meta" and x: "base_size t \<le> unat x" "unat x < total_size t"
    and ch: "ch h = us @ [iprev_at (base_size t) meta (unat x), unat x]"
  defines "xs1 \<equiv> update_at (iprev_at (base_size t) meta (unat x)) (write_index16 2 0) (index_rules m)"
  shows "index_part t x IPA_NAT_DEL_TYPE_LAST m xs1 (xs1[unat x := 0]) meta"
    and "index_wf (base_size t) (total_size t) (xs1[unat x := 0]) meta (ch(h := us @ [iprev_at (base_size t) meta (unat x)]))"
proof -
  note D = index_wfD [OF wf]
  note own = own_expn [OF x(1)]
  have len: "unat x < length (index_rules m)" "unat x - base_size t < length meta" using D(1,2) x by simp_all
  have pv: "unat (meta ! (unat x - base_size t)) = iprev_at (base_size t) meta (unat x)" using x by (simp add: iprev_at_def)
  have cmd: "apply_dma (base_size t) (unlink_index_cmd t i (meta ! (unat x - base_size t)) 0) m' = m'\<lparr>index_rules := xs1\<rparr>"
    if "index_rules m' = index_rules m" for i m' using unlink_index_cmd_effect [OF off] that pv by (simp add: xs1_def)
  show "index_part t x IPA_NAT_DEL_TYPE_LAST m xs1 (xs1[unat x := 0]) meta"
    using cmd len meta own by (auto simp: index_part_def del_index_cmds_def reset_index_other_def xs1_def)
  show "index_wf (base_size t) (total_size t) (xs1[unat x := 0]) meta (ch(h := us @ [iprev_at (base_size t) meta (unat x)]))"
    using index_drop_last [OF wf ch x(2)] by (simp add: xs1_def)
qed

lemma index_del_middle:
  assumes wf: "index_wf (base_size t) (total_size t) (index_rules m) meta ch" and off: "tbl_addr_offset t = 0"
    and meta: "index_expn_table_meta t = Some meta" and x: "base_size t \<le> unat x" "unat x < total_size t"
    and ch: "ch h = us @ iprev_at (base_size t) meta (unat x) # unat x # inext_at (index_rules m) (unat x) # vs"
  defines "xs1 \<equiv> update_at (iprev_at (base_size t) meta (unat x)) (write_index16 2 (index_next (index_rules m ! unat x))) (index_rules m)"
    and "meta' \<equiv> meta[inext_at (index_rules m) (unat x) - base_size t := meta ! (unat x - base_size t), unat x - base_size t := 0]"
  shows "index_part t x IPA_NAT_DEL_TYPE_MIDDLE m xs1 (xs1[unat x := 0]) meta'"
    and "index_wf (base_size t) (total_size t) (xs1[unat x := 0]) meta'
      (ch(h := us @ iprev_at (base_size t) meta (unat x) # inext_at (index_rules m) (unat x) # vs))"
proof -
  note D = index_wfD [OF wf]
  note own = own_expn [OF x(1)]
  let ?b = "inext_at (index_rules m) (unat x)" and ?a = "iprev_at (base_size t) meta (unat x)"
  have b: "base_size t < ?b" "?b < total_size t" "?a \<noteq> unat x" "?a < total_size t"
    using chainedD(1) [OF D(3), of h] ch chained_range [OF D(3), of ?a h] by (cases us; force simp: bucket_shape_def)+
  have len: "unat x < length (index_rules m)" "unat x - base_size t < length meta" "?b - base_size t < length meta" using D(1,2) x b by simp_all
  have pv: "unat (meta ! (unat x - base_size t)) = ?a" using x by (simp add: iprev_at_def)
  have cmd: "apply_dma (base_size t) (unlink_index_cmd t i (meta ! (unat x - base_size t)) (index_next (index_rules m ! unat x))) m' =
      m'\<lparr>index_rules := xs1\<rparr>"
    if "index_rules m' = index_rules m" for i m' using unlink_index_cmd_effect [OF off] that pv by (simp add: xs1_def)
  have x1: "xs1 ! unat x = index_rules m ! unat x" "length xs1 = total_size t" using b D(1) by (simp_all add: xs1_def nth_update_at)
  have nb: "unat (hi16 (index_rules m ! unat x)) = ?b" by (simp add: inext_at_def)
  have nx: "table_entries t \<le> hi16 (index_rules m ! unat x)" "unat (hi16 (index_rules m ! unat x) - table_entries t) = ?b - base_size t"
    using own_expn [of t "hi16 (index_rules m ! unat x)"] b(1) nb by simp_all
  have "reset_index_other t x (own_of t x) IPA_NAT_DEL_TYPE_MIDDLE m' = Some (t\<lparr>index_expn_table_meta := Some meta'\<rparr>, m'\<lparr>index_rules := xs1[unat x := 0]\<rparr>)"
    if "index_rules m' = xs1" for m'
    using that x1 x own meta len nx by (simp add: reset_index_other_def Let_def meta'_def)
  then show "index_part t x IPA_NAT_DEL_TYPE_MIDDLE m xs1 (xs1[unat x := 0]) meta'"
    using cmd len meta own by (auto simp: index_part_def del_index_cmds_def)
  show "index_wf (base_size t) (total_size t) (xs1[unat x := 0]) meta' (ch(h := us @ ?a # ?b # vs))"
    using index_drop_middle [OF wf ch x, of "index_next (index_rules m ! unat x)" "meta ! (unat x - base_size t)"] nb pv
    by (simp add: xs1_def meta'_def)
qed

text \<open>All positions but the head with followers.\<close>

lemma unlinked_ient:
  assumes "a < length xs" "x < length xs"
  shows "ient_at ((update_at a (write_index16 2 v) xs)[x := 0]) = (ient_at xs)(x := 0)"
proof -
  have "x < length (update_at a (write_index16 2 v) xs)" using assms(2) by simp
  then show ?thesis by (simp add: zero_index_views write_index_views [OF assms(1)])
qed

lemma del_index_part:
  assumes wf: "index_wf (base_size t) (total_size t) (index_rules m) meta ch" and off: "tbl_addr_offset t = 0"
    and meta: "index_expn_table_meta t = Some meta" and x: "unat x < total_size t" and occ: "ient_at (index_rules m) (unat x) \<noteq> 0"
  obtains (part) pos xs1 xs2 meta' h zs where "ipa_nati_find_index_rule_pos t x m = Some pos" "index_part t x pos m xs1 xs2 meta'"
      "index_wf (base_size t) (total_size t) xs2 meta' (ch(h := zs))" "set (ch h) \<subseteq> insert (unat x) (set zs)"
      "ient_at xs2 = (ient_at (index_rules m))(unat x := 0)"
  | (head) ys where "ipa_nati_find_index_rule_pos t x m = Some IPA_NAT_DEL_TYPE_HEAD" "unat x < base_size t"
      "ch (unat x) = unat x # inext_at (index_rules m) (unat x) # ys"
proof -
  note D = index_wfD [OF wf]
  have len: "unat x < length (index_rules m)" using D(1) x by simp
  have z: "hi16 (index_rules m ! unat x) = 0 \<longleftrightarrow> inext_at (index_rules m) (unat x) = 0" by (simp add: inext_at_def unat_eq_0)
  show ?thesis
  proof (cases "unat x < base_size t")
    case True
    then have nx: "\<not> table_entries t \<le> x" by (simp add: word_le_nat_alt)
    obtain es where es: "ch (unat x) = unat x # es" "inext_at (index_rules m) (unat x) = (case es of [] \<Rightarrow> 0 | b # _ \<Rightarrow> b)"
      using chained_head [OF D(3) occ True] by auto
    show ?thesis
    proof (cases es)
      case Nil
      then have "ipa_nati_find_index_rule_pos t x m = Some IPA_NAT_DEL_TYPE_ONLY_ONE" and "ch (unat x) = [unat x]"
        using len nx z es by (simp_all add: ipa_nati_find_index_rule_pos_def)
      with index_del_only [OF wf off meta True] zero_index_views(1) [OF len] show ?thesis by (intro part) auto
    next
      case (Cons b bs)
      then have "b \<noteq> 0" using chained_range [OF D(3), of b "unat x"] es(1) by auto
      then have "ipa_nati_find_index_rule_pos t x m = Some IPA_NAT_DEL_TYPE_HEAD"
        using len nx z es(2) Cons by (simp add: ipa_nati_find_index_rule_pos_def)
      then show ?thesis using head True es Cons by simp
    qed
  next
    case False
    then have e: "base_size t \<le> unat x" and nx: "table_entries t \<le> x" by (simp_all add: word_le_nat_alt)
    obtain h us a vs where v: "ch h = us @ a # unat x # vs" "iprev_at (base_size t) meta (unat x) = a"
      "inext_at (index_rules m) (unat x) = (case vs of [] \<Rightarrow> 0 | b # _ \<Rightarrow> b)"
      using chained_tail [OF D(3) occ x e] .
    have a: "a < length (index_rules m)" using chained_range [OF D(3), of a h] v(1) D(1) by simp
    show ?thesis
    proof (cases vs)
      case Nil
      then have c: "ch h = us @ [iprev_at (base_size t) meta (unat x), unat x]" using v by simp
      have "ipa_nati_find_index_rule_pos t x m = Some IPA_NAT_DEL_TYPE_LAST"
        using len nx z v(3) Nil by (simp add: ipa_nati_find_index_rule_pos_def)
      then show ?thesis using index_del_last [OF wf off meta e x c] c v(2) unlinked_ient [OF a len] by (intro part) auto
    next
      case (Cons b bs)
      then have c: "ch h = us @ iprev_at (base_size t) meta (unat x) # unat x # inext_at (index_rules m) (unat x) # bs" using v by simp
      have "0 < b" using nonzero_next [OF D(3)] v(1) Cons by simp
      then have "ipa_nati_find_index_rule_pos t x m = Some IPA_NAT_DEL_TYPE_MIDDLE"
        using len nx z v(3) Cons by (simp add: ipa_nati_find_index_rule_pos_def)
      then show ?thesis using index_del_middle [OF wf off meta e x c] c v(2) unlinked_ient [OF a len] by (intro part) auto
    qed
  qed
qed

text \<open>A head with followers: the second entry \<open>y\<close> moves to the head.\<close>

definition pulled :: "u32 list \<Rightarrow> nat \<Rightarrow> nat \<Rightarrow> u32 list" where
  "pulled xs h y = update_at h (write_index16 2 (index_next (xs ! y))) (update_at h (write_index16 0 (index_tbl_entry (xs ! y))) xs)"

lemma index_del_head:
  assumes wf: "index_wf (base_size t) (total_size t) (index_rules m) meta ch" and off: "tbl_addr_offset t = 0"
    and meta: "index_expn_table_meta t = Some meta" and x: "unat x < base_size t" and ch: "ch (unat x) = unat x # y # ys"
    and y: "y = inext_at (index_rules m) (unat x)" and j: "j = ient_at (index_rules m) y"
  defines "xs1 \<equiv> pulled (index_rules m) (unat x) y" and "nn \<equiv> inext_at (index_rules m) y"
  defines "meta' \<equiv> if nn = 0 then meta else meta[nn - base_size t := x]"
  shows "\<exists>c1 c2. del_index_cmds t i x IPA_NAT_DEL_TYPE_HEAD m = Some [c1, c2] \<and> is_index_cmd c1 \<and> is_index_cmd c2 \<and>
       (\<forall>m'. index_rules m' = index_rules m \<longrightarrow> apply_dma (base_size t) c2 (apply_dma (base_size t) c1 m') = m'\<lparr>index_rules := xs1\<rparr>)"
    and "\<And>m'. index_rules m' = xs1 \<Longrightarrow> j < length (rules m') \<Longrightarrow>
       reset_index_head t (own_of t x) (index_next (index_rules m ! unat x) - table_entries t) m' =
         Some (t\<lparr>index_expn_table_meta := Some meta'\<rparr>, m'\<lparr>index_rules := xs1[y := 0], rules := update_at j (set_indx x) (rules m')\<rparr>)"
    and "index_wf (base_size t) (total_size t) (xs1[y := 0]) meta' (ch(unat x := unat x # ys))"
    and "ient_at (xs1[y := 0]) = (ient_at (index_rules m))(unat x := j, y := 0)"
    and "base_size t < y" "y < total_size t" "j \<noteq> 0"
proof -
  note D = index_wfD [OF wf]
  have yr: "base_size t < y" "y < total_size t" and nr: "nn = 0 \<or> nn \<in> set ys"
    using chainedD(1) [OF D(3), of "unat x"] links_nxt [of "inext_at (index_rules m)" "iprev_at (base_size t) meta" "[unat x]" y ys]
      chainedD(2) [OF D(3), of "unat x"] ch by (auto simp: bucket_shape_def nn_def split: list.splits)
  show "base_size t < y" "y < total_size t" by (fact yr)+
  show "j \<noteq> 0" using chained_occ [OF D(3), of y "unat x"] ch yr(2) j by simp
  have nnr: "nn \<noteq> 0 \<Longrightarrow> base_size t < nn \<and> nn < total_size t"
    using nr chainedD(1) [OF D(3), of "unat x"] ch by (auto simp: bucket_shape_def)
  have len: "unat x < length (index_rules m)" "y < length (index_rules m)" "unat x \<noteq> y" using D(1) x yr by simp_all
  have nx: "\<not> table_entries t \<le> x" using x by (simp add: word_le_nat_alt)
  have ay: "addr_of t True (hi16 (index_rules m ! unat x) - table_entries t) = y"
    using yr y addr_of_expn [of t "hi16 (index_rules m ! unat x)"] by (simp add: inext_at_def)
  show "\<exists>c1 c2. del_index_cmds t i x IPA_NAT_DEL_TYPE_HEAD m = Some [c1, c2] \<and> is_index_cmd c1 \<and> is_index_cmd c2 \<and>
       (\<forall>m'. index_rules m' = index_rules m \<longrightarrow> apply_dma (base_size t) c2 (apply_dma (base_size t) c1 m') = m'\<lparr>index_rules := xs1\<rparr>)"
    using base_index_cmd_effect [OF off x, of IPA_NAT_INDEX_RULE_NAT_INDEX_FIELD_OFFSET]
      base_index_cmd_effect [OF off x, of IPA_NAT_INDEX_RULE_NEXT_FIELD_OFFSET] len nx ay
    by (auto simp: del_index_cmds_def xs1_def pulled_def IPA_NAT_INDEX_RULE_NAT_INDEX_FIELD_OFFSET_def IPA_NAT_INDEX_RULE_NEXT_FIELD_OFFSET_def)
  show "index_wf (base_size t) (total_size t) (xs1[y := 0]) meta' (ch(unat x := unat x # ys))"
    unfolding xs1_def pulled_def meta'_def nn_def by (rule index_pull_up [OF wf ch _ refl]) simp
  show "ient_at (xs1[y := 0]) = (ient_at (index_rules m))(unat x := j, y := 0)"
    using pull_up_views(1) [OF len] j by (simp add: xs1_def pulled_def)
  have x1: "xs1 ! y = index_rules m ! y" "lo16 (xs1 ! unat x) = lo16 (index_rules m ! y)" "length xs1 = total_size t"
    using len D(1) by (simp_all add: xs1_def pulled_def nth_update_at write_index16_def)
  have nw: "unat (hi16 (index_rules m ! y)) = nn" "unat (lo16 (index_rules m ! y)) = j" by (simp_all add: nn_def j inext_at_def ient_at_def)
  have nm: "hi16 (index_rules m ! y) \<noteq> 0 \<and> table_entries t \<le> hi16 (index_rules m ! y) \<longleftrightarrow> nn \<noteq> 0"
    "nn \<noteq> 0 \<Longrightarrow> unat (hi16 (index_rules m ! y) - table_entries t) = nn - base_size t"
    using nnr nw own_expn [of t "hi16 (index_rules m ! y)"] by (auto simp: unat_eq_0 [symmetric])
  fix m' :: nat_mem assume m': "index_rules m' = xs1" "j < length (rules m')"
  have mt: "nn \<noteq> 0 \<Longrightarrow> nn - base_size t < length meta" using nnr D(2) by auto
  show "reset_index_head t (own_of t x) (index_next (index_rules m ! unat x) - table_entries t) m' =
         Some (t\<lparr>index_expn_table_meta := Some meta'\<rparr>, m'\<lparr>index_rules := xs1[y := 0], rules := update_at j (set_indx x) (rules m')\<rparr>)"
    using m' x1 nw nm mt nx ay meta len D(1) yr
    by (simp add: reset_index_head_def Let_def meta'_def update_at_def set_indx_def)
qed

section \<open>The whole operation\<close>

lemma rules_set_indx:
  assumes wf: "rules_wf T N rs ch" and "j < N" and "enabled_at rs j"
  shows "rules_wf T N (update_at j (set_indx v) rs) ch"
proof -
  have len: "j < length rs" using rules_wfD(1) [OF wf] assms(2) by simp
  note V = set_indx_views [OF len, of v]
  have "live_at (update_at j (set_indx v) rs) = live_at rs" by (simp add: fun_eq_iff live_at_def V)
  then show ?thesis using wf assms(3) unfolding rules_wf_def V by (auto simp: nth_update_at [OF len])
qed

lemma del_rule_cmd_not_index: "\<not> is_index_cmd (del_rule_cmd t i en r pos)"
  by (cases pos) (simp_all add: del_rule_cmd_def is_index_cmd_def unlink_cmd_def Let_def)

lemma reorder_effect:
  assumes "kernel_ok T env" and "\<not> is_index_cmd r" and "is_index_cmd c"
  shows "\<exists>w'. ReorderCmds env (r # c # cs) w = (c # cs @ [r], w')"
proof -
  have "find_idx (\<lambda>cnt. is_index_cmd ((r # c # cs) ! cnt)) (length (r # c # cs)) = 1"
    using assms(2,3) by (intro find_idx_eqI) auto
  then show ?thesis using kernel_okD(2) [OF assms(1), of w] by (auto simp: ReorderCmds_def Let_def)
qed

text \<open>The state that \<open>ipa_nati_post_del_dma_cmd\<close> leaves behind.\<close>

definition deleted :: "nat \<Rightarrow> nat \<Rightarrow> nat \<Rightarrow> nat_mem \<Rightarrow> nat_mem \<Rightarrow> u16 list \<Rightarrow> bool" where
  "deleted T N i m m' meta \<longleftrightarrow>
     (\<exists>ch. rules_wf T N (rules m') ch) \<and>
     (\<exists>ch. index_wf T N (index_rules m') meta ch \<and>
        cross N (live_at (rules m')) (indx_at (rules m')) (ient_at (index_rules m')) (\<lambda>i. src_bucket T (client_at (rules m') i)) ch) \<and>
     live_at (rules m') = (live_at (rules m))(i := False) \<and> (\<forall>j. j \<noteq> i \<longrightarrow> client_at (rules m') j = client_at (rules m) j)"

lemma deleted_part:
  assumes ok: "mem_ok T N m meta ids chR chI" and i: "i < N" "live_at (rules m) i"
    and rules: "\<exists>ch. rules_wf T N rs2 ch" "removed i (rules m) rs2"
    and index: "index_wf T N xs2 meta' (chI(h := zs))" "set (chI h) \<subseteq> insert (indx_at (rules m) i) (set zs)"
      "ient_at xs2 = (ient_at (index_rules m))(indx_at (rules m) i := 0)"
  shows "deleted T N i m \<lparr>rules = rs2, index_rules = xs2\<rparr> meta'"
proof -
  have "cross N ((live_at (rules m))(i := False)) (indx_at (rules m)) ((ient_at (index_rules m))(indx_at (rules m) i := 0))
      (\<lambda>i. src_bucket T (client_at (rules m) i)) (chI(h := zs))"
    using index(2) by (intro cross_del [OF mem_okD(4) [OF ok] i refl])
  then have "cross N (live_at rs2) (indx_at rs2) (ient_at xs2) (\<lambda>i. src_bucket T (client_at rs2 i)) (chI(h := zs))"
    unfolding index(3) by (rule cross_cong) (use rules(2) in \<open>auto simp: removed_def split: if_splits\<close>)
  then show ?thesis using rules index(1) by (auto simp: deleted_def removed_def)
qed

lemma deleted_head:
  assumes ok: "mem_ok T N m meta ids chR chI" and "T \<le> N" and i: "i < N" "live_at (rules m) i" and x: "unat x = indx_at (rules m) i"
    and rules: "rules_wf T N rs2 ch" "removed i (rules m) rs2"
    and ch: "chI (unat x) = unat x # y # ys" and j: "j = ient_at (index_rules m) y" "j \<noteq> 0" and y: "y < N"
    and index: "index_wf T N xs2 meta' (chI(unat x := unat x # ys))" "ient_at xs2 = (ient_at (index_rules m))(unat x := j, y := 0)"
  shows "deleted T N i m \<lparr>rules = update_at j (set_indx x) rs2, index_rules = xs2\<rparr> meta'"
proof -
  note C = mem_okD(4) [OF ok] and I = index_wfD(3) [OF mem_okD(3) [OF ok]]
  have yx: "y \<noteq> unat x" using chainedD(1) [OF I, of "unat x"] ch by (auto simp: bucket_shape_def)
  have jl: "j < N" "live_at (rules m) j" "indx_at (rules m) j = y" "y \<in> set (chI (src_bucket T (client_at (rules m) j)))"
    using crossD(3-6) [OF C y] j by auto
  have ji: "j \<noteq> i" using jl(3) x yx by auto
  have bucket: "src_bucket T (client_at (rules m) j) = unat x"
    using chainedD(3) [OF I, of "src_bucket T (client_at (rules m) j)" "unat x"] jl(4) ch by auto
  have jr: "live_at rs2 j" "j < length rs2" using rules jl ji rules_wfD(1) [OF rules(1)] by (auto simp: removed_def)
  note V = set_indx_views [OF jr(2), of x]
  have lv: "live_at (update_at j (set_indx x) rs2) = live_at rs2" by (simp add: fun_eq_iff live_at_def V)
  have "cross N ((live_at (rules m))(i := False)) ((indx_at (rules m))(j := unat x)) ((ient_at (index_rules m))(unat x := j, y := 0))
      (\<lambda>i. src_bucket T (client_at (rules m) i)) (chI(unat x := unat x # ys))"
    unfolding j(1) using j y yx ch bucket x by (intro cross_move [OF C i]) auto
  then have "cross N (live_at (update_at j (set_indx x) rs2)) (indx_at (update_at j (set_indx x) rs2)) (ient_at xs2)
      (\<lambda>i. src_bucket T (client_at (update_at j (set_indx x) rs2) i)) (chI(unat x := unat x # ys))"
    unfolding index(2) lv V by (rule cross_cong) (use rules(2) in \<open>auto simp: removed_def split: if_splits\<close>)
  moreover have "rules_wf T N (update_at j (set_indx x) rs2) ch"
    using rules_set_indx [OF rules(1) jl(1)] jr(1) by (simp add: live_at_def)
  ultimately show ?thesis using rules(2) index(1) lv V(6) by (auto simp: deleted_def removed_def)
qed

lemma post_del_effect:
  assumes ok: "mem_ok (base_size t) (total_size t) m meta ids chR chI" and k: "kernel_ok (base_size t) env"
    and t: "tbl_addr_offset t = 0" "index_expn_table_meta t = Some meta"
    and i: "i = addr_of t expn en" "i < total_size t" "expn \<longleftrightarrow> base_size t \<le> i" and live: "live_at (rules m) i"
  shows "\<exists>pos meta' m' w'. ipa_nati_find_rule_pos t expn en m = Some pos \<and>
     ipa_nati_post_del_dma_cmd env t tbl en expn pos m w = Some (0, t\<lparr>index_expn_table_meta := Some meta'\<rparr>, m', w') \<and>
     deleted (base_size t) (total_size t) i m m' meta'"
proof -
  note D = mem_okD [OF ok]
  have en: "enabled_at (rules m) i" using live by (simp add: live_at_def)
  obtain pos rs1 rs2 where pos: "ipa_nati_find_rule_pos t expn en m = Some pos" and rp: "rule_part t en expn pos m rs1 rs2"
    and rw: "\<exists>ch. rules_wf (base_size t) (total_size t) rs2 ch" "removed i (rules m) rs2"
    using del_rule_part [OF D(1) t(1) i en] by blast
  define x where "x = indx_tbl_entry (rules m ! i)"
  have x: "unat x = indx_at (rules m) i" "unat x < total_size t" "ient_at (index_rules m) (unat x) \<noteq> 0"
    using crossD(1,2,7) [OF D(4) i(2) live] by (simp_all add: x_def indx_at_def)
  have len: "i < length (rules m)" "unat x < length (index_rules m)" "length rs2 = total_size t"
    using rules_wfD(1) [OF D(1)] index_wfD(1) [OF D(3)] i(2) x(2) rw(1) rules_wfD(1) by auto
  let ?r = "rules m ! addr_of t expn en" and ?rc = "del_rule_cmd t tbl en (rules m ! addr_of t expn en) pos"
  obtain w1 where w1: "drv_malloc env w = (True, w1)" using kernel_okD(2) [OF k] by blast
  have r: "rd (rules m) (addr_of t expn en) = Some ?r" "rule_enabled ?r" "indx_tbl_entry ?r = x"
    using len(1) i(1) [symmetric] en by (simp_all add: enabled_at_def x_def)
  have xr: "rd (index_rules m) (place t x) = Some (index_rules m ! unat x)" using len(2) by simp
  show ?thesis
  proof (rule del_index_part [OF D(3) t x(2,3)])
    fix ipos xs1 xs2 meta' h zs
    assume ip: "ipa_nati_find_index_rule_pos t x m = Some ipos" "index_part t x ipos m xs1 xs2 meta'"
      and iw: "index_wf (base_size t) (total_size t) xs2 meta' (chI(h := zs))" "set (chI h) \<subseteq> insert (unat x) (set zs)"
        "ient_at xs2 = (ient_at (index_rules m))(unat x := 0)"
    obtain c where c: "del_index_cmds t tbl x ipos m = Some [c]" "is_index_cmd c"
      "\<forall>m'. index_rules m' = index_rules m \<longrightarrow> apply_dma (base_size t) c m' = m'\<lparr>index_rules := xs1\<rparr>"
      using ip(2) unfolding index_part_def by blast
    obtain w2 where w2: "ReorderCmds env [?rc, c] w1 = ([c, ?rc], w2)"
      using reorder_effect [OF k _ c(2), of ?rc "[]" w1] del_rule_cmd_not_index by auto
    have "fold (apply_dma (base_size t)) [c, ?rc] m = \<lparr>rules = rs1, index_rules = xs1\<rparr>"
      using c(3) rp by (simp add: rule_part_def)
    then obtain w3 where w3: "ioctl_dma env [c, ?rc] m w2 = (0, \<lparr>rules = rs1, index_rules = xs1\<rparr>, w3)"
      using kernel_okD(1) [OF k] by metis
    have re: "reset_rule t en expn pos \<lparr>rules = rs1, index_rules = xs1\<rparr> = Some \<lparr>rules = rs2, index_rules = xs1\<rparr>"
      using rp by (simp add: rule_part_def)
    have ri: "reset_index_other t x (own_of t x) ipos \<lparr>rules = rs2, index_rules = xs1\<rparr> =
        Some (t\<lparr>index_expn_table_meta := Some meta'\<rparr>, \<lparr>rules = rs2, index_rules = xs2\<rparr>)" "ipos \<noteq> IPA_NAT_DEL_TYPE_HEAD"
      using ip(2) by (simp_all add: index_part_def)
    have "ipa_nati_post_del_dma_cmd env t tbl en expn pos m w =
        Some (0, t\<lparr>index_expn_table_meta := Some meta'\<rparr>, \<lparr>rules = rs2, index_rules = xs2\<rparr>, w3)"
      unfolding ipa_nati_post_del_dma_cmd_def w1 Let_def prod.case r(1) bind.bind_lunit r(3) ip(1) xr c(1) w2 w3 re
      using r(2) ri by (simp add: Let_def)
    moreover have "deleted (base_size t) (total_size t) i m \<lparr>rules = rs2, index_rules = xs2\<rparr> meta'"
      using deleted_part [OF ok i(2) live rw iw(1)] iw(2,3) x(1) by simp
    ultimately show ?thesis using pos by blast
  next
    fix ys assume ip: "ipa_nati_find_index_rule_pos t x m = Some IPA_NAT_DEL_TYPE_HEAD" "unat x < base_size t"
      and ch: "chI (unat x) = unat x # inext_at (index_rules m) (unat x) # ys"
    let ?y = "inext_at (index_rules m) (unat x)"
    let ?j = "ient_at (index_rules m) ?y" and ?nn = "inext_at (index_rules m) ?y" and ?xs1 = "pulled (index_rules m) (unat x) ?y"
    let ?meta = "if ?nn = 0 then meta else meta[?nn - base_size t := x]"
    note H = index_del_head [OF D(3) t ip(2) ch refl refl]
    obtain c1 c2 where c: "del_index_cmds t tbl x IPA_NAT_DEL_TYPE_HEAD m = Some [c1, c2]" "is_index_cmd c1" "is_index_cmd c2"
      "\<forall>m'. index_rules m' = index_rules m \<longrightarrow> apply_dma (base_size t) c2 (apply_dma (base_size t) c1 m') = m'\<lparr>index_rules := ?xs1\<rparr>"
      using H(1) by blast
    have j: "?j < total_size t" using crossD(3) [OF D(4) H(6)] H(7) by blast
    obtain w2 where w2: "ReorderCmds env [?rc, c1, c2] w1 = ([c1, c2, ?rc], w2)"
      using reorder_effect [OF k _ c(2), of ?rc "[c2]" w1] del_rule_cmd_not_index by auto
    have "fold (apply_dma (base_size t)) [c1, c2, ?rc] m = \<lparr>rules = rs1, index_rules = ?xs1\<rparr>"
      using c(4) rp by (simp add: rule_part_def)
    then obtain w3 where w3: "ioctl_dma env [c1, c2, ?rc] m w2 = (0, \<lparr>rules = rs1, index_rules = ?xs1\<rparr>, w3)"
      using kernel_okD(1) [OF k] by metis
    have re: "reset_rule t en expn pos \<lparr>rules = rs1, index_rules = ?xs1\<rparr> = Some \<lparr>rules = rs2, index_rules = ?xs1\<rparr>"
      using rp by (simp add: rule_part_def)
    have ri: "reset_index_head t (own_of t x) (index_next (index_rules m ! unat x) - table_entries t) \<lparr>rules = rs2, index_rules = ?xs1\<rparr> =
        Some (t\<lparr>index_expn_table_meta := Some ?meta\<rparr>, \<lparr>rules = update_at ?j (set_indx x) rs2, index_rules = ?xs1[?y := 0]\<rparr>)"
      using H(2) [of "\<lparr>rules = rs2, index_rules = ?xs1\<rparr>"] j len(3) by simp
    have "ipa_nati_post_del_dma_cmd env t tbl en expn pos m w =
        Some (0, t\<lparr>index_expn_table_meta := Some ?meta\<rparr>, \<lparr>rules = update_at ?j (set_indx x) rs2, index_rules = ?xs1[?y := 0]\<rparr>, w3)"
      unfolding ipa_nati_post_del_dma_cmd_def w1 Let_def prod.case r(1) bind.bind_lunit r(3) ip(1) xr c(1) w2 w3 re
      using r(2) ri by (simp add: Let_def)
    moreover obtain chr where rch: "rules_wf (base_size t) (total_size t) rs2 chr" using rw(1) by blast
    have "deleted (base_size t) (total_size t) i m \<lparr>rules = update_at ?j (set_indx x) rs2, index_rules = ?xs1[?y := 0]\<rparr> ?meta"
      by (rule deleted_head [OF ok _ i(2) live x(1) rch rw(2) ch refl H(7,6,3,4)]) simp
    ultimately show ?thesis using pos by blast
  qed
qed

lemma deleted_sweep:
  assumes "deleted T N i m m' meta" and "T \<le> N"
  shows "\<exists>chR chI. rules_wf T N (for_upto T sweep_step (rules m')) chR \<and> swept T (for_upto T sweep_step (rules m')) \<and>
      index_wf T N (index_rules m') meta chI \<and>
      cross N (live_at (for_upto T sweep_step (rules m'))) (indx_at (for_upto T sweep_step (rules m'))) (ient_at (index_rules m'))
        (\<lambda>i. src_bucket T (client_at (for_upto T sweep_step (rules m')) i)) chI"
    and "live_at (for_upto T sweep_step (rules m')) = (live_at (rules m))(i := False)"
    and "j \<noteq> i \<Longrightarrow> live_at (rules m) j \<Longrightarrow> client_at (for_upto T sweep_step (rules m')) j = client_at (rules m) j"
proof -
  obtain chR where chR: "rules_wf T N (rules m') chR" using assms(1) by (auto simp: deleted_def)
  obtain chI where I: "index_wf T N (index_rules m') meta chI" and C: "cross N (live_at (rules m')) (indx_at (rules m')) (ient_at (index_rules m'))
      (\<lambda>i. src_bucket T (client_at (rules m') i)) chI" using assms(1) by (auto simp: deleted_def)
  note S = sweep_ok [OF chR assms(2)]
  have sl: "same_live (rules m') (for_upto T sweep_step (rules m'))" using S by blast
  have "cross N (live_at (for_upto T sweep_step (rules m'))) (indx_at (for_upto T sweep_step (rules m'))) (ient_at (index_rules m'))
        (\<lambda>i. src_bucket T (client_at (for_upto T sweep_step (rules m')) i)) chI"
    using C by (rule cross_cong) (use sl in \<open>auto simp: same_live_def\<close>)
  then show "\<exists>chR chI. rules_wf T N (for_upto T sweep_step (rules m')) chR \<and> swept T (for_upto T sweep_step (rules m')) \<and>
      index_wf T N (index_rules m') meta chI \<and>
      cross N (live_at (for_upto T sweep_step (rules m'))) (indx_at (for_upto T sweep_step (rules m'))) (ient_at (index_rules m'))
        (\<lambda>i. src_bucket T (client_at (for_upto T sweep_step (rules m')) i)) chI"
    using S I by blast
  show "live_at (for_upto T sweep_step (rules m')) = (live_at (rules m))(i := False)"
    using sl assms(1) by (simp add: same_live_def deleted_def)
  show "client_at (for_upto T sweep_step (rules m')) j = client_at (rules m) j" if "j \<noteq> i" "live_at (rules m) j"
    using sl assms(1) that by (simp add: same_live_def deleted_def)
qed

text \<open>A handle in use is parsed to the entry of its rule.\<close>

lemma parse_handle:
  assumes ids: "ids_wf (base_size t) (total_size t) L ids" and "rule_id_array t = Some ids" and sz: "sizes_ok (base_size t) (total_size t)"
    and nz: "\<not> L 0" "\<not> L (base_size t)"
    and h: "0 < unat h" "unat h \<le> total_size t" "ids ! (unat h - 1) \<noteq> 0"
  obtains i en where "ipa_nati_parse_ipv4_rule_hdl t (ucast (h :: u32)) = Some (base_size t \<le> i, en)" "en \<noteq> 0" "L i"
    "i = addr_of t (base_size t \<le> i) en" "i < total_size t" "ids ! (unat h - 1) = rule_id (base_size t) i" "unat h < total_size t"
    "entry_of (base_size t) (ids ! (unat h - 1)) = i"
proof -
  note D = ids_wfD [OF ids]
  have bd: "base_size t \<le> 32768" "total_size t - base_size t \<le> 32768" using sz by (auto simp: sizes_ok_def)
  have k: "unat h - 1 < total_size t" using h(1,2) by linarith
  obtain i where i: "i < total_size t" "L i" "ids ! (unat h - 1) = rule_id (base_size t) i" using D(2) [OF k h(3)] by blast
  note R = rule_id_entry [OF i(1) bd]
  have hN: "unat h < total_size t" using D(5) [OF k h(3)] h(1) by simp
  then have u: "unat (ucast h :: u16) = unat h" using sz by (intro unat_cast16) (simp add: sizes_ok_def)
  let ?o = "if base_size t \<le> i then i - base_size t else i"
  have o: "unat (of_nat ?o :: u16) = ?o" using i(1) sz by (intro unat_of_nat16) (auto simp: sizes_ok_def)
  have "i \<noteq> 0" "i \<noteq> base_size t" using i(2) nz by metis+
  then have "?o \<noteq> 0" by simp
  then have en: "of_nat ?o \<noteq> (0 :: u16)" using o by (metis unat_0)
  have "ucast h \<noteq> (0 :: u16)" using u h(1) by (metis less_irrefl unat_0)
  then have "ipa_nati_parse_ipv4_rule_hdl t (ucast h) = Some (base_size t \<le> i, of_nat ?o)"
    using u hN assms(2) k D(1) i(3) R by (simp add: ipa_nati_parse_ipv4_rule_hdl_def not_le)
  moreover have "i = addr_of t (base_size t \<le> i) (of_nat ?o)" unfolding addr_of_def o by simp
  ultimately show ?thesis using that en i hN R(1) by metis
qed

lemma drv_rules_del:
  assumes t: "tbl_mem t = Mapped m" "rule_id_array t = Some ids"
    and t': "tbl_mem t' = Mapped m'" "rule_id_array t' = Some (ids[unat h - 1 := 0])" "table_entries t' = table_entries t"
    and ids: "ids_wf (base_size t) N L ids" and bd: "base_size t \<le> 32768" "N - base_size t \<le> 32768"
    and i: "i < N" "ids ! (unat h - 1) = rule_id (base_size t) i" and h: "0 < unat h" "unat h \<le> N" "ids ! (unat h - 1) \<noteq> 0"
    and c: "\<And>j. j < N \<Longrightarrow> L j \<Longrightarrow> j \<noteq> i \<Longrightarrow> client_at (rules m') j = client_at (rules m) j"
  shows "drv_rules t' = (drv_rules t)(h := None)"
proof
  note D = ids_wfD [OF ids]
  fix g
  show "drv_rules t' g = ((drv_rules t)(h := None)) g"
  proof (cases "g = h")
    case True
    then show ?thesis using h(1,2) D(1) by (simp add: drv_rules_mem [OF t'(1,2)])
  next
    case False
    then have "unat g \<noteq> unat h" by (simp add: word_unat_eq_iff)
    then have same: "0 < unat g \<Longrightarrow> ids[unat h - 1 := 0] ! (unat g - 1) = ids ! (unat g - 1)"
      using h(1) by (intro nth_list_update_neq) linarith
    show ?thesis
    proof (cases "0 < unat g \<and> unat g \<le> length ids \<and> ids ! (unat g - 1) \<noteq> 0")
      case True
      then have k: "unat g - 1 < N" using D(1) by linarith
      from D(2) [OF k] True obtain j where j: "j < N" "L j" "ids ! (unat g - 1) = rule_id (base_size t) j" by blast
      have "unat h - 1 < N" "unat g - 1 \<noteq> unat h - 1" using h True \<open>unat g \<noteq> unat h\<close> by linarith+
      then have "j \<noteq> i" using D(3) [OF k, of "unat h - 1"] True i(2) j(3) by metis
      then have "client_at (rules m') (entry_of (base_size t) (ids ! (unat g - 1))) = client_at (rules m) (entry_of (base_size t) (ids ! (unat g - 1)))"
        using rule_id_entry(1) [OF j(1) bd] j c by simp
      then show ?thesis using True False same t'(3) unfolding drv_rules_mem [OF t'(1,2)] drv_rules_mem [OF t] by simp
    next
      case False': False
      then have "\<not> (0 < unat g \<and> unat g \<le> length ids \<and> ids[unat h - 1 := 0] ! (unat g - 1) \<noteq> 0)" using same by (metis (no_types))
      then show ?thesis using False False' unfolding drv_rules_mem [OF t'(1,2)] drv_rules_mem [OF t] by auto
    qed
  qed
qed

lemma del_rule_effect:
  assumes tok: "table_ok t" and k: "kernel_ok (base_size t) env" and s: "ip4_tbl s = [t]" and h: "drv_rules t h = Some c"
  shows "\<exists>t' w'. ipa_nati_del_ipv4_rule env 1 h s = Some (0, s\<lparr>ip4_tbl := [t'], drv_world := w'\<rparr>) \<and>
     table_ok t' \<and> table_entries t' = table_entries t \<and> expn_table_entries t' = expn_table_entries t \<and> drv_rules t' = (drv_rules t)(h := None)"
proof -
  obtain m meta ids chR chI where t: "valid t" "tbl_mem t = Mapped m" "index_expn_table_meta t = Some meta"
    "rule_id_array t = Some ids" "tbl_addr_offset t = 0" "sizes_ok (base_size t) (total_size t)"
    "mem_ok (base_size t) (total_size t) m meta ids chR chI" using tok by (rule table_okD)
  let ?T = "base_size t" and ?N = "total_size t"
  note D = mem_okD [OF t(7)]
  have sz: "?T \<le> ?N" "?T < ?N" "?T \<le> 32768" "?N - ?T \<le> 32768" using t(6) by (auto simp: sizes_ok_def)
  note nz = unused_never_live [OF D(1) sz(2)]
  have hr: "0 < unat h" "unat h \<le> ?N" "ids ! (unat h - 1) \<noteq> 0"
    using h ids_wfD(1) [OF D(5)] unfolding drv_rules_mem [OF t(2,4)] by (auto split: if_splits)
  obtain i en where p: "ipa_nati_parse_ipv4_rule_hdl t (ucast h) = Some (?T \<le> i, en)" "en \<noteq> 0" "live_at (rules m) i"
    "i = addr_of t (?T \<le> i) en" "i < ?N" "ids ! (unat h - 1) = rule_id ?T i" "unat h < ?N"
    using parse_handle [OF D(5) t(4,6) nz hr] by blast
  obtain w1 where w1: "mutex_lock env (drv_world s) = (0, w1)" using kernel_okD(3) [OF k] by blast
  obtain pos meta' m' w2 where d: "ipa_nati_find_rule_pos t (?T \<le> i) en m = Some pos"
    "ipa_nati_post_del_dma_cmd env t 0 en (?T \<le> i) pos m w1 = Some (0, t\<lparr>index_expn_table_meta := Some meta'\<rparr>, m', w2)" "deleted ?T ?N i m m' meta'"
    using post_del_effect [OF t(7) k t(5,3) p(4,5) refl p(3), of 0 w1] by blast
  obtain w3 where w3: "mutex_unlock env w2 = (0, w3)" using kernel_okD(4) [OF k] by blast
  note S = deleted_sweep [OF d(3) sz(1)]
  let ?rs = "for_upto ?T sweep_step (rules m')"
  have lm: "?T \<le> length (rules m')" using d(3) rules_wfD(1) by (fastforce simp: deleted_def)
  have u: "unat (h - 1) = unat h - 1" using hr(1) unat_sub [of 1 h] by (simp add: word_le_nat_alt)
  have k1: "unat h - 1 < ?N" using hr(1,2) by linarith
  let ?t' = "t\<lparr>index_expn_table_meta := Some meta', tbl_mem := Mapped (m'\<lparr>rules := ?rs\<rparr>), rule_id_array := Some (ids[unat h - 1 := 0])\<rparr>"
  have "ids_wf ?T ?N (live_at ?rs) (ids[unat h - 1 := 0])"
    unfolding S(2) by (rule ids_del [OF D(5) sz(3,4) nz(1) p(5,3) k1 p(6)])
  then have ok: "table_ok ?t'"
    using S(1) t(1,5,6) by (auto simp: table_ok_def mem_ok_def)
  obtain ls where dump: "ipa_nat_dump_ipv4_table env 1 (s\<lparr>ip4_tbl := [?t'], drv_world := w2\<rparr>) = Some ls"
    using dump_table_ok [OF ok k, of "s\<lparr>ip4_tbl := [?t'], drv_world := w2\<rparr>"] by auto
  have "ipa_nati_del_ipv4_rule env 1 h s = Some (0, s\<lparr>ip4_tbl := [?t'], drv_world := w3\<rparr>)"
    using s p(1,2) w1 t(1,2,4) d(1,2) w3 lm k1 ids_wfD(1) [OF D(5)] dump
    by (simp add: ipa_nati_del_ipv4_rule_def Let_def ipa_nati_del_dead_ipv4_head_nodes_def u)
  moreover note ok
  moreover have "drv_rules ?t' = (drv_rules t)(h := None)"
    by (rule drv_rules_del [OF t(2,4) _ _ _ D(5) sz(3,4) p(5,6) hr, where m' = "m'\<lparr>rules := ?rs\<rparr>"]) (use S(3) in simp_all)
  ultimately show ?thesis by (intro exI [of _ ?t'] exI [of _ w3]) simp
qed

text \<open>A handle that is not in use is refused and nothing changes.\<close>

lemma del_unknown_handle:
  assumes tok: "table_ok t" and s: "ip4_tbl s = [t]" and h: "drv_rules t h = None" "h \<noteq> 0" "unat h < 65536"
  shows "ipa_nati_del_ipv4_rule env 1 h s = Some (- EINVAL, s)"
proof -
  obtain m meta ids chR chI where t: "tbl_mem t = Mapped m" "rule_id_array t = Some ids"
    "mem_ok (base_size t) (total_size t) m meta ids chR chI" using tok by (auto simp: table_ok_def)
  have u: "unat (ucast h :: u16) = unat h" using h(3) by (intro unat_cast16) simp
  have "0 < unat h" using h(2) by (simp add: unat_gt_0)
  then have uh: "ucast h \<noteq> (0 :: u16)" using u by (metis less_irrefl unat_0)
  have "ipa_nati_parse_ipv4_rule_hdl t (ucast h) = Some (False, 0)"
  proof (cases "unat h < total_size t")
    case True
    have "length ids = total_size t" by (rule ids_wfD(1) [OF mem_okD(5) [OF t(3)]])
    then have len: "unat h - 1 < length ids" "unat h \<le> length ids" using True by simp_all
    then have "ids ! (unat h - 1) = 0" using h(1) \<open>0 < unat h\<close> unfolding drv_rules_mem [OF t(1,2)] by (auto split: if_splits)
    then show ?thesis using True u uh t(2) len(1) by (simp add: ipa_nati_parse_ipv4_rule_hdl_def)
  next
    case False
    then show ?thesis using u by (simp add: ipa_nati_parse_ipv4_rule_hdl_def)
  qed
  then show ?thesis using s by (simp add: ipa_nati_del_ipv4_rule_def)
qed

end
