(* ===== verification/Op_Refinement.thy ===== *)
theory Op_Refinement
  imports IPACM_Prelude
begin

text \<open>
  Runs of operations on a state, and the contract under which a component with an abstract
  specification implements it: from related states every admissible operation succeeds (no
  invalid memory access), gives the outputs the specification gives and leads to related
  states. A run of admissible operations then refines the run of the specification; this is
  proved once in the locale and used by every component that provides the contract.
\<close>

type_synonym ('s, 'o) outcome = "('o list \<times> 's) option"

fun run_ops :: "('op \<Rightarrow> 's \<Rightarrow> ('s, 'o) outcome) \<Rightarrow> 'op list \<Rightarrow> 's \<Rightarrow> ('s, 'o) outcome" where
  "run_ops exec [] s = Some ([], s)"
| "run_ops exec (x # xs) s =
     (case exec x s of
        None \<Rightarrow> None
      | Some (os, t) \<Rightarrow>
          (case run_ops exec xs t of None \<Rightarrow> None | Some (os', u) \<Rightarrow> Some (os @ os', u)))"

fun run_spec :: "('op \<Rightarrow> 'a \<Rightarrow> 'o list \<times> 'a) \<Rightarrow> 'op list \<Rightarrow> 'a \<Rightarrow> 'o list \<times> 'a" where
  "run_spec step [] a = ([], a)"
| "run_spec step (x # xs) a =
     (case step x a of (os, b) \<Rightarrow> (case run_spec step xs b of (os', c) \<Rightarrow> (os @ os', c)))"

text \<open>Every operation of the run is admissible in the state it is run in.\<close>

fun admissible_run ::
  "('op \<Rightarrow> 's \<Rightarrow> ('s, 'o) outcome) \<Rightarrow> ('op \<Rightarrow> 's \<Rightarrow> bool) \<Rightarrow> 'op list \<Rightarrow> 's \<Rightarrow> bool" where
  "admissible_run exec adm [] s = True"
| "admissible_run exec adm (x # xs) s =
     (adm x s \<and> (case exec x s of None \<Rightarrow> True | Some (os, t) \<Rightarrow> admissible_run exec adm xs t))"

locale op_refinement =
  fixes exec :: "'op \<Rightarrow> 's \<Rightarrow> ('s, 'o) outcome"
    and adm :: "'op \<Rightarrow> 's \<Rightarrow> bool"
    and rel :: "'s \<Rightarrow> 'a \<Rightarrow> bool"
    and step :: "'op \<Rightarrow> 'a \<Rightarrow> 'o list \<times> 'a"
  assumes simulates:
    "rel s a \<Longrightarrow> adm x s \<Longrightarrow> \<exists>os t b. exec x s = Some (os, t) \<and> step x a = (os, b) \<and> rel t b"
begin

lemma run_refines:
  "rel s a \<Longrightarrow> admissible_run exec adm xs s \<Longrightarrow>
     \<exists>os t b. run_ops exec xs s = Some (os, t) \<and> run_spec step xs a = (os, b) \<and> rel t b"
proof (induction xs arbitrary: s a)
  case Nil
  then show ?case by auto
next
  case (Cons x xs)
  then obtain os t b where x: "exec x s = Some (os, t)" "step x a = (os, b)" "rel t b"
    using simulates [of s a x] by auto
  with Cons.prems have "admissible_run exec adm xs t" by simp
  with Cons.IH [OF x(3)] x(1,2) show ?case by fastforce
qed

lemma run_safe: "rel s a \<Longrightarrow> admissible_run exec adm xs s \<Longrightarrow> run_ops exec xs s \<noteq> None"
  using run_refines by fastforce

end

text \<open>
  The weaker contract of a component without a specification of its outputs: an invariant that every
  admissible operation keeps without failing, and a condition on what it puts out.
\<close>

locale op_safety =
  fixes exec :: "'op \<Rightarrow> 's \<Rightarrow> ('s, 'o) outcome"
    and adm :: "'op \<Rightarrow> bool"
    and inv :: "'s \<Rightarrow> bool"
    and out_ok :: "'o \<Rightarrow> bool"
  assumes safe: "inv s \<Longrightarrow> adm x \<Longrightarrow> \<exists>os t. exec x s = Some (os, t) \<and> inv t \<and> list_all out_ok os"
begin

lemma run_keeps:
  "inv s \<Longrightarrow> list_all adm xs \<Longrightarrow> \<exists>os t. run_ops exec xs s = Some (os, t) \<and> inv t \<and> list_all out_ok os"
proof (induction xs arbitrary: s)
  case Nil
  then show ?case by simp
next
  case (Cons x xs)
  then obtain os t where x: "exec x s = Some (os, t)" "inv t" "list_all out_ok os"
    using safe [of s x] by auto
  obtain os' u where "run_ops exec xs t = Some (os', u)" "inv u" "list_all out_ok os'"
    using Cons.IH [OF x(2)] Cons.prems(2) by auto
  with x show ?case by simp
qed

end

text \<open>
  The contract for a specification that leaves choices open: \<open>step x a os b\<close> says that operation \<open>x\<close> may
  lead from \<open>a\<close> to \<open>b\<close> with outputs \<open>os\<close>. A deterministic specification is the special case.
\<close>

fun run_rel :: "('op \<Rightarrow> 'a \<Rightarrow> 'o list \<Rightarrow> 'a \<Rightarrow> bool) \<Rightarrow> 'op list \<Rightarrow> 'a \<Rightarrow> 'o list \<Rightarrow> 'a \<Rightarrow> bool" where
  "run_rel step [] a os c = (os = [] \<and> c = a)"
| "run_rel step (x # xs) a os c = (\<exists>os1 os2 b. os = os1 @ os2 \<and> step x a os1 b \<and> run_rel step xs b os2 c)"

locale op_simulation =
  fixes exec :: "'op \<Rightarrow> 's \<Rightarrow> ('s, 'o) outcome"
    and adm :: "'op \<Rightarrow> bool"
    and rel :: "'s \<Rightarrow> 'a \<Rightarrow> bool"
    and step :: "'op \<Rightarrow> 'a \<Rightarrow> 'o list \<Rightarrow> 'a \<Rightarrow> bool"
  assumes simulates: "rel s a \<Longrightarrow> adm x \<Longrightarrow> \<exists>os t b. exec x s = Some (os, t) \<and> step x a os b \<and> rel t b"
begin

lemma run_simulates:
  "rel s a \<Longrightarrow> list_all adm xs \<Longrightarrow> \<exists>os t b. run_ops exec xs s = Some (os, t) \<and> run_rel step xs a os b \<and> rel t b"
proof (induction xs arbitrary: s a)
  case Nil
  then show ?case by auto
next
  case (Cons x xs)
  then obtain os t b where x: "exec x s = Some (os, t)" "step x a os b" "rel t b" using simulates [of s a x] by auto
  obtain os' u c where "run_ops exec xs t = Some (os', u)" "run_rel step xs b os' c" "rel u c"
    using Cons.IH [OF x(3)] Cons.prems(2) by auto
  with x show ?case by (intro exI [of _ "os @ os'"] exI [of _ u] exI [of _ c]) auto
qed

end

end
