(* ===== verification/NatDrv_Props.thy ===== *)
theory NatDrv_Props
  imports NatDrv_Del Op_Refinement
begin

text \<open>
  The properties of the NAT table library: it implements a map from handles to rules, the chains that the
  hardware follows lead to exactly the rules of that map, and a new table is empty and of the size asked for.
\<close>

section \<open>The number of rules\<close>

lemma unat_of_nat32: "n < 4294967296 \<Longrightarrow> unat (of_nat n :: u32) = n"
  by (simp add: unat_of_nat)

lemma finite_drv_rules: "finite (dom (drv_rules t))"
  by (rule finite_subset [OF subset_UNIV]) simp

lemma handle_of_live:
  assumes ok: "mem_ok (base_size t) (total_size t) m meta ids chR chI" and sz: "sizes_ok (base_size t) (total_size t)"
    and t: "tbl_mem t = Mapped m" "rule_id_array t = Some ids" and i: "i < total_size t" "live_at (rules m) i"
  shows "\<exists>h. drv_rules t h = Some (client_at (rules m) i) \<and> ids ! (unat h - 1) = rule_id (base_size t) i"
proof -
  let ?N = "total_size t" and ?T = "base_size t"
  note D = ids_wfD [OF mem_okD(5) [OF ok]]
  have bd: "?T \<le> 32768" "?N - ?T \<le> 32768" "?T < ?N" using sz by (auto simp: sizes_ok_def)
  obtain k where k: "k < ?N" "ids ! k = rule_id ?T i" using D(4) [OF i] by blast
  have "i \<noteq> 0" using unused_never_live(1) [OF mem_okD(1) [OF ok] bd(3)] i(2) by metis
  then have nz: "ids ! k \<noteq> 0" using rule_id_nonzero [OF i(1) bd(1,2)] k(2) by simp
  have "unat (of_nat (k + 1) :: u32) = k + 1" using k(1) sz by (intro unat_of_nat32) (simp add: sizes_ok_def)
  then show ?thesis
    using k nz D(1) rule_id_entry(1) [OF i(1) bd(1,2)] by (intro exI [of _ "of_nat (k + 1)"]) (simp add: drv_rules_mem [OF t])
qed

lemma ran_drv_rules:
  assumes ok: "mem_ok (base_size t) (total_size t) m meta ids chR chI" and sz: "sizes_ok (base_size t) (total_size t)"
    and t: "tbl_mem t = Mapped m" "rule_id_array t = Some ids"
  shows "ran (drv_rules t) = client_at (rules m) ` {i. i < total_size t \<and> live_at (rules m) i}"
proof safe
  fix c assume "c \<in> ran (drv_rules t)"
  then obtain h where hc: "drv_rules t h = Some c" by (auto simp: ran_def)
  then have h: "0 < unat h" "unat h \<le> length ids" "ids ! (unat h - 1) \<noteq> 0"
    "client_at (rules m) (entry_of (base_size t) (ids ! (unat h - 1))) = c"
    unfolding drv_rules_mem [OF t] by (simp_all split: if_splits)
  note D = ids_wfD [OF mem_okD(5) [OF ok]]
  have "unat h - 1 < total_size t" using h(1,2) D(1) by simp
  from D(2) [OF this h(3)] obtain i where i: "i < total_size t" "live_at (rules m) i" "ids ! (unat h - 1) = rule_id (base_size t) i" by blast
  have "entry_of (base_size t) (rule_id (base_size t) i) = i" using sz i(1) by (intro rule_id_entry(1)) (auto simp: sizes_ok_def)
  with i h(4) show "c \<in> client_at (rules m) ` {i. i < total_size t \<and> live_at (rules m) i}" by auto
next
  fix i assume "i < total_size t" "live_at (rules m) i"
  from handle_of_live [OF assms this] show "client_at (rules m) i \<in> ran (drv_rules t)" by (auto simp: ran_def)
qed

lemma live_le_rules:
  assumes ok: "mem_ok (base_size t) (total_size t) m meta ids chR chI" and sz: "sizes_ok (base_size t) (total_size t)"
    and t: "tbl_mem t = Mapped m" "rule_id_array t = Some ids"
  shows "card {i. i < total_size t \<and> live_at (rules m) i} \<le> card (dom (drv_rules t))"
proof -
  let ?N = "total_size t" and ?T = "base_size t"
  have bd: "?T \<le> 32768" "?N - ?T \<le> 32768" "?T < ?N" using sz by (auto simp: sizes_ok_def)
  have "\<forall>i\<in>{i. i < ?N \<and> live_at (rules m) i}. \<exists>h. h \<in> dom (drv_rules t) \<and> ids ! (unat h - 1) = rule_id ?T i"
    using handle_of_live [OF assms] by (fastforce simp: dom_def)
  then obtain f where f: "\<forall>i\<in>{i. i < ?N \<and> live_at (rules m) i}. f i \<in> dom (drv_rules t) \<and> ids ! (unat (f i) - 1) = rule_id ?T i"
    by metis
  have "inj_on f {i. i < ?N \<and> live_at (rules m) i}"
    using f rule_id_entry(1) [OF _ bd(1,2)] by (intro inj_onI) (metis (mono_tags, lifting) mem_Collect_eq)
  then show ?thesis using f by (intro card_inj_on_le [OF _ _ finite_drv_rules]) auto
qed

text \<open>A full expansion table holds as many rules as it has entries to use.\<close>

lemma full_table_count:
  assumes tok: "table_ok t" and m: "tbl_mem t = Mapped m"
    and full: "(\<forall>i\<in>{base_size t<..<total_size t}. enabled_at (rules m) i) \<or> (\<forall>i\<in>{base_size t<..<total_size t}. ient_at (index_rules m) i \<noteq> 0)"
  shows "unat (expn_table_entries t) - 1 \<le> card (dom (drv_rules t))"
proof -
  obtain meta ids chR chI where t: "rule_id_array t = Some ids" "sizes_ok (base_size t) (total_size t)"
    "mem_ok (base_size t) (total_size t) m meta ids chR chI" using tok m unfolding table_ok_def by auto
  let ?N = "total_size t" and ?T = "base_size t"
  note D = mem_okD [OF t(3)]
  let ?L = "{i. i < ?N \<and> live_at (rules m) i}"
  have "card {?T<..<?N} \<le> card ?L"
  proof (cases "\<forall>i\<in>{?T<..<?N}. enabled_at (rules m) i")
    case True
    then have "{?T<..<?N} \<subseteq> ?L" using rules_wfD(3) [OF D(1)] by (fastforce simp: live_at_def)
    then show ?thesis by (intro card_mono) auto
  next
    case False
    with full have x: "\<forall>i\<in>{?T<..<?N}. ient_at (index_rules m) i \<noteq> 0" by blast
    have "inj_on (ient_at (index_rules m)) {?T<..<?N}"
      using crossD(5) [OF D(4)] x by (intro inj_onI) (metis greaterThanLessThan_iff)
    then show ?thesis using x crossD(3,4) [OF D(4)] by (intro card_inj_on_le [of "ient_at (index_rules m)"]) auto
  qed
  then show ?thesis using live_le_rules [OF t(3,2) m t(1)] by simp
qed

section \<open>The table library as a map of rules\<close>

datatype drv_op = AddRule ipa_nat_ipv4_rule | DelRule u32

datatype drv_out = Added int u32 | Deleted int

definition drv_exec :: "'w drv_env \<Rightarrow> drv_op \<Rightarrow> 'w ipa_nat_cache \<Rightarrow> ('w ipa_nat_cache, drv_out) outcome" where
  "drv_exec env x s =
     (case x of
        AddRule c \<Rightarrow> (case ipa_nat_add_ipv4_rule_drv env 1 c 0 s of None \<Rightarrow> None | Some (ret, h, s) \<Rightarrow> Some ([Added ret h], s))
      | DelRule h \<Rightarrow> (case ipa_nat_del_ipv4_rule_drv env 1 h s of None \<Rightarrow> None | Some (ret, s) \<Rightarrow> Some ([Deleted ret], s)))"

definition drv_adm :: "drv_op \<Rightarrow> bool" where
  "drv_adm x = (case x of AddRule c \<Rightarrow> r_protocol c \<noteq> 0xFF | DelRule h \<Rightarrow> unat h < 65536)"

text \<open>Adding fails only when there are as many rules as an expansion table has entries to use.\<close>

definition drv_step :: "nat \<Rightarrow> drv_op \<Rightarrow> (u32 \<Rightarrow> ipa_nat_ipv4_rule option) \<Rightarrow> drv_out list \<Rightarrow> (u32 \<Rightarrow> ipa_nat_ipv4_rule option) \<Rightarrow> bool" where
  "drv_step X x a os b =
     (case x of
        AddRule c \<Rightarrow> (\<exists>h. os = [Added 0 h] \<and> h \<noteq> 0 \<and> a h = None \<and> b = a(h \<mapsto> c)) \<or>
          os = [Added (- EINVAL) 0] \<and> b = a \<and> X - 1 \<le> card (dom a)
      | DelRule h \<Rightarrow> os = [Deleted (if a h = None then - EINVAL else 0)] \<and> b = a(h := None))"

definition drv_rel :: "'w drv_env \<Rightarrow> nat \<Rightarrow> 'w ipa_nat_cache \<Rightarrow> (u32 \<Rightarrow> ipa_nat_ipv4_rule option) \<Rightarrow> bool" where
  "drv_rel env X s a \<longleftrightarrow>
     (\<exists>t. ip4_tbl s = [t] \<and> table_cnt s = 1 \<and> table_ok t \<and> kernel_ok (base_size t) env \<and> unat (expn_table_entries t) = X \<and> drv_rules t = a)"

lemma drv_simulates:
  assumes "drv_rel env X s a" and "drv_adm x"
  shows "\<exists>os s' b. drv_exec env x s = Some (os, s') \<and> drv_step X x a os b \<and> drv_rel env X s' b"
proof -
  obtain t where t: "ip4_tbl s = [t]" "table_ok t" "kernel_ok (base_size t) env" "unat (expn_table_entries t) = X" "drv_rules t = a"
    and cnt: "table_cnt s = 1" using assms(1) by (auto simp: drv_rel_def)
  show ?thesis
  proof (cases x)
    case (AddRule c)
    then have c: "r_protocol c \<noteq> 0xFF" using assms(2) by (simp add: drv_adm_def)
    obtain ret h t' w' where r: "ipa_nati_add_ipv4_rule env 1 c 0 s = Some (ret, h, s\<lparr>ip4_tbl := [t'], drv_world := w'\<rparr>)" "table_ok t'"
      "table_entries t' = table_entries t" "expn_table_entries t' = expn_table_entries t"
      "ret = 0 \<and> h \<noteq> 0 \<and> unat h < total_size t \<and> drv_rules t h = None \<and> drv_rules t' = (drv_rules t)(h \<mapsto> c) \<or>
       ret = - EINVAL \<and> h = 0 \<and> t' = t \<and> (\<exists>m. tbl_mem t = Mapped m \<and> ((\<forall>i\<in>{base_size t<..<total_size t}. enabled_at (rules m) i) \<or>
           (\<forall>i\<in>{base_size t<..<total_size t}. ient_at (index_rules m) i \<noteq> 0)))"
      using add_rule_effect [OF t(2,3,1) c, of 0] by blast
    have "drv_exec env x s = Some ([Added (if ret \<noteq> 0 then - EINVAL else 0) h], s\<lparr>ip4_tbl := [t'], drv_world := w'\<rparr>)"
      using AddRule r(1) by (simp add: drv_exec_def ipa_nat_add_ipv4_rule_drv_def IPA_NAT_MAX_IP4_TBLS_def)
    moreover have "drv_rel env X (s\<lparr>ip4_tbl := [t'], drv_world := w'\<rparr>) (drv_rules t')" using r t cnt by (auto simp: drv_rel_def)
    moreover have "drv_step X x a [Added (if ret \<noteq> 0 then - EINVAL else 0) h] (drv_rules t')"
      using r(5)
    proof
      assume "ret = 0 \<and> h \<noteq> 0 \<and> unat h < total_size t \<and> drv_rules t h = None \<and> drv_rules t' = (drv_rules t)(h \<mapsto> c)"
      then show ?thesis using AddRule t(5) by (simp add: drv_step_def)
    next
      assume e: "ret = - EINVAL \<and> h = 0 \<and> t' = t \<and> (\<exists>m. tbl_mem t = Mapped m \<and> ((\<forall>i\<in>{base_size t<..<total_size t}. enabled_at (rules m) i) \<or>
           (\<forall>i\<in>{base_size t<..<total_size t}. ient_at (index_rules m) i \<noteq> 0)))"
      then have "X - 1 \<le> card (dom a)" using full_table_count [OF t(2)] t(4,5) by blast
      then show ?thesis using AddRule e t(5) by (simp add: drv_step_def EINVAL_def)
    qed
    ultimately show ?thesis by blast
  next
    case (DelRule h)
    then have h: "unat h < 65536" using assms(2) by (simp add: drv_adm_def)
    show ?thesis
    proof (cases "a h")
      case None
      then have "drv_exec env x s = Some ([Deleted (- EINVAL)], s)"
        using DelRule del_unknown_handle [OF t(2,1) _ _ h] t(5) by (simp add: drv_exec_def ipa_nat_del_ipv4_rule_drv_def)
      then show ?thesis using None DelRule assms(1) by (auto simp: drv_step_def fun_upd_idem)
    next
      case (Some c)
      obtain t' w' where r: "ipa_nati_del_ipv4_rule env 1 h s = Some (0, s\<lparr>ip4_tbl := [t'], drv_world := w'\<rparr>)" "table_ok t'"
        "table_entries t' = table_entries t" "expn_table_entries t' = expn_table_entries t" "drv_rules t' = (drv_rules t)(h := None)"
        using del_rule_effect [OF t(2,3,1)] Some t(5) by blast
      have "h \<noteq> 0" using Some t(5) by (auto simp: drv_rules_def split: nat_ptr.splits option.splits)
      then have "drv_exec env x s = Some ([Deleted 0], s\<lparr>ip4_tbl := [t'], drv_world := w'\<rparr>)"
        using DelRule r(1) by (simp add: drv_exec_def ipa_nat_del_ipv4_rule_drv_def)
      moreover have "drv_rel env X (s\<lparr>ip4_tbl := [t'], drv_world := w'\<rparr>) (a(h := None))" using r t cnt by (auto simp: drv_rel_def)
      ultimately show ?thesis using DelRule Some by (auto simp: drv_step_def)
    qed
  qed
qed

interpretation drv: op_simulation "drv_exec env" drv_adm "drv_rel env X" "drv_step X"
  by unfold_locales (rule drv_simulates)

section \<open>A new table\<close>

text \<open>The kernel hands out the memory that is asked for, at offset 0, and accepts the table.\<close>

definition setup_ok :: "'w drv_env \<Rightarrow> bool" where
  "setup_ok env \<longleftrightarrow>
     (\<forall>w. 0 \<le> fst (open_ipa env w)) \<and> (\<forall>sz w. \<exists>w'. ioctl_alloc_mem env sz w = (0, 0, w')) \<and>
     (\<forall>w. fst (drv_malloc env w)) \<and> (\<forall>w. 0 \<le> fst (open_nat env w)) \<and>
     (\<forall>sz w. \<exists>m w'. mmap_nat env sz w = (Some m, w') \<and> length (rules m) = sz div 36 \<and> length (index_rules m) = sz div 36) \<and>
     (\<forall>cmd w. fst (ioctl_init env cmd w) = 0)"

lemma tbl_sizes_ok:
  assumes "0 < unat n" and "unat n \<le> 20480"
  obtains T X where "tbl_sizes n = (0, T, X)" "sizes_ok (unat T) (unat T + unat X)" "4 * unat n div 5 \<le> unat T" "unat n div 5 \<le> unat X"
proof -
  let ?q = "of_nat (4 * unat n div 5) :: u16" and ?e = "of_nat (unat n div 5) :: u16"
  have q: "unat ?q = 4 * unat n div 5" "unat ?e = unat n div 5" using assms(2) by (intro unat_of_nat16, simp)+
  define b where "b = (if ?q = 0 then 1 else ?q)"
  obtain T where T: "GetNearest2Power b = (0, T)" "2 \<le> unat T" "unat T \<le> 16384" "4 * unat n div 5 \<le> unat T"
  proof (cases "unat b < 2")
    case True
    then have "b = 1" using b_def by (metis One_nat_def less_2_cases unat_0 unat_1 word_unat_eq_iff)
    moreover have "4 * unat n div 5 \<le> 1" using True q(1) by (auto simp: b_def split: if_splits)
    ultimately show ?thesis using that [of 2] by (simp add: GetNearest2Power_def)
  next
    case False
    then have bq: "unat b = 4 * unat n div 5" using q(1) by (auto simp: b_def split: if_splits)
    then have b: "2 \<le> unat b" "unat b \<le> 32768" "unat b \<le> 16384" using False assms(2) by auto
    obtain k where k: "fst (GetNearest2Power b) = 0" "unat (snd (GetNearest2Power b)) = 2 ^ k" "unat b \<le> 2 ^ k" "2 ^ k < 2 * unat b"
      using nearest_power_spec [OF b(1,2)] .
    have "(2::nat) ^ k < 2 ^ 15" using k(4) b(3) by simp
    then have "k < 15" by (rule power_less_imp_less_exp [rotated]) simp
    then have "(2::nat) ^ k \<le> 2 ^ 14" by (intro power_increasing) auto
    then show ?thesis using that [of "snd (GetNearest2Power b)"] k b(1) bq by (auto simp: prod_eq_iff)
  qed
  have X: "2 \<le> unat (GetNearestEven ?e)" "unat (GetNearestEven ?e) \<le> 16384" "unat n div 5 \<le> unat (GetNearestEven ?e)"
  proof -
    have le: "unat ?e \<le> 4096" using q(2) assms(2) by simp
    then have s: "unat (?e + 1) = unat ?e + 1" by (subst unat_plus16) simp_all
    have "?e < 2 \<longleftrightarrow> unat ?e < 2" by (simp add: word_less_nat_alt)
    then have "unat (GetNearestEven ?e) \<in> {2, unat ?e, unat ?e + 1} \<and> 2 \<le> unat (GetNearestEven ?e) \<and> unat ?e \<le> unat (GetNearestEven ?e)"
      using s by (auto simp: GetNearestEven_def)
    then show "2 \<le> unat (GetNearestEven ?e)" "unat (GetNearestEven ?e) \<le> 16384" "unat n div 5 \<le> unat (GetNearestEven ?e)"
      using le q(2) by auto
  qed
  show ?thesis
    using that [of T "GetNearestEven ?e"] T X by (simp add: tbl_sizes_def b_def [symmetric] Let_def sizes_ok_def)
qed

lemma zero_tables_ok:
  assumes "sizes_ok T N"
  shows "mem_ok T N \<lparr>rules = replicate N zero_rule, index_rules = replicate N 0\<rparr> (replicate (N - T) 0) (replicate N 0) (\<lambda>_. []) (\<lambda>_. [])"
proof -
  have e: "\<not> enabled_at (replicate N zero_rule) i" "\<not> live_at (replicate N zero_rule) i" "ient_at (replicate N 0) i = 0" if "i < N" for i
    using that zero_rule_fields by (simp_all add: enabled_at_def live_at_def ient_at_def)
  have "T \<le> N" using assms by (simp add: sizes_ok_def)
  then show ?thesis
    using e by (auto simp: mem_ok_def rules_wf_def index_wf_def chained_def bucket_shape_def swept_def cross_def ids_wf_def)
qed

text \<open>Resetting clears the whole of the mapped memory.\<close>

lemma reset_effect:
  assumes "tbl_mem t = Mapped m" "length (rules m) = total_size t" "length (index_rules m) = total_size t"
  shows "ipa_nati_reset_tbl t = Some (t\<lparr>tbl_mem := Mapped \<lparr>rules = replicate (total_size t) zero_rule, index_rules = replicate (total_size t) 0\<rparr>\<rparr>)"
  using assms by (simp add: ipa_nati_reset_tbl_def clear_def Let_def)

lemma alloc_table_effect:
  assumes env: "setup_ok env" and sz: "tbl_sizes n = (0, T, X)"
  shows "\<exists>fd w'. ipa_nati_alloc_table env n s = (0, 36 * unat (T + X), 0, T, X, s\<lparr>ipa_fd := fd, drv_world := w'\<rparr>)"
proof -
  obtain fd w1 where f: "(if ipa_fd s = 0 then open_ipa env (drv_world s) else (ipa_fd s, drv_world s)) = (fd, w1)"
    "\<not> (ipa_fd s = 0 \<and> fd < 0)"
    using env by (cases "ipa_fd s = 0") (auto simp: setup_ok_def, metis linorder_not_less prod.collapse)
  obtain w2 where "ioctl_alloc_mem env (36 * unat (T + X)) w1 = (0, 0, w2)" using env unfolding setup_ok_def by blast
  then show ?thesis
    using f sz by (auto simp: ipa_nati_alloc_table_def CreateNatDevice_def IPA_NAT_TABLE_ENTRY_SIZE_def IPA_NAT_INDEX_TABLE_ENTRY_SIZE_def Let_def)
qed

lemma update_cache_effect:
  assumes env: "setup_ok env" and s: "ip4_tbl s = [zero_table]" "table_cnt s = 0"
  shows "\<exists>fd m w'. ipa_nati_update_cache env sz 0 pub T X s = Some (0, s\<lparr>ip4_tbl := [zero_table\<lparr>valid := True, public_addr := pub,
      nat_fd := fd, tbl_size := sz, table_entries := T, expn_table_entries := X, tbl_mem := Mapped m,
      index_expn_table_meta := Some (replicate (unat X) 0), rule_id_array := Some (replicate (unat T + unat X) 0)\<rparr>], drv_world := w'\<rparr>) \<and>
    length (rules m) = sz div 36 \<and> length (index_rules m) = sz div 36"
proof -
  have ml: "\<And>w. \<exists>w'. drv_malloc env w = (True, w')" using env unfolding setup_ok_def by (metis prod.collapse)
  obtain w1 where w1: "drv_malloc env (drv_world s) = (True, w1)" using ml by blast
  obtain w2 where w2: "drv_malloc env w1 = (True, w2)" using ml by blast
  obtain fd w3 where w3: "open_nat env w2 = (fd, w3)" "\<not> fd < 0" using env unfolding setup_ok_def by (metis not_less prod.collapse)
  obtain m w4 where w4: "mmap_nat env sz w3 = (Some m, w4)" "length (rules m) = sz div 36" "length (index_rules m) = sz div 36"
    using env unfolding setup_ok_def by blast
  show ?thesis
    using s w1 w2 w3 w4 by (auto simp: ipa_nati_update_cache_def alloc_array_def rd_def zero_table_def Let_def)
qed

lemma init_cmd_effect:
  assumes "setup_ok env"
  shows "\<exists>w'. ipa_nati_post_ipv4_init_cmd env i t w = (0, w')"
proof -
  have "fst (ioctl_init env cmd w) = 0" for cmd using assms unfolding setup_ok_def by blast
  then show ?thesis by (simp add: ipa_nati_post_ipv4_init_cmd_def Let_def case_prod_beta)
qed

text \<open>The table that \<open>ipa_nati_add_ipv4_tbl\<close> leaves: valid, zeroed and of the sizes computed.\<close>

lemma add_tbl_effect:
  assumes env: "setup_ok env" and k: "kernel_ok T0 env" and s: "ip4_tbl s = [zero_table]" "table_cnt s = 0" and n: "0 < unat n" "unat n \<le> 20480"
  obtains t s' where "ipa_nati_add_ipv4_tbl env pub n s = Some (0, 1, s')" "ip4_tbl s' = [t]" "table_cnt s' = 1" "table_ok t"
    "drv_rules t = (\<lambda>_. None)" "tbl_sizes n = (0, table_entries t, expn_table_entries t)" "public_addr t = pub"
proof -
  obtain T X where z: "tbl_sizes n = (0, T, X)" "sizes_ok (unat T) (unat T + unat X)"
    "4 * unat n div 5 \<le> unat T" "unat n div 5 \<le> unat X" using tbl_sizes_ok [OF n] .
  have TX: "unat (T + X) = unat T + unat X" using z(2) by (intro unat_plus16) (simp add: sizes_ok_def)
  obtain fd w1 where a: "ipa_nati_alloc_table env n s = (0, 36 * unat (T + X), 0, T, X, s\<lparr>ipa_fd := fd, drv_world := w1\<rparr>)"
    using alloc_table_effect [OF env z(1)] by blast
  let ?s1 = "s\<lparr>ipa_fd := fd, drv_world := w1\<rparr>"
  obtain nfd m w2 where u: "ipa_nati_update_cache env (36 * unat (T + X)) 0 pub T X ?s1 = Some (0, ?s1\<lparr>ip4_tbl := [zero_table\<lparr>valid := True,
      public_addr := pub, nat_fd := nfd, tbl_size := 36 * unat (T + X), table_entries := T, expn_table_entries := X, tbl_mem := Mapped m,
      index_expn_table_meta := Some (replicate (unat X) 0), rule_id_array := Some (replicate (unat T + unat X) 0)\<rparr>], drv_world := w2\<rparr>)"
    "length (rules m) = 36 * unat (T + X) div 36" "length (index_rules m) = 36 * unat (T + X) div 36"
    using update_cache_effect [OF env, of ?s1 "36 * unat (T + X)" pub T X] s by auto
  define t where "t = zero_table\<lparr>valid := True, public_addr := pub, nat_fd := nfd, tbl_size := 36 * unat (T + X), table_entries := T,
      expn_table_entries := X, tbl_mem := Mapped m, index_expn_table_meta := Some (replicate (unat X) 0),
      rule_id_array := Some (replicate (unat T + unat X) 0)\<rparr>"
  define t' where "t' = t\<lparr>tbl_mem := Mapped \<lparr>rules = replicate (unat T + unat X) zero_rule, index_rules = replicate (unat T + unat X) 0\<rparr>\<rparr>"
  have r: "ipa_nati_reset_tbl t = Some t'"
    using reset_effect [of t m] u(2,3) TX by (simp add: t_def t'_def)
  obtain w3 where i: "ipa_nati_post_ipv4_init_cmd env 0 t' w2 = (0, w3)" using init_cmd_effect [OF env] by blast
  have ok: "table_ok t'"
    using z(2) zero_tables_ok [OF z(2)] by (auto simp: table_ok_def t'_def t_def zero_table_def)
  obtain ls where dump: "ipa_nat_dump_ipv4_table env 1 (?s1\<lparr>ip4_tbl := [t'], drv_world := w3, table_cnt := 1\<rparr>) = Some ls"
    using dump_table_ok [OF ok k, of "?s1\<lparr>ip4_tbl := [t'], drv_world := w3, table_cnt := 1\<rparr>"] by auto
  have "ipa_nati_add_ipv4_tbl env pub n s = Some (0, 1, ?s1\<lparr>ip4_tbl := [t'], drv_world := w3, table_cnt := 1\<rparr>)"
    using a u(1) r i s dump by (simp add: ipa_nati_add_ipv4_tbl_def t_def [symmetric] rd_def Let_def)
  moreover note ok
  moreover have "drv_rules t' = (\<lambda>_. None)"
  proof
    fix h :: u32
    have "0 < unat h \<Longrightarrow> unat h \<le> unat T + unat X \<Longrightarrow> replicate (unat T + unat X) (0 :: u16) ! (unat h - 1) = 0" by simp
    moreover have "drv_rules t' h = (if 0 < unat h \<and> unat h \<le> unat T + unat X \<and> replicate (unat T + unat X) (0 :: u16) ! (unat h - 1) \<noteq> 0
        then Some (client_at (replicate (unat T + unat X) zero_rule) (entry_of (unat T) (replicate (unat T + unat X) 0 ! (unat h - 1)))) else None)"
      by (simp add: drv_rules_def t'_def t_def)
    ultimately show "drv_rules t' h = None" by meson
  qed
  moreover have "table_entries t' = T" "expn_table_entries t' = X" "public_addr t' = pub" by (simp_all add: t'_def t_def)
  ultimately show ?thesis using that [of "?s1\<lparr>ip4_tbl := [t'], drv_world := w3, table_cnt := 1\<rparr>" t'] z(1) by simp
qed

text \<open>The time stamp of a handle in use is that of its entry; the tables stay.\<close>

lemma query_effect:
  assumes tok: "table_ok t" and k: "kernel_ok (base_size t) env" and s: "ip4_tbl s = [t]" and h: "drv_rules t h = Some c"
  shows "\<exists>ts w'. ipa_nat_query_timestamp_drv env 1 h x s = Some (0, ts, s\<lparr>drv_world := w'\<rparr>)"
proof -
  obtain m meta ids chR chI where t: "valid t" "tbl_mem t = Mapped m" "index_expn_table_meta t = Some meta"
    "rule_id_array t = Some ids" "tbl_addr_offset t = 0" "sizes_ok (base_size t) (total_size t)"
    "mem_ok (base_size t) (total_size t) m meta ids chR chI" using tok by (rule table_okD)
  note D = mem_okD [OF t(7)]
  have hr: "0 < unat h" "unat h \<le> total_size t" "ids ! (unat h - 1) \<noteq> 0"
    using h ids_wfD(1) [OF D(5)] unfolding drv_rules_mem [OF t(2,4)] by (auto split: if_splits)
  have nz: "\<not> live_at (rules m) 0" "\<not> live_at (rules m) (base_size t)" using unused_never_live [OF D(1)] t(6) by (auto simp: sizes_ok_def)
  obtain i en where p: "ipa_nati_parse_ipv4_rule_hdl t (ucast h) = Some (base_size t \<le> i, en)" "i = addr_of t (base_size t \<le> i) en" "i < total_size t"
    using parse_handle [OF D(5) t(4,6) nz hr] by blast
  obtain w1 where w1: "mutex_lock env (drv_world s) = (0, w1)" using kernel_okD(3) [OF k] by blast
  obtain w2 where w2: "mutex_unlock env w1 = (0, w2)" using kernel_okD(4) [OF k] by blast
  have "rd (rules m) (addr_of t (base_size t \<le> i) en) = Some (rules m ! i)" using p(3) rules_wfD(1) [OF D(1)] unfolding p(2) [symmetric] by simp
  then show ?thesis
    using s t(1,2) p(1) w1 w2 by (auto simp: ipa_nat_query_timestamp_drv_def ipa_nati_query_timestamp_def IPA_NAT_MAX_IP4_TBLS_def Let_def)
qed

lemma del_tbl_effect:
  assumes k: "kernel_ok T env" and "\<And>fd w. fst (close_nat env fd w) = 0" and "\<And>i a w. fst (ioctl_del env i a w) = 0"
    and s: "ip4_tbl s = [t]" "table_cnt s = 1" "table_ok t"
  shows "\<exists>w'. ipa_nat_del_ipv4_tbl_drv env 1 s = Some (0, s\<lparr>ip4_tbl := [zero_table], table_cnt := 0, drv_world := w'\<rparr>)"
proof -
  have v: "valid t" using s(3) by (auto simp: table_ok_def)
  obtain w1 where w1: "mutex_lock env (drv_world s) = (0, w1)" using kernel_okD(3) [OF k] by blast
  obtain w2 where w2: "close_nat env (nat_fd t) w1 = (0, w2)" using assms(2) by (metis prod.collapse)
  obtain w3 where w3: "ioctl_del env 0 (public_addr t) w2 = (0, w3)" using assms(3) by (metis prod.collapse)
  obtain w4 where w4: "mutex_unlock env w3 = (0, w4)" using kernel_okD(4) [OF k] by blast
  show ?thesis
    using s(1,2) v w1 w2 w3 w4 by (simp add: ipa_nat_del_ipv4_tbl_drv_def ipa_nati_del_ipv4_table_def IPA_NAT_MAX_IP4_TBLS_def Let_def) blast
qed

section \<open>Sessions\<close>

text \<open>A table of \<open>n\<close> entries is added to the empty cache, then rules are added and deleted.\<close>

definition fresh_drv :: "'w drv_env \<Rightarrow> u16 \<Rightarrow> 'w ipa_nat_cache \<Rightarrow> bool" where
  "fresh_drv env n s \<longleftrightarrow>
     setup_ok env \<and> kernel_ok (unat (fst (snd (tbl_sizes n)))) env \<and> 0 < unat n \<and> unat n \<le> 20480 \<and>
     ip4_tbl s = [zero_table] \<and> table_cnt s = 0"

definition drv_session :: "'w drv_env \<Rightarrow> u32 \<Rightarrow> u16 \<Rightarrow> drv_op list \<Rightarrow> 'w ipa_nat_cache \<Rightarrow> ('w ipa_nat_cache, drv_out) outcome" where
  "drv_session env pub n xs s =
     (case ipa_nat_add_ipv4_tbl_drv env pub n 0 s of
        None \<Rightarrow> None
      | Some (ret, tbl_hdl, s) \<Rightarrow> if ret = 0 \<and> tbl_hdl = 1 then run_ops (drv_exec env) xs s else None)"

lemma session_effect:
  assumes f: "fresh_drv env n s" and xs: "list_all drv_adm xs"
  obtains os s' t where "drv_session env pub n xs s = Some (os, s')" "ip4_tbl s' = [t]" "table_cnt s' = 1" "table_ok t"
    "run_rel (drv_step (unat (snd (snd (tbl_sizes n))))) xs (\<lambda>_. None) os (drv_rules t)"
proof -
  have f': "setup_ok env" "ip4_tbl s = [zero_table]" "table_cnt s = 0" "0 < unat n" "unat n \<le> 20480"
    "kernel_ok (unat (fst (snd (tbl_sizes n)))) env" using f by (simp_all add: fresh_drv_def)
  obtain t s1 where a: "ipa_nati_add_ipv4_tbl env pub n s = Some (0, 1, s1)" "ip4_tbl s1 = [t]" "table_cnt s1 = 1" "table_ok t"
    "drv_rules t = (\<lambda>_. None)" "tbl_sizes n = (0, table_entries t, expn_table_entries t)"
    using add_tbl_effect [OF f'(1,6,2-5)] by metis
  have "n \<noteq> 0" using f'(4) by auto
  then have d: "ipa_nat_add_ipv4_tbl_drv env pub n 0 s = Some (0, 1, s1)" using a(1) by (simp add: ipa_nat_add_ipv4_tbl_drv_def)
  have "drv_rel env (unat (expn_table_entries t)) s1 (\<lambda>_. None)" using a f'(6) by (auto simp: drv_rel_def)
  from drv.run_simulates [OF this xs] obtain os s2 b where
    r: "run_ops (drv_exec env) xs s1 = Some (os, s2)" "run_rel (drv_step (unat (expn_table_entries t))) xs (\<lambda>_. None) os b"
      "drv_rel env (unat (expn_table_entries t)) s2 b" by blast
  from r(3) obtain t2 where "ip4_tbl s2 = [t2]" "table_cnt s2 = 1" "table_ok t2" "drv_rules t2 = b" unfolding drv_rel_def by blast
  then show ?thesis using that d r(1,2) a(6) by (simp add: drv_session_def)
qed

section \<open>Looking rules up\<close>

text \<open>
  The hardware looks a packet up by following the chain of its bucket: in the rule table for packets from outside,
  in the index table, whose entries name rules, for packets from inside.
\<close>

primrec walk :: "(nat \<Rightarrow> bool) \<Rightarrow> (nat \<Rightarrow> nat) \<Rightarrow> nat \<Rightarrow> nat \<Rightarrow> nat list" where
  "walk occ nxt 0 i = []"
| "walk occ nxt (Suc k) i = (if i = 0 \<or> \<not> occ i then [] else i # walk occ nxt k (nxt i))"

lemma walk_links:
  "links nxt prv (i # xs) \<Longrightarrow> (\<forall>j\<in>set (i # xs). j \<noteq> 0 \<and> occ j) \<Longrightarrow> length (i # xs) < k \<Longrightarrow> walk occ nxt k i = i # xs"
proof (induction xs arbitrary: i k)
  case Nil
  then obtain k' where "k = Suc (Suc k')" by (metis One_nat_def Suc_less_eq2 gr0_conv_Suc length_Cons list.size(3))
  with Nil show ?case by simp
next
  case (Cons j xs)
  then show ?case by (cases k) auto
qed

lemma walk_chain:
  assumes c: "chained T N occ nxt prv ch" and "b \<in> {0<..<T}" and "T < N"
  shows "walk occ nxt N b = ch b"
proof (cases "ch b")
  case Nil
  have "\<not> occ b"
  proof
    assume "occ b"
    then obtain h where h: "b \<in> set (ch h)" using chainedD(4) [OF c, of b] assms by auto
    then have "b = h" using bucket_shape_head [OF chainedD(1) [OF c]] assms(2) by auto
    with h Nil show False by simp
  qed
  then show ?thesis using Nil assms(3) by (cases N) auto
next
  case (Cons i xs)
  have s: "bucket_shape T N b (i # xs)" "links nxt prv (i # xs)" using chainedD(1,2) [OF c, of b] Cons by simp_all
  then have i: "i = b" unfolding bucket_shape_def by simp
  have r: "\<forall>j\<in>set (i # xs). 0 < j \<and> j < N \<and> j \<noteq> T" using bucket_shape_range [OF s(1)] assms(3) by auto
  then have o: "\<forall>j\<in>set (i # xs). j \<noteq> 0 \<and> occ j" using chained_occ [OF c, of _ b] Cons by auto
  have "set (i # xs) \<subseteq> {0<..<N}" using r by auto
  then have "card (set (i # xs)) \<le> N - 1" using card_mono [of "{0<..<N}"] by fastforce
  moreover have "distinct (i # xs)" using s(1) unfolding bucket_shape_def by blast
  ultimately have "length (i # xs) < N" using assms(3) distinct_card [of "i # xs"] by simp
  then show ?thesis using walk_links [OF s(2) o] Cons i by simp
qed

definition hw_dst :: "ipa_nat_ip4_table_cache \<Rightarrow> nat_mem \<Rightarrow> nat \<Rightarrow> ipa_nat_ipv4_rule set" where
  "hw_dst t m b = client_at (rules m) ` {i \<in> set (walk (enabled_at (rules m)) (next_at (rules m)) (total_size t) b). live_at (rules m) i}"

definition hw_src :: "ipa_nat_ip4_table_cache \<Rightarrow> nat_mem \<Rightarrow> nat \<Rightarrow> ipa_nat_ipv4_rule set" where
  "hw_src t m b =
     client_at (rules m) ` ient_at (index_rules m) `
       set (walk (\<lambda>x. ient_at (index_rules m) x \<noteq> 0) (inext_at (index_rules m)) (total_size t) b)"

lemma hw_finds_rules:
  assumes tok: "table_ok t" and m: "tbl_mem t = Mapped m" and b: "b \<in> {0<..<base_size t}"
  shows "hw_dst t m b = {c \<in> ran (drv_rules t). dst_bucket (base_size t) c = b}"
    and "hw_src t m b = {c \<in> ran (drv_rules t). src_bucket (base_size t) c = b}"
proof -
  obtain meta ids chR chI where t: "rule_id_array t = Some ids" "sizes_ok (base_size t) (total_size t)"
    "mem_ok (base_size t) (total_size t) m meta ids chR chI" using tok m unfolding table_ok_def by auto
  let ?N = "total_size t" and ?T = "base_size t"
  have TN: "?T < ?N" using t(2) by (simp add: sizes_ok_def)
  note D = mem_okD [OF t(3)] and R = ran_drv_rules [OF t(3,2) m t(1)]
  note cR = rules_wfD(2) [OF D(1)] and cI = index_wfD(3) [OF D(3)]
  have inN: "i < ?N" if "i \<in> set (chR h) \<or> i \<in> set (chI h)" for i h
    using that bucket_shape_range [OF chainedD(1) [OF cR]] bucket_shape_range [OF chainedD(1) [OF cI]] TN by (meson less_imp_le)
  have own: "dst_bucket ?T (client_at (rules m) i) = b" if "i \<in> set (chR b)" "live_at (rules m) i" for i
    using rules_wfD(5) [OF D(1) inN that(2)] that(1) chainedD(3) [OF cR] by (metis IntI empty_iff)
  have occ: "ient_at (index_rules m) x \<noteq> 0" if "x \<in> set (chI b)" for x using chained_occ [OF cI _ that] inN that by blast
  have ownI: "src_bucket ?T (client_at (rules m) (ient_at (index_rules m) x)) = b" if "x \<in> set (chI b)" for x
    using crossD(6) [OF D(4) inN occ [OF that]] that chainedD(3) [OF cI] by (metis IntI empty_iff)
  show "hw_dst t m b = {c \<in> ran (drv_rules t). dst_bucket ?T c = b}"
    unfolding hw_dst_def walk_chain [OF cR b TN] R
  proof (intro equalityI subsetI)
    fix c assume "c \<in> client_at (rules m) ` {i \<in> set (chR b). live_at (rules m) i}"
    then obtain i where "i \<in> set (chR b)" "live_at (rules m) i" "c = client_at (rules m) i" by blast
    then show "c \<in> {c \<in> client_at (rules m) ` {i. i < ?N \<and> live_at (rules m) i}. dst_bucket ?T c = b}" using own inN by blast
  next
    fix c assume "c \<in> {c \<in> client_at (rules m) ` {i. i < ?N \<and> live_at (rules m) i}. dst_bucket ?T c = b}"
    then obtain i where i: "i < ?N" "live_at (rules m) i" "c = client_at (rules m) i" "dst_bucket ?T c = b" by blast
    then show "c \<in> client_at (rules m) ` {i \<in> set (chR b). live_at (rules m) i}" using rules_wfD(5) [OF D(1) i(1,2)] by blast
  qed
  show "hw_src t m b = {c \<in> ran (drv_rules t). src_bucket ?T c = b}"
    unfolding hw_src_def walk_chain [OF cI b TN] R
  proof (intro equalityI subsetI)
    fix c assume "c \<in> client_at (rules m) ` ient_at (index_rules m) ` set (chI b)"
    then obtain x where x: "x \<in> set (chI b)" "c = client_at (rules m) (ient_at (index_rules m) x)" by blast
    then show "c \<in> {c \<in> client_at (rules m) ` {i. i < ?N \<and> live_at (rules m) i}. src_bucket ?T c = b}"
      using crossD(3,4) [OF D(4) inN occ] ownI by blast
  next
    fix c assume "c \<in> {c \<in> client_at (rules m) ` {i. i < ?N \<and> live_at (rules m) i}. src_bucket ?T c = b}"
    then obtain i where i: "i < ?N" "live_at (rules m) i" "c = client_at (rules m) i" "src_bucket ?T c = b" by blast
    then have "indx_at (rules m) i \<in> set (chI b)" "ient_at (index_rules m) (indx_at (rules m) i) = i"
      using crossD(1,2,7) [OF D(4) i(1,2)] crossD(6) [OF D(4), of "indx_at (rules m) i"] by simp_all
    then show "c \<in> client_at (rules m) ` ient_at (index_rules m) ` set (chI b)" using i(3) by (metis imageI)
  qed
qed

section \<open>Properties\<close>

text \<open>A kernel for the examples: it maps zeroed memory and applies every command to tables of base size 2.\<close>

definition sample_env :: "unit drv_env" where
  "sample_env =
     \<lparr>open_ipa = \<lambda>w. (3, w), ioctl_alloc_mem = \<lambda>sz w. (0, 0, w), drv_malloc = \<lambda>w. (True, w), open_nat = \<lambda>w. (4, w),
      mmap_nat = \<lambda>sz w. (Some \<lparr>rules = replicate (sz div 36) zero_rule, index_rules = replicate (sz div 36) 0\<rparr>, w),
      ioctl_init = \<lambda>cmd w. (0, w), ioctl_dma = \<lambda>cmds m w. (0, fold (apply_dma 2) cmds m, w), close_nat = \<lambda>fd w. (0, w),
      ioctl_del = \<lambda>i a w. (0, w), mutex_lock = \<lambda>w. (0, w), mutex_unlock = \<lambda>w. (0, w),
      mem_behind = \<lambda>w. replicate 8 0\<rparr>"

definition sample_cache :: "unit ipa_nat_cache" where
  "sample_cache = \<lparr>ip4_tbl = [zero_table], ipa_fd = 0, table_cnt = 0, drv_world = ()\<rparr>"

definition sample_rule :: "u16 \<Rightarrow> ipa_nat_ipv4_rule" where
  "sample_rule port = \<lparr>r_target_ip = 0x08080808, r_private_ip = 0xC0A80105, r_target_port = 80, r_private_port = port,
     r_public_port = port, r_protocol = 6\<rparr>"

lemma sample_sizes: "tbl_sizes 2 = (0, 2, 2)"
  by code_simp

lemma sample_fresh: "fresh_drv sample_env 2 sample_cache"
  by (simp add: fresh_drv_def setup_ok_def kernel_ok_def behind_ok_def sample_env_def sample_cache_def sample_sizes)


definition sample_ops :: "drv_op list" where
  "sample_ops = [AddRule (sample_rule 7), AddRule (sample_rule 8), AddRule (sample_rule 9), DelRule 1, AddRule (sample_rule 9), DelRule 7]"

lemma sample_adm: "list_all drv_adm sample_ops"
  by (simp add: sample_ops_def drv_adm_def sample_rule_def)


text \<open>
  C4. Functional. After every such sequence, with such a kernel, the chains of both tables are intact: following the chain of a bucket through the
  rule table meets exactly the rules of the map whose hash of target, public port and protocol is that bucket, and
  following it through the index table meets exactly those whose hash of the private side is that bucket.
\<close>

theorem chains_lead_to_the_rules:
  assumes "fresh_drv env n s" and "list_all drv_adm xs"
  shows "\<exists>os s' t m. drv_session env pub n xs s = Some (os, s') \<and> ip4_tbl s' = [t] \<and> tbl_mem t = Mapped m \<and>
    (\<forall>b\<in>{0<..<base_size t}. hw_dst t m b = {c \<in> ran (drv_rules t). dst_bucket (base_size t) c = b} \<and>
       hw_src t m b = {c \<in> ran (drv_rules t). src_bucket (base_size t) c = b})"
proof (rule session_effect [OF assms, of pub])
  fix os s' t assume s': "drv_session env pub n xs s = Some (os, s')" "ip4_tbl s' = [t]" and t: "table_ok t"
  obtain m where m: "tbl_mem t = Mapped m" using t by (auto simp: table_ok_def)
  show ?thesis using s' m hw_finds_rules [OF t m] by (intro exI conjI ballI)
qed

theorem chains_lead_to_the_rules_witness:
  "\<exists>os s' t m. drv_session sample_env 5 2 sample_ops sample_cache = Some (os, s') \<and> ip4_tbl s' = [t] \<and> tbl_mem t = Mapped m \<and>
    (\<forall>b\<in>{0<..<base_size t}. hw_dst t m b = {c \<in> ran (drv_rules t). dst_bucket (base_size t) c = b} \<and>
       hw_src t m b = {c \<in> ran (drv_rules t). src_bucket (base_size t) c = b})"
  by (rule chains_lead_to_the_rules [OF sample_fresh sample_adm])

text \<open>
  C20. Round trip. Deleting the table after any such sequence, with a kernel that also closes and deletes it, unmaps it and leaves the cache as empty as it was, so that a new
  table can be added.
\<close>

theorem table_lifecycle:
  assumes "fresh_drv env n s" and "list_all drv_adm xs" and "\<And>fd w. fst (close_nat env fd w) = 0" and "\<And>i a w. fst (ioctl_del env i a w) = 0"
  shows "\<exists>os s' s''. drv_session env pub n xs s = Some (os, s') \<and> ipa_nat_del_ipv4_tbl_drv env 1 s' = Some (0, s'') \<and> fresh_drv env n s''"
proof (rule session_effect [OF assms(1,2), of pub])
  fix os s' t assume s': "drv_session env pub n xs s = Some (os, s')" "ip4_tbl s' = [t]" "table_cnt s' = 1" and t: "table_ok t"
  have f: "kernel_ok (unat (fst (snd (tbl_sizes n)))) env" using assms(1) by (simp add: fresh_drv_def)
  obtain w4 where "ipa_nat_del_ipv4_tbl_drv env 1 s' = Some (0, s'\<lparr>ip4_tbl := [zero_table], table_cnt := 0, drv_world := w4\<rparr>)"
    using del_tbl_effect [OF f assms(3,4) s'(2,3) t] by blast
  moreover have "fresh_drv env n (s'\<lparr>ip4_tbl := [zero_table], table_cnt := 0, drv_world := w4\<rparr>)"
    using assms(1) by (simp add: fresh_drv_def)
  ultimately show ?thesis using s'(1) by (intro exI conjI)
qed

theorem table_lifecycle_witness:
  "\<exists>os s' s''. drv_session sample_env 5 2 sample_ops sample_cache = Some (os, s') \<and>
     ipa_nat_del_ipv4_tbl_drv sample_env 1 s' = Some (0, s'') \<and> fresh_drv sample_env 2 s''"
  by (rule table_lifecycle [OF sample_fresh sample_adm]) (simp_all add: sample_env_def)

text \<open>
  C39. Error. There is one cache entry and \<open>ipa_nati_add_ipv4_tbl\<close> does not compare \<open>table_cnt\<close> with it: adding a second
  table, for any number of entries the first could have, writes behind the array of tables.
\<close>

theorem second_table_overruns:
  assumes "setup_ok env" and "length (ip4_tbl s) = IPA_NAT_MAX_IP4_TBLS" and "table_cnt s = 1" and "0 < unat n" and "unat n \<le> 20480"
  shows "ipa_nat_add_ipv4_tbl_drv env pub n hdl s = None"
proof -
  obtain T X where "tbl_sizes n = (0, T, X)" using tbl_sizes_ok [OF assms(4,5)] by metis
  from alloc_table_effect [OF assms(1) this, of s] obtain fd w' where
    "ipa_nati_alloc_table env n s = (0, 36 * unat (T + X), 0, T, X, s\<lparr>ipa_fd := fd, drv_world := w'\<rparr>)" by blast
  moreover have "n \<noteq> 0" using assms(4) by auto
  ultimately show ?thesis
    using assms(2,3) by (simp add: ipa_nat_add_ipv4_tbl_drv_def ipa_nati_add_ipv4_tbl_def ipa_nati_update_cache_def rd_def IPA_NAT_MAX_IP4_TBLS_def Let_def)
qed

theorem second_table_overruns_witness:
  "(\<exists>s'. ipa_nat_add_ipv4_tbl_drv sample_env 5 2 0 sample_cache = Some (0, 1, s') \<and>
     ipa_nat_add_ipv4_tbl_drv sample_env 6 100 0 s' = None)"
proof -
  define r where "r = the (ipa_nat_add_ipv4_tbl_drv sample_env 5 2 0 sample_cache)"
  have "ipa_nat_add_ipv4_tbl_drv sample_env 5 2 0 sample_cache = Some (0, 1, snd (snd r))" "table_cnt (snd (snd r)) = 1"
    "length (ip4_tbl (snd (snd r))) = IPA_NAT_MAX_IP4_TBLS" unfolding r_def by code_simp+
  moreover have "setup_ok sample_env" using sample_fresh by (simp add: fresh_drv_def)
  ultimately show ?thesis using second_table_overruns [of sample_env "snd (snd r)" 100 6 0] by auto
qed

section \<open>What the library does not check\<close>

text \<open>When \<open>malloc\<close> fails, \<open>ipa_nati_update_cache\<close> returns 0 and the table is reset through a null pointer.\<close>

theorem malloc_failure_resets_null:
  "ipa_nat_add_ipv4_tbl_drv (sample_env\<lparr>drv_malloc := \<lambda>w. (False, w)\<rparr>) 5 2 0 sample_cache = None"
  by code_simp

text \<open>The time stamp of a handle that no rule has is read from entry 0 and reported as success; handle 0 reads in front
  of the array of handles.\<close>

theorem timestamp_of_unknown_handle:
  "drv_session sample_env 5 2 [AddRule (sample_rule 7)] sample_cache \<bind>
     (\<lambda>(os, s). map_option (\<lambda>(ret, ts, _). (ret, ts)) (ipa_nat_query_timestamp_drv sample_env 1 77 99 s)) = Some (0, 0)"
  "drv_session sample_env 5 2 [AddRule (sample_rule 7)] sample_cache \<bind>
     (\<lambda>(os, s). ipa_nat_query_timestamp_drv sample_env 1 0 99 s) = None"
  by code_simp+

text \<open>A rule of protocol 255 looks like a deleted head: the next deletion sweeps it away while its handle stays.\<close>

theorem protocol_255_swept:
  "drv_session sample_env 5 2 [AddRule ((sample_rule 7)\<lparr>r_protocol := 0xFF\<rparr>), AddRule (sample_rule 8), DelRule 2] sample_cache \<bind>
     (\<lambda>(os, s). Some (os, map_option (\<lambda>c. (r_private_ip c, r_protocol c)) (drv_rules (hd (ip4_tbl s)) 1))) =
   Some ([Added 0 1, Added 0 2, Deleted 0], Some (0, 0))"
  by code_simp

text \<open>
  The dump of an intact table always reads the word behind the index expansion table. When the tables fill their last
  page and nothing is mapped behind them, no table can be added, and no rule added or deleted without a fault.
\<close>

lemma dump_loop_None: "c \<in> set cs \<Longrightarrow> f c = None \<Longrightarrow> dump_loop f cs = None"
proof (induction cs)
  case (Cons x cs)
  then show ?case by (cases "f x") auto
qed simp

theorem dump_reads_behind_the_tables:
  assumes "table_ok t" and "ip4_tbl s = [t]" and "mem_behind env (drv_world s) = []"
  shows "ipa_nat_dump_ipv4_table env 1 s = None"
proof -
  obtain m meta ids chR chI where m: "tbl_mem t = Mapped m" and ok: "mem_ok (base_size t) (total_size t) m meta ids chR chI"
    using assms(1) unfolding table_ok_def by blast
  have "length (index_rules m) = total_size t" using index_wfD(1) [OF mem_okD(3) [OF ok]] .
  then have "dump_index [] m (base_size t + unat (expn_table_entries t)) p = None" for p by (simp add: dump_index_def rd_def)
  then have "dump_loop (\<lambda>cnt. dump_index [] m (base_size t + cnt) (index_expn_table_meta t \<bind> (\<lambda>meta. rd meta cnt)))
      [0..<unat (expn_table_entries t) + 1] = None" by (intro dump_loop_None [of "unat (expn_table_entries t)"]) auto
  then show ?thesis
    using assms(2,3) m unfolding ipa_nat_dump_ipv4_table_def IPA_NAT_MAX_IP4_TBLS_def Let_def
    by (simp add: bind_eq_None_conv del: upt_Suc)
qed

theorem no_table_without_memory_behind:
  "ipa_nat_add_ipv4_tbl_drv (sample_env\<lparr>mem_behind := \<lambda>w. []\<rparr>) 5 2 0 sample_cache = None"
  by code_simp

end
