(* ===== verification/NatApp_Drv.thy ===== *)
theory NatApp_Drv
  imports NatApp_Props NatDrv_Props
begin

text \<open>
  The NAT application on the NAT table library. The locale \<open>nat_driver\<close> is the contract of the library as the
  application sees it: a map of rules behind a table handle. Inside it every method of the application
  is shown to keep the table and the cache in step. The library's model is an instance, which gives the property of both together.
\<close>

section \<open>Cells and rules\<close>











section \<open>The contract\<close>





section \<open>The table library as the driver\<close>

text \<open>
  The calls that the application makes, on the model of the table library. The world is the state of the library, and
  \<open>None\<close> once it has made an invalid access. The conntrack library and \<open>/proc\<close> stay parameters.
\<close>

record 'w ct_kernel =
  k_nfct_open :: "'w \<Rightarrow> bool \<times> 'w"
  k_nfct_new :: "'w \<Rightarrow> nf_conntrack option \<times> 'w"
  k_nfct_query :: "nf_conntrack \<Rightarrow> 'w \<Rightarrow> int \<times> 'w"
  k_read_proc :: "string \<Rightarrow> 'w \<Rightarrow> proc_read"

definition outside :: "('w \<Rightarrow> 'r \<times> 'w) \<Rightarrow> 'r \<Rightarrow> 'w ipa_nat_cache option \<Rightarrow> 'r \<times> 'w ipa_nat_cache option" where
  "outside f d w = (case w of None \<Rightarrow> (d, None) | Some s \<Rightarrow> (case f (drv_world s) of (r, x) \<Rightarrow> (r, Some (s\<lparr>drv_world := x\<rparr>))))"

definition with_value :: "u32 \<Rightarrow> (int \<times> u32 \<times> 'w ipa_nat_cache) option \<Rightarrow> int \<times> u32 \<times> 'w ipa_nat_cache option" where
  "with_value v r = (case r of None \<Rightarrow> (-1, v, None) | Some (ret, v, s) \<Rightarrow> (ret, v, Some s))"

definition without_value :: "(int \<times> 'w ipa_nat_cache) option \<Rightarrow> int \<times> 'w ipa_nat_cache option" where
  "without_value r = (case r of None \<Rightarrow> (-1, None) | Some (ret, s) \<Rightarrow> (ret, Some s))"

definition drv_nat_env :: "'w drv_env \<Rightarrow> 'w ct_kernel \<Rightarrow> 'w ipa_nat_cache option nat_env" where
  "drv_nat_env env k =
     \<lparr>ipa_nat_add_ipv4_tbl = \<lambda>pub n x w. with_value x (w \<bind> ipa_nat_add_ipv4_tbl_drv env pub n x),
      ipa_nat_del_ipv4_tbl = \<lambda>hdl w. without_value (w \<bind> ipa_nat_del_ipv4_tbl_drv env hdl),
      ipa_nat_add_ipv4_rule = \<lambda>hdl c x w. with_value x (w \<bind> ipa_nat_add_ipv4_rule_drv env hdl c x),
      ipa_nat_del_ipv4_rule = \<lambda>hdl y w. without_value (w \<bind> ipa_nat_del_ipv4_rule_drv env hdl y),
      ipa_nat_query_timestamp = \<lambda>hdl y x w. with_value x (w \<bind> ipa_nat_query_timestamp_drv env hdl y x),
      nfct_open = outside (k_nfct_open k) False, nfct_new = outside (k_nfct_new k) None,
      nfct_query = \<lambda>q. outside (k_nfct_query k q) (-1),
      read_proc = \<lambda>name w. case w of None \<Rightarrow> OpenFailed | Some s \<Rightarrow> k_read_proc k name (drv_world s)\<rparr>"











section \<open>Both together\<close>





definition sample_ct :: "unit ct_kernel" where
  "sample_ct = \<lparr>k_nfct_open = \<lambda>w. (True, w), k_nfct_new = \<lambda>w. (None, w), k_nfct_query = \<lambda>q w. (0, w), k_read_proc = \<lambda>name w. OpenFailed\<rparr>"

definition sample_inst :: "unit ipa_nat_cache option natapp" where
  "sample_inst = snd (Init (Some (2, [])) True True (NatApp_ctor junk0 (Some sample_cache)))"




text \<open>While there is no table, a client that leaves power save loses its cached connections: restoring them fails.\<close>

theorem reset_power_save_without_table:
  "cache (fold (exec_op (drv_nat_env sample_env sample_ct)) [OpCacheEntry conn1, OpResetPwrSaveIf 0xC0A8E10A] sample_inst) =
   [zero_entry, zero_entry]"
  by code_simp

end
