(* ===== verification/IPACM_Events.thy ===== *)
theory IPACM_Events
  imports IPACM_Prelude
begin

text \<open>
  The event identifiers of \<open>IPACM_Defs.h\<close> (\<open>ipa_cm_event_id\<close>), in the order of the enumeration.
  The order matters: \<open>PostEvt\<close> compares an event with \<open>IPA_EXTERNAL_EVENT_MAX\<close> to choose the queue,
  and \<open>ipacm_event_stats\<close> is indexed with it. The type is made a linear order by its number.
\<close>

datatype ipa_cm_event_id =
    IPA_CFG_CHANGE_EVENT
  | IPA_PRIVATE_SUBNET_CHANGE_EVENT
  | IPA_FIREWALL_CHANGE_EVENT
  | IPA_LINK_UP_EVENT
  | IPA_LINK_DOWN_EVENT
  | IPA_USB_LINK_UP_EVENT
  | IPA_BRIDGE_LINK_UP_EVENT
  | IPA_WAN_EMBMS_LINK_UP_EVENT
  | IPA_ADDR_ADD_EVENT
  | IPA_ADDR_DEL_EVENT
  | IPA_ROUTE_ADD_EVENT
  | IPA_ROUTE_DEL_EVENT
  | IPA_WAN_UPSTREAM_ROUTE_ADD_EVENT
  | IPA_WAN_UPSTREAM_ROUTE_DEL_EVENT
  | IPA_WLAN_AP_LINK_UP_EVENT
  | IPA_WLAN_STA_LINK_UP_EVENT
  | IPA_WLAN_LINK_DOWN_EVENT
  | IPA_WLAN_CLIENT_ADD_EVENT
  | IPA_WLAN_CLIENT_ADD_EVENT_EX
  | IPA_WLAN_CLIENT_DEL_EVENT
  | IPA_WLAN_CLIENT_POWER_SAVE_EVENT
  | IPA_WLAN_CLIENT_RECOVER_EVENT
  | IPA_NEW_NEIGH_EVENT
  | IPA_DEL_NEIGH_EVENT
  | IPA_NEIGH_CLIENT_IP_ADDR_ADD_EVENT
  | IPA_NEIGH_CLIENT_IP_ADDR_DEL_EVENT
  | IPA_SW_ROUTING_ENABLE
  | IPA_SW_ROUTING_DISABLE
  | IPA_PROCESS_CT_MESSAGE
  | IPA_PROCESS_CT_MESSAGE_V6
  | IPA_LAN_TO_LAN_NEW_CONNECTION
  | IPA_LAN_TO_LAN_DEL_CONNECTION
  | IPA_WLAN_SWITCH_TO_SCC
  | IPA_WLAN_SWITCH_TO_MCC
  | IPA_CRADLE_WAN_MODE_SWITCH
  | IPA_WAN_XLAT_CONNECT_EVENT
  | IPA_TETHERING_STATS_UPDATE_EVENT
  | IPA_NETWORK_STATS_UPDATE_EVENT
  | IPA_EXTERNAL_EVENT_MAX
  | IPA_HANDLE_WAN_UP
  | IPA_HANDLE_WAN_DOWN
  | IPA_HANDLE_WAN_UP_V6
  | IPA_HANDLE_WAN_DOWN_V6
  | IPA_HANDLE_WAN_UP_TETHER
  | IPA_HANDLE_WAN_DOWN_TETHER
  | IPA_HANDLE_WAN_UP_V6_TETHER
  | IPA_HANDLE_WAN_DOWN_V6_TETHER
  | IPA_HANDLE_WLAN_UP
  | IPA_HANDLE_LAN_UP
  | IPA_ETH_BRIDGE_IFACE_UP
  | IPA_ETH_BRIDGE_IFACE_DOWN
  | IPA_ETH_BRIDGE_CLIENT_ADD
  | IPA_ETH_BRIDGE_CLIENT_DEL
  | IPA_ETH_BRIDGE_WLAN_SCC_MCC_SWITCH
  | IPA_LAN_DELETE_SELF
  | IPACM_EVENT_MAX

primrec event_num :: "ipa_cm_event_id \<Rightarrow> nat" where
  "event_num IPA_CFG_CHANGE_EVENT = 0"
| "event_num IPA_PRIVATE_SUBNET_CHANGE_EVENT = 1"
| "event_num IPA_FIREWALL_CHANGE_EVENT = 2"
| "event_num IPA_LINK_UP_EVENT = 3"
| "event_num IPA_LINK_DOWN_EVENT = 4"
| "event_num IPA_USB_LINK_UP_EVENT = 5"
| "event_num IPA_BRIDGE_LINK_UP_EVENT = 6"
| "event_num IPA_WAN_EMBMS_LINK_UP_EVENT = 7"
| "event_num IPA_ADDR_ADD_EVENT = 8"
| "event_num IPA_ADDR_DEL_EVENT = 9"
| "event_num IPA_ROUTE_ADD_EVENT = 10"
| "event_num IPA_ROUTE_DEL_EVENT = 11"
| "event_num IPA_WAN_UPSTREAM_ROUTE_ADD_EVENT = 12"
| "event_num IPA_WAN_UPSTREAM_ROUTE_DEL_EVENT = 13"
| "event_num IPA_WLAN_AP_LINK_UP_EVENT = 14"
| "event_num IPA_WLAN_STA_LINK_UP_EVENT = 15"
| "event_num IPA_WLAN_LINK_DOWN_EVENT = 16"
| "event_num IPA_WLAN_CLIENT_ADD_EVENT = 17"
| "event_num IPA_WLAN_CLIENT_ADD_EVENT_EX = 18"
| "event_num IPA_WLAN_CLIENT_DEL_EVENT = 19"
| "event_num IPA_WLAN_CLIENT_POWER_SAVE_EVENT = 20"
| "event_num IPA_WLAN_CLIENT_RECOVER_EVENT = 21"
| "event_num IPA_NEW_NEIGH_EVENT = 22"
| "event_num IPA_DEL_NEIGH_EVENT = 23"
| "event_num IPA_NEIGH_CLIENT_IP_ADDR_ADD_EVENT = 24"
| "event_num IPA_NEIGH_CLIENT_IP_ADDR_DEL_EVENT = 25"
| "event_num IPA_SW_ROUTING_ENABLE = 26"
| "event_num IPA_SW_ROUTING_DISABLE = 27"
| "event_num IPA_PROCESS_CT_MESSAGE = 28"
| "event_num IPA_PROCESS_CT_MESSAGE_V6 = 29"
| "event_num IPA_LAN_TO_LAN_NEW_CONNECTION = 30"
| "event_num IPA_LAN_TO_LAN_DEL_CONNECTION = 31"
| "event_num IPA_WLAN_SWITCH_TO_SCC = 32"
| "event_num IPA_WLAN_SWITCH_TO_MCC = 33"
| "event_num IPA_CRADLE_WAN_MODE_SWITCH = 34"
| "event_num IPA_WAN_XLAT_CONNECT_EVENT = 35"
| "event_num IPA_TETHERING_STATS_UPDATE_EVENT = 36"
| "event_num IPA_NETWORK_STATS_UPDATE_EVENT = 37"
| "event_num IPA_EXTERNAL_EVENT_MAX = 38"
| "event_num IPA_HANDLE_WAN_UP = 39"
| "event_num IPA_HANDLE_WAN_DOWN = 40"
| "event_num IPA_HANDLE_WAN_UP_V6 = 41"
| "event_num IPA_HANDLE_WAN_DOWN_V6 = 42"
| "event_num IPA_HANDLE_WAN_UP_TETHER = 43"
| "event_num IPA_HANDLE_WAN_DOWN_TETHER = 44"
| "event_num IPA_HANDLE_WAN_UP_V6_TETHER = 45"
| "event_num IPA_HANDLE_WAN_DOWN_V6_TETHER = 46"
| "event_num IPA_HANDLE_WLAN_UP = 47"
| "event_num IPA_HANDLE_LAN_UP = 48"
| "event_num IPA_ETH_BRIDGE_IFACE_UP = 49"
| "event_num IPA_ETH_BRIDGE_IFACE_DOWN = 50"
| "event_num IPA_ETH_BRIDGE_CLIENT_ADD = 51"
| "event_num IPA_ETH_BRIDGE_CLIENT_DEL = 52"
| "event_num IPA_ETH_BRIDGE_WLAN_SCC_MCC_SWITCH = 53"
| "event_num IPA_LAN_DELETE_SELF = 54"
| "event_num IPACM_EVENT_MAX = 55"

definition all_events :: "ipa_cm_event_id list" where
  "all_events = [
    IPA_CFG_CHANGE_EVENT,
    IPA_PRIVATE_SUBNET_CHANGE_EVENT,
    IPA_FIREWALL_CHANGE_EVENT,
    IPA_LINK_UP_EVENT,
    IPA_LINK_DOWN_EVENT,
    IPA_USB_LINK_UP_EVENT,
    IPA_BRIDGE_LINK_UP_EVENT,
    IPA_WAN_EMBMS_LINK_UP_EVENT,
    IPA_ADDR_ADD_EVENT,
    IPA_ADDR_DEL_EVENT,
    IPA_ROUTE_ADD_EVENT,
    IPA_ROUTE_DEL_EVENT,
    IPA_WAN_UPSTREAM_ROUTE_ADD_EVENT,
    IPA_WAN_UPSTREAM_ROUTE_DEL_EVENT,
    IPA_WLAN_AP_LINK_UP_EVENT,
    IPA_WLAN_STA_LINK_UP_EVENT,
    IPA_WLAN_LINK_DOWN_EVENT,
    IPA_WLAN_CLIENT_ADD_EVENT,
    IPA_WLAN_CLIENT_ADD_EVENT_EX,
    IPA_WLAN_CLIENT_DEL_EVENT,
    IPA_WLAN_CLIENT_POWER_SAVE_EVENT,
    IPA_WLAN_CLIENT_RECOVER_EVENT,
    IPA_NEW_NEIGH_EVENT,
    IPA_DEL_NEIGH_EVENT,
    IPA_NEIGH_CLIENT_IP_ADDR_ADD_EVENT,
    IPA_NEIGH_CLIENT_IP_ADDR_DEL_EVENT,
    IPA_SW_ROUTING_ENABLE,
    IPA_SW_ROUTING_DISABLE,
    IPA_PROCESS_CT_MESSAGE,
    IPA_PROCESS_CT_MESSAGE_V6,
    IPA_LAN_TO_LAN_NEW_CONNECTION,
    IPA_LAN_TO_LAN_DEL_CONNECTION,
    IPA_WLAN_SWITCH_TO_SCC,
    IPA_WLAN_SWITCH_TO_MCC,
    IPA_CRADLE_WAN_MODE_SWITCH,
    IPA_WAN_XLAT_CONNECT_EVENT,
    IPA_TETHERING_STATS_UPDATE_EVENT,
    IPA_NETWORK_STATS_UPDATE_EVENT,
    IPA_EXTERNAL_EVENT_MAX,
    IPA_HANDLE_WAN_UP,
    IPA_HANDLE_WAN_DOWN,
    IPA_HANDLE_WAN_UP_V6,
    IPA_HANDLE_WAN_DOWN_V6,
    IPA_HANDLE_WAN_UP_TETHER,
    IPA_HANDLE_WAN_DOWN_TETHER,
    IPA_HANDLE_WAN_UP_V6_TETHER,
    IPA_HANDLE_WAN_DOWN_V6_TETHER,
    IPA_HANDLE_WLAN_UP,
    IPA_HANDLE_LAN_UP,
    IPA_ETH_BRIDGE_IFACE_UP,
    IPA_ETH_BRIDGE_IFACE_DOWN,
    IPA_ETH_BRIDGE_CLIENT_ADD,
    IPA_ETH_BRIDGE_CLIENT_DEL,
    IPA_ETH_BRIDGE_WLAN_SCC_MCC_SWITCH,
    IPA_LAN_DELETE_SELF,
    IPACM_EVENT_MAX]"

lemma event_num_nth: "all_events ! event_num e = e"
  by (cases e) (simp_all add: all_events_def)

lemma event_num_inj [simp]: "event_num a = event_num b \<longleftrightarrow> a = b"
  by (metis event_num_nth)

lemma event_num_less: "event_num e < length all_events"
  by (cases e) (simp_all add: all_events_def)

instantiation ipa_cm_event_id :: linorder
begin

definition less_eq_ipa_cm_event_id :: "ipa_cm_event_id \<Rightarrow> ipa_cm_event_id \<Rightarrow> bool" where
  "less_eq_ipa_cm_event_id a b = (event_num a \<le> event_num b)"

definition less_ipa_cm_event_id :: "ipa_cm_event_id \<Rightarrow> ipa_cm_event_id \<Rightarrow> bool" where
  "less_ipa_cm_event_id a b = (event_num a < event_num b)"

instance
  by standard (auto simp: less_eq_ipa_cm_event_id_def less_ipa_cm_event_id_def)

end

text \<open>Which queue an event belongs to: the comparison of \<open>PostEvt\<close>.\<close>

definition is_external :: "ipa_cm_event_id \<Rightarrow> bool" where
  "is_external e = (e < IPA_EXTERNAL_EVENT_MAX)"

lemma is_external_num: "is_external e \<longleftrightarrow> event_num e < 38"
  by (simp add: is_external_def less_ipa_cm_event_id_def)

end
