(* ===== verification/Heap_List.thy ===== *)
theory Heap_List
  imports IPACM_Prelude
begin

text \<open>
  Singly linked lists in an explicit store. An address maps to a node while the node is
  allocated and to \<open>None\<close> before it is allocated and after it is freed, so an access to freed
  memory is visible: the accessors return \<open>None\<close>. \<open>chain h p xs q\<close> says that following the
  next pointers from \<open>p\<close> visits the nodes \<open>xs\<close> and arrives at \<open>q\<close>.
\<close>

type_synonym ptr = "nat option"

record 'v node =
  val :: 'v
  nxt :: ptr

type_synonym 'v heap = "nat \<rightharpoonup> 'v node"

fun chain :: "'v heap \<Rightarrow> ptr \<Rightarrow> nat list \<Rightarrow> ptr \<Rightarrow> bool" where
  "chain h p [] q = (p = q)"
| "chain h p (a # as) q = (p = Some a \<and> (\<exists>n. h a = Some n \<and> chain h (nxt n) as q))"

definition vals :: "'v heap \<Rightarrow> nat list \<Rightarrow> 'v list" where
  "vals h as = map (\<lambda>a. val (the (h a))) as"

lemma vals_simps [simp]:
  "vals h [] = []" "vals h (a # as) = val (the (h a)) # vals h as" "vals h (as @ bs) = vals h as @ vals h bs"
  by (simp_all add: vals_def)

lemma vals_upd_notin [simp]: "a \<notin> set as \<Longrightarrow> vals (h(a := n)) as = vals h as"
  by (auto simp: vals_def)

lemma chain_None [simp]: "chain h None as None \<longleftrightarrow> as = []"
  by (cases as) auto

lemma chain_append: "chain h p (as @ bs) q \<longleftrightarrow> (\<exists>r. chain h p as r \<and> chain h r bs q)"
  by (induction as arbitrary: p) auto

lemma chain_upd_notin: "a \<notin> set as \<Longrightarrow> chain (h(a := n)) p as q = chain h p as q"
  by (induction as arbitrary: p) auto

lemma chain_allocated: "chain h p as q \<Longrightarrow> a \<in> set as \<Longrightarrow> h a \<noteq> None"
  by (induction as arbitrary: p) auto

lemma chain_fresh: "chain h p as q \<Longrightarrow> h a = None \<Longrightarrow> a \<notin> set as"
  using chain_allocated by fastforce

lemma chain_unique: "chain h p as None \<Longrightarrow> chain h p bs None \<Longrightarrow> as = bs"
proof (induction as arbitrary: p bs)
  case Nil
  then show ?case by simp
next
  case (Cons a as)
  then show ?case by (cases bs) auto
qed

lemma chain_distinct: "chain h p as None \<Longrightarrow> distinct as"
proof (induction as arbitrary: p)
  case Nil
  then show ?case by simp
next
  case (Cons a as)
  then obtain n where n: "h a = Some n" "chain h (nxt n) as None" by auto
  have "a \<notin> set as"
  proof
    assume "a \<in> set as"
    then obtain us vs where as: "as = us @ a # vs" by (auto simp: in_set_conv_decomp)
    with n have "chain h (nxt n) vs None" by (auto simp: chain_append)
    with n(2) have "vs = as" by (rule chain_unique [symmetric])
    with as show False by (metis append_Cons append_Nil2 append_is_Nil_conv append_same_eq list.distinct(1) self_append_conv2 append.assoc)
  qed
  with Cons.IH n show ?case by auto
qed

text \<open>Appending a node behind the last one, and dropping the link to a node in the middle.\<close>

lemma chain_snoc:
  assumes "chain h p (as @ [b]) None" and "h b = Some m" and "h c = Some n" and "nxt n = None" and "c \<notin> set (as @ [b])"
  shows "chain (h(b := Some (m\<lparr>nxt := Some c\<rparr>))) p (as @ [b, c]) None"
proof -
  have "b \<notin> set as" using chain_distinct [OF assms(1)] by simp
  moreover from assms(1) have "chain h p as (Some b)" by (auto simp: chain_append)
  ultimately show ?thesis using assms(3-5) by (auto simp: chain_append chain_upd_notin)
qed

lemma vals_relink: "h b = Some m \<Longrightarrow> vals (h(b := Some (m\<lparr>nxt := q\<rparr>))) as = vals h as"
  by (auto simp: vals_def)

lemma chain_unlink:
  assumes "chain h p (as @ [b, a] @ cs) None" and "h b = Some m" and "h a = Some n"
  shows "chain (h(b := Some (m\<lparr>nxt := nxt n\<rparr>))) p (as @ [b] @ cs) None"
proof -
  have d: "distinct (as @ [b, a] @ cs)" using assms(1) by (rule chain_distinct)
  from assms have "chain h p as (Some b)" and "chain h (nxt n) cs None"
    by (auto simp: chain_append)
  with d show ?thesis by (auto simp: chain_append chain_upd_notin)
qed

end
