(* ===== verification/CmdQueue.thy ===== *)
theory CmdQueue
  imports IPACM_Events Op_Refinement Heap_List
begin

text \<open>
  \<open>IPACM_CmdQueue.cpp\<close>/\<open>.h\<close> and \<open>IPACM_EvtDispatcher::PostEvt\<close>: the two message queues
  (internal and external) between the threads that post events and the thread that runs
  \<open>MessageQueue::Process\<close>. Messages and queues live in stores, so that a dereference of \<open>NULL\<close> or of a
  deleted message is the result \<open>None\<close>. Both programs are cut at the points where other threads can
  run: the unsynchronised look-up of a queue (test, creation, return), the critical section of a post, the
  look-ups of \<open>Process\<close> before its loop, the critical section that takes an item, the callback, and the
  deletion of the item. The results of the C library (allocation, mutex, condition variable) are arguments
  of each operation.
\<close>

section \<open>Data\<close>

record ipacm_cmd_q_data =
  event :: ipa_cm_event_id
  evt_data :: ptr

datatype callback = CB_ProcessEvt

record cmd_t =
  callback_ptr :: "callback option"
  data :: ipacm_cmd_q_data

type_synonym Message = "cmd_t node"
type_synonym msg_heap = "cmd_t heap"

record MessageQueue =
  Head :: ptr
  Tail :: ptr

text \<open>\<open>MessageQueue::MessageQueue\<close>.\<close>

definition new_MessageQueue :: MessageQueue where
  "new_MessageQueue = \<lparr>Head = None, Tail = None\<rparr>"

text \<open>\<open>Message::Message\<close>: no successor, no callback; the event data is what the memory held.\<close>

definition new_Message :: "ipacm_cmd_q_data \<Rightarrow> Message" where
  "new_Message junk = \<lparr>val = \<lparr>callback_ptr = None, data = junk\<rparr>, nxt = None\<rparr>"

text \<open>Where a thread is inside \<open>getInstanceInternal\<close> or \<open>getInstanceExternal\<close>.\<close>

datatype get_pc = GCheck | GNew | GReturn

text \<open>Where a thread is inside \<open>PostEvt\<close>: looking up the queue, or holding a pointer to it.\<close>

datatype post_pc = Getting get_pc ipacm_cmd_q_data | Ready nat ipacm_cmd_q_data

text \<open>
  Where the thread of \<open>Process\<close> is: looking up the queues, then in its loop with the two pointers it
  found and the value of its local \<open>item\<close>.
\<close>

datatype proc_pc = GetInternal get_pc | GetExternal nat get_pc | Idle nat nat | Got nat nat nat | Called nat nat nat | Exited

record msg_state =
  msgs :: msg_heap
  queues :: "nat \<rightharpoonup> MessageQueue"
  inst_internal :: ptr
  inst_external :: ptr
  posting :: "nat \<rightharpoonup> post_pc"
  pc :: proc_pc

definition msg_init :: msg_state where
  "msg_init = \<lparr>msgs = Map.empty, queues = Map.empty, inst_internal = None, inst_external = None,
     posting = Map.empty, pc = GetInternal GCheck\<rparr>"

section \<open>Operations\<close>

text \<open>
  \<open>getInstanceInternal\<close> and \<open>getInstanceExternal\<close> have the same text for their own pointer: test it, assign the
  result of \<open>new\<close> (\<open>alloc\<close>), and read it again to return it. \<open>ext\<close> chooses between them.
\<close>

definition inst :: "bool \<Rightarrow> msg_state \<Rightarrow> ptr" where
  "inst ext s = (if ext then inst_external s else inst_internal s)"

definition get_check :: "bool \<Rightarrow> msg_state \<Rightarrow> get_pc" where
  "get_check ext s = (if inst ext s = None then GNew else GReturn)"

definition get_new :: "bool \<Rightarrow> ptr \<Rightarrow> msg_state \<Rightarrow> msg_state" where
  "get_new ext alloc s =
     (let s = (case alloc of None \<Rightarrow> s | Some q \<Rightarrow> s\<lparr>queues := (queues s)(q := Some new_MessageQueue)\<rparr>) in
      if ext then s\<lparr>inst_external := alloc\<rparr> else s\<lparr>inst_internal := alloc\<rparr>)"

text \<open>The whole call, when no other thread runs meanwhile.\<close>

definition getInstance :: "bool \<Rightarrow> ptr \<Rightarrow> msg_state \<Rightarrow> ptr \<times> msg_state" where
  "getInstance ext alloc s =
     (let s = (case get_check ext s of GNew \<Rightarrow> get_new ext alloc s | _ \<Rightarrow> s) in (inst ext s, s))"

text \<open>\<open>Message::setnext\<close> and \<open>Message::getnext\<close> through a pointer.\<close>

definition setnext :: "ptr \<Rightarrow> ptr \<Rightarrow> msg_heap \<Rightarrow> msg_heap option" where
  "setnext p item h =
     (case p of
        None \<Rightarrow> None
      | Some a \<Rightarrow> (case h a of None \<Rightarrow> None | Some n \<Rightarrow> Some (h(a := Some (n\<lparr>nxt := item\<rparr>)))))"

definition getnext :: "ptr \<Rightarrow> msg_heap \<Rightarrow> ptr option" where
  "getnext p h = (case p of None \<Rightarrow> None | Some a \<Rightarrow> map_option nxt (h a))"

definition enqueue :: "nat \<Rightarrow> msg_heap \<Rightarrow> MessageQueue \<Rightarrow> (msg_heap \<times> MessageQueue) option" where
  "enqueue item h q =
     (if Head q = None then Some (h, q\<lparr>Tail := Some item, Head := Some item\<rparr>)
      else
        (case (if Tail q = None then setnext (Head q) (Some item) h else setnext (Tail q) (Some item) h) of
           None \<Rightarrow> None
         | Some h' \<Rightarrow> Some (h', q\<lparr>Tail := Some item\<rparr>)))"

definition dequeue :: "msg_heap \<Rightarrow> MessageQueue \<Rightarrow> (ptr \<times> MessageQueue) option" where
  "dequeue h q =
     (if Head q = None then Some (None, q)
      else
        (case getnext (Head q) h of
           None \<Rightarrow> None
         | Some n \<Rightarrow> Some (Head q, q\<lparr>Head := n\<rparr>)))"

text \<open>
  \<open>IPACM_EvtDispatcher::PostEvt\<close>. The allocated message is at the address \<open>item\<close> (\<open>None\<close> when
  \<open>new\<close> fails). On a failing signal the event is enqueued and the call returns failure.
\<close>

record post_env =
  item :: ptr
  junk :: ipacm_cmd_q_data
  lock_ok :: bool
  signal_ok :: bool
  unlock_ok :: bool

definition post_ext :: "ipacm_cmd_q_data \<Rightarrow> bool" where
  "post_ext d \<longleftrightarrow> event d < IPA_EXTERNAL_EVENT_MAX"

text \<open>The part behind the look-up, with the pointer \<open>MsgQueue\<close>.\<close>

definition PostEvt_enqueue :: "post_env \<Rightarrow> ipacm_cmd_q_data \<Rightarrow> nat \<Rightarrow> msg_state \<Rightarrow> (int \<times> msg_state) option" where
  "PostEvt_enqueue env d MsgQueue s =
     (case item env of
        None \<Rightarrow> Some (IPACM_FAILURE, s)
      | Some a \<Rightarrow>
          let m = new_Message (junk env);
              m = m\<lparr>val := \<lparr>callback_ptr = Some CB_ProcessEvt, data = d\<rparr>\<rparr>;
              s = s\<lparr>msgs := (msgs s)(a := Some m)\<rparr> in
          if \<not> lock_ok env then Some (IPACM_FAILURE, s)
          else
            (case queues s MsgQueue of
               None \<Rightarrow> None
             | Some q \<Rightarrow>
                 (case enqueue a (msgs s) q of
                    None \<Rightarrow> None
                  | Some (h, q') \<Rightarrow>
                      let s = s\<lparr>msgs := h, queues := (queues s)(MsgQueue := Some q')\<rparr> in
                      if \<not> signal_ok env then Some (IPACM_FAILURE, s)
                      else if \<not> unlock_ok env then Some (IPACM_FAILURE, s)
                      else Some (IPACM_SUCCESS, s))))"

text \<open>The whole call, when no other thread runs meanwhile.\<close>

definition PostEvt :: "ptr \<Rightarrow> post_env \<Rightarrow> ipacm_cmd_q_data \<Rightarrow> msg_state \<Rightarrow> (int \<times> msg_state) option" where
  "PostEvt alloc env d s =
     (let (MsgQueue, s) = getInstance (post_ext d) alloc s in
      case MsgQueue of
        None \<Rightarrow> Some (IPACM_FAILURE, s)
      | Some q \<Rightarrow> PostEvt_enqueue env d q s)"

text \<open>One step of a thread inside the look-up of \<open>PostEvt\<close>; the output is the result of a failed call.\<close>

definition PostEvt_get :: "nat \<Rightarrow> ptr \<Rightarrow> get_pc \<Rightarrow> ipacm_cmd_q_data \<Rightarrow> msg_state \<Rightarrow> int list \<times> msg_state" where
  "PostEvt_get t alloc g d s =
     (case g of
        GCheck \<Rightarrow> ([], s\<lparr>posting := (posting s)(t := Some (Getting (get_check (post_ext d) s) d))\<rparr>)
      | GNew \<Rightarrow> ([], (get_new (post_ext d) alloc s)\<lparr>posting := (posting s)(t := Some (Getting GReturn d))\<rparr>)
      | GReturn \<Rightarrow>
          (case inst (post_ext d) s of
             None \<Rightarrow> ([IPACM_FAILURE], s\<lparr>posting := (posting s)(t := None)\<rparr>)
           | Some q \<Rightarrow> ([], s\<lparr>posting := (posting s)(t := Some (Ready q d))\<rparr>)))"

text \<open>One step of the thread of \<open>Process\<close> in front of its loop.\<close>

definition Process_get :: "ptr \<Rightarrow> msg_state \<Rightarrow> msg_state option" where
  "Process_get alloc s =
     (case pc s of
        GetInternal g \<Rightarrow>
          (case g of
             GCheck \<Rightarrow> Some (s\<lparr>pc := GetInternal (get_check False s)\<rparr>)
           | GNew \<Rightarrow> Some ((get_new False alloc s)\<lparr>pc := GetInternal GReturn\<rparr>)
           | GReturn \<Rightarrow> Some (s\<lparr>pc := (case inst_internal s of None \<Rightarrow> Exited | Some q \<Rightarrow> GetExternal q GCheck)\<rparr>))
      | GetExternal qi g \<Rightarrow>
          (case g of
             GCheck \<Rightarrow> Some (s\<lparr>pc := GetExternal qi (get_check True s)\<rparr>)
           | GNew \<Rightarrow> Some ((get_new True alloc s)\<lparr>pc := GetExternal qi GReturn\<rparr>)
           | GReturn \<Rightarrow> Some (s\<lparr>pc := (case inst_external s of None \<Rightarrow> Exited | Some q \<Rightarrow> Idle qi q)\<rparr>))
      | _ \<Rightarrow> None)"

text \<open>Both look-ups, when no other thread runs meanwhile.\<close>

definition Process_start :: "ptr \<Rightarrow> ptr \<Rightarrow> msg_state \<Rightarrow> msg_state" where
  "Process_start alloc1 alloc2 s =
     (let (qi, s) = getInstance False alloc1 s in
      case qi of
        None \<Rightarrow> s\<lparr>pc := Exited\<rparr>
      | Some i \<Rightarrow>
          (let (qe, s) = getInstance True alloc2 s in
           case qe of None \<Rightarrow> s\<lparr>pc := Exited\<rparr> | Some e \<Rightarrow> s\<lparr>pc := Idle i e\<rparr>))"

text \<open>
  One turn of the loop of \<open>Process\<close> up to the release of the mutex: take an item from the
  internal queue, or from the external queue when the internal one is empty, or wait.
\<close>

record take_env =
  take_lock_ok :: bool
  wait_ok :: bool
  take_unlock_ok :: bool

definition dequeue_from :: "nat \<Rightarrow> msg_state \<Rightarrow> (ptr \<times> msg_state) option" where
  "dequeue_from p s =
     (case queues s p of
        None \<Rightarrow> None
      | Some q \<Rightarrow>
          (case dequeue (msgs s) q of
             None \<Rightarrow> None
           | Some (it, q') \<Rightarrow> Some (it, s\<lparr>queues := (queues s)(p := Some q')\<rparr>)))"

definition take_locked :: "take_env \<Rightarrow> nat \<Rightarrow> nat \<Rightarrow> msg_state \<Rightarrow> msg_state option" where
  "take_locked env qi qe s =
     (case dequeue_from qi s of
        None \<Rightarrow> None
      | Some (it, s) \<Rightarrow>
          (case (case it of None \<Rightarrow> dequeue_from qe s | Some a \<Rightarrow> Some (Some a, s)) of
             None \<Rightarrow> None
           | Some (it, s) \<Rightarrow>
               (case it of
                  None \<Rightarrow> Some (s\<lparr>pc := if wait_ok env \<and> take_unlock_ok env then Idle qi qe else Exited\<rparr>)
                | Some a \<Rightarrow> Some (s\<lparr>pc := if take_unlock_ok env then Got qi qe a else Exited\<rparr>))))"

definition Process_take :: "take_env \<Rightarrow> msg_state \<Rightarrow> msg_state option" where
  "Process_take env s =
     (case pc s of
        Idle qi qe \<Rightarrow> if \<not> take_lock_ok env then Some (s\<lparr>pc := Exited\<rparr>) else take_locked env qi qe s
      | _ \<Rightarrow> None)"

text \<open>The callback of the item (here: which event data it is called with) and \<open>delete item\<close>.\<close>

definition Process_call :: "msg_state \<Rightarrow> (callback \<times> ipacm_cmd_q_data \<times> msg_state) option" where
  "Process_call s =
     (case pc s of
        Got qi qe a \<Rightarrow>
          (case msgs s a of
             None \<Rightarrow> None
           | Some m \<Rightarrow>
               (case callback_ptr (val m) of
                  None \<Rightarrow> None
                | Some cb \<Rightarrow> Some (cb, data (val m), s\<lparr>pc := Called qi qe a\<rparr>)))
      | _ \<Rightarrow> None)"

definition Process_delete :: "msg_state \<Rightarrow> msg_state option" where
  "Process_delete s =
     (case pc s of
        Called qi qe a \<Rightarrow>
          (case msgs s a of
             None \<Rightarrow> None
           | Some m \<Rightarrow> Some (s\<lparr>msgs := (msgs s)(a := None), pc := Idle qi qe\<rparr>))
      | _ \<Rightarrow> None)"

section \<open>The interleaved system\<close>

text \<open>
  Any thread \<open>t\<close> may call \<open>PostEvt\<close> at any time and go on with its call step by step; the thread of
  \<open>Process\<close> goes through its look-ups and its loop. The mutex makes the critical sections atomic.
  Allocation returns an address that is not allocated.
\<close>

datatype msg_op =
    PostCall nat ipacm_cmd_q_data
  | PostGet nat ptr
  | PostEnqueue nat post_env
  | ProcGet ptr
  | Take take_env
  | Call
  | Delete

datatype msg_out = Posted int | Dispatched ipacm_cmd_q_data

fun msg_exec :: "msg_op \<Rightarrow> msg_state \<Rightarrow> (msg_state, msg_out) outcome" where
  "msg_exec (PostCall t d) s = Some ([], s\<lparr>posting := (posting s)(t := Some (Getting GCheck d))\<rparr>)"
| "msg_exec (PostGet t alloc) s =
     (case posting s t of
        Some (Getting g d) \<Rightarrow> (case PostEvt_get t alloc g d s of (rs, s) \<Rightarrow> Some (map Posted rs, s))
      | _ \<Rightarrow> None)"
| "msg_exec (PostEnqueue t env) s =
     (case posting s t of
        Some (Ready q d) \<Rightarrow>
          (case PostEvt_enqueue env d q (s\<lparr>posting := (posting s)(t := None)\<rparr>) of
             None \<Rightarrow> None
           | Some (r, s) \<Rightarrow> Some ([Posted r], s))
      | _ \<Rightarrow> None)"
| "msg_exec (ProcGet alloc) s = (case Process_get alloc s of None \<Rightarrow> None | Some t \<Rightarrow> Some ([], t))"
| "msg_exec (Take env) s = (case Process_take env s of None \<Rightarrow> None | Some t \<Rightarrow> Some ([], t))"
| "msg_exec Call s = (case Process_call s of None \<Rightarrow> None | Some (cb, d, t) \<Rightarrow> Some ([Dispatched d], t))"
| "msg_exec Delete s = (case Process_delete s of None \<Rightarrow> None | Some t \<Rightarrow> Some ([], t))"

fun msg_adm :: "msg_op \<Rightarrow> msg_state \<Rightarrow> bool" where
  "msg_adm (PostCall t d) s = (posting s t = None)"
| "msg_adm (PostGet t alloc) s =
     ((case posting s t of Some (Getting g d) \<Rightarrow> True | _ \<Rightarrow> False) \<and> (case alloc of None \<Rightarrow> True | Some q \<Rightarrow> queues s q = None))"
| "msg_adm (PostEnqueue t env) s =
     ((case posting s t of Some (Ready q d) \<Rightarrow> True | _ \<Rightarrow> False) \<and> (case item env of None \<Rightarrow> True | Some a \<Rightarrow> msgs s a = None))"
| "msg_adm (ProcGet alloc) s =
     ((case pc s of GetInternal g \<Rightarrow> True | GetExternal q g \<Rightarrow> True | _ \<Rightarrow> False) \<and> (case alloc of None \<Rightarrow> True | Some q \<Rightarrow> queues s q = None))"
| "msg_adm (Take env) s = (case pc s of Idle qi qe \<Rightarrow> True | _ \<Rightarrow> False)"
| "msg_adm Call s = (case pc s of Got qi qe a \<Rightarrow> True | _ \<Rightarrow> False)"
| "msg_adm Delete s = (case pc s of Called qi qe a \<Rightarrow> True | _ \<Rightarrow> False)"

text \<open>
  The look-up a step belongs to, and the first use of a queue without a race: a thread that assigns a queue
  pointer finds it still \<open>NULL\<close>, and its \<open>new\<close> succeeds.
\<close>

fun getting :: "msg_op \<Rightarrow> msg_state \<Rightarrow> (bool \<times> get_pc \<times> ptr) option" where
  "getting (PostGet t alloc) s = (case posting s t of Some (Getting g d) \<Rightarrow> Some (post_ext d, g, alloc) | _ \<Rightarrow> None)"
| "getting (ProcGet alloc) s =
     (case pc s of GetInternal g \<Rightarrow> Some (False, g, alloc) | GetExternal q g \<Rightarrow> Some (True, g, alloc) | _ \<Rightarrow> None)"
| "getting _ s = None"

definition first_use_alone :: "msg_op \<Rightarrow> msg_state \<Rightarrow> bool" where
  "first_use_alone x s = (case getting x s of Some (ext, GNew, alloc) \<Rightarrow> inst ext s = None \<and> alloc \<noteq> None | _ \<Rightarrow> True)"

definition msg_adm_alone :: "msg_op \<Rightarrow> msg_state \<Rightarrow> bool" where
  "msg_adm_alone x s \<longleftrightarrow> msg_adm x s \<and> first_use_alone x s"

section \<open>The specification: two lists\<close>

datatype spec_pc = SIdle | SGot ipacm_cmd_q_data | SCalled | SExited

text \<open>The internal (\<open>False\<close>) and the external list, and the events whose posts are under way.\<close>

record msg_spec =
  waiting :: "bool \<Rightarrow> ipacm_cmd_q_data list"
  calls :: "nat \<rightharpoonup> ipacm_cmd_q_data"
  spc :: spec_pc

definition spec_init :: msg_spec where
  "spec_init = \<lparr>waiting = (\<lambda>_. []), calls = Map.empty, spc = SIdle\<rparr>"

text \<open>
  An event is accepted when the allocation of its message and the lock succeed; it goes to the end of its
  list. A turn takes the first internal event, and an external one only when there is none.
\<close>

definition spec_post :: "post_env \<Rightarrow> ipacm_cmd_q_data \<Rightarrow> msg_spec \<Rightarrow> msg_out list \<times> msg_spec" where
  "spec_post env d a =
     (let ext = is_external (event d) in
      if item env \<noteq> None \<and> lock_ok env then
        ([Posted (if signal_ok env \<and> unlock_ok env then IPACM_SUCCESS else IPACM_FAILURE)],
         a\<lparr>waiting := (waiting a)(ext := waiting a ext @ [d])\<rparr>)
      else ([Posted IPACM_FAILURE], a))"

definition spec_take :: "take_env \<Rightarrow> msg_spec \<Rightarrow> msg_spec" where
  "spec_take env a =
     (if \<not> take_lock_ok env then a\<lparr>spc := SExited\<rparr>
      else
        (case waiting a False @ waiting a True of
           [] \<Rightarrow> a\<lparr>spc := if wait_ok env \<and> take_unlock_ok env then SIdle else SExited\<rparr>
         | d # _ \<Rightarrow>
             let ext = (waiting a False = []) in
             a\<lparr>waiting := (waiting a)(ext := tl (waiting a ext)), spc := if take_unlock_ok env then SGot d else SExited\<rparr>))"

fun spec_step :: "msg_op \<Rightarrow> msg_spec \<Rightarrow> msg_out list \<times> msg_spec" where
  "spec_step (PostCall t d) a = ([], a\<lparr>calls := (calls a)(t := Some d)\<rparr>)"
| "spec_step (PostEnqueue t env) a =
     (case calls a t of None \<Rightarrow> ([], a) | Some d \<Rightarrow> spec_post env d (a\<lparr>calls := (calls a)(t := None)\<rparr>))"
| "spec_step (Take env) a = ([], spec_take env a)"
| "spec_step Call a = (case spc a of SGot d \<Rightarrow> ([Dispatched d], a\<lparr>spc := SCalled\<rparr>) | _ \<Rightarrow> ([], a))"
| "spec_step Delete a = ([], a\<lparr>spc := SIdle\<rparr>)"
| "spec_step _ a = ([], a)"

end
