(* ===== verification/CmdQueue_Props.thy ===== *)
theory CmdQueue_Props
  imports CmdQueue
begin

text \<open>
  The message queues implement the two lists of the specification: the relation between
  states, one lemma per queue operation, the interpretation of the refinement contract, and
  what follows for every interleaving of posting threads with the processing thread in which the two
  queues are created without a race; and what the race of their first use does.
\<close>

section \<open>The refinement relation\<close>

definition cmd_of :: "ipacm_cmd_q_data \<Rightarrow> cmd_t" where
  "cmd_of d = \<lparr>callback_ptr = Some CB_ProcessEvt, data = d\<rparr>"

definition mq_rel :: "msg_heap \<Rightarrow> MessageQueue option \<Rightarrow> nat list \<Rightarrow> ipacm_cmd_q_data list \<Rightarrow> bool" where
  "mq_rel h qo as ds =
     (case qo of
        None \<Rightarrow> as = [] \<and> ds = []
      | Some q \<Rightarrow>
          chain h (Head q) as None \<and> (as \<noteq> [] \<longrightarrow> Tail q = Some (last as)) \<and> vals h as = map cmd_of ds)"

text \<open>The queue a class of events goes to, and the relation of both queues with \<open>waiting\<close>.\<close>

definition inst_q :: "bool \<Rightarrow> msg_state \<Rightarrow> MessageQueue option" where
  "inst_q ext s = Option.bind (inst ext s) (queues s)"

definition lists_rel :: "msg_state \<Rightarrow> msg_spec \<Rightarrow> (bool \<Rightarrow> nat list) \<Rightarrow> bool" where
  "lists_rel s a A \<longleftrightarrow>
     (\<forall>ext. mq_rel (msgs s) (inst_q ext s) (A ext) (waiting a ext)) \<and> set (A False) \<inter> set (A True) = {}"

definition members :: "(bool \<Rightarrow> nat list) \<Rightarrow> nat set" where
  "members A = set (A False) \<union> set (A True)"

text \<open>The message in hand is in no queue.\<close>

fun pc_rel :: "msg_heap \<Rightarrow> nat set \<Rightarrow> proc_pc \<Rightarrow> spec_pc \<Rightarrow> bool" where
  "pc_rel h S (GetInternal g) sp = (sp = SIdle)"
| "pc_rel h S (GetExternal qi g) sp = (sp = SIdle)"
| "pc_rel h S (Idle qi qe) sp = (sp = SIdle)"
| "pc_rel h S (Got qi qe a) sp = (a \<notin> S \<and> (\<exists>n d. h a = Some n \<and> val n = cmd_of d \<and> sp = SGot d))"
| "pc_rel h S (Called qi qe a) sp = (a \<notin> S \<and> h a \<noteq> None \<and> sp = SCalled)"
| "pc_rel h S Exited sp = (sp = SExited)"

text \<open>A pointer that is set points to a queue, and the two queues are different.\<close>

definition insts_ok :: "msg_state \<Rightarrow> bool" where
  "insts_ok s \<longleftrightarrow> (\<forall>ext q. inst ext s = Some q \<longrightarrow> queues s q \<noteq> None) \<and> (inst False s = inst True s \<longrightarrow> inst True s = None)"

text \<open>A thread that returns from a look-up, or holds its result, agrees with the pointer.\<close>

definition get_ok :: "bool \<Rightarrow> get_pc \<Rightarrow> msg_state \<Rightarrow> bool" where
  "get_ok ext g s \<longleftrightarrow> (g = GReturn \<longrightarrow> inst ext s \<noteq> None)"

fun thread_ok :: "msg_state \<Rightarrow> post_pc option \<Rightarrow> ipacm_cmd_q_data option \<Rightarrow> bool" where
  "thread_ok s None c = (c = None)"
| "thread_ok s (Some (Getting g d)) c = (c = Some d \<and> get_ok (post_ext d) g s)"
| "thread_ok s (Some (Ready q d)) c = (c = Some d \<and> inst (post_ext d) s = Some q)"

fun proc_ok :: "msg_state \<Rightarrow> proc_pc \<Rightarrow> bool" where
  "proc_ok s (GetInternal g) = get_ok False g s"
| "proc_ok s (GetExternal qi g) = (inst False s = Some qi \<and> get_ok True g s)"
| "proc_ok s (Idle qi qe) = (inst False s = Some qi \<and> inst True s = Some qe)"
| "proc_ok s (Got qi qe a) = (inst False s = Some qi \<and> inst True s = Some qe)"
| "proc_ok s (Called qi qe a) = (inst False s = Some qi \<and> inst True s = Some qe)"
| "proc_ok s Exited = True"

definition msg_rel_at :: "(bool \<Rightarrow> nat list) \<Rightarrow> msg_state \<Rightarrow> msg_spec \<Rightarrow> bool" where
  "msg_rel_at A s a \<longleftrightarrow>
     lists_rel s a A \<and> pc_rel (msgs s) (members A) (pc s) (spc a) \<and> insts_ok s \<and>
     (\<forall>t. thread_ok s (posting s t) (calls a t)) \<and> proc_ok s (pc s)"

definition msg_rel :: "msg_state \<Rightarrow> msg_spec \<Rightarrow> bool" where
  "msg_rel s a = (\<exists>A. msg_rel_at A s a)"

lemma msg_relI: "msg_rel_at A s a \<Longrightarrow> msg_rel s a"
  by (auto simp: msg_rel_def)

lemma post_ext_is_external: "post_ext d = is_external (event d)"
  by (simp add: post_ext_def is_external_def)

section \<open>Frame and queue operations\<close>

lemma chain_cong: "(\<And>x. x \<in> set as \<Longrightarrow> h x = h' x) \<Longrightarrow> chain h p as q = chain h' p as q"
  by (induction as arbitrary: p) auto

lemma vals_cong: "(\<And>x. x \<in> set as \<Longrightarrow> h x = h' x) \<Longrightarrow> vals h as = vals h' as"
  by (simp add: vals_def)

lemma mq_rel_frame: "(\<And>x. x \<in> set as \<Longrightarrow> h x = h' x) \<Longrightarrow> mq_rel h q as ds = mq_rel h' q as ds"
  unfolding mq_rel_def using chain_cong [of as h h'] vals_cong [of as h h'] by (auto split: option.splits)

lemma mq_rel_upd [simp]: "m \<notin> set as \<Longrightarrow> mq_rel (h(m := n)) q as ds = mq_rel h q as ds"
  by (rule mq_rel_frame) auto

lemma mq_rel_allocated: "mq_rel h q as ds \<Longrightarrow> x \<in> set as \<Longrightarrow> h x \<noteq> None"
  using chain_allocated by (fastforce simp: mq_rel_def split: option.splits)

lemma mq_rel_distinct: "mq_rel h q as ds \<Longrightarrow> distinct as"
  using chain_distinct by (auto simp: mq_rel_def split: option.splits)

lemma mq_rel_new [simp]: "mq_rel h (Some new_MessageQueue) as ds \<longleftrightarrow> as = [] \<and> ds = []"
  by (auto simp: mq_rel_def new_MessageQueue_def)

lemma mq_rel_None [simp]: "mq_rel h None as ds \<longleftrightarrow> as = [] \<and> ds = []"
  by (simp add: mq_rel_def)

text \<open>The item in hand is not in the queues, so what happens to them does not touch it.\<close>

lemma pc_rel_frame:
  assumes "pc_rel h S p sp" and "\<And>x. x \<notin> S \<Longrightarrow> h x \<noteq> None \<Longrightarrow> h' x = h x \<and> x \<notin> S'"
  shows "pc_rel h' S' p sp"
  using assms by (cases p) auto

lemma inst_simps [simp]:
  "inst ext (s\<lparr>msgs := h\<rparr>) = inst ext s" "inst ext (s\<lparr>queues := Q\<rparr>) = inst ext s"
  "inst ext (s\<lparr>posting := P\<rparr>) = inst ext s" "inst ext (s\<lparr>pc := c\<rparr>) = inst ext s"
  "inst True s = inst_external s" "inst False s = inst_internal s"
  by (simp_all add: inst_def)

text \<open>\<open>enqueue\<close> appends, and writes to no message outside the queue.\<close>

lemma enqueue_rel:
  assumes rel: "mq_rel h (Some q) as ds" and new: "h a = Some n" "nxt n = None" "val n = cmd_of d"
    and fresh: "a \<notin> set as"
  obtains h' q' where "enqueue a h q = Some (h', q')" and "mq_rel h' (Some q') (as @ [a]) (ds @ [d])"
    and "\<And>x. x \<notin> set as \<Longrightarrow> h' x = h x"
proof (cases as rule: rev_cases)
  case Nil
  with rel have "Head q = None" and "ds = []" by (auto simp: mq_rel_def)
  then have "enqueue a h q = Some (h, q\<lparr>Tail := Some a, Head := Some a\<rparr>)" by (simp add: enqueue_def)
  moreover have "mq_rel h (Some (q\<lparr>Tail := Some a, Head := Some a\<rparr>)) (as @ [a]) (ds @ [d])"
    using Nil new \<open>ds = []\<close> by (simp add: mq_rel_def)
  ultimately show ?thesis using that by blast
next
  case (snoc bs b)
  have c: "chain h (Head q) (bs @ [b]) None" and t: "Tail q = Some b" and v: "vals h as = map cmd_of ds"
    using rel snoc by (auto simp: mq_rel_def)
  obtain m where m: "h b = Some m" using chain_allocated [OF c, of b] by auto
  let ?h = "h(b := Some (m\<lparr>nxt := Some a\<rparr>))"
  obtain hd where "Head q = Some hd" using c by (cases bs) auto
  then have e: "enqueue a h q = Some (?h, q\<lparr>Tail := Some a\<rparr>)"
    using t m by (simp add: enqueue_def setnext_def)
  have "chain ?h (Head q) (bs @ [b, a]) None" using c m new(1,2) fresh snoc by (intro chain_snoc) auto
  moreover have "vals ?h (as @ [a]) = map cmd_of (ds @ [d])"
  proof -
    have "a \<noteq> b" using fresh snoc by auto
    then show ?thesis using vals_relink [where h = h and b = b and m = m] m v new by simp
  qed
  ultimately have "mq_rel ?h (Some (q\<lparr>Tail := Some a\<rparr>)) (as @ [a]) (ds @ [d])"
    using snoc by (simp add: mq_rel_def)
  moreover have "\<And>x. x \<notin> set as \<Longrightarrow> ?h x = h x" using snoc by auto
  ultimately show ?thesis using that e by blast
qed

lemma dequeue_empty: "mq_rel h (Some q) [] ds \<Longrightarrow> dequeue h q = Some (None, q) \<and> ds = []"
  by (simp add: mq_rel_def dequeue_def)

lemma dequeue_rel:
  assumes "mq_rel h (Some q) (a # as) ds"
  obtains q' n d ds' where "dequeue h q = Some (Some a, q')" and "ds = d # ds'"
    and "mq_rel h (Some q') as ds'" and "h a = Some n" and "val n = cmd_of d"
proof -
  from assms obtain n d ds' where n: "Head q = Some a" "h a = Some n" "chain h (nxt n) as None"
    and d: "ds = d # ds'" "val n = cmd_of d" "vals h as = map cmd_of ds'"
    by (auto simp: mq_rel_def)
  have "dequeue h q = Some (Some a, q\<lparr>Head := nxt n\<rparr>)" using n by (simp add: dequeue_def getnext_def)
  moreover have "mq_rel h (Some (q\<lparr>Head := nxt n\<rparr>)) as ds'" using assms n d by (simp add: mq_rel_def)
  ultimately show ?thesis using that n d by blast
qed

lemma mq_rel_ds_Nil: "mq_rel h q as ds \<Longrightarrow> as = [] \<longleftrightarrow> ds = []"
  by (auto simp: mq_rel_def vals_def split: option.splits)

section \<open>The steps of the look-ups\<close>

text \<open>Pointers only go from \<open>NULL\<close> to a queue; what the threads know stays true then.\<close>

definition inst_le :: "msg_state \<Rightarrow> msg_state \<Rightarrow> bool" where
  "inst_le s s' \<longleftrightarrow> (\<forall>ext q. inst ext s = Some q \<longrightarrow> inst ext s' = Some q)"

lemma get_ok_mono: "get_ok ext g s \<Longrightarrow> inst_le s s' \<Longrightarrow> get_ok ext g s'"
  by (cases "inst ext s") (auto simp: get_ok_def inst_le_def)

lemma thread_ok_mono: "thread_ok s p c \<Longrightarrow> inst_le s s' \<Longrightarrow> thread_ok s' p c"
  by (induction s p c rule: thread_ok.induct) (auto simp: get_ok_mono, auto simp: inst_le_def)

lemma proc_ok_mono: "proc_ok s p \<Longrightarrow> inst_le s s' \<Longrightarrow> proc_ok s' p"
  using get_ok_mono [of _ _ s s'] by (cases p) (simp_all add: inst_le_def del: inst_simps(5,6))

lemma inst_le_same: "(\<And>ext. inst ext s' = inst ext s) \<Longrightarrow> inst_le s s'"
  by (simp add: inst_le_def)

lemma inst_get_new: "inst e (get_new ext alloc s) = (if e = ext then alloc else inst e s)"
  by (cases e; cases ext) (auto simp: get_new_def Let_def inst_def split: option.splits)

lemma get_new_sel [simp]:
  "msgs (get_new ext alloc s) = msgs s" "posting (get_new ext alloc s) = posting s" "pc (get_new ext alloc s) = pc s"
  "queues (get_new ext (Some q) s) = (queues s)(q := Some new_MessageQueue)"
  by (auto simp: get_new_def Let_def split: option.splits)

lemma insts_ok_fresh: "insts_ok s \<Longrightarrow> queues s q = None \<Longrightarrow> inst ext s \<noteq> Some q"
  unfolding insts_ok_def by (metis)

lemma get_new_rel:
  assumes rel: "msg_rel_at A s a" and none: "inst ext s = None" and new: "queues s q = None"
  shows "msg_rel_at A (get_new ext (Some q) s) a" and "inst ext (get_new ext (Some q) s) = Some q"
proof -
  let ?s = "get_new ext (Some q) s"
  have ok: "insts_ok s" using rel by (simp add: msg_rel_at_def)
  have other: "inst e s \<noteq> Some q" for e using insts_ok_fresh [OF ok new] .
  have le: "inst_le s ?s" using none by (auto simp: inst_le_def inst_get_new)
  have q: "inst_q e ?s = (if e = ext then Some new_MessageQueue else inst_q e s)" for e
    using other [of e] by (cases "inst e s") (auto simp: inst_q_def inst_get_new)
  have "inst_q ext s = None" using none by (simp add: inst_q_def)
  moreover have "\<forall>e. mq_rel (msgs s) (inst_q e s) (A e) (waiting a e)" "set (A False) \<inter> set (A True) = {}"
    using rel by (simp_all add: msg_rel_at_def lists_rel_def)
  ultimately have "lists_rel ?s a A" by (auto simp: lists_rel_def q) (metis mq_rel_None)+
  moreover have "insts_ok ?s"
    using ok other [of True] other [of False] none
    by (cases ext) (auto simp: insts_ok_def inst_get_new simp del: inst_simps(5,6))
  moreover have "thread_ok ?s (posting s t) (calls a t)" for t
    using rel thread_ok_mono [OF _ le] by (simp add: msg_rel_at_def)
  moreover have "proc_ok ?s (pc s)" using rel proc_ok_mono [OF _ le] by (simp add: msg_rel_at_def)
  ultimately show "msg_rel_at A ?s a" using rel by (simp add: msg_rel_at_def)
  show "inst ext ?s = Some q" by (simp add: inst_get_new)
qed

lemma inst_q_simps [simp]:
  "inst_q ext (s\<lparr>msgs := h\<rparr>) = inst_q ext s" "inst_q ext (s\<lparr>posting := P\<rparr>) = inst_q ext s"
  "inst_q ext (s\<lparr>pc := c\<rparr>) = inst_q ext s"
  by (simp_all add: inst_q_def)

lemma thread_ok_same: "(\<And>ext. inst ext s' = inst ext s) \<Longrightarrow> thread_ok s' p c = thread_ok s p c"
  using thread_ok_mono [of s p c s'] thread_ok_mono [of s' p c s] by (auto simp: inst_le_def)

lemma proc_ok_same: "(\<And>ext. inst ext s' = inst ext s) \<Longrightarrow> proc_ok s' p = proc_ok s p"
  using proc_ok_mono [of s p s'] proc_ok_mono [of s' p s] by (auto simp: inst_le_def)

lemma insts_ok_same: "(\<And>ext. inst ext s' = inst ext s) \<Longrightarrow> queues s' = queues s \<Longrightarrow> insts_ok s' = insts_ok s"
  by (simp add: insts_ok_def)

lemma posting_frame [simp]:
  "thread_ok (s\<lparr>posting := P\<rparr>) p c = thread_ok s p c" "proc_ok (s\<lparr>posting := P\<rparr>) pr = proc_ok s pr"
  "insts_ok (s\<lparr>posting := P\<rparr>) = insts_ok s"
  by (rule thread_ok_same proc_ok_same insts_ok_same; simp)+

lemma pc_frame [simp]:
  "thread_ok (s\<lparr>pc := x\<rparr>) p c = thread_ok s p c" "proc_ok (s\<lparr>pc := x\<rparr>) pr = proc_ok s pr"
  "insts_ok (s\<lparr>pc := x\<rparr>) = insts_ok s"
  by (rule thread_ok_same proc_ok_same insts_ok_same; simp)+

text \<open>A step that only moves one thread.\<close>

lemma move_thread:
  assumes "msg_rel_at A s a" and "thread_ok s p c"
  shows "msg_rel_at A (s\<lparr>posting := (posting s)(t := p)\<rparr>) (a\<lparr>calls := (calls a)(t := c)\<rparr>)"
  using assms by (simp add: msg_rel_at_def lists_rel_def)

lemma move_proc:
  assumes "msg_rel_at A s a" and "proc_ok s p" and "pc_rel (msgs s) (members A) p sp"
  shows "msg_rel_at A (s\<lparr>pc := p\<rparr>) (a\<lparr>spc := sp\<rparr>)"
  using assms by (simp add: msg_rel_at_def lists_rel_def)

lemma move_get_thread:
  assumes "msg_rel_at A s a" and "thread_ok s p (calls a t)"
  shows "msg_rel_at A (s\<lparr>posting := (posting s)(t := p)\<rparr>) a"
  using move_thread [OF assms, of t] by simp

lemma move_get_proc:
  assumes "msg_rel_at A s a" and "proc_ok s p" and "pc_rel (msgs s) (members A) p (spc a)"
  shows "msg_rel_at A (s\<lparr>pc := p\<rparr>) a"
  using move_proc [OF assms] by simp

lemma get_check_ok: "get_ok ext (get_check ext s) s"
  by (simp add: get_ok_def get_check_def)

lemma get_new_ok: "get_ok ext GReturn (get_new ext (Some q) s)"
  by (simp add: get_ok_def inst_get_new)

section \<open>The critical section of a post\<close>

lemma lists_rel_allocated: "lists_rel s a A \<Longrightarrow> msgs s m = None \<Longrightarrow> m \<notin> set (A ext)"
  using mq_rel_allocated [of "msgs s" "inst_q ext s" "A ext" "waiting a ext" m] by (auto simp: lists_rel_def)

lemma lists_rel_mq: "lists_rel s a A \<Longrightarrow> mq_rel (msgs s) (inst_q ext s) (A ext) (waiting a ext)"
  by (simp add: lists_rel_def)

lemma insts_ok_queue: "insts_ok s \<Longrightarrow> inst ext s = Some q \<Longrightarrow> \<exists>x. queues s q = Some x"
  unfolding insts_ok_def by blast

lemma members_iff: "x \<in> members A \<longleftrightarrow> (\<exists>ext. x \<in> set (A ext))"
  by (auto simp: members_def) (metis (full_types))

lemma alloc_message_rel:
  assumes rel: "msg_rel_at A s a" and m: "msgs s m = None"
  shows "msg_rel_at A (s\<lparr>msgs := (msgs s)(m := n)\<rparr>) a"
proof -
  let ?s = "s\<lparr>msgs := (msgs s)(m := n)\<rparr>"
  have fresh: "m \<notin> set (A ext)" for ext
    using rel lists_rel_allocated [of s a A m ext] m by (simp add: msg_rel_at_def)
  then have "lists_rel ?s a A" using rel by (simp add: msg_rel_at_def lists_rel_def)
  moreover have "pc_rel (msgs ?s) (members A) (pc s) (spc a)"
    by (rule pc_rel_frame [of "msgs s" "members A"]) (use rel m in \<open>auto simp: msg_rel_at_def\<close>)
  moreover have "thread_ok ?s p c = thread_ok s p c" "proc_ok ?s pr = proc_ok s pr" "insts_ok ?s = insts_ok s" for p c pr
    by (rule thread_ok_same proc_ok_same insts_ok_same; simp)+
  ultimately show ?thesis using rel by (simp add: msg_rel_at_def)
qed

lemma inst_q_other:
  assumes "insts_ok s" and "inst ext s = Some qa" and "e \<noteq> ext"
  shows "inst_q e (s\<lparr>msgs := h, queues := (queues s)(qa := q)\<rparr>) = inst_q e s"
proof -
  have "inst e s \<noteq> Some qa" using assms by (cases e; cases ext) (auto simp: insts_ok_def)
  then show ?thesis by (cases "inst e s") (auto simp: inst_q_def)
qed

text \<open>A queue object is replaced, the members of its list change, and so may the store.\<close>

lemma store_queue_rel:
  assumes rel: "msg_rel_at A s a" and qa: "inst ext s = Some qa"
    and q: "mq_rel h (Some q) as ds"
    and frame: "\<And>x. x \<notin> set (A ext) \<Longrightarrow> msgs s x \<noteq> None \<Longrightarrow> h x = msgs s x \<and> x \<notin> set as"
  shows "msg_rel_at (A(ext := as)) (s\<lparr>msgs := h, queues := (queues s)(qa := Some q)\<rparr>) (a\<lparr>waiting := (waiting a)(ext := ds)\<rparr>)"
proof -
  let ?s = "s\<lparr>msgs := h, queues := (queues s)(qa := Some q)\<rparr>"
  have ok: "insts_ok s" and L: "\<And>e. mq_rel (msgs s) (inst_q e s) (A e) (waiting a e)"
    and dj: "set (A False) \<inter> set (A True) = {}"
    using rel by (simp_all add: msg_rel_at_def lists_rel_def)
  have other: "h x = msgs s x" "x \<notin> set as" if "e \<noteq> ext" "x \<in> set (A e)" for e x
  proof -
    have "x \<notin> set (A ext)" using that dj by (cases e; cases ext) auto
    moreover have "msgs s x \<noteq> None" using mq_rel_allocated [OF L that(2)] .
    ultimately show "h x = msgs s x" "x \<notin> set as" using frame by simp_all
  qed
  have "mq_rel h (inst_q e ?s) ((A(ext := as)) e) (((waiting a)(ext := ds)) e)" for e
  proof (cases "e = ext")
    case True
    then show ?thesis using q qa by (simp add: inst_q_def)
  next
    case False
    with L [of e] mq_rel_frame [of "A e" h "msgs s"] other(1) [OF False] inst_q_other [OF ok qa False]
    show ?thesis by simp
  qed
  moreover have "set ((A(ext := as)) False) \<inter> set ((A(ext := as)) True) = {}"
    using other(2) [of "\<not> ext"] by (cases ext) auto
  ultimately have "lists_rel ?s (a\<lparr>waiting := (waiting a)(ext := ds)\<rparr>) (A(ext := as))"
    by (simp add: lists_rel_def)
  moreover have "pc_rel h (members (A(ext := as))) (pc s) (spc a)"
    by (rule pc_rel_frame [of "msgs s" "members A"])
      (use rel frame in \<open>auto simp: msg_rel_at_def members_iff\<close>)
  moreover have "thread_ok ?s p c = thread_ok s p c" "proc_ok ?s pr = proc_ok s pr" for p c pr
    by (rule thread_ok_same proc_ok_same; simp)+
  moreover have "insts_ok ?s" using ok by (auto simp: insts_ok_def)
  ultimately show ?thesis using rel by (simp add: msg_rel_at_def)
qed

lemma enqueue_step:
  assumes rel: "msg_rel_at A s a" and qa: "inst ext s = Some qa" and q: "queues s qa = Some q"
    and m: "msgs s m = None" and n: "nxt n = None" "val n = cmd_of d"
  obtains h q' where "enqueue m ((msgs s)(m := Some n)) q = Some (h, q')"
    and "msg_rel (s\<lparr>msgs := h, queues := (queues s)(qa := Some q')\<rparr>) (a\<lparr>waiting := (waiting a)(ext := waiting a ext @ [d])\<rparr>)"
proof -
  let ?h = "(msgs s)(m := Some n)"
  have L: "lists_rel s a A" using rel by (simp add: msg_rel_at_def)
  have fresh: "m \<notin> set (A ext)" using lists_rel_allocated [OF L m] .
  have "inst_q ext s = Some q" using qa q by (simp add: inst_q_def)
  then have "mq_rel (msgs s) (Some q) (A ext) (waiting a ext)" using lists_rel_mq [OF L, of ext] by simp
  then have "mq_rel ?h (Some q) (A ext) (waiting a ext)" using fresh by simp
  then obtain h q' where e: "enqueue m ?h q = Some (h, q')" "mq_rel h (Some q') (A ext @ [m]) (waiting a ext @ [d])"
    and f: "\<And>x. x \<notin> set (A ext) \<Longrightarrow> h x = ?h x"
    by (rule enqueue_rel [where n = n and a = m]) (use n fresh in auto)
  have "msg_rel_at (A(ext := A ext @ [m])) (s\<lparr>msgs := h, queues := (queues s)(qa := Some q')\<rparr>)
      (a\<lparr>waiting := (waiting a)(ext := waiting a ext @ [d])\<rparr>)"
    by (rule store_queue_rel [OF rel qa e(2)]) (use f m in auto)
  with e(1) that show ?thesis by (blast intro: msg_relI)
qed

lemma post_enqueue_step:
  assumes rel: "msg_rel_at A s a" and qa: "inst (post_ext d) s = Some qa"
    and fresh: "\<And>m. item env = Some m \<Longrightarrow> msgs s m = None"
  shows "\<exists>r t b. PostEvt_enqueue env d qa s = Some (r, t) \<and> spec_post env d a = ([Posted r], b) \<and> msg_rel t b"
proof -
  obtain q where q: "queues s qa = Some q" using rel qa insts_ok_queue [of s "post_ext d" qa] by (auto simp: msg_rel_at_def)
  show ?thesis
  proof (cases "item env")
    case None
    then show ?thesis using rel by (auto simp: PostEvt_enqueue_def spec_post_def intro: msg_relI)
  next
    case (Some m)
    then have m: "msgs s m = None" by (rule fresh)
    show ?thesis
    proof (cases "lock_ok env")
      case False
      with Some alloc_message_rel [OF rel m] show ?thesis
        by (auto simp: PostEvt_enqueue_def spec_post_def Let_def intro: msg_relI)
    next
      case True
      from enqueue_step [OF rel qa q m, of "\<lparr>val = cmd_of d, nxt = None\<rparr>" d]
      obtain h q' where e: "enqueue m ((msgs s)(m := Some \<lparr>val = cmd_of d, nxt = None\<rparr>)) q = Some (h, q')"
        and r: "msg_rel (s\<lparr>msgs := h, queues := (queues s)(qa := Some q')\<rparr>)
           (a\<lparr>waiting := (waiting a)(post_ext d := waiting a (post_ext d) @ [d])\<rparr>)"
        by auto
      with Some True q e show ?thesis
        by (auto simp: PostEvt_enqueue_def spec_post_def Let_def new_Message_def post_ext_is_external cmd_of_def)
    qed
  qed
qed

section \<open>The turns of \<open>Process\<close>\<close>

lemma dequeue_from_empty:
  assumes rel: "msg_rel_at A s a" and qa: "inst ext s = Some qa" and nil: "A ext = []"
  shows "dequeue_from qa s = Some (None, s) \<and> waiting a ext = []"
proof -
  have L: "lists_rel s a A" using rel by (simp add: msg_rel_at_def)
  obtain q where q: "queues s qa = Some q" using rel qa insts_ok_queue [of s ext qa] by (auto simp: msg_rel_at_def)
  then have "mq_rel (msgs s) (Some q) [] (waiting a ext)"
    using lists_rel_mq [OF L, of ext] qa nil by (simp add: inst_q_def)
  from dequeue_empty [OF this] q show ?thesis by (simp add: dequeue_from_def fun_upd_idem)
qed

lemma dequeue_from_Cons:
  assumes rel: "msg_rel_at A s a" and qa: "inst ext s = Some qa" and m: "A ext = m # as"
  obtains q d ds n where "dequeue_from qa s = Some (Some m, s\<lparr>queues := (queues s)(qa := Some q)\<rparr>)"
    and "waiting a ext = d # ds" and "msgs s m = Some n" and "val n = cmd_of d"
    and "msg_rel_at (A(ext := as)) (s\<lparr>queues := (queues s)(qa := Some q)\<rparr>) (a\<lparr>waiting := (waiting a)(ext := ds)\<rparr>)"
    and "m \<notin> members (A(ext := as))"
proof -
  have L: "lists_rel s a A" using rel by (simp add: msg_rel_at_def)
  obtain q where q: "queues s qa = Some q" using rel qa insts_ok_queue [of s ext qa] by (auto simp: msg_rel_at_def)
  then have mq: "mq_rel (msgs s) (Some q) (m # as) (waiting a ext)"
    using lists_rel_mq [OF L, of ext] qa m by (simp add: inst_q_def)
  obtain q' n d ds where de: "dequeue (msgs s) q = Some (Some m, q')" "waiting a ext = d # ds"
    "mq_rel (msgs s) (Some q') as ds" "msgs s m = Some n" "val n = cmd_of d"
    by (rule dequeue_rel [OF mq])
  have "msg_rel_at (A(ext := as)) (s\<lparr>msgs := msgs s, queues := (queues s)(qa := Some q')\<rparr>) (a\<lparr>waiting := (waiting a)(ext := ds)\<rparr>)"
    by (rule store_queue_rel [OF rel qa de(3)]) (use m in auto)
  then have "msg_rel_at (A(ext := as)) (s\<lparr>queues := (queues s)(qa := Some q')\<rparr>) (a\<lparr>waiting := (waiting a)(ext := ds)\<rparr>)"
    by (cases s) simp
  moreover have "m \<notin> members (A(ext := as))"
    using mq_rel_distinct [OF mq] L m by (cases ext) (auto simp: members_def lists_rel_def)
  moreover have "dequeue_from qa s = Some (Some m, s\<lparr>queues := (queues s)(qa := Some q')\<rparr>)"
    using de(1) q by (simp add: dequeue_from_def)
  ultimately show ?thesis using that de(2,4,5) by blast
qed

lemma hold_item:
  assumes "msg_rel_at A s a" and "proc_ok s (Idle qi qe)" and "m \<notin> members A" and "msgs s m = Some n" and "val n = cmd_of d"
  shows "msg_rel (s\<lparr>pc := if ok then Got qi qe m else Exited\<rparr>) (a\<lparr>spc := if ok then SGot d else SExited\<rparr>)"
  using assms by (intro msg_relI [of A] move_proc) auto

lemma take_locked_rel:
  assumes rel: "msg_rel_at A s a" and pc: "pc s = Idle qi qe" and lock: "take_lock_ok env"
  shows "\<exists>t. take_locked env qi qe s = Some t \<and> msg_rel t (spec_take env a)"
proof -
  have qi: "inst False s = Some qi" and qe: "inst True s = Some qe" and ok: "proc_ok s (Idle qi qe)"
    using rel pc by (auto simp: msg_rel_at_def)
  show ?thesis
  proof (cases "A False")
    case Nil
    note di = dequeue_from_empty [OF rel qi Nil]
    show ?thesis
    proof (cases "A True")
      case e: Nil
      let ?ok = "wait_ok env \<and> take_unlock_ok env"
      have "msg_rel (s\<lparr>pc := if ?ok then Idle qi qe else Exited\<rparr>) (a\<lparr>spc := if ?ok then SIdle else SExited\<rparr>)"
        using rel ok by (intro msg_relI [of A] move_proc) auto
      with di dequeue_from_empty [OF rel qe e] lock show ?thesis by (simp add: take_locked_def spec_take_def)
    next
      case (Cons m as)
      obtain q d ds n where de: "dequeue_from qe s = Some (Some m, s\<lparr>queues := (queues s)(qe := Some q)\<rparr>)"
        "waiting a True = d # ds" "msgs s m = Some n" "val n = cmd_of d"
        "msg_rel_at (A(True := as)) (s\<lparr>queues := (queues s)(qe := Some q)\<rparr>) (a\<lparr>waiting := (waiting a)(True := ds)\<rparr>)"
        "m \<notin> members (A(True := as))"
        by (rule dequeue_from_Cons [OF rel qe Cons])
      from hold_item [OF de(5) _ de(6), of qi qe n d "take_unlock_ok env"] de(3,4) ok
      have "msg_rel (s\<lparr>queues := (queues s)(qe := Some q), pc := if take_unlock_ok env then Got qi qe m else Exited\<rparr>)
        (a\<lparr>waiting := (waiting a)(True := ds), spc := if take_unlock_ok env then SGot d else SExited\<rparr>)" by simp
      with di de(1,2) lock show ?thesis by (simp add: take_locked_def spec_take_def Let_def)
    qed
  next
    case (Cons m as)
    obtain q d ds n where di: "dequeue_from qi s = Some (Some m, s\<lparr>queues := (queues s)(qi := Some q)\<rparr>)"
      "waiting a False = d # ds" "msgs s m = Some n" "val n = cmd_of d"
      "msg_rel_at (A(False := as)) (s\<lparr>queues := (queues s)(qi := Some q)\<rparr>) (a\<lparr>waiting := (waiting a)(False := ds)\<rparr>)"
      "m \<notin> members (A(False := as))"
      by (rule dequeue_from_Cons [OF rel qi Cons])
    from hold_item [OF di(5) _ di(6), of qi qe n d "take_unlock_ok env"] di(3,4) ok
    have "msg_rel (s\<lparr>queues := (queues s)(qi := Some q), pc := if take_unlock_ok env then Got qi qe m else Exited\<rparr>)
      (a\<lparr>waiting := (waiting a)(False := ds), spc := if take_unlock_ok env then SGot d else SExited\<rparr>)" by simp
    with di(1,2) lock show ?thesis by (simp add: take_locked_def spec_take_def Let_def)
  qed
qed

lemma take_simulates:
  assumes rel: "msg_rel_at A s a" and pc: "pc s = Idle qi qe"
  shows "\<exists>t. Process_take env s = Some t \<and> msg_rel t (spec_take env a)"
proof (cases "take_lock_ok env")
  case True
  with take_locked_rel [OF rel pc] pc show ?thesis by (simp add: Process_take_def)
next
  case False
  have "msg_rel (s\<lparr>pc := Exited\<rparr>) (a\<lparr>spc := SExited\<rparr>)"
    using rel by (intro msg_relI [of A] move_proc) auto
  with False pc show ?thesis by (simp add: Process_take_def spec_take_def)
qed

lemma call_simulates:
  assumes rel: "msg_rel_at A s a" and pc: "pc s = Got qi qe m"
  shows "\<exists>d t. Process_call s = Some (CB_ProcessEvt, d, t) \<and> spc a = SGot d \<and> msg_rel t (a\<lparr>spc := SCalled\<rparr>)"
proof -
  obtain n d where n: "m \<notin> members A" "msgs s m = Some n" "val n = cmd_of d" "spc a = SGot d" and ok: "proc_ok s (Got qi qe m)"
    using rel pc by (auto simp: msg_rel_at_def)
  have "msg_rel (s\<lparr>pc := Called qi qe m\<rparr>) (a\<lparr>spc := SCalled\<rparr>)"
    using n ok by (intro msg_relI [OF move_proc [OF rel]]) auto
  then show ?thesis using n pc by (simp add: Process_call_def cmd_of_def)
qed

lemma delete_simulates:
  assumes rel: "msg_rel_at A s a" and pc: "pc s = Called qi qe m"
  shows "\<exists>t. Process_delete s = Some t \<and> msg_rel t (a\<lparr>spc := SIdle\<rparr>)"
proof -
  let ?s = "s\<lparr>msgs := (msgs s)(m := None), pc := Idle qi qe\<rparr>"
  obtain n where n: "m \<notin> members A" "msgs s m = Some n" using rel pc by (auto simp: msg_rel_at_def)
  have same: "thread_ok ?s p c = thread_ok s p c" "proc_ok ?s pr = proc_ok s pr" "insts_ok ?s = insts_ok s" for p c pr
    by (rule thread_ok_same proc_ok_same insts_ok_same; simp)+
  have "lists_rel ?s (a\<lparr>spc := SIdle\<rparr>) A"
    using rel n(1) by (simp add: msg_rel_at_def lists_rel_def members_iff)
  then have "msg_rel_at A ?s (a\<lparr>spc := SIdle\<rparr>)"
    using rel pc unfolding msg_rel_at_def same by simp
  with n pc show ?thesis by (auto simp: Process_delete_def intro: msg_relI)
qed

section \<open>Every step refines the specification\<close>

lemma post_get_simulates:
  assumes rel: "msg_rel_at A s a" and t: "posting s t = Some (Getting g d)"
    and new: "g = GNew \<Longrightarrow> inst (post_ext d) s = None \<and> (\<exists>q. alloc = Some q \<and> queues s q = None)"
  shows "\<exists>s'. PostEvt_get t alloc g d s = ([], s') \<and> msg_rel s' a"
proof -
  have c: "calls a t = Some d" and g: "get_ok (post_ext d) g s"
    using rel t unfolding msg_rel_at_def by (metis thread_ok.simps(2))+
  show ?thesis
  proof (cases g)
    case GCheck
    have "msg_rel (s\<lparr>posting := (posting s)(t := Some (Getting (get_check (post_ext d) s) d))\<rparr>) a"
      by (rule msg_relI, rule move_get_thread [OF rel]) (simp add: c get_check_ok)
    with GCheck show ?thesis by (simp add: PostEvt_get_def)
  next
    case GNew
    then obtain q where q: "alloc = Some q" "queues s q = None" "inst (post_ext d) s = None" using new by blast
    have "msg_rel ((get_new (post_ext d) (Some q) s)\<lparr>posting := (posting (get_new (post_ext d) (Some q) s))(t := Some (Getting GReturn d))\<rparr>) a"
      by (rule msg_relI, rule move_get_thread [OF get_new_rel(1) [OF rel q(3,2)]]) (simp add: c get_new_ok)
    with GNew q show ?thesis by (simp add: PostEvt_get_def)
  next
    case GReturn
    then obtain q where q: "inst (post_ext d) s = Some q" using g by (auto simp: get_ok_def)
    have "msg_rel (s\<lparr>posting := (posting s)(t := Some (Ready q d))\<rparr>) a"
      by (rule msg_relI, rule move_get_thread [OF rel]) (simp add: c q)
    with GReturn q show ?thesis by (simp add: PostEvt_get_def)
  qed
qed

lemma get_internal_simulates:
  assumes rel: "msg_rel_at A s a" and pc: "pc s = GetInternal g"
    and new: "g = GNew \<Longrightarrow> inst False s = None \<and> (\<exists>q. alloc = Some q \<and> queues s q = None)"
  shows "\<exists>s'. Process_get alloc s = Some s' \<and> msg_rel s' a"
proof -
  have sp: "spc a = SIdle" and g: "get_ok False g s" using rel pc by (simp_all add: msg_rel_at_def)
  show ?thesis
  proof (cases g)
    case GCheck
    have "msg_rel (s\<lparr>pc := GetInternal (get_check False s)\<rparr>) a"
      by (rule msg_relI, rule move_get_proc [OF rel]) (simp_all add: sp get_check_ok)
    with GCheck pc show ?thesis by (simp add: Process_get_def)
  next
    case GNew
    then obtain q where q: "alloc = Some q" "queues s q = None" "inst False s = None" using new by blast
    have "msg_rel ((get_new False (Some q) s)\<lparr>pc := GetInternal GReturn\<rparr>) a"
      by (rule msg_relI, rule move_get_proc [OF get_new_rel(1) [OF rel q(3,2)]]) (simp_all add: sp get_new_ok)
    with GNew pc q show ?thesis by (simp add: Process_get_def)
  next
    case GReturn
    then obtain q where q: "inst False s = Some q" using g by (auto simp: get_ok_def)
    have "msg_rel (s\<lparr>pc := GetExternal q GCheck\<rparr>) a"
      by (rule msg_relI, rule move_get_proc [OF rel]) (use q in \<open>simp_all add: sp get_ok_def\<close>)
    with GReturn pc q show ?thesis by (simp add: Process_get_def)
  qed
qed

lemma get_external_simulates:
  assumes rel: "msg_rel_at A s a" and pc: "pc s = GetExternal qi g"
    and new: "g = GNew \<Longrightarrow> inst True s = None \<and> (\<exists>q. alloc = Some q \<and> queues s q = None)"
  shows "\<exists>s'. Process_get alloc s = Some s' \<and> msg_rel s' a"
proof -
  have sp: "spc a = SIdle" and qi: "inst False s = Some qi" and g: "get_ok True g s"
    using rel pc by (simp_all add: msg_rel_at_def)
  show ?thesis
  proof (cases g)
    case GCheck
    have "msg_rel (s\<lparr>pc := GetExternal qi (get_check True s)\<rparr>) a"
      by (rule msg_relI, rule move_get_proc [OF rel]) (use qi in \<open>simp_all add: sp get_check_ok\<close>)
    with GCheck pc show ?thesis by (simp add: Process_get_def)
  next
    case GNew
    then obtain q where q: "alloc = Some q" "queues s q = None" "inst True s = None" using new by blast
    have "inst False (get_new True (Some q) s) = Some qi" using qi by (simp add: inst_get_new del: inst_simps(6))
    then have "msg_rel ((get_new True (Some q) s)\<lparr>pc := GetExternal qi GReturn\<rparr>) a"
      by (intro msg_relI [of A] move_get_proc [OF get_new_rel(1) [OF rel q(3,2)]]) (simp_all add: sp get_new_ok)
    with GNew pc q show ?thesis by (simp add: Process_get_def)
  next
    case GReturn
    then obtain q where q: "inst True s = Some q" using g by (auto simp: get_ok_def)
    have "msg_rel (s\<lparr>pc := Idle qi q\<rparr>) a"
      by (rule msg_relI, rule move_get_proc [OF rel]) (use q qi in \<open>simp_all add: sp\<close>)
    with GReturn pc q show ?thesis by (simp add: Process_get_def)
  qed
qed

lemma PostCall_simulates:
  assumes "msg_rel_at A s a"
  shows "\<exists>os t' b. msg_exec (PostCall t d) s = Some (os, t') \<and> spec_step (PostCall t d) a = (os, b) \<and> msg_rel t' b"
proof -
  have "msg_rel_at A (s\<lparr>posting := (posting s)(t := Some (Getting GCheck d))\<rparr>) (a\<lparr>calls := (calls a)(t := Some d)\<rparr>)"
    by (rule move_thread [OF assms]) (simp add: get_ok_def)
  then show ?thesis by (auto intro: msg_relI)
qed

lemma PostGet_simulates:
  assumes "msg_rel_at A s a" and "msg_adm_alone (PostGet t alloc) s"
  shows "\<exists>os t' b. msg_exec (PostGet t alloc) s = Some (os, t') \<and> spec_step (PostGet t alloc) a = (os, b) \<and> msg_rel t' b"
proof -
  obtain g d where t: "posting s t = Some (Getting g d)"
    using assms(2) by (auto simp: msg_adm_alone_def split: option.splits post_pc.splits)
  have "g = GNew \<Longrightarrow> inst (post_ext d) s = None \<and> (\<exists>q. alloc = Some q \<and> queues s q = None)"
    using assms(2) t by (auto simp: msg_adm_alone_def first_use_alone_def)
  from post_get_simulates [OF assms(1) t this] t show ?thesis by auto
qed

lemma PostEnqueue_simulates:
  assumes rel: "msg_rel_at A s a" and adm: "msg_adm (PostEnqueue t env) s"
  shows "\<exists>os t' b. msg_exec (PostEnqueue t env) s = Some (os, t') \<and> spec_step (PostEnqueue t env) a = (os, b) \<and> msg_rel t' b"
proof -
  obtain q d where t: "posting s t = Some (Ready q d)"
    using adm by (auto split: option.splits post_pc.splits)
  have c: "calls a t = Some d" and q: "inst (post_ext d) s = Some q"
    using rel t unfolding msg_rel_at_def by (metis thread_ok.simps(3))+
  have "msg_rel_at A (s\<lparr>posting := (posting s)(t := None)\<rparr>) (a\<lparr>calls := (calls a)(t := None)\<rparr>)"
    by (rule move_thread [OF rel]) simp
  moreover have "\<And>m. item env = Some m \<Longrightarrow> msgs s m = None" using adm by simp
  ultimately show ?thesis using post_enqueue_step [of A "s\<lparr>posting := (posting s)(t := None)\<rparr>"
      "a\<lparr>calls := (calls a)(t := None)\<rparr>" d q env] q t c by fastforce
qed

interpretation mq: op_refinement msg_exec msg_adm_alone msg_rel spec_step
proof
  fix s a x
  assume "msg_rel s a" and adm: "msg_adm_alone x s"
  then obtain A where rel: "msg_rel_at A s a" by (auto simp: msg_rel_def)
  have adm': "msg_adm x s" using adm by (simp add: msg_adm_alone_def)
  show "\<exists>os t b. msg_exec x s = Some (os, t) \<and> spec_step x a = (os, b) \<and> msg_rel t b"
  proof (cases x)
    case (PostCall t d)
    with PostCall_simulates [OF rel] show ?thesis by simp
  next
    case (PostGet t alloc)
    with PostGet_simulates [OF rel] adm show ?thesis by simp
  next
    case (PostEnqueue t env)
    with PostEnqueue_simulates [OF rel] adm' show ?thesis by simp
  next
    case (ProcGet alloc)
    then consider g where "pc s = GetInternal g" | qi g where "pc s = GetExternal qi g"
      using adm' by (cases "pc s") auto
    then show ?thesis
    proof cases
      case (1 g)
      have "g = GNew \<Longrightarrow> inst False s = None \<and> (\<exists>q. alloc = Some q \<and> queues s q = None)"
        using adm ProcGet 1 by (auto simp: msg_adm_alone_def first_use_alone_def)
      from get_internal_simulates [OF rel 1 this] ProcGet show ?thesis by auto
    next
      case (2 qi g)
      have "g = GNew \<Longrightarrow> inst True s = None \<and> (\<exists>q. alloc = Some q \<and> queues s q = None)"
        using adm ProcGet 2 by (auto simp: msg_adm_alone_def first_use_alone_def)
      from get_external_simulates [OF rel 2 this] ProcGet show ?thesis by auto
    qed
  next
    case (Take env)
    with adm' obtain qi qe where "pc s = Idle qi qe" by (cases "pc s") auto
    from take_simulates [OF rel this, of env] Take show ?thesis by auto
  next
    case Call
    with adm' obtain qi qe m where "pc s = Got qi qe m" by (cases "pc s") auto
    from call_simulates [OF rel this] Call show ?thesis by auto
  next
    case Delete
    with adm' obtain qi qe m where "pc s = Called qi qe m" by (cases "pc s") auto
    from delete_simulates [OF rel this] Delete show ?thesis by auto
  qed
qed

lemma msg_rel_init: "msg_rel msg_init spec_init"
  by (rule msg_relI [of "\<lambda>_. []"])
    (simp add: msg_rel_at_def lists_rel_def insts_ok_def inst_q_def inst_def get_ok_def msg_init_def spec_init_def)

section \<open>What follows for every interleaving\<close>

text \<open>
  The events whose critical sections a run executes, in this order (the argument holds the events of the calls
  under way); the events dispatched according to its outputs; the event of the item in hand.
\<close>

fun posts :: "(nat \<rightharpoonup> ipacm_cmd_q_data) \<Rightarrow> msg_op list \<Rightarrow> ipacm_cmd_q_data list" where
  "posts c [] = []"
| "posts c (PostCall t d # xs) = posts (c(t \<mapsto> d)) xs"
| "posts c (PostEnqueue t env # xs) = (case c t of None \<Rightarrow> posts c xs | Some d \<Rightarrow> d # posts (c(t := None)) xs)"
| "posts c (_ # xs) = posts c xs"

fun dispatched :: "msg_out list \<Rightarrow> ipacm_cmd_q_data list" where
  "dispatched [] = []"
| "dispatched (Dispatched d # os) = d # dispatched os"
| "dispatched (_ # os) = dispatched os"

definition held :: "msg_state \<Rightarrow> ipacm_cmd_q_data list" where
  "held s = (case pc s of Got qi qe a \<Rightarrow> (case msgs s a of None \<Rightarrow> [] | Some m \<Rightarrow> [data (val m)]) | _ \<Rightarrow> [])"

text \<open>Allocation and locking succeed for every post, and the thread of \<open>Process\<close> can unlock.\<close>

fun resources_ok :: "msg_op \<Rightarrow> bool" where
  "resources_ok (PostEnqueue t env) = (item env \<noteq> None \<and> lock_ok env)"
| "resources_ok (Take env) = take_unlock_ok env"
| "resources_ok _ = True"

abbreviation in_class :: "bool \<Rightarrow> ipacm_cmd_q_data \<Rightarrow> bool" where
  "in_class ext d \<equiv> is_external (event d) = ext"

fun spec_held :: "spec_pc \<Rightarrow> ipacm_cmd_q_data list" where
  "spec_held (SGot d) = [d]"
| "spec_held _ = []"

definition pending :: "bool \<Rightarrow> msg_spec \<Rightarrow> ipacm_cmd_q_data list" where
  "pending ext a = filter (in_class ext) (spec_held (spc a)) @ waiting a ext"

definition spec_wf :: "msg_spec \<Rightarrow> bool" where
  "spec_wf a = (\<forall>ext. \<forall>d\<in>set (waiting a ext). in_class ext d)"

lemma dispatched_append [simp]: "dispatched (os @ os') = dispatched os @ dispatched os'"
  by (induction os rule: dispatched.induct) auto

text \<open>A turn takes nothing, or the head of one of the lists.\<close>

lemma spec_take_cases:
  assumes "take_unlock_ok env"
  obtains (none) "waiting (spec_take env a) = waiting a" "spec_held (spc (spec_take env a)) = []"
  | (item) ext d ds where "waiting a ext = d # ds" "spec_take env a = a\<lparr>waiting := (waiting a)(ext := ds), spc := SGot d\<rparr>"
proof (cases "take_lock_ok env")
  case False
  then show ?thesis by (intro none) (auto simp: spec_take_def)
next
  case True
  show ?thesis
  proof (cases "waiting a False @ waiting a True")
    case Nil
    then show ?thesis using True by (intro none) (auto simp: spec_take_def)
  next
    case (Cons d ds)
    let ?ext = "waiting a False = []"
    have "waiting a ?ext = d # tl (waiting a ?ext)" using Cons by (cases "waiting a False") auto
    moreover have "spec_take env a = a\<lparr>waiting := (waiting a)(?ext := tl (waiting a ?ext)), spc := SGot d\<rparr>"
      using True Cons assms by (simp add: spec_take_def Let_def)
    ultimately show ?thesis by (rule item)
  qed
qed

lemma spec_take_conserves:
  assumes "take_unlock_ok env" and "spec_wf a" and "spc a = SIdle"
  shows "spec_wf (spec_take env a) \<and> pending ext (spec_take env a) = pending ext a"
  using assms(1)
proof (cases rule: spec_take_cases [of env a])
  case none
  with assms show ?thesis by (simp add: spec_wf_def pending_def)
next
  case (item e d ds)
  moreover have W: "in_class x y" if "y \<in> set (waiting a x)" for x y using assms(2) that by (simp add: spec_wf_def)
  moreover have "in_class e d" using W [of d e] item(1) by simp
  moreover have "in_class e y" if "y \<in> set ds" for y using W [of y e] item(1) that by simp
  ultimately have "spec_wf (spec_take env a)" by (simp add: spec_wf_def)
  moreover have "pending ext (spec_take env a) = pending ext a"
    using item assms(3) \<open>in_class e d\<close> by (cases "e = ext") (simp_all add: pending_def)
  ultimately show ?thesis ..
qed

text \<open>What the thread of \<open>Process\<close> does fits the specification's program counter.\<close>

fun spec_pc_ok :: "msg_op \<Rightarrow> spec_pc \<Rightarrow> bool" where
  "spec_pc_ok (Take env) p = (p = SIdle)"
| "spec_pc_ok Call p = (\<exists>d. p = SGot d)"
| "spec_pc_ok Delete p = (p = SCalled)"
| "spec_pc_ok _ p = True"

lemma adm_pc: "msg_rel s a \<Longrightarrow> msg_adm x s \<Longrightarrow> spec_pc_ok x (spc a)"
  by (cases x; cases "pc s") (auto simp: msg_rel_def msg_rel_at_def)

lemma pc_adm: "msg_rel s a \<Longrightarrow> spc a = SGot d \<Longrightarrow> msg_adm Call s" "msg_rel s a \<Longrightarrow> spc a = SCalled \<Longrightarrow> msg_adm Delete s"
  by (cases "pc s"; auto simp: msg_rel_def msg_rel_at_def)+

lemma spec_step_conserves:
  assumes "spec_step x a = (os, b)" and "resources_ok x" and "spec_wf a" and "spec_pc_ok x (spc a)"
  shows "spec_wf b \<and> (\<forall>xs. filter (in_class ext) (dispatched os) @ pending ext b @ filter (in_class ext) (posts (calls b) xs) =
      pending ext a @ filter (in_class ext) (posts (calls a) (x # xs)))"
proof (cases x)
  case (PostEnqueue t env)
  show ?thesis
  proof (cases "calls a t")
    case None
    with assms PostEnqueue show ?thesis by auto
  next
    case (Some d)
    with assms(1,2) PostEnqueue have b: "dispatched os = []" "spc b = spc a" "calls b = (calls a)(t := None)"
      "waiting b = (waiting a)(is_external (event d) := waiting a (is_external (event d)) @ [d])"
      by (auto simp: spec_post_def Let_def)
    moreover have "pending ext b = pending ext a @ filter (in_class ext) [d]"
      using b(2,4) by (simp add: pending_def)
    moreover have "spec_wf b" using assms(3) b(4) by (auto simp: spec_wf_def)
    ultimately show ?thesis using PostEnqueue Some by simp
  qed
next
  case (Take env)
  with assms have b: "b = spec_take env a" "os = []" "spc a = SIdle" "take_unlock_ok env" by auto
  have "calls b = calls a" using b(1) by (auto simp: spec_take_def Let_def split: list.splits)
  with spec_take_conserves [OF b(4) assms(3) b(3), of ext] b(1,2) Take show ?thesis by simp
qed (use assms in \<open>auto simp: spec_wf_def pending_def\<close>)

lemma run_conserves:
  assumes "msg_rel s a" and "spec_wf a" and "admissible_run msg_exec msg_adm_alone xs s" and "\<forall>x\<in>set xs. resources_ok x"
  shows "\<exists>os t b. run_ops msg_exec xs s = Some (os, t) \<and> msg_rel t b \<and>
     (\<forall>ext. filter (in_class ext) (dispatched os) @ pending ext b = pending ext a @ filter (in_class ext) (posts (calls a) xs))"
  using assms
proof (induction xs arbitrary: s a)
  case Nil
  then show ?case by auto
next
  case (Cons x xs)
  then have adm: "msg_adm_alone x s" by simp
  then have adm': "msg_adm x s" by (simp add: msg_adm_alone_def)
  obtain os t b where x: "msg_exec x s = Some (os, t)" "spec_step x a = (os, b)" "msg_rel t b"
    using mq.simulates [OF Cons.prems(1) adm] by blast
  have res: "resources_ok x" using Cons.prems(4) by simp
  note step = spec_step_conserves [OF x(2) res Cons.prems(2) adm_pc [OF Cons.prems(1) adm']]
  then have wf: "spec_wf b" by blast
  from Cons.prems x have "admissible_run msg_exec msg_adm_alone xs t" by simp
  with Cons.IH [OF x(3) wf] Cons.prems(4) obtain os' t' b' where
    r: "run_ops msg_exec xs t = Some (os', t')" "msg_rel t' b'"
    "\<And>ext. filter (in_class ext) (dispatched os') @ pending ext b' = pending ext b @ filter (in_class ext) (posts (calls b) xs)"
    by auto
  have "filter (in_class ext) (dispatched (os @ os')) @ pending ext b' =
      pending ext a @ filter (in_class ext) (posts (calls a) (x # xs))" for ext
    using step [of ext] r(3) [of ext] by simp
  with x(1) r(1,2) show ?case by auto
qed

lemma pending_held:
  "msg_rel s a \<Longrightarrow> \<exists>A. \<forall>ext. mq_rel (msgs s) (inst_q ext s) (A ext) (waiting a ext) \<and>
     pending ext a = filter (in_class ext) (held s) @ waiting a ext"
  by (cases "pc s") (auto simp: msg_rel_def msg_rel_at_def lists_rel_def pending_def held_def cmd_of_def)

lemma spec_wf_init: "spec_wf spec_init" "pending ext spec_init = []"
  by (simp_all add: spec_wf_def spec_init_def pending_def)

section \<open>Uninterrupted calls\<close>

text \<open>The steps of a call of \<open>PostEvt\<close> that no other thread interrupts are the whole call.\<close>

lemma PostEvt_steps:
  assumes "posting s t = None" and "alloc \<noteq> None"
  shows "run_ops msg_exec
     ([PostCall t d, PostGet t alloc] @ (if inst (post_ext d) s = None then [PostGet t alloc] else []) @
      [PostGet t alloc, PostEnqueue t env]) s =
     map_option (\<lambda>(r, s'). ([Posted r], s')) (PostEvt alloc env d s)"
proof -
  have p: "s\<lparr>posting := (posting s)(t := None)\<rparr> = s" using assms(1) by (cases s) (simp add: fun_upd_idem)
  obtain q where q: "alloc = Some q" using assms(2) by auto
  let ?s = "get_new (post_ext d) (Some q) s"
  have gp: "(get_new e (Some q) (s\<lparr>posting := P\<rparr>)) = (get_new e (Some q) s)\<lparr>posting := P\<rparr>" for e P
    by (simp add: get_new_def Let_def)
  have p': "?s\<lparr>posting := (posting s)(t := None)\<rparr> = ?s" using assms(1) by (cases s) (simp add: fun_upd_idem get_new_def Let_def)
  show ?thesis
  proof (cases "inst (post_ext d) s")
    case None
    then show ?thesis
      by (simp add: PostEvt_get_def get_check_def PostEvt_def getInstance_def q gp inst_get_new p' fun_upd_def [symmetric]
          option.case_eq_if map_option_case case_prod_unfold)
  next
    case (Some qa)
    then show ?thesis
      by (simp add: PostEvt_get_def get_check_def PostEvt_def getInstance_def p option.case_eq_if map_option_case case_prod_unfold)
  qed
qed

lemma getInstance_rel:
  assumes rel: "msg_rel_at A s a" and alloc: "inst ext s = None \<Longrightarrow> \<exists>q. alloc = Some q \<and> queues s q = None"
  obtains q s' where "getInstance ext alloc s = (Some q, s')" and "msg_rel_at A s' a" and "inst ext s' = Some q"
    and "s' = (if inst ext s = None then get_new ext alloc s else s)"
proof (cases "inst ext s")
  case None
  with alloc obtain q where q: "alloc = Some q" "queues s q = None" by blast
  show ?thesis
    by (rule that [of q "get_new ext alloc s"]) (use get_new_rel [OF rel None q(2)] q None in \<open>simp_all add: getInstance_def get_check_def\<close>)
next
  case (Some q)
  show ?thesis by (rule that [of q s]) (use rel Some in \<open>simp_all add: getInstance_def get_check_def\<close>)
qed

lemma PostEvt_rel:
  assumes "msg_rel s a" and "inst (post_ext d) s = None \<Longrightarrow> \<exists>q. alloc = Some q \<and> queues s q = None"
    and "\<And>m. item env = Some m \<Longrightarrow> msgs s m = None"
  shows "\<exists>r t b. PostEvt alloc env d s = Some (r, t) \<and> spec_post env d a = ([Posted r], b) \<and> msg_rel t b"
proof -
  obtain A where rel: "msg_rel_at A s a" using assms(1) by (auto simp: msg_rel_def)
  obtain q s' where s': "getInstance (post_ext d) alloc s = (Some q, s')" "msg_rel_at A s' a" "inst (post_ext d) s' = Some q"
    "s' = (if inst (post_ext d) s = None then get_new (post_ext d) alloc s else s)"
    by (rule getInstance_rel [OF rel assms(2)])
  have "msgs s' = msgs s" by (simp add: s'(4))
  with post_enqueue_step [OF s'(2,3), of env] assms(3) s'(1) show ?thesis by (simp add: PostEvt_def)
qed

text \<open>A post with every resource available, and one turn of the loop of \<open>Process\<close>.\<close>

definition ok_post :: "ipacm_cmd_q_data \<Rightarrow> nat \<Rightarrow> post_env" where
  "ok_post jk m = \<lparr>item = Some m, junk = jk, lock_ok = True, signal_ok = True, unlock_ok = True\<rparr>"

definition ok_take :: take_env where
  "ok_take = \<lparr>take_lock_ok = True, wait_ok = True, take_unlock_ok = True\<rparr>"

definition turn :: "msg_op list" where
  "turn = [Take ok_take, Call, Delete]"

text \<open>
  Calls of \<open>PostEvt\<close> one after the other; the messages are at the addresses from \<open>m\<close>, the queue of a class, if
  it is created, at \<open>where ext\<close>.
\<close>

fun post_all :: "(bool \<Rightarrow> nat) \<Rightarrow> ipacm_cmd_q_data \<Rightarrow> nat \<Rightarrow> ipacm_cmd_q_data list \<Rightarrow> msg_state \<Rightarrow> (int list \<times> msg_state) option" where
  "post_all qa jk m [] s = Some ([], s)"
| "post_all qa jk m (d # ds) s =
     (case PostEvt (Some (qa (post_ext d))) (ok_post jk m) d s of
        None \<Rightarrow> None
      | Some (r, s) \<Rightarrow> (case post_all qa jk (Suc m) ds s of None \<Rightarrow> None | Some (rs, s) \<Rightarrow> Some (r # rs, s)))"

lemma run_ops_append:
  "run_ops f (xs @ ys) s =
     (case run_ops f xs s of
        None \<Rightarrow> None
      | Some (os, t) \<Rightarrow> (case run_ops f ys t of None \<Rightarrow> None | Some (os', u) \<Rightarrow> Some (os @ os', u)))"
  by (induction xs arbitrary: s) (auto split: option.splits)

text \<open>What a call writes: no message but its own, no queue but that of its class.\<close>

lemma enqueue_fresh: "enqueue m h q = Some (h', q') \<Longrightarrow> h x = None \<Longrightarrow> h' x = None"
  by (auto simp: enqueue_def setnext_def split: if_splits option.splits)

lemma PostEvt_enqueue_frame:
  assumes "PostEvt_enqueue env d q s = Some (r, t)"
  shows "(\<forall>x. item env \<noteq> Some x \<and> msgs s x = None \<longrightarrow> msgs t x = None) \<and> (\<forall>e. inst e t = inst e s) \<and>
     (\<forall>x. queues s x = None \<longrightarrow> queues t x = None) \<and> pc t = pc s"
proof -
  have "h' x = None" if "enqueue a (h(a \<mapsto> n)) q = Some (h', q')" "x \<noteq> a" "h x = None" for a h n q h' q' x
    using enqueue_fresh [OF that(1), of x] that(2,3) by simp
  then show ?thesis using assms
    by (auto simp: PostEvt_enqueue_def Let_def split: option.splits if_splits)
qed

definition fresh_qs :: "(bool \<Rightarrow> nat) \<Rightarrow> msg_state \<Rightarrow> bool" where
  "fresh_qs qa s \<longleftrightarrow> (\<forall>e. inst e s = None \<longrightarrow> queues s (qa e) = None)"

lemma fresh_qs_get_new:
  assumes "fresh_qs qa s" and "qa True \<noteq> qa False"
  shows "fresh_qs qa (get_new ext (Some (qa ext)) s)"
  using assms by (cases ext) (auto simp: fresh_qs_def inst_get_new simp del: inst_simps(5,6))

lemma PostEvt_frame:
  assumes "PostEvt (Some (qa (post_ext d))) (ok_post jk m) d s = Some (r, t)" and "qa True \<noteq> qa False" and "fresh_qs qa s"
    and "\<forall>x\<ge>m. msgs s x = None"
  shows "(\<forall>x\<ge>Suc m. msgs t x = None) \<and> fresh_qs qa t \<and> pc t = pc s"
proof -
  let ?s = "if inst (post_ext d) s = None then get_new (post_ext d) (Some (qa (post_ext d))) s else s"
  obtain q where g: "getInstance (post_ext d) (Some (qa (post_ext d))) s = (Some q, ?s)"
    by (cases "inst (post_ext d) s") (simp_all add: getInstance_def get_check_def inst_get_new)
  then have e: "PostEvt_enqueue (ok_post jk m) d q ?s = Some (r, t)" using assms(1) by (simp add: PostEvt_def)
  have "fresh_qs qa ?s" using fresh_qs_get_new [OF assms(3,2)] assms(3) by simp
  then have "fresh_qs qa t" using PostEvt_enqueue_frame [OF e] by (simp add: fresh_qs_def)
  moreover have "msgs ?s = msgs s" "pc ?s = pc s" by simp_all
  ultimately show ?thesis using PostEvt_enqueue_frame [OF e] assms(4) by (auto simp: ok_post_def)
qed

lemma post_all_run:
  assumes "msg_rel s a" and "\<forall>x\<ge>m. msgs s x = None" and "fresh_qs qa s" and "qa True \<noteq> qa False"
  shows "\<exists>t b. post_all qa jk m ds s = Some (replicate (length ds) IPACM_SUCCESS, t) \<and>
     msg_rel t b \<and> spc b = spc a \<and> pc t = pc s \<and> fresh_qs qa t \<and>
     waiting b = (\<lambda>ext. waiting a ext @ filter (in_class ext) ds)"
  using assms(1-3)
proof (induction ds arbitrary: s a m)
  case Nil
  then show ?case by auto
next
  case (Cons d ds)
  have i: "msgs s x = None" if "item (ok_post jk m) = Some x" for x using Cons.prems(2) that by (simp add: ok_post_def)
  have q: "inst (post_ext d) s = None \<Longrightarrow> \<exists>q. Some (qa (post_ext d)) = Some q \<and> queues s q = None"
    using Cons.prems(3) by (simp add: fresh_qs_def)
  obtain r t b where p: "PostEvt (Some (qa (post_ext d))) (ok_post jk m) d s = Some (r, t)"
    "spec_post (ok_post jk m) d a = ([Posted r], b)" "msg_rel t b"
    using PostEvt_rel [OF Cons.prems(1) q i] by blast
  have b: "r = IPACM_SUCCESS" "b = a\<lparr>waiting := (waiting a)(is_external (event d) := waiting a (is_external (event d)) @ [d])\<rparr>"
    using p(2) by (auto simp: spec_post_def ok_post_def Let_def)
  note f = PostEvt_frame [OF p(1) assms(4) Cons.prems(3,2)]
  obtain t' b' where r: "post_all qa jk (Suc m) ds t = Some (replicate (length ds) IPACM_SUCCESS, t')" "msg_rel t' b'"
    "spc b' = spc b" "pc t' = pc t" "fresh_qs qa t'" "waiting b' = (\<lambda>ext. waiting b ext @ filter (in_class ext) ds)"
    using Cons.IH [OF p(3)] f by blast
  have "waiting b' = (\<lambda>ext. waiting a ext @ filter (in_class ext) (d # ds))"
    unfolding r(6) b(2) by (rule ext) simp
  with p(1) b f r(1-5) show ?case by (intro exI [of _ t'] exI [of _ b']) simp
qed

lemma Process_start_rel:
  assumes "msg_rel s a" and "spc a = SIdle" and "fresh_qs qa s" and "qa True \<noteq> qa False"
  shows "\<exists>qi qe. msg_rel (Process_start (Some (qa False)) (Some (qa True)) s) a \<and>
     pc (Process_start (Some (qa False)) (Some (qa True)) s) = Idle qi qe"
proof -
  obtain A where rel: "msg_rel_at A s a" using assms(1) by (auto simp: msg_rel_def)
  have new1: "inst False s = None \<Longrightarrow> \<exists>q. Some (qa False) = Some q \<and> queues s q = None"
    using assms(3) by (simp add: fresh_qs_def)
  obtain qi s1 where s1: "getInstance False (Some (qa False)) s = (Some qi, s1)" "msg_rel_at A s1 a" "inst False s1 = Some qi"
    "s1 = (if inst False s = None then get_new False (Some (qa False)) s else s)"
    by (rule getInstance_rel [OF rel new1])
  have f1: "fresh_qs qa s1" using fresh_qs_get_new [OF assms(3,4), of False] assms(3) s1(4) by simp
  then have new2: "inst True s1 = None \<Longrightarrow> \<exists>q. Some (qa True) = Some q \<and> queues s1 q = None"
    unfolding fresh_qs_def by blast
  obtain qe s2 where s2: "getInstance True (Some (qa True)) s1 = (Some qe, s2)" "msg_rel_at A s2 a" "inst True s2 = Some qe"
    "s2 = (if inst True s1 = None then get_new True (Some (qa True)) s1 else s1)"
    by (rule getInstance_rel [OF s1(2) new2])
  have "inst False s2 = inst False s1" by (simp add: s2(4) inst_get_new del: inst_simps(5,6))
  then have "msg_rel (s2\<lparr>pc := Idle qi qe\<rparr>) a"
    using s1(3) s2(3) assms(2) by (intro msg_relI [OF move_get_proc [OF s2(2)]]) simp_all
  moreover have "Process_start (Some (qa False)) (Some (qa True)) s = s2\<lparr>pc := Idle qi qe\<rparr>"
    using s1(1) s2(1) by (simp add: Process_start_def)
  ultimately show ?thesis by simp
qed

lemma turn_run:
  assumes rel: "msg_rel s a" and idle: "pc s = Idle qi qe" and d: "waiting a False @ waiting a True = d # rest"
  shows "\<exists>t b. run_ops msg_exec turn s = Some ([Dispatched d], t) \<and> msg_rel t b \<and> (\<exists>qi qe. pc t = Idle qi qe) \<and>
     waiting b False @ waiting b True = rest"
proof -
  let ?a = "spec_take ok_take a"
  obtain s1 where s1: "msg_exec (Take ok_take) s = Some ([], s1)" "msg_rel s1 ?a"
    using mq.simulates [OF rel, of "Take ok_take"] idle by (auto simp: msg_adm_alone_def first_use_alone_def)
  have a: "spc ?a = SGot d" "waiting ?a False @ waiting ?a True = rest"
    using d by (cases "waiting a False"; simp add: spec_take_def ok_take_def Let_def)+
  have "msg_adm_alone Call s1" using pc_adm(1) [OF s1(2) a(1)] by (simp add: msg_adm_alone_def first_use_alone_def)
  from mq.simulates [OF s1(2) this] a(1) obtain s2 where
    s2: "msg_exec Call s1 = Some ([Dispatched d], s2)" "msg_rel s2 (?a\<lparr>spc := SCalled\<rparr>)" by auto
  have "msg_adm_alone Delete s2" using pc_adm(2) [OF s2(2)] by (simp add: msg_adm_alone_def first_use_alone_def)
  from mq.simulates [OF s2(2) this] obtain s3 where
    s3: "msg_exec Delete s2 = Some ([], s3)" "msg_rel s3 (?a\<lparr>spc := SIdle\<rparr>)" by auto
  have "\<exists>qi qe. pc s3 = Idle qi qe" using s3(1)
    by (auto simp: Process_delete_def split: option.splits proc_pc.splits)
  with s1(1) s2(1) s3 a(2) show ?thesis
    by (intro exI [of _ s3] exI [of _ "?a\<lparr>spc := SIdle\<rparr>"]) (auto simp: turn_def simp del: msg_exec.simps)
qed

lemma turns_run:
  assumes "msg_rel s a" and "\<exists>qi qe. pc s = Idle qi qe"
  shows "\<exists>t b. run_ops msg_exec (concat (replicate (length (waiting a False @ waiting a True)) turn)) s =
       Some (map Dispatched (waiting a False @ waiting a True), t) \<and> msg_rel t b \<and> waiting b False @ waiting b True = []"
  using assms
proof (induction "waiting a False @ waiting a True" arbitrary: s a)
  case Nil
  then show ?case by auto
next
  case (Cons d rest)
  obtain qi qe where "pc s = Idle qi qe" using Cons.prems(2) by blast
  from turn_run [OF Cons.prems(1) this Cons.hyps(2) [symmetric]]
  obtain t b where t: "run_ops msg_exec turn s = Some ([Dispatched d], t)" "msg_rel t b" "\<exists>qi qe. pc t = Idle qi qe"
    "waiting b False @ waiting b True = rest" by blast
  from Cons.hyps(1) [OF t(4) [symmetric] t(2,3)] t(1,4) show ?case
    unfolding Cons.hyps(2) [symmetric] by (auto simp: run_ops_append)
qed

section \<open>Properties\<close>

text \<open>
  C9. Whatever the interleaving of posting threads with the look-ups and turns of \<open>Process\<close>, and whatever
  allocations of messages, locks, signals and waits fail: as long as no thread creates a queue that another
  one has created since its test (see \<open>first_use_race_loses_event\<close>), no operation of the message queues touches
  an unallocated or deleted message (the stale \<open>Tail\<close> that \<open>dequeue\<close> leaves included), and the run gives
  the outputs of the specification with two lists.
\<close>

theorem queues_refine_lists:
  assumes "admissible_run msg_exec msg_adm_alone xs msg_init"
  shows "\<exists>os t b. run_ops msg_exec xs msg_init = Some (os, t) \<and> run_spec spec_step xs spec_init = (os, b) \<and> msg_rel t b"
  using assms by (rule mq.run_refines [OF msg_rel_init])

text \<open>Events for the witnesses: an external one, an internal one, and the memory \<open>new\<close> returns.\<close>

definition ev_ext :: ipacm_cmd_q_data where "ev_ext = \<lparr>event = IPA_NEW_NEIGH_EVENT, evt_data = Some 7\<rparr>"

definition ev_int :: ipacm_cmd_q_data where "ev_int = \<lparr>event = IPA_HANDLE_WAN_UP, evt_data = None\<rparr>"

text \<open>
  Two posts and the look-ups of \<open>Process\<close> interleaved; the item at address 1 is dequeued and deleted, its
  address is the stale \<open>Tail\<close> and is allocated again by the next post.
\<close>

definition reuse_run :: "msg_op list" where
  "reuse_run =
     [PostCall 4 ev_ext, PostCall 5 ev_int, PostGet 4 None, PostGet 5 None, ProcGet None, PostGet 4 (Some 50),
      ProcGet (Some 51), ProcGet None, PostGet 4 None, ProcGet None, PostEnqueue 4 (ok_post ev_int 1), ProcGet None] @
     turn @
     [PostCall 6 ev_ext, PostGet 6 None, PostGet 6 None, PostEnqueue 6 (ok_post ev_ext 1),
      PostCall 7 ev_int, PostGet 7 None, PostGet 7 None, PostEnqueue 7 (ok_post ev_ext 2)] @ turn"

lemma reuse_run_admissible: "admissible_run msg_exec msg_adm_alone reuse_run msg_init"
  by code_simp

theorem queues_refine_lists_witness:
  "\<exists>os t b. run_ops msg_exec reuse_run msg_init = Some (os, t) \<and> run_spec spec_step reuse_run spec_init = (os, b) \<and> msg_rel t b"
  by (rule queues_refine_lists [OF reuse_run_admissible])

text \<open>
  C8. No event is lost, duplicated or reordered within its queue: in every interleaving without the race of
  the first use, as long as posts find memory and the mutex and \<open>Process\<close> can unlock it, the internal events whose
  posts entered the critical section are, in this order, those dispatched, the one in hand and those still
  queued, and the same holds of the external events.
\<close>

theorem events_conserved_in_order:
  assumes "admissible_run msg_exec msg_adm_alone xs msg_init" and "\<forall>x\<in>set xs. resources_ok x"
  shows "\<exists>os t A W. run_ops msg_exec xs msg_init = Some (os, t) \<and>
     (\<forall>ext. mq_rel (msgs t) (inst_q ext t) (A ext) (W ext) \<and>
       filter (in_class ext) (posts Map.empty xs) = filter (in_class ext) (dispatched os @ held t) @ W ext)"
proof -
  have c: "calls spec_init = Map.empty" by (simp add: spec_init_def)
  obtain os t b where r: "run_ops msg_exec xs msg_init = Some (os, t)" "msg_rel t b"
    "\<And>ext. filter (in_class ext) (dispatched os) @ pending ext b = filter (in_class ext) (posts Map.empty xs)"
    using run_conserves [OF msg_rel_init spec_wf_init(1) assms] by (auto simp: spec_wf_init(2) c)
  obtain A where "\<forall>ext. mq_rel (msgs t) (inst_q ext t) (A ext) (waiting b ext) \<and>
     pending ext b = filter (in_class ext) (held t) @ waiting b ext"
    using pending_held [OF r(2)] by blast
  then show ?thesis using r(1) r(3) [symmetric]
    by (intro exI [of _ os] exI [of _ t] exI [of _ A] exI [of _ "waiting b"]) simp
qed

lemma reuse_run_resources: "\<forall>x\<in>set reuse_run. resources_ok x"
  by code_simp

theorem events_conserved_in_order_witness:
  "\<exists>os t A W. run_ops msg_exec reuse_run msg_init = Some (os, t) \<and>
     (\<forall>ext. mq_rel (msgs t) (inst_q ext t) (A ext) (W ext) \<and>
       filter (in_class ext) (posts Map.empty reuse_run) = filter (in_class ext) (dispatched os @ held t) @ W ext)"
  by (rule events_conserved_in_order [OF reuse_run_admissible reuse_run_resources])

text \<open>
  C10. Processing is complete and gives internal events priority: after any list of events is posted, one call
  after the other, and the thread of \<open>Process\<close> is started (with whichever queues were created by the posts, at any two
  addresses), as many turns of its loop as there are events dispatch all internal events in the order of
  posting, then all external events in the order of posting, and leave both queues empty.
\<close>

theorem internal_events_first:
  "q1 \<noteq> q2 \<Longrightarrow>
   \<exists>s t b. post_all (\<lambda>ext. if ext then q2 else q1) jk 0 ds msg_init = Some (replicate (length ds) IPACM_SUCCESS, s) \<and>
     run_ops msg_exec (concat (replicate (length ds) turn)) (Process_start (Some q1) (Some q2) s) =
       Some (map Dispatched (filter (\<lambda>d. \<not> is_external (event d)) ds @ filter (\<lambda>d. is_external (event d)) ds), t) \<and>
     msg_rel t b \<and> waiting b False = [] \<and> waiting b True = []"
proof -
  assume ne: "q1 \<noteq> q2"
  let ?qa = "\<lambda>ext. if ext then q2 else q1"
  have qa: "?qa True \<noteq> ?qa False" "?qa False = q1" "?qa True = q2" using ne by simp_all
  have f: "fresh_qs ?qa msg_init" by (simp add: fresh_qs_def msg_init_def)
  obtain s a where s: "post_all ?qa jk 0 ds msg_init = Some (replicate (length ds) IPACM_SUCCESS, s)"
    "msg_rel s a" "spc a = SIdle" "fresh_qs ?qa s" "waiting a = (\<lambda>ext. filter (in_class ext) ds)"
    using post_all_run [OF msg_rel_init _ f qa(1), of 0 jk ds] by (auto simp: msg_init_def spec_init_def)
  have len: "length (waiting a False @ waiting a True) = length ds"
    using sum_length_filter_compl [of "\<lambda>d. is_external (event d)" ds] s(5) by simp
  let ?s = "Process_start (Some q1) (Some q2) s"
  have st: "msg_rel ?s a" "\<exists>qi qe. pc ?s = Idle qi qe"
    using Process_start_rel [OF s(2,3,4) qa(1)] unfolding qa(2,3) by auto
  show ?thesis using turns_run [OF st] s(1,5) unfolding len by auto
qed

theorem internal_events_first_witness:
  "\<exists>s t b. post_all (\<lambda>ext. if ext then 21 else 20) ev_int 0 [ev_ext, ev_int] msg_init = Some (replicate 2 IPACM_SUCCESS, s) \<and>
     run_ops msg_exec (concat (replicate 2 turn)) (Process_start (Some 20) (Some 21) s) =
       Some (map Dispatched [ev_int, ev_ext], t) \<and> msg_rel t b \<and> waiting b False = [] \<and> waiting b True = []"
  using internal_events_first [of 20 21 ev_int "[ev_ext, ev_int]"]
  by (simp add: ev_ext_def ev_int_def is_external_num eval_nat_numeral)



end
