(* ===== verification/EvtDispatcher.thy ===== *)
theory EvtDispatcher
  imports CmdQueue
begin

text \<open>
  \<open>IPACM_EvtDispatcher.cpp\<close>: the list of registered listeners (\<open>cmd_evts\<close> nodes in a store, so an
  access to a freed node is the result \<open>None\<close>), \<open>registr\<close>, \<open>deregistr\<close> and \<open>ProcessEvt\<close>. A
  listener object is known by its address; what its \<open>event_callback\<close> does is the argument \<open>cb\<close>
  of \<open>ProcessEvt\<close>, a state transformer that may change the list. The loops follow pointers, so
  they are partial functions into \<open>option\<close>: \<open>None\<close> is an invalid access or a loop that does not end.
\<close>

section \<open>Data\<close>

record cmd_evts =
  ce_event :: ipa_cm_event_id
  ce_obj :: nat

type_synonym reg_heap = "cmd_evts heap"

text \<open>
  \<open>stats\<close> is \<open>ipacm_event_stats[IPACM_EVENT_MAX]\<close>, \<open>payloads\<close> the allocated event data blocks,
  \<open>world\<close> the state the listeners keep.
\<close>

record 'w disp_state =
  regs :: reg_heap
  head :: ptr
  stats :: "u32 list"
  payloads :: "nat list"
  world :: 'w

section \<open>registr\<close>

partial_function (option) last_node :: "reg_heap \<Rightarrow> nat \<Rightarrow> nat option" where
  "last_node h tmp =
     (case h tmp of
        None \<Rightarrow> None
      | Some n \<Rightarrow> (case nxt n of None \<Rightarrow> Some tmp | Some a \<Rightarrow> last_node h a))"

declare last_node.simps [code]

definition set_next :: "ptr \<Rightarrow> ptr \<Rightarrow> reg_heap \<Rightarrow> reg_heap option" where
  "set_next p q h =
     (case p of
        None \<Rightarrow> None
      | Some a \<Rightarrow> (case h a of None \<Rightarrow> None | Some n \<Rightarrow> Some (h(a := Some (n\<lparr>nxt := q\<rparr>)))))"

text \<open>\<open>nw\<close> is what \<open>malloc\<close> returned.\<close>

definition registr ::
  "ipa_cm_event_id \<Rightarrow> nat \<Rightarrow> ptr \<Rightarrow> 'w disp_state \<Rightarrow> (int \<times> 'w disp_state) option" where
  "registr ev ob nw s =
     (case nw of
        None \<Rightarrow> Some (IPACM_FAILURE, s)
      | Some a \<Rightarrow>
          let h = (regs s)(a := Some \<lparr>val = \<lparr>ce_event = ev, ce_obj = ob\<rparr>, nxt = None\<rparr>) in
          (case head s of
             None \<Rightarrow> Some (IPACM_SUCCESS, s\<lparr>regs := h, head := nw\<rparr>)
           | Some p \<Rightarrow>
               (case last_node h p of
                  None \<Rightarrow> None
                | Some tmp \<Rightarrow>
                    (case set_next (Some tmp) nw h of
                       None \<Rightarrow> None
                     | Some h' \<Rightarrow> Some (IPACM_SUCCESS, s\<lparr>regs := h'\<rparr>)))))"

section \<open>deregistr\<close>

text \<open>
  The loop of \<open>deregistr\<close>, with \<open>head\<close>, \<open>tmp\<close>, \<open>prev\<close> and the store. A node that belongs to
  \<open>param\<close> is unlinked, its successor is read, and it is freed.
\<close>

partial_function (option) dereg_loop :: "nat \<Rightarrow> ptr \<Rightarrow> ptr \<Rightarrow> ptr \<Rightarrow> reg_heap \<Rightarrow> (ptr \<times> reg_heap) option" where
  "dereg_loop param hed tmp prev h =
     (case tmp of
        None \<Rightarrow> Some (hed, h)
      | Some a \<Rightarrow>
          (case h a of
             None \<Rightarrow> None
           | Some n \<Rightarrow>
               if ce_obj (val n) = param then
                 (case
                    (if tmp = hed then Some (nxt n, h)
                     else if nxt n = None then map_option (Pair hed) (set_next prev None h)
                     else map_option (Pair hed) (set_next prev (nxt n) h)) of
                    None \<Rightarrow> None
                  | Some (hed', h') \<Rightarrow>
                      (case h' a of
                         None \<Rightarrow> None
                       | Some n' \<Rightarrow> dereg_loop param hed' (nxt n') prev (h'(a := None))))
               else dereg_loop param hed (nxt n) tmp h))"

declare dereg_loop.simps [code]

definition deregistr :: "nat \<Rightarrow> 'w disp_state \<Rightarrow> (int \<times> 'w disp_state) option" where
  "deregistr param s =
     (case dereg_loop param (head s) (head s) (head s) (regs s) of
        None \<Rightarrow> None
      | Some (hed, h) \<Rightarrow> Some (IPACM_SUCCESS, s\<lparr>head := hed, regs := h\<rparr>))"

section \<open>ProcessEvt\<close>

text \<open>
  \<open>ipacm_event_stats[data->event]++\<close>, out of bounds for an event that is not below
  \<open>IPACM_EVENT_MAX\<close>.
\<close>

definition count_event :: "ipa_cm_event_id \<Rightarrow> 'w disp_state \<Rightarrow> 'w disp_state option" where
  "count_event ev s =
     (let i = event_num ev in
      if i < length (stats s) then Some (s\<lparr>stats := (stats s)[i := stats s ! i + 1]\<rparr>) else None)"

type_synonym 'w callbacks = "nat \<Rightarrow> ipa_cm_event_id \<Rightarrow> ptr \<Rightarrow> 'w disp_state \<Rightarrow> 'w disp_state option"

text \<open>The node is copied (\<open>tmp1\<close>) before the callback, and the copy gives the next node.\<close>

partial_function (option) process_loop ::
  "'w callbacks \<Rightarrow> ipacm_cmd_q_data \<Rightarrow> ptr \<Rightarrow> 'w disp_state \<Rightarrow> 'w disp_state option" where
  "process_loop cb d tmp s =
     (case tmp of
        None \<Rightarrow> Some s
      | Some a \<Rightarrow>
          (case regs s a of
             None \<Rightarrow> None
           | Some tmp1 \<Rightarrow>
               (case
                  (if event d = ce_event (val tmp1) then
                     (case count_event (event d) s of
                        None \<Rightarrow> None
                      | Some s \<Rightarrow> cb (ce_obj (val tmp1)) (event d) (evt_data d) s)
                   else Some s) of
                  None \<Rightarrow> None
                | Some s' \<Rightarrow> process_loop cb d (nxt tmp1) s')))"

declare process_loop.simps [code]

text \<open>\<open>free\<close> of a block that is not allocated is an error.\<close>

definition free_payload :: "ptr \<Rightarrow> 'w disp_state \<Rightarrow> 'w disp_state option" where
  "free_payload p s =
     (case p of
        None \<Rightarrow> Some s
      | Some a \<Rightarrow> if a \<in> set (payloads s) then Some (s\<lparr>payloads := remove1 a (payloads s)\<rparr>) else None)"

definition ProcessEvt :: "'w callbacks \<Rightarrow> ipacm_cmd_q_data \<Rightarrow> 'w disp_state \<Rightarrow> 'w disp_state option" where
  "ProcessEvt cb d s =
     (case process_loop cb d (head s) s of None \<Rightarrow> None | Some t \<Rightarrow> free_payload (evt_data d) t)"

section \<open>Listeners\<close>

text \<open>
  A listener reacts to an event by a change of its own state; one that ends its life with the event
  (\<open>delete this\<close>, as the interface objects do on link down, on a category change and on
  \<open>IPA_LAN_DELETE_SELF\<close>) runs its destructor, which deregisters it.
\<close>

definition listener_cb :: "(nat \<Rightarrow> ipa_cm_event_id \<Rightarrow> bool) \<Rightarrow> (nat \<Rightarrow> ipa_cm_event_id \<Rightarrow> ptr \<Rightarrow> 'w \<Rightarrow> 'w) \<Rightarrow> 'w callbacks" where
  "listener_cb dies eff ob ev p s =
     (let s = s\<lparr>world := eff ob ev p (world s)\<rparr> in
      if dies ob ev then map_option snd (deregistr ob s) else Some s)"

section \<open>The list of registrations\<close>

text \<open>
  What the list promises: \<open>registr\<close> appends, \<open>deregistr\<close> drops the entries of one object.
\<close>

definition reg_list :: "'w disp_state \<Rightarrow> nat list \<Rightarrow> cmd_evts list \<Rightarrow> bool" where
  "reg_list s as xs = (chain (regs s) (head s) as None \<and> vals (regs s) as = xs)"

definition reg_rel :: "'w disp_state \<Rightarrow> cmd_evts list \<Rightarrow> bool" where
  "reg_rel s xs = (\<exists>as. reg_list s as xs)"

datatype reg_op = Registr ipa_cm_event_id nat ptr | Deregistr nat

fun reg_exec :: "reg_op \<Rightarrow> 'w disp_state \<Rightarrow> ('w disp_state, int) outcome" where
  "reg_exec (Registr ev ob nw) s = (case registr ev ob nw s of None \<Rightarrow> None | Some (r, t) \<Rightarrow> Some ([r], t))"
| "reg_exec (Deregistr ob) s = (case deregistr ob s of None \<Rightarrow> None | Some (r, t) \<Rightarrow> Some ([r], t))"

fun reg_adm :: "reg_op \<Rightarrow> 'w disp_state \<Rightarrow> bool" where
  "reg_adm (Registr ev ob nw) s = (case nw of None \<Rightarrow> True | Some a \<Rightarrow> regs s a = None)"
| "reg_adm (Deregistr ob) s = True"

fun reg_step :: "reg_op \<Rightarrow> cmd_evts list \<Rightarrow> int list \<times> cmd_evts list" where
  "reg_step (Registr ev ob nw) xs =
     (if nw = None then ([IPACM_FAILURE], xs) else ([IPACM_SUCCESS], xs @ [\<lparr>ce_event = ev, ce_obj = ob\<rparr>]))"
| "reg_step (Deregistr ob) xs = ([IPACM_SUCCESS], filter (\<lambda>x. ce_obj x \<noteq> ob) xs)"

end
