(* ===== verification/EvtDispatcher_Props.thy ===== *)
theory EvtDispatcher_Props
  imports EvtDispatcher
begin

text \<open>
  The listener list behaves as a list of registrations, and dispatching an event calls exactly the
  listeners registered for it, in the order of registration, provided an object that deletes itself
  on an event registered that event last; without that proviso the loop reads freed memory.
\<close>

section \<open>The loops on a well-formed list\<close>

fun ptr_hd :: "nat list \<Rightarrow> ptr" where
  "ptr_hd [] = None"
| "ptr_hd (a # as) = Some a"

lemma chain_ptr_hd: "chain h p as None \<Longrightarrow> p = ptr_hd as"
  by (cases as) auto

lemma ptr_hd_chain: "chain h p (as @ bs) None \<Longrightarrow> chain h (ptr_hd bs) bs None"
  by (auto simp: chain_append dest: chain_ptr_hd)

lemma last_node_chain: "chain h (Some p) (as @ [b]) None \<Longrightarrow> last_node h p = Some b"
proof (induction as arbitrary: p)
  case Nil
  then show ?case by (auto simp: last_node.simps [of h b])
next
  case (Cons a as)
  then obtain n where n: "p = a" "h a = Some n" "chain h (nxt n) (as @ [b]) None" by auto
  then obtain q where "nxt n = Some q" by (cases as) auto
  with n Cons.IH show ?case by (simp add: last_node.simps [of h a])
qed

lemma registr_list:
  assumes list: "reg_list s as xs" and fresh: "regs s a = None"
  obtains t where "registr ev ob (Some a) s = Some (IPACM_SUCCESS, t)"
    and "reg_list t (as @ [a]) (xs @ [\<lparr>ce_event = ev, ce_obj = ob\<rparr>])" and "world t = world s"
proof -
  let ?n = "\<lparr>val = \<lparr>ce_event = ev, ce_obj = ob\<rparr>, nxt = None\<rparr>"
  let ?h = "(regs s)(a := Some ?n)"
  have c: "chain (regs s) (head s) as None" and v: "vals (regs s) as = xs" using list by (auto simp: reg_list_def)
  have a: "a \<notin> set as" using chain_fresh [OF c fresh] .
  have c': "chain ?h (head s) as None" using c a by (simp add: chain_upd_notin)
  show ?thesis
  proof (cases as rule: rev_cases)
    case Nil
    with c v show ?thesis
      by (intro that [of "s\<lparr>regs := ?h, head := Some a\<rparr>"]) (simp_all add: registr_def reg_list_def Let_def)
  next
    case (snoc bs b)
    obtain p where p: "head s = Some p" using c snoc by (cases bs) auto
    have l: "last_node ?h p = Some b" using c' p snoc last_node_chain by metis
    have ab: "a \<noteq> b" using a snoc by auto
    obtain m where "regs s b = Some m" using chain_allocated [OF c, of b] snoc by auto
    with ab have m: "?h b = Some m" by simp
    let ?h' = "?h(b := Some (m\<lparr>nxt := Some a\<rparr>))"
    have "chain ?h' (head s) (bs @ [b, a]) None"
      by (rule chain_snoc) (use c' m snoc a in auto)
    moreover have "vals ?h' (as @ [a]) = xs @ [val ?n]"
      using vals_relink [where h = ?h and b = b and m = m] m v a ab by simp
    ultimately have "reg_list (s\<lparr>regs := ?h'\<rparr>) (as @ [a]) (xs @ [\<lparr>ce_event = ev, ce_obj = ob\<rparr>])"
      using snoc by (simp add: reg_list_def)
    moreover have "registr ev ob (Some a) s = Some (IPACM_SUCCESS, s\<lparr>regs := ?h'\<rparr>)"
      using l m p ab by (simp add: registr_def Let_def set_next_def)
    ultimately show ?thesis using that by simp
  qed
qed


text \<open>One iteration of \<open>deregistr\<close> on a node of the object: it is unlinked and freed.\<close>

lemma dereg_step:
  assumes c: "chain h hed (as @ b # bs) None" and prev: "as \<noteq> [] \<Longrightarrow> prev = Some (last as)"
    and n: "h b = Some n" and ob: "ce_obj (val n) = ob"
  shows "\<exists>hed1 h1. dereg_loop ob hed (Some b) prev h = dereg_loop ob hed1 (ptr_hd bs) prev h1 \<and>
     chain h1 hed1 (as @ bs) None \<and> (\<forall>x. x \<noteq> b \<longrightarrow> val (the (h1 x)) = val (the (h x))) \<and>
     (\<forall>x. h x = None \<or> x = b \<longrightarrow> h1 x = None)"
proof -
  have d: "distinct (as @ b # bs)" using chain_distinct [OF c] .
  have c1: "chain h hed as (Some b)" and c2: "chain h (nxt n) bs None" using c n by (auto simp: chain_append)
  have nx: "nxt n = ptr_hd bs" using c2 by (rule chain_ptr_hd)
  show ?thesis
  proof (cases as rule: rev_cases)
    case Nil
    then have "dereg_loop ob hed (Some b) prev h = dereg_loop ob (nxt n) (ptr_hd bs) prev (h(b := None))"
      using c1 n ob nx by (simp add: dereg_loop.simps [of ob "Some b" "Some b"])
    moreover have "chain (h(b := None)) (nxt n) bs None" using c2 d by (simp add: chain_upd_notin)
    ultimately show ?thesis using Nil by (intro exI [of _ "nxt n"] exI [of _ "h(b := None)"]) auto
  next
    case (snoc as' l)
    obtain m where m: "h l = Some m" using chain_allocated [OF c, of l] snoc by auto
    let ?h = "h(l := Some (m\<lparr>nxt := nxt n\<rparr>))"
    have bl: "b \<noteq> l" "hed \<noteq> Some b" using d c1 snoc by (cases as'; auto)+
    have "chain ?h hed (as' @ [l] @ bs) None"
      by (rule chain_unlink [of h hed as' l b bs]) (use c snoc m n in auto)
    then have "chain (?h(b := None)) hed (as @ bs) None" using d snoc by (subst chain_upd_notin) auto
    moreover have "dereg_loop ob hed (Some b) prev h = dereg_loop ob hed (ptr_hd bs) prev (?h(b := None))"
      using n ob nx bl m prev snoc by (auto simp: dereg_loop.simps [of ob hed "Some b"] set_next_def)
    ultimately show ?thesis using m bl by (intro exI [of _ hed] exI [of _ "?h(b := None)"]) auto
  qed
qed

lemma dereg_loop_list:
  assumes "chain h hed (as @ bs) None" and "as \<noteq> [] \<Longrightarrow> prev = Some (last as)"
    and keep: "keep = filter (\<lambda>a. ce_obj (val (the (h a))) \<noteq> ob) bs"
  shows "\<exists>hed' h'. dereg_loop ob hed (ptr_hd bs) prev h = Some (hed', h') \<and>
     chain h' hed' (as @ keep) None \<and> vals h' (as @ keep) = vals h (as @ keep) \<and>
     (\<forall>x. h x = None \<longrightarrow> h' x = None) \<and> (\<forall>b\<in>set bs. b \<notin> set keep \<longrightarrow> h' b = None)"
  using assms
proof (induction bs arbitrary: as hed h prev keep)
  case Nil
  then show ?case by (simp add: dereg_loop.simps)
next
  case (Cons b bs)
  have d: "distinct (as @ b # bs)" using chain_distinct [OF Cons.prems(1)] .
  obtain n where n: "h b = Some n" using chain_allocated [OF Cons.prems(1), of b] by auto
  have c1: "chain h hed as (Some b)" and c2: "chain h (nxt n) bs None"
    using Cons.prems(1) n by (auto simp: chain_append)
  have nx: "nxt n = ptr_hd bs" using c2 by (rule chain_ptr_hd)
  show ?case
  proof (cases "ce_obj (val n) = ob")
    case False
    then have "chain h hed ((as @ [b]) @ bs) None" using Cons.prems(1) by simp
    from Cons.IH [OF this _ refl, of "Some b"]
    obtain hed' h' where r: "dereg_loop ob hed (ptr_hd bs) (Some b) h = Some (hed', h')"
      "chain h' hed' (as @ keep) None" "vals h' (as @ keep) = vals h (as @ keep)"
      "\<forall>x. h x = None \<longrightarrow> h' x = None"
      "\<forall>x\<in>set bs. x \<notin> set keep \<longrightarrow> h' x = None" "b \<in> set keep"
      using False n Cons.prems(3) by auto
    with False n nx show ?thesis by (auto simp: dereg_loop.simps [of ob hed "Some b"])
  next
    case True
    obtain hed1 h1 where s: "dereg_loop ob hed (Some b) prev h = dereg_loop ob hed1 (ptr_hd bs) prev h1"
      and c: "chain h1 hed1 (as @ bs) None" and v: "\<And>x. x \<noteq> b \<Longrightarrow> val (the (h1 x)) = val (the (h x))"
      and f: "\<And>x. h x = None \<or> x = b \<Longrightarrow> h1 x = None"
      using dereg_step [OF Cons.prems(1,2) n True] by metis
    have "b \<notin> set as" "b \<notin> set bs" using d by auto
    then have same: "vals h1 xs = vals h xs" if "set xs \<subseteq> set as \<union> set bs" for xs
    proof -
      from that \<open>b \<notin> set as\<close> \<open>b \<notin> set bs\<close> have "b \<notin> set xs" by auto
      then show ?thesis using v by (auto simp: vals_def intro!: v)
    qed
    have keep: "keep = filter (\<lambda>a. ce_obj (val (the (h1 a))) \<noteq> ob) bs"
    proof -
      have "filter (\<lambda>a. ce_obj (val (the (h a))) \<noteq> ob) bs = filter (\<lambda>a. ce_obj (val (the (h1 a))) \<noteq> ob) bs"
        by (rule filter_cong [OF refl]) (use v \<open>b \<notin> set bs\<close> in metis)
      with True n Cons.prems(3) show ?thesis by simp
    qed
    from Cons.IH [OF c Cons.prems(2) keep]
    obtain hed' h' where r: "dereg_loop ob hed1 (ptr_hd bs) prev h1 = Some (hed', h')"
      "chain h' hed' (as @ keep) None" "vals h' (as @ keep) = vals h1 (as @ keep)"
      "\<forall>x. h1 x = None \<longrightarrow> h' x = None" "\<forall>x\<in>set bs. x \<notin> set keep \<longrightarrow> h' x = None"
      by blast
    have "vals h1 (as @ keep) = vals h (as @ keep)" by (rule same) (auto simp: keep)
    with r s f show ?thesis by auto
  qed
qed


lemma deregistr_list:
  assumes "reg_list s as xs"
  obtains t where "deregistr ob s = Some (IPACM_SUCCESS, t)"
    and "reg_list t (filter (\<lambda>a. ce_obj (val (the (regs s a))) \<noteq> ob) as) (filter (\<lambda>x. ce_obj x \<noteq> ob) xs)"
    and "stats t = stats s" and "world t = world s" and "payloads t = payloads s"
    and "\<forall>a\<in>set as. ce_obj (val (the (regs s a))) = ob \<longrightarrow> regs t a = None"
proof -
  let ?keep = "filter (\<lambda>a. ce_obj (val (the (regs s a))) \<noteq> ob) as"
  have c: "chain (regs s) (head s) as None" and v: "vals (regs s) as = xs" using assms by (auto simp: reg_list_def)
  obtain hed' h' where r: "dereg_loop ob (head s) (ptr_hd as) (head s) (regs s) = Some (hed', h')"
    "chain h' hed' ?keep None" "vals h' ?keep = vals (regs s) ?keep" "\<forall>a\<in>set as. a \<notin> set ?keep \<longrightarrow> h' a = None"
    using dereg_loop_list [of "regs s" "head s" "[]" as "head s" ?keep ob] c by auto
  have "vals (regs s) ?keep = filter (\<lambda>x. ce_obj x \<noteq> ob) xs"
    unfolding v [symmetric] by (simp add: vals_def filter_map o_def)
  then show ?thesis using r chain_ptr_hd [OF c]
    by (intro that [of "s\<lparr>head := hed', regs := h'\<rparr>"]) (auto simp: deregistr_def reg_list_def)
qed

lemma reg_simulates:
  assumes "reg_rel s xs" and "reg_adm x s"
  shows "\<exists>os t ys. reg_exec x s = Some (os, t) \<and> reg_step x xs = (os, ys) \<and> reg_rel t ys"
proof -
  obtain as where l: "reg_list s as xs" using assms(1) by (auto simp: reg_rel_def)
  show ?thesis
  proof (cases x)
    case (Registr ev ob nw)
    show ?thesis
    proof (cases nw)
      case None
      with Registr assms(1) show ?thesis by (auto simp: registr_def)
    next
      case (Some a)
      with Registr assms(2) have "regs s a = None" by simp
      from registr_list [OF l this, of ev ob] obtain t where "registr ev ob (Some a) s = Some (IPACM_SUCCESS, t)"
        "reg_list t (as @ [a]) (xs @ [\<lparr>ce_event = ev, ce_obj = ob\<rparr>])" by blast
      with Registr Some show ?thesis by (auto simp: reg_rel_def)
    qed
  next
    case (Deregistr ob)
    obtain t where "deregistr ob s = Some (IPACM_SUCCESS, t)"
      "reg_list t (filter (\<lambda>a. ce_obj (val (the (regs s a))) \<noteq> ob) as) (filter (\<lambda>x. ce_obj x \<noteq> ob) xs)"
      by (rule deregistr_list [OF l, of ob])
    with Deregistr show ?thesis by (auto simp: reg_rel_def)
  qed
qed

interpretation reg: op_refinement reg_exec reg_adm reg_rel reg_step
  by unfold_locales (rule reg_simulates)


section \<open>Dispatching\<close>

text \<open>The objects that die while an event is dispatched, and the registrations that survive it.\<close>

definition dies_in :: "(nat \<Rightarrow> ipa_cm_event_id \<Rightarrow> bool) \<Rightarrow> ipa_cm_event_id \<Rightarrow> cmd_evts list \<Rightarrow> nat \<Rightarrow> bool" where
  "dies_in dies ev xs ob = (dies ob ev \<and> \<lparr>ce_event = ev, ce_obj = ob\<rparr> \<in> set xs)"

text \<open>An object that dies on the event has no registration behind the one for that event.\<close>

fun registered_last :: "(nat \<Rightarrow> ipa_cm_event_id \<Rightarrow> bool) \<Rightarrow> ipa_cm_event_id \<Rightarrow> cmd_evts list \<Rightarrow> bool" where
  "registered_last dies ev [] = True"
| "registered_last dies ev (x # xs) =
     ((ce_event x = ev \<and> dies (ce_obj x) ev \<longrightarrow> (\<forall>y\<in>set xs. ce_obj y \<noteq> ce_obj x)) \<and> registered_last dies ev xs)"

definition called :: "ipa_cm_event_id \<Rightarrow> cmd_evts list \<Rightarrow> nat list" where
  "called ev xs = map ce_obj (filter (\<lambda>x. ce_event x = ev) xs)"

definition survivors :: "(nat \<Rightarrow> ipa_cm_event_id \<Rightarrow> bool) \<Rightarrow> ipa_cm_event_id \<Rightarrow> cmd_evts list \<Rightarrow> cmd_evts list \<Rightarrow> cmd_evts list" where
  "survivors dies ev ys xs = filter (\<lambda>x. \<not> dies_in dies ev ys (ce_obj x)) xs"

text \<open>What the dispatcher state is after the event has gone to the listeners \<open>obs\<close>.\<close>

definition dispatched_to :: "(nat \<Rightarrow> ipa_cm_event_id \<Rightarrow> ptr \<Rightarrow> 'w \<Rightarrow> 'w) \<Rightarrow> ipacm_cmd_q_data \<Rightarrow> nat list \<Rightarrow> 'w disp_state \<Rightarrow> 'w disp_state \<Rightarrow> bool" where
  "dispatched_to eff d obs s t =
     (world t = fold (\<lambda>ob. eff ob (event d) (evt_data d)) obs (world s) \<and>
      stats t = (stats s)[event_num (event d) := stats s ! event_num (event d) + of_nat (length obs)] \<and>
      payloads t = payloads s)"

lemma survivors_Cons_skip:
  "ce_event y \<noteq> ev \<or> \<not> dies (ce_obj y) ev \<Longrightarrow> survivors dies ev (y # ys) xs = survivors dies ev ys xs"
  by (auto simp: survivors_def dies_in_def intro: filter_cong)

lemma survivors_Cons_dies:
  assumes "ce_event y = ev" and "dies (ce_obj y) ev" and "\<forall>x\<in>set ys. ce_obj x \<noteq> ce_obj y"
  shows "survivors dies ev (y # ys) (us @ y # ys) = survivors dies ev ys (filter (\<lambda>x. ce_obj x \<noteq> ce_obj y) us @ ys)"
proof -
  have y: "y = \<lparr>ce_event = ev, ce_obj = ce_obj y\<rparr>" using assms(1) by (cases y) simp
  then have "dies_in dies ev (y # ys) ob \<longleftrightarrow> ob = ce_obj y \<or> dies_in dies ev ys ob" for ob
    using assms(2) by (auto simp: dies_in_def)
  with assms(3) show ?thesis by (auto simp: survivors_def intro!: filter_cong)
qed

lemma count_event_Some:
  "event_num ev < length (stats s) \<Longrightarrow>
     count_event ev s = Some (s\<lparr>stats := (stats s)[event_num ev := stats s ! event_num ev + 1]\<rparr>)"
  by (simp add: count_event_def Let_def)

lemma dispatched_to_Cons:
  assumes "world s1 = eff ob (event d) (evt_data d) (world s)" and "payloads s1 = payloads s"
    and "stats s1 = (stats s)[event_num (event d) := stats s ! event_num (event d) + 1]"
    and "event_num (event d) < length (stats s)" and "dispatched_to eff d obs s1 t"
  shows "dispatched_to eff d (ob # obs) s t"
  using assms by (simp add: dispatched_to_def add.assoc)

lemma process_loop_list:
  assumes "reg_list s (as @ bs) (us @ ys)" and "length as = length us"
    and "registered_last dies (event d) ys" and "event_num (event d) < length (stats s)"
  shows "\<exists>t as'. process_loop (listener_cb dies eff) d (ptr_hd bs) s = Some t \<and>
     reg_list t as' (survivors dies (event d) ys (us @ ys)) \<and> dispatched_to eff d (called (event d) ys) s t"
  using assms
proof (induction bs arbitrary: as us ys s)
  case Nil
  then have "ys = []" by (auto simp: reg_list_def vals_def dest: arg_cong [where f = length])
  with Nil show ?case
    by (auto simp: process_loop.simps [of _ _ None] survivors_def dies_in_def dispatched_to_def called_def)
next
  case (Cons b bs)
  have c: "chain (regs s) (head s) (as @ b # bs) None" and v: "vals (regs s) as = us" "vals (regs s) (b # bs) = ys"
    using Cons.prems(1,2) by (auto simp: reg_list_def vals_def)
  obtain n where n: "regs s b = Some n" using chain_allocated [OF c, of b] by auto
  have nx: "nxt n = ptr_hd bs" using c n by (auto simp: chain_append dest: chain_ptr_hd)
  obtain y ys' where y: "ys = y # ys'" "val n = y" "vals (regs s) bs = ys'" using v(2) n by auto
  let ?cb = "listener_cb dies eff"
  show ?case
  proof (cases "event d = ce_event y")
    case False
    have "\<exists>t as'. process_loop ?cb d (ptr_hd bs) s = Some t \<and>
        reg_list t as' (survivors dies (event d) ys' ((us @ [y]) @ ys')) \<and> dispatched_to eff d (called (event d) ys') s t"
      by (rule Cons.IH [where as = "as @ [b]"]) (use Cons.prems y in auto)
    with False n nx y show ?thesis
      by (auto simp: process_loop.simps [of _ _ "Some b"] survivors_Cons_skip called_def)
  next
    case True
    let ?s = "s\<lparr>stats := (stats s)[event_num (event d) := stats s ! event_num (event d) + 1],
      world := eff (ce_obj y) (event d) (evt_data d) (world s)\<rparr>"
    have step: "process_loop ?cb d (Some b) s =
        (case (if dies (ce_obj y) (event d) then map_option snd (deregistr (ce_obj y) ?s) else Some ?s) of
           None \<Rightarrow> None | Some t \<Rightarrow> process_loop ?cb d (ptr_hd bs) t)"
      using True n nx y Cons.prems(4)
      by (subst process_loop.simps) (simp add: count_event_Some listener_cb_def Let_def split: option.split)
    have l: "reg_list ?s (as @ b # bs) (us @ ys)" using Cons.prems(1) by (simp add: reg_list_def)
    have cl: "called (event d) ys = ce_obj y # called (event d) ys'" using y(1) True by (simp add: called_def)
    show ?thesis
    proof (cases "dies (ce_obj y) (event d)")
      case False
      have "\<exists>t as'. process_loop ?cb d (ptr_hd bs) ?s = Some t \<and>
          reg_list t as' (survivors dies (event d) ys' ((us @ [y]) @ ys')) \<and> dispatched_to eff d (called (event d) ys') ?s t"
        by (rule Cons.IH [where as = "as @ [b]"]) (use l Cons.prems y in auto)
      then obtain t as' where t: "process_loop ?cb d (ptr_hd bs) ?s = Some t"
        "reg_list t as' (survivors dies (event d) ys' ((us @ [y]) @ ys'))" "dispatched_to eff d (called (event d) ys') ?s t"
        by blast
      have "dispatched_to eff d (called (event d) ys) s t"
        unfolding cl by (rule dispatched_to_Cons [OF _ _ _ _ t(3)]) (use Cons.prems(4) in simp_all)
      with t(1,2) step False y(1) show ?thesis by (auto simp: survivors_Cons_skip)
    next
      case dies: True
      let ?o = "ce_obj y"
      have others: "\<forall>x\<in>set ys'. ce_obj x \<noteq> ?o" and last: "registered_last dies (event d) ys'"
        using Cons.prems(3) y(1) True dies by auto
      have bs: "ce_obj (val (the (regs s a))) \<noteq> ?o" if "a \<in> set bs" for a
        using others that y(3) by (auto simp: vals_def)
      obtain u where u: "deregistr ?o ?s = Some (IPACM_SUCCESS, u)"
        "reg_list u (filter (\<lambda>a. ce_obj (val (the (regs ?s a))) \<noteq> ?o) (as @ b # bs)) (filter (\<lambda>x. ce_obj x \<noteq> ?o) (us @ ys))"
        and su: "stats u = stats ?s" "world u = world ?s" "payloads u = payloads ?s"
        by (rule deregistr_list [OF l, of ?o])
      let ?as = "filter (\<lambda>a. ce_obj (val (the (regs s a))) \<noteq> ?o) as" and ?us = "filter (\<lambda>x. ce_obj x \<noteq> ?o) us"
      have "filter (\<lambda>a. ce_obj (val (the (regs ?s a))) \<noteq> ?o) (as @ b # bs) = ?as @ bs"
        using bs n y(2) by (simp add: filter_True)
      moreover have "filter (\<lambda>x. ce_obj x \<noteq> ?o) (us @ ys) = ?us @ ys'"
        using others y(1) by (simp add: filter_True)
      ultimately have lu: "reg_list u (?as @ bs) (?us @ ys')" using u(2) by simp
      have len: "length ?as = length ?us" unfolding v(1) [symmetric] by (simp add: vals_def filter_map o_def)
      have st: "event_num (event d) < length (stats u)" using Cons.prems(4) su(1) by simp
      obtain t as' where t: "process_loop ?cb d (ptr_hd bs) u = Some t"
        "reg_list t as' (survivors dies (event d) ys' (?us @ ys'))" "dispatched_to eff d (called (event d) ys') u t"
        using Cons.IH [OF lu len last st] by blast
      have "dispatched_to eff d (called (event d) ys) s t"
        unfolding cl by (rule dispatched_to_Cons [OF _ _ _ _ t(3)]) (use su Cons.prems(4) in simp_all)
      moreover have "survivors dies (event d) ys (us @ ys) = survivors dies (event d) ys' (?us @ ys')"
        unfolding y(1) by (rule survivors_Cons_dies) (use True dies others in auto)
      ultimately show ?thesis using t(1,2) step dies u(1) by auto
    qed
  qed
qed


lemma process_loop_skip:
  assumes "chain (regs s) p (as @ bs) None" and "\<forall>x\<in>set (vals (regs s) as). ce_event x \<noteq> event d"
  shows "process_loop cb d p s = process_loop cb d (ptr_hd bs) s"
  using assms
proof (induction as arbitrary: p)
  case Nil
  then show ?case by (auto dest: chain_ptr_hd)
next
  case (Cons a as)
  then obtain n where n: "p = Some a" "regs s a = Some n" "chain (regs s) (nxt n) (as @ bs) None" by auto
  have "process_loop cb d p s = process_loop cb d (nxt n) s"
    using n(1,2) Cons.prems(2) by (subst process_loop.simps) auto
  also have "\<dots> = process_loop cb d (ptr_hd bs) s" using n(3) Cons by simp
  finally show ?case .
qed

lemma vals_split: "vals h as = us @ ys \<Longrightarrow> \<exists>bs cs. as = bs @ cs \<and> vals h bs = us \<and> vals h cs = ys"
  by (auto simp: vals_def map_eq_append_conv)

text \<open>The listener at the head of the remaining list deletes itself; the next node was its own, too.\<close>

lemma process_loop_fault:
  assumes l: "reg_list s (as @ a # b # cs) xs" and ev: "event_num (event d) < length (stats s)"
    and n: "regs s a = Some n" "ce_event (val n) = event d" "dies (ce_obj (val n)) (event d)"
    and m: "regs s b = Some m" "ce_obj (val m) = ce_obj (val n)"
  shows "process_loop (listener_cb dies eff) d (Some a) s = None"
proof -
  let ?s = "s\<lparr>stats := (stats s)[event_num (event d) := stats s ! event_num (event d) + 1],
      world := eff (ce_obj (val n)) (event d) (evt_data d) (world s)\<rparr>"
  have nx: "nxt n = Some b" using l n(1) by (auto simp: reg_list_def chain_append)
  have l': "reg_list ?s (as @ a # b # cs) xs" using l by (simp add: reg_list_def)
  obtain u where u: "deregistr (ce_obj (val n)) ?s = Some (IPACM_SUCCESS, u)" and
    f: "\<forall>x\<in>set (as @ a # b # cs). ce_obj (val (the (regs ?s x))) = ce_obj (val n) \<longrightarrow> regs u x = None"
    by (rule deregistr_list [OF l', of "ce_obj (val n)"])
  have "regs u b = None" using f m by simp
  then show ?thesis using n nx u count_event_Some [OF ev]
    by (simp add: process_loop.simps [of _ _ "Some a"] process_loop.simps [of _ _ "Some b"] listener_cb_def Let_def)
qed

section \<open>Properties\<close>

text \<open>
  C13. The registration list is memory safe and behaves as a list: every sequence of \<open>registr\<close> and
  \<open>deregistr\<close> calls (with \<open>malloc\<close> failing or not) runs without invalid access, terminates, returns
  what the specification returns, appends each new registration and drops exactly those of a
  deregistered object, those at the head of the list included.
\<close>

theorem registrations_refine_list:
  fixes s :: "'w disp_state"
  assumes "reg_rel s xs" and "admissible_run reg_exec reg_adm ops s"
  shows "\<exists>os t ys. run_ops reg_exec ops s = Some (os, t) \<and> run_spec reg_step ops xs = (os, ys) \<and> reg_rel t ys"
  using assms by (rule reg.run_refines)

definition disp0 :: "nat list disp_state" where
  "disp0 = \<lparr>regs = Map.empty, head = None, stats = replicate 55 0, payloads = [9], world = []\<rparr>"

lemma reg_rel_disp0: "reg_rel disp0 []"
  by (auto simp: reg_rel_def reg_list_def disp0_def intro!: exI [of _ "[]"])

definition two_wans :: "reg_op list" where
  "two_wans = [Registr IPA_LINK_DOWN_EVENT 100 (Some 1), Registr IPA_ADDR_ADD_EVENT 200 (Some 2),
     Registr IPA_LINK_DOWN_EVENT 200 (Some 3)]"

theorem registrations_refine_list_witness:
  "\<exists>os t ys. run_ops reg_exec (two_wans @ [Deregistr 100, Registr IPA_CFG_CHANGE_EVENT 300 (Some 1), Deregistr 200]) disp0 = Some (os, t) \<and>
     run_spec reg_step (two_wans @ [Deregistr 100, Registr IPA_CFG_CHANGE_EVENT 300 (Some 1), Deregistr 200]) [] = (os, ys) \<and> reg_rel t ys"
  by (rule registrations_refine_list [OF reg_rel_disp0]) code_simp


text \<open>
  C12. Dispatch. When every object that deletes itself on an event registered that event last (the
  convention the interface manager notes beside \<open>IPA_LAN_DELETE_SELF\<close>), \<open>ProcessEvt\<close> ends without an
  invalid access, runs the callbacks of exactly the listeners registered for the event, in the order
  of registration, counts each of them, drops the registrations of the deleted objects and only
  those, and frees the event data once.
\<close>

theorem dispatch_calls_listeners:
  fixes s :: "'w disp_state"
  assumes "reg_rel s xs" and "registered_last dies (event d) xs" and "event_num (event d) < length (stats s)"
    and "\<forall>p\<in>set_option (evt_data d). p \<in> set (payloads s)"
  shows "\<exists>t. ProcessEvt (listener_cb dies eff) d s = Some t \<and>
     reg_rel t (survivors dies (event d) xs xs) \<and>
     world t = fold (\<lambda>ob. eff ob (event d) (evt_data d)) (called (event d) xs) (world s) \<and>
     stats t ! event_num (event d) = stats s ! event_num (event d) + of_nat (length (called (event d) xs)) \<and>
     payloads t = (case evt_data d of None \<Rightarrow> payloads s | Some p \<Rightarrow> remove1 p (payloads s))"
proof -
  obtain as where l: "reg_list s ([] @ as) ([] @ xs)" using assms(1) by (auto simp: reg_rel_def)
  obtain t as' where t: "process_loop (listener_cb dies eff) d (ptr_hd as) s = Some t"
    "reg_list t as' (survivors dies (event d) xs xs)" "dispatched_to eff d (called (event d) xs) s t"
    using process_loop_list [OF l _ assms(2,3), where eff = eff] by auto
  have "ptr_hd as = head s" using l by (auto simp: reg_list_def dest: chain_ptr_hd)
  moreover define u where "u = t\<lparr>payloads := (case evt_data d of None \<Rightarrow> payloads s | Some p \<Rightarrow> remove1 p (payloads s))\<rparr>"
  moreover have u: "free_payload (evt_data d) t = Some u" "regs u = regs t" "head u = head t"
    "stats u = stats t" "world u = world t"
    "payloads u = (case evt_data d of None \<Rightarrow> payloads s | Some p \<Rightarrow> remove1 p (payloads s))"
    using assms(4) t(3) by (auto simp: u_def free_payload_def dispatched_to_def split: option.split)
  ultimately have "ProcessEvt (listener_cb dies eff) d s = Some u" using t(1) by (simp add: ProcessEvt_def)
  moreover have "reg_rel u (survivors dies (event d) xs xs)"
    using t(2) u(2,3) by (auto simp: reg_rel_def reg_list_def)
  ultimately show ?thesis using u t(3) assms(3) by (simp add: dispatched_to_def)
qed

text \<open>Two interfaces, each registered for the link down event last; the first is deleted by it.\<close>

definition disp1 :: "nat list disp_state" where
  "disp1 = snd (the (run_ops reg_exec two_wans disp0))"

definition two_wans_list :: "cmd_evts list" where
  "two_wans_list = [\<lparr>ce_event = IPA_LINK_DOWN_EVENT, ce_obj = 100\<rparr>, \<lparr>ce_event = IPA_ADDR_ADD_EVENT, ce_obj = 200\<rparr>,
     \<lparr>ce_event = IPA_LINK_DOWN_EVENT, ce_obj = 200\<rparr>]"

lemma reg_rel_run:
  fixes s :: "'w disp_state"
  assumes "reg_rel s xs" and "admissible_run reg_exec reg_adm ops s" and "snd (run_spec reg_step ops xs) = ys"
  shows "reg_rel (snd (the (run_ops reg_exec ops s))) ys"
  using reg.run_refines [OF assms(1,2)] assms(3) by auto

lemma reg_rel_disp1: "reg_rel disp1 two_wans_list"
  unfolding disp1_def by (rule reg_rel_run [OF reg_rel_disp0]; code_simp)

theorem dispatch_calls_listeners_witness:
  "\<exists>t. ProcessEvt (listener_cb (\<lambda>ob ev. ob = 100) (\<lambda>ob ev p w. w @ [ob])) \<lparr>event = IPA_LINK_DOWN_EVENT, evt_data = Some 9\<rparr> disp1 = Some t \<and>
     reg_rel t (drop 1 two_wans_list) \<and> world t = [100, 200] \<and> payloads t = []"
proof -
  let ?dies = "\<lambda>ob (ev::ipa_cm_event_id). ob = (100::nat)" and ?eff = "\<lambda>ob (ev::ipa_cm_event_id) (p::ptr) w. w @ [ob::nat]"
  let ?d = "\<lparr>event = IPA_LINK_DOWN_EVENT, evt_data = Some 9\<rparr>"
  have 1: "registered_last ?dies (event ?d) two_wans_list" by (simp add: two_wans_list_def)
  have 2: "event_num (event ?d) < length (stats disp1)" by code_simp
  have 3: "\<forall>p\<in>set_option (evt_data ?d). p \<in> set (payloads disp1)" by code_simp
  have 4: "survivors ?dies (event ?d) two_wans_list two_wans_list = drop 1 two_wans_list"
    by (simp add: survivors_def dies_in_def two_wans_list_def)
  have 5: "called (event ?d) two_wans_list = [100, 200]" by (simp add: called_def two_wans_list_def)
  have 6: "world disp1 = []" "payloads disp1 = [9]" by code_simp+
  show ?thesis using dispatch_calls_listeners [OF reg_rel_disp1 1 2 3, of ?eff] unfolding 4 5 6 by auto
qed

text \<open>
  The convention is necessary: when an object deletes itself on an event and its next
  registration directly follows, \<open>ProcessEvt\<close> continues with the node the destructor has freed. The
  interface manager creates this order for a WAN object: \<open>IPA_CFG_CHANGE_EVENT\<close>, on which
  \<open>IPACM_Wan\<close> deletes itself in ECM mode, is followed by \<open>IPA_WAN_XLAT_CONNECT_EVENT\<close>.
\<close>

theorem self_delete_not_last_faults:
  fixes s :: "'w disp_state"
  assumes "reg_rel s (us @ x # y # ys)" and "\<forall>u\<in>set us. ce_event u \<noteq> event d"
    and "ce_event x = event d" and "dies (ce_obj x) (event d)" and "ce_obj y = ce_obj x"
    and "event_num (event d) < length (stats s)"
  shows "ProcessEvt (listener_cb dies eff) d s = None"
proof -
  obtain zs where z: "reg_list s zs (us @ x # y # ys)" using assms(1) by (auto simp: reg_rel_def)
  then obtain as bs where as: "zs = as @ bs" "vals (regs s) as = us" "vals (regs s) bs = x # y # ys"
    using vals_split [of "regs s" zs us] by (auto simp: reg_list_def)
  then obtain a b cs where bs: "bs = a # b # cs" "val (the (regs s a)) = x" "val (the (regs s b)) = y"
    by (auto simp: vals_def)
  have c: "chain (regs s) (head s) (as @ a # b # cs) None" using z as bs by (simp add: reg_list_def)
  then obtain n m where nm: "regs s a = Some n" "regs s b = Some m"
    using chain_allocated [OF c, of a] chain_allocated [OF c, of b] by auto
  have "process_loop (listener_cb dies eff) d (Some a) s = None"
    by (rule process_loop_fault [of s as a b cs _ _ n _ m]) (use z as bs nm assms in auto)
  then show ?thesis using process_loop_skip [of s "head s" as "a # b # cs" d] c as(2) assms(2)
    by (simp add: ProcessEvt_def)
qed

text \<open>The registrations \<open>IPACM_IfaceManager::create_iface_instance\<close> makes for a WAN object in ECM mode.\<close>

definition ecm_wan_ops :: "reg_op list" where
  "ecm_wan_ops = map (\<lambda>(i, ev). Registr ev 500 (Some i)) (zip [1..<11]
     [IPA_ADDR_ADD_EVENT, IPA_WAN_UPSTREAM_ROUTE_ADD_EVENT, IPA_WAN_UPSTREAM_ROUTE_DEL_EVENT,
      IPA_FIREWALL_CHANGE_EVENT, IPA_NEIGH_CLIENT_IP_ADDR_ADD_EVENT, IPA_SW_ROUTING_ENABLE,
      IPA_SW_ROUTING_DISABLE, IPA_CFG_CHANGE_EVENT, IPA_WAN_XLAT_CONNECT_EVENT, IPA_LINK_DOWN_EVENT])"

definition ecm_wan_prefix :: "cmd_evts list" where
  "ecm_wan_prefix = map (\<lambda>ev. \<lparr>ce_event = ev, ce_obj = 500\<rparr>)
     [IPA_ADDR_ADD_EVENT, IPA_WAN_UPSTREAM_ROUTE_ADD_EVENT, IPA_WAN_UPSTREAM_ROUTE_DEL_EVENT,
      IPA_FIREWALL_CHANGE_EVENT, IPA_NEIGH_CLIENT_IP_ADDR_ADD_EVENT, IPA_SW_ROUTING_ENABLE, IPA_SW_ROUTING_DISABLE]"

lemma reg_rel_ecm_wan:
  "reg_rel (snd (the (run_ops reg_exec ecm_wan_ops disp0)))
     (ecm_wan_prefix @ \<lparr>ce_event = IPA_CFG_CHANGE_EVENT, ce_obj = 500\<rparr> #
      \<lparr>ce_event = IPA_WAN_XLAT_CONNECT_EVENT, ce_obj = 500\<rparr> # [\<lparr>ce_event = IPA_LINK_DOWN_EVENT, ce_obj = 500\<rparr>])"
  by (rule reg_rel_run [OF reg_rel_disp0]; code_simp)

theorem self_delete_not_last_faults_witness:
  "ProcessEvt (listener_cb (\<lambda>ob ev. ev = IPA_CFG_CHANGE_EVENT) (\<lambda>ob ev p w. w @ [ob]))
     \<lparr>event = IPA_CFG_CHANGE_EVENT, evt_data = None\<rparr> (snd (the (run_ops reg_exec ecm_wan_ops disp0))) = None"
  by (rule self_delete_not_last_faults [OF reg_rel_ecm_wan]; code_simp)

end
