(* ===== verification/Iface_Table.thy ===== *)
theory Iface_Table
  imports IPACM_Prelude
begin

text \<open>
  The interface table of the configuration (\<open>ipa_ifi_dev_name_t\<close>, \<open>IPACM_Config::iface_table\<close>) and
  \<open>IPACM_Iface::iface_ipa_index_query\<close>, which maps a Linux interface index to an index of the
  table. The name the kernel has for an index (\<open>socket\<close> and \<open>SIOCGIFNAME\<close>) is the argument
  \<open>if_name\<close>, with \<open>None\<close> for a failing call.
\<close>

datatype ipacm_iface_type =
  LAN_IF | WLAN_IF | WAN_IF | VIRTUAL_IF | ETH_IF | EMBMS_IF | ODU_IF | UNKNOWN_IF

datatype ipacm_cradle_iface_mode = ROUTER | BRIDGE

datatype ipacm_wlan_access_mode = FULL | INTERNET

record ipa_ifi_dev_name_t =
  iface_name :: string
  if_cat :: ipacm_iface_type
  if_mode :: ipacm_cradle_iface_mode
  wlan_mode :: ipacm_wlan_access_mode
  netlink_interface_index :: int

text \<open>The part of \<open>IPACM_Config\<close> that is read here; a table that is not allocated is \<open>None\<close>.\<close>

record iface_cfg =
  iface_table :: "ipa_ifi_dev_name_t list option"
  ipa_num_ipa_interfaces :: nat
  ipa_virtual_iface_name :: string

definition IPA_IFACE_NAME_LEN :: nat where "IPA_IFACE_NAME_LEN = 16"

definition INVALID_IFACE :: int where "INVALID_IFACE = -1"

text \<open>\<open>strncmp(a, b, n) == 0\<close> on C strings (a list without the terminating zero).\<close>

definition strncmp_eq :: "nat \<Rightarrow> string \<Rightarrow> string \<Rightarrow> bool" where
  "strncmp_eq n a b = (take n a = take n b)"

definition iface_ipa_index_query :: "(int \<Rightarrow> string option) \<Rightarrow> int \<Rightarrow> iface_cfg \<Rightarrow> int \<times> iface_cfg" where
  "iface_ipa_index_query if_name interface_index c =
     (case iface_table c of
        None \<Rightarrow> (INVALID_IFACE, c)
      | Some tbl \<Rightarrow>
          let n = ipa_num_ipa_interfaces c;
              i = find_idx (\<lambda>i. interface_index = netlink_interface_index (tbl ! i)) n in
          if i < n then (int i, c)
          else
            (case if_name interface_index of
               None \<Rightarrow> (IPACM_FAILURE, c)
             | Some ifr_name \<Rightarrow>
                 let i = find_idx (\<lambda>i. strncmp_eq IPA_IFACE_NAME_LEN ifr_name (iface_name (tbl ! i))) n in
                 if i < n then
                   (int i, c\<lparr>iface_table := Some (tbl[i := (tbl ! i)\<lparr>netlink_interface_index := interface_index\<rparr>])\<rparr>)
                 else (INVALID_IFACE, c)))"

text \<open>\<open>iface_table[ipa_interface_index].iface_name\<close>.\<close>

definition table_name :: "iface_cfg \<Rightarrow> int \<Rightarrow> string" where
  "table_name c idx = iface_name (the (iface_table c) ! nat idx)"

definition cfg_wf :: "iface_cfg \<Rightarrow> bool" where
  "cfg_wf c = (case iface_table c of None \<Rightarrow> True | Some tbl \<Rightarrow> ipa_num_ipa_interfaces c \<le> length tbl)"

lemma iface_query_cases:
  assumes "iface_ipa_index_query if_name x c = (r, c')"
  obtains (none) "r = -1" "c' = c"
  | (known) tbl i where "iface_table c = Some tbl" "i < ipa_num_ipa_interfaces c" "r = int i" "c' = c"
      "netlink_interface_index (tbl ! i) = x"
  | (new) tbl i nm where "iface_table c = Some tbl" "i < ipa_num_ipa_interfaces c" "r = int i" "if_name x = Some nm"
      "\<forall>k<ipa_num_ipa_interfaces c. netlink_interface_index (tbl ! k) \<noteq> x"
      "strncmp_eq IPA_IFACE_NAME_LEN nm (iface_name (tbl ! i))"
      "c' = c\<lparr>iface_table := Some (tbl[i := (tbl ! i)\<lparr>netlink_interface_index := x\<rparr>])\<rparr>"
proof (cases "iface_table c")
  case None
  with assms none show ?thesis by (simp add: iface_ipa_index_query_def INVALID_IFACE_def)
next
  case (Some tbl)
  let ?n = "ipa_num_ipa_interfaces c" and ?P = "\<lambda>i. x = netlink_interface_index (tbl ! i)"
  show ?thesis
  proof (cases "find_idx ?P ?n < ?n")
    case True
    with assms Some find_idx_sat [OF True] show ?thesis
      by (intro known [of tbl "find_idx ?P ?n"]) (auto simp: iface_ipa_index_query_def)
  next
    case F: False
    then have no: "\<forall>k<?n. netlink_interface_index (tbl ! k) \<noteq> x" by (auto simp: find_idx_less_iff)
    show ?thesis
    proof (cases "if_name x")
      case None
      with assms Some F none show ?thesis by (simp add: iface_ipa_index_query_def IPACM_FAILURE_def Let_def)
    next
      case nm: (Some nm)
      let ?Q = "\<lambda>i. strncmp_eq IPA_IFACE_NAME_LEN nm (iface_name (tbl ! i))"
      show ?thesis
      proof (cases "find_idx ?Q ?n < ?n")
        case True
        with assms Some F nm no find_idx_sat [OF True] show ?thesis
          by (intro new [of tbl "find_idx ?Q ?n" nm]) (auto simp: iface_ipa_index_query_def Let_def)
      next
        case False
        with assms Some F nm none show ?thesis
          by (simp add: iface_ipa_index_query_def INVALID_IFACE_def Let_def)
      qed
    qed
  qed
qed

text \<open>A query keeps names, categories and the size of the table.\<close>

lemma iface_query_frame:
  assumes "iface_ipa_index_query if_name x c = (r, c')" and "cfg_wf c"
  shows "cfg_wf c' \<and> ipa_virtual_iface_name c' = ipa_virtual_iface_name c \<and>
    ipa_num_ipa_interfaces c' = ipa_num_ipa_interfaces c \<and>
    (\<forall>i. 0 \<le> i \<and> nat i < ipa_num_ipa_interfaces c \<longrightarrow> table_name c' i = table_name c i) \<and>
    (r = -1 \<or> 0 \<le> r \<and> nat r < ipa_num_ipa_interfaces c)"
  using assms(1)
proof (cases rule: iface_query_cases)
  case none
  with assms(2) show ?thesis by simp
next
  case (known tbl i)
  with assms(2) show ?thesis by simp
next
  case (new tbl i nm)
  with assms(2) have "i < length tbl" by (simp add: cfg_wf_def)
  with new assms(2) show ?thesis
    by (auto simp: cfg_wf_def table_name_def nth_list_update)
qed

text \<open>
  C37. A mapping is learned once: after a query has mapped a Linux index to a table index, a later
  query of the same Linux index gives the same answer and changes nothing, whatever name the kernel
  then has for it.
\<close>

theorem iface_query_learns:
  assumes "iface_ipa_index_query if_name x c = (r, c')" and "r \<noteq> -1" and "cfg_wf c"
    and "\<forall>i<ipa_num_ipa_interfaces c. \<forall>j<ipa_num_ipa_interfaces c.
       netlink_interface_index (the (iface_table c) ! i) = x \<and> netlink_interface_index (the (iface_table c) ! j) = x \<longrightarrow> i = j"
  shows "iface_ipa_index_query if_name' x c' = (r, c')"
  using assms(1)
proof (cases rule: iface_query_cases)
  case none
  with assms(2) show ?thesis by simp
next
  case (known tbl i)
  have "find_idx (\<lambda>i. x = netlink_interface_index (tbl ! i)) (ipa_num_ipa_interfaces c) = i"
    using known assms(4) by (intro find_idx_unique) auto
  with known show ?thesis by (simp add: iface_ipa_index_query_def)
next
  case (new tbl i nm)
  have l: "i < length tbl" using new(1,2) assms(3) by (simp add: cfg_wf_def)
  have "find_idx (\<lambda>k. x = netlink_interface_index (tbl[i := (tbl ! i)\<lparr>netlink_interface_index := x\<rparr>] ! k))
      (ipa_num_ipa_interfaces c) = i"
    using new(2,5) l by (intro find_idx_unique) (auto simp: nth_list_update split: if_splits)
  with new show ?thesis by (simp add: iface_ipa_index_query_def)
qed

definition cfg0 :: iface_cfg where
  "cfg0 = \<lparr>iface_table = Some [
      \<lparr>iface_name = ''wlan0'', if_cat = WLAN_IF, if_mode = ROUTER, wlan_mode = FULL, netlink_interface_index = 0\<rparr>,
      \<lparr>iface_name = ''bridge0'', if_cat = VIRTUAL_IF, if_mode = ROUTER, wlan_mode = FULL, netlink_interface_index = 0\<rparr>],
    ipa_num_ipa_interfaces = 2, ipa_virtual_iface_name = ''bridge0''\<rparr>"

definition kernel0 :: "int \<Rightarrow> string option" where
  "kernel0 x = (if x = 5 then Some ''wlan0'' else if x = 6 then Some ''bridge0'' else None)"

theorem iface_query_learns_witness:
  "fst (iface_ipa_index_query kernel0 6 cfg0) = 1 \<and>
   iface_ipa_index_query (\<lambda>_. None) 6 (snd (iface_ipa_index_query kernel0 6 cfg0)) =
     (1, snd (iface_ipa_index_query kernel0 6 cfg0))"
proof -
  have q: "iface_ipa_index_query kernel0 6 cfg0 = (1, snd (iface_ipa_index_query kernel0 6 cfg0))"
    by code_simp
  have "cfg_wf cfg0" by code_simp
  moreover have "\<forall>i<ipa_num_ipa_interfaces cfg0. \<forall>j<ipa_num_ipa_interfaces cfg0.
      netlink_interface_index (the (iface_table cfg0) ! i) = 6 \<and>
      netlink_interface_index (the (iface_table cfg0) ! j) = 6 \<longrightarrow> i = j"
    by (auto simp: cfg0_def less_Suc_eq numeral_2_eq_2)
  ultimately have "iface_ipa_index_query (\<lambda>_. None) 6 (snd (iface_ipa_index_query kernel0 6 cfg0)) =
     (1, snd (iface_ipa_index_query kernel0 6 cfg0))"
    using iface_query_learns [OF q] by simp
  with q show ?thesis by (metis fst_conv)
qed

end
