(* ===== verification/Keyed_List.thy ===== *)
theory Keyed_List
  imports IPACM_Prelude
begin

text \<open>
  A list of records identified by a key field, read as a finite map: the lookup a linear search
  computes, and what replacing, appending and removing an element do to the map. The tables of
  clients that the components keep in arrays are instances.
\<close>

locale keyed_list =
  fixes key :: "'a \<Rightarrow> 'k"
begin

definition as_map :: "'a list \<Rightarrow> 'k \<rightharpoonup> 'a" where
  "as_map xs = map_of (map (\<lambda>x. (key x, x)) xs)"

lemma as_map_Nil [simp]: "as_map [] = Map.empty"
  by (simp add: as_map_def)

lemma as_map_Cons [simp]: "as_map (x # xs) = (as_map xs)(key x \<mapsto> x)"
  by (simp add: as_map_def)

lemma as_map_None: "as_map xs k = None \<longleftrightarrow> k \<notin> key ` set xs"
  by (induction xs) auto

lemma as_map_nth: "distinct (map key xs) \<Longrightarrow> i < length xs \<Longrightarrow> as_map xs (key (xs ! i)) = Some (xs ! i)"
proof (induction xs arbitrary: i)
  case Nil
  then show ?case by simp
next
  case (Cons x xs)
  show ?case
  proof (cases i)
    case 0
    then show ?thesis by simp
  next
    case (Suc j)
    with Cons.prems have j: "j < length xs" "key x \<noteq> key (xs ! j)" by (auto dest: nth_mem)
    with Suc Cons show ?thesis by simp
  qed
qed

lemma as_map_replace:
  assumes "distinct (map key xs)" and "i < length xs" and "key x = key (xs ! i) \<or> key x \<notin> key ` set xs"
  shows "as_map (xs[i := x]) = ((as_map xs)(key (xs ! i) := None))(key x \<mapsto> x)"
  using assms
proof (induction xs arbitrary: i)
  case Nil
  then show ?case by simp
next
  case (Cons y xs)
  show ?case
  proof (cases i)
    case 0
    have "key y \<notin> key ` set xs" using Cons.prems(1) by simp
    then have none: "as_map xs (key y) = None" by (simp add: as_map_None)
    show ?thesis by (rule ext) (use 0 none in auto)
  next
    case (Suc j)
    have j: "j < length xs" using Cons.prems Suc by simp
    then have "key (xs ! j) \<in> key ` set xs" by simp
    then have "key y \<noteq> key (xs ! j)" and "key y \<noteq> key x" using Cons.prems(1,3) Suc by auto
    with Cons.IH [of j] Cons.prems Suc j show ?thesis by (auto simp: fun_upd_twist)
  qed
qed

lemma as_map_snoc: "key x \<notin> key ` set xs \<Longrightarrow> as_map (xs @ [x]) = (as_map xs)(key x \<mapsto> x)"
  by (induction xs) (auto simp: fun_upd_twist)

lemma as_map_remove:
  "distinct (map key xs) \<Longrightarrow> i < length xs \<Longrightarrow>
     as_map (take i xs @ drop (Suc i) xs) = (as_map xs)(key (xs ! i) := None)"
proof (induction xs arbitrary: i)
  case Nil
  then show ?case by simp
next
  case (Cons y xs)
  show ?case
  proof (cases i)
    case 0
    have "key y \<notin> key ` set xs" using Cons.prems(1) by simp
    then have none: "as_map xs (key y) = None" by (simp add: as_map_None)
    show ?thesis by (rule ext) (use 0 none in auto)
  next
    case (Suc j)
    then have j: "j < length xs" using Cons.prems by simp
    then have "key y \<noteq> key (xs ! j)" using Cons.prems(1) by (metis distinct.simps(2) image_eqI list.set_map list.simps(9) nth_mem)
    with Cons.IH [of j] Cons.prems Suc j show ?thesis by (auto simp: fun_upd_twist)
  qed
qed

lemma distinct_replace:
  "distinct (map key xs) \<Longrightarrow> key x = key (xs ! i) \<or> key x \<notin> key ` set xs \<Longrightarrow> i < length xs \<Longrightarrow>
     distinct (map key (xs[i := x]))"
  by (auto simp: map_update distinct_list_update list_update_id [of "map key xs" i, simplified])

lemma distinct_remove: "distinct (map key xs) \<Longrightarrow> distinct (map key (take i xs @ drop (Suc i) xs))"
  using set_take_disj_set_drop_if_distinct [of "map key xs" i "Suc i"] by (simp add: take_map [symmetric] drop_map [symmetric])

end

text \<open>Moving the elements behind index \<open>i\<close> forward by one, as the loops over the arrays do.\<close>

lemma length_shift [simp]: "length (fold (\<lambda>j xs. xs[j := f j xs]) js xs) = length xs"
  by (induction js arbitrary: xs) auto

lemma shift_nth:
  "m < length xs \<Longrightarrow> length (fold (\<lambda>j xs. xs[j := xs ! (j + 1)]) [i..<m] xs) = length xs \<and>
     (k < length xs \<longrightarrow> fold (\<lambda>j xs. xs[j := xs ! (j + 1)]) [i..<m] xs ! k = (if i \<le> k \<and> k < m then xs ! (k + 1) else xs ! k))"
proof (induction m arbitrary: k)
  case 0
  then show ?case by simp
next
  case (Suc m)
  show ?case
  proof (cases "i \<le> m")
    case True
    with Suc.prems Suc.IH [of k] Suc.IH [of "m + 1"] show ?thesis
      by (auto simp: nth_list_update less_Suc_eq)
  next
    case False
    then show ?thesis by auto
  qed
qed

lemma shift_take:
  assumes "i < n" and "n \<le> length xs"
  shows "take (n - 1) (fold (\<lambda>j xs. xs[j := xs ! (j + 1)]) [i..<n - 1] (xs[i := z])) =
    take i (take n xs) @ drop (Suc i) (take n xs)"
proof (rule nth_equalityI)
  let ?ys = "fold (\<lambda>j xs. xs[j := xs ! (j + 1)]) [i..<n - 1] (xs[i := z])"
  have n: "n - 1 < length (xs[i := z])" using assms by simp
  have len: "length ?ys = length xs" using shift_nth [OF n, of i 0] by simp
  show "length (take (n - 1) ?ys) = length (take i (take n xs) @ drop (Suc i) (take n xs))"
    using assms len by simp
  fix k assume "k < length (take (n - 1) ?ys)"
  then have k: "k < n - 1" using assms len by simp
  then have "?ys ! k = (if i \<le> k then xs ! (k + 1) else xs ! k)"
    using shift_nth [OF n, of i k] assms by auto
  with k assms show "take (n - 1) ?ys ! k = (take i (take n xs) @ drop (Suc i) (take n xs)) ! k"
    by (auto simp: nth_append min_def)
qed

end
