(* ===== verification/Neighbor.thy ===== *)
theory Neighbor
  imports Iface_Table IPACM_Events Keyed_List
begin

text \<open>
  \<open>IPACM_Neighbor.cpp\<close>: the cache of the clients seen by their MAC address, and the events it
  posts when the kernel reports neighbours. The object is the record \<open>neighbor\<close>; the handler
  returns the posted events in order with the new state, or \<open>None\<close> when it writes outside the
  array of clients. \<open>malloc\<close> (at most one call per event) and the contents of the memory it
  returns are part of \<open>nbr_env\<close>.
\<close>

section \<open>Data\<close>

type_synonym mac = "u8 list"

datatype ipa_ip_type = IPA_IP_v4 | IPA_IP_v6

record ipacm_event_data_all =
  iptype :: ipa_ip_type
  if_index :: int
  ipv4_addr :: u32
  ipv6_addr :: "u32 list"
  d_mac_addr :: mac

datatype wlan_attrib = MacAttrib mac | OtherAttrib

record ipacm_event_data_wlan_ex =
  ex_if_index :: int
  attribs :: "wlan_attrib list"

record ipa_neighbor_client =
  mac_addr :: mac
  iface_index :: int
  v4_addr :: u32
  ipa_if_num :: int

record neighbor =
  num_neighbor_client :: nat
  circular_index :: nat
  neighbor_client :: "ipa_neighbor_client list"

definition IPA_MAX_NUM_NEIGHBOR_CLIENTS :: nat where "IPA_MAX_NUM_NEIGHBOR_CLIENTS = 100"

definition IPV4_ADDR_LINKLOCAL :: u32 where "IPV4_ADDR_LINKLOCAL = 0xA9FE0000"

definition IPV4_ADDR_LINKLOCAL_MASK :: u32 where "IPV4_ADDR_LINKLOCAL_MASK = 0xFFFF0000"

definition zero_client :: ipa_neighbor_client where
  "zero_client = \<lparr>mac_addr = replicate 6 0, iface_index = 0, v4_addr = 0, ipa_if_num = 0\<rparr>"

text \<open>\<open>IPACM_Neighbor::IPACM_Neighbor\<close>.\<close>

definition IPACM_Neighbor_ctor :: neighbor where
  "IPACM_Neighbor_ctor =
     \<lparr>num_neighbor_client = 0, circular_index = 0,
      neighbor_client = replicate IPA_MAX_NUM_NEIGHBOR_CLIENTS zero_client\<rparr>"

record nbr_env =
  if_name_of :: "int \<Rightarrow> string option"
  malloc_ok :: bool
  junk_v6 :: "u32 list"
  junk_mac :: mac

type_synonym post = "ipa_cm_event_id \<times> ipacm_event_data_all"
type_synonym nbr_result = "(post list \<times> neighbor \<times> iface_cfg) option"

section \<open>Steps of the handler\<close>

definition find_client :: "neighbor \<Rightarrow> mac \<Rightarrow> nat" where
  "find_client s m = find_idx (\<lambda>i. mac_addr (neighbor_client s ! i) = m) (num_neighbor_client s)"

definition is_bridge :: "iface_cfg \<Rightarrow> int \<Rightarrow> bool" where
  "is_bridge c idx = (ipa_virtual_iface_name c = table_name c idx)"

definition add_or_del :: "ipa_cm_event_id \<Rightarrow> ipa_cm_event_id" where
  "add_or_del ev =
     (if ev = IPA_NEW_NEIGH_EVENT then IPA_NEIGH_CLIENT_IP_ADDR_ADD_EVENT else IPA_NEIGH_CLIENT_IP_ADDR_DEL_EVENT)"

text \<open>
  \<open>PostEvt\<close> of a freshly allocated copy, then the query for the name of the interface that
  the debug output wants (it can learn an interface index).
\<close>

definition post_and_query :: "nbr_env \<Rightarrow> post \<Rightarrow> neighbor \<Rightarrow> iface_cfg \<Rightarrow> nbr_result" where
  "post_and_query env p s c =
     (if \<not> malloc_ok env then Some ([], s, c)
      else Some ([p], s, snd (iface_ipa_index_query (if_name_of env) (if_index (snd p)) c)))"

text \<open>Lines 319-328 and 499-508: the clients behind the removed one move forward.\<close>

definition remove_client :: "nat \<Rightarrow> neighbor \<Rightarrow> neighbor" where
  "remove_client i s =
     (let cs = (neighbor_client s)[i := zero_client];
          cs = fold (\<lambda>j cs. cs[j := cs ! (j + 1)]) [i..<num_neighbor_client s - 1] cs in
      s\<lparr>neighbor_client := cs, num_neighbor_client := num_neighbor_client s - 1\<rparr>)"

text \<open>
  Lines 253-293 and 520-561: a new client goes behind the last one; when the array is full the
  entry \<open>circular_index\<close> is overwritten, without the address.
\<close>

definition insert_client :: "mac \<Rightarrow> int \<Rightarrow> int \<Rightarrow> u32 \<Rightarrow> neighbor \<Rightarrow> neighbor option" where
  "insert_client m ifx ipa v4 s =
     (let n = num_neighbor_client s; k = circular_index s in
      if n < IPA_MAX_NUM_NEIGHBOR_CLIENTS then
        Some (s\<lparr>neighbor_client := (neighbor_client s)[n := \<lparr>mac_addr = m, iface_index = ifx, v4_addr = v4, ipa_if_num = ipa\<rparr>],
                num_neighbor_client := n + 1\<rparr>)
      else if k < length (neighbor_client s) then
        Some (s\<lparr>neighbor_client := (neighbor_client s)[k := \<lparr>mac_addr = m, iface_index = ifx, v4_addr = 0, ipa_if_num = ipa\<rparr>],
                circular_index := k + 1\<rparr>)
      else None)"

text \<open>The event posted with the address a client had before.\<close>

definition previous_v4 :: "nbr_env \<Rightarrow> ipa_neighbor_client \<Rightarrow> ipacm_event_data_all" where
  "previous_v4 env cl =
     \<lparr>iptype = IPA_IP_v4, if_index = iface_index cl, ipv4_addr = v4_addr cl, ipv6_addr = junk_v6 env, d_mac_addr = mac_addr cl\<rparr>"

section \<open>Handlers\<close>

text \<open>
  The MAC address the attributes give: the last MAC attribute wins, and without one the local
  array has whatever was on the stack.
\<close>

definition attrib_mac :: "nbr_env \<Rightarrow> wlan_attrib list \<Rightarrow> mac" where
  "attrib_mac env as = fold (\<lambda>a m. case a of MacAttrib x \<Rightarrow> x | OtherAttrib \<Rightarrow> m) as (junk_mac env)"

definition client_add_ex :: "nbr_env \<Rightarrow> ipacm_event_data_wlan_ex \<Rightarrow> neighbor \<Rightarrow> iface_cfg \<Rightarrow> nbr_result" where
  "client_add_ex env d s c =
     (let (ipa, c) = iface_ipa_index_query (if_name_of env) (ex_if_index d) c in
      if ipa = IPACM_FAILURE then Some ([], s, c)
      else
        let m = attrib_mac env (attribs d);
            i = find_client s m in
        if i = num_neighbor_client s then Some ([], s, c)
        else if is_bridge c ipa then Some ([], s, c)
        else
          let s = s\<lparr>neighbor_client := (neighbor_client s)[i := (neighbor_client s ! i)\<lparr>iface_index := ex_if_index d\<rparr>]\<rparr>;
              cl = neighbor_client s ! i in
          if ipa \<noteq> ipa_if_num cl then Some ([], s, c)
          else if v4_addr cl \<noteq> 0 then post_and_query env (IPA_NEIGH_CLIENT_IP_ADDR_ADD_EVENT, previous_v4 env cl) s c
          else Some ([], s, c))"

text \<open>Lines 185-225: an IPv4 neighbour on the bridge takes the interface its client is known on.\<close>

definition neigh_v4_bridge :: "nbr_env \<Rightarrow> ipa_cm_event_id \<Rightarrow> ipacm_event_data_all \<Rightarrow> neighbor \<Rightarrow> iface_cfg \<Rightarrow> nbr_result" where
  "neigh_v4_bridge env ev d s c =
     (let i = find_client s (d_mac_addr d) in
      if i = num_neighbor_client s then Some ([], s, c)
      else
        let d = d\<lparr>if_index := iface_index (neighbor_client s ! i)\<rparr>;
            s = s\<lparr>neighbor_client := (neighbor_client s)[i := (neighbor_client s ! i)\<lparr>v4_addr := ipv4_addr d\<rparr>]\<rparr> in
        post_and_query env (add_or_del ev, d) s c)"

text \<open>Lines 226-348: on another interface the cache follows, and the event is passed on.\<close>

definition neigh_v4_cache :: "ipa_cm_event_id \<Rightarrow> ipacm_event_data_all \<Rightarrow> int \<Rightarrow> neighbor \<Rightarrow> neighbor option" where
  "neigh_v4_cache ev d ipa s =
     (let i = find_client s (d_mac_addr d) in
      if ev = IPA_NEW_NEIGH_EVENT then
        if i < num_neighbor_client s then
          Some (s\<lparr>neighbor_client := (neighbor_client s)[i :=
             (neighbor_client s ! i)\<lparr>iface_index := if_index d, ipa_if_num := ipa, v4_addr := ipv4_addr d\<rparr>]\<rparr>)
        else insert_client (d_mac_addr d) (if_index d) ipa (ipv4_addr d) s
      else if i < num_neighbor_client s then Some (remove_client i s)
      else Some s)"

definition neigh_v4 :: "nbr_env \<Rightarrow> ipa_cm_event_id \<Rightarrow> ipacm_event_data_all \<Rightarrow> int \<Rightarrow> neighbor \<Rightarrow> iface_cfg \<Rightarrow> nbr_result" where
  "neigh_v4 env ev d ipa s c =
     (if ipv4_addr d = 0 then Some ([], s, c)
      else if ipv4_addr d AND IPV4_ADDR_LINKLOCAL_MASK = IPV4_ADDR_LINKLOCAL then Some ([], s, c)
      else if is_bridge c ipa then neigh_v4_bridge env ev d s c
      else
        (case neigh_v4_cache ev d ipa s of
           None \<Rightarrow> None
         | Some s \<Rightarrow> if \<not> malloc_ok env then Some ([], s, c) else Some ([(add_or_del ev, d)], s, c)))"

text \<open>Lines 354-413: an IPv6 address is passed on, with the client's interface on the bridge.\<close>

definition neigh_v6 :: "nbr_env \<Rightarrow> ipa_cm_event_id \<Rightarrow> ipacm_event_data_all \<Rightarrow> int \<Rightarrow> neighbor \<Rightarrow> iface_cfg \<Rightarrow> nbr_result" where
  "neigh_v6 env ev d ipa s c =
     (if is_bridge c ipa then
        let i = find_client s (d_mac_addr d) in
        if i = num_neighbor_client s then Some ([], s, c)
        else post_and_query env (add_or_del ev, d\<lparr>if_index := iface_index (neighbor_client s ! i)\<rparr>) s c
      else if \<not> malloc_ok env then Some ([], s, c)
      else Some ([(add_or_del ev, d)], s, c))"

text \<open>
  Lines 414-564: an event without an address. A known client on an interface that is not the
  bridge is announced with its previous IPv4 address; a failing \<open>malloc\<close> ends the handler before
  the entry is removed.
\<close>

definition neigh_no_addr :: "nbr_env \<Rightarrow> ipa_cm_event_id \<Rightarrow> ipacm_event_data_all \<Rightarrow> int \<Rightarrow> neighbor \<Rightarrow> iface_cfg \<Rightarrow> nbr_result" where
  "neigh_no_addr env ev d ipa s c =
     (let i = find_client s (d_mac_addr d) in
      if i < num_neighbor_client s then
        let del = (\<lambda>s. if ev = IPA_DEL_NEIGH_EVENT then remove_client i s else s) in
        if \<not> is_bridge c ipa then
          let s = s\<lparr>neighbor_client := (neighbor_client s)[i := (neighbor_client s ! i)\<lparr>iface_index := if_index d\<rparr>]\<rparr>;
              cl = neighbor_client s ! i in
          if v4_addr cl \<noteq> 0 then
            if \<not> malloc_ok env then Some ([], s, c)
            else
              (case post_and_query env (add_or_del ev, previous_v4 env cl) s c of
                 None \<Rightarrow> None
               | Some (ps, s, c) \<Rightarrow> Some (ps, del s, c))
          else Some ([], del s, c)
        else Some ([], del s, c)
      else if ev = IPA_NEW_NEIGH_EVENT \<and> \<not> is_bridge c ipa then
        (case insert_client (d_mac_addr d) (if_index d) ipa 0 s of None \<Rightarrow> None | Some s \<Rightarrow> Some ([], s, c))
      else Some ([], s, c))"

text \<open>
  \<open>IPACM_Neighbor::event_callback\<close> for the three events the object registers for; every event but
  the client event is handled as a neighbour event.
\<close>

datatype nbr_event = ClientAddEx ipacm_event_data_wlan_ex | Neigh ipa_cm_event_id ipacm_event_data_all

fun event_callback :: "nbr_env \<Rightarrow> nbr_event \<Rightarrow> neighbor \<Rightarrow> iface_cfg \<Rightarrow> nbr_result" where
  "event_callback env (ClientAddEx d) s c = client_add_ex env d s c"
| "event_callback env (Neigh ev d) s c =
     (let (ipa, c) = iface_ipa_index_query (if_name_of env) (if_index d) c in
      if ipa = IPACM_FAILURE then Some ([], s, c)
      else if iptype d = IPA_IP_v4 then neigh_v4 env ev d ipa s c
      else if (\<exists>w\<in>set (take 4 (ipv6_addr d)). w \<noteq> 0) then neigh_v6 env ev d ipa s c
      else neigh_no_addr env ev d ipa s c)"

fun nbr_run :: "(nbr_env \<times> nbr_event) list \<Rightarrow> neighbor \<Rightarrow> iface_cfg \<Rightarrow> nbr_result" where
  "nbr_run [] s c = Some ([], s, c)"
| "nbr_run ((env, x) # xs) s c =
     (case event_callback env x s c of
        None \<Rightarrow> None
      | Some (ps, s, c) \<Rightarrow>
          (case nbr_run xs s c of None \<Rightarrow> None | Some (qs, t, e) \<Rightarrow> Some (ps @ qs, t, e)))"

section \<open>Invariant and the cache as a map\<close>

definition live :: "neighbor \<Rightarrow> ipa_neighbor_client list" where
  "live s = take (num_neighbor_client s) (neighbor_client s)"

definition nbr_wf :: "neighbor \<Rightarrow> bool" where
  "nbr_wf s =
     (length (neighbor_client s) = IPA_MAX_NUM_NEIGHBOR_CLIENTS \<and>
      num_neighbor_client s \<le> IPA_MAX_NUM_NEIGHBOR_CLIENTS \<and> distinct (map mac_addr (live s)))"

interpretation clients: keyed_list mac_addr .

abbreviation nbr_map :: "neighbor \<Rightarrow> mac \<rightharpoonup> ipa_neighbor_client" where
  "nbr_map s \<equiv> clients.as_map (live s)"

end
