(* ===== verification/Neighbor_Props.thy ===== *)
theory Neighbor_Props
  imports Neighbor
begin

text \<open>
  The client cache behaves as a map from MAC addresses, its invariant, what the handler does on each
  kind of event, and how many new clients it takes until \<open>circular_index\<close> leaves the array.
\<close>

section \<open>Array operations on the live clients\<close>

lemma wf_length_live: "nbr_wf s \<Longrightarrow> length (live s) = num_neighbor_client s"
  by (simp add: nbr_wf_def live_def)

lemma live_nth: "i < num_neighbor_client s \<Longrightarrow> live s ! i = neighbor_client s ! i"
  by (simp add: live_def)

lemma live_update [simp]: "live (s\<lparr>neighbor_client := (neighbor_client s)[i := x]\<rparr>) = (live s)[i := x]"
  by (simp add: live_def take_update_swap)

lemma find_client_cases:
  assumes "nbr_wf s"
  obtains (known) "find_client s m < num_neighbor_client s" "mac_addr (neighbor_client s ! find_client s m) = m"
      "nbr_map s m = Some (neighbor_client s ! find_client s m)"
  | (unknown) "find_client s m = num_neighbor_client s" "m \<notin> mac_addr ` set (live s)" "nbr_map s m = None"
proof (cases "find_client s m < num_neighbor_client s")
  case True
  then have m: "mac_addr (neighbor_client s ! find_client s m) = m"
    unfolding find_client_def by (rule find_idx_sat)
  have "nbr_map s (mac_addr (live s ! find_client s m)) = Some (live s ! find_client s m)"
    using assms True wf_length_live [OF assms] by (intro clients.as_map_nth) (simp_all add: nbr_wf_def)
  with True m show ?thesis by (intro known) (simp_all add: live_nth)
next
  case False
  then have f: "find_client s m = num_neighbor_client s" using find_idx_le by (metis find_client_def le_neq_implies_less)
  then have "\<forall>i<num_neighbor_client s. mac_addr (neighbor_client s ! i) \<noteq> m"
    by (simp add: find_client_def find_idx_eq_iff)
  then have "m \<notin> mac_addr ` set (live s)"
    using wf_length_live [OF assms] by (fastforce simp: in_set_conv_nth live_nth)
  with f show ?thesis by (intro unknown) (simp_all add: clients.as_map_None)
qed

text \<open>Changing fields of a known client.\<close>

lemma update_known:
  assumes wf: "nbr_wf s" and i: "i < num_neighbor_client s" and x: "mac_addr x = mac_addr (neighbor_client s ! i)"
  shows "nbr_wf (s\<lparr>neighbor_client := (neighbor_client s)[i := x]\<rparr>)"
    and "nbr_map (s\<lparr>neighbor_client := (neighbor_client s)[i := x]\<rparr>) = (nbr_map s)(mac_addr x \<mapsto> x)"
proof -
  have l: "i < length (live s)" "mac_addr x = mac_addr (live s ! i)" "distinct (map mac_addr (live s))"
    using wf_length_live [OF wf] i x wf by (simp_all add: live_nth nbr_wf_def)
  from clients.distinct_replace [OF l(3) _ l(1), of x] l(2) wf
  show "nbr_wf (s\<lparr>neighbor_client := (neighbor_client s)[i := x]\<rparr>)" by (simp add: nbr_wf_def)
  from clients.as_map_replace [OF l(3,1), of x] l(2)
  show "nbr_map (s\<lparr>neighbor_client := (neighbor_client s)[i := x]\<rparr>) = (nbr_map s)(mac_addr x \<mapsto> x)" by simp
qed

lemma remove_known:
  assumes wf: "nbr_wf s" and i: "i < num_neighbor_client s"
  shows "nbr_wf (remove_client i s)" and "nbr_map (remove_client i s) = (nbr_map s)(mac_addr (neighbor_client s ! i) := None)"
    and "num_neighbor_client (remove_client i s) = num_neighbor_client s - 1"
    and "circular_index (remove_client i s) = circular_index s"
proof -
  have live: "live (remove_client i s) = take i (live s) @ drop (Suc i) (live s)"
    using shift_take [of i "num_neighbor_client s" "neighbor_client s" zero_client] wf i
    by (simp add: remove_client_def live_def nbr_wf_def Let_def)
  have len: "length (neighbor_client (remove_client i s)) = length (neighbor_client s)"
    by (simp add: remove_client_def Let_def)
  show num: "num_neighbor_client (remove_client i s) = num_neighbor_client s - 1"
    and "circular_index (remove_client i s) = circular_index s" by (simp_all add: remove_client_def Let_def)
  from clients.distinct_remove [of "live s" i] wf len num show "nbr_wf (remove_client i s)"
    unfolding nbr_wf_def live by auto
  show "nbr_map (remove_client i s) = (nbr_map s)(mac_addr (neighbor_client s ! i) := None)"
    unfolding live using clients.as_map_remove [of "live s" i] wf i wf_length_live [OF wf]
    by (simp add: nbr_wf_def live_nth)
qed

text \<open>Inserting an unknown client: behind the last one, or over the entry \<open>circular_index\<close>.\<close>

lemma insert_room:
  assumes wf: "nbr_wf s" and m: "m \<notin> mac_addr ` set (live s)" and room: "num_neighbor_client s < IPA_MAX_NUM_NEIGHBOR_CLIENTS"
  obtains t where "insert_client m ifx ipa v4 s = Some t" and "nbr_wf t"
    and "nbr_map t = (nbr_map s)(m \<mapsto> \<lparr>mac_addr = m, iface_index = ifx, v4_addr = v4, ipa_if_num = ipa\<rparr>)"
    and "num_neighbor_client t = num_neighbor_client s + 1" and "circular_index t = circular_index s"
proof -
  let ?x = "\<lparr>mac_addr = m, iface_index = ifx, v4_addr = v4, ipa_if_num = ipa\<rparr>" and ?n = "num_neighbor_client s"
  let ?t = "s\<lparr>neighbor_client := (neighbor_client s)[?n := ?x], num_neighbor_client := ?n + 1\<rparr>"
  have live: "live ?t = live s @ [?x]"
    using wf room by (simp add: live_def nbr_wf_def take_Suc_conv_app_nth)
  have "nbr_wf ?t" using wf m room unfolding nbr_wf_def live by simp
  moreover have "nbr_map ?t = (nbr_map s)(m \<mapsto> ?x)"
    unfolding live using clients.as_map_snoc [of ?x "live s"] m by simp
  ultimately show ?thesis using room that [of ?t] by (simp add: insert_client_def Let_def)
qed

lemma insert_recycle:
  assumes wf: "nbr_wf s" and m: "m \<notin> mac_addr ` set (live s)" and full: "num_neighbor_client s = IPA_MAX_NUM_NEIGHBOR_CLIENTS"
    and k: "circular_index s < IPA_MAX_NUM_NEIGHBOR_CLIENTS"
  obtains t where "insert_client m ifx ipa v4 s = Some t" and "nbr_wf t"
    and "nbr_map t = ((nbr_map s)(mac_addr (neighbor_client s ! circular_index s) := None))
      (m \<mapsto> \<lparr>mac_addr = m, iface_index = ifx, v4_addr = 0, ipa_if_num = ipa\<rparr>)"
    and "num_neighbor_client t = num_neighbor_client s" and "circular_index t = circular_index s + 1"
proof -
  let ?x = "\<lparr>mac_addr = m, iface_index = ifx, v4_addr = 0, ipa_if_num = ipa\<rparr>" and ?k = "circular_index s"
  let ?t = "s\<lparr>neighbor_client := (neighbor_client s)[?k := ?x], circular_index := ?k + 1\<rparr>"
  have l: "?k < length (live s)" "distinct (map mac_addr (live s))" using wf k full by (auto simp: nbr_wf_def live_def)
  have live: "live ?t = (live s)[?k := ?x]" by (simp add: live_def take_update_swap)
  have "nbr_wf ?t" using clients.distinct_replace [OF l(2) _ l(1), of ?x] wf m unfolding nbr_wf_def live by simp
  moreover have "nbr_map ?t = ((nbr_map s)(mac_addr (neighbor_client s ! ?k) := None))(m \<mapsto> ?x)"
    unfolding live using clients.as_map_replace [OF l(2,1), of ?x] m k full by (simp add: live_nth)
  moreover have "insert_client m ifx ipa v4 s = Some ?t"
    using wf full k by (simp add: insert_client_def Let_def nbr_wf_def)
  ultimately show ?thesis using that [of ?t] by simp
qed

lemma insert_overflow:
  "nbr_wf s \<Longrightarrow> num_neighbor_client s = IPA_MAX_NUM_NEIGHBOR_CLIENTS \<Longrightarrow> IPA_MAX_NUM_NEIGHBOR_CLIENTS \<le> circular_index s \<Longrightarrow>
     insert_client m ifx ipa v4 s = None"
  by (simp add: insert_client_def Let_def nbr_wf_def)


section \<open>Every handler is safe while the array has room or \<open>circular_index\<close> is inside it\<close>

definition can_insert :: "neighbor \<Rightarrow> bool" where
  "can_insert s = (num_neighbor_client s < IPA_MAX_NUM_NEIGHBOR_CLIENTS \<or> circular_index s < IPA_MAX_NUM_NEIGHBOR_CLIENTS)"

definition used :: "neighbor \<Rightarrow> nat" where
  "used s = num_neighbor_client s + circular_index s"

definition step_ok :: "neighbor \<Rightarrow> nbr_result \<Rightarrow> bool" where
  "step_ok s r = (\<exists>ps t c. r = Some (ps, t, c) \<and> nbr_wf t \<and> used t \<le> used s + 1)"

lemma step_okI [inv_intros]: "nbr_wf t \<Longrightarrow> used t \<le> used s + 1 \<Longrightarrow> step_ok s (Some (ps, t, c))"
  by (simp add: step_ok_def)

lemma step_ok_post: "nbr_wf t \<Longrightarrow> used t \<le> used s + 1 \<Longrightarrow> step_ok s (post_and_query env p t c)"
  by (simp add: step_ok_def post_and_query_def)

lemma insert_ok:
  assumes "nbr_wf s" and "can_insert s" and "m \<notin> mac_addr ` set (live s)"
  obtains t where "insert_client m ifx ipa v4 s = Some t" and "nbr_wf t" and "used t = used s + 1"
proof (cases "num_neighbor_client s < IPA_MAX_NUM_NEIGHBOR_CLIENTS")
  case True
  obtain t where "insert_client m ifx ipa v4 s = Some t" "nbr_wf t" "num_neighbor_client t = num_neighbor_client s + 1"
    "circular_index t = circular_index s"
    by (rule insert_room [OF assms(1,3) True])
  then show ?thesis using that unfolding used_def by simp
next
  case False
  with assms(1,2) have full: "num_neighbor_client s = IPA_MAX_NUM_NEIGHBOR_CLIENTS" "circular_index s < IPA_MAX_NUM_NEIGHBOR_CLIENTS"
    by (auto simp: nbr_wf_def can_insert_def)
  obtain t where "insert_client m ifx ipa v4 s = Some t" "nbr_wf t" "num_neighbor_client t = num_neighbor_client s"
    "circular_index t = circular_index s + 1"
    by (rule insert_recycle [OF assms(1,3) full])
  then show ?thesis using that unfolding used_def by simp
qed

lemma used_update [simp]: "used (s\<lparr>neighbor_client := cs\<rparr>) = used s"
  by (simp add: used_def)

lemma used_remove: "used (remove_client i s) \<le> used s"
  by (simp add: used_def remove_client_def Let_def)

lemma client_add_ex_ok: "nbr_wf s \<Longrightarrow> step_ok s (client_add_ex env d s c)"
proof -
  assume wf: "nbr_wf s"
  obtain ipa c' where q: "iface_ipa_index_query (if_name_of env) (ex_if_index d) c = (ipa, c')" by fastforce
  let ?i = "find_client s (attrib_mac env (attribs d))"
  let ?s = "s\<lparr>neighbor_client := (neighbor_client s)[?i := (neighbor_client s ! ?i)\<lparr>iface_index := ex_if_index d\<rparr>]\<rparr>"
  have "nbr_wf ?s" if "?i \<noteq> num_neighbor_client s"
  proof -
    have "?i < num_neighbor_client s" using that find_client_cases [OF wf] by metis
    then show ?thesis by (rule update_known [OF wf]) simp
  qed
  with wf q show ?thesis
    by (auto simp: client_add_ex_def Let_def intro!: step_okI step_ok_post)
qed

lemma neigh_v4_cache_ok:
  assumes wf: "nbr_wf s" and can: "can_insert s"
  shows "\<exists>t. neigh_v4_cache ev d ipa s = Some t \<and> nbr_wf t \<and> used t \<le> used s + 1"
  using wf
proof (cases rule: find_client_cases [where m = "d_mac_addr d"])
  case known
  with update_known [OF wf known(1)] remove_known [OF wf known(1)] used_remove [of "find_client s (d_mac_addr d)" s] show ?thesis
    by (auto simp: neigh_v4_cache_def Let_def)
next
  case unknown
  obtain t where "insert_client (d_mac_addr d) (if_index d) ipa (ipv4_addr d) s = Some t" "nbr_wf t" "used t = used s + 1"
    by (rule insert_ok [OF wf can unknown(2)])
  with wf unknown(1) show ?thesis by (auto simp: neigh_v4_cache_def Let_def)
qed

lemma neigh_v4_ok:
  assumes wf: "nbr_wf s" and can: "can_insert s"
  shows "step_ok s (neigh_v4 env ev d ipa s c)"
proof -
  have "step_ok s (neigh_v4_bridge env ev d s c)"
    using wf
  proof (cases rule: find_client_cases [where m = "d_mac_addr d"])
    case known
    with update_known(1) [OF wf known(1)] show ?thesis
      by (auto simp: neigh_v4_bridge_def Let_def intro!: step_ok_post)
  next
    case unknown
    with wf show ?thesis by (auto simp: neigh_v4_bridge_def Let_def intro!: step_okI)
  qed
  with neigh_v4_cache_ok [OF wf can, of ev d ipa] wf show ?thesis
    by (auto simp: neigh_v4_def intro!: step_okI)
qed

lemma neigh_v6_ok: "nbr_wf s \<Longrightarrow> step_ok s (neigh_v6 env ev d ipa s c)"
  by (auto simp: neigh_v6_def Let_def intro!: step_okI step_ok_post)

lemma neigh_no_addr_ok:
  assumes wf: "nbr_wf s" and can: "can_insert s"
  shows "step_ok s (neigh_no_addr env ev d ipa s c)"
  using wf
proof (cases rule: find_client_cases [where m = "d_mac_addr d"])
  case known
  let ?i = "find_client s (d_mac_addr d)"
  let ?s = "s\<lparr>neighbor_client := (neighbor_client s)[?i := (neighbor_client s ! ?i)\<lparr>iface_index := if_index d\<rparr>]\<rparr>"
  have wf': "nbr_wf ?s" by (rule update_known [OF wf known(1)]) simp
  have n: "?i < num_neighbor_client ?s" using known(1) by simp
  have "nbr_wf (remove_client ?i s)" "used (remove_client ?i s) \<le> used s"
    "nbr_wf (remove_client ?i ?s)" "used (remove_client ?i ?s) \<le> used s"
    using remove_known(1) [OF wf known(1)] used_remove [of "find_client s (d_mac_addr d)" s] remove_known(1) [OF wf' n] used_remove [of ?i ?s]
    by simp_all
  with known(1) wf wf' show ?thesis
    by (auto simp: neigh_no_addr_def post_and_query_def Let_def intro!: step_okI)
next
  case unknown
  obtain t where "insert_client (d_mac_addr d) (if_index d) ipa 0 s = Some t" "nbr_wf t" "used t = used s + 1"
    by (rule insert_ok [OF wf can unknown(2)])
  with wf unknown(1) show ?thesis by (auto simp: neigh_no_addr_def Let_def intro!: step_okI)
qed

lemma event_callback_ok:
  assumes wf: "nbr_wf s" and can: "can_insert s"
  shows "step_ok s (event_callback env x s c)"
proof (cases x)
  case (ClientAddEx d)
  then show ?thesis using client_add_ex_ok [OF wf] by simp
next
  case (Neigh ev d)
  obtain ipa c' where "iface_ipa_index_query (if_name_of env) (if_index d) c = (ipa, c')" by fastforce
  with Neigh wf neigh_v4_ok [OF wf can] neigh_v6_ok [OF wf] neigh_no_addr_ok [OF wf can] show ?thesis
    by (auto simp: Let_def intro!: step_okI)
qed

lemma ctor_wf: "nbr_wf IPACM_Neighbor_ctor" "used IPACM_Neighbor_ctor = 0"
  by (simp_all add: nbr_wf_def IPACM_Neighbor_ctor_def live_def used_def)

lemma nbr_run_ok:
  "nbr_wf s \<Longrightarrow> used s + length xs \<le> 200 \<Longrightarrow>
     \<exists>ps t c'. nbr_run xs s c = Some (ps, t, c') \<and> nbr_wf t \<and> used t \<le> used s + length xs"
proof (induction xs arbitrary: s c)
  case Nil
  then show ?case by simp
next
  case (Cons x xs)
  obtain env e where x: "x = (env, e)" by fastforce
  have "can_insert s" using Cons.prems by (auto simp: can_insert_def used_def IPA_MAX_NUM_NEIGHBOR_CLIENTS_def)
  then obtain ps t c1 where t: "event_callback env e s c = Some (ps, t, c1)" "nbr_wf t" "used t \<le> used s + 1"
    using event_callback_ok [OF Cons.prems(1), of env e c] by (auto simp: step_ok_def)
  with Cons.prems(2) have "used t + length xs \<le> 200" by simp
  from Cons.IH [OF t(2) this, of c1] obtain qs u c2 where
    "nbr_run xs t c1 = Some (qs, u, c2)" "nbr_wf u" "used u \<le> used t + length xs" by blast
  with x t show ?case by auto
qed


section \<open>An IPv4 neighbour on an interface that is not the bridge\<close>

definition plain_v4 :: "nbr_env \<Rightarrow> ipacm_event_data_all \<Rightarrow> iface_cfg \<Rightarrow> int \<Rightarrow> iface_cfg \<Rightarrow> bool" where
  "plain_v4 env d c ipa c' =
     (iface_ipa_index_query (if_name_of env) (if_index d) c = (ipa, c') \<and> ipa \<noteq> IPACM_FAILURE \<and> \<not> is_bridge c' ipa \<and>
      iptype d = IPA_IP_v4 \<and> ipv4_addr d \<noteq> 0 \<and>
      ipv4_addr d AND IPV4_ADDR_LINKLOCAL_MASK \<noteq> IPV4_ADDR_LINKLOCAL \<and> malloc_ok env)"

lemma plain_v4_step:
  "plain_v4 env d c ipa c' \<Longrightarrow> event_callback env (Neigh ev d) s c =
     (case neigh_v4_cache ev d ipa s of None \<Rightarrow> None | Some t \<Rightarrow> Some ([(add_or_del ev, d)], t, c'))"
  by (auto simp: plain_v4_def neigh_v4_def split: option.splits)

definition client_of :: "ipacm_event_data_all \<Rightarrow> int \<Rightarrow> ipa_neighbor_client" where
  "client_of d ipa = \<lparr>mac_addr = d_mac_addr d, iface_index = if_index d, v4_addr = ipv4_addr d, ipa_if_num = ipa\<rparr>"

lemma cache_new_v4:
  assumes wf: "nbr_wf s" and room: "nbr_map s (d_mac_addr d) \<noteq> None \<or> num_neighbor_client s < IPA_MAX_NUM_NEIGHBOR_CLIENTS"
  shows "\<exists>t. neigh_v4_cache IPA_NEW_NEIGH_EVENT d ipa s = Some t \<and> nbr_wf t \<and>
     nbr_map t = (nbr_map s)(d_mac_addr d \<mapsto> client_of d ipa)"
  using wf
proof (cases rule: find_client_cases [where m = "d_mac_addr d"])
  case known
  let ?i = "find_client s (d_mac_addr d)"
  let ?x = "(neighbor_client s ! ?i)\<lparr>iface_index := if_index d, ipa_if_num := ipa, v4_addr := ipv4_addr d\<rparr>"
  have x: "?x = client_of d ipa" using known(2) by (simp add: client_of_def)
  have "neigh_v4_cache IPA_NEW_NEIGH_EVENT d ipa s = Some (s\<lparr>neighbor_client := (neighbor_client s)[?i := client_of d ipa]\<rparr>)"
    using known(1) unfolding x [symmetric] by (simp add: neigh_v4_cache_def Let_def)
  moreover have "mac_addr (client_of d ipa) = mac_addr (neighbor_client s ! ?i)" "mac_addr (client_of d ipa) = d_mac_addr d"
    using known(2) by (simp_all add: client_of_def)
  ultimately show ?thesis using update_known [OF wf known(1), of "client_of d ipa"] by simp
next
  case unknown
  then have n: "num_neighbor_client s < IPA_MAX_NUM_NEIGHBOR_CLIENTS" using room by simp
  obtain t where "insert_client (d_mac_addr d) (if_index d) ipa (ipv4_addr d) s = Some t" "nbr_wf t"
    "nbr_map t = (nbr_map s)(d_mac_addr d \<mapsto> client_of d ipa)"
    unfolding client_of_def by (rule insert_room [OF wf unknown(2) n])
  with unknown(1) show ?thesis by (auto simp: neigh_v4_cache_def Let_def)
qed

lemma cache_del_v4:
  assumes wf: "nbr_wf s"
  shows "\<exists>t. neigh_v4_cache IPA_DEL_NEIGH_EVENT d ipa s = Some t \<and> nbr_wf t \<and> nbr_map t = (nbr_map s)(d_mac_addr d := None)"
  using wf
proof (cases rule: find_client_cases [where m = "d_mac_addr d"])
  case known
  with remove_known [OF wf known(1)] show ?thesis by (auto simp: neigh_v4_cache_def Let_def)
next
  case unknown
  then have "(nbr_map s)(d_mac_addr d := None) = nbr_map s" by (simp add: fun_upd_idem)
  with unknown wf show ?thesis by (auto simp: neigh_v4_cache_def Let_def)
qed

lemma client_add_ex_known:
  assumes wf: "nbr_wf s" and cl: "nbr_map s (attrib_mac env (attribs e)) = Some cl"
    and q: "iface_ipa_index_query (if_name_of env) (ex_if_index e) c = (ipa_if_num cl, c')"
    and ok: "ipa_if_num cl \<noteq> IPACM_FAILURE" "\<not> is_bridge c' (ipa_if_num cl)" "v4_addr cl \<noteq> 0" "malloc_ok env"
  shows "\<exists>t c2. client_add_ex env e s c =
     Some ([(IPA_NEIGH_CLIENT_IP_ADDR_ADD_EVENT, previous_v4 env (cl\<lparr>iface_index := ex_if_index e\<rparr>))], t, c2)"
  using wf
proof (cases rule: find_client_cases [where m = "attrib_mac env (attribs e)"])
  case known
  let ?i = "find_client s (attrib_mac env (attribs e))"
  have x: "neighbor_client s ! ?i = cl" using known(3) cl by simp
  have "?i < length (neighbor_client s)" using known(1) wf by (simp add: nbr_wf_def)
  with known(1) x q ok show ?thesis by (simp add: client_add_ex_def post_and_query_def Let_def)
next
  case unknown
  with cl show ?thesis by simp
qed

section \<open>Unseen clients until the array overflows\<close>

text \<open>
  What the state is after \<open>k\<close> unseen clients: the cached MAC addresses are among those seen, every
  event used a place or a recycling, and recycling starts when the array is full.
\<close>

definition overflow_inv :: "mac set \<Rightarrow> nat \<Rightarrow> neighbor \<Rightarrow> bool" where
  "overflow_inv seen k s =
     (nbr_wf s \<and> dom (nbr_map s) \<subseteq> seen \<and> used s = k \<and>
      (0 < circular_index s \<longrightarrow> num_neighbor_client s = IPA_MAX_NUM_NEIGHBOR_CLIENTS))"

lemma unseen_step:
  assumes inv: "overflow_inv seen k s" and k: "k < 200" and m: "d_mac_addr d \<notin> seen"
  shows "\<exists>t. neigh_v4_cache IPA_NEW_NEIGH_EVENT d ipa s = Some t \<and> overflow_inv (insert (d_mac_addr d) seen) (Suc k) t"
proof -
  have wf: "nbr_wf s" and none: "nbr_map s (d_mac_addr d) = None" using inv m by (auto simp: overflow_inv_def)
  then have unseen: "d_mac_addr d \<notin> mac_addr ` set (live s)" by (simp add: clients.as_map_None)
  have f: "find_client s (d_mac_addr d) = num_neighbor_client s"
    using find_client_cases [OF wf, of "d_mac_addr d"] none by fastforce
  show ?thesis
  proof (cases "num_neighbor_client s < IPA_MAX_NUM_NEIGHBOR_CLIENTS")
    case True
    obtain t where t: "insert_client (d_mac_addr d) (if_index d) ipa (ipv4_addr d) s = Some t" "nbr_wf t"
      "nbr_map t = (nbr_map s)(d_mac_addr d \<mapsto> client_of d ipa)"
      "num_neighbor_client t = num_neighbor_client s + 1" "circular_index t = circular_index s"
      unfolding client_of_def by (rule insert_room [OF wf unseen True])
    have "circular_index s = 0" using inv True by (auto simp: overflow_inv_def)
    with t inv have "overflow_inv (insert (d_mac_addr d) seen) (Suc k) t" by (auto simp: overflow_inv_def used_def)
    with t(1) f show ?thesis by (auto simp: neigh_v4_cache_def Let_def)
  next
    case False
    with inv k have full: "num_neighbor_client s = IPA_MAX_NUM_NEIGHBOR_CLIENTS" "circular_index s < IPA_MAX_NUM_NEIGHBOR_CLIENTS"
      by (auto simp: overflow_inv_def nbr_wf_def used_def IPA_MAX_NUM_NEIGHBOR_CLIENTS_def)
    obtain t where t: "insert_client (d_mac_addr d) (if_index d) ipa (ipv4_addr d) s = Some t" "nbr_wf t"
      "nbr_map t = ((nbr_map s)(mac_addr (neighbor_client s ! circular_index s) := None))
        (d_mac_addr d \<mapsto> \<lparr>mac_addr = d_mac_addr d, iface_index = if_index d, v4_addr = 0, ipa_if_num = ipa\<rparr>)"
      "num_neighbor_client t = num_neighbor_client s" "circular_index t = circular_index s + 1"
      by (rule insert_recycle [OF wf unseen full])
    have "dom (nbr_map t) \<subseteq> insert (d_mac_addr d) seen" using t(3) inv by (auto simp: overflow_inv_def split: if_splits)
    with t inv full have "overflow_inv (insert (d_mac_addr d) seen) (Suc k) t" by (simp add: overflow_inv_def used_def)
    with t(1) f show ?thesis by (auto simp: neigh_v4_cache_def Let_def)
  qed
qed

lemma unseen_run_overflows:
  assumes "overflow_inv seen k s" and "k + length ms = 201" and "k \<le> 200" and "distinct ms" and "set ms \<inter> seen = {}"
    and "\<And>m. plain_v4 env (d\<lparr>d_mac_addr := m\<rparr>) c ipa c"
  shows "nbr_run (map (\<lambda>m. (env, Neigh IPA_NEW_NEIGH_EVENT (d\<lparr>d_mac_addr := m\<rparr>))) ms) s c = None"
  using assms
proof (induction ms arbitrary: seen k s)
  case Nil
  then show ?case by simp
next
  case (Cons m ms)
  let ?d = "d\<lparr>d_mac_addr := m\<rparr>"
  have m: "d_mac_addr ?d \<notin> seen" using Cons.prems(5) by simp
  show ?case
  proof (cases "k < 200")
    case True
    from unseen_step [OF Cons.prems(1) True m, of ipa]
    obtain t where t: "neigh_v4_cache IPA_NEW_NEIGH_EVENT ?d ipa s = Some t" "overflow_inv (insert m seen) (Suc k) t"
      by auto
    have "nbr_run (map (\<lambda>m. (env, Neigh IPA_NEW_NEIGH_EVENT (d\<lparr>d_mac_addr := m\<rparr>))) ms) t c = None"
      by (rule Cons.IH [OF t(2)]) (use True Cons.prems in auto)
    with plain_v4_step [OF Cons.prems(6) [of m], of IPA_NEW_NEIGH_EVENT s] t(1) show ?thesis by (simp del: event_callback.simps)
  next
    case False
    with Cons.prems have "used s = 200" "nbr_wf s" "0 < circular_index s \<longrightarrow> num_neighbor_client s = 100"
      by (auto simp: overflow_inv_def IPA_MAX_NUM_NEIGHBOR_CLIENTS_def)
    then have full: "num_neighbor_client s = IPA_MAX_NUM_NEIGHBOR_CLIENTS" "IPA_MAX_NUM_NEIGHBOR_CLIENTS \<le> circular_index s" "nbr_wf s"
      by (auto simp: used_def nbr_wf_def IPA_MAX_NUM_NEIGHBOR_CLIENTS_def)
    have "nbr_map s m = None" using m Cons.prems(1) by (auto simp: overflow_inv_def)
    then have "find_client s m = num_neighbor_client s" using find_client_cases [OF full(3), of m] by fastforce
    then have "neigh_v4_cache IPA_NEW_NEIGH_EVENT ?d ipa s = None"
      using insert_overflow [OF full(3,1,2)] by (simp add: neigh_v4_cache_def Let_def)
    with plain_v4_step [OF Cons.prems(6) [of m], of IPA_NEW_NEIGH_EVENT s] show ?thesis by (simp del: event_callback.simps)
  qed
qed

section \<open>Properties\<close>

text \<open>
  C36. From the constructor, any 200 events of any kind (with any kernel, any memory failures)
  are handled without leaving the client array, and keep the cache consistent: at most 100 clients,
  no MAC address twice.
\<close>

theorem neighbor_cache_consistent:
  assumes "length xs \<le> 200"
  shows "\<exists>ps t c'. nbr_run xs IPACM_Neighbor_ctor c = Some (ps, t, c') \<and> nbr_wf t"
  using nbr_run_ok [OF ctor_wf(1), of xs c] ctor_wf(2) assms by fastforce

definition env0 :: nbr_env where
  "env0 = \<lparr>if_name_of = kernel0, malloc_ok = True, junk_v6 = [0, 0, 0, 0], junk_mac = replicate 6 0\<rparr>"

definition neigh0 :: ipacm_event_data_all where
  "neigh0 = \<lparr>iptype = IPA_IP_v4, if_index = 5, ipv4_addr = 0xC0A80102, ipv6_addr = [0, 0, 0, 0], d_mac_addr = [1, 2, 3, 4, 5, 6]\<rparr>"

theorem neighbor_cache_consistent_witness:
  "\<exists>ps t c'. nbr_run (replicate 150 (env0, Neigh IPA_NEW_NEIGH_EVENT neigh0)) IPACM_Neighbor_ctor cfg0 = Some (ps, t, c') \<and> nbr_wf t"
  by (rule neighbor_cache_consistent) simp

text \<open>
  C35. The cache is a map: an IPv4 neighbour event on an interface that is not the bridge, with an address that is
  neither link-local nor 0 and memory for the event (\<open>plain_v4\<close>), is passed on unchanged. When the client is
  already known or the array has room, a new neighbour maps its MAC address to its interface and address, a deleted one
  leaves the map, and no other client changes. (On a full array another client is evicted, see
  \<open>recycled_entry_has_no_address\<close>.)
\<close>

theorem neighbor_v4_updates_map:
  assumes "nbr_wf s" and "plain_v4 env d c ipa c'"
    and "nbr_map s (d_mac_addr d) \<noteq> None \<or> num_neighbor_client s < IPA_MAX_NUM_NEIGHBOR_CLIENTS"
  shows "(\<exists>t. event_callback env (Neigh IPA_NEW_NEIGH_EVENT d) s c = Some ([(IPA_NEIGH_CLIENT_IP_ADDR_ADD_EVENT, d)], t, c') \<and>
       nbr_wf t \<and> nbr_map t = (nbr_map s)(d_mac_addr d \<mapsto> client_of d ipa)) \<and>
     (\<exists>t. event_callback env (Neigh IPA_DEL_NEIGH_EVENT d) s c = Some ([(IPA_NEIGH_CLIENT_IP_ADDR_DEL_EVENT, d)], t, c') \<and>
       nbr_wf t \<and> nbr_map t = (nbr_map s)(d_mac_addr d := None))"
  using cache_new_v4 [OF assms(1,3), of ipa] cache_del_v4 [OF assms(1), of d ipa]
  unfolding plain_v4_step [OF assms(2)] by (auto simp: add_or_del_def)

definition cfg5 :: iface_cfg where "cfg5 = snd (iface_ipa_index_query kernel0 5 cfg0)"

lemma plain_neigh0: "plain_v4 env0 neigh0 cfg0 0 cfg5"
  by code_simp

theorem neighbor_v4_updates_map_witness:
  "(\<exists>t. event_callback env0 (Neigh IPA_NEW_NEIGH_EVENT neigh0) IPACM_Neighbor_ctor cfg0 = Some ([(IPA_NEIGH_CLIENT_IP_ADDR_ADD_EVENT, neigh0)], t, cfg5) \<and>
       nbr_wf t \<and> nbr_map t = [[1, 2, 3, 4, 5, 6] \<mapsto> client_of neigh0 0])"
proof -
  have "nbr_map IPACM_Neighbor_ctor = Map.empty" by (simp add: live_def IPACM_Neighbor_ctor_def)
  moreover have "num_neighbor_client IPACM_Neighbor_ctor < IPA_MAX_NUM_NEIGHBOR_CLIENTS" by code_simp
  ultimately show ?thesis
    using neighbor_v4_updates_map [OF ctor_wf(1) plain_neigh0] by (simp add: neigh0_def)
qed

text \<open>
  Reconnection: after a client was announced with an IPv4 address on a WLAN interface, its
  association event on the same interface posts that address again, for the same MAC address.
\<close>

theorem reconnect_posts_previous_address:
  assumes "nbr_wf s" and "plain_v4 env d c ipa c'"
    and "nbr_map s (d_mac_addr d) \<noteq> None \<or> num_neighbor_client s < IPA_MAX_NUM_NEIGHBOR_CLIENTS"
    and "iface_ipa_index_query (if_name_of env) (if_index d) c' = (ipa, c')"
    and "event_callback env (Neigh IPA_NEW_NEIGH_EVENT d) s c = Some (ps, t, c1)"
  shows "\<exists>u c2. event_callback env (ClientAddEx \<lparr>ex_if_index = if_index d, attribs = [OtherAttrib, MacAttrib (d_mac_addr d)]\<rparr>) t c1 =
     Some ([(IPA_NEIGH_CLIENT_IP_ADDR_ADD_EVENT, d\<lparr>ipv6_addr := junk_v6 env\<rparr>)], u, c2)"
proof -
  let ?e = "\<lparr>ex_if_index = if_index d, attribs = [OtherAttrib, MacAttrib (d_mac_addr d)]\<rparr>"
  have t: "nbr_wf t" "nbr_map t = (nbr_map s)(d_mac_addr d \<mapsto> client_of d ipa)" "c1 = c'"
    using cache_new_v4 [OF assms(1,3), of ipa] assms(5) unfolding plain_v4_step [OF assms(2)] by auto
  have d: "previous_v4 env ((client_of d ipa)\<lparr>iface_index := ex_if_index ?e\<rparr>) = d\<lparr>ipv6_addr := junk_v6 env\<rparr>"
    using assms(2) by (simp add: previous_v4_def client_of_def plain_v4_def)
  have "\<exists>u c2. client_add_ex env ?e t c' =
     Some ([(IPA_NEIGH_CLIENT_IP_ADDR_ADD_EVENT, previous_v4 env ((client_of d ipa)\<lparr>iface_index := ex_if_index ?e\<rparr>))], u, c2)"
    by (rule client_add_ex_known [OF t(1)])
      (use t(2) assms(2,4) in \<open>auto simp: attrib_mac_def client_of_def plain_v4_def\<close>)
  with d t(3) show ?thesis by simp
qed


theorem reconnect_posts_previous_address_witness:
  "\<exists>t c1 u c2. event_callback env0 (Neigh IPA_NEW_NEIGH_EVENT neigh0) IPACM_Neighbor_ctor cfg0 =
      Some ([(IPA_NEIGH_CLIENT_IP_ADDR_ADD_EVENT, neigh0)], t, c1) \<and>
     event_callback env0 (ClientAddEx \<lparr>ex_if_index = 5, attribs = [OtherAttrib, MacAttrib [1, 2, 3, 4, 5, 6]]\<rparr>) t c1 =
      Some ([(IPA_NEIGH_CLIENT_IP_ADDR_ADD_EVENT, neigh0)], u, c2)"
proof -
  have room: "nbr_map IPACM_Neighbor_ctor (d_mac_addr neigh0) \<noteq> None \<or> num_neighbor_client IPACM_Neighbor_ctor < IPA_MAX_NUM_NEIGHBOR_CLIENTS"
    by (rule disjI2) code_simp
  have q: "iface_ipa_index_query (if_name_of env0) (if_index neigh0) cfg5 = (0, cfg5)" by code_simp
  obtain t where t: "event_callback env0 (Neigh IPA_NEW_NEIGH_EVENT neigh0) IPACM_Neighbor_ctor cfg0 =
      Some ([(IPA_NEIGH_CLIENT_IP_ADDR_ADD_EVENT, neigh0)], t, cfg5)"
    using cache_new_v4 [OF ctor_wf(1) room, of 0] unfolding plain_v4_step [OF plain_neigh0] by (auto simp: add_or_del_def)
  from reconnect_posts_previous_address [OF ctor_wf(1) plain_neigh0 room q t] t show ?thesis
    by (auto simp: neigh0_def env0_def)
qed


text \<open>
  The bound of 200 is sharp: \<open>circular_index\<close> is incremented without wrapping, so the 201st
  unseen client is written behind the end of the array (the array is \<open>100\<close> long and the first \<open>100\<close>
  recyclings use it up).
\<close>

theorem circular_index_overflows:
  assumes "distinct ms" and "length ms = 201" and "plain_v4 env d c ipa c"
  shows "nbr_run (map (\<lambda>m. (env, Neigh IPA_NEW_NEIGH_EVENT (d\<lparr>d_mac_addr := m\<rparr>))) ms) IPACM_Neighbor_ctor c = None"
proof (rule unseen_run_overflows [where seen = "{}" and k = 0])
  show "overflow_inv {} 0 IPACM_Neighbor_ctor"
    using ctor_wf by (simp add: overflow_inv_def live_def IPACM_Neighbor_ctor_def)
  show "plain_v4 env (d\<lparr>d_mac_addr := m\<rparr>) c ipa c" for m using assms(3) by (simp add: plain_v4_def)
qed (use assms in auto)

definition mac_of :: "nat \<Rightarrow> mac" where "mac_of n = [2, 0, 0, 0, 0, of_nat n]"

lemma mac_of_inj: "inj_on mac_of {..<256}"
  by (rule inj_onI) (simp add: mac_of_def word_of_nat_eq_iff take_bit_nat_eq_self)

lemma plain_neigh0_again: "plain_v4 env0 neigh0 cfg5 0 cfg5"
  by code_simp

theorem circular_index_overflows_witness:
  "nbr_run (map (\<lambda>m. (env0, Neigh IPA_NEW_NEIGH_EVENT (neigh0\<lparr>d_mac_addr := m\<rparr>))) (map mac_of [0..<201])) IPACM_Neighbor_ctor cfg5 = None"
proof (rule circular_index_overflows)
  have "inj_on mac_of {0..<201}" using mac_of_inj by (rule inj_on_subset) auto
  then show "distinct (map mac_of [0..<201])" by (simp add: distinct_map)
qed (use plain_neigh0_again in simp_all)

text \<open>
  A recycled entry forgets the address it was announced with: when the array is full, an unseen
  client that is announced with an IPv4 address is cached with address 0 (the branch with room caches
  the address), so its later association event posts nothing.
\<close>

theorem recycled_entry_has_no_address:
  assumes "nbr_wf s" and "plain_v4 env d c ipa c'" and "nbr_map s (d_mac_addr d) = None"
    and "num_neighbor_client s = IPA_MAX_NUM_NEIGHBOR_CLIENTS" and "circular_index s < IPA_MAX_NUM_NEIGHBOR_CLIENTS"
  shows "\<exists>t. event_callback env (Neigh IPA_NEW_NEIGH_EVENT d) s c = Some ([(IPA_NEIGH_CLIENT_IP_ADDR_ADD_EVENT, d)], t, c') \<and>
     nbr_map t (d_mac_addr d) = Some ((client_of d ipa)\<lparr>v4_addr := 0\<rparr>)"
proof -
  have unseen: "d_mac_addr d \<notin> mac_addr ` set (live s)" using assms(3) by (simp add: clients.as_map_None)
  have f: "find_client s (d_mac_addr d) = num_neighbor_client s"
    using find_client_cases [OF assms(1), of "d_mac_addr d"] assms(3) by fastforce
  obtain t where "insert_client (d_mac_addr d) (if_index d) ipa (ipv4_addr d) s = Some t"
    "nbr_map t = ((nbr_map s)(mac_addr (neighbor_client s ! circular_index s) := None))
      (d_mac_addr d \<mapsto> \<lparr>mac_addr = d_mac_addr d, iface_index = if_index d, v4_addr = 0, ipa_if_num = ipa\<rparr>)"
    by (rule insert_recycle [OF assms(1) unseen assms(4,5)])
  with f show ?thesis unfolding plain_v4_step [OF assms(2)]
    by (auto simp: neigh_v4_cache_def Let_def client_of_def add_or_del_def)
qed

definition full_cache :: neighbor where
  "full_cache = \<lparr>num_neighbor_client = 100, circular_index = 3,
     neighbor_client = map (\<lambda>i. zero_client\<lparr>mac_addr := mac_of i\<rparr>) [0..<100]\<rparr>"

theorem recycled_entry_has_no_address_witness:
  "\<exists>t. event_callback env0 (Neigh IPA_NEW_NEIGH_EVENT neigh0) full_cache cfg0 = Some ([(IPA_NEIGH_CLIENT_IP_ADDR_ADD_EVENT, neigh0)], t, cfg5) \<and>
     nbr_map t [1, 2, 3, 4, 5, 6] = Some ((client_of neigh0 0)\<lparr>v4_addr := 0\<rparr>)"
proof -
  have live: "live full_cache = map (\<lambda>i. zero_client\<lparr>mac_addr := mac_of i\<rparr>) [0..<100]"
    by (simp add: live_def full_cache_def)
  have "inj_on mac_of {0..<100}" using mac_of_inj by (rule inj_on_subset) auto
  then have wf: "nbr_wf full_cache"
    unfolding nbr_wf_def live by (simp add: full_cache_def IPA_MAX_NUM_NEIGHBOR_CLIENTS_def distinct_map o_def)
  have "nbr_map full_cache (d_mac_addr neigh0) = None"
    by (auto simp: clients.as_map_None live mac_of_def neigh0_def)
  from recycled_entry_has_no_address [OF wf plain_neigh0 this] show ?thesis
    by (simp add: full_cache_def IPA_MAX_NUM_NEIGHBOR_CLIENTS_def neigh0_def)
qed

end
