(* ===== verification/RM_Depend.thy ===== *)
theory RM_Depend
  imports Op_Refinement
begin

text \<open>
  The resource-manager dependencies of \<open>IPACM_Config\<close> (\<open>AddRmDepend\<close>, \<open>DelRmDepend\<close> and the table
  \<open>ipa_rm_tbl\<close> that \<open>Init\<close> fills): when both ends of an entry are up, a dependency in each direction
  is requested from the kernel, and withdrawn when one end goes down. The \<open>ioctl\<close> calls are recorded
  in order; their return values are only logged by the code.
\<close>

section \<open>Data\<close>

text \<open>The resource names the sources use; the enumeration is the kernel's (\<open>linux/msm_ipa.h\<close>).\<close>

datatype ipa_rm_resource_name =
    IPA_RM_RESOURCE_Q6_PROD | IPA_RM_RESOURCE_USB_PROD | IPA_RM_RESOURCE_HSIC_PROD
  | IPA_RM_RESOURCE_WLAN_PROD | IPA_RM_RESOURCE_ODU_ADAPT_PROD
  | IPA_RM_RESOURCE_Q6_CONS | IPA_RM_RESOURCE_USB_CONS
  | IPA_RM_RESOURCE_WLAN_CONS | IPA_RM_RESOURCE_ODU_ADAPT_CONS

record ipa_rm_client =
  producer_rm1 :: ipa_rm_resource_name
  consumer_rm1 :: ipa_rm_resource_name
  producer_rm2 :: ipa_rm_resource_name
  consumer_rm2 :: ipa_rm_resource_name
  producer1_up :: bool
  consumer1_up :: bool
  rm_set :: bool
  rx_bypass_ipa :: bool

datatype rm_ioctl =
    IPA_IOC_RM_ADD_DEPENDENCY ipa_rm_resource_name ipa_rm_resource_name
  | IPA_IOC_RM_DEL_DEPENDENCY ipa_rm_resource_name ipa_rm_resource_name

record rm_state =
  ipa_rm_tbl :: "ipa_rm_client list"
  ipa_max_valid_rm_entry :: nat
  ipa_rm_a2_check :: int
  ioctls :: "rm_ioctl list"

text \<open>The entries of \<open>Init\<close>, with the flags \<open>memset\<close> left.\<close>

definition rm_entry ::
  "ipa_rm_resource_name \<Rightarrow> ipa_rm_resource_name \<Rightarrow> ipa_rm_resource_name \<Rightarrow> ipa_rm_resource_name \<Rightarrow> ipa_rm_client" where
  "rm_entry p1 c1 p2 c2 =
     \<lparr>producer_rm1 = p1, consumer_rm1 = c1, producer_rm2 = p2, consumer_rm2 = c2,
      producer1_up = False, consumer1_up = False, rm_set = False, rx_bypass_ipa = False\<rparr>"

definition rm_init :: rm_state where
  "rm_init =
     \<lparr>ipa_rm_tbl =
        [rm_entry IPA_RM_RESOURCE_WLAN_PROD IPA_RM_RESOURCE_Q6_CONS IPA_RM_RESOURCE_Q6_PROD IPA_RM_RESOURCE_WLAN_CONS,
         rm_entry IPA_RM_RESOURCE_USB_PROD IPA_RM_RESOURCE_Q6_CONS IPA_RM_RESOURCE_Q6_PROD IPA_RM_RESOURCE_USB_CONS,
         rm_entry IPA_RM_RESOURCE_WLAN_PROD IPA_RM_RESOURCE_USB_CONS IPA_RM_RESOURCE_USB_PROD IPA_RM_RESOURCE_WLAN_CONS,
         rm_entry IPA_RM_RESOURCE_ODU_ADAPT_PROD IPA_RM_RESOURCE_Q6_CONS IPA_RM_RESOURCE_Q6_PROD IPA_RM_RESOURCE_ODU_ADAPT_CONS,
         rm_entry IPA_RM_RESOURCE_WLAN_PROD IPA_RM_RESOURCE_ODU_ADAPT_CONS IPA_RM_RESOURCE_ODU_ADAPT_PROD IPA_RM_RESOURCE_WLAN_CONS,
         rm_entry IPA_RM_RESOURCE_ODU_ADAPT_PROD IPA_RM_RESOURCE_USB_CONS IPA_RM_RESOURCE_USB_PROD IPA_RM_RESOURCE_ODU_ADAPT_CONS],
      ipa_max_valid_rm_entry = 6, ipa_rm_a2_check = 0, ioctls = []\<rparr>"

section \<open>Operations\<close>

text \<open>The \<open>ioctl\<close> calls for both directions of an entry; a bypassing producer has only one.\<close>

definition setup_deps :: "ipa_rm_client \<Rightarrow> rm_ioctl list" where
  "setup_deps e =
     (if rx_bypass_ipa e then [] else [IPA_IOC_RM_ADD_DEPENDENCY (producer_rm1 e) (consumer_rm1 e)]) @
     [IPA_IOC_RM_ADD_DEPENDENCY (producer_rm2 e) (consumer_rm2 e)]"

definition delete_deps :: "ipa_rm_client \<Rightarrow> rm_ioctl list" where
  "delete_deps e =
     (if rx_bypass_ipa e then [] else [IPA_IOC_RM_DEL_DEPENDENCY (producer_rm1 e) (consumer_rm1 e)]) @
     [IPA_IOC_RM_DEL_DEPENDENCY (producer_rm2 e) (consumer_rm2 e)]"

definition add_producer :: "ipa_rm_resource_name \<Rightarrow> bool \<Rightarrow> ipa_rm_client \<Rightarrow> ipa_rm_client \<times> rm_ioctl list" where
  "add_producer rm1 bypass e =
     (if rm1 = producer_rm1 e then
        let e = e\<lparr>producer1_up := True, rx_bypass_ipa := bypass\<rparr> in
        if consumer1_up e \<and> \<not> rm_set e then (e\<lparr>rm_set := True\<rparr>, setup_deps e) else (e, [])
      else (e, []))"

definition add_consumer :: "ipa_rm_resource_name \<Rightarrow> ipa_rm_client \<Rightarrow> ipa_rm_client \<times> rm_ioctl list" where
  "add_consumer rm1 e =
     (if rm1 = consumer_rm1 e then
        let e = e\<lparr>consumer1_up := True\<rparr> in
        if producer1_up e \<and> \<not> rm_set e then (e\<lparr>rm_set := True\<rparr>, setup_deps e) else (e, [])
      else (e, []))"

definition add_entry :: "ipa_rm_resource_name \<Rightarrow> bool \<Rightarrow> ipa_rm_client \<Rightarrow> ipa_rm_client \<times> rm_ioctl list" where
  "add_entry rm1 bypass e =
     (let (e, os) = add_producer rm1 bypass e; (e, os') = add_consumer rm1 e in (e, os @ os'))"

definition del_producer :: "ipa_rm_resource_name \<Rightarrow> ipa_rm_client \<Rightarrow> ipa_rm_client \<times> rm_ioctl list" where
  "del_producer rm1 e =
     (if rm1 = producer_rm1 e then
        (e\<lparr>rm_set := False, producer1_up := False, rx_bypass_ipa := False\<rparr>, if rm_set e then delete_deps e else [])
      else (e, []))"

text \<open>
  The consumer of the modem stays up while one default route is left: the test is for exactly one.
\<close>

definition del_consumer :: "ipa_rm_resource_name \<Rightarrow> int \<Rightarrow> ipa_rm_client \<Rightarrow> ipa_rm_client \<times> rm_ioctl list" where
  "del_consumer rm1 a2 e =
     (if rm1 = consumer_rm1 e then
        if consumer_rm1 e = IPA_RM_RESOURCE_Q6_CONS \<and> a2 = 1 then (e, [])
        else (e\<lparr>rm_set := False, consumer1_up := False\<rparr>, if rm_set e then delete_deps e else [])
      else (e, []))"

definition del_entry :: "ipa_rm_resource_name \<Rightarrow> int \<Rightarrow> ipa_rm_client \<Rightarrow> ipa_rm_client \<times> rm_ioctl list" where
  "del_entry rm1 a2 e =
     (let (e, os) = del_producer rm1 e; (e, os') = del_consumer rm1 a2 e in (e, os @ os'))"

text \<open>The loop over the valid entries.\<close>

definition rm_loop :: "(ipa_rm_client \<Rightarrow> ipa_rm_client \<times> rm_ioctl list) \<Rightarrow> rm_state \<Rightarrow> rm_state" where
  "rm_loop f s =
     for_upto (ipa_max_valid_rm_entry s)
       (\<lambda>i s. let (e, os) = f (ipa_rm_tbl s ! i) in
              s\<lparr>ipa_rm_tbl := (ipa_rm_tbl s)[i := e], ioctls := ioctls s @ os\<rparr>) s"

definition AddRmDepend :: "ipa_rm_resource_name \<Rightarrow> bool \<Rightarrow> rm_state \<Rightarrow> rm_state" where
  "AddRmDepend rm1 bypass s =
     (let s = (if rm1 = IPA_RM_RESOURCE_Q6_CONS then s\<lparr>ipa_rm_a2_check := ipa_rm_a2_check s + 1\<rparr> else s)
      in rm_loop (add_entry rm1 bypass) s)"

definition DelRmDepend :: "ipa_rm_resource_name \<Rightarrow> rm_state \<Rightarrow> rm_state" where
  "DelRmDepend rm1 s =
     (let s = (if rm1 = IPA_RM_RESOURCE_Q6_CONS then s\<lparr>ipa_rm_a2_check := ipa_rm_a2_check s - 1\<rparr> else s)
      in rm_loop (del_entry rm1 (ipa_rm_a2_check s)) s)"

section \<open>Specification\<close>

text \<open>The dependencies a kernel has after a sequence of requests, and what they should be.\<close>

fun kernel_step :: "rm_ioctl \<Rightarrow> (ipa_rm_resource_name \<times> ipa_rm_resource_name) set \<Rightarrow> (ipa_rm_resource_name \<times> ipa_rm_resource_name) set" where
  "kernel_step (IPA_IOC_RM_ADD_DEPENDENCY p c) D = insert (p, c) D"
| "kernel_step (IPA_IOC_RM_DEL_DEPENDENCY p c) D = D - {(p, c)}"

definition kernel_deps :: "rm_ioctl list \<Rightarrow> (ipa_rm_resource_name \<times> ipa_rm_resource_name) set" where
  "kernel_deps os = fold kernel_step os {}"

definition entry_edges :: "ipa_rm_client \<Rightarrow> (ipa_rm_resource_name \<times> ipa_rm_resource_name) set" where
  "entry_edges e = {(producer_rm1 e, consumer_rm1 e), (producer_rm2 e, consumer_rm2 e)}"

datatype rm_op = RmAdd ipa_rm_resource_name bool | RmDel ipa_rm_resource_name

text \<open>
  The abstract state: which producers and consumers are up, how many default routes use the modem,
  and the dependencies that follow: both directions of every entry whose ends are up, without the
  direction of a producer that bypasses the hardware.
\<close>

record rm_spec =
  prods :: "ipa_rm_resource_name \<Rightarrow> bool"
  conss :: "ipa_rm_resource_name \<Rightarrow> bool"
  routes :: int

definition rm_spec_init :: rm_spec where
  "rm_spec_init = \<lparr>prods = (\<lambda>_. False), conss = (\<lambda>_. False), routes = 0\<rparr>"

fun spec_rm :: "rm_op \<Rightarrow> rm_spec \<Rightarrow> rm_spec" where
  "spec_rm (RmAdd r b) a =
     a\<lparr>prods := (prods a)(r := True), conss := (conss a)(r := True),
       routes := if r = IPA_RM_RESOURCE_Q6_CONS then routes a + 1 else routes a\<rparr>"
| "spec_rm (RmDel r) a =
     (let n = (if r = IPA_RM_RESOURCE_Q6_CONS then routes a - 1 else routes a) in
      a\<lparr>prods := (prods a)(r := False),
        conss := (if r = IPA_RM_RESOURCE_Q6_CONS \<and> n = 1 then conss a else (conss a)(r := False)), routes := n\<rparr>)"

definition wanted_deps :: "(ipa_rm_resource_name \<Rightarrow> bool) \<Rightarrow> ipa_rm_client list \<Rightarrow> rm_spec \<Rightarrow> (ipa_rm_resource_name \<times> ipa_rm_resource_name) set" where
  "wanted_deps byp tbl a =
     (\<Union>e \<in> {e \<in> set tbl. prods a (producer_rm1 e) \<and> conss a (consumer_rm1 e)}.
        (if byp (producer_rm1 e) then {} else {(producer_rm1 e, consumer_rm1 e)}) \<union> {(producer_rm2 e, consumer_rm2 e)})"

fun rm_exec :: "rm_op \<Rightarrow> rm_state \<Rightarrow> rm_state" where
  "rm_exec (RmAdd r b) s = AddRmDepend r b s"
| "rm_exec (RmDel r) s = DelRmDepend r s"


section \<open>The loop as a map over the table\<close>

lemma rm_loop_prefix:
  assumes "n \<le> length (ipa_rm_tbl s)"
  shows "for_upto n (\<lambda>i s. let (e, os) = f (ipa_rm_tbl s ! i) in
      s\<lparr>ipa_rm_tbl := (ipa_rm_tbl s)[i := e], ioctls := ioctls s @ os\<rparr>) s =
    s\<lparr>ipa_rm_tbl := map (\<lambda>e. fst (f e)) (take n (ipa_rm_tbl s)) @ drop n (ipa_rm_tbl s),
      ioctls := ioctls s @ concat (map (\<lambda>e. snd (f e)) (take n (ipa_rm_tbl s)))\<rparr>"
  using assms
proof (induction n)
  case 0
  then show ?case by simp
next
  case (Suc n)
  let ?t = "ipa_rm_tbl s"
  have n: "n < length ?t" using Suc.prems by simp
  have "(map (\<lambda>e. fst (f e)) (take n ?t) @ drop n ?t) ! n = ?t ! n" using n by (simp add: nth_append)
  moreover have "(map (\<lambda>e. fst (f e)) (take n ?t) @ drop n ?t)[n := x] = map (\<lambda>e. fst (f e)) (take n ?t) @ x # drop (Suc n) ?t" for x
    using n by (simp add: list_update_append Cons_nth_drop_Suc [symmetric])
  ultimately show ?case using Suc n
    by (simp add: take_Suc_conv_app_nth case_prod_beta Let_def)
qed

lemma rm_loop_map:
  "ipa_max_valid_rm_entry s = length (ipa_rm_tbl s) \<Longrightarrow>
     rm_loop f s = s\<lparr>ipa_rm_tbl := map (\<lambda>e. fst (f e)) (ipa_rm_tbl s),
       ioctls := ioctls s @ concat (map (\<lambda>e. snd (f e)) (ipa_rm_tbl s))\<rparr>"
  unfolding rm_loop_def by (subst rm_loop_prefix) auto

section \<open>One entry\<close>

definition set_edges :: "ipa_rm_client \<Rightarrow> (ipa_rm_resource_name \<times> ipa_rm_resource_name) set" where
  "set_edges e =
     (if rm_set e then
        (if rx_bypass_ipa e then {} else {(producer_rm1 e, consumer_rm1 e)}) \<union> {(producer_rm2 e, consumer_rm2 e)}
      else {})"

definition entry_ok :: "(ipa_rm_resource_name \<Rightarrow> bool) \<Rightarrow> rm_spec \<Rightarrow> ipa_rm_client \<Rightarrow> bool" where
  "entry_ok byp a e =
     (producer1_up e = prods a (producer_rm1 e) \<and> consumer1_up e = conss a (consumer_rm1 e) \<and>
      rm_set e = (producer1_up e \<and> consumer1_up e) \<and> (producer1_up e \<longrightarrow> rx_bypass_ipa e = byp (producer_rm1 e)) \<and>
      (producer_rm1 e, consumer_rm1 e) \<noteq> (producer_rm2 e, consumer_rm2 e))"

fun rm_adm :: "(ipa_rm_resource_name \<Rightarrow> bool) \<Rightarrow> rm_op \<Rightarrow> bool" where
  "rm_adm byp (RmAdd r b) = (b = byp r)"
| "rm_adm byp (RmDel r) = True"

fun entry_fun :: "rm_op \<Rightarrow> int \<Rightarrow> ipa_rm_client \<Rightarrow> ipa_rm_client \<times> rm_ioctl list" where
  "entry_fun (RmAdd r b) n = add_entry r b"
| "entry_fun (RmDel r) n = del_entry r n"

text \<open>What an operation does to an entry whose flags are consistent, in one equation each.\<close>

lemma add_entry_eq:
  fixes r :: ipa_rm_resource_name and b :: bool and e :: ipa_rm_client
  assumes "rm_set e = (producer1_up e \<and> consumer1_up e)"
  defines "pu \<equiv> producer1_up e \<or> r = producer_rm1 e" and "cu \<equiv> consumer1_up e \<or> r = consumer_rm1 e"
    and "bp \<equiv> (if r = producer_rm1 e then b else rx_bypass_ipa e)"
  shows "add_entry r b e =
     (e\<lparr>producer1_up := pu, consumer1_up := cu, rm_set := pu \<and> cu, rx_bypass_ipa := bp\<rparr>,
      if pu \<and> cu \<and> \<not> rm_set e then setup_deps (e\<lparr>rx_bypass_ipa := bp\<rparr>) else [])"
  using assms(1) unfolding pu_def cu_def bp_def
  by (cases e; cases "r = producer_rm1 e"; cases "r = consumer_rm1 e"; cases "producer1_up e"; cases "consumer1_up e")
    (simp_all add: add_entry_def add_producer_def add_consumer_def setup_deps_def)

lemma del_entry_eq:
  fixes r :: ipa_rm_resource_name and n :: int and e :: ipa_rm_client
  assumes "rm_set e = (producer1_up e \<and> consumer1_up e)"
  defines "pu \<equiv> producer1_up e \<and> r \<noteq> producer_rm1 e"
    and "cu \<equiv> consumer1_up e \<and> (r \<noteq> consumer_rm1 e \<or> r = IPA_RM_RESOURCE_Q6_CONS \<and> n = 1)"
    and "bp \<equiv> (if r = producer_rm1 e then False else rx_bypass_ipa e)"
  shows "del_entry r n e =
     (e\<lparr>producer1_up := pu, consumer1_up := cu, rm_set := pu \<and> cu, rx_bypass_ipa := bp\<rparr>,
      if rm_set e \<and> \<not> (pu \<and> cu) then delete_deps e else [])"
  using assms(1) unfolding pu_def cu_def bp_def
  by (cases e; cases "r = producer_rm1 e"; cases "r = consumer_rm1 e"; cases "producer1_up e"; cases "consumer1_up e")
    (auto simp add: del_entry_def del_producer_def del_consumer_def delete_deps_def)

text \<open>
  One entry follows the specification, keeps its names, and changes the kernel's dependencies on
  its own edges only, to those its flags ask for.
\<close>

lemma entry_names:
  assumes "rm_set e = (producer1_up e \<and> consumer1_up e)" and "entry_fun x n e = (e', os)"
  shows "producer_rm1 e' = producer_rm1 e \<and> consumer_rm1 e' = consumer_rm1 e \<and>
      producer_rm2 e' = producer_rm2 e \<and> consumer_rm2 e' = consumer_rm2 e"
  using assms by (cases x) (auto simp: add_entry_eq del_entry_eq)

lemma entry_step_ok:
  assumes ok: "entry_ok byp a e" and "rm_adm byp x" and "entry_fun x (routes (spec_rm x a)) e = (e', os)"
  shows "entry_ok byp (spec_rm x a) e'"
proof -
  have c: "rm_set e = (producer1_up e \<and> consumer1_up e)" using ok by (simp add: entry_ok_def)
  show ?thesis
  proof (cases x)
    case (RmAdd r b)
    then have "e' = fst (add_entry r b e)" "b = byp r" using assms(2,3) by simp_all
    with ok RmAdd show ?thesis by (auto simp: add_entry_eq [OF c] entry_ok_def)
  next
    case (RmDel r)
    then have "e' = fst (del_entry r (routes (spec_rm x a)) e)" using assms(3) by simp
    with ok RmDel show ?thesis by (auto simp: del_entry_eq [OF c] entry_ok_def Let_def)
  qed
qed

lemma kernel_setup:
  "fold kernel_step (setup_deps e) D = D \<union> set_edges (e\<lparr>rm_set := True\<rparr>)"
  by (auto simp: setup_deps_def set_edges_def)

lemma kernel_delete:
  "rm_set e \<Longrightarrow> fold kernel_step (delete_deps e) D = D - set_edges e"
  by (auto simp: delete_deps_def set_edges_def)

lemma set_edges_subset: "set_edges e \<subseteq> entry_edges e"
  by (auto simp: set_edges_def entry_edges_def)

lemma entry_step_kernel:
  assumes ok: "entry_ok byp a e" and "rm_adm byp x" and "entry_fun x (routes (spec_rm x a)) e = (e', os)"
    and D: "D \<inter> entry_edges e = set_edges e"
  shows "fold kernel_step os D = (D - entry_edges e) \<union> set_edges e'"
proof -
  have c: "rm_set e = (producer1_up e \<and> consumer1_up e)" using ok by (simp add: entry_ok_def)
  consider (same) "os = []" "set_edges e' = set_edges e"
    | (added) "set_edges e = {}" "os = setup_deps (e\<lparr>rx_bypass_ipa := rx_bypass_ipa e'\<rparr>)"
        "set_edges e' = set_edges (e\<lparr>rx_bypass_ipa := rx_bypass_ipa e', rm_set := True\<rparr>)"
    | (delete) "rm_set e" "os = delete_deps e" "set_edges e' = {}"
  proof (cases x)
    case (RmAdd r b)
    with assms(2) have b: "b = byp r" by simp
    have e': "(e', os) = add_entry r b e" using assms(3) RmAdd by simp
    consider "rm_set e" | "\<not> rm_set e" "\<not> rm_set e'" | "\<not> rm_set e" "rm_set e'" by blast
    then show ?thesis
    proof cases
      case 1
      then show ?thesis using e' ok b c by (intro that(1)) (auto simp: add_entry_eq [OF c] set_edges_def entry_ok_def)
    next
      case 2
      then show ?thesis using e' by (intro that(1)) (auto simp: add_entry_eq [OF c] set_edges_def split: if_splits)
    next
      case 3
      then show ?thesis using e' by (intro that(2)) (auto simp: add_entry_eq [OF c] set_edges_def split: if_splits)
    qed
  next
    case (RmDel r)
    have e': "(e', os) = del_entry r (routes (spec_rm x a)) e" using assms(3) RmDel by simp
    consider "\<not> rm_set e" | "rm_set e" "rm_set e'" | "rm_set e" "\<not> rm_set e'" by blast
    then show ?thesis
    proof cases
      case 1
      then show ?thesis using e' by (intro that(1)) (auto simp: del_entry_eq [OF c] set_edges_def c)
    next
      case 2
      then show ?thesis using e' by (intro that(1)) (auto simp: del_entry_eq [OF c] set_edges_def split: if_splits)
    next
      case 3
      then show ?thesis using e' by (intro that(3)) (auto simp: del_entry_eq [OF c] set_edges_def split: if_splits)
    qed
  qed
  then show ?thesis
  proof cases
    case same
    with D set_edges_subset [of e] show ?thesis by auto
  next
    case added
    with D show ?thesis by (auto simp: kernel_setup)
  next
    case delete
    with D show ?thesis by (auto simp: kernel_delete)
  qed
qed


section \<open>The table\<close>

abbreviation edges_disjoint :: "ipa_rm_client list \<Rightarrow> bool" where
  "edges_disjoint es \<equiv> sorted_wrt (\<lambda>e e'. entry_edges e \<inter> entry_edges e' = {}) es"

definition names :: "ipa_rm_client \<Rightarrow> ipa_rm_resource_name \<times> ipa_rm_resource_name \<times> ipa_rm_resource_name \<times> ipa_rm_resource_name" where
  "names e = (producer_rm1 e, consumer_rm1 e, producer_rm2 e, consumer_rm2 e)"

fun edges_of :: "ipa_rm_resource_name \<times> ipa_rm_resource_name \<times> ipa_rm_resource_name \<times> ipa_rm_resource_name \<Rightarrow> (ipa_rm_resource_name \<times> ipa_rm_resource_name) set" where
  "edges_of (p1, c1, p2, c2) = {(p1, c1), (p2, c2)}"

lemma edges_of_names: "edges_of (names e) = entry_edges e"
  by (simp add: names_def entry_edges_def)

lemma edges_disjoint_names:
  "edges_disjoint es = sorted_wrt (\<lambda>n n'. edges_of n \<inter> edges_of n' = {}) (map names es)"
  by (simp add: sorted_wrt_map edges_of_names)

lemma table_kernel:
  assumes "\<forall>e\<in>set es. entry_ok byp a e" and adm: "rm_adm byp x" and "edges_disjoint es"
    and "\<forall>e\<in>set es. D \<inter> entry_edges e = set_edges e"
  defines "f \<equiv> entry_fun x (routes (spec_rm x a))"
  shows "fold kernel_step (concat (map (\<lambda>e. snd (f e)) es)) D =
    (D - (\<Union>e\<in>set es. entry_edges e)) \<union> (\<Union>e\<in>set es. set_edges (fst (f e)))"
  using assms(1,3,4)
proof (induction es arbitrary: D)
  case Nil
  then show ?case by simp
next
  case (Cons e es)
  let ?e = "fst (f e)" and ?D = "(D - entry_edges e) \<union> set_edges (fst (f e))"
  have ok: "entry_ok byp a e" using Cons.prems by simp
  have "fold kernel_step (snd (f e)) D = ?D"
    by (rule entry_step_kernel [OF ok adm]) (use Cons.prems in \<open>simp_all add: f_def\<close>)
  moreover have "entry_edges ?e = entry_edges e"
    using entry_names [of e x "routes (spec_rm x a)" ?e "snd (f e)"] ok by (simp add: entry_edges_def f_def entry_ok_def)
  then have sub: "set_edges ?e \<subseteq> entry_edges e" using set_edges_subset [of ?e] by simp
  have "?D \<inter> entry_edges e' = set_edges e'" if e': "e' \<in> set es" for e'
  proof -
    have "entry_edges e \<inter> entry_edges e' = {}" "D \<inter> entry_edges e' = set_edges e'" using Cons.prems(2,3) e' by auto
    with sub set_edges_subset [of e'] show ?thesis by blast
  qed
  then have "fold kernel_step (concat (map (\<lambda>e. snd (f e)) es)) ?D =
      (?D - (\<Union>e\<in>set es. entry_edges e)) \<union> (\<Union>e\<in>set es. set_edges (fst (f e)))"
    using Cons.IH [of ?D] Cons.prems by simp
  moreover have "set_edges ?e \<inter> (\<Union>e\<in>set es. entry_edges e) = {}" using sub Cons.prems(2) by fastforce
  ultimately show ?case by auto
qed

definition rm_rel :: "(ipa_rm_resource_name \<Rightarrow> bool) \<Rightarrow> rm_state \<Rightarrow> rm_spec \<Rightarrow> bool" where
  "rm_rel byp s a =
     (map names (ipa_rm_tbl s) = map names (ipa_rm_tbl rm_init) \<and> ipa_max_valid_rm_entry s = length (ipa_rm_tbl s) \<and>
      ipa_rm_a2_check s = routes a \<and> (\<forall>e\<in>set (ipa_rm_tbl s). entry_ok byp a e) \<and>
      kernel_deps (ioctls s) = (\<Union>e\<in>set (ipa_rm_tbl s). set_edges e))"

lemma init_disjoint: "edges_disjoint (ipa_rm_tbl rm_init)"
  by (simp add: rm_init_def rm_entry_def entry_edges_def)

lemma rm_rel_init: "rm_rel byp rm_init rm_spec_init"
  by (auto simp: rm_rel_def rm_init_def rm_entry_def rm_spec_init_def entry_ok_def kernel_deps_def set_edges_def)

lemma rm_exec_loop:
  "ipa_rm_a2_check s = routes a \<Longrightarrow>
     rm_exec x s = rm_loop (entry_fun x (routes (spec_rm x a))) (s\<lparr>ipa_rm_a2_check := routes (spec_rm x a)\<rparr>)"
proof -
  assume "ipa_rm_a2_check s = routes a"
  then have r: "routes a = ipa_rm_a2_check s" by simp
  show ?thesis by (cases x) (auto simp: AddRmDepend_def DelRmDepend_def Let_def r)
qed

lemma own_edges:
  "edges_disjoint es \<Longrightarrow> e \<in> set es \<Longrightarrow> (\<Union>e\<in>set es. set_edges e) \<inter> entry_edges e = set_edges e"
proof (induction es)
  case Nil
  then show ?case by simp
next
  case (Cons f es)
  have sub: "set_edges x \<subseteq> entry_edges x" for x by (rule set_edges_subset)
  show ?case
  proof (cases "e = f")
    case True
    have "(\<Union>x\<in>set es. set_edges x) \<inter> entry_edges f = {}" using Cons.prems(1) sub by fastforce
    with True sub [of f] show ?thesis by auto
  next
    case False
    then have "e \<in> set es" using Cons.prems(2) by simp
    moreover have "set_edges f \<inter> entry_edges e = {}" using Cons.prems(1) sub [of f] \<open>e \<in> set es\<close> by fastforce
    ultimately show ?thesis using Cons by auto
  qed
qed

lemma rm_simulates:
  assumes rel: "rm_rel byp s a" and adm: "rm_adm byp x"
  shows "rm_rel byp (rm_exec x s) (spec_rm x a)"
proof -
  let ?f = "entry_fun x (routes (spec_rm x a))" and ?es = "ipa_rm_tbl s"
  have ok: "\<forall>e\<in>set ?es. entry_ok byp a e" and n: "map names ?es = map names (ipa_rm_tbl rm_init)"
    and len: "ipa_max_valid_rm_entry s = length ?es" and a2: "ipa_rm_a2_check s = routes a"
    and k: "kernel_deps (ioctls s) = (\<Union>e\<in>set ?es. set_edges e)"
    using rel by (auto simp: rm_rel_def)
  have dj: "edges_disjoint ?es" using init_disjoint n by (simp only: edges_disjoint_names)
  have t: "rm_exec x s = s\<lparr>ipa_rm_a2_check := routes (spec_rm x a), ipa_rm_tbl := map (\<lambda>e. fst (?f e)) ?es,
      ioctls := ioctls s @ concat (map (\<lambda>e. snd (?f e)) ?es)\<rparr>"
    using rm_exec_loop [OF a2, of x] rm_loop_map [of "s\<lparr>ipa_rm_a2_check := routes (spec_rm x a)\<rparr>" ?f] len by simp
  have own: "\<forall>e\<in>set ?es. kernel_deps (ioctls s) \<inter> entry_edges e = set_edges e"
    using own_edges [OF dj] k by simp
  have "kernel_deps (ioctls (rm_exec x s)) =
      (kernel_deps (ioctls s) - (\<Union>e\<in>set ?es. entry_edges e)) \<union> (\<Union>e\<in>set ?es. set_edges (fst (?f e)))"
    using table_kernel [OF ok adm dj own] by (simp add: t kernel_deps_def)
  also have "\<dots> = (\<Union>e\<in>set (ipa_rm_tbl (rm_exec x s)). set_edges e)"
  proof -
    have "(\<Union>e\<in>set ?es. set_edges e) \<subseteq> (\<Union>e\<in>set ?es. entry_edges e)" using set_edges_subset by blast
    then have "(\<Union>e\<in>set ?es. set_edges e) - (\<Union>e\<in>set ?es. entry_edges e) = {}" by blast
    then show ?thesis unfolding k by (simp add: t) blast
  qed
  finally have kd: "kernel_deps (ioctls (rm_exec x s)) = (\<Union>e\<in>set (ipa_rm_tbl (rm_exec x s)). set_edges e)" .
  have "names (fst (?f e)) = names e" if "e \<in> set ?es" for e
    using entry_names [of e x "routes (spec_rm x a)" "fst (?f e)" "snd (?f e)"] ok that by (simp add: names_def entry_ok_def)
  then have "map (\<lambda>e. names (fst (?f e))) ?es = map names ?es" by (intro map_cong refl)
  then have "map names (ipa_rm_tbl (rm_exec x s)) = map names (ipa_rm_tbl rm_init)" using n by (simp add: t o_def)
  moreover have "\<forall>e\<in>set (ipa_rm_tbl (rm_exec x s)). entry_ok byp (spec_rm x a) e"
    using ok by (auto simp: t intro!: entry_step_ok [OF _ adm surjective_pairing])
  ultimately show ?thesis using kd len by (simp add: rm_rel_def t)
qed

interpretation rm: op_refinement "\<lambda>x s. Some ([] :: unit list, rm_exec x s)" "\<lambda>x s. rm_adm byp x" "rm_rel byp"
  "\<lambda>x a. ([], spec_rm x a)" for byp
  by unfold_locales (simp add: rm_simulates)

lemma run_ops_pure: "run_ops (\<lambda>x s. Some ([], f x s)) xs s = Some ([], fold f xs s)"
  by (induction xs arbitrary: s) auto

lemma run_spec_pure: "run_spec (\<lambda>x a. ([], g x a)) xs a = ([], fold g xs a)"
  by (induction xs arbitrary: a) auto

lemma admissible_pure: "\<forall>x\<in>set xs. P x \<Longrightarrow> admissible_run (\<lambda>x s. Some ([], f x s)) (\<lambda>x s. P x) xs s"
  by (induction xs arbitrary: s) auto

lemma rm_rel_run:
  assumes "\<forall>x\<in>set xs. rm_adm byp x"
  shows "rm_rel byp (fold rm_exec xs rm_init) (fold spec_rm xs rm_spec_init)"
  using rm.run_refines [OF rm_rel_init admissible_pure [OF assms]]
  by (simp add: run_ops_pure run_spec_pure)

lemma wanted_names:
  "wanted_deps byp tbl a =
     (\<Union>n\<in>set (map names tbl). case n of (p1, c1, p2, c2) \<Rightarrow>
        if prods a p1 \<and> conss a c1 then (if byp p1 then {} else {(p1, c1)}) \<union> {(p2, c2)} else {})"
  by (auto simp: wanted_deps_def names_def split: if_splits)

lemma rm_rel_wanted:
  assumes "rm_rel byp s a"
  shows "kernel_deps (ioctls s) = wanted_deps byp (ipa_rm_tbl rm_init) a"
proof -
  have "kernel_deps (ioctls s) = wanted_deps byp (ipa_rm_tbl s) a"
    using assms by (auto simp: rm_rel_def wanted_deps_def set_edges_def entry_ok_def split: if_splits)
  also have "\<dots> = wanted_deps byp (ipa_rm_tbl rm_init) a"
    using assms unfolding wanted_names by (simp add: rm_rel_def)
  finally show ?thesis .
qed

section \<open>Properties\<close>

text \<open>
  C15. Whatever the order in which interfaces and routes come and go, the dependencies requested
  from the kernel are exactly those of the pairs of the table whose producer and consumer are both
  up, in both directions, without the direction of a producer that bypasses the hardware; the modem
  consumer counts its default routes. The one hypothesis is that a resource is always added with the
  same bypass flag.
\<close>

theorem rm_dependencies_exact:
  assumes "\<forall>x\<in>set xs. rm_adm byp x"
  shows "kernel_deps (ioctls (fold rm_exec xs rm_init)) = wanted_deps byp (ipa_rm_tbl rm_init) (fold spec_rm xs rm_spec_init)"
  using rm_rel_run [OF assms] by (rule rm_rel_wanted)

definition rm_run :: "rm_op list" where
  "rm_run = [RmAdd IPA_RM_RESOURCE_WLAN_PROD False, RmAdd IPA_RM_RESOURCE_Q6_CONS False, RmAdd IPA_RM_RESOURCE_Q6_CONS False,
     RmAdd IPA_RM_RESOURCE_USB_PROD True, RmDel IPA_RM_RESOURCE_WLAN_PROD, RmDel IPA_RM_RESOURCE_Q6_CONS]"

theorem rm_dependencies_exact_witness:
  "kernel_deps (ioctls (fold rm_exec rm_run rm_init)) = {(IPA_RM_RESOURCE_Q6_PROD, IPA_RM_RESOURCE_USB_CONS)}"
proof -
  let ?byp = "\<lambda>r. r = IPA_RM_RESOURCE_USB_PROD"
  have "\<forall>x\<in>set rm_run. rm_adm ?byp x" by (simp add: rm_run_def)
  from rm_dependencies_exact [OF this] show ?thesis
    by (simp add: wanted_names rm_run_def rm_init_def rm_entry_def names_def rm_spec_init_def)
qed

text \<open>
  The hypothesis is needed: an \<open>AddRmDepend\<close> of a producer that is up with another flag changes
  the recorded flag without touching the kernel, and the later \<open>DelRmDepend\<close> leaves a dependency
  behind although both ends of every entry are down.
\<close>

theorem rm_bypass_change_leaks:
  "let s = fold rm_exec [RmAdd IPA_RM_RESOURCE_USB_PROD False, RmAdd IPA_RM_RESOURCE_Q6_CONS False,
       RmAdd IPA_RM_RESOURCE_USB_PROD True, RmDel IPA_RM_RESOURCE_USB_PROD, RmDel IPA_RM_RESOURCE_Q6_CONS] rm_init in
   kernel_deps (ioctls s) = {(IPA_RM_RESOURCE_USB_PROD, IPA_RM_RESOURCE_Q6_CONS)} \<and>
   list_all (\<lambda>e. \<not> producer1_up e \<and> \<not> consumer1_up e) (ipa_rm_tbl s)"
  by code_simp

text \<open>
  The count of default routes protects only the last one: with three routes to the modem (eMBMS,
  IPv4 and IPv6), removing one withdraws the modem's dependencies while two routes are left.
\<close>

theorem rm_three_routes_torn_down:
  "let s = fold rm_exec [RmAdd IPA_RM_RESOURCE_WLAN_PROD False, RmAdd IPA_RM_RESOURCE_Q6_CONS False,
       RmAdd IPA_RM_RESOURCE_Q6_CONS False, RmAdd IPA_RM_RESOURCE_Q6_CONS False, RmDel IPA_RM_RESOURCE_Q6_CONS] rm_init in
   ipa_rm_a2_check s = 2 \<and> kernel_deps (ioctls s) = {}"
  by code_simp

end
