(* ===== verification/Config.thy ===== *)
theory Config
  imports Iface_Table IPACM_Events RM_Depend NatApp Keyed_List
begin

text \<open>
  \<open>IPACM_Config.cpp\<close>/\<open>.h\<close>: the configuration object. \<open>Init\<close> copies the parsed XML file into it; the
  list of interfaces behind NAT, the private subnets, the extended properties and the filter rule
  counters change at run time. The resource-manager part is in \<open>RM_Depend\<close>. The parsed file is the
  record \<open>IPACM_conf_t\<close>; the results of \<open>calloc\<close> and \<open>malloc\<close> are arguments. An access outside an
  array is the result \<open>None\<close>. The descriptor of the device node is left out; a failed \<open>Init\<close> frees
  the tables of an object that \<open>GetInstance\<close> deletes, which the model clears.
\<close>

section \<open>Data\<close>

record ipa_private_subnet =
  subnet_addr :: u32
  subnet_mask :: u32

record IPACM_conf_t =
  iface_entries :: "ipa_ifi_dev_name_t list"
  private_subnet_entries :: "ipa_private_subnet list"
  alg_entries :: "ipacm_alg list"
  nat_max_entries :: int
  odu_enable :: bool
  router_mode_enable :: bool
  odu_embms_enable :: bool
  num_wlan_guest_ap :: int
  ip_passthrough_mode :: bool

datatype ext_ip = EXT_v4 | EXT_v6 | EXT_other

text \<open>An extended property: its IP type and the rest of the structure, which is only copied.\<close>

record ext_intf_prop =
  ext_ip :: ext_ip
  ext_rest :: nat

record ipacm_ext_prop =
  num_ext_props :: nat
  ext_props :: "ext_intf_prop list"

definition MAX_NUM_EXT_PROPS :: nat where "MAX_NUM_EXT_PROPS = 25"

definition IPA_MAC_ADDR_SIZE :: nat where "IPA_MAC_ADDR_SIZE = 6"

definition IPA_MAX_PRIVATE_SUBNET_ENTRIES :: nat where "IPA_MAX_PRIVATE_SUBNET_ENTRIES = 3"

text \<open>
  The argument of \<open>IPA_IOC_GET_RT_TBL\<close>: IP type and name of a routing table. The zero of \<open>memset\<close>
  is an IPv4 table without a name; \<open>IPA_IP_MAX\<close> is neither.
\<close>

record ipa_ioc_get_rt_tbl =
  rt_ip :: ext_ip
  rt_name :: string

record rt_tbls =
  rt_tbl_default_v4 :: ipa_ioc_get_rt_tbl
  rt_tbl_lan_v4 :: ipa_ioc_get_rt_tbl
  rt_tbl_wan_v4 :: ipa_ioc_get_rt_tbl
  rt_tbl_v6 :: ipa_ioc_get_rt_tbl
  rt_tbl_wan_v6 :: ipa_ioc_get_rt_tbl
  rt_tbl_wan_dl :: ipa_ioc_get_rt_tbl
  rt_tbl_odu_v4 :: ipa_ioc_get_rt_tbl
  rt_tbl_odu_v6 :: ipa_ioc_get_rt_tbl

text \<open>The clients of the hardware that \<open>Init\<close> names; the enumeration is the kernel's.\<close>

datatype ipa_client_type =
    IPA_CLIENT_WLAN1_PROD | IPA_CLIENT_USB_PROD | IPA_CLIENT_A5_WLAN_AMPDU_PROD
  | IPA_CLIENT_A2_EMBEDDED_PROD | IPA_CLIENT_A2_TETHERED_PROD | IPA_CLIENT_APPS_LAN_WAN_PROD
  | IPA_CLIENT_WLAN1_CONS | IPA_CLIENT_WLAN2_CONS | IPA_CLIENT_WLAN3_CONS | IPA_CLIENT_WLAN4_CONS
  | IPA_CLIENT_USB_CONS | IPA_CLIENT_A2_EMBEDDED_CONS | IPA_CLIENT_A2_TETHERED_CONS
  | IPA_CLIENT_APPS_WAN_CONS | IPA_CLIENT_ODU_PROD | IPA_CLIENT_ODU_EMB_CONS | IPA_CLIENT_ODU_TETH_CONS

record config = iface_cfg +
  alg_table :: "ipacm_alg list"
  private_subnet_table :: "ipa_private_subnet list"
  ipa_num_private_subnet :: nat
  pNatIfaces :: "string list"
  ipa_nat_iface_entries :: nat
  ipa_nat_max_entries :: int
  ipacm_odu_enable :: bool
  ipacm_odu_router_mode :: bool
  ipacm_odu_embms_enable :: bool
  ipacm_ip_passthrough_mode :: bool
  ipa_num_wlan_guest_ap :: int
  ext_prop_v4 :: ipacm_ext_prop
  ext_prop_v6 :: ipacm_ext_prop
  flt_rule_count_v4 :: "int list"
  flt_rule_count_v6 :: "int list"
  ipa_sw_rt_enable :: bool
  ipa_bridge_enable :: bool
  isMCC_Mode :: bool
  qmap_id :: u8
  bridge_mac :: "u8 list"
  rt_tables :: rt_tbls
  ipa_client_rm_map_tbl :: "ipa_client_type \<Rightarrow> ipa_rm_resource_name option"
  rm :: rm_state

definition zero_subnet :: ipa_private_subnet where
  "zero_subnet = \<lparr>subnet_addr = 0, subnet_mask = 0\<rparr>"

definition zero_prop :: ipacm_ext_prop where
  "zero_prop = \<lparr>num_ext_props = 0, ext_props = replicate MAX_NUM_EXT_PROPS \<lparr>ext_ip = EXT_v4, ext_rest = 0\<rparr>\<rparr>"

definition zero_rt_tbls :: rt_tbls where
  "zero_rt_tbls = (let z = \<lparr>rt_ip = EXT_v4, rt_name = []\<rparr> in
     \<lparr>rt_tbl_default_v4 = z, rt_tbl_lan_v4 = z, rt_tbl_wan_v4 = z, rt_tbl_v6 = z,
      rt_tbl_wan_v6 = z, rt_tbl_wan_dl = z, rt_tbl_odu_v4 = z, rt_tbl_odu_v6 = z\<rparr>)"

text \<open>
  The constructor. \<open>nclients\<close> is \<open>IPA_CLIENT_CONS - IPA_CLIENT_PROD\<close>, a number of the kernel's
  header; the members it leaves unset are arguments (\<open>vname\<close>, \<open>embms\<close>, \<open>pass\<close>, \<open>subnets\<close>).
\<close>

definition Config_ctor :: "nat \<Rightarrow> string \<Rightarrow> bool \<Rightarrow> bool \<Rightarrow> ipa_private_subnet list \<Rightarrow> config" where
  "Config_ctor nclients vname embms pass subnets =
     \<lparr>iface_table = None, ipa_num_ipa_interfaces = 0, ipa_virtual_iface_name = vname,
      alg_table = [], private_subnet_table = subnets, ipa_num_private_subnet = 0,
      pNatIfaces = [], ipa_nat_iface_entries = 0, ipa_nat_max_entries = 0,
      ipacm_odu_enable = False, ipacm_odu_router_mode = False, ipacm_odu_embms_enable = embms,
      ipacm_ip_passthrough_mode = pass, ipa_num_wlan_guest_ap = 0,
      ext_prop_v4 = zero_prop, ext_prop_v6 = zero_prop,
      flt_rule_count_v4 = replicate nclients 0, flt_rule_count_v6 = replicate nclients 0,
      ipa_sw_rt_enable = False, ipa_bridge_enable = False, isMCC_Mode = False, qmap_id = -1,
      bridge_mac = replicate IPA_MAC_ADDR_SIZE 0, rt_tables = zero_rt_tbls,
      ipa_client_rm_map_tbl = (\<lambda>_. None),
      rm = \<lparr>ipa_rm_tbl = [], ipa_max_valid_rm_entry = 0, ipa_rm_a2_check = 0, ioctls = []\<rparr>\<rparr>"

section \<open>Init\<close>

definition init_rt_tbls :: rt_tbls where
  "init_rt_tbls =
     \<lparr>rt_tbl_default_v4 = \<lparr>rt_ip = EXT_v4, rt_name = ''ipa_dflt_rt''\<rparr>,
      rt_tbl_lan_v4 = \<lparr>rt_ip = EXT_v4, rt_name = ''COMRTBLLANv4''\<rparr>,
      rt_tbl_wan_v4 = \<lparr>rt_ip = EXT_v4, rt_name = ''WANRTBLv4''\<rparr>,
      rt_tbl_v6 = \<lparr>rt_ip = EXT_v6, rt_name = ''COMRTBLv6''\<rparr>,
      rt_tbl_wan_v6 = \<lparr>rt_ip = EXT_v6, rt_name = ''WANRTBLv6''\<rparr>,
      rt_tbl_wan_dl = \<lparr>rt_ip = EXT_other, rt_name = ''ipa_dflt_wan_rt''\<rparr>,
      rt_tbl_odu_v4 = \<lparr>rt_ip = EXT_v4, rt_name = ''ODURTBLv4''\<rparr>,
      rt_tbl_odu_v6 = \<lparr>rt_ip = EXT_v6, rt_name = ''ODURTBLv6''\<rparr>\<rparr>"

text \<open>The resource of each client: every one named above has one.\<close>

primrec client_rm :: "ipa_client_type \<Rightarrow> ipa_rm_resource_name" where
  "client_rm IPA_CLIENT_WLAN1_PROD = IPA_RM_RESOURCE_WLAN_PROD"
| "client_rm IPA_CLIENT_USB_PROD = IPA_RM_RESOURCE_USB_PROD"
| "client_rm IPA_CLIENT_A5_WLAN_AMPDU_PROD = IPA_RM_RESOURCE_HSIC_PROD"
| "client_rm IPA_CLIENT_A2_EMBEDDED_PROD = IPA_RM_RESOURCE_Q6_PROD"
| "client_rm IPA_CLIENT_A2_TETHERED_PROD = IPA_RM_RESOURCE_Q6_PROD"
| "client_rm IPA_CLIENT_APPS_LAN_WAN_PROD = IPA_RM_RESOURCE_Q6_PROD"
| "client_rm IPA_CLIENT_WLAN1_CONS = IPA_RM_RESOURCE_WLAN_CONS"
| "client_rm IPA_CLIENT_WLAN2_CONS = IPA_RM_RESOURCE_WLAN_CONS"
| "client_rm IPA_CLIENT_WLAN3_CONS = IPA_RM_RESOURCE_WLAN_CONS"
| "client_rm IPA_CLIENT_WLAN4_CONS = IPA_RM_RESOURCE_WLAN_CONS"
| "client_rm IPA_CLIENT_USB_CONS = IPA_RM_RESOURCE_USB_CONS"
| "client_rm IPA_CLIENT_A2_EMBEDDED_CONS = IPA_RM_RESOURCE_Q6_CONS"
| "client_rm IPA_CLIENT_A2_TETHERED_CONS = IPA_RM_RESOURCE_Q6_CONS"
| "client_rm IPA_CLIENT_APPS_WAN_CONS = IPA_RM_RESOURCE_Q6_CONS"
| "client_rm IPA_CLIENT_ODU_PROD = IPA_RM_RESOURCE_ODU_ADAPT_PROD"
| "client_rm IPA_CLIENT_ODU_EMB_CONS = IPA_RM_RESOURCE_ODU_ADAPT_CONS"
| "client_rm IPA_CLIENT_ODU_TETH_CONS = IPA_RM_RESOURCE_ODU_ADAPT_CONS"

text \<open>
  Copying one interface entry: name, category and modes; the bridge's name is remembered. The
  kernel's interface index stays the zero of \<open>calloc\<close>.
\<close>

definition copy_iface :: "ipa_ifi_dev_name_t \<Rightarrow> config \<Rightarrow> config" where
  "copy_iface e c =
     (let c = c\<lparr>iface_table := Some (the (iface_table c) @ [e\<lparr>netlink_interface_index := 0\<rparr>])\<rparr> in
      if if_cat e = VIRTUAL_IF then c\<lparr>ipa_virtual_iface_name := iface_name e\<rparr> else c)"

definition Config_Init :: "IPACM_conf_t option \<Rightarrow> bool \<Rightarrow> bool \<Rightarrow> bool \<Rightarrow> config \<Rightarrow> int \<times> config" where
  "Config_Init conf alloc_iface alloc_alg alloc_nat c =
     (case conf of
        None \<Rightarrow> (IPACM_FAILURE, c)
      | Some cfg \<Rightarrow>
          if num_wlan_guest_ap cfg = 2 then (IPACM_FAILURE, c)
          else
            let c = c\<lparr>ipa_num_ipa_interfaces := length (iface_entries cfg), iface_table := None\<rparr> in
            if \<not> alloc_iface then (IPACM_FAILURE, c)
            else
              let c = fold copy_iface (iface_entries cfg) (c\<lparr>iface_table := Some []\<rparr>);
                  n = length (private_subnet_entries cfg);
                  c = c\<lparr>private_subnet_table := private_subnet_entries cfg @ replicate (IPA_MAX_PRIVATE_SUBNET_ENTRIES - n) zero_subnet,
                        ipa_num_private_subnet := n\<rparr> in
              if \<not> alloc_alg then (IPACM_FAILURE, c\<lparr>alg_table := [], iface_table := None\<rparr>)
              else
                let c = c\<lparr>alg_table := alg_entries cfg, ipa_nat_max_entries := nat_max_entries cfg,
                          ipacm_odu_enable := odu_enable cfg, ipacm_odu_router_mode := router_mode_enable cfg,
                          ipacm_odu_embms_enable := odu_embms_enable cfg,
                          ipacm_ip_passthrough_mode := ip_passthrough_mode cfg,
                          ipa_num_wlan_guest_ap := num_wlan_guest_ap cfg, ipa_nat_iface_entries := 0\<rparr> in
                if \<not> alloc_nat then (IPACM_FAILURE, c\<lparr>pNatIfaces := [], iface_table := None, alg_table := []\<rparr>)
                else
                  (IPACM_SUCCESS,
                   c\<lparr>pNatIfaces := replicate (ipa_num_ipa_interfaces c) [],
                     rt_tables := init_rt_tbls,
                     ipa_client_rm_map_tbl := (\<lambda>client. Some (client_rm client)),
                     rm := rm_init\<lparr>ipa_rm_a2_check := ipa_rm_a2_check (rm c), ioctls := ioctls (rm c)\<rparr>\<rparr>))"

section \<open>Interfaces behind NAT\<close>

text \<open>\<open>GetNatIfaces\<close> with memory for \<open>n\<close> names.\<close>

definition GetNatIfaces :: "nat \<Rightarrow> config \<Rightarrow> (int \<times> string list) option" where
  "GetNatIfaces n c =
     (if n = 0 then Some (-1, [])
      else if n \<le> length (pNatIfaces c) then Some (0, take n (pNatIfaces c))
      else None)"

definition GetNatIfacesCnt :: "config \<Rightarrow> nat" where "GetNatIfacesCnt c = ipa_nat_iface_entries c"

text \<open>
  \<open>AddNatIfaces\<close>: the search reads the first \<open>ipa_nat_iface_entries\<close> names; the count is
  incremented, and the name is stored when the new count is below the number of interfaces.
\<close>

definition AddNatIfaces :: "string \<Rightarrow> config \<Rightarrow> (int \<times> config) option" where
  "AddNatIfaces dev_name c =
     (let n = ipa_nat_iface_entries c;
          i = find_idx (\<lambda>i. i < length (pNatIfaces c) \<longrightarrow> strncmp_eq IPA_IFACE_NAME_LEN dev_name (pNatIfaces c ! i)) n in
      if i < n then (if i < length (pNatIfaces c) then Some (0, c) else None)
      else
        let c = c\<lparr>ipa_nat_iface_entries := n + 1\<rparr> in
        if n + 1 < ipa_num_ipa_interfaces c then
          Some (0, c\<lparr>pNatIfaces := (pNatIfaces c)[n := take (IPA_IFACE_NAME_LEN - 1) dev_name]\<rparr>)
        else Some (0, c))"

definition DelNatIfaces :: "string \<Rightarrow> config \<Rightarrow> (int \<times> config) option" where
  "DelNatIfaces dev_name c =
     (let n = ipa_nat_iface_entries c;
          i = find_idx (\<lambda>i. i < length (pNatIfaces c) \<longrightarrow> dev_name = pNatIfaces c ! i) n in
      if i < n then
        if i < length (pNatIfaces c) \<and> n \<le> length (pNatIfaces c) then
          let ns = fold (\<lambda>j ns. ns[j := ns ! (j + 1), j + 1 := []]) [i..<n - 1] ((pNatIfaces c)[i := []])
          in Some (0, c\<lparr>pNatIfaces := ns, ipa_nat_iface_entries := n - 1\<rparr>)
        else None
      else Some (0, c))"

section \<open>Private subnets\<close>

definition isPrivateSubnet :: "config \<Rightarrow> u32 \<Rightarrow> bool" where
  "isPrivateSubnet c ip_addr =
     (find_idx (\<lambda>i. subnet_addr (private_subnet_table c ! i) = subnet_mask (private_subnet_table c ! i) AND ip_addr)
        (ipa_num_private_subnet c) < ipa_num_private_subnet c)"

text \<open>
  \<open>AddPrivateSubnet\<close> and \<open>DelPrivateSubnet\<close> (the Android build): the result, whether
  \<open>IPA_PRIVATE_SUBNET_CHANGE_EVENT\<close> was posted, and the configuration. On a failing \<open>malloc\<close> they
  return \<open>IPACM_FAILURE\<close> (-1) from a function of type \<open>bool\<close>, which is \<open>true\<close>.
\<close>

definition AddPrivateSubnet :: "bool \<Rightarrow> u32 \<Rightarrow> config \<Rightarrow> bool \<times> bool \<times> config" where
  "AddPrivateSubnet malloc_ok ip_addr c =
     (let n = ipa_num_private_subnet c in
      if find_idx (\<lambda>i. subnet_addr (private_subnet_table c ! i) = ip_addr) n < n then (True, False, c)
      else if n < IPA_MAX_PRIVATE_SUBNET_ENTRIES then
        let c = c\<lparr>private_subnet_table := (private_subnet_table c)[n := \<lparr>subnet_addr = ip_addr, subnet_mask = 0xFFFFFF00\<rparr>],
                  ipa_num_private_subnet := n + 1\<rparr> in
        (IPACM_FAILURE \<noteq> 0 \<or> malloc_ok, malloc_ok, c)
      else (False, False, c))"

definition DelPrivateSubnet :: "bool \<Rightarrow> u32 \<Rightarrow> config \<Rightarrow> bool \<times> bool \<times> config" where
  "DelPrivateSubnet malloc_ok ip_addr c =
     (let n = ipa_num_private_subnet c;
          i = find_idx (\<lambda>i. subnet_addr (private_subnet_table c ! i) = ip_addr) n in
      if i < n then
        let t = fold (\<lambda>j t. t[j := (t ! j)\<lparr>subnet_addr := subnet_addr (t ! (j + 1))\<rparr>]) [i..<n - 1] (private_subnet_table c) in
        (IPACM_FAILURE \<noteq> 0 \<or> malloc_ok, malloc_ok, c\<lparr>private_subnet_table := t, ipa_num_private_subnet := n - 1\<rparr>)
      else (False, False, c))"

section \<open>Extended properties, rule counters, event names\<close>

definition add_ext :: "ext_intf_prop \<Rightarrow> ipacm_ext_prop \<Rightarrow> ipacm_ext_prop" where
  "add_ext p e =
     (if num_ext_props e \<ge> MAX_NUM_EXT_PROPS then e
      else e\<lparr>ext_props := (ext_props e)[num_ext_props e := p], num_ext_props := num_ext_props e + 1\<rparr>)"

fun set_ext :: "ext_intf_prop list \<Rightarrow> config \<Rightarrow> int \<times> config" where
  "set_ext [] c = (IPACM_SUCCESS, c)"
| "set_ext (p # ps) c =
     (case ext_ip p of
        EXT_v4 \<Rightarrow> set_ext ps (c\<lparr>ext_prop_v4 := add_ext p (ext_prop_v4 c)\<rparr>)
      | EXT_v6 \<Rightarrow> set_ext ps (c\<lparr>ext_prop_v6 := add_ext p (ext_prop_v6 c)\<rparr>)
      | EXT_other \<Rightarrow> (IPACM_FAILURE, c))"

definition SetExtProp :: "ext_intf_prop list option \<Rightarrow> config \<Rightarrow> int \<times> config" where
  "SetExtProp prp c =
     (case prp of
        None \<Rightarrow> (IPACM_FAILURE, c)
      | Some ps \<Rightarrow> if ps = [] then (IPACM_FAILURE, c) else set_ext ps c)"

definition GetExtProp :: "ext_ip \<Rightarrow> config \<Rightarrow> ipacm_ext_prop option" where
  "GetExtProp ip c = (case ip of EXT_v4 \<Rightarrow> Some (ext_prop_v4 c) | EXT_v6 \<Rightarrow> Some (ext_prop_v6 c) | EXT_other \<Rightarrow> None)"

definition DelExtProp :: "ext_ip \<Rightarrow> config \<Rightarrow> int \<times> config" where
  "DelExtProp ip c =
     (let c = (if ip \<noteq> EXT_v6 then c\<lparr>ext_prop_v4 := zero_prop\<rparr> else c);
          c = (if ip \<noteq> EXT_v4 then c\<lparr>ext_prop_v6 := zero_prop\<rparr> else c)
      in (IPACM_SUCCESS, c))"

text \<open>\<open>increaseFltRuleCount\<close>, \<open>decreaseFltRuleCount\<close> (with a negative amount) and \<open>getFltRuleCount\<close>.\<close>

definition addFltRuleCount :: "int \<Rightarrow> bool \<Rightarrow> int \<Rightarrow> config \<Rightarrow> config" where
  "addFltRuleCount index v4 amount c =
     (if index \<ge> int (length (flt_rule_count_v4 c)) \<or> index < 0 then c
      else if v4 then c\<lparr>flt_rule_count_v4 := (flt_rule_count_v4 c)[nat index := flt_rule_count_v4 c ! nat index + amount]\<rparr>
      else c\<lparr>flt_rule_count_v6 := (flt_rule_count_v6 c)[nat index := flt_rule_count_v6 c ! nat index + amount]\<rparr>)"

definition getFltRuleCount :: "int \<Rightarrow> bool \<Rightarrow> config \<Rightarrow> int" where
  "getFltRuleCount index v4 c =
     (if index \<ge> int (length (flt_rule_count_v4 c)) \<or> index < 0 then -1
      else if v4 then flt_rule_count_v4 c ! nat index else flt_rule_count_v6 c ! nat index)"

definition GetAlgPorts :: "nat \<Rightarrow> config \<Rightarrow> (int \<times> ipacm_alg list) option" where
  "GetAlgPorts n c =
     (if n = 0 then Some (-1, [])
      else if n \<le> length (alg_table c) then Some (0, take n (alg_table c))
      else None)"

text \<open>The names of the events, in the order of the enumeration.\<close>

definition ipacm_event_name :: "string list" where
  "ipacm_event_name =
     [''IPA_CFG_CHANGE_EVENT'',
      ''IPA_PRIVATE_SUBNET_CHANGE_EVENT'',
      ''IPA_FIREWALL_CHANGE_EVENT'',
      ''IPA_LINK_UP_EVENT'',
      ''IPA_LINK_DOWN_EVENT'',
      ''IPA_USB_LINK_UP_EVENT'',
      ''IPA_BRIDGE_LINK_UP_EVENT'',
      ''IPA_WAN_EMBMS_LINK_UP_EVENT'',
      ''IPA_ADDR_ADD_EVENT'',
      ''IPA_ADDR_DEL_EVENT'',
      ''IPA_ROUTE_ADD_EVENT'',
      ''IPA_ROUTE_DEL_EVENT'',
      ''IPA_WAN_UPSTREAM_ROUTE_ADD_EVENT'',
      ''IPA_WAN_UPSTREAM_ROUTE_DEL_EVENT'',
      ''IPA_WLAN_AP_LINK_UP_EVENT'',
      ''IPA_WLAN_STA_LINK_UP_EVENT'',
      ''IPA_WLAN_LINK_DOWN_EVENT'',
      ''IPA_WLAN_CLIENT_ADD_EVENT'',
      ''IPA_WLAN_CLIENT_ADD_EVENT_EX'',
      ''IPA_WLAN_CLIENT_DEL_EVENT'',
      ''IPA_WLAN_CLIENT_POWER_SAVE_EVENT'',
      ''IPA_WLAN_CLIENT_RECOVER_EVENT'',
      ''IPA_NEW_NEIGH_EVENT'',
      ''IPA_DEL_NEIGH_EVENT'',
      ''IPA_NEIGH_CLIENT_IP_ADDR_ADD_EVENT'',
      ''IPA_NEIGH_CLIENT_IP_ADDR_DEL_EVENT'',
      ''IPA_SW_ROUTING_ENABLE'',
      ''IPA_SW_ROUTING_DISABLE'',
      ''IPA_PROCESS_CT_MESSAGE'',
      ''IPA_PROCESS_CT_MESSAGE_V6'',
      ''IPA_LAN_TO_LAN_NEW_CONNECTION'',
      ''IPA_LAN_TO_LAN_DEL_CONNECTION'',
      ''IPA_WLAN_SWITCH_TO_SCC'',
      ''IPA_WLAN_SWITCH_TO_MCC'',
      ''IPA_CRADLE_WAN_MODE_SWITCH'',
      ''IPA_WAN_XLAT_CONNECT_EVENT'',
      ''IPA_TETHERING_STATS_UPDATE_EVENT'',
      ''IPA_NETWORK_STATS_UPDATE_EVENT'',
      ''IPA_EXTERNAL_EVENT_MAX'',
      ''IPA_HANDLE_WAN_UP'',
      ''IPA_HANDLE_WAN_DOWN'',
      ''IPA_HANDLE_WAN_UP_V6'',
      ''IPA_HANDLE_WAN_DOWN_V6'',
      ''IPA_HANDLE_WAN_UP_TETHER'',
      ''IPA_HANDLE_WAN_DOWN_TETHER'',
      ''IPA_HANDLE_WAN_UP_V6_TETHER'',
      ''IPA_HANDLE_WAN_DOWN_V6_TETHER'',
      ''IPA_HANDLE_WLAN_UP'',
      ''IPA_HANDLE_LAN_UP'',
      ''IPA_ETH_BRIDGE_IFACE_UP'',
      ''IPA_ETH_BRIDGE_IFACE_DOWN'',
      ''IPA_ETH_BRIDGE_CLIENT_ADD'',
      ''IPA_ETH_BRIDGE_CLIENT_DEL'',
      ''IPA_ETH_BRIDGE_WLAN_SCC_MCC_SWITCH'',
      ''IPA_LAN_DELETE_SELF'',
      ''IPACM_EVENT_MAX'']"

definition getEventName :: "ipa_cm_event_id \<Rightarrow> string option" where
  "getEventName event_id =
     (if event_num event_id \<ge> length ipacm_event_name then None else Some (ipacm_event_name ! event_num event_id))"

lemma getEventName_total: "\<exists>s. getEventName e = Some s"
  by (cases e) (simp_all add: getEventName_def ipacm_event_name_def)

section \<open>The instance\<close>

text \<open>
  \<open>GetInstance\<close>: the pointer returned and the new value of \<open>pInstance\<close>, which still points to the
  object deleted after a failed \<open>Init\<close>.
\<close>

datatype config_ptr = NullConfig | LiveConfig config | DanglingConfig

definition Config_GetInstance ::
  "IPACM_conf_t option \<Rightarrow> bool \<Rightarrow> bool \<Rightarrow> bool \<Rightarrow> config \<Rightarrow> config_ptr \<Rightarrow> config_ptr \<times> config_ptr" where
  "Config_GetInstance conf alloc_iface alloc_alg alloc_nat fresh pInstance =
     (case pInstance of
        NullConfig \<Rightarrow>
          (case Config_Init conf alloc_iface alloc_alg alloc_nat fresh of
             (res, c) \<Rightarrow> if res \<noteq> IPACM_SUCCESS then (NullConfig, DanglingConfig) else (LiveConfig c, LiveConfig c))
      | p \<Rightarrow> (p, p))"

end
