(* ===== verification/Config_Props.thy ===== *)
theory Config_Props
  imports Config
begin

text \<open>
  The list of interfaces behind NAT is a set of names as long as the array has room, and what
  happens when it is full; the private subnets.
\<close>

section \<open>Interfaces behind NAT\<close>

definition nat_names :: "config \<Rightarrow> string list" where
  "nat_names c = take (ipa_nat_iface_entries c) (pNatIfaces c)"

definition nat_wf :: "config \<Rightarrow> bool" where
  "nat_wf c =
     (length (pNatIfaces c) = ipa_num_ipa_interfaces c \<and> ipa_nat_iface_entries c \<le> length (pNatIfaces c) \<and>
      distinct (nat_names c) \<and> (\<forall>x\<in>set (nat_names c). length x < IPA_IFACE_NAME_LEN))"

interpretation nat_ifaces: keyed_list "\<lambda>x::string. x" .

lemma strncmp_short:
  "length a < IPA_IFACE_NAME_LEN \<Longrightarrow> length b < IPA_IFACE_NAME_LEN \<Longrightarrow> strncmp_eq IPA_IFACE_NAME_LEN a b \<longleftrightarrow> a = b"
  by (simp add: strncmp_eq_def)

lemma nat_names_nth: "nat_wf c \<Longrightarrow> i < ipa_nat_iface_entries c \<Longrightarrow> pNatIfaces c ! i \<in> set (nat_names c)"
  by (auto simp: nat_wf_def nat_names_def in_set_conv_nth)

lemma set_nat_names:
  assumes "nat_wf c"
  shows "set (nat_names c) = (\<lambda>i. pNatIfaces c ! i) ` {..<ipa_nat_iface_entries c}"
  using assms by (simp add: nat_wf_def nat_names_def nth_image lessThan_atLeast0)

lemma AddNatIfaces_known:
  assumes wf: "nat_wf c" and d: "length d < IPA_IFACE_NAME_LEN" "d \<in> set (nat_names c)"
  shows "AddNatIfaces d c = Some (0, c)"
proof -
  let ?P = "\<lambda>i. i < length (pNatIfaces c) \<longrightarrow> strncmp_eq IPA_IFACE_NAME_LEN d (pNatIfaces c ! i)"
  obtain i where "i < ipa_nat_iface_entries c" "pNatIfaces c ! i = d" using d(2) set_nat_names [OF wf] by auto
  then have "find_idx ?P (ipa_nat_iface_entries c) < ipa_nat_iface_entries c"
    by (auto simp: find_idx_less_iff strncmp_eq_def)
  moreover from this have "find_idx ?P (ipa_nat_iface_entries c) < length (pNatIfaces c)" using wf by (simp add: nat_wf_def)
  ultimately show ?thesis by (simp add: AddNatIfaces_def Let_def)
qed

lemma AddNatIfaces_new:
  assumes wf: "nat_wf c" and d: "length d < IPA_IFACE_NAME_LEN" "d \<notin> set (nat_names c)"
  shows "AddNatIfaces d c =
     Some (0, if ipa_nat_iface_entries c + 1 < ipa_num_ipa_interfaces c
              then c\<lparr>ipa_nat_iface_entries := ipa_nat_iface_entries c + 1,
                     pNatIfaces := (pNatIfaces c)[ipa_nat_iface_entries c := d]\<rparr>
              else c\<lparr>ipa_nat_iface_entries := ipa_nat_iface_entries c + 1\<rparr>)"
proof -
  let ?P = "\<lambda>i. i < length (pNatIfaces c) \<longrightarrow> strncmp_eq IPA_IFACE_NAME_LEN d (pNatIfaces c ! i)"
  have "\<not> ?P i" if i: "i < ipa_nat_iface_entries c" for i
  proof -
    have "pNatIfaces c ! i \<in> set (nat_names c)" using nat_names_nth [OF wf i] .
    then have "pNatIfaces c ! i \<noteq> d" "length (pNatIfaces c ! i) < IPA_IFACE_NAME_LEN" using d(2) wf by (auto simp: nat_wf_def)
    then show ?thesis using i wf d(1) strncmp_short by (auto simp: nat_wf_def)
  qed
  then have "find_idx ?P (ipa_nat_iface_entries c) = ipa_nat_iface_entries c" by (simp add: find_idx_eq_iff)
  moreover have "take (IPA_IFACE_NAME_LEN - 1) d = d" using d(1) by (simp add: IPA_IFACE_NAME_LEN_def)
  ultimately show ?thesis by (simp add: AddNatIfaces_def Let_def)
qed

text \<open>The removal loop, whose copies also clear the cell they leave.\<close>

lemma nat_shift_nth:
  "m < length xs \<Longrightarrow> xs ! i = [] \<Longrightarrow> i \<le> m \<Longrightarrow> length (fold (\<lambda>j ns. ns[j := ns ! (j + 1), j + 1 := []]) [i..<m] xs) = length xs \<and>
     (k < length xs \<longrightarrow> fold (\<lambda>j ns. ns[j := ns ! (j + 1), j + 1 := []]) [i..<m] xs ! k =
        (if i \<le> k \<and> k < m then xs ! (k + 1) else if k = m then [] else xs ! k))"
proof (induction m arbitrary: k)
  case 0
  then show ?case by auto
next
  case (Suc m)
  show ?case
  proof (cases "i \<le> m")
    case True
    with Suc.prems Suc.IH [of k] Suc.IH [of "Suc m"] show ?thesis
      by (auto simp: nth_list_update less_Suc_eq)
  next
    case False
    then have "i = Suc m" using Suc.prems(3) by simp
    with Suc.prems show ?thesis by auto
  qed
qed

lemma nat_shift_take:
  assumes "i < n" and "n \<le> length xs"
  shows "take (n - 1) (fold (\<lambda>j ns. ns[j := ns ! (j + 1), j + 1 := []]) [i..<n - 1] (xs[i := []])) =
    take i (take n xs) @ drop (Suc i) (take n xs)"
proof (rule nth_equalityI)
  let ?ys = "fold (\<lambda>j ns. ns[j := ns ! (j + 1), j + 1 := []]) [i..<n - 1] (xs[i := []])"
  have n: "n - 1 < length (xs[i := []])" "xs[i := []] ! i = []" "i \<le> n - 1" using assms by simp_all
  have len: "length ?ys = length xs" using nat_shift_nth [OF n, of 0] by simp
  show "length (take (n - 1) ?ys) = length (take i (take n xs) @ drop (Suc i) (take n xs))"
    using assms len by simp
  fix k assume "k < length (take (n - 1) ?ys)"
  then have k: "k < n - 1" using assms len by simp
  then have "?ys ! k = (if i \<le> k then xs ! (k + 1) else xs ! k)"
    using nat_shift_nth [OF n, of k] assms by auto
  with k assms show "take (n - 1) ?ys ! k = (take i (take n xs) @ drop (Suc i) (take n xs)) ! k"
    by (auto simp: nth_append min_def)
qed

lemma set_remove_nth: "distinct xs \<Longrightarrow> i < length xs \<Longrightarrow> set (take i xs @ drop (Suc i) xs) = set xs - {xs ! i}"
proof -
  assume d: "distinct xs" "i < length xs"
  have "xs = take i xs @ xs ! i # drop (Suc i) xs" using d(2) by (rule id_take_nth_drop)
  with d(1) have "xs ! i \<notin> set (take i xs @ drop (Suc i) xs)" "set xs = insert (xs ! i) (set (take i xs @ drop (Suc i) xs))"
    by (metis distinct.simps(2) distinct_append insert_iff list.set(2) set_append Un_iff disjoint_iff,
        metis insert_is_Un list.simps(15) set_append sup_left_commute)
  then show ?thesis by auto
qed

lemma DelNatIfaces_known:
  assumes wf: "nat_wf c" and d: "d \<in> set (nat_names c)"
  shows "\<exists>c'. DelNatIfaces d c = Some (0, c') \<and> nat_wf c' \<and> set (nat_names c') = set (nat_names c) - {d} \<and>
     ipa_nat_iface_entries c' + 1 = ipa_nat_iface_entries c \<and> ipa_num_ipa_interfaces c' = ipa_num_ipa_interfaces c"
proof -
  let ?n = "ipa_nat_iface_entries c" and ?P = "\<lambda>i. i < length (pNatIfaces c) \<longrightarrow> d = pNatIfaces c ! i"
  let ?i = "find_idx ?P ?n"
  obtain k where "k < ?n" "pNatIfaces c ! k = d" using d set_nat_names [OF wf] by auto
  then have i: "?i < ?n" by (auto simp: find_idx_less_iff)
  have len: "?n \<le> length (pNatIfaces c)" using wf by (simp add: nat_wf_def)
  then have at: "pNatIfaces c ! ?i = d" "?i < length (pNatIfaces c)" using find_idx_sat [OF i] i by auto
  let ?ns = "fold (\<lambda>j ns. ns[j := ns ! (j + 1), j + 1 := []]) [?i..<?n - 1] ((pNatIfaces c)[?i := []])"
  let ?c = "c\<lparr>pNatIfaces := ?ns, ipa_nat_iface_entries := ?n - 1\<rparr>"
  have eq: "DelNatIfaces d c = Some (0, ?c)" using i at len by (simp add: DelNatIfaces_def Let_def)
  have names: "nat_names ?c = take ?i (nat_names c) @ drop (Suc ?i) (nat_names c)"
    using nat_shift_take [OF i len] by (simp add: nat_names_def)
  have ln: "?i < length (nat_names c)" "nat_names c ! ?i = d" "distinct (nat_names c)"
    using i len at wf by (simp_all add: nat_names_def nat_wf_def)
  have set': "set (nat_names ?c) = set (nat_names c) - {d}"
    unfolding names using set_remove_nth [OF ln(3,1)] ln(2) by simp
  have "length ?ns = length (pNatIfaces c)"
    using nat_shift_nth [of "?n - 1" "(pNatIfaces c)[?i := []]" ?i 0] i len by simp
  moreover have "distinct (nat_names ?c)" unfolding names using nat_ifaces.distinct_remove [of "nat_names c" ?i] ln(3) by simp
  ultimately have "nat_wf ?c" using wf set' by (auto simp: nat_wf_def)
  with eq set' i show ?thesis by auto
qed


section \<open>Private subnets with one mask\<close>

definition class_c :: u32 where "class_c = 0xFFFFFF00"

definition subnets :: "config \<Rightarrow> u32 list" where
  "subnets c = map subnet_addr (take (ipa_num_private_subnet c) (private_subnet_table c))"

definition subnet_wf :: "config \<Rightarrow> bool" where
  "subnet_wf c =
     (length (private_subnet_table c) = IPA_MAX_PRIVATE_SUBNET_ENTRIES \<and> ipa_num_private_subnet c \<le> IPA_MAX_PRIVATE_SUBNET_ENTRIES \<and>
      (\<forall>i<ipa_num_private_subnet c. subnet_mask (private_subnet_table c ! i) = class_c) \<and> distinct (subnets c))"

lemma subnets_nth: "subnet_wf c \<Longrightarrow> i < ipa_num_private_subnet c \<Longrightarrow> subnets c ! i = subnet_addr (private_subnet_table c ! i)"
  by (simp add: subnets_def subnet_wf_def)

lemma length_subnets: "subnet_wf c \<Longrightarrow> length (subnets c) = ipa_num_private_subnet c"
  by (simp add: subnets_def subnet_wf_def)

lemma isPrivateSubnet_iff: "subnet_wf c \<Longrightarrow> isPrivateSubnet c x \<longleftrightarrow> class_c AND x \<in> set (subnets c)"
  using length_subnets subnets_nth
  by (fastforce simp: isPrivateSubnet_def find_idx_less_iff in_set_conv_nth subnet_wf_def)

lemma subnet_present:
  "subnet_wf c \<Longrightarrow> find_idx (\<lambda>i. subnet_addr (private_subnet_table c ! i) = ip) (ipa_num_private_subnet c) < ipa_num_private_subnet c
     \<longleftrightarrow> ip \<in> set (subnets c)"
  using length_subnets subnets_nth by (fastforce simp: find_idx_less_iff in_set_conv_nth)

lemma AddPrivateSubnet_set:
  assumes wf: "subnet_wf c" and room: "ip \<in> set (subnets c) \<or> ipa_num_private_subnet c < IPA_MAX_PRIVATE_SUBNET_ENTRIES"
  obtains posted c' where "AddPrivateSubnet m ip c = (True, posted, c')" and "subnet_wf c'" and "set (subnets c') = insert ip (set (subnets c))"
proof (cases "ip \<in> set (subnets c)")
  case True
  then show ?thesis using that [of False c] wf subnet_present [OF wf, of ip] by (auto simp: AddPrivateSubnet_def Let_def)
next
  case False
  let ?n = "ipa_num_private_subnet c"
  let ?c = "c\<lparr>private_subnet_table := (private_subnet_table c)[?n := \<lparr>subnet_addr = ip, subnet_mask = 0xFFFFFF00\<rparr>], ipa_num_private_subnet := ?n + 1\<rparr>"
  have n: "?n < IPA_MAX_PRIVATE_SUBNET_ENTRIES" using room False by simp
  have s: "subnets ?c = subnets c @ [ip]" using n wf by (simp add: subnets_def subnet_wf_def take_Suc_conv_app_nth)
  have "subnet_wf ?c" using wf n False unfolding subnet_wf_def s by (auto simp: nth_list_update less_Suc_eq class_c_def)
  moreover have "AddPrivateSubnet m ip c = (True, m, ?c)"
    using n False subnet_present [OF wf, of ip] by (auto simp: AddPrivateSubnet_def Let_def IPACM_FAILURE_def)
  ultimately show ?thesis using that [of m ?c] s by simp
qed

lemma addr_shift_nth:
  "m < length xs \<Longrightarrow> k < length xs \<Longrightarrow>
     (let ys = fold (\<lambda>j t. t[j := (t ! j)\<lparr>subnet_addr := subnet_addr (t ! (j + 1))\<rparr>]) [i..<m] xs in
      subnet_mask (ys ! k) = subnet_mask (xs ! k) \<and>
      subnet_addr (ys ! k) = (if i \<le> k \<and> k < m then subnet_addr (xs ! (k + 1)) else subnet_addr (xs ! k)))"
proof (induction m arbitrary: k)
  case 0
  then show ?case by simp
next
  case (Suc m)
  show ?case
  proof (cases "i \<le> m")
    case True
    with Suc.prems Suc.IH [of k] Suc.IH [of "Suc m"] show ?thesis
      by (auto simp: nth_list_update less_Suc_eq Let_def)
  next
    case False
    then show ?thesis using Suc.prems by auto
  qed
qed

lemma DelPrivateSubnet_set:
  assumes wf: "subnet_wf c" and ip: "ip \<in> set (subnets c)"
  obtains posted c' where "DelPrivateSubnet m ip c = (True, posted, c')" and "subnet_wf c'" and "set (subnets c') = set (subnets c) - {ip}"
proof -
  let ?n = "ipa_num_private_subnet c" and ?t = "private_subnet_table c"
  let ?i = "find_idx (\<lambda>i. subnet_addr (?t ! i) = ip) ?n"
  have i: "?i < ?n" using subnet_present [OF wf] ip by simp
  have at: "subnet_addr (?t ! ?i) = ip" by (rule find_idx_sat [OF i])
  let ?ys = "fold (\<lambda>j t. t[j := (t ! j)\<lparr>subnet_addr := subnet_addr (t ! (j + 1))\<rparr>]) [?i..<?n - 1] ?t"
  let ?c = "c\<lparr>private_subnet_table := ?ys, ipa_num_private_subnet := ?n - 1\<rparr>"
  have len: "length ?ys = length ?t" by simp
  have m: "?n - 1 < length ?t" "?n \<le> length ?t" using wf i by (auto simp: subnet_wf_def)
  have s: "subnets ?c = take ?i (subnets c) @ drop (Suc ?i) (subnets c)"
  proof (rule nth_equalityI)
    show "length (subnets ?c) = length (take ?i (subnets c) @ drop (Suc ?i) (subnets c))"
      using i m by (simp add: subnets_def len)
    fix k assume "k < length (subnets ?c)"
    then have k: "k < ?n - 1" using m by (simp add: subnets_def len)
    then have "subnet_addr (?ys ! k) = (if ?i \<le> k then subnet_addr (?t ! (k + 1)) else subnet_addr (?t ! k))"
      using addr_shift_nth [OF m(1), of k ?i] m by (simp add: Let_def)
    with k i m show "subnets ?c ! k = (take ?i (subnets c) @ drop (Suc ?i) (subnets c)) ! k"
      by (auto simp: subnets_def nth_append len min_def)
  qed
  have d: "distinct (subnets c)" using wf by (simp add: subnet_wf_def)
  have si: "?i < length (subnets c)" "subnets c ! ?i = ip" using i at subnets_nth [OF wf i] length_subnets [OF wf] by simp_all
  have "set (subnets ?c) = set (subnets c) - {ip}"
    unfolding s using set_remove_nth [OF d si(1)] si(2) by simp
  moreover have "subnet_wf ?c"
  proof -
    have "subnet_mask (?ys ! k) = class_c" if k: "k < ?n - 1" for k
      using addr_shift_nth [OF m(1), of k ?i] m k wf by (simp add: Let_def subnet_wf_def)
    moreover have "distinct (subnets ?c)" unfolding s using d set_take_disj_set_drop_if_distinct [OF d, of ?i "Suc ?i"] by simp
    ultimately show ?thesis using wf by (auto simp: subnet_wf_def)
  qed
  moreover have "DelPrivateSubnet m ip c = (True, m, ?c)"
    using i by (simp add: DelPrivateSubnet_def Let_def IPACM_FAILURE_def)
  ultimately show ?thesis using that by blast
qed


section \<open>Properties\<close>

text \<open>
  While the list of NAT interfaces has room, it is a set of names: \<open>AddNatIfaces\<close> adds the name
  (once), \<open>GetNatIfaces\<close> with the current count returns all of them, and \<open>DelNatIfaces\<close> removes
  exactly that name.
\<close>

theorem nat_ifaces_as_set:
  assumes "nat_wf c" and "length d < IPA_IFACE_NAME_LEN" and "ipa_nat_iface_entries c + 1 < ipa_num_ipa_interfaces c"
  shows "\<exists>c1 c2. AddNatIfaces d c = Some (0, c1) \<and> nat_wf c1 \<and> set (nat_names c1) = insert d (set (nat_names c)) \<and>
     GetNatIfaces (GetNatIfacesCnt c1) c1 = Some (0, nat_names c1) \<and>
     DelNatIfaces d c1 = Some (0, c2) \<and> nat_wf c2 \<and> set (nat_names c2) = set (nat_names c) - {d}"
proof -
  obtain c1 where c1: "AddNatIfaces d c = Some (0, c1)" "nat_wf c1" "set (nat_names c1) = insert d (set (nat_names c))"
  proof (cases "d \<in> set (nat_names c)")
    case True
    then show ?thesis using that [of c] AddNatIfaces_known [OF assms(1,2)] assms(1) by auto
  next
    case False
    let ?n = "ipa_nat_iface_entries c"
    let ?c = "c\<lparr>ipa_nat_iface_entries := ?n + 1, pNatIfaces := (pNatIfaces c)[?n := d]\<rparr>"
    have "?n < length (pNatIfaces c)" using assms(1,3) by (simp add: nat_wf_def)
    then have names: "nat_names ?c = nat_names c @ [d]" by (simp add: nat_names_def take_Suc_conv_app_nth)
    have "nat_wf ?c" using assms False unfolding nat_wf_def names by auto
    then show ?thesis using that [of ?c] AddNatIfaces_new [OF assms(1,2) False] assms(3) names by simp
  qed
  obtain c2 where "DelNatIfaces d c1 = Some (0, c2)" "nat_wf c2" "set (nat_names c2) = set (nat_names c1) - {d}"
    using DelNatIfaces_known [OF c1(2), of d] c1(3) by auto
  moreover have "nat_names c1 \<noteq> []" using c1(3) by auto
  then have "ipa_nat_iface_entries c1 \<noteq> 0" by (auto simp: nat_names_def)
  then have "GetNatIfaces (GetNatIfacesCnt c1) c1 = Some (0, nat_names c1)"
    using c1(2) by (simp add: GetNatIfaces_def GetNatIfacesCnt_def nat_names_def nat_wf_def)
  ultimately show ?thesis using c1 by auto
qed

definition config0 :: config where
  "config0 = snd (Config_Init (Some \<lparr>iface_entries = [
       \<lparr>iface_name = ''rmnet0'', if_cat = WAN_IF, if_mode = ROUTER, wlan_mode = FULL, netlink_interface_index = 0\<rparr>,
       \<lparr>iface_name = ''wlan0'', if_cat = WLAN_IF, if_mode = ROUTER, wlan_mode = FULL, netlink_interface_index = 0\<rparr>],
     private_subnet_entries = [\<lparr>subnet_addr = 0xC0A80000, subnet_mask = 0xFFFF0000\<rparr>, \<lparr>subnet_addr = 0x0A000100, subnet_mask = 0xFFFFFF00\<rparr>],
     alg_entries = [], nat_max_entries = 500, odu_enable = False, router_mode_enable = False, odu_embms_enable = False,
     num_wlan_guest_ap = 0, ip_passthrough_mode = False\<rparr>) True True True (Config_ctor 20 [] False False []))"

theorem nat_ifaces_as_set_witness:
  "\<exists>c1 c2. AddNatIfaces ''wlan0'' config0 = Some (0, c1) \<and> nat_wf c1 \<and> set (nat_names c1) = insert ''wlan0'' (set (nat_names config0)) \<and>
     GetNatIfaces (GetNatIfacesCnt c1) c1 = Some (0, nat_names c1) \<and>
     DelNatIfaces ''wlan0'' c1 = Some (0, c2) \<and> nat_wf c2 \<and> set (nat_names c2) = set (nat_names config0) - {''wlan0''}"
  by (rule nat_ifaces_as_set; code_simp)

text \<open>
  A full list: \<open>AddNatIfaces\<close> increments the count before it compares it with the number of
  interfaces, so the last place is never used. The call that fills the list does not store the name,
  the next one counts beyond the array, and the third reads behind its end.
\<close>

theorem nat_ifaces_overflow:
  assumes "nat_wf c" and "length d < IPA_IFACE_NAME_LEN" and "d \<noteq> []" and "d \<notin> set (nat_names c)"
    and "ipa_nat_iface_entries c + 1 = ipa_num_ipa_interfaces c" and "last (pNatIfaces c) = []" and "[] \<notin> set (nat_names c)"
  shows "\<exists>c1 c2. AddNatIfaces d c = Some (0, c1) \<and> d \<notin> set (nat_names c1) \<and> AddNatIfaces d c1 = Some (0, c2) \<and>
     ipa_nat_iface_entries c2 = ipa_num_ipa_interfaces c2 + 1 \<and> AddNatIfaces d c2 = None"
proof -
  let ?n = "ipa_nat_iface_entries c"
  let ?c1 = "c\<lparr>ipa_nat_iface_entries := ?n + 1\<rparr>" and ?c2 = "c\<lparr>ipa_nat_iface_entries := ?n + 2\<rparr>"
  have len: "length (pNatIfaces c) = ?n + 1" using assms(1,5) by (simp add: nat_wf_def)
  have "pNatIfaces c ! ?n = []" using assms(6) len by (metis add_diff_cancel_right' last_conv_nth length_0_conv nat.simps(3) Suc_eq_plus1)
  then have names1: "nat_names ?c1 = nat_names c @ [[]]"
    using take_Suc_conv_app_nth [of ?n "pNatIfaces c"] len unfolding nat_names_def by (simp del: take_all)
  have wf1: "nat_wf ?c1" using assms(1,7) len unfolding nat_wf_def names1 by (auto simp: IPA_IFACE_NAME_LEN_def)
  have n1: "d \<notin> set (nat_names ?c1)" using assms(3,4) unfolding names1 by simp
  have a1: "AddNatIfaces d c = Some (0, ?c1)" using AddNatIfaces_new [OF assms(1,2,4)] assms(5) by simp
  have a2: "AddNatIfaces d ?c1 = Some (0, ?c2)" using AddNatIfaces_new [OF wf1 assms(2) n1] assms(5) by simp
  let ?P = "\<lambda>i. i < length (pNatIfaces ?c2) \<longrightarrow> strncmp_eq IPA_IFACE_NAME_LEN d (pNatIfaces ?c2 ! i)"
  have "find_idx ?P (?n + 2) = ?n + 1"
  proof (rule find_idx_eqI)
    fix i assume i: "i < ?n + 1"
    have "pNatIfaces ?c1 ! i \<in> set (nat_names ?c1)" using nat_names_nth [OF wf1, of i] i by simp
    then have "pNatIfaces c ! i \<noteq> d" "length (pNatIfaces c ! i) < IPA_IFACE_NAME_LEN" using n1 wf1 by (auto simp: nat_wf_def)
    then show "\<not> ?P i" using i len assms(2) strncmp_short by auto
  qed (use len in simp_all)
  then have "AddNatIfaces d ?c2 = None" using len by (simp add: AddNatIfaces_def Let_def)
  with a1 a2 n1 assms(5) show ?thesis by auto
qed

theorem nat_ifaces_overflow_witness:
  "\<exists>c1 c2. AddNatIfaces ''rndis0'' (snd (the (AddNatIfaces ''wlan0'' config0))) = Some (0, c1) \<and> ''rndis0'' \<notin> set (nat_names c1) \<and>
     AddNatIfaces ''rndis0'' c1 = Some (0, c2) \<and>
     ipa_nat_iface_entries c2 = ipa_num_ipa_interfaces c2 + 1 \<and> AddNatIfaces ''rndis0'' c2 = None"
  by (rule nat_ifaces_overflow; code_simp)

text \<open>
  C38. With one subnet mask, the private subnets are a set: an address is private when its network is
  in the set, \<open>AddPrivateSubnet\<close> adds a network and \<open>DelPrivateSubnet\<close> removes it and only it.
\<close>

theorem private_subnets_as_set:
  assumes "subnet_wf c" and "ip \<in> set (subnets c) \<or> ipa_num_private_subnet c < IPA_MAX_PRIVATE_SUBNET_ENTRIES"
  shows "\<exists>p1 c1 p2 c2. AddPrivateSubnet m ip c = (True, p1, c1) \<and>
     (\<forall>x. isPrivateSubnet c1 x = (isPrivateSubnet c x \<or> class_c AND x = ip)) \<and>
     DelPrivateSubnet m ip c1 = (True, p2, c2) \<and>
     (\<forall>x. isPrivateSubnet c2 x = (isPrivateSubnet c x \<and> class_c AND x \<noteq> ip))"
proof -
  obtain p1 c1 where c1: "AddPrivateSubnet m ip c = (True, p1, c1)" "subnet_wf c1" "set (subnets c1) = insert ip (set (subnets c))"
    by (rule AddPrivateSubnet_set [OF assms])
  have "ip \<in> set (subnets c1)" using c1(3) by simp
  then obtain p2 c2 where c2: "DelPrivateSubnet m ip c1 = (True, p2, c2)" "subnet_wf c2" "set (subnets c2) = set (subnets c1) - {ip}"
    by (rule DelPrivateSubnet_set [OF c1(2)])
  show ?thesis using c1 c2 isPrivateSubnet_iff [OF assms(1)] isPrivateSubnet_iff [OF c1(2)] isPrivateSubnet_iff [OF c2(2)] by auto
qed

definition config1 :: config where
  "config1 = config0\<lparr>private_subnet_table := replicate 3 \<lparr>subnet_addr = 0x0A000100, subnet_mask = 0xFFFFFF00\<rparr>, ipa_num_private_subnet := 1\<rparr>"

theorem private_subnets_as_set_witness:
  "\<exists>p1 c1 p2 c2. AddPrivateSubnet True 0xC0A82B00 config1 = (True, p1, c1) \<and>
     (\<forall>x. isPrivateSubnet c1 x = (isPrivateSubnet config1 x \<or> class_c AND x = 0xC0A82B00)) \<and>
     DelPrivateSubnet True 0xC0A82B00 c1 = (True, p2, c2) \<and>
     (\<forall>x. isPrivateSubnet c2 x = (isPrivateSubnet config1 x \<and> class_c AND x \<noteq> 0xC0A82B00))"
proof (rule private_subnets_as_set)
  show "subnet_wf config1"
    by (simp add: subnet_wf_def config1_def subnets_def IPA_MAX_PRIVATE_SUBNET_ENTRIES_def class_c_def)
qed (simp add: config1_def IPA_MAX_PRIVATE_SUBNET_ENTRIES_def)

text \<open>
  \<open>DelPrivateSubnet\<close> moves the addresses of the following subnets but not their masks: with a
  /16 and a /24 subnet configured, deleting the first leaves the second address with the first mask,
  and the addresses of the second subnet are no longer private.
\<close>

theorem delete_subnet_keeps_mask:
  "let c = snd (snd (DelPrivateSubnet True 0xC0A80000 config0)) in
   isPrivateSubnet config0 0x0A000105 \<and> \<not> isPrivateSubnet c 0x0A000105 \<and>
   private_subnet_table c ! 0 = \<lparr>subnet_addr = 0x0A000100, subnet_mask = 0xFFFF0000\<rparr>"
  by code_simp

end
