(* ===== verification/ConntrackListener.thy ===== *)
theory ConntrackListener
  imports Config Neighbor NatApp_Inv
begin

text \<open>
  \<open>IPACM_ConntrackListener.cpp\<close> (built without \<open>CT_OPT\<close>): the listener that turns connection
  tracking messages into NAT entries. It keeps the addresses of clients behind NAT interfaces, of
  clients behind other interfaces, and of the clients of the station; it never reads a result of the
  NAT application, so a handler returns the calls it makes, in order, with its new state. \<open>None\<close> is a
  call through the null pointer \<open>nat_inst\<close> or a read outside an array. Debug output is left out, but for the one
  argument of it that can fail: the address at the unassigned index in \<open>CheckNatIface\<close>.
\<close>

section \<open>Data\<close>

text \<open>The attributes of \<open>struct nf_conntrack\<close> that the listener reads, in network byte order.\<close>

record ct_object =
  CT_ORIG_L4PROTO :: u8
  CT_REPL_L4PROTO :: u8
  CT_STATUS :: u32
  CT_TCP_STATE :: u8
  CT_ORIG_IPV4_SRC :: u32
  CT_ORIG_IPV4_DST :: u32
  CT_ORIG_PORT_SRC :: u16
  CT_ORIG_PORT_DST :: u16
  CT_REPL_IPV4_SRC :: u32
  CT_REPL_PORT_SRC :: u16
  CT_REPL_PORT_DST :: u16

datatype nf_conntrack_msg_type = NFCT_T_NEW | NFCT_T_UPDATE | NFCT_T_DESTROY

definition IPS_SRC_NAT :: u32 where "IPS_SRC_NAT = 16"

definition IPS_DST_NAT :: u32 where "IPS_DST_NAT = 32"

definition TCP_CONNTRACK_ESTABLISHED :: u8 where "TCP_CONNTRACK_ESTABLISHED = 3"

definition TCP_CONNTRACK_FIN_WAIT :: u8 where "TCP_CONNTRACK_FIN_WAIT = 4"

definition MAX_IFACE_ADDRESS :: nat where "MAX_IFACE_ADDRESS = 50"

definition MAX_STA_CLNT_IFACES :: nat where "MAX_STA_CLNT_IFACES = 10"

definition STA_CLNT_SUBNET_MASK :: u32 where "STA_CLNT_SUBNET_MASK = 0xFFFFFF00"

record ipacm_event_iface_up =
  up_ifname :: string
  up_ipv4_addr :: u32
  up_is_sta :: bool

datatype ct_thread = TCPRegisterWithConnTrack | UDPRegisterWithConnTrack | UDPConnTimeoutUpdate

text \<open>What the listener calls: the NAT application, \<open>pthread_create\<close> and the conntrack filters.\<close>

datatype ct_effect =
    Nat natapp_op
  | Thread ct_thread
  | UpdateUDPFilters ipacm_event_iface_up
  | UpdateTCPFilters ipacm_event_iface_up

text \<open>
  The object. \<open>nat_inst\<close> and \<open>pConfig\<close> say whether the pointer is not null (both instances are
  shared objects).
\<close>

record listener =
  isCTReg :: bool
  isNatThreadStart :: bool
  WanUp :: bool
  nat_inst :: bool
  NatIfaceCnt :: nat
  StaClntCnt :: int
  nat_ifaces_copy :: "string list option"
  nat_iface_ipv4_addr :: "u32 list"
  nonnat_iface_ipv4_addr :: "u32 list"
  sta_clnt_ipv4_addr :: "u32 list"
  pConfig :: bool
  wan_ifname :: string
  wan_ipaddr :: u32
  isStaMode :: bool

text \<open>
  The surroundings of a call: the configuration object and whether \<open>GetInstance\<close> gives it, the
  kernel's interface names, the results of \<open>malloc\<close>, \<open>socket\<close> and \<open>pthread_create\<close>,
  \<open>IPACM_Wan::getWANIP\<close>, and what the memory of the local \<open>j\<close> of \<open>CheckNatIface\<close> holds, which is never assigned.
\<close>

record ct_env =
  shared_config :: config
  config_instance :: bool
  ct_if_name :: "int \<Rightarrow> string option"
  ct_malloc_ok :: bool
  socket_ok :: bool
  thread_ok :: "ct_thread \<Rightarrow> bool"
  getWANIP :: u32
  junk_j :: int

type_synonym ct_result = "(ct_effect list \<times> listener) option"

text \<open>
  The constructor: \<open>natp\<close> and \<open>conf\<close> say whether the two \<open>GetInstance\<close> calls succeed; the members
  \<open>wan_ifname\<close>, \<open>wan_ipaddr\<close> and \<open>isStaMode\<close> are not set by it.
\<close>

definition Listener_ctor :: "bool \<Rightarrow> bool \<Rightarrow> string \<Rightarrow> u32 \<Rightarrow> bool \<Rightarrow> listener" where
  "Listener_ctor natp conf junk_name junk_ip junk_sta =
     \<lparr>isCTReg = False, isNatThreadStart = False, WanUp = False, nat_inst = natp,
      NatIfaceCnt = 0, StaClntCnt = 0, nat_ifaces_copy = None,
      nat_iface_ipv4_addr = replicate MAX_IFACE_ADDRESS 0,
      nonnat_iface_ipv4_addr = replicate MAX_IFACE_ADDRESS 0,
      sta_clnt_ipv4_addr = replicate MAX_STA_CLNT_IFACES 0,
      pConfig = conf, wan_ifname = junk_name, wan_ipaddr = junk_ip, isStaMode = junk_sta\<rparr>"

text \<open>The events the constructor registers for, in order.\<close>

definition listener_events :: "ipa_cm_event_id list" where
  "listener_events =
     [IPA_HANDLE_WAN_UP, IPA_HANDLE_WAN_DOWN, IPA_PROCESS_CT_MESSAGE, IPA_PROCESS_CT_MESSAGE_V6,
      IPA_HANDLE_WLAN_UP, IPA_HANDLE_LAN_UP, IPA_NEIGH_CLIENT_IP_ADDR_ADD_EVENT,
      IPA_NEIGH_CLIENT_IP_ADDR_DEL_EVENT]"

section \<open>Calls of the NAT application and threads\<close>

definition nat_calls :: "natapp_op list \<Rightarrow> listener \<Rightarrow> ct_result" where
  "nat_calls ops l = (if nat_inst l then Some (map Nat ops, l) else None)"

text \<open>\<open>CreateConnTrackThreads\<close>: when only the second thread fails, the first one stays started.\<close>

definition CreateConnTrackThreads :: "ct_env \<Rightarrow> listener \<Rightarrow> int \<times> ct_effect list \<times> listener" where
  "CreateConnTrackThreads env l =
     (if isCTReg l then (0, [], l)
      else if \<not> thread_ok env TCPRegisterWithConnTrack then (-1, [], l)
      else if \<not> thread_ok env UDPRegisterWithConnTrack then (-1, [Thread TCPRegisterWithConnTrack], l)
      else (0, [Thread TCPRegisterWithConnTrack, Thread UDPRegisterWithConnTrack], l\<lparr>isCTReg := True\<rparr>))"

definition CreateNatThreads :: "ct_env \<Rightarrow> listener \<Rightarrow> int \<times> ct_effect list \<times> listener" where
  "CreateNatThreads env l =
     (if isNatThreadStart l then (0, [], l)
      else if \<not> thread_ok env UDPConnTimeoutUpdate then (-1, [], l)
      else (0, [Thread UDPConnTimeoutUpdate], l\<lparr>isNatThreadStart := True\<rparr>))"

section \<open>The WAN interface\<close>

definition TriggerWANUp :: "ct_env \<Rightarrow> ipacm_event_iface_up \<Rightarrow> listener \<Rightarrow> ct_effect list \<times> listener" where
  "TriggerWANUp env wanup_data l =
     (if up_ipv4_addr wanup_data = 0 then ([], l)
      else
        let l = l\<lparr>WanUp := True, isStaMode := up_is_sta wanup_data,
                  wan_ipaddr := up_ipv4_addr wanup_data, wan_ifname := up_ifname wanup_data\<rparr>;
            es = (if nat_inst l then [Nat (OpAddTable (up_ipv4_addr wanup_data))] else []);
            (_, es', l) = CreateNatThreads env l
        in (es @ es', l))"

definition TriggerWANDown :: "u32 \<Rightarrow> listener \<Rightarrow> ct_effect list \<times> listener" where
  "TriggerWANDown wan_addr l =
     (let l = l\<lparr>WanUp := False\<rparr> in (if nat_inst l then [Nat (OpDeleteTable wan_addr)] else [], l))"

section \<open>Client addresses\<close>

text \<open>
  \<open>CheckNatIface\<close>: the return value and \<open>*NatIface\<close>. For an interface of the list, the debug output (\<open>IPACM_DEBUG\<close> is
  defined) reads \<open>nat_iface_ipv4_addr[j]\<close> with the unassigned \<open>j\<close>.
\<close>

definition CheckNatIface ::
  "ct_env \<Rightarrow> ipacm_event_data_all \<Rightarrow> listener \<Rightarrow> (int \<times> bool \<times> listener) option" where
  "CheckNatIface env data l =
     (if ipv4_addr data = 0 \<or> iptype data \<noteq> IPA_IP_v4 then Some (IPACM_FAILURE, False, l)
      else if \<not> pConfig l \<and> \<not> config_instance env then Some (IPACM_FAILURE, False, l)
      else
        let n = GetNatIfacesCnt (shared_config env);
            l = l\<lparr>pConfig := True, NatIfaceCnt := n, nat_ifaces_copy := None\<rparr> in
        if \<not> ct_malloc_ok env then Some (IPACM_FAILURE, False, l)
        else
          (case GetNatIfaces n (shared_config env) of
             None \<Rightarrow> None
           | Some (r, ns) \<Rightarrow>
               if r \<noteq> 0 then Some (IPACM_FAILURE, False, l\<lparr>nat_ifaces_copy := Some (replicate n [])\<rparr>)
               else
                 let l = l\<lparr>nat_ifaces_copy := Some ns\<rparr> in
                 if \<not> socket_ok env then Some (IPACM_FAILURE, False, l)
                 else
                   (case ct_if_name env (if_index data) of
                      None \<Rightarrow> Some (IPACM_FAILURE, False, l)
                    | Some ifr_name \<Rightarrow>
                        if find_idx (\<lambda>i. strncmp_eq IPA_IFACE_NAME_LEN ifr_name (ns ! i)) n < n then
                          if 0 \<le> junk_j env \<and> junk_j env < int (length (nat_iface_ipv4_addr l))
                          then Some (IPACM_SUCCESS, True, l) else None
                        else Some (IPACM_SUCCESS, False, l))))"

definition HandleNonNatIPAddr :: "ct_env \<Rightarrow> ipacm_event_data_all \<Rightarrow> bool \<Rightarrow> listener \<Rightarrow> ct_result" where
  "HandleNonNatIPAddr env data AddOp l =
     (if isStaMode l then Some ([], l)
      else if AddOp then
        (case CheckNatIface env data l of
           None \<Rightarrow> None
         | Some (ret, NatIface, l) \<Rightarrow>
             let cnt = find_idx (\<lambda>i. nonnat_iface_ipv4_addr l ! i = 0) MAX_IFACE_ADDRESS in
             if \<not> NatIface \<and> ret = IPACM_SUCCESS \<and> cnt < MAX_IFACE_ADDRESS then
               nat_calls [OpFlushTempEntries (ipv4_addr data) True True]
                 (l\<lparr>nonnat_iface_ipv4_addr := (nonnat_iface_ipv4_addr l)[cnt := ipv4_addr data]\<rparr>)
             else Some ([], l))
      else
        let cnt = find_idx (\<lambda>i. nonnat_iface_ipv4_addr l ! i = ipv4_addr data) MAX_IFACE_ADDRESS in
        if cnt < MAX_IFACE_ADDRESS then
          nat_calls [OpFlushTempEntries (ipv4_addr data) False False, OpDelEntriesOnClntDiscon (ipv4_addr data)]
            (l\<lparr>nonnat_iface_ipv4_addr := (nonnat_iface_ipv4_addr l)[cnt := 0]\<rparr>)
        else Some ([], l))"

definition HandleNeighIpAddrAddEvt :: "ct_env \<Rightarrow> ipacm_event_data_all \<Rightarrow> listener \<Rightarrow> ct_result" where
  "HandleNeighIpAddrAddEvt env data l =
     (case CheckNatIface env data l of
        None \<Rightarrow> None
      | Some (ret, NatIface, l) \<Rightarrow>
          if NatIface \<and> ret = IPACM_SUCCESS then
            let j = find_idx (\<lambda>j. nat_iface_ipv4_addr l ! j = ipv4_addr data \<or> nat_iface_ipv4_addr l ! j = 0)
                      MAX_IFACE_ADDRESS in
            if j < MAX_IFACE_ADDRESS then
              nat_calls [OpResetPwrSaveIf (ipv4_addr data), OpFlushTempEntries (ipv4_addr data) True False]
                (l\<lparr>nat_iface_ipv4_addr := (nat_iface_ipv4_addr l)[j := ipv4_addr data]\<rparr>)
            else Some ([], l)
          else Some ([], l))"

text \<open>One turn of the loop of \<open>HandleNeighIpAddrDelEvt\<close>, which does not stop at the first match.\<close>

definition del_nat_addr :: "u32 \<Rightarrow> nat \<Rightarrow> ct_result \<Rightarrow> ct_result" where
  "del_nat_addr ip cnt r =
     (case r of
        None \<Rightarrow> None
      | Some (es, l) \<Rightarrow>
          if nat_iface_ipv4_addr l ! cnt = ip then
            (case nat_calls [OpFlushTempEntries ip False False, OpDelEntriesOnClntDiscon ip]
                    (l\<lparr>nat_iface_ipv4_addr := (nat_iface_ipv4_addr l)[cnt := 0]\<rparr>) of
               None \<Rightarrow> None
             | Some (es', l) \<Rightarrow> Some (es @ es', l))
          else r)"

definition HandleNeighIpAddrDelEvt :: "u32 \<Rightarrow> listener \<Rightarrow> ct_result" where
  "HandleNeighIpAddrDelEvt ip l =
     (if ip = 0 then Some ([], l) else for_upto MAX_IFACE_ADDRESS (del_nat_addr ip) (Some ([], l)))"

section \<open>Connection tracking messages\<close>

text \<open>\<open>AddIface\<close>: whether to go on, \<open>*isTempEntry\<close> and the rule, which may become a dummy rule.\<close>

definition AddIface ::
  "ct_env \<Rightarrow> nat_table_entry \<Rightarrow> listener \<Rightarrow> bool \<times> bool \<times> nat_table_entry \<times> listener" where
  "AddIface env rule l =
     (if ipacm_ip_passthrough_mode (shared_config env) \<and> private_ip rule = getWANIP env then (True, False, rule, l)
      else if find_idx (\<lambda>i. nat_iface_ipv4_addr l ! i \<noteq> 0 \<and>
                (private_ip rule = nat_iface_ipv4_addr l ! i \<or> target_ip rule = nat_iface_ipv4_addr l ! i))
              MAX_IFACE_ADDRESS < MAX_IFACE_ADDRESS then (True, False, rule, l)
      else if \<not> isStaMode l \<and>
              find_idx (\<lambda>i. nonnat_iface_ipv4_addr l ! i \<noteq> 0 \<and>
                (private_ip rule = nonnat_iface_ipv4_addr l ! i \<or> target_ip rule = nonnat_iface_ipv4_addr l ! i))
              MAX_IFACE_ADDRESS < MAX_IFACE_ADDRESS then
        (True, False, rule\<lparr>private_ip := public_ip rule, private_port := public_port rule\<rparr>, l)
      else if \<not> pConfig l \<and> \<not> config_instance env then (False, False, rule, l)
      else
        let l = l\<lparr>pConfig := True\<rparr> in
        if isPrivateSubnet (shared_config env) (private_ip rule) \<or>
           isPrivateSubnet (shared_config env) (target_ip rule)
        then (True, True, rule, l) else (False, False, rule, l))"

text \<open>\<open>CheckSTAClient\<close>: the new value of \<open>*isTempEntry\<close>.\<close>

definition CheckSTAClient :: "nat_table_entry \<Rightarrow> bool \<Rightarrow> listener \<Rightarrow> bool" where
  "CheckSTAClient rule isTempEntry l =
     (if \<not> isStaMode l \<or> StaClntCnt l = 0 then isTempEntry
      else if (sta_clnt_ipv4_addr l ! 0) AND STA_CLNT_SUBNET_MASK \<noteq> target_ip rule AND STA_CLNT_SUBNET_MASK then isTempEntry
      else
        let n = nat (StaClntCnt l) in
        if find_idx (\<lambda>i. target_ip rule = sta_clnt_ipv4_addr l ! i) n < n then isTempEntry
        else True)"

text \<open>The three ways of adding a rule in \<open>AddORDeleteNatEntry\<close>, and the two calls that delete it.\<close>

definition add_op :: "bool \<Rightarrow> nat_table_entry \<Rightarrow> listener \<Rightarrow> natapp_op" where
  "add_op isTempEntry rule l =
     (if \<not> WanUp l then OpCacheEntry rule
      else if isTempEntry then OpAddTempEntry rule
      else OpAddEntry rule)"

definition AddORDeleteNatEntry ::
  "ct_object \<Rightarrow> nf_conntrack_msg_type \<Rightarrow> nat_table_entry \<Rightarrow> bool \<Rightarrow> listener \<Rightarrow> natapp_op list" where
  "AddORDeleteNatEntry obj type rule isTempEntry l =
     (if \<not> nat_inst l then []
      else if protocol rule = IPPROTO_TCP then
        if CT_TCP_STATE obj = TCP_CONNTRACK_ESTABLISHED then [add_op isTempEntry rule l]
        else if CT_TCP_STATE obj = TCP_CONNTRACK_FIN_WAIT \<or> type = NFCT_T_DESTROY then
          [OpDeleteEntry rule, OpDeleteTempEntry rule]
        else []
      else if protocol rule = IPPROTO_UDP then
        if type = NFCT_T_NEW then [add_op isTempEntry rule l]
        else if type = NFCT_T_DESTROY then [OpDeleteEntry rule, OpDeleteTempEntry rule]
        else []
      else [])"

definition PopulateTCPorUDPEntry :: "ct_object \<Rightarrow> u32 \<Rightarrow> nat_table_entry \<Rightarrow> nat_table_entry" where
  "PopulateTCPorUDPEntry obj status rule =
     (if status = IPS_DST_NAT then
        rule\<lparr>dst_nat := True,
             target_ip := ntohl (CT_ORIG_IPV4_SRC obj), target_port := ntohs (CT_ORIG_PORT_SRC obj),
             public_port := ntohs (CT_ORIG_PORT_DST obj),
             private_ip := ntohl (CT_REPL_IPV4_SRC obj), private_port := ntohs (CT_REPL_PORT_SRC obj)\<rparr>
      else if status = IPS_SRC_NAT then
        rule\<lparr>dst_nat := False,
             target_ip := ntohl (CT_ORIG_IPV4_DST obj), target_port := ntohs (CT_ORIG_PORT_DST obj),
             public_port := ntohs (CT_REPL_PORT_DST obj),
             private_ip := ntohl (CT_ORIG_IPV4_SRC obj), private_port := ntohs (CT_ORIG_PORT_SRC obj)\<rparr>
      else rule)"

text \<open>The direction of a connection in \<open>ProcessTCPorUDPMsg\<close>; \<open>None\<close> when the message is ignored.\<close>

definition nat_direction :: "ct_object \<Rightarrow> listener \<Rightarrow> u32 option" where
  "nat_direction obj l =
     (if IPS_DST_NAT AND CT_STATUS obj \<noteq> 0 then Some IPS_DST_NAT
      else if IPS_SRC_NAT AND CT_STATUS obj \<noteq> 0 then Some IPS_SRC_NAT
      else
        let orig_src_ip = ntohl (CT_ORIG_IPV4_SRC obj); orig_dst_ip = ntohl (CT_ORIG_IPV4_DST obj) in
        if orig_src_ip = 0 then None
        else if orig_dst_ip = 0 then None
        else if orig_src_ip = wan_ipaddr l then Some IPS_SRC_NAT
        else if orig_dst_ip = wan_ipaddr l then Some IPS_DST_NAT
        else None)"

definition ProcessTCPorUDPMsg ::
  "ct_env \<Rightarrow> ct_object \<Rightarrow> nf_conntrack_msg_type \<Rightarrow> listener \<Rightarrow> natapp_op list \<times> listener" where
  "ProcessTCPorUDPMsg env obj type l =
     (case nat_direction obj l of
        None \<Rightarrow> ([], l)
      | Some status \<Rightarrow>
          let rule = zero_entry\<lparr>protocol := CT_REPL_L4PROTO obj\<rparr>;
              rule = (PopulateTCPorUDPEntry obj status rule)\<lparr>public_ip := wan_ipaddr l\<rparr> in
          if private_ip rule \<noteq> wan_ipaddr l then
            (case AddIface env rule l of
               (isAdd, isTempEntry, rule, l) \<Rightarrow>
                 if \<not> isAdd then ([], l)
                 else (AddORDeleteNatEntry obj type rule (CheckSTAClient rule isTempEntry l) l, l))
          else if isStaMode l then ([], l)
          else
            let rule = rule\<lparr>private_port := public_port rule\<rparr> in
            (AddORDeleteNatEntry obj type rule (CheckSTAClient rule False l) l, l))"

definition ProcessCTMessage ::
  "ct_env \<Rightarrow> ct_object \<Rightarrow> nf_conntrack_msg_type \<Rightarrow> listener \<Rightarrow> natapp_op list \<times> listener" where
  "ProcessCTMessage env obj type l =
     (if CT_ORIG_L4PROTO obj \<noteq> IPPROTO_UDP \<and> CT_ORIG_L4PROTO obj \<noteq> IPPROTO_TCP then ([], l)
      else ProcessTCPorUDPMsg env obj type l)"

section \<open>Clients of the station\<close>

definition HandleSTAClientAddEvt :: "u32 \<Rightarrow> listener \<Rightarrow> ct_result" where
  "HandleSTAClientAddEvt clnt_ip_addr l =
     (if StaClntCnt l \<ge> int MAX_STA_CLNT_IFACES then Some ([], l)
      else
        let a = sta_clnt_ipv4_addr l;
            cnt = find_idx (\<lambda>i. (a ! i \<noteq> 0 \<and> a ! i = clnt_ip_addr) \<or> a ! i = 0) MAX_STA_CLNT_IFACES;
            l = (if cnt < MAX_STA_CLNT_IFACES \<and> a ! cnt = 0
                 then l\<lparr>sta_clnt_ipv4_addr := a[cnt := clnt_ip_addr], StaClntCnt := StaClntCnt l + 1\<rparr> else l)
        in nat_calls [OpFlushTempEntries clnt_ip_addr True False] l)"

definition HandleSTAClientDelEvt :: "u32 \<Rightarrow> listener \<Rightarrow> ct_result" where
  "HandleSTAClientDelEvt clnt_ip_addr l =
     (let a = sta_clnt_ipv4_addr l;
          cnt = find_idx (\<lambda>i. a ! i \<noteq> 0 \<and> a ! i = clnt_ip_addr) MAX_STA_CLNT_IFACES in
      if cnt < MAX_STA_CLNT_IFACES then
        nat_calls [OpDelEntriesOnSTAClntDiscon clnt_ip_addr, OpFlushTempEntries clnt_ip_addr False False]
          (l\<lparr>sta_clnt_ipv4_addr := a[cnt := 0], StaClntCnt := StaClntCnt l - 1\<rparr>)
      else nat_calls [OpFlushTempEntries clnt_ip_addr False False] l)"

section \<open>Events\<close>

text \<open>The data of an event; the type belongs to the event.\<close>

datatype ct_data =
    NullData
  | CtData ct_object nf_conntrack_msg_type
  | UpData ipacm_event_iface_up
  | AllData ipacm_event_data_all

definition event_callback :: "ct_env \<Rightarrow> ipa_cm_event_id \<Rightarrow> ct_data \<Rightarrow> listener \<Rightarrow> ct_result" where
  "event_callback env evt data l =
     (case data of
        NullData \<Rightarrow> Some ([], l)
      | CtData obj type \<Rightarrow>
          if evt = IPA_PROCESS_CT_MESSAGE then
            (case ProcessCTMessage env obj type l of (ops, l) \<Rightarrow> Some (map Nat ops, l))
          else Some ([], l)
      | UpData up \<Rightarrow>
          if evt = IPA_HANDLE_WAN_UP then
            (case CreateConnTrackThreads env l of
               (_, es, l) \<Rightarrow>
                 if WanUp l then Some (es, l)
                 else case TriggerWANUp env up l of (es', l) \<Rightarrow> Some (es @ es', l))
          else if evt = IPA_HANDLE_WAN_DOWN then
            (if WanUp l then Some (TriggerWANDown (up_ipv4_addr up) l) else Some ([], l))
          else if evt = IPA_HANDLE_WLAN_UP \<or> evt = IPA_HANDLE_LAN_UP then
            (case CreateConnTrackThreads env l of
               (_, es, l) \<Rightarrow> Some (es @ [UpdateUDPFilters up, UpdateTCPFilters up], l))
          else Some ([], l)
      | AllData d \<Rightarrow>
          if evt = IPA_NEIGH_CLIENT_IP_ADDR_ADD_EVENT then HandleNonNatIPAddr env d True l
          else if evt = IPA_NEIGH_CLIENT_IP_ADDR_DEL_EVENT then HandleNonNatIPAddr env d False l
          else Some ([], l))"

text \<open>Everything that reaches the listener: dispatched events and the direct calls of the interfaces.\<close>

datatype ct_call =
    Event ct_env ipa_cm_event_id ct_data
  | NeighIpAddrAdd ct_env ipacm_event_data_all
  | NeighIpAddrDel u32
  | STAClientAdd u32
  | STAClientDel u32

primrec ct_exec :: "ct_call \<Rightarrow> listener \<Rightarrow> ct_result" where
  "ct_exec (Event env e d) l = event_callback env e d l"
| "ct_exec (NeighIpAddrAdd env d) l = HandleNeighIpAddrAddEvt env d l"
| "ct_exec (NeighIpAddrDel ip) l = HandleNeighIpAddrDelEvt ip l"
| "ct_exec (STAClientAdd ip) l = HandleSTAClientAddEvt ip l"
| "ct_exec (STAClientDel ip) l = HandleSTAClientDelEvt ip l"

text \<open>The listener together with the NAT application it drives.\<close>

definition nat_ops :: "ct_effect list \<Rightarrow> natapp_op list" where
  "nat_ops es = concat (map (\<lambda>e. case e of Nat x \<Rightarrow> [x] | _ \<Rightarrow> []) es)"

definition nat_after :: "'w nat_env \<Rightarrow> ct_effect list \<Rightarrow> 'w natapp \<Rightarrow> 'w natapp" where
  "nat_after h es s = fold (exec_op h) (nat_ops es) s"

end
