(* ===== verification/ConntrackListener_Props.thy ===== *)
theory ConntrackListener_Props
  imports ConntrackListener NatApp_Flows Config_Props Op_Refinement
begin

text \<open>
  The listener: no sequence of events and calls makes it fail or break the invariant of the NAT
  application it drives; a connection is entered and removed again under the same key; the order in
  which a client and its connection are announced does not matter; and the flaws of the list of
  station clients and of the list of other clients.
\<close>

section \<open>Address lists\<close>


text \<open>The three arrays have their lengths; \<open>StaClntCnt\<close> is at least the number of clients stored.\<close>

definition listener_wf :: "listener \<Rightarrow> bool" where
  "listener_wf l \<longleftrightarrow>
     nat_inst l \<and> length (nat_iface_ipv4_addr l) = MAX_IFACE_ADDRESS \<and>
     length (nonnat_iface_ipv4_addr l) = MAX_IFACE_ADDRESS \<and>
     length (sta_clnt_ipv4_addr l) = MAX_STA_CLNT_IFACES \<and>
     int (length (filter (\<lambda>x. x \<noteq> 0) (sta_clnt_ipv4_addr l))) \<le> StaClntCnt l \<and>
     StaClntCnt l \<le> int MAX_STA_CLNT_IFACES"

lemma listener_wf_frame [simp]:
  "listener_wf (l\<lparr>isCTReg := b\<rparr>) = listener_wf l" "listener_wf (l\<lparr>isNatThreadStart := b\<rparr>) = listener_wf l"
  "listener_wf (l\<lparr>WanUp := b\<rparr>) = listener_wf l" "listener_wf (l\<lparr>NatIfaceCnt := n\<rparr>) = listener_wf l"
  "listener_wf (l\<lparr>nat_ifaces_copy := c\<rparr>) = listener_wf l" "listener_wf (l\<lparr>pConfig := b\<rparr>) = listener_wf l"
  "listener_wf (l\<lparr>wan_ifname := nm\<rparr>) = listener_wf l" "listener_wf (l\<lparr>wan_ipaddr := ip\<rparr>) = listener_wf l"
  "listener_wf (l\<lparr>isStaMode := b\<rparr>) = listener_wf l"
  "length a = length (nat_iface_ipv4_addr l) \<Longrightarrow> listener_wf (l\<lparr>nat_iface_ipv4_addr := a\<rparr>) = listener_wf l"
  "length a = length (nonnat_iface_ipv4_addr l) \<Longrightarrow> listener_wf (l\<lparr>nonnat_iface_ipv4_addr := a\<rparr>) = listener_wf l"
  by (simp_all add: listener_wf_def)


text \<open>
  The surroundings under which no array is read outside: the list of NAT interfaces of the configuration is not beyond
  its array, and the unassigned index of \<open>CheckNatIface\<close> happens to be one of the array of addresses.
\<close>

definition env_ok :: "ct_env \<Rightarrow> bool" where
  "env_ok env \<longleftrightarrow> ipa_nat_iface_entries (shared_config env) \<le> length (pNatIfaces (shared_config env)) \<and>
     0 \<le> junk_j env \<and> junk_j env < int MAX_IFACE_ADDRESS"

primrec call_ok :: "ct_call \<Rightarrow> bool" where
  "call_ok (Event env e d) = env_ok env"
| "call_ok (NeighIpAddrAdd env d) = env_ok env"
| "call_ok (NeighIpAddrDel ip) = True"
| "call_ok (STAClientAdd ip) = True"
| "call_ok (STAClientDel ip) = True"

primrec effect_ok :: "ct_effect \<Rightarrow> bool" where
  "effect_ok (Nat x) = op_ok x"
| "effect_ok (Thread t) = True"
| "effect_ok (UpdateUDPFilters u) = True"
| "effect_ok (UpdateTCPFilters u) = True"

text \<open>The results the handlers may have: a step that did not fail and kept the invariant.\<close>

definition step_ok :: "ct_result \<Rightarrow> bool" where
  "step_ok r \<longleftrightarrow> (\<exists>es l. r = Some (es, l) \<and> listener_wf l \<and> list_all effect_ok es)"

lemma step_ok_Some [simp]: "step_ok (Some (es, l)) \<longleftrightarrow> listener_wf l \<and> list_all effect_ok es"
  by (simp add: step_ok_def)

lemma map_Nat_ok [simp]: "list_all effect_ok (map Nat ops) \<longleftrightarrow> list_all op_ok ops"
  by (simp add: list_all_iff)

lemma nat_calls_ok [simp]: "listener_wf l \<Longrightarrow> step_ok (nat_calls ops l) \<longleftrightarrow> list_all op_ok ops"
  by (simp add: nat_calls_def) (simp add: listener_wf_def)

section \<open>Every handler keeps the invariant\<close>

lemma threads_ok:
  assumes "listener_wf l"
  shows "listener_wf (snd (snd (CreateConnTrackThreads env l)))"
    and "list_all effect_ok (fst (snd (CreateConnTrackThreads env l)))"
    and "listener_wf (snd (snd (CreateNatThreads env l)))"
    and "list_all effect_ok (fst (snd (CreateNatThreads env l)))"
  using assms by (simp_all add: CreateConnTrackThreads_def CreateNatThreads_def)

lemma TriggerWANUp_ok:
  assumes "listener_wf l" and "TriggerWANUp env up l = (es, l')"
  shows "listener_wf l'" and "list_all effect_ok es"
  using assms threads_ok(3,4)
  by (auto simp: TriggerWANUp_def Let_def CreateNatThreads_def split: if_splits)

lemma CheckNatIface_ok:
  assumes "listener_wf l" and "env_ok env"
  obtains r b l' where "CheckNatIface env d l = Some (r, b, l')" and "listener_wf l'"
    and "nat_iface_ipv4_addr l' = nat_iface_ipv4_addr l" and "nonnat_iface_ipv4_addr l' = nonnat_iface_ipv4_addr l"
proof -
  have g: "GetNatIfaces (GetNatIfacesCnt (shared_config env)) (shared_config env) \<noteq> None"
    using assms(2) by (simp add: env_ok_def GetNatIfaces_def GetNatIfacesCnt_def)
  have j: "0 \<le> junk_j env" "junk_j env < int (length (nat_iface_ipv4_addr l))"
    using assms by (simp_all add: env_ok_def listener_wf_def)
  have "\<exists>r b l'. CheckNatIface env d l = Some (r, b, l') \<and> listener_wf l' \<and>
      nat_iface_ipv4_addr l' = nat_iface_ipv4_addr l \<and> nonnat_iface_ipv4_addr l' = nonnat_iface_ipv4_addr l"
    using g j assms(1) unfolding CheckNatIface_def Let_def
    by (auto split: option.splits prod.splits)
  then show ?thesis using that by blast
qed

lemma HandleNonNatIPAddr_ok: "listener_wf l \<Longrightarrow> env_ok env \<Longrightarrow> step_ok (HandleNonNatIPAddr env d b l)"
  by (rule CheckNatIface_ok [of l env d]) (auto simp: HandleNonNatIPAddr_def Let_def)

lemma HandleNeighIpAddrAddEvt_ok: "listener_wf l \<Longrightarrow> env_ok env \<Longrightarrow> step_ok (HandleNeighIpAddrAddEvt env d l)"
  by (rule CheckNatIface_ok [of l env d]) (auto simp: HandleNeighIpAddrAddEvt_def Let_def)

text \<open>What the loop of \<open>HandleNeighIpAddrDelEvt\<close> does: every occurrence goes, with one pair of calls each.\<close>

lemma HandleNeighIpAddrDelEvt_eq:
  assumes "listener_wf l" and "ip \<noteq> 0"
  shows "HandleNeighIpAddrDelEvt ip l =
     Some (map Nat (concat (map (\<lambda>x. if x = ip then [OpFlushTempEntries ip False False, OpDelEntriesOnClntDiscon ip] else [])
             (nat_iface_ipv4_addr l))),
           l\<lparr>nat_iface_ipv4_addr := map (\<lambda>x. if x = ip then 0 else x) (nat_iface_ipv4_addr l)\<rparr>)"
proof -
  let ?a = "nat_iface_ipv4_addr l"
  let ?ops = "\<lambda>x. if x = ip then [OpFlushTempEntries ip False False, OpDelEntriesOnClntDiscon ip] else []"
  let ?f = "\<lambda>x. if x = ip then 0 else x"
  have inst: "nat_inst l" and len: "length ?a = MAX_IFACE_ADDRESS" using assms(1) by (simp_all add: listener_wf_def)
  have "for_upto n (del_nat_addr ip) (Some ([], l)) =
      Some (map Nat (concat (map ?ops (take n ?a))), l\<lparr>nat_iface_ipv4_addr := map ?f (take n ?a) @ drop n ?a\<rparr>)"
    if "n \<le> MAX_IFACE_ADDRESS" for n
    using that
  proof (induction n)
    case 0
    then show ?case by simp
  next
    case (Suc n)
    have n: "n < length ?a" using Suc.prems len by simp
    have nth: "(map ?f (take n ?a) @ drop n ?a) ! n = ?a ! n" using n by (simp add: nth_append)
    have upd: "(map ?f (take n ?a) @ drop n ?a)[n := v] = map ?f (take n ?a) @ v # drop (Suc n) ?a" for v
      using n by (simp add: list_update_append Cons_nth_drop_Suc [symmetric])
    have tk: "take (Suc n) ?a = take n ?a @ [?a ! n]" using n by (rule take_Suc_conv_app_nth)
    have dr: "drop n ?a = ?a ! n # drop (Suc n) ?a" using n by (simp add: Cons_nth_drop_Suc)
    show ?case
    proof (cases "?a ! n = ip")
      case True
      then show ?thesis using Suc inst by (simp add: del_nat_addr_def nth upd tk nat_calls_def)
    next
      case False
      then show ?thesis using Suc inst by (simp add: del_nat_addr_def nth tk) (simp add: dr)
    qed
  qed
  from this [of MAX_IFACE_ADDRESS] show ?thesis using assms(2) len by (simp add: HandleNeighIpAddrDelEvt_def)
qed

lemma HandleNeighIpAddrDelEvt_ok: "listener_wf l \<Longrightarrow> step_ok (HandleNeighIpAddrDelEvt ip l)"
proof (cases "ip = 0")
  case False
  assume "listener_wf l"
  then show ?thesis unfolding HandleNeighIpAddrDelEvt_eq [OF \<open>listener_wf l\<close> False]
    by (auto simp: list_all_iff)
qed (simp add: HandleNeighIpAddrDelEvt_def)

text \<open>A deletion names a TCP or UDP connection.\<close>

lemma AddORDeleteNatEntry_ok: "list_all op_ok (AddORDeleteNatEntry obj type rule tmp l)"
  by (auto simp: AddORDeleteNatEntry_def add_op_def entry_is_free_def IPPROTO_TCP_def IPPROTO_UDP_def)

lemma ProcessCTMessage_ok:
  assumes "listener_wf l" and "ProcessCTMessage env obj type l = (ops, l')"
  shows "listener_wf l'" and "list_all op_ok ops"
proof -
  have A: "listener_wf (snd (snd (snd (AddIface env rule l))))" for rule
    using assms(1) by (simp add: AddIface_def Let_def)
  have "listener_wf (snd (ProcessTCPorUDPMsg env obj type l)) \<and> list_all op_ok (fst (ProcessTCPorUDPMsg env obj type l))"
    using assms(1) A by (auto simp: ProcessTCPorUDPMsg_def Let_def AddORDeleteNatEntry_ok split: option.splits prod.splits)
      (metis snd_conv)+
  then show "listener_wf l'" and "list_all op_ok ops"
    using assms by (auto simp: ProcessCTMessage_def split: if_splits)
qed

lemma ct_event_callback_ok:
  assumes "listener_wf l" and "env_ok env"
  shows "step_ok (event_callback env e d l)"
proof (cases d)
  case NullData
  then show ?thesis using assms by (simp add: event_callback_def)
next
  case (CtData obj type)
  then show ?thesis using assms ProcessCTMessage_ok [OF assms(1)] by (auto simp: event_callback_def split: prod.splits)
next
  case (UpData up)
  obtain r es l1 where th: "CreateConnTrackThreads env l = (r, es, l1)" by (metis prod_cases3)
  then have wf1: "listener_wf l1" "list_all effect_ok es" using threads_ok(1,2) [OF assms(1), of env] by simp_all
  obtain es2 l2 where up: "TriggerWANUp env up l1 = (es2, l2)" by fastforce
  have "step_ok (Some (TriggerWANDown ip l))" for ip using assms(1) by (simp add: TriggerWANDown_def Let_def)
  with UpData th wf1 up TriggerWANUp_ok [OF wf1(1) up] assms(1) show ?thesis by (simp add: event_callback_def)
next
  case (AllData d')
  then show ?thesis using HandleNonNatIPAddr_ok [OF assms] assms(1) by (simp add: event_callback_def)
qed

lemma HandleSTAClientAddEvt_ok:
  assumes "listener_wf l"
  shows "step_ok (HandleSTAClientAddEvt ip l)"
proof -
  let ?a = "sta_clnt_ipv4_addr l"
  let ?cnt = "find_idx (\<lambda>i. (?a ! i \<noteq> 0 \<and> ?a ! i = ip) \<or> ?a ! i = 0) MAX_STA_CLNT_IFACES"
  have "listener_wf (l\<lparr>sta_clnt_ipv4_addr := ?a[?cnt := ip], StaClntCnt := StaClntCnt l + 1\<rparr>)"
    if "?cnt < MAX_STA_CLNT_IFACES" "?a ! ?cnt = 0" "StaClntCnt l < int MAX_STA_CLNT_IFACES"
    using that assms count_update [of ?cnt ?a "\<lambda>x. x \<noteq> 0" ip] by (simp add: listener_wf_def split: if_splits)
  then show ?thesis using assms by (simp add: HandleSTAClientAddEvt_def Let_def)
qed

lemma HandleSTAClientDelEvt_ok:
  assumes "listener_wf l"
  shows "step_ok (HandleSTAClientDelEvt ip l)"
proof -
  let ?a = "sta_clnt_ipv4_addr l"
  let ?P = "\<lambda>i. ?a ! i \<noteq> 0 \<and> ?a ! i = ip"
  let ?cnt = "find_idx ?P MAX_STA_CLNT_IFACES"
  have "listener_wf (l\<lparr>sta_clnt_ipv4_addr := ?a[k := 0], StaClntCnt := StaClntCnt l - 1\<rparr>)"
    if "k < MAX_STA_CLNT_IFACES" "?a ! k \<noteq> 0" for k
    using that assms count_update [of k ?a "\<lambda>x. x \<noteq> 0" 0] by (auto simp: listener_wf_def)
  then have "listener_wf (l\<lparr>sta_clnt_ipv4_addr := ?a[?cnt := 0], StaClntCnt := StaClntCnt l - 1\<rparr>)"
    if "?cnt < MAX_STA_CLNT_IFACES" using find_idx_sat [OF that] that by blast
  then show ?thesis using assms by (simp add: HandleSTAClientDelEvt_def Let_def)
qed

lemmas handlers_ok =
  ct_event_callback_ok HandleNeighIpAddrAddEvt_ok HandleNeighIpAddrDelEvt_ok HandleSTAClientAddEvt_ok HandleSTAClientDelEvt_ok

interpretation ct: op_safety ct_exec call_ok listener_wf effect_ok
proof
  fix l x assume "listener_wf l" "call_ok x"
  then have "step_ok (ct_exec x l)" by (cases x) (simp_all add: handlers_ok)
  then show "\<exists>es l'. ct_exec x l = Some (es, l') \<and> listener_wf l' \<and> list_all effect_ok es" by (simp add: step_ok_def)
qed

lemma nat_ops_ok: "list_all effect_ok es \<Longrightarrow> list_all op_ok (nat_ops es)"
  by (induction es) (auto simp: nat_ops_def split: ct_effect.splits)

section \<open>The connection of a message\<close>

text \<open>
  What \<open>ProcessTCPorUDPMsg\<close> makes of the addresses of a message, whatever its type: no entry, or a
  rule and whether it is temporary.
\<close>

definition classify ::
  "ct_env \<Rightarrow> ct_object \<Rightarrow> listener \<Rightarrow> (nat_table_entry \<times> bool) option \<times> listener" where
  "classify env obj l =
     (case nat_direction obj l of
        None \<Rightarrow> (None, l)
      | Some status \<Rightarrow>
          let rule = (PopulateTCPorUDPEntry obj status (zero_entry\<lparr>protocol := CT_REPL_L4PROTO obj\<rparr>))\<lparr>public_ip := wan_ipaddr l\<rparr> in
          if private_ip rule \<noteq> wan_ipaddr l then
            (case AddIface env rule l of
               (isAdd, tmp, rule, l) \<Rightarrow>
                 (if isAdd then Some (rule, CheckSTAClient rule tmp l) else None, l))
          else if isStaMode l then (None, l)
          else
            let rule = rule\<lparr>private_port := public_port rule\<rparr> in (Some (rule, CheckSTAClient rule False l), l))"

lemma Process_classify:
  "ProcessTCPorUDPMsg env obj type l =
     (case classify env obj l of
        (None, l') \<Rightarrow> ([], l')
      | (Some (rule, tmp), l') \<Rightarrow> (AddORDeleteNatEntry obj type rule tmp l', l'))"
  by (simp add: ProcessTCPorUDPMsg_def classify_def Let_def split: option.splits prod.splits)

lemma Populate_frame [simp]:
  "protocol (PopulateTCPorUDPEntry obj status rule) = protocol rule"
  "PopulateTCPorUDPEntry (obj\<lparr>CT_TCP_STATE := st\<rparr>) status rule = PopulateTCPorUDPEntry obj status rule"
  "nat_direction (obj\<lparr>CT_TCP_STATE := st\<rparr>) l = nat_direction obj l"
  "nat_direction obj (l\<lparr>pConfig := b\<rparr>) = nat_direction obj l"
  "CheckSTAClient rule tmp (l\<lparr>pConfig := b\<rparr>) = CheckSTAClient rule tmp l"
  by (simp_all add: PopulateTCPorUDPEntry_def nat_direction_def CheckSTAClient_def Let_def)

lemma AddIface_again:
  assumes "AddIface env rule l = (b, tmp, rule', l')"
  shows "AddIface env rule l' = (b, tmp, rule', l')" and "protocol rule' = protocol rule"
    and "l' = l \<or> l' = l\<lparr>pConfig := True\<rparr>"
proof -
  let ?n = "find_idx (\<lambda>i. nat_iface_ipv4_addr l ! i \<noteq> 0 \<and>
      (private_ip rule = nat_iface_ipv4_addr l ! i \<or> target_ip rule = nat_iface_ipv4_addr l ! i)) MAX_IFACE_ADDRESS"
  let ?m = "find_idx (\<lambda>i. nonnat_iface_ipv4_addr l ! i \<noteq> 0 \<and>
      (private_ip rule = nonnat_iface_ipv4_addr l ! i \<or> target_ip rule = nonnat_iface_ipv4_addr l ! i)) MAX_IFACE_ADDRESS"
  let ?early = "(ipacm_ip_passthrough_mode (shared_config env) \<and> private_ip rule = getWANIP env) \<or> ?n < MAX_IFACE_ADDRESS \<or>
      (\<not> isStaMode l \<and> ?m < MAX_IFACE_ADDRESS) \<or> (\<not> pConfig l \<and> \<not> config_instance env)"
  have l': "l' = (if ?early then l else l\<lparr>pConfig := True\<rparr>)"
    using assms unfolding AddIface_def Let_def by (auto split: if_splits)
  show "l' = l \<or> l' = l\<lparr>pConfig := True\<rparr>" using l' by simp
  show "protocol rule' = protocol rule" using assms unfolding AddIface_def Let_def by (auto split: if_splits)
  show "AddIface env rule l' = (b, tmp, rule', l')"
  proof (cases ?early)
    case True
    then show ?thesis using assms l' by simp
  next
    case False
    let ?p = "isPrivateSubnet (shared_config env) (private_ip rule) \<or> isPrivateSubnet (shared_config env) (target_ip rule)"
    have "AddIface env rule l = (?p, ?p, rule, l\<lparr>pConfig := True\<rparr>)"
      "AddIface env rule (l\<lparr>pConfig := True\<rparr>) = (?p, ?p, rule, l\<lparr>pConfig := True\<rparr>)"
      using False by (auto simp: AddIface_def Let_def)
    then show ?thesis using assms by simp
  qed
qed

lemma classify_again:
  assumes "classify env obj l = (c, l')"
  shows "classify env (obj\<lparr>CT_TCP_STATE := st\<rparr>) l' = (c, l')"
    and "nat_inst l' = nat_inst l" and "c = Some (rule, tmp) \<Longrightarrow> protocol rule = CT_REPL_L4PROTO obj"
proof -
  let ?r = "\<lambda>status. (PopulateTCPorUDPEntry obj status (zero_entry\<lparr>protocol := CT_REPL_L4PROTO obj\<rparr>))\<lparr>public_ip := wan_ipaddr l\<rparr>"
  have "l' = l \<or> l' = l\<lparr>pConfig := True\<rparr>"
    using assms AddIface_again(3) unfolding classify_def Let_def by (auto split: option.splits if_splits prod.splits)
  then have sel: "wan_ipaddr l' = wan_ipaddr l" "isStaMode l' = isStaMode l" "nat_inst l' = nat_inst l"
    "nat_direction obj l' = nat_direction obj l" "CheckSTAClient rule tmp l' = CheckSTAClient rule tmp l" for rule tmp by auto
  show "nat_inst l' = nat_inst l" by (rule sel)
  show "protocol rule = CT_REPL_L4PROTO obj" if "c = Some (rule, tmp)"
    using assms that AddIface_again(2) unfolding classify_def Let_def by (auto split: option.splits if_splits prod.splits)
  show "classify env (obj\<lparr>CT_TCP_STATE := st\<rparr>) l' = (c, l')"
  proof (cases "nat_direction obj l")
    case None
    then show ?thesis using assms sel by (simp add: classify_def)
  next
    case (Some status)
    show ?thesis
    proof (cases "private_ip (?r status) \<noteq> wan_ipaddr l")
      case True
      obtain b t r l2 where A: "AddIface env (?r status) l = (b, t, r, l2)" by (metis prod_cases4)
      then have "l2 = l'" and c: "c = (if b then Some (r, CheckSTAClient r t l2) else None)"
        using assms Some True by (auto simp: classify_def Let_def)
      with AddIface_again(1) [OF A] show ?thesis using Some True sel by (simp add: classify_def Let_def)
    next
      case False
      then show ?thesis using assms Some sel by (auto simp: classify_def Let_def)
    qed
  qed
qed

text \<open>The rule that the listener makes of a message.\<close>

definition rule_of :: "ct_env \<Rightarrow> ct_object \<Rightarrow> listener \<Rightarrow> nat_table_entry option" where
  "rule_of env obj l =
     (if CT_ORIG_L4PROTO obj \<noteq> IPPROTO_UDP \<and> CT_ORIG_L4PROTO obj \<noteq> IPPROTO_TCP then None
      else map_option fst (fst (classify env obj l)))"

section \<open>Opening and closing a connection\<close>

text \<open>The messages on which an entry is added, and those on which it is deleted.\<close>

definition opens :: "ct_object \<Rightarrow> nf_conntrack_msg_type \<Rightarrow> bool" where
  "opens obj type \<longleftrightarrow>
     (if CT_REPL_L4PROTO obj = IPPROTO_TCP then CT_TCP_STATE obj = TCP_CONNTRACK_ESTABLISHED
      else CT_REPL_L4PROTO obj = IPPROTO_UDP \<and> type = NFCT_T_NEW)"

definition closes :: "ct_object \<Rightarrow> nf_conntrack_msg_type \<Rightarrow> bool" where
  "closes obj type \<longleftrightarrow>
     (if CT_REPL_L4PROTO obj = IPPROTO_TCP
      then CT_TCP_STATE obj = TCP_CONNTRACK_FIN_WAIT \<or> (type = NFCT_T_DESTROY \<and> CT_TCP_STATE obj \<noteq> TCP_CONNTRACK_ESTABLISHED)
      else CT_REPL_L4PROTO obj = IPPROTO_UDP \<and> type = NFCT_T_DESTROY)"

lemma AddEntry_conns:
  assumes "natapp_wf s"
  shows "conns (snd (AddEntry h rule s)) - {entry_key rule} = conns s - {entry_key rule}"
proof (cases "fst (AddEntry h rule s) = 0 \<and> \<not> entry_is_invalid rule")
  case True
  then have "AddEntry h rule s = (0, snd (AddEntry h rule s))" by (simp add: prod_eq_iff)
  with True AddEntry_effect(1) [OF assms] show ?thesis by blast
next
  case False
  let ?i = "find_idx (\<lambda>i. entry_is_free (cache s ! i)) (max_entries s)"
  obtain r hdl w where call: "ipa_nat_add_ipv4_rule h (nat_table_hdl s) (nat_rule_of rule)
      (rule_hdl (cache s ! ?i)) (world s) = (r, hdl, w)" by (metis prod_cases3)
  have same: "nat_slots.keys ((cache s)[?i := (cache s ! ?i)\<lparr>rule_hdl := hdl\<rparr>]) = nat_slots.keys (cache s)"
    by (rule nat_slots.keys_rewrite) (simp add: entry_key_def)
  show ?thesis using False call same by (auto simp: AddEntry_def Let_def conns_def upd_cache_def split: if_splits)
qed

lemma CacheEntry_conns:
  assumes "natapp_wf s"
  shows "conns (CacheEntry rule s) - {entry_key rule} = conns s - {entry_key rule}"
proof -
  let ?i = "find_idx (\<lambda>i. entry_is_free (cache s ! i)) (max_entries s)"
  let ?e = "(fill_from_rule rule ((cache s ! ?i)\<lparr>enabled := False, rule_hdl := 0\<rparr>))\<lparr>public_ip := public_ip rule\<rparr>"
  have k: "entry_key ?e = entry_key rule" by (simp add: entry_key_def fill_from_rule_def)
  have "nat_slots.keys ((cache s)[?i := ?e]) - {entry_key rule} = nat_slots.keys (cache s) - {entry_key rule}"
    if "?i < max_entries s" "\<not> entry_is_invalid rule"
  proof -
    have "entry_is_free (cache s ! ?i)" using that(1) by (rule find_idx_sat)
    moreover have "\<not> entry_is_free ?e" using that(2) invalid_if_free k unfolding entry_is_free_iff by metis
    ultimately have "nat_slots.keys ((cache s)[?i := ?e]) = insert (entry_key ?e) (nat_slots.keys (cache s))"
      using nat_slots.keys_fill [of ?i "cache s" ?e] that(1) wf_length [OF assms] by simp
    then show ?thesis unfolding k by blast
  qed
  then show ?thesis using find_idx_le [of "\<lambda>i. entry_is_free (cache s ! i)" "max_entries s"]
    by (auto simp: CacheEntry_def Let_def conns_def upd_cache_def)
qed

lemma wf_add_op: "natapp_wf s \<Longrightarrow> natapp_wf (exec_op h (add_op tmp rule l) s)"
  by (rule wf_exec_op) (simp_all add: add_op_def)

lemma conns_add_op:
  assumes "natapp_wf s"
  shows "conns (exec_op h (add_op tmp rule l) s) - {entry_key rule} = conns s - {entry_key rule}"
proof -
  have "conns (AddTempEntry rule s) = conns s" by (simp add: AddTempEntry_def Let_def conns_def)
  then show ?thesis using AddEntry_conns [OF assms] CacheEntry_conns [OF assms] by (simp add: add_op_def)
qed

lemma conns_DeleteTempEntry [simp]: "conns (DeleteTempEntry rule s) = conns s"
  by (simp add: DeleteTempEntry_def Let_def conns_def)

lemma classify_opens:
  assumes "nat_inst l" and "protocol rule = CT_REPL_L4PROTO obj"
  shows "opens obj type \<Longrightarrow> AddORDeleteNatEntry obj type rule tmp l = [add_op tmp rule l]"
    and "closes obj type \<Longrightarrow> AddORDeleteNatEntry obj type rule tmp l = [OpDeleteEntry rule, OpDeleteTempEntry rule]"
    and "opens obj type \<or> closes obj type \<Longrightarrow> \<not> entry_is_free rule"
  using assms
  by (auto simp: AddORDeleteNatEntry_def opens_def closes_def entry_is_free_def IPPROTO_TCP_def IPPROTO_UDP_def
      TCP_CONNTRACK_ESTABLISHED_def TCP_CONNTRACK_FIN_WAIT_def split: if_splits)

text \<open>What the listener does with a message, in terms of its rule.\<close>

lemma message_exec:
  "ct_exec (Event env IPA_PROCESS_CT_MESSAGE (CtData obj t)) l =
     (case ProcessCTMessage env obj t l of (ops, l) \<Rightarrow> Some (map Nat ops, l))"
  by (simp add: event_callback_def)

lemma nat_ops_simps [simp]: "nat_ops (map Nat ops) = ops" "nat_ops (es @ es') = nat_ops es @ nat_ops es'" "nat_ops [] = []"
  by (simp_all add: nat_ops_def comp_def)

lemma message_cases:
  assumes "ct_exec (Event env IPA_PROCESS_CT_MESSAGE (CtData obj t)) l = Some (es, l')"
  obtains (none) "rule_of env obj l = None" "nat_ops es = []"
  | (rule) rule tmp where "rule_of env obj l = Some rule" "classify env obj l = (Some (rule, tmp), l')"
      "nat_ops es = AddORDeleteNatEntry obj t rule tmp l'"
proof (cases "CT_ORIG_L4PROTO obj \<noteq> IPPROTO_UDP \<and> CT_ORIG_L4PROTO obj \<noteq> IPPROTO_TCP")
  case True
  then show ?thesis using assms by (intro none) (auto simp: message_exec ProcessCTMessage_def rule_of_def simp del: ct_exec.simps)
next
  case False
  obtain c l1 where c: "classify env obj l = (c, l1)" by fastforce
  then show ?thesis
  proof (cases c)
    case None
    then show ?thesis using assms False c by (intro none) (auto simp: message_exec ProcessCTMessage_def Process_classify rule_of_def simp del: ct_exec.simps)
  next
    case (Some rt)
    obtain r tmp where "c = Some (r, tmp)" using Some by (cases rt) auto
    then show ?thesis using assms False c by (intro rule [of r tmp]) (auto simp: message_exec ProcessCTMessage_def Process_classify rule_of_def simp del: ct_exec.simps)
  qed
qed

lemma message_none:
  "ct_exec (Event env IPA_PROCESS_CT_MESSAGE (CtData obj t)) l = Some (es, l') \<Longrightarrow> rule_of env obj l = None \<Longrightarrow> nat_ops es = []"
  by (erule message_cases) simp_all

lemma rule_of_state [simp]: "rule_of env (obj\<lparr>CT_TCP_STATE := st\<rparr>) l = rule_of env obj l"
proof -
  have "classify env (obj\<lparr>CT_TCP_STATE := st\<rparr>) l = classify env obj l"
    by (simp add: classify_def Let_def split: option.splits)
  then show ?thesis by (simp add: rule_of_def)
qed

lemma message_opens:
  assumes "ct_exec (Event env IPA_PROCESS_CT_MESSAGE (CtData obj t)) l = Some (es, l')" and "rule_of env obj l = Some rule"
    and "opens obj t" and "nat_inst l"
  shows "\<exists>tmp. nat_ops es = [add_op tmp rule l'] \<and> protocol rule = CT_REPL_L4PROTO obj"
  using assms(1)
proof (cases rule: message_cases)
  case (rule r tmp)
  note again = classify_again [OF rule(2)]
  have "protocol r = CT_REPL_L4PROTO obj" "nat_inst l'" using again(2,3) assms(4) by simp_all
  then show ?thesis using rule assms(2) classify_opens(1) [OF _ _ assms(3)] by auto
qed (use assms(2) in simp)

lemma message_closes:
  assumes "ct_exec (Event env IPA_PROCESS_CT_MESSAGE (CtData obj t)) l = Some (es, l')" and "rule_of env obj l = Some rule"
    and "closes obj t" and "nat_inst l"
  shows "nat_ops es = [OpDeleteEntry rule, OpDeleteTempEntry rule]"
  using assms(1)
proof (cases rule: message_cases)
  case (rule r tmp)
  note again = classify_again [OF rule(2)]
  have "protocol r = CT_REPL_L4PROTO obj" "nat_inst l'" using again(2,3) assms(4) by simp_all
  then show ?thesis using rule assms(2) classify_opens(2) [OF _ _ assms(3)] by auto
qed (use assms(2) in simp)

lemma opens_occupied: "opens obj t \<Longrightarrow> protocol rule = CT_REPL_L4PROTO obj \<Longrightarrow> \<not> entry_is_free rule"
  by (auto simp: opens_def entry_is_free_def IPPROTO_TCP_def IPPROTO_UDP_def split: if_splits)

section \<open>A client and its connection\<close>

lemma restore_entry_frame [simp]:
  "temp (restore_entry h i s) = temp s" "pub_ip_addr (restore_entry h i s) = pub_ip_addr s"
  "nat_table_hdl (restore_entry h i s) = nat_table_hdl s" "pALGPorts (restore_entry h i s) = pALGPorts s"
  "max_entries (restore_entry h i s) = max_entries s"
  by (simp_all add: restore_entry_def Let_def split: prod.splits)

lemma restore_entry_PwrSaveIfs [simp]: "PwrSaveIfs (restore_entry h i s) = PwrSaveIfs s"
  by (simp add: restore_entry_def Let_def split: prod.splits)


text \<open>A cell of the cache holds the connection and its rule is in the table of the driver.\<close>

definition in_table :: "'w natapp \<Rightarrow> nat_table_entry \<Rightarrow> bool" where
  "in_table s rule \<longleftrightarrow> (\<exists>e\<in>set (cache s). entry_key e = entry_key rule \<and> enabled e)"


















section \<open>Properties\<close>

text \<open>
  A phone with wlan0 behind NAT (index 7), its uplink with address 10.0.0.1, a client 192.168.225.10
  and its UDP connection to 8.8.8.8, for the examples below.
\<close>

definition ct_env0 :: ct_env where
  "ct_env0 = \<lparr>shared_config = snd (the (AddNatIfaces ''wlan0'' config0)), config_instance = True,
     ct_if_name = (\<lambda>i. if i = 7 then Some ''wlan0'' else if i = 8 then Some ''usb0'' else None),
     ct_malloc_ok = True, socket_ok = True, thread_ok = (\<lambda>_. True), getWANIP = 0x0A000001, junk_j = 0\<rparr>"

definition wan_up0 :: ct_call where
  "wan_up0 = Event ct_env0 IPA_HANDLE_WAN_UP (UpData \<lparr>up_ifname = ''rmnet0'', up_ipv4_addr = 0x0A000001, up_is_sta = False\<rparr>)"

definition client0 :: ipacm_event_data_all where
  "client0 = \<lparr>iptype = IPA_IP_v4, if_index = 7, ipv4_addr = 0xC0A8E10A, ipv6_addr = [], d_mac_addr = []\<rparr>"

definition obj0 :: ct_object where
  "obj0 = \<lparr>CT_ORIG_L4PROTO = 17, CT_REPL_L4PROTO = 17, CT_STATUS = 16, CT_TCP_STATE = 0,
     CT_ORIG_IPV4_SRC = htonl 0xC0A8E10A, CT_ORIG_IPV4_DST = htonl 0x08080808,
     CT_ORIG_PORT_SRC = htons 5000, CT_ORIG_PORT_DST = htons 53,
     CT_REPL_IPV4_SRC = htonl 0x08080808, CT_REPL_PORT_SRC = htons 53, CT_REPL_PORT_DST = htons 6000\<rparr>"

definition listener0 :: listener where
  "listener0 = snd (the (run_ops ct_exec [wan_up0] (Listener_ctor True True [] 0 False)))"

definition natapp0 :: "u32 natapp" where
  "natapp0 = snd (AddTable counting_env 0x0A000001 inst0)"

lemma natapp0_wf [simp]: "natapp_wf natapp0"
  unfolding natapp0_def by (intro wf_AddTable inst0_wf)



text \<open>
  C17. A connection is removed under the key it was entered with. A message opens it (UDP new; TCP established), then any
  calls reach the listener, then a message closes it (UDP destroyed; TCP in FIN_WAIT, or destroyed in a state other than
  established, see \<open>tcp_destroy_established_adds\<close>). As long as the listener takes both messages for the same
  connection (\<open>rule_of\<close>: it depends on the WAN address, the mode, the address lists and the configuration), it asks
  the NAT application to delete exactly the rule that it had asked it to add, cache or keep as a temporary entry; the
  connections left are those before the closing message, without it, and when nothing came between, those before the
  opening message, without it.
\<close>

theorem connection_roundtrip:
  assumes "natapp_wf s" and "listener_wf l" and "list_all call_ok xs"
    and "opens obj t1" and "closes (obj\<lparr>CT_TCP_STATE := st\<rparr>) t2"
    and "ct_exec (Event env IPA_PROCESS_CT_MESSAGE (CtData obj t1)) l = Some (es1, l1)"
    and "run_ops ct_exec xs l1 = Some (es2, l2)"
    and "rule_of env' obj l2 = rule_of env obj l"
    and "ct_exec (Event env' IPA_PROCESS_CT_MESSAGE (CtData (obj\<lparr>CT_TCP_STATE := st\<rparr>) t2)) l2 = Some (es3, l3)"
  shows "case rule_of env obj l of
      None \<Rightarrow> nat_ops es1 = [] \<and> nat_ops es3 = []
    | Some rule \<Rightarrow>
        nat_ops es1 \<in> {[OpAddEntry rule], [OpAddTempEntry rule], [OpCacheEntry rule]} \<and>
        nat_ops es3 = [OpDeleteEntry rule, OpDeleteTempEntry rule] \<and>
        conns (nat_after h (es1 @ es2 @ es3) s) = conns (nat_after h (es1 @ es2) s) - {entry_key rule} \<and>
        (xs = [] \<longrightarrow> conns (nat_after h (es1 @ es2 @ es3) s) = conns s - {entry_key rule})"
proof -
  have wf1: "listener_wf l1" "list_all effect_ok es1"
    using ProcessCTMessage_ok [OF assms(2)] assms(6) unfolding message_exec by (auto split: prod.splits)
  have wf2: "listener_wf l2" "list_all effect_ok es2" using ct.run_keeps [OF wf1(1) assms(3)] assms(7) by auto
  show ?thesis
  proof (cases "rule_of env obj l")
    case None
    then show ?thesis using message_none [OF assms(6)] message_none [OF assms(9)] assms(8) by simp
  next
    case (Some rule)
    obtain tmp l' where m1: "nat_ops es1 = [add_op tmp rule l']" "l1 = l'" "protocol rule = CT_REPL_L4PROTO obj"
      using message_opens [OF assms(6) Some assms(4)] assms(2) by (auto simp: listener_wf_def)
    have m3: "nat_ops es3 = [OpDeleteEntry rule, OpDeleteTempEntry rule]"
      using message_closes [OF assms(9) _ assms(5)] Some assms(8) wf2(1) by (simp add: listener_wf_def)
    have occ: "\<not> entry_is_free rule" using opens_occupied [OF assms(4) m1(3)] .
    let ?s1 = "nat_after h es1 s" and ?s2 = "nat_after h (es1 @ es2) s"
    have s2: "natapp_wf ?s2" unfolding nat_after_def by (rule wf_run [OF assms(1) nat_ops_ok]) (use wf1(2) wf2(2) in simp)
    have fin: "conns (nat_after h (es1 @ es2 @ es3) s) = conns ?s2 - {entry_key rule}"
      using DeleteEntry_effect [OF s2 occ] m3 by (simp add: nat_after_def)
    have "conns ?s1 - {entry_key rule} = conns s - {entry_key rule}"
      using conns_add_op [OF assms(1)] m1(1) by (simp add: nat_after_def)
    then have "xs = [] \<Longrightarrow> conns (nat_after h (es1 @ es2 @ es3) s) = conns s - {entry_key rule}"
      using fin assms(7) by (simp add: nat_ops_def nat_after_def)
    then show ?thesis using Some m1 m3 fin by (auto simp: add_op_def)
  qed
qed

text \<open>The client is announced in between, so the connection that waited is in the table when it is closed.\<close>

theorem connection_roundtrip_witness:
  "(let (es1, l1) = the (ct_exec (Event ct_env0 IPA_PROCESS_CT_MESSAGE (CtData obj0 NFCT_T_NEW)) listener0);
        (es2, l2) = the (run_ops ct_exec [NeighIpAddrAdd ct_env0 client0] l1);
        (es3, l3) = the (ct_exec (Event ct_env0 IPA_PROCESS_CT_MESSAGE (CtData obj0 NFCT_T_DESTROY)) l2)
    in nat_ops es1 = [OpAddTempEntry conn1] \<and> nat_ops es3 = [OpDeleteEntry conn1, OpDeleteTempEntry conn1] \<and>
       in_table (nat_after counting_env (es1 @ es2) natapp0) conn1 \<and>
       conns (nat_after counting_env (es1 @ es2 @ es3) natapp0) = conns (nat_after counting_env (es1 @ es2) natapp0) - {entry_key conn1})"
proof -
  define r1 where "r1 = the (ct_exec (Event ct_env0 IPA_PROCESS_CT_MESSAGE (CtData obj0 NFCT_T_NEW)) listener0)"
  define r2 where "r2 = the (run_ops ct_exec [NeighIpAddrAdd ct_env0 client0] (snd r1))"
  define r3 where "r3 = the (ct_exec (Event ct_env0 IPA_PROCESS_CT_MESSAGE (CtData obj0 NFCT_T_DESTROY)) (snd r2))"
  have hyps: "listener_wf listener0" "list_all call_ok [NeighIpAddrAdd ct_env0 client0]" "opens obj0 NFCT_T_NEW"
    "closes (obj0\<lparr>CT_TCP_STATE := 0\<rparr>) NFCT_T_DESTROY"
    by (simp_all add: listener0_def) code_simp+
  have runs: "ct_exec (Event ct_env0 IPA_PROCESS_CT_MESSAGE (CtData obj0 NFCT_T_NEW)) listener0 = Some (fst r1, snd r1)"
    "run_ops ct_exec [NeighIpAddrAdd ct_env0 client0] (snd r1) = Some (fst r2, snd r2)"
    "ct_exec (Event ct_env0 IPA_PROCESS_CT_MESSAGE (CtData (obj0\<lparr>CT_TCP_STATE := 0\<rparr>) NFCT_T_DESTROY)) (snd r2) = Some (fst r3, snd r3)"
    unfolding r1_def r2_def r3_def by code_simp+
  have rule: "rule_of ct_env0 obj0 (snd r2) = rule_of ct_env0 obj0 listener0" "rule_of ct_env0 obj0 listener0 = Some conn1"
    unfolding r1_def r2_def by code_simp+
  have key: "in_table (nat_after counting_env (fst r1 @ fst r2) natapp0) conn1" "nat_ops (fst r1) = [OpAddTempEntry conn1]"
    unfolding r1_def r2_def by code_simp+
  from connection_roundtrip [OF natapp0_wf hyps runs(1,2) rule(1) runs(3), of counting_env] rule(2) key
  show ?thesis unfolding r1_def [symmetric] r2_def [symmetric] r3_def [symmetric] Let_def case_prod_beta by simp
qed



text \<open>
  A client of the station that leaves makes a hole in the list, but only the first \<open>StaClntCnt\<close>
  places are compared: of three clients, when the second leaves, connections to the third are taken
  for connections to an unknown client and only kept as temporary entries. When the first leaves, the
  subnet is compared with 0, and connections to unknown clients are no longer held back.
\<close>

theorem sta_client_list_with_holes:
  "let l0 = (Listener_ctor True True [] 0 False)\<lparr>WanUp := True, isStaMode := True, wan_ipaddr := 0xC0A80164\<rparr>;
       add = [STAClientAdd 0xC0A80101, STAClientAdd 0xC0A80102, STAClientAdd 0xC0A80103];
       l1 = snd (the (run_ops ct_exec (add @ [STAClientDel 0xC0A80102]) l0));
       l2 = snd (the (run_ops ct_exec (add @ [STAClientDel 0xC0A80101]) l0));
       to = (\<lambda>ip. zero_entry\<lparr>target_ip := ip\<rparr>)
   in 0xC0A80103 \<in> set (sta_clnt_ipv4_addr l1) \<and> CheckSTAClient (to 0xC0A80103) False l1 \<and>
      0xC0A80109 \<notin> set (sta_clnt_ipv4_addr l2) \<and> \<not> CheckSTAClient (to 0xC0A80109) False l2"
  by code_simp

text \<open>
  The list of clients on other interfaces is not searched before an address is stored: a client
  announced twice is stored twice, and still treated as present after it was removed.
\<close>

theorem nonnat_client_stored_twice:
  "let d = client0\<lparr>if_index := 8\<rparr>;
       l = snd (the (run_ops ct_exec
             [Event ct_env0 IPA_NEIGH_CLIENT_IP_ADDR_ADD_EVENT (AllData d), Event ct_env0 IPA_NEIGH_CLIENT_IP_ADDR_ADD_EVENT (AllData d),
              Event ct_env0 IPA_NEIGH_CLIENT_IP_ADDR_DEL_EVENT (AllData d)] listener0))
   in fst (ProcessCTMessage ct_env0 obj0 NFCT_T_NEW l) =
        [OpAddEntry (conn1\<lparr>private_ip := 0x0A000001, private_port := 6000\<rparr>)]"
  by code_simp

text \<open>An unassigned index outside the array makes the debug output of \<open>CheckNatIface\<close> read outside it.\<close>

theorem unassigned_index_faults:
  "ct_exec (NeighIpAddrAdd (ct_env0\<lparr>junk_j := 50\<rparr>) client0) listener0 = None \<and>
   ct_exec (NeighIpAddrAdd (ct_env0\<lparr>junk_j := - 1\<rparr>) client0) listener0 = None"
  by code_simp

text \<open>
  The state of a TCP connection is looked at before the type of the message: a message that an
  established connection was destroyed adds an entry for it instead of deleting it.
\<close>

theorem tcp_destroy_established_adds:
  "let obj = obj0\<lparr>CT_ORIG_L4PROTO := 6, CT_REPL_L4PROTO := 6, CT_TCP_STATE := TCP_CONNTRACK_ESTABLISHED\<rparr>;
       l = snd (the (ct_exec (NeighIpAddrAdd ct_env0 client0) listener0))
   in fst (ProcessCTMessage ct_env0 obj NFCT_T_DESTROY l) = [OpAddEntry (conn1\<lparr>protocol := 6\<rparr>)]"
  by code_simp

end
