(* ===== verification/IPA_Tables.thy ===== *)
theory IPA_Tables
  imports Neighbor
begin

text \<open>
  \<open>IPACM_Routing.cpp\<close>, \<open>IPACM_Filtering.cpp\<close> and \<open>IPACM_Header.cpp\<close>: the three classes through which the interfaces
  reach the routing, filter and header tables of the kernel driver. The \<open>ioctl\<close> calls, \<open>malloc\<close> and the state of the
  file descriptors are the record \<open>ipa_dev\<close> over a world \<open>'w\<close>; what a call writes back into its argument (handles,
  status) is part of its result. Built with \<open>FEATURE_IPA_V3\<close>, as \<open>Makefile.am\<close> does.
\<close>

section \<open>Rules\<close>

text \<open>
  Handles are opaque: the code stores them, compares them with 0 and hands them back. Natural numbers stand for the 32 bit
  words, so that a driver that does not run out of handles can be described.
\<close>

type_synonym ipa_hdl = nat

text \<open>Attributes of a packet: those that the code sets, and the rest of the structure as it was read.\<close>

record ipa_rule_attrib =
  attrib_mask :: u32
  dst_mac_addr :: mac
  dst_mac_addr_mask :: mac
  attrib_rest :: nat

record ipa_rt_rule =
  rt_dst :: nat
  rt_hdr_hdl :: ipa_hdl
  rt_hdr_proc_ctx_hdl :: ipa_hdl
  rt_attrib :: ipa_rule_attrib
  rt_hashable :: bool

record ipa_ioc_add_rt_rule =
  art_commit :: bool
  art_ip :: ipa_ip_type
  art_tbl_name :: string
  art_rules :: "ipa_rt_rule list"

record ipa_ioc_mdfy_rt_rule =
  mrt_ip :: ipa_ip_type
  mrt_rules :: "(ipa_hdl \<times> ipa_rt_rule) list"

datatype ipa_flt_action = IPA_PASS_TO_ROUTING | IPA_PASS_TO_SRC_NAT | IPA_PASS_TO_DST_NAT | IPA_PASS_TO_EXCEPTION

record ipa_flt_rule =
  fl_action :: ipa_flt_action
  fl_rt_tbl_hdl :: ipa_hdl
  fl_rt_tbl_idx :: u32
  fl_attrib :: ipa_rule_attrib
  fl_eq_attrib :: nat
  fl_rule_id :: u16
  fl_hashable :: bool

record ipa_ioc_add_flt_rule =
  afl_ep :: nat
  afl_ip :: ipa_ip_type
  afl_global :: bool
  afl_rules :: "ipa_flt_rule list"

record ipa_ioc_add_flt_rule_after =
  afa_ep :: nat
  afa_ip :: ipa_ip_type
  afa_after_hdl :: ipa_hdl
  afa_rules :: "ipa_flt_rule list"

record ipa_ioc_mdfy_flt_rule =
  mfl_ip :: ipa_ip_type
  mfl_rules :: "(ipa_hdl \<times> ipa_flt_rule) list"

datatype ipa_hdr_proc_type = IPA_HDR_PROC_NONE | IPA_HDR_PROC_ETHII_TO_ETHII | IPA_HDR_PROC_ETHII_TO_802_3 |
  IPA_HDR_PROC_802_3_TO_ETHII | IPA_HDR_PROC_802_3_TO_802_3

datatype ipa_filter_action_enum_v01 = QMI_IPA_FILTER_ACTION_ROUTING_V01 | QMI_IPA_FILTER_ACTION_SRC_NAT_V01 |
  QMI_IPA_FILTER_ACTION_DST_NAT_V01 | QMI_IPA_FILTER_ACTION_EXCEPTION_V01

record ipa_filter_spec_ex =
  q_ip_type :: ipa_ip_type
  q_filter_action :: ipa_filter_action_enum_v01
  q_route_table_index :: u32
  q_mux_id :: u8
  q_rule_id :: u16
  q_is_rule_hashable :: bool
  q_filter_rule :: nat

record ipa_install_fltr_rule_req_ex =
  filter_spec_ex_list_valid :: bool
  filter_spec_ex_list_len :: nat
  filter_spec_ex_list :: "ipa_filter_spec_ex list"

text \<open>The kernel, with two constants of its header files. \<open>ioc_add_rt\<close> and \<open>ioc_add_flt_after\<close> give the return value and the handles of the rules added; the
  deletions give the return value and the status of the handle.\<close>

record 'w ipa_dev =
  IPA_CLIENT_MAX :: nat
  QMI_IPA_MAX_FILTERS_EX_V01 :: nat
  dev_malloc :: "'w \<Rightarrow> bool \<times> 'w"
  rt_node_open :: "'w \<Rightarrow> bool"
  hdr_node_open :: "'w \<Rightarrow> bool"
  ioc_add_rt :: "ipa_ioc_add_rt_rule \<Rightarrow> 'w \<Rightarrow> int \<times> ipa_hdl list \<times> 'w"
  ioc_del_rt :: "ipa_ip_type \<Rightarrow> ipa_hdl \<Rightarrow> 'w \<Rightarrow> int \<times> int \<times> 'w"
  ioc_mdfy_rt :: "ipa_ioc_mdfy_rt_rule \<Rightarrow> 'w \<Rightarrow> int \<times> 'w"
  ioc_commit_rt :: "ipa_ip_type \<Rightarrow> 'w \<Rightarrow> int \<times> 'w"
  ioc_reset_rt :: "ipa_ip_type \<Rightarrow> 'w \<Rightarrow> int \<times> 'w"
  ioc_get_rt_tbl :: "ipa_ip_type \<Rightarrow> string \<Rightarrow> 'w \<Rightarrow> int \<times> ipa_hdl \<times> 'w"
  ioc_put_rt_tbl :: "ipa_hdl \<Rightarrow> 'w \<Rightarrow> int \<times> 'w"
  ioc_add_flt :: "ipa_ioc_add_flt_rule \<Rightarrow> 'w \<Rightarrow> int \<times> ipa_hdl list \<times> 'w"
  ioc_add_flt_after :: "ipa_ioc_add_flt_rule_after \<Rightarrow> 'w \<Rightarrow> int \<times> ipa_hdl list \<times> 'w"
  ioc_del_flt :: "ipa_ip_type \<Rightarrow> ipa_hdl \<Rightarrow> 'w \<Rightarrow> int \<times> int \<times> 'w"
  ioc_mdfy_flt :: "ipa_ioc_mdfy_flt_rule \<Rightarrow> 'w \<Rightarrow> int \<times> 'w"
  ioc_commit_flt :: "ipa_ip_type \<Rightarrow> 'w \<Rightarrow> int \<times> 'w"
  ioc_reset_flt :: "ipa_ip_type \<Rightarrow> 'w \<Rightarrow> int \<times> 'w"
  open_wwan :: "'w \<Rightarrow> int \<times> 'w"
  ioc_add_flt_ex :: "ipa_install_fltr_rule_req_ex \<Rightarrow> 'w \<Rightarrow> int \<times> 'w"
  ioc_flt_index :: "nat \<Rightarrow> 'w \<Rightarrow> int \<times> 'w"
  ioc_add_hdr :: "nat \<Rightarrow> 'w \<Rightarrow> int \<times> 'w"
  ioc_del_hdr :: "ipa_hdl \<Rightarrow> 'w \<Rightarrow> int \<times> int \<times> 'w"
  ioc_commit_hdr :: "'w \<Rightarrow> int \<times> 'w"
  ioc_reset_hdr :: "'w \<Rightarrow> int \<times> 'w"
  ioc_get_hdr :: "string \<Rightarrow> 'w \<Rightarrow> int \<times> ipa_hdl \<times> 'w"
  ioc_copy_hdr :: "string \<Rightarrow> 'w \<Rightarrow> int \<times> 'w"
  ioc_add_hdr_proc_ctx :: "ipa_hdr_proc_type \<Rightarrow> ipa_hdl \<Rightarrow> 'w \<Rightarrow> int \<times> ipa_hdl \<times> 'w"
  ioc_del_hdr_proc_ctx :: "ipa_hdl \<Rightarrow> 'w \<Rightarrow> int \<times> 'w"

section \<open>Routing\<close>

definition AddRoutingRule :: "'w ipa_dev \<Rightarrow> ipa_ioc_add_rt_rule \<Rightarrow> 'w \<Rightarrow> bool \<times> ipa_hdl list \<times> 'w" where
  "AddRoutingRule dev tbl w =
     (if \<not> rt_node_open dev w then (False, [], w)
      else if \<exists>r\<in>set (art_rules tbl). rt_dst r > IPA_CLIENT_MAX dev then (False, [], w)
      else let (retval, hdls, w) = ioc_add_rt dev tbl w in (retval = 0, hdls, w))"

definition DeleteRoutingRule :: "'w ipa_dev \<Rightarrow> ipa_ip_type \<Rightarrow> ipa_hdl \<Rightarrow> 'w \<Rightarrow> bool \<times> int \<times> 'w" where
  "DeleteRoutingRule dev ip hdl w =
     (if \<not> rt_node_open dev w then (False, -1, w)
      else let (retval, status, w) = ioc_del_rt dev ip hdl w in (retval = 0, status, w))"

definition Routing_Commit :: "'w ipa_dev \<Rightarrow> ipa_ip_type \<Rightarrow> 'w \<Rightarrow> bool \<times> 'w" where
  "Routing_Commit dev ip w =
     (if \<not> rt_node_open dev w then (False, w) else let (retval, w) = ioc_commit_rt dev ip w in (retval = 0, w))"

definition Routing_Reset :: "'w ipa_dev \<Rightarrow> ipa_ip_type \<Rightarrow> 'w \<Rightarrow> bool \<times> 'w" where
  "Routing_Reset dev ip w =
     (if \<not> rt_node_open dev w then (False, w)
      else let (r1, w) = ioc_reset_rt dev ip w; (r2, w) = ioc_commit_rt dev ip w in (r1 = 0 \<and> r2 = 0, w))"

definition PutRoutingTable :: "'w ipa_dev \<Rightarrow> ipa_hdl \<Rightarrow> 'w \<Rightarrow> bool \<times> 'w" where
  "PutRoutingTable dev hdl w =
     (if \<not> rt_node_open dev w then (False, w) else let (retval, w) = ioc_put_rt_tbl dev hdl w in (retval = 0, w))"

text \<open>\<open>GetRoutingTable\<close>: whether it succeeded, and the handle of the table.\<close>

definition GetRoutingTable :: "'w ipa_dev \<Rightarrow> ipa_ip_type \<Rightarrow> string \<Rightarrow> 'w \<Rightarrow> bool \<times> ipa_hdl \<times> 'w" where
  "GetRoutingTable dev ip name w =
     (if \<not> rt_node_open dev w then (False, 0, w)
      else let (retval, hdl, w) = ioc_get_rt_tbl dev ip name w in
        if retval \<noteq> 0 then (False, hdl, w) else (True, hdl, snd (PutRoutingTable dev hdl w)))"

text \<open>\<open>DeleteRoutingHdl\<close>: \<open>res = false\<close> stands behind the \<open>goto\<close> and is never reached.\<close>

definition DeleteRoutingHdl :: "'w ipa_dev \<Rightarrow> ipa_hdl \<Rightarrow> ipa_ip_type \<Rightarrow> 'w \<Rightarrow> bool \<times> 'w" where
  "DeleteRoutingHdl dev hdl ip w =
     (if hdl = 0 then (True, w)
      else let (ok, w) = dev_malloc dev w in
        if \<not> ok then (False, w)
        else let (deleted, status, w) = DeleteRoutingRule dev ip hdl w in (True, w))"

definition ModifyRoutingRule :: "'w ipa_dev \<Rightarrow> ipa_ioc_mdfy_rt_rule \<Rightarrow> 'w \<Rightarrow> bool \<times> 'w" where
  "ModifyRoutingRule dev tbl w =
     (if \<not> rt_node_open dev w then (False, w) else let (retval, w) = ioc_mdfy_rt dev tbl w in (retval = 0, w))"

section \<open>Filtering\<close>

definition AddFilteringRule :: "'w ipa_dev \<Rightarrow> ipa_ioc_add_flt_rule \<Rightarrow> 'w \<Rightarrow> bool \<times> ipa_hdl list \<times> 'w" where
  "AddFilteringRule dev tbl w = (let (retval, hdls, w) = ioc_add_flt dev tbl w in (retval = 0, hdls, w))"

definition AddFilteringRuleAfter :: "'w ipa_dev \<Rightarrow> ipa_ioc_add_flt_rule_after \<Rightarrow> 'w \<Rightarrow> bool \<times> ipa_hdl list \<times> 'w" where
  "AddFilteringRuleAfter dev tbl w = (let (retval, hdls, w) = ioc_add_flt_after dev tbl w in (retval = 0, hdls, w))"

definition DeleteFilteringRule :: "'w ipa_dev \<Rightarrow> ipa_ip_type \<Rightarrow> ipa_hdl \<Rightarrow> 'w \<Rightarrow> bool \<times> int \<times> 'w" where
  "DeleteFilteringRule dev ip hdl w = (let (retval, status, w) = ioc_del_flt dev ip hdl w in (retval = 0, status, w))"

definition Filtering_Commit :: "'w ipa_dev \<Rightarrow> ipa_ip_type \<Rightarrow> 'w \<Rightarrow> bool \<times> 'w" where
  "Filtering_Commit dev ip w = (let (retval, w) = ioc_commit_flt dev ip w in (retval = 0, w))"

definition Filtering_Reset :: "'w ipa_dev \<Rightarrow> ipa_ip_type \<Rightarrow> 'w \<Rightarrow> bool \<times> 'w" where
  "Filtering_Reset dev ip w =
     (let (r1, w) = ioc_reset_flt dev ip w; (r2, w) = ioc_commit_flt dev ip w in (r1 = 0 \<and> r2 = 0, w))"

text \<open>The loop of \<open>DeleteFilteringHdls\<close> over the handles: 0 is passed over, the first failure ends it.\<close>

fun delete_flt_loop :: "'w ipa_dev \<Rightarrow> ipa_ip_type \<Rightarrow> ipa_hdl list \<Rightarrow> 'w \<Rightarrow> bool \<times> 'w" where
  "delete_flt_loop dev ip [] w = (True, w)"
| "delete_flt_loop dev ip (hdl # hdls) w =
     (if hdl = 0 then delete_flt_loop dev ip hdls w
      else let (deleted, status, w) = DeleteFilteringRule dev ip hdl w in
        if \<not> deleted \<or> status \<noteq> 0 then (False, w) else delete_flt_loop dev ip hdls w)"

definition DeleteFilteringHdls :: "'w ipa_dev \<Rightarrow> ipa_hdl list \<Rightarrow> ipa_ip_type \<Rightarrow> 'w \<Rightarrow> bool \<times> 'w" where
  "DeleteFilteringHdls dev hdls ip w =
     (let (ok, w) = dev_malloc dev w in if \<not> ok then (False, w) else delete_flt_loop dev ip hdls w)"

definition GetQmiFilterAction :: "ipa_flt_action \<Rightarrow> ipa_filter_action_enum_v01" where
  "GetQmiFilterAction a =
     (case a of IPA_PASS_TO_ROUTING \<Rightarrow> QMI_IPA_FILTER_ACTION_ROUTING_V01 | IPA_PASS_TO_SRC_NAT \<Rightarrow> QMI_IPA_FILTER_ACTION_SRC_NAT_V01
      | IPA_PASS_TO_DST_NAT \<Rightarrow> QMI_IPA_FILTER_ACTION_DST_NAT_V01 | IPA_PASS_TO_EXCEPTION \<Rightarrow> QMI_IPA_FILTER_ACTION_EXCEPTION_V01)"

text \<open>\<open>AddWanDLFilteringRule\<close>: the rules of both tables, each from last to first, in one message.\<close>

definition qmi_spec :: "ipa_ip_type \<Rightarrow> u8 \<Rightarrow> ipa_flt_rule \<Rightarrow> ipa_filter_spec_ex" where
  "qmi_spec ip mux r =
     \<lparr>q_ip_type = ip, q_filter_action = GetQmiFilterAction (fl_action r), q_route_table_index = fl_rt_tbl_idx r, q_mux_id = mux,
      q_rule_id = fl_rule_id r, q_is_rule_hashable = fl_hashable r, q_filter_rule = fl_eq_attrib r\<rparr>"

definition qmi_fill :: "nat \<Rightarrow> ipa_ip_type \<Rightarrow> u8 \<Rightarrow> ipa_ioc_add_flt_rule option \<Rightarrow> ipa_filter_spec_ex list \<Rightarrow> ipa_filter_spec_ex list" where
  "qmi_fill limit ip mux tbl specs =
     (case tbl of None \<Rightarrow> specs
      | Some t \<Rightarrow> fold (\<lambda>r specs. if length specs < limit then specs @ [qmi_spec ip mux r] else specs)
                  (rev (afl_rules t)) specs)"

definition num_flt_rules :: "ipa_ioc_add_flt_rule option \<Rightarrow> nat" where
  "num_flt_rules tbl = (case tbl of None \<Rightarrow> 0 | Some t \<Rightarrow> length (afl_rules t))"

definition AddWanDLFilteringRule ::
  "'w ipa_dev \<Rightarrow> ipa_ioc_add_flt_rule option \<Rightarrow> ipa_ioc_add_flt_rule option \<Rightarrow> u8 \<Rightarrow> 'w \<Rightarrow> bool \<times> 'w" where
  "AddWanDLFilteringRule dev t4 t6 mux w =
     (let (fd, w) = open_wwan dev w; num_rules = num_flt_rules t4 + num_flt_rules t6 in
      if fd < 0 then (False, w)
      else if num_rules > QMI_IPA_MAX_FILTERS_EX_V01 dev then (False, w)
      else
        let msg = \<lparr>filter_spec_ex_list_valid = (num_rules > 0), filter_spec_ex_list_len = num_rules,
              filter_spec_ex_list = qmi_fill (QMI_IPA_MAX_FILTERS_EX_V01 dev) IPA_IP_v6 mux t6
                (qmi_fill (QMI_IPA_MAX_FILTERS_EX_V01 dev) IPA_IP_v4 mux t4 [])\<rparr>;
            (ret, w) = ioc_add_flt_ex dev msg w
        in (ret = 0, w))"

definition SendFilteringRuleIndex :: "'w ipa_dev \<Rightarrow> nat \<Rightarrow> 'w \<Rightarrow> bool \<times> 'w" where
  "SendFilteringRuleIndex dev table w =
     (let (fd, w) = open_wwan dev w in
      if fd < 0 then (False, w) else let (ret, w) = ioc_flt_index dev table w in (ret = 0, w))"

definition ModifyFilteringRule :: "'w ipa_dev \<Rightarrow> ipa_ioc_mdfy_flt_rule \<Rightarrow> 'w \<Rightarrow> bool \<times> 'w" where
  "ModifyFilteringRule dev tbl w = (let (ret, w) = ioc_mdfy_flt dev tbl w in (ret = 0, w))"

section \<open>Headers\<close>

definition AddHeader :: "'w ipa_dev \<Rightarrow> nat \<Rightarrow> 'w \<Rightarrow> bool \<times> 'w" where
  "AddHeader dev tbl w = (let (ret, w) = ioc_add_hdr dev tbl w in (ret \<noteq> -1, w))"

definition DeleteHeader :: "'w ipa_dev \<Rightarrow> ipa_hdl \<Rightarrow> 'w \<Rightarrow> bool \<times> int \<times> 'w" where
  "DeleteHeader dev hdl w = (let (ret, status, w) = ioc_del_hdr dev hdl w in (ret \<noteq> -1, status, w))"

definition Header_Commit :: "'w ipa_dev \<Rightarrow> 'w \<Rightarrow> bool \<times> 'w" where
  "Header_Commit dev w = (True, snd (ioc_commit_hdr dev w))"

definition Header_Reset :: "'w ipa_dev \<Rightarrow> 'w \<Rightarrow> bool \<times> 'w" where
  "Header_Reset dev w = (True, snd (ioc_commit_hdr dev (snd (ioc_reset_hdr dev w))))"

definition GetHeaderHandle :: "'w ipa_dev \<Rightarrow> string \<Rightarrow> 'w \<Rightarrow> bool \<times> ipa_hdl \<times> 'w" where
  "GetHeaderHandle dev name w =
     (if \<not> hdr_node_open dev w then (False, 0, w)
      else let (retval, hdl, w) = ioc_get_hdr dev name w in (retval = 0, hdl, w))"

definition CopyHeader :: "'w ipa_dev \<Rightarrow> string \<Rightarrow> 'w \<Rightarrow> bool \<times> 'w" where
  "CopyHeader dev name w =
     (if \<not> hdr_node_open dev w then (False, w) else let (retval, w) = ioc_copy_hdr dev name w in (retval = 0, w))"

definition DeleteHeaderHdl :: "'w ipa_dev \<Rightarrow> ipa_hdl \<Rightarrow> 'w \<Rightarrow> bool \<times> 'w" where
  "DeleteHeaderHdl dev hdl w =
     (if hdl = 0 then (False, w)
      else let (ok, w) = dev_malloc dev w in
        if \<not> ok then (False, w)
        else let (deleted, status, w) = DeleteHeader dev hdl w in (deleted \<and> status = 0, w))"

definition AddHeaderProcCtx :: "'w ipa_dev \<Rightarrow> ipa_hdr_proc_type \<Rightarrow> ipa_hdl \<Rightarrow> 'w \<Rightarrow> bool \<times> ipa_hdl \<times> 'w" where
  "AddHeaderProcCtx dev type hdr_hdl w =
     (let (ret, hdl, w) = ioc_add_hdr_proc_ctx dev type hdr_hdl w in (ret = 0, hdl, w))"

definition DeleteHeaderProcCtx :: "'w ipa_dev \<Rightarrow> ipa_hdl \<Rightarrow> 'w \<Rightarrow> bool \<times> 'w" where
  "DeleteHeaderProcCtx dev hdl w =
     (let (ok, w) = dev_malloc dev w in
      if \<not> ok then (False, w) else let (ret, w) = ioc_del_hdr_proc_ctx dev hdl w in (ret = 0, w))"

section \<open>What the wrappers do\<close>

text \<open>All rules of a message within the limit are sent: those of the first table in reverse order, then those of the second.\<close>

lemma qmi_fill_all:
  assumes "length specs + num_flt_rules tbl \<le> limit"
  shows "qmi_fill limit ip mux tbl specs = specs @ (case tbl of None \<Rightarrow> [] | Some t \<Rightarrow> map (qmi_spec ip mux) (rev (afl_rules t)))"
proof (cases tbl)
  case (Some t)
  have "fold (\<lambda>r specs. if length specs < limit then specs @ [qmi_spec ip mux r] else specs) rs xs =
      xs @ map (qmi_spec ip mux) rs" if "length xs + length rs \<le> limit" for rs xs
    using that by (induction rs arbitrary: xs) auto
  then show ?thesis using assms Some by (simp add: qmi_fill_def num_flt_rules_def)
qed (simp add: qmi_fill_def)

text \<open>A failed deletion of a route is reported as success.\<close>

theorem failed_route_deletion_unreported:
  assumes "hdl \<noteq> 0" and "fst (dev_malloc dev w)"
  shows "fst (DeleteRoutingHdl dev hdl ip w)"
  using assms by (simp add: DeleteRoutingHdl_def case_prod_beta)

end
