(* ===== verification/Node_List.thy ===== *)
theory Node_List
  imports IPACM_Prelude
begin

text \<open>
  Linked lists whose nodes are found by a key: searching for the first node with a key, changing it in place and
  erasing it, as the loops over \<open>std::list\<close> with a \<open>break\<close> do.
\<close>

definition look :: "('a \<Rightarrow> 'k) \<Rightarrow> 'k \<Rightarrow> 'a list \<Rightarrow> 'a option" where
  "look key k xs = find (\<lambda>x. key x = k) xs"

fun upd_node :: "('a \<Rightarrow> 'k) \<Rightarrow> 'k \<Rightarrow> ('a \<Rightarrow> 'a) \<Rightarrow> 'a list \<Rightarrow> 'a list" where
  "upd_node key k f [] = []"
| "upd_node key k f (x # xs) = (if key x = k then f x # xs else x # upd_node key k f xs)"

fun del_node :: "('a \<Rightarrow> 'k) \<Rightarrow> 'k \<Rightarrow> 'a list \<Rightarrow> 'a list" where
  "del_node key k [] = []"
| "del_node key k (x # xs) = (if key x = k then xs else x # del_node key k xs)"

lemma look_Nil [simp]: "look key k [] = None"
  by (simp add: look_def)

lemma look_Cons [simp]: "look key k (x # xs) = (if key x = k then Some x else look key k xs)"
  by (simp add: look_def)

lemma look_key: "look key k xs = Some x \<Longrightarrow> key x = k"
  by (induction xs) (auto split: if_splits)

lemma look_in: "look key k xs = Some x \<Longrightarrow> x \<in> set xs"
  by (induction xs) (auto split: if_splits)

lemma look_None: "look key k xs = None \<longleftrightarrow> k \<notin> key ` set xs"
  by (induction xs) auto

lemma look_Some_iff: "distinct (map key xs) \<Longrightarrow> look key k xs = Some x \<longleftrightarrow> x \<in> set xs \<and> key x = k"
  by (induction xs) (auto simp: image_iff)

lemma look_member: "distinct (map key xs) \<Longrightarrow> x \<in> set xs \<Longrightarrow> look key (key x) xs = Some x"
  by (simp add: look_Some_iff)

lemma look_upd:
  assumes "\<And>x. key x = k \<Longrightarrow> key (f x) = k"
  shows "look key j (upd_node key k f xs) = (if j = k then map_option f (look key k xs) else look key j xs)"
  using assms by (induction xs) auto

lemma keys_upd [simp]:
  assumes "\<And>x. key x = k \<Longrightarrow> key (f x) = k"
  shows "map key (upd_node key k f xs) = map key xs"
  using assms by (induction xs) auto

lemma map_upd_keep:
  assumes "\<And>x. key x = k \<Longrightarrow> g (f x) = g x"
  shows "map g (upd_node key k f xs) = map g xs"
  using assms by (induction xs) auto

lemma length_upd [simp]: "length (upd_node key k f xs) = length xs"
  by (induction xs) auto

lemma upd_none [simp]: "look key k xs = None \<Longrightarrow> upd_node key k f xs = xs"
  by (induction xs) (auto split: if_splits)

lemma keys_del: "map key (del_node key k xs) = remove1 k (map key xs)"
  by (induction xs) auto

lemma look_del:
  assumes "distinct (map key xs)"
  shows "look key j (del_node key k xs) = (if j = k then None else look key j xs)"
  using assms by (induction xs) (auto simp: look_None)

lemma set_del: "distinct (map key xs) \<Longrightarrow> set (del_node key k xs) = {x \<in> set xs. key x \<noteq> k}"
  by (induction xs) (auto simp: image_iff)

lemma set_del_subset: "set (del_node key k xs) \<subseteq> set xs"
  by (induction xs) auto

end
