(* ===== verification/LanToLan.thy ===== *)
theory LanToLan
  imports IPA_Tables Node_List "HOL-Library.Monad_Syntax"
begin

text \<open>
  \<open>IPACM_LanToLan.cpp\<close>: the bridge between LAN interfaces. Every interface that is up has the list of its clients and one
  record per peer interface; for each client of a peer it holds a filter rule, and for each own client routing rules that are
  shared by the peers with the same header type. The functions \<open>eth_bridge_*\<close> of \<open>IPACM_Lan.cpp\<close>, which install the rules,
  are modelled too. A pointer to an element of \<open>m_iface\<close> is the address of its \<open>IPACM_Lan\<close>, a pointer to a client is its
  MAC address; the searches of \<open>handle_iface_up\<close> and \<open>handle_client_add\<close> keep both unique in their lists. \<open>None\<close> is the use of
  a pointer whose object is gone, or an access outside an array.
\<close>

section \<open>Interfaces as the bridge sees them\<close>

datatype ipa_hdr_l2_type = IPA_HDR_L2_NONE | IPA_HDR_L2_ETHERNET_II | IPA_HDR_L2_802_3 | IPA_HDR_L2_MAX

record ipa_tx_prop =
  tx_ip :: ipa_ip_type
  tx_dst_pipe :: nat
  tx_alt_dst_pipe :: nat
  tx_attrib :: ipa_rule_attrib
  tx_hdr_l2_type :: ipa_hdr_l2_type
  tx_hdr_name :: string

record ipa_rx_prop =
  rx_src_pipe :: nat
  rx_attrib :: ipa_rule_attrib

text \<open>The members of \<open>IPACM_Lan\<close> that do not change once it is constructed; \<open>lan_ptr\<close> is its address.\<close>

record lan =
  lan_ptr :: nat
  is_wlan :: bool
  is_guest_ap :: bool
  tx_prop :: "ipa_tx_prop list option"
  rx_prop :: "ipa_rx_prop option"

definition tx_list :: "lan \<Rightarrow> ipa_tx_prop list" where
  "tx_list l = (case tx_prop l of None \<Rightarrow> [] | Some ts \<Rightarrow> ts)"

text \<open>\<open>tx_prop->tx[0].hdr_l2_type\<close> of an interface with transmit properties.\<close>

definition l2_type :: "lan \<Rightarrow> ipa_hdr_l2_type" where
  "l2_type l = (case tx_list l of [] \<Rightarrow> IPA_HDR_L2_NONE | t # _ \<Rightarrow> tx_hdr_l2_type t)"

text \<open>
  The structures of \<open>IPACM_LanToLan.h\<close>. Arrays indexed by IP type or header type are functions; the header types of the
  interfaces in \<open>m_iface\<close> are in range, \<open>handle_iface_up\<close> checks that.
\<close>

record rt_rule_info =
  num_hdl :: "ipa_ip_type \<Rightarrow> int"
  rule_hdl :: "ipa_ip_type \<Rightarrow> ipa_hdl list"

record client_info =
  c_mac :: mac
  inter_iface_rt_rule_hdl :: "ipa_hdr_l2_type \<Rightarrow> rt_rule_info"
  intra_iface_rt_rule_hdl :: rt_rule_info

record flt_rule_info =
  p_client :: mac
  flt_rule_hdl :: "ipa_ip_type \<Rightarrow> ipa_hdl"

record peer_iface_info =
  peer :: nat
  rt_tbl_name_for_rt :: "ipa_ip_type \<Rightarrow> string"
  rt_tbl_name_for_flt :: "ipa_ip_type \<Rightarrow> string"
  flt_rule :: "flt_rule_info list"

record l2l_iface =
  m_p_iface :: lan
  m_is_ip_addr_assigned :: "ipa_ip_type \<Rightarrow> bool"
  m_support_inter_iface_offload :: bool
  m_support_intra_iface_offload :: bool
  ref_cnt_peer_l2_hdr_type :: "ipa_hdr_l2_type \<Rightarrow> int"
  hdr_proc_ctx_for_inter_interface :: "ipa_hdr_l2_type \<Rightarrow> ipa_hdl"
  hdr_proc_ctx_for_intra_interface :: ipa_hdl
  m_client_info :: "client_info list"
  m_peer_iface_info :: "peer_iface_info list"
  m_intra_interface_info :: peer_iface_info

record ipacm_event_eth_bridge =
  eb_iface :: lan
  eb_iptype :: ipa_ip_type
  eb_mac :: mac

record 'w lan2lan =
  m_iface :: "l2l_iface list"
  m_cached_client_add_event :: "ipacm_event_eth_bridge list"
  l2l_world :: 'w

text \<open>
  What the bridge reads of the rest of the program: the kernel, the place of its filter rules
  (\<open>eth_bridge_flt_rule_offset\<close>), \<open>isMCC_Mode\<close>, constants of the kernel headers, and what uninitialised local
  variables and members hold.
\<close>

record 'w bridge_env =
  dev :: "'w ipa_dev"
  flt_rule_offset :: "nat \<Rightarrow> ipa_ip_type \<Rightarrow> 'w \<Rightarrow> ipa_hdl"
  isMCC_Mode :: "'w \<Rightarrow> bool"
  IPA_FLT_MAC_DST_ADDR_ETHER_II :: u32
  IPA_FLT_MAC_DST_ADDR_802_3 :: u32
  IPA_RESOURCE_NAME_MAX :: nat
  junk_hdl :: "'w \<Rightarrow> ipa_hdl"
  junk_int :: "'w \<Rightarrow> int"
  junk_hdls :: "'w \<Rightarrow> ipa_hdl list"
  junk_client :: "'w \<Rightarrow> client_info"
  junk_peer :: "'w \<Rightarrow> peer_iface_info"

definition MAX_NUM_PROP :: nat where "MAX_NUM_PROP = 2"

definition MAX_NUM_IFACE :: nat where "MAX_NUM_IFACE = 10"

definition MAX_NUM_CLIENT :: nat where "MAX_NUM_CLIENT = 16"

definition MAX_NUM_CACHED_CLIENT_ADD_EVENT :: nat where "MAX_NUM_CACHED_CLIENT_ADD_EVENT = 10"

section \<open>Installing rules\<close>

definition eth_bridge_get_hdr_proc_type :: "ipa_hdr_l2_type \<Rightarrow> ipa_hdr_l2_type \<Rightarrow> ipa_hdr_proc_type" where
  "eth_bridge_get_hdr_proc_type t1 t2 =
     (if t1 = IPA_HDR_L2_ETHERNET_II \<and> t2 = IPA_HDR_L2_ETHERNET_II then IPA_HDR_PROC_ETHII_TO_ETHII
      else if t1 = IPA_HDR_L2_ETHERNET_II \<and> t2 = IPA_HDR_L2_802_3 then IPA_HDR_PROC_ETHII_TO_802_3
      else if t1 = IPA_HDR_L2_802_3 \<and> t2 = IPA_HDR_L2_ETHERNET_II then IPA_HDR_PROC_802_3_TO_ETHII
      else if t1 = IPA_HDR_L2_802_3 \<and> t2 = IPA_HDR_L2_802_3 then IPA_HDR_PROC_802_3_TO_802_3
      else IPA_HDR_PROC_NONE)"

text \<open>\<open>eth_bridge_get_hdr_template_hdl\<close>: the handle, or nothing when it is not found.\<close>

definition eth_bridge_get_hdr_template_hdl :: "'w bridge_env \<Rightarrow> lan \<Rightarrow> 'w \<Rightarrow> ipa_hdl option \<times> 'w" where
  "eth_bridge_get_hdr_template_hdl env l w =
     (let (ok, hdl, w) = GetHeaderHandle (dev env) (case tx_list l of [] \<Rightarrow> [] | t # _ \<Rightarrow> tx_hdr_name t) w
      in (if ok then Some hdl else None, w))"

text \<open>The functions that install something give \<open>None\<close> when they leave their output parameters untouched.\<close>

definition eth_bridge_add_hdr_proc_ctx :: "'w bridge_env \<Rightarrow> lan \<Rightarrow> ipa_hdr_l2_type \<Rightarrow> 'w \<Rightarrow> ipa_hdl option \<times> 'w" where
  "eth_bridge_add_hdr_proc_ctx env l peer_l2 w =
     (if tx_prop l = None then (None, w)
      else
        let (ok, w) = dev_malloc (dev env) w in
        if \<not> ok then (None, w)
        else
          let (tmpl, w) = eth_bridge_get_hdr_template_hdl env l w;
              hdr_template = (case tmpl of Some hdl \<Rightarrow> hdl | None \<Rightarrow> junk_hdl env w);
              (added, hdl, w) = AddHeaderProcCtx (dev env) (eth_bridge_get_hdr_proc_type peer_l2 (l2_type l)) hdr_template w
          in (if added then Some hdl else None, w))"

text \<open>The constructor of \<open>IPACM_Lan\<close> counts the transmit properties of each IP type.\<close>

definition each_client_rt_rule_count :: "lan \<Rightarrow> ipa_ip_type \<Rightarrow> nat" where
  "each_client_rt_rule_count l ip = length (filter (\<lambda>t. tx_ip t = ip) (tx_list l))"

definition client_attrib :: "'w bridge_env \<Rightarrow> bool \<Rightarrow> mac \<Rightarrow> ipa_rule_attrib \<Rightarrow> ipa_rule_attrib" where
  "client_attrib env ether_ii m a =
     a\<lparr>attrib_mask := attrib_mask a OR (if ether_ii then IPA_FLT_MAC_DST_ADDR_ETHER_II env else IPA_FLT_MAC_DST_ADDR_802_3 env),
       dst_mac_addr := m, dst_mac_addr_mask := replicate 6 0xFF\<rparr>"

definition client_rt_rules :: "'w bridge_env \<Rightarrow> lan \<Rightarrow> mac \<Rightarrow> ipa_hdl \<Rightarrow> ipa_hdr_l2_type \<Rightarrow> ipa_ip_type \<Rightarrow> 'w \<Rightarrow> ipa_rt_rule list" where
  "client_rt_rules env l m ctx peer_l2 ip w =
     map (\<lambda>t. \<lparr>rt_dst = (if is_wlan l \<and> isMCC_Mode env w then tx_alt_dst_pipe t else tx_dst_pipe t), rt_hdr_hdl = 0,
            rt_hdr_proc_ctx_hdl = ctx, rt_attrib = client_attrib env (peer_l2 = IPA_HDR_L2_ETHERNET_II) m (tx_attrib t), rt_hashable = True\<rparr>)
       (filter (\<lambda>t. tx_ip t = ip) (tx_list l))"

definition eth_bridge_add_rt_rule ::
  "'w bridge_env \<Rightarrow> lan \<Rightarrow> mac \<Rightarrow> string \<Rightarrow> ipa_hdl \<Rightarrow> ipa_hdr_l2_type \<Rightarrow> ipa_ip_type \<Rightarrow> 'w \<Rightarrow> ipa_hdl list option \<times> 'w" where
  "eth_bridge_add_rt_rule env l m tbl ctx peer_l2 ip w =
     (let num_rt_rule = each_client_rt_rule_count l ip; (ok, w) = dev_malloc (dev env) w in
      if \<not> ok then (None, w)
      else
        let rs = client_rt_rules env l m ctx peer_l2 ip w in
        if length rs > num_rt_rule \<or> length rs > MAX_NUM_PROP then (None, w)
        else
          let (added, hdls, w) = AddRoutingRule (dev env) \<lparr>art_commit = True, art_ip = ip, art_tbl_name = tbl, art_rules = rs\<rparr> w
          in (if added then Some (take (length rs) hdls) else None, w))"

text \<open>Only the rules of WLAN interfaces are modified.\<close>

definition eth_bridge_modify_rt_rule ::
  "'w bridge_env \<Rightarrow> lan \<Rightarrow> mac \<Rightarrow> ipa_hdl \<Rightarrow> ipa_hdr_l2_type \<Rightarrow> ipa_ip_type \<Rightarrow> ipa_hdl list \<Rightarrow> int \<Rightarrow> 'w \<Rightarrow> 'w" where
  "eth_bridge_modify_rt_rule env l m ctx peer_l2 ip hdls rt_rule_count w =
     (if tx_prop l = None \<or> \<not> is_wlan l then w
      else
        let (ok, w) = dev_malloc (dev env) w in
        if \<not> ok then w
        else
          let rs = client_rt_rules env l m ctx peer_l2 ip w in
          if int (length rs) > rt_rule_count \<or> length rs > MAX_NUM_PROP then w
          else
            let (modified, w) = ModifyRoutingRule (dev env) \<lparr>mrt_ip = ip, mrt_rules = zip hdls rs\<rparr> w in
            if \<not> modified then w else snd (Routing_Commit (dev env) ip w))"

definition eth_bridge_add_flt_rule :: "'w bridge_env \<Rightarrow> lan \<Rightarrow> mac \<Rightarrow> ipa_hdl \<Rightarrow> ipa_ip_type \<Rightarrow> 'w \<Rightarrow> ipa_hdl option \<times> 'w" where
  "eth_bridge_add_flt_rule env l m rt_tbl_hdl ip w =
     (case rx_prop l of
        None \<Rightarrow> (None, w)
      | Some rx \<Rightarrow>
          if tx_prop l = None then (None, w)
          else
            let (ok, w) = dev_malloc (dev env) w in
            if \<not> ok then (None, w)
            else
              let r = \<lparr>fl_action = IPA_PASS_TO_ROUTING, fl_rt_tbl_hdl = rt_tbl_hdl, fl_rt_tbl_idx = 0,
                    fl_attrib = client_attrib env (l2_type l = IPA_HDR_L2_ETHERNET_II) m (rx_attrib rx), fl_eq_attrib = 0,
                    fl_rule_id = 0, fl_hashable = True\<rparr>;
                  (added, hdls, w) = AddFilteringRuleAfter (dev env)
                    \<lparr>afa_ep = rx_src_pipe rx, afa_ip = ip, afa_after_hdl = flt_rule_offset env (lan_ptr l) ip w, afa_rules = [r]\<rparr> w
              in (if added then Some (case hdls of [] \<Rightarrow> 0 | hdl # _ \<Rightarrow> hdl) else None, w))"

definition eth_bridge_del_flt_rule :: "'w bridge_env \<Rightarrow> ipa_hdl \<Rightarrow> ipa_ip_type \<Rightarrow> 'w \<Rightarrow> 'w" where
  "eth_bridge_del_flt_rule env hdl ip w = snd (DeleteFilteringHdls (dev env) [hdl] ip w)"

definition eth_bridge_del_rt_rule :: "'w bridge_env \<Rightarrow> ipa_hdl \<Rightarrow> ipa_ip_type \<Rightarrow> 'w \<Rightarrow> 'w" where
  "eth_bridge_del_rt_rule env hdl ip w = snd (DeleteRoutingHdl (dev env) hdl ip w)"

definition eth_bridge_del_hdr_proc_ctx :: "'w bridge_env \<Rightarrow> ipa_hdl \<Rightarrow> 'w \<Rightarrow> 'w" where
  "eth_bridge_del_hdr_proc_ctx env hdl w = snd (DeleteHeaderProcCtx (dev env) hdl w)"

section \<open>Objects\<close>

definition l2l_ptr :: "l2l_iface \<Rightarrow> nat" where "l2l_ptr x = lan_ptr (m_p_iface x)"

text \<open>The object behind a pointer to an element of \<open>m_iface\<close>, and a change of its members.\<close>

definition find_if :: "'w lan2lan \<Rightarrow> nat \<Rightarrow> l2l_iface option" where
  "find_if s p = look l2l_ptr p (m_iface s)"

definition upd_if :: "nat \<Rightarrow> (l2l_iface \<Rightarrow> l2l_iface) \<Rightarrow> 'w lan2lan \<Rightarrow> 'w lan2lan" where
  "upd_if p f s = s\<lparr>m_iface := upd_node l2l_ptr p f (m_iface s)\<rparr>"

text \<open>
  The information an interface keeps on a peer. The name of the record in \<open>m_peer_iface_info\<close> is its \<open>peer\<close>; the
  interface's own address names \<open>m_intra_interface_info\<close>.
\<close>

definition peer_at :: "l2l_iface \<Rightarrow> nat \<Rightarrow> peer_iface_info option" where
  "peer_at x p = (if p = l2l_ptr x then Some (m_intra_interface_info x) else look peer p (m_peer_iface_info x))"

definition upd_peer :: "nat \<Rightarrow> (peer_iface_info \<Rightarrow> peer_iface_info) \<Rightarrow> l2l_iface \<Rightarrow> l2l_iface" where
  "upd_peer p f x =
     (if p = l2l_ptr x then x\<lparr>m_intra_interface_info := f (m_intra_interface_info x)\<rparr>
      else x\<lparr>m_peer_iface_info := upd_node peer p f (m_peer_iface_info x)\<rparr>)"

definition l2l_client :: "l2l_iface \<Rightarrow> mac \<Rightarrow> client_info option" where
  "l2l_client x m = look c_mac m (m_client_info x)"

definition upd_client :: "mac \<Rightarrow> (client_info \<Rightarrow> client_info) \<Rightarrow> l2l_iface \<Rightarrow> l2l_iface" where
  "upd_client m f x = x\<lparr>m_client_info := upd_node c_mac m f (m_client_info x)\<rparr>"

text \<open>Loops over a list with a body that may fail.\<close>

fun each :: "('a \<Rightarrow> 's \<Rightarrow> 's option) \<Rightarrow> 'a list \<Rightarrow> 's \<Rightarrow> 's option" where
  "each f [] s = Some s"
| "each f (x # xs) s = (case f x s of None \<Rightarrow> None | Some t \<Rightarrow> each f xs t)"

text \<open>The constructor of \<open>IPACM_LanToLan_Iface\<close>; \<open>m_intra_interface_info\<close> is not initialised.\<close>

definition new_l2l_iface :: "'w bridge_env \<Rightarrow> lan \<Rightarrow> 'w \<Rightarrow> l2l_iface" where
  "new_l2l_iface env l w =
     \<lparr>m_p_iface = l, m_is_ip_addr_assigned = (\<lambda>_. False),
      m_support_inter_iface_offload = (if is_wlan l \<and> is_guest_ap l then False else True),
      m_support_intra_iface_offload = is_wlan l, ref_cnt_peer_l2_hdr_type = (\<lambda>_. 0),
      hdr_proc_ctx_for_inter_interface = (\<lambda>_. 0), hdr_proc_ctx_for_intra_interface = 0,
      m_client_info = [], m_peer_iface_info = [], m_intra_interface_info = (junk_peer env w)\<lparr>flt_rule := []\<rparr>\<rparr>"

definition ipa_l2_hdr_type :: "ipa_hdr_l2_type \<Rightarrow> string" where
  "ipa_l2_hdr_type t =
     (case t of IPA_HDR_L2_NONE \<Rightarrow> ''NONE'' | IPA_HDR_L2_ETHERNET_II \<Rightarrow> ''ETH_II''
      | IPA_HDR_L2_802_3 \<Rightarrow> ''802_3'' | IPA_HDR_L2_MAX \<Rightarrow> ''L2_MAX'')"

text \<open>The routing table of the packets from one header type to another, as \<open>snprintf\<close> prints it.\<close>

definition rt_tbl_name :: "'w bridge_env \<Rightarrow> ipa_hdr_l2_type \<Rightarrow> ipa_hdr_l2_type \<Rightarrow> ipa_ip_type \<Rightarrow> string" where
  "rt_tbl_name env from to ip =
     take (IPA_RESOURCE_NAME_MAX env - 1)
       ((case ip of IPA_IP_v4 \<Rightarrow> ''eth_v4_'' | IPA_IP_v6 \<Rightarrow> ''eth_v6_'') @ ipa_l2_hdr_type from @ ''_to_'' @ ipa_l2_hdr_type to)"

definition intra_tbl_name :: "'w bridge_env \<Rightarrow> ipa_ip_type \<Rightarrow> string" where
  "intra_tbl_name env ip =
     take (IPA_RESOURCE_NAME_MAX env - 1) (case ip of IPA_IP_v4 \<Rightarrow> ''eth_v4_intra_interface'' | IPA_IP_v6 \<Rightarrow> ''eth_v6_intra_interface'')"

section \<open>Routing rules of a client\<close>

text \<open>
  One call of \<open>eth_bridge_add_rt_rule\<close> in \<open>add_client_rt_rule\<close> and the copy of its results. The local variables
  \<open>num_rt_rule\<close> and \<open>rt_rule_hdl\<close> keep their values when the call fails.
\<close>

definition add_rt_for_ip ::
  "'w bridge_env \<Rightarrow> lan \<Rightarrow> mac \<Rightarrow> (ipa_ip_type \<Rightarrow> string) \<Rightarrow> ipa_hdl \<Rightarrow> ipa_hdr_l2_type \<Rightarrow> ipa_ip_type \<Rightarrow>
     (int \<times> ipa_hdl list) \<times> rt_rule_info \<times> 'w \<Rightarrow> ((int \<times> ipa_hdl list) \<times> rt_rule_info \<times> 'w) option" where
  "add_rt_for_ip env l m tbl ctx peer_l2 ip = (\<lambda>((num_rt_rule, rt_rule_hdl), r, w).
     (let (res, w) = eth_bridge_add_rt_rule env l m (tbl ip) ctx peer_l2 ip w;
          (num_rt_rule, rt_rule_hdl) =
            (case res of None \<Rightarrow> (num_rt_rule, rt_rule_hdl)
             | Some hdls \<Rightarrow> (int (length hdls), hdls @ drop (length hdls) rt_rule_hdl))
      in
      if num_rt_rule > int MAX_NUM_PROP then None
      else Some ((num_rt_rule, rt_rule_hdl),
        r\<lparr>num_hdl := (num_hdl r)(ip := num_rt_rule),
          rule_hdl := (rule_hdl r)(ip := take (nat num_rt_rule) rt_rule_hdl @ drop (nat num_rt_rule) (rule_hdl r ip))\<rparr>, w)))"

definition add_rt_both ::
  "'w bridge_env \<Rightarrow> lan \<Rightarrow> mac \<Rightarrow> (ipa_ip_type \<Rightarrow> string) \<Rightarrow> ipa_hdl \<Rightarrow> ipa_hdr_l2_type \<Rightarrow> rt_rule_info \<Rightarrow> 'w \<Rightarrow> (rt_rule_info \<times> 'w) option" where
  "add_rt_both env l m tbl ctx peer_l2 r w =
     do {
       (locals, r, w) \<leftarrow> add_rt_for_ip env l m tbl ctx peer_l2 IPA_IP_v4 ((junk_int env w, junk_hdls env w), r, w);
       (locals, r, w) \<leftarrow> add_rt_for_ip env l m tbl ctx peer_l2 IPA_IP_v6 (locals, r, w);
       Some (r, w)
     }"

definition add_client_rt_rule :: "'w bridge_env \<Rightarrow> nat \<Rightarrow> nat \<Rightarrow> mac \<Rightarrow> 'w lan2lan \<Rightarrow> 'w lan2lan option" where
  "add_client_rt_rule env this p m s =
     do {
       x \<leftarrow> find_if s this;
       peer_info \<leftarrow> peer_at x p;
       client \<leftarrow> l2l_client x m;
       y \<leftarrow> find_if s (peer peer_info);
       let peer_l2_hdr_type = l2_type (m_p_iface y);
       if peer peer_info \<noteq> this then do {
         (r, w) \<leftarrow> add_rt_both env (m_p_iface x) m (rt_tbl_name_for_rt peer_info) (hdr_proc_ctx_for_inter_interface x peer_l2_hdr_type)
           peer_l2_hdr_type (inter_iface_rt_rule_hdl client peer_l2_hdr_type) (l2l_world s);
         Some (upd_if this (upd_client m (\<lambda>c. c\<lparr>inter_iface_rt_rule_hdl := (inter_iface_rt_rule_hdl c)(peer_l2_hdr_type := r)\<rparr>))
           (s\<lparr>l2l_world := w\<rparr>))
       } else do {
         (r, w) \<leftarrow> add_rt_both env (m_p_iface x) m (rt_tbl_name_for_rt peer_info) (hdr_proc_ctx_for_intra_interface x)
           peer_l2_hdr_type (intra_iface_rt_rule_hdl client) (l2l_world s);
         Some (upd_if this (upd_client m (\<lambda>c. c\<lparr>intra_iface_rt_rule_hdl := r\<rparr>)) (s\<lparr>l2l_world := w\<rparr>))
       }
     }"

definition add_client_rt_rule_for_new_iface :: "'w bridge_env \<Rightarrow> nat \<Rightarrow> 'w lan2lan \<Rightarrow> 'w lan2lan option" where
  "add_client_rt_rule_for_new_iface env this s =
     do {
       x \<leftarrow> find_if s this;
       front \<leftarrow> (case m_peer_iface_info x of [] \<Rightarrow> None | q # _ \<Rightarrow> Some q);
       y \<leftarrow> find_if s (peer front);
       if ref_cnt_peer_l2_hdr_type x (l2_type (m_p_iface y)) = 1
       then each (\<lambda>c. add_client_rt_rule env this (peer front) (c_mac c)) (m_client_info x) s
       else Some s
     }"

text \<open>The handles of one IP type are deleted and their number set to 0.\<close>

definition del_rt_for_ip :: "'w bridge_env \<Rightarrow> ipa_ip_type \<Rightarrow> rt_rule_info \<times> 'w \<Rightarrow> (rt_rule_info \<times> 'w) option" where
  "del_rt_for_ip env ip = (\<lambda>(r, w).
     (if nat (num_hdl r ip) > length (rule_hdl r ip) then None
      else Some (r\<lparr>num_hdl := (num_hdl r)(ip := 0)\<rparr>,
        fold (\<lambda>hdl. eth_bridge_del_rt_rule env hdl ip) (take (nat (num_hdl r ip)) (rule_hdl r ip)) w)))"

definition del_rt_both :: "'w bridge_env \<Rightarrow> rt_rule_info \<Rightarrow> 'w \<Rightarrow> (rt_rule_info \<times> 'w) option" where
  "del_rt_both env r w = do { rw \<leftarrow> del_rt_for_ip env IPA_IP_v4 (r, w); del_rt_for_ip env IPA_IP_v6 rw }"

definition del_client_rt_rule :: "'w bridge_env \<Rightarrow> nat \<Rightarrow> nat \<Rightarrow> mac \<Rightarrow> 'w lan2lan \<Rightarrow> 'w lan2lan option" where
  "del_client_rt_rule env this p m s =
     do {
       x \<leftarrow> find_if s this;
       peer_info \<leftarrow> peer_at x p;
       client \<leftarrow> l2l_client x m;
       y \<leftarrow> find_if s (peer peer_info);
       let peer_l2_hdr_type = l2_type (m_p_iface y);
       if peer peer_info \<noteq> this then do {
         (r, w) \<leftarrow> del_rt_both env (inter_iface_rt_rule_hdl client peer_l2_hdr_type) (l2l_world s);
         Some (upd_if this (upd_client m (\<lambda>c. c\<lparr>inter_iface_rt_rule_hdl := (inter_iface_rt_rule_hdl c)(peer_l2_hdr_type := r)\<rparr>))
           (s\<lparr>l2l_world := w\<rparr>))
       } else do {
         (r, w) \<leftarrow> del_rt_both env (intra_iface_rt_rule_hdl client) (l2l_world s);
         Some (upd_if this (upd_client m (\<lambda>c. c\<lparr>intra_iface_rt_rule_hdl := r\<rparr>)) (s\<lparr>l2l_world := w\<rparr>))
       }
     }"

section \<open>Filter rules of a client\<close>

definition record_flt :: "mac \<Rightarrow> ipa_ip_type \<Rightarrow> ipa_hdl \<Rightarrow> peer_iface_info \<Rightarrow> peer_iface_info" where
  "record_flt m ip hdl q =
     q\<lparr>flt_rule :=
       (case look p_client m (flt_rule q) of
          None \<Rightarrow> \<lparr>p_client = m, flt_rule_hdl = (\<lambda>_. 0)(ip := hdl)\<rparr> # flt_rule q
        | Some _ \<Rightarrow> upd_node p_client m (\<lambda>e. e\<lparr>flt_rule_hdl := (flt_rule_hdl e)(ip := hdl)\<rparr>) (flt_rule q))\<rparr>"

definition add_client_flt_rule :: "'w bridge_env \<Rightarrow> nat \<Rightarrow> nat \<Rightarrow> mac \<Rightarrow> ipa_ip_type \<Rightarrow> 'w lan2lan \<Rightarrow> 'w lan2lan option" where
  "add_client_flt_rule env this p m ip s =
     do {
       x \<leftarrow> find_if s this;
       q \<leftarrow> peer_at x p;
       let (ok, rt_tbl_hdl, w) = GetRoutingTable (dev env) ip (rt_tbl_name_for_flt q ip) (l2l_world s);
       if \<not> ok then Some (s\<lparr>l2l_world := w\<rparr>)
       else
         let (res, w) = eth_bridge_add_flt_rule env (m_p_iface x) m rt_tbl_hdl ip w;
             hdl = (case res of Some h \<Rightarrow> h | None \<Rightarrow> junk_hdl env w)
         in Some (upd_if this (upd_peer p (record_flt m ip hdl)) (s\<lparr>l2l_world := w\<rparr>))
     }"

definition add_all_inter_interface_client_flt_rule :: "'w bridge_env \<Rightarrow> nat \<Rightarrow> ipa_ip_type \<Rightarrow> 'w lan2lan \<Rightarrow> 'w lan2lan option" where
  "add_all_inter_interface_client_flt_rule env this ip s =
     do {
       x \<leftarrow> find_if s this;
       each (\<lambda>q s. do {
           y \<leftarrow> find_if s (peer q);
           each (\<lambda>c. add_client_flt_rule env this (peer q) (c_mac c) ip) (m_client_info y) s
         }) (m_peer_iface_info x) s
     }"

definition add_all_intra_interface_client_flt_rule :: "'w bridge_env \<Rightarrow> nat \<Rightarrow> ipa_ip_type \<Rightarrow> 'w lan2lan \<Rightarrow> 'w lan2lan option" where
  "add_all_intra_interface_client_flt_rule env this ip s =
     do { x \<leftarrow> find_if s this; each (\<lambda>c. add_client_flt_rule env this this (c_mac c) ip) (m_client_info x) s }"

text \<open>The rules for both IP types that have an address.\<close>

definition add_assigned_flt_rules :: "'w bridge_env \<Rightarrow> nat \<Rightarrow> nat \<Rightarrow> mac \<Rightarrow> 'w lan2lan \<Rightarrow> 'w lan2lan option" where
  "add_assigned_flt_rules env this p m s =
     do {
       x \<leftarrow> find_if s this;
       s \<leftarrow> (if m_is_ip_addr_assigned x IPA_IP_v4 then add_client_flt_rule env this p m IPA_IP_v4 s else Some s);
       if m_is_ip_addr_assigned x IPA_IP_v6 then add_client_flt_rule env this p m IPA_IP_v6 s else Some s
     }"

definition add_one_client_flt_rule :: "'w bridge_env \<Rightarrow> nat \<Rightarrow> nat \<Rightarrow> mac \<Rightarrow> 'w lan2lan \<Rightarrow> 'w lan2lan option" where
  "add_one_client_flt_rule env this peer_iface m s =
     do {
       x \<leftarrow> find_if s this;
       case look peer peer_iface (m_peer_iface_info x) of
         None \<Rightarrow> Some s
       | Some q \<Rightarrow> add_assigned_flt_rules env this peer_iface m s
     }"

definition del_assigned :: "'w bridge_env \<Rightarrow> l2l_iface \<Rightarrow> flt_rule_info \<Rightarrow> 'w \<Rightarrow> 'w" where
  "del_assigned env x e w =
     (let w = (if m_is_ip_addr_assigned x IPA_IP_v4 then eth_bridge_del_flt_rule env (flt_rule_hdl e IPA_IP_v4) IPA_IP_v4 w else w)
      in if m_is_ip_addr_assigned x IPA_IP_v6 then eth_bridge_del_flt_rule env (flt_rule_hdl e IPA_IP_v6) IPA_IP_v6 w else w)"

definition del_client_flt_rule :: "'w bridge_env \<Rightarrow> nat \<Rightarrow> nat \<Rightarrow> mac \<Rightarrow> 'w lan2lan \<Rightarrow> 'w lan2lan option" where
  "del_client_flt_rule env this p m s =
     do {
       x \<leftarrow> find_if s this;
       q \<leftarrow> peer_at x p;
       case look p_client m (flt_rule q) of
         None \<Rightarrow> Some s
       | Some e \<Rightarrow> Some (upd_if this (upd_peer p (\<lambda>q. q\<lparr>flt_rule := del_node p_client m (flt_rule q)\<rparr>))
           (s\<lparr>l2l_world := del_assigned env x e (l2l_world s)\<rparr>))
     }"

definition del_one_client_flt_rule :: "'w bridge_env \<Rightarrow> nat \<Rightarrow> nat \<Rightarrow> mac \<Rightarrow> 'w lan2lan \<Rightarrow> 'w lan2lan option" where
  "del_one_client_flt_rule env this peer_iface m s =
     do {
       x \<leftarrow> find_if s this;
       case look peer peer_iface (m_peer_iface_info x) of
         None \<Rightarrow> Some s
       | Some q \<Rightarrow> del_client_flt_rule env this peer_iface m s
     }"

definition clear_all_flt_rule_for_one_peer_iface :: "'w bridge_env \<Rightarrow> nat \<Rightarrow> nat \<Rightarrow> 'w lan2lan \<Rightarrow> 'w lan2lan option" where
  "clear_all_flt_rule_for_one_peer_iface env this p s =
     do {
       x \<leftarrow> find_if s this;
       q \<leftarrow> peer_at x p;
       Some (upd_if this (upd_peer p (\<lambda>q. q\<lparr>flt_rule := []\<rparr>))
         (s\<lparr>l2l_world := fold (del_assigned env x) (flt_rule q) (l2l_world s)\<rparr>))
     }"

definition clear_all_rt_rule_for_one_peer_iface :: "'w bridge_env \<Rightarrow> nat \<Rightarrow> nat \<Rightarrow> 'w lan2lan \<Rightarrow> 'w lan2lan option" where
  "clear_all_rt_rule_for_one_peer_iface env this p s =
     do {
       x \<leftarrow> find_if s this;
       q \<leftarrow> peer_at x p;
       y \<leftarrow> find_if s (peer q);
       if ref_cnt_peer_l2_hdr_type x (l2_type (m_p_iface y)) = 0
       then each (\<lambda>c. del_client_rt_rule env this p (c_mac c)) (m_client_info x) s
       else Some s
     }"

section \<open>Peers\<close>

definition increment_ref_cnt_peer_l2_hdr_type :: "ipa_hdr_l2_type \<Rightarrow> l2l_iface \<Rightarrow> l2l_iface" where
  "increment_ref_cnt_peer_l2_hdr_type t x =
     x\<lparr>ref_cnt_peer_l2_hdr_type := (ref_cnt_peer_l2_hdr_type x)(t := ref_cnt_peer_l2_hdr_type x t + 1)\<rparr>"

definition decrement_ref_cnt_peer_l2_hdr_type :: "ipa_hdr_l2_type \<Rightarrow> l2l_iface \<Rightarrow> l2l_iface" where
  "decrement_ref_cnt_peer_l2_hdr_type t x =
     x\<lparr>ref_cnt_peer_l2_hdr_type := (ref_cnt_peer_l2_hdr_type x)(t := ref_cnt_peer_l2_hdr_type x t - 1)\<rparr>"

definition add_hdr_proc_ctx :: "'w bridge_env \<Rightarrow> nat \<Rightarrow> ipa_hdr_l2_type \<Rightarrow> 'w lan2lan \<Rightarrow> 'w lan2lan option" where
  "add_hdr_proc_ctx env this t s =
     do {
       x \<leftarrow> find_if s this;
       if ref_cnt_peer_l2_hdr_type x t = 1 then
         let (res, w) = eth_bridge_add_hdr_proc_ctx env (m_p_iface x) t (l2l_world s);
             hdl = (case res of Some h \<Rightarrow> h | None \<Rightarrow> junk_hdl env w)
         in Some (upd_if this (\<lambda>x. x\<lparr>hdr_proc_ctx_for_inter_interface := (hdr_proc_ctx_for_inter_interface x)(t := hdl)\<rparr>)
              (s\<lparr>l2l_world := w\<rparr>))
       else Some s
     }"

definition del_hdr_proc_ctx :: "'w bridge_env \<Rightarrow> nat \<Rightarrow> ipa_hdr_l2_type \<Rightarrow> 'w lan2lan \<Rightarrow> 'w lan2lan option" where
  "del_hdr_proc_ctx env this t s =
     do {
       x \<leftarrow> find_if s this;
       if ref_cnt_peer_l2_hdr_type x t = 0
       then Some (s\<lparr>l2l_world := eth_bridge_del_hdr_proc_ctx env (hdr_proc_ctx_for_inter_interface x t) (l2l_world s)\<rparr>)
       else Some s
     }"

text \<open>\<open>IPACM_LanToLan_Iface::handle_new_iface_up\<close>.\<close>

definition iface_handle_new_iface_up ::
  "'w bridge_env \<Rightarrow> nat \<Rightarrow> (ipa_ip_type \<Rightarrow> string) \<Rightarrow> (ipa_ip_type \<Rightarrow> string) \<Rightarrow> nat \<Rightarrow> 'w lan2lan \<Rightarrow> 'w lan2lan option" where
  "iface_handle_new_iface_up env this for_flt for_rt peer_iface s =
     do {
       y \<leftarrow> find_if s peer_iface;
       let t = l2_type (m_p_iface y);
       s \<leftarrow> add_hdr_proc_ctx env this t (upd_if this (increment_ref_cnt_peer_l2_hdr_type t) s);
       Some (upd_if this (\<lambda>x. x\<lparr>m_peer_iface_info :=
         \<lparr>peer = peer_iface, rt_tbl_name_for_rt = for_rt, rt_tbl_name_for_flt = for_flt, flt_rule = []\<rparr> # m_peer_iface_info x\<rparr>) s)
     }"

text \<open>\<open>IPACM_LanToLan::handle_new_iface_up\<close>.\<close>

definition handle_new_iface_up :: "'w bridge_env \<Rightarrow> nat \<Rightarrow> nat \<Rightarrow> 'w lan2lan \<Rightarrow> 'w lan2lan option" where
  "handle_new_iface_up env new_iface exist_iface s =
     do {
       n \<leftarrow> find_if s new_iface;
       e \<leftarrow> find_if s exist_iface;
       let for_flt = rt_tbl_name env (l2_type (m_p_iface e)) (l2_type (m_p_iface n));
       let for_rt = rt_tbl_name env (l2_type (m_p_iface n)) (l2_type (m_p_iface e));
       s \<leftarrow> iface_handle_new_iface_up env exist_iface for_flt for_rt new_iface s;
       iface_handle_new_iface_up env new_iface for_rt for_flt exist_iface s
     }"

definition handle_intra_interface_info :: "'w bridge_env \<Rightarrow> nat \<Rightarrow> 'w lan2lan \<Rightarrow> 'w lan2lan option" where
  "handle_intra_interface_info env this s =
     do {
       x \<leftarrow> find_if s this;
       if tx_prop (m_p_iface x) = None then Some s
       else
         let (res, w) = eth_bridge_add_hdr_proc_ctx env (m_p_iface x) (l2_type (m_p_iface x)) (l2l_world s);
             hdl = (case res of Some h \<Rightarrow> h | None \<Rightarrow> junk_hdl env w)
         in Some (upd_if this (\<lambda>x. x\<lparr>m_intra_interface_info :=
                (m_intra_interface_info x)\<lparr>peer := this, rt_tbl_name_for_flt := intra_tbl_name env, rt_tbl_name_for_rt := intra_tbl_name env\<rparr>,
                hdr_proc_ctx_for_intra_interface := hdl\<rparr>) (s\<lparr>l2l_world := w\<rparr>))
     }"

text \<open>
  One round of the loop of \<open>handle_down_event\<close> over the peers: the counters, the filter rules of both sides, the routing rules
  and processing contexts that no peer needs any more.
\<close>

definition down_one_peer :: "'w bridge_env \<Rightarrow> nat \<Rightarrow> nat \<Rightarrow> 'w lan2lan \<Rightarrow> 'w lan2lan option" where
  "down_one_peer env this p s =
     do {
       x \<leftarrow> find_if s this;
       y \<leftarrow> find_if s p;
       let own = l2_type (m_p_iface x);
       let other = l2_type (m_p_iface y);
       let s = upd_if p (decrement_ref_cnt_peer_l2_hdr_type own) (upd_if this (decrement_ref_cnt_peer_l2_hdr_type other) s);
       s \<leftarrow> clear_all_flt_rule_for_one_peer_iface env this p s;
       y \<leftarrow> find_if s p;
       s \<leftarrow> (case look peer this (m_peer_iface_info y) of
              None \<Rightarrow> Some s
            | Some _ \<Rightarrow> do {
                s \<leftarrow> clear_all_flt_rule_for_one_peer_iface env p this s;
                s \<leftarrow> clear_all_rt_rule_for_one_peer_iface env p this s;
                del_hdr_proc_ctx env p own
                  (upd_if p (\<lambda>y. y\<lparr>m_peer_iface_info := del_node peer this (m_peer_iface_info y)\<rparr>) s)
              });
       s \<leftarrow> clear_all_rt_rule_for_one_peer_iface env this p s;
       del_hdr_proc_ctx env this other s
     }"

definition handle_down_event :: "'w bridge_env \<Rightarrow> nat \<Rightarrow> 'w lan2lan \<Rightarrow> 'w lan2lan option" where
  "handle_down_event env this s =
     do {
       x \<leftarrow> find_if s this;
       s \<leftarrow> (if m_support_inter_iface_offload x then do {
               s \<leftarrow> each (\<lambda>q. down_one_peer env this (peer q)) (m_peer_iface_info x) s;
               Some (upd_if this (\<lambda>x. x\<lparr>m_peer_iface_info := []\<rparr>) s)
             } else Some s);
       s \<leftarrow> (if m_support_intra_iface_offload x then do {
               s \<leftarrow> clear_all_flt_rule_for_one_peer_iface env this this s;
               s \<leftarrow> clear_all_rt_rule_for_one_peer_iface env this this s;
               x \<leftarrow> find_if s this;
               Some (s\<lparr>l2l_world := eth_bridge_del_hdr_proc_ctx env (hdr_proc_ctx_for_intra_interface x) (l2l_world s)\<rparr>)
             } else Some s);
       Some (upd_if this (\<lambda>x. x\<lparr>m_client_info := []\<rparr>) s)
     }"

section \<open>Clients\<close>

text \<open>The loops over the peers carry the set of header types that \<open>flag\<close> marks.\<close>

definition add_client_for_peer ::
  "'w bridge_env \<Rightarrow> nat \<Rightarrow> mac \<Rightarrow> peer_iface_info \<Rightarrow> ipa_hdr_l2_type list \<times> 'w lan2lan \<Rightarrow> (ipa_hdr_l2_type list \<times> 'w lan2lan) option" where
  "add_client_for_peer env this m q = (\<lambda>(flag, s).
     do {
       y \<leftarrow> find_if s (peer q);
       let t = l2_type (m_p_iface y);
       s \<leftarrow> (if t \<notin> set flag then add_client_rt_rule env this (peer q) m s else Some s);
       s \<leftarrow> add_one_client_flt_rule env (peer q) this m s;
       Some (t # flag, s)
     })"

definition iface_handle_client_add :: "'w bridge_env \<Rightarrow> nat \<Rightarrow> mac \<Rightarrow> 'w lan2lan \<Rightarrow> 'w lan2lan option" where
  "iface_handle_client_add env this m s =
     do {
       x \<leftarrow> find_if s this;
       if l2l_client x m \<noteq> None then Some s
       else if length (m_client_info x) = MAX_NUM_CLIENT then Some s
       else do {
         let new_client = (junk_client env (l2l_world s))\<lparr>c_mac := m\<rparr>;
         let s = upd_if this (\<lambda>x. x\<lparr>m_client_info := new_client # m_client_info x\<rparr>) s;
         s \<leftarrow> (if m_support_inter_iface_offload x
               then map_option snd (each (add_client_for_peer env this m) (m_peer_iface_info x) ([], s)) else Some s);
         if m_support_intra_iface_offload x then do {
           s \<leftarrow> add_client_rt_rule env this this m s;
           add_assigned_flt_rules env this this m s
         } else Some s
       }
     }"

definition del_client_for_peer ::
  "'w bridge_env \<Rightarrow> nat \<Rightarrow> mac \<Rightarrow> peer_iface_info \<Rightarrow> ipa_hdr_l2_type list \<times> 'w lan2lan \<Rightarrow> (ipa_hdr_l2_type list \<times> 'w lan2lan) option" where
  "del_client_for_peer env this m q = (\<lambda>(flag, s).
     do {
       s \<leftarrow> del_one_client_flt_rule env (peer q) this m s;
       y \<leftarrow> find_if s (peer q);
       let t = l2_type (m_p_iface y);
       s \<leftarrow> (if t \<notin> set flag then del_client_rt_rule env this (peer q) m s else Some s);
       Some (t # flag, s)
     })"

definition iface_handle_client_del :: "'w bridge_env \<Rightarrow> nat \<Rightarrow> mac \<Rightarrow> 'w lan2lan \<Rightarrow> 'w lan2lan option" where
  "iface_handle_client_del env this m s =
     do {
       x \<leftarrow> find_if s this;
       if l2l_client x m = None then Some s
       else do {
         s \<leftarrow> (if m_support_inter_iface_offload x
               then map_option snd (each (del_client_for_peer env this m) (m_peer_iface_info x) ([], s)) else Some s);
         s \<leftarrow> (if m_support_intra_iface_offload x then do {
                 s \<leftarrow> del_client_flt_rule env this this m s;
                 del_client_rt_rule env this this m s
               } else Some s);
         Some (upd_if this (\<lambda>x. x\<lparr>m_client_info := del_node c_mac m (m_client_info x)\<rparr>) s)
       }
     }"

section \<open>Change of the WLAN mode\<close>

definition modify_both :: "'w bridge_env \<Rightarrow> lan \<Rightarrow> mac \<Rightarrow> ipa_hdl \<Rightarrow> ipa_hdr_l2_type \<Rightarrow> rt_rule_info \<Rightarrow> 'w \<Rightarrow> 'w" where
  "modify_both env l m ctx t r w =
     eth_bridge_modify_rt_rule env l m ctx t IPA_IP_v6 (rule_hdl r IPA_IP_v6) (num_hdl r IPA_IP_v6)
       (eth_bridge_modify_rt_rule env l m ctx t IPA_IP_v4 (rule_hdl r IPA_IP_v4) (num_hdl r IPA_IP_v4) w)"

definition modify_for_peer ::
  "'w bridge_env \<Rightarrow> l2l_iface \<Rightarrow> peer_iface_info \<Rightarrow> ipa_hdr_l2_type list \<times> 'w lan2lan \<Rightarrow> (ipa_hdr_l2_type list \<times> 'w lan2lan) option" where
  "modify_for_peer env x q = (\<lambda>(flag, s).
     do {
       y \<leftarrow> find_if s (peer q);
       let t = l2_type (m_p_iface y);
       Some (if t \<in> set flag then (flag, s)
         else (t # flag, s\<lparr>l2l_world := fold (\<lambda>c. modify_both env (m_p_iface x) (c_mac c) (hdr_proc_ctx_for_inter_interface x t) t
                (inter_iface_rt_rule_hdl c t)) (m_client_info x) (l2l_world s)\<rparr>))
     })"

text \<open>\<open>IPACM_LanToLan_Iface::handle_wlan_scc_mcc_switch\<close>.\<close>

definition iface_handle_wlan_scc_mcc_switch :: "'w bridge_env \<Rightarrow> nat \<Rightarrow> 'w lan2lan \<Rightarrow> 'w lan2lan option" where
  "iface_handle_wlan_scc_mcc_switch env this s =
     do {
       x \<leftarrow> find_if s this;
       s \<leftarrow> (if m_support_inter_iface_offload x
             then map_option snd (each (modify_for_peer env x) (m_peer_iface_info x) ([], s)) else Some s);
       Some (if m_support_intra_iface_offload x
         then s\<lparr>l2l_world := fold (\<lambda>c. modify_both env (m_p_iface x) (c_mac c) (hdr_proc_ctx_for_intra_interface x) (l2_type (m_p_iface x))
                (intra_iface_rt_rule_hdl c)) (m_client_info x) (l2l_world s)\<rparr>
         else s)
     }"

section \<open>Events\<close>

definition handle_client_add :: "'w bridge_env \<Rightarrow> ipacm_event_eth_bridge \<Rightarrow> 'w lan2lan \<Rightarrow> 'w lan2lan option" where
  "handle_client_add env data s =
     (case find_if s (lan_ptr (eb_iface data)) of
        Some _ \<Rightarrow> iface_handle_client_add env (lan_ptr (eb_iface data)) (eb_mac data) s
      | None \<Rightarrow>
          Some (if length (m_cached_client_add_event s) < MAX_NUM_CACHED_CLIENT_ADD_EVENT
            then s\<lparr>m_cached_client_add_event := data # m_cached_client_add_event s\<rparr> else s))"

definition handle_client_del :: "'w bridge_env \<Rightarrow> ipacm_event_eth_bridge \<Rightarrow> 'w lan2lan \<Rightarrow> 'w lan2lan option" where
  "handle_client_del env data s =
     (case find_if s (lan_ptr (eb_iface data)) of
        Some _ \<Rightarrow> iface_handle_client_del env (lan_ptr (eb_iface data)) (eb_mac data) s
      | None \<Rightarrow> Some s)"

definition handle_wlan_scc_mcc_switch :: "'w bridge_env \<Rightarrow> ipacm_event_eth_bridge \<Rightarrow> 'w lan2lan \<Rightarrow> 'w lan2lan option" where
  "handle_wlan_scc_mcc_switch env data s =
     (case find_if s (lan_ptr (eb_iface data)) of
        Some _ \<Rightarrow> iface_handle_wlan_scc_mcc_switch env (lan_ptr (eb_iface data)) s
      | None \<Rightarrow> Some s)"

text \<open>
  \<open>handle_cached_client_add_event\<close>: the events of the interface are handled and erased in the order of the list. The
  handler is given the event while it is still in the list.
\<close>

fun cached_loop :: "'w bridge_env \<Rightarrow> nat \<Rightarrow> ipacm_event_eth_bridge list \<Rightarrow> ipacm_event_eth_bridge list \<Rightarrow> 'w lan2lan \<Rightarrow> 'w lan2lan option" where
  "cached_loop env p kept [] s = Some s"
| "cached_loop env p kept (d # ds) s =
     (if lan_ptr (eb_iface d) = p then do {
        s \<leftarrow> handle_client_add env d s;
        cached_loop env p kept ds (s\<lparr>m_cached_client_add_event := rev kept @ ds\<rparr>)
      } else cached_loop env p (d # kept) ds s)"

definition handle_cached_client_add_event :: "'w bridge_env \<Rightarrow> nat \<Rightarrow> 'w lan2lan \<Rightarrow> 'w lan2lan option" where
  "handle_cached_client_add_event env p s = cached_loop env p [] (m_cached_client_add_event s) s"

definition clear_cached_client_add_event :: "nat \<Rightarrow> 'w lan2lan \<Rightarrow> 'w lan2lan" where
  "clear_cached_client_add_event p s =
     s\<lparr>m_cached_client_add_event := filter (\<lambda>d. lan_ptr (eb_iface d) \<noteq> p) (m_cached_client_add_event s)\<rparr>"

definition set_assigned :: "ipa_ip_type \<Rightarrow> l2l_iface \<Rightarrow> l2l_iface" where
  "set_assigned ip x = x\<lparr>m_is_ip_addr_assigned := (m_is_ip_addr_assigned x)(ip := True)\<rparr>"

text \<open>The interface is known: only an IP type that was not active before is activated.\<close>

definition activate_ip :: "'w bridge_env \<Rightarrow> nat \<Rightarrow> ipa_ip_type \<Rightarrow> 'w lan2lan \<Rightarrow> 'w lan2lan option" where
  "activate_ip env p ip s =
     do {
       x \<leftarrow> find_if s p;
       if m_is_ip_addr_assigned x ip then Some s
       else do {
         let s = upd_if p (set_assigned ip) s;
         s \<leftarrow> (if m_support_inter_iface_offload x then add_all_inter_interface_client_flt_rule env p ip s else Some s);
         if m_support_intra_iface_offload x then add_all_intra_interface_client_flt_rule env p ip s else Some s
       }
     }"

text \<open>The interface is new: it becomes the front of the list and the peer of every other interface that supports it.\<close>

definition insert_iface :: "'w bridge_env \<Rightarrow> lan \<Rightarrow> ipa_ip_type \<Rightarrow> 'w lan2lan \<Rightarrow> 'w lan2lan option" where
  "insert_iface env l ip s =
     do {
       let front = set_assigned ip (new_l2l_iface env l (l2l_world s));
       let others = m_iface s;
       let s = s\<lparr>m_iface := front # others\<rparr>;
       s \<leftarrow> (if m_support_inter_iface_offload front then do {
               s \<leftarrow> each (\<lambda>y s.
                   if m_support_inter_iface_offload y then do {
                     s \<leftarrow> handle_new_iface_up env (lan_ptr l) (l2l_ptr y) s;
                     add_client_rt_rule_for_new_iface env (l2l_ptr y) s
                   } else Some s) others s;
               add_all_inter_interface_client_flt_rule env (lan_ptr l) ip s
             } else Some s);
       s \<leftarrow> (if m_support_intra_iface_offload front then handle_intra_interface_info env (lan_ptr l) s else Some s);
       handle_cached_client_add_event env (lan_ptr l) s
     }"

definition handle_iface_up :: "'w bridge_env \<Rightarrow> ipacm_event_eth_bridge \<Rightarrow> 'w lan2lan \<Rightarrow> 'w lan2lan option" where
  "handle_iface_up env data s =
     (let l = eb_iface data in
      case find_if s (lan_ptr l) of
        Some _ \<Rightarrow> activate_ip env (lan_ptr l) (eb_iptype data) s
      | None \<Rightarrow>
          if length (m_iface s) = MAX_NUM_IFACE then Some s
          else if tx_prop l = None \<or> rx_prop l = None then Some s
          else if tx_list l = [] then None
          else if l2_type l = IPA_HDR_L2_NONE \<or> l2_type l = IPA_HDR_L2_MAX then Some s
          else insert_iface env l (eb_iptype data) s)"

definition handle_iface_down :: "'w bridge_env \<Rightarrow> ipacm_event_eth_bridge \<Rightarrow> 'w lan2lan \<Rightarrow> 'w lan2lan option" where
  "handle_iface_down env data s =
     (let p = lan_ptr (eb_iface data) in
      case find_if s p of
        None \<Rightarrow> Some (clear_cached_client_add_event p s)
      | Some _ \<Rightarrow> do {
          s \<leftarrow> handle_down_event env p s;
          Some (s\<lparr>m_iface := del_node l2l_ptr p (m_iface s)\<rparr>)
        })"

text \<open>\<open>event_callback\<close>, with the argument of the event.\<close>

definition bridge_event :: "'w bridge_env \<Rightarrow> ipa_cm_event_id \<times> ipacm_event_eth_bridge \<Rightarrow> 'w lan2lan \<Rightarrow> 'w lan2lan option" where
  "bridge_event env = (\<lambda>(event, data) s.
     (case event of
        IPA_ETH_BRIDGE_IFACE_UP \<Rightarrow> handle_iface_up env data s
      | IPA_ETH_BRIDGE_IFACE_DOWN \<Rightarrow> handle_iface_down env data s
      | IPA_ETH_BRIDGE_CLIENT_ADD \<Rightarrow> handle_client_add env data s
      | IPA_ETH_BRIDGE_CLIENT_DEL \<Rightarrow> handle_client_del env data s
      | IPA_ETH_BRIDGE_WLAN_SCC_MCC_SWITCH \<Rightarrow> handle_wlan_scc_mcc_switch env data s
      | _ \<Rightarrow> Some s))"

definition bridge_start :: "'w \<Rightarrow> 'w lan2lan" where
  "bridge_start w = \<lparr>m_iface = [], m_cached_client_add_event = [], l2l_world = w\<rparr>"

end
