(* ===== verification/Installed.thy ===== *)
theory Installed
  imports Main
begin

text \<open>
  A program that keeps the keys of what it has put into a table elsewhere: \<open>H\<close> gives the key recorded in a place of the
  program's state, \<open>c\<close> what should stand under it, and \<open>v\<close> is the table. \<open>exact H c v\<close> says that the table holds what the
  records say and nothing else, each key being recorded once.
\<close>

definition exact :: "('q \<rightharpoonup> 'k) \<Rightarrow> ('q \<Rightarrow> 'c) \<Rightarrow> ('k \<rightharpoonup> 'c) \<Rightarrow> bool" where
  "exact H c v \<longleftrightarrow>
     (\<forall>q k. H q = Some k \<longrightarrow> v k = Some (c q)) \<and> (\<forall>k\<in>dom v. \<exists>q. H q = Some k) \<and> inj_on H (dom H)"

lemma exactD: "exact H c v \<Longrightarrow> H q = Some k \<Longrightarrow> v k = Some (c q)"
  by (simp add: exact_def)

lemma exact_the: "exact H c v \<Longrightarrow> q \<in> dom H \<Longrightarrow> v (the (H q)) = Some (c q)"
  by (auto dest: exactD)

lemma exact_inj: "exact H c v \<Longrightarrow> H q = Some k \<Longrightarrow> H q' = Some k \<Longrightarrow> q' = q"
  unfolding exact_def inj_on_def by (metis domI)

lemma exact_dom: "exact H c v \<Longrightarrow> v k \<noteq> None \<longleftrightarrow> (\<exists>q. H q = Some k)"
  by (auto simp: exact_def)

lemma exactI:
  assumes "\<And>q k. H q = Some k \<Longrightarrow> v k = Some (c q)" and "\<And>k. v k \<noteq> None \<Longrightarrow> \<exists>q. H q = Some k"
    and "\<And>q q' k. H q = Some k \<Longrightarrow> H q' = Some k \<Longrightarrow> q' = q"
  shows "exact H c v"
proof -
  have "inj_on H (dom H)" by (rule inj_onI) (use assms(3) in auto)
  then show ?thesis using assms(1,2) by (auto simp: exact_def)
qed

lemma exact_empty: "exact Map.empty c Map.empty"
  by (simp add: exact_def)

lemma exact_cong:
  assumes "exact H c v" and "\<And>q. H q \<noteq> None \<Longrightarrow> c' q = c q"
  shows "exact H c' v"
  using assms by (auto simp: exact_def)

lemma exact_add:
  assumes e: "exact H c v" and q: "H q = None" and k: "v k = None"
  shows "exact (H(q \<mapsto> k)) c (v(k \<mapsto> c q))"
proof (rule exactI)
  have nk: "H r \<noteq> Some k" for r using exactD [OF e, of r k] k by auto
  fix r k' assume r: "(H(q \<mapsto> k)) r = Some k'"
  show "(v(k \<mapsto> c q)) k' = Some (c r)" using r nk exactD [OF e] by (auto split: if_splits)
  fix r' assume "(H(q \<mapsto> k)) r' = Some k'"
  with r show "r' = r" using nk exact_inj [OF e] by (auto split: if_splits)
next
  fix k' assume "(v(k \<mapsto> c q)) k' \<noteq> None"
  then show "\<exists>r. (H(q \<mapsto> k)) r = Some k'"
    using q exact_dom [OF e, of k'] by (cases "k' = k") (auto, metis option.distinct(1))
qed

lemma exact_del:
  assumes e: "exact H c v" and q: "H q = Some k"
  shows "exact (H(q := None)) c (v(k := None))"
proof (rule exactI)
  fix r k' assume r: "(H(q := None)) r = Some k'"
  then have "H r = Some k'" "r \<noteq> q" by (auto split: if_splits)
  moreover from this have "k' \<noteq> k" using exact_inj [OF e q] by auto
  ultimately show "(v(k := None)) k' = Some (c r)" using exactD [OF e] by simp
  fix r' assume "(H(q := None)) r' = Some k'"
  with r show "r' = r" using exact_inj [OF e] by (auto split: if_splits)
next
  fix k' assume "(v(k := None)) k' \<noteq> None"
  then have "k' \<noteq> k" "v k' \<noteq> None" by (auto split: if_splits)
  then obtain r where "H r = Some k'" using exact_dom [OF e] by auto
  then show "\<exists>r. (H(q := None)) r = Some k'" using q \<open>k' \<noteq> k\<close> by (intro exI [of _ r]) auto
qed

text \<open>Several entries put into the table at once.\<close>

lemma exact_add_list:
  assumes "exact H c v" and "length ks = length qs" and "distinct ks" and "distinct qs"
    and "\<And>q. q \<in> set qs \<Longrightarrow> H q = None" and "\<And>k. k \<in> set ks \<Longrightarrow> v k = None"
  shows "exact (H ++ map_of (zip qs ks)) c (v ++ map_of (zip ks (map c qs)))"
  using assms
proof (induction qs arbitrary: ks H v)
  case Nil
  then show ?case by simp
next
  case (Cons q qs)
  then obtain k ks' where ks: "ks = k # ks'" by (cases ks) auto
  have d: "q \<notin> set qs" "k \<notin> set ks'" using Cons.prems ks by auto
  have "exact (H(q \<mapsto> k)) c (v(k \<mapsto> c q))" using exact_add [of H c v q k] Cons.prems ks by simp
  then have "exact (H(q \<mapsto> k) ++ map_of (zip qs ks')) c (v(k \<mapsto> c q) ++ map_of (zip ks' (map c qs)))"
    by (rule Cons.IH) (use Cons.prems ks d in auto)
  moreover have "H(q \<mapsto> k) ++ map_of (zip qs ks') = H ++ map_of (zip (q # qs) ks)"
  proof (rule ext)
    have "map_of (zip qs ks') q = None" using d Cons.prems(2) ks by (simp add: map_of_zip_is_None)
    then show "(H(q \<mapsto> k) ++ map_of (zip qs ks')) r = (H ++ map_of (zip (q # qs) ks)) r" for r
      by (auto simp: ks map_add_def split: option.split)
  qed
  moreover have "v(k \<mapsto> c q) ++ map_of (zip ks' (map c qs)) = v ++ map_of (zip ks (map c (q # qs)))"
  proof (rule ext)
    have "map_of (zip ks' (map c qs)) k = None" using d Cons.prems(2) ks by (simp add: map_of_zip_is_None)
    then show "(v(k \<mapsto> c q) ++ map_of (zip ks' (map c qs))) r = (v ++ map_of (zip ks (map c (q # qs)))) r" for r
      by (auto simp: ks map_add_def split: option.split)
  qed
  ultimately show ?case by simp
qed

text \<open>A table that is exactly recorded and whose records are empty is empty.\<close>

lemma exact_none: "exact H c v \<Longrightarrow> (\<And>q. H q = None) \<Longrightarrow> v = Map.empty"
  using exact_dom [of H c v] by (auto simp: fun_eq_iff)

text \<open>The records are a bijection between the places in use and the keys of the table.\<close>

lemma exact_bij: "exact H c v \<Longrightarrow> bij_betw (\<lambda>q. the (H q)) (dom H) (dom v)"
  unfolding bij_betw_def
proof (intro conjI)
  assume e: "exact H c v"
  show "inj_on (\<lambda>q. the (H q)) (dom H)" by (rule inj_onI) (use exact_inj [OF e] in auto)
  show "(\<lambda>q. the (H q)) ` dom H = dom v" using e by (force simp: exact_def image_iff)
qed

text \<open>
  The same when the records leave a choice of what may stand under a key: \<open>C\<close> gives the possible contents of a place.
\<close>

definition exact_in :: "('q \<rightharpoonup> 'k) \<Rightarrow> ('q \<Rightarrow> 'c set) \<Rightarrow> ('k \<rightharpoonup> 'c) \<Rightarrow> bool" where
  "exact_in H C v \<longleftrightarrow> (\<exists>c. exact H c v \<and> (\<forall>q\<in>dom H. c q \<in> C q))"

lemma exact_inI: "exact H c v \<Longrightarrow> (\<And>q. H q \<noteq> None \<Longrightarrow> c q \<in> C q) \<Longrightarrow> exact_in H C v"
  unfolding exact_in_def by blast

lemma exact_inE:
  assumes "exact_in H C v"
  obtains c where "exact H c v" "\<And>q. H q \<noteq> None \<Longrightarrow> c q \<in> C q"
  using assms unfolding exact_in_def by blast

lemma exact_inD: "exact_in H C v \<Longrightarrow> H q = Some k \<Longrightarrow> \<exists>x\<in>C q. v k = Some x"
  by (erule exact_inE) (metis exactD option.distinct(1))

lemma exact_in_mono: "exact_in H C v \<Longrightarrow> (\<And>q. H q \<noteq> None \<Longrightarrow> C q \<subseteq> C' q) \<Longrightarrow> exact_in H C' v"
  by (erule exact_inE) (blast intro: exact_inI)

lemma exact_in_empty: "exact_in Map.empty C Map.empty"
  by (rule exact_inI [OF exact_empty]) simp

lemma exact_in_none: "exact_in H C v \<Longrightarrow> (\<And>q. H q = None) \<Longrightarrow> v = Map.empty"
  by (erule exact_inE) (rule exact_none)

lemma exact_in_bij: "exact_in H C v \<Longrightarrow> bij_betw (\<lambda>q. the (H q)) (dom H) (dom v)"
  by (erule exact_inE) (rule exact_bij)

text \<open>An entry replaced.\<close>

lemma exact_in_set:
  assumes "exact_in H C v" and q: "H q = Some k"
  shows "exact_in H (C(q := {x})) (v(k \<mapsto> x))"
  using assms(1)
proof (rule exact_inE)
  fix c assume e: "exact H c v" and c: "\<And>q. H q \<noteq> None \<Longrightarrow> c q \<in> C q"
  have "exact H (c(q := x)) (v(k \<mapsto> x))"
  proof (rule exactI)
    show "(v(k \<mapsto> x)) k' = Some ((c(q := x)) r)" if "H r = Some k'" for r k'
      using that q exact_inj [OF e q, of r] exactD [OF e that] by (cases "k' = k") auto
    show "\<exists>r. H r = Some k'" if "(v(k \<mapsto> x)) k' \<noteq> None" for k'
      using that q exact_dom [OF e, of k'] by (cases "k' = k") auto
    show "r' = r" if "H r = Some k'" "H r' = Some k'" for r r' k' using exact_inj [OF e that] .
  qed
  then show ?thesis by (rule exact_inI) (use c in auto)
qed

text \<open>Entries rewritten one after the other, each keeping its first component.\<close>

lemma exact_in_rewrite:
  fixes f :: "'h \<Rightarrow> 'k" and es :: "('h \<times> 'r) list"
  assumes "exact_in H C v" and "length qs = length es" and "distinct qs"
    and "\<And>n. n < length es \<Longrightarrow> H (qs ! n) = Some (f (fst (es ! n)))"
    and "\<And>n x. n < length es \<Longrightarrow> x \<in> C (qs ! n) \<Longrightarrow> fst x = name"
    and "\<And>n. n < length es \<Longrightarrow> (name, snd (es ! n)) \<in> C' (qs ! n)" and "\<And>q. H q \<noteq> None \<Longrightarrow> q \<notin> set qs \<Longrightarrow> C q \<subseteq> C' q"
  shows "exact_in H C' (fold (\<lambda>e m. m(f (fst e) := map_option (\<lambda>nr. (fst nr, snd e)) (m (f (fst e))))) es v)"
  using assms
proof (induction es arbitrary: qs C v)
  case Nil
  then show ?case using exact_in_mono [of H C v C'] by simp
next
  case (Cons e es)
  then obtain q qs' where qs: "qs = q # qs'" by (cases qs) auto
  have q: "H q = Some (f (fst e))" "(name, snd e) \<in> C' q" "\<And>x. x \<in> C q \<Longrightarrow> fst x = name"
    using Cons.prems(4-6) [of 0] by (simp_all add: qs)
  obtain x where x: "x \<in> C q" "v (f (fst e)) = Some x" using exact_inD [OF Cons.prems(1) q(1)] by blast
  have "v(f (fst e) := map_option (\<lambda>nr. (fst nr, snd e)) (v (f (fst e)))) = v(f (fst e) \<mapsto> (name, snd e))" using x q(3) by simp
  moreover have "exact_in H C' (fold (\<lambda>e m. m(f (fst e) := map_option (\<lambda>nr. (fst nr, snd e)) (m (f (fst e))))) es (v(f (fst e) \<mapsto> (name, snd e))))"
  proof (rule Cons.IH [OF exact_in_set [OF Cons.prems(1) q(1)]])
    show "length qs' = length es" "distinct qs'" using Cons.prems(2,3) qs by simp_all
    fix n assume n: "n < length es"
    show "H (qs' ! n) = Some (f (fst (es ! n)))" "(name, snd (es ! n)) \<in> C' (qs' ! n)"
      using Cons.prems(4,6) [of "Suc n"] n by (simp_all add: qs)
    have "qs' ! n \<noteq> q" using Cons.prems(2,3) n qs by auto
    then show "fst y = name" if "y \<in> (C(q := {(name, snd e)})) (qs' ! n)" for y
      using Cons.prems(5) [of "Suc n" y] that n by (simp add: qs)
  next
    show "(C(q := {(name, snd e)})) r \<subseteq> C' r" if "H r \<noteq> None" "r \<notin> set qs'" for r
      using Cons.prems(7) [of r] that q(2) by (auto simp: qs split: if_splits)
  qed
  ultimately show ?case by (simp only: fold_simps)
qed

end
