(* ===== verification/Bridge_Kernel.thy ===== *)
theory Bridge_Kernel
  imports LanToLan Installed
begin

text \<open>
  The contract of the kernel driver that the bridge relies on, and what the functions \<open>eth_bridge_*\<close> and the loops over
  handles do to its tables under it.
\<close>

section \<open>The contract\<close>

text \<open>
  The tables of the driver as functions of the world: filter rules with the pipe they are on and the routing table they lead to,
  routing rules with the table they are in, processing contexts with the header they use, and the tables and headers behind handles.
\<close>

record 'w kernel_view =
  flt_at :: "'w \<Rightarrow> ipa_ip_type \<times> ipa_hdl \<rightharpoonup> nat \<times> ipa_flt_rule \<times> (ipa_ip_type \<times> string) option"
  rt_at :: "'w \<Rightarrow> ipa_ip_type \<times> ipa_hdl \<rightharpoonup> string \<times> ipa_rt_rule"
  ctx_at :: "'w \<Rightarrow> ipa_hdl \<rightharpoonup> ipa_hdr_proc_type \<times> string option"
  tbl_at :: "'w \<Rightarrow> ipa_hdl \<rightharpoonup> ipa_ip_type \<times> string"
  hdr_at :: "'w \<Rightarrow> ipa_hdl \<rightharpoonup> string"

text \<open>A routing table exists as long as there is a rule in it.\<close>

definition table_ready :: "'w kernel_view \<Rightarrow> 'w \<Rightarrow> ipa_ip_type \<Rightarrow> string \<Rightarrow> bool" where
  "table_ready V w ip name \<longleftrightarrow> (\<exists>h r. rt_at V w (ip, h) = Some (name, r))"

definition same_tables :: "'w kernel_view \<Rightarrow> 'w \<Rightarrow> 'w \<Rightarrow> bool" where
  "same_tables V w w' \<longleftrightarrow> flt_at V w' = flt_at V w \<and> rt_at V w' = rt_at V w \<and> ctx_at V w' = ctx_at V w"

text \<open>
  Calls succeed: memory is available, rules are added under new handles other than 0, a rule that exists can be deleted or
  modified, and the handle of a routing table that holds a rule can be read.
\<close>

definition handle_law :: "'w kernel_view \<Rightarrow> bool" where
  "handle_law V \<longleftrightarrow> (\<forall>w ip. rt_at V w (ip, 0) = None \<and> flt_at V w (ip, 0) = None)"

definition malloc_law :: "'w ipa_dev \<Rightarrow> 'w kernel_view \<Rightarrow> bool" where
  "malloc_law d V \<longleftrightarrow> (\<forall>w. \<exists>w'. dev_malloc d w = (True, w') \<and> same_tables V w w' \<and> tbl_at V w' = tbl_at V w)"

definition add_rt_law :: "'w ipa_dev \<Rightarrow> 'w kernel_view \<Rightarrow> bool" where
  "add_rt_law d V \<longleftrightarrow>
     (\<forall>tbl w. \<exists>hdls w'. ioc_add_rt d tbl w = (0, hdls, w') \<and> length hdls = length (art_rules tbl) \<and> distinct hdls \<and>
        (\<forall>h\<in>set hdls. rt_at V w (art_ip tbl, h) = None) \<and>
        rt_at V w' = rt_at V w ++ map_of (zip (map (Pair (art_ip tbl)) hdls) (map (Pair (art_tbl_name tbl)) (art_rules tbl))) \<and>
        flt_at V w' = flt_at V w \<and> ctx_at V w' = ctx_at V w)"

definition del_rt_law :: "'w ipa_dev \<Rightarrow> 'w kernel_view \<Rightarrow> bool" where
  "del_rt_law d V \<longleftrightarrow>
     (\<forall>ip h w. rt_at V w (ip, h) \<noteq> None \<longrightarrow>
        (\<exists>w'. ioc_del_rt d ip h w = (0, 0, w') \<and> rt_at V w' = (rt_at V w)((ip, h) := None) \<and>
           flt_at V w' = flt_at V w \<and> ctx_at V w' = ctx_at V w))"

definition mdfy_rt_law :: "'w ipa_dev \<Rightarrow> 'w kernel_view \<Rightarrow> bool" where
  "mdfy_rt_law d V \<longleftrightarrow>
     (\<forall>tbl w. (\<forall>e\<in>set (mrt_rules tbl). rt_at V w (mrt_ip tbl, fst e) \<noteq> None) \<longrightarrow>
        (\<exists>w'. ioc_mdfy_rt d tbl w = (0, w') \<and> flt_at V w' = flt_at V w \<and> ctx_at V w' = ctx_at V w \<and>
           rt_at V w' = fold (\<lambda>e m. m((mrt_ip tbl, fst e) := map_option (\<lambda>nr. (fst nr, snd e)) (m (mrt_ip tbl, fst e))))
             (mrt_rules tbl) (rt_at V w)))"

definition rt_tables_law :: "'w ipa_dev \<Rightarrow> 'w kernel_view \<Rightarrow> bool" where
  "rt_tables_law d V \<longleftrightarrow>
     (\<forall>ip w. \<exists>ret w'. ioc_commit_rt d ip w = (ret, w') \<and> same_tables V w w') \<and>
     (\<forall>ip name w. table_ready V w ip name \<longrightarrow>
        (\<exists>hdl w'. ioc_get_rt_tbl d ip name w = (0, hdl, w') \<and> same_tables V w w' \<and> tbl_at V w' hdl = Some (ip, name))) \<and>
     (\<forall>hdl ip name w. tbl_at V w hdl = Some (ip, name) \<longrightarrow> table_ready V w ip name \<longrightarrow>
        (\<exists>ret w'. ioc_put_rt_tbl d hdl w = (ret, w') \<and> same_tables V w w' \<and> tbl_at V w' hdl = tbl_at V w hdl))"

definition add_flt_law :: "'w ipa_dev \<Rightarrow> 'w kernel_view \<Rightarrow> bool" where
  "add_flt_law d V \<longleftrightarrow>
     (\<forall>tbl r w. afa_rules tbl = [r] \<longrightarrow>
        (\<exists>h w'. ioc_add_flt_after d tbl w = (0, [h], w') \<and> flt_at V w (afa_ip tbl, h) = None \<and>
           flt_at V w' = (flt_at V w)((afa_ip tbl, h) \<mapsto> (afa_ep tbl, r\<lparr>fl_rt_tbl_hdl := 0\<rparr>, tbl_at V w (fl_rt_tbl_hdl r))) \<and>
           rt_at V w' = rt_at V w \<and> ctx_at V w' = ctx_at V w))"

definition del_flt_law :: "'w ipa_dev \<Rightarrow> 'w kernel_view \<Rightarrow> bool" where
  "del_flt_law d V \<longleftrightarrow>
     (\<forall>ip h w. flt_at V w (ip, h) \<noteq> None \<longrightarrow>
        (\<exists>w'. ioc_del_flt d ip h w = (0, 0, w') \<and> flt_at V w' = (flt_at V w)((ip, h) := None) \<and>
           rt_at V w' = rt_at V w \<and> ctx_at V w' = ctx_at V w))"

definition add_ctx_law :: "'w ipa_dev \<Rightarrow> 'w kernel_view \<Rightarrow> bool" where
  "add_ctx_law d V \<longleftrightarrow>
     (\<forall>name w. \<exists>hdl w'. ioc_get_hdr d name w = (0, hdl, w') \<and> same_tables V w w' \<and> hdr_at V w' hdl = Some name) \<and>
     (\<forall>type hdr w. \<exists>h w'. ioc_add_hdr_proc_ctx d type hdr w = (0, h, w') \<and> ctx_at V w h = None \<and>
        ctx_at V w' = (ctx_at V w)(h \<mapsto> (type, hdr_at V w hdr)) \<and> flt_at V w' = flt_at V w \<and> rt_at V w' = rt_at V w)"

definition del_ctx_law :: "'w ipa_dev \<Rightarrow> 'w kernel_view \<Rightarrow> bool" where
  "del_ctx_law d V \<longleftrightarrow>
     (\<forall>h w. ctx_at V w h \<noteq> None \<longrightarrow>
        (\<exists>ret w'. ioc_del_hdr_proc_ctx d h w = (ret, w') \<and> ctx_at V w' = (ctx_at V w)(h := None) \<and>
           flt_at V w' = flt_at V w \<and> rt_at V w' = rt_at V w))"

definition bridge_kernel_ok :: "'w ipa_dev \<Rightarrow> 'w kernel_view \<Rightarrow> bool" where
  "bridge_kernel_ok d V \<longleftrightarrow> (\<forall>w. rt_node_open d w \<and> hdr_node_open d w) \<and> handle_law V \<and> malloc_law d V \<and> add_rt_law d V \<and> del_rt_law d V \<and>
     mdfy_rt_law d V \<and> rt_tables_law d V \<and> add_flt_law d V \<and> del_flt_law d V \<and> add_ctx_law d V \<and> del_ctx_law d V"

lemma kernel_laws:
  assumes "bridge_kernel_ok d V"
  shows "rt_node_open d w" and "hdr_node_open d w" and "malloc_law d V" and "add_rt_law d V" and "del_rt_law d V"
    and "mdfy_rt_law d V" and "rt_tables_law d V" and "add_flt_law d V" and "del_flt_law d V" and "add_ctx_law d V" and "del_ctx_law d V"
    and "rt_at V w (ip, 0) = None" and "flt_at V w (ip, 0) = None"
  using assms by (auto simp: bridge_kernel_ok_def handle_law_def)

text \<open>
  Interfaces the bridge can serve: transmit properties for both IP types, at most \<open>MAX_NUM_PROP\<close> of each, to pipes that exist.
\<close>

definition lan_ok :: "'w ipa_dev \<Rightarrow> lan \<Rightarrow> bool" where
  "lan_ok d l \<longleftrightarrow>
     tx_list l \<noteq> [] \<and>
     (\<forall>ip. 0 < each_client_rt_rule_count l ip \<and> each_client_rt_rule_count l ip \<le> MAX_NUM_PROP) \<and>
     (\<forall>t\<in>set (tx_list l). tx_dst_pipe t \<le> IPA_CLIENT_MAX d \<and> tx_alt_dst_pipe t \<le> IPA_CLIENT_MAX d)"

section \<open>What should be installed\<close>

definition want_ctx :: "lan \<Rightarrow> ipa_hdr_l2_type \<Rightarrow> ipa_hdr_proc_type \<times> string option" where
  "want_ctx l t = (eth_bridge_get_hdr_proc_type t (l2_type l), Some (case tx_list l of [] \<Rightarrow> [] | tx # _ \<Rightarrow> tx_hdr_name tx))"

text \<open>
  The routing rules of a client. They lead to the pipe of the transmit property; to the alternative pipe when the interface is a
  WLAN interface and it is in MCC mode (\<open>mcc\<close>).
\<close>

definition pipe_of :: "lan \<Rightarrow> bool \<Rightarrow> ipa_tx_prop \<Rightarrow> nat" where
  "pipe_of l mcc tx = (if is_wlan l \<and> mcc then tx_alt_dst_pipe tx else tx_dst_pipe tx)"

definition want_rt :: "'w bridge_env \<Rightarrow> bool \<Rightarrow> lan \<Rightarrow> mac \<Rightarrow> ipa_hdl \<Rightarrow> ipa_hdr_l2_type \<Rightarrow> ipa_ip_type \<Rightarrow> ipa_rt_rule list" where
  "want_rt env mcc l m ctx t ip =
     map (\<lambda>tx. \<lparr>rt_dst = pipe_of l mcc tx, rt_hdr_hdl = 0, rt_hdr_proc_ctx_hdl = ctx,
            rt_attrib = client_attrib env (t = IPA_HDR_L2_ETHERNET_II) m (tx_attrib tx), rt_hashable = True\<rparr>)
       (filter (\<lambda>tx. tx_ip tx = ip) (tx_list l))"

definition want_flt :: "'w bridge_env \<Rightarrow> lan \<Rightarrow> mac \<Rightarrow> ipa_ip_type \<Rightarrow> string \<Rightarrow> nat \<times> ipa_flt_rule \<times> (ipa_ip_type \<times> string) option" where
  "want_flt env l m ip name =
     (case rx_prop l of None \<Rightarrow> undefined
      | Some rx \<Rightarrow> (rx_src_pipe rx,
          \<lparr>fl_action = IPA_PASS_TO_ROUTING, fl_rt_tbl_hdl = 0, fl_rt_tbl_idx = 0,
           fl_attrib = client_attrib env (l2_type l = IPA_HDR_L2_ETHERNET_II) m (rx_attrib rx), fl_eq_attrib = 0,
           fl_rule_id = 0, fl_hashable = True\<rparr>, Some (ip, name)))"

text \<open>
  The mode of the WLAN belongs to the world: another thread sets it. \<open>steady env B W\<close>: as long as the bridge only rewrites
  rules, the world stays in \<open>W\<close> and the mode in \<open>B\<close>.
\<close>

definition steady :: "'w bridge_env \<Rightarrow> bool set \<Rightarrow> 'w set \<Rightarrow> bool" where
  "steady env B W \<longleftrightarrow> (\<forall>w\<in>W. isMCC_Mode env w \<in> B \<and> snd (dev_malloc (dev env) w) \<in> W \<and>
     (\<forall>tbl. snd (ioc_mdfy_rt (dev env) tbl w) \<in> W) \<and> (\<forall>ip. snd (ioc_commit_rt (dev env) ip w) \<in> W))"

abbreviation modes :: "'w bridge_env \<Rightarrow> bool set" where
  "modes env \<equiv> range (isMCC_Mode env)"

lemma steady_any: "steady env (modes env) UNIV"
  by (simp add: steady_def)

lemma steadyD:
  assumes "steady env B W" and "w \<in> W"
  shows "isMCC_Mode env w \<in> B" and "dev_malloc (dev env) w = (ok, w1) \<Longrightarrow> w1 \<in> W"
    and "ioc_mdfy_rt (dev env) tbl w = (ret, w2) \<Longrightarrow> w2 \<in> W" and "ioc_commit_rt (dev env) ip w = (ret', w3) \<Longrightarrow> w3 \<in> W"
proof -
  have *: "isMCC_Mode env w \<in> B" "snd (dev_malloc (dev env) w) \<in> W" "snd (ioc_mdfy_rt (dev env) tbl w) \<in> W" "snd (ioc_commit_rt (dev env) ip w) \<in> W"
    using assms unfolding steady_def by blast+
  show "isMCC_Mode env w \<in> B" by (rule *)
  show "dev_malloc (dev env) w = (ok, w1) \<Longrightarrow> w1 \<in> W" using *(2) by simp
  show "ioc_mdfy_rt (dev env) tbl w = (ret, w2) \<Longrightarrow> w2 \<in> W" using *(3) by simp
  show "ioc_commit_rt (dev env) ip w = (ret', w3) \<Longrightarrow> w3 \<in> W" using *(4) by simp
qed

section \<open>The functions that install rules\<close>

lemma malloc_ok:
  assumes "bridge_kernel_ok d V"
  obtains w' where "dev_malloc d w = (True, w')" "same_tables V w w'" "tbl_at V w' = tbl_at V w"
  using kernel_laws(3) [OF assms] unfolding malloc_law_def by blast

lemma length_client_rt_rules: "length (client_rt_rules env l m ctx t ip w) = each_client_rt_rule_count l ip"
  by (simp add: client_rt_rules_def each_client_rt_rule_count_def)

lemma client_rt_rules_eq: "client_rt_rules env l m ctx t ip w = want_rt env (isMCC_Mode env w) l m ctx t ip"
  by (simp add: client_rt_rules_def want_rt_def pipe_of_def)

lemma client_rt_rules_dst:
  "lan_ok d l \<Longrightarrow> r \<in> set (client_rt_rules env l m ctx t ip w) \<Longrightarrow> rt_dst r \<le> IPA_CLIENT_MAX d"
  by (auto simp: client_rt_rules_def lan_ok_def)

lemma length_want_rt [simp]: "length (want_rt env mcc l m ctx t ip) = each_client_rt_rule_count l ip"
  by (simp add: want_rt_def each_client_rt_rule_count_def)

lemma eth_bridge_add_rt_rule_ok:
  assumes k: "bridge_kernel_ok (dev env) V" and l: "lan_ok (dev env) l"
  obtains hdls mcc w' where "eth_bridge_add_rt_rule env l m tbl ctx t ip w = (Some hdls, w')"
    "length hdls = each_client_rt_rule_count l ip" "distinct hdls" "mcc \<in> modes env"
    "\<forall>h\<in>set hdls. rt_at V w (ip, h) = None"
    "rt_at V w' = rt_at V w ++ map_of (zip (map (Pair ip) hdls) (map (Pair tbl) (want_rt env mcc l m ctx t ip)))"
    "flt_at V w' = flt_at V w" "ctx_at V w' = ctx_at V w"
proof -
  obtain w1 where w1: "dev_malloc (dev env) w = (True, w1)" "same_tables V w w1" by (rule malloc_ok [OF k])
  define rs where "rs = client_rt_rules env l m ctx t ip w1"
  define a where "a = \<lparr>art_commit = True, art_ip = ip, art_tbl_name = tbl, art_rules = rs\<rparr>"
  have len: "length rs = each_client_rt_rule_count l ip" by (simp add: rs_def length_client_rt_rules)
  from kernel_laws(4) [OF k] obtain hdls w' where w': "ioc_add_rt (dev env) a w1 = (0, hdls, w')" "length hdls = length (art_rules a)" "distinct hdls"
      "\<forall>h\<in>set hdls. rt_at V w1 (art_ip a, h) = None"
      "rt_at V w' = rt_at V w1 ++ map_of (zip (map (Pair (art_ip a)) hdls) (map (Pair (art_tbl_name a)) (art_rules a)))"
      "flt_at V w' = flt_at V w1" "ctx_at V w' = ctx_at V w1"
    unfolding add_rt_law_def by blast
  have "\<not> (\<exists>r\<in>set rs. rt_dst r > IPA_CLIENT_MAX (dev env))"
    using client_rt_rules_dst [OF l] by (auto simp: rs_def not_less)
  then have add: "AddRoutingRule (dev env) a w1 = (True, hdls, w')"
    using w'(1) kernel_laws(1) [OF k] by (simp add: AddRoutingRule_def a_def)
  have count: "each_client_rt_rule_count l ip \<le> MAX_NUM_PROP" using l by (simp add: lan_ok_def)
  show ?thesis
  proof (rule that [of hdls w' "isMCC_Mode env w1"])
    show "eth_bridge_add_rt_rule env l m tbl ctx t ip w = (Some hdls, w')"
      using add len w1(1) w'(2) count by (simp add: eth_bridge_add_rt_rule_def a_def rs_def not_less Let_def)
  qed (use w'(2-) w1(2) len in \<open>simp_all add: a_def same_tables_def rs_def client_rt_rules_eq\<close>)
qed

lemma eth_bridge_del_rt_rule_ok:
  assumes k: "bridge_kernel_ok (dev env) V" and h: "rt_at V w (ip, h) \<noteq> None"
  shows "rt_at V (eth_bridge_del_rt_rule env h ip w) = (rt_at V w)((ip, h) := None)"
    and "flt_at V (eth_bridge_del_rt_rule env h ip w) = flt_at V w" and "ctx_at V (eth_bridge_del_rt_rule env h ip w) = ctx_at V w"
proof -
  obtain w1 where w1: "dev_malloc (dev env) w = (True, w1)" "same_tables V w w1" by (rule malloc_ok [OF k])
  have "rt_at V w1 (ip, h) \<noteq> None" using h w1(2) by (simp add: same_tables_def)
  then obtain w' where w': "ioc_del_rt (dev env) ip h w1 = (0, 0, w')" "rt_at V w' = (rt_at V w1)((ip, h) := None)"
      "flt_at V w' = flt_at V w1" "ctx_at V w' = ctx_at V w1"
    using kernel_laws(5) [OF k] unfolding del_rt_law_def by blast
  have nz: "h \<noteq> 0" using h kernel_laws(12) [OF k, of w ip] by (cases "h = 0") auto
  have eq: "eth_bridge_del_rt_rule env h ip w = w'"
    using nz w1(1) w'(1) kernel_laws(1) [OF k]
    by (simp add: eth_bridge_del_rt_rule_def DeleteRoutingHdl_def DeleteRoutingRule_def)
  show "rt_at V (eth_bridge_del_rt_rule env h ip w) = (rt_at V w)((ip, h) := None)"
    unfolding eq using w'(2) w1(2) by (simp add: same_tables_def)
  show "flt_at V (eth_bridge_del_rt_rule env h ip w) = flt_at V w" "ctx_at V (eth_bridge_del_rt_rule env h ip w) = ctx_at V w"
    unfolding eq using w'(3,4) w1(2) by (auto simp: same_tables_def)
qed

text \<open>Deleting routing rules one after the other.\<close>

lemma del_rt_fold:
  assumes "bridge_kernel_ok (dev env) V" and "exact H c (rt_at V w)" and "length qs = length hdls" and "distinct qs"
    and "\<And>n. n < length hdls \<Longrightarrow> H (qs ! n) = Some (ip, hdls ! n)"
  shows "exact (\<lambda>q. if q \<in> set qs then None else H q) c (rt_at V (fold (\<lambda>h. eth_bridge_del_rt_rule env h ip) hdls w)) \<and>
    flt_at V (fold (\<lambda>h. eth_bridge_del_rt_rule env h ip) hdls w) = flt_at V w \<and>
    ctx_at V (fold (\<lambda>h. eth_bridge_del_rt_rule env h ip) hdls w) = ctx_at V w"
  using assms(2-)
proof (induction hdls arbitrary: qs H w)
  case Nil
  then show ?case by simp
next
  case (Cons h hdls)
  then obtain q qs' where qs: "qs = q # qs'" by (cases qs) auto
  have q: "H q = Some (ip, h)" using Cons.prems(4) [of 0] qs by simp
  then have "rt_at V w (ip, h) \<noteq> None" using exactD [OF Cons.prems(1)] by auto
  note del = eth_bridge_del_rt_rule_ok [OF assms(1) this]
  have e: "exact (H(q := None)) c (rt_at V (eth_bridge_del_rt_rule env h ip w))"
    unfolding del(1) by (rule exact_del [OF Cons.prems(1) q])
  have *: "(H(q := None)) (qs' ! n) = Some (ip, hdls ! n)" if "n < length hdls" for n
  proof -
    have "qs' ! n \<noteq> q" using Cons.prems(2,3) qs that by auto
    then show ?thesis using Cons.prems(4) [of "Suc n"] qs that by simp
  qed
  have "(\<lambda>r. if r \<in> set qs' then None else (H(q := None)) r) = (\<lambda>r. if r \<in> set qs then None else H r)"
    using qs by auto
  then show ?case using Cons.IH [OF e _ _ *] Cons.prems(2,3) qs del by simp
qed

lemma eth_bridge_del_flt_rule_ok:
  assumes k: "bridge_kernel_ok (dev env) V" and h: "flt_at V w (ip, h) \<noteq> None"
  shows "flt_at V (eth_bridge_del_flt_rule env h ip w) = (flt_at V w)((ip, h) := None)"
    and "rt_at V (eth_bridge_del_flt_rule env h ip w) = rt_at V w" and "ctx_at V (eth_bridge_del_flt_rule env h ip w) = ctx_at V w"
proof -
  obtain w1 where w1: "dev_malloc (dev env) w = (True, w1)" "same_tables V w w1" by (rule malloc_ok [OF k])
  have "flt_at V w1 (ip, h) \<noteq> None" using h w1(2) by (simp add: same_tables_def)
  then obtain w' where w': "ioc_del_flt (dev env) ip h w1 = (0, 0, w')" "flt_at V w' = (flt_at V w1)((ip, h) := None)"
      "rt_at V w' = rt_at V w1" "ctx_at V w' = ctx_at V w1"
    using kernel_laws(9) [OF k] unfolding del_flt_law_def by blast
  have nz: "h \<noteq> 0" using h kernel_laws(13) [OF k, of w ip] by (cases "h = 0") auto
  have eq: "eth_bridge_del_flt_rule env h ip w = w'"
    using nz w1(1) w'(1) by (simp add: eth_bridge_del_flt_rule_def DeleteFilteringHdls_def DeleteFilteringRule_def)
  show "flt_at V (eth_bridge_del_flt_rule env h ip w) = (flt_at V w)((ip, h) := None)"
    "rt_at V (eth_bridge_del_flt_rule env h ip w) = rt_at V w" "ctx_at V (eth_bridge_del_flt_rule env h ip w) = ctx_at V w"
    unfolding eq using w'(2-4) w1(2) by (auto simp: same_tables_def)
qed

text \<open>The handle 0 stands for no rule.\<close>

lemma eth_bridge_del_flt_rule_zero:
  assumes k: "bridge_kernel_ok (dev env) V"
  shows "same_tables V w (eth_bridge_del_flt_rule env 0 ip w)"
  by (rule malloc_ok [OF k, of w]) (simp add: eth_bridge_del_flt_rule_def DeleteFilteringHdls_def)

lemma GetRoutingTable_ok:
  assumes k: "bridge_kernel_ok d V" and r: "table_ready V w ip name"
  obtains hdl w' where "GetRoutingTable d ip name w = (True, hdl, w')" "same_tables V w w'" "tbl_at V w' hdl = Some (ip, name)"
proof -
  have law: "rt_tables_law d V" by (rule kernel_laws(7) [OF k])
  from r obtain hdl w1 where g: "ioc_get_rt_tbl d ip name w = (0, hdl, w1)" "same_tables V w w1" "tbl_at V w1 hdl = Some (ip, name)"
    using law unfolding rt_tables_law_def by blast
  have "table_ready V w1 ip name" using r g(2) by (simp add: table_ready_def same_tables_def)
  then obtain ret w2 where p: "ioc_put_rt_tbl d hdl w1 = (ret, w2)" "same_tables V w1 w2" "tbl_at V w2 hdl = tbl_at V w1 hdl"
    using law g(3) unfolding rt_tables_law_def by blast
  show ?thesis
  proof (rule that)
    show "GetRoutingTable d ip name w = (True, hdl, w2)"
      using g(1) p(1) kernel_laws(1) [OF k] by (simp add: GetRoutingTable_def PutRoutingTable_def)
    show "same_tables V w w2" using g(2) p(2) by (simp add: same_tables_def)
    show "tbl_at V w2 hdl = Some (ip, name)" using g(3) p(3) by simp
  qed
qed

lemma eth_bridge_add_flt_rule_ok:
  assumes k: "bridge_kernel_ok (dev env) V" and l: "tx_prop l \<noteq> None" "rx_prop l \<noteq> None" and t: "tbl_at V w hdl = Some (ip, name)"
  obtains h w' where "eth_bridge_add_flt_rule env l m hdl ip w = (Some h, w')" "h \<noteq> 0" "flt_at V w (ip, h) = None"
    "flt_at V w' = (flt_at V w)((ip, h) \<mapsto> want_flt env l m ip name)" "rt_at V w' = rt_at V w" "ctx_at V w' = ctx_at V w"
proof -
  obtain rx where rx: "rx_prop l = Some rx" using l by auto
  obtain w1 where w1: "dev_malloc (dev env) w = (True, w1)" "same_tables V w w1" "tbl_at V w1 = tbl_at V w" by (rule malloc_ok [OF k])
  define r where "r = \<lparr>fl_action = IPA_PASS_TO_ROUTING, fl_rt_tbl_hdl = hdl, fl_rt_tbl_idx = 0,
      fl_attrib = client_attrib env (l2_type l = IPA_HDR_L2_ETHERNET_II) m (rx_attrib rx), fl_eq_attrib = 0,
      fl_rule_id = 0, fl_hashable = True\<rparr>"
  define a where "a = \<lparr>afa_ep = rx_src_pipe rx, afa_ip = ip, afa_after_hdl = flt_rule_offset env (lan_ptr l) ip w1, afa_rules = [r]\<rparr>"
  have "afa_rules a = [r]" by (simp add: a_def)
  then obtain h w' where h: "ioc_add_flt_after (dev env) a w1 = (0, [h], w')" "flt_at V w1 (afa_ip a, h) = None"
      "flt_at V w' = (flt_at V w1)((afa_ip a, h) \<mapsto> (afa_ep a, r\<lparr>fl_rt_tbl_hdl := 0\<rparr>, tbl_at V w1 (fl_rt_tbl_hdl r)))"
      "rt_at V w' = rt_at V w1" "ctx_at V w' = ctx_at V w1"
    using kernel_laws(8) [OF k] unfolding add_flt_law_def by blast
  show ?thesis
  proof (rule that)
    show "eth_bridge_add_flt_rule env l m hdl ip w = (Some h, w')"
      using h(1) rx l(1) w1(1) by (simp add: eth_bridge_add_flt_rule_def AddFilteringRuleAfter_def a_def r_def Let_def)
    show "flt_at V w' = (flt_at V w)((ip, h) \<mapsto> want_flt env l m ip name)"
      using h(3) w1(2,3) t rx by (simp add: a_def r_def want_flt_def same_tables_def)
    show "h \<noteq> 0"
    proof
      assume "h = 0"
      then have "flt_at V w' (ip, 0) \<noteq> None" using h(3) by (simp add: a_def)
      then show False using kernel_laws(13) [OF k, of w' ip] by simp
    qed
  qed (use h w1 in \<open>simp_all add: a_def same_tables_def\<close>)
qed

lemma eth_bridge_add_hdr_proc_ctx_ok:
  assumes k: "bridge_kernel_ok (dev env) V" and l: "tx_prop l \<noteq> None"
  obtains h w' where "eth_bridge_add_hdr_proc_ctx env l t w = (Some h, w')" "ctx_at V w h = None"
    "ctx_at V w' = (ctx_at V w)(h \<mapsto> want_ctx l t)" "flt_at V w' = flt_at V w" "rt_at V w' = rt_at V w"
proof -
  let ?name = "case tx_list l of [] \<Rightarrow> [] | tx # _ \<Rightarrow> tx_hdr_name tx"
  have law: "add_ctx_law (dev env) V" by (rule kernel_laws(10) [OF k])
  obtain w1 where w1: "dev_malloc (dev env) w = (True, w1)" "same_tables V w w1" by (rule malloc_ok [OF k])
  obtain hdl w2 where g: "ioc_get_hdr (dev env) ?name w1 = (0, hdl, w2)" "same_tables V w1 w2" "hdr_at V w2 hdl = Some ?name"
    using law unfolding add_ctx_law_def by blast
  have tmpl: "eth_bridge_get_hdr_template_hdl env l w1 = (Some hdl, w2)"
    using g(1) kernel_laws(2) [OF k] by (simp add: eth_bridge_get_hdr_template_hdl_def GetHeaderHandle_def)
  obtain h w' where h: "ioc_add_hdr_proc_ctx (dev env) (eth_bridge_get_hdr_proc_type t (l2_type l)) hdl w2 = (0, h, w')"
      "ctx_at V w2 h = None" "ctx_at V w' = (ctx_at V w2)(h \<mapsto> (eth_bridge_get_hdr_proc_type t (l2_type l), hdr_at V w2 hdl))"
      "flt_at V w' = flt_at V w2" "rt_at V w' = rt_at V w2"
    using law unfolding add_ctx_law_def by blast
  show ?thesis
  proof (rule that)
    show "eth_bridge_add_hdr_proc_ctx env l t w = (Some h, w')"
      using l w1(1) tmpl h(1) by (simp add: eth_bridge_add_hdr_proc_ctx_def AddHeaderProcCtx_def)
    show "ctx_at V w' = (ctx_at V w)(h \<mapsto> want_ctx l t)"
      using h(3) g(2,3) w1(2) by (simp add: want_ctx_def same_tables_def)
  qed (use h g w1 in \<open>simp_all add: same_tables_def\<close>)
qed

lemma eth_bridge_del_hdr_proc_ctx_ok:
  assumes k: "bridge_kernel_ok (dev env) V" and h: "ctx_at V w h \<noteq> None"
  shows "ctx_at V (eth_bridge_del_hdr_proc_ctx env h w) = (ctx_at V w)(h := None)"
    and "flt_at V (eth_bridge_del_hdr_proc_ctx env h w) = flt_at V w" and "rt_at V (eth_bridge_del_hdr_proc_ctx env h w) = rt_at V w"
proof -
  obtain w1 where w1: "dev_malloc (dev env) w = (True, w1)" "same_tables V w w1" by (rule malloc_ok [OF k])
  have "ctx_at V w1 h \<noteq> None" using h w1(2) by (simp add: same_tables_def)
  then obtain ret w' where w': "ioc_del_hdr_proc_ctx (dev env) h w1 = (ret, w')" "ctx_at V w' = (ctx_at V w1)(h := None)"
      "flt_at V w' = flt_at V w1" "rt_at V w' = rt_at V w1"
    using kernel_laws(11) [OF k] unfolding del_ctx_law_def by blast
  have eq: "eth_bridge_del_hdr_proc_ctx env h w = w'"
    using w1(1) w'(1) by (simp add: eth_bridge_del_hdr_proc_ctx_def DeleteHeaderProcCtx_def)
  show "ctx_at V (eth_bridge_del_hdr_proc_ctx env h w) = (ctx_at V w)(h := None)"
    "flt_at V (eth_bridge_del_hdr_proc_ctx env h w) = flt_at V w" "rt_at V (eth_bridge_del_hdr_proc_ctx env h w) = rt_at V w"
    unfolding eq using w'(2-4) w1(2) by (auto simp: same_tables_def)
qed

text \<open>
  Rewriting the rules of a client of a WLAN interface: the recorded rules are in place before and after, and lead to the pipe of
  the current mode after.
\<close>

lemma eth_bridge_modify_rt_rule_ok:
  fixes H :: "'q \<rightharpoonup> ipa_ip_type \<times> ipa_hdl"
  assumes k: "bridge_kernel_ok (dev env) V" and l: "lan_ok (dev env) l" and w: "steady env B W" "w \<in> W"
    and num: "num = int (each_client_rt_rule_count l ip)" "each_client_rt_rule_count l ip \<le> length hdls"
    and e: "exact_in H C (rt_at V w)" and qs: "length qs = each_client_rt_rule_count l ip" "distinct qs"
    and h: "\<And>n. n < length qs \<Longrightarrow> H (qs ! n) = Some (ip, hdls ! n)"
    and name: "\<And>n x. n < length qs \<Longrightarrow> x \<in> C (qs ! n) \<Longrightarrow> fst x = name"
    and new: "\<And>n mcc. is_wlan l \<Longrightarrow> n < length qs \<Longrightarrow> mcc \<in> B \<Longrightarrow> (name, want_rt env mcc l m ctx t ip ! n) \<in> C' (qs ! n)"
    and old: "\<And>q. H q \<noteq> None \<Longrightarrow> \<not> is_wlan l \<or> q \<notin> set qs \<Longrightarrow> C q \<subseteq> C' q"
  defines "w' \<equiv> eth_bridge_modify_rt_rule env l m ctx t ip hdls num w"
  shows "w' \<in> W \<and> exact_in H C' (rt_at V w') \<and> flt_at V w' = flt_at V w \<and> ctx_at V w' = ctx_at V w"
proof (cases "is_wlan l")
  case False
  then have "w' = w" by (simp add: w'_def eth_bridge_modify_rt_rule_def)
  then show ?thesis using exact_in_mono [OF e, of C'] old False w(2) by simp
next
  case True
  obtain w1 where w1: "dev_malloc (dev env) w = (True, w1)" "same_tables V w w1" by (rule malloc_ok [OF k])
  have in1: "w1 \<in> W" by (rule steadyD(2) [OF w w1(1)])
  define rs where "rs = want_rt env (isMCC_Mode env w1) l m ctx t ip"
  define a where "a = \<lparr>mrt_ip = ip, mrt_rules = zip hdls rs\<rparr>"
  have len: "length rs = each_client_rt_rule_count l ip" "length (zip hdls rs) = length qs" using num(2) qs(1) by (simp_all add: rs_def)
  obtain ts where tx: "tx_prop l = Some ts" using l by (cases "tx_prop l") (auto simp: lan_ok_def tx_list_def)
  have e1: "exact_in H C (rt_at V w1)" using e w1(2) by (simp add: same_tables_def)
  have "rt_at V w1 (ip, g) \<noteq> None" if "(g, r) \<in> set (zip hdls rs)" for g r
  proof -
    obtain n where n: "n < length rs" "g = hdls ! n" using \<open>(g, r) \<in> set (zip hdls rs)\<close> by (auto simp: set_zip)
    then show ?thesis using exact_inD [OF e1 h [of n]] len qs(1) by auto
  qed
  then have "\<forall>e\<in>set (mrt_rules a). rt_at V w1 (mrt_ip a, fst e) \<noteq> None" by (auto simp: a_def)
  then obtain w2 where w2: "ioc_mdfy_rt (dev env) a w1 = (0, w2)" "flt_at V w2 = flt_at V w1" "ctx_at V w2 = ctx_at V w1"
      "rt_at V w2 = fold (\<lambda>e m. m((mrt_ip a, fst e) := map_option (\<lambda>nr. (fst nr, snd e)) (m (mrt_ip a, fst e)))) (mrt_rules a) (rt_at V w1)"
    using kernel_laws(6) [OF k] unfolding mdfy_rt_law_def by blast
  have e2: "exact_in H C' (rt_at V w2)"
    unfolding w2(4) a_def ipa_ioc_mdfy_rt_rule.simps
  proof (rule exact_in_rewrite [where f = "Pair ip" and name = name, OF e1 _ qs(2)])
    fix n assume n: "n < length (zip hdls rs)"
    then have n': "n < length qs" by (simp only: len(2))
    show "H (qs ! n) = Some (ip, fst (zip hdls rs ! n))" using h [OF n'] n by simp
    show "fst x = name" if "x \<in> C (qs ! n)" for x using name [OF n' that] .
    show "(name, snd (zip hdls rs ! n)) \<in> C' (qs ! n)" using new [OF True n' steadyD(1) [OF w(1) in1]] n by (simp add: rs_def)
  qed (use len(2) old in auto)
  obtain ret w3 where w3: "ioc_commit_rt (dev env) ip w2 = (ret, w3)" "same_tables V w2 w3"
    using kernel_laws(7) [OF k] unfolding rt_tables_law_def by blast
  have in2: "w2 \<in> W" by (rule steadyD(3) [OF w(1) in1 w2(1)])
  have in3: "w3 \<in> W" by (rule steadyD(4) [OF w(1) in2 w3(1)])
  have "each_client_rt_rule_count l ip \<le> MAX_NUM_PROP" using l by (simp add: lan_ok_def)
  then have "w' = w3"
    using w1(1) w2(1) w3(1) kernel_laws(1) [OF k] True tx num len(1)
    by (simp add: w'_def eth_bridge_modify_rt_rule_def ModifyRoutingRule_def Routing_Commit_def a_def rs_def client_rt_rules_eq Let_def not_less)
  then show ?thesis using w1(2) w2(2,3) w3(2) e2 in3 by (simp add: same_tables_def)
qed

end
