(* ===== verification/LanToLan_Slots.thy ===== *)
theory LanToLan_Slots
  imports Bridge_Kernel
begin

text \<open>
  What the bridge records about the kernel's tables, place by place, and what the operations on one client and one peer do to
  these records: filter rules by interface, peer, client and IP type, routing rules by interface, client, header type of the peers
  (\<open>None\<close> within the interface), IP type and position, processing contexts by interface and header type.
\<close>

section \<open>Lookups\<close>

lemma find_if_upd:
  assumes "\<And>x. l2l_ptr x = i \<Longrightarrow> l2l_ptr (f x) = i"
  shows "find_if (upd_if i f s) j = (if j = i then map_option f (find_if s i) else find_if s j)"
  using assms by (simp add: find_if_def upd_if_def look_upd)

lemma find_if_ptr: "find_if s i = Some x \<Longrightarrow> l2l_ptr x = i"
  by (auto simp: find_if_def dest: look_key)

lemma find_if_world [simp]: "find_if (s\<lparr>l2l_world := w\<rparr>) i = find_if s i"
  by (simp add: find_if_def)

lemma find_if_cached [simp]: "find_if (s\<lparr>m_cached_client_add_event := es\<rparr>) i = find_if s i"
  by (simp add: find_if_def)

lemma upd_if_world [simp]: "l2l_world (upd_if i f s) = l2l_world s" "m_cached_client_add_event (upd_if i f s) = m_cached_client_add_event s"
  by (simp_all add: upd_if_def)

lemma upd_peer_simps [simp]:
  "m_p_iface (upd_peer p f x) = m_p_iface x" "m_is_ip_addr_assigned (upd_peer p f x) = m_is_ip_addr_assigned x"
  "m_support_inter_iface_offload (upd_peer p f x) = m_support_inter_iface_offload x"
  "m_support_intra_iface_offload (upd_peer p f x) = m_support_intra_iface_offload x"
  "ref_cnt_peer_l2_hdr_type (upd_peer p f x) = ref_cnt_peer_l2_hdr_type x"
  "hdr_proc_ctx_for_inter_interface (upd_peer p f x) = hdr_proc_ctx_for_inter_interface x"
  "hdr_proc_ctx_for_intra_interface (upd_peer p f x) = hdr_proc_ctx_for_intra_interface x"
  "m_client_info (upd_peer p f x) = m_client_info x" "l2l_ptr (upd_peer p f x) = l2l_ptr x"
  by (simp_all add: upd_peer_def l2l_ptr_def)

lemma upd_client_simps [simp]:
  "m_p_iface (upd_client m f x) = m_p_iface x" "m_is_ip_addr_assigned (upd_client m f x) = m_is_ip_addr_assigned x"
  "m_support_inter_iface_offload (upd_client m f x) = m_support_inter_iface_offload x"
  "m_support_intra_iface_offload (upd_client m f x) = m_support_intra_iface_offload x"
  "ref_cnt_peer_l2_hdr_type (upd_client m f x) = ref_cnt_peer_l2_hdr_type x"
  "hdr_proc_ctx_for_inter_interface (upd_client m f x) = hdr_proc_ctx_for_inter_interface x"
  "hdr_proc_ctx_for_intra_interface (upd_client m f x) = hdr_proc_ctx_for_intra_interface x"
  "m_peer_iface_info (upd_client m f x) = m_peer_iface_info x" "m_intra_interface_info (upd_client m f x) = m_intra_interface_info x"
  "l2l_ptr (upd_client m f x) = l2l_ptr x"
  by (simp_all add: upd_client_def l2l_ptr_def)

lemma peer_at_upd_peer:
  assumes "\<And>q. peer (f q) = peer q"
  shows "peer_at (upd_peer p f x) r = (if r = p then map_option f (peer_at x p) else peer_at x r)"
  using assms by (simp add: peer_at_def upd_peer_def look_upd l2l_ptr_def)

lemma peer_at_upd_client [simp]: "peer_at (upd_client m f x) p = peer_at x p"
  by (simp add: peer_at_def)

lemma l2l_client_upd_peer [simp]: "l2l_client (upd_peer p f x) m = l2l_client x m"
  by (simp add: l2l_client_def)

lemma l2l_client_upd_client:
  assumes "\<And>c. c_mac (f c) = c_mac c"
  shows "l2l_client (upd_client m f x) n = (if n = m then map_option f (l2l_client x m) else l2l_client x n)"
  using assms by (simp add: l2l_client_def upd_client_def look_upd)

section \<open>What is not a handle\<close>

definition bare_client :: "client_info \<Rightarrow> client_info" where
  "bare_client c = \<lparr>c_mac = c_mac c, inter_iface_rt_rule_hdl = (\<lambda>_. \<lparr>num_hdl = (\<lambda>_. 0), rule_hdl = (\<lambda>_. [])\<rparr>),
     intra_iface_rt_rule_hdl = \<lparr>num_hdl = (\<lambda>_. 0), rule_hdl = (\<lambda>_. [])\<rparr>\<rparr>"

definition bare :: "l2l_iface \<Rightarrow> l2l_iface" where
  "bare x = x\<lparr>hdr_proc_ctx_for_inter_interface := (\<lambda>_. 0), hdr_proc_ctx_for_intra_interface := 0,
     m_client_info := map bare_client (m_client_info x), m_peer_iface_info := map (\<lambda>q. q\<lparr>flt_rule := []\<rparr>) (m_peer_iface_info x),
     m_intra_interface_info := (m_intra_interface_info x)\<lparr>flt_rule := []\<rparr>\<rparr>"

text \<open>Two states with the same interfaces, clients and peers, that differ in handles only.\<close>

definition same_shape :: "'w lan2lan \<Rightarrow> 'w lan2lan \<Rightarrow> bool" where
  "same_shape s t \<longleftrightarrow> map bare (m_iface t) = map bare (m_iface s) \<and> m_cached_client_add_event t = m_cached_client_add_event s"

lemma same_shape_refl [simp]: "same_shape s s"
  by (simp add: same_shape_def)

lemma same_shape_trans [trans]: "same_shape s t \<Longrightarrow> same_shape t u \<Longrightarrow> same_shape s u"
  by (simp add: same_shape_def)

lemma same_shape_world [simp]: "same_shape s (t\<lparr>l2l_world := w\<rparr>) \<longleftrightarrow> same_shape s t" "same_shape (s\<lparr>l2l_world := w\<rparr>) t \<longleftrightarrow> same_shape s t"
  by (simp_all add: same_shape_def)

lemma same_shape_upd:
  assumes "\<And>x. l2l_ptr x = i \<Longrightarrow> bare (f x) = bare x"
  shows "same_shape s (upd_if i f s)"
  using assms by (simp add: same_shape_def upd_if_def map_upd_keep)

lemma bare_simps [simp]:
  "m_p_iface (bare x) = m_p_iface x" "l2l_ptr (bare x) = l2l_ptr x"
  by (simp_all add: bare_def l2l_ptr_def)

lemma bareD:
  assumes "bare x = bare y"
  shows "m_p_iface x = m_p_iface y" and "m_is_ip_addr_assigned x = m_is_ip_addr_assigned y"
    and "m_support_inter_iface_offload x = m_support_inter_iface_offload y"
    and "m_support_intra_iface_offload x = m_support_intra_iface_offload y"
    and "ref_cnt_peer_l2_hdr_type x = ref_cnt_peer_l2_hdr_type y"
    and "map c_mac (m_client_info x) = map c_mac (m_client_info y)"
    and "map (\<lambda>q. (peer q, rt_tbl_name_for_rt q, rt_tbl_name_for_flt q)) (m_peer_iface_info x) =
      map (\<lambda>q. (peer q, rt_tbl_name_for_rt q, rt_tbl_name_for_flt q)) (m_peer_iface_info y)"
    and "peer (m_intra_interface_info x) = peer (m_intra_interface_info y)"
    and "rt_tbl_name_for_rt (m_intra_interface_info x) = rt_tbl_name_for_rt (m_intra_interface_info y)"
    and "rt_tbl_name_for_flt (m_intra_interface_info x) = rt_tbl_name_for_flt (m_intra_interface_info y)"
proof -
  let ?g = "\<lambda>q. (peer q, rt_tbl_name_for_rt q, rt_tbl_name_for_flt q)"
  have c: "map c_mac (m_client_info (bare z)) = map c_mac (m_client_info z)" for z
    by (simp add: bare_def bare_client_def)
  have g: "map ?g (m_peer_iface_info (bare z)) = map ?g (m_peer_iface_info z)" for z
    by (simp add: bare_def)
  show "map c_mac (m_client_info x) = map c_mac (m_client_info y)" using c assms by metis
  show "map ?g (m_peer_iface_info x) = map ?g (m_peer_iface_info y)" using g [of x] g [of y] assms by simp
qed (use arg_cong [OF assms, of m_p_iface] arg_cong [OF assms, of m_is_ip_addr_assigned]
    arg_cong [OF assms, of m_support_inter_iface_offload] arg_cong [OF assms, of m_support_intra_iface_offload]
    arg_cong [OF assms, of ref_cnt_peer_l2_hdr_type] arg_cong [OF assms, of "\<lambda>z. peer (m_intra_interface_info z)"]
    arg_cong [OF assms, of "\<lambda>z. rt_tbl_name_for_rt (m_intra_interface_info z)"]
    arg_cong [OF assms, of "\<lambda>z. rt_tbl_name_for_flt (m_intra_interface_info z)"] in \<open>simp_all add: bare_def\<close>)

lemma look_map: "(\<And>x. key (f x) = key x) \<Longrightarrow> look key k (map f xs) = map_option f (look key k xs)"
  by (induction xs) auto

lemma same_shape_find:
  assumes "same_shape s t"
  shows "map_option bare (find_if t i) = map_option bare (find_if s i)"
  using assms by (simp add: same_shape_def find_if_def flip: look_map [of l2l_ptr bare])

lemma same_shape_Some:
  assumes "same_shape s t" and "find_if s i = Some x"
  obtains y where "find_if t i = Some y" "bare y = bare x"
  using same_shape_find [OF assms(1), of i] assms(2) by auto

section \<open>The places of the records\<close>

type_synonym flt_slot = "nat \<times> nat \<times> mac \<times> ipa_ip_type"
type_synonym rt_slot = "nat \<times> mac \<times> ipa_hdr_l2_type option \<times> ipa_ip_type \<times> nat"
type_synonym ctx_slot = "nat \<times> ipa_hdr_l2_type option"

definition lans :: "'w lan2lan \<Rightarrow> nat \<Rightarrow> lan option" where
  "lans s i = map_option m_p_iface (find_if s i)"

definition entry_hdl :: "peer_iface_info \<Rightarrow> mac \<Rightarrow> ipa_ip_type \<Rightarrow> (ipa_ip_type \<times> ipa_hdl) option" where
  "entry_hdl q m ip =
     (case look p_client m (flt_rule q) of None \<Rightarrow> None
      | Some e \<Rightarrow> if flt_rule_hdl e ip \<noteq> 0 then Some (ip, flt_rule_hdl e ip) else None)"

definition flt_rec :: "'w lan2lan \<Rightarrow> flt_slot \<Rightarrow> (ipa_ip_type \<times> ipa_hdl) option" where
  "flt_rec s = (\<lambda>(i, p, m, ip).
     (case find_if s i of None \<Rightarrow> None | Some x \<Rightarrow> (case peer_at x p of None \<Rightarrow> None | Some q \<Rightarrow> entry_hdl q m ip)))"

definition slot_info :: "ipa_hdr_l2_type option \<Rightarrow> client_info \<Rightarrow> rt_rule_info" where
  "slot_info sl c = (case sl of None \<Rightarrow> intra_iface_rt_rule_hdl c | Some t \<Rightarrow> inter_iface_rt_rule_hdl c t)"

definition info_hdl :: "rt_rule_info \<Rightarrow> ipa_ip_type \<Rightarrow> nat \<Rightarrow> (ipa_ip_type \<times> ipa_hdl) option" where
  "info_hdl r ip n = (if int n < num_hdl r ip then Some (ip, rule_hdl r ip ! n) else None)"

definition client_rec :: "'w lan2lan \<Rightarrow> nat \<Rightarrow> mac \<Rightarrow> client_info option" where
  "client_rec s i m = (case find_if s i of None \<Rightarrow> None | Some x \<Rightarrow> l2l_client x m)"

text \<open>The members that hold routing handles are valid for the clients and header types of \<open>VR\<close> only, the others are not initialised.\<close>

definition rt_rec :: "(nat \<times> mac \<times> ipa_hdr_l2_type option) set \<Rightarrow> 'w lan2lan \<Rightarrow> rt_slot \<Rightarrow> (ipa_ip_type \<times> ipa_hdl) option" where
  "rt_rec VR s = (\<lambda>(i, m, sl, ip, n).
     (if (i, m, sl) \<in> VR then (case client_rec s i m of None \<Rightarrow> None | Some c \<Rightarrow> info_hdl (slot_info sl c) ip n) else None))"

definition ctx_of :: "'w lan2lan \<Rightarrow> ctx_slot \<Rightarrow> ipa_hdl" where
  "ctx_of s = (\<lambda>(i, sl).
     (case find_if s i of None \<Rightarrow> 0
      | Some x \<Rightarrow> (case sl of None \<Rightarrow> hdr_proc_ctx_for_intra_interface x | Some t \<Rightarrow> hdr_proc_ctx_for_inter_interface x t)))"

definition ctx_rec :: "ctx_slot set \<Rightarrow> 'w lan2lan \<Rightarrow> ctx_slot \<Rightarrow> ipa_hdl option" where
  "ctx_rec VC s q = (if q \<in> VC then Some (ctx_of s q) else None)"

text \<open>What should be installed for each place.\<close>

definition flt_tbl :: "'w bridge_env \<Rightarrow> (nat \<Rightarrow> lan option) \<Rightarrow> nat \<Rightarrow> nat \<Rightarrow> ipa_ip_type \<Rightarrow> string" where
  "flt_tbl env L i p ip =
     (if p = i then intra_tbl_name env ip else rt_tbl_name env (l2_type (the (L i))) (l2_type (the (L p))) ip)"

definition flt_content ::
  "'w bridge_env \<Rightarrow> (nat \<Rightarrow> lan option) \<Rightarrow> flt_slot \<Rightarrow> nat \<times> ipa_flt_rule \<times> (ipa_ip_type \<times> string) option" where
  "flt_content env L = (\<lambda>(i, p, m, ip). want_flt env (the (L i)) m ip (flt_tbl env L i p ip))"

definition slot_type :: "(nat \<Rightarrow> lan option) \<Rightarrow> nat \<Rightarrow> ipa_hdr_l2_type option \<Rightarrow> ipa_hdr_l2_type" where
  "slot_type L i sl = (case sl of None \<Rightarrow> l2_type (the (L i)) | Some t \<Rightarrow> t)"

definition rt_tbl :: "'w bridge_env \<Rightarrow> (nat \<Rightarrow> lan option) \<Rightarrow> nat \<Rightarrow> ipa_hdr_l2_type option \<Rightarrow> ipa_ip_type \<Rightarrow> string" where
  "rt_tbl env L i sl ip =
     (case sl of None \<Rightarrow> intra_tbl_name env ip | Some t \<Rightarrow> rt_tbl_name env t (l2_type (the (L i))) ip)"

definition rt_content ::
  "'w bridge_env \<Rightarrow> bool \<Rightarrow> (nat \<Rightarrow> lan option) \<Rightarrow> (ctx_slot \<Rightarrow> ipa_hdl) \<Rightarrow> rt_slot \<Rightarrow> string \<times> ipa_rt_rule" where
  "rt_content env mcc L X = (\<lambda>(i, m, sl, ip, n).
     (rt_tbl env L i sl ip, want_rt env mcc (the (L i)) m (X (i, sl)) (slot_type L i sl) ip ! n))"

text \<open>The possible rules, for the modes \<open>M\<close> that the rule may have been installed in.\<close>

definition rt_contents ::
  "'w bridge_env \<Rightarrow> (rt_slot \<Rightarrow> bool set) \<Rightarrow> (nat \<Rightarrow> lan option) \<Rightarrow> (ctx_slot \<Rightarrow> ipa_hdl) \<Rightarrow> rt_slot \<Rightarrow> (string \<times> ipa_rt_rule) set" where
  "rt_contents env M L X z = (\<lambda>mcc. rt_content env mcc L X z) ` M z"

definition ctx_content :: "(nat \<Rightarrow> lan option) \<Rightarrow> ctx_slot \<Rightarrow> ipa_hdr_proc_type \<times> string option" where
  "ctx_content L = (\<lambda>(i, sl). want_ctx (the (L i)) (slot_type L i sl))"

text \<open>Valid members hold as many handles as the interface has transmit properties for the IP type.\<close>

definition rt_valid :: "(nat \<times> mac \<times> ipa_hdr_l2_type option) set \<Rightarrow> 'w lan2lan \<Rightarrow> bool" where
  "rt_valid VR s \<longleftrightarrow> (\<forall>i m sl. (i, m, sl) \<in> VR \<longrightarrow>
     (\<exists>l c. lans s i = Some l \<and> client_rec s i m = Some c \<and>
        (\<forall>ip. num_hdl (slot_info sl c) ip = int (each_client_rt_rule_count l ip) \<and>
           each_client_rt_rule_count l ip \<le> length (rule_hdl (slot_info sl c) ip))))"

definition tidy :: "'w lan2lan \<Rightarrow> bool" where
  "tidy s \<longleftrightarrow> (\<forall>i x p q. find_if s i = Some x \<longrightarrow> peer_at x p = Some q \<longrightarrow> distinct (map p_client (flt_rule q)))"

definition flt_booked :: "'w bridge_env \<Rightarrow> 'w kernel_view \<Rightarrow> 'w lan2lan \<Rightarrow> bool" where
  "flt_booked env V s \<longleftrightarrow> tidy s \<and> exact (flt_rec s) (flt_content env (lans s)) (flt_at V (l2l_world s))"

definition rt_booked_in ::
  "'w bridge_env \<Rightarrow> 'w kernel_view \<Rightarrow> (rt_slot \<Rightarrow> bool set) \<Rightarrow> (nat \<times> mac \<times> ipa_hdr_l2_type option) set \<Rightarrow> 'w lan2lan \<Rightarrow> bool" where
  "rt_booked_in env V M VR s \<longleftrightarrow> rt_valid VR s \<and> exact_in (rt_rec VR s) (rt_contents env M (lans s) (ctx_of s)) (rt_at V (l2l_world s))"

text \<open>In general a rule may stem from any mode the WLAN can be in.\<close>

abbreviation rt_booked ::
  "'w bridge_env \<Rightarrow> 'w kernel_view \<Rightarrow> (nat \<times> mac \<times> ipa_hdr_l2_type option) set \<Rightarrow> 'w lan2lan \<Rightarrow> bool" where
  "rt_booked env V VR s \<equiv> rt_booked_in env V (\<lambda>_. modes env) VR s"

definition ctx_booked :: "'w kernel_view \<Rightarrow> ctx_slot set \<Rightarrow> 'w lan2lan \<Rightarrow> bool" where
  "ctx_booked V VC s \<longleftrightarrow> exact (ctx_rec VC s) (ctx_content (lans s)) (ctx_at V (l2l_world s))"

lemma rt_contents_cong:
  assumes "exact_in H (rt_contents env M L X) v" and "\<And>z mcc. H z \<noteq> None \<Longrightarrow> rt_content env mcc L' X' z = rt_content env mcc L X z"
  shows "exact_in H (rt_contents env M L' X') v"
  by (rule exact_in_mono [OF assms(1)]) (simp add: rt_contents_def assms(2))

lemma lans_world [simp]: "lans (s\<lparr>l2l_world := w\<rparr>) = lans s"
  by (simp add: lans_def fun_eq_iff)

lemma same_shape_lans: "same_shape s t \<Longrightarrow> lans t = lans s"
proof (rule ext)
  fix i assume "same_shape s t"
  then have "map_option bare (find_if t i) = map_option bare (find_if s i)" by (rule same_shape_find)
  then have "map_option m_p_iface (map_option bare (find_if t i)) = map_option m_p_iface (map_option bare (find_if s i))"
    by (rule arg_cong)
  then show "lans t i = lans s i" by (simp add: lans_def option.map_comp comp_def)
qed

text \<open>The records that an operation leaves alone. They depend on the interfaces, and on clients or peers only.\<close>

definition peer_rec :: "'w lan2lan \<Rightarrow> nat \<Rightarrow> nat \<Rightarrow> peer_iface_info option" where
  "peer_rec s i p = (case find_if s i of None \<Rightarrow> None | Some x \<Rightarrow> peer_at x p)"

lemma rec_world [simp]:
  "peer_rec (s\<lparr>l2l_world := w\<rparr>) = peer_rec s" "client_rec (s\<lparr>l2l_world := w\<rparr>) = client_rec s"
  "ctx_of (s\<lparr>l2l_world := w\<rparr>) = ctx_of s" "flt_rec (s\<lparr>l2l_world := w\<rparr>) = flt_rec s"
  by (simp_all add: peer_rec_def client_rec_def ctx_of_def flt_rec_def fun_eq_iff)

lemma flt_rec_peer_rec: "flt_rec s (i, p, m, ip) = (case peer_rec s i p of None \<Rightarrow> None | Some q \<Rightarrow> entry_hdl q m ip)"
  by (simp add: flt_rec_def peer_rec_def split: option.split)

lemma tidy_peer_rec: "tidy s \<longleftrightarrow> (\<forall>i p q. peer_rec s i p = Some q \<longrightarrow> distinct (map p_client (flt_rule q)))"
  by (auto simp: tidy_def peer_rec_def split: option.splits)

lemma flt_booked_cong:
  assumes "flt_booked env V s" and "peer_rec t = peer_rec s" and "lans t = lans s" and "flt_at V (l2l_world t) = flt_at V (l2l_world s)"
  shows "flt_booked env V t" and "flt_rec t = flt_rec s"
proof -
  show *: "flt_rec t = flt_rec s" using assms(2) by (auto simp: fun_eq_iff flt_rec_peer_rec)
  show "flt_booked env V t" using assms * by (simp add: flt_booked_def tidy_peer_rec)
qed

lemma rt_booked_cong:
  assumes "rt_booked_in env V M VR s" and "client_rec t = client_rec s" and "lans t = lans s" and "ctx_of t = ctx_of s"
    and "rt_at V (l2l_world t) = rt_at V (l2l_world s)"
  shows "rt_booked_in env V M VR t"
proof -
  have "rt_rec VR t = rt_rec VR s" using assms(2) by (auto simp: fun_eq_iff rt_rec_def)
  then show ?thesis using assms by (simp add: rt_booked_in_def rt_valid_def)
qed

lemma ctx_booked_cong:
  assumes "ctx_booked V VC s" and "lans t = lans s" and "ctx_of t = ctx_of s" and "ctx_at V (l2l_world t) = ctx_at V (l2l_world s)"
  shows "ctx_booked V VC t"
proof -
  have "ctx_rec VC t = ctx_rec VC s" using assms(3) by (auto simp: fun_eq_iff ctx_rec_def)
  then show ?thesis using assms by (simp add: ctx_booked_def)
qed

section \<open>Filter rules\<close>

lemma peer_rec_upd:
  assumes "\<And>q. peer (f q) = peer q"
  shows "peer_rec (upd_if i (upd_peer p f) s) j r = (if j = i \<and> r = p then map_option f (peer_rec s i p) else peer_rec s j r)"
  using assms by (auto simp: peer_rec_def find_if_upd peer_at_upd_peer split: option.split)

lemma upd_peer_keeps:
  "client_rec (upd_if i (upd_peer p f) s) = client_rec s" "lans (upd_if i (upd_peer p f) s) = lans s"
  "ctx_of (upd_if i (upd_peer p f) s) = ctx_of s"
  by (auto simp: client_rec_def lans_def ctx_of_def find_if_upd fun_eq_iff option.map_comp comp_def split: option.split)

lemma upd_peer_same_shape:
  assumes "\<And>q. (f q)\<lparr>flt_rule := []\<rparr> = q\<lparr>flt_rule := []\<rparr>"
  shows "same_shape s (upd_if i (upd_peer p f) s)"
proof (rule same_shape_upd)
  fix x :: l2l_iface
  have "map (\<lambda>q. q\<lparr>flt_rule := []\<rparr>) (upd_node peer p f (m_peer_iface_info x)) = map (\<lambda>q. q\<lparr>flt_rule := []\<rparr>) (m_peer_iface_info x)"
    by (rule map_upd_keep) (rule assms)
  then show "bare (upd_peer p f x) = bare x" using assms by (simp add: bare_def upd_peer_def)
qed

lemma record_flt_peer [simp]: "peer (record_flt m ip h q) = peer q" "(record_flt m ip h q)\<lparr>flt_rule := []\<rparr> = q\<lparr>flt_rule := []\<rparr>"
  by (simp_all add: record_flt_def)

lemma entry_hdl_record:
  assumes "h \<noteq> 0"
  shows "entry_hdl (record_flt m ip h q) n jp = (if n = m \<and> jp = ip then Some (ip, h) else entry_hdl q n jp)"
proof (cases "look p_client m (flt_rule q)")
  case None
  then show ?thesis using assms by (auto simp: entry_hdl_def record_flt_def)
next
  case (Some e)
  then show ?thesis using assms by (auto simp: entry_hdl_def record_flt_def look_upd split: option.split)
qed

lemma distinct_record:
  assumes "distinct (map p_client (flt_rule q))"
  shows "distinct (map p_client (flt_rule (record_flt m ip h q)))"
  using assms by (auto simp: record_flt_def look_None split: option.split)

text \<open>A step that changes filter rules and their records only.\<close>

definition flt_step :: "'w bridge_env \<Rightarrow> 'w kernel_view \<Rightarrow> 'w lan2lan \<Rightarrow> 'w lan2lan \<Rightarrow> bool" where
  "flt_step env V s t \<longleftrightarrow> same_shape s t \<and> flt_booked env V t \<and> client_rec t = client_rec s \<and> ctx_of t = ctx_of s \<and>
     rt_at V (l2l_world t) = rt_at V (l2l_world s) \<and> ctx_at V (l2l_world t) = ctx_at V (l2l_world s)"

lemma flt_step_trans: "flt_step env V s t \<Longrightarrow> flt_step env V t u \<Longrightarrow> flt_step env V s u"
  by (auto simp: flt_step_def intro: same_shape_trans)

lemma flt_step_refl: "flt_booked env V s \<Longrightarrow> flt_step env V s s"
  by (simp add: flt_step_def)

lemma flt_stepD:
  assumes "flt_step env V s t"
  shows "same_shape s t" and "flt_booked env V t" and "lans t = lans s"
    and "rt_booked env V VR s \<Longrightarrow> rt_booked env V VR t" and "ctx_booked V VC s \<Longrightarrow> ctx_booked V VC t"
proof -
  show "same_shape s t" "flt_booked env V t" using assms by (simp_all add: flt_step_def)
  then show L: "lans t = lans s" by (simp add: same_shape_lans)
  show "rt_booked env V VR t" if "rt_booked env V VR s"
    by (rule rt_booked_cong [OF that]) (use assms L in \<open>simp_all add: flt_step_def\<close>)
  show "ctx_booked V VC t" if "ctx_booked V VC s"
    by (rule ctx_booked_cong [OF that]) (use assms L in \<open>simp_all add: flt_step_def\<close>)
qed

text \<open>\<open>add_client_flt_rule\<close> for a client whose routing rules are in place.\<close>

lemma add_client_flt_rule_ok:
  assumes k: "bridge_kernel_ok (dev env) V" and b: "flt_booked env V s"
    and x: "find_if s i = Some x" "tx_prop (m_p_iface x) \<noteq> None" "rx_prop (m_p_iface x) \<noteq> None"
    and q: "peer_at x p = Some q" "rt_tbl_name_for_flt q ip = flt_tbl env (lans s) i p ip"
    and r: "table_ready V (l2l_world s) ip (flt_tbl env (lans s) i p ip)" and new: "flt_rec s (i, p, m, ip) = None"
  obtains s' h where "add_client_flt_rule env i p m ip s = Some s'" "flt_step env V s s'"
    "flt_rec s' = (flt_rec s)((i, p, m, ip) \<mapsto> (ip, h))"
proof -
  let ?w = "l2l_world s" and ?name = "flt_tbl env (lans s) i p ip"
  obtain hdl w1 where g: "GetRoutingTable (dev env) ip ?name ?w = (True, hdl, w1)" "same_tables V ?w w1" "tbl_at V w1 hdl = Some (ip, ?name)"
    by (rule GetRoutingTable_ok [OF k r])
  obtain h w2 where a: "eth_bridge_add_flt_rule env (m_p_iface x) m hdl ip w1 = (Some h, w2)" "h \<noteq> 0" "flt_at V w1 (ip, h) = None"
      "flt_at V w2 = (flt_at V w1)((ip, h) \<mapsto> want_flt env (m_p_iface x) m ip ?name)" "rt_at V w2 = rt_at V w1" "ctx_at V w2 = ctx_at V w1"
    by (rule eth_bridge_add_flt_rule_ok [OF k x(2,3) g(3)])
  define s' where "s' = upd_if i (upd_peer p (record_flt m ip h)) (s\<lparr>l2l_world := w2\<rparr>)"
  have prec: "peer_rec s' j t = (if j = i \<and> t = p then Some (record_flt m ip h q) else peer_rec s j t)" for j t
    using x(1) q(1) by (simp add: s'_def peer_rec_upd) (simp add: peer_rec_def)
  have pr: "peer_rec s i p = Some q" using x(1) q(1) by (simp add: peer_rec_def)
  have frec: "flt_rec s' = (flt_rec s)((i, p, m, ip) \<mapsto> (ip, h))"
  proof (rule ext)
    fix z :: flt_slot
    obtain j t n jp where z: "z = (j, t, n, jp)" by (cases z)
    show "flt_rec s' z = ((flt_rec s)((i, p, m, ip) \<mapsto> (ip, h))) z"
      by (cases "j = i \<and> t = p") (auto simp: z flt_rec_peer_rec prec entry_hdl_record [OF a(2)] pr)
  qed
  have L: "lans s' = lans s" by (simp add: s'_def upd_peer_keeps)
  have "lans s i = Some (m_p_iface x)" using x(1) by (simp add: lans_def)
  then have c: "flt_content env (lans s) (i, p, m, ip) = want_flt env (m_p_iface x) m ip ?name" by (simp add: flt_content_def)
  have f1: "flt_at V w1 = flt_at V ?w" using g(2) by (simp add: same_tables_def)
  have e: "exact (flt_rec s') (flt_content env (lans s')) (flt_at V (l2l_world s'))"
    using exact_add [of "flt_rec s" "flt_content env (lans s)" "flt_at V ?w" "(i, p, m, ip)" "(ip, h)"] b new a(3,4) f1 c
    unfolding frec L by (simp add: flt_booked_def s'_def)
  have dq: "distinct (map p_client (flt_rule q))" using b pr by (simp add: flt_booked_def tidy_peer_rec)
  have t: "tidy s'"
    using b distinct_record [OF dq] unfolding tidy_peer_rec prec flt_booked_def by auto
  show ?thesis
  proof (rule that [of s' h])
    show "add_client_flt_rule env i p m ip s = Some s'"
      using x(1) q g(1) a(1) by (simp add: add_client_flt_rule_def s'_def)
    show "flt_rec s' = (flt_rec s)((i, p, m, ip) \<mapsto> (ip, h))" by (rule frec)
    have "same_shape s s'" unfolding s'_def by (rule same_shape_trans [OF _ upd_peer_same_shape]) simp_all
    moreover have "flt_booked env V s'" using e t by (simp add: flt_booked_def)
    moreover have "rt_at V (l2l_world s') = rt_at V ?w"
      using a(5) g(2) by (simp add: s'_def same_tables_def)
    ultimately show "flt_step env V s s'"
      using a(6) g(2) unfolding flt_step_def by (simp add: s'_def same_tables_def upd_peer_keeps)
  qed
qed

lemma UNIV_ip_type: "UNIV = {IPA_IP_v4, IPA_IP_v6}"
  using ipa_ip_type.exhaust by blast

text \<open>Deleting the rules of one record, for the IP types that have an address.\<close>

lemma del_flt_one_ip:
  assumes k: "bridge_kernel_ok (dev env) V" and e: "exact H c (flt_at V w)" and q: "H q = (if h \<noteq> 0 then Some (ip, h) else None)"
    and a: "h \<noteq> 0 \<Longrightarrow> a"
  defines "w' \<equiv> if a then eth_bridge_del_flt_rule env h ip w else w"
  shows "exact (H(q := None)) c (flt_at V w') \<and> rt_at V w' = rt_at V w \<and> ctx_at V w' = ctx_at V w"
proof (cases "h = 0")
  case True
  then have "H(q := None) = H" using q by auto
  moreover have "same_tables V w w'" using eth_bridge_del_flt_rule_zero [OF k, of w ip] True by (simp add: w'_def same_tables_def)
  ultimately show ?thesis using e by (simp add: same_tables_def)
next
  case False
  then have "flt_at V w (ip, h) \<noteq> None" using exactD [OF e] q by auto
  note d = eth_bridge_del_flt_rule_ok [OF k this]
  show ?thesis using exact_del [OF e, of q "(ip, h)"] q a False d by (simp add: w'_def)
qed

lemma del_assigned_ok:
  assumes k: "bridge_kernel_ok (dev env) V" and e: "exact H c (flt_at V w)"
    and q: "\<And>ip. H (g ip) = (if flt_rule_hdl en ip \<noteq> 0 then Some (ip, flt_rule_hdl en ip) else None)" and g: "inj g"
    and a: "\<And>ip. flt_rule_hdl en ip \<noteq> 0 \<Longrightarrow> m_is_ip_addr_assigned x ip"
  shows "exact (\<lambda>r. if r \<in> range g then None else H r) c (flt_at V (del_assigned env x en w)) \<and>
    rt_at V (del_assigned env x en w) = rt_at V w \<and> ctx_at V (del_assigned env x en w) = ctx_at V w"
proof -
  define w1 where "w1 = (if m_is_ip_addr_assigned x IPA_IP_v4 then eth_bridge_del_flt_rule env (flt_rule_hdl en IPA_IP_v4) IPA_IP_v4 w else w)"
  define w2 where "w2 = (if m_is_ip_addr_assigned x IPA_IP_v6 then eth_bridge_del_flt_rule env (flt_rule_hdl en IPA_IP_v6) IPA_IP_v6 w1 else w1)"
  have d: "del_assigned env x en w = w2" by (simp add: del_assigned_def w1_def w2_def Let_def)
  have 1: "exact (H(g IPA_IP_v4 := None)) c (flt_at V w1) \<and> rt_at V w1 = rt_at V w \<and> ctx_at V w1 = ctx_at V w"
    unfolding w1_def by (rule del_flt_one_ip [OF k e q]) (rule a)
  have ne: "g IPA_IP_v6 \<noteq> g IPA_IP_v4" using g by (auto dest: injD)
  have "exact (H(g IPA_IP_v4 := None, g IPA_IP_v6 := None)) c (flt_at V w2) \<and> rt_at V w2 = rt_at V w1 \<and> ctx_at V w2 = ctx_at V w1"
    unfolding w2_def
  proof (rule del_flt_one_ip [OF k])
    show "(H(g IPA_IP_v4 := None)) (g IPA_IP_v6) =
        (if flt_rule_hdl en IPA_IP_v6 \<noteq> 0 then Some (IPA_IP_v6, flt_rule_hdl en IPA_IP_v6) else None)"
      using q [of IPA_IP_v6] ne by simp
  qed (use 1 a in auto)
  moreover have "H(g IPA_IP_v4 := None, g IPA_IP_v6 := None) = (\<lambda>r. if r \<in> range g then None else H r)"
  proof (rule ext)
    have "range g = {g IPA_IP_v4, g IPA_IP_v6}" by (simp add: UNIV_ip_type)
    then show "(H(g IPA_IP_v4 := None, g IPA_IP_v6 := None)) r = (if r \<in> range g then None else H r)" for r by simp
  qed
  ultimately show ?thesis using 1 d by simp
qed

lemma del_assigned_fold:
  assumes k: "bridge_kernel_ok (dev env) V" and e: "exact H c (flt_at V w)" and d: "distinct (map p_client es)"
    and q: "\<And>en ip. en \<in> set es \<Longrightarrow> H (i, p, p_client en, ip) = (if flt_rule_hdl en ip \<noteq> 0 then Some (ip, flt_rule_hdl en ip) else None)"
    and a: "\<And>en ip. en \<in> set es \<Longrightarrow> flt_rule_hdl en ip \<noteq> 0 \<Longrightarrow> m_is_ip_addr_assigned x ip"
  shows "exact (\<lambda>r. if \<exists>en\<in>set es. \<exists>ip. r = (i, p, p_client en, ip) then None else H r) c (flt_at V (fold (del_assigned env x) es w)) \<and>
    rt_at V (fold (del_assigned env x) es w) = rt_at V w \<and> ctx_at V (fold (del_assigned env x) es w) = ctx_at V w"
  using e d q a
proof (induction es arbitrary: H w)
  case Nil
  then show ?case by simp
next
  case (Cons en es)
  let ?g = "\<lambda>ip. (i, p, p_client en, ip)" and ?w = "del_assigned env x en w"
  have g: "inj ?g" by (rule injI) simp
  define H' where "H' = (\<lambda>r. if r \<in> range ?g then None else H r)"
  have 1: "exact H' c (flt_at V ?w) \<and> rt_at V ?w = rt_at V w \<and> ctx_at V ?w = ctx_at V w"
    unfolding H'_def by (rule del_assigned_ok [OF k Cons.prems(1) _ g]) (use Cons.prems(3,4) in auto)
  have 2: "exact (\<lambda>r. if \<exists>en\<in>set es. \<exists>ip. r = (i, p, p_client en, ip) then None else H' r) c (flt_at V (fold (del_assigned env x) es ?w)) \<and>
    rt_at V (fold (del_assigned env x) es ?w) = rt_at V ?w \<and> ctx_at V (fold (del_assigned env x) es ?w) = ctx_at V ?w"
  proof (rule Cons.IH)
    fix f ip assume f: "f \<in> set es"
    then have "p_client f \<noteq> p_client en"
      using Cons.prems(2) by (metis distinct.simps(2) image_eqI list.map(2) list.set_map)
    then show "H' (i, p, p_client f, ip) = (if flt_rule_hdl f ip \<noteq> 0 then Some (ip, flt_rule_hdl f ip) else None)"
      using Cons.prems(3) [of f ip] f by (simp add: H'_def image_iff)
  qed (use 1 Cons.prems in auto)
  have "(\<lambda>r. if \<exists>en\<in>set es. \<exists>ip. r = (i, p, p_client en, ip) then None else H' r) =
      (\<lambda>r. if \<exists>en\<in>set (en # es). \<exists>ip. r = (i, p, p_client en, ip) then None else H r)"
    by (auto simp: H'_def fun_eq_iff image_iff)
  then show ?case using 1 2 by simp
qed

text \<open>Dropping records of a peer together with their rules.\<close>

lemma flt_dropped:
  assumes b: "flt_booked env V s" and pr: "peer_rec s i p = Some q"
    and f: "\<And>q. (f q)\<lparr>flt_rule := []\<rparr> = q\<lparr>flt_rule := []\<rparr>" and d: "distinct (map p_client (flt_rule (f q)))"
    and ent: "\<And>m ip. entry_hdl (f q) m ip = (if m \<in> M then None else entry_hdl q m ip)"
    and e: "exact (\<lambda>z. if \<exists>m\<in>M. \<exists>ip. z = (i, p, m, ip) then None else flt_rec s z) (flt_content env (lans s)) (flt_at V w')"
    and w: "rt_at V w' = rt_at V (l2l_world s)" "ctx_at V w' = ctx_at V (l2l_world s)"
  defines "s' \<equiv> upd_if i (upd_peer p f) (s\<lparr>l2l_world := w'\<rparr>)"
  shows "flt_step env V s s'" and "flt_rec s' = (\<lambda>z. if \<exists>m\<in>M. \<exists>ip. z = (i, p, m, ip) then None else flt_rec s z)"
proof -
  have fp: "peer (f q) = peer q" for q using arg_cong [OF f, of peer q] by simp
  have prec: "peer_rec s' j t = (if j = i \<and> t = p then Some (f q) else peer_rec s j t)" for j t
    using pr by (simp add: s'_def peer_rec_upd [OF fp])
  show frec: "flt_rec s' = (\<lambda>z. if \<exists>m\<in>M. \<exists>ip. z = (i, p, m, ip) then None else flt_rec s z)"
  proof (rule ext)
    fix z :: flt_slot
    obtain j t n jp where z: "z = (j, t, n, jp)" by (cases z)
    show "flt_rec s' z = (if \<exists>m\<in>M. \<exists>ip. z = (i, p, m, ip) then None else flt_rec s z)"
      by (cases "j = i \<and> t = p") (auto simp: z flt_rec_peer_rec prec ent pr)
  qed
  have L: "lans s' = lans s" by (simp add: s'_def upd_peer_keeps)
  have t: "tidy s'" using b d unfolding tidy_peer_rec prec flt_booked_def by auto
  have "flt_booked env V s'" using e t L frec by (simp add: flt_booked_def s'_def)
  moreover have "same_shape s s'" unfolding s'_def by (rule same_shape_trans [OF _ upd_peer_same_shape]) (simp_all add: f)
  ultimately show "flt_step env V s s'"
    using w unfolding flt_step_def by (simp add: s'_def upd_peer_keeps)
qed

lemma del_client_flt_rule_ok:
  assumes k: "bridge_kernel_ok (dev env) V" and b: "flt_booked env V s" and x: "find_if s i = Some x" and q: "peer_at x p = Some q"
    and a: "\<And>ip. flt_rec s (i, p, m, ip) \<noteq> None \<Longrightarrow> m_is_ip_addr_assigned x ip"
  obtains s' where "del_client_flt_rule env i p m s = Some s'" "flt_step env V s s'"
    "flt_rec s' = (\<lambda>z. if \<exists>ip. z = (i, p, m, ip) then None else flt_rec s z)"
proof (cases "look p_client m (flt_rule q)")
  case None
  have "entry_hdl q m ip = None" for ip using None by (simp add: entry_hdl_def)
  then have "flt_rec s = (\<lambda>z. if \<exists>ip. z = (i, p, m, ip) then None else flt_rec s z)"
    using x q by (auto simp: fun_eq_iff flt_rec_def)
  then show ?thesis using that [of s] None x q flt_step_refl [OF b] by (simp add: del_client_flt_rule_def)
next
  case (Some en)
  have pr: "peer_rec s i p = Some q" using x q by (simp add: peer_rec_def)
  have d: "distinct (map p_client (flt_rule q))" using b pr by (simp add: flt_booked_def tidy_peer_rec)
  let ?g = "\<lambda>ip. (i, p, m, ip)" and ?w = "del_assigned env x en (l2l_world s)"
  let ?f = "\<lambda>q. q\<lparr>flt_rule := del_node p_client m (flt_rule q)\<rparr>"
  have g: "inj ?g" by (rule injI) simp
  have h: "flt_rec s (?g ip) = (if flt_rule_hdl en ip \<noteq> 0 then Some (ip, flt_rule_hdl en ip) else None)" for ip
    using Some pr by (simp add: flt_rec_peer_rec entry_hdl_def)
  have "exact (\<lambda>r. if r \<in> range ?g then None else flt_rec s r) (flt_content env (lans s)) (flt_at V ?w) \<and>
      rt_at V ?w = rt_at V (l2l_world s) \<and> ctx_at V ?w = ctx_at V (l2l_world s)"
  proof (rule del_assigned_ok [OF k _ h g])
    show "exact (flt_rec s) (flt_content env (lans s)) (flt_at V (l2l_world s))" using b by (simp add: flt_booked_def)
    show "m_is_ip_addr_assigned x ip" if "flt_rule_hdl en ip \<noteq> 0" for ip using a [of ip] h [of ip] that by simp
  qed
  then have e: "exact (\<lambda>z. if \<exists>n\<in>{m}. \<exists>ip. z = (i, p, n, ip) then None else flt_rec s z) (flt_content env (lans s)) (flt_at V ?w)"
    and w: "rt_at V ?w = rt_at V (l2l_world s)" "ctx_at V ?w = ctx_at V (l2l_world s)"
    by (simp_all add: image_iff)
  have ent: "entry_hdl (?f q) n ip = (if n \<in> {m} then None else entry_hdl q n ip)" for n ip
    using look_del [OF d] by (simp add: entry_hdl_def)
  have dd: "distinct (map p_client (flt_rule (?f q)))" using d by (simp add: keys_del)
  note step = flt_dropped [where f = ?f, OF b pr _ dd ent e w]
  show ?thesis
    by (rule that [of "upd_if i (upd_peer p ?f) (s\<lparr>l2l_world := ?w\<rparr>)"])
      (use Some x q step in \<open>simp_all add: del_client_flt_rule_def\<close>)
qed

lemma clear_all_flt_ok:
  assumes k: "bridge_kernel_ok (dev env) V" and b: "flt_booked env V s" and x: "find_if s i = Some x" and q: "peer_at x p = Some q"
    and a: "\<And>m ip. flt_rec s (i, p, m, ip) \<noteq> None \<Longrightarrow> m_is_ip_addr_assigned x ip"
  obtains s' where "clear_all_flt_rule_for_one_peer_iface env i p s = Some s'" "flt_step env V s s'"
    "flt_rec s' = (\<lambda>z. if \<exists>m ip. z = (i, p, m, ip) then None else flt_rec s z)"
proof -
  have pr: "peer_rec s i p = Some q" using x q by (simp add: peer_rec_def)
  have d: "distinct (map p_client (flt_rule q))" using b pr by (simp add: flt_booked_def tidy_peer_rec)
  let ?w = "fold (del_assigned env x) (flt_rule q) (l2l_world s)" and ?f = "\<lambda>q. q\<lparr>flt_rule := []\<rparr>"
  have h: "flt_rec s (i, p, p_client en, ip) = (if flt_rule_hdl en ip \<noteq> 0 then Some (ip, flt_rule_hdl en ip) else None)"
    if "en \<in> set (flt_rule q)" for en ip
    using look_member [OF d that] pr by (simp add: flt_rec_peer_rec entry_hdl_def)
  have "exact (\<lambda>r. if \<exists>en\<in>set (flt_rule q). \<exists>ip. r = (i, p, p_client en, ip) then None else flt_rec s r) (flt_content env (lans s)) (flt_at V ?w) \<and>
      rt_at V ?w = rt_at V (l2l_world s) \<and> ctx_at V ?w = ctx_at V (l2l_world s)"
  proof (rule del_assigned_fold [OF k _ d h])
    show "exact (flt_rec s) (flt_content env (lans s)) (flt_at V (l2l_world s))" using b by (simp add: flt_booked_def)
    show "m_is_ip_addr_assigned x ip" if "en \<in> set (flt_rule q)" "flt_rule_hdl en ip \<noteq> 0" for en ip
      using a [of "p_client en" ip] h [of en ip] that by simp
  qed
  moreover have "(\<lambda>r. if \<exists>en\<in>set (flt_rule q). \<exists>ip. r = (i, p, p_client en, ip) then None else flt_rec s r) =
      (\<lambda>z. if \<exists>m\<in>UNIV. \<exists>ip. z = (i, p, m, ip) then None else flt_rec s z)"
  proof (rule ext)
    fix z :: flt_slot
    have none: "entry_hdl q m ip = None" if "m \<notin> p_client ` set (flt_rule q)" for m ip
      using that by (simp add: entry_hdl_def look_None [THEN iffD2])
    show "(if \<exists>en\<in>set (flt_rule q). \<exists>ip. z = (i, p, p_client en, ip) then None else flt_rec s z) =
        (if \<exists>m\<in>UNIV. \<exists>ip. z = (i, p, m, ip) then None else flt_rec s z)"
      using none pr by (cases z) (auto simp: flt_rec_peer_rec image_iff)
  qed
  ultimately have e: "exact (\<lambda>z. if \<exists>m\<in>UNIV. \<exists>ip. z = (i, p, m, ip) then None else flt_rec s z) (flt_content env (lans s)) (flt_at V ?w)"
    and w: "rt_at V ?w = rt_at V (l2l_world s)" "ctx_at V ?w = ctx_at V (l2l_world s)"
    by simp_all
  have ent: "entry_hdl (?f q) n ip = (if n \<in> UNIV then None else entry_hdl q n ip)" for n ip by (simp add: entry_hdl_def)
  have dd: "distinct (map p_client (flt_rule (?f q)))" by simp
  note step = flt_dropped [where f = ?f, OF b pr _ dd ent e w]
  show ?thesis
    by (rule that [of "upd_if i (upd_peer p ?f) (s\<lparr>l2l_world := ?w\<rparr>)"])
      (use x q step in \<open>simp_all add: clear_all_flt_rule_for_one_peer_iface_def\<close>)
qed

section \<open>Routing rules\<close>

definition rt_hdl_place :: "nat \<Rightarrow> mac \<Rightarrow> ipa_hdr_l2_type option \<Rightarrow> ipa_ip_type \<Rightarrow> ipa_hdl list \<Rightarrow> rt_slot \<Rightarrow> (ipa_ip_type \<times> ipa_hdl) option" where
  "rt_hdl_place i m sl ip hdls = (\<lambda>(j, n, sk, jp, k). if (j, n, sk, jp) = (i, m, sl, ip) \<and> k < length hdls then Some (ip, hdls ! k) else None)"

lemma exact_add_place:
  assumes e: "exact H c v" and d: "distinct hdls" and new: "\<And>k. H (i, m, sl, ip, k) = None" and fresh: "\<And>h. h \<in> set hdls \<Longrightarrow> v (ip, h) = None"
    and cs: "length cs = length hdls" "\<And>k. k < length hdls \<Longrightarrow> cs ! k = c (i, m, sl, ip, k)"
  shows "exact (H ++ rt_hdl_place i m sl ip hdls) c (v ++ map_of (zip (map (Pair ip) hdls) cs))"
proof -
  let ?qs = "map (\<lambda>k. (i, m, sl, ip, k)) [0..<length hdls]" and ?ks = "map (Pair ip) hdls"
  have "map c ?qs = cs" by (rule nth_equalityI) (use cs in simp_all)
  moreover have "exact (H ++ map_of (zip ?qs ?ks)) c (v ++ map_of (zip ?ks (map c ?qs)))"
  proof (rule exact_add_list [OF e])
    show "distinct ?ks" using d by (simp add: distinct_map inj_on_def)
    show "distinct ?qs" by (simp add: distinct_map inj_on_def)
  qed (use new fresh in auto)
  moreover have eq: "map_of (zip ?qs ?ks) z = rt_hdl_place i m sl ip hdls z" for z
  proof (cases "z \<in> set ?qs")
    case True
    then obtain k where k: "k < length hdls" "z = ?qs ! k" by (auto simp: in_set_conv_nth)
    have "map_of (zip ?qs ?ks) (?qs ! k) = Some (?ks ! k)"
      by (rule map_of_zip_nth) (use k in \<open>simp_all add: distinct_map inj_on_def\<close>)
    then show ?thesis using k by (simp add: rt_hdl_place_def)
  next
    case False
    then have "map_of (zip ?qs ?ks) z = None" by (subst map_of_zip_is_None) auto
    then show ?thesis using False by (cases z) (auto simp: rt_hdl_place_def)
  qed
  then have "map_of (zip ?qs ?ks) = rt_hdl_place i m sl ip hdls" by (rule ext)
  ultimately show ?thesis by simp
qed

lemma exact_in_add_place:
  assumes "exact_in H C v" and d: "distinct hdls" and new: "\<And>k. H (i, m, sl, ip, k) = None" and fresh: "\<And>h. h \<in> set hdls \<Longrightarrow> v (ip, h) = None"
    and cs: "length cs = length hdls" "\<And>k. k < length hdls \<Longrightarrow> cs ! k \<in> C (i, m, sl, ip, k)"
  shows "exact_in (H ++ rt_hdl_place i m sl ip hdls) C (v ++ map_of (zip (map (Pair ip) hdls) cs))"
  using assms(1)
proof (rule exact_inE)
  fix c assume e: "exact H c v" and c: "\<And>q. H q \<noteq> None \<Longrightarrow> c q \<in> C q"
  define c' where "c' = (\<lambda>(j, n, sk, jp, k). if (j, n, sk, jp) = (i, m, sl, ip) then cs ! k else c (j, n, sk, jp, k))"
  have new': "c' (i, m, sl, ip, k) = cs ! k" for k by (simp add: c'_def)
  have same: "c' q = c q" if "H q \<noteq> None" for q using new that by (cases q) (auto simp: c'_def)
  have e': "exact H c' v" by (rule exact_cong [OF e same])
  have "exact (H ++ rt_hdl_place i m sl ip hdls) c' (v ++ map_of (zip (map (Pair ip) hdls) cs))"
    by (rule exact_add_place [OF e' d new fresh cs(1)]) (simp_all add: new')
  then show ?thesis
  proof (rule exact_inI)
    fix q assume q: "(H ++ rt_hdl_place i m sl ip hdls) q \<noteq> None"
    obtain j n sk jp k where z: "q = (j, n, sk, jp, k)" by (cases q)
    show "c' q \<in> C q"
    proof (cases "(j, n, sk, jp) = (i, m, sl, ip)")
      case True
      then have "k < length hdls" using q new by (auto simp: z map_add_def rt_hdl_place_def split: if_splits)
      then show ?thesis using True cs(2) by (simp add: z c'_def)
    next
      case False
      then have "H q \<noteq> None" using q by (auto simp: z map_add_def rt_hdl_place_def)
      then show ?thesis using c [of q] same [of q] by simp
    qed
  qed
qed

lemma add_rt_for_ip_ok:
  assumes k: "bridge_kernel_ok (dev env) V" and l: "lan_ok (dev env) l" and e: "exact_in (H :: rt_slot \<Rightarrow> (ipa_ip_type \<times> ipa_hdl) option) C (rt_at V w)"
    and new: "\<And>k. H (i, m, sl, ip, k) = None"
    and c: "\<And>mcc k. mcc \<in> modes env \<Longrightarrow> k < each_client_rt_rule_count l ip \<Longrightarrow> (tbl ip, want_rt env mcc l m ctx t ip ! k) \<in> C (i, m, sl, ip, k)"
  obtains hdls locals' r' w' where "add_rt_for_ip env l m tbl ctx t ip (locals, r, w) = Some (locals', r', w')"
    "length hdls = each_client_rt_rule_count l ip" "num_hdl r' = (num_hdl r)(ip := int (length hdls))"
    "rule_hdl r' = (rule_hdl r)(ip := hdls @ drop (length hdls) (rule_hdl r ip))"
    "exact_in (H ++ rt_hdl_place i m sl ip hdls) C (rt_at V w')" "flt_at V w' = flt_at V w" "ctx_at V w' = ctx_at V w"
proof -
  obtain num hs where loc: "locals = (num, hs)" by (cases locals)
  obtain hdls mcc w' where a: "eth_bridge_add_rt_rule env l m (tbl ip) ctx t ip w = (Some hdls, w')"
      "length hdls = each_client_rt_rule_count l ip" "distinct hdls" "mcc \<in> modes env" "\<forall>h\<in>set hdls. rt_at V w (ip, h) = None"
      "rt_at V w' = rt_at V w ++ map_of (zip (map (Pair ip) hdls) (map (Pair (tbl ip)) (want_rt env mcc l m ctx t ip)))"
      "flt_at V w' = flt_at V w" "ctx_at V w' = ctx_at V w"
    by (rule eth_bridge_add_rt_rule_ok [OF k l])
  have count: "length hdls \<le> MAX_NUM_PROP" using l a(2) by (simp add: lan_ok_def)
  have "exact_in (H ++ rt_hdl_place i m sl ip hdls) C (rt_at V w')"
    unfolding a(6) by (rule exact_in_add_place [OF e a(3) new]) (use a(2,5) c [OF a(4)] in simp_all)
  then show ?thesis
    using that [of "(int (length hdls), hdls @ drop (length hdls) hs)"
        "r\<lparr>num_hdl := (num_hdl r)(ip := int (length hdls)), rule_hdl := (rule_hdl r)(ip := hdls @ drop (length hdls) (rule_hdl r ip))\<rparr>" w' hdls]
      a count by (simp add: add_rt_for_ip_def loc)
qed

lemma info_hdl_set:
  assumes "num_hdl r' = (num_hdl r)(ip := int (length hdls))" and "rule_hdl r' = (rule_hdl r)(ip := hdls @ rest)"
  shows "info_hdl r' jp k = (if jp = ip then (if k < length hdls then Some (ip, hdls ! k) else None) else info_hdl r jp k)"
  using assms by (simp add: info_hdl_def nth_append)

text \<open>Both IP types: the records of the client become valid.\<close>

lemma add_rt_both_ok:
  assumes k: "bridge_kernel_ok (dev env) V" and l: "lan_ok (dev env) l" and e: "exact_in (H :: rt_slot \<Rightarrow> (ipa_ip_type \<times> ipa_hdl) option) C (rt_at V w)"
    and new: "\<And>ip k. H (i, m, sl, ip, k) = None"
    and c: "\<And>mcc ip k. mcc \<in> modes env \<Longrightarrow> k < each_client_rt_rule_count l ip \<Longrightarrow> (tbl ip, want_rt env mcc l m ctx t ip ! k) \<in> C (i, m, sl, ip, k)"
  obtains r' w' where "add_rt_both env l m tbl ctx t r w = Some (r', w')"
    "\<forall>ip. num_hdl r' ip = int (each_client_rt_rule_count l ip) \<and> each_client_rt_rule_count l ip \<le> length (rule_hdl r' ip)"
    "exact_in (\<lambda>(j, n, sk, jp, k). if (j, n, sk) = (i, m, sl) then info_hdl r' jp k else H (j, n, sk, jp, k)) C (rt_at V w')"
    "flt_at V w' = flt_at V w" "ctx_at V w' = ctx_at V w"
proof -
  obtain hd4 loc1 r1 w1 where a: "add_rt_for_ip env l m tbl ctx t IPA_IP_v4 ((junk_int env w, junk_hdls env w), r, w) = Some (loc1, r1, w1)"
      "length hd4 = each_client_rt_rule_count l IPA_IP_v4" "num_hdl r1 = (num_hdl r)(IPA_IP_v4 := int (length hd4))"
      "rule_hdl r1 = (rule_hdl r)(IPA_IP_v4 := hd4 @ drop (length hd4) (rule_hdl r IPA_IP_v4))"
      "exact_in (H ++ rt_hdl_place i m sl IPA_IP_v4 hd4) C (rt_at V w1)" "flt_at V w1 = flt_at V w" "ctx_at V w1 = ctx_at V w"
    by (rule add_rt_for_ip_ok [where tbl = tbl and t = t and ctx = ctx, OF k l e new c])
  have new6: "(H ++ rt_hdl_place i m sl IPA_IP_v4 hd4) (i, m, sl, IPA_IP_v6, k) = None" for k using new by (simp add: map_add_def rt_hdl_place_def)
  obtain hd6 loc2 r2 w2 where b: "add_rt_for_ip env l m tbl ctx t IPA_IP_v6 (loc1, r1, w1) = Some (loc2, r2, w2)"
      "length hd6 = each_client_rt_rule_count l IPA_IP_v6" "num_hdl r2 = (num_hdl r1)(IPA_IP_v6 := int (length hd6))"
      "rule_hdl r2 = (rule_hdl r1)(IPA_IP_v6 := hd6 @ drop (length hd6) (rule_hdl r1 IPA_IP_v6))"
      "exact_in (H ++ rt_hdl_place i m sl IPA_IP_v4 hd4 ++ rt_hdl_place i m sl IPA_IP_v6 hd6) C (rt_at V w2)" "flt_at V w2 = flt_at V w1" "ctx_at V w2 = ctx_at V w1"
    by (rule add_rt_for_ip_ok [where tbl = tbl and t = t and ctx = ctx and ip = IPA_IP_v6, OF k l a(5) new6 c])
  have "H ++ rt_hdl_place i m sl IPA_IP_v4 hd4 ++ rt_hdl_place i m sl IPA_IP_v6 hd6 =
      (\<lambda>(j, n, sk, jp, k). if (j, n, sk) = (i, m, sl) then info_hdl r2 jp k else H (j, n, sk, jp, k))"
  proof (rule ext)
    fix z :: rt_slot
    obtain j n sk jp q where z: "z = (j, n, sk, jp, q)" by (cases z)
    have "info_hdl r2 jp q = (case jp of IPA_IP_v4 \<Rightarrow> if q < length hd4 then Some (IPA_IP_v4, hd4 ! q) else None
        | IPA_IP_v6 \<Rightarrow> if q < length hd6 then Some (IPA_IP_v6, hd6 ! q) else None)"
      unfolding info_hdl_set [OF b(3,4)] info_hdl_set [OF a(3,4)] by (cases jp) simp_all
    then show "(H ++ rt_hdl_place i m sl IPA_IP_v4 hd4 ++ rt_hdl_place i m sl IPA_IP_v6 hd6) z =
        (case z of (j, n, sk, jp, k) \<Rightarrow> if (j, n, sk) = (i, m, sl) then info_hdl r2 jp k else H (j, n, sk, jp, k))"
      using new [of jp q] by (cases jp) (auto simp: z map_add_def rt_hdl_place_def)
  qed
  note b5 = b(5) [unfolded this]
  show ?thesis
  proof (rule that [OF _ _ b5])
    show "add_rt_both env l m tbl ctx t r w = Some (r2, w2)" using a(1) b(1) by (simp add: add_rt_both_def)
    have "num_hdl r2 ip = int (each_client_rt_rule_count l ip) \<and> each_client_rt_rule_count l ip \<le> length (rule_hdl r2 ip)" for ip
      using a(2-4) b(2-4) by (cases ip) simp_all
    then show "\<forall>ip. num_hdl r2 ip = int (each_client_rt_rule_count l ip) \<and> each_client_rt_rule_count l ip \<le> length (rule_hdl r2 ip)" by blast
  qed (use a(6,7) b(6,7) in simp_all)
qed

text \<open>Deleting the rules of one IP type, and of both.\<close>

lemma del_rt_for_ip_ok:
  assumes k: "bridge_kernel_ok (dev env) V" and e: "exact (H :: rt_slot \<Rightarrow> (ipa_ip_type \<times> ipa_hdl) option) c (rt_at V w)"
    and h: "\<And>n. H (i, m, sl, ip, n) = info_hdl r ip n" and num: "nat (num_hdl r ip) \<le> length (rule_hdl r ip)"
  obtains w' where "del_rt_for_ip env ip (r, w) = Some (r\<lparr>num_hdl := (num_hdl r)(ip := 0)\<rparr>, w')"
    "exact (\<lambda>z. if \<exists>n. z = (i, m, sl, ip, n) then None else H z) c (rt_at V w')" "flt_at V w' = flt_at V w" "ctx_at V w' = ctx_at V w"
proof -
  let ?hdls = "take (nat (num_hdl r ip)) (rule_hdl r ip)" and ?qs = "map (\<lambda>n. (i, m, sl, ip, n)) [0..<nat (num_hdl r ip)]"
  let ?w = "fold (\<lambda>hdl. eth_bridge_del_rt_rule env hdl ip) ?hdls w"
  have *: "H (?qs ! n) = Some (ip, ?hdls ! n)" if "n < length ?hdls" for n
    using that h [of n] num by (simp add: info_hdl_def)
  have d: "distinct ?qs" by (simp add: distinct_map inj_on_def)
  have "exact (\<lambda>q. if q \<in> set ?qs then None else H q) c (rt_at V ?w) \<and> flt_at V ?w = flt_at V w \<and> ctx_at V ?w = ctx_at V w"
    by (rule del_rt_fold [OF k e _ d *]) (use num in simp_all)
  moreover have "(\<lambda>q. if q \<in> set ?qs then None else H q) = (\<lambda>z. if \<exists>n. z = (i, m, sl, ip, n) then None else H z)"
    using h by (auto simp: fun_eq_iff info_hdl_def)
  ultimately show ?thesis using that [of ?w] num by (simp add: del_rt_for_ip_def not_less)
qed

lemma del_rt_both_ok:
  assumes k: "bridge_kernel_ok (dev env) V" and e: "exact (H :: rt_slot \<Rightarrow> (ipa_ip_type \<times> ipa_hdl) option) c (rt_at V w)"
    and h: "\<And>ip n. H (i, m, sl, ip, n) = info_hdl r ip n" and num: "\<And>ip. nat (num_hdl r ip) \<le> length (rule_hdl r ip)"
  obtains r' w' where "del_rt_both env r w = Some (r', w')"
    "exact (\<lambda>z. if \<exists>ip n. z = (i, m, sl, ip, n) then None else H z) c (rt_at V w')" "flt_at V w' = flt_at V w" "ctx_at V w' = ctx_at V w"
proof -
  define r1 where "r1 = r\<lparr>num_hdl := (num_hdl r)(IPA_IP_v4 := 0)\<rparr>"
  obtain w1 where a: "del_rt_for_ip env IPA_IP_v4 (r, w) = Some (r1, w1)"
      "exact (\<lambda>z. if \<exists>n. z = (i, m, sl, IPA_IP_v4, n) then None else H z) c (rt_at V w1)" "flt_at V w1 = flt_at V w" "ctx_at V w1 = ctx_at V w"
    unfolding r1_def by (rule del_rt_for_ip_ok [OF k e h num])
  obtain w2 where b: "del_rt_for_ip env IPA_IP_v6 (r1, w1) = Some (r1\<lparr>num_hdl := (num_hdl r1)(IPA_IP_v6 := 0)\<rparr>, w2)"
      "exact (\<lambda>z. if \<exists>n. z = (i, m, sl, IPA_IP_v6, n) then None else (if \<exists>n. z = (i, m, sl, IPA_IP_v4, n) then None else H z)) c (rt_at V w2)"
      "flt_at V w2 = flt_at V w1" "ctx_at V w2 = ctx_at V w1"
  proof (rule del_rt_for_ip_ok [OF k a(2)])
    show "(if \<exists>na. (i, m, sl, IPA_IP_v6, n) = (i, m, sl, IPA_IP_v4, na) then None else H (i, m, sl, IPA_IP_v6, n)) = info_hdl r1 IPA_IP_v6 n" for n
      using h [of IPA_IP_v6 n] by (simp add: r1_def info_hdl_def)
    show "nat (num_hdl r1 IPA_IP_v6) \<le> length (rule_hdl r1 IPA_IP_v6)" using num [of IPA_IP_v6] by (simp add: r1_def)
  qed
  have "(\<lambda>z. if \<exists>n. z = (i, m, sl, IPA_IP_v6, n) then None else (if \<exists>n. z = (i, m, sl, IPA_IP_v4, n) then None else H z)) =
      (\<lambda>z. if \<exists>ip n. z = (i, m, sl, ip, n) then None else H z)"
  proof (rule ext)
    fix z :: rt_slot
    obtain j n sk jp q where z: "z = (j, n, sk, jp, q)" by (cases z)
    show "(if \<exists>n. z = (i, m, sl, IPA_IP_v6, n) then None else (if \<exists>n. z = (i, m, sl, IPA_IP_v4, n) then None else H z)) =
        (if \<exists>ip n. z = (i, m, sl, ip, n) then None else H z)" by (cases jp) (simp_all add: z)
  qed
  then show ?thesis using that a b by (simp add: del_rt_both_def)
qed

text \<open>A step that changes routing rules and their records only.\<close>

definition rt_step :: "'w kernel_view \<Rightarrow> 'w lan2lan \<Rightarrow> 'w lan2lan \<Rightarrow> bool" where
  "rt_step V s t \<longleftrightarrow> same_shape s t \<and> peer_rec t = peer_rec s \<and> ctx_of t = ctx_of s \<and>
     flt_at V (l2l_world t) = flt_at V (l2l_world s) \<and> ctx_at V (l2l_world t) = ctx_at V (l2l_world s)"

lemma rt_step_trans: "rt_step V s t \<Longrightarrow> rt_step V t u \<Longrightarrow> rt_step V s u"
  by (auto simp: rt_step_def intro: same_shape_trans)

lemma rt_step_refl: "rt_step V s s"
  by (simp add: rt_step_def)

lemma rt_stepD:
  assumes "rt_step V s t"
  shows "same_shape s t" and "lans t = lans s" and "flt_rec t = flt_rec s"
    and "flt_booked env V s \<Longrightarrow> flt_booked env V t" and "ctx_booked V VC s \<Longrightarrow> ctx_booked V VC t"
proof -
  show "same_shape s t" using assms by (simp add: rt_step_def)
  then show L: "lans t = lans s" by (simp add: same_shape_lans)
  show "flt_rec t = flt_rec s" using assms by (auto simp: fun_eq_iff flt_rec_peer_rec rt_step_def)
  show "flt_booked env V t" if "flt_booked env V s"
    by (rule flt_booked_cong(1) [OF that]) (use assms L in \<open>simp_all add: rt_step_def\<close>)
  show "ctx_booked V VC t" if "ctx_booked V VC s"
    by (rule ctx_booked_cong [OF that]) (use assms L in \<open>simp_all add: rt_step_def\<close>)
qed

definition set_info :: "ipa_hdr_l2_type option \<Rightarrow> rt_rule_info \<Rightarrow> client_info \<Rightarrow> client_info" where
  "set_info sl r c = (case sl of None \<Rightarrow> c\<lparr>intra_iface_rt_rule_hdl := r\<rparr>
     | Some t \<Rightarrow> c\<lparr>inter_iface_rt_rule_hdl := (inter_iface_rt_rule_hdl c)(t := r)\<rparr>)"

lemma set_info_simps [simp]:
  "c_mac (set_info sl r c) = c_mac c" "slot_info sk (set_info sl r c) = (if sk = sl then r else slot_info sk c)"
  by (auto simp: set_info_def slot_info_def split: option.split)

lemma set_info_same_shape: "same_shape s (upd_if i (upd_client m (set_info sl r)) s)"
proof (rule same_shape_upd)
  fix x :: l2l_iface
  have "map bare_client (upd_node c_mac m (set_info sl r) (m_client_info x)) = map bare_client (m_client_info x)"
    by (rule map_upd_keep) (simp add: bare_client_def)
  then show "bare (upd_client m (set_info sl r) x) = bare x" by (simp add: bare_def upd_client_def)
qed

lemma set_info_state:
  assumes "s' = upd_if i (upd_client m (set_info sl r)) (s\<lparr>l2l_world := w'\<rparr>)"
  shows "same_shape s s'" and "peer_rec s' = peer_rec s" and "ctx_of s' = ctx_of s" and "lans s' = lans s"
    and "l2l_world s' = w'"
    and "client_rec s' j n = (if j = i \<and> n = m then map_option (set_info sl r) (client_rec s i m) else client_rec s j n)"
proof -
  show "same_shape s s'" unfolding assms by (rule same_shape_trans [OF _ set_info_same_shape]) simp
  then show "lans s' = lans s" by (rule same_shape_lans)
qed (auto simp: assms peer_rec_def client_rec_def ctx_of_def find_if_upd l2l_client_upd_client fun_eq_iff split: option.split)

lemma add_client_rt_rule_ok:
  assumes k: "bridge_kernel_ok (dev env) V" and b: "rt_booked env V VR s" and x: "find_if s i = Some x" "lan_ok (dev env) (m_p_iface x)"
    and q: "peer_at x p = Some q" and y: "find_if s (peer q) = Some y" and c: "l2l_client x m = Some c"
    and sl: "sl = (if peer q = i then None else Some (l2_type (m_p_iface y)))"
    and tbl: "\<And>ip. rt_tbl_name_for_rt q ip = rt_tbl env (lans s) i sl ip" and new: "(i, m, sl) \<notin> VR"
  obtains s' where "add_client_rt_rule env i p m s = Some s'" "rt_step V s s'" "rt_booked env V (insert (i, m, sl) VR) s'"
proof -
  let ?l = "m_p_iface x" and ?w = "l2l_world s" and ?t = "l2_type (m_p_iface y)" and ?ctx = "ctx_of s (i, sl)"
  let ?C = "rt_contents env (\<lambda>_. modes env) (lans s) (ctx_of s)"
  have L: "lans s i = Some ?l" using x(1) by (simp add: lans_def)
  have t: "slot_type (lans s) i sl = ?t" using sl L y x(1) by (auto simp: slot_type_def)
  have cr: "client_rec s i m = Some c" using x(1) c by (simp add: client_rec_def)
  have e: "exact_in (rt_rec VR s) ?C (rt_at V ?w)" and v: "rt_valid VR s" using b by (simp_all add: rt_booked_in_def)
  have n: "rt_rec VR s (i, m, sl, ip, k) = None" for ip k using new by (simp add: rt_rec_def)
  have cc: "(rt_tbl_name_for_rt q ip, want_rt env mcc ?l m ?ctx ?t ip ! k) \<in> ?C (i, m, sl, ip, k)" if "mcc \<in> modes env" for mcc ip k
    using tbl [of ip] L t that by (force simp: rt_contents_def rt_content_def)
  obtain r w' where a: "add_rt_both env ?l m (rt_tbl_name_for_rt q) ?ctx ?t (slot_info sl c) ?w = Some (r, w')"
      "\<forall>ip. num_hdl r ip = int (each_client_rt_rule_count ?l ip) \<and> each_client_rt_rule_count ?l ip \<le> length (rule_hdl r ip)"
      "exact_in (\<lambda>(j, n, sk, jp, k). if (j, n, sk) = (i, m, sl) then info_hdl r jp k else rt_rec VR s (j, n, sk, jp, k)) ?C (rt_at V w')"
      "flt_at V w' = flt_at V ?w" "ctx_at V w' = ctx_at V ?w"
    by (rule add_rt_both_ok [where tbl = "rt_tbl_name_for_rt q" and t = ?t and ctx = ?ctx, OF k x(2) e n cc])
  define s' where "s' = upd_if i (upd_client m (set_info sl r)) (s\<lparr>l2l_world := w'\<rparr>)"
  note st = set_info_state [OF s'_def]
  have "rt_rec (insert (i, m, sl) VR) s' =
      (\<lambda>(j, n, sk, jp, k). if (j, n, sk) = (i, m, sl) then info_hdl r jp k else rt_rec VR s (j, n, sk, jp, k))"
  proof (rule ext)
    fix z :: rt_slot
    obtain j n sk jp h where z: "z = (j, n, sk, jp, h)" by (cases z)
    show "rt_rec (insert (i, m, sl) VR) s' z =
        (case z of (j, n, sk, jp, k) \<Rightarrow> if (j, n, sk) = (i, m, sl) then info_hdl r jp k else rt_rec VR s (j, n, sk, jp, k))"
      using cr by (auto simp: z rt_rec_def st(6) split: option.split)
  qed
  moreover have "rt_valid (insert (i, m, sl) VR) s'"
    using v a(2) cr L unfolding rt_valid_def st by fastforce
  ultimately have bk: "rt_booked env V (insert (i, m, sl) VR) s'" using a(3) st by (simp add: rt_booked_in_def)
  show ?thesis
  proof (rule that [OF _ _ bk])
    show "add_client_rt_rule env i p m s = Some s'"
      using x(1) q y c a(1) sl
      by (cases "peer q = i") (simp_all add: add_client_rt_rule_def s'_def set_info_def [abs_def] slot_info_def ctx_of_def Let_def)
    show "rt_step V s s'" unfolding rt_step_def st using a(4,5) st(1) by simp
  qed
qed

lemma del_client_rt_rule_ok:
  assumes k: "bridge_kernel_ok (dev env) V" and b: "rt_booked env V VR s" and x: "find_if s i = Some x"
    and q: "peer_at x p = Some q" and y: "find_if s (peer q) = Some y" and c: "l2l_client x m = Some c"
    and sl: "sl = (if peer q = i then None else Some (l2_type (m_p_iface y)))" and val: "(i, m, sl) \<in> VR"
  obtains s' where "del_client_rt_rule env i p m s = Some s'" "rt_step V s s'" "rt_booked env V (VR - {(i, m, sl)}) s'"
proof -
  let ?w = "l2l_world s" and ?C = "rt_contents env (\<lambda>_. modes env) (lans s) (ctx_of s)"
  have cr: "client_rec s i m = Some c" using x c by (simp add: client_rec_def)
  have v: "rt_valid VR s" and ei: "exact_in (rt_rec VR s) ?C (rt_at V ?w)" using b by (simp_all add: rt_booked_in_def)
  obtain cn where e: "exact (rt_rec VR s) cn (rt_at V ?w)" and cn: "\<forall>q\<in>dom (rt_rec VR s). cn q \<in> ?C q"
    using ei unfolding exact_in_def by blast
  have h: "rt_rec VR s (i, m, sl, ip, k) = info_hdl (slot_info sl c) ip k" for ip k using val cr by (simp add: rt_rec_def)
  have num: "nat (num_hdl (slot_info sl c) ip) \<le> length (rule_hdl (slot_info sl c) ip)" for ip
    using v val cr unfolding rt_valid_def by fastforce
  obtain r w' where a: "del_rt_both env (slot_info sl c) ?w = Some (r, w')"
      "exact (\<lambda>z. if \<exists>ip n. z = (i, m, sl, ip, n) then None else rt_rec VR s z) cn (rt_at V w')"
      "flt_at V w' = flt_at V ?w" "ctx_at V w' = ctx_at V ?w"
    by (rule del_rt_both_ok [OF k e h num])
  define s' where "s' = upd_if i (upd_client m (set_info sl r)) (s\<lparr>l2l_world := w'\<rparr>)"
  note st = set_info_state [OF s'_def]
  have "rt_rec (VR - {(i, m, sl)}) s' = (\<lambda>z. if \<exists>ip n. z = (i, m, sl, ip, n) then None else rt_rec VR s z)"
  proof (rule ext)
    fix z :: rt_slot
    obtain j n sk jp h where z: "z = (j, n, sk, jp, h)" by (cases z)
    show "rt_rec (VR - {(i, m, sl)}) s' z = (if \<exists>ip n. z = (i, m, sl, ip, n) then None else rt_rec VR s z)"
      using cr by (auto simp: z rt_rec_def st(6) split: option.split)
  qed
  moreover have "rt_valid (VR - {(i, m, sl)}) s'"
    using v cr unfolding rt_valid_def st by fastforce
  moreover have "exact_in (\<lambda>z. if \<exists>ip n. z = (i, m, sl, ip, n) then None else rt_rec VR s z) ?C (rt_at V w')"
  proof (rule exact_inI [OF a(2)])
    fix z assume "(if \<exists>ip n. z = (i, m, sl, ip, n) then None else rt_rec VR s z) \<noteq> None"
    then have "rt_rec VR s z \<noteq> None" by (metis (full_types))
    then show "cn z \<in> ?C z" by (rule bspec [OF cn domIff [THEN iffD2]])
  qed
  ultimately have bk: "rt_booked env V (VR - {(i, m, sl)}) s'" using st by (simp add: rt_booked_in_def)
  show ?thesis
  proof (rule that [OF _ _ bk])
    show "del_client_rt_rule env i p m s = Some s'"
      using x q y c a(1) sl
      by (cases "peer q = i") (simp_all add: del_client_rt_rule_def s'_def set_info_def [abs_def] slot_info_def Let_def)
    show "rt_step V s s'" unfolding rt_step_def st using a(3,4) st(1) by simp
  qed
qed

section \<open>Processing contexts\<close>

definition set_ctx :: "ipa_hdr_l2_type option \<Rightarrow> ipa_hdl \<Rightarrow> l2l_iface \<Rightarrow> l2l_iface" where
  "set_ctx sl h x = (case sl of None \<Rightarrow> x\<lparr>hdr_proc_ctx_for_intra_interface := h\<rparr>
     | Some t \<Rightarrow> x\<lparr>hdr_proc_ctx_for_inter_interface := (hdr_proc_ctx_for_inter_interface x)(t := h)\<rparr>)"

lemma set_ctx_simps [simp]: "l2l_ptr (set_ctx sl h x) = l2l_ptr x" "m_p_iface (set_ctx sl h x) = m_p_iface x" "bare (set_ctx sl h x) = bare x"
  "l2l_client (set_ctx sl h x) m = l2l_client x m" "peer_at (set_ctx sl h x) p = peer_at x p"
  by (simp_all add: set_ctx_def l2l_ptr_def bare_def l2l_client_def peer_at_def split: option.split)

lemma set_ctx_state:
  assumes "s' = upd_if i (set_ctx sl h) (s\<lparr>l2l_world := w'\<rparr>)" and "find_if s i \<noteq> None"
  shows "same_shape s s'" and "peer_rec s' = peer_rec s" and "client_rec s' = client_rec s" and "lans s' = lans s"
    and "l2l_world s' = w'" and "ctx_of s' = (ctx_of s)((i, sl) := h)"
proof -
  show "same_shape s s'" unfolding assms by (rule same_shape_trans [OF _ same_shape_upd]) simp_all
  then show "lans s' = lans s" by (rule same_shape_lans)
  have "find_if s' j = (if j = i then map_option (set_ctx sl h) (find_if s i) else find_if s j)" for j
    by (simp add: assms(1) find_if_upd)
  then show "ctx_of s' = (ctx_of s)((i, sl) := h)"
    using assms(2) by (auto simp: ctx_of_def set_ctx_def fun_eq_iff split: option.split)
qed (auto simp: assms peer_rec_def client_rec_def find_if_upd fun_eq_iff split: option.split)

text \<open>A new processing context for a header type that no routing rule uses yet.\<close>

lemma add_ctx_ok:
  assumes k: "bridge_kernel_ok (dev env) V" and x: "find_if s i = Some x" "tx_prop (m_p_iface x) \<noteq> None"
    and b: "flt_booked env V s" "rt_booked env V VR s" "ctx_booked V VC s"
    and new: "(i, sl) \<notin> VC" "\<And>m. (i, m, sl) \<notin> VR"
  obtains h w' where "eth_bridge_add_hdr_proc_ctx env (m_p_iface x) (slot_type (lans s) i sl) (l2l_world s) = (Some h, w')"
    "\<And>s'. s' = upd_if i (set_ctx sl h) (s\<lparr>l2l_world := w'\<rparr>) \<Longrightarrow>
       same_shape s s' \<and> flt_rec s' = flt_rec s \<and> flt_booked env V s' \<and> rt_booked env V VR s' \<and> ctx_booked V (insert (i, sl) VC) s'"
proof -
  let ?w = "l2l_world s" and ?t = "slot_type (lans s) i sl"
  have L: "lans s i = Some (m_p_iface x)" using x(1) by (simp add: lans_def)
  obtain h w' where a: "eth_bridge_add_hdr_proc_ctx env (m_p_iface x) ?t ?w = (Some h, w')" "ctx_at V ?w h = None"
    "ctx_at V w' = (ctx_at V ?w)(h \<mapsto> want_ctx (m_p_iface x) ?t)" "flt_at V w' = flt_at V ?w" "rt_at V w' = rt_at V ?w"
    by (rule eth_bridge_add_hdr_proc_ctx_ok [OF k x(2)])
  have "same_shape s s' \<and> flt_rec s' = flt_rec s \<and> flt_booked env V s' \<and> rt_booked env V VR s' \<and> ctx_booked V (insert (i, sl) VC) s'"
    if s': "s' = upd_if i (set_ctx sl h) (s\<lparr>l2l_world := w'\<rparr>)" for s'
  proof -
    note st = set_ctx_state [OF s']
    have fi: "find_if s i \<noteq> None" using x(1) by simp
    have f: "flt_booked env V s'" "flt_rec s' = flt_rec s" by (rule flt_booked_cong [OF b(1)]; use st fi a(4) in simp)+
    have "rt_booked env V VR s'"
    proof -
      have "rt_rec VR s' = rt_rec VR s" using st(3) fi by (auto simp: rt_rec_def fun_eq_iff)
      moreover have "exact_in (rt_rec VR s) (rt_contents env (\<lambda>_. modes env) (lans s) ((ctx_of s)((i, sl) := h))) (rt_at V ?w)"
      proof (rule rt_contents_cong)
        show "exact_in (rt_rec VR s) (rt_contents env (\<lambda>_. modes env) (lans s) (ctx_of s)) (rt_at V ?w)" using b(2) by (simp add: rt_booked_in_def)
      next
        fix z mcc assume "rt_rec VR s z \<noteq> None"
        then show "rt_content env mcc (lans s) ((ctx_of s)((i, sl) := h)) z = rt_content env mcc (lans s) (ctx_of s) z"
          using new(2) by (cases z) (auto simp: rt_rec_def rt_content_def split: if_splits)
      qed
      ultimately show ?thesis using b(2) st fi a(5) by (simp add: rt_booked_in_def rt_valid_def)
    qed
    moreover have "ctx_booked V (insert (i, sl) VC) s'"
    proof -
      have "ctx_rec (insert (i, sl) VC) s' = (ctx_rec VC s)((i, sl) \<mapsto> h)" using st(6) fi by (auto simp: ctx_rec_def fun_eq_iff)
      moreover have "ctx_content (lans s) (i, sl) = want_ctx (m_p_iface x) ?t" using L by (simp add: ctx_content_def)
      moreover have "exact ((ctx_rec VC s)((i, sl) \<mapsto> h)) (ctx_content (lans s)) ((ctx_at V ?w)(h \<mapsto> ctx_content (lans s) (i, sl)))"
        by (rule exact_add) (use b(3) new(1) a(2) in \<open>simp_all add: ctx_booked_def ctx_rec_def\<close>)
      ultimately show ?thesis using st fi a(3) by (simp add: ctx_booked_def)
    qed
    ultimately show ?thesis using f st(1) fi by simp
  qed
  with a(1) show ?thesis by (rule that)
qed

text \<open>Deleting a processing context that no routing rule uses any more.\<close>

lemma del_ctx_ok:
  assumes k: "bridge_kernel_ok (dev env) V" and b: "flt_booked env V s" "rt_booked env V VR s" "ctx_booked V VC s" and v: "(i, sl) \<in> VC"
    and s': "s' = s\<lparr>l2l_world := eth_bridge_del_hdr_proc_ctx env (ctx_of s (i, sl)) (l2l_world s)\<rparr>"
  shows "same_shape s s' \<and> flt_rec s' = flt_rec s \<and> flt_booked env V s' \<and> rt_booked env V VR s' \<and> ctx_booked V (VC - {(i, sl)}) s'"
proof -
  let ?w = "l2l_world s"
  have h: "ctx_rec VC s (i, sl) = Some (ctx_of s (i, sl))" using v by (simp add: ctx_rec_def)
  have e: "exact (ctx_rec VC s) (ctx_content (lans s)) (ctx_at V ?w)" using b(3) by (simp add: ctx_booked_def)
  have "ctx_at V ?w (ctx_of s (i, sl)) \<noteq> None" using exactD [OF e h] by simp
  note d = eth_bridge_del_hdr_proc_ctx_ok [OF k this]
  have "ctx_rec (VC - {(i, sl)}) s' = (ctx_rec VC s)((i, sl) := None)" by (auto simp: s' ctx_rec_def fun_eq_iff)
  then have "ctx_booked V (VC - {(i, sl)}) s'" using exact_del [OF e h] d(1) by (simp add: ctx_booked_def s')
  moreover have "flt_booked env V s'" by (rule flt_booked_cong [OF b(1)]) (simp_all add: s' d(2))
  moreover have "rt_booked env V VR s'" by (rule rt_booked_cong [OF b(2)]) (simp_all add: s' d(3))
  ultimately show ?thesis by (simp add: s')
qed

end
