(* ===== verification/LanToLan_Inv.thy ===== *)
theory LanToLan_Inv
  imports LanToLan_Slots
begin

text \<open>
  The invariant of the bridge and the operations on one client and one peer in terms of it: \<open>shape\<close> says how interfaces, peers,
  counters and tables belong together, \<open>bridge_st\<close> adds that exactly the rules and contexts recorded for given places are installed.
\<close>

section \<open>Loops\<close>

lemma each_inv:
  assumes "\<And>pre x rest s. xs = pre @ x # rest \<Longrightarrow> J pre s \<Longrightarrow> \<exists>t. f x s = Some t \<and> J (pre @ [x]) t" and "J [] s"
  shows "\<exists>t. each f xs s = Some t \<and> J xs t"
proof -
  have "\<exists>t. each f ys s = Some t \<and> J (zs @ ys) t" if "xs = zs @ ys" "J zs s" for ys zs s
    using that
  proof (induction ys arbitrary: zs s)
    case Nil
    then show ?case by simp
  next
    case (Cons y ys)
    obtain t where t: "f y s = Some t" "J (zs @ [y]) t" using assms(1) Cons.prems by blast
    then show ?case using Cons.IH [of "zs @ [y]" t] Cons.prems by simp
  qed
  from this [of "[]"] assms(2) show ?thesis by simp
qed

section \<open>The shape of the state\<close>

definition hdr_type :: "'w lan2lan \<Rightarrow> nat \<Rightarrow> ipa_hdr_l2_type" where
  "hdr_type s p = l2_type (the (lans s p))"

definition macs :: "l2l_iface \<Rightarrow> mac set" where
  "macs x = c_mac ` set (m_client_info x)"

text \<open>
  \<open>RD\<close> are the interfaces whose own clients can reach each other, \<open>PL\<close> the peers in the list of an interface and \<open>LK\<close> those its counters count; they differ only while an interface goes down.
\<close>

definition iface_shape ::
  "'w bridge_env \<Rightarrow> nat set \<Rightarrow> (nat \<Rightarrow> nat set) \<Rightarrow> (nat \<Rightarrow> nat set) \<Rightarrow> 'w lan2lan \<Rightarrow> nat \<Rightarrow> l2l_iface \<Rightarrow> bool" where
  "iface_shape env RD PL LK s i x \<longleftrightarrow>
     lan_ok (dev env) (m_p_iface x) \<and> rx_prop (m_p_iface x) \<noteq> None \<and> distinct (map c_mac (m_client_info x)) \<and>
     distinct (map peer (m_peer_iface_info x)) \<and> peer ` set (m_peer_iface_info x) = PL i \<and>
     (\<forall>q\<in>set (m_peer_iface_info x). rt_tbl_name_for_flt q = rt_tbl_name env (hdr_type s i) (hdr_type s (peer q)) \<and>
        rt_tbl_name_for_rt q = rt_tbl_name env (hdr_type s (peer q)) (hdr_type s i)) \<and>
     (i \<in> RD \<longrightarrow> peer (m_intra_interface_info x) = i \<and>
        rt_tbl_name_for_flt (m_intra_interface_info x) = intra_tbl_name env \<and> rt_tbl_name_for_rt (m_intra_interface_info x) = intra_tbl_name env) \<and>
     (\<forall>t. ref_cnt_peer_l2_hdr_type x t = int (card {p \<in> LK i. hdr_type s p = t}))"

definition shape :: "'w bridge_env \<Rightarrow> nat set \<Rightarrow> (nat \<Rightarrow> nat set) \<Rightarrow> (nat \<Rightarrow> nat set) \<Rightarrow> 'w lan2lan \<Rightarrow> bool" where
  "shape env RD PL LK s \<longleftrightarrow> distinct (map l2l_ptr (m_iface s)) \<and>
     (\<forall>i x. find_if s i = Some x \<longrightarrow> iface_shape env RD PL LK s i x) \<and>
     (\<forall>i. i \<notin> PL i \<and> LK i \<subseteq> PL i \<and> (\<forall>p\<in>PL i. find_if s p \<noteq> None) \<and> (\<forall>p\<in>LK i. i \<in> LK p))"

lemma shapeD:
  assumes "shape env RD PL LK s" and "find_if s i = Some x"
  shows "lan_ok (dev env) (m_p_iface x)" and "rx_prop (m_p_iface x) \<noteq> None" and "tx_prop (m_p_iface x) \<noteq> None"
    and "distinct (map c_mac (m_client_info x))" and "distinct (map peer (m_peer_iface_info x))"
    and "peer ` set (m_peer_iface_info x) = PL i"
    and "i \<in> RD \<Longrightarrow> peer (m_intra_interface_info x) = i"
    and "ref_cnt_peer_l2_hdr_type x t = int (card {p \<in> LK i. hdr_type s p = t})"
  using assms by (auto simp: shape_def iface_shape_def lan_ok_def tx_list_def split: option.splits)

lemma shape_peers:
  assumes "shape env RD PL LK s"
  shows "i \<notin> PL i" and "LK i \<subseteq> PL i" and "p \<in> LK i \<Longrightarrow> i \<in> LK p" and "p \<in> PL i \<Longrightarrow> \<exists>y. find_if s p = Some y"
  using assms by (auto simp: shape_def)

lemma shape_peer_at:
  assumes s: "shape env RD PL LK s" and x: "find_if s i = Some x" and p: "p \<in> PL i"
  obtains q where "peer_at x p = Some q" "look peer p (m_peer_iface_info x) = Some q" "peer q = p"
    "rt_tbl_name_for_flt q = flt_tbl env (lans s) i p" "rt_tbl_name_for_rt q = rt_tbl env (lans s) i (Some (hdr_type s p))"
proof -
  have ip: "p \<noteq> l2l_ptr x" using p shape_peers(1) [OF s, of i] find_if_ptr [OF x] by auto
  have "p \<in> peer ` set (m_peer_iface_info x)" using shapeD(6) [OF s x] p by simp
  then obtain q where q: "look peer p (m_peer_iface_info x) = Some q" using look_None [of peer p "m_peer_iface_info x"] by (cases "look peer p (m_peer_iface_info x)") auto
  have "peer q = p" "q \<in> set (m_peer_iface_info x)" using look_key [OF q] look_in [OF q] by simp_all
  moreover have "iface_shape env RD PL LK s i x" using s x by (simp add: shape_def)
  ultimately have "rt_tbl_name_for_flt q = rt_tbl_name env (hdr_type s i) (hdr_type s p)"
      "rt_tbl_name_for_rt q = rt_tbl_name env (hdr_type s p) (hdr_type s i)"
    by (auto simp: iface_shape_def)
  then show ?thesis using that [of q] q ip \<open>peer q = p\<close> find_if_ptr [OF x]
    by (simp add: peer_at_def flt_tbl_def rt_tbl_def hdr_type_def fun_eq_iff)
qed

lemma shape_intra:
  assumes s: "shape env RD PL LK s" and x: "find_if s i = Some x" and "i \<in> RD"
  obtains q where "peer_at x i = Some q" "peer q = i"
    "rt_tbl_name_for_flt q = flt_tbl env (lans s) i i" "rt_tbl_name_for_rt q = rt_tbl env (lans s) i None"
proof -
  have "iface_shape env RD PL LK s i x" using s x by (simp add: shape_def)
  then show ?thesis using that assms(3) find_if_ptr [OF x] by (simp add: iface_shape_def peer_at_def flt_tbl_def rt_tbl_def fun_eq_iff)
qed

lemma same_shape_sym: "same_shape s t \<Longrightarrow> same_shape t s"
  by (simp add: same_shape_def)

lemma bare_iface_shape:
  assumes "bare x = bare y" and "lans s = lans t" and "iface_shape env RD PL LK s i x"
  shows "iface_shape env RD PL LK t i y"
proof -
  note b = bareD [OF assms(1)]
  have ty: "hdr_type s = hdr_type t" using assms(2) by (simp add: hdr_type_def fun_eq_iff)
  let ?g = "\<lambda>q. (peer q, rt_tbl_name_for_rt q, rt_tbl_name_for_flt q)"
  have g: "map ?g (m_peer_iface_info x) = map ?g (m_peer_iface_info y)" by (rule b)
  have "map fst (map ?g (m_peer_iface_info x)) = map fst (map ?g (m_peer_iface_info y))" unfolding g ..
  then have p: "map peer (m_peer_iface_info x) = map peer (m_peer_iface_info y)" by (simp add: comp_def)
  have ps: "peer ` set (m_peer_iface_info x) = peer ` set (m_peer_iface_info y)" using arg_cong [OF p, of set] by simp
  have gs: "?g ` set (m_peer_iface_info x) = ?g ` set (m_peer_iface_info y)" using arg_cong [OF g, of set] by simp
  have "\<forall>z\<in>?g ` set (m_peer_iface_info x). snd (snd z) = rt_tbl_name env (hdr_type s i) (hdr_type s (fst z)) \<and>
      fst (snd z) = rt_tbl_name env (hdr_type s (fst z)) (hdr_type s i)"
    using assms(3) by (simp add: iface_shape_def)
  then have "\<forall>q\<in>set (m_peer_iface_info y). rt_tbl_name_for_flt q = rt_tbl_name env (hdr_type t i) (hdr_type t (peer q)) \<and>
        rt_tbl_name_for_rt q = rt_tbl_name env (hdr_type t (peer q)) (hdr_type t i)"
    unfolding gs ty by simp
  then show ?thesis using assms(3) b p ps ty unfolding iface_shape_def by simp
qed

lemma shape_cong:
  assumes "same_shape s t" and "shape env RD PL LK s"
  shows "shape env RD PL LK t"
proof -
  have L: "lans s = lans t" using same_shape_lans [OF assms(1)] by simp
  have "map l2l_ptr (map bare (m_iface t)) = map l2l_ptr (map bare (m_iface s))" using assms(1) by (simp only: same_shape_def)
  then have "map l2l_ptr (m_iface t) = map l2l_ptr (m_iface s)" by (simp add: comp_def)
  moreover have "iface_shape env RD PL LK t i y" if y: "find_if t i = Some y" for i y
  proof -
    obtain x where "find_if s i = Some x" "bare x = bare y"
      by (rule same_shape_Some [OF same_shape_sym [OF assms(1)] y])
    then show ?thesis using bare_iface_shape [OF _ L] assms(2) by (auto simp: shape_def)
  qed
  moreover have "find_if t p = None \<longleftrightarrow> find_if s p = None" for p
    using same_shape_find [OF assms(1), of p] by (cases "find_if s p"; cases "find_if t p") auto
  ultimately show ?thesis using assms(2) by (simp add: shape_def)
qed

section \<open>Shape and records together\<close>

definition bridge_st ::
  "'w bridge_env \<Rightarrow> 'w kernel_view \<Rightarrow> nat set \<Rightarrow> (nat \<Rightarrow> nat set) \<Rightarrow> (nat \<Rightarrow> nat set) \<Rightarrow> (nat \<times> mac \<times> ipa_hdr_l2_type option) set \<Rightarrow>
     ctx_slot set \<Rightarrow> flt_slot set \<Rightarrow> 'w lan2lan \<Rightarrow> bool" where
  "bridge_st env V RD PL LK VR VC E s \<longleftrightarrow> shape env RD PL LK s \<and> flt_booked env V s \<and> dom (flt_rec s) = E \<and>
     rt_booked env V VR s \<and> ctx_booked V VC s"

text \<open>The routing table for a client with valid records exists.\<close>

lemma client_table_ready:
  assumes b: "rt_booked env V VR s" and v: "(p, m, sl) \<in> VR" and y: "find_if s p = Some y" "lan_ok (dev env) (m_p_iface y)"
  shows "table_ready V (l2l_world s) ip (rt_tbl env (lans s) p sl ip)"
proof -
  let ?l = "m_p_iface y"
  have L: "lans s p = Some ?l" using y(1) by (simp add: lans_def)
  obtain c where c: "client_rec s p m = Some c" "num_hdl (slot_info sl c) ip = int (each_client_rt_rule_count ?l ip)"
    using b v L unfolding rt_booked_in_def rt_valid_def by fastforce
  have "0 < each_client_rt_rule_count ?l ip" using y(2) by (simp add: lan_ok_def)
  then have r: "rt_rec VR s (p, m, sl, ip, 0) = Some (ip, rule_hdl (slot_info sl c) ip ! 0)"
    using c v by (simp add: rt_rec_def info_hdl_def)
  have "exact_in (rt_rec VR s) (rt_contents env (\<lambda>_. modes env) (lans s) (ctx_of s)) (rt_at V (l2l_world s))"
    using b by (simp add: rt_booked_in_def)
  from exact_inD [OF this r] obtain x where "x \<in> rt_contents env (\<lambda>_. modes env) (lans s) (ctx_of s) (p, m, sl, ip, 0)"
      "rt_at V (l2l_world s) (ip, rule_hdl (slot_info sl c) ip ! 0) = Some x"
    by blast
  then show ?thesis by (auto simp: rt_contents_def rt_content_def table_ready_def)
qed

lemma client_in_shape: "m \<in> macs x \<Longrightarrow> \<exists>c. l2l_client x m = Some c"
  using look_None [of c_mac m "m_client_info x"] by (cases "l2l_client x m") (auto simp: macs_def l2l_client_def)

text \<open>The record of a filter rule: the interface itself (if it supports that) or one of its peers.\<close>

definition flt_peer :: "nat set \<Rightarrow> (nat \<Rightarrow> nat set) \<Rightarrow> nat \<Rightarrow> nat \<Rightarrow> bool" where
  "flt_peer RD PL i p \<longleftrightarrow> (if p = i then i \<in> RD else p \<in> PL i)"

text \<open>The place of the routing rules that serve the packets from \<open>i\<close> to a client of \<open>p\<close>.\<close>

definition rt_place :: "'w lan2lan \<Rightarrow> nat \<Rightarrow> nat \<Rightarrow> ipa_hdr_l2_type option" where
  "rt_place s i p = (if p = i then None else Some (hdr_type s i))"

lemma hdr_type_cong: "same_shape s t \<Longrightarrow> hdr_type t = hdr_type s"
  by (simp add: hdr_type_def same_shape_lans fun_eq_iff)

lemma rt_place_cong: "same_shape s t \<Longrightarrow> rt_place t = rt_place s"
  by (simp add: rt_place_def hdr_type_cong fun_eq_iff)

lemma st_peer:
  assumes s: "shape env RD PL LK s" and x: "find_if s i = Some x" and p: "flt_peer RD PL i p"
  obtains q y where "peer_at x p = Some q" "peer q = p" "find_if s p = Some y" "rt_tbl_name_for_flt q = flt_tbl env (lans s) i p"
    "\<And>ip. rt_tbl_name_for_rt q ip = rt_tbl env (lans s) i (rt_place s p i) ip" "hdr_type s p = l2_type (m_p_iface y)"
proof (cases "p = i")
  case True
  then have "i \<in> RD" using p by (simp add: flt_peer_def)
  from shape_intra [OF s x this] obtain q where "peer_at x i = Some q" "peer q = i"
      "rt_tbl_name_for_flt q = flt_tbl env (lans s) i i" "rt_tbl_name_for_rt q = rt_tbl env (lans s) i None" by metis
  then show ?thesis using that [of q x] True x by (simp add: rt_place_def hdr_type_def lans_def)
next
  case False
  then have pl: "p \<in> PL i" using p by (simp add: flt_peer_def)
  from shape_peer_at [OF s x this] obtain q where "peer_at x p = Some q" "peer q = p"
      "rt_tbl_name_for_flt q = flt_tbl env (lans s) i p" "rt_tbl_name_for_rt q = rt_tbl env (lans s) i (Some (hdr_type s p))" by metis
  moreover obtain y where "find_if s p = Some y" using shape_peers(4) [OF s pl] by auto
  ultimately show ?thesis using that [of q y] False by (simp add: rt_place_def hdr_type_def lans_def)
qed

lemma rt_place_tbl: "rt_tbl env (lans s) p (rt_place s i p) ip = flt_tbl env (lans s) i p ip"
  by (auto simp: rt_tbl_def rt_place_def flt_tbl_def hdr_type_def)

lemma st_add_flt:
  assumes k: "bridge_kernel_ok (dev env) V" and st: "bridge_st env V RD PL LK VR VC E s" and x: "find_if s i = Some x" and p: "flt_peer RD PL i p"
    and v: "(p, m, rt_place s i p) \<in> VR" and new: "(i, p, m, ip) \<notin> E"
  shows "\<exists>t. add_client_flt_rule env i p m ip s = Some t \<and> same_shape s t \<and> bridge_st env V RD PL LK VR VC (insert (i, p, m, ip) E) t"
proof -
  have s: "shape env RD PL LK s" and b: "flt_booked env V s" "rt_booked env V VR s" "ctx_booked V VC s" and E: "dom (flt_rec s) = E"
    using st by (simp_all add: bridge_st_def)
  obtain q y where q: "peer_at x p = Some q" "find_if s p = Some y" "rt_tbl_name_for_flt q = flt_tbl env (lans s) i p"
    by (rule st_peer [OF s x p])
  have r: "table_ready V (l2l_world s) ip (flt_tbl env (lans s) i p ip)"
    using client_table_ready [OF b(2) v q(2) shapeD(1) [OF s q(2)], of ip] by (simp add: rt_place_tbl)
  have n: "flt_rec s (i, p, m, ip) = None" using new E by (auto simp: dom_def)
  have qn: "rt_tbl_name_for_flt q ip = flt_tbl env (lans s) i p ip" using q(3) by simp
  obtain t h where t: "add_client_flt_rule env i p m ip s = Some t" "flt_step env V s t" "flt_rec t = (flt_rec s)((i, p, m, ip) \<mapsto> (ip, h))"
    by (rule add_client_flt_rule_ok [OF k b(1) x shapeD(3) [OF s x] shapeD(2) [OF s x] q(1) qn r n])
  note d = flt_stepD [OF t(2)]
  show ?thesis using t(1,3) d b(2,3) E shape_cong [OF d(1) s] by (auto simp: bridge_st_def)
qed

lemma st_add_assigned:
  assumes k: "bridge_kernel_ok (dev env) V" and st: "bridge_st env V RD PL LK VR VC E s" and x: "find_if s i = Some x" and p: "flt_peer RD PL i p"
    and v: "(p, m, rt_place s i p) \<in> VR" and new: "\<And>ip. (i, p, m, ip) \<notin> E"
  shows "\<exists>t. add_assigned_flt_rules env i p m s = Some t \<and> same_shape s t \<and>
    bridge_st env V RD PL LK VR VC (E \<union> {(i, p, m, ip) | ip. m_is_ip_addr_assigned x ip}) t"
proof -
  let ?a = "\<lambda>ip. m_is_ip_addr_assigned x ip" and ?q = "\<lambda>ip. (i, p, m, ip)"
  define E4 where "E4 = (if ?a IPA_IP_v4 then insert (?q IPA_IP_v4) E else E)"
  have "\<exists>t. (if ?a IPA_IP_v4 then add_client_flt_rule env i p m IPA_IP_v4 s else Some s) = Some t \<and> same_shape s t \<and> bridge_st env V RD PL LK VR VC E4 t"
    using st_add_flt [OF k st x p v new] st by (auto simp: E4_def)
  then obtain t where t: "(if ?a IPA_IP_v4 then add_client_flt_rule env i p m IPA_IP_v4 s else Some s) = Some t" "same_shape s t"
      "bridge_st env V RD PL LK VR VC E4 t" by blast
  obtain x' where x': "find_if t i = Some x'" "bare x' = bare x" by (rule same_shape_Some [OF t(2) x])
  have v': "(p, m, rt_place t i p) \<in> VR" using v rt_place_cong [OF t(2)] by simp
  have n': "(i, p, m, IPA_IP_v6) \<notin> E4" using new by (simp add: E4_def)
  define E6 where "E6 = (if ?a IPA_IP_v6 then insert (?q IPA_IP_v6) E4 else E4)"
  have "\<exists>u. (if ?a IPA_IP_v6 then add_client_flt_rule env i p m IPA_IP_v6 t else Some t) = Some u \<and> same_shape t u \<and> bridge_st env V RD PL LK VR VC E6 u"
    using st_add_flt [OF k t(3) x'(1) p v' n'] t(3) by (auto simp: E6_def)
  then obtain u where u: "(if ?a IPA_IP_v6 then add_client_flt_rule env i p m IPA_IP_v6 t else Some t) = Some u" "same_shape t u"
      "bridge_st env V RD PL LK VR VC E6 u" by blast
  have "E6 = E \<union> {?q ip | ip. ?a ip}"
  proof (rule set_eqI)
    fix z :: flt_slot
    obtain j r n jp where z: "z = (j, r, n, jp)" by (cases z)
    show "z \<in> E6 \<longleftrightarrow> z \<in> E \<union> {?q ip | ip. ?a ip}" by (cases jp) (auto simp: z E6_def E4_def)
  qed
  then show ?thesis using t(1) u same_shape_trans [OF t(2) u(2)] x by (auto simp: add_assigned_flt_rules_def)
qed

lemma st_del_flt:
  assumes k: "bridge_kernel_ok (dev env) V" and st: "bridge_st env V RD PL LK VR VC E s" and x: "find_if s i = Some x" and p: "flt_peer RD PL i p"
    and a: "\<And>ip. (i, p, m, ip) \<in> E \<Longrightarrow> m_is_ip_addr_assigned x ip"
  shows "\<exists>t. del_client_flt_rule env i p m s = Some t \<and> same_shape s t \<and> bridge_st env V RD PL LK VR VC (E - {(i, p, m, ip) | ip. True}) t"
proof -
  have s: "shape env RD PL LK s" and b: "flt_booked env V s" "rt_booked env V VR s" "ctx_booked V VC s" and E: "dom (flt_rec s) = E"
    using st by (simp_all add: bridge_st_def)
  obtain q y where q: "peer_at x p = Some q" by (rule st_peer [OF s x p])
  have a': "m_is_ip_addr_assigned x ip" if "flt_rec s (i, p, m, ip) \<noteq> None" for ip using a that E by auto
  obtain t where t: "del_client_flt_rule env i p m s = Some t" "flt_step env V s t"
      "flt_rec t = (\<lambda>z. if \<exists>ip. z = (i, p, m, ip) then None else flt_rec s z)"
    by (rule del_client_flt_rule_ok [OF k b(1) x q a'])
  note d = flt_stepD [OF t(2)]
  have "dom (flt_rec t) = E - {(i, p, m, ip) | ip. True}" using E unfolding t(3) by (auto split: if_splits)
  then show ?thesis using t(1) d b(2,3) shape_cong [OF d(1) s] by (auto simp: bridge_st_def)
qed

lemma st_clear_flt:
  assumes k: "bridge_kernel_ok (dev env) V" and st: "bridge_st env V RD PL LK VR VC E s" and x: "find_if s i = Some x" and p: "flt_peer RD PL i p"
    and a: "\<And>m ip. (i, p, m, ip) \<in> E \<Longrightarrow> m_is_ip_addr_assigned x ip"
  shows "\<exists>t. clear_all_flt_rule_for_one_peer_iface env i p s = Some t \<and> same_shape s t \<and>
    bridge_st env V RD PL LK VR VC (E - {(i, p, m, ip) | m ip. True}) t"
proof -
  have s: "shape env RD PL LK s" and b: "flt_booked env V s" "rt_booked env V VR s" "ctx_booked V VC s" and E: "dom (flt_rec s) = E"
    using st by (simp_all add: bridge_st_def)
  obtain q y where q: "peer_at x p = Some q" by (rule st_peer [OF s x p])
  have a': "m_is_ip_addr_assigned x ip" if "flt_rec s (i, p, m, ip) \<noteq> None" for m ip using a that E by auto
  obtain t where t: "clear_all_flt_rule_for_one_peer_iface env i p s = Some t" "flt_step env V s t"
      "flt_rec t = (\<lambda>z. if \<exists>m ip. z = (i, p, m, ip) then None else flt_rec s z)"
    by (rule clear_all_flt_ok [OF k b(1) x q a'])
  note d = flt_stepD [OF t(2)]
  have "dom (flt_rec t) = E - {(i, p, m, ip) | m ip. True}" using E unfolding t(3) by (auto split: if_splits)
  then show ?thesis using t(1) d b(2,3) shape_cong [OF d(1) s] by (auto simp: bridge_st_def)
qed

lemma st_add_rt:
  assumes k: "bridge_kernel_ok (dev env) V" and st: "bridge_st env V RD PL LK VR VC E s" and x: "find_if s i = Some x" and p: "flt_peer RD PL i p"
    and m: "m \<in> macs x" and new: "(i, m, rt_place s p i) \<notin> VR"
  shows "\<exists>t. add_client_rt_rule env i p m s = Some t \<and> same_shape s t \<and> bridge_st env V RD PL LK (insert (i, m, rt_place s p i) VR) VC E t"
proof -
  have s: "shape env RD PL LK s" and b: "flt_booked env V s" "rt_booked env V VR s" "ctx_booked V VC s" and E: "dom (flt_rec s) = E"
    using st by (simp_all add: bridge_st_def)
  obtain q y where q: "peer_at x p = Some q" "peer q = p" "find_if s p = Some y"
      "\<And>ip. rt_tbl_name_for_rt q ip = rt_tbl env (lans s) i (rt_place s p i) ip" "hdr_type s p = l2_type (m_p_iface y)"
    using st_peer [OF s x p] by metis
  have y: "find_if s (peer q) = Some y" using q by simp
  obtain c where c: "l2l_client x m = Some c" using client_in_shape [OF m] by auto
  have sl: "rt_place s p i = (if peer q = i then None else Some (l2_type (m_p_iface y)))" using q by (simp add: rt_place_def)
  obtain t where t: "add_client_rt_rule env i p m s = Some t" "rt_step V s t" "rt_booked env V (insert (i, m, rt_place s p i) VR) t"
    by (rule add_client_rt_rule_ok [OF k b(2) x shapeD(1) [OF s x] q(1) y c sl q(4) new])
  note d = rt_stepD [OF t(2)]
  show ?thesis using t d b(1,3) E shape_cong [OF d(1) s] by (auto simp: bridge_st_def)
qed

lemma st_del_rt:
  assumes k: "bridge_kernel_ok (dev env) V" and st: "bridge_st env V RD PL LK VR VC E s" and x: "find_if s i = Some x" and p: "flt_peer RD PL i p"
    and m: "m \<in> macs x" and v: "(i, m, rt_place s p i) \<in> VR"
  shows "\<exists>t. del_client_rt_rule env i p m s = Some t \<and> same_shape s t \<and> bridge_st env V RD PL LK (VR - {(i, m, rt_place s p i)}) VC E t"
proof -
  have s: "shape env RD PL LK s" and b: "flt_booked env V s" "rt_booked env V VR s" "ctx_booked V VC s" and E: "dom (flt_rec s) = E"
    using st by (simp_all add: bridge_st_def)
  obtain q y where q: "peer_at x p = Some q" "peer q = p" "find_if s p = Some y" "hdr_type s p = l2_type (m_p_iface y)"
    using st_peer [OF s x p] by metis
  have y: "find_if s (peer q) = Some y" using q by simp
  obtain c where c: "l2l_client x m = Some c" using client_in_shape [OF m] by auto
  have sl: "rt_place s p i = (if peer q = i then None else Some (l2_type (m_p_iface y)))" using q by (simp add: rt_place_def)
  obtain t where t: "del_client_rt_rule env i p m s = Some t" "rt_step V s t" "rt_booked env V (VR - {(i, m, rt_place s p i)}) t"
    by (rule del_client_rt_rule_ok [OF k b(2) x q(1) y c sl v])
  note d = rt_stepD [OF t(2)]
  show ?thesis using t d b(1,3) E shape_cong [OF d(1) s] by (auto simp: bridge_st_def)
qed

section \<open>The invariant\<close>

text \<open>Two interfaces are peers when both support forwarding between interfaces.\<close>

definition full :: "'w lan2lan \<Rightarrow> nat \<Rightarrow> nat set" where
  "full s i = {p. \<exists>x y. find_if s i = Some x \<and> find_if s p = Some y \<and> p \<noteq> i \<and>
     m_support_inter_iface_offload x \<and> m_support_inter_iface_offload y}"

definition RD_of :: "'w lan2lan \<Rightarrow> nat set" where
  "RD_of s = {i. \<exists>x. find_if s i = Some x \<and> m_support_intra_iface_offload x}"

definition in_use :: "(nat \<Rightarrow> nat set) \<Rightarrow> 'w lan2lan \<Rightarrow> l2l_iface \<Rightarrow> nat \<Rightarrow> ipa_hdr_l2_type option \<Rightarrow> bool" where
  "in_use LK s x i sl \<longleftrightarrow> (case sl of None \<Rightarrow> m_support_intra_iface_offload x | Some t \<Rightarrow> t \<in> hdr_type s ` LK i)"

definition VC_of :: "(nat \<Rightarrow> nat set) \<Rightarrow> 'w lan2lan \<Rightarrow> ctx_slot set" where
  "VC_of LK s = {(i, sl). \<exists>x. find_if s i = Some x \<and> in_use LK s x i sl}"

definition VR_of :: "(nat \<Rightarrow> nat set) \<Rightarrow> 'w lan2lan \<Rightarrow> (nat \<times> mac \<times> ipa_hdr_l2_type option) set" where
  "VR_of LK s = {(i, m, sl). \<exists>x. find_if s i = Some x \<and> m \<in> macs x \<and> in_use LK s x i sl}"

definition E_of :: "(nat \<Rightarrow> nat set) \<Rightarrow> 'w lan2lan \<Rightarrow> flt_slot set" where
  "E_of LK s = {(i, p, m, ip). \<exists>x y. find_if s i = Some x \<and> find_if s p = Some y \<and> m \<in> macs y \<and>
     m_is_ip_addr_assigned x ip \<and> flt_peer (RD_of s) LK i p}"

definition bridge_inv :: "'w bridge_env \<Rightarrow> 'w kernel_view \<Rightarrow> 'w lan2lan \<Rightarrow> bool" where
  "bridge_inv env V s \<longleftrightarrow> bridge_st env V (RD_of s) (full s) (full s) (VR_of (full s) s) (VC_of (full s) s) (E_of (full s) s) s"

lemma bare_macs: "bare x = bare y \<Longrightarrow> macs x = macs y"
  using arg_cong [OF bareD(6) [of x y], of set] by (simp add: macs_def)

lemma cong_exists:
  assumes st: "same_shape s t" and P: "\<And>x y. bare x = bare y \<Longrightarrow> P x = P y"
  shows "(\<exists>x. find_if t i = Some x \<and> P x) \<longleftrightarrow> (\<exists>x. find_if s i = Some x \<and> P x)"
proof
  assume "\<exists>x. find_if t i = Some x \<and> P x"
  then obtain x where x: "find_if t i = Some x" "P x" by blast
  obtain y where y: "find_if s i = Some y" "bare y = bare x" by (rule same_shape_Some [OF same_shape_sym [OF st] x(1)])
  show "\<exists>x. find_if s i = Some x \<and> P x" using y(1) P [OF y(2)] x(2) by blast
next
  assume "\<exists>x. find_if s i = Some x \<and> P x"
  then obtain x where x: "find_if s i = Some x" "P x" by blast
  obtain y where y: "find_if t i = Some y" "bare y = bare x" by (rule same_shape_Some [OF st x(1)])
  show "\<exists>x. find_if t i = Some x \<and> P x" using y(1) P [OF y(2)] x(2) by blast
qed

lemma full_alt:
  "full s i = {p. p \<noteq> i \<and> (\<exists>x. find_if s i = Some x \<and> m_support_inter_iface_offload x) \<and> (\<exists>y. find_if s p = Some y \<and> m_support_inter_iface_offload y)}"
  by (auto simp: full_def)

lemma full_cong:
  assumes st: "same_shape s t"
  shows "full t = full s"
proof -
  have *: "(\<exists>x. find_if t i = Some x \<and> m_support_inter_iface_offload x) \<longleftrightarrow> (\<exists>x. find_if s i = Some x \<and> m_support_inter_iface_offload x)" for i
    by (rule cong_exists [OF st]) (rule bareD(3))
  show ?thesis by (rule ext) (simp only: full_alt *)
qed

lemma RD_of_cong:
  assumes st: "same_shape s t"
  shows "RD_of t = RD_of s"
proof -
  have *: "(\<exists>x. find_if t i = Some x \<and> m_support_intra_iface_offload x) \<longleftrightarrow> (\<exists>x. find_if s i = Some x \<and> m_support_intra_iface_offload x)" for i
    by (rule cong_exists [OF st]) (rule bareD(4))
  show ?thesis by (simp only: RD_of_def *)
qed

lemma in_use_cong: "same_shape s t \<Longrightarrow> in_use LK t = in_use LK s"
  by (intro ext) (simp only: in_use_def hdr_type_cong)

lemma in_use_bare:
  assumes "bare x = bare y"
  shows "in_use LK s x i sl = in_use LK s y i sl"
  by (simp only: in_use_def bareD(4) [OF assms])

lemma VC_of_cong:
  assumes st: "same_shape s t"
  shows "VC_of LK t = VC_of LK s"
proof -
  have *: "(\<exists>x. find_if t i = Some x \<and> in_use LK s x i sl) \<longleftrightarrow> (\<exists>x. find_if s i = Some x \<and> in_use LK s x i sl)" for i sl
    by (rule cong_exists [OF st]) (rule in_use_bare)
  show ?thesis by (simp only: VC_of_def in_use_cong [OF st] *)
qed

lemma VR_of_cong:
  assumes st: "same_shape s t"
  shows "VR_of LK t = VR_of LK s"
proof -
  have *: "(\<exists>x. find_if t i = Some x \<and> m \<in> macs x \<and> in_use LK s x i sl) \<longleftrightarrow> (\<exists>x. find_if s i = Some x \<and> m \<in> macs x \<and> in_use LK s x i sl)" for i m sl
  proof (rule cong_exists [OF st])
    fix x y :: l2l_iface assume h: "bare x = bare y"
    show "(m \<in> macs x \<and> in_use LK s x i sl) = (m \<in> macs y \<and> in_use LK s y i sl)" by (simp only: bare_macs [OF h] in_use_bare [OF h])
  qed
  show ?thesis by (simp only: VR_of_def in_use_cong [OF st] *)
qed

lemma E_of_alt:
  "E_of LK s = {(i, p, m, ip). (\<exists>x. find_if s i = Some x \<and> m_is_ip_addr_assigned x ip \<and> flt_peer (RD_of s) LK i p) \<and> (\<exists>y. find_if s p = Some y \<and> m \<in> macs y)}"
  by (auto simp: E_of_def)

lemma E_of_cong:
  assumes st: "same_shape s t"
  shows "E_of LK t = E_of LK s"
proof -
  have 1: "(\<exists>x. find_if t i = Some x \<and> m_is_ip_addr_assigned x ip \<and> flt_peer (RD_of s) LK i p) \<longleftrightarrow>
      (\<exists>x. find_if s i = Some x \<and> m_is_ip_addr_assigned x ip \<and> flt_peer (RD_of s) LK i p)" for i p ip
  proof (rule cong_exists [OF st])
    fix x y :: l2l_iface assume h: "bare x = bare y"
    show "(m_is_ip_addr_assigned x ip \<and> flt_peer (RD_of s) LK i p) = (m_is_ip_addr_assigned y ip \<and> flt_peer (RD_of s) LK i p)"
      by (simp only: bareD(2) [OF h])
  qed
  have 2: "(\<exists>y. find_if t p = Some y \<and> m \<in> macs y) \<longleftrightarrow> (\<exists>y. find_if s p = Some y \<and> m \<in> macs y)" for p m
    by (rule cong_exists [OF st]) (drule bare_macs, simp only:)
  show ?thesis by (simp only: E_of_alt RD_of_cong [OF st] 1 2)
qed

lemma invI:
  assumes "bridge_st env V (RD_of s) (full s) (full s) (VR_of (full s) s) (VC_of (full s) s) (E_of (full s) s) t" and "same_shape s t"
  shows "bridge_inv env V t"
  using assms(1) by (simp add: bridge_inv_def full_cong [OF assms(2)] RD_of_cong [OF assms(2)] VR_of_cong [OF assms(2)] VC_of_cong [OF assms(2)] E_of_cong [OF assms(2)])

section \<open>A client is added\<close>

definition push_client :: "client_info \<Rightarrow> l2l_iface \<Rightarrow> l2l_iface" where
  "push_client c x = x\<lparr>m_client_info := c # m_client_info x\<rparr>"

lemma push_client_simps [simp]:
  "l2l_ptr (push_client c x) = l2l_ptr x" "m_p_iface (push_client c x) = m_p_iface x" "peer_at (push_client c x) p = peer_at x p"
  "m_is_ip_addr_assigned (push_client c x) = m_is_ip_addr_assigned x" "macs (push_client c x) = insert (c_mac c) (macs x)"
  "m_support_inter_iface_offload (push_client c x) = m_support_inter_iface_offload x"
  "m_support_intra_iface_offload (push_client c x) = m_support_intra_iface_offload x"
  "m_peer_iface_info (push_client c x) = m_peer_iface_info x"
  "l2l_client (push_client c x) n = (if n = c_mac c then Some c else l2l_client x n)"
  by (auto simp: push_client_def l2l_ptr_def peer_at_def macs_def l2l_client_def)

lemma find_push: "find_if (upd_if i (push_client c) s) j = (if j = i then map_option (push_client c) (find_if s i) else find_if s j)"
  by (simp add: find_if_upd)

lemma lans_push [simp]: "lans (upd_if i (push_client c) s) = lans s"
  by (auto simp: lans_def find_push fun_eq_iff option.map_comp comp_def)

lemma shape_push:
  assumes s: "shape env RD PL LK s" and x: "find_if s i = Some x" and m: "c_mac c \<notin> macs x"
  shows "shape env RD PL LK (upd_if i (push_client c) s)"
proof -
  have ty: "hdr_type (upd_if i (push_client c) s) = hdr_type s" by (simp add: hdr_type_def fun_eq_iff)
  have "iface_shape env RD PL LK (upd_if i (push_client c) s) j y'" if "find_if (upd_if i (push_client c) s) j = Some y'" for j y'
  proof (cases "j = i")
    case True
    then have "y' = push_client c x" using that x by (simp add: find_push)
    then show ?thesis using s x m True unfolding iface_shape_def ty by (auto simp: shape_def iface_shape_def push_client_def macs_def)
  next
    case False
    then have "find_if s j = Some y'" using that by (simp add: find_push)
    then show ?thesis using s unfolding iface_shape_def ty by (simp add: shape_def iface_shape_def)
  qed
  moreover have "find_if (upd_if i (push_client c) s) p = None \<longleftrightarrow> find_if s p = None" for p by (simp add: find_push)
  moreover have "map l2l_ptr (m_iface (upd_if i (push_client c) s)) = map l2l_ptr (m_iface s)" by (simp add: upd_if_def map_upd_keep)
  ultimately show ?thesis using s by (simp add: shape_def)
qed

lemma st_push:
  assumes st: "bridge_st env V RD PL LK VR VC E s" and x: "find_if s i = Some x" and m: "c_mac c \<notin> macs x" and v: "\<And>sl. (i, c_mac c, sl) \<notin> VR"
  shows "bridge_st env V RD PL LK VR VC E (upd_if i (push_client c) s)"
proof -
  let ?t = "upd_if i (push_client c) s"
  have s: "shape env RD PL LK s" and b: "flt_booked env V s" "rt_booked env V VR s" "ctx_booked V VC s" and E: "dom (flt_rec s) = E"
    using st by (simp_all add: bridge_st_def)
  have "peer_rec ?t = peer_rec s" by (auto simp: peer_rec_def find_push fun_eq_iff split: option.split)
  note f = flt_booked_cong [OF b(1) this]
  have ctx: "ctx_of ?t = ctx_of s" by (auto simp: ctx_of_def find_push push_client_def fun_eq_iff split: option.split)
  have cr: "client_rec ?t j n = client_rec s j n" if "(j, n, sl) \<in> VR" for j n sl
    using that v x by (auto simp: client_rec_def find_push split: option.split)
  have "rt_booked env V VR ?t"
  proof -
    have "rt_rec VR ?t = rt_rec VR s" using cr by (auto simp: rt_rec_def fun_eq_iff)
    moreover have "rt_valid VR ?t" using b(2) cr unfolding rt_booked_in_def rt_valid_def by simp
    ultimately show ?thesis using b(2) ctx by (simp add: rt_booked_in_def)
  qed
  moreover have "ctx_booked V VC ?t" by (rule ctx_booked_cong [OF b(3)]) (simp_all add: ctx)
  ultimately show ?thesis using f shape_push [OF s x m] E by (simp add: bridge_st_def)
qed

lemma st_add_one:
  assumes k: "bridge_kernel_ok (dev env) V" and st: "bridge_st env V RD PL LK VR VC E s" and i: "i \<in> PL p" and y: "find_if s p = Some y"
    and v: "(i, m, Some (hdr_type s p)) \<in> VR" and new: "\<And>ip. (p, i, m, ip) \<notin> E"
  shows "\<exists>t. add_one_client_flt_rule env p i m s = Some t \<and> same_shape s t \<and>
    bridge_st env V RD PL LK VR VC (E \<union> {(p, i, m, ip) | ip. m_is_ip_addr_assigned y ip}) t"
proof -
  have s: "shape env RD PL LK s" using st by (simp add: bridge_st_def)
  have ne: "i \<noteq> p" using i shape_peers(1) [OF s, of p] by auto
  obtain q where q: "look peer i (m_peer_iface_info y) = Some q" using shape_peer_at [OF s y i] by metis
  have "flt_peer RD PL p i" using i ne by (simp add: flt_peer_def)
  moreover have "(i, m, rt_place s p i) \<in> VR" using v ne by (simp add: rt_place_def)
  ultimately show ?thesis
    using st_add_assigned [OF k st y, of i m] new y q by (simp add: add_one_client_flt_rule_def)
qed

text \<open>One round of the loop over the peers.\<close>

lemma st_add_client_for_peer:
  assumes k: "bridge_kernel_ok (dev env) V" and st: "bridge_st env V RD PL PL (VR \<union> {(i, m, Some t) | t. t \<in> set flag}) VC E s"
    and x: "find_if s i = Some x" "m \<in> macs x" and p: "peer q \<in> PL i" and y: "find_if s (peer q) = Some y"
    and v: "\<And>sl. (i, m, sl) \<notin> VR" and new: "\<And>ip. (peer q, i, m, ip) \<notin> E"
  shows "\<exists>t. add_client_for_peer env i m q (flag, s) = Some (hdr_type s (peer q) # flag, t) \<and> same_shape s t \<and>
    bridge_st env V RD PL PL (VR \<union> {(i, m, Some t) | t. t \<in> set (hdr_type s (peer q) # flag)}) VC
      (E \<union> {(peer q, i, m, ip) | ip. m_is_ip_addr_assigned y ip}) t"
proof -
  let ?p = "peer q" and ?t = "hdr_type s (peer q)" and ?VR = "\<lambda>f. VR \<union> {(i, m, Some t) | t. t \<in> set f}"
  have s: "shape env RD PL PL s" using st by (simp add: bridge_st_def)
  have ne: "?p \<noteq> i" using p shape_peers(1) [OF s, of i] by auto
  have ty: "l2_type (m_p_iface y) = ?t" using y by (simp add: hdr_type_def lans_def)
  have fp: "flt_peer RD PL i ?p" using p ne by (simp add: flt_peer_def)
  have ins: "insert (i, m, Some ?t) (?VR flag) = ?VR (?t # flag)" by auto
  have "\<exists>u. (if ?t \<notin> set flag then add_client_rt_rule env i ?p m s else Some s) = Some u \<and> same_shape s u \<and> bridge_st env V RD PL PL (?VR (?t # flag)) VC E u"
  proof (cases "?t \<in> set flag")
    case True
    then have "?VR (?t # flag) = ?VR flag" by auto
    then show ?thesis using True st by simp
  next
    case False
    have rp: "rt_place s ?p i = Some ?t" using ne by (simp add: rt_place_def)
    have "(i, m, rt_place s ?p i) \<notin> ?VR flag" using False v by (auto simp: rp)
    from st_add_rt [OF k st x(1) fp x(2) this] show ?thesis using False by (simp add: rp ins)
  qed
  then obtain u where u: "(if ?t \<notin> set flag then add_client_rt_rule env i ?p m s else Some s) = Some u" "same_shape s u"
      "bridge_st env V RD PL PL (?VR (?t # flag)) VC E u" by blast
  obtain y' where y': "find_if u ?p = Some y'" "bare y' = bare y" by (rule same_shape_Some [OF u(2) y])
  have v': "(i, m, Some (hdr_type u ?p)) \<in> ?VR (?t # flag)" using hdr_type_cong [OF u(2)] by simp
  obtain w where w: "add_one_client_flt_rule env ?p i m u = Some w" "same_shape u w"
      "bridge_st env V RD PL PL (?VR (?t # flag)) VC (E \<union> {(?p, i, m, ip) | ip. m_is_ip_addr_assigned y' ip}) w"
    using st_add_one [OF k u(3) shape_peers(3) [OF s p] y'(1) v' new] by blast
  show ?thesis
    using u(1) w y ty same_shape_trans [OF u(2) w(2)] bareD(2) [OF y'(2)] by (auto simp: add_client_for_peer_def Let_def)
qed

text \<open>The loop: routing rules for every header type of a peer, filter rules on every peer.\<close>

definition peer_rules :: "'w lan2lan \<Rightarrow> nat \<Rightarrow> mac \<Rightarrow> nat set \<Rightarrow> flt_slot set" where
  "peer_rules s i m P = {(p, i, m, ip) | p ip. p \<in> P \<and> (\<exists>y. find_if s p = Some y \<and> m_is_ip_addr_assigned y ip)}"

lemma st_add_for_peers:
  assumes k: "bridge_kernel_ok (dev env) V" and st: "bridge_st env V RD PL PL VR VC E s" and x: "find_if s i = Some x" "m \<in> macs x"
    and v: "\<And>sl. (i, m, sl) \<notin> VR" and new: "\<And>p ip. (p, i, m, ip) \<notin> E"
  shows "\<exists>flag t. each (add_client_for_peer env i m) (m_peer_iface_info x) ([], s) = Some (flag, t) \<and> same_shape s t \<and>
    bridge_st env V RD PL PL (VR \<union> {(i, m, Some t) | t. t \<in> hdr_type s ` PL i}) VC (E \<union> peer_rules s i m (PL i)) t"
proof -
  have s: "shape env RD PL PL s" using st by (simp add: bridge_st_def)
  define J where "J = (\<lambda>(pre :: peer_iface_info list) (flag, t). same_shape s t \<and> set flag = hdr_type s ` peer ` set pre \<and>
    bridge_st env V RD PL PL (VR \<union> {(i, m, Some t) | t. t \<in> set flag}) VC (E \<union> peer_rules s i m (peer ` set pre)) t)"
  have "\<exists>ft. each (add_client_for_peer env i m) (m_peer_iface_info x) ([], s) = Some ft \<and> J (m_peer_iface_info x) ft"
  proof (rule each_inv)
    show "J [] ([], s)" using st by (simp add: J_def peer_rules_def)
  next
    fix pre q rest ft assume qs: "m_peer_iface_info x = pre @ q # rest" and J: "J pre ft"
    obtain flag t where ft: "ft = (flag, t)" by (cases ft)
    have sh: "same_shape s t" and fl: "set flag = hdr_type s ` peer ` set pre"
      and b: "bridge_st env V RD PL PL (VR \<union> {(i, m, Some t) | t. t \<in> set flag}) VC (E \<union> peer_rules s i m (peer ` set pre)) t"
      using J by (auto simp only: J_def ft prod.case)
    have p: "peer q \<in> PL i" using shapeD(6) [OF s x(1)] qs by auto
    have nd: "peer q \<notin> peer ` set pre" using shapeD(5) [OF s x(1)] qs by auto
    obtain x' where x': "find_if t i = Some x'" "bare x' = bare x" by (rule same_shape_Some [OF sh x(1)])
    obtain y0 where y0: "find_if s (peer q) = Some y0" using shape_peers(4) [OF s p] by auto
    obtain y where y: "find_if t (peer q) = Some y" "bare y = bare y0" by (rule same_shape_Some [OF sh y0])
    have m': "m \<in> macs x'" using x(2) bare_macs [OF x'(2)] by simp
    have n: "(peer q, i, m, ip) \<notin> E \<union> peer_rules s i m (peer ` set pre)" for ip using new nd by (auto simp: peer_rules_def)
    obtain u where u: "add_client_for_peer env i m q (flag, t) = Some (hdr_type t (peer q) # flag, u)" "same_shape t u"
        "bridge_st env V RD PL PL (VR \<union> {(i, m, Some z) | z. z \<in> set (hdr_type t (peer q) # flag)}) VC
          (E \<union> peer_rules s i m (peer ` set pre) \<union> {(peer q, i, m, ip) | ip. m_is_ip_addr_assigned y ip}) u"
      using st_add_client_for_peer [OF k b x'(1) m' p y(1) v n] by blast
    have E: "E \<union> peer_rules s i m (peer ` set pre) \<union> {(peer q, i, m, ip) | ip. m_is_ip_addr_assigned y ip} =
        E \<union> peer_rules s i m (peer ` set (pre @ [q]))"
      using y0 bareD(2) [OF y(2)] by (auto simp: peer_rules_def)
    have "set (hdr_type t (peer q) # flag) = hdr_type s ` peer ` set (pre @ [q])" using fl hdr_type_cong [OF sh] by simp
    then have "J (pre @ [q]) (hdr_type t (peer q) # flag, u)"
      using u(3) same_shape_trans [OF sh u(2)] unfolding J_def E by simp
    then show "\<exists>t. add_client_for_peer env i m q ft = Some t \<and> J (pre @ [q]) t" using u(1) ft by blast
  qed
  then obtain flag t where t: "each (add_client_for_peer env i m) (m_peer_iface_info x) ([], s) = Some (flag, t)" "J (m_peer_iface_info x) (flag, t)"
    by (metis surj_pair)
  have "same_shape s t" "set flag = hdr_type s ` PL i"
      "bridge_st env V RD PL PL (VR \<union> {(i, m, Some t) | t. t \<in> set flag}) VC (E \<union> peer_rules s i m (PL i)) t"
    using t(2) unfolding J_def prod.case shapeD(6) [OF s x(1)] by blast+
  then show ?thesis using t(1) by simp
qed

lemma l2l_client_macs: "l2l_client x m = None \<longleftrightarrow> m \<notin> macs x"
  by (simp add: l2l_client_def macs_def look_None)

lemma full_push [simp]: "full (upd_if i (push_client c) s) = full s"
  by (rule ext) (auto simp: full_def find_push split: if_splits)

lemma hdr_type_push [simp]: "hdr_type (upd_if i (push_client c) s) = hdr_type s"
  by (simp add: hdr_type_def fun_eq_iff)

lemma in_use_push [simp]: "in_use LK (upd_if i (push_client c) s) = in_use LK s" "in_use LK s (push_client c x) = in_use LK s x"
  by (auto simp: in_use_def fun_eq_iff split: option.split)

lemma RD_of_push [simp]: "RD_of (upd_if i (push_client c) s) = RD_of s"
  by (auto simp: RD_of_def find_push split: if_splits)

lemma VC_of_push [simp]: "VC_of LK (upd_if i (push_client c) s) = VC_of LK s"
  by (auto simp: VC_of_def find_push split: if_splits)

lemma VR_of_push:
  assumes "find_if s i = Some x"
  shows "VR_of LK (upd_if i (push_client c) s) = VR_of LK s \<union> {(i, c_mac c, sl) | sl. in_use LK s x i sl}"
  using assms by (auto simp: VR_of_def find_push split: if_splits)

lemma E_of_push:
  assumes "find_if s i = Some x"
  shows "E_of LK (upd_if i (push_client c) s) = E_of LK s \<union> {(p, i, c_mac c, ip) | p ip. \<exists>y. find_if s p = Some y \<and> m_is_ip_addr_assigned y ip \<and> flt_peer (RD_of s) LK p i}"
  using assms by (auto simp: E_of_def find_push split: if_splits)

lemma full_sym: "p \<in> full s i \<longleftrightarrow> i \<in> full s p"
  by (auto simp: full_def)

lemma full_not_inter: "find_if s i = Some x \<Longrightarrow> \<not> m_support_inter_iface_offload x \<Longrightarrow> full s i = {}"
  by (auto simp: full_def)

lemma peer_rules_push [simp]: "peer_rules (upd_if i (push_client c) s) = peer_rules s"
proof -
  have *: "(\<exists>y. find_if (upd_if i (push_client c) s) p = Some y \<and> m_is_ip_addr_assigned y ip) \<longleftrightarrow> (\<exists>y. find_if s p = Some y \<and> m_is_ip_addr_assigned y ip)" for p ip
    by (auto simp: find_push)
  show ?thesis by (intro ext) (simp only: peer_rules_def *)
qed

lemma rules_for_client:
  assumes "find_if s i = Some x"
  shows "{(p, i, m, ip) | p ip. \<exists>y. find_if s p = Some y \<and> m_is_ip_addr_assigned y ip \<and> flt_peer (RD_of s) (full s) p i} =
    peer_rules s i m (full s i) \<union> {(i, i, m, ip) | ip. m_support_intra_iface_offload x \<and> m_is_ip_addr_assigned x ip}"
proof (rule set_eqI)
  fix z :: flt_slot
  obtain j r n ip where z: "z = (j, r, n, ip)" by (cases z)
  have "i \<notin> full s i" "i \<in> full s j \<longleftrightarrow> j \<in> full s i" by (auto simp: full_def)
  then show "z \<in> {(p, i, m, ip) | p ip. \<exists>y. find_if s p = Some y \<and> m_is_ip_addr_assigned y ip \<and> flt_peer (RD_of s) (full s) p i} \<longleftrightarrow>
      z \<in> peer_rules s i m (full s i) \<union> {(i, i, m, ip) | ip. m_support_intra_iface_offload x \<and> m_is_ip_addr_assigned x ip}"
    using assms by (cases "j = i") (auto simp: z peer_rules_def flt_peer_def RD_of_def)
qed

lemma client_add_ok:
  fixes m :: mac
  assumes k: "bridge_kernel_ok (dev env) V" and inv: "bridge_inv env V s" and x: "find_if s i = Some x"
  defines "c \<equiv> (junk_client env (l2l_world s))\<lparr>c_mac := m\<rparr>"
  shows "\<exists>t. iface_handle_client_add env i m s = Some t \<and> bridge_inv env V t \<and>
    same_shape (if m \<in> macs x \<or> length (m_client_info x) = MAX_NUM_CLIENT then s else upd_if i (push_client c) s) t"
proof (cases "m \<in> macs x \<or> length (m_client_info x) = MAX_NUM_CLIENT")
  case True
  then have "iface_handle_client_add env i m s = Some s" using x l2l_client_macs [of x m] by (auto simp: iface_handle_client_add_def)
  then show ?thesis using True inv by simp
next
  case False
  let ?rd = "RD_of s" and ?f = "full s" and ?VR = "VR_of (full s) s" and ?VC = "VC_of (full s) s" and ?E = "E_of (full s) s"
  define s1 where "s1 = upd_if i (push_client c) s"
  have cm: "c_mac c = m" by (simp add: c_def)
  have st: "bridge_st env V ?rd ?f ?f ?VR ?VC ?E s" using inv by (simp add: bridge_inv_def)
  have vr: "(i, m, sl) \<notin> ?VR" for sl using False x by (auto simp: VR_of_def)
  have ne: "(p, i, m, ip) \<notin> ?E" for p ip using False x by (auto simp: E_of_def)
  have st1: "bridge_st env V ?rd ?f ?f ?VR ?VC ?E s1" unfolding s1_def by (rule st_push [OF st x]) (use False vr cm in simp_all)
  have x1: "find_if s1 i = Some (push_client c x)" "m \<in> macs (push_client c x)" using x cm by (simp_all add: s1_def find_push)
  define E2 where "E2 = ?E \<union> peer_rules s1 i m (?f i)"
  define R2 where "R2 = ?VR \<union> {(i, m, Some t) | t. t \<in> hdr_type s1 ` ?f i}"
  have "\<exists>t. (if m_support_inter_iface_offload x then map_option snd (each (add_client_for_peer env i m) (m_peer_iface_info x) ([], s1)) else Some s1) = Some t \<and>
      same_shape s1 t \<and> bridge_st env V ?rd ?f ?f R2 ?VC E2 t"
  proof (cases "m_support_inter_iface_offload x")
    case True
    then show ?thesis using st_add_for_peers [OF k st1 x1 vr ne] by (auto simp: R2_def E2_def)
  next
    case False
    then have "?f i = {}" using x full_not_inter by blast
    then show ?thesis using st1 False by (simp add: R2_def E2_def peer_rules_def)
  qed
  then obtain t where t: "(if m_support_inter_iface_offload x then map_option snd (each (add_client_for_peer env i m) (m_peer_iface_info x) ([], s1)) else Some s1) = Some t"
      "same_shape s1 t" "bridge_st env V ?rd ?f ?f R2 ?VC E2 t" by blast
  define R3 where "R3 = (if m_support_intra_iface_offload x then insert (i, m, None) R2 else R2)"
  define E3 where "E3 = E2 \<union> {(i, i, m, ip) | ip. m_support_intra_iface_offload x \<and> m_is_ip_addr_assigned x ip}"
  have "\<exists>u. (if m_support_intra_iface_offload x then do { s \<leftarrow> add_client_rt_rule env i i m t; add_assigned_flt_rules env i i m s } else Some t) = Some u \<and>
      same_shape t u \<and> bridge_st env V ?rd ?f ?f R3 ?VC E3 u"
  proof (cases "m_support_intra_iface_offload x")
    case True
    obtain x2 where x2: "find_if t i = Some x2" "bare x2 = bare (push_client c x)" by (rule same_shape_Some [OF t(2) x1(1)])
    have fp: "flt_peer ?rd ?f i i" using True x by (simp add: flt_peer_def RD_of_def)
    have m2: "m \<in> macs x2" using x1(2) bare_macs [OF x2(2)] by simp
    have rp: "rt_place t i i = None" by (simp add: rt_place_def)
    have "(i, m, rt_place t i i) \<notin> R2" using vr by (auto simp: R2_def rp)
    then obtain u where u: "add_client_rt_rule env i i m t = Some u" "same_shape t u" "bridge_st env V ?rd ?f ?f R3 ?VC E2 u"
      using st_add_rt [OF k t(3) x2(1) fp m2] True unfolding rp R3_def by auto
    obtain x3 where x3: "find_if u i = Some x3" "bare x3 = bare x2" by (rule same_shape_Some [OF u(2) x2(1)])
    have v3: "(i, m, rt_place u i i) \<in> R3" using True by (simp add: R3_def rt_place_def)
    have n3: "(i, i, m, ip) \<notin> E2" for ip using ne by (auto simp: E2_def peer_rules_def full_def)
    have "{(i, i, m, ip) | ip. m_is_ip_addr_assigned x3 ip} = {(i, i, m, ip) | ip. m_support_intra_iface_offload x \<and> m_is_ip_addr_assigned x ip}"
      using True bareD(2) [OF x3(2)] bareD(2) [OF x2(2)] by simp
    then show ?thesis
      using st_add_assigned [OF k u(3) x3(1) fp v3 n3] u(1,2) True same_shape_trans [OF u(2)] by (auto simp: E3_def)
  next
    case False
    then show ?thesis using t(3) by (simp add: R3_def E3_def)
  qed
  then obtain u where u: "(if m_support_intra_iface_offload x then do { s \<leftarrow> add_client_rt_rule env i i m t; add_assigned_flt_rules env i i m s } else Some t) = Some u"
      "same_shape t u" "bridge_st env V ?rd ?f ?f R3 ?VC E3 u" by blast
  have "R3 = VR_of (full s1) s1"
    unfolding s1_def full_push VR_of_push [OF x] by (auto simp: R3_def R2_def s1_def cm in_use_def split: option.splits)
  moreover have "E3 = E_of (full s1) s1"
    unfolding s1_def full_push E_of_push [OF x] cm rules_for_client [OF x] by (simp add: E3_def E2_def s1_def Un_assoc)
  ultimately have "bridge_inv env V u"
    using u(3) invI [of env V s1 u] same_shape_trans [OF t(2) u(2)] by (simp add: s1_def)
  moreover have "iface_handle_client_add env i m s = do {
      s \<leftarrow> (if m_support_inter_iface_offload x then map_option snd (each (add_client_for_peer env i m) (m_peer_iface_info x) ([], s1)) else Some s1);
      if m_support_intra_iface_offload x then do { s \<leftarrow> add_client_rt_rule env i i m s; add_assigned_flt_rules env i i m s } else Some s }"
    using x False l2l_client_macs [of x m] by (simp add: iface_handle_client_add_def s1_def push_client_def [abs_def] c_def Let_def)
  then have "iface_handle_client_add env i m s = Some u" unfolding t(1) using u(1) by simp
  ultimately show ?thesis using False same_shape_trans [OF t(2) u(2)] by (auto simp: s1_def)
qed

section \<open>A client is deleted\<close>

lemma st_del_one:
  assumes k: "bridge_kernel_ok (dev env) V" and st: "bridge_st env V RD PL LK VR VC E s" and i: "i \<in> PL p" and y: "find_if s p = Some y"
    and a: "\<And>ip. (p, i, m, ip) \<in> E \<Longrightarrow> m_is_ip_addr_assigned y ip"
  shows "\<exists>t. del_one_client_flt_rule env p i m s = Some t \<and> same_shape s t \<and> bridge_st env V RD PL LK VR VC (E - {(p, i, m, ip) | ip. True}) t"
proof -
  have s: "shape env RD PL LK s" using st by (simp add: bridge_st_def)
  have ne: "i \<noteq> p" using i shape_peers(1) [OF s, of p] by auto
  obtain q where q: "look peer i (m_peer_iface_info y) = Some q" using shape_peer_at [OF s y i] by metis
  have "flt_peer RD PL p i" using i ne by (simp add: flt_peer_def)
  from st_del_flt [OF k st y this a] show ?thesis using y q by (simp add: del_one_client_flt_rule_def)
qed

lemma st_del_client_for_peer:
  assumes k: "bridge_kernel_ok (dev env) V" and st: "bridge_st env V RD PL PL (VR - {(i, m, Some t) | t. t \<in> set flag}) VC E s"
    and x: "find_if s i = Some x" "m \<in> macs x" and p: "peer q \<in> PL i" and y: "find_if s (peer q) = Some y"
    and v: "(i, m, Some (hdr_type s (peer q))) \<in> VR" and a: "\<And>ip. (peer q, i, m, ip) \<in> E \<Longrightarrow> m_is_ip_addr_assigned y ip"
  shows "\<exists>t. del_client_for_peer env i m q (flag, s) = Some (hdr_type s (peer q) # flag, t) \<and> same_shape s t \<and>
    bridge_st env V RD PL PL (VR - {(i, m, Some t) | t. t \<in> set (hdr_type s (peer q) # flag)}) VC (E - {(peer q, i, m, ip) | ip. True}) t"
proof -
  let ?p = "peer q" and ?t = "hdr_type s (peer q)" and ?VR = "\<lambda>f. VR - {(i, m, Some t) | t. t \<in> set f}"
  have s: "shape env RD PL PL s" using st by (simp add: bridge_st_def)
  have ne: "?p \<noteq> i" using p shape_peers(1) [OF s, of i] by auto
  obtain u where u: "del_one_client_flt_rule env ?p i m s = Some u" "same_shape s u"
      "bridge_st env V RD PL PL (?VR flag) VC (E - {(?p, i, m, ip) | ip. True}) u"
    using st_del_one [OF k st shape_peers(3) [OF s p] y a] by blast
  obtain y' where y': "find_if u ?p = Some y'" "bare y' = bare y" by (rule same_shape_Some [OF u(2) y])
  obtain x' where x': "find_if u i = Some x'" "bare x' = bare x" by (rule same_shape_Some [OF u(2) x(1)])
  have ty: "l2_type (m_p_iface y') = ?t" using y bareD(1) [OF y'(2)] by (simp add: hdr_type_def lans_def)
  have fp: "flt_peer RD PL i ?p" using p ne by (simp add: flt_peer_def)
  have m': "m \<in> macs x'" using x(2) bare_macs [OF x'(2)] by simp
  have del: "?VR flag - {(i, m, Some ?t)} = ?VR (?t # flag)" by auto
  have "\<exists>w. (if ?t \<notin> set flag then del_client_rt_rule env i ?p m u else Some u) = Some w \<and> same_shape u w \<and>
      bridge_st env V RD PL PL (?VR (?t # flag)) VC (E - {(?p, i, m, ip) | ip. True}) w"
  proof (cases "?t \<in> set flag")
    case True
    then have "?VR (?t # flag) = ?VR flag" by auto
    then show ?thesis using True u(3) by simp
  next
    case False
    have rp: "rt_place u ?p i = Some ?t" using ne hdr_type_cong [OF u(2)] by (simp add: rt_place_def)
    have "(i, m, rt_place u ?p i) \<in> ?VR flag" using False v by (auto simp: rp)
    from st_del_rt [OF k u(3) x'(1) fp m' this] show ?thesis using False unfolding rp del by simp
  qed
  then obtain w where w: "(if ?t \<notin> set flag then del_client_rt_rule env i ?p m u else Some u) = Some w" "same_shape u w"
      "bridge_st env V RD PL PL (?VR (?t # flag)) VC (E - {(?p, i, m, ip) | ip. True}) w" by blast
  then show ?thesis
    using u(1) y'(1) ty same_shape_trans [OF u(2) w(2)] by (auto simp: del_client_for_peer_def Let_def)
qed

lemma st_del_for_peers:
  assumes k: "bridge_kernel_ok (dev env) V" and st: "bridge_st env V RD PL PL VR VC E s" and x: "find_if s i = Some x" "m \<in> macs x"
    and v: "\<And>t. t \<in> hdr_type s ` PL i \<Longrightarrow> (i, m, Some t) \<in> VR"
    and a: "\<And>p y ip. (p, i, m, ip) \<in> E \<Longrightarrow> find_if s p = Some y \<Longrightarrow> m_is_ip_addr_assigned y ip"
  shows "\<exists>flag t. each (del_client_for_peer env i m) (m_peer_iface_info x) ([], s) = Some (flag, t) \<and> same_shape s t \<and>
    bridge_st env V RD PL PL (VR - {(i, m, Some t) | t. t \<in> hdr_type s ` PL i}) VC (E - {(p, i, m, ip) | p ip. p \<in> PL i}) t"
proof -
  have s: "shape env RD PL PL s" using st by (simp add: bridge_st_def)
  define J where "J = (\<lambda>(pre :: peer_iface_info list) (flag, t). same_shape s t \<and> set flag = hdr_type s ` peer ` set pre \<and>
    bridge_st env V RD PL PL (VR - {(i, m, Some t) | t. t \<in> set flag}) VC (E - {(p, i, m, ip) | p ip. p \<in> peer ` set pre}) t)"
  have "\<exists>ft. each (del_client_for_peer env i m) (m_peer_iface_info x) ([], s) = Some ft \<and> J (m_peer_iface_info x) ft"
  proof (rule each_inv)
    show "J [] ([], s)" using st by (simp add: J_def)
  next
    fix pre q rest ft assume qs: "m_peer_iface_info x = pre @ q # rest" and J: "J pre ft"
    obtain flag t where ft: "ft = (flag, t)" by (cases ft)
    have sh: "same_shape s t" and fl: "set flag = hdr_type s ` peer ` set pre"
      and b: "bridge_st env V RD PL PL (VR - {(i, m, Some t) | t. t \<in> set flag}) VC (E - {(p, i, m, ip) | p ip. p \<in> peer ` set pre}) t"
      using J by (auto simp only: J_def ft prod.case)
    have p: "peer q \<in> PL i" using shapeD(6) [OF s x(1)] qs by auto
    obtain x' where x': "find_if t i = Some x'" "bare x' = bare x" by (rule same_shape_Some [OF sh x(1)])
    obtain y0 where y0: "find_if s (peer q) = Some y0" using shape_peers(4) [OF s p] by auto
    obtain y where y: "find_if t (peer q) = Some y" "bare y = bare y0" by (rule same_shape_Some [OF sh y0])
    have m': "m \<in> macs x'" using x(2) bare_macs [OF x'(2)] by simp
    have v': "(i, m, Some (hdr_type t (peer q))) \<in> VR" using v p hdr_type_cong [OF sh] by simp
    have a': "m_is_ip_addr_assigned y ip" if "(peer q, i, m, ip) \<in> E - {(p, i, m, ip) | p ip. p \<in> peer ` set pre}" for ip
      using a y0 that bareD(2) [OF y(2)] by auto
    obtain u where u: "del_client_for_peer env i m q (flag, t) = Some (hdr_type t (peer q) # flag, u)" "same_shape t u"
        "bridge_st env V RD PL PL (VR - {(i, m, Some z) | z. z \<in> set (hdr_type t (peer q) # flag)}) VC
          (E - {(p, i, m, ip) | p ip. p \<in> peer ` set pre} - {(peer q, i, m, ip) | ip. True}) u"
      using st_del_client_for_peer [OF k b x'(1) m' p y(1) v' a'] by blast
    have E: "E - {(p, i, m, ip) | p ip. p \<in> peer ` set pre} - {(peer q, i, m, ip) | ip. True} =
        E - {(p, i, m, ip) | p ip. p \<in> peer ` set (pre @ [q])}" by auto
    have "set (hdr_type t (peer q) # flag) = hdr_type s ` peer ` set (pre @ [q])" using fl hdr_type_cong [OF sh] by simp
    then have "J (pre @ [q]) (hdr_type t (peer q) # flag, u)"
      using u(3) same_shape_trans [OF sh u(2)] unfolding J_def E by simp
    then show "\<exists>t. del_client_for_peer env i m q ft = Some t \<and> J (pre @ [q]) t" using u(1) ft by blast
  qed
  then obtain flag t where t: "each (del_client_for_peer env i m) (m_peer_iface_info x) ([], s) = Some (flag, t)" "J (m_peer_iface_info x) (flag, t)"
    by (metis surj_pair)
  have "same_shape s t" "set flag = hdr_type s ` PL i"
      "bridge_st env V RD PL PL (VR - {(i, m, Some t) | t. t \<in> set flag}) VC (E - {(p, i, m, ip) | p ip. p \<in> PL i}) t"
    using t(2) unfolding J_def prod.case shapeD(6) [OF s x(1)] by blast+
  then show ?thesis using t(1) by simp
qed

definition pop_client :: "mac \<Rightarrow> l2l_iface \<Rightarrow> l2l_iface" where
  "pop_client m x = x\<lparr>m_client_info := del_node c_mac m (m_client_info x)\<rparr>"

lemma pop_client_simps [simp]:
  "l2l_ptr (pop_client m x) = l2l_ptr x" "m_p_iface (pop_client m x) = m_p_iface x" "peer_at (pop_client m x) p = peer_at x p"
  "m_is_ip_addr_assigned (pop_client m x) = m_is_ip_addr_assigned x"
  "m_support_inter_iface_offload (pop_client m x) = m_support_inter_iface_offload x"
  "m_support_intra_iface_offload (pop_client m x) = m_support_intra_iface_offload x"
  "m_peer_iface_info (pop_client m x) = m_peer_iface_info x"
  by (auto simp: pop_client_def l2l_ptr_def peer_at_def)

lemma macs_pop: "distinct (map c_mac (m_client_info x)) \<Longrightarrow> macs (pop_client m x) = macs x - {m}"
  by (auto simp: pop_client_def macs_def set_del)

lemma l2l_client_pop: "distinct (map c_mac (m_client_info x)) \<Longrightarrow> l2l_client (pop_client m x) n = (if n = m then None else l2l_client x n)"
  by (simp add: pop_client_def l2l_client_def look_del)

lemma find_pop: "find_if (upd_if i (pop_client m) s) j = (if j = i then map_option (pop_client m) (find_if s i) else find_if s j)"
  by (simp add: find_if_upd)

lemma pop_keeps [simp]:
  "lans (upd_if i (pop_client m) s) = lans s" "hdr_type (upd_if i (pop_client m) s) = hdr_type s" "full (upd_if i (pop_client m) s) = full s"
proof -
  show *: "lans (upd_if i (pop_client m) s) = lans s" by (auto simp: lans_def find_pop fun_eq_iff option.map_comp comp_def)
  then show "hdr_type (upd_if i (pop_client m) s) = hdr_type s" by (simp add: hdr_type_def fun_eq_iff)
  show "full (upd_if i (pop_client m) s) = full s" by (rule ext) (auto simp: full_def find_pop split: if_splits)
qed

lemma shape_pop:
  assumes s: "shape env RD PL LK s" and x: "find_if s i = Some x"
  shows "shape env RD PL LK (upd_if i (pop_client m) s)"
proof -
  have "iface_shape env RD PL LK (upd_if i (pop_client m) s) j y'" if "find_if (upd_if i (pop_client m) s) j = Some y'" for j y'
  proof (cases "j = i")
    case True
    then have "y' = pop_client m x" using that x by (simp add: find_pop)
    then show ?thesis using s x True unfolding iface_shape_def pop_keeps by (auto simp: shape_def iface_shape_def pop_client_def keys_del)
  next
    case False
    then have "find_if s j = Some y'" using that by (simp add: find_pop)
    then show ?thesis using s unfolding iface_shape_def pop_keeps by (simp add: shape_def iface_shape_def)
  qed
  moreover have "find_if (upd_if i (pop_client m) s) p = None \<longleftrightarrow> find_if s p = None" for p by (simp add: find_pop)
  moreover have "map l2l_ptr (m_iface (upd_if i (pop_client m) s)) = map l2l_ptr (m_iface s)" by (simp add: upd_if_def map_upd_keep)
  ultimately show ?thesis using s by (simp add: shape_def)
qed

lemma st_pop:
  assumes st: "bridge_st env V RD PL LK VR VC E s" and x: "find_if s i = Some x" and v: "\<And>sl. (i, m, sl) \<notin> VR"
  shows "bridge_st env V RD PL LK VR VC E (upd_if i (pop_client m) s)"
proof -
  let ?t = "upd_if i (pop_client m) s"
  have s: "shape env RD PL LK s" and b: "flt_booked env V s" "rt_booked env V VR s" "ctx_booked V VC s" and E: "dom (flt_rec s) = E"
    using st by (simp_all add: bridge_st_def)
  have "peer_rec ?t = peer_rec s" by (auto simp: peer_rec_def find_pop fun_eq_iff split: option.split)
  note f = flt_booked_cong [OF b(1) this]
  have ctx: "ctx_of ?t = ctx_of s" by (auto simp: ctx_of_def find_pop pop_client_def fun_eq_iff split: option.split)
  have cr: "client_rec ?t j n = client_rec s j n" if "(j, n, sl) \<in> VR" for j n sl
    using that v x l2l_client_pop [OF shapeD(4) [OF s x]] by (auto simp: client_rec_def find_pop split: option.split)
  have "rt_booked env V VR ?t"
  proof -
    have "rt_rec VR ?t = rt_rec VR s" using cr by (auto simp: rt_rec_def fun_eq_iff)
    moreover have "rt_valid VR ?t" using b(2) cr unfolding rt_booked_in_def rt_valid_def by simp
    ultimately show ?thesis using b(2) ctx by (simp add: rt_booked_in_def)
  qed
  moreover have "ctx_booked V VC ?t" by (rule ctx_booked_cong [OF b(3)]) (simp_all add: ctx)
  ultimately show ?thesis using f shape_pop [OF s x] E by (simp add: bridge_st_def)
qed

lemma map_bare_upd:
  assumes "\<And>x. bare (f x) = f (bare x)"
  shows "map bare (upd_node l2l_ptr i f xs) = upd_node l2l_ptr i f (map bare xs)"
  by (induction xs) (simp_all add: assms)

lemma same_shape_upd_both:
  assumes "\<And>x. bare (f x) = f (bare x)" and "same_shape s t"
  shows "same_shape (upd_if i f s) (upd_if i f t)"
  using assms(2) by (simp add: same_shape_def upd_if_def map_bare_upd [of f, OF assms(1)])

lemma bare_pop: "bare (pop_client m x) = pop_client m (bare x)"
proof -
  have "map bare_client (del_node c_mac m cs) = del_node c_mac m (map bare_client cs)" for cs
    by (induction cs) (simp_all add: bare_client_def)
  then show ?thesis by (simp add: bare_def pop_client_def)
qed

lemma in_use_pop [simp]: "in_use LK (upd_if i (pop_client m) s) = in_use LK s" "in_use LK s (pop_client m x) = in_use LK s x"
  by (auto simp: in_use_def fun_eq_iff split: option.split)

lemma RD_of_pop [simp]: "RD_of (upd_if i (pop_client m) s) = RD_of s"
  by (auto simp: RD_of_def find_pop split: if_splits)

lemma of_pop:
  assumes "find_if s i = Some x" and "distinct (map c_mac (m_client_info x))"
  shows "VC_of LK (upd_if i (pop_client m) s) = VC_of LK s"
    and "VR_of LK (upd_if i (pop_client m) s) = VR_of LK s - {(i, m, sl) | sl. True}"
    and "E_of LK (upd_if i (pop_client m) s) = E_of LK s - {(p, i, m, ip) | p ip. True}"
proof -
  let ?t = "upd_if i (pop_client m) s"
  note mp = macs_pop [OF assms(2), of m]
  show "VC_of LK ?t = VC_of LK s"
  proof (rule set_eqI)
    fix z :: ctx_slot
    show "z \<in> VC_of LK ?t \<longleftrightarrow> z \<in> VC_of LK s" using assms(1) by (cases z; cases "fst z = i") (simp_all add: VC_of_def find_pop)
  qed
  show "VR_of LK ?t = VR_of LK s - {(i, m, sl) | sl. True}"
  proof (rule set_eqI)
    fix z :: "nat \<times> mac \<times> ipa_hdr_l2_type option"
    show "z \<in> VR_of LK ?t \<longleftrightarrow> z \<in> VR_of LK s - {(i, m, sl) | sl. True}"
      using assms(1) mp by (cases z; cases "fst z = i") (auto simp: VR_of_def find_pop)
  qed
  show "E_of LK ?t = E_of LK s - {(p, i, m, ip) | p ip. True}"
  proof (rule set_eqI)
    fix z :: flt_slot
    obtain j r n ip where z: "z = (j, r, n, ip)" by (cases z)
    have 1: "(\<exists>x. find_if ?t j = Some x \<and> m_is_ip_addr_assigned x ip \<and> flt_peer (RD_of s) LK j r) \<longleftrightarrow>
        (\<exists>x. find_if s j = Some x \<and> m_is_ip_addr_assigned x ip \<and> flt_peer (RD_of s) LK j r)"
      using assms(1) by (cases "j = i") (simp_all add: find_pop)
    have 2: "(\<exists>y. find_if ?t r = Some y \<and> n \<in> macs y) \<longleftrightarrow> (\<exists>y. find_if s r = Some y \<and> n \<in> macs y) \<and> \<not> (r = i \<and> n = m)"
      using assms(1) mp by (cases "r = i") (auto simp: find_pop)
    show "z \<in> E_of LK ?t \<longleftrightarrow> z \<in> E_of LK s - {(p, i, m, ip) | p ip. True}" unfolding z E_of_alt RD_of_pop by (auto simp: 1 2)
  qed
qed

lemma client_del_ok:
  fixes m :: mac
  assumes k: "bridge_kernel_ok (dev env) V" and inv: "bridge_inv env V s" and x: "find_if s i = Some x"
  shows "\<exists>t. iface_handle_client_del env i m s = Some t \<and> bridge_inv env V t \<and>
    same_shape (if m \<in> macs x then upd_if i (pop_client m) s else s) t"
proof (cases "m \<in> macs x")
  case False
  then have "iface_handle_client_del env i m s = Some s" using x l2l_client_macs [of x m] by (simp add: iface_handle_client_del_def)
  then show ?thesis using False inv by simp
next
  case True
  let ?rd = "RD_of s" and ?f = "full s" and ?VR = "VR_of (full s) s" and ?VC = "VC_of (full s) s" and ?E = "E_of (full s) s"
  have st: "bridge_st env V ?rd ?f ?f ?VR ?VC ?E s" using inv by (simp add: bridge_inv_def)
  have sh: "shape env ?rd ?f ?f s" using st by (simp add: bridge_st_def)
  have v: "(i, m, sl) \<in> ?VR \<longleftrightarrow> in_use ?f s x i sl" for sl using True x by (auto simp: VR_of_def)
  have a: "m_is_ip_addr_assigned y ip" if "(p, i, m, ip) \<in> ?E" "find_if s p = Some y" for p y ip using that by (auto simp: E_of_def)
  have eE: "p = i \<and> m_support_intra_iface_offload x \<or> p \<in> ?f i" if "(p, i, m, ip) \<in> ?E" for p ip
    using that x full_sym [of p s i] by (cases "p = i") (auto simp: E_of_def flt_peer_def RD_of_def)
  define E2 where "E2 = ?E - {(p, i, m, ip) | p ip. p \<in> ?f i}"
  define R2 where "R2 = ?VR - {(i, m, Some t) | t. t \<in> hdr_type s ` ?f i}"
  have "\<exists>t. (if m_support_inter_iface_offload x then map_option snd (each (del_client_for_peer env i m) (m_peer_iface_info x) ([], s)) else Some s) = Some t \<and>
      same_shape s t \<and> bridge_st env V ?rd ?f ?f R2 ?VC E2 t"
  proof (cases "m_support_inter_iface_offload x")
    case inter: True
    have vt: "(i, m, Some t) \<in> ?VR" if "t \<in> hdr_type s ` ?f i" for t using v [of "Some t"] that by (simp add: in_use_def)
    have "\<exists>flag t. each (del_client_for_peer env i m) (m_peer_iface_info x) ([], s) = Some (flag, t) \<and> same_shape s t \<and> bridge_st env V ?rd ?f ?f R2 ?VC E2 t"
      unfolding R2_def E2_def by (rule st_del_for_peers [OF k st x True vt]) (simp_all only: a)
    then show ?thesis using inter by auto
  next
    case False
    then have "?f i = {}" using x full_not_inter by blast
    then show ?thesis using st False by (simp add: R2_def E2_def)
  qed
  then obtain t where t: "(if m_support_inter_iface_offload x then map_option snd (each (del_client_for_peer env i m) (m_peer_iface_info x) ([], s)) else Some s) = Some t"
      "same_shape s t" "bridge_st env V ?rd ?f ?f R2 ?VC E2 t" by blast
  define R3 where "R3 = ?VR - {(i, m, sl) | sl. True}"
  define E3 where "E3 = ?E - {(p, i, m, ip) | p ip. True}"
  have "\<exists>u. (if m_support_intra_iface_offload x then do { s \<leftarrow> del_client_flt_rule env i i m t; del_client_rt_rule env i i m s } else Some t) = Some u \<and>
      same_shape t u \<and> bridge_st env V ?rd ?f ?f R3 ?VC E3 u"
  proof (cases "m_support_intra_iface_offload x")
    case intra: True
    obtain x2 where x2: "find_if t i = Some x2" "bare x2 = bare x" by (rule same_shape_Some [OF t(2) x])
    have fp: "flt_peer ?rd ?f i i" using intra x by (simp add: flt_peer_def RD_of_def)
    have a2: "m_is_ip_addr_assigned x2 ip" if "(i, i, m, ip) \<in> E2" for ip
      using a [OF _ x, of ip] that bareD(2) [OF x2(2)] by (simp add: E2_def)
    obtain u where u: "del_client_flt_rule env i i m t = Some u" "same_shape t u" "bridge_st env V ?rd ?f ?f R2 ?VC (E2 - {(i, i, m, ip) | ip. True}) u"
      using st_del_flt [OF k t(3) x2(1) fp a2] by blast
    have E: "E2 - {(i, i, m, ip) | ip. True} = E3" by (auto simp: E2_def E3_def dest: eE)
    obtain x3 where x3: "find_if u i = Some x3" "bare x3 = bare x2" by (rule same_shape_Some [OF u(2) x2(1)])
    have m3: "m \<in> macs x3" using True bare_macs [OF x3(2)] bare_macs [OF x2(2)] by simp
    have rp: "rt_place u i i = None" by (simp add: rt_place_def)
    have v3: "(i, m, rt_place u i i) \<in> R2" using v [of None] intra by (simp add: R2_def rp in_use_def)
    obtain w where w: "del_client_rt_rule env i i m u = Some w" "same_shape u w" "bridge_st env V ?rd ?f ?f (R2 - {(i, m, None)}) ?VC E3 w"
      using st_del_rt [OF k u(3) x3(1) fp m3 v3] unfolding rp E by blast
    have "R2 - {(i, m, None)} = R3"
    proof (rule set_eqI)
      fix z :: "nat \<times> mac \<times> ipa_hdr_l2_type option"
      obtain j n sl where z: "z = (j, n, sl)" by (cases z)
      show "z \<in> R2 - {(i, m, None)} \<longleftrightarrow> z \<in> R3"
        using v [of sl] by (cases sl) (auto simp: z R2_def R3_def in_use_def)
    qed
    then show ?thesis using u(1,2) w intra same_shape_trans [OF u(2) w(2)] by auto
  next
    case False
    have "R2 = R3"
    proof (rule set_eqI)
      fix z :: "nat \<times> mac \<times> ipa_hdr_l2_type option"
      obtain j n sl where z: "z = (j, n, sl)" by (cases z)
      show "z \<in> R2 \<longleftrightarrow> z \<in> R3"
        using v [of sl] False by (cases sl) (auto simp: z R2_def R3_def in_use_def)
    qed
    moreover have "E2 = E3" using False by (auto simp: E2_def E3_def dest: eE)
    ultimately show ?thesis using t(3) False by simp
  qed
  then obtain u where u: "(if m_support_intra_iface_offload x then do { s \<leftarrow> del_client_flt_rule env i i m t; del_client_rt_rule env i i m s } else Some t) = Some u"
      "same_shape t u" "bridge_st env V ?rd ?f ?f R3 ?VC E3 u" by blast
  obtain x4 where x4: "find_if u i = Some x4" using same_shape_Some [OF same_shape_trans [OF t(2) u(2)] x] by metis
  have fin: "bridge_st env V ?rd ?f ?f R3 ?VC E3 (upd_if i (pop_client m) u)"
    by (rule st_pop [OF u(3) x4]) (simp add: R3_def)
  have ss: "same_shape (upd_if i (pop_client m) s) (upd_if i (pop_client m) u)"
    by (rule same_shape_upd_both) (rule bare_pop, rule same_shape_trans [OF t(2) u(2)])
  have "bridge_inv env V (upd_if i (pop_client m) u)"
    by (rule invI [OF _ ss]) (use fin in \<open>simp add: of_pop [OF x shapeD(4) [OF sh x]] R3_def E3_def\<close>)
  moreover have "iface_handle_client_del env i m s = do {
      s \<leftarrow> (if m_support_inter_iface_offload x then map_option snd (each (del_client_for_peer env i m) (m_peer_iface_info x) ([], s)) else Some s);
      s \<leftarrow> (if m_support_intra_iface_offload x then do { s \<leftarrow> del_client_flt_rule env i i m s; del_client_rt_rule env i i m s } else Some s);
      Some (upd_if i (pop_client m) s) }"
    using x client_in_shape [OF True] by (auto simp: iface_handle_client_del_def pop_client_def [abs_def])
  then have "iface_handle_client_del env i m s = Some (upd_if i (pop_client m) u)" unfolding t(1) using u(1) by simp
  ultimately show ?thesis using True ss by auto
qed

end
