(* ===== verification/LanToLan_Ifaces.thy ===== *)
theory LanToLan_Ifaces
  imports LanToLan_Inv
begin

text \<open>
  The steps from which the handlers of \<open>LanToLan\<close> are made, under the kernel's contract: changes that leave the records of installed rules
  alone, addresses that are assigned, and the rules and contexts between two interfaces. Each runs to its end and keeps the invariant.
\<close>

section \<open>Changes that leave the records alone\<close>

lemma st_replace:
  assumes st: "bridge_st env V RD PL LK VR VC E s" and eq: "lans t = lans s" "client_rec t = client_rec s" "ctx_of t = ctx_of s"
    "flt_rec t = flt_rec s" "l2l_world t = l2l_world s" and t: "tidy t" "shape env RD' PL' LK' t"
  shows "bridge_st env V RD' PL' LK' VR VC E t"
proof -
  have b: "flt_booked env V s" "rt_booked env V VR s" "ctx_booked V VC s" and E: "dom (flt_rec s) = E"
    using st by (simp_all add: bridge_st_def)
  have "flt_booked env V t" using b(1) t(1) eq by (simp add: flt_booked_def)
  moreover have "rt_booked env V VR t" by (rule rt_booked_cong [OF b(2)]) (simp_all add: eq)
  moreover have "ctx_booked V VC t" by (rule ctx_booked_cong [OF b(3)]) (simp_all add: eq)
  ultimately show ?thesis using E eq(4) t(2) by (simp add: bridge_st_def)
qed

lemma lans_upd:
  assumes "\<And>x. m_p_iface (f x) = m_p_iface x"
  shows "lans (upd_if i f s) = lans s"
proof -
  have "l2l_ptr (f x) = l2l_ptr x" for x using assms by (simp add: l2l_ptr_def)
  then show ?thesis using assms by (auto simp: lans_def find_if_upd fun_eq_iff option.map_comp comp_def)
qed

lemma client_rec_upd:
  assumes "\<And>x. l2l_ptr (f x) = l2l_ptr x" and "\<And>x. m_client_info (f x) = m_client_info x"
  shows "client_rec (upd_if i f s) = client_rec s"
  using assms by (auto simp: client_rec_def l2l_client_def find_if_upd fun_eq_iff split: option.split)

lemma ctx_of_upd:
  assumes "\<And>x. l2l_ptr (f x) = l2l_ptr x" and "\<And>x. hdr_proc_ctx_for_inter_interface (f x) = hdr_proc_ctx_for_inter_interface x"
    and "\<And>x. hdr_proc_ctx_for_intra_interface (f x) = hdr_proc_ctx_for_intra_interface x"
  shows "ctx_of (upd_if i f s) = ctx_of s"
  using assms by (auto simp: ctx_of_def find_if_upd fun_eq_iff split: option.split)

lemma peer_rec_upd_keep:
  assumes "\<And>x. l2l_ptr (f x) = l2l_ptr x" and "\<And>x. m_peer_iface_info (f x) = m_peer_iface_info x"
    and "\<And>x. m_intra_interface_info (f x) = m_intra_interface_info x"
  shows "peer_rec (upd_if i f s) = peer_rec s"
  using assms by (auto simp: peer_rec_def peer_at_def find_if_upd fun_eq_iff split: option.split)

lemma flt_rec_cong: "peer_rec t = peer_rec s \<Longrightarrow> flt_rec t = flt_rec s"
  by (auto simp: fun_eq_iff flt_rec_peer_rec)

lemma tidy_cong: "peer_rec t = peer_rec s \<Longrightarrow> tidy s \<Longrightarrow> tidy t"
  by (simp add: tidy_peer_rec)

lemma keys_upd_if: "(\<And>x. l2l_ptr (f x) = l2l_ptr x) \<Longrightarrow> map l2l_ptr (m_iface (upd_if i f s)) = map l2l_ptr (m_iface s)"
  by (simp add: upd_if_def map_upd_keep)

section \<open>An address is assigned\<close>

lemma set_assigned_simps [simp]:
  "l2l_ptr (set_assigned ip x) = l2l_ptr x" "m_p_iface (set_assigned ip x) = m_p_iface x" "macs (set_assigned ip x) = macs x"
  "m_support_inter_iface_offload (set_assigned ip x) = m_support_inter_iface_offload x"
  "m_support_intra_iface_offload (set_assigned ip x) = m_support_intra_iface_offload x"
  "m_peer_iface_info (set_assigned ip x) = m_peer_iface_info x" "m_client_info (set_assigned ip x) = m_client_info x"
  "m_intra_interface_info (set_assigned ip x) = m_intra_interface_info x"
  "hdr_proc_ctx_for_inter_interface (set_assigned ip x) = hdr_proc_ctx_for_inter_interface x"
  "hdr_proc_ctx_for_intra_interface (set_assigned ip x) = hdr_proc_ctx_for_intra_interface x"
  "ref_cnt_peer_l2_hdr_type (set_assigned ip x) = ref_cnt_peer_l2_hdr_type x"
  "m_is_ip_addr_assigned (set_assigned ip x) = (m_is_ip_addr_assigned x)(ip := True)"
  by (simp_all add: set_assigned_def l2l_ptr_def macs_def)

lemma find_assigned: "find_if (upd_if i (set_assigned ip) s) j = (if j = i then map_option (set_assigned ip) (find_if s i) else find_if s j)"
  by (simp add: find_if_upd)

lemma assigned_keeps [simp]:
  "lans (upd_if i (set_assigned ip) s) = lans s" "hdr_type (upd_if i (set_assigned ip) s) = hdr_type s"
  "full (upd_if i (set_assigned ip) s) = full s" "RD_of (upd_if i (set_assigned ip) s) = RD_of s"
  "VC_of LK (upd_if i (set_assigned ip) s) = VC_of LK s" "VR_of LK (upd_if i (set_assigned ip) s) = VR_of LK s"
proof -
  show *: "lans (upd_if i (set_assigned ip) s) = lans s" by (rule lans_upd) simp
  then show h: "hdr_type (upd_if i (set_assigned ip) s) = hdr_type s" by (simp add: hdr_type_def fun_eq_iff)
  show "full (upd_if i (set_assigned ip) s) = full s" by (rule ext) (auto simp: full_def find_assigned split: if_splits)
  show "RD_of (upd_if i (set_assigned ip) s) = RD_of s" by (auto simp: RD_of_def find_assigned split: if_splits)
  have u: "in_use LK (upd_if i (set_assigned ip) s) = in_use LK s" "in_use LK s (set_assigned ip x) = in_use LK s x" for x
    by (auto simp: in_use_def fun_eq_iff h split: option.split)
  show "VC_of LK (upd_if i (set_assigned ip) s) = VC_of LK s" by (auto simp: VC_of_def find_assigned u split: if_splits)
  show "VR_of LK (upd_if i (set_assigned ip) s) = VR_of LK s" by (auto simp: VR_of_def find_assigned u split: if_splits)
qed

lemma shape_assigned:
  assumes s: "shape env RD PL LK s"
  shows "shape env RD PL LK (upd_if i (set_assigned ip) s)"
proof -
  have "iface_shape env RD PL LK (upd_if i (set_assigned ip) s) j y'" if y': "find_if (upd_if i (set_assigned ip) s) j = Some y'" for j y'
  proof -
    obtain y where "find_if s j = Some y" "y' = y \<or> y' = set_assigned ip y" using y' by (auto simp: find_assigned split: if_splits)
    moreover from this have "iface_shape env RD PL LK s j y" using s by (simp add: shape_def)
    ultimately show ?thesis unfolding iface_shape_def assigned_keeps by (elim conjE disjE) simp_all
  qed
  moreover have "find_if (upd_if i (set_assigned ip) s) p = None \<longleftrightarrow> find_if s p = None" for p by (simp add: find_assigned)
  ultimately show ?thesis using s by (simp add: shape_def keys_upd_if)
qed

lemma st_assigned:
  assumes st: "bridge_st env V RD PL LK VR VC E s"
  shows "bridge_st env V RD PL LK VR VC E (upd_if i (set_assigned ip) s)"
proof -
  have p: "peer_rec (upd_if i (set_assigned ip) s) = peer_rec s" by (rule peer_rec_upd_keep) simp_all
  show ?thesis
    by (rule st_replace [OF st])
      (use st in \<open>simp_all add: client_rec_upd ctx_of_upd flt_rec_cong [OF p] tidy_cong [OF p] shape_assigned bridge_st_def flt_booked_def\<close>)
qed

text \<open>Filter rules for all clients of one peer, and of all peers.\<close>

lemma st_all_clients:
  assumes k: "bridge_kernel_ok (dev env) V" and st: "bridge_st env V RD PL LK VR VC E s" and x: "find_if s i = Some x" and p: "flt_peer RD PL i p"
    and y: "find_if s p = Some y" and v: "\<And>m. m \<in> macs y \<Longrightarrow> (p, m, rt_place s i p) \<in> VR" and new: "\<And>m. m \<in> macs y \<Longrightarrow> (i, p, m, ip) \<notin> E"
  shows "\<exists>t. each (\<lambda>c. add_client_flt_rule env i p (c_mac c) ip) (m_client_info y) s = Some t \<and> same_shape s t \<and>
    bridge_st env V RD PL LK VR VC (E \<union> {(i, p, m, ip) | m. m \<in> macs y}) t"
proof -
  have s: "shape env RD PL LK s" using st by (simp add: bridge_st_def)
  define J where "J = (\<lambda>(pre :: client_info list) t. same_shape s t \<and> bridge_st env V RD PL LK VR VC (E \<union> {(i, p, m, ip) | m. m \<in> c_mac ` set pre}) t)"
  have "\<exists>t. each (\<lambda>c. add_client_flt_rule env i p (c_mac c) ip) (m_client_info y) s = Some t \<and> J (m_client_info y) t"
  proof (rule each_inv)
    show "J [] s" using st by (simp add: J_def)
  next
    fix pre c rest t assume cs: "m_client_info y = pre @ c # rest" and J: "J pre t"
    have sh: "same_shape s t" and b: "bridge_st env V RD PL LK VR VC (E \<union> {(i, p, m, ip) | m. m \<in> c_mac ` set pre}) t"
      using J by (simp_all add: J_def)
    have m: "c_mac c \<in> macs y" "c_mac c \<notin> c_mac ` set pre" using cs shapeD(4) [OF s y] by (auto simp: macs_def)
    obtain x' where x': "find_if t i = Some x'" by (rule same_shape_Some [OF sh x])
    have v': "(p, c_mac c, rt_place t i p) \<in> VR" using v m(1) rt_place_cong [OF sh] by simp
    have n: "(i, p, c_mac c, ip) \<notin> E \<union> {(i, p, m, ip) | m. m \<in> c_mac ` set pre}" using new m by auto
    obtain u where u: "add_client_flt_rule env i p (c_mac c) ip t = Some u" "same_shape t u"
        "bridge_st env V RD PL LK VR VC (insert (i, p, c_mac c, ip) (E \<union> {(i, p, m, ip) | m. m \<in> c_mac ` set pre})) u"
      using st_add_flt [OF k b x' p v' n] by blast
    have "insert (i, p, c_mac c, ip) (E \<union> {(i, p, m, ip) | m. m \<in> c_mac ` set pre}) = E \<union> {(i, p, m, ip) | m. m \<in> c_mac ` set (pre @ [c])}" by auto
    then show "\<exists>t'. add_client_flt_rule env i p (c_mac c) ip t = Some t' \<and> J (pre @ [c]) t'"
      using u same_shape_trans [OF sh u(2)] by (simp add: J_def)
  qed
  then show ?thesis unfolding J_def macs_def by blast
qed

definition rules_on :: "'w lan2lan \<Rightarrow> nat \<Rightarrow> ipa_ip_type \<Rightarrow> nat set \<Rightarrow> flt_slot set" where
  "rules_on s i ip P = {(i, p, m, ip) | p m. p \<in> P \<and> (\<exists>y. find_if s p = Some y \<and> m \<in> macs y)}"

lemma st_all_inter:
  assumes k: "bridge_kernel_ok (dev env) V" and st: "bridge_st env V RD PL LK VR VC E s" and x: "find_if s i = Some x"
    and v: "\<And>p y m. p \<in> PL i \<Longrightarrow> find_if s p = Some y \<Longrightarrow> m \<in> macs y \<Longrightarrow> (p, m, Some (hdr_type s i)) \<in> VR"
    and new: "\<And>p m. (i, p, m, ip) \<in> E \<Longrightarrow> p \<notin> PL i"
  shows "\<exists>t. add_all_inter_interface_client_flt_rule env i ip s = Some t \<and> same_shape s t \<and>
    bridge_st env V RD PL LK VR VC (E \<union> rules_on s i ip (PL i)) t"
proof -
  have s: "shape env RD PL LK s" using st by (simp add: bridge_st_def)
  let ?body = "\<lambda>q s. do { y \<leftarrow> find_if s (peer q); each (\<lambda>c. add_client_flt_rule env i (peer q) (c_mac c) ip) (m_client_info y) s }"
  define J where "J = (\<lambda>(pre :: peer_iface_info list) t. same_shape s t \<and> bridge_st env V RD PL LK VR VC (E \<union> rules_on s i ip (peer ` set pre)) t)"
  have "\<exists>t. each ?body (m_peer_iface_info x) s = Some t \<and> J (m_peer_iface_info x) t"
  proof (rule each_inv)
    show "J [] s" using st by (simp add: J_def rules_on_def)
  next
    fix pre q rest t assume qs: "m_peer_iface_info x = pre @ q # rest" and J: "J pre t"
    have sh: "same_shape s t" and b: "bridge_st env V RD PL LK VR VC (E \<union> rules_on s i ip (peer ` set pre)) t"
      using J by (simp_all add: J_def)
    have p: "peer q \<in> PL i" using shapeD(6) [OF s x] qs by auto
    have nd: "peer q \<notin> peer ` set pre" using shapeD(5) [OF s x] qs by auto
    have ne: "peer q \<noteq> i" using p shape_peers(1) [OF s, of i] by auto
    obtain x' where x': "find_if t i = Some x'" by (rule same_shape_Some [OF sh x])
    obtain y0 where y0: "find_if s (peer q) = Some y0" using shape_peers(4) [OF s p] by auto
    obtain y where y: "find_if t (peer q) = Some y" "bare y = bare y0" by (rule same_shape_Some [OF sh y0])
    note mc = bare_macs [OF y(2)]
    have fp: "flt_peer RD PL i (peer q)" using p ne by (simp add: flt_peer_def)
    have v': "(peer q, m, rt_place t i (peer q)) \<in> VR" if "m \<in> macs y" for m
      using v [OF p y0, of m] that mc ne rt_place_cong [OF sh] by (simp add: rt_place_def)
    have n: "(i, peer q, m, ip) \<notin> E \<union> rules_on s i ip (peer ` set pre)" for m using new [of "peer q" m] p nd by (auto simp: rules_on_def)
    obtain u where u: "each (\<lambda>c. add_client_flt_rule env i (peer q) (c_mac c) ip) (m_client_info y) t = Some u" "same_shape t u"
        "bridge_st env V RD PL LK VR VC (E \<union> rules_on s i ip (peer ` set pre) \<union> {(i, peer q, m, ip) | m. m \<in> macs y}) u"
      using st_all_clients [OF k b x' fp y(1) v' n] by blast
    have "E \<union> rules_on s i ip (peer ` set pre) \<union> {(i, peer q, m, ip) | m. m \<in> macs y} = E \<union> rules_on s i ip (peer ` set (pre @ [q]))"
      using y0 mc by (auto simp: rules_on_def)
    then show "\<exists>t'. ?body q t = Some t' \<and> J (pre @ [q]) t'"
      using u y(1) same_shape_trans [OF sh u(2)] by (simp add: J_def)
  qed
  then show ?thesis using x unfolding J_def shapeD(6) [OF s x] by (simp add: add_all_inter_interface_client_flt_rule_def)
qed

lemma E_of_assigned:
  assumes "find_if s i = Some x"
  shows "E_of LK (upd_if i (set_assigned ip) s) =
    E_of LK s \<union> rules_on s i ip (LK i - {i}) \<union> (if i \<in> RD_of s then {(i, i, m, ip) | m. m \<in> macs x} else {})"
proof (rule set_eqI)
  fix z :: flt_slot
  obtain j r n jp where z: "z = (j, r, n, jp)" by (cases z)
  let ?t = "upd_if i (set_assigned ip) s"
  have 1: "(\<exists>x. find_if ?t j = Some x \<and> m_is_ip_addr_assigned x jp \<and> flt_peer (RD_of s) LK j r) \<longleftrightarrow>
      ((\<exists>x. find_if s j = Some x \<and> m_is_ip_addr_assigned x jp) \<or> j = i \<and> jp = ip) \<and> flt_peer (RD_of s) LK j r"
    using assms by (cases "j = i") (auto simp: find_assigned)
  have 2: "(\<exists>y. find_if ?t r = Some y \<and> n \<in> macs y) \<longleftrightarrow> (\<exists>y. find_if s r = Some y \<and> n \<in> macs y)"
    by (cases "r = i") (auto simp: find_assigned)
  show "z \<in> E_of LK ?t \<longleftrightarrow> z \<in> E_of LK s \<union> rules_on s i ip (LK i - {i}) \<union> (if i \<in> RD_of s then {(i, i, m, ip) | m. m \<in> macs x} else {})"
    unfolding z E_of_alt assigned_keeps using assms by (simp add: 1 2 rules_on_def) (auto simp: flt_peer_def)
qed

text \<open>The interface is known and the IP type is new: \<open>handle_iface_up\<close> in its first case.\<close>

lemma activate_ok:
  assumes k: "bridge_kernel_ok (dev env) V" and inv: "bridge_inv env V s" and x: "find_if s i = Some x"
  shows "\<exists>t. activate_ip env i ip s = Some t \<and> bridge_inv env V t \<and>
    same_shape (if m_is_ip_addr_assigned x ip then s else upd_if i (set_assigned ip) s) t"
proof (cases "m_is_ip_addr_assigned x ip")
  case True
  then show ?thesis using x inv by (simp add: activate_ip_def)
next
  case False
  let ?rd = "RD_of s" and ?f = "full s" and ?VR = "VR_of (full s) s" and ?VC = "VC_of (full s) s" and ?E = "E_of (full s) s"
  define s1 where "s1 = upd_if i (set_assigned ip) s"
  have st1: "bridge_st env V ?rd ?f ?f ?VR ?VC ?E s1" unfolding s1_def by (rule st_assigned) (use inv in \<open>simp add: bridge_inv_def\<close>)
  have x1: "find_if s1 i = Some (set_assigned ip x)" using x by (simp add: s1_def find_assigned)
  have nf: "i \<notin> ?f i" by (simp add: full_def)
  have ne: "(i, p, m, ip) \<notin> ?E" for p m using False x by (auto simp: E_of_def)
  define E2 where "E2 = ?E \<union> rules_on s1 i ip (?f i)"
  have "\<exists>t. (if m_support_inter_iface_offload x then add_all_inter_interface_client_flt_rule env i ip s1 else Some s1) = Some t \<and>
      same_shape s1 t \<and> bridge_st env V ?rd ?f ?f ?VR ?VC E2 t"
  proof (cases "m_support_inter_iface_offload x")
    case inter: True
    have v: "(p, m, Some (hdr_type s1 i)) \<in> ?VR" if "p \<in> ?f i" "find_if s1 p = Some y" "m \<in> macs y" for p y m
    proof -
      have "p \<noteq> i" using that(1) nf by auto
      then have "find_if s p = Some y" using that(2) by (simp add: s1_def find_assigned)
      moreover have "i \<in> ?f p" using that(1) full_sym by blast
      ultimately show ?thesis using that(3) by (auto simp: VR_of_def in_use_def s1_def)
    qed
    have "\<exists>t. add_all_inter_interface_client_flt_rule env i ip s1 = Some t \<and> same_shape s1 t \<and> bridge_st env V ?rd ?f ?f ?VR ?VC E2 t"
      unfolding E2_def by (rule st_all_inter [OF k st1 x1]) (use v ne in blast)+
    then show ?thesis using inter by simp
  next
    case False
    then have "?f i = {}" using x full_not_inter by blast
    then show ?thesis using st1 False by (simp add: E2_def rules_on_def)
  qed
  then obtain t where t: "(if m_support_inter_iface_offload x then add_all_inter_interface_client_flt_rule env i ip s1 else Some s1) = Some t"
      "same_shape s1 t" "bridge_st env V ?rd ?f ?f ?VR ?VC E2 t" by blast
  define E3 where "E3 = E2 \<union> (if i \<in> ?rd then {(i, i, m, ip) | m. m \<in> macs x} else {})"
  have rd: "i \<in> ?rd \<longleftrightarrow> m_support_intra_iface_offload x" using x by (simp add: RD_of_def)
  have "\<exists>u. (if m_support_intra_iface_offload x then add_all_intra_interface_client_flt_rule env i ip t else Some t) = Some u \<and>
      same_shape t u \<and> bridge_st env V ?rd ?f ?f ?VR ?VC E3 u"
  proof (cases "m_support_intra_iface_offload x")
    case intra: True
    obtain x2 where x2: "find_if t i = Some x2" "bare x2 = bare (set_assigned ip x)" by (rule same_shape_Some [OF t(2) x1])
    have mc: "macs x2 = macs x" using bare_macs [OF x2(2)] by simp
    have fp: "flt_peer ?rd ?f i i" using intra rd by (simp add: flt_peer_def)
    have v: "(i, m, rt_place t i i) \<in> ?VR" if "m \<in> macs x2" for m
      using that mc x intra by (auto simp: rt_place_def VR_of_def in_use_def)
    have n: "(i, i, m, ip) \<notin> E2" for m using ne nf by (auto simp: E2_def rules_on_def)
    have "E2 \<union> {(i, i, m, ip) | m. m \<in> macs x2} = E3" using intra rd mc by (simp add: E3_def)
    then show ?thesis using st_all_clients [OF k t(3) x2(1) fp x2(1) v n] intra x2(1)
      by (simp add: add_all_intra_interface_client_flt_rule_def)
  next
    case False
    then show ?thesis using t(3) rd by (simp add: E3_def)
  qed
  then obtain u where u: "(if m_support_intra_iface_offload x then add_all_intra_interface_client_flt_rule env i ip t else Some t) = Some u"
      "same_shape t u" "bridge_st env V ?rd ?f ?f ?VR ?VC E3 u" by blast
  have ro: "rules_on s1 i ip (?f i) = rules_on s i ip (?f i - {i})"
    using nf by (auto simp: rules_on_def s1_def find_assigned split: if_splits)
  have "E3 = E_of (full s1) s1"
    unfolding s1_def assigned_keeps E_of_assigned [OF x] E3_def E2_def by (simp add: ro [unfolded s1_def])
  then have "bridge_inv env V u"
    using u(3) invI [of env V s1 u] same_shape_trans [OF t(2) u(2)] by (simp add: s1_def)
  moreover have "activate_ip env i ip s = Some u"
    using x False t(1) u(1) by (simp add: activate_ip_def Let_def flip: s1_def)
  ultimately show ?thesis using False same_shape_trans [OF t(2) u(2)] by (auto simp: s1_def)
qed

section \<open>What peers do not change\<close>

definition core :: "l2l_iface \<Rightarrow> l2l_iface" where
  "core x = (bare x)\<lparr>ref_cnt_peer_l2_hdr_type := (\<lambda>_. 0), m_peer_iface_info := [],
     m_intra_interface_info := \<lparr>peer = 0, rt_tbl_name_for_rt = (\<lambda>_. []), rt_tbl_name_for_flt = (\<lambda>_. []), flt_rule = []\<rparr>\<rparr>"

definition same_core :: "'w lan2lan \<Rightarrow> 'w lan2lan \<Rightarrow> bool" where
  "same_core s t \<longleftrightarrow> map core (m_iface t) = map core (m_iface s) \<and> m_cached_client_add_event t = m_cached_client_add_event s"

lemma core_bare: "core (bare x) = core x"
  by (simp add: core_def bare_def bare_client_def)

lemma same_core_refl [simp]: "same_core s s"
  by (simp add: same_core_def)

lemma same_core_trans [trans]: "same_core s t \<Longrightarrow> same_core t u \<Longrightarrow> same_core s u"
  by (simp add: same_core_def)

lemma same_shape_core: "same_shape s t \<Longrightarrow> same_core s t"
proof -
  have c: "map core xs = map core (map bare xs)" for xs :: "l2l_iface list" by (simp add: core_bare)
  assume "same_shape s t"
  then show ?thesis unfolding same_core_def same_shape_def c [of "m_iface t"] c [of "m_iface s"] by simp
qed

lemma coreD:
  assumes "core x = core y"
  shows "m_p_iface x = m_p_iface y" and "m_is_ip_addr_assigned x = m_is_ip_addr_assigned y"
    and "m_support_inter_iface_offload x = m_support_inter_iface_offload y"
    and "m_support_intra_iface_offload x = m_support_intra_iface_offload y" and "map c_mac (m_client_info x) = map c_mac (m_client_info y)"
    and "macs x = macs y"
proof -
  have c: "map c_mac (m_client_info (core z)) = map c_mac (m_client_info z)" for z
    by (simp add: core_def bare_def bare_client_def)
  show m: "map c_mac (m_client_info x) = map c_mac (m_client_info y)" using c [of x] c [of y] assms by simp
  show "macs x = macs y" using arg_cong [OF m, of set] by (simp add: macs_def)
qed (use arg_cong [OF assms, of m_p_iface] arg_cong [OF assms, of m_is_ip_addr_assigned]
    arg_cong [OF assms, of m_support_inter_iface_offload] arg_cong [OF assms, of m_support_intra_iface_offload]
    in \<open>simp_all add: core_def bare_def\<close>)

lemma core_simps [simp]: "l2l_ptr (core x) = l2l_ptr x" "m_p_iface (core x) = m_p_iface x"
  by (simp_all add: core_def bare_def l2l_ptr_def)

lemma same_core_find: "same_core s t \<Longrightarrow> map_option core (find_if t i) = map_option core (find_if s i)"
  by (simp add: same_core_def find_if_def flip: look_map [of l2l_ptr core])

lemma same_core_sym: "same_core s t \<Longrightarrow> same_core t s"
  by (simp add: same_core_def)

lemma same_core_Some:
  assumes "same_core s t" and "find_if s i = Some x"
  obtains y where "find_if t i = Some y" "core y = core x"
  using same_core_find [OF assms(1), of i] assms(2) by auto

lemma core_exists:
  assumes st: "same_core s t" and P: "\<And>x y. core x = core y \<Longrightarrow> P x = P y"
  shows "(\<exists>x. find_if t i = Some x \<and> P x) \<longleftrightarrow> (\<exists>x. find_if s i = Some x \<and> P x)"
proof
  assume "\<exists>x. find_if t i = Some x \<and> P x"
  then obtain x where x: "find_if t i = Some x" "P x" by blast
  obtain y where y: "find_if s i = Some y" "core y = core x" by (rule same_core_Some [OF same_core_sym [OF st] x(1)])
  show "\<exists>x. find_if s i = Some x \<and> P x" using y(1) P [OF y(2)] x(2) by blast
next
  assume "\<exists>x. find_if s i = Some x \<and> P x"
  then obtain x where x: "find_if s i = Some x" "P x" by blast
  obtain y where y: "find_if t i = Some y" "core y = core x" by (rule same_core_Some [OF st x(1)])
  show "\<exists>x. find_if t i = Some x \<and> P x" using y(1) P [OF y(2)] x(2) by blast
qed

lemma same_core_eqs:
  assumes st: "same_core s t"
  shows "lans t = lans s" and "hdr_type t = hdr_type s" and "full t = full s" and "RD_of t = RD_of s"
    and "VC_of LK t = VC_of LK s" and "VR_of LK t = VR_of LK s" and "E_of LK t = E_of LK s" and "rules_on t = rules_on s"
    and "map l2l_ptr (m_iface t) = map l2l_ptr (m_iface s)"
proof -
  show "lans t = lans s"
  proof (rule ext)
    fix i
    have "map_option m_p_iface (map_option core (find_if t i)) = map_option m_p_iface (map_option core (find_if s i))"
      by (simp only: same_core_find [OF st])
    then show "lans t i = lans s i" by (simp add: lans_def option.map_comp comp_def)
  qed
  then show h: "hdr_type t = hdr_type s" by (simp add: hdr_type_def fun_eq_iff)
  have 1: "(\<exists>x. find_if t i = Some x \<and> m_support_inter_iface_offload x) \<longleftrightarrow> (\<exists>x. find_if s i = Some x \<and> m_support_inter_iface_offload x)" for i
    by (rule core_exists [OF st]) (rule coreD(3))
  show "full t = full s" by (rule ext) (simp only: full_alt 1)
  have 2: "(\<exists>x. find_if t i = Some x \<and> m_support_intra_iface_offload x) \<longleftrightarrow> (\<exists>x. find_if s i = Some x \<and> m_support_intra_iface_offload x)" for i
    by (rule core_exists [OF st]) (rule coreD(4))
  show rd: "RD_of t = RD_of s" by (simp only: RD_of_def 2)
  have u: "in_use LK t = in_use LK s" by (intro ext) (simp only: in_use_def h)
  have 3: "(\<exists>x. find_if t i = Some x \<and> in_use LK s x i sl) \<longleftrightarrow> (\<exists>x. find_if s i = Some x \<and> in_use LK s x i sl)" for i sl
    by (rule core_exists [OF st]) (drule coreD(4), simp only: in_use_def)
  show "VC_of LK t = VC_of LK s" by (simp only: VC_of_def u 3)
  have 4: "(\<exists>x. find_if t i = Some x \<and> m \<in> macs x \<and> in_use LK s x i sl) \<longleftrightarrow> (\<exists>x. find_if s i = Some x \<and> m \<in> macs x \<and> in_use LK s x i sl)" for i m sl
  proof (rule core_exists [OF st])
    fix x y :: l2l_iface assume c: "core x = core y"
    show "(m \<in> macs x \<and> in_use LK s x i sl) = (m \<in> macs y \<and> in_use LK s y i sl)" by (simp only: coreD(6) [OF c] coreD(4) [OF c] in_use_def)
  qed
  show "VR_of LK t = VR_of LK s" by (simp only: VR_of_def u 4)
  have 5: "(\<exists>x. find_if t i = Some x \<and> m_is_ip_addr_assigned x ip \<and> flt_peer (RD_of s) LK i p) \<longleftrightarrow>
      (\<exists>x. find_if s i = Some x \<and> m_is_ip_addr_assigned x ip \<and> flt_peer (RD_of s) LK i p)" for i p ip
    by (rule core_exists [OF st]) (drule coreD(2), simp only:)
  have 6: "(\<exists>y. find_if t p = Some y \<and> m \<in> macs y) \<longleftrightarrow> (\<exists>y. find_if s p = Some y \<and> m \<in> macs y)" for p m
    by (rule core_exists [OF st]) (drule coreD(6), simp only:)
  show "E_of LK t = E_of LK s" by (simp only: E_of_alt rd 5 6)
  show "rules_on t = rules_on s" by (intro ext) (simp only: rules_on_def 6)
  have "map l2l_ptr (map core (m_iface t)) = map l2l_ptr (map core (m_iface s))" using st by (simp only: same_core_def)
  then show "map l2l_ptr (m_iface t) = map l2l_ptr (m_iface s)" by (simp add: comp_def)
qed

lemma same_core_upd:
  assumes "\<And>x. l2l_ptr x = i \<Longrightarrow> core (f x) = core x"
  shows "same_core s (upd_if i f s)"
  using assms by (simp add: same_core_def upd_if_def map_upd_keep)

section \<open>A new interface\<close>

lemma find_front:
  assumes "m_p_iface front = l"
  shows "find_if (s\<lparr>m_iface := front # m_iface s\<rparr>) j = (if j = lan_ptr l then Some front else find_if s j)"
  using assms by (auto simp: find_if_def l2l_ptr_def)

text \<open>The interface is put into the list: nothing is recorded for it yet.\<close>

lemma st_insert:
  fixes s :: "'w lan2lan"
  assumes st: "bridge_st env V RD PL PL VR VC E s" and new: "find_if s (lan_ptr l) = None"
    and front: "m_p_iface front = l" "m_client_info front = []" "m_peer_iface_info front = []" "flt_rule (m_intra_interface_info front) = []"
      "ref_cnt_peer_l2_hdr_type front = (\<lambda>_. 0)" "hdr_proc_ctx_for_inter_interface front = (\<lambda>_. 0)" "hdr_proc_ctx_for_intra_interface front = 0"
    and l: "lan_ok (dev env) l" "rx_prop l \<noteq> None"
    and none: "lan_ptr l \<notin> RD" "PL (lan_ptr l) = {}" "\<And>p m ip. (lan_ptr l, p, m, ip) \<notin> E \<and> (p, lan_ptr l, m, ip) \<notin> E"
      "\<And>m sl. (lan_ptr l, m, sl) \<notin> VR" "\<And>sl. (lan_ptr l, sl) \<notin> VC"
  shows "bridge_st env V RD PL PL VR VC E (s\<lparr>m_iface := front # m_iface s\<rparr>)"
proof -
  let ?t = "s\<lparr>m_iface := front # m_iface s\<rparr>" and ?n = "lan_ptr l"
  note find = find_front [OF front(1), of s]
  have s: "shape env RD PL PL s" and b: "flt_booked env V s" "rt_booked env V VR s" "ctx_booked V VC s" and E: "dom (flt_rec s) = E"
    using st by (simp_all add: bridge_st_def)
  have L: "lans ?t j = lans s j" if "j \<noteq> ?n" for j using that by (simp add: lans_def find)
  have ptr: "l2l_ptr front = ?n" using front(1) by (simp add: l2l_ptr_def)
  have pn: "p \<noteq> ?n" if "p \<in> PL i" for p i using shape_peers(4) [OF s that] new by auto
  have prec: "peer_rec ?t j p = (if j = ?n then (if p = ?n then Some (m_intra_interface_info front) else None) else peer_rec s j p)" for j p
    using front ptr by (simp add: peer_rec_def find peer_at_def)
  have frec: "flt_rec ?t = flt_rec s"
  proof (rule ext)
    fix z :: flt_slot
    obtain j p m ip where z: "z = (j, p, m, ip)" by (cases z)
    show "flt_rec ?t z = flt_rec s z"
      using new front(4) by (cases "j = ?n") (simp_all add: z flt_rec_peer_rec prec entry_hdl_def, simp add: peer_rec_def)
  qed
  have crec: "client_rec ?t = client_rec s" using new front(2) by (auto simp: client_rec_def find fun_eq_iff l2l_client_def)
  have ctx: "ctx_of ?t = ctx_of s" using new front(6,7) by (auto simp: ctx_of_def find fun_eq_iff split: option.split)
  have tidy: "tidy ?t" using b(1) front(4) by (auto simp: tidy_peer_rec prec flt_booked_def)
  have "flt_booked env V ?t"
  proof -
    have "exact (flt_rec s) (flt_content env (lans ?t)) (flt_at V (l2l_world s))"
    proof (rule exact_cong)
      show "exact (flt_rec s) (flt_content env (lans s)) (flt_at V (l2l_world s))" using b(1) by (simp add: flt_booked_def)
    next
      fix z assume "flt_rec s z \<noteq> None"
      then have "z \<in> E" using E by auto
      moreover obtain j p m ip where z: "z = (j, p, m, ip)" by (cases z)
      ultimately have "j \<noteq> ?n" "p \<noteq> ?n" using none(3) by auto
      then show "flt_content env (lans ?t) z = flt_content env (lans s) z" by (simp add: z flt_content_def flt_tbl_def L)
    qed
    then show ?thesis using tidy frec by (simp add: flt_booked_def)
  qed
  moreover have "rt_booked env V VR ?t"
  proof -
    have "exact_in (rt_rec VR s) (rt_contents env (\<lambda>_. modes env) (lans ?t) (ctx_of s)) (rt_at V (l2l_world s))"
    proof (rule rt_contents_cong)
      show "exact_in (rt_rec VR s) (rt_contents env (\<lambda>_. modes env) (lans s) (ctx_of s)) (rt_at V (l2l_world s))" using b(2) by (simp add: rt_booked_in_def)
    next
      fix z mcc assume z': "rt_rec VR s z \<noteq> None"
      obtain j m sl ip n where z: "z = (j, m, sl, ip, n)" by (cases z)
      have "(j, m, sl) \<in> VR" using z' by (auto simp: z rt_rec_def split: if_splits)
      then have "j \<noteq> ?n" using none(4) by auto
      then show "rt_content env mcc (lans ?t) (ctx_of s) z = rt_content env mcc (lans s) (ctx_of s) z"
        by (simp add: z rt_content_def rt_tbl_def slot_type_def L split: option.split)
    qed
    moreover have "rt_rec VR ?t = rt_rec VR s" using crec by (auto simp: rt_rec_def fun_eq_iff)
    moreover have "rt_valid VR ?t" using b(2) L none(4) crec unfolding rt_booked_in_def rt_valid_def by metis
    ultimately show ?thesis using ctx by (simp add: rt_booked_in_def)
  qed
  moreover have "ctx_booked V VC ?t"
  proof -
    have "exact (ctx_rec VC s) (ctx_content (lans ?t)) (ctx_at V (l2l_world s))"
    proof (rule exact_cong)
      show "exact (ctx_rec VC s) (ctx_content (lans s)) (ctx_at V (l2l_world s))" using b(3) by (simp add: ctx_booked_def)
    next
      fix z assume z': "ctx_rec VC s z \<noteq> None"
      obtain j sl where z: "z = (j, sl)" by (cases z)
      have "(j, sl) \<in> VC" using z' by (auto simp: z ctx_rec_def split: if_splits)
      then have "j \<noteq> ?n" using none(5) by auto
      then show "ctx_content (lans ?t) z = ctx_content (lans s) z" by (simp add: z ctx_content_def slot_type_def L split: option.split)
    qed
    moreover have "ctx_rec VC ?t = ctx_rec VC s" using ctx by (auto simp: ctx_rec_def fun_eq_iff)
    ultimately show ?thesis by (simp add: ctx_booked_def)
  qed
  moreover have "shape env RD PL PL ?t"
  proof -
    have ty: "hdr_type ?t p = hdr_type s p" if "p \<noteq> ?n" for p using L [OF that] by (simp add: hdr_type_def)
    have "iface_shape env RD PL PL ?t j z" if z: "find_if ?t j = Some z" for j z
    proof (cases "j = ?n")
      case True
      then have "z = front" using z by (simp add: find)
      then show ?thesis using front l none(1,2) True by (simp add: iface_shape_def)
    next
      case False
      then have fz: "find_if s j = Some z" using z by (simp add: find)
      then have i: "iface_shape env RD PL PL s j z" using s by (simp add: shape_def)
      have peers: "peer ` set (m_peer_iface_info z) = PL j" by (rule shapeD(6) [OF s fz])
      have "{p \<in> PL j. hdr_type ?t p = t} = {p \<in> PL j. hdr_type s p = t}" for t using pn ty by auto
      moreover have "\<forall>q\<in>set (m_peer_iface_info z). hdr_type ?t (peer q) = hdr_type s (peer q)" using peers pn ty by blast
      moreover have "hdr_type ?t j = hdr_type s j" using ty False by simp
      ultimately show ?thesis using i by (simp add: iface_shape_def)
    qed
    moreover have "?n \<notin> l2l_ptr ` set (m_iface s)" using new by (simp add: find_if_def look_None)
    ultimately show ?thesis using s ptr find by (simp add: shape_def)
  qed
  ultimately show ?thesis using E frec by (simp add: bridge_st_def)
qed

text \<open>One side of a new link: \<open>IPACM_LanToLan_Iface::handle_new_iface_up\<close>.\<close>

definition push_peer :: "(ipa_ip_type \<Rightarrow> string) \<Rightarrow> (ipa_ip_type \<Rightarrow> string) \<Rightarrow> nat \<Rightarrow> l2l_iface \<Rightarrow> l2l_iface" where
  "push_peer ff fr p x = x\<lparr>m_peer_iface_info :=
     \<lparr>peer = p, rt_tbl_name_for_rt = fr, rt_tbl_name_for_flt = ff, flt_rule = []\<rparr> # m_peer_iface_info x\<rparr>"

lemma push_peer_simps [simp]:
  "l2l_ptr (push_peer ff fr p x) = l2l_ptr x" "m_p_iface (push_peer ff fr p x) = m_p_iface x" "core (push_peer ff fr p x) = core x"
  "m_client_info (push_peer ff fr p x) = m_client_info x"
  "hdr_proc_ctx_for_inter_interface (push_peer ff fr p x) = hdr_proc_ctx_for_inter_interface x"
  "hdr_proc_ctx_for_intra_interface (push_peer ff fr p x) = hdr_proc_ctx_for_intra_interface x"
  by (simp_all add: push_peer_def l2l_ptr_def core_def bare_def)

lemma peer_at_push:
  assumes "p \<noteq> l2l_ptr x"
  shows "peer_at (push_peer ff fr p x) q = (if q = p then Some \<lparr>peer = p, rt_tbl_name_for_rt = fr, rt_tbl_name_for_flt = ff, flt_rule = []\<rparr> else peer_at x q)"
  using assms by (auto simp: peer_at_def push_peer_def l2l_ptr_def)

lemma incr_simps [simp]:
  "l2l_ptr (increment_ref_cnt_peer_l2_hdr_type t x) = l2l_ptr x" "m_p_iface (increment_ref_cnt_peer_l2_hdr_type t x) = m_p_iface x"
  "core (increment_ref_cnt_peer_l2_hdr_type t x) = core x" "m_client_info (increment_ref_cnt_peer_l2_hdr_type t x) = m_client_info x"
  "m_peer_iface_info (increment_ref_cnt_peer_l2_hdr_type t x) = m_peer_iface_info x"
  "m_intra_interface_info (increment_ref_cnt_peer_l2_hdr_type t x) = m_intra_interface_info x"
  "hdr_proc_ctx_for_inter_interface (increment_ref_cnt_peer_l2_hdr_type t x) = hdr_proc_ctx_for_inter_interface x"
  "hdr_proc_ctx_for_intra_interface (increment_ref_cnt_peer_l2_hdr_type t x) = hdr_proc_ctx_for_intra_interface x"
  by (simp_all add: increment_ref_cnt_peer_l2_hdr_type_def l2l_ptr_def core_def bare_def)

definition booked :: "'w bridge_env \<Rightarrow> 'w kernel_view \<Rightarrow> (nat \<times> mac \<times> ipa_hdr_l2_type option) set \<Rightarrow> ctx_slot set \<Rightarrow> flt_slot set \<Rightarrow> 'w lan2lan \<Rightarrow> bool" where
  "booked env V VR VC E s \<longleftrightarrow> flt_booked env V s \<and> dom (flt_rec s) = E \<and> rt_booked env V VR s \<and> ctx_booked V VC s"

lemma st_booked: "bridge_st env V RD PL LK VR VC E s \<longleftrightarrow> shape env RD PL LK s \<and> booked env V VR VC E s"
  by (auto simp: bridge_st_def booked_def)

lemma booked_cong:
  assumes "booked env V VR VC E s" and eq: "lans t = lans s" "client_rec t = client_rec s" "ctx_of t = ctx_of s"
    "flt_rec t = flt_rec s" "l2l_world t = l2l_world s" and "tidy t"
  shows "booked env V VR VC E t"
proof -
  have b: "flt_booked env V s" "rt_booked env V VR s" "ctx_booked V VC s" and E: "dom (flt_rec s) = E"
    using assms(1) by (simp_all add: booked_def)
  have "flt_booked env V t" using b(1) assms(7) eq by (simp add: flt_booked_def)
  moreover have "rt_booked env V VR t" by (rule rt_booked_cong [OF b(2)]) (simp_all add: eq)
  moreover have "ctx_booked V VC t" by (rule ctx_booked_cong [OF b(3)]) (simp_all add: eq)
  ultimately show ?thesis using E eq(4) by (simp add: booked_def)
qed

lemma link_half:
  assumes k: "bridge_kernel_ok (dev env) V" and x: "find_if s i = Some x" "tx_prop (m_p_iface x) \<noteq> None" and y: "find_if s p = Some y" and ne: "p \<noteq> i"
    and b: "booked env V VR VC E s" and nl: "look peer p (m_peer_iface_info x) = None"
    and r: "0 \<le> ref_cnt_peer_l2_hdr_type x (hdr_type s p)" "(i, Some (hdr_type s p)) \<in> VC \<longleftrightarrow> ref_cnt_peer_l2_hdr_type x (hdr_type s p) \<noteq> 0"
      "ref_cnt_peer_l2_hdr_type x (hdr_type s p) = 0 \<Longrightarrow> (\<forall>m. (i, m, Some (hdr_type s p)) \<notin> VR)"
  shows "\<exists>s' h. iface_handle_new_iface_up env i ff fr p s = Some s' \<and> same_core s s' \<and> booked env V VR (insert (i, Some (hdr_type s p)) VC) E s' \<and>
    find_if s' = (find_if s)(i \<mapsto> push_peer ff fr p ((increment_ref_cnt_peer_l2_hdr_type (hdr_type s p) x)\<lparr>hdr_proc_ctx_for_inter_interface := h\<rparr>))"
proof -
  let ?t = "hdr_type s p" and ?inc = "increment_ref_cnt_peer_l2_hdr_type (hdr_type s p)"
  have ty: "l2_type (m_p_iface y) = ?t" using y by (simp add: hdr_type_def lans_def)
  define s1 where "s1 = upd_if i ?inc s"
  have f1: "find_if s1 j = (if j = i then Some (?inc x) else find_if s j)" for j using x(1) by (simp add: s1_def find_if_upd)
  have p1: "peer_rec s1 = peer_rec s" unfolding s1_def by (rule peer_rec_upd_keep) simp_all
  have L1: "lans s1 = lans s" unfolding s1_def by (rule lans_upd) simp
  have b1: "booked env V VR VC E s1"
    by (rule booked_cong [OF b])
      (use b in \<open>simp_all add: L1 flt_rec_cong [OF p1] tidy_cong [OF p1] booked_def flt_booked_def\<close>, simp_all add: s1_def client_rec_upd ctx_of_upd)
  have bb: "flt_booked env V s1" "dom (flt_rec s1) = E" "rt_booked env V VR s1" "ctx_booked V VC s1" using b1 by (simp_all add: booked_def)
  have ref1: "ref_cnt_peer_l2_hdr_type (?inc x) ?t = ref_cnt_peer_l2_hdr_type x ?t + 1" by (simp add: increment_ref_cnt_peer_l2_hdr_type_def)
  have "\<exists>s2 h. add_hdr_proc_ctx env i ?t s1 = Some s2 \<and> same_core s1 s2 \<and> booked env V VR (insert (i, Some ?t) VC) E s2 \<and> peer_rec s2 = peer_rec s1 \<and>
      find_if s2 = (find_if s1)(i \<mapsto> (?inc x)\<lparr>hdr_proc_ctx_for_inter_interface := h\<rparr>)"
  proof (cases "ref_cnt_peer_l2_hdr_type x ?t = 0")
    case True
    have x1: "find_if s1 i = Some (?inc x)" "tx_prop (m_p_iface (?inc x)) \<noteq> None" using x(2) by (simp_all add: f1)
    have nv: "(i, Some ?t) \<notin> VC" "\<And>m. (i, m, Some ?t) \<notin> VR" using r(2,3) True by auto
    obtain h w where a: "eth_bridge_add_hdr_proc_ctx env (m_p_iface (?inc x)) (slot_type (lans s1) i (Some ?t)) (l2l_world s1) = (Some h, w)"
      and st: "\<And>s'. s' = upd_if i (set_ctx (Some ?t) h) (s1\<lparr>l2l_world := w\<rparr>) \<Longrightarrow>
         same_shape s1 s' \<and> flt_rec s' = flt_rec s1 \<and> flt_booked env V s' \<and> rt_booked env V VR s' \<and> ctx_booked V (insert (i, Some ?t) VC) s'"
      using add_ctx_ok [OF k x1 bb(1,3,4) nv] by metis
    define s2 where "s2 = upd_if i (set_ctx (Some ?t) h) (s1\<lparr>l2l_world := w\<rparr>)"
    have "add_hdr_proc_ctx env i ?t s1 = Some s2"
      using x1(1) ref1 True a by (simp add: add_hdr_proc_ctx_def s2_def set_ctx_def [abs_def] slot_type_def)
    moreover have "find_if s2 = (find_if s1)(i \<mapsto> (?inc x)\<lparr>hdr_proc_ctx_for_inter_interface := (hdr_proc_ctx_for_inter_interface (?inc x))(?t := h)\<rparr>)"
    proof -
      have "find_if s2 j = (if j = i then map_option (set_ctx (Some ?t) h) (find_if s1 i) else find_if s1 j)" for j
        by (simp add: s2_def find_if_upd)
      then show ?thesis using x1(1) by (auto simp: set_ctx_def fun_eq_iff)
    qed
    moreover have "peer_rec s2 = peer_rec s1" using set_ctx_state(2) [OF s2_def] x1(1) by simp
    ultimately show ?thesis using st [OF s2_def] bb(2) by (auto simp: booked_def intro: same_shape_core)
  next
    case False
    then have ne1: "ref_cnt_peer_l2_hdr_type (?inc x) ?t \<noteq> 1" using ref1 by simp
    have "insert (i, Some ?t) VC = VC" using r(2) False by auto
    moreover have "find_if s1 = (find_if s1)(i \<mapsto> (?inc x)\<lparr>hdr_proc_ctx_for_inter_interface := hdr_proc_ctx_for_inter_interface (?inc x)\<rparr>)"
      by (auto simp: fun_eq_iff f1)
    moreover have "add_hdr_proc_ctx env i ?t s1 = Some s1" using f1 [of i] ne1 by (simp add: add_hdr_proc_ctx_def)
    ultimately show ?thesis using b1 by (metis same_core_refl)
  qed
  then obtain s2 h where s2: "add_hdr_proc_ctx env i ?t s1 = Some s2" "same_core s1 s2" "booked env V VR (insert (i, Some ?t) VC) E s2" "peer_rec s2 = peer_rec s1"
      "find_if s2 = (find_if s1)(i \<mapsto> (?inc x)\<lparr>hdr_proc_ctx_for_inter_interface := h\<rparr>)" by blast
  define s3 where "s3 = upd_if i (push_peer ff fr p) s2"
  have prec: "peer_rec s3 j q = (if j = i \<and> q = p then Some \<lparr>peer = p, rt_tbl_name_for_rt = fr, rt_tbl_name_for_flt = ff, flt_rule = []\<rparr> else peer_rec s2 j q)" for j q
  proof -
    obtain x2 where x2: "find_if s2 i = Some x2" using s2(5) by simp
    show ?thesis using ne find_if_ptr [OF x2] x2 by (cases "j = i") (simp_all add: s3_def peer_rec_def find_if_upd peer_at_push)
  qed
  have none: "peer_rec s2 i p = None" using nl ne x(1) find_if_ptr [OF x(1)] by (simp add: s2(4) p1 peer_rec_def peer_at_def)
  have fr3: "flt_rec s3 = flt_rec s2"
  proof (rule ext)
    fix z :: flt_slot
    obtain j q m ip where z: "z = (j, q, m, ip)" by (cases z)
    show "flt_rec s3 z = flt_rec s2 z" using none by (auto simp: z flt_rec_peer_rec prec entry_hdl_def)
  qed
  have t3: "tidy s3" using s2(3) by (auto simp: booked_def flt_booked_def tidy_peer_rec prec)
  have b3: "booked env V VR (insert (i, Some ?t) VC) E s3"
    by (rule booked_cong [OF s2(3) _ _ _ fr3 _ t3]) (simp_all add: s3_def lans_upd client_rec_upd ctx_of_upd)
  have c3: "same_core s s3"
  proof -
    have "same_core s s1" unfolding s1_def by (rule same_core_upd) simp
    also have "same_core s1 s2" by (rule s2(2))
    also have "same_core s2 s3" unfolding s3_def by (rule same_core_upd) simp
    finally show ?thesis .
  qed
  have "iface_handle_new_iface_up env i ff fr p s = Some s3"
    using y ty s2(1) by (simp add: iface_handle_new_iface_up_def Let_def s3_def push_peer_def [abs_def] flip: s1_def)
  moreover have "find_if s3 = (find_if s)(i \<mapsto> push_peer ff fr p ((?inc x)\<lparr>hdr_proc_ctx_for_inter_interface := h\<rparr>))"
    by (auto simp: fun_eq_iff s3_def find_if_upd s2(5) f1)
  ultimately show ?thesis using b3 c3 by blast
qed

text \<open>Both sides of a new link.\<close>

definition link :: "nat \<Rightarrow> nat \<Rightarrow> (nat \<Rightarrow> nat set) \<Rightarrow> nat \<Rightarrow> nat set" where
  "link n e PL = PL(n := insert e (PL n), e := insert n (PL e))"

lemma iface_shape_link:
  assumes i: "iface_shape env RD PL PL s i x" and p: "p \<notin> PL i" and pl: "PL' i = insert p (PL i)" and ty: "hdr_type s' = hdr_type s"
  shows "iface_shape env RD PL' PL' s' i (push_peer (rt_tbl_name env (hdr_type s i) (hdr_type s p)) (rt_tbl_name env (hdr_type s p) (hdr_type s i)) p
    ((increment_ref_cnt_peer_l2_hdr_type (hdr_type s p) x)\<lparr>hdr_proc_ctx_for_inter_interface := h\<rparr>))"
proof -
  have fin: "finite (PL i)"
  proof -
    have "PL i = peer ` set (m_peer_iface_info x)" using i by (simp add: iface_shape_def)
    then show ?thesis by simp
  qed
  have "card {q \<in> insert p (PL i). hdr_type s q = t} = card {q \<in> PL i. hdr_type s q = t} + (if hdr_type s p = t then 1 else 0)" for t
  proof -
    have "{q \<in> insert p (PL i). hdr_type s q = t} = (if hdr_type s p = t then insert p {q \<in> PL i. hdr_type s q = t} else {q \<in> PL i. hdr_type s q = t})"
      by auto
    then show ?thesis using fin p by simp
  qed
  moreover have "p \<notin> peer ` set (m_peer_iface_info x)" "peer ` set (m_peer_iface_info x) = PL i" using i p by (simp_all add: iface_shape_def)
  ultimately show ?thesis using i pl unfolding iface_shape_def ty
    by (simp add: push_peer_def increment_ref_cnt_peer_l2_hdr_type_def)
qed

lemma iface_shape_other:
  assumes "iface_shape env RD PL PL s i x" and "PL' i = PL i" and "hdr_type s' = hdr_type s"
  shows "iface_shape env RD PL' PL' s' i x"
  using assms by (simp add: iface_shape_def)

lemma st_link:
  assumes k: "bridge_kernel_ok (dev env) V" and st: "bridge_st env V RD PL PL VR VC E s" and x: "find_if s n = Some x" and y: "find_if s e = Some y"
    and ne: "n \<noteq> e" and new: "e \<notin> PL n"
    and vc: "\<And>i t. i = n \<or> i = e \<Longrightarrow> (i, Some t) \<in> VC \<longleftrightarrow> t \<in> hdr_type s ` PL i"
    and vr: "\<And>i m t. i = n \<or> i = e \<Longrightarrow> (i, m, Some t) \<in> VR \<Longrightarrow> t \<in> hdr_type s ` PL i"
  shows "\<exists>s' y' q qs. handle_new_iface_up env n e s = Some s' \<and> same_core s s' \<and>
    bridge_st env V RD (link n e PL) (link n e PL) VR (VC \<union> {(e, Some (hdr_type s n)), (n, Some (hdr_type s e))}) E s' \<and>
    find_if s' e = Some y' \<and> m_peer_iface_info y' = q # qs \<and> peer q = n"
proof -
  let ?tn = "hdr_type s n" and ?te = "hdr_type s e" and ?inc = "increment_ref_cnt_peer_l2_hdr_type"
  let ?ff = "rt_tbl_name env ?te ?tn" and ?fr = "rt_tbl_name env ?tn ?te"
  have s: "shape env RD PL PL s" and b: "booked env V VR VC E s" using st by (simp_all add: st_booked)
  have new': "n \<notin> PL e" using new shape_peers(3) [OF s, of n e] by blast
  have ref: "ref_cnt_peer_l2_hdr_type z t = 0 \<longleftrightarrow> t \<notin> hdr_type s ` PL i" "0 \<le> ref_cnt_peer_l2_hdr_type z t" if z: "find_if s i = Some z" for i z t
  proof -
    have "finite (PL i)" using shapeD(6) [OF s z] by (metis finite_imageI finite_set)
    then show "ref_cnt_peer_l2_hdr_type z t = 0 \<longleftrightarrow> t \<notin> hdr_type s ` PL i" "0 \<le> ref_cnt_peer_l2_hdr_type z t"
      using shapeD(8) [OF s z, of t] by auto
  qed
  have look: "look peer p (m_peer_iface_info z) = None" if "find_if s i = Some z" "p \<notin> PL i" for i z p
    using shapeD(6) [OF s that(1)] that(2) by (simp add: look_None)
  have "\<exists>s1 h. iface_handle_new_iface_up env e ?ff ?fr n s = Some s1 \<and> same_core s s1 \<and> booked env V VR (insert (e, Some ?tn) VC) E s1 \<and>
      find_if s1 = (find_if s)(e \<mapsto> push_peer ?ff ?fr n ((?inc ?tn y)\<lparr>hdr_proc_ctx_for_inter_interface := h\<rparr>))"
    by (rule link_half [OF k y shapeD(3) [OF s y] x ne b look [OF y new']]) (use ref [OF y] vc [of e] vr [of e] in auto)
  then obtain s1 h where s1: "iface_handle_new_iface_up env e ?ff ?fr n s = Some s1" "same_core s s1" "booked env V VR (insert (e, Some ?tn) VC) E s1"
      "find_if s1 = (find_if s)(e \<mapsto> push_peer ?ff ?fr n ((?inc ?tn y)\<lparr>hdr_proc_ctx_for_inter_interface := h\<rparr>))" by blast
  let ?y = "push_peer ?ff ?fr n ((?inc ?tn y)\<lparr>hdr_proc_ctx_for_inter_interface := h\<rparr>)"
  have x1: "find_if s1 n = Some x" and y1: "find_if s1 e = Some ?y" using s1(4) x ne by simp_all
  have ty1: "hdr_type s1 = hdr_type s" by (rule same_core_eqs(2) [OF s1(2)])
  have "\<exists>s2 h'. iface_handle_new_iface_up env n ?fr ?ff e s1 = Some s2 \<and> same_core s1 s2 \<and>
      booked env V VR (insert (n, Some (hdr_type s1 e)) (insert (e, Some ?tn) VC)) E s2 \<and>
      find_if s2 = (find_if s1)(n \<mapsto> push_peer ?fr ?ff e ((?inc (hdr_type s1 e) x)\<lparr>hdr_proc_ctx_for_inter_interface := h'\<rparr>))"
    by (rule link_half [OF k x1 shapeD(3) [OF s x] y1 ne [symmetric] s1(3) look [OF x new]])
      (use ref [OF x] vc [of n] vr [of n] ne ty1 in auto)
  then obtain s2 h' where s2: "iface_handle_new_iface_up env n ?fr ?ff e s1 = Some s2" "same_core s1 s2"
      "booked env V VR (insert (n, Some ?te) (insert (e, Some ?tn) VC)) E s2"
      "find_if s2 = (find_if s1)(n \<mapsto> push_peer ?fr ?ff e ((?inc ?te x)\<lparr>hdr_proc_ctx_for_inter_interface := h'\<rparr>))"
    unfolding ty1 by blast
  have sc: "same_core s s2" by (rule same_core_trans [OF s1(2) s2(2)])
  have ty2: "hdr_type s2 = hdr_type s" by (rule same_core_eqs(2) [OF sc])
  have find2: "find_if s2 j = (if j = n then Some (push_peer ?fr ?ff e ((?inc ?te x)\<lparr>hdr_proc_ctx_for_inter_interface := h'\<rparr>))
      else if j = e then Some ?y else find_if s j)" for j
    using s2(4) s1(4) by simp
  have "shape env RD (link n e PL) (link n e PL) s2"
  proof -
    have "iface_shape env RD (link n e PL) (link n e PL) s2 j z" if z: "find_if s2 j = Some z" for j z
    proof -
      consider "j = n" | "j = e" | "j \<noteq> n" "j \<noteq> e" by blast
      then show ?thesis
      proof cases
        case 1
        have "iface_shape env RD PL PL s n x" using s x by (simp add: shape_def)
        from iface_shape_link [where PL' = "link n e PL", OF this new _ ty2] show ?thesis using z 1 ne by (auto simp: find2 link_def)
      next
        case 2
        have "iface_shape env RD PL PL s e y" using s y by (simp add: shape_def)
        from iface_shape_link [where PL' = "link n e PL", OF this new' _ ty2] show ?thesis using z 2 ne by (auto simp: find2 link_def)
      next
        case 3
        then have "iface_shape env RD PL PL s j z" using s z by (simp add: shape_def find2)
        then show ?thesis by (rule iface_shape_other) (use 3 ty2 in \<open>simp_all add: link_def\<close>)
      qed
    qed
    moreover have "find_if s2 p \<noteq> None" if "find_if s p \<noteq> None" for p using that find2 by auto
    moreover have "find_if s2 n \<noteq> None" "find_if s2 e \<noteq> None" using find2 by auto
    moreover have "\<forall>i. i \<notin> PL i \<and> (\<forall>p\<in>PL i. find_if s p \<noteq> None) \<and> (\<forall>p\<in>PL i. i \<in> PL p)" and "distinct (map l2l_ptr (m_iface s2))"
      using s same_core_eqs(9) [OF sc] by (simp_all add: shape_def)
    ultimately show ?thesis using ne by (auto simp: shape_def link_def)
  qed
  then have "bridge_st env V RD (link n e PL) (link n e PL) VR (VC \<union> {(e, Some ?tn), (n, Some ?te)}) E s2"
    using s2(3) by (simp add: st_booked insert_commute)
  moreover have "handle_new_iface_up env n e s = Some s2"
    using x y s1(1) s2(1) by (simp add: handle_new_iface_up_def hdr_type_def lans_def Let_def)
  moreover have "find_if s2 e = Some ?y" using find2 ne by simp
  ultimately show ?thesis using sc by (auto simp: push_peer_def)
qed

end
