(* ===== verification/LanToLan_Up.thy ===== *)
theory LanToLan_Up
  imports LanToLan_Ifaces
begin

text \<open>
  An interface comes up: it becomes the peer of the others, and the routing rules of their clients and its own filter rules are
  installed.
\<close>

section \<open>Routing rules of all clients\<close>

lemma st_all_rt:
  assumes k: "bridge_kernel_ok (dev env) V" and st: "bridge_st env V RD PL LK VR VC E s" and x: "find_if s i = Some x" and p: "flt_peer RD PL i p"
    and new: "\<And>m. m \<in> macs x \<Longrightarrow> (i, m, rt_place s p i) \<notin> VR"
  shows "\<exists>t. each (\<lambda>c. add_client_rt_rule env i p (c_mac c)) (m_client_info x) s = Some t \<and> same_shape s t \<and>
    bridge_st env V RD PL LK (VR \<union> {(i, m, rt_place s p i) | m. m \<in> macs x}) VC E t"
proof -
  let ?R = "\<lambda>cs. VR \<union> {(i, m, rt_place s p i) | m. m \<in> c_mac ` set cs}"
  have s: "shape env RD PL LK s" using st by (simp add: bridge_st_def)
  define J where "J = (\<lambda>(pre :: client_info list) t. same_shape s t \<and> bridge_st env V RD PL LK (?R pre) VC E t)"
  have "\<exists>t. each (\<lambda>c. add_client_rt_rule env i p (c_mac c)) (m_client_info x) s = Some t \<and> J (m_client_info x) t"
  proof (rule each_inv)
    show "J [] s" using st by (simp add: J_def)
  next
    fix pre c rest t assume cs: "m_client_info x = pre @ c # rest" and J: "J pre t"
    have sh: "same_shape s t" and b: "bridge_st env V RD PL LK (?R pre) VC E t" using J by (simp_all add: J_def)
    have m: "c_mac c \<in> macs x" "c_mac c \<notin> c_mac ` set pre" using cs shapeD(4) [OF s x] by (auto simp: macs_def)
    obtain x' where x': "find_if t i = Some x'" "bare x' = bare x" by (rule same_shape_Some [OF sh x])
    have m': "c_mac c \<in> macs x'" using m(1) bare_macs [OF x'(2)] by simp
    have pl: "rt_place t p i = rt_place s p i" using rt_place_cong [OF sh] by simp
    have n: "(i, c_mac c, rt_place t p i) \<notin> ?R pre" using new m by (auto simp: pl)
    obtain u where u: "add_client_rt_rule env i p (c_mac c) t = Some u" "same_shape t u"
        "bridge_st env V RD PL LK (insert (i, c_mac c, rt_place s p i) (?R pre)) VC E u"
      using st_add_rt [OF k b x'(1) p m' n] unfolding pl by blast
    have "insert (i, c_mac c, rt_place s p i) (?R pre) = ?R (pre @ [c])" by auto
    then show "\<exists>t'. add_client_rt_rule env i p (c_mac c) t = Some t' \<and> J (pre @ [c]) t'"
      using u same_shape_trans [OF sh u(2)] by (simp add: J_def)
  qed
  then show ?thesis unfolding J_def macs_def by blast
qed

lemma st_all_rt_del:
  assumes k: "bridge_kernel_ok (dev env) V" and st: "bridge_st env V RD PL LK VR VC E s" and x: "find_if s i = Some x" and p: "flt_peer RD PL i p"
    and v: "\<And>m. m \<in> macs x \<Longrightarrow> (i, m, rt_place s p i) \<in> VR"
  shows "\<exists>t. each (\<lambda>c. del_client_rt_rule env i p (c_mac c)) (m_client_info x) s = Some t \<and> same_shape s t \<and>
    bridge_st env V RD PL LK (VR - {(i, m, rt_place s p i) | m. m \<in> macs x}) VC E t"
proof -
  let ?R = "\<lambda>cs. VR - {(i, m, rt_place s p i) | m. m \<in> c_mac ` set cs}"
  have s: "shape env RD PL LK s" using st by (simp add: bridge_st_def)
  define J where "J = (\<lambda>(pre :: client_info list) t. same_shape s t \<and> bridge_st env V RD PL LK (?R pre) VC E t)"
  have "\<exists>t. each (\<lambda>c. del_client_rt_rule env i p (c_mac c)) (m_client_info x) s = Some t \<and> J (m_client_info x) t"
  proof (rule each_inv)
    show "J [] s" using st by (simp add: J_def)
  next
    fix pre c rest t assume cs: "m_client_info x = pre @ c # rest" and J: "J pre t"
    have sh: "same_shape s t" and b: "bridge_st env V RD PL LK (?R pre) VC E t" using J by (simp_all add: J_def)
    have m: "c_mac c \<in> macs x" "c_mac c \<notin> c_mac ` set pre" using cs shapeD(4) [OF s x] by (auto simp: macs_def)
    obtain x' where x': "find_if t i = Some x'" "bare x' = bare x" by (rule same_shape_Some [OF sh x])
    have m': "c_mac c \<in> macs x'" using m(1) bare_macs [OF x'(2)] by simp
    have pl: "rt_place t p i = rt_place s p i" using rt_place_cong [OF sh] by simp
    have n: "(i, c_mac c, rt_place t p i) \<in> ?R pre" using v m by (auto simp: pl)
    obtain u where u: "del_client_rt_rule env i p (c_mac c) t = Some u" "same_shape t u"
        "bridge_st env V RD PL LK (?R pre - {(i, c_mac c, rt_place s p i)}) VC E u"
      using st_del_rt [OF k b x'(1) p m' n] unfolding pl by blast
    have "?R pre - {(i, c_mac c, rt_place s p i)} = ?R (pre @ [c])" by auto
    then show "\<exists>t'. del_client_rt_rule env i p (c_mac c) t = Some t' \<and> J (pre @ [c]) t'"
      using u same_shape_trans [OF sh u(2)] by (simp add: J_def)
  qed
  then show ?thesis unfolding J_def macs_def by blast
qed

section \<open>A new peer\<close>

text \<open>One round of the loop of \<open>handle_iface_up\<close>: both sides are linked, and the clients of the old interface get routing rules.\<close>

lemma st_new_peer:
  assumes k: "bridge_kernel_ok (dev env) V" and st: "bridge_st env V RD PL PL VR VC E s" and x: "find_if s n = Some x" and y: "find_if s e = Some y"
    and ne: "n \<noteq> e" and new: "e \<notin> PL n"
    and vc: "\<And>i t. i = n \<or> i = e \<Longrightarrow> (i, Some t) \<in> VC \<longleftrightarrow> t \<in> hdr_type s ` PL i"
    and vr: "\<And>m t. (e, m, Some t) \<in> VR \<longleftrightarrow> m \<in> macs y \<and> t \<in> hdr_type s ` PL e" "\<And>m t. (n, m, Some t) \<notin> VR"
  shows "\<exists>s'. do { s \<leftarrow> handle_new_iface_up env n e s; add_client_rt_rule_for_new_iface env e s } = Some s' \<and> same_core s s' \<and>
    bridge_st env V RD (link n e PL) (link n e PL) (VR \<union> {(e, m, Some (hdr_type s n)) | m. m \<in> macs y})
      (VC \<union> {(e, Some (hdr_type s n)), (n, Some (hdr_type s e))}) E s'"
proof -
  let ?tn = "hdr_type s n" and ?VC = "VC \<union> {(e, Some (hdr_type s n)), (n, Some (hdr_type s e))}"
  have vr': "t \<in> hdr_type s ` PL i" if "i = n \<or> i = e" "(i, m, Some t) \<in> VR" for i m t using that vr by auto
  have "\<exists>s' y' q qs. handle_new_iface_up env n e s = Some s' \<and> same_core s s' \<and> bridge_st env V RD (link n e PL) (link n e PL) VR ?VC E s' \<and>
      find_if s' e = Some y' \<and> m_peer_iface_info y' = q # qs \<and> peer q = n"
    by (rule st_link [OF k st x y ne new]) (simp add: vc, rule vr')
  then obtain s1 y1 q qs where s1: "handle_new_iface_up env n e s = Some s1" "same_core s s1" "bridge_st env V RD (link n e PL) (link n e PL) VR ?VC E s1"
      "find_if s1 e = Some y1" "m_peer_iface_info y1 = q # qs" "peer q = n" by blast
  have sh: "shape env RD PL PL s" "shape env RD (link n e PL) (link n e PL) s1" using st s1(3) by (simp_all add: bridge_st_def)
  have ty: "hdr_type s1 = hdr_type s" by (rule same_core_eqs(2) [OF s1(2)])
  obtain x1 where x1: "find_if s1 n = Some x1" by (rule same_core_Some [OF s1(2) x])
  have "hdr_type s1 n = l2_type (m_p_iface x1)" using x1 by (simp add: hdr_type_def lans_def)
  then have tn: "l2_type (m_p_iface x1) = ?tn" using ty by simp
  have my: "macs y1 = macs y"
  proof -
    obtain y2 where y2: "find_if s1 e = Some y2" "core y2 = core y" by (rule same_core_Some [OF s1(2) y])
    show ?thesis using s1(4) y2(1) coreD(6) [OF y2(2)] by simp
  qed
  have fin: "finite (PL e)" using shapeD(6) [OF sh(1) y] by (metis finite_imageI finite_set)
  have nPL: "n \<notin> PL e" using new shape_peers(3) [OF sh(1), of n e] by blast
  have "{p \<in> link n e PL e. hdr_type s p = ?tn} = insert n {p \<in> PL e. hdr_type s p = ?tn}" using ne by (auto simp: link_def)
  then have "ref_cnt_peer_l2_hdr_type y1 ?tn = int (card (insert n {p \<in> PL e. hdr_type s p = ?tn}))"
    using shapeD(8) [OF sh(2) s1(4), of ?tn] ty by simp
  then have ref: "ref_cnt_peer_l2_hdr_type y1 ?tn = 1 \<longleftrightarrow> ?tn \<notin> hdr_type s ` PL e"
    using fin nPL by (auto simp: image_iff)
  have fp: "flt_peer RD (link n e PL) e n" using ne by (auto simp: flt_peer_def link_def)
  have place: "rt_place s1 n e = Some ?tn" using ne ty by (simp add: rt_place_def)
  show ?thesis
  proof (cases "?tn \<in> hdr_type s ` PL e")
    case True
    then have "VR \<union> {(e, m, Some ?tn) | m. m \<in> macs y} = VR" using vr(1) by auto
    moreover have "add_client_rt_rule_for_new_iface env e s1 = Some s1"
      using s1(4-6) x1 tn ref True by (simp add: add_client_rt_rule_for_new_iface_def)
    ultimately show ?thesis using s1(1-3) by simp
  next
    case False
    have nv: "(e, m, rt_place s1 n e) \<notin> VR" for m using vr(1) False place by simp
    obtain t where t: "each (\<lambda>c. add_client_rt_rule env e n (c_mac c)) (m_client_info y1) s1 = Some t" "same_shape s1 t"
        "bridge_st env V RD (link n e PL) (link n e PL) (VR \<union> {(e, m, Some ?tn) | m. m \<in> macs y}) ?VC E t"
      using st_all_rt [OF k s1(3,4) fp nv] unfolding place my by blast
    have "add_client_rt_rule_for_new_iface env e s1 = Some t"
      using s1(4-6) x1 tn ref False t(1) by (simp add: add_client_rt_rule_for_new_iface_def)
    then show ?thesis using s1(1) t(3) same_core_trans [OF s1(2) same_shape_core [OF t(2)]] by simp
  qed
qed

section \<open>The sets of rules while the interface is linked to one peer after the other\<close>

text \<open>The peers of every interface when the new interface \<open>n\<close> is linked to those of \<open>P\<close>.\<close>

definition with_new :: "nat \<Rightarrow> nat set \<Rightarrow> (nat \<Rightarrow> nat set) \<Rightarrow> nat \<Rightarrow> nat set" where
  "with_new n P PL i = (if i = n then P else if i \<in> P then insert n (PL i) else PL i)"

lemma link_with_new: "e \<notin> P \<Longrightarrow> n \<noteq> e \<Longrightarrow> link n e (with_new n P PL) = with_new n (insert e P) PL"
  by (auto simp: link_def with_new_def fun_eq_iff)

lemma VR_of_with_new:
  assumes "find_if s n = Some x" and "macs x = {}" and "find_if s e = Some y" and "e \<notin> P" and "e \<noteq> n"
  shows "VR_of (with_new n (insert e P) PL) s = VR_of (with_new n P PL) s \<union> {(e, m, Some (hdr_type s n)) | m. m \<in> macs y}"
proof (rule set_eqI)
  fix z :: "nat \<times> mac \<times> ipa_hdr_l2_type option"
  obtain i m sl where z: "z = (i, m, sl)" by (cases z)
  show "z \<in> VR_of (with_new n (insert e P) PL) s \<longleftrightarrow> z \<in> VR_of (with_new n P PL) s \<union> {(e, m, Some (hdr_type s n)) | m. m \<in> macs y}"
    using assms by (cases sl; cases "i = e"; cases "i = n") (auto simp: z VR_of_def in_use_def with_new_def)
qed

lemma VC_of_with_new:
  assumes "find_if s n = Some x" and "find_if s e = Some y" and "e \<notin> P" and "e \<noteq> n"
  shows "VC_of (with_new n (insert e P) PL) s = VC_of (with_new n P PL) s \<union> {(e, Some (hdr_type s n)), (n, Some (hdr_type s e))}"
proof (rule set_eqI)
  fix z :: ctx_slot
  obtain i sl where z: "z = (i, sl)" by (cases z)
  show "z \<in> VC_of (with_new n (insert e P) PL) s \<longleftrightarrow> z \<in> VC_of (with_new n P PL) s \<union> {(e, Some (hdr_type s n)), (n, Some (hdr_type s e))}"
    using assms by (cases sl; cases "i = e"; cases "i = n") (auto simp: z VC_of_def in_use_def with_new_def)
qed

lemma full_find: "p \<in> full s i \<Longrightarrow> \<exists>x. find_if s p = Some x" "p \<in> full s i \<Longrightarrow> \<exists>x. find_if s i = Some x"
  by (auto simp: full_def)

text \<open>Putting an interface without clients in front of the list.\<close>

lemma front_sets:
  assumes new: "find_if s n = None" and t: "\<And>j. find_if t j = (if j = n then Some front else find_if s j)" and c: "macs front = {}"
  shows "full s n = {}" and "VR_of (full s) t = VR_of (full s) s" and "VC_of (full s) t - {(n, None)} = VC_of (full s) s"
    and "full t = (if m_support_inter_iface_offload front then with_new n {p. \<exists>y. find_if s p = Some y \<and> m_support_inter_iface_offload y} (full s) else full s)"
    and "RD_of t = (if m_support_intra_iface_offload front then insert n (RD_of s) else RD_of s)"
    and "E_of (full t) t = E_of (full s) s \<union> {(n, p, m, ip) | p m ip. m_is_ip_addr_assigned front ip \<and> p \<in> full t n \<and> (\<exists>y. find_if t p = Some y \<and> m \<in> macs y)}"
proof -
  show fn: "full s n = {}" using new by (simp add: full_def)
  have np: "n \<notin> full s i" for i using new full_find(1) [of n s i] by auto
  have h: "hdr_type t p = hdr_type s p" if "p \<noteq> n" for p using that by (simp add: hdr_type_def lans_def t)
  have ty: "hdr_type t ` full s i = hdr_type s ` full s i" for i
  proof (rule image_cong)
    show "hdr_type t p = hdr_type s p" if "p \<in> full s i" for p using that np [of i] h [of p] by auto
  qed simp
  have u: "in_use (full s) t x i sl = in_use (full s) s x i sl" for x i sl using ty by (cases sl) (simp_all add: in_use_def)
  show "VR_of (full s) t = VR_of (full s) s" using new c by (auto simp: VR_of_def u t split: if_splits)
  have "in_use (full s) s x n sl \<longleftrightarrow> sl = None \<and> m_support_intra_iface_offload x" for x sl by (simp add: in_use_def fn split: option.split)
  then show "VC_of (full s) t - {(n, None)} = VC_of (full s) s" using new by (auto simp: VC_of_def u t split: if_splits)
  show "full t = (if m_support_inter_iface_offload front then with_new n {p. \<exists>y. find_if s p = Some y \<and> m_support_inter_iface_offload y} (full s) else full s)"
    using new by (auto simp: fun_eq_iff full_def with_new_def t)
  show rd: "RD_of t = (if m_support_intra_iface_offload front then insert n (RD_of s) else RD_of s)"
    using new by (auto simp: RD_of_def t)
  have ft: "p \<in> full t i \<longleftrightarrow> p \<in> full s i" if "i \<noteq> n" "p \<noteq> n" for i p using that by (simp add: full_def t)
  show "E_of (full t) t = E_of (full s) s \<union> {(n, p, m, ip) | p m ip. m_is_ip_addr_assigned front ip \<and> p \<in> full t n \<and> (\<exists>y. find_if t p = Some y \<and> m \<in> macs y)}"
  proof (rule set_eqI)
    fix z :: flt_slot
    obtain i p m ip where z: "z = (i, p, m, ip)" by (cases z)
    have 1: "flt_peer (RD_of t) (full t) i p \<longleftrightarrow> flt_peer (RD_of s) (full s) i p" if "i \<noteq> n" "p \<noteq> n" using that ft rd by (auto simp: flt_peer_def)
    have 2: "flt_peer (RD_of t) (full t) n p \<longleftrightarrow> p \<in> full t n" if "p \<noteq> n" using that by (simp add: flt_peer_def)
    show "z \<in> E_of (full t) t \<longleftrightarrow> z \<in> E_of (full s) s \<union> {(n, p, m, ip) | p m ip. m_is_ip_addr_assigned front ip \<and> p \<in> full t n \<and> (\<exists>y. find_if t p = Some y \<and> m \<in> macs y)}"
      using new c 1 2 by (cases "i = n"; cases "p = n") (auto simp: z E_of_def t full_def)
  qed
qed

section \<open>The loop over the other interfaces\<close>

definition inter_ptrs :: "l2l_iface list \<Rightarrow> nat set" where
  "inter_ptrs ys = l2l_ptr ` {y \<in> set ys. m_support_inter_iface_offload y}"

lemma inter_ptrs_snoc: "inter_ptrs (ys @ [y]) = (if m_support_inter_iface_offload y then insert (l2l_ptr y) (inter_ptrs ys) else inter_ptrs ys)"
  by (auto simp: inter_ptrs_def)

lemma with_new_empty: "PL n = {} \<Longrightarrow> with_new n {} PL = PL"
  by (auto simp: with_new_def fun_eq_iff)

lemma st_link_all:
  fixes t :: "'w lan2lan"
  assumes k: "bridge_kernel_ok (dev env) V" and st: "bridge_st env V RD F F (VR_of F t) (VC_of F t - {(n, None)}) E t"
    and x: "find_if t n = Some x" "macs x = {}" and F: "F n = {}"
    and ys: "distinct (map l2l_ptr ys)" "n \<notin> l2l_ptr ` set ys" "\<And>y. y \<in> set ys \<Longrightarrow> find_if t (l2l_ptr y) = Some y"
  defines "W \<equiv> with_new n (inter_ptrs ys) F"
  shows "\<exists>u. each (\<lambda>y s. if m_support_inter_iface_offload y
        then do { s \<leftarrow> handle_new_iface_up env n (l2l_ptr y) s; add_client_rt_rule_for_new_iface env (l2l_ptr y) s } else Some s) ys t = Some u \<and>
    same_core t u \<and> bridge_st env V RD W W (VR_of W t) (VC_of W t - {(n, None)}) E u"
proof -
  let ?body = "\<lambda>y s. if m_support_inter_iface_offload y
    then do { s \<leftarrow> handle_new_iface_up env n (l2l_ptr y) s; add_client_rt_rule_for_new_iface env (l2l_ptr y) s } else Some s"
  let ?W = "\<lambda>pre. with_new n (inter_ptrs pre) F"
  define J where "J = (\<lambda>pre u. same_core t u \<and> bridge_st env V RD (?W pre) (?W pre) (VR_of (?W pre) t) (VC_of (?W pre) t - {(n, None)}) E u)"
  have "\<exists>u. each ?body ys t = Some u \<and> J ys u"
  proof (rule each_inv)
    show "J [] t" using st with_new_empty [of F, OF F] by (simp add: J_def inter_ptrs_def)
  next
    fix pre y rest u assume yy: "ys = pre @ y # rest" and J: "J pre u"
    have sc: "same_core t u" and b: "bridge_st env V RD (?W pre) (?W pre) (VR_of (?W pre) t) (VC_of (?W pre) t - {(n, None)}) E u"
      using J by (simp_all add: J_def)
    show "\<exists>v. ?body y u = Some v \<and> J (pre @ [y]) v"
    proof (cases "m_support_inter_iface_offload y")
      case True
      let ?e = "l2l_ptr y"
      have y: "find_if t ?e = Some y" using ys(3) yy by simp
      have ne: "n \<noteq> ?e" using ys(2) yy by auto
      have eP: "?e \<notin> inter_ptrs pre" using ys(1) yy by (auto simp: inter_ptrs_def)
      have ty: "hdr_type u = hdr_type t" by (rule same_core_eqs(2) [OF sc])
      obtain x' where x': "find_if u n = Some x'" by (rule same_core_Some [OF sc x(1)])
      obtain y' where y': "find_if u ?e = Some y'" "core y' = core y" by (rule same_core_Some [OF sc y])
      have my: "macs y' = macs y" by (rule coreD(6) [OF y'(2)])
      have "\<exists>s'. do { s \<leftarrow> handle_new_iface_up env n ?e u; add_client_rt_rule_for_new_iface env ?e s } = Some s' \<and> same_core u s' \<and>
          bridge_st env V RD (link n ?e (?W pre)) (link n ?e (?W pre)) (VR_of (?W pre) t \<union> {(?e, m, Some (hdr_type u n)) | m. m \<in> macs y'})
            ((VC_of (?W pre) t - {(n, None)}) \<union> {(?e, Some (hdr_type u n)), (n, Some (hdr_type u ?e))}) E s'"
        by (rule st_new_peer [OF k b x' y'(1) ne])
          (use eP x y ty my in \<open>auto simp: with_new_def VC_of_def VR_of_def in_use_def\<close>)
      then obtain v where v: "do { s \<leftarrow> handle_new_iface_up env n ?e u; add_client_rt_rule_for_new_iface env ?e s } = Some v" "same_core u v"
          "bridge_st env V RD (link n ?e (?W pre)) (link n ?e (?W pre)) (VR_of (?W pre) t \<union> {(?e, m, Some (hdr_type t n)) | m. m \<in> macs y})
            ((VC_of (?W pre) t - {(n, None)}) \<union> {(?e, Some (hdr_type t n)), (n, Some (hdr_type t ?e))}) E v"
        unfolding ty my by blast
      have W: "?W (pre @ [y]) = with_new n (insert ?e (inter_ptrs pre)) F" using True by (simp add: inter_ptrs_snoc)
      have "(VC_of (?W pre) t - {(n, None)}) \<union> {(?e, Some (hdr_type t n)), (n, Some (hdr_type t ?e))} = VC_of (?W (pre @ [y])) t - {(n, None)}"
        unfolding W VC_of_with_new [OF x(1) y eP ne [symmetric]] by auto
      then have "J (pre @ [y]) v"
        using v(3) same_core_trans [OF sc v(2)]
        unfolding J_def W link_with_new [OF eP ne] VR_of_with_new [OF x y eP ne [symmetric]] by simp
      then show ?thesis using v(1) True by simp
    next
      case False
      then show ?thesis using J by (simp add: J_def inter_ptrs_snoc)
    qed
  qed
  then show ?thesis by (simp add: J_def W_def)
qed

section \<open>Clients of the interface itself\<close>

lemma upd_node_twice:
  assumes "\<And>x. key x = k \<Longrightarrow> key (f x) = k"
  shows "upd_node key k g (upd_node key k f xs) = upd_node key k (\<lambda>x. g (f x)) xs"
  using assms by (induction xs) auto

lemma upd_if_twice:
  assumes "\<And>x. l2l_ptr (f x) = l2l_ptr x"
  shows "upd_if i g (upd_if i f s) = upd_if i (\<lambda>x. g (f x)) s"
  using assms by (simp add: upd_if_def upd_node_twice)

text \<open>The names that \<open>handle_intra_interface_info\<close> enters.\<close>

definition own_peer :: "'w bridge_env \<Rightarrow> nat \<Rightarrow> l2l_iface \<Rightarrow> l2l_iface" where
  "own_peer env i x = x\<lparr>m_intra_interface_info := (m_intra_interface_info x)\<lparr>peer := i, rt_tbl_name_for_flt := intra_tbl_name env, rt_tbl_name_for_rt := intra_tbl_name env\<rparr>\<rparr>"

lemma own_peer_simps [simp]:
  "l2l_ptr (own_peer env i x) = l2l_ptr x" "m_p_iface (own_peer env i x) = m_p_iface x" "m_client_info (own_peer env i x) = m_client_info x"
  "hdr_proc_ctx_for_inter_interface (own_peer env i x) = hdr_proc_ctx_for_inter_interface x" "m_peer_iface_info (own_peer env i x) = m_peer_iface_info x"
  "hdr_proc_ctx_for_intra_interface (own_peer env i x) = hdr_proc_ctx_for_intra_interface x" "core (own_peer env i x) = core x"
  by (simp_all add: own_peer_def l2l_ptr_def core_def bare_def)

lemma shape_own_peer:
  assumes s: "shape env RD PL LK s"
  shows "shape env (insert i RD) PL LK (upd_if i (own_peer env i) s)"
proof -
  let ?t = "upd_if i (own_peer env i) s"
  have find: "find_if ?t j = (if j = i then map_option (own_peer env i) (find_if s i) else find_if s j)" for j by (simp add: find_if_upd)
  have ty: "hdr_type ?t = hdr_type s" by (rule same_core_eqs(2) [OF same_core_upd]) simp
  have "iface_shape env (insert i RD) PL LK ?t j y'" if y': "find_if ?t j = Some y'" for j y'
  proof -
    obtain y where y: "find_if s j = Some y" "y' = (if j = i then own_peer env i y else y)" using y' by (auto simp: find split: if_splits)
    then have "iface_shape env RD PL LK s j y" using s by (simp add: shape_def)
    then show ?thesis unfolding iface_shape_def ty y(2) by (cases "j = i") (simp_all add: own_peer_def)
  qed
  moreover have "find_if ?t p = None \<longleftrightarrow> find_if s p = None" for p by (simp add: find)
  moreover have "map l2l_ptr (m_iface ?t) = map l2l_ptr (m_iface s)" by (rule keys_upd_if) simp
  ultimately show ?thesis using s by (simp add: shape_def)
qed

lemma st_own_peer:
  assumes st: "bridge_st env V RD PL LK VR VC E s"
  shows "bridge_st env V (insert i RD) PL LK VR VC E (upd_if i (own_peer env i) s)"
proof -
  let ?t = "upd_if i (own_peer env i) s"
  have find: "find_if ?t j = (if j = i then map_option (own_peer env i) (find_if s i) else find_if s j)" for j by (simp add: find_if_upd)
  have pr: "map_option flt_rule (peer_rec ?t j p) = map_option flt_rule (peer_rec s j p)" for j p
    by (auto simp: peer_rec_def find peer_at_def own_peer_def l2l_ptr_def split: option.split)
  have fr: "flt_rec ?t = flt_rec s"
  proof (rule ext)
    fix z :: flt_slot
    obtain j p m ip where z: "z = (j, p, m, ip)" by (cases z)
    show "flt_rec ?t z = flt_rec s z" using pr [of j p]
      by (cases "peer_rec ?t j p"; cases "peer_rec s j p") (simp_all add: z flt_rec_peer_rec entry_hdl_def)
  qed
  have "tidy s" using st by (simp add: bridge_st_def flt_booked_def)
  then have td: "tidy ?t" using pr unfolding tidy_peer_rec by (metis (no_types, lifting) map_option_eq_Some)
  show ?thesis
    by (rule st_replace [OF st _ _ _ fr _ td])
      (use st in \<open>simp_all add: lans_upd client_rec_upd ctx_of_upd shape_own_peer bridge_st_def\<close>)
qed

lemma st_intra:
  assumes k: "bridge_kernel_ok (dev env) V" and st: "bridge_st env V RD PL PL VR VC E s" and x: "find_if s i = Some x"
    and new: "(i, None) \<notin> VC" "\<And>m. (i, m, None) \<notin> VR"
  shows "\<exists>t. handle_intra_interface_info env i s = Some t \<and> same_core s t \<and> bridge_st env V (insert i RD) PL PL VR (insert (i, None) VC) E t"
proof -
  have s: "shape env RD PL PL s" and b: "flt_booked env V s" "rt_booked env V VR s" "ctx_booked V VC s" and E: "dom (flt_rec s) = E"
    using st by (simp_all add: bridge_st_def)
  have tx: "tx_prop (m_p_iface x) \<noteq> None" by (rule shapeD(3) [OF s x])
  obtain h w where a: "eth_bridge_add_hdr_proc_ctx env (m_p_iface x) (slot_type (lans s) i None) (l2l_world s) = (Some h, w)"
    and ok: "\<And>s'. s' = upd_if i (set_ctx None h) (s\<lparr>l2l_world := w\<rparr>) \<Longrightarrow>
       same_shape s s' \<and> flt_rec s' = flt_rec s \<and> flt_booked env V s' \<and> rt_booked env V VR s' \<and> ctx_booked V (insert (i, None) VC) s'"
    using add_ctx_ok [OF k x tx b new] by metis
  define s1 where "s1 = upd_if i (set_ctx None h) (s\<lparr>l2l_world := w\<rparr>)"
  have "bridge_st env V RD PL PL VR (insert (i, None) VC) E s1" using ok [OF s1_def] shape_cong [OF _ s] E by (simp add: bridge_st_def)
  note st1 = st_own_peer [OF this, of i]
  have "same_core s (upd_if i (own_peer env i) s1)"
  proof (rule same_core_trans)
    show "same_core s s1" using ok [OF s1_def] same_shape_core by blast
    show "same_core s1 (upd_if i (own_peer env i) s1)" by (rule same_core_upd) simp
  qed
  moreover have "handle_intra_interface_info env i s = Some (upd_if i (own_peer env i) s1)"
  proof -
    have ty: "slot_type (lans s) i None = l2_type (m_p_iface x)" using x by (simp add: slot_type_def lans_def)
    have fn: "(\<lambda>x. own_peer env i (set_ctx None h x)) = (\<lambda>x. x\<lparr>m_intra_interface_info :=
        (m_intra_interface_info x)\<lparr>peer := i, rt_tbl_name_for_flt := intra_tbl_name env, rt_tbl_name_for_rt := intra_tbl_name env\<rparr>,
        hdr_proc_ctx_for_intra_interface := h\<rparr>)"
      by (auto simp: own_peer_def set_ctx_def fun_eq_iff)
    show ?thesis using x a tx unfolding handle_intra_interface_info_def s1_def ty by (auto simp: upd_if_twice fn)
  qed
  ultimately show ?thesis using st1 by blast
qed

section \<open>The invariant of the new state\<close>

lemma inv_cached [simp]: "bridge_inv env V (s\<lparr>m_cached_client_add_event := es\<rparr>) = bridge_inv env V s"
proof -
  let ?t = "s\<lparr>m_cached_client_add_event := es\<rparr>"
  have f: "find_if ?t = find_if s" by (simp add: fun_eq_iff)
  have h: "hdr_type ?t = hdr_type s" "lans ?t = lans s" by (simp_all add: hdr_type_def lans_def fun_eq_iff)
  have o: "full ?t = full s" "RD_of ?t = RD_of s" by (auto simp: full_def RD_of_def)
  have u: "in_use LK ?t = in_use LK s" for LK by (auto simp: in_use_def h fun_eq_iff split: option.split)
  have v: "VR_of LK ?t = VR_of LK s" "VC_of LK ?t = VC_of LK s" "E_of LK ?t = E_of LK s" for LK
    by (simp_all add: VR_of_def VC_of_def E_of_def u o)
  have r: "client_rec ?t = client_rec s" "ctx_of ?t = ctx_of s" "flt_rec ?t = flt_rec s" "tidy ?t = tidy s"
    by (simp_all add: client_rec_def ctx_of_def flt_rec_def tidy_def fun_eq_iff)
  have w: "rt_rec VR ?t = rt_rec VR s" "ctx_rec VC ?t = ctx_rec VC s" for VR VC
    by (simp_all add: rt_rec_def ctx_rec_def fun_eq_iff r)
  show ?thesis
    by (simp add: bridge_inv_def bridge_st_def shape_def iface_shape_def flt_booked_def rt_booked_in_def rt_valid_def
        ctx_booked_def h o v r w f)
qed

lemma inv_core:
  assumes "bridge_st env V (RD_of s) (full s) (full s) (VR_of (full s) s) (VC_of (full s) s) (E_of (full s) s) t" and "same_core s t"
  shows "bridge_inv env V t"
  using assms(1) by (simp add: bridge_inv_def same_core_eqs [OF assms(2)])

section \<open>The handler\<close>

lemma find_member: "distinct (map l2l_ptr (m_iface s)) \<Longrightarrow> y \<in> set (m_iface s) \<Longrightarrow> find_if s (l2l_ptr y) = Some y"
  by (simp add: find_if_def look_member)

lemma inter_ptrs_find:
  assumes "distinct (map l2l_ptr (m_iface s))"
  shows "inter_ptrs (m_iface s) = {p. \<exists>y. find_if s p = Some y \<and> m_support_inter_iface_offload y}"
  using assms by (auto simp: inter_ptrs_def find_if_def look_Some_iff)

lemma new_l2l_iface_simps [simp]:
  "m_p_iface (new_l2l_iface env l w) = l" "m_client_info (new_l2l_iface env l w) = []" "m_peer_iface_info (new_l2l_iface env l w) = []"
  "flt_rule (m_intra_interface_info (new_l2l_iface env l w)) = []" "ref_cnt_peer_l2_hdr_type (new_l2l_iface env l w) = (\<lambda>_. 0)"
  "hdr_proc_ctx_for_inter_interface (new_l2l_iface env l w) = (\<lambda>_. 0)" "hdr_proc_ctx_for_intra_interface (new_l2l_iface env l w) = 0"
  "m_is_ip_addr_assigned (new_l2l_iface env l w) = (\<lambda>_. False)"
  by (simp_all add: new_l2l_iface_def)

text \<open>The part of \<open>handle_iface_up\<close> that links the new interface with the others.\<close>

lemma insert_inter:
  fixes s :: "'w lan2lan" and ip :: ipa_ip_type
  assumes k: "bridge_kernel_ok (dev env) V" and inv: "bridge_inv env V s" and new: "find_if s (lan_ptr l) = None"
    and l: "lan_ok (dev env) l" "rx_prop l \<noteq> None"
  defines "n \<equiv> lan_ptr l" and "front \<equiv> set_assigned ip (new_l2l_iface env l (l2l_world s))"
  defines "t \<equiv> s\<lparr>m_iface := front # m_iface s\<rparr>"
  shows "\<exists>u. (if m_support_inter_iface_offload front then do {
        s \<leftarrow> each (\<lambda>y s. if m_support_inter_iface_offload y
          then do { s \<leftarrow> handle_new_iface_up env n (l2l_ptr y) s; add_client_rt_rule_for_new_iface env (l2l_ptr y) s } else Some s) (m_iface s) t;
        add_all_inter_interface_client_flt_rule env n ip s } else Some t) = Some u \<and>
    same_core t u \<and> bridge_st env V (RD_of s) (full t) (full t) (VR_of (full t) t) (VC_of (full t) t - {(n, None)}) (E_of (full t) t) u"
proof -
  have sh: "shape env (RD_of s) (full s) (full s) s" using inv by (simp add: bridge_inv_def bridge_st_def)
  have fl: "m_p_iface front = l" "macs front = {}" by (simp_all add: front_def macs_def)
  have find: "find_if t j = (if j = n then Some front else find_if s j)" for j using find_front [OF fl(1), of s j] by (simp add: t_def n_def)
  have new': "find_if s n = None" using new by (simp add: n_def)
  note fs = front_sets [OF new' find fl(2)]
  have st: "bridge_st env V (RD_of s) (full s) (full s) (VR_of (full s) s) (VC_of (full s) s) (E_of (full s) s) s"
    using inv by (simp add: bridge_inv_def)
  have st1: "bridge_st env V (RD_of s) (full s) (full s) (VR_of (full s) t) (VC_of (full s) t - {(n, None)}) (E_of (full s) s) t"
    unfolding fs(2,3) unfolding t_def
    by (rule st_insert [OF st new _ _ _ _ _ _ _ l])
      (use new fs(1) in \<open>simp_all add: front_def RD_of_def E_of_def VR_of_def VC_of_def n_def\<close>)
  have E: "E_of (full t) t = E_of (full s) s \<union> rules_on t n ip (full t n)"
    unfolding fs(6) by (auto simp: rules_on_def front_def)
  show ?thesis
  proof (cases "m_support_inter_iface_offload front")
    case True
    have dist: "distinct (map l2l_ptr (m_iface s))" using sh by (simp add: shape_def)
    have nin: "n \<notin> l2l_ptr ` set (m_iface s)" using new' by (simp add: find_if_def look_None)
    have mem: "find_if t (l2l_ptr y) = Some y" if "y \<in> set (m_iface s)" for y
      using find_member [OF dist that] nin that by (auto simp: find)
    have W: "with_new n (inter_ptrs (m_iface s)) (full s) = full t" using fs(4) True inter_ptrs_find [OF dist] by simp
    have x: "find_if t n = Some front" by (simp add: find)
    obtain u where u: "each (\<lambda>y s. if m_support_inter_iface_offload y
          then do { s \<leftarrow> handle_new_iface_up env n (l2l_ptr y) s; add_client_rt_rule_for_new_iface env (l2l_ptr y) s } else Some s) (m_iface s) t = Some u"
        "same_core t u" "bridge_st env V (RD_of s) (full t) (full t) (VR_of (full t) t) (VC_of (full t) t - {(n, None)}) (E_of (full s) s) u"
      using st_link_all [OF k st1 x fl(2) fs(1) dist nin mem] unfolding W by blast
    obtain x' where x': "find_if u n = Some x'" by (rule same_core_Some [OF u(2) x])
    have v: "(p, m, Some (hdr_type u n)) \<in> VR_of (full t) t" if p: "p \<in> full t n" and y: "find_if u p = Some y" "m \<in> macs y" for p y m
    proof -
      obtain y1 where y1: "find_if t p = Some y1" "core y1 = core y" by (rule same_core_Some [OF same_core_sym [OF u(2)] y(1)])
      have "n \<in> full t p" using p full_sym by blast
      then show ?thesis using y1(1) y(2) coreD(6) [OF y1(2)] same_core_eqs(2) [OF u(2)] by (auto simp: VR_of_def in_use_def)
    qed
    have ne: "p \<notin> full t n" if "(n, p, m, ip) \<in> E_of (full s) s" for p m using that new' by (simp add: E_of_def)
    have "\<exists>w. add_all_inter_interface_client_flt_rule env n ip u = Some w \<and> same_shape u w \<and>
        bridge_st env V (RD_of s) (full t) (full t) (VR_of (full t) t) (VC_of (full t) t - {(n, None)}) (E_of (full s) s \<union> rules_on u n ip (full t n)) w"
      by (rule st_all_inter [OF k u(3) x']) (rule v, assumption+, rule ne)
    then obtain w where w: "add_all_inter_interface_client_flt_rule env n ip u = Some w" "same_shape u w"
        "bridge_st env V (RD_of s) (full t) (full t) (VR_of (full t) t) (VC_of (full t) t - {(n, None)}) (E_of (full s) s \<union> rules_on u n ip (full t n)) w"
      by blast
    have "E_of (full s) s \<union> rules_on u n ip (full t n) = E_of (full t) t" using E same_core_eqs(8) [OF u(2)] by simp
    then show ?thesis using True u(1) w same_core_trans [OF u(2) same_shape_core [OF w(2)]] by simp
  next
    case False
    then have "full t = full s" using fs(4) by simp
    moreover have "E_of (full t) t = E_of (full s) s" using E fs(1) \<open>full t = full s\<close> by (simp add: rules_on_def)
    ultimately show ?thesis using False st1 by simp
  qed
qed

text \<open>All of \<open>handle_iface_up\<close> for a new interface, up to the clients that were added before it.\<close>

lemma iface_insert_ok:
  fixes s :: "'w lan2lan"
  assumes k: "bridge_kernel_ok (dev env) V" and inv: "bridge_inv env V s" and new: "find_if s (lan_ptr l) = None"
    and l: "lan_ok (dev env) l" "rx_prop l \<noteq> None"
  shows "\<exists>t. insert_iface env l ip s = cached_loop env (lan_ptr l) [] (m_cached_client_add_event s) t \<and> bridge_inv env V t \<and>
    same_core (s\<lparr>m_iface := set_assigned ip (new_l2l_iface env l (l2l_world s)) # m_iface s\<rparr>) t"
proof -
  define n where "n = lan_ptr l"
  define front where "front = set_assigned ip (new_l2l_iface env l (l2l_world s))"
  define t where "t = s\<lparr>m_iface := front # m_iface s\<rparr>"
  have fl: "m_p_iface front = l" "macs front = {}" "l2l_ptr front = n" by (simp_all add: front_def macs_def l2l_ptr_def n_def)
  have find: "find_if t j = (if j = n then Some front else find_if s j)" for j using find_front [OF fl(1), of s j] by (simp add: t_def n_def)
  have new': "find_if s n = None" using new by (simp add: n_def)
  have RD: "RD_of t = (if m_support_intra_iface_offload front then insert n (RD_of s) else RD_of s)"
    by (rule front_sets(5) [OF new' find fl(2)])
  obtain u where u: "(if m_support_inter_iface_offload front then do {
        s \<leftarrow> each (\<lambda>y s. if m_support_inter_iface_offload y
          then do { s \<leftarrow> handle_new_iface_up env n (l2l_ptr y) s; add_client_rt_rule_for_new_iface env (l2l_ptr y) s } else Some s) (m_iface s) t;
        add_all_inter_interface_client_flt_rule env n ip s } else Some t) = Some u" "same_core t u"
      "bridge_st env V (RD_of s) (full t) (full t) (VR_of (full t) t) (VC_of (full t) t - {(n, None)}) (E_of (full t) t) u"
    using insert_inter [OF k inv new l, of ip] unfolding n_def front_def t_def by blast
  have "\<exists>v. (if m_support_intra_iface_offload front then handle_intra_interface_info env n u else Some u) = Some v \<and> same_core u v \<and>
      bridge_st env V (RD_of t) (full t) (full t) (VR_of (full t) t) (VC_of (full t) t) (E_of (full t) t) v"
  proof (cases "m_support_intra_iface_offload front")
    case True
    have x: "find_if t n = Some front" by (simp add: find)
    obtain x' where x': "find_if u n = Some x'" by (rule same_core_Some [OF u(2) x])
    have vr: "(n, m, None) \<notin> VR_of (full t) t" for m using fl(2) by (simp add: VR_of_def find)
    have vc: "insert (n, None) (VC_of (full t) t - {(n, None)}) = VC_of (full t) t" using True by (auto simp: VC_of_def in_use_def find)
    obtain v where "handle_intra_interface_info env n u = Some v" "same_core u v"
        "bridge_st env V (insert n (RD_of s)) (full t) (full t) (VR_of (full t) t) (insert (n, None) (VC_of (full t) t - {(n, None)})) (E_of (full t) t) v"
      using st_intra [OF k u(3) x' _ vr] by blast
    then show ?thesis using True RD unfolding vc by simp
  next
    case False
    have "(n, None) \<notin> VC_of (full t) t" using False by (auto simp: VC_of_def in_use_def find)
    then show ?thesis using u(3) False RD by simp
  qed
  then obtain v where v: "(if m_support_intra_iface_offload front then handle_intra_interface_info env n u else Some u) = Some v" "same_core u v"
      "bridge_st env V (RD_of t) (full t) (full t) (VR_of (full t) t) (VC_of (full t) t) (E_of (full t) t) v" by blast
  have tv: "same_core t v" by (rule same_core_trans [OF u(2) v(2)])
  have inv': "bridge_inv env V v" by (rule inv_core [OF v(3) tv])
  have "insert_iface env l ip s = do {
      s \<leftarrow> (if m_support_inter_iface_offload front then do {
        s \<leftarrow> each (\<lambda>y s. if m_support_inter_iface_offload y
          then do { s \<leftarrow> handle_new_iface_up env n (l2l_ptr y) s; add_client_rt_rule_for_new_iface env (l2l_ptr y) s } else Some s) (m_iface s) t;
        add_all_inter_interface_client_flt_rule env n ip s } else Some t);
      s \<leftarrow> (if m_support_intra_iface_offload front then handle_intra_interface_info env n s else Some s);
      cached_loop env n [] (m_cached_client_add_event s) s }"
    by (simp only: insert_iface_def Let_def handle_cached_client_add_event_def front_def n_def t_def)
  also have "\<dots> = cached_loop env n [] (m_cached_client_add_event v) v" unfolding u(1) using v(1) by simp
  also have "m_cached_client_add_event v = m_cached_client_add_event s" using tv by (simp add: same_core_def t_def)
  finally show ?thesis using inv' tv unfolding n_def t_def front_def by blast
qed

end
