(* ===== verification/LanToLan_Down.thy ===== *)
theory LanToLan_Down
  imports LanToLan_Up
begin

text \<open>
  An interface goes down: it is unlinked from one peer after the other, rules and processing contexts that no peer needs any more
  are deleted, and what was recorded for it is dropped.
\<close>

section \<open>The steps for one peer\<close>

definition unlink :: "nat \<Rightarrow> nat \<Rightarrow> (nat \<Rightarrow> nat set) \<Rightarrow> nat \<Rightarrow> nat set" where
  "unlink n p LK = LK(n := LK n - {p}, p := LK p - {n})"

lemma decr_simps [simp]:
  "l2l_ptr (decrement_ref_cnt_peer_l2_hdr_type t x) = l2l_ptr x" "m_p_iface (decrement_ref_cnt_peer_l2_hdr_type t x) = m_p_iface x"
  "core (decrement_ref_cnt_peer_l2_hdr_type t x) = core x" "m_client_info (decrement_ref_cnt_peer_l2_hdr_type t x) = m_client_info x"
  "m_peer_iface_info (decrement_ref_cnt_peer_l2_hdr_type t x) = m_peer_iface_info x"
  "m_intra_interface_info (decrement_ref_cnt_peer_l2_hdr_type t x) = m_intra_interface_info x"
  "hdr_proc_ctx_for_inter_interface (decrement_ref_cnt_peer_l2_hdr_type t x) = hdr_proc_ctx_for_inter_interface x"
  "hdr_proc_ctx_for_intra_interface (decrement_ref_cnt_peer_l2_hdr_type t x) = hdr_proc_ctx_for_intra_interface x"
  by (simp_all add: decrement_ref_cnt_peer_l2_hdr_type_def l2l_ptr_def core_def bare_def)

lemma iface_shape_unlink:
  assumes i: "iface_shape env RD PL LK s i x" and p: "p \<in> LK i" and fin: "finite (LK i)" and lk: "LK' i = LK i - {p}" and ty: "hdr_type s' = hdr_type s"
  shows "iface_shape env RD PL LK' s' i (decrement_ref_cnt_peer_l2_hdr_type (hdr_type s p) x)"
proof -
  have "int (card {q \<in> LK i - {p}. hdr_type s q = t}) = int (card {q \<in> LK i. hdr_type s q = t}) - (if hdr_type s p = t then 1 else 0)" for t
  proof -
    let ?A = "{q \<in> LK i. hdr_type s q = t}"
    show ?thesis
    proof (cases "hdr_type s p = t")
      case True
      have "Suc (card (?A - {p})) = card ?A" by (rule card_Suc_Diff1) (use True p fin in simp_all)
      moreover have "{q \<in> LK i - {p}. hdr_type s q = t} = ?A - {p}" by auto
      ultimately show ?thesis using True by simp
    next
      case False
      then have "{q \<in> LK i - {p}. hdr_type s q = t} = ?A" by auto
      then show ?thesis using False by simp
    qed
  qed
  then show ?thesis using i lk unfolding iface_shape_def ty by (simp add: decrement_ref_cnt_peer_l2_hdr_type_def)
qed

lemma iface_shape_same:
  assumes "iface_shape env RD PL LK s i x" and "PL' i = PL i" and "LK' i = LK i" and "hdr_type s' = hdr_type s"
  shows "iface_shape env RD PL' LK' s' i x"
  using assms by (simp add: iface_shape_def)

lemma finite_links:
  assumes "shape env RD PL LK s" and "find_if s i = Some x"
  shows "finite (LK i)"
proof -
  have "finite (PL i)" using shapeD(6) [OF assms] by (metis finite_imageI finite_set)
  then show ?thesis using shape_peers(2) [OF assms(1), of i] by (rule rev_finite_subset)
qed

text \<open>The counters of both sides.\<close>

lemma st_unlink:
  assumes st: "bridge_st env V RD PL LK VR VC E s" and x: "find_if s n = Some x" and y: "find_if s p = Some y" and p: "p \<in> LK n"
  defines "t \<equiv> upd_if p (decrement_ref_cnt_peer_l2_hdr_type (hdr_type s n)) (upd_if n (decrement_ref_cnt_peer_l2_hdr_type (hdr_type s p)) s)"
  shows "same_core s t \<and> bridge_st env V RD PL (unlink n p LK) VR VC E t"
proof -
  let ?d = decrement_ref_cnt_peer_l2_hdr_type
  define u where "u = upd_if n (?d (hdr_type s p)) s"
  have t: "t = upd_if p (?d (hdr_type s n)) u" by (simp add: t_def u_def)
  have s: "shape env RD PL LK s" using st by (simp add: bridge_st_def)
  have sym: "n \<in> LK p" by (rule shape_peers(3) [OF s p])
  have ne: "n \<noteq> p" using shape_peers(1,2) [OF s, of n] p by auto
  have find: "find_if t j = (if j = p then map_option (?d (hdr_type s n)) (find_if s p) else if j = n then map_option (?d (hdr_type s p)) (find_if s n) else find_if s j)" for j
    using ne by (simp add: t u_def find_if_upd)
  have sc: "same_core s t" unfolding t u_def by (rule same_core_trans; rule same_core_upd) simp_all
  have ty: "hdr_type t = hdr_type s" by (rule same_core_eqs(2) [OF sc])
  have pr: "peer_rec t = peer_rec s"
  proof -
    have "peer_rec t = peer_rec u" unfolding t by (rule peer_rec_upd_keep) simp_all
    also have "\<dots> = peer_rec s" unfolding u_def by (rule peer_rec_upd_keep) simp_all
    finally show ?thesis .
  qed
  have "shape env RD PL (unlink n p LK) t"
  proof -
    have "iface_shape env RD PL (unlink n p LK) t j z" if z: "find_if t j = Some z" for j z
    proof -
      have i: "iface_shape env RD PL LK s j z'" if "find_if s j = Some z'" for j z' using s that by (simp add: shape_def)
      consider "j = n" "z = ?d (hdr_type s p) x" | "j = p" "z = ?d (hdr_type s n) y" | "j \<noteq> n" "j \<noteq> p" "find_if s j = Some z"
        using z x y ne by (auto simp: find split: if_splits)
      then show ?thesis
      proof cases
        case 1
        then show ?thesis using iface_shape_unlink [OF i [OF x] p finite_links [OF s x], where LK' = "unlink n p LK", OF _ ty] ne by (simp add: unlink_def)
      next
        case 2
        then show ?thesis using iface_shape_unlink [OF i [OF y] sym finite_links [OF s y], where LK' = "unlink n p LK", OF _ ty] by (simp add: unlink_def)
      next
        case 3
        then show ?thesis using iface_shape_same [OF i, where PL' = PL and LK' = "unlink n p LK", OF 3(3) _ _ ty] by (simp add: unlink_def)
      qed
    qed
    moreover have "find_if t q = None \<longleftrightarrow> find_if s q = None" for q by (simp add: find)
    moreover have "unlink n p LK i \<subseteq> PL i" "\<forall>q\<in>unlink n p LK i. i \<in> unlink n p LK q" for i
      using s ne by (auto simp: shape_def unlink_def)
    ultimately show ?thesis using s same_core_eqs(9) [OF sc] by (simp add: shape_def)
  qed
  moreover have "tidy s" using st by (simp add: bridge_st_def flt_booked_def)
  moreover have "client_rec t = client_rec s" "ctx_of t = ctx_of s"
    by (simp_all add: t u_def client_rec_upd ctx_of_upd)
  ultimately show ?thesis
    using sc st_replace [OF st same_core_eqs(1) [OF sc] _ _ flt_rec_cong [OF pr] _ tidy_cong [OF pr]] by (simp add: t u_def)
qed

text \<open>Routing rules and processing contexts, when the last peer with the header type is gone.\<close>

lemma ref_zero:
  assumes "shape env RD PL LK s" and "find_if s i = Some x"
  shows "ref_cnt_peer_l2_hdr_type x t = 0 \<longleftrightarrow> t \<notin> hdr_type s ` LK i"
  using shapeD(8) [OF assms, of t] finite_links [OF assms] by auto

lemma st_clear_rt:
  assumes k: "bridge_kernel_ok (dev env) V" and st: "bridge_st env V RD PL LK VR VC E s" and x: "find_if s i = Some x" and p: "flt_peer RD PL i p"
    and v: "\<And>m. hdr_type s p \<notin> hdr_type s ` LK i \<Longrightarrow> m \<in> macs x \<Longrightarrow> (i, m, rt_place s p i) \<in> VR"
  shows "\<exists>t. clear_all_rt_rule_for_one_peer_iface env i p s = Some t \<and> same_shape s t \<and>
    bridge_st env V RD PL LK (VR - {(i, m, rt_place s p i) | m. m \<in> macs x \<and> hdr_type s p \<notin> hdr_type s ` LK i}) VC E t"
proof -
  have s: "shape env RD PL LK s" using st by (simp add: bridge_st_def)
  obtain q y where q: "peer_at x p = Some q" "peer q = p" "find_if s p = Some y" "hdr_type s p = l2_type (m_p_iface y)"
    using st_peer [OF s x p] by metis
  show ?thesis
  proof (cases "hdr_type s p \<in> hdr_type s ` LK i")
    case True
    then show ?thesis using x q st ref_zero [OF s x, of "hdr_type s p"] by (simp add: clear_all_rt_rule_for_one_peer_iface_def)
  next
    case False
    have "\<exists>t. each (\<lambda>c. del_client_rt_rule env i p (c_mac c)) (m_client_info x) s = Some t \<and> same_shape s t \<and>
        bridge_st env V RD PL LK (VR - {(i, m, rt_place s p i) | m. m \<in> macs x}) VC E t"
      by (rule st_all_rt_del [OF k st x p]) (rule v [OF False])
    then show ?thesis using x q False ref_zero [OF s x, of "hdr_type s p"] by (simp add: clear_all_rt_rule_for_one_peer_iface_def)
  qed
qed

lemma st_del_ctx:
  assumes k: "bridge_kernel_ok (dev env) V" and st: "bridge_st env V RD PL LK VR VC E s" and x: "find_if s i = Some x"
    and v: "h \<notin> hdr_type s ` LK i \<Longrightarrow> (i, Some h) \<in> VC"
  shows "\<exists>t. del_hdr_proc_ctx env i h s = Some t \<and> same_shape s t \<and>
    bridge_st env V RD PL LK VR (VC - {(i, Some h') | h'. h' = h \<and> h \<notin> hdr_type s ` LK i}) E t"
proof -
  have s: "shape env RD PL LK s" and b: "flt_booked env V s" "rt_booked env V VR s" "ctx_booked V VC s" and E: "dom (flt_rec s) = E"
    using st by (simp_all add: bridge_st_def)
  show ?thesis
  proof (cases "h \<in> hdr_type s ` LK i")
    case True
    then show ?thesis using x st ref_zero [OF s x, of h] by (simp add: del_hdr_proc_ctx_def)
  next
    case False
    define t where "t = s\<lparr>l2l_world := eth_bridge_del_hdr_proc_ctx env (ctx_of s (i, Some h)) (l2l_world s)\<rparr>"
    have d: "same_shape s t \<and> flt_rec t = flt_rec s \<and> flt_booked env V t \<and> rt_booked env V VR t \<and> ctx_booked V (VC - {(i, Some h)}) t"
      by (rule del_ctx_ok [OF k b v [OF False] t_def])
    have "del_hdr_proc_ctx env i h s = Some t" using x False ref_zero [OF s x, of h] by (simp add: del_hdr_proc_ctx_def t_def ctx_of_def)
    then show ?thesis using d False E shape_cong [OF _ s] by (auto simp: bridge_st_def)
  qed
qed

text \<open>The record of a peer without filter rules is erased.\<close>

definition drop_peer :: "nat \<Rightarrow> l2l_iface \<Rightarrow> l2l_iface" where
  "drop_peer n y = y\<lparr>m_peer_iface_info := del_node peer n (m_peer_iface_info y)\<rparr>"

lemma drop_peer_simps [simp]:
  "l2l_ptr (drop_peer n y) = l2l_ptr y" "m_p_iface (drop_peer n y) = m_p_iface y" "m_client_info (drop_peer n y) = m_client_info y"
  "hdr_proc_ctx_for_inter_interface (drop_peer n y) = hdr_proc_ctx_for_inter_interface y"
  "hdr_proc_ctx_for_intra_interface (drop_peer n y) = hdr_proc_ctx_for_intra_interface y" "core (drop_peer n y) = core y"
  by (simp_all add: drop_peer_def l2l_ptr_def core_def bare_def)

lemma iface_shape_drop:
  assumes i: "iface_shape env RD PL LK s i y" and pl: "PL' i = PL i - {n}" and ty: "hdr_type s' = hdr_type s"
  shows "iface_shape env RD PL' LK s' i (drop_peer n y)"
proof -
  have d: "distinct (map peer (m_peer_iface_info y))" using i by (simp add: iface_shape_def)
  have "peer ` {q \<in> set (m_peer_iface_info y). peer q \<noteq> n} = PL i - {n}" using i by (auto simp: iface_shape_def)
  then show ?thesis using i pl d unfolding iface_shape_def ty by (simp add: drop_peer_def keys_del set_del)
qed

lemma st_drop_peer:
  assumes st: "bridge_st env V RD PL LK VR VC E s" and y: "find_if s p = Some y" and n: "n \<notin> LK p" and E: "\<And>m ip. (p, n, m, ip) \<notin> E" and ne: "n \<noteq> p"
  defines "t \<equiv> upd_if p (drop_peer n) s"
  shows "same_core s t \<and> bridge_st env V RD (PL(p := PL p - {n})) LK VR VC E t"
proof -
  let ?PL = "PL(p := PL p - {n})"
  have s: "shape env RD PL LK s" and td: "tidy s" using st by (simp_all add: bridge_st_def flt_booked_def)
  have find: "find_if t j = (if j = p then map_option (drop_peer n) (find_if s p) else find_if s j)" for j by (simp add: t_def find_if_upd)
  have sc: "same_core s t" unfolding t_def by (rule same_core_upd) simp
  have ty: "hdr_type t = hdr_type s" by (rule same_core_eqs(2) [OF sc])
  have pr: "peer_rec t j q = (if j = p \<and> q = n then None else peer_rec s j q)" for j q
    using ne y find_if_ptr [OF y] shapeD(5) [OF s y]
    by (auto simp: peer_rec_def find peer_at_def drop_peer_def look_del l2l_ptr_def)
  have fr: "flt_rec t = flt_rec s"
  proof (rule ext)
    fix z :: flt_slot
    obtain j q m ip where z: "z = (j, q, m, ip)" by (cases z)
    have "flt_rec s (p, n, m, ip) = None" using E [of m ip] st by (auto simp: bridge_st_def)
    then show "flt_rec t z = flt_rec s z" by (auto simp: z flt_rec_peer_rec pr)
  qed
  have "shape env RD ?PL LK t"
  proof -
    have "iface_shape env RD ?PL LK t j z" if z: "find_if t j = Some z" for j z
    proof -
      have i: "iface_shape env RD PL LK s j z'" if "find_if s j = Some z'" for j z' using s that by (simp add: shape_def)
      show ?thesis
      proof (cases "j = p")
        case True
        then show ?thesis using z y iface_shape_drop [OF i [OF y], where PL' = ?PL and n = n, OF _ ty] by (simp add: find)
      next
        case False
        then show ?thesis using z iface_shape_same [OF i [of j z], where PL' = ?PL and LK' = LK, OF _ _ _ ty] by (simp add: find)
      qed
    qed
    moreover have "find_if t q = None \<longleftrightarrow> find_if s q = None" for q by (simp add: find)
    moreover have "i \<notin> ?PL i" "LK i \<subseteq> ?PL i" "\<forall>q\<in>?PL i. find_if s q \<noteq> None" for i using s n by (auto simp: shape_def)
    ultimately show ?thesis using s same_core_eqs(9) [OF sc] by (simp add: shape_def)
  qed
  moreover have "tidy t" using td by (simp add: tidy_peer_rec pr)
  moreover have "client_rec t = client_rec s" "ctx_of t = ctx_of s" "l2l_world t = l2l_world s"
    by (simp_all add: t_def client_rec_upd ctx_of_upd)
  ultimately show ?thesis
    using sc st_replace [OF st same_core_eqs(1) [OF sc] _ _ fr] by simp
qed

text \<open>One round of the loop.\<close>

definition rt_unused :: "'w lan2lan \<Rightarrow> (nat \<Rightarrow> nat set) \<Rightarrow> nat \<Rightarrow> l2l_iface \<Rightarrow> nat \<Rightarrow> (nat \<times> mac \<times> ipa_hdr_l2_type option) set" where
  "rt_unused s LK i x p = {(i, m, Some (hdr_type s p)) | m. m \<in> macs x \<and> hdr_type s p \<notin> hdr_type s ` LK i}"

definition ctx_unused :: "'w lan2lan \<Rightarrow> (nat \<Rightarrow> nat set) \<Rightarrow> nat \<Rightarrow> nat \<Rightarrow> ctx_slot set" where
  "ctx_unused s LK i p = {(i, Some h) | h. h = hdr_type s p \<and> hdr_type s p \<notin> hdr_type s ` LK i}"

definition rules_between :: "nat \<Rightarrow> nat \<Rightarrow> flt_slot set" where
  "rules_between n p = {(n, p, m, ip) | m ip. True} \<union> {(p, n, m, ip) | m ip. True}"

lemma core_macs: "same_core s t \<Longrightarrow> find_if s i = Some x \<Longrightarrow> find_if t i = Some y \<Longrightarrow> macs y = macs x"
  using same_core_find [of s t i] coreD(6) [of y x] by simp

lemma core_assigned: "same_core s t \<Longrightarrow> find_if s i = Some x \<Longrightarrow> find_if t i = Some y \<Longrightarrow> m_is_ip_addr_assigned y = m_is_ip_addr_assigned x"
  using same_core_find [of s t i] coreD(2) [of y x] by simp

lemma st_down_one:
  assumes k: "bridge_kernel_ok (dev env) V" and st: "bridge_st env V RD PL LK VR VC E s" and x: "find_if s n = Some x" and y: "find_if s p = Some y" and p: "p \<in> LK n"
    and vr: "\<And>i z h m. find_if s i = Some z \<Longrightarrow> h \<in> hdr_type s ` LK i \<Longrightarrow> m \<in> macs z \<Longrightarrow> (i, m, Some h) \<in> VR"
    and vc: "\<And>i h. h \<in> hdr_type s ` LK i \<Longrightarrow> (i, Some h) \<in> VC"
    and a: "\<And>i q m ip z. (i, q, m, ip) \<in> E \<Longrightarrow> find_if s i = Some z \<Longrightarrow> m_is_ip_addr_assigned z ip"
  defines "L \<equiv> unlink n p LK"
  shows "\<exists>t. down_one_peer env n p s = Some t \<and> same_core s t \<and>
    bridge_st env V RD (PL(p := PL p - {n})) L (VR - rt_unused s L p y n - rt_unused s L n x p) (VC - ctx_unused s L p n - ctx_unused s L n p) (E - rules_between n p) t"
proof -
  let ?PL = "PL(p := PL p - {n})" and ?own = "hdr_type s n" and ?other = "hdr_type s p"
  have s: "shape env RD PL LK s" using st by (simp add: bridge_st_def)
  have sym: "n \<in> LK p" by (rule shape_peers(3) [OF s p])
  have ne: "n \<noteq> p" using shape_peers(1,2) [OF s, of n] p by auto
  have inPL: "p \<in> PL n" "n \<in> PL p" using shape_peers(2) [OF s] p sym by auto
  have nL: "n \<notin> L p" "p \<notin> L n" using ne by (simp_all add: L_def unlink_def)
  have tys: "l2_type (m_p_iface x) = ?own" "l2_type (m_p_iface y) = ?other" using x y by (simp_all add: hdr_type_def lans_def)
  have own: "?own \<in> hdr_type s ` LK p" "?other \<in> hdr_type s ` LK n" using sym p by simp_all
  define s1 where "s1 = upd_if p (decrement_ref_cnt_peer_l2_hdr_type ?own) (upd_if n (decrement_ref_cnt_peer_l2_hdr_type ?other) s)"
  have 1: "same_core s s1" "bridge_st env V RD PL L VR VC E s1" using st_unlink [OF st x y p] by (simp_all add: s1_def L_def)
  obtain x1 where x1: "find_if s1 n = Some x1" by (rule same_core_Some [OF 1(1) x])
  have fp: "flt_peer RD PL n p" "flt_peer RD PL p n" "flt_peer RD ?PL n p" using inPL ne by (auto simp: flt_peer_def)
  have a1: "m_is_ip_addr_assigned x1 ip" if "(n, p, m, ip) \<in> E" for m ip using a [OF that x] core_assigned [OF 1(1) x x1] by simp
  have "\<exists>t. clear_all_flt_rule_for_one_peer_iface env n p s1 = Some t \<and> same_shape s1 t \<and>
      bridge_st env V RD PL L VR VC (E - {(n, p, m, ip) | m ip. True}) t"
    by (rule st_clear_flt [OF k 1(2) x1 fp(1)]) (rule a1)
  then obtain s2 where 2: "clear_all_flt_rule_for_one_peer_iface env n p s1 = Some s2" "same_shape s1 s2"
      "bridge_st env V RD PL L VR VC (E - {(n, p, m, ip) | m ip. True}) s2" by blast
  have c2: "same_core s s2" by (rule same_core_trans [OF 1(1) same_shape_core [OF 2(2)]])
  obtain y2 where y2: "find_if s2 p = Some y2" by (rule same_core_Some [OF c2 y])
  have a2: "m_is_ip_addr_assigned y2 ip" if "(p, n, m, ip) \<in> E - {(n, p, m, ip) | m ip. True}" for m ip
    using a [of p n m ip, OF _ y] that core_assigned [OF c2 y y2] by simp
  have rb: "E - {(n, p, m, ip) | m ip. True} - {(p, n, m, ip) | m ip. True} = E - rules_between n p" by (auto simp: rules_between_def)
  have "\<exists>t. clear_all_flt_rule_for_one_peer_iface env p n s2 = Some t \<and> same_shape s2 t \<and>
      bridge_st env V RD PL L VR VC (E - {(n, p, m, ip) | m ip. True} - {(p, n, m, ip) | m ip. True}) t"
    by (rule st_clear_flt [OF k 2(3) y2 fp(2)]) (rule a2)
  then obtain s3 where 3: "clear_all_flt_rule_for_one_peer_iface env p n s2 = Some s3" "same_shape s2 s3"
      "bridge_st env V RD PL L VR VC (E - rules_between n p) s3"
    unfolding rb by blast
  have c3: "same_core s s3" by (rule same_core_trans [OF c2 same_shape_core [OF 3(2)]])
  obtain y3 where y3: "find_if s3 p = Some y3" by (rule same_core_Some [OF c3 y])
  have ty3: "hdr_type s3 = hdr_type s" by (rule same_core_eqs(2) [OF c3])
  have v3: "(p, m, rt_place s3 n p) \<in> VR" if "m \<in> macs y3" for m
    using vr [OF y own(1)] that core_macs [OF c3 y y3] ne ty3 by (simp add: rt_place_def)
  have r3: "{(p, m, rt_place s3 n p) | m. m \<in> macs y3 \<and> hdr_type s3 n \<notin> hdr_type s3 ` L p} = rt_unused s L p y n"
    using core_macs [OF c3 y y3] ne ty3 by (simp add: rt_place_def rt_unused_def)
  obtain s4 where 4: "clear_all_rt_rule_for_one_peer_iface env p n s3 = Some s4" "same_shape s3 s4"
      "bridge_st env V RD PL L (VR - rt_unused s L p y n) VC (E - rules_between n p) s4"
    using st_clear_rt [OF k 3(3) y3 fp(2) v3] unfolding r3 by blast
  have c4: "same_core s s4" by (rule same_core_trans [OF c3 same_shape_core [OF 4(2)]])
  obtain y4 where y4: "find_if s4 p = Some y4" by (rule same_core_Some [OF c4 y])
  define s5 where "s5 = upd_if p (drop_peer n) s4"
  have 5: "same_core s4 s5" "bridge_st env V RD ?PL L (VR - rt_unused s L p y n) VC (E - rules_between n p) s5"
    using st_drop_peer [OF 4(3) y4 nL(1) _ ne] by (simp_all add: s5_def rules_between_def)
  have c5: "same_core s s5" by (rule same_core_trans [OF c4 5(1)])
  obtain y5 where y5: "find_if s5 p = Some y5" by (rule same_core_Some [OF c5 y])
  have ty5: "hdr_type s5 = hdr_type s" by (rule same_core_eqs(2) [OF c5])
  have u5: "{(p, Some h') | h'. h' = ?own \<and> ?own \<notin> hdr_type s5 ` L p} = ctx_unused s L p n" by (simp add: ctx_unused_def ty5)
  obtain s6 where 6: "del_hdr_proc_ctx env p ?own s5 = Some s6" "same_shape s5 s6"
      "bridge_st env V RD ?PL L (VR - rt_unused s L p y n) (VC - ctx_unused s L p n) (E - rules_between n p) s6"
    using st_del_ctx [OF k 5(2) y5 vc [OF own(1)]] unfolding u5 by blast
  have c6: "same_core s s6" by (rule same_core_trans [OF c5 same_shape_core [OF 6(2)]])
  obtain x6 where x6: "find_if s6 n = Some x6" by (rule same_core_Some [OF c6 x])
  have ty6: "hdr_type s6 = hdr_type s" by (rule same_core_eqs(2) [OF c6])
  have v6: "(n, m, rt_place s6 p n) \<in> VR - rt_unused s L p y n" if "m \<in> macs x6" for m
    using vr [OF x own(2)] that core_macs [OF c6 x x6] ne ty6 by (simp add: rt_place_def rt_unused_def)
  have r6: "{(n, m, rt_place s6 p n) | m. m \<in> macs x6 \<and> hdr_type s6 p \<notin> hdr_type s6 ` L n} = rt_unused s L n x p"
    using core_macs [OF c6 x x6] ne ty6 by (simp add: rt_place_def rt_unused_def)
  obtain s7 where 7: "clear_all_rt_rule_for_one_peer_iface env n p s6 = Some s7" "same_shape s6 s7"
      "bridge_st env V RD ?PL L (VR - rt_unused s L p y n - rt_unused s L n x p) (VC - ctx_unused s L p n) (E - rules_between n p) s7"
    using st_clear_rt [OF k 6(3) x6 fp(3) v6] unfolding r6 by blast
  have c7: "same_core s s7" by (rule same_core_trans [OF c6 same_shape_core [OF 7(2)]])
  obtain x7 where x7: "find_if s7 n = Some x7" by (rule same_core_Some [OF c7 x])
  have ty7: "hdr_type s7 = hdr_type s" by (rule same_core_eqs(2) [OF c7])
  have u7: "{(n, Some h') | h'. h' = ?other \<and> ?other \<notin> hdr_type s7 ` L n} = ctx_unused s L n p" by (simp add: ctx_unused_def ty7)
  have vc7: "(n, Some ?other) \<in> VC - ctx_unused s L p n" using vc [OF own(2)] ne by (simp add: ctx_unused_def)
  obtain s8 where 8: "del_hdr_proc_ctx env n ?other s7 = Some s8" "same_shape s7 s8"
      "bridge_st env V RD ?PL L (VR - rt_unused s L p y n - rt_unused s L n x p) (VC - ctx_unused s L p n - ctx_unused s L n p) (E - rules_between n p) s8"
    using st_del_ctx [OF k 7(3) x7 vc7] unfolding u7 by blast
  have sh2: "shape env RD PL L s2" using 2(3) by (simp add: bridge_st_def)
  obtain q2 where q2: "look peer n (m_peer_iface_info y2) = Some q2" using shape_peer_at [OF sh2 y2 inPL(2)] by metis
  have "down_one_peer env n p s = Some s8"
    using x y tys q2 y2 2(1) 3(1) 4(1) 6(1) 7(1) 8(1)
    by (simp add: down_one_peer_def Let_def s5_def drop_peer_def [abs_def] flip: s1_def)
  then show ?thesis using 8(3) same_core_trans [OF c7 same_shape_core [OF 8(2)]] by blast
qed

section \<open>The loop over the peers\<close>

lemma unlink_types:
  assumes "p \<in> LK n" and "n \<in> LK p" and "n \<noteq> p"
  shows "h \<in> hdr_type s ` unlink n p LK i \<longleftrightarrow> h \<in> hdr_type s ` LK i \<and>
    \<not> (i = p \<and> h = hdr_type s n \<and> hdr_type s n \<notin> hdr_type s ` (LK p - {n})) \<and> \<not> (i = n \<and> h = hdr_type s p \<and> hdr_type s p \<notin> hdr_type s ` (LK n - {p}))"
proof -
  have *: "h \<in> hdr_type s ` (A - {q}) \<longleftrightarrow> h \<in> hdr_type s ` A \<and> \<not> (h = hdr_type s q \<and> hdr_type s q \<notin> hdr_type s ` (A - {q}))" for A q
    by (cases "h = hdr_type s q") auto
  show ?thesis using assms(3) * [of "LK p" n] * [of "LK n" p] by (simp add: unlink_def)
qed

lemma VR_of_unlink:
  assumes "find_if s n = Some x" and "find_if s p = Some y" and "p \<in> LK n" and "n \<in> LK p" and "n \<noteq> p"
  defines "L \<equiv> unlink n p LK"
  shows "VR_of L s = VR_of LK s - rt_unused s L p y n - rt_unused s L n x p"
proof (rule set_eqI)
  fix z :: "nat \<times> mac \<times> ipa_hdr_l2_type option"
  obtain i m sl where z: "z = (i, m, sl)" by (cases z)
  have L: "L p = LK p - {n}" "L n = LK n - {p}" using assms by (auto simp: L_def unlink_def)
  note u = unlink_types [where LK = LK, OF assms(3-5), folded L_def]
  show "z \<in> VR_of L s \<longleftrightarrow> z \<in> VR_of LK s - rt_unused s L p y n - rt_unused s L n x p"
    using assms(1,2) L by (cases sl) (auto simp: z VR_of_def in_use_def rt_unused_def u)
qed

lemma VC_of_unlink:
  assumes "p \<in> LK n" and "n \<in> LK p" and "n \<noteq> p"
  defines "L \<equiv> unlink n p LK"
  shows "VC_of L s = VC_of LK s - ctx_unused s L p n - ctx_unused s L n p"
proof (rule set_eqI)
  fix z :: ctx_slot
  obtain i sl where z: "z = (i, sl)" by (cases z)
  have L: "L p = LK p - {n}" "L n = LK n - {p}" using assms by (auto simp: L_def unlink_def)
  note u = unlink_types [where LK = LK, OF assms(1-3), folded L_def]
  show "z \<in> VC_of L s \<longleftrightarrow> z \<in> VC_of LK s - ctx_unused s L p n - ctx_unused s L n p"
    using L by (cases sl) (auto simp: z VC_of_def in_use_def ctx_unused_def u)
qed

lemma E_of_unlink: "n \<noteq> p \<Longrightarrow> E_of (unlink n p LK) s = E_of LK s - rules_between n p"
  by (auto simp: E_of_def flt_peer_def unlink_def rules_between_def split: if_splits)

text \<open>The links when the peers of \<open>D\<close> have been handled; the list of the interface itself still holds all of them.\<close>

definition links_without :: "nat \<Rightarrow> nat set \<Rightarrow> (nat \<Rightarrow> nat set) \<Rightarrow> nat \<Rightarrow> nat set" where
  "links_without n D F i = (if i = n then F n - D else if i \<in> D then F i - {n} else F i)"

definition lists_without :: "nat \<Rightarrow> nat set \<Rightarrow> (nat \<Rightarrow> nat set) \<Rightarrow> nat \<Rightarrow> nat set" where
  "lists_without n D F i = (if i \<noteq> n \<and> i \<in> D then F i - {n} else F i)"

lemma without_step:
  assumes "p \<notin> D" and "p \<noteq> n"
  shows "unlink n p (links_without n D F) = links_without n (insert p D) F"
    and "(lists_without n D F)(p := lists_without n D F p - {n}) = lists_without n (insert p D) F"
  using assms by (auto simp: unlink_def links_without_def lists_without_def fun_eq_iff)

lemma without_empty [simp]: "links_without n {} F = F" "lists_without n {} F = F"
  by (auto simp: links_without_def lists_without_def fun_eq_iff)

lemma st_down_peers:
  fixes s :: "'w lan2lan"
  assumes k: "bridge_kernel_ok (dev env) V" and inv: "bridge_inv env V s" and x: "find_if s n = Some x"
  defines "F \<equiv> full s" and "RD \<equiv> RD_of s"
  defines "L \<equiv> links_without n (F n) F"
  shows "\<exists>t. each (\<lambda>q. down_one_peer env n (peer q)) (m_peer_iface_info x) s = Some t \<and> same_core s t \<and>
    bridge_st env V RD (lists_without n (F n) F) L (VR_of L s) (VC_of L s) (E_of L s) t"
proof -
  let ?L = "\<lambda>qs. links_without n (peer ` set qs) F" and ?P = "\<lambda>qs. lists_without n (peer ` set qs) F"
  have st: "bridge_st env V RD F F (VR_of F s) (VC_of F s) (E_of F s) s" using inv by (simp add: bridge_inv_def F_def RD_def)
  have sh: "shape env RD F F s" using st by (simp add: bridge_st_def)
  define J where "J = (\<lambda>(pre :: peer_iface_info list) t. same_core s t \<and> bridge_st env V RD (?P pre) (?L pre) (VR_of (?L pre) s) (VC_of (?L pre) s) (E_of (?L pre) s) t)"
  have "\<exists>t. each (\<lambda>q. down_one_peer env n (peer q)) (m_peer_iface_info x) s = Some t \<and> J (m_peer_iface_info x) t"
  proof (rule each_inv)
    show "J [] s" using st by (simp add: J_def)
  next
    fix pre q rest t assume qs: "m_peer_iface_info x = pre @ q # rest" and J: "J pre t"
    have sc: "same_core s t" and b: "bridge_st env V RD (?P pre) (?L pre) (VR_of (?L pre) s) (VC_of (?L pre) s) (E_of (?L pre) s) t"
      using J by (simp_all add: J_def)
    have pF: "peer q \<in> F n" "peer q \<notin> peer ` set pre" using shapeD(5,6) [OF sh x] qs by auto
    have ne: "peer q \<noteq> n" using pF(1) by (auto simp: F_def full_def)
    have nF: "n \<in> F (peer q)" using pF(1) full_sym unfolding F_def by blast
    obtain y where y: "find_if s (peer q) = Some y" using pF(1) full_find(1) unfolding F_def by blast
    obtain x' where x': "find_if t n = Some x'" by (rule same_core_Some [OF sc x])
    obtain y' where y': "find_if t (peer q) = Some y'" by (rule same_core_Some [OF sc y])
    have p: "peer q \<in> ?L pre n" "n \<in> ?L pre (peer q)" using pF nF ne by (simp_all add: links_without_def)
    have ty: "hdr_type t = hdr_type s" by (rule same_core_eqs(2) [OF sc])
    have ran: "\<exists>z. find_if s i = Some z" if "j \<in> ?L pre i" for i j
      using that full_find(2) [of j s i] by (auto simp: links_without_def F_def split: if_splits)
    let ?U = "unlink n (peer q) (?L pre)"
    have "\<exists>u. down_one_peer env n (peer q) t = Some u \<and> same_core t u \<and>
        bridge_st env V RD ((?P pre)(peer q := ?P pre (peer q) - {n})) ?U
          (VR_of (?L pre) s - rt_unused t ?U (peer q) y' n - rt_unused t ?U n x' (peer q))
          (VC_of (?L pre) s - ctx_unused t ?U (peer q) n - ctx_unused t ?U n (peer q)) (E_of (?L pre) s - rules_between n (peer q)) u"
    proof (rule st_down_one [OF k b x' y' p(1)])
      fix i z h m assume z: "find_if t i = Some z" "h \<in> hdr_type t ` ?L pre i" "m \<in> macs z"
      obtain z0 where z0: "find_if s i = Some z0" by (rule same_core_Some [OF same_core_sym [OF sc] z(1)])
      show "(i, m, Some h) \<in> VR_of (?L pre) s" using z z0 core_macs [OF sc z0 z(1)] ty by (simp add: VR_of_def in_use_def)
    next
      fix i h assume "h \<in> hdr_type t ` ?L pre i"
      then show "(i, Some h) \<in> VC_of (?L pre) s" using ran ty by (auto simp: VC_of_def in_use_def)
    next
      fix i r m ip z assume e: "(i, r, m, ip) \<in> E_of (?L pre) s" "find_if t i = Some z"
      then obtain z0 where z0: "find_if s i = Some z0" "m_is_ip_addr_assigned z0 ip" by (auto simp: E_of_def)
      show "m_is_ip_addr_assigned z ip" using z0(2) core_assigned [OF sc z0(1) e(2)] by simp
    qed
    then obtain u where u: "down_one_peer env n (peer q) t = Some u" "same_core t u"
        "bridge_st env V RD ((?P pre)(peer q := ?P pre (peer q) - {n})) ?U
          (VR_of (?L pre) s - rt_unused t ?U (peer q) y' n - rt_unused t ?U n x' (peer q))
          (VC_of (?L pre) s - ctx_unused t ?U (peer q) n - ctx_unused t ?U n (peer q)) (E_of (?L pre) s - rules_between n (peer q)) u" by blast
    have r: "rt_unused t LK i z' j = rt_unused s LK i z j" if "macs z' = macs z" for LK i z z' j using that by (simp add: rt_unused_def ty)
    have c: "ctx_unused t LK i j = ctx_unused s LK i j" for LK i j by (simp add: ctx_unused_def ty)
    note step = without_step [OF pF(2) ne, of F]
    have U: "?U = ?L (pre @ [q])" "(?P pre)(peer q := ?P pre (peer q) - {n}) = ?P (pre @ [q])" using step by simp_all
    have "J (pre @ [q]) u"
      using u(3) same_core_trans [OF sc u(2)]
      unfolding J_def U(2) r [OF core_macs [OF sc y y']] r [OF core_macs [OF sc x x']] c
        VR_of_unlink [OF x y p ne [symmetric], symmetric] VC_of_unlink [where LK = "?L pre", OF p ne [symmetric], symmetric]
        E_of_unlink [OF ne [symmetric], symmetric] unfolding U(1) by simp
    then show "\<exists>u. down_one_peer env n (peer q) t = Some u \<and> J (pre @ [q]) u" using u(1) by blast
  qed
  then show ?thesis unfolding J_def L_def shapeD(6) [OF sh x] by blast
qed

section \<open>The interface is dropped\<close>

text \<open>The list of peers is cleared.\<close>

definition no_peers :: "l2l_iface \<Rightarrow> l2l_iface" where
  "no_peers x = x\<lparr>m_peer_iface_info := []\<rparr>"

lemma no_peers_simps [simp]:
  "l2l_ptr (no_peers y) = l2l_ptr y" "m_p_iface (no_peers y) = m_p_iface y" "m_client_info (no_peers y) = m_client_info y"
  "hdr_proc_ctx_for_inter_interface (no_peers y) = hdr_proc_ctx_for_inter_interface y" "m_intra_interface_info (no_peers y) = m_intra_interface_info y"
  "hdr_proc_ctx_for_intra_interface (no_peers y) = hdr_proc_ctx_for_intra_interface y" "core (no_peers y) = core y"
  by (simp_all add: no_peers_def l2l_ptr_def core_def bare_def)

lemma st_no_peers:
  assumes st: "bridge_st env V RD PL LK VR VC E s" and x: "find_if s n = Some x" and n: "LK n = {}" and E: "\<And>q m ip. (n, q, m, ip) \<in> E \<Longrightarrow> q = n"
  defines "t \<equiv> upd_if n no_peers s"
  shows "same_core s t \<and> bridge_st env V RD (PL(n := {})) LK VR VC E t"
proof -
  let ?PL = "PL(n := {})"
  have s: "shape env RD PL LK s" and td: "tidy s" using st by (simp_all add: bridge_st_def flt_booked_def)
  have find: "find_if t j = (if j = n then map_option no_peers (find_if s n) else find_if s j)" for j by (simp add: t_def find_if_upd)
  have sc: "same_core s t" unfolding t_def by (rule same_core_upd) simp
  have ty: "hdr_type t = hdr_type s" by (rule same_core_eqs(2) [OF sc])
  have pr: "peer_rec t j q = (if j = n \<and> q \<noteq> n then None else peer_rec s j q)" for j q
    using x find_if_ptr [OF x] by (auto simp: peer_rec_def find peer_at_def no_peers_def l2l_ptr_def)
  have fr: "flt_rec t = flt_rec s"
  proof (rule ext)
    fix z :: flt_slot
    obtain j q m ip where z: "z = (j, q, m, ip)" by (cases z)
    have "q \<noteq> n \<Longrightarrow> flt_rec s (n, q, m, ip) = None" using E [of q m ip] st by (auto simp: bridge_st_def)
    then show "flt_rec t z = flt_rec s z" by (auto simp: z flt_rec_peer_rec pr)
  qed
  have "shape env RD ?PL LK t"
  proof -
    have "iface_shape env RD ?PL LK t j z" if z: "find_if t j = Some z" for j z
    proof (cases "j = n")
      case True
      have "iface_shape env RD PL LK s n x" using s x by (simp add: shape_def)
      then show ?thesis using True z x unfolding iface_shape_def ty by (auto simp: find no_peers_def)
    next
      case False
      then have "iface_shape env RD PL LK s j z" using s z by (simp add: shape_def find)
      then show ?thesis by (rule iface_shape_same) (use False ty in simp_all)
    qed
    moreover have "find_if t q = None \<longleftrightarrow> find_if s q = None" for q by (simp add: find)
    moreover have "i \<notin> ?PL i" "LK i \<subseteq> ?PL i" "\<forall>q\<in>?PL i. find_if s q \<noteq> None" for i using s n by (auto simp: shape_def)
    ultimately show ?thesis using s same_core_eqs(9) [OF sc] by (simp add: shape_def)
  qed
  moreover have "tidy t" using td by (simp add: tidy_peer_rec pr)
  moreover have "client_rec t = client_rec s" "ctx_of t = ctx_of s" "l2l_world t = l2l_world s"
    by (simp_all add: t_def client_rec_upd ctx_of_upd)
  ultimately show ?thesis
    using sc st_replace [OF st same_core_eqs(1) [OF sc] _ _ fr] by simp
qed

text \<open>The interface leaves \<open>m_iface\<close> when nothing is recorded for it any more.\<close>

definition without_iface :: "nat \<Rightarrow> 'w lan2lan \<Rightarrow> 'w lan2lan" where
  "without_iface n s = s\<lparr>m_iface := del_node l2l_ptr n (m_iface s)\<rparr>"

lemma del_upd_node: "(\<And>x. key x = k \<Longrightarrow> key (f x) = k) \<Longrightarrow> del_node key k (upd_node key k f xs) = del_node key k xs"
  by (induction xs) auto

lemma without_upd: "(\<And>x. l2l_ptr (f x) = l2l_ptr x) \<Longrightarrow> without_iface n (upd_if n f s) = without_iface n s"
  by (simp add: without_iface_def upd_if_def del_upd_node)

lemma find_without:
  "distinct (map l2l_ptr (m_iface s)) \<Longrightarrow> find_if (without_iface n s) j = (if j = n then None else find_if s j)"
  by (simp add: find_if_def without_iface_def look_del)

lemma st_without:
  assumes st: "bridge_st env V RD PL PL VR VC E s"
    and n: "PL n = {}" "\<And>i. n \<notin> PL i" "\<And>m sl. (n, m, sl) \<notin> VR" "\<And>sl. (n, sl) \<notin> VC" "\<And>q m ip. (n, q, m, ip) \<notin> E \<and> (q, n, m, ip) \<notin> E"
  shows "bridge_st env V (RD - {n}) PL PL VR VC E (without_iface n s)"
proof -
  let ?t = "without_iface n s"
  have s: "shape env RD PL PL s" and b: "flt_booked env V s" "rt_booked env V VR s" "ctx_booked V VC s" and E: "dom (flt_rec s) = E"
    using st by (simp_all add: bridge_st_def)
  have dist: "distinct (map l2l_ptr (m_iface s))" using s by (simp add: shape_def)
  note find = find_without [OF dist, of n]
  have L: "lans ?t j = lans s j" if "j \<noteq> n" for j using that by (simp add: lans_def find)
  have ty: "hdr_type ?t j = hdr_type s j" if "j \<noteq> n" for j using L [OF that] by (simp add: hdr_type_def)
  have w: "l2l_world ?t = l2l_world s" by (simp add: without_iface_def)
  have prec: "peer_rec ?t j p = (if j = n then None else peer_rec s j p)" for j p by (simp add: peer_rec_def find)
  have frec: "flt_rec ?t = flt_rec s"
  proof (rule ext)
    fix z :: flt_slot
    obtain j p m ip where z: "z = (j, p, m, ip)" by (cases z)
    have "flt_rec s (n, p, m, ip) = None" using n(5) [of p m ip] E by auto
    then show "flt_rec ?t z = flt_rec s z" by (auto simp: z flt_rec_peer_rec prec)
  qed
  have ctx: "ctx_of ?t (j, sl) = ctx_of s (j, sl)" if "j \<noteq> n" for j sl using that by (simp add: ctx_of_def find)
  have "flt_booked env V ?t"
  proof -
    have "tidy ?t" using b(1) by (simp add: flt_booked_def tidy_peer_rec prec)
    moreover have "exact (flt_rec s) (flt_content env (lans ?t)) (flt_at V (l2l_world s))"
    proof (rule exact_cong)
      show "exact (flt_rec s) (flt_content env (lans s)) (flt_at V (l2l_world s))" using b(1) by (simp add: flt_booked_def)
    next
      fix z assume "flt_rec s z \<noteq> None"
      then have z: "z \<in> E" using E by auto
      obtain j p m ip where zz: "z = (j, p, m, ip)" by (cases z)
      have "j \<noteq> n" "p \<noteq> n" using z zz n(5) by auto
      then show "flt_content env (lans ?t) z = flt_content env (lans s) z" using L by (simp add: zz flt_content_def flt_tbl_def)
    qed
    ultimately show ?thesis by (simp add: flt_booked_def frec w)
  qed
  moreover have "rt_booked env V VR ?t"
  proof -
    have cr: "client_rec ?t i m = client_rec s i m" if "(i, m, sl) \<in> VR" for i m sl
      using that n(3) by (auto simp: client_rec_def find)
    have Lr: "lans ?t i = lans s i" if "(i, m, sl) \<in> VR" for i m sl using that n(3) L by metis
    have "rt_rec VR ?t = rt_rec VR s" using cr by (auto simp: rt_rec_def fun_eq_iff)
    moreover have "rt_valid VR ?t" using b(2) cr Lr unfolding rt_booked_in_def rt_valid_def by simp
    moreover have "exact_in (rt_rec VR s) (rt_contents env (\<lambda>_. modes env) (lans ?t) (ctx_of ?t)) (rt_at V (l2l_world s))"
    proof (rule rt_contents_cong)
      show "exact_in (rt_rec VR s) (rt_contents env (\<lambda>_. modes env) (lans s) (ctx_of s)) (rt_at V (l2l_world s))" using b(2) by (simp add: rt_booked_in_def)
    next
      fix z mcc assume z: "rt_rec VR s z \<noteq> None"
      obtain j m sl ip h where zz: "z = (j, m, sl, ip, h)" by (cases z)
      have "j \<noteq> n" using z zz n(3) by (auto simp: rt_rec_def split: if_splits)
      then show "rt_content env mcc (lans ?t) (ctx_of ?t) z = rt_content env mcc (lans s) (ctx_of s) z"
        using L ctx by (simp add: zz rt_content_def rt_tbl_def slot_type_def split: option.split)
    qed
    ultimately show ?thesis by (simp add: rt_booked_in_def w)
  qed
  moreover have "ctx_booked V VC ?t"
  proof -
    have nz: "fst z \<noteq> n" if "z \<in> VC" for z using that n(4) by (cases z) auto
    have "ctx_rec VC ?t = ctx_rec VC s" using ctx nz by (auto simp: ctx_rec_def fun_eq_iff)
    moreover have "exact (ctx_rec VC s) (ctx_content (lans ?t)) (ctx_at V (l2l_world s))"
    proof (rule exact_cong)
      show "exact (ctx_rec VC s) (ctx_content (lans s)) (ctx_at V (l2l_world s))" using b(3) by (simp add: ctx_booked_def)
    next
      fix z assume "ctx_rec VC s z \<noteq> None"
      then have "fst z \<noteq> n" using nz [of z] by (auto simp: ctx_rec_def split: if_splits)
      then show "ctx_content (lans ?t) z = ctx_content (lans s) z" using L [of "fst z"] by (cases z) (simp add: ctx_content_def slot_type_def split: option.split)
    qed
    ultimately show ?thesis by (simp add: ctx_booked_def w)
  qed
  moreover have "shape env (RD - {n}) PL PL ?t"
  proof -
    have "iface_shape env (RD - {n}) PL PL ?t j z" if z: "find_if ?t j = Some z" for j z
    proof -
      have jn: "j \<noteq> n" "find_if s j = Some z" using z by (simp_all add: find split: if_splits)
      then have i: "iface_shape env RD PL PL s j z" using s by (simp add: shape_def)
      have q: "peer q \<noteq> n" if "q \<in> set (m_peer_iface_info z)" for q using i n(2) [of j] that by (auto simp: iface_shape_def)
      have "hdr_type ?t p = hdr_type s p" if "p \<in> PL j" for p using ty [of p] n(2) [of j] that by (cases "p = n") auto
      then have "{p \<in> PL j. hdr_type ?t p = t} = {p \<in> PL j. hdr_type s p = t}" for t by (intro Collect_cong) auto
      then show ?thesis using i jn(1) ty q by (simp add: iface_shape_def)
    qed
    moreover have "distinct (map l2l_ptr (m_iface ?t))" using dist by (simp add: without_iface_def keys_del distinct_remove1)
    moreover have "find_if ?t p \<noteq> None" if "p \<in> PL i" for p i using that shape_peers(4) [OF s that] n(2) [of i] by (auto simp: find)
    ultimately show ?thesis using s by (simp add: shape_def)
  qed
  ultimately show ?thesis using E frec by (simp add: bridge_st_def)
qed

section \<open>The handler\<close>

definition links_left :: "nat \<Rightarrow> 'w lan2lan \<Rightarrow> nat \<Rightarrow> nat set" where
  "links_left n s i = (if i = n then {} else full s i - {n})"

lemma links_left_without:
  "links_without n (full s n) (full s) = links_left n s" "(lists_without n (full s n) (full s))(n := {}) = links_left n s"
proof -
  have f: "i \<in> full s n \<longleftrightarrow> n \<in> full s i" for i by (rule full_sym)
  show "links_without n (full s n) (full s) = links_left n s" by (rule ext) (auto simp: links_without_def links_left_def f)
  show "(lists_without n (full s n) (full s))(n := {}) = links_left n s" by (rule ext) (auto simp: lists_without_def links_left_def f)
qed

lemma left_sets:
  fixes n :: nat
  assumes d: "distinct (map l2l_ptr (m_iface s))"
  defines "r \<equiv> without_iface n s" and "L \<equiv> links_left n s"
  shows "full r = L" and "RD_of r = RD_of s - {n}" and "VR_of L r = {z \<in> VR_of L s. fst z \<noteq> n}" and "VC_of L r = {z \<in> VC_of L s. fst z \<noteq> n}"
    and "E_of L r = E_of L s - {(n, n, m, ip) | m ip. True}"
proof -
  note find = find_without [OF d, of n, folded r_def]
  show "full r = L" by (auto simp: fun_eq_iff full_def L_def links_left_def find)
  show rd: "RD_of r = RD_of s - {n}" by (auto simp: RD_of_def find split: if_splits)
  have h: "hdr_type r p = hdr_type s p" if "p \<noteq> n" for p using that by (simp add: hdr_type_def lans_def find)
  have Ln: "n \<notin> L i" for i by (simp add: L_def links_left_def)
  have im: "hdr_type r ` L i = hdr_type s ` L i" for i
  proof (rule image_cong)
    show "hdr_type r p = hdr_type s p" if "p \<in> L i" for p using that Ln [of i] h [of p] by (cases "p = n") auto
  qed simp
  have u: "in_use L r x i sl = in_use L s x i sl" for x i sl using im by (cases sl) (simp_all add: in_use_def)
  show "VR_of L r = {z \<in> VR_of L s. fst z \<noteq> n}" by (auto simp: VR_of_def find u split: if_splits)
  show "VC_of L r = {z \<in> VC_of L s. fst z \<noteq> n}" by (auto simp: VC_of_def find u split: if_splits)
  show "E_of L r = E_of L s - {(n, n, m, ip) | m ip. True}"
  proof (rule set_eqI)
    fix z :: flt_slot
    obtain i p m ip where z: "z = (i, p, m, ip)" by (cases z)
    show "z \<in> E_of L r \<longleftrightarrow> z \<in> E_of L s - {(n, n, m, ip) | m ip. True}"
      using Ln [of i] unfolding z E_of_def rd by (cases "i = n"; cases "p = n") (auto simp: find flt_peer_def L_def links_left_def)
  qed
qed

lemma same_core_without: "same_core s t \<Longrightarrow> same_core (without_iface n s) (without_iface n t)"
proof -
  have "map core (del_node l2l_ptr n xs) = del_node l2l_ptr n (map core xs)" for xs by (induction xs) auto
  then show "same_core s t \<Longrightarrow> same_core (without_iface n s) (without_iface n t)" by (simp add: same_core_def without_iface_def)
qed

text \<open>The part on the peers.\<close>

lemma down_inter:
  fixes s :: "'w lan2lan"
  assumes k: "bridge_kernel_ok (dev env) V" and inv: "bridge_inv env V s" and x: "find_if s n = Some x"
  defines "L \<equiv> links_left n s"
  shows "\<exists>t. (if m_support_inter_iface_offload x then do { s \<leftarrow> each (\<lambda>q. down_one_peer env n (peer q)) (m_peer_iface_info x) s; Some (upd_if n no_peers s) } else Some s) = Some t \<and>
    same_core s t \<and> bridge_st env V (RD_of s) L L (VR_of L s) (VC_of L s) (E_of L s) t"
proof (cases "m_support_inter_iface_offload x")
  case True
  obtain t where t: "each (\<lambda>q. down_one_peer env n (peer q)) (m_peer_iface_info x) s = Some t" "same_core s t"
      "bridge_st env V (RD_of s) (lists_without n (full s n) (full s)) L (VR_of L s) (VC_of L s) (E_of L s) t"
    using st_down_peers [OF k inv x] unfolding links_left_without(1) L_def by blast
  obtain x' where x': "find_if t n = Some x'" by (rule same_core_Some [OF t(2) x])
  have "same_core t (upd_if n no_peers t) \<and> bridge_st env V (RD_of s) ((lists_without n (full s n) (full s))(n := {})) L (VR_of L s) (VC_of L s) (E_of L s) (upd_if n no_peers t)"
    by (rule st_no_peers [OF t(3) x']) (auto simp: L_def links_left_def E_of_def flt_peer_def split: if_splits)
  then have "same_core t (upd_if n no_peers t)" "bridge_st env V (RD_of s) L L (VR_of L s) (VC_of L s) (E_of L s) (upd_if n no_peers t)"
    unfolding links_left_without(2) by (simp_all add: L_def)
  then show ?thesis using True t(1) same_core_trans [OF t(2)] by simp
next
  case False
  have "full s n = {}" by (rule full_not_inter [OF x False])
  then have "L = full s" using full_sym [of n s] by (auto simp: L_def links_left_def fun_eq_iff)
  then show ?thesis using inv False by (simp add: bridge_inv_def)
qed

text \<open>The part on the clients of the interface itself.\<close>

lemma down_intra:
  assumes k: "bridge_kernel_ok (dev env) V" and st: "bridge_st env V RD L L VR VC E s" and x: "find_if s n = Some x" and n: "n \<in> RD" "L n = {}"
    and vr: "\<And>m. m \<in> macs x \<Longrightarrow> (n, m, None) \<in> VR" and vc: "(n, None) \<in> VC" and a: "\<And>m ip. (n, n, m, ip) \<in> E \<Longrightarrow> m_is_ip_addr_assigned x ip"
  shows "\<exists>t. do { s \<leftarrow> clear_all_flt_rule_for_one_peer_iface env n n s; s \<leftarrow> clear_all_rt_rule_for_one_peer_iface env n n s; x \<leftarrow> find_if s n;
        Some (s\<lparr>l2l_world := eth_bridge_del_hdr_proc_ctx env (hdr_proc_ctx_for_intra_interface x) (l2l_world s)\<rparr>) } = Some t \<and> same_core s t \<and>
    bridge_st env V RD L L (VR - {(n, m, None) | m. m \<in> macs x}) (VC - {(n, None)}) (E - {(n, n, m, ip) | m ip. True}) t"
proof -
  have fp: "flt_peer RD L n n" using n(1) by (simp add: flt_peer_def)
  have "\<exists>t. clear_all_flt_rule_for_one_peer_iface env n n s = Some t \<and> same_shape s t \<and> bridge_st env V RD L L VR VC (E - {(n, n, m, ip) | m ip. True}) t"
    by (rule st_clear_flt [OF k st x fp]) (rule a)
  then obtain s1 where 1: "clear_all_flt_rule_for_one_peer_iface env n n s = Some s1" "same_shape s s1"
      "bridge_st env V RD L L VR VC (E - {(n, n, m, ip) | m ip. True}) s1" by blast
  obtain x1 where x1: "find_if s1 n = Some x1" "bare x1 = bare x" by (rule same_shape_Some [OF 1(2) x])
  have v1: "(n, m, rt_place s1 n n) \<in> VR" if "m \<in> macs x1" for m using vr that bare_macs [OF x1(2)] by (simp add: rt_place_def)
  have r1: "{(n, m, rt_place s1 n n) | m. m \<in> macs x1 \<and> hdr_type s1 n \<notin> hdr_type s1 ` L n} = {(n, m, None) | m. m \<in> macs x}"
    using bare_macs [OF x1(2)] n(2) by (simp add: rt_place_def)
  obtain s2 where 2: "clear_all_rt_rule_for_one_peer_iface env n n s1 = Some s2" "same_shape s1 s2"
      "bridge_st env V RD L L (VR - {(n, m, None) | m. m \<in> macs x}) VC (E - {(n, n, m, ip) | m ip. True}) s2"
    using st_clear_rt [OF k 1(3) x1(1) fp v1] unfolding r1 by blast
  obtain x2 where x2: "find_if s2 n = Some x2" by (rule same_shape_Some [OF 2(2) x1(1)])
  define t where "t = s2\<lparr>l2l_world := eth_bridge_del_hdr_proc_ctx env (ctx_of s2 (n, None)) (l2l_world s2)\<rparr>"
  let ?VR = "VR - {(n, m, None) | m. m \<in> macs x}"
  have b: "flt_booked env V s2" "rt_booked env V ?VR s2" "ctx_booked V VC s2" and s2: "shape env RD L L s2" using 2(3) by (simp_all add: bridge_st_def)
  have d: "same_shape s2 t \<and> flt_rec t = flt_rec s2 \<and> flt_booked env V t \<and> rt_booked env V ?VR t \<and> ctx_booked V (VC - {(n, None)}) t"
    by (rule del_ctx_ok [OF k b vc t_def])
  then have "bridge_st env V RD L L ?VR (VC - {(n, None)}) (E - {(n, n, m, ip) | m ip. True}) t"
    using 2(3) shape_cong [OF _ s2] by (simp add: bridge_st_def)
  moreover have "same_core s t" using d same_shape_trans [OF same_shape_trans [OF 1(2) 2(2)]] same_shape_core by blast
  moreover have "ctx_of s2 (n, None) = hdr_proc_ctx_for_intra_interface x2" using x2 by (simp add: ctx_of_def)
  ultimately show ?thesis using 1(1) 2(1) x2 by (simp add: t_def)
qed

lemma iface_down_ok:
  assumes k: "bridge_kernel_ok (dev env) V" and inv: "bridge_inv env V s" and x: "find_if s n = Some x"
  shows "\<exists>t. handle_down_event env n s = Some t \<and> bridge_inv env V (without_iface n t) \<and> same_core (without_iface n s) (without_iface n t)"
proof -
  let ?L = "links_left n s" and ?rd = "RD_of s"
  have dist: "distinct (map l2l_ptr (m_iface s))" using inv by (simp add: bridge_inv_def bridge_st_def shape_def)
  note ls = left_sets [OF dist, of n]
  have Ln: "?L n = {}" "n \<notin> ?L i" for i by (simp_all add: links_left_def)
  obtain u where u: "(if m_support_inter_iface_offload x then do { s \<leftarrow> each (\<lambda>q. down_one_peer env n (peer q)) (m_peer_iface_info x) s; Some (upd_if n no_peers s) } else Some s) = Some u"
      "same_core s u" "bridge_st env V ?rd ?L ?L (VR_of ?L s) (VC_of ?L s) (E_of ?L s) u"
    using down_inter [OF k inv x] by blast
  have iu: "in_use ?L s x n sl \<longleftrightarrow> sl = None \<and> m_support_intra_iface_offload x" for sl by (simp add: in_use_def Ln split: option.split)
  have eqs: "VR_of ?L (without_iface n s) = VR_of ?L s - {(n, m, None) | m. m \<in> macs x \<and> m_support_intra_iface_offload x}"
      "VC_of ?L (without_iface n s) = VC_of ?L s - {z. z = (n, None) \<and> m_support_intra_iface_offload x}"
      "E_of ?L (without_iface n s) = E_of ?L s - {(n, n, m, ip) | m ip. m_support_intra_iface_offload x}"
    unfolding ls(3-5) using x by (auto simp: VR_of_def VC_of_def iu E_of_def flt_peer_def RD_of_def)
  let ?intra = "\<lambda>s. if m_support_intra_iface_offload x then do {
               s \<leftarrow> clear_all_flt_rule_for_one_peer_iface env n n s;
               s \<leftarrow> clear_all_rt_rule_for_one_peer_iface env n n s;
               x \<leftarrow> find_if s n;
               Some (s\<lparr>l2l_world := eth_bridge_del_hdr_proc_ctx env (hdr_proc_ctx_for_intra_interface x) (l2l_world s)\<rparr>)
             } else Some s"
  have "\<exists>v. ?intra u = Some v \<and> same_core u v \<and> bridge_st env V ?rd ?L ?L (VR_of ?L (without_iface n s)) (VC_of ?L (without_iface n s)) (E_of ?L (without_iface n s)) v"
  proof (cases "m_support_intra_iface_offload x")
    case True
    obtain x' where x': "find_if u n = Some x'" by (rule same_core_Some [OF u(2) x])
    have m: "macs x' = macs x" "m_is_ip_addr_assigned x' = m_is_ip_addr_assigned x" using core_macs [OF u(2) x x'] core_assigned [OF u(2) x x'] by simp_all
    have "\<exists>t. do { s \<leftarrow> clear_all_flt_rule_for_one_peer_iface env n n u; s \<leftarrow> clear_all_rt_rule_for_one_peer_iface env n n s; x \<leftarrow> find_if s n;
        Some (s\<lparr>l2l_world := eth_bridge_del_hdr_proc_ctx env (hdr_proc_ctx_for_intra_interface x) (l2l_world s)\<rparr>) } = Some t \<and> same_core u t \<and>
      bridge_st env V ?rd ?L ?L (VR_of ?L s - {(n, m, None) | m. m \<in> macs x'}) (VC_of ?L s - {(n, None)}) (E_of ?L s - {(n, n, m, ip) | m ip. True}) t"
      by (rule down_intra [OF k u(3) x'])
        (use True x m iu Ln in \<open>auto simp: RD_of_def VR_of_def VC_of_def E_of_def\<close>)
    then show ?thesis using True unfolding eqs m by simp
  next
    case False
    then show ?thesis using u(3) unfolding eqs by simp
  qed
  then obtain v where v: "?intra u = Some v" "same_core u v"
      "bridge_st env V ?rd ?L ?L (VR_of ?L (without_iface n s)) (VC_of ?L (without_iface n s)) (E_of ?L (without_iface n s)) v" by blast
  have sv: "same_core (without_iface n s) (without_iface n v)" by (rule same_core_without [OF same_core_trans [OF u(2) v(2)]])
  have "bridge_st env V (?rd - {n}) ?L ?L (VR_of ?L (without_iface n s)) (VC_of ?L (without_iface n s)) (E_of ?L (without_iface n s)) (without_iface n v)"
    by (rule st_without [OF v(3)]) (use Ln in \<open>auto simp: ls(3,4) E_of_def find_without [OF dist]\<close>)
  then have inv': "bridge_inv env V (without_iface n v)" using inv_core [OF _ sv] ls(1,2) by simp
  define t where "t = upd_if n (\<lambda>x. x\<lparr>m_client_info := []\<rparr>) v"
  have wt: "without_iface n t = without_iface n v" unfolding t_def by (rule without_upd) (simp add: l2l_ptr_def)
  have "handle_down_event env n s = do {
      s \<leftarrow> (if m_support_inter_iface_offload x then do { s \<leftarrow> each (\<lambda>q. down_one_peer env n (peer q)) (m_peer_iface_info x) s; Some (upd_if n no_peers s) } else Some s);
      s \<leftarrow> ?intra s; Some (upd_if n (\<lambda>x. x\<lparr>m_client_info := []\<rparr>) s) }"
    using x by (simp add: handle_down_event_def no_peers_def [abs_def])
  also have "\<dots> = Some t" unfolding u(1) using v(1) by (simp add: t_def)
  finally show ?thesis using inv' sv wt by auto
qed

lemma handle_iface_down_ok:
  assumes k: "bridge_kernel_ok (dev env) V" and inv: "bridge_inv env V s"
  shows "\<exists>t. handle_iface_down env d s = Some t \<and> bridge_inv env V t"
proof (cases "find_if s (lan_ptr (eb_iface d))")
  case None
  then show ?thesis using inv by (simp add: handle_iface_down_def clear_cached_client_add_event_def)
next
  case (Some x)
  then show ?thesis using iface_down_ok [OF k inv Some] by (auto simp: handle_iface_down_def without_iface_def)
qed

end
