(* ===== verification/LanToLan_Topology.thy ===== *)
theory LanToLan_Topology
  imports LanToLan_Down Op_Refinement
begin

text \<open>
  The change of the WLAN mode, and the specification of the bridge: which interfaces are up with which addresses and clients, and
  which rules and processing contexts that calls for. Every event leads from a state that implements the topology to one that
  implements the next topology.
\<close>

section \<open>Change of the WLAN mode\<close>

text \<open>
  A step that rewrites routing rules and nothing else: from the modes \<open>M\<close> in the state \<open>s\<close> to the modes \<open>M'\<close> in the world \<open>w\<close>.
\<close>

definition rewritten ::
  "'w bridge_env \<Rightarrow> 'w kernel_view \<Rightarrow> (nat \<times> mac \<times> ipa_hdr_l2_type option) set \<Rightarrow> 'w set \<Rightarrow> 'w lan2lan \<Rightarrow> (rt_slot \<Rightarrow> bool set) \<Rightarrow> 'w \<Rightarrow> bool" where
  "rewritten env V VR W s M w \<longleftrightarrow> w \<in> W \<and> rt_booked_in env V M VR (s\<lparr>l2l_world := w\<rparr>) \<and>
     flt_at V w = flt_at V (l2l_world s) \<and> ctx_at V w = ctx_at V (l2l_world s)"

lemma rewritten_mono:
  assumes "rewritten env V VR W s M w" and "\<And>z. z \<in> dom (rt_rec VR s) \<Longrightarrow> M z \<subseteq> M' z"
  shows "rewritten env V VR W s M' w"
proof -
  have "rt_rec VR (s\<lparr>l2l_world := w\<rparr>) = rt_rec VR s" by (auto simp: fun_eq_iff rt_rec_def)
  then have "exact_in (rt_rec VR s) (rt_contents env M' (lans s) (ctx_of s)) (rt_at V w)"
    using exact_in_mono [of "rt_rec VR s" "rt_contents env M (lans s) (ctx_of s)" "rt_at V w" "rt_contents env M' (lans s) (ctx_of s)"] assms
    unfolding rewritten_def rt_booked_in_def rt_contents_def by (simp add: dom_def image_mono)
  then show ?thesis using assms(1) \<open>rt_rec VR (s\<lparr>l2l_world := w\<rparr>) = rt_rec VR s\<close> by (simp add: rewritten_def rt_booked_in_def)
qed

lemma st_rewritten:
  assumes st: "bridge_st env V RD PL LK VR VC E s" and w: "rewritten env V VR W s (\<lambda>_. modes env) w"
  shows "bridge_st env V RD PL LK VR VC E (s\<lparr>l2l_world := w\<rparr>)"
proof -
  let ?t = "s\<lparr>l2l_world := w\<rparr>"
  have b: "shape env RD PL LK s" "flt_booked env V s" "ctx_booked V VC s" using st by (simp_all add: bridge_st_def)
  have "flt_booked env V ?t" by (rule flt_booked_cong [OF b(2)]) (use w in \<open>simp_all add: rewritten_def\<close>)
  moreover have "rt_booked env V VR ?t" using w by (simp add: rewritten_def)
  moreover have "ctx_booked V VC ?t" by (rule ctx_booked_cong [OF b(3)]) (use w in \<open>simp_all add: rewritten_def\<close>)
  moreover have "shape env RD PL LK ?t" by (rule shape_cong [OF _ b(1)]) simp
  ultimately show ?thesis using st by (simp add: bridge_st_def)
qed

text \<open>The rules of one client, for the IP types \<open>ips\<close> and for both.\<close>

definition repointed :: "nat \<Rightarrow> (mac \<times> ipa_hdr_l2_type option \<times> ipa_ip_type) set \<Rightarrow> bool set \<Rightarrow> (rt_slot \<Rightarrow> bool set) \<Rightarrow> rt_slot \<Rightarrow> bool set" where
  "repointed i S B M = (\<lambda>(j, m, sl, ip, n). if j = i \<and> (m, sl, ip) \<in> S then B else M (j, m, sl, ip, n))"

lemma repointed_empty [simp]: "repointed i {} B M = M"
  by (auto simp: repointed_def)

lemma repointed_twice [simp]: "repointed i S B (repointed i S' B M) = repointed i (S \<union> S') B M"
  by (auto simp: repointed_def fun_eq_iff)

lemma modify_one_ok:
  assumes k: "bridge_kernel_ok (dev env) V" and st: "steady env B W" and w: "rewritten env V VR W s M w"
    and v: "(i, m, sl) \<in> VR" and x: "find_if s i = Some x" "lan_ok (dev env) (m_p_iface x)" and c: "l2l_client x m = Some c"
  shows "rewritten env V VR W s (repointed i {(m, sl, ip)} B M)
    (eth_bridge_modify_rt_rule env (m_p_iface x) m (ctx_of s (i, sl)) (slot_type (lans s) i sl) ip
       (rule_hdl (slot_info sl c) ip) (num_hdl (slot_info sl c) ip) w)"
proof -
  let ?l = "m_p_iface x" and ?t = "slot_type (lans s) i sl" and ?ctx = "ctx_of s (i, sl)" and ?r = "slot_info sl c"
  let ?n = "each_client_rt_rule_count ?l ip" and ?M' = "repointed i {(m, sl, ip)} B M" and ?name = "rt_tbl env (lans s) i sl ip"
  let ?w' = "eth_bridge_modify_rt_rule env ?l m ?ctx ?t ip (rule_hdl ?r ip) (num_hdl ?r ip) w"
  let ?qs = "map (\<lambda>n. (i, m, sl, ip, n)) [0..<?n]"
  have L: "lans s i = Some ?l" using x by (simp add: lans_def)
  have cr: "client_rec s i m = Some c" using x c by (simp add: client_rec_def)
  have rr: "rt_rec VR (s\<lparr>l2l_world := u\<rparr>) = rt_rec VR s" for u by (auto simp: fun_eq_iff rt_rec_def)
  have in_w: "w \<in> W" and val: "rt_valid VR s" and e: "exact_in (rt_rec VR s) (rt_contents env M (lans s) (ctx_of s)) (rt_at V w)"
    using w by (simp_all add: rewritten_def rt_booked_in_def rt_valid_def rr)
  have num: "num_hdl ?r ip = int ?n" "?n \<le> length (rule_hdl ?r ip)"
    using val v L cr unfolding rt_valid_def by fastforce+
  have rec: "rt_rec VR s (i, m, sl, ip, n) = (if n < ?n then Some (ip, rule_hdl ?r ip ! n) else None)" for n
    using v cr num(1) by (simp add: rt_rec_def info_hdl_def)
  have B: "\<exists>b. b \<in> B" using steadyD(1) [OF st in_w] by blast
  have "?w' \<in> W \<and> exact_in (rt_rec VR s) (rt_contents env ?M' (lans s) (ctx_of s)) (rt_at V ?w') \<and>
      flt_at V ?w' = flt_at V w \<and> ctx_at V ?w' = ctx_at V w"
  proof (rule eth_bridge_modify_rt_rule_ok [where qs = ?qs and name = ?name, OF k x(2) st in_w num e])
    show "length ?qs = ?n" "distinct ?qs" by (simp_all add: distinct_map inj_on_def)
    fix n assume "n < length ?qs"
    then have n: "n < ?n" by simp
    show "rt_rec VR s (?qs ! n) = Some (ip, rule_hdl ?r ip ! n)" using n rec by simp
    show "fst y = ?name" if "y \<in> rt_contents env M (lans s) (ctx_of s) (?qs ! n)" for y
      using that n by (auto simp: rt_contents_def rt_content_def)
    show "(?name, want_rt env mcc ?l m ?ctx ?t ip ! n) \<in> rt_contents env ?M' (lans s) (ctx_of s) (?qs ! n)" if "mcc \<in> B" for mcc
      using that n L by (auto simp: rt_contents_def rt_content_def repointed_def)
  next
    fix q assume q: "rt_rec VR s q \<noteq> None" "\<not> is_wlan ?l \<or> q \<notin> set ?qs"
    obtain j m' sl' ip' n where z: "q = (j, m', sl', ip', n)" by (cases q)
    show "rt_contents env M (lans s) (ctx_of s) q \<subseteq> rt_contents env ?M' (lans s) (ctx_of s) q"
    proof (cases "(j, m', sl', ip') = (i, m, sl, ip)")
      case True
      then have "n < ?n" using q(1) rec [of n] by (auto simp: z split: if_splits)
      then have "\<not> is_wlan ?l" using q(2) True by (auto simp: z)
      then have "rt_content env mcc (lans s) (ctx_of s) q = rt_content env b (lans s) (ctx_of s) q" for mcc b
        using True L by (simp add: z rt_content_def want_rt_def pipe_of_def)
      then show ?thesis using B True unfolding rt_contents_def z repointed_def by fastforce
    next
      case False
      then show ?thesis by (auto simp: rt_contents_def z repointed_def)
    qed
  qed
  then show ?thesis using w val by (simp add: rewritten_def rt_booked_in_def rr rt_valid_def)
qed

lemma modify_both_ok:
  assumes k: "bridge_kernel_ok (dev env) V" and st: "steady env B W" and w: "rewritten env V VR W s M w"
    and v: "(i, m, sl) \<in> VR" and x: "find_if s i = Some x" "lan_ok (dev env) (m_p_iface x)" and c: "l2l_client x m = Some c"
  shows "rewritten env V VR W s (repointed i ({m} \<times> {sl} \<times> UNIV) B M)
    (modify_both env (m_p_iface x) m (ctx_of s (i, sl)) (slot_type (lans s) i sl) (slot_info sl c) w)"
proof -
  have "{m} \<times> {sl} \<times> UNIV = {(m, sl, IPA_IP_v6)} \<union> {(m, sl, IPA_IP_v4)}" unfolding UNIV_ip_type by blast
  then show ?thesis
    using modify_one_ok [OF k st modify_one_ok [OF k st w v x c, of IPA_IP_v4] v x c, of IPA_IP_v6] by (simp add: modify_both_def)
qed

lemma modify_clients_ok:
  assumes k: "bridge_kernel_ok (dev env) V" and st: "steady env B W" and x: "find_if s i = Some x" "lan_ok (dev env) (m_p_iface x)"
    and d: "distinct (map c_mac (m_client_info x))" and v: "\<And>m. m \<in> macs x \<Longrightarrow> (i, m, sl) \<in> VR"
    and w: "rewritten env V VR W s M w" and cs: "set cs \<subseteq> set (m_client_info x)"
  shows "rewritten env V VR W s (repointed i (c_mac ` set cs \<times> {sl} \<times> UNIV) B M)
    (fold (\<lambda>c. modify_both env (m_p_iface x) (c_mac c) (ctx_of s (i, sl)) (slot_type (lans s) i sl) (slot_info sl c)) cs w)"
  using w cs
proof (induction cs arbitrary: w M)
  case (Cons c cs)
  have c: "l2l_client x (c_mac c) = Some c" using d Cons.prems(2) by (simp add: l2l_client_def look_member)
  have vc: "(i, c_mac c, sl) \<in> VR" using v Cons.prems(2) by (auto simp: macs_def)
  have "c_mac ` set (c # cs) \<times> {sl} \<times> UNIV = c_mac ` set cs \<times> {sl} \<times> UNIV \<union> {c_mac c} \<times> {sl} \<times> (UNIV :: ipa_ip_type set)" by auto
  then show ?case using Cons.IH [OF modify_both_ok [OF k st Cons.prems(1) vc x c]] Cons.prems(2) by simp
qed simp

text \<open>The whole handler: all rules for clients of the interface lead to the pipe of a mode in \<open>B\<close> afterwards.\<close>

lemma mode_switch_peers:
  fixes s :: "'w lan2lan"
  assumes k: "bridge_kernel_ok (dev env) V" and inv: "bridge_inv env V s" and x: "find_if s i = Some x"
    and st: "steady env B W" "l2l_world s \<in> W"
  shows "\<exists>flag w. each (modify_for_peer env x) (m_peer_iface_info x) ([], s) = Some (flag, s\<lparr>l2l_world := w\<rparr>) \<and>
    hdr_type s ` full s i \<subseteq> set flag \<and>
    rewritten env V (VR_of (full s) s) W s (repointed i (macs x \<times> Some ` set flag \<times> UNIV) B (\<lambda>_. modes env)) w"
proof -
  let ?VR = "VR_of (full s) s" and ?f = "full s"
  let ?R = "\<lambda>flag. rewritten env V ?VR W s (repointed i (macs x \<times> Some ` set flag \<times> UNIV) B (\<lambda>_. modes env))"
  have sh: "shape env (RD_of s) ?f ?f s" and b: "rt_booked env V ?VR s" using inv by (simp_all add: bridge_inv_def bridge_st_def)
  have v: "(i, m, sl) \<in> ?VR \<longleftrightarrow> m \<in> macs x \<and> in_use ?f s x i sl" for m sl using x by (auto simp: VR_of_def)
  define J where "J = (\<lambda>(pre :: peer_iface_info list) (ft :: ipa_hdr_l2_type list \<times> 'w lan2lan).
    \<exists>w. snd ft = s\<lparr>l2l_world := w\<rparr> \<and> hdr_type s ` peer ` set pre \<subseteq> set (fst ft) \<and> ?R (fst ft) w)"
  have "\<exists>ft. each (modify_for_peer env x) (m_peer_iface_info x) ([], s) = Some ft \<and> J (m_peer_iface_info x) ft"
  proof (rule each_inv)
    show "J [] ([], s)" using b st(2) by (auto simp: J_def rewritten_def intro: exI [of _ "l2l_world s"])
  next
    fix pre q rest ft assume qs: "m_peer_iface_info x = pre @ q # rest" and J: "J pre ft"
    obtain flag w where ft: "ft = (flag, s\<lparr>l2l_world := w\<rparr>)" "hdr_type s ` peer ` set pre \<subseteq> set flag" "?R flag w"
      using J by (cases ft) (auto simp: J_def)
    have p: "peer q \<in> ?f i" using shapeD(6) [OF sh x] qs by auto
    obtain y where y: "find_if s (peer q) = Some y" using full_find(1) [OF p] by blast
    let ?t = "hdr_type s (peer q)"
    have t: "l2_type (m_p_iface y) = ?t" using y by (simp add: hdr_type_def lans_def)
    have vt: "(i, m, Some ?t) \<in> ?VR" if "m \<in> macs x" for m using that p v by (simp add: in_use_def)
    have sets: "c_mac ` set (m_client_info x) \<times> {Some ?t} \<times> UNIV \<union> macs x \<times> Some ` set flag \<times> UNIV = macs x \<times> Some ` set (?t # flag) \<times> (UNIV :: ipa_ip_type set)"
      by (auto simp: macs_def)
    have mod: "?R (?t # flag) (fold (\<lambda>c. modify_both env (m_p_iface x) (c_mac c) (hdr_proc_ctx_for_inter_interface x ?t) ?t (inter_iface_rt_rule_hdl c ?t)) (m_client_info x) w)"
      using modify_clients_ok [OF k st(1) x shapeD(1,4) [OF sh x] vt ft(3), of "m_client_info x"] x unfolding repointed_twice sets
      by (simp add: ctx_of_def slot_type_def slot_info_def)
    show "\<exists>u. modify_for_peer env x q ft = Some u \<and> J (pre @ [q]) u"
      using y t ft mod by (cases "?t \<in> set flag") (auto simp: modify_for_peer_def J_def Let_def)
  qed
  then obtain ft where "each (modify_for_peer env x) (m_peer_iface_info x) ([], s) = Some ft" "J (m_peer_iface_info x) ft" by blast
  then show ?thesis using shapeD(6) [OF sh x] by (cases ft) (auto simp: J_def)
qed

lemma mode_switch_ok:
  assumes k: "bridge_kernel_ok (dev env) V" and inv: "bridge_inv env V s" and x: "find_if s i = Some x"
    and st: "steady env B W" "l2l_world s \<in> W"
  shows "\<exists>w. iface_handle_wlan_scc_mcc_switch env i s = Some (s\<lparr>l2l_world := w\<rparr>) \<and>
    rewritten env V (VR_of (full s) s) W s (\<lambda>z. if fst z = i then B else modes env) w"
proof -
  let ?VR = "VR_of (full s) s" and ?f = "full s" and ?U = "UNIV :: ipa_ip_type set"
  let ?R = "\<lambda>S. rewritten env V ?VR W s (repointed i S B (\<lambda>_. modes env))"
  have sh: "shape env (RD_of s) ?f ?f s" and b: "rt_booked env V ?VR s" using inv by (simp_all add: bridge_inv_def bridge_st_def)
  have v: "(i, m, sl) \<in> ?VR \<longleftrightarrow> m \<in> macs x \<and> in_use ?f s x i sl" for m sl using x by (auto simp: VR_of_def)
  obtain flag w where w: "each (modify_for_peer env x) (m_peer_iface_info x) ([], s) = Some (flag, s\<lparr>l2l_world := w\<rparr>)"
      "hdr_type s ` ?f i \<subseteq> set flag" "?R (macs x \<times> Some ` set flag \<times> ?U) w"
    using mode_switch_peers [OF assms] by blast
  define w1 where "w1 = (if m_support_inter_iface_offload x then w else l2l_world s)"
  define S1 where "S1 = (if m_support_inter_iface_offload x then macs x \<times> Some ` set flag \<times> ?U else {})"
  have w1: "?R S1 w1"
      "(if m_support_inter_iface_offload x then map_option snd (each (modify_for_peer env x) (m_peer_iface_info x) ([], s)) else Some s) = Some (s\<lparr>l2l_world := w1\<rparr>)"
    using w b st(2) by (simp_all add: w1_def S1_def rewritten_def)
  define w2 where "w2 = fold (\<lambda>c. modify_both env (m_p_iface x) (c_mac c) (hdr_proc_ctx_for_intra_interface x) (l2_type (m_p_iface x)) (intra_iface_rt_rule_hdl c)) (m_client_info x) w1"
  have w2: "?R (macs x \<times> {None} \<times> ?U \<union> S1) w2" if "m_support_intra_iface_offload x"
  proof -
    have vn: "(i, m, None) \<in> ?VR" if "m \<in> macs x" for m using that v \<open>m_support_intra_iface_offload x\<close> by (simp add: in_use_def)
    have "lans s i = Some (m_p_iface x)" using x by (simp add: lans_def)
    then show ?thesis
      using modify_clients_ok [OF k st(1) x shapeD(1,4) [OF sh x] vn w1(1), of "m_client_info x"] x
      by (simp add: ctx_of_def slot_type_def slot_info_def w2_def macs_def)
  qed
  define w3 where "w3 = (if m_support_intra_iface_offload x then w2 else w1)"
  define S3 where "S3 = (if m_support_intra_iface_offload x then macs x \<times> {None} \<times> ?U \<union> S1 else S1)"
  have "?R S3 w3" using w1(1) w2 by (simp add: w3_def S3_def)
  moreover have "repointed i S3 B (\<lambda>_. modes env) z \<subseteq> (if fst z = i then B else modes env)" if z: "z \<in> dom (rt_rec ?VR s)" for z
  proof -
    obtain j m sl ip n where zz: "z = (j, m, sl, ip, n)" by (cases z)
    have "(m, sl, ip) \<in> S3" if "j = i"
    proof -
      have "(i, m, sl) \<in> ?VR" using z \<open>j = i\<close> by (auto simp: zz rt_rec_def split: if_splits)
      then have m: "m \<in> macs x" and use: "in_use ?f s x i sl" by (simp_all add: v)
      show ?thesis
      proof (cases sl)
        case None
        then show ?thesis using m use by (simp add: S3_def in_use_def)
      next
        case (Some t)
        then have t: "t \<in> hdr_type s ` ?f i" using use by (simp add: in_use_def)
        then have "m_support_inter_iface_offload x" using full_not_inter [OF x] by blast
        then show ?thesis using m t w(2) Some by (auto simp: S3_def S1_def)
      qed
    qed
    then show ?thesis by (auto simp: zz repointed_def)
  qed
  ultimately have "rewritten env V ?VR W s (\<lambda>z. if fst z = i then B else modes env) w3" by (rule rewritten_mono)
  moreover have "iface_handle_wlan_scc_mcc_switch env i s = Some (s\<lparr>l2l_world := w3\<rparr>)"
    using x unfolding iface_handle_wlan_scc_mcc_switch_def by (simp add: w1(2) w2_def w3_def)
  ultimately show ?thesis by blast
qed

lemma inv_rewritten:
  assumes inv: "bridge_inv env V s" and w: "rewritten env V (VR_of (full s) s) W s (\<lambda>_. modes env) w"
  shows "bridge_inv env V (s\<lparr>l2l_world := w\<rparr>)"
proof -
  have "bridge_st env V (RD_of s) (full s) (full s) (VR_of (full s) s) (VC_of (full s) s) (E_of (full s) s) s" using inv by (simp only: bridge_inv_def)
  moreover have "same_shape s (s\<lparr>l2l_world := w\<rparr>)" by simp
  ultimately show ?thesis by (rule invI [OF st_rewritten [OF _ w]])
qed

lemma switch_event_ok:
  assumes k: "bridge_kernel_ok (dev env) V" and inv: "bridge_inv env V s" and st: "steady env B W" "l2l_world s \<in> W"
  shows "\<exists>w. handle_wlan_scc_mcc_switch env d s = Some (s\<lparr>l2l_world := w\<rparr>) \<and>
    rewritten env V (VR_of (full s) s) W s (\<lambda>z. if fst z = lan_ptr (eb_iface d) then B else modes env) w"
proof (cases "find_if s (lan_ptr (eb_iface d))")
  case None
  have b: "rt_booked env V (VR_of (full s) s) s" using inv by (simp add: bridge_inv_def bridge_st_def)
  have "rewritten env V (VR_of (full s) s) W s (\<lambda>z. if fst z = lan_ptr (eb_iface d) then B else modes env) (l2l_world s)"
  proof (rule rewritten_mono)
    show "rewritten env V (VR_of (full s) s) W s (\<lambda>_. modes env) (l2l_world s)" using b st(2) by (simp add: rewritten_def)
    fix z assume "z \<in> dom (rt_rec (VR_of (full s) s) s)"
    then have "fst z \<noteq> lan_ptr (eb_iface d)" using None by (cases z) (auto simp: rt_rec_def VR_of_def split: if_splits)
    then show "modes env \<subseteq> (if fst z = lan_ptr (eb_iface d) then B else modes env)" by simp
  qed
  then show ?thesis using None by (intro exI [of _ "l2l_world s"]) (simp add: handle_wlan_scc_mcc_switch_def)
next
  case (Some x)
  then show ?thesis using mode_switch_ok [OF k inv Some st] by (simp add: handle_wlan_scc_mcc_switch_def)
qed

section \<open>The topology\<close>

text \<open>
  What a user of the bridge sees: the interfaces that are up, the IP types they have an address for, whether packets are forwarded
  to other interfaces and between its own clients, and their clients; and the clients waiting for their interface.
\<close>

record topo_iface =
  t_lan :: lan
  t_addr :: "ipa_ip_type \<Rightarrow> bool"
  t_inter :: bool
  t_intra :: bool
  t_macs :: "mac list"

record topology =
  t_ifs :: "topo_iface list"
  t_waiting :: "ipacm_event_eth_bridge list"

definition t_ptr :: "topo_iface \<Rightarrow> nat" where "t_ptr x = lan_ptr (t_lan x)"

definition t_find :: "topology \<Rightarrow> nat \<Rightarrow> topo_iface option" where "t_find T p = look t_ptr p (t_ifs T)"

definition t_upd :: "nat \<Rightarrow> (topo_iface \<Rightarrow> topo_iface) \<Rightarrow> topology \<Rightarrow> topology" where
  "t_upd p f T = T\<lparr>t_ifs := upd_node t_ptr p f (t_ifs T)\<rparr>"

definition add_mac :: "mac \<Rightarrow> mac list \<Rightarrow> mac list" where
  "add_mac m ms = (if m \<in> set ms \<or> length ms = MAX_NUM_CLIENT then ms else m # ms)"

definition servable :: "lan \<Rightarrow> bool" where
  "servable l \<longleftrightarrow> tx_prop l \<noteq> None \<and> rx_prop l \<noteq> None \<and> l2_type l \<noteq> IPA_HDR_L2_NONE \<and> l2_type l \<noteq> IPA_HDR_L2_MAX"

definition of_iface :: "nat \<Rightarrow> ipacm_event_eth_bridge \<Rightarrow> bool" where
  "of_iface p d \<longleftrightarrow> lan_ptr (eb_iface d) = p"

definition topo_up :: "ipacm_event_eth_bridge \<Rightarrow> topology \<Rightarrow> topology" where
  "topo_up d T =
     (let l = eb_iface d; p = lan_ptr l in
      if t_find T p \<noteq> None then t_upd p (\<lambda>x. x\<lparr>t_addr := (t_addr x)(eb_iptype d := True)\<rparr>) T
      else if length (t_ifs T) = MAX_NUM_IFACE \<or> \<not> servable l then T
      else \<lparr>t_ifs = \<lparr>t_lan = l, t_addr = (\<lambda>_. False)(eb_iptype d := True), t_inter = (\<not> (is_wlan l \<and> is_guest_ap l)), t_intra = is_wlan l,
                    t_macs = fold (\<lambda>e. add_mac (eb_mac e)) (filter (of_iface p) (t_waiting T)) []\<rparr> # t_ifs T,
            t_waiting = filter (\<lambda>e. \<not> of_iface p e) (t_waiting T)\<rparr>)"

definition topo_down :: "ipacm_event_eth_bridge \<Rightarrow> topology \<Rightarrow> topology" where
  "topo_down d T =
     (let p = lan_ptr (eb_iface d) in
      if t_find T p \<noteq> None then T\<lparr>t_ifs := del_node t_ptr p (t_ifs T)\<rparr> else T\<lparr>t_waiting := filter (\<lambda>e. \<not> of_iface p e) (t_waiting T)\<rparr>)"

definition topo_client_add :: "ipacm_event_eth_bridge \<Rightarrow> topology \<Rightarrow> topology" where
  "topo_client_add d T =
     (let p = lan_ptr (eb_iface d) in
      if t_find T p \<noteq> None then t_upd p (\<lambda>x. x\<lparr>t_macs := add_mac (eb_mac d) (t_macs x)\<rparr>) T
      else if length (t_waiting T) < MAX_NUM_CACHED_CLIENT_ADD_EVENT then T\<lparr>t_waiting := d # t_waiting T\<rparr> else T)"

definition topo_client_del :: "ipacm_event_eth_bridge \<Rightarrow> topology \<Rightarrow> topology" where
  "topo_client_del d T = t_upd (lan_ptr (eb_iface d)) (\<lambda>x. x\<lparr>t_macs := remove1 (eb_mac d) (t_macs x)\<rparr>) T"

definition topo_step :: "ipa_cm_event_id \<times> ipacm_event_eth_bridge \<Rightarrow> topology \<Rightarrow> topology" where
  "topo_step = (\<lambda>(event, d) T.
     (case event of
        IPA_ETH_BRIDGE_IFACE_UP \<Rightarrow> topo_up d T
      | IPA_ETH_BRIDGE_IFACE_DOWN \<Rightarrow> topo_down d T
      | IPA_ETH_BRIDGE_CLIENT_ADD \<Rightarrow> topo_client_add d T
      | IPA_ETH_BRIDGE_CLIENT_DEL \<Rightarrow> topo_client_del d T
      | _ \<Rightarrow> T))"

text \<open>The topology of a state.\<close>

definition topo_if :: "l2l_iface \<Rightarrow> topo_iface" where
  "topo_if x = \<lparr>t_lan = m_p_iface x, t_addr = m_is_ip_addr_assigned x, t_inter = m_support_inter_iface_offload x,
     t_intra = m_support_intra_iface_offload x, t_macs = map c_mac (m_client_info x)\<rparr>"

definition topo :: "'w lan2lan \<Rightarrow> topology" where
  "topo s = \<lparr>t_ifs = map topo_if (m_iface s), t_waiting = m_cached_client_add_event s\<rparr>"

lemma topo_ptr [simp]: "t_ptr (topo_if x) = l2l_ptr x"
  by (simp add: t_ptr_def topo_if_def l2l_ptr_def)

lemma topo_core: "topo_if (core x) = topo_if x"
  by (simp add: topo_if_def core_def bare_def bare_client_def)

lemma topo_same_core:
  assumes "same_core s t"
  shows "topo t = topo s"
proof -
  have "map topo_if (map core (m_iface t)) = map topo_if (map core (m_iface s))" using assms by (simp only: same_core_def)
  then show ?thesis using assms by (simp add: topo_def same_core_def topo_core comp_def)
qed

lemmas topo_same_shape = topo_same_core [OF same_shape_core]

lemma look_map_key: "(\<And>x. key' (f x) = key x) \<Longrightarrow> look key' k (map f xs) = map_option f (look key k xs)"
  by (induction xs) auto

lemma topo_find: "t_find (topo s) p = map_option topo_if (find_if s p)"
  by (simp add: t_find_def topo_def find_if_def look_map_key)

lemma map_upd_comm:
  assumes "\<And>x. key' (g x) = key x" and "\<And>x. look key k xs = Some x \<Longrightarrow> g (f x) = f' (g x)"
  shows "map g (upd_node key k f xs) = upd_node key' k f' (map g xs)"
  using assms(2) by (induction xs) (auto simp: assms(1))

lemma topo_upd:
  assumes "\<And>x. find_if s p = Some x \<Longrightarrow> topo_if (f x) = f' (topo_if x)"
  shows "topo (upd_if p f s) = t_upd p f' (topo s)"
  using assms by (simp add: topo_def upd_if_def t_upd_def find_if_def map_upd_comm)

lemma t_upd_same:
  assumes "\<And>x. t_find T p = Some x \<Longrightarrow> f x = x"
  shows "t_upd p f T = T"
proof -
  have "upd_node t_ptr p f xs = xs" if "\<And>x. look t_ptr p xs = Some x \<Longrightarrow> f x = x" for xs using that by (induction xs) auto
  from this [of "t_ifs T"] show ?thesis using assms by (simp add: t_upd_def t_find_def)
qed

lemma t_find_upd:
  assumes "\<And>x. t_lan (f x) = t_lan x"
  shows "t_find (t_upd p f T) q = (if q = p then map_option f (t_find T p) else t_find T q)"
proof -
  have "t_ptr (f x) = t_ptr x" for x using assms by (simp add: t_ptr_def)
  then show ?thesis using look_upd [of t_ptr p f q "t_ifs T"] by (simp add: t_find_def t_upd_def)
qed

lemma t_ptr_macs [simp]: "t_ptr (x\<lparr>t_macs := ms\<rparr>) = t_ptr x"
  by (simp add: t_ptr_def)

lemma topo_without: "topo (without_iface n s) = (topo s)\<lparr>t_ifs := del_node t_ptr n (t_ifs (topo s))\<rparr>"
proof -
  have "map topo_if (del_node l2l_ptr n xs) = del_node t_ptr n (map topo_if xs)" for xs by (induction xs) auto
  then show ?thesis by (simp add: topo_def without_iface_def)
qed

section \<open>Every event implements its step\<close>

text \<open>Clients.\<close>

lemma client_add_topo:
  assumes k: "bridge_kernel_ok (dev env) V" and inv: "bridge_inv env V s" and x: "find_if s i = Some x"
  shows "\<exists>t. iface_handle_client_add env i m s = Some t \<and> bridge_inv env V t \<and> topo t = t_upd i (\<lambda>x. x\<lparr>t_macs := add_mac m (t_macs x)\<rparr>) (topo s)"
proof -
  define c where "c = (junk_client env (l2l_world s))\<lparr>c_mac := m\<rparr>"
  let ?full = "m \<in> macs x \<or> length (m_client_info x) = MAX_NUM_CLIENT"
  obtain t where t: "iface_handle_client_add env i m s = Some t" "bridge_inv env V t" "same_shape (if ?full then s else upd_if i (push_client c) s) t"
    using client_add_ok [OF k inv x, of m] unfolding c_def by blast
  have mm: "m \<in> set (map c_mac (m_client_info x)) \<longleftrightarrow> m \<in> macs x" by (simp add: macs_def)
  have "topo (if ?full then s else upd_if i (push_client c) s) = t_upd i (\<lambda>x. x\<lparr>t_macs := add_mac m (t_macs x)\<rparr>) (topo s)"
  proof (cases ?full)
    case True
    have "t_upd i (\<lambda>x. x\<lparr>t_macs := add_mac m (t_macs x)\<rparr>) (topo s) = topo s"
      by (rule t_upd_same) (use x True mm in \<open>auto simp: topo_find topo_if_def add_mac_def\<close>)
    then show ?thesis using True by simp
  next
    case False
    have "topo (upd_if i (push_client c) s) = t_upd i (\<lambda>x. x\<lparr>t_macs := add_mac m (t_macs x)\<rparr>) (topo s)"
      by (rule topo_upd) (use x False mm in \<open>auto simp: topo_if_def add_mac_def push_client_def c_def\<close>)
    then show ?thesis using False by simp
  qed
  then show ?thesis using t topo_same_shape [OF t(3)] by simp
qed

lemma client_del_topo:
  assumes k: "bridge_kernel_ok (dev env) V" and inv: "bridge_inv env V s" and x: "find_if s i = Some x"
  shows "\<exists>t. iface_handle_client_del env i m s = Some t \<and> bridge_inv env V t \<and> topo t = t_upd i (\<lambda>x. x\<lparr>t_macs := remove1 m (t_macs x)\<rparr>) (topo s)"
proof -
  obtain t where t: "iface_handle_client_del env i m s = Some t" "bridge_inv env V t" "same_shape (if m \<in> macs x then upd_if i (pop_client m) s else s) t"
    using client_del_ok [OF k inv x, of m] by blast
  have "topo (if m \<in> macs x then upd_if i (pop_client m) s else s) = t_upd i (\<lambda>x. x\<lparr>t_macs := remove1 m (t_macs x)\<rparr>) (topo s)"
  proof (cases "m \<in> macs x")
    case True
    have "topo (upd_if i (pop_client m) s) = t_upd i (\<lambda>x. x\<lparr>t_macs := remove1 m (t_macs x)\<rparr>) (topo s)"
      by (rule topo_upd) (simp add: topo_if_def pop_client_def keys_del)
    then show ?thesis using True by simp
  next
    case False
    have "remove1 m (map c_mac (m_client_info x)) = map c_mac (m_client_info x)" using False by (simp add: macs_def remove1_idem)
    then have "t_upd i (\<lambda>x. x\<lparr>t_macs := remove1 m (t_macs x)\<rparr>) (topo s) = topo s"
      by (intro t_upd_same) (use x in \<open>auto simp: topo_find topo_if_def\<close>)
    then show ?thesis using False by simp
  qed
  then show ?thesis using t topo_same_shape [OF t(3)] by simp
qed

text \<open>The clients that were added before their interface.\<close>

lemma topo_cached: "topo (s\<lparr>m_cached_client_add_event := es\<rparr>) = (topo s)\<lparr>t_waiting := es\<rparr>"
  by (simp add: topo_def)

lemma cached_loop_topo:
  assumes k: "bridge_kernel_ok (dev env) V" and "bridge_inv env V s" and "find_if s i \<noteq> None" and "m_cached_client_add_event s = rev kept @ ds"
  shows "\<exists>t. cached_loop env i kept ds s = Some t \<and> bridge_inv env V t \<and>
    topo t = \<lparr>t_ifs = upd_node t_ptr i (\<lambda>x. x\<lparr>t_macs := fold (\<lambda>e. add_mac (eb_mac e)) (filter (of_iface i) ds) (t_macs x)\<rparr>) (t_ifs (topo s)),
      t_waiting = rev kept @ filter (\<lambda>e. \<not> of_iface i e) ds\<rparr>"
  using assms(2-)
proof (induction ds arbitrary: kept s)
  case Nil
  have "upd_node t_ptr i (\<lambda>x. x) xs = xs" for xs by (induction xs) auto
  then show ?case using Nil by (simp add: topo_def)
next
  case (Cons d ds)
  show ?case
  proof (cases "of_iface i d")
    case True
    then have d: "lan_ptr (eb_iface d) = i" by (simp add: of_iface_def)
    obtain x where x: "find_if s i = Some x" using Cons.prems by auto
    obtain t where t: "iface_handle_client_add env i (eb_mac d) s = Some t" "bridge_inv env V t"
        "topo t = t_upd i (\<lambda>x. x\<lparr>t_macs := add_mac (eb_mac d) (t_macs x)\<rparr>) (topo s)"
      using client_add_topo [OF k Cons.prems(1) x] by blast
    let ?t = "t\<lparr>m_cached_client_add_event := rev kept @ ds\<rparr>"
    have "t_find (topo t) i \<noteq> None" using x unfolding t(3) by (simp add: t_find_upd topo_find)
    then have ft: "find_if t i \<noteq> None" by (simp add: topo_find)
    obtain u where u: "cached_loop env i kept ds ?t = Some u" "bridge_inv env V u"
        "topo u = \<lparr>t_ifs = upd_node t_ptr i (\<lambda>x. x\<lparr>t_macs := fold (\<lambda>e. add_mac (eb_mac e)) (filter (of_iface i) ds) (t_macs x)\<rparr>) (t_ifs (topo ?t)),
          t_waiting = rev kept @ filter (\<lambda>e. \<not> of_iface i e) ds\<rparr>"
      using Cons.IH [of ?t kept] t(2) ft by auto
    have "t_ifs (topo ?t) = upd_node t_ptr i (\<lambda>x. x\<lparr>t_macs := add_mac (eb_mac d) (t_macs x)\<rparr>) (t_ifs (topo s))" using t(3) by (simp add: topo_cached t_upd_def)
    then have "topo u = \<lparr>t_ifs = upd_node t_ptr i (\<lambda>x. x\<lparr>t_macs := fold (\<lambda>e. add_mac (eb_mac e)) (filter (of_iface i) (d # ds)) (t_macs x)\<rparr>) (t_ifs (topo s)),
          t_waiting = rev kept @ filter (\<lambda>e. \<not> of_iface i e) (d # ds)\<rparr>"
      using u(3) True by (simp add: upd_node_twice)
    moreover have "cached_loop env i kept (d # ds) s = Some u" using d x t(1) u(1) by (simp add: handle_client_add_def)
    ultimately show ?thesis using u(2) by blast
  next
    case False
    then have "lan_ptr (eb_iface d) \<noteq> i" by (simp add: of_iface_def)
    then show ?thesis using Cons.IH [of s "d # kept"] Cons.prems False by simp
  qed
qed

lemma iface_up_topo:
  assumes k: "bridge_kernel_ok (dev env) V" and inv: "bridge_inv env V s" and l: "lan_ok (dev env) (eb_iface d)"
  shows "\<exists>t. handle_iface_up env d s = Some t \<and> bridge_inv env V t \<and> topo t = topo_up d (topo s)"
proof (cases "find_if s (lan_ptr (eb_iface d))")
  case (Some x)
  let ?p = "lan_ptr (eb_iface d)" and ?ip = "eb_iptype d"
  obtain t where t: "activate_ip env ?p ?ip s = Some t" "bridge_inv env V t"
      "same_shape (if m_is_ip_addr_assigned x ?ip then s else upd_if ?p (set_assigned ?ip) s) t"
    using activate_ok [OF k inv Some, of ?ip] by blast
  have "topo (if m_is_ip_addr_assigned x ?ip then s else upd_if ?p (set_assigned ?ip) s) = t_upd ?p (\<lambda>x. x\<lparr>t_addr := (t_addr x)(?ip := True)\<rparr>) (topo s)"
  proof (cases "m_is_ip_addr_assigned x ?ip")
    case True
    then have "t_upd ?p (\<lambda>x. x\<lparr>t_addr := (t_addr x)(?ip := True)\<rparr>) (topo s) = topo s"
      by (intro t_upd_same) (use Some in \<open>auto simp: topo_find topo_if_def fun_upd_idem\<close>)
    then show ?thesis using True by simp
  next
    case False
    have "topo (upd_if ?p (set_assigned ?ip) s) = t_upd ?p (\<lambda>x. x\<lparr>t_addr := (t_addr x)(?ip := True)\<rparr>) (topo s)"
      by (rule topo_upd) (simp add: topo_if_def)
    then show ?thesis using False by simp
  qed
  then show ?thesis using t Some topo_same_shape [OF t(3)] by (simp add: handle_iface_up_def topo_up_def topo_find)
next
  case None
  let ?l = "eb_iface d" and ?p = "lan_ptr (eb_iface d)"
  have tx: "tx_list ?l \<noteq> []" using l by (simp add: lan_ok_def)
  have len: "length (t_ifs (topo s)) = length (m_iface s)" by (simp add: topo_def)
  show ?thesis
  proof (cases "length (m_iface s) = MAX_NUM_IFACE \<or> \<not> servable ?l")
    case True
    then have "handle_iface_up env d s = Some s" using None tx by (auto simp: handle_iface_up_def servable_def Let_def)
    then show ?thesis using inv None True len by (simp add: topo_up_def topo_find)
  next
    case False
    let ?front = "set_assigned (eb_iptype d) (new_l2l_iface env ?l (l2l_world s))"
    have rx: "rx_prop ?l \<noteq> None" using False by (simp add: servable_def)
    obtain t where t: "insert_iface env ?l (eb_iptype d) s = cached_loop env ?p [] (m_cached_client_add_event s) t" "bridge_inv env V t"
        "same_core (s\<lparr>m_iface := ?front # m_iface s\<rparr>) t"
      using iface_insert_ok [OF k inv None l rx] by blast
    have tt: "topo t = \<lparr>t_ifs = topo_if ?front # t_ifs (topo s), t_waiting = t_waiting (topo s)\<rparr>" using topo_same_core [OF t(3)] by (simp add: topo_def)
    have pf: "t_ptr (topo_if ?front) = ?p" by (simp add: l2l_ptr_def)
    have "find_if t ?p \<noteq> None" using topo_find [of t ?p] pf unfolding tt t_find_def by (cases "find_if t ?p") simp_all
    moreover have "m_cached_client_add_event t = rev [] @ m_cached_client_add_event s" using t(3) by (simp add: same_core_def)
    ultimately obtain u where u: "cached_loop env ?p [] (m_cached_client_add_event s) t = Some u" "bridge_inv env V u"
        "topo u = \<lparr>t_ifs = upd_node t_ptr ?p (\<lambda>x. x\<lparr>t_macs := fold (\<lambda>e. add_mac (eb_mac e)) (filter (of_iface ?p) (m_cached_client_add_event s)) (t_macs x)\<rparr>) (t_ifs (topo t)),
          t_waiting = rev [] @ filter (\<lambda>e. \<not> of_iface ?p e) (m_cached_client_add_event s)\<rparr>"
      using cached_loop_topo [OF k t(2)] by blast
    have fr: "topo_if ?front = \<lparr>t_lan = ?l, t_addr = (\<lambda>_. False)(eb_iptype d := True), t_inter = (\<not> (is_wlan ?l \<and> is_guest_ap ?l)), t_intra = is_wlan ?l, t_macs = []\<rparr>"
      by (simp add: topo_if_def set_assigned_def new_l2l_iface_def)
    have "t_waiting (topo s) = m_cached_client_add_event s" by (simp add: topo_def)
    then have "topo u = topo_up d (topo s)"
      using u(3) pf None False len unfolding tt fr by (simp add: topo_up_def topo_find t_ptr_def Let_def)
    moreover have "handle_iface_up env d s = Some u" using None False tx t(1) u(1) by (auto simp: handle_iface_up_def servable_def Let_def)
    ultimately show ?thesis using u(2) by blast
  qed
qed

lemma iface_down_topo:
  assumes k: "bridge_kernel_ok (dev env) V" and inv: "bridge_inv env V s"
  shows "\<exists>t. handle_iface_down env d s = Some t \<and> bridge_inv env V t \<and> topo t = topo_down d (topo s)"
proof (cases "find_if s (lan_ptr (eb_iface d))")
  case None
  then show ?thesis using inv
    by (simp add: handle_iface_down_def clear_cached_client_add_event_def topo_down_def topo_find topo_cached of_iface_def) (simp add: topo_def)
next
  case (Some x)
  let ?p = "lan_ptr (eb_iface d)"
  obtain t where t: "handle_down_event env ?p s = Some t" "bridge_inv env V (without_iface ?p t)" "same_core (without_iface ?p s) (without_iface ?p t)"
    using iface_down_ok [OF k inv Some] by blast
  have "topo (without_iface ?p t) = topo_down d (topo s)" using topo_same_core [OF t(3)] Some by (simp add: topo_without topo_down_def topo_find)
  then show ?thesis using t(1,2) Some by (simp add: handle_iface_down_def without_iface_def)
qed

text \<open>The admissible events: an interface that comes up can be served.\<close>

definition bridge_adm :: "'w bridge_env \<Rightarrow> ipa_cm_event_id \<times> ipacm_event_eth_bridge \<Rightarrow> bool" where
  "bridge_adm env = (\<lambda>(event, d). event = IPA_ETH_BRIDGE_IFACE_UP \<longrightarrow> lan_ok (dev env) (eb_iface d))"

definition bridge_rel :: "'w bridge_env \<Rightarrow> 'w kernel_view \<Rightarrow> 'w lan2lan \<Rightarrow> topology \<Rightarrow> bool" where
  "bridge_rel env V s T \<longleftrightarrow> bridge_kernel_ok (dev env) V \<and> bridge_inv env V s \<and> topo s = T"

lemma bridge_simulates:
  assumes rel: "bridge_rel env V s T" and adm: "bridge_adm env ev"
  shows "\<exists>t. bridge_event env ev s = Some t \<and> bridge_rel env V t (topo_step ev T)"
proof -
  obtain event d where ev: "ev = (event, d)" by (cases ev)
  have k: "bridge_kernel_ok (dev env) V" and inv: "bridge_inv env V s" and T: "T = topo s" using rel by (simp_all add: bridge_rel_def)
  have l: "lan_ok (dev env) (eb_iface d)" if "event = IPA_ETH_BRIDGE_IFACE_UP" using adm that by (simp add: ev bridge_adm_def)
  let ?p = "lan_ptr (eb_iface d)"
  have add: "\<exists>t. handle_client_add env d s = Some t \<and> bridge_inv env V t \<and> topo t = topo_client_add d (topo s)"
  proof (cases "find_if s ?p")
    case None
    then show ?thesis using inv by (auto simp: handle_client_add_def topo_client_add_def topo_find topo_cached) (simp_all add: topo_def)
  next
    case (Some x)
    then show ?thesis using client_add_topo [OF k inv Some, of "eb_mac d"] by (simp add: handle_client_add_def topo_client_add_def topo_find)
  qed
  have del: "\<exists>t. handle_client_del env d s = Some t \<and> bridge_inv env V t \<and> topo t = topo_client_del d (topo s)"
  proof (cases "find_if s ?p")
    case None
    then have "topo_client_del d (topo s) = topo s" unfolding topo_client_del_def by (intro t_upd_same) (simp add: topo_find)
    then show ?thesis using inv None by (simp add: handle_client_del_def)
  next
    case (Some x)
    then show ?thesis using client_del_topo [OF k inv Some, of "eb_mac d"] by (simp add: handle_client_del_def topo_client_del_def)
  qed
  have mode: "\<exists>t. handle_wlan_scc_mcc_switch env d s = Some t \<and> bridge_inv env V t \<and> topo t = topo s"
  proof -
    obtain w where w: "handle_wlan_scc_mcc_switch env d s = Some (s\<lparr>l2l_world := w\<rparr>)"
        "rewritten env V (VR_of (full s) s) UNIV s (\<lambda>z. if fst z = ?p then modes env else modes env) w"
      using switch_event_ok [OF k inv steady_any] by blast
    then show ?thesis using inv_rewritten [OF inv, of UNIV w] by (simp add: topo_def)
  qed
  show ?thesis
    using iface_up_topo [OF k inv l] iface_down_topo [OF k inv, of d] add del mode inv k
    by (cases event) (auto simp: ev T bridge_event_def topo_step_def bridge_rel_def)
qed

interpretation bridge: op_refinement "\<lambda>ev s. map_option (Pair ([] :: unit list)) (bridge_event env ev s)" "\<lambda>ev s. bridge_adm env ev"
  "bridge_rel env V" "\<lambda>ev T. ([], topo_step ev T)" for env :: "'w bridge_env" and V
proof unfold_locales
  fix s T ev assume "bridge_rel env V s T" "bridge_adm env ev"
  from bridge_simulates [OF this] show "\<exists>os t b. map_option (Pair []) (bridge_event env ev s) = Some (os, t) \<and> ([], topo_step ev T) = (os, b) \<and> bridge_rel env V t b"
    by auto
qed

end
