(* ===== verification/Bridge_Driver.thy ===== *)
theory Bridge_Driver
  imports Bridge_Kernel
begin

text \<open>
  A driver with association lists as tables that never fails: it keeps the contract of \<open>Bridge_Kernel\<close>, which is therefore
  consistent. The examples of the bridge run on it.
\<close>

record driver =
  k_flt :: "((ipa_ip_type \<times> ipa_hdl) \<times> nat \<times> ipa_flt_rule \<times> (ipa_ip_type \<times> string) option) list"
  k_rt :: "((ipa_ip_type \<times> ipa_hdl) \<times> string \<times> ipa_rt_rule) list"
  k_ctx :: "(ipa_hdl \<times> ipa_hdr_proc_type \<times> string option) list"
  k_tbl :: "(ipa_hdl \<times> ipa_ip_type \<times> string) list"
  k_hdr :: "(ipa_hdl \<times> string) list"

definition no_rules :: driver where
  "no_rules = \<lparr>k_flt = [], k_rt = [], k_ctx = [], k_tbl = [], k_hdr = []\<rparr>"

text \<open>A handle greater than all in use.\<close>

definition new_hdl :: "ipa_hdl list \<Rightarrow> ipa_hdl" where
  "new_hdl hs = Suc (fold max hs 0)"

lemma fold_max_ge: "n \<le> fold max hs n" "h \<in> set hs \<Longrightarrow> h \<le> fold max hs (n :: nat)"
proof (induction hs arbitrary: n)
  case (Cons a hs)
  { case 1 show ?case using Cons.IH(1) [of "max a n"] by simp }
  { case 2 show ?case using 2 Cons.IH(1) [of "max a n"] Cons.IH(2) [of "max a n"] by auto }
qed auto

lemma new_hdl_fresh: "h \<in> set hs \<Longrightarrow> h < new_hdl hs"
  using fold_max_ge(2) [of h hs 0] by (simp add: new_hdl_def)

lemma new_hdl_pos [simp]: "0 < new_hdl hs"
  by (simp add: new_hdl_def)

definition add_rt :: "ipa_ioc_add_rt_rule \<Rightarrow> driver \<Rightarrow> int \<times> ipa_hdl list \<times> driver" where
  "add_rt tbl w =
     (let b = new_hdl (map (\<lambda>e. snd (fst e)) (k_rt w)); hdls = map (\<lambda>j. b + j) [0..<length (art_rules tbl)]
      in (0, hdls, w\<lparr>k_rt := zip (map (Pair (art_ip tbl)) hdls) (map (Pair (art_tbl_name tbl)) (art_rules tbl)) @ k_rt w\<rparr>))"

definition mdfy_rt :: "ipa_ioc_mdfy_rt_rule \<Rightarrow> driver \<Rightarrow> int \<times> driver" where
  "mdfy_rt tbl w =
     (0, w\<lparr>k_rt := fold (\<lambda>e xs. map (\<lambda>(k, name, r). (k, name, if k = (mrt_ip tbl, fst e) then snd e else r)) xs) (mrt_rules tbl) (k_rt w)\<rparr>)"

definition add_flt_after :: "ipa_ioc_add_flt_rule_after \<Rightarrow> driver \<Rightarrow> int \<times> ipa_hdl list \<times> driver" where
  "add_flt_after tbl w =
     (case afa_rules tbl of
        [r] \<Rightarrow> let h = new_hdl (map (\<lambda>e. snd (fst e)) (k_flt w))
              in (0, [h], w\<lparr>k_flt := ((afa_ip tbl, h), afa_ep tbl, r\<lparr>fl_rt_tbl_hdl := 0\<rparr>, map_of (k_tbl w) (fl_rt_tbl_hdl r)) # k_flt w\<rparr>)
      | _ \<Rightarrow> (-1, [], w))"

definition ok_dev :: "driver ipa_dev" where
  "ok_dev =
     \<lparr>IPA_CLIENT_MAX = 50, QMI_IPA_MAX_FILTERS_EX_V01 = 128, dev_malloc = (\<lambda>w. (True, w)), rt_node_open = (\<lambda>_. True), hdr_node_open = (\<lambda>_. True),
      ioc_add_rt = add_rt, ioc_del_rt = (\<lambda>ip h w. (0, 0, w\<lparr>k_rt := filter (\<lambda>e. fst e \<noteq> (ip, h)) (k_rt w)\<rparr>)), ioc_mdfy_rt = mdfy_rt,
      ioc_commit_rt = (\<lambda>_ w. (0, w)), ioc_reset_rt = (\<lambda>_ w. (0, w)),
      ioc_get_rt_tbl = (\<lambda>ip name w. let h = new_hdl (map fst (k_tbl w)) in (0, h, w\<lparr>k_tbl := (h, ip, name) # k_tbl w\<rparr>)),
      ioc_put_rt_tbl = (\<lambda>_ w. (0, w)), ioc_add_flt = (\<lambda>_ w. (-1, [], w)), ioc_add_flt_after = add_flt_after,
      ioc_del_flt = (\<lambda>ip h w. (0, 0, w\<lparr>k_flt := filter (\<lambda>e. fst e \<noteq> (ip, h)) (k_flt w)\<rparr>)), ioc_mdfy_flt = (\<lambda>_ w. (0, w)),
      ioc_commit_flt = (\<lambda>_ w. (0, w)), ioc_reset_flt = (\<lambda>_ w. (0, w)), open_wwan = (\<lambda>w. (0, w)), ioc_add_flt_ex = (\<lambda>_ w. (0, w)),
      ioc_flt_index = (\<lambda>_ w. (0, w)), ioc_add_hdr = (\<lambda>_ w. (0, w)), ioc_del_hdr = (\<lambda>_ w. (0, 0, w)), ioc_commit_hdr = (\<lambda>w. (0, w)),
      ioc_reset_hdr = (\<lambda>w. (0, w)),
      ioc_get_hdr = (\<lambda>name w. let h = new_hdl (map fst (k_hdr w)) in (0, h, w\<lparr>k_hdr := (h, name) # k_hdr w\<rparr>)), ioc_copy_hdr = (\<lambda>_ w. (0, w)),
      ioc_add_hdr_proc_ctx = (\<lambda>type hdr w. let h = new_hdl (map fst (k_ctx w)) in (0, h, w\<lparr>k_ctx := (h, type, map_of (k_hdr w) hdr) # k_ctx w\<rparr>)),
      ioc_del_hdr_proc_ctx = (\<lambda>h w. (0, w\<lparr>k_ctx := filter (\<lambda>e. fst e \<noteq> h) (k_ctx w)\<rparr>))\<rparr>"

definition nonzero :: "('a \<times> ipa_hdl \<rightharpoonup> 'b) \<Rightarrow> 'a \<times> ipa_hdl \<rightharpoonup> 'b" where
  "nonzero m k = (if snd k = 0 then None else m k)"

definition ok_view :: "driver kernel_view" where
  "ok_view = \<lparr>flt_at = (\<lambda>w. nonzero (map_of (k_flt w))), rt_at = (\<lambda>w. nonzero (map_of (k_rt w))), ctx_at = (\<lambda>w. map_of (k_ctx w)),
     tbl_at = (\<lambda>w. map_of (k_tbl w)), hdr_at = (\<lambda>w. map_of (k_hdr w))\<rparr>"

lemma map_of_drop: "map_of (filter (\<lambda>e. fst e \<noteq> k) xs) = (map_of xs)(k := None)"
  by (induction xs) (auto simp: fun_eq_iff)

lemma nonzero_drop: "nonzero (m(k := None)) = (nonzero m)(k := None)"
  by (auto simp: nonzero_def fun_eq_iff)

lemma nonzero_add:
  assumes "\<And>k. k \<in> dom n \<Longrightarrow> snd k \<noteq> 0"
  shows "nonzero (m ++ n) = nonzero m ++ n"
proof (rule ext)
  fix k show "nonzero (m ++ n) k = (nonzero m ++ n) k"
    using assms [of k] by (cases "n k") (auto simp: nonzero_def map_add_def)
qed

lemma map_of_unused: "h \<notin> set (map (\<lambda>e. snd (fst e)) xs) \<Longrightarrow> map_of xs (ip, h) = None"
  by (induction xs) auto

lemma add_rt_ok: "add_rt_law ok_dev ok_view"
  unfolding add_rt_law_def
proof (intro allI)
  fix tbl :: ipa_ioc_add_rt_rule and w :: driver
  define b where "b = new_hdl (map (\<lambda>e. snd (fst e)) (k_rt w))"
  define hdls where "hdls = map (\<lambda>j. b + j) [0..<length (art_rules tbl)]"
  define new where "new = zip (map (Pair (art_ip tbl)) hdls) (map (Pair (art_tbl_name tbl)) (art_rules tbl))"
  have e: "ioc_add_rt ok_dev tbl w = (0, hdls, w\<lparr>k_rt := new @ k_rt w\<rparr>)" by (simp add: ok_dev_def add_rt_def Let_def b_def hdls_def new_def)
  have big: "b \<le> h" if "h \<in> set hdls" for h using that by (auto simp: hdls_def)
  have un: "map_of (k_rt w) (art_ip tbl, h) = None" if "h \<in> set hdls" for h
    using big [OF that] new_hdl_fresh [of h "map (\<lambda>e. snd (fst e)) (k_rt w)"] by (intro map_of_unused) (auto simp: b_def)
  have pos: "snd k \<noteq> 0" if d: "k \<in> dom (map_of new)" for k
  proof -
    obtain v where "map_of new k = Some v" using d by blast
    then have "snd k \<in> set hdls" by (auto simp: new_def dest!: map_of_SomeD set_zip_leftD)
    then have "b \<le> snd k" by (rule big)
    moreover have "0 < b" by (simp add: b_def)
    ultimately show ?thesis by simp
  qed
  have "length hdls = length (art_rules tbl)" "distinct hdls" by (simp_all add: hdls_def distinct_map inj_on_def)
  then show "\<exists>hdls w'. ioc_add_rt ok_dev tbl w = (0, hdls, w') \<and> length hdls = length (art_rules tbl) \<and> distinct hdls \<and>
        (\<forall>h\<in>set hdls. rt_at ok_view w (art_ip tbl, h) = None) \<and>
        rt_at ok_view w' = rt_at ok_view w ++ map_of (zip (map (Pair (art_ip tbl)) hdls) (map (Pair (art_tbl_name tbl)) (art_rules tbl))) \<and>
        flt_at ok_view w' = flt_at ok_view w \<and> ctx_at ok_view w' = ctx_at ok_view w"
    using e un nonzero_add [of "map_of new" "map_of (k_rt w)", OF pos]
    by (intro exI [of _ hdls] exI [of _ "w\<lparr>k_rt := new @ k_rt w\<rparr>"]) (auto simp: ok_view_def nonzero_def [of _ "(_, _)"] map_of_append simp flip: new_def)
qed

lemma nonzero_upd_some:
  "nonzero (m(k := map_option g (m k))) = (nonzero m)(k := map_option g (nonzero m k))"
  by (auto simp: nonzero_def fun_eq_iff)

lemma mdfy_one:
  "map_of (map (\<lambda>(k, name, r). (k, name, if k = key then r' else r)) xs) = (map_of xs)(key := map_option (\<lambda>nr. (fst nr, r')) (map_of xs key))"
  by (induction xs) (auto simp: fun_eq_iff)

lemma mdfy_rt_ok: "mdfy_rt_law ok_dev ok_view"
proof -
  have "nonzero (map_of (fold (\<lambda>e xs. map (\<lambda>(k, name, r). (k, name, if k = (ip, fst e) then snd e else r)) xs) es xs)) =
      fold (\<lambda>e m. m((ip, fst e) := map_option (\<lambda>nr. (fst nr, snd e)) (m (ip, fst e)))) es (nonzero (map_of xs))"
    for ip es and xs :: "((ipa_ip_type \<times> ipa_hdl) \<times> string \<times> ipa_rt_rule) list"
    by (induction es arbitrary: xs) (simp_all add: mdfy_one nonzero_upd_some)
  then show ?thesis by (simp add: mdfy_rt_law_def ok_dev_def mdfy_rt_def ok_view_def)
qed

lemma map_of_new: "map_of xs (new_hdl (map fst xs)) = None"
  using new_hdl_fresh [of _ "map fst xs"] by (auto simp: map_of_eq_None_iff)

lemma map_of_new_pair: "map_of xs (ip, new_hdl (map (\<lambda>e. snd (fst e)) xs)) = None"
  by (rule map_of_unused) (use new_hdl_fresh in blast)

lemma add_flt_ok: "add_flt_law ok_dev ok_view"
  by (auto simp: add_flt_law_def ok_dev_def ok_view_def add_flt_after_def Let_def nonzero_def map_of_new_pair fun_eq_iff)

lemma ok_kernel: "bridge_kernel_ok ok_dev ok_view"
proof -
  have "handle_law ok_view" by (simp add: handle_law_def ok_view_def nonzero_def)
  moreover have "malloc_law ok_dev ok_view" by (simp add: malloc_law_def ok_dev_def same_tables_def)
  moreover have "del_rt_law ok_dev ok_view" by (simp add: del_rt_law_def ok_dev_def ok_view_def map_of_drop nonzero_drop)
  moreover have "rt_tables_law ok_dev ok_view" by (simp add: rt_tables_law_def ok_dev_def ok_view_def same_tables_def Let_def)
  moreover have "del_flt_law ok_dev ok_view" by (simp add: del_flt_law_def ok_dev_def ok_view_def map_of_drop nonzero_drop)
  moreover have "add_ctx_law ok_dev ok_view" by (simp add: add_ctx_law_def ok_dev_def ok_view_def same_tables_def Let_def map_of_new)
  moreover have "del_ctx_law ok_dev ok_view" by (simp add: del_ctx_law_def ok_dev_def ok_view_def map_of_drop)
  moreover have "rt_node_open ok_dev w" "hdr_node_open ok_dev w" for w by (simp_all add: ok_dev_def)
  ultimately show ?thesis using add_rt_ok mdfy_rt_ok add_flt_ok by (simp add: bridge_kernel_ok_def)
qed

end
