(* ===== verification/LanToLan_Props.thy ===== *)
theory LanToLan_Props
  imports LanToLan_Topology Bridge_Driver
begin

text \<open>
  What the bridge promises: after any sequence of events the tables of the driver hold exactly the rules and processing contexts
  that the topology calls for, packets find their way to every client, and nothing is left when all interfaces are down.
\<close>

section \<open>What a topology calls for\<close>

definition topo_lan :: "topology \<Rightarrow> nat \<Rightarrow> lan option" where
  "topo_lan T i = map_option t_lan (t_find T i)"

definition linked :: "topology \<Rightarrow> nat \<Rightarrow> nat \<Rightarrow> bool" where
  "linked T i p \<longleftrightarrow> i \<noteq> p \<and> (\<exists>x y. t_find T i = Some x \<and> t_find T p = Some y \<and> t_inter x \<and> t_inter y)"

definition reaches :: "topology \<Rightarrow> nat \<Rightarrow> nat \<Rightarrow> bool" where
  "reaches T i p \<longleftrightarrow> (if p = i then \<exists>x. t_find T i = Some x \<and> t_intra x else linked T i p)"

text \<open>A filter rule on an interface for every client it can reach and every IP type it has an address for.\<close>

definition want_filters :: "topology \<Rightarrow> flt_slot set" where
  "want_filters T = {(i, p, m, ip). \<exists>x y. t_find T i = Some x \<and> t_find T p = Some y \<and> m \<in> set (t_macs y) \<and> t_addr x ip \<and> reaches T i p}"

text \<open>A processing context on an interface for every header type that packets to it come with; \<open>None\<close> stands for the interface's own.\<close>

definition want_ctxs :: "topology \<Rightarrow> ctx_slot set" where
  "want_ctxs T = {(i, sl). case sl of None \<Rightarrow> reaches T i i | Some h \<Rightarrow> \<exists>p. linked T p i \<and> h = l2_type (the (topo_lan T p))}"

text \<open>Routing rules for every client and each of these header types, one per transmit property of the IP type.\<close>

definition want_routes :: "topology \<Rightarrow> rt_slot set" where
  "want_routes T = {(i, m, sl, ip, n). (i, sl) \<in> want_ctxs T \<and>
     (\<exists>x. t_find T i = Some x \<and> m \<in> set (t_macs x) \<and> n < each_client_rt_rule_count (t_lan x) ip)}"

text \<open>
  Exactly these are installed: each under one handle, and every handle of the tables is one of them. The pipe of a routing rule is
  that of a mode in \<open>M\<close> of the interface: \<open>pipe_of\<close> gives the alternative pipe for WLAN interfaces in MCC mode only.
\<close>

definition installed_in :: "'w bridge_env \<Rightarrow> 'w kernel_view \<Rightarrow> (nat \<Rightarrow> bool set) \<Rightarrow> 'w \<Rightarrow> topology \<Rightarrow> bool" where
  "installed_in env V M w T \<longleftrightarrow> (\<exists>f g h.
     bij_betw f (want_filters T) (dom (flt_at V w)) \<and> (\<forall>z\<in>want_filters T. flt_at V w (f z) = Some (flt_content env (topo_lan T) z)) \<and>
     bij_betw g (want_ctxs T) (dom (ctx_at V w)) \<and> (\<forall>z\<in>want_ctxs T. ctx_at V w (g z) = Some (ctx_content (topo_lan T) z)) \<and>
     bij_betw h (want_routes T) (dom (rt_at V w)) \<and>
     (\<forall>z\<in>want_routes T. \<exists>mcc\<in>M (fst z). rt_at V w (h z) = Some (rt_content env mcc (topo_lan T) g z)))"

text \<open>In general with the pipes of a mode that the WLAN can be in; this is one rule when the mode never changes.\<close>

definition installed :: "'w bridge_env \<Rightarrow> 'w kernel_view \<Rightarrow> 'w \<Rightarrow> topology \<Rightarrow> bool" where
  "installed env V w T \<longleftrightarrow> installed_in env V (\<lambda>_. modes env) w T"

lemma topo_lan_topo [simp]: "topo_lan (topo s) = lans s"
  by (auto simp: topo_lan_def topo_find lans_def fun_eq_iff option.map_comp comp_def topo_if_def)

lemma topo_if_simps [simp]:
  "t_lan (topo_if x) = m_p_iface x" "t_addr (topo_if x) = m_is_ip_addr_assigned x" "t_inter (topo_if x) = m_support_inter_iface_offload x"
  "t_intra (topo_if x) = m_support_intra_iface_offload x" "set (t_macs (topo_if x)) = macs x"
  by (simp_all add: topo_if_def macs_def)

lemma linked_full: "linked (topo s) i p \<longleftrightarrow> p \<in> full s i"
  by (auto simp: linked_def full_def topo_find)

lemma reaches_flt_peer: "reaches (topo s) i p \<longleftrightarrow> flt_peer (RD_of s) (full s) i p"
  by (auto simp: reaches_def flt_peer_def linked_full RD_of_def topo_find)

lemma want_filters_topo: "want_filters (topo s) = E_of (full s) s"
  by (auto simp: want_filters_def E_of_def reaches_flt_peer topo_find)

lemma want_ctxs_topo: "want_ctxs (topo s) = VC_of (full s) s"
proof (rule set_eqI)
  fix z :: ctx_slot
  obtain i sl where z: "z = (i, sl)" by (cases z)
  have "(\<exists>p. linked (topo s) p i \<and> h = l2_type (the (lans s p))) \<longleftrightarrow> h \<in> hdr_type s ` full s i" for h
    using full_sym [of _ s i] by (auto simp: linked_full hdr_type_def image_iff)
  then show "z \<in> want_ctxs (topo s) \<longleftrightarrow> z \<in> VC_of (full s) s"
    using full_find(2) [of _ s i] by (cases sl) (auto simp: z want_ctxs_def VC_of_def in_use_def reaches_flt_peer flt_peer_def RD_of_def)
qed

lemma want_routes_topo:
  assumes "rt_valid (VR_of (full s) s) s"
  shows "want_routes (topo s) = dom (rt_rec (VR_of (full s) s) s)"
proof (rule set_eqI)
  fix z :: rt_slot
  obtain i m sl ip n where z: "z = (i, m, sl, ip, n)" by (cases z)
  show "z \<in> want_routes (topo s) \<longleftrightarrow> z \<in> dom (rt_rec (VR_of (full s) s) s)"
  proof (cases "(i, m, sl) \<in> VR_of (full s) s")
    case True
    then obtain l c where c: "lans s i = Some l" "client_rec s i m = Some c" "num_hdl (slot_info sl c) ip = int (each_client_rt_rule_count l ip)"
      using assms unfolding rt_valid_def by blast
    then show ?thesis using True
      by (auto simp: z want_routes_def want_ctxs_topo VR_of_def VC_of_def topo_find rt_rec_def info_hdl_def lans_def split: if_splits)
  next
    case False
    then show ?thesis by (auto simp: z want_routes_def want_ctxs_topo VR_of_def VC_of_def topo_find rt_rec_def split: if_splits)
  qed
qed

lemma inv_installed:
  assumes "bridge_inv env V s" and "rt_booked_in env V (\<lambda>z. M (fst z)) (VR_of (full s) s) s"
  shows "installed_in env V M (l2l_world s) (topo s)"
proof -
  let ?w = "l2l_world s" and ?VC = "VC_of (full s) s" and ?VR = "VR_of (full s) s"
  have b: "exact (flt_rec s) (flt_content env (lans s)) (flt_at V ?w)" "dom (flt_rec s) = E_of (full s) s"
      "exact_in (rt_rec ?VR s) (rt_contents env (\<lambda>z. M (fst z)) (lans s) (ctx_of s)) (rt_at V ?w)" "rt_valid ?VR s"
      "exact (ctx_rec ?VC s) (ctx_content (lans s)) (ctx_at V ?w)"
    using assms by (simp_all add: bridge_inv_def bridge_st_def flt_booked_def rt_booked_in_def ctx_booked_def)
  have f: "bij_betw (\<lambda>z. the (flt_rec s z)) (want_filters (topo s)) (dom (flt_at V ?w))"
      "\<forall>z\<in>want_filters (topo s). flt_at V ?w (the (flt_rec s z)) = Some (flt_content env (lans s) z)"
    using exact_bij [OF b(1)] exact_the [OF b(1)] unfolding b(2) want_filters_topo by simp_all
  have d: "dom (ctx_rec ?VC s) = ?VC" by (auto simp: ctx_rec_def split: if_splits)
  have "bij_betw (ctx_of s) ?VC (dom (ctx_at V ?w)) \<longleftrightarrow> bij_betw (\<lambda>z. the (ctx_rec ?VC s z)) ?VC (dom (ctx_at V ?w))"
    by (rule bij_betw_cong) (simp add: ctx_rec_def)
  then have g: "bij_betw (ctx_of s) (want_ctxs (topo s)) (dom (ctx_at V ?w))" using exact_bij [OF b(5)] by (simp add: d want_ctxs_topo)
  have g': "\<forall>z\<in>want_ctxs (topo s). ctx_at V ?w (ctx_of s z) = Some (ctx_content (lans s) z)"
    using exactD [OF b(5)] by (auto simp: want_ctxs_topo ctx_rec_def)
  have h: "bij_betw (\<lambda>z. the (rt_rec ?VR s z)) (want_routes (topo s)) (dom (rt_at V ?w))"
    using exact_in_bij [OF b(3)] by (simp add: want_routes_topo [OF b(4)])
  have h': "\<exists>mcc\<in>M (fst z). rt_at V ?w (the (rt_rec ?VR s z)) = Some (rt_content env mcc (lans s) (ctx_of s) z)"
    if z: "z \<in> want_routes (topo s)" for z
  proof -
    obtain k where k: "rt_rec ?VR s z = Some k" using z unfolding want_routes_topo [OF b(4)] by blast
    from exact_inD [OF b(3) k] show ?thesis unfolding rt_contents_def k option.sel by blast
  qed
  show ?thesis unfolding installed_in_def topo_lan_topo using f g g' h h' by blast
qed

lemma inv_installed_any:
  assumes "bridge_inv env V s"
  shows "installed env V (l2l_world s) (topo s)"
  unfolding installed_def by (rule inv_installed) (use assms in \<open>simp_all add: bridge_inv_def bridge_st_def\<close>)

section \<open>Runs\<close>

definition run_bridge :: "'w bridge_env \<Rightarrow> (ipa_cm_event_id \<times> ipacm_event_eth_bridge) list \<Rightarrow> 'w lan2lan \<Rightarrow> 'w lan2lan option" where
  "run_bridge env evs s = each (bridge_event env) evs s"

definition topo_start :: topology where "topo_start = \<lparr>t_ifs = [], t_waiting = []\<rparr>"

definition topo_run :: "(ipa_cm_event_id \<times> ipacm_event_eth_bridge) list \<Rightarrow> topology" where
  "topo_run evs = fold topo_step evs topo_start"

text \<open>The driver as the bridge finds it: the contract holds and the tables have no rules of the bridge.\<close>

definition fresh_kernel :: "'w ipa_dev \<Rightarrow> 'w kernel_view \<Rightarrow> 'w \<Rightarrow> bool" where
  "fresh_kernel d V w \<longleftrightarrow> bridge_kernel_ok d V \<and> flt_at V w = Map.empty \<and> rt_at V w = Map.empty \<and> ctx_at V w = Map.empty"

lemma run_ops_each: "run_ops (\<lambda>x s. map_option (Pair []) (f x s)) xs s = map_option (Pair []) (each f xs s)"
  by (induction xs arbitrary: s) (auto split: option.split)

lemma run_spec_fold: "run_spec (\<lambda>x a. ([], f x a)) xs a = ([], fold f xs a)"
  by (induction xs arbitrary: a) auto

lemma admissible_all: "(\<And>x. x \<in> set xs \<Longrightarrow> adm x) \<Longrightarrow> admissible_run exec (\<lambda>x s. adm x) xs s"
  by (induction xs arbitrary: s) (auto split: option.split)

lemma start_inv:
  assumes "fresh_kernel (dev env) V w"
  shows "bridge_inv env V (bridge_start w)"
proof -
  have f: "find_if (bridge_start w) i = None" for i by (simp add: bridge_start_def find_if_def)
  have e: "flt_rec (bridge_start w) = Map.empty" "rt_rec {} s = Map.empty" "ctx_rec {} s = Map.empty" for s :: "'a lan2lan"
    by (auto simp: flt_rec_def f rt_rec_def ctx_rec_def fun_eq_iff)
  have s: "RD_of (bridge_start w) = {}" "full (bridge_start w) = (\<lambda>_. {})" "VR_of LK (bridge_start w) = {}" "VC_of LK (bridge_start w) = {}"
      "E_of LK (bridge_start w) = {}" for LK
    by (auto simp: RD_of_def full_def VR_of_def VC_of_def E_of_def f fun_eq_iff)
  have w: "l2l_world (bridge_start w) = w" "m_iface (bridge_start w) = []" by (simp_all add: bridge_start_def)
  show ?thesis
    using assms by (simp add: bridge_inv_def bridge_st_def s shape_def f flt_booked_def tidy_def rt_booked_in_def rt_valid_def ctx_booked_def
        e w exact_empty exact_in_empty fresh_kernel_def)
qed

lemma run_implements:
  assumes k: "fresh_kernel (dev env) V w" and up: "\<forall>ev\<in>set evs. bridge_adm env ev"
  shows "\<exists>t. run_bridge env evs (bridge_start w) = Some t \<and> bridge_inv env V t \<and> topo t = topo_run evs"
proof -
  have "bridge_rel env V (bridge_start w) topo_start"
    using k start_inv [OF k] by (simp add: bridge_rel_def fresh_kernel_def topo_def bridge_start_def topo_start_def)
  from bridge.run_refines [OF this admissible_all] up
  have "\<exists>os t b. run_ops (\<lambda>ev s. map_option (Pair ([] :: unit list)) (bridge_event env ev s)) evs (bridge_start w) = Some (os, t) \<and>
      run_spec (\<lambda>ev T. ([], topo_step ev T)) evs topo_start = (os, b) \<and> bridge_rel env V t b" by blast
  then show ?thesis by (auto simp: run_ops_each run_spec_fold bridge_rel_def run_bridge_def topo_run_def)
qed

text \<open>The way of a packet through the tables.\<close>

lemma client_attrib_mac [simp]: "dst_mac_addr (client_attrib env e m a) = m"
  by (simp add: client_attrib_def)

definition hdr_name :: "lan \<Rightarrow> string" where
  "hdr_name l = (case tx_list l of [] \<Rightarrow> [] | tx # _ \<Rightarrow> tx_hdr_name tx)"

text \<open>
  A filter rule on the pipe of the source for the MAC address; in the routing table it leads to, a rule for this address that takes
  the packets to a pipe of the destination and through a context that turns one header into the other.
\<close>

definition forwards :: "bool set \<Rightarrow> 'w kernel_view \<Rightarrow> 'w \<Rightarrow> lan \<Rightarrow> lan \<Rightarrow> mac \<Rightarrow> ipa_ip_type \<Rightarrow> bool" where
  "forwards M V w from to m ip \<longleftrightarrow> (\<exists>rx fh r name rh rr tx mcc.
     rx_prop from = Some rx \<and> flt_at V w (ip, fh) = Some (rx_src_pipe rx, r, Some (ip, name)) \<and>
     fl_action r = IPA_PASS_TO_ROUTING \<and> dst_mac_addr (fl_attrib r) = m \<and>
     rt_at V w (ip, rh) = Some (name, rr) \<and> dst_mac_addr (rt_attrib rr) = m \<and>
     tx \<in> set (tx_list to) \<and> tx_ip tx = ip \<and> mcc \<in> M \<and> rt_dst rr = pipe_of to mcc tx \<and>
     ctx_at V w (rt_hdr_proc_ctx_hdl rr) = Some (eth_bridge_get_hdr_proc_type (l2_type from) (l2_type to), Some (hdr_name to)))"

lemma inv_forwards:
  assumes inv: "bridge_inv env V s" and z: "(i, p, m, ip) \<in> E_of (full s) s" and x: "find_if s i = Some x" and y: "find_if s p = Some y"
  shows "forwards (modes env) V (l2l_world s) (m_p_iface x) (m_p_iface y) m ip"
proof -
  let ?w = "l2l_world s" and ?VC = "VC_of (full s) s" and ?VR = "VR_of (full s) s" and ?sl = "rt_place s i p"
  have sh: "shape env (RD_of s) (full s) (full s) s"
    and b: "exact (flt_rec s) (flt_content env (lans s)) (flt_at V ?w)" "dom (flt_rec s) = E_of (full s) s"
      "exact_in (rt_rec ?VR s) (rt_contents env (\<lambda>_. modes env) (lans s) (ctx_of s)) (rt_at V ?w)" "rt_valid ?VR s" "exact (ctx_rec ?VC s) (ctx_content (lans s)) (ctx_at V ?w)"
    using inv by (simp_all add: bridge_inv_def bridge_st_def flt_booked_def rt_booked_in_def ctx_booked_def)
  have L: "lans s i = Some (m_p_iface x)" "lans s p = Some (m_p_iface y)" using x y by (simp_all add: lans_def)
  obtain rx where rx: "rx_prop (m_p_iface x) = Some rx" using shapeD(2) [OF sh x] by auto
  obtain key where key: "flt_rec s (i, p, m, ip) = Some key" using z unfolding b(2) [symmetric] by blast
  obtain fh where fh: "key = (ip, fh)" using key by (auto simp: flt_rec_def entry_hdl_def split: option.splits if_splits)
  have flt: "flt_at V ?w (ip, fh) = Some (want_flt env (m_p_iface x) m ip (flt_tbl env (lans s) i p ip))"
    using exactD [OF b(1) key] L by (simp add: fh flt_content_def)
  have m: "m \<in> macs y" and reach: "flt_peer (RD_of s) (full s) i p" using z x y by (auto simp: E_of_def)
  have use: "in_use (full s) s y p ?sl"
  proof (cases "p = i")
    case True
    then show ?thesis using reach y by (auto simp: in_use_def rt_place_def flt_peer_def RD_of_def)
  next
    case False
    then have "i \<in> full s p" using reach full_sym [of i s p] by (simp add: flt_peer_def)
    then show ?thesis using False by (simp add: in_use_def rt_place_def)
  qed
  have vr: "(p, m, ?sl) \<in> ?VR" and vc: "(p, ?sl) \<in> ?VC" using y m use by (auto simp: VR_of_def VC_of_def)
  obtain c where c: "client_rec s p m = Some c" "num_hdl (slot_info ?sl c) ip = int (each_client_rt_rule_count (m_p_iface y) ip)"
    using b(4) vr L(2) unfolding rt_valid_def by fastforce
  have pos: "0 < each_client_rt_rule_count (m_p_iface y) ip" using shapeD(1) [OF sh y] by (simp add: lan_ok_def)
  let ?rh = "rule_hdl (slot_info ?sl c) ip ! 0"
  have "rt_rec ?VR s (p, m, ?sl, ip, 0) = Some (ip, ?rh)" using vr c pos by (simp add: rt_rec_def info_hdl_def)
  from exact_inD [OF b(3) this] obtain mcc where mcc: "mcc \<in> modes env"
      "rt_at V ?w (ip, ?rh) = Some (rt_content env mcc (lans s) (ctx_of s) (p, m, ?sl, ip, 0))"
    unfolding rt_contents_def by blast
  define rr where "rr = want_rt env mcc (m_p_iface y) m (ctx_of s (p, ?sl)) (slot_type (lans s) p ?sl) ip ! 0"
  have rr: "rt_at V ?w (ip, ?rh) = Some (flt_tbl env (lans s) i p ip, rr)"
    using mcc(2) L(2) by (simp add: rt_content_def rt_place_tbl rr_def)
  define tx where "tx = filter (\<lambda>tx. tx_ip tx = ip) (tx_list (m_p_iface y)) ! 0"
  have len: "0 < length (filter (\<lambda>tx. tx_ip tx = ip) (tx_list (m_p_iface y)))" using pos by (simp add: each_client_rt_rule_count_def)
  have "tx \<in> set (filter (\<lambda>tx. tx_ip tx = ip) (tx_list (m_p_iface y)))" unfolding tx_def using len by (rule nth_mem)
  then have tx: "tx \<in> set (tx_list (m_p_iface y))" "tx_ip tx = ip" by simp_all
  have rm: "dst_mac_addr (rt_attrib rr) = m" "rt_hdr_proc_ctx_hdl rr = ctx_of s (p, ?sl)" "rt_dst rr = pipe_of (m_p_iface y) mcc tx"
    using len by (simp_all add: rr_def want_rt_def tx_def)
  have "ctx_rec ?VC s (p, ?sl) = Some (ctx_of s (p, ?sl))" using vc by (simp add: ctx_rec_def)
  from exactD [OF b(5) this] have "ctx_at V ?w (rt_hdr_proc_ctx_hdl rr) = Some (want_ctx (m_p_iface y) (slot_type (lans s) p ?sl))"
    using L(2) rm(2) by (simp add: ctx_content_def)
  moreover have "slot_type (lans s) p ?sl = l2_type (m_p_iface x)"
    using L by (cases "p = i") (simp_all add: slot_type_def rt_place_def hdr_type_def)
  ultimately have ctx: "ctx_at V ?w (rt_hdr_proc_ctx_hdl rr) = Some (eth_bridge_get_hdr_proc_type (l2_type (m_p_iface x)) (l2_type (m_p_iface y)), Some (hdr_name (m_p_iface y)))"
    by (simp add: want_ctx_def hdr_name_def)
  obtain r where r: "want_flt env (m_p_iface x) m ip (flt_tbl env (lans s) i p ip) = (rx_src_pipe rx, r, Some (ip, flt_tbl env (lans s) i p ip))"
      "fl_action r = IPA_PASS_TO_ROUTING" "dst_mac_addr (fl_attrib r) = m"
    using rx by (simp add: want_flt_def)
  show ?thesis unfolding forwards_def using rx flt [unfolded r(1)] r(2,3) rr rm(1,3) tx mcc(1) ctx by blast
qed

text \<open>The limits of a topology.\<close>

definition topo_iface_wf :: "topo_iface \<Rightarrow> bool" where
  "topo_iface_wf x \<longleftrightarrow> length (t_macs x) \<le> MAX_NUM_CLIENT \<and> distinct (t_macs x) \<and> servable (t_lan x)"

definition topo_wf :: "topology \<Rightarrow> bool" where
  "topo_wf T \<longleftrightarrow> length (t_ifs T) \<le> MAX_NUM_IFACE \<and> distinct (map t_ptr (t_ifs T)) \<and> (\<forall>x\<in>set (t_ifs T). topo_iface_wf x) \<and>
     length (t_waiting T) \<le> MAX_NUM_CACHED_CLIENT_ADD_EVENT"

lemma set_upd_node: "x \<in> set (upd_node key k f xs) \<Longrightarrow> x \<in> set xs \<or> (\<exists>y\<in>set xs. x = f y)"
  by (induction xs) (auto split: if_splits)

lemma topo_wf_upd:
  assumes "topo_wf T" and "\<And>x. topo_iface_wf x \<Longrightarrow> topo_iface_wf (f x)" and "\<And>x. t_ptr (f x) = t_ptr x"
  shows "topo_wf (t_upd p f T)"
proof -
  have "topo_iface_wf x" if "x \<in> set (upd_node t_ptr p f (t_ifs T))" for x using set_upd_node [OF that] assms(1,2) by (auto simp: topo_wf_def)
  then show ?thesis using assms(1,3) by (simp add: topo_wf_def t_upd_def)
qed

lemma add_mac_wf: "length ms \<le> MAX_NUM_CLIENT \<and> distinct ms \<Longrightarrow> length (add_mac m ms) \<le> MAX_NUM_CLIENT \<and> distinct (add_mac m ms)"
  by (simp add: add_mac_def)

lemma fold_add_mac_wf:
  "length ms \<le> MAX_NUM_CLIENT \<and> distinct ms \<Longrightarrow> length (fold (\<lambda>e. add_mac (g e)) es ms) \<le> MAX_NUM_CLIENT \<and> distinct (fold (\<lambda>e. add_mac (g e)) es ms)"
  by (induction es arbitrary: ms) (simp_all add: add_mac_wf)

lemma topo_up_wf:
  assumes "topo_wf T"
  shows "topo_wf (topo_up d T)"
proof -
  let ?l = "eb_iface d" and ?p = "lan_ptr (eb_iface d)"
  consider "t_find T ?p \<noteq> None" | "t_find T ?p = None" "length (t_ifs T) = MAX_NUM_IFACE \<or> \<not> servable ?l"
    | "t_find T ?p = None" "length (t_ifs T) \<noteq> MAX_NUM_IFACE" "servable ?l" by blast
  then show ?thesis
  proof cases
    case 1
    have "topo_wf (t_upd ?p (\<lambda>x. x\<lparr>t_addr := (t_addr x)(eb_iptype d := True)\<rparr>) T)"
      by (rule topo_wf_upd [OF assms]) (simp_all add: topo_iface_wf_def t_ptr_def)
    then show ?thesis using 1 by (simp add: topo_up_def Let_def)
  next
    case 2
    then show ?thesis using assms by (simp add: topo_up_def Let_def)
  next
    case 3
    let ?new = "\<lparr>t_lan = ?l, t_addr = (\<lambda>_. False)(eb_iptype d := True), t_inter = (\<not> (is_wlan ?l \<and> is_guest_ap ?l)), t_intra = is_wlan ?l,
      t_macs = fold (\<lambda>e. add_mac (eb_mac e)) (filter (of_iface ?p) (t_waiting T)) []\<rparr>"
    have "topo_iface_wf ?new" using 3(3) fold_add_mac_wf [of "[]" eb_mac] by (simp add: topo_iface_wf_def)
    moreover have "?p \<notin> t_ptr ` set (t_ifs T)" using 3(1) by (simp add: t_find_def look_None)
    moreover have "length (filter (\<lambda>e. \<not> of_iface ?p e) (t_waiting T)) \<le> MAX_NUM_CACHED_CLIENT_ADD_EVENT"
      using assms le_trans [OF length_filter_le] by (auto simp: topo_wf_def)
    moreover have "t_ptr ?new = ?p" by (simp add: t_ptr_def)
    ultimately have "topo_wf \<lparr>t_ifs = ?new # t_ifs T, t_waiting = filter (\<lambda>e. \<not> of_iface ?p e) (t_waiting T)\<rparr>"
      using assms 3(2) by (simp add: topo_wf_def)
    then show ?thesis using 3 by (simp add: topo_up_def Let_def)
  qed
qed

lemma length_del_node_le: "length (del_node f k xs) \<le> length xs"
  by (induction xs) auto

lemma topo_down_wf:
  assumes "topo_wf T"
  shows "topo_wf (topo_down d T)"
proof -
  let ?p = "lan_ptr (eb_iface d)"
  have "length (filter (\<lambda>e. \<not> of_iface ?p e) (t_waiting T)) \<le> MAX_NUM_CACHED_CLIENT_ADD_EVENT"
    using assms le_trans [OF length_filter_le] by (auto simp: topo_wf_def)
  moreover have "length (del_node t_ptr ?p (t_ifs T)) \<le> MAX_NUM_IFACE"
  proof (rule le_trans)
    show "length (del_node t_ptr ?p (t_ifs T)) \<le> length (t_ifs T)" by (rule length_del_node_le)
    show "length (t_ifs T) \<le> MAX_NUM_IFACE" using assms by (simp add: topo_wf_def)
  qed
  ultimately show ?thesis using assms set_del_subset [of t_ptr ?p "t_ifs T"]
    by (auto simp: topo_down_def topo_wf_def Let_def keys_del distinct_remove1)
qed

lemma topo_step_wf:
  assumes "topo_wf T"
  shows "topo_wf (topo_step ev T)"
proof -
  obtain event d where ev: "ev = (event, d)" by (cases ev)
  have add: "topo_wf (topo_client_add d T)"
  proof (cases "t_find T (lan_ptr (eb_iface d)) = None")
    case True
    then show ?thesis using assms by (simp add: topo_client_add_def topo_wf_def Let_def)
  next
    case False
    have "topo_wf (t_upd (lan_ptr (eb_iface d)) (\<lambda>x. x\<lparr>t_macs := add_mac (eb_mac d) (t_macs x)\<rparr>) T)"
      by (rule topo_wf_upd [OF assms]) (use add_mac_wf in \<open>simp_all add: topo_iface_wf_def t_ptr_def\<close>)
    then show ?thesis using False by (simp add: topo_client_add_def Let_def)
  qed
  have "length (remove1 m ms) \<le> MAX_NUM_CLIENT" if "length ms \<le> MAX_NUM_CLIENT" for m and ms :: "mac list"
    using that by (rule le_trans [rotated]) (simp add: length_remove1)
  then have del: "topo_wf (topo_client_del d T)"
    unfolding topo_client_del_def by (intro topo_wf_upd [OF assms]) (simp_all add: topo_iface_wf_def t_ptr_def distinct_remove1)
  show ?thesis using add del topo_up_wf [OF assms] topo_down_wf [OF assms] assms by (cases event) (simp_all add: ev topo_step_def)
qed

lemma topo_run_wf: "topo_wf (topo_run evs)"
proof -
  have "topo_wf (fold topo_step evs T)" if "topo_wf T" for T using that by (induction evs arbitrary: T) (simp_all add: topo_step_wf)
  moreover have "topo_wf topo_start" by (simp add: topo_start_def topo_wf_def)
  ultimately show ?thesis by (simp only: topo_run_def)
qed

section \<open>An example\<close>

text \<open>An Ethernet and a WLAN interface on the driver of \<open>Bridge_Driver\<close>.\<close>

definition ex_env :: "driver bridge_env" where
  "ex_env = \<lparr>dev = ok_dev, flt_rule_offset = (\<lambda>_ _ _. 7), isMCC_Mode = (\<lambda>_. False), IPA_FLT_MAC_DST_ADDR_ETHER_II = 0x2000,
     IPA_FLT_MAC_DST_ADDR_802_3 = 0x8000, IPA_RESOURCE_NAME_MAX = 32, junk_hdl = (\<lambda>_. 0), junk_int = (\<lambda>_. 0), junk_hdls = (\<lambda>_. []),
     junk_client = (\<lambda>_. \<lparr>c_mac = [], inter_iface_rt_rule_hdl = (\<lambda>_. \<lparr>num_hdl = (\<lambda>_. 0), rule_hdl = (\<lambda>_. [])\<rparr>),
        intra_iface_rt_rule_hdl = \<lparr>num_hdl = (\<lambda>_. 0), rule_hdl = (\<lambda>_. [])\<rparr>\<rparr>),
     junk_peer = (\<lambda>_. \<lparr>peer = 0, rt_tbl_name_for_rt = (\<lambda>_. []), rt_tbl_name_for_flt = (\<lambda>_. []), flt_rule = []\<rparr>)\<rparr>"

definition no_v6_env :: "driver bridge_env" where
  "no_v6_env = ex_env\<lparr>dev := ok_dev\<lparr>ioc_add_rt := (\<lambda>tbl w. if art_ip tbl = IPA_IP_v6 then (-1, [], w) else add_rt tbl w)\<rparr>\<rparr>"

definition ex_attrib :: ipa_rule_attrib where
  "ex_attrib = \<lparr>attrib_mask = 0, dst_mac_addr = [], dst_mac_addr_mask = [], attrib_rest = 0\<rparr>"

definition ex_lan :: "nat \<Rightarrow> bool \<Rightarrow> ipa_hdr_l2_type \<Rightarrow> lan" where
  "ex_lan p wlan h = \<lparr>lan_ptr = p, is_wlan = wlan, is_guest_ap = False,
     tx_prop = Some (map (\<lambda>ip. \<lparr>tx_ip = ip, tx_dst_pipe = p, tx_alt_dst_pipe = 9, tx_attrib = ex_attrib, tx_hdr_l2_type = h, tx_hdr_name = ''hdr''\<rparr>) [IPA_IP_v4, IPA_IP_v6]),
     rx_prop = Some \<lparr>rx_src_pipe = p + 20, rx_attrib = ex_attrib\<rparr>\<rparr>"

definition ex_eth :: ipacm_event_eth_bridge where
  "ex_eth = \<lparr>eb_iface = ex_lan 1 False IPA_HDR_L2_ETHERNET_II, eb_iptype = IPA_IP_v4, eb_mac = [1, 2, 3, 4, 5, 6]\<rparr>"

definition ex_wlan :: ipacm_event_eth_bridge where
  "ex_wlan = \<lparr>eb_iface = ex_lan 2 True IPA_HDR_L2_802_3, eb_iptype = IPA_IP_v4, eb_mac = [6, 5, 4, 3, 2, 1]\<rparr>"

definition ex_events :: "(ipa_cm_event_id \<times> ipacm_event_eth_bridge) list" where
  "ex_events = [(IPA_ETH_BRIDGE_CLIENT_ADD, ex_wlan), (IPA_ETH_BRIDGE_IFACE_UP, ex_eth), (IPA_ETH_BRIDGE_IFACE_UP, ex_wlan), (IPA_ETH_BRIDGE_CLIENT_ADD, ex_eth)]"

lemma ex_fresh: "fresh_kernel (dev ex_env) ok_view no_rules"
  using ok_kernel by (simp add: fresh_kernel_def ex_env_def ok_view_def no_rules_def nonzero_def fun_eq_iff)

lemma ex_lan_ok: "p \<le> 50 \<Longrightarrow> lan_ok (dev ex_env) (ex_lan p wl h)"
proof -
  assume "p \<le> 50"
  moreover have "each_client_rt_rule_count (ex_lan p wl h) ip = 1" for ip by (cases ip) (simp_all add: each_client_rt_rule_count_def tx_list_def ex_lan_def)
  ultimately show ?thesis by (simp add: lan_ok_def tx_list_def ex_lan_def ex_env_def ok_dev_def MAX_NUM_PROP_def)
qed

lemma ex_adm: "\<forall>ev\<in>set ex_events. bridge_adm ex_env ev"
  by (simp add: ex_events_def bridge_adm_def ex_eth_def ex_wlan_def ex_lan_ok)

lemmas ex_topo_simps = topo_run_def topo_start_def topo_step_def topo_client_add_def topo_client_del_def topo_up_def topo_down_def t_find_def t_upd_def
  of_iface_def t_ptr_def add_mac_def servable_def l2_type_def tx_list_def MAX_NUM_IFACE_def MAX_NUM_CLIENT_def MAX_NUM_CACHED_CLIENT_ADD_EVENT_def
  ex_events_def ex_eth_def ex_wlan_def ex_lan_def

lemma ex_modes: "modes ex_env = {False}"
  by (auto simp: ex_env_def)

lemma ex_topo: "topo_run ex_events = \<lparr>t_ifs =
    [\<lparr>t_lan = eb_iface ex_wlan, t_addr = (\<lambda>_. False)(IPA_IP_v4 := True), t_inter = True, t_intra = True, t_macs = [[6, 5, 4, 3, 2, 1]]\<rparr>,
     \<lparr>t_lan = eb_iface ex_eth, t_addr = (\<lambda>_. False)(IPA_IP_v4 := True), t_inter = True, t_intra = False, t_macs = [[1, 2, 3, 4, 5, 6]]\<rparr>],
    t_waiting = []\<rparr>"
  by (simp add: ex_topo_simps Let_def)

text \<open>The same in an environment in which the WLAN goes to MCC mode when there are filter rules.\<close>

definition mcc_env :: "driver bridge_env" where
  "mcc_env = ex_env\<lparr>isMCC_Mode := (\<lambda>w. k_flt w \<noteq> [])\<rparr>"

definition ex_pipes :: "driver lan2lan \<Rightarrow> (string \<times> nat) list" where
  "ex_pipes s = map (\<lambda>(k, name, r). (name, rt_dst r)) (k_rt (l2l_world s))"

lemma mcc_run:
  "map_option (\<lambda>s. (k_flt (l2l_world s) \<noteq> [], ex_pipes s, map_option ex_pipes (bridge_event mcc_env (IPA_ETH_BRIDGE_WLAN_SCC_MCC_SWITCH, ex_wlan) s)))
     (run_bridge mcc_env ex_events (bridge_start no_rules)) =
   Some (True,
     [(''eth_v6_802_3_to_ETH_II'', 1), (''eth_v4_802_3_to_ETH_II'', 1), (''eth_v6_intra_interface'', 9), (''eth_v4_intra_interface'', 9),
      (''eth_v6_ETH_II_to_802_3'', 2), (''eth_v4_ETH_II_to_802_3'', 2)],
     Some [(''eth_v6_802_3_to_ETH_II'', 1), (''eth_v4_802_3_to_ETH_II'', 1), (''eth_v6_intra_interface'', 9), (''eth_v4_intra_interface'', 9),
      (''eth_v6_ETH_II_to_802_3'', 9), (''eth_v4_ETH_II_to_802_3'', 9)])"
  by code_simp

lemma mcc_steady: "steady mcc_env {True} {w. k_flt w \<noteq> []}"
  by (simp add: steady_def mcc_env_def ex_env_def ok_dev_def mdfy_rt_def)

lemma mcc_fresh: "fresh_kernel (dev mcc_env) ok_view no_rules"
  using ex_fresh by (simp add: mcc_env_def)

lemma mcc_adm: "\<forall>ev\<in>set ex_events. bridge_adm mcc_env ev"
  using ex_adm by (simp add: bridge_adm_def mcc_env_def)

section \<open>Properties\<close>

text \<open>
  C2. On a driver whose calls all succeed as \<open>bridge_kernel_ok\<close> says and whose tables are empty at first, and for interfaces with one
  or two transmit properties per IP type to pipes that exist (\<open>lan_ok\<close>): after any sequence of events the bridge has made no invalid
  access; its interfaces, addresses and clients are those of the specification \<open>topo_run\<close>, and the tables of the driver hold exactly
  the filter rules, routing rules and processing contexts that this topology calls for. A routing rule leads to the pipe of its
  transmit property, and to the alternative pipe only for a WLAN interface and when \<open>isMCC_Mode\<close> can be set.
\<close>

theorem bridge_implements_topology:
  assumes "fresh_kernel (dev env) V w" and "\<forall>ev\<in>set evs. bridge_adm env ev"
  shows "\<exists>t. run_bridge env evs (bridge_start w) = Some t \<and> topo t = topo_run evs \<and> installed env V (l2l_world t) (topo_run evs)"
proof -
  obtain t where "run_bridge env evs (bridge_start w) = Some t" "bridge_inv env V t" "topo t = topo_run evs"
    using run_implements [OF assms] by blast
  then show ?thesis using inv_installed_any [of env V t] by simp
qed

theorem bridge_implements_topology_witness:
  "\<exists>t. run_bridge ex_env ex_events (bridge_start no_rules) = Some t \<and> topo t = topo_run ex_events \<and>
     installed ex_env ok_view (l2l_world t) (topo_run ex_events) \<and> map t_macs (t_ifs (topo_run ex_events)) = [[[6, 5, 4, 3, 2, 1]], [[1, 2, 3, 4, 5, 6]]]"
  using bridge_implements_topology [OF ex_fresh ex_adm] by (simp add: ex_topo)

text \<open>
  C5. After any such sequence, for every interface that reaches a client's interface and has an address of the IP type: there is a filter rule on
  its pipe for the client's MAC address, the routing table it leads to has a rule for that MAC address, the rule leads to a pipe of
  the destination (the alternative one only for WLAN in MCC mode), and its processing context turns the header of the source's type
  into that of the destination.
\<close>

theorem packets_reach_clients:
  assumes "fresh_kernel (dev env) V w" and "\<forall>ev\<in>set evs. bridge_adm env ev"
    and "t_find (topo_run evs) i = Some x" and "t_find (topo_run evs) p = Some y" and "reaches (topo_run evs) i p"
    and "t_addr x ip" and "m \<in> set (t_macs y)"
  shows "\<exists>t. run_bridge env evs (bridge_start w) = Some t \<and> forwards (modes env) V (l2l_world t) (t_lan x) (t_lan y) m ip"
proof -
  obtain t where t: "run_bridge env evs (bridge_start w) = Some t" "bridge_inv env V t" "topo t = topo_run evs"
    using run_implements [OF assms(1,2)] by blast
  obtain x' y' where xy: "find_if t i = Some x'" "x = topo_if x'" "find_if t p = Some y'" "y = topo_if y'"
    using assms(3,4) by (auto simp: topo_find simp flip: t(3))
  have "(i, p, m, ip) \<in> want_filters (topo t)" using assms(3-7) by (auto simp: want_filters_def t(3))
  then have "(i, p, m, ip) \<in> E_of (full t) t" by (simp add: want_filters_topo)
  from inv_forwards [OF t(2) this xy(1,3)] show ?thesis using t(1) xy(2,4) by simp
qed

theorem packets_reach_clients_witness:
  "\<exists>t. run_bridge ex_env ex_events (bridge_start no_rules) = Some t \<and>
     forwards {False} ok_view (l2l_world t) (eb_iface ex_eth) (eb_iface ex_wlan) [6, 5, 4, 3, 2, 1] IPA_IP_v4"
proof -
  have f: "t_find (topo_run ex_events) 1 = Some \<lparr>t_lan = eb_iface ex_eth, t_addr = (\<lambda>_. False)(IPA_IP_v4 := True), t_inter = True, t_intra = False, t_macs = [[1, 2, 3, 4, 5, 6]]\<rparr>"
    "t_find (topo_run ex_events) 2 = Some \<lparr>t_lan = eb_iface ex_wlan, t_addr = (\<lambda>_. False)(IPA_IP_v4 := True), t_inter = True, t_intra = True, t_macs = [[6, 5, 4, 3, 2, 1]]\<rparr>"
    by (simp_all add: ex_topo t_find_def t_ptr_def ex_eth_def ex_wlan_def ex_lan_def)
  have "reaches (topo_run ex_events) 1 2" using f by (simp add: reaches_def linked_def)
  from packets_reach_clients [OF ex_fresh ex_adm f this, of IPA_IP_v4 "[6, 5, 4, 3, 2, 1]"] show ?thesis unfolding ex_modes by simp
qed

text \<open>
  C7. When all interfaces have gone down again, none of the rules and contexts of the bridge is left in the tables of the driver.
\<close>

theorem bridge_leaves_nothing:
  assumes "fresh_kernel (dev env) V w" and "\<forall>ev\<in>set evs. bridge_adm env ev" and "t_ifs (topo_run evs) = []"
  shows "\<exists>t. run_bridge env evs (bridge_start w) = Some t \<and> m_iface t = [] \<and>
    flt_at V (l2l_world t) = Map.empty \<and> rt_at V (l2l_world t) = Map.empty \<and> ctx_at V (l2l_world t) = Map.empty"
proof -
  obtain t where t: "run_bridge env evs (bridge_start w) = Some t" "bridge_inv env V t" "topo t = topo_run evs"
    using run_implements [OF assms(1,2)] by blast
  have n: "t_find (topo t) i = None" for i using assms(3) by (simp add: t(3) t_find_def)
  have "want_filters (topo t) = {}" "want_ctxs (topo t) = {}" "want_routes (topo t) = {}"
    by (auto simp: want_filters_def want_ctxs_def want_routes_def linked_def reaches_def n split: option.splits)
  then have "dom (flt_at V (l2l_world t)) = {}" "dom (ctx_at V (l2l_world t)) = {}" "dom (rt_at V (l2l_world t)) = {}"
    using inv_installed_any [OF t(2)] by (auto simp: installed_def installed_in_def bij_betw_def)
  moreover have "m_iface t = []" using assms(3) arg_cong [OF t(3), of t_ifs] by (simp add: topo_def)
  ultimately show ?thesis using t(1) by simp
qed

theorem bridge_leaves_nothing_witness:
  "\<exists>t. run_bridge ex_env (ex_events @ [(IPA_ETH_BRIDGE_IFACE_DOWN, ex_eth), (IPA_ETH_BRIDGE_IFACE_DOWN, ex_wlan)]) (bridge_start no_rules) = Some t \<and>
     flt_at ok_view (l2l_world t) = Map.empty \<and> rt_at ok_view (l2l_world t) = Map.empty \<and> ctx_at ok_view (l2l_world t) = Map.empty"
proof -
  let ?evs = "ex_events @ [(IPA_ETH_BRIDGE_IFACE_DOWN, ex_eth), (IPA_ETH_BRIDGE_IFACE_DOWN, ex_wlan)]"
  have a: "\<forall>ev\<in>set ?evs. bridge_adm ex_env ev" using ex_adm by (auto simp: bridge_adm_def)
  have "topo_run ?evs = topo_step (IPA_ETH_BRIDGE_IFACE_DOWN, ex_wlan) (topo_step (IPA_ETH_BRIDGE_IFACE_DOWN, ex_eth) (topo_run ex_events))"
    by (simp add: topo_run_def)
  then have "t_ifs (topo_run ?evs) = []" by (simp add: ex_topo topo_step_def topo_down_def t_find_def t_ptr_def ex_eth_def ex_wlan_def ex_lan_def Let_def)
  from bridge_leaves_nothing [OF ex_fresh a this] show ?thesis by blast
qed

text \<open>
  C19. The state stays within its limits: at most \<open>MAX_NUM_IFACE\<close> interfaces with different addresses, at most \<open>MAX_NUM_CLIENT\<close>
  different clients each, header types that index the arrays of the classes, and at most \<open>MAX_NUM_CACHED_CLIENT_ADD_EVENT\<close> cached events.
\<close>

theorem bridge_within_limits:
  assumes "fresh_kernel (dev env) V w" and "\<forall>ev\<in>set evs. bridge_adm env ev"
  shows "\<exists>t. run_bridge env evs (bridge_start w) = Some t \<and> length (m_iface t) \<le> MAX_NUM_IFACE \<and> distinct (map l2l_ptr (m_iface t)) \<and>
    (\<forall>x\<in>set (m_iface t). length (m_client_info x) \<le> MAX_NUM_CLIENT \<and> distinct (map c_mac (m_client_info x)) \<and>
       l2_type (m_p_iface x) \<in> {IPA_HDR_L2_ETHERNET_II, IPA_HDR_L2_802_3}) \<and>
    length (m_cached_client_add_event t) \<le> MAX_NUM_CACHED_CLIENT_ADD_EVENT"
proof -
  obtain t where t: "run_bridge env evs (bridge_start w) = Some t" "topo t = topo_run evs"
    using run_implements [OF assms] by blast
  have wf: "topo_wf (topo t)" unfolding t(2) by (rule topo_run_wf)
  have "length (m_client_info x) \<le> MAX_NUM_CLIENT \<and> distinct (map c_mac (m_client_info x)) \<and> l2_type (m_p_iface x) \<in> {IPA_HDR_L2_ETHERNET_II, IPA_HDR_L2_802_3}"
    if "x \<in> set (m_iface t)" for x
  proof -
    have "topo_iface_wf (topo_if x)" using wf that by (simp add: topo_wf_def topo_def)
    then show ?thesis by (cases "l2_type (m_p_iface x)") (simp_all add: topo_iface_wf_def servable_def topo_if_def)
  qed
  moreover have "map t_ptr (map topo_if (m_iface t)) = map l2l_ptr (m_iface t)" by (simp add: comp_def)
  then have "distinct (map l2l_ptr (m_iface t))" using wf by (simp only: topo_wf_def topo_def topology.simps)
  ultimately show ?thesis using t(1) wf by (auto simp: topo_wf_def topo_def)
qed

theorem bridge_within_limits_witness:
  "\<exists>t. run_bridge ex_env ex_events (bridge_start no_rules) = Some t \<and> length (m_iface t) \<le> MAX_NUM_IFACE \<and>
     length (m_cached_client_add_event t) \<le> MAX_NUM_CACHED_CLIENT_ADD_EVENT"
  using bridge_within_limits [OF ex_fresh ex_adm] by blast

text \<open>
  C6. The change of the WLAN mode. Whatever the modes were while the rules were installed, when \<open>IPA_ETH_BRIDGE_WLAN_SCC_MCC_SWITCH\<close>
  has been handled for an interface in the mode \<open>mcc\<close>, all routing rules for its clients lead to the pipe of this mode, and the tables
  are otherwise those the topology calls for.
\<close>

theorem mode_switch_repoints:
  assumes "fresh_kernel (dev env) V w" and "\<forall>ev\<in>set evs. bridge_adm env ev" and "run_bridge env evs (bridge_start w) = Some s"
    and "steady env {mcc} W" and "l2l_world s \<in> W"
  shows "\<exists>t. bridge_event env (IPA_ETH_BRIDGE_WLAN_SCC_MCC_SWITCH, d) s = Some t \<and> topo t = topo_run evs \<and>
    installed_in env V (\<lambda>i. if i = lan_ptr (eb_iface d) then {mcc} else modes env) (l2l_world t) (topo_run evs)"
proof -
  let ?p = "lan_ptr (eb_iface d)"
  have k: "bridge_kernel_ok (dev env) V" using assms(1) by (simp add: fresh_kernel_def)
  have inv: "bridge_inv env V s" and topo: "topo s = topo_run evs" using run_implements [OF assms(1,2)] assms(3) by auto
  let ?M = "\<lambda>i. if i = ?p then {mcc} else modes env"
  obtain w' where w': "handle_wlan_scc_mcc_switch env d s = Some (s\<lparr>l2l_world := w'\<rparr>)"
      "rewritten env V (VR_of (full s) s) W s (\<lambda>z. ?M (fst z)) w'"
    using switch_event_ok [OF k inv assms(4,5)] by blast
  let ?t = "s\<lparr>l2l_world := w'\<rparr>"
  have "mcc \<in> modes env" using steadyD(1) [OF assms(4,5)] by blast
  then have "rewritten env V (VR_of (full s) s) W s (\<lambda>_. modes env) w'" by (intro rewritten_mono [OF w'(2)]) simp
  then have i: "bridge_inv env V ?t" by (rule inv_rewritten [OF inv])
  have same: "same_shape s ?t" by simp
  have "rt_booked_in env V (\<lambda>z. ?M (fst z)) (VR_of (full ?t) ?t) ?t"
    using w'(2) unfolding full_cong [OF same] VR_of_cong [OF same] rewritten_def by blast
  then have "installed_in env V ?M (l2l_world ?t) (topo ?t)" by (rule inv_installed [OF i])
  then show ?thesis using w'(1) topo by (simp add: bridge_event_def topo_def)
qed

theorem mode_switch_repoints_witness:
  "\<exists>s t. run_bridge mcc_env ex_events (bridge_start no_rules) = Some s \<and>
     bridge_event mcc_env (IPA_ETH_BRIDGE_WLAN_SCC_MCC_SWITCH, ex_wlan) s = Some t \<and>
     installed_in mcc_env ok_view (\<lambda>i. if i = 2 then {True} else modes mcc_env) (l2l_world t) (topo_run ex_events) \<and>
     (''eth_v4_ETH_II_to_802_3'', 2) \<in> set (ex_pipes s) \<and> (''eth_v4_ETH_II_to_802_3'', 9) \<in> set (ex_pipes t)"
proof -
  obtain s where s: "run_bridge mcc_env ex_events (bridge_start no_rules) = Some s" using mcc_run by (cases "run_bridge mcc_env ex_events (bridge_start no_rules)") simp_all
  note r = mcc_run [unfolded s option.map option.inject prod.inject]
  have "l2l_world s \<in> {w. k_flt w \<noteq> []}" using r by simp
  from mode_switch_repoints [OF mcc_fresh mcc_adm s mcc_steady this, of ex_wlan] obtain t where
    t: "bridge_event mcc_env (IPA_ETH_BRIDGE_WLAN_SCC_MCC_SWITCH, ex_wlan) s = Some t"
      "installed_in mcc_env ok_view (\<lambda>i. if i = lan_ptr (eb_iface ex_wlan) then {True} else modes mcc_env) (l2l_world t) (topo_run ex_events)" by blast
  have "lan_ptr (eb_iface ex_wlan) = 2" by (simp add: ex_wlan_def ex_lan_def)
  moreover have "(''eth_v4_ETH_II_to_802_3'', 2) \<in> set (ex_pipes s)" "(''eth_v4_ETH_II_to_802_3'', 9) \<in> set (ex_pipes t)"
    using r t(1) by (simp_all add: t(1))
  ultimately show ?thesis using s t by simp
qed

text \<open>
  C40. A client that is added and deleted before its interface is up comes back with the interface: the deletion does not look at
  the cached events.
\<close>

theorem departed_client_comes_back:
  assumes "fresh_kernel (dev env) V w" and "lan_ok (dev env) (eb_iface d)" and "servable (eb_iface d)"
  shows "\<exists>t x. run_bridge env [(IPA_ETH_BRIDGE_CLIENT_ADD, d), (IPA_ETH_BRIDGE_CLIENT_DEL, d), (IPA_ETH_BRIDGE_IFACE_UP, d)] (bridge_start w) = Some t \<and>
    find_if t (lan_ptr (eb_iface d)) = Some x \<and> eb_mac d \<in> macs x"
proof -
  let ?evs = "[(IPA_ETH_BRIDGE_CLIENT_ADD, d), (IPA_ETH_BRIDGE_CLIENT_DEL, d), (IPA_ETH_BRIDGE_IFACE_UP, d)]" and ?p = "lan_ptr (eb_iface d)"
  have "\<forall>ev\<in>set ?evs. bridge_adm env ev" using assms(2) by (simp add: bridge_adm_def)
  from run_implements [OF assms(1) this] obtain t where t: "run_bridge env ?evs (bridge_start w) = Some t" "topo t = topo_run ?evs" by blast
  have "\<exists>x. t_find (topo_run ?evs) ?p = Some x \<and> eb_mac d \<in> set (t_macs x)"
    using assms(3) by (simp add: topo_run_def topo_start_def topo_step_def topo_client_add_def topo_client_del_def topo_up_def t_find_def t_upd_def
        of_iface_def t_ptr_def add_mac_def MAX_NUM_IFACE_def MAX_NUM_CLIENT_def MAX_NUM_CACHED_CLIENT_ADD_EVENT_def Let_def)
  then obtain x' where x': "t_find (topo t) ?p = Some x'" "eb_mac d \<in> set (t_macs x')" unfolding t(2) by blast
  then obtain x where "find_if t ?p = Some x" "x' = topo_if x" by (auto simp: topo_find)
  then show ?thesis using t(1) x'(2) by auto
qed

theorem departed_client_comes_back_witness:
  "\<exists>t x. run_bridge ex_env [(IPA_ETH_BRIDGE_CLIENT_ADD, ex_wlan), (IPA_ETH_BRIDGE_CLIENT_DEL, ex_wlan), (IPA_ETH_BRIDGE_IFACE_UP, ex_wlan)] (bridge_start no_rules) = Some t \<and>
     find_if t 2 = Some x \<and> [6, 5, 4, 3, 2, 1] \<in> macs x"
proof -
  have "lan_ok (dev ex_env) (eb_iface ex_wlan)" by (simp add: ex_wlan_def ex_lan_ok)
  moreover have "servable (eb_iface ex_wlan)" by (simp add: servable_def ex_wlan_def ex_lan_def l2_type_def tx_list_def)
  ultimately show ?thesis using departed_client_comes_back [OF ex_fresh, of ex_wlan] by (simp add: ex_wlan_def ex_lan_def)
qed

text \<open>
  When the routing rules of a client can be added for IPv4 and not for IPv6, the handles of the IPv4 rules are recorded for IPv6 too.
\<close>

theorem failed_routes_recorded:
  assumes "eth_bridge_add_rt_rule env l m (tbl IPA_IP_v4) ctx h IPA_IP_v4 w = (Some hdls, w1)" and "length hdls \<le> MAX_NUM_PROP"
    and "eth_bridge_add_rt_rule env l m (tbl IPA_IP_v6) ctx h IPA_IP_v6 w1 = (None, w2)"
  shows "\<exists>r'. add_rt_both env l m tbl ctx h r w = Some (r', w2) \<and> num_hdl r' IPA_IP_v6 = int (length hdls) \<and>
    take (length hdls) (rule_hdl r' IPA_IP_v6) = hdls"
  using assms by (simp add: add_rt_both_def add_rt_for_ip_def Let_def)

theorem failed_routes_recorded_witness:
  "\<exists>r' w2. add_rt_both no_v6_env (ex_lan 1 False IPA_HDR_L2_ETHERNET_II) [1, 2, 3, 4, 5, 6] (\<lambda>_. ''tbl'') 5 IPA_HDR_L2_802_3
     \<lparr>num_hdl = (\<lambda>_. 0), rule_hdl = (\<lambda>_. [])\<rparr> no_rules = Some (r', w2) \<and> num_hdl r' IPA_IP_v6 = 1 \<and> take 1 (rule_hdl r' IPA_IP_v6) = [1]"
proof -
  let ?add = "\<lambda>ip. eth_bridge_add_rt_rule no_v6_env (ex_lan 1 False IPA_HDR_L2_ETHERNET_II) [1, 2, 3, 4, 5, 6] ((\<lambda>_. ''tbl'') ip) 5 IPA_HDR_L2_802_3 ip"
  have 4: "fst (?add IPA_IP_v4 no_rules) = Some [1]" and 6: "fst (?add IPA_IP_v6 w) = None" for w
    by (simp_all add: eth_bridge_add_rt_rule_def each_client_rt_rule_count_def client_rt_rules_def AddRoutingRule_def no_v6_env_def ex_env_def ok_dev_def
        ex_lan_def tx_list_def MAX_NUM_PROP_def add_rt_def new_hdl_def no_rules_def Let_def)
  obtain w1 w2 where w: "?add IPA_IP_v4 no_rules = (Some [1], w1)" "?add IPA_IP_v6 w1 = (None, w2)"
    using 4 6 by (metis prod.collapse)
  have "length [1 :: ipa_hdl] \<le> MAX_NUM_PROP" by (simp add: MAX_NUM_PROP_def)
  from failed_routes_recorded [OF w(1) this w(2), of "\<lparr>num_hdl = (\<lambda>_. 0), rule_hdl = (\<lambda>_. [])\<rparr>"] show ?thesis by auto
qed

end
