(* ===== verification/C_String.thy ===== *)
theory C_String
  imports IPACM_Prelude
begin

text \<open>
  The functions of the C library that the camera parameters use on strings. A \<open>char *\<close> is the list of characters from the
  pointer to the terminator, so a pointer into a string is a suffix of it; \<open>None\<close> is the null pointer.
\<close>

type_synonym i32 = "32 word"

text \<open>The characters of a buffer that a C string function sees.\<close>

definition c_str :: "string \<Rightarrow> string" where
  "c_str s = takeWhile (\<lambda>c. c \<noteq> CHR 0x00) s"

definition strchr :: "string \<Rightarrow> char \<Rightarrow> string option" where
  "strchr s c = (case dropWhile (\<lambda>d. d \<noteq> c) s of [] \<Rightarrow> None | t \<Rightarrow> Some t)"

text \<open>The characters between two pointers into the same string.\<close>

definition upto_ptr :: "string \<Rightarrow> string \<Rightarrow> string" where
  "upto_ptr a b = take (length a - length b) a"

text \<open>\<open>sprintf\<close> into a buffer of \<open>n\<close> bytes; writing behind its end is an invalid access. \<open>snprintf\<close> cuts the output off.\<close>

definition sprintf_to :: "nat \<Rightarrow> string \<Rightarrow> string option" where
  "sprintf_to n s = (if length s < n then Some s else None)"

definition snprintf_to :: "nat \<Rightarrow> string \<Rightarrow> string" where
  "snprintf_to n s = take (n - 1) s"

section \<open>Integers as text\<close>

definition digit_char :: "nat \<Rightarrow> char" where
  "digit_char d = char_of (48 + d)"

fun dec_nat :: "nat \<Rightarrow> string" where
  "dec_nat n = (if n < 10 then [digit_char n] else dec_nat (n div 10) @ [digit_char (n mod 10)])"

declare dec_nat.simps [simp del]

definition fmt_int :: "int \<Rightarrow> string" where
  "fmt_int i = (if i < 0 then CHR ''-'' # dec_nat (nat (- i)) else dec_nat (nat i))"

text \<open>The conversion \<open>%d\<close>.\<close>

definition fmt_d :: "i32 \<Rightarrow> string" where
  "fmt_d w = fmt_int (sint w)"

definition digit_val :: "char \<Rightarrow> nat option" where
  "digit_val c =
     (let n = of_char c :: nat in
      if 48 \<le> n \<and> n \<le> 57 then Some (n - 48)
      else if 97 \<le> n \<and> n \<le> 122 then Some (n - 87)
      else if 65 \<le> n \<and> n \<le> 90 then Some (n - 55)
      else None)"

definition digit_in :: "nat \<Rightarrow> char \<Rightarrow> nat option" where
  "digit_in base c = (case digit_val c of None \<Rightarrow> None | Some d \<Rightarrow> if d < base then Some d else None)"

fun scan_digits :: "nat \<Rightarrow> nat \<Rightarrow> string \<Rightarrow> nat \<times> string" where
  "scan_digits base acc [] = (acc, [])"
| "scan_digits base acc (c # cs) =
     (case digit_in base c of None \<Rightarrow> (acc, c # cs) | Some d \<Rightarrow> scan_digits base (acc * base + d) cs)"

definition isspace :: "char \<Rightarrow> bool" where
  "isspace c \<longleftrightarrow> c = CHR 0x20 \<or> (9 \<le> (of_char c :: nat) \<and> (of_char c :: nat) \<le> 13)"

definition scan_sign :: "string \<Rightarrow> bool \<times> string" where
  "scan_sign s = (case s of c # cs \<Rightarrow> if c = CHR ''-'' then (True, cs) else if c = CHR ''+'' then (False, cs) else (False, s) | [] \<Rightarrow> (False, []))"

text \<open>The prefix of the number for base 0.\<close>

definition scan_base :: "nat \<Rightarrow> string \<Rightarrow> nat \<times> string" where
  "scan_base base s =
     (if base \<noteq> 0 then (base, s)
      else case s of
        z # x # h # cs \<Rightarrow>
          if z = CHR ''0'' \<and> (x = CHR ''x'' \<or> x = CHR ''X'') \<and> digit_in 16 h \<noteq> None then (16, h # cs)
          else if z = CHR ''0'' then (8, s) else (10, s)
      | z # _ \<Rightarrow> if z = CHR ''0'' then (8, s) else (10, s)
      | [] \<Rightarrow> (10, s))"

text \<open>\<open>strtol\<close> for the bases 0 and 10, with \<open>bits\<close> bits in a \<open>long\<close>: the value, and the pointer behind the number.\<close>

definition clamp_long :: "nat \<Rightarrow> int \<Rightarrow> int" where
  "clamp_long bits i = max (- (2 ^ (bits - 1))) (min (2 ^ (bits - 1) - 1) i)"

definition strtol :: "nat \<Rightarrow> nat \<Rightarrow> string \<Rightarrow> int \<times> string" where
  "strtol bits base s =
     (let (neg, t) = scan_sign (dropWhile isspace s);
          (b, u) = scan_base base t
      in case u of
           c # _ \<Rightarrow>
             (case digit_in b c of
                None \<Rightarrow> (0, s)
              | Some _ \<Rightarrow>
                  let (n, r) = scan_digits b 0 u
                  in (clamp_long bits (if neg then - int n else int n), r))
         | [] \<Rightarrow> (0, s))"

text \<open>\<open>strtok_r\<close> with one delimiter: the token and what is left.\<close>

definition strtok :: "char \<Rightarrow> string \<Rightarrow> (string \<times> string) option" where
  "strtok d s =
     (case dropWhile (\<lambda>c. c = d) s of
        [] \<Rightarrow> None
      | t \<Rightarrow> Some (takeWhile (\<lambda>c. c \<noteq> d) t, drop 1 (dropWhile (\<lambda>c. c \<noteq> d) t)))"

section \<open>Pointers into strings\<close>

lemma strchr_Some: "strchr s c = Some t \<longleftrightarrow> (\<exists>u v. s = u @ c # v \<and> c \<notin> set u \<and> t = c # v)"
proof
  assume "strchr s c = Some t"
  then have t: "t = dropWhile (\<lambda>d. d \<noteq> c) s" "t \<noteq> []" by (auto simp: strchr_def split: list.splits)
  have "s = takeWhile (\<lambda>d. d \<noteq> c) s @ t" by (simp add: t(1))
  moreover have "hd t = c" using t hd_dropWhile [of "\<lambda>d. d \<noteq> c" s] by auto
  then have "t = c # tl t" using t(2) by (cases t) simp_all
  moreover have "c \<notin> set (takeWhile (\<lambda>d. d \<noteq> c) s)" by (auto dest: set_takeWhileD)
  ultimately show "\<exists>u v. s = u @ c # v \<and> c \<notin> set u \<and> t = c # v" by metis
next
  assume "\<exists>u v. s = u @ c # v \<and> c \<notin> set u \<and> t = c # v"
  then obtain u v where "s = u @ c # v" "c \<notin> set u" "t = c # v" by blast
  moreover from this(2) have "dropWhile (\<lambda>d. d \<noteq> c) (u @ c # v) = c # v" by (induction u) auto
  ultimately show "strchr s c = Some t" by (simp add: strchr_def)
qed

lemma strchr_None: "strchr s c = None \<longleftrightarrow> c \<notin> set s"
proof
  assume "strchr s c = None"
  then show "c \<notin> set s" using strchr_Some [of s c] split_list_first [of c s] by fastforce
next
  assume "c \<notin> set s"
  then have "\<nexists>t. strchr s c = Some t" by (auto simp: strchr_Some)
  then show "strchr s c = None" by simp
qed

lemma strchr_append: "c \<notin> set s \<Longrightarrow> strchr (s @ c # t) c = Some (c # t)"
  by (auto simp: strchr_Some)

lemma upto_ptr_append [simp]: "upto_ptr (s @ t) t = s"
  by (simp add: upto_ptr_def)

section \<open>Reading what was printed\<close>

text \<open>What can follow a number without being read as part of it.\<close>

definition no_digit :: "string \<Rightarrow> bool" where
  "no_digit t \<longleftrightarrow> (case t of [] \<Rightarrow> True | c # _ \<Rightarrow> digit_in 10 c = None)"

lemma digit_in_char [simp]: "d < 10 \<Longrightarrow> digit_in 10 (digit_char d) = Some d"
  by (simp add: digit_in_def digit_val_def digit_char_def Let_def)

lemma dec_nat_digits: "c \<in> set (dec_nat n) \<Longrightarrow> \<exists>d<10. c = digit_char d"
proof (induction n rule: dec_nat.induct)
  case (1 n)
  show ?case
  proof (cases "n < 10")
    case True
    then show ?thesis using 1(2) by (subst (asm) dec_nat.simps) auto
  next
    case False
    then have "c \<in> set (dec_nat (n div 10)) \<or> c = digit_char (n mod 10)" using 1(2) by (subst (asm) dec_nat.simps) auto
    then show ?thesis using 1(1) [OF False] by (auto intro: exI [of _ "n mod 10"])
  qed
qed

lemma dec_nat_Cons: obtains d cs where "d < 10" "dec_nat n = digit_char d # cs"
proof -
  have "dec_nat n \<noteq> []" by (subst dec_nat.simps) simp
  then obtain c cs where "dec_nat n = c # cs" by (cases "dec_nat n") auto
  then show ?thesis using that dec_nat_digits [of c n] by auto
qed

lemma length_dec_nat: "n < 10 ^ k \<Longrightarrow> 0 < k \<Longrightarrow> length (dec_nat n) \<le> k"
proof (induction n arbitrary: k rule: dec_nat.induct)
  case (1 n)
  show ?case
  proof (cases "n < 10")
    case True
    then show ?thesis using 1(3) by (subst dec_nat.simps) simp
  next
    case False
    then obtain j where k: "k = Suc j" "0 < j" using 1(2,3) by (cases k; cases "k - 1") auto
    have "n div 10 < 10 ^ j" using 1(2) by (simp add: k less_mult_imp_div_less mult.commute)
    then show ?thesis using 1(1) [OF False _ k(2)] False by (subst dec_nat.simps) (simp add: k)
  qed
qed

lemma scan_append:
  assumes "\<forall>c\<in>set s. digit_in b c \<noteq> None"
  shows "scan_digits b acc (s @ t) = scan_digits b (fst (scan_digits b acc s)) t"
  using assms by (induction s arbitrary: acc) auto

lemma scan_dec: "fst (scan_digits 10 0 (dec_nat n)) = n"
proof (induction n rule: dec_nat.induct)
  case (1 n)
  show ?case
  proof (cases "n < 10")
    case True
    then show ?thesis by (subst dec_nat.simps) simp
  next
    case False
    have "\<forall>c\<in>set (dec_nat (n div 10)). digit_in 10 c \<noteq> None" using dec_nat_digits by fastforce
    from scan_append [OF this] show ?thesis using 1 [OF False] False by (subst dec_nat.simps) simp
  qed
qed

lemma scan_dec_append: "no_digit t \<Longrightarrow> scan_digits 10 0 (dec_nat n @ t) = (n, t)"
proof -
  assume t: "no_digit t"
  have "\<forall>c\<in>set (dec_nat n). digit_in 10 c \<noteq> None" using dec_nat_digits by fastforce
  from scan_append [OF this, of 0 t] show ?thesis using t by (cases t) (simp_all add: scan_dec no_digit_def)
qed

lemma digit_no_space: "d < 10 \<Longrightarrow> \<not> isspace (digit_char d) \<and> digit_char d \<noteq> CHR ''-'' \<and> digit_char d \<noteq> CHR ''+'' \<and> digit_char d \<noteq> CHR 0x00 \<and>
    digit_char d \<noteq> CHR ''='' \<and> digit_char d \<noteq> CHR '';'' \<and> digit_char d \<noteq> CHR ''x'' \<and> digit_char d \<noteq> CHR '',''"
proof -
  assume "d < 10"
  moreover from this have "of_char (digit_char d) = 48 + d" by (simp add: digit_char_def)
  ultimately show ?thesis by (auto simp: isspace_def)
qed

lemma strtol_fmt_int:
  assumes "no_digit t"
  shows "strtol bits 10 (fmt_int i @ t) = (clamp_long bits i, t)"
proof -
  have s: "strtol bits 10 (pre @ dec_nat n @ t) = (clamp_long bits (if neg then - int n else int n), t)"
    if "scan_sign (dropWhile isspace (pre @ dec_nat n @ t)) = (neg, dec_nat n @ t)" for pre n neg
  proof -
    obtain d cs where d: "d < 10" "dec_nat n = digit_char d # cs" by (rule dec_nat_Cons)
    then show ?thesis using that scan_dec_append [OF assms, of n] by (simp add: strtol_def scan_base_def Let_def)
  qed
  obtain d cs where d: "d < 10" "dec_nat (nat i) = digit_char d # cs" by (rule dec_nat_Cons)
  show ?thesis
  proof (cases "i < 0")
    case True
    have "scan_sign (dropWhile isspace (''-'' @ dec_nat (nat (- i)) @ t)) = (True, dec_nat (nat (- i)) @ t)"
      by (simp add: isspace_def scan_sign_def)
    from s [OF this] show ?thesis using True by (simp add: fmt_int_def)
  next
    case False
    have "scan_sign (dropWhile isspace ([] @ dec_nat (nat i) @ t)) = (False, dec_nat (nat i) @ t)"
      using digit_no_space [OF d(1)] by (simp add: d(2) scan_sign_def)
    from s [OF this] show ?thesis using False by (simp add: fmt_int_def)
  qed
qed

lemma sint_range: "- (2 ^ 31) \<le> sint w \<and> sint w < 2 ^ 31" for w :: i32
  using sint_ge [of w] sint_lt [of w] by simp

lemma strtol_fmt_d:
  assumes "no_digit t" and "32 \<le> bits"
  shows "strtol bits 10 (fmt_d w @ t) = (sint w, t)"
proof -
  have "(2 :: int) ^ 31 \<le> 2 ^ (bits - 1)" using assms(2) by (intro power_increasing) auto
  then have "clamp_long bits (sint w) = sint w" using sint_range [of w] by (simp add: clamp_long_def)
  then show ?thesis using strtol_fmt_int [OF assms(1)] by (simp add: fmt_d_def)
qed

lemma dec_nat_lead: "0 < n \<Longrightarrow> \<exists>d cs. 0 < d \<and> d < 10 \<and> dec_nat n = digit_char d # cs"
proof (induction n rule: dec_nat.induct)
  case (1 n)
  show ?case
  proof (cases "n < 10")
    case True
    then show ?thesis using 1(2) by (subst dec_nat.simps) auto
  next
    case False
    then obtain d cs where "0 < d" "d < 10" "dec_nat (n div 10) = digit_char d # cs" using 1(1) by force
    then show ?thesis using False by (subst dec_nat.simps) auto
  qed
qed

text \<open>A decimal number has no leading zero, so it is read as decimal when the base is left open.\<close>

lemma strtol_base_0:
  assumes "0 < d" and "d < 10" and "snd (scan_sign (dropWhile isspace s)) = digit_char d # cs"
  shows "strtol bits 0 s = strtol bits 10 s"
proof -
  obtain neg where n: "scan_sign (dropWhile isspace s) = (neg, digit_char d # cs)" using assms(3) by (cases "scan_sign (dropWhile isspace s)") auto
  have "of_char (digit_char d) = 48 + d" using assms(2) by (simp add: digit_char_def)
  then have "digit_char d \<noteq> CHR ''0''" using assms(1) by auto
  then have "scan_base 0 (digit_char d # cs) = (10, digit_char d # cs)" by (simp add: scan_base_def split: list.split)
  then show ?thesis by (simp add: strtol_def n scan_base_def [of 10])
qed

lemma strtol_fmt_d_0:
  assumes "32 \<le> bits"
  shows "strtol bits 0 (fmt_d w) = (sint w, [])"
proof (cases "sint w = 0")
  case True
  have "digit_in 8 (digit_char 0) = Some 0" "\<not> isspace (digit_char 0)" "digit_char 0 = CHR ''0''" by code_simp+
  then show ?thesis using True
    by (simp add: fmt_d_def fmt_int_def strtol_def scan_sign_def scan_base_def dec_nat.simps [of 0] clamp_long_def Let_def)
next
  case False
  then have "0 < nat \<bar>sint w\<bar>" by simp
  from dec_nat_lead [OF this] obtain d cs where d: "0 < d" "d < 10" "dec_nat (nat \<bar>sint w\<bar>) = digit_char d # cs" by blast
  have "\<not> isspace (CHR ''-'')" by code_simp
  then have "snd (scan_sign (dropWhile isspace (fmt_d w))) = digit_char d # cs"
    using d(3) digit_no_space [OF d(2)] by (simp add: fmt_d_def fmt_int_def scan_sign_def abs_if split: if_splits)
  from strtol_base_0 [OF d(1,2) this] show ?thesis using strtol_fmt_d [of "[]" bits w] assms by (simp add: no_digit_def)
qed

lemma length_fmt_d: "length (fmt_d w) \<le> 11"
proof -
  have "nat \<bar>sint w\<bar> < 10 ^ 10" using sint_range [of w] by auto
  then have "length (dec_nat (nat \<bar>sint w\<bar>)) \<le> 10" by (rule length_dec_nat) simp
  then show ?thesis by (auto simp: fmt_d_def fmt_int_def abs_if split: if_splits)
qed

lemma fmt_d_nonempty [simp]: "fmt_d w \<noteq> []"
proof -
  have "dec_nat n \<noteq> []" for n by (rule dec_nat_Cons [of n]) simp
  then show ?thesis by (simp add: fmt_d_def fmt_int_def)
qed

lemma fmt_d_chars:
  assumes "c \<in> set (fmt_d w)"
  shows "c \<noteq> CHR 0x00 \<and> c \<noteq> CHR ''='' \<and> c \<noteq> CHR '';'' \<and> c \<noteq> CHR ''x'' \<and> c \<noteq> CHR '',''"
proof -
  have "c = CHR ''-'' \<or> (\<exists>n. c \<in> set (dec_nat n))" using assms by (auto simp: fmt_d_def fmt_int_def split: if_splits)
  then consider "c = CHR ''-''" | d where "d < 10" "c = digit_char d" using dec_nat_digits by blast
  then show ?thesis using digit_no_space by cases auto
qed

section \<open>The rest behind a number\<close>

lemma scan_digits_rest: "length (snd (scan_digits b acc s)) \<le> length s"
  by (induction s arbitrary: acc) (auto split: option.split intro: le_SucI)

lemma scan_base_rest: "length (snd (scan_base b s)) \<le> length s"
  by (auto simp: scan_base_def split: list.split)

lemma scan_sign_rest: "length (snd (scan_sign s)) \<le> length s"
  by (auto simp: scan_sign_def split: list.split)

lemma strtol_rest: "length (snd (strtol bits base s)) \<le> length s"
proof -
  obtain neg t where t: "scan_sign (dropWhile isspace s) = (neg, t)" by fastforce
  obtain b u where u: "scan_base base t = (b, u)" by fastforce
  have "length u \<le> length t" using scan_base_rest [of base t] by (simp add: u)
  also have "length t \<le> length (dropWhile isspace s)" using scan_sign_rest [of "dropWhile isspace s"] by (simp add: t)
  also have "\<dots> \<le> length s" by (rule length_dropWhile_le)
  finally have l: "length (snd (scan_digits b 0 u)) \<le> length s" using scan_digits_rest [of b 0 u] by simp
  then show ?thesis by (auto simp: strtol_def t u Let_def split: list.splits option.split prod.split)
qed

lemma strtok_shorter: "strtok d s = Some (t, r) \<Longrightarrow> length r < length s"
proof -
  assume "strtok d s = Some (t, r)"
  then obtain c cs where c: "dropWhile (\<lambda>c. c = d) s = c # cs" and r: "r = drop 1 (dropWhile (\<lambda>c. c \<noteq> d) (c # cs))"
    by (auto simp: strtok_def split: list.splits)
  have "c \<noteq> d" using c hd_dropWhile [of "\<lambda>c. c = d" s] by auto
  then have "length r \<le> length cs" using r length_dropWhile_le [of "\<lambda>c. c \<noteq> d" cs] by simp
  also have "length cs < length s" using length_dropWhile_le [of "\<lambda>c. c = d" s] by (simp add: c)
  finally show ?thesis .
qed

end
