(* ===== verification/Camera_Params.thy ===== *)
theory Camera_Params
  imports C_String "HOL-Library.Signed_Division"
begin

text \<open>
  \<open>camera/parameters/CameraParameters.cpp\<close> and \<open>CameraParameters_EXT.cpp\<close>: the parameters of the camera, a map from keys to values
  that is sent between processes as the text \<open>key=value;key=value\<close>. The object is its member \<open>mMap\<close>. The class \<open>DefaultKeyedVector\<close> of
  the Android library is the record \<open>keyed_vector\<close> of the methods that are called; it, the width of a \<open>long\<close> and the text of a
  \<open>float\<close> are the parameter \<open>cam_env\<close>. \<open>QCOM_HARDWARE\<close> is not defined in the build. Arguments of type \<open>int *\<close> are results.
\<close>

record 'm keyed_vector =
  kv_new :: 'm
  kv_clear :: "'m \<Rightarrow> 'm"
  kv_size :: "'m \<Rightarrow> nat"
  kv_isEmpty :: "'m \<Rightarrow> bool"
  kv_keyAt :: "'m \<Rightarrow> nat \<Rightarrow> string"
  kv_valueAt :: "'m \<Rightarrow> nat \<Rightarrow> string"
  kv_valueFor :: "'m \<Rightarrow> string \<Rightarrow> string"
  kv_add :: "'m \<Rightarrow> string \<Rightarrow> string \<Rightarrow> 'm"
  kv_replaceValueFor :: "'m \<Rightarrow> string \<Rightarrow> string \<Rightarrow> 'm"
  kv_removeItem :: "'m \<Rightarrow> string \<Rightarrow> 'm"

record ('m, 'f) cam_env =
  kv :: "'m keyed_vector"
  long_bits :: nat
  fmt_g :: "'f \<Rightarrow> string"
  strtof :: "string \<Rightarrow> 'f"
  minus_one :: 'f

section \<open>Keys and values\<close>

definition KEY_PREVIEW_SIZE :: string where "KEY_PREVIEW_SIZE = ''preview-size''"
definition KEY_SUPPORTED_PREVIEW_SIZES :: string where "KEY_SUPPORTED_PREVIEW_SIZES = ''preview-size-values''"
definition KEY_PREVIEW_FORMAT :: string where "KEY_PREVIEW_FORMAT = ''preview-format''"
definition KEY_SUPPORTED_PREVIEW_FORMATS :: string where "KEY_SUPPORTED_PREVIEW_FORMATS = ''preview-format-values''"
definition KEY_PREVIEW_FRAME_RATE :: string where "KEY_PREVIEW_FRAME_RATE = ''preview-frame-rate''"
definition KEY_PREVIEW_FPS_RANGE :: string where "KEY_PREVIEW_FPS_RANGE = ''preview-fps-range''"
definition KEY_PICTURE_SIZE :: string where "KEY_PICTURE_SIZE = ''picture-size''"
definition KEY_SUPPORTED_PICTURE_SIZES :: string where "KEY_SUPPORTED_PICTURE_SIZES = ''picture-size-values''"
definition KEY_PICTURE_FORMAT :: string where "KEY_PICTURE_FORMAT = ''picture-format''"
definition KEY_VIDEO_SIZE :: string where "KEY_VIDEO_SIZE = ''video-size''"
definition KEY_SUPPORTED_VIDEO_SIZES :: string where "KEY_SUPPORTED_VIDEO_SIZES = ''video-size-values''"
definition KEY_PREFERRED_PREVIEW_SIZE_FOR_VIDEO :: string where
  "KEY_PREFERRED_PREVIEW_SIZE_FOR_VIDEO = ''preferred-preview-size-for-video''"

definition PIXEL_FORMAT_YUV422SP :: string where "PIXEL_FORMAT_YUV422SP = ''yuv422sp''"
definition PIXEL_FORMAT_YUV420SP :: string where "PIXEL_FORMAT_YUV420SP = ''yuv420sp''"
definition PIXEL_FORMAT_YUV422I :: string where "PIXEL_FORMAT_YUV422I = ''yuv422i-yuyv''"
definition PIXEL_FORMAT_YUV420P :: string where "PIXEL_FORMAT_YUV420P = ''yuv420p''"
definition PIXEL_FORMAT_RGB565 :: string where "PIXEL_FORMAT_RGB565 = ''rgb565''"
definition PIXEL_FORMAT_RGBA8888 :: string where "PIXEL_FORMAT_RGBA8888 = ''rgba8888''"
definition PIXEL_FORMAT_BAYER_RGGB :: string where "PIXEL_FORMAT_BAYER_RGGB = ''bayer-rggb''"

lemmas pixel_format_defs = PIXEL_FORMAT_YUV422SP_def PIXEL_FORMAT_YUV420SP_def PIXEL_FORMAT_YUV422I_def PIXEL_FORMAT_YUV420P_def
  PIXEL_FORMAT_RGB565_def PIXEL_FORMAT_RGBA8888_def PIXEL_FORMAT_BAYER_RGGB_def

text \<open>The formats of \<open>system/graphics.h\<close> that are named.\<close>

datatype hal_pixel_format =
    HAL_PIXEL_FORMAT_YCrCb_420_SP
  | HAL_PIXEL_FORMAT_YCbCr_422_SP
  | HAL_PIXEL_FORMAT_YCbCr_422_I
  | HAL_PIXEL_FORMAT_YV12
  | HAL_PIXEL_FORMAT_RGB_565
  | HAL_PIXEL_FORMAT_RGBA_8888
  | HAL_PIXEL_FORMAT_RAW16

record cam_size =
  sz_width :: i32
  sz_height :: i32

section \<open>The map\<close>

definition get_forced_value :: "string \<Rightarrow> string \<Rightarrow> string" where
  "get_forced_value key val =
     (if key = ''face-detection-values'' then ''off'' else if key = ''face-detection'' then ''off'' else val)"

definition params_add :: "('m, 'f) cam_env \<Rightarrow> 'm \<Rightarrow> string \<Rightarrow> string \<Rightarrow> 'm" where
  "params_add env m key val = kv_add (kv env) m key (get_forced_value key val)"

definition params_replace :: "('m, 'f) cam_env \<Rightarrow> 'm \<Rightarrow> string \<Rightarrow> string \<Rightarrow> 'm" where
  "params_replace env m key val = kv_replaceValueFor (kv env) m key (get_forced_value key val)"

definition CameraParameters_new :: "('m, 'f) cam_env \<Rightarrow> 'm" where
  "CameraParameters_new env = kv_new (kv env)"

definition flatten :: "('m, 'f) cam_env \<Rightarrow> 'm \<Rightarrow> string" where
  "flatten env m =
     (let size = kv_size (kv env) m
      in fold (\<lambda>i flattened.
           flattened @ kv_keyAt (kv env) m i @ ''='' @ kv_valueAt (kv env) m i @ (if i \<noteq> size - 1 then '';'' else []))
         [0..<size] [])"

function unflatten_loop :: "('m, 'f) cam_env \<Rightarrow> string \<Rightarrow> 'm \<Rightarrow> 'm" where
  "unflatten_loop env a m =
     (case strchr a (CHR ''='') of
        None \<Rightarrow> m
      | Some b \<Rightarrow>
          let k = upto_ptr a b; a = drop 1 b
          in case strchr a (CHR '';'') of
               None \<Rightarrow> params_add env m k a
             | Some b \<Rightarrow> unflatten_loop env (drop 1 b) (params_add env m k (upto_ptr a b)))"
  by pat_completeness auto
termination
  by (relation "measure (\<lambda>(env, a, m). length a)") (auto simp: strchr_Some)

declare unflatten_loop.simps [simp del]

definition unflatten :: "('m, 'f) cam_env \<Rightarrow> string \<Rightarrow> 'm \<Rightarrow> 'm" where
  "unflatten env params m = unflatten_loop env (c_str params) (kv_clear (kv env) m)"

definition params_set :: "('m, 'f) cam_env \<Rightarrow> string option \<Rightarrow> string option \<Rightarrow> 'm \<Rightarrow> 'm" where
  "params_set env key val m =
     (case (key, val) of
        (Some k, Some v) \<Rightarrow>
          if strchr k (CHR ''='') \<noteq> None \<or> strchr k (CHR '';'') \<noteq> None then m
          else if strchr v (CHR ''='') \<noteq> None \<or> strchr v (CHR '';'') \<noteq> None then m
          else params_replace env m k v
      | _ \<Rightarrow> m)"

definition set_int :: "('m, 'f) cam_env \<Rightarrow> string option \<Rightarrow> i32 \<Rightarrow> 'm \<Rightarrow> 'm option" where
  "set_int env key val m = map_option (\<lambda>str. params_set env key (Some str) m) (sprintf_to 16 (fmt_d val))"

definition setFloat :: "('m, 'f) cam_env \<Rightarrow> string option \<Rightarrow> 'f \<Rightarrow> 'm \<Rightarrow> 'm" where
  "setFloat env key val m = params_set env key (Some (snprintf_to 16 (fmt_g env val))) m"

definition params_get :: "('m, 'f) cam_env \<Rightarrow> 'm \<Rightarrow> string \<Rightarrow> string option" where
  "params_get env m key = (let v = kv_valueFor (kv env) m key in if length v = 0 then None else Some v)"

definition getInt :: "('m, 'f) cam_env \<Rightarrow> 'm \<Rightarrow> string \<Rightarrow> i32" where
  "getInt env m key = (case params_get env m key of None \<Rightarrow> -1 | Some v \<Rightarrow> word_of_int (fst (strtol (long_bits env) 0 v)))"

definition getFloat :: "('m, 'f) cam_env \<Rightarrow> 'm \<Rightarrow> string \<Rightarrow> 'f" where
  "getFloat env m key = (case params_get env m key of None \<Rightarrow> minus_one env | Some v \<Rightarrow> strtof env v)"

definition params_remove :: "('m, 'f) cam_env \<Rightarrow> string \<Rightarrow> 'm \<Rightarrow> 'm" where
  "params_remove env key m = kv_removeItem (kv env) m key"

definition params_isEmpty :: "('m, 'f) cam_env \<Rightarrow> 'm \<Rightarrow> bool" where
  "params_isEmpty env m = kv_isEmpty (kv env) m"

section \<open>Pairs of numbers\<close>

text \<open>The two numbers and the pointer behind them, or \<open>None\<close> for the return value -1. A character is read at the end of the first number.\<close>

definition parse_pair :: "('m, 'f) cam_env \<Rightarrow> string \<Rightarrow> char \<Rightarrow> (i32 \<times> i32 \<times> string) option" where
  "parse_pair env str delim =
     (let (w, end1) = strtol (long_bits env) 10 str
      in case end1 of
           [] \<Rightarrow> None
         | c # rest \<Rightarrow>
             if c \<noteq> delim then None
             else let (h, end2) = strtol (long_bits env) 10 rest in Some (word_of_int w, word_of_int h, end2))"

partial_function (option) sizes_loop :: "('m, 'f) cam_env \<Rightarrow> string \<Rightarrow> cam_size list \<Rightarrow> cam_size list option" where
  "sizes_loop env ptr sizes =
     (case parse_pair env ptr (CHR ''x'') of
        None \<Rightarrow> Some sizes
      | Some (w, h, ptr) \<Rightarrow>
          (case ptr of
             [] \<Rightarrow> Some (sizes @ [\<lparr>sz_width = w, sz_height = h\<rparr>])
           | c # rest \<Rightarrow> if c = CHR '','' then sizes_loop env rest (sizes @ [\<lparr>sz_width = w, sz_height = h\<rparr>]) else Some sizes))"

definition parseSizesList :: "('m, 'f) cam_env \<Rightarrow> string option \<Rightarrow> cam_size list \<Rightarrow> cam_size list option" where
  "parseSizesList env sizesStr sizes = (case sizesStr of None \<Rightarrow> Some sizes | Some s \<Rightarrow> sizes_loop env s sizes)"

definition fmt_pair :: "i32 \<Rightarrow> char \<Rightarrow> i32 \<Rightarrow> string" where
  "fmt_pair a delim b = fmt_d a @ [delim] @ fmt_d b"

text \<open>The bodies shared by the setters and the getters of sizes.\<close>

definition set_pair :: "('m, 'f) cam_env \<Rightarrow> string \<Rightarrow> i32 \<Rightarrow> i32 \<Rightarrow> 'm \<Rightarrow> 'm option" where
  "set_pair env key width height m =
     map_option (\<lambda>str. params_set env (Some key) (Some str) m) (sprintf_to 32 (fmt_pair width (CHR ''x'') height))"

definition get_pair :: "('m, 'f) cam_env \<Rightarrow> 'm \<Rightarrow> string \<Rightarrow> char \<Rightarrow> i32 \<times> i32" where
  "get_pair env m key delim =
     (case params_get env m key of
        None \<Rightarrow> (-1, -1)
      | Some p \<Rightarrow> (case parse_pair env p delim of None \<Rightarrow> (-1, -1) | Some (w, h, _) \<Rightarrow> (w, h)))"

definition setPreviewSize :: "('m, 'f) cam_env \<Rightarrow> i32 \<Rightarrow> i32 \<Rightarrow> 'm \<Rightarrow> 'm option" where
  "setPreviewSize env width height m = set_pair env KEY_PREVIEW_SIZE width height m"

definition getPreviewSize :: "('m, 'f) cam_env \<Rightarrow> 'm \<Rightarrow> i32 \<times> i32" where
  "getPreviewSize env m = get_pair env m KEY_PREVIEW_SIZE (CHR ''x'')"

definition getPreferredPreviewSizeForVideo :: "('m, 'f) cam_env \<Rightarrow> 'm \<Rightarrow> i32 \<times> i32" where
  "getPreferredPreviewSizeForVideo env m = get_pair env m KEY_PREFERRED_PREVIEW_SIZE_FOR_VIDEO (CHR ''x'')"

definition getSupportedPreviewSizes :: "('m, 'f) cam_env \<Rightarrow> 'm \<Rightarrow> cam_size list \<Rightarrow> cam_size list option" where
  "getSupportedPreviewSizes env m sizes = parseSizesList env (params_get env m KEY_SUPPORTED_PREVIEW_SIZES) sizes"

definition setVideoSize :: "('m, 'f) cam_env \<Rightarrow> i32 \<Rightarrow> i32 \<Rightarrow> 'm \<Rightarrow> 'm option" where
  "setVideoSize env width height m = set_pair env KEY_VIDEO_SIZE width height m"

definition getVideoSize :: "('m, 'f) cam_env \<Rightarrow> 'm \<Rightarrow> i32 \<times> i32" where
  "getVideoSize env m = get_pair env m KEY_VIDEO_SIZE (CHR ''x'')"

definition getSupportedVideoSizes :: "('m, 'f) cam_env \<Rightarrow> 'm \<Rightarrow> cam_size list \<Rightarrow> cam_size list option" where
  "getSupportedVideoSizes env m sizes = parseSizesList env (params_get env m KEY_SUPPORTED_VIDEO_SIZES) sizes"

definition setPreviewFrameRate :: "('m, 'f) cam_env \<Rightarrow> i32 \<Rightarrow> 'm \<Rightarrow> 'm option" where
  "setPreviewFrameRate env fps m = set_int env (Some KEY_PREVIEW_FRAME_RATE) fps m"

definition getPreviewFrameRate :: "('m, 'f) cam_env \<Rightarrow> 'm \<Rightarrow> i32" where
  "getPreviewFrameRate env m = getInt env m KEY_PREVIEW_FRAME_RATE"

definition getPreviewFpsRange :: "('m, 'f) cam_env \<Rightarrow> 'm \<Rightarrow> i32 \<times> i32" where
  "getPreviewFpsRange env m = get_pair env m KEY_PREVIEW_FPS_RANGE (CHR '','')"

definition setPreviewFormat :: "('m, 'f) cam_env \<Rightarrow> string option \<Rightarrow> 'm \<Rightarrow> 'm" where
  "setPreviewFormat env format m = params_set env (Some KEY_PREVIEW_FORMAT) format m"

definition getPreviewFormat :: "('m, 'f) cam_env \<Rightarrow> 'm \<Rightarrow> string option" where
  "getPreviewFormat env m = params_get env m KEY_PREVIEW_FORMAT"

definition setPictureSize :: "('m, 'f) cam_env \<Rightarrow> i32 \<Rightarrow> i32 \<Rightarrow> 'm \<Rightarrow> 'm option" where
  "setPictureSize env width height m = set_pair env KEY_PICTURE_SIZE width height m"

definition getPictureSize :: "('m, 'f) cam_env \<Rightarrow> 'm \<Rightarrow> i32 \<times> i32" where
  "getPictureSize env m = get_pair env m KEY_PICTURE_SIZE (CHR ''x'')"

definition getSupportedPictureSizes :: "('m, 'f) cam_env \<Rightarrow> 'm \<Rightarrow> cam_size list \<Rightarrow> cam_size list option" where
  "getSupportedPictureSizes env m sizes = parseSizesList env (params_get env m KEY_SUPPORTED_PICTURE_SIZES) sizes"

definition setPictureFormat :: "('m, 'f) cam_env \<Rightarrow> string option \<Rightarrow> 'm \<Rightarrow> 'm" where
  "setPictureFormat env format m = params_set env (Some KEY_PICTURE_FORMAT) format m"

definition getPictureFormat :: "('m, 'f) cam_env \<Rightarrow> 'm \<Rightarrow> string option" where
  "getPictureFormat env m = params_get env m KEY_PICTURE_FORMAT"

text \<open>What \<open>dump\<close> writes to the file.\<close>

definition params_dump :: "('m, 'f) cam_env \<Rightarrow> 'm \<Rightarrow> string" where
  "params_dump env m =
     snprintf_to 255 (''CameraParameters::dump: mMap.size = '' @ dec_nat (kv_size (kv env) m) @ [CHR 0x0A]) @
     concat (map (\<lambda>i. snprintf_to 255 ([CHR 0x09] @ kv_keyAt (kv env) m i @ '': '' @ kv_valueAt (kv env) m i @ [CHR 0x0A]))
       [0..<kv_size (kv env) m])"

section \<open>Formats\<close>

text \<open>\<open>None\<close> as a result is -1.\<close>

definition previewFormatToEnum :: "string option \<Rightarrow> hal_pixel_format option" where
  "previewFormatToEnum format =
     (case format of
        None \<Rightarrow> Some HAL_PIXEL_FORMAT_YCrCb_420_SP
      | Some f \<Rightarrow>
          if f = PIXEL_FORMAT_YUV422SP then Some HAL_PIXEL_FORMAT_YCbCr_422_SP
          else if f = PIXEL_FORMAT_YUV420SP then Some HAL_PIXEL_FORMAT_YCrCb_420_SP
          else if f = PIXEL_FORMAT_YUV422I then Some HAL_PIXEL_FORMAT_YCbCr_422_I
          else if f = PIXEL_FORMAT_YUV420P then Some HAL_PIXEL_FORMAT_YV12
          else if f = PIXEL_FORMAT_RGB565 then Some HAL_PIXEL_FORMAT_RGB_565
          else if f = PIXEL_FORMAT_RGBA8888 then Some HAL_PIXEL_FORMAT_RGBA_8888
          else if f = PIXEL_FORMAT_BAYER_RGGB then Some HAL_PIXEL_FORMAT_RAW16
          else None)"

function formats_loop :: "string \<Rightarrow> hal_pixel_format list \<Rightarrow> hal_pixel_format list" where
  "formats_loop s formats =
     (case strtok (CHR '','') s of
        None \<Rightarrow> formats
      | Some (fmt, rest) \<Rightarrow>
          formats_loop rest (case previewFormatToEnum (Some fmt) of None \<Rightarrow> formats | Some f \<Rightarrow> formats @ [f]))"
  by pat_completeness auto
termination
  by (relation "measure (\<lambda>(s, formats). length s)") (auto dest: strtok_shorter)

declare formats_loop.simps [simp del]

definition getSupportedPreviewFormats :: "('m, 'f) cam_env \<Rightarrow> 'm \<Rightarrow> hal_pixel_format list \<Rightarrow> hal_pixel_format list" where
  "getSupportedPreviewFormats env m formats =
     (case params_get env m KEY_SUPPORTED_PREVIEW_FORMATS of None \<Rightarrow> formats | Some s \<Rightarrow> formats_loop s formats)"

section \<open>The extension of HTC\<close>

text \<open>
  The methods of \<open>CameraParameters_EXT\<close> on the object that \<open>mParams\<close> points to. Its copies of \<open>parse_pair\<close> and
  \<open>parseSizesList\<close> are the same text.
\<close>

text \<open>The contents of the file, if it can be opened; the return value and the buffer. Bytes written behind the buffer are an invalid access.\<close>

definition get_from_attr :: "string option \<Rightarrow> nat \<Rightarrow> string \<Rightarrow> (int \<times> string) option" where
  "get_from_attr file len buf =
     (case file of
        None \<Rightarrow> Some (-2, buf)
      | Some bytes \<Rightarrow>
          let got = take 4 bytes
          in if length got \<le> len then Some (0, got @ replicate (len - length got) (CHR 0x00)) else None)"

definition check_flashlight_restriction :: bool where
  "check_flashlight_restriction = False"

definition lookupAttr :: "'a \<Rightarrow> int \<Rightarrow> string \<Rightarrow> int" where
  "lookupAttr cameraMap a3 a4 = -2"

definition getPreviewFrameRateMode :: "('m, 'f) cam_env \<Rightarrow> 'm \<Rightarrow> string option" where
  "getPreviewFrameRateMode env m = params_get env m ''preview-frame-rate-mode''"

definition setPreviewFrameRateMode :: "('m, 'f) cam_env \<Rightarrow> string option \<Rightarrow> 'm \<Rightarrow> 'm" where
  "setPreviewFrameRateMode env mode m = params_set env (Some ''preview-frame-rate-mode'') mode m"

text \<open>The body shared by the setters of the extension.\<close>

definition ext_set_pair :: "('m, 'f) cam_env \<Rightarrow> string \<Rightarrow> i32 \<Rightarrow> char \<Rightarrow> i32 \<Rightarrow> 'm \<Rightarrow> 'm" where
  "ext_set_pair env key x delim y m = params_set env (Some key) (Some (snprintf_to 32 (fmt_pair x delim y))) m"

definition setBrightnessLumaTargetSet :: "('m, 'f) cam_env \<Rightarrow> i32 \<Rightarrow> i32 \<Rightarrow> 'm \<Rightarrow> 'm" where
  "setBrightnessLumaTargetSet env brightness luma m = ext_set_pair env ''brightness-luma-target-set'' brightness (CHR '','') luma m"

definition getBrightnessLumaTargetSet :: "('m, 'f) cam_env \<Rightarrow> 'm \<Rightarrow> int \<times> i32 \<times> i32" where
  "getBrightnessLumaTargetSet env m =
     (if params_get env m ''brightness-luma-target-set'' = None then (-1, -1, -1)
      else (0, get_pair env m ''brightness-luma-target-set'' (CHR '','')))"

definition setTouchIndexAec :: "('m, 'f) cam_env \<Rightarrow> i32 \<Rightarrow> i32 \<Rightarrow> 'm \<Rightarrow> 'm" where
  "setTouchIndexAec env x y m = ext_set_pair env ''touch-index-aec'' x (CHR ''x'') y m"

definition getTouchIndexAec :: "('m, 'f) cam_env \<Rightarrow> 'm \<Rightarrow> i32 \<times> i32" where
  "getTouchIndexAec env m = get_pair env m ''touch-index-aec'' (CHR ''x'')"

definition setTouchIndexAf :: "('m, 'f) cam_env \<Rightarrow> i32 \<Rightarrow> i32 \<Rightarrow> 'm \<Rightarrow> 'm" where
  "setTouchIndexAf env x y m = ext_set_pair env ''touch-index-af'' x (CHR ''x'') y m"

definition getTouchIndexAf :: "('m, 'f) cam_env \<Rightarrow> 'm \<Rightarrow> i32 \<times> i32" where
  "getTouchIndexAf env m = get_pair env m ''touch-index-af'' (CHR ''x'')"

definition setZsl :: "('m, 'f) cam_env \<Rightarrow> string option \<Rightarrow> 'm \<Rightarrow> 'm" where
  "setZsl env mode m = params_set env (Some ''zsl'') mode m"

definition getZsl :: "('m, 'f) cam_env \<Rightarrow> 'm \<Rightarrow> string option" where
  "getZsl env m = params_get env m ''zsl''"

definition setRawSize :: "('m, 'f) cam_env \<Rightarrow> i32 \<Rightarrow> i32 \<Rightarrow> 'm \<Rightarrow> 'm" where
  "setRawSize env x y m = ext_set_pair env ''raw-size'' x (CHR ''x'') y m"

definition getRawSize :: "('m, 'f) cam_env \<Rightarrow> 'm \<Rightarrow> i32 \<times> i32" where
  "getRawSize env m = get_pair env m ''raw-size'' (CHR ''x'')"

text \<open>The null pointer is not tested here: \<open>strtol\<close> reads from it. Division of a C \<open>int\<close> truncates.\<close>

definition getMeteringAreaCenter :: "('m, 'f) cam_env \<Rightarrow> 'm \<Rightarrow> (i32 \<times> i32) option" where
  "getMeteringAreaCenter env m =
     (case params_get env m ''metering-areas'' of
        None \<Rightarrow> None
      | Some p \<Rightarrow>
          let (x, y) = (case parse_pair env p (CHR ''x'') of None \<Rightarrow> (-2000, -2000) | Some (w, h, _) \<Rightarrow> (w, h))
          in Some (word_of_int (sint x sdiv 2), word_of_int (sint y sdiv 2)))"

definition getSupportedHfrSizes :: "('m, 'f) cam_env \<Rightarrow> 'm \<Rightarrow> cam_size list \<Rightarrow> cam_size list option" where
  "getSupportedHfrSizes env m sizes = parseSizesList env (params_get env m ''hfr-size-values'') sizes"

definition setPreviewFpsRange :: "('m, 'f) cam_env \<Rightarrow> i32 \<Rightarrow> i32 \<Rightarrow> 'm \<Rightarrow> 'm" where
  "setPreviewFpsRange env lo hi m = ext_set_pair env ''preview-fps-range'' lo (CHR '','') hi m"

definition ORIENTATION_PORTRAIT :: i32 where "ORIENTATION_PORTRAIT = 1"
definition ORIENTATION_LANDSCAPE :: i32 where "ORIENTATION_LANDSCAPE = 2"

definition getOrientation :: "('m, 'f) cam_env \<Rightarrow> 'm \<Rightarrow> i32" where
  "getOrientation env m =
     (if params_get env m ''orientation'' = Some ''portrait'' then ORIENTATION_PORTRAIT else ORIENTATION_LANDSCAPE)"

definition setOrientation :: "('m, 'f) cam_env \<Rightarrow> i32 \<Rightarrow> 'm \<Rightarrow> 'm" where
  "setOrientation env orientation m =
     (if orientation = ORIENTATION_PORTRAIT then params_set env (Some ''orientation'') (Some ''portrait'') m
      else if orientation = ORIENTATION_LANDSCAPE then params_set env (Some ''orientation'') (Some ''landscape'') m
      else m)"

end
