(* ===== verification/Camera_Params_Props.thy ===== *)
theory Camera_Params_Props
  imports Camera_Params Op_Refinement "HOL-Library.RBT" "HOL-Library.Char_ord" "HOL-Library.List_Lexorder"
begin

text \<open>
  What the camera parameters promise: whatever is set, the text of the parameters is read back as the same parameters; setters and getters
  fit together; and the readers of lists end on every text.
\<close>

section \<open>The contract of the keyed vector\<close>

definition kv_entries :: "'m keyed_vector \<Rightarrow> 'm \<Rightarrow> (string \<times> string) list" where
  "kv_entries K m = map (\<lambda>i. (kv_keyAt K m i, kv_valueAt K m i)) [0..<kv_size K m]"

definition kv_map :: "'m keyed_vector \<Rightarrow> 'm \<Rightarrow> string \<rightharpoonup> string" where
  "kv_map K m = map_of (kv_entries K m)"

text \<open>A vector of entries sorted by their keys; an entry for a key replaces the one that was there; the default value is the empty string.\<close>

definition keyed_vector_ok :: "'m keyed_vector \<Rightarrow> bool" where
  "keyed_vector_ok K \<longleftrightarrow>
     kv_map K (kv_new K) = Map.empty \<and>
     (\<forall>m. sorted_wrt (<) (map fst (kv_entries K m)) \<and> kv_map K (kv_clear K m) = Map.empty \<and> kv_isEmpty K m = (kv_size K m = 0) \<and>
        (\<forall>k. kv_valueFor K m k = (case kv_map K m k of None \<Rightarrow> [] | Some v \<Rightarrow> v) \<and> kv_map K (kv_removeItem K m k) = (kv_map K m)(k := None) \<and>
          (\<forall>v. kv_map K (kv_add K m k v) = (kv_map K m)(k \<mapsto> v) \<and> kv_map K (kv_replaceValueFor K m k v) = (kv_map K m)(k \<mapsto> v))))"

lemma kv_laws:
  assumes "keyed_vector_ok K"
  shows "kv_map K (kv_new K) = Map.empty" "kv_map K (kv_clear K m) = Map.empty" "kv_map K (kv_add K m k v) = (kv_map K m)(k \<mapsto> v)"
    "kv_map K (kv_replaceValueFor K m k v) = (kv_map K m)(k \<mapsto> v)" "kv_map K (kv_removeItem K m k) = (kv_map K m)(k := None)"
    "kv_valueFor K m k = (case kv_map K m k of None \<Rightarrow> [] | Some v \<Rightarrow> v)" "sorted_wrt (<) (map fst (kv_entries K m))"
  using assms by (simp_all add: keyed_vector_ok_def)

text \<open>A red-black tree keeps the contract.\<close>

definition rbt_vector :: "(string, string) rbt keyed_vector" where
  "rbt_vector = \<lparr>kv_new = RBT.empty, kv_clear = (\<lambda>_. RBT.empty), kv_size = (\<lambda>m. length (RBT.entries m)), kv_isEmpty = (\<lambda>m. RBT.entries m = []),
     kv_keyAt = (\<lambda>m i. fst (RBT.entries m ! i)), kv_valueAt = (\<lambda>m i. snd (RBT.entries m ! i)),
     kv_valueFor = (\<lambda>m k. case RBT.lookup m k of None \<Rightarrow> [] | Some v \<Rightarrow> v), kv_add = (\<lambda>m k v. RBT.insert k v m),
     kv_replaceValueFor = (\<lambda>m k v. RBT.insert k v m), kv_removeItem = (\<lambda>m k. RBT.delete k m)\<rparr>"

lemma rbt_entries: "kv_entries rbt_vector m = RBT.entries m"
  by (simp add: kv_entries_def rbt_vector_def map_nth)

lemma rbt_map: "kv_map rbt_vector m = RBT.lookup m"
  by (simp add: kv_map_def rbt_entries RBT.map_of_entries)

lemma rbt_vector_ok: "keyed_vector_ok rbt_vector"
proof -
  have "sorted_wrt (<) (map fst (RBT.entries m))" for m :: "(string, string) rbt"
    using RBT.distinct_entries [of m] RBT.sorted_entries [of m] by (simp add: strict_sorted_iff)
  then show ?thesis unfolding keyed_vector_ok_def rbt_map rbt_entries by (simp add: rbt_vector_def)
qed

section \<open>The text of the parameters\<close>

fun params_text :: "(string \<times> string) list \<Rightarrow> string" where
  "params_text [] = []"
| "params_text [(k, v)] = k @ ''='' @ v"
| "params_text ((k, v) # e # es) = k @ ''='' @ v @ '';'' @ params_text (e # es)"

lemma fold_append: "fold (\<lambda>i acc. acc @ f i) xs acc = acc @ concat (map f xs)"
  by (induction xs arbitrary: acc) simp_all

lemma params_text_concat:
  "concat (map (\<lambda>i. fst (es ! i) @ ''='' @ snd (es ! i) @ (if i \<noteq> length es - 1 then '';'' else [])) [0..<length es]) = params_text es"
proof (induction es rule: params_text.induct)
  case (3 k v e es)
  let ?es = "(k, v) # e # es" and ?n = "Suc (length es)"
  have "[0..<length ?es] = 0 # map Suc [0..<?n]" by (simp add: upt_conv_Cons map_Suc_upt del: upt_Suc)
  then show ?case using 3 by (simp add: comp_def del: upt_Suc)
qed simp_all

lemma flatten_text: "flatten env m = params_text (kv_entries (kv env) m)"
proof -
  let ?es = "kv_entries (kv env) m"
  have "map (\<lambda>i. kv_keyAt (kv env) m i @ ''='' @ kv_valueAt (kv env) m i @ (if i \<noteq> kv_size (kv env) m - 1 then '';'' else [])) [0..<kv_size (kv env) m] =
      map (\<lambda>i. fst (?es ! i) @ ''='' @ snd (?es ! i) @ (if i \<noteq> length ?es - 1 then '';'' else [])) [0..<length ?es]"
    by (simp add: kv_entries_def)
  then show ?thesis using params_text_concat [of ?es] by (simp add: flatten_def Let_def fold_append)
qed

definition entry_ok :: "string \<Rightarrow> string \<Rightarrow> bool" where
  "entry_ok k v \<longleftrightarrow> CHR ''='' \<notin> set k \<and> CHR 0x00 \<notin> set k \<and> CHR '';'' \<notin> set v \<and> CHR 0x00 \<notin> set v \<and> get_forced_value k v = v"

lemma unflatten_text:
  assumes "\<forall>(k, v)\<in>set es. entry_ok k v"
  shows "unflatten_loop env (params_text es) m = fold (\<lambda>(k, v) m. params_add env m k v) es m"
  using assms
proof (induction es arbitrary: m rule: params_text.induct)
  case 1
  then show ?case by (subst unflatten_loop.simps) (simp add: strchr_def)
next
  case (2 k v)
  then have "strchr (k @ CHR ''='' # v) (CHR ''='') = Some (CHR ''='' # v)" "strchr v (CHR '';'') = None"
    by (auto simp: strchr_append strchr_None entry_ok_def)
  then show ?case by (subst unflatten_loop.simps) simp
next
  case (3 k v e es)
  then have "strchr (k @ CHR ''='' # v @ CHR '';'' # params_text (e # es)) (CHR ''='') = Some (CHR ''='' # v @ CHR '';'' # params_text (e # es))"
    "strchr (v @ CHR '';'' # params_text (e # es)) (CHR '';'') = Some (CHR '';'' # params_text (e # es))"
    by (auto simp: strchr_append entry_ok_def)
  then show ?case using 3 by (subst unflatten_loop.simps) simp
qed

lemma text_no_nul: "\<forall>(k, v)\<in>set es. entry_ok k v \<Longrightarrow> CHR 0x00 \<notin> set (params_text es)"
  by (induction es rule: params_text.induct) (auto simp: entry_ok_def)

lemma map_of_added:
  assumes "keyed_vector_ok (kv env)" and "\<forall>(k, v)\<in>set es. entry_ok k v" and "distinct (map fst es)"
  shows "kv_map (kv env) (fold (\<lambda>(k, v) m. params_add env m k v) es m) = kv_map (kv env) m ++ map_of es"
  using assms(2,3)
proof (induction es arbitrary: m)
  case (Cons e es)
  obtain k v where e: "e = (k, v)" by (cases e)
  have "k \<notin> dom (map_of es)" using Cons.prems(2) by (simp add: e dom_map_of_conv_image_fst)
  then show ?case using Cons by (simp add: e params_add_def kv_laws [OF assms(1)] entry_ok_def)
      (auto simp: map_add_def fun_eq_iff split: option.splits)
qed simp

section \<open>The invariant\<close>

definition params_wf :: "('m, 'f) cam_env \<Rightarrow> 'm \<Rightarrow> bool" where
  "params_wf env m \<longleftrightarrow> (\<forall>k v. kv_map (kv env) m k = Some v \<longrightarrow> entry_ok k v)"

lemma wf_entries: "keyed_vector_ok (kv env) \<Longrightarrow> params_wf env m \<Longrightarrow> \<forall>(k, v)\<in>set (kv_entries (kv env) m). entry_ok k v"
proof -
  assume k: "keyed_vector_ok (kv env)" and w: "params_wf env m"
  have "distinct (map fst (kv_entries (kv env) m))" using kv_laws(7) [OF k] by (simp add: strict_sorted_iff)
  then show ?thesis using w by (auto simp: params_wf_def kv_map_def)
qed

lemma forced_ok: "CHR ''='' \<notin> set k \<Longrightarrow> CHR 0x00 \<notin> set k \<Longrightarrow> CHR '';'' \<notin> set v \<Longrightarrow> CHR 0x00 \<notin> set v \<Longrightarrow> entry_ok k (get_forced_value k v)"
  by (auto simp: entry_ok_def get_forced_value_def)

lemma set_wf:
  assumes "keyed_vector_ok (kv env)" and "params_wf env m" and "\<forall>k. key = Some k \<longrightarrow> CHR 0x00 \<notin> set k" and "\<forall>v. val = Some v \<longrightarrow> CHR 0x00 \<notin> set v"
  shows "params_wf env (params_set env key val m)"
  using assms(2-4) by (auto simp: params_set_def strchr_None params_replace_def params_wf_def kv_laws [OF assms(1)] forced_ok split: option.split if_splits)

lemma remove_wf: "keyed_vector_ok (kv env) \<Longrightarrow> params_wf env m \<Longrightarrow> params_wf env (params_remove env k m)"
  by (simp add: params_wf_def params_remove_def kv_laws)

lemma unflatten_loop_wf:
  assumes "keyed_vector_ok (kv env)" and "CHR 0x00 \<notin> set a" and "params_wf env m"
  shows "params_wf env (unflatten_loop env a m)"
  using assms(2,3)
proof (induction "length a" arbitrary: a m rule: less_induct)
  case less
  have add: "params_wf env (params_add env m k v)" if "CHR ''='' \<notin> set k" "CHR 0x00 \<notin> set k" "CHR '';'' \<notin> set v" "CHR 0x00 \<notin> set v" for k v
    using less.prems(2) forced_ok [OF that] by (auto simp: params_add_def params_wf_def kv_laws [OF assms(1)])
  show ?case
  proof (cases "strchr a (CHR ''='')")
    case None
    then show ?thesis using less.prems(2) by (subst unflatten_loop.simps) simp
  next
    case (Some b)
    then obtain k r where k: "a = k @ CHR ''='' # r" "CHR ''='' \<notin> set k" "b = CHR ''='' # r" by (auto simp: strchr_Some)
    show ?thesis
    proof (cases "strchr r (CHR '';'')")
      case None
      have "params_wf env (params_add env m k r)" using less.prems(1) None k by (intro add) (auto simp: strchr_None)
      then show ?thesis using Some None k by (subst unflatten_loop.simps) simp
    next
      case (Some c)
      then obtain v t where v: "r = v @ CHR '';'' # t" "CHR '';'' \<notin> set v" "c = CHR '';'' # t" by (auto simp: strchr_Some)
      have "params_wf env (params_add env m k v)" using less.prems(1) k v by (intro add) auto
      then have "params_wf env (unflatten_loop env t (params_add env m k v))" using less.prems(1) k v by (intro less.hyps) auto
      then show ?thesis using \<open>strchr a (CHR ''='') = Some b\<close> Some k v by (subst unflatten_loop.simps) simp
    qed
  qed
qed

lemma c_str_no_nul: "CHR 0x00 \<notin> set (c_str s)"
  by (auto simp: c_str_def dest: set_takeWhileD)

lemma unflatten_wf: "keyed_vector_ok (kv env) \<Longrightarrow> params_wf env (unflatten env s m)"
  unfolding unflatten_def by (intro unflatten_loop_wf c_str_no_nul) (simp_all add: params_wf_def kv_laws)

section \<open>Runs\<close>

text \<open>
  The methods that change the object. The other setters are calls of \<open>set\<close> with a fixed key. A caller's string ends at its first zero byte.
\<close>

datatype 'f params_op =
    OpSet "string option" "string option"
  | OpSetInt "string option" i32
  | OpSetFloat "string option" 'f
  | OpSetPair string i32 i32
  | OpRemove string
  | OpUnflatten string

fun params_exec :: "('m, 'f) cam_env \<Rightarrow> 'f params_op \<Rightarrow> 'm \<Rightarrow> 'm option" where
  "params_exec env (OpSet key val) m = Some (params_set env (map_option c_str key) (map_option c_str val) m)"
| "params_exec env (OpSetInt key val) m = set_int env (map_option c_str key) val m"
| "params_exec env (OpSetFloat key val) m = Some (setFloat env (map_option c_str key) val m)"
| "params_exec env (OpSetPair key x y) m = set_pair env (c_str key) x y m"
| "params_exec env (OpRemove key) m = Some (params_remove env (c_str key) m)"
| "params_exec env (OpUnflatten s) m = Some (unflatten env s m)"

fun params_run :: "('m, 'f) cam_env \<Rightarrow> 'f params_op list \<Rightarrow> 'm \<Rightarrow> 'm option" where
  "params_run env [] m = Some m"
| "params_run env (x # xs) m = Option.bind (params_exec env x m) (params_run env xs)"

text \<open>The text of a number has no zero byte.\<close>

definition float_text_ok :: "('m, 'f) cam_env \<Rightarrow> bool" where
  "float_text_ok env \<longleftrightarrow> (\<forall>f. CHR 0x00 \<notin> set (fmt_g env f))"

lemma length_fmt_pair: "length (fmt_pair a d b) \<le> 23"
  using length_fmt_d [of a] length_fmt_d [of b] by (simp add: fmt_pair_def)

lemma set_int_Some: "set_int env key x m = Some (params_set env key (Some (fmt_d x)) m)"
  using length_fmt_d [of x] by (simp add: set_int_def sprintf_to_def)

lemma set_pair_Some: "set_pair env key x y m = Some (params_set env (Some key) (Some (fmt_pair x (CHR ''x'') y)) m)"
  using length_fmt_pair [of x "CHR ''x''" y] by (simp add: set_pair_def sprintf_to_def)

lemma ext_set_pair_eq: "ext_set_pair env key x d y m = params_set env (Some key) (Some (fmt_pair x d y)) m"
  using length_fmt_pair [of x d y] by (simp add: ext_set_pair_def snprintf_to_def)

lemma exec_wf:
  assumes "keyed_vector_ok (kv env)" and "float_text_ok env" and "params_wf env m"
  shows "\<exists>n. params_exec env x m = Some n \<and> params_wf env n"
proof -
  note set = set_wf [OF assms(1,3)]
  have "CHR 0x00 \<notin> set (fmt_d w)" for w using fmt_d_chars by blast
  moreover have "CHR 0x00 \<notin> set (snprintf_to 16 (fmt_g env f))" for f
    using assms(2) by (auto simp: float_text_ok_def snprintf_to_def dest: in_set_takeD)
  ultimately show ?thesis
    by (cases x) (auto simp: set_int_Some set_pair_Some fmt_pair_def setFloat_def c_str_no_nul intro!: set remove_wf unflatten_wf assms(1,3))
qed

interpretation params: op_safety "\<lambda>x m. map_option (Pair ([] :: unit list)) (params_exec env x m)" "\<lambda>_. True"
  "\<lambda>m. keyed_vector_ok (kv env) \<and> float_text_ok env \<and> params_wf env m" "\<lambda>_. True" for env :: "('m, 'f) cam_env"
proof unfold_locales
  fix m and x :: "'f params_op" assume "keyed_vector_ok (kv env) \<and> float_text_ok env \<and> params_wf env m"
  then show "\<exists>os t. map_option (Pair ([] :: unit list)) (params_exec env x m) = Some (os, t) \<and>
      (keyed_vector_ok (kv env) \<and> float_text_ok env \<and> params_wf env t) \<and> list_all (\<lambda>_. True) os"
    using exec_wf [of env m x] by auto
qed

lemma run_params: "run_ops (\<lambda>x m. map_option (Pair []) (params_exec env x m)) xs m = map_option (Pair []) (params_run env xs m)"
proof (induction xs arbitrary: m)
  case (Cons x xs)
  then show ?case by (cases "params_exec env x m") (simp_all split: option.split)
qed simp

lemma run_wf:
  assumes "keyed_vector_ok (kv env)" and "float_text_ok env"
  shows "\<exists>m. params_run env xs (CameraParameters_new env) = Some m \<and> params_wf env m"
proof -
  have "params_wf env (CameraParameters_new env)" by (simp add: params_wf_def CameraParameters_new_def kv_laws [OF assms(1)])
  then show ?thesis using params.run_keeps [of env "CameraParameters_new env" xs] assms by (auto simp: run_params list_all_iff)
qed

section \<open>Round trips\<close>

lemma entries_unique:
  assumes "keyed_vector_ok K" and "kv_map K m = kv_map K n"
  shows "kv_entries K m = kv_entries K n"
proof -
  have s: "sorted (map fst (kv_entries K x))" "distinct (map fst (kv_entries K x))" for x
    using kv_laws(7) [OF assms(1), of x] by (simp_all add: strict_sorted_iff)
  then have "set (kv_entries K x) = {(k, v). kv_map K x k = Some v}" for x by (auto simp: kv_map_def)
  then have "set (kv_entries K m) = set (kv_entries K n)" using assms(2) by simp
  moreover have "inj_on fst (set (kv_entries K m))" using s(2) by (simp add: distinct_map)
  ultimately show ?thesis using s by (intro map_sorted_distinct_set_unique) simp_all
qed

lemma flatten_unflatten:
  assumes "keyed_vector_ok (kv env)" and "params_wf env m"
  shows "kv_map (kv env) (unflatten env (flatten env m) n) = kv_map (kv env) m"
proof -
  let ?es = "kv_entries (kv env) m"
  have ok: "\<forall>(k, v)\<in>set ?es. entry_ok k v" by (rule wf_entries [OF assms])
  have "c_str (params_text ?es) = params_text ?es" using text_no_nul [OF ok] by (auto simp: c_str_def takeWhile_eq_all_conv)
  moreover have "distinct (map fst ?es)" using kv_laws(7) [OF assms(1)] by (simp add: strict_sorted_iff)
  ultimately show ?thesis
    using map_of_added [OF assms(1) ok] by (simp add: unflatten_def flatten_text unflatten_text [OF ok] kv_laws [OF assms(1)]) (simp add: kv_map_def)
qed

definition accepted :: "string \<Rightarrow> string \<Rightarrow> bool" where
  "accepted k v \<longleftrightarrow> set (k @ v) \<inter> {CHR ''='', CHR '';''} = {}"

lemma get_set:
  assumes "keyed_vector_ok (kv env)"
  shows "params_get env (params_set env (Some k) (Some v) m) j =
    (if accepted k v \<and> j = k then (if get_forced_value k v = [] then None else Some (get_forced_value k v)) else params_get env m j)"
  by (auto simp: params_set_def strchr_None params_replace_def params_get_def accepted_def Let_def kv_laws [OF assms] simp del: length_0_conv)

lemma parse_fmt_pair:
  assumes "32 \<le> long_bits env" and "digit_in 10 d = None" and "no_digit t"
  shows "parse_pair env (fmt_pair x d y @ t) d = Some (x, y, t)"
proof -
  have "strtol (long_bits env) 10 (fmt_d x @ d # fmt_d y @ t) = (sint x, d # fmt_d y @ t)"
    by (rule strtol_fmt_d) (simp_all add: no_digit_def assms)
  then show ?thesis using strtol_fmt_d [OF assms(3,1), of y] by (simp add: parse_pair_def fmt_pair_def)
qed

lemma not_digits [simp]: "digit_in 10 (CHR ''x'') = None" "digit_in 10 (CHR '','') = None" "no_digit []" "no_digit (CHR '','' # t)"
  by (simp_all add: digit_in_def digit_val_def no_digit_def)

lemma get_pair_after_set:
  assumes "keyed_vector_ok (kv env)" and "32 \<le> long_bits env" and "d = CHR ''x'' \<or> d = CHR '',''"
    and "set k \<inter> {CHR ''='', CHR '';''} = {}" and "get_forced_value k [] = []"
  shows "get_pair env (params_set env (Some k) (Some (fmt_pair x d y)) m) k d = (x, y)"
proof -
  have "accepted k (fmt_pair x d y)" using assms(3,4) fmt_d_chars by (auto simp: accepted_def fmt_pair_def)
  moreover have "get_forced_value k v = v" for v using assms(5) by (auto simp: get_forced_value_def split: if_splits)
  moreover have "fmt_pair x d y \<noteq> []" by (simp add: fmt_pair_def)
  moreover have "parse_pair env (fmt_pair x d y @ []) d = Some (x, y, [])" using assms(2,3) by (intro parse_fmt_pair) auto
  ultimately show ?thesis by (simp add: get_pair_def get_set [OF assms(1)])
qed

lemma getInt_after_set:
  assumes "keyed_vector_ok (kv env)" and "32 \<le> long_bits env" and "set k \<inter> {CHR ''='', CHR '';''} = {}" and "get_forced_value k [] = []"
  shows "getInt env (params_set env (Some k) (Some (fmt_d x)) m) k = x"
proof -
  have "accepted k (fmt_d x)" using assms(3) fmt_d_chars by (auto simp: accepted_def)
  moreover have "get_forced_value k v = v" for v using assms(4) by (auto simp: get_forced_value_def split: if_splits)
  ultimately show ?thesis by (simp add: getInt_def get_set [OF assms(1)] strtol_fmt_d_0 [OF assms(2)])
qed

section \<open>Lists of sizes\<close>

fun sizes_text :: "cam_size list \<Rightarrow> string" where
  "sizes_text [] = []"
| "sizes_text [s] = fmt_pair (sz_width s) (CHR ''x'') (sz_height s)"
| "sizes_text (s # t # ts) = fmt_pair (sz_width s) (CHR ''x'') (sz_height s) @ '','' @ sizes_text (t # ts)"

lemma sizes_loop_text:
  assumes "32 \<le> long_bits env" and "sizes \<noteq> []"
  shows "sizes_loop env (sizes_text sizes) acc = Some (acc @ sizes)"
  using assms(2)
proof (induction sizes arbitrary: acc rule: sizes_text.induct)
  case (2 s)
  have "parse_pair env (fmt_pair (sz_width s) (CHR ''x'') (sz_height s) @ []) (CHR ''x'') = Some (sz_width s, sz_height s, [])"
    by (rule parse_fmt_pair) (simp_all add: assms(1))
  then show ?case by (subst sizes_loop.simps) simp
next
  case (3 s t ts)
  have "parse_pair env (fmt_pair (sz_width s) (CHR ''x'') (sz_height s) @ '','' @ sizes_text (t # ts)) (CHR ''x'') =
      Some (sz_width s, sz_height s, '','' @ sizes_text (t # ts))"
    by (rule parse_fmt_pair) (simp_all add: assms(1))
  then show ?case using 3 by (subst sizes_loop.simps) simp
qed simp

lemma parse_pair_shorter: "parse_pair env s d = Some (w, h, r) \<Longrightarrow> length r < length s"
proof -
  assume p: "parse_pair env s d = Some (w, h, r)"
  obtain i e where e: "strtol (long_bits env) 10 s = (i, e)" by fastforce
  then obtain cs where c: "e = d # cs" "r = snd (strtol (long_bits env) 10 cs)"
    using p by (auto simp: parse_pair_def split: list.splits if_splits prod.splits)
  then show ?thesis using strtol_rest [of "long_bits env" 10 s] strtol_rest [of "long_bits env" 10 cs] by (simp add: e)
qed

lemma sizes_loop_ends: "\<exists>new. sizes_loop env s acc = Some (acc @ new) \<and> 2 * length new \<le> length s + 1"
proof (induction "length s" arbitrary: s acc rule: less_induct)
  case less
  show ?case
  proof (cases "parse_pair env s (CHR ''x'')")
    case None
    then show ?thesis by (subst sizes_loop.simps) simp
  next
    case (Some p)
    obtain w h r where p: "p = (w, h, r)" by (cases p)
    with Some have l: "length r < length s" using parse_pair_shorter by fast
    consider "r = []" | t where "r = CHR '','' # t" | c t where "r = c # t" "c \<noteq> CHR '',''" by (cases r) auto
    then show ?thesis
    proof cases
      case 1
      then have "sizes_loop env s acc = Some (acc @ [\<lparr>sz_width = w, sz_height = h\<rparr>])" using Some p by (subst sizes_loop.simps) simp
      then show ?thesis using l by (intro exI [of _ "[\<lparr>sz_width = w, sz_height = h\<rparr>]"]) simp
    next
      case 2
      then obtain new where "sizes_loop env t (acc @ [\<lparr>sz_width = w, sz_height = h\<rparr>]) = Some ((acc @ [\<lparr>sz_width = w, sz_height = h\<rparr>]) @ new)"
        "2 * length new \<le> length t + 1" using less [of t "acc @ [\<lparr>sz_width = w, sz_height = h\<rparr>]"] l by auto
      then show ?thesis using Some p l 2 by (intro exI [of _ "\<lparr>sz_width = w, sz_height = h\<rparr> # new"]) (subst sizes_loop.simps, simp)
    next
      case 3
      then show ?thesis using Some p by (subst sizes_loop.simps) simp
    qed
  qed
qed

section \<open>Properties\<close>

text \<open>
  C14. Whatever is set, removed and read in on one side, its text is read in on the other side as the same parameters, and gives the same text
  there. No operation writes behind a buffer. The value of \<open>face-detection\<close> is always the forced one.
\<close>

theorem params_survive_transport:
  assumes "keyed_vector_ok (kv env)" and "float_text_ok env"
  shows "\<exists>m. params_run env xs (CameraParameters_new env) = Some m \<and>
    kv_map (kv env) (unflatten env (flatten env m) n) = kv_map (kv env) m \<and> flatten env (unflatten env (flatten env m) n) = flatten env m \<and>
    params_get env m ''face-detection'' \<in> {None, Some ''off''}"
proof -
  obtain m where m: "params_run env xs (CameraParameters_new env) = Some m" "params_wf env m" using run_wf [OF assms] by blast
  have f: "kv_map (kv env) (unflatten env (flatten env m) n) = kv_map (kv env) m" by (rule flatten_unflatten [OF assms(1) m(2)])
  have "flatten env (unflatten env (flatten env m) n) = flatten env m"
    unfolding flatten_text using entries_unique [OF assms(1) f] by (simp add: flatten_text)
  moreover have "params_get env m ''face-detection'' \<in> {None, Some ''off''}"
  proof (cases "kv_map (kv env) m ''face-detection''")
    case (Some v)
    then have "entry_ok ''face-detection'' v" using m(2) by (simp add: params_wf_def)
    then show ?thesis using Some by (simp add: entry_ok_def get_forced_value_def params_get_def Let_def kv_laws [OF assms(1)])
  qed (simp add: params_get_def kv_laws [OF assms(1)])
  ultimately show ?thesis using m(1) f by blast
qed

definition ex_cam :: "((string, string) rbt, unit) cam_env" where
  "ex_cam = \<lparr>kv = rbt_vector, long_bits = 64, fmt_g = (\<lambda>_. ''1.5''), strtof = (\<lambda>_. ()), minus_one = ()\<rparr>"

lemma ex_cam_ok: "keyed_vector_ok (kv ex_cam)" "float_text_ok ex_cam" "32 \<le> long_bits ex_cam"
  using rbt_vector_ok by (simp_all add: ex_cam_def float_text_ok_def)

theorem params_survive_transport_witness:
  "\<exists>m. params_run ex_cam [OpSet (Some ''zsl'') (Some ''on''), OpSetPair ''raw-size'' 640 480, OpUnflatten ''a;b=c=d;face-detection=on;x''] (CameraParameters_new ex_cam) = Some m \<and>
     kv_map (kv ex_cam) (unflatten ex_cam (flatten ex_cam m) RBT.empty) = kv_map (kv ex_cam) m"
  using params_survive_transport [OF ex_cam_ok(1,2)] by blast

text \<open>
  C21. \<open>set\<close> stores a value under its key and leaves the other keys alone; a key or value with a separator is refused; the values of face
  detection are forced; an empty value reads as none; a removed key is gone.
\<close>

theorem set_get_remove:
  assumes "keyed_vector_ok (kv env)"
  shows "params_get env (params_set env (Some k) (Some v) m) j =
      (if j \<noteq> k \<or> set (k @ v) \<inter> {CHR ''='', CHR '';''} \<noteq> {} then params_get env m j
       else if k = ''face-detection'' \<or> k = ''face-detection-values'' then Some ''off''
       else if v = [] then None else Some v) \<and>
    params_set env None val m = m \<and> params_set env key None m = m \<and>
    params_get env (params_remove env k m) j = (if j = k then None else params_get env m j)"
proof (intro conjI)
  show "params_get env (params_set env (Some k) (Some v) m) j =
      (if j \<noteq> k \<or> set (k @ v) \<inter> {CHR ''='', CHR '';''} \<noteq> {} then params_get env m j
       else if k = ''face-detection'' \<or> k = ''face-detection-values'' then Some ''off''
       else if v = [] then None else Some v)"
    unfolding get_set [OF assms] accepted_def get_forced_value_def by auto
  show "params_set env None val m = m" "params_set env key None m = m" by (simp_all add: params_set_def split: option.split)
  show "params_get env (params_remove env k m) j = (if j = k then None else params_get env m j)"
    by (simp add: params_get_def params_remove_def kv_laws [OF assms])
qed

theorem set_get_remove_witness:
  "params_get ex_cam (params_set ex_cam (Some ''face-detection'') (Some ''on'') RBT.empty) ''face-detection'' = Some ''off'' \<and>
   params_set ex_cam None (Some ''on'') RBT.empty = RBT.empty"
  using set_get_remove [OF ex_cam_ok(1)] by simp

text \<open>
  C23. Sizes, ranges and rates are read back as they were set, for every value of an \<open>int\<close>, and \<open>sprintf\<close> stays within its buffers.
\<close>

theorem numbers_read_back:
  assumes "keyed_vector_ok (kv env)" and "32 \<le> long_bits env"
  shows "(\<exists>m'. setPreviewSize env w h m = Some m' \<and> getPreviewSize env m' = (w, h)) \<and>
    (\<exists>m'. setVideoSize env w h m = Some m' \<and> getVideoSize env m' = (w, h)) \<and>
    (\<exists>m'. setPictureSize env w h m = Some m' \<and> getPictureSize env m' = (w, h)) \<and>
    (\<exists>m'. setPreviewFrameRate env w m = Some m' \<and> getPreviewFrameRate env m' = w) \<and>
    getPreviewFpsRange env (setPreviewFpsRange env w h m) = (w, h) \<and>
    getBrightnessLumaTargetSet env (setBrightnessLumaTargetSet env w h m) = (0, w, h) \<and>
    getTouchIndexAec env (setTouchIndexAec env w h m) = (w, h) \<and> getTouchIndexAf env (setTouchIndexAf env w h m) = (w, h) \<and>
    getRawSize env (setRawSize env w h m) = (w, h)"
proof (intro conjI)
  note pair = get_pair_after_set [OF assms]
  note defs = setPreviewSize_def getPreviewSize_def setVideoSize_def getVideoSize_def setPictureSize_def getPictureSize_def set_pair_Some ext_set_pair_eq
    KEY_PREVIEW_SIZE_def KEY_VIDEO_SIZE_def KEY_PICTURE_SIZE_def KEY_PREVIEW_FPS_RANGE_def get_forced_value_def
  show "\<exists>m'. setPreviewSize env w h m = Some m' \<and> getPreviewSize env m' = (w, h)" "\<exists>m'. setVideoSize env w h m = Some m' \<and> getVideoSize env m' = (w, h)"
    "\<exists>m'. setPictureSize env w h m = Some m' \<and> getPictureSize env m' = (w, h)" by (simp_all add: defs pair)
  show "\<exists>m'. setPreviewFrameRate env w m = Some m' \<and> getPreviewFrameRate env m' = w"
    by (simp add: setPreviewFrameRate_def getPreviewFrameRate_def set_int_Some getInt_after_set [OF assms] KEY_PREVIEW_FRAME_RATE_def get_forced_value_def)
  show "getPreviewFpsRange env (setPreviewFpsRange env w h m) = (w, h)" by (simp add: getPreviewFpsRange_def setPreviewFpsRange_def defs pair)
  have l: "get_pair env (setBrightnessLumaTargetSet env w h m) ''brightness-luma-target-set'' (CHR '','') = (w, h)"
    by (simp add: setBrightnessLumaTargetSet_def defs pair)
  moreover have "accepted ''brightness-luma-target-set'' (fmt_pair w (CHR '','') h)" using fmt_d_chars by (auto simp: accepted_def fmt_pair_def)
  then have "params_get env (setBrightnessLumaTargetSet env w h m) ''brightness-luma-target-set'' \<noteq> None"
    by (simp add: setBrightnessLumaTargetSet_def ext_set_pair_eq get_set [OF assms(1)] get_forced_value_def) (simp add: fmt_pair_def)
  ultimately show "getBrightnessLumaTargetSet env (setBrightnessLumaTargetSet env w h m) = (0, w, h)" by (simp add: getBrightnessLumaTargetSet_def)
  show "getTouchIndexAec env (setTouchIndexAec env w h m) = (w, h)" "getTouchIndexAf env (setTouchIndexAf env w h m) = (w, h)"
    "getRawSize env (setRawSize env w h m) = (w, h)"
    by (simp_all add: getTouchIndexAec_def setTouchIndexAec_def getTouchIndexAf_def setTouchIndexAf_def getRawSize_def setRawSize_def defs pair)
qed

theorem numbers_read_back_witness:
  "(\<exists>m'. setPreviewSize ex_cam 640 480 RBT.empty = Some m' \<and> getPreviewSize ex_cam m' = (640, 480)) \<and>
   getPreviewFpsRange ex_cam (setPreviewFpsRange ex_cam (-1) 30000 RBT.empty) = (-1, 30000)"
  using numbers_read_back [OF ex_cam_ok(1,3)] by blast

text \<open>
  C25. The readers of lists of sizes return on every text: the loop ends, keeps what was in the vector, and adds at most one size for two characters.
\<close>

theorem parseSizesList_terminates:
  "\<exists>new. parseSizesList env s sizes = Some (sizes @ new) \<and> 2 * length new \<le> length (case s of None \<Rightarrow> [] | Some t \<Rightarrow> t) + 1"
  using sizes_loop_ends [of env] by (cases s) (simp_all add: parseSizesList_def)

text \<open>
  C26. A list of sizes printed with commas between them is read as exactly these sizes, for previews, pictures and videos.
\<close>

theorem supported_sizes_read:
  assumes "32 \<le> long_bits env" and "sizes \<noteq> []"
  shows "(params_get env m KEY_SUPPORTED_PREVIEW_SIZES = Some (sizes_text sizes) \<longrightarrow> getSupportedPreviewSizes env m [] = Some sizes) \<and>
    (params_get env m KEY_SUPPORTED_PICTURE_SIZES = Some (sizes_text sizes) \<longrightarrow> getSupportedPictureSizes env m [] = Some sizes) \<and>
    (params_get env m KEY_SUPPORTED_VIDEO_SIZES = Some (sizes_text sizes) \<longrightarrow> getSupportedVideoSizes env m [] = Some sizes)"
  using sizes_loop_text [OF assms, of "[]"]
  by (simp add: getSupportedPreviewSizes_def getSupportedPictureSizes_def getSupportedVideoSizes_def parseSizesList_def)

theorem supported_sizes_read_witness:
  "let sizes = [\<lparr>sz_width = 640, sz_height = 480\<rparr>, \<lparr>sz_width = 320, sz_height = 240\<rparr>];
       m = params_set ex_cam (Some KEY_SUPPORTED_PREVIEW_SIZES) (Some (sizes_text sizes)) RBT.empty
   in sizes_text sizes = ''640x480,320x240'' \<and> getSupportedPreviewSizes ex_cam m [] = Some sizes"
proof -
  let ?s = "[\<lparr>sz_width = 640, sz_height = 480\<rparr>, \<lparr>sz_width = 320, sz_height = 240\<rparr>]"
  have t: "sizes_text ?s = ''640x480,320x240''" by code_simp
  have "params_get ex_cam (params_set ex_cam (Some KEY_SUPPORTED_PREVIEW_SIZES) (Some (sizes_text ?s)) RBT.empty) KEY_SUPPORTED_PREVIEW_SIZES = Some (sizes_text ?s)"
    unfolding t by (simp add: get_set [OF ex_cam_ok(1)] accepted_def get_forced_value_def KEY_SUPPORTED_PREVIEW_SIZES_def)
  then show ?thesis using t supported_sizes_read [OF ex_cam_ok(3), of ?s] by (simp add: Let_def)
qed

text \<open>
  The centre of the metering areas can be asked for only when there is a value: without one the null pointer is read. Areas are written with
  parentheses and commas, so the pair is never found in them and the centre is (-1000, -1000).
\<close>

theorem metering_areas_not_read:
  assumes "keyed_vector_ok (kv env)"
  shows "getMeteringAreaCenter env (CameraParameters_new env) = None"
    and "params_get env m ''metering-areas'' = Some (CHR ''('' # s) \<Longrightarrow> getMeteringAreaCenter env m = Some (-1000, -1000)"
proof -
  show "getMeteringAreaCenter env (CameraParameters_new env) = None"
    by (simp add: getMeteringAreaCenter_def params_get_def CameraParameters_new_def kv_laws [OF assms])
  have "parse_pair env (CHR ''('' # s) (CHR ''x'') = None"
    by (simp add: parse_pair_def strtol_def isspace_def scan_sign_def scan_base_def digit_in_def digit_val_def)
  moreover have "word_of_int (sint (-2000 :: i32) sdiv 2) = (-1000 :: i32)" by code_simp
  ultimately show "params_get env m ''metering-areas'' = Some (CHR ''('' # s) \<Longrightarrow> getMeteringAreaCenter env m = Some (-1000, -1000)"
    by (simp add: getMeteringAreaCenter_def)
qed

end
