(* ===== verification/Spec2Isabelle.thy ===== *)
theory Spec2Isabelle
  imports NatApp_Flows NatApp_Drv CmdQueue_Props EvtDispatcher_Props Neighbor_Props Config_Props ConntrackListener_Props LanToLan_Props Camera_Params_Props
begin

text \<open>
  \<^bold>\<open>The IPA connection manager\<close> (\<open>data-ipa-cfg-mgr/ipacm\<close>) configures the IP accelerator of the modem:
  it listens to the kernel (netlink, connection tracking, WLAN and USB drivers), keeps what it learns
  about interfaces, clients and connections, and enters routes, filters and NAT rules into the hardware
  tables. This development models its core: how events travel, how a connection becomes a NAT rule, and how
  LAN interfaces are bridged.

  \<^bold>\<open>How the parts interact.\<close> Threads post events (\<open>IPACM_EvtDispatcher::PostEvt\<close>) into two queues; one
  thread takes them out (\<open>MessageQueue::Process\<close>), internal ones first, and \<open>ProcessEvt\<close> calls the
  listeners registered for the event. \<open>IPACM_Neighbor\<close> turns neighbour messages of the kernel into
  events about clients, \<open>IPACM_ConntrackListener\<close> turns connection tracking messages and client events
  into calls of the NAT application (\<open>NatApp\<close>), which caches the connections and gives the rules to the
  NAT table driver (\<open>ipanat\<close>). \<open>IPACM_Config\<close> holds the configuration that all of them read, and the
  dependencies between the power resources of the interfaces. Beside them, \<open>IPACM_LanToLan\<close> listens to the events about
  LAN and WLAN interfaces and their clients and keeps filter rules, routing rules and header processing contexts
  in the hardware, so that packets between two such interfaces are bridged without the processor; it enters them through
  the functions \<open>eth_bridge_...\<close> of \<open>IPACM_Lan\<close> and the classes \<open>IPACM_Routing\<close>, \<open>IPACM_Filtering\<close> and \<open>IPACM_Header\<close>.

  \<^bold>\<open>Theories and sources.\<close>

  \<^item> \<open>IPACM_Prelude\<close>: machine words, C loops as \<open>find_idx\<close> and \<open>for_upto\<close>, lists updated by index.
    \<open>Slot_Array\<close>, \<open>Keyed_List\<close>, \<open>Heap_List\<close>: locales for arrays of keyed slots, lists with unique keys,
    linked lists in a store. \<open>Op_Refinement\<close>: locales for runs of operations that refine a specification
    (\<open>op_refinement\<close>, \<open>op_simulation\<close>) or keep an invariant without failing (\<open>op_safety\<close>).
  \<^item> \<open>NatApp\<close> (\<open>IPACM_Conntrack_NATApp.cpp\<close>): the class \<open>NatApp\<close> as the record \<open>natapp\<close>, one definition per
    method. The driver, the conntrack library and the \<open>/proc\<close> files are the record \<open>nat_env\<close>, a parameter.
    \<open>NatApp_Inv\<close>: every method keeps the invariant \<open>natapp_wf\<close>; \<open>NatApp_Props\<close>, \<open>NatApp_Flows\<close>: adding and
    deleting, the table going down and up, power save, clients that leave, temporary entries.
  \<^item> \<open>NatDrv_Util\<close>, \<open>NatDrv\<close> (\<open>ipanat/src/ipa_nat_drvi.c\<close>, \<open>ipa_nat_drv.c\<close>): the NAT table library, which lays the
    rules out in memory that the hardware reads: a rule table and an index table, hashed, with collisions chained
    through an expansion part, and an array of handles. Packed fields, hashes and checksums are words; a function
    is one definition; \<open>ipa_nati_post_del_dma_cmd\<close> is cut into its three parts. The kernel is the record \<open>drv_env\<close>;
    \<open>kernel_ok\<close> says that a DMA command writes its 16 bits where it says. The header defines \<open>NAT_DUMP\<close>, so the table is dumped
    when it is created and after every change; the dump reads one table length behind the tables. What is mapped there is
    \<open>mem_behind\<close>, a parameter: the theorems on the table ask that this memory can be read (\<open>behind_ok\<close> in \<open>kernel_ok\<close>), and
    \<open>no_table_without_memory_behind\<close> says that without it no table can be made. \<open>Chained_Table\<close>: chains of a hashed
    table as lists. \<open>NatDrv_Tables\<close>, \<open>NatDrv_Index\<close>, \<open>NatDrv_Inv\<close>: the invariant \<open>table_ok\<close> of the memory (chains of both
    tables, back pointers, cross references, handles). \<open>NatDrv_Add\<close>, \<open>NatDrv_Del\<close>: what adding and deleting a rule
    do to it. \<open>NatDrv_Props\<close>: the library implements a map from handles to rules.
  \<^item> \<open>NatApp_Drv\<close>: the contract of the table library as the locale \<open>nat_driver\<close>; the methods of the NAT application
    keep cache and table in step; the library's model is an instance, so the two together hold in the hardware
    tables exactly the enabled connections.
  \<^item> \<open>IPACM_Events\<close> (\<open>IPACM_Defs.h\<close>): the event identifiers with their order. \<open>CmdQueue\<close>
    (\<open>IPACM_CmdQueue.cpp\<close>, \<open>PostEvt\<close>): both queues as linked lists in a store of messages; \<open>PostEvt\<close> and the loop
    of \<open>Process\<close> are cut where other threads can run: the look-up of a queue, which takes no lock, is a test, a creation and a
    return, and \<open>Process\<close> keeps the pointers it looked up once. \<open>CmdQueue_Props\<close>: refinement to two lists, order,
    conservation and delivery of events for every interleaving in which the first look-up of a queue runs alone
    (\<open>first_use_alone\<close>), and the interleaving without this that loses an event.
  \<^item> \<open>EvtDispatcher\<close> (\<open>IPACM_EvtDispatcher.cpp\<close>): the list of registrations in a store, with listeners
    that delete themselves while they are called. \<open>EvtDispatcher_Props\<close>: refinement to a list, exact
    delivery, and the case that reads a freed node.
  \<^item> \<open>Iface_Table\<close> (\<open>IPACM_Iface::iface_ipa_index_query\<close>), \<open>Neighbor\<close> and \<open>Neighbor_Props\<close>
    (\<open>IPACM_Neighbor.cpp\<close>): the cache of clients by MAC address as a map.
  \<^item> \<open>RM_Depend\<close>, \<open>Config\<close>, \<open>Config_Props\<close> (\<open>IPACM_Config.cpp\<close>, \<open>IPACM_Config.h\<close>): the dependencies of
    the power resources refine their specification; NAT interfaces and private subnets are sets.
  \<^item> \<open>ConntrackListener\<close>, \<open>ConntrackListener_Props\<close> (\<open>IPACM_ConntrackListener.cpp\<close>): every handler as a
    function from the listener to the calls it makes; runs of the listener with the NAT application.
  \<^item> \<open>IPA_Tables\<close> (\<open>IPACM_Routing.cpp\<close>, \<open>IPACM_Filtering.cpp\<close>, \<open>IPACM_Header.cpp\<close>): one definition per method; the
    driver is the record \<open>ipa_dev\<close> of its \<open>ioctl\<close> calls, a parameter. Handles are naturals: the code only stores and
    returns them, and a driver that always has a fresh one cannot be described with finitely many.
    \<open>LanToLan\<close> (\<open>IPACM_LanToLan.cpp\<close>, \<open>IPACM_LanToLan.h\<close>, \<open>eth_bridge_...\<close> of \<open>IPACM_Lan.cpp\<close>, as compiled with \<open>FEATURE_IPA_V3\<close>):
    the classes \<open>IPACM_LanToLan_Iface\<close> and \<open>IPACM_LanToLan\<close> as the records \<open>l2l_iface\<close> and \<open>lan2lan\<close>, every handler from
    \<open>event_callback\<close> (\<open>bridge_event\<close>) down to the calls of the driver. \<open>Makefile.am\<close> builds this source, \<open>Android.mk\<close> does not list it.
  \<^item> \<open>Node_List\<close>: lists searched by a key. \<open>Installed\<close>: rules in a table of handles against the slots of their owner.
    \<open>Bridge_Kernel\<close>: the contract \<open>bridge_kernel_ok\<close> of the driver (an addition gives fresh handles, a deletion removes what its
    handle names, other entries stay) and what each call does under it; \<open>Bridge_Driver\<close>: an executable driver that keeps the contract.
    \<open>LanToLan_Slots\<close>, \<open>LanToLan_Inv\<close>: the rules the bridge has recorded, and the invariant \<open>bridge_inv\<close>, which says that
    the tables hold these and no others. \<open>LanToLan_Ifaces\<close>, \<open>LanToLan_Up\<close>, \<open>LanToLan_Down\<close>: every handler runs to its end and keeps it.
    \<open>LanToLan_Topology\<close>: an abstract topology of interfaces, addresses and clients, and the bridge as a refinement of it.
    The mode of the WLAN (\<open>isMCC_Mode\<close>) is a function of the world, since another thread sets it; a routing rule leads to the pipe
    of the mode it was installed or rewritten in.
    \<open>LanToLan_Props\<close>: the rules a topology calls for are the rules installed, packets find their way to every client, a change of the
    mode moves the rules to the other pipe, nothing is left behind, the limits hold; a client that left comes back from the cached events.
  \<^item> \<open>C_String\<close>: the functions of the C library on strings that the next theories use. \<open>Camera_Params\<close>, \<open>Camera_Params_Props\<close>
    (\<open>camera/CameraParameters.cpp\<close>, \<open>CameraParameters_EXT.cpp\<close>): the camera parameters as a keyed vector, flattening and parsing,
    numbers, sizes and size lists; they are independent of the connection manager.

  \<^bold>\<open>Conventions.\<close> A class is a record, a method a function on it; \<open>None\<close> is an invalid memory access (a
  null or freed pointer, an index outside an array), never a value of the code. Results of \<open>malloc\<close>,
  \<open>ioctl\<close>, \<open>pthread_create\<close> and of other libraries are arguments, so the theorems hold for every outcome.
  Members a constructor leaves unset are arguments too. Machine integers are words where they are stored
  or compared as such; counters that the code never lets wrap are naturals or integers. Debug output is
  left out, but not the reads of memory it makes that can go wrong: the dump of the NAT table, and the element that
  \<open>CheckNatIface\<close> prints with an index that is never assigned (\<open>junk_j\<close>). Loops are structural or counted, so nothing needs fuel; the loops over linked lists and
  chains are partial functions whose results are proved to exist.

  \<^bold>\<open>Errors of the code.\<close> The theorems of kind error and bounds show what the code does where it does not
  do what it means to: an object deleted in the middle of its registrations, arrays written behind their
  end (neighbour cache, NAT interfaces), subnets that keep the wrong mask, dependencies that leak or are
  torn down too early, lists with holes in the listener, an unassigned index, a second NAT table written behind the array of
  tables, a dump that reads behind the tables, two queues made for one at the first use, clients installed after they have left. The invariant of the NAT tables assumes up to 20480 entries: beyond, offsets kept in 16 bits and
  the power of two overflow.

  \<^bold>\<open>Not modelled.\<close> The interface objects (\<open>IPACM_Lan\<close> but for what the bridge calls, \<open>IPACM_Wlan\<close>, \<open>IPACM_Wan\<close>,
  \<open>IPACM_IfaceManager\<close>), whose work is filling \<open>ioctl\<close> structures; the functions of the bridge that print its state; the sources of the events
  (\<open>IPACM_Netlink\<close>, \<open>IPACM_ConntrackClient\<close>) and the XML parser, whose results are arguments here; and
  the Android HALs outside \<open>data-ipa-cfg-mgr\<close>, but for the camera parameters. Code under \<open>CT_OPT\<close> and other switches that the build does
  not set is left out.
\<close>

end
